(* ===== verification/CPrelude.thy ===== *)
theory CPrelude
  imports Main "HOL-Library.Word" "HOL-Library.Signed_Division" "HOL-Library.Monad_Syntax"
begin

unbundle bit_operations_syntax

text \<open>
  The vocabulary every component shares: the C integers, arrays and allocation outcomes.

  Every C function is translated into a HOL function whose result is an \<open>option\<close>: \<open>None\<close> is a run
  that has undefined behaviour in C (an access outside an array, a signed overflow, a division by
  zero) or a loop that does not end; \<open>Some\<close> carries the value returned and the new state.
  \<^item> \<open>int\<close> values are HOL \<open>int\<close>s, and \<open>cint\<close> marks an arithmetic result the C program stores in an
    \<open>int\<close>, so a signed overflow is \<open>None\<close>;
  \<^item> pointers stored in containers are \<open>64 word\<close>s, with \<open>NULL\<close> the word 0;
  \<^item> an allocated array is a list, read and written by \<open>aget\<close> and \<open>aset\<close>, which check the bounds;
  \<^item> the outcome of \<open>malloc\<close> or \<open>realloc\<close> is an argument of the operation that calls it: \<open>None\<close> when
    it fails, \<open>Some j\<close> when it succeeds and the fresh cells hold the arbitrary values \<open>j 0\<close>, \<open>j 1\<close>
    and so on.
\<close>

named_theorems c_ops \<open>evaluation rules of the checked C operations\<close>

type_synonym ptr = "64 word"
type_synonym byte = "8 word"
type_synonym 'a fresh = "(nat \<Rightarrow> 'a) option"

abbreviation NULL :: ptr where
  "NULL \<equiv> 0"

abbreviation INT_MAX :: int where
  "INT_MAX \<equiv> 2147483647"

section \<open>Signed C arithmetic\<close>

definition cint :: "int \<Rightarrow> int option" where
  "cint x = (if - 2147483648 \<le> x \<and> x \<le> INT_MAX then Some x else None)"

definition crem :: "int \<Rightarrow> int \<Rightarrow> int option" where
  "crem a b = (if b = 0 then None else Some (a smod b))"

definition cdiv :: "int \<Rightarrow> int \<Rightarrow> int option" where
  "cdiv a b = (if b = 0 then None else cint (a sdiv b))"

lemma cint_Some [c_ops]: "- 2147483648 \<le> x \<Longrightarrow> x \<le> INT_MAX \<Longrightarrow> cint x = Some x"
  by (simp add: cint_def)

lemma cint_eq_Some: "cint x = Some y \<longleftrightarrow> y = x \<and> - 2147483648 \<le> x \<and> x \<le> INT_MAX"
  by (auto simp: cint_def)

lemma smod_nonneg: "0 \<le> a \<Longrightarrow> 0 < b \<Longrightarrow> a smod b = a mod (b::int)"
  by (cases "a = 0")
    (simp_all add: signed_modulo_int_def signed_divide_int_def minus_div_mult_eq_mod)

lemma sdiv_nonneg: "0 \<le> a \<Longrightarrow> 0 < b \<Longrightarrow> a sdiv b = a div (b::int)"
  by (cases "a = 0") (simp_all add: signed_divide_int_def)

lemma crem_Some [c_ops]: "0 \<le> a \<Longrightarrow> 0 < b \<Longrightarrow> crem a b = Some (a mod b)"
  by (simp add: crem_def smod_nonneg)

lemma div_le_self_int: "0 \<le> a \<Longrightarrow> 0 < b \<Longrightarrow> a div b \<le> (a::int)"
  using zdiv_mono2 [of a 1 b] by simp

lemma cdiv_Some [c_ops]:
  "0 \<le> a \<Longrightarrow> 0 < b \<Longrightarrow> a \<le> INT_MAX \<Longrightarrow> cdiv a b = Some (a div b)"
  using div_le_self_int [of a b] pos_imp_zdiv_nonneg_iff [of b a]
  by (simp add: cdiv_def sdiv_nonneg cint_def)

section \<open>Arrays\<close>

definition aget :: "'a list \<Rightarrow> int \<Rightarrow> 'a option" where
  "aget xs i = (if 0 \<le> i \<and> i < int (length xs) then Some (xs ! nat i) else None)"

definition aset :: "'a list \<Rightarrow> int \<Rightarrow> 'a \<Rightarrow> 'a list option" where
  "aset xs i v = (if 0 \<le> i \<and> i < int (length xs) then Some (xs[nat i := v]) else None)"

text \<open>\<open>realloc\<close> to \<open>n\<close> cells keeps the common prefix and leaves the rest undetermined.\<close>

definition arealloc :: "'a list \<Rightarrow> int \<Rightarrow> (nat \<Rightarrow> 'a) \<Rightarrow> 'a list" where
  "arealloc xs n j = take (nat n) xs @ map j [length xs..<nat n]"

text \<open>\<open>memset\<close> of \<open>n\<close> cells from index \<open>i\<close>.\<close>

definition afill :: "'a list \<Rightarrow> int \<Rightarrow> int \<Rightarrow> 'a \<Rightarrow> 'a list option" where
  "afill xs i n v =
     (if 0 \<le> i \<and> 0 \<le> n \<and> i + n \<le> int (length xs)
      then Some (take (nat i) xs @ replicate (nat n) v @ drop (nat (i + n)) xs) else None)"

text \<open>\<open>memmove\<close> of \<open>n\<close> cells inside one array; a negative count is a huge \<open>size_t\<close>.\<close>

definition amove :: "'a list \<Rightarrow> int \<Rightarrow> int \<Rightarrow> int \<Rightarrow> 'a list option" where
  "amove xs d s n =
     (if 0 \<le> n \<and> 0 \<le> d \<and> 0 \<le> s \<and> d + n \<le> int (length xs) \<and> s + n \<le> int (length xs)
      then Some (take (nat d) xs @ take (nat n) (drop (nat s) xs) @ drop (nat (d + n)) xs)
      else None)"

text \<open>\<open>memcpy\<close> inside one array, whose two ranges must not overlap.\<close>

definition acopy :: "'a list \<Rightarrow> int \<Rightarrow> int \<Rightarrow> int \<Rightarrow> 'a list option" where
  "acopy xs d s n = (if n \<le> 0 \<or> d + n \<le> s \<or> s + n \<le> d then amove xs d s n else None)"

text \<open>\<open>memcpy\<close> of a block from outside into an array.\<close>

definition ablit :: "'a list \<Rightarrow> int \<Rightarrow> 'a list \<Rightarrow> 'a list option" where
  "ablit xs d ys =
     (if 0 \<le> d \<and> d + int (length ys) \<le> int (length xs)
      then Some (take (nat d) xs @ ys @ drop (nat d + length ys) xs) else None)"

text \<open>Reading a block of \<open>n\<close> cells from index \<open>i\<close>.\<close>

definition ablock :: "'a list \<Rightarrow> int \<Rightarrow> int \<Rightarrow> 'a list option" where
  "ablock xs i n =
     (if 0 \<le> i \<and> 0 \<le> n \<and> i + n \<le> int (length xs)
      then Some (take (nat n) (drop (nat i) xs)) else None)"

lemma aget_Some [c_ops]: "0 \<le> i \<Longrightarrow> i < int (length xs) \<Longrightarrow> aget xs i = Some (xs ! nat i)"
  by (simp add: aget_def)

lemma aget_int: "aget xs (int i) = (if i < length xs then Some (xs ! i) else None)"
  by (simp add: aget_def)

lemma aset_Some [c_ops]: "0 \<le> i \<Longrightarrow> i < int (length xs) \<Longrightarrow> aset xs i v = Some (xs[nat i := v])"
  by (simp add: aset_def)

lemma length_arealloc [simp]: "length (arealloc xs n j) = nat n"
  by (simp add: arealloc_def)

lemma nth_arealloc: "i < nat n \<Longrightarrow>
    arealloc xs n j ! i = (if i < length xs then xs ! i else j i)"
  by (simp add: arealloc_def nth_append min_def)

lemma take_arealloc: "k \<le> nat n \<Longrightarrow> k \<le> length xs \<Longrightarrow> take k (arealloc xs n j) = take k xs"
  by (rule nth_equalityI) (simp_all add: nth_arealloc)

lemma amove_Some [c_ops]:
  "0 \<le> n \<Longrightarrow> 0 \<le> d \<Longrightarrow> 0 \<le> s \<Longrightarrow> d + n \<le> int (length xs) \<Longrightarrow> s + n \<le> int (length xs) \<Longrightarrow>
    amove xs d s n = Some (take (nat d) xs @ take (nat n) (drop (nat s) xs) @ drop (nat (d + n)) xs)"
  by (simp add: amove_def)

lemma amove_length: "amove xs d s n = Some ys \<Longrightarrow> length ys = length xs"
  by (auto simp: amove_def split: if_splits)

section \<open>Loops\<close>

text \<open>A counting loop whose body may fault, over the list of its indices.\<close>

fun foldM :: "('i \<Rightarrow> 's \<Rightarrow> 's option) \<Rightarrow> 'i list \<Rightarrow> 's \<Rightarrow> 's option" where
  "foldM f [] s = Some s"
| "foldM f (i # is) s = do { s' \<leftarrow> f i s; foldM f is s' }"

text \<open>
  A search loop with \<open>break\<close>: \<open>Some (Some i)\<close> is the first index whose test holds, \<open>Some None\<close> no
  such index, \<open>None\<close> a test that faults.
\<close>

fun searchM :: "('i \<Rightarrow> bool option) \<Rightarrow> 'i list \<Rightarrow> 'i option option" where
  "searchM f [] = Some None"
| "searchM f (i # is) = do { b \<leftarrow> f i; if b then Some (Some i) else searchM f is }"

lemma searchM_find: "(\<And>i. i \<in> set is \<Longrightarrow> f i = Some (P i)) \<Longrightarrow> searchM f is = Some (List.find P is)"
  by (induction "is") auto

lemma searchM_total: "(\<And>i. i \<in> set is \<Longrightarrow> \<exists>b. f i = Some b) \<Longrightarrow> \<exists>r. searchM f is = Some r"
proof (induction "is")
  case (Cons i "is")
  then obtain b where "f i = Some b" by auto
  with Cons show ?case by (cases b) auto
qed simp

lemma foldM_append: "foldM f (xs @ ys) s = do { s' \<leftarrow> foldM f xs s; foldM f ys s' }"
  by (induction xs arbitrary: s) (auto split: Option.bind_split)

lemma foldM_Nil_fun: "foldM f [] = Some"
  by (rule ext) simp

lemma foldM_invariant:
  assumes "\<And>i s. i \<in> set is \<Longrightarrow> P s \<Longrightarrow> \<exists>s'. f i s = Some s' \<and> P s'" and "P s"
  shows "\<exists>s'. foldM f is s = Some s' \<and> P s'"
  using assms
proof (induction "is" arbitrary: s)
  case (Cons i "is")
  then obtain s' where "f i s = Some s'" and "P s'" by (meson list.set_intros(1))
  with Cons show ?case by simp
qed simp

section \<open>Lists and indices\<close>

lemma nat_one_plus_int [simp]: "nat (1 + int n) = Suc n"
  by simp

lemma nat_int_plus_one [simp]: "nat (int n + 1) = Suc n"
  by simp

lemma find_map: "List.find P (map f xs) = map_option f (List.find (P \<circ> f) xs)"
  by (induction xs) auto

lemma find_Some_ex: "(\<exists>i. List.find P xs = Some i) \<longleftrightarrow> (\<exists>x \<in> set xs. P x)"
  by (induction xs) auto

lemma upto_int: "[0..int t - 1] = map int [0..<t]"
proof (induction t)
  case (Suc t)
  have "[0..int t] = [0..int t - 1] @ [int t]" by (rule upto_rec2) simp
  with Suc show ?case by simp
qed simp

text \<open>The loop \<open>for (i = 0; i < t; i++) if (P(xs[i])) break;\<close> over the first cells of an array.\<close>

definition first_index :: "('a \<Rightarrow> bool) \<Rightarrow> 'a list \<Rightarrow> nat \<Rightarrow> nat option" where
  "first_index P xs t = List.find (\<lambda>i. P (xs ! i)) [0..<t]"

lemma searchM_array:
  assumes "t \<le> length xs"
  shows "searchM (\<lambda>i. do { x \<leftarrow> aget xs i; Some (P x) }) [0..int t - 1] =
    Some (map_option int (first_index P xs t))"
proof -
  have "searchM (\<lambda>i. do { x \<leftarrow> aget xs i; Some (P x) }) [0..int t - 1] =
      Some (List.find (\<lambda>i. P (xs ! nat i)) (map int [0..<t]))"
    using assms by (subst upto_int, intro searchM_find) (auto simp: aget_def)
  also have "\<dots> = Some (map_option int (first_index P xs t))"
    by (simp add: find_map first_index_def comp_def)
  finally show ?thesis .
qed

lemma first_index_Some:
  assumes "first_index P xs t = Some i"
  shows "i < t \<and> P (xs ! i) \<and> (\<forall>k < i. \<not> P (xs ! k))"
proof -
  from assms obtain k where "k < t" "P (xs ! ([0..<t] ! k))" "i = [0..<t] ! k"
    "\<forall>j < k. \<not> P (xs ! ([0..<t] ! j))"
    by (auto simp: first_index_def find_Some_iff)
  then show ?thesis by simp
qed

lemma first_index_None: "first_index P xs t = None \<longleftrightarrow> (\<forall>i < t. \<not> P (xs ! i))"
  by (auto simp: first_index_def find_None_iff)

lemma first_index_ex:
  assumes "t \<le> length xs"
  shows "first_index P xs t \<noteq> None \<longleftrightarrow> (\<exists>x \<in> set (take t xs). P x)"
  using assms unfolding first_index_None by (auto simp flip: nth_image)

end
