(* ===== verification/RingSeq.thy ===== *)
theory RingSeq
  imports CPrelude
begin

text \<open>
  The sequence held by a circular array: \<open>n\<close> cells from index \<open>h\<close>, indices taken modulo the length of
  the array. \<open>Queue.c\<close>, \<open>MessageQueue.c\<close> and \<open>ringbuffer.c\<close> all keep their contents this way. The
  second part is the contract of a first-in first-out queue, stated once as a locale and met by both
  queue implementations.
\<close>

section \<open>The live part of a circular array\<close>

definition ring :: "'a list \<Rightarrow> nat \<Rightarrow> nat \<Rightarrow> 'a list" where
  "ring xs h n = map (\<lambda>i. xs ! ((h + i) mod length xs)) [0..<n]"

lemma length_ring [simp]: "length (ring xs h n) = n"
  by (simp add: ring_def)

lemma ring_0 [simp]: "ring xs h 0 = []"
  by (simp add: ring_def)

lemma ring_Nil_iff [simp]: "ring xs h n = [] \<longleftrightarrow> n = 0"
  by (simp add: ring_def)

lemma nth_ring: "i < n \<Longrightarrow> ring xs h n ! i = xs ! ((h + i) mod length xs)"
  by (simp add: ring_def)

lemma ring_snoc: "ring xs h (Suc n) = ring xs h n @ [xs ! ((h + n) mod length xs)]"
  by (simp add: ring_def)

lemma ring_Cons: "ring xs h (Suc n) = xs ! (h mod length xs) # ring xs (Suc h) n"
  by (rule nth_equalityI) (auto simp: nth_ring nth_Cons split: nat.split)

lemma ring_mod: "ring xs (h mod length xs) n = ring xs h n"
  by (simp add: ring_def mod_add_left_eq)

lemma mod_add_eq_less: "(h + i) mod n = (h + j) mod n \<Longrightarrow> i \<le> j \<Longrightarrow> j < n \<Longrightarrow> i = (j::nat)"
proof -
  assume eq: "(h + i) mod n = (h + j) mod n" and ij: "i \<le> j" and j: "j < n"
  from eq ij have "n dvd (h + j) - (h + i)"
    using mod_eq_dvd_iff_nat [of "h + i" "h + j" n] by simp
  then have "n dvd j - i" by simp
  moreover have "j - i < n" using j by simp
  ultimately have "j - i = 0" by (meson dvd_imp_le not_le not_gr_zero)
  with ij show "i = j" by simp
qed

lemma mod_add_inj: "(h + i) mod n = (h + j) mod n \<Longrightarrow> i < n \<Longrightarrow> j < n \<Longrightarrow> i = (j::nat)"
  using mod_add_eq_less [of h i n j] mod_add_eq_less [of h j n i] by (metis nat_le_linear)

lemma ring_update_free:
  assumes "n \<le> k" and "k < length xs"
  shows "ring (xs[(h + k) mod length xs := v]) h n = ring xs h n"
proof (rule nth_equalityI)
  fix i assume "i < length (ring (xs[(h + k) mod length xs := v]) h n)"
  with assms have "i < n" and "(h + k) mod length xs \<noteq> (h + i) mod length xs"
    using mod_add_inj [of h k "length xs" i] by auto
  then show "ring (xs[(h + k) mod length xs := v]) h n ! i = ring xs h n ! i"
    by (simp add: nth_ring)
qed simp

lemma ring_put:
  assumes "n < length xs"
  shows "ring (xs[(h + n) mod length xs := v]) h (Suc n) = ring xs h n @ [v]"
proof -
  have "0 < length xs" using assms by linarith
  then have "(h + n) mod length xs < length xs" by (rule mod_less_divisor)
  then show ?thesis using ring_update_free [OF order_refl assms, of h v] by (simp add: ring_snoc)
qed

lemma ring_take:
  assumes "h < length xs" and "n < length xs"
  shows "ring (xs[h := v]) (Suc h mod length xs) n = tl (ring xs h (Suc n))"
proof -
  have "ring (xs[h := v]) (Suc h mod length xs) n = ring (xs[h := v]) (Suc h) n"
    using ring_mod [of "xs[h := v]" "Suc h" n] by simp
  also have "\<dots> = ring xs (Suc h) n"
  proof (rule nth_equalityI)
    fix i assume "i < length (ring (xs[h := v]) (Suc h) n)"
    then have i: "Suc i < length xs" "i < n" using assms by simp_all
    have "(h + Suc i) mod length xs \<noteq> h"
      using mod_add_inj [of h "Suc i" "length xs" 0] i assms by (metis Suc_lessD gr_zeroI
        add.right_neutral mod_less old.nat.distinct(1) Suc_neq_Zero zero_less_Suc less_trans)
    then show "ring (xs[h := v]) (Suc h) n ! i = ring xs (Suc h) n ! i"
      using i by (simp add: nth_ring)
  qed simp
  finally show ?thesis by (simp add: ring_Cons)
qed

lemma ring_set: "0 < length xs \<Longrightarrow> set (ring xs h n) \<subseteq> set xs"
  by (auto simp: ring_def)

text \<open>
  Growing a full or part-full ring in place: the new array keeps the old cells, and the cells that
  had wrapped round to the start are repeated right after the old end.
\<close>

lemma ring_grow:
  assumes "h < length xs" and "n \<le> length xs" and "2 * length xs \<le> length ys"
    and old: "\<And>i. i < length xs \<Longrightarrow> h \<le> i \<Longrightarrow> ys ! i = xs ! i"
    and wrapped: "\<And>i. length xs + i < h + n \<Longrightarrow> ys ! (length xs + i) = xs ! i"
  shows "ring ys h n = ring xs h n"
proof (rule nth_equalityI)
  fix i assume "i < length (ring ys h n)"
  then have i: "i < n" by simp
  with assms have lt: "h + i < length ys" by simp
  show "ring ys h n ! i = ring xs h n ! i"
  proof (cases "h + i < length xs")
    case True
    with i lt show ?thesis by (simp add: nth_ring old)
  next
    case False
    then obtain k where k: "h + i = length xs + k" using le_Suc_ex not_less by blast
    with assms(1,2) i have "k < length xs" by simp
    with k i lt wrapped [of k] show ?thesis by (simp add: nth_ring)
  qed
qed simp

text \<open>
  The way both queues grow a full ring: \<open>realloc\<close>, clear as many cells as there were before, copy
  the cells below the head behind the old end.
\<close>

lemma ring_realloc:
  assumes h: "h < length xs" and N: "2 * length xs \<le> N"
  shows "\<exists>arr1 arr2. afill (arealloc xs (int N) j) (int (length xs)) (int (length xs)) z = Some arr1
    \<and> acopy arr1 (int (length xs)) 0 (int h) = Some arr2 \<and> length arr1 = N \<and> length arr2 = N
    \<and> ring arr2 h (length xs) = ring xs h (length xs)"
proof -
  let ?L = "length xs"
  define arr0 where "arr0 = arealloc xs (int N) j"
  define arr1 where "arr1 = take ?L arr0 @ replicate ?L z @ drop (2 * ?L) arr0"
  define arr2 where "arr2 = take ?L arr1 @ take h arr1 @ drop (?L + h) arr1"
  have len0: "length arr0 = N" by (simp add: arr0_def)
  have len1: "length arr1 = N" using len0 N by (simp add: arr1_def)
  have len2: "length arr2 = N" using len1 N h by (simp add: arr2_def)
  have t0: "take ?L arr0 = xs" unfolding arr0_def using N by (subst take_arealloc) simp_all
  have t1: "take ?L arr1 = xs" using t0 len0 N by (simp add: arr1_def)
  have th1: "take h arr1 = take h xs" using t1 h by (metis min.absorb1 less_imp_le take_take)
  have arr2: "arr2 = xs @ take h xs @ drop (?L + h) arr1" using t1 th1 by (simp add: arr2_def)
  have ring: "ring arr2 h ?L = ring xs h ?L"
  proof (rule ring_grow)
    show "2 * ?L \<le> length arr2" using len2 N by simp
    fix i assume "?L + i < h + ?L"
    then have "i < h" by simp
    then show "arr2 ! (?L + i) = xs ! i" using h by (simp add: arr2 nth_append)
  qed (use h in \<open>simp_all add: arr2 nth_append\<close>)
  have "afill arr0 (int ?L) (int ?L) z = Some arr1"
    using len0 N by (simp add: afill_def arr1_def nat_mult_distrib)
  moreover have "acopy arr1 (int ?L) 0 (int h) = Some arr2"
    using len1 N h by (simp add: acopy_def amove_def arr2_def nat_add_distrib)
  ultimately show ?thesis using len1 len2 ring by (auto simp: arr0_def)
qed

section \<open>The contract of a first-in first-out queue\<close>

text \<open>
  \<open>put x q\<close> appends (\<open>None\<close> if it faults), \<open>get q\<close> removes the first item and returns it, or the
  marker \<open>nothing\<close> when the queue is empty; \<open>fits q n\<close> says that \<open>q\<close> can grow to \<open>n\<close> items before a
  size computation leaves the range of \<open>int\<close>.
\<close>

datatype 'a queue_op = Put 'a | Get

fun run_queue :: "('a \<Rightarrow> 'q \<Rightarrow> 'q option) \<Rightarrow> ('q \<Rightarrow> ('a \<times> 'q) option) \<Rightarrow> 'a queue_op list \<Rightarrow> 'q \<Rightarrow>
    ('a list \<times> 'q) option" where
  "run_queue put get [] q = Some ([], q)"
| "run_queue put get (Put x # ops) q = do { q \<leftarrow> put x q; run_queue put get ops q }"
| "run_queue put get (Get # ops) q = do {
     (x, q) \<leftarrow> get q;
     (xs, q) \<leftarrow> run_queue put get ops q;
     Some (x # xs, q) }"

fun run_list :: "'a \<Rightarrow> 'a queue_op list \<Rightarrow> 'a list \<Rightarrow> 'a list \<times> 'a list" where
  "run_list nothing [] xs = ([], xs)"
| "run_list nothing (Put x # ops) xs = run_list nothing ops (xs @ [x])"
| "run_list nothing (Get # ops) [] = (let (out, ys) = run_list nothing ops [] in (nothing # out, ys))"
| "run_list nothing (Get # ops) (x # xs) =
     (let (out, ys) = run_list nothing ops xs in (x # out, ys))"

fun n_puts :: "'a queue_op list \<Rightarrow> nat" where
  "n_puts [] = 0"
| "n_puts (Put x # ops) = Suc (n_puts ops)"
| "n_puts (Get # ops) = n_puts ops"

locale fifo =
  fixes put :: "'a \<Rightarrow> 'q \<Rightarrow> 'q option"
    and get :: "'q \<Rightarrow> ('a \<times> 'q) option"
    and nothing :: 'a
    and items :: "'q \<Rightarrow> 'a list"
    and ok :: "'q \<Rightarrow> bool"
    and fits :: "'q \<Rightarrow> nat \<Rightarrow> bool"
  assumes fifo_put: "ok q \<Longrightarrow> fits q n \<Longrightarrow> length (items q) < n \<Longrightarrow>
      \<exists>q'. put x q = Some q' \<and> ok q' \<and> fits q' n \<and> items q' = items q @ [x]"
    and fifo_get_empty: "ok q \<Longrightarrow> fits q n \<Longrightarrow> items q = [] \<Longrightarrow>
      \<exists>q'. get q = Some (nothing, q') \<and> ok q' \<and> fits q' n \<and> items q' = []"
    and fifo_get_item: "ok q \<Longrightarrow> fits q n \<Longrightarrow> items q = x # xs \<Longrightarrow>
      \<exists>q'. get q = Some (x, q') \<and> ok q' \<and> fits q' n \<and> items q' = xs"
begin

lemma fifo_run:
  assumes "ok q" and "fits q n" and "length (items q) + n_puts ops \<le> n"
  shows "\<exists>q'. run_queue put get ops q = Some (fst (run_list nothing ops (items q)), q')
    \<and> ok q' \<and> fits q' n \<and> items q' = snd (run_list nothing ops (items q))"
  using assms
proof (induction ops arbitrary: q)
  case Nil
  then show ?case by simp
next
  case (Cons c ops)
  show ?case
  proof (cases c)
    case (Put x)
    with Cons.prems fifo_put [of q n x] obtain q' where
      "put x q = Some q'" "ok q'" "fits q' n" "items q' = items q @ [x]" by auto
    with Put Cons.IH [of q'] Cons.prems show ?thesis by simp
  next
    case Get
    show ?thesis
    proof (cases "items q")
      case Nil
      with Cons.prems fifo_get_empty [of q n] obtain q' where
        "get q = Some (nothing, q')" "ok q'" "fits q' n" "items q' = []" by auto
      with Nil Get Cons.IH [of q'] Cons.prems show ?thesis by (auto split: prod.splits)
    next
      case (Cons x xs)
      with Cons.prems fifo_get_item [of q n x xs] obtain q' where
        "get q = Some (x, q')" "ok q'" "fits q' n" "items q' = xs" by auto
      with Cons Get Cons.IH [of q'] Cons.prems show ?thesis by (auto split: prod.splits)
    qed
  qed
qed

end

end
