(* ===== verification/WQueue.thy ===== *)
theory WQueue
  imports RingSeq
begin

text \<open>
  \<open>wQueue\<close> of \<open>winpr/libwinpr/utils/collections/Queue.c\<close>: a circular array of object pointers that
  doubles (more exactly, multiplies by the growth factor) when it is full. The critical section is
  its recursion count \<open>q_lock\<close>, the manual-reset event the flag \<open>q_event\<close>; \<open>q_fnObjectFree\<close> says
  whether a free callback is installed and \<open>q_freed\<close> records the calls made to it.
\<close>

section \<open>State\<close>

record wQueue =
  q_capacity :: int
  q_growthFactor :: int
  q_synchronized :: bool
  q_head :: int
  q_tail :: int
  q_size :: int
  q_array :: "ptr list"
  q_lock :: int
  q_event :: bool
  q_fnObjectFree :: bool
  q_fnObjectEquals :: "ptr \<Rightarrow> ptr \<Rightarrow> bool"
  q_freed :: "ptr list"

definition Queue_Lock :: "wQueue \<Rightarrow> wQueue" where
  "Queue_Lock q = q\<lparr>q_lock := q_lock q + 1\<rparr>"

definition Queue_Unlock :: "wQueue \<Rightarrow> wQueue" where
  "Queue_Unlock q = q\<lparr>q_lock := q_lock q - 1\<rparr>"

abbreviation q_enter :: "wQueue \<Rightarrow> wQueue" where
  "q_enter q \<equiv> (if q_synchronized q then Queue_Lock q else q)"

abbreviation q_leave :: "wQueue \<Rightarrow> wQueue" where
  "q_leave q \<equiv> (if q_synchronized q then Queue_Unlock q else q)"

section \<open>Operations\<close>

definition Queue_Count :: "wQueue \<Rightarrow> int \<times> wQueue" where
  "Queue_Count q = (let q = q_enter q; ret = q_size q in (ret, q_leave q))"

definition Queue_Event :: "wQueue \<Rightarrow> bool" where
  "Queue_Event q = q_event q"

partial_function (option) Queue_Clear_loop :: "int \<Rightarrow> wQueue \<Rightarrow> wQueue option" where
  "Queue_Clear_loop index q =
     (if index = q_tail q then Some q
      else do {
        x \<leftarrow> aget (q_array q) index;
        arr \<leftarrow> aset (q_array q) index NULL;
        i1 \<leftarrow> cint (index + 1);
        i2 \<leftarrow> crem i1 (q_capacity q);
        Queue_Clear_loop i2
          (q\<lparr>q_freed := (if q_fnObjectFree q then q_freed q @ [x] else q_freed q), q_array := arr\<rparr>)
      })"

definition Queue_Clear :: "wQueue \<Rightarrow> wQueue option" where
  "Queue_Clear q = do {
     q \<leftarrow> Queue_Clear_loop (q_head (q_enter q)) (q_enter q);
     Some (q_leave (q\<lparr>q_size := 0, q_head := 0, q_tail := 0\<rparr>)) }"

definition Queue_Contains :: "wQueue \<Rightarrow> ptr \<Rightarrow> (bool \<times> wQueue) option" where
  "Queue_Contains q0 obj = do {
     let q = q_enter q0;
     r \<leftarrow> searchM (\<lambda>index. do { x \<leftarrow> aget (q_array q) index; Some (q_fnObjectEquals q x obj) })
           [0..q_tail q - 1];
     let found = (r \<noteq> None);
     Some (found, q_leave q) }"

text \<open>The growth of a full queue, \<open>None\<close> inside when \<open>realloc\<close> fails.\<close>

definition Queue_Grow :: "ptr fresh \<Rightarrow> wQueue \<Rightarrow> wQueue option option" where
  "Queue_Grow mem q = do {
     let old_capacity = q_capacity q;
     new_capacity \<leftarrow> cint (q_capacity q * q_growthFactor q);
     (case mem of
        None \<Rightarrow> Some None
      | Some j \<Rightarrow> do {
          let arr = arealloc (q_array q) new_capacity j;
          arr \<leftarrow> afill arr old_capacity old_capacity NULL;
          let q = q\<lparr>q_capacity := new_capacity, q_array := arr\<rparr>;
          if q_tail q < old_capacity then do {
            arr \<leftarrow> acopy (q_array q) old_capacity 0 (q_tail q);
            tail \<leftarrow> cint (q_tail q + old_capacity);
            Some (Some (q\<lparr>q_array := arr, q_tail := tail\<rparr>))
          } else Some (Some q)
        }) }"

definition Queue_Enqueue :: "ptr fresh \<Rightarrow> wQueue \<Rightarrow> ptr \<Rightarrow> (bool \<times> wQueue) option" where
  "Queue_Enqueue mem q0 obj = do {
     let q = q_enter q0;
     g \<leftarrow> (if q_size q = q_capacity q then Queue_Grow mem q else Some (Some q));
     (case g of
        None \<Rightarrow> Some (False, q_leave q)
      | Some q \<Rightarrow> do {
          arr \<leftarrow> aset (q_array q) (q_tail q) obj;
          t1 \<leftarrow> cint (q_tail q + 1);
          tail \<leftarrow> crem t1 (q_capacity q);
          size \<leftarrow> cint (q_size q + 1);
          Some (True, q_leave (q\<lparr>q_array := arr, q_tail := tail, q_size := size, q_event := True\<rparr>))
        }) }"

definition Queue_Dequeue :: "wQueue \<Rightarrow> (ptr \<times> wQueue) option" where
  "Queue_Dequeue q0 = do {
     let q = q_enter q0;
     (obj, q) \<leftarrow>
       (if 0 < q_size q then do {
          obj \<leftarrow> aget (q_array q) (q_head q);
          arr \<leftarrow> aset (q_array q) (q_head q) NULL;
          h1 \<leftarrow> cint (q_head q + 1);
          head \<leftarrow> crem h1 (q_capacity q);
          Some (obj, q\<lparr>q_array := arr, q_head := head, q_size := q_size q - 1\<rparr>)
        } else Some (NULL, q));
     let q = (if q_size q < 1 then q\<lparr>q_event := False\<rparr> else q);
     Some (obj, q_leave q) }"

definition Queue_Peek :: "wQueue \<Rightarrow> (ptr \<times> wQueue) option" where
  "Queue_Peek q0 = do {
     let q = q_enter q0;
     obj \<leftarrow> (if 0 < q_size q then aget (q_array q) (q_head q) else Some NULL);
     Some (obj, q_leave q) }"

definition default_queue_equals :: "ptr \<Rightarrow> ptr \<Rightarrow> bool" where
  "default_queue_equals obj1 obj2 = (obj1 = obj2)"

text \<open>
  The constructor: the four booleans are the outcomes of \<open>calloc\<close> of the struct, \<open>calloc\<close> of the
  array, \<open>CreateEvent\<close> and \<open>InitializeCriticalSectionAndSpinCount\<close>; the result \<open>None\<close> is \<open>NULL\<close>.
\<close>

definition Queue_New :: "bool \<Rightarrow> bool \<Rightarrow> bool \<Rightarrow> bool \<Rightarrow> bool \<Rightarrow> int \<Rightarrow> int \<Rightarrow> wQueue option" where
  "Queue_New mem_queue mem_array event_ok lock_ok synchronized capacity growthFactor =
     (if \<not> mem_queue then None
      else
        let cap = (if 0 < capacity then capacity else 32);
            growth = (if 0 < growthFactor then growthFactor else 2)
        in if \<not> mem_array then None
           else if \<not> event_ok then None
           else if \<not> lock_ok then None
           else Some \<lparr>q_capacity = cap, q_growthFactor = growth, q_synchronized = synchronized,
             q_head = 0, q_tail = 0, q_size = 0, q_array = replicate (nat cap) NULL, q_lock = 0,
             q_event = False, q_fnObjectFree = False, q_fnObjectEquals = default_queue_equals,
             q_freed = []\<rparr>)"

text \<open>\<open>Queue_Free\<close> clears the queue before its memory goes; the callback calls are what remains.\<close>

definition Queue_Free :: "wQueue option \<Rightarrow> ptr list option" where
  "Queue_Free queue = (case queue of None \<Rightarrow> Some []
     | Some q \<Rightarrow> do { q \<leftarrow> Queue_Clear q; Some (q_freed q) })"

section \<open>Invariant and abstraction\<close>

definition queue_items :: "wQueue \<Rightarrow> ptr list" where
  "queue_items q = ring (q_array q) (nat (q_head q)) (nat (q_size q))"

definition queue_inv :: "wQueue \<Rightarrow> bool" where
  "queue_inv q \<longleftrightarrow> 0 < q_capacity q \<and> q_capacity q \<le> INT_MAX \<and> 2 \<le> q_growthFactor q
     \<and> int (length (q_array q)) = q_capacity q
     \<and> 0 \<le> q_head q \<and> q_head q < q_capacity q \<and> 0 \<le> q_size q \<and> q_size q \<le> q_capacity q
     \<and> q_tail q = (q_head q + q_size q) mod q_capacity q
     \<and> (0 < q_size q \<longrightarrow> q_event q)"

text \<open>\<open>n\<close> items can be reached by growing without leaving the range of \<open>int\<close>.\<close>

definition queue_fits :: "wQueue \<Rightarrow> nat \<Rightarrow> bool" where
  "queue_fits q n \<longleftrightarrow> int n * q_growthFactor q \<le> INT_MAX"

lemmas queue_lock_defs = Queue_Lock_def Queue_Unlock_def

text \<open>In the invariant every index is a natural number below the length of the array.\<close>

lemma queue_inv_nat:
  assumes "queue_inv q"
  obtains h n where "q_head q = int h" "q_size q = int n" "h < length (q_array q)"
    "n \<le> length (q_array q)" "q_capacity q = int (length (q_array q))"
    "q_tail q = int ((h + n) mod length (q_array q))" "0 < length (q_array q)"
    "int (length (q_array q)) \<le> INT_MAX"
proof
  show "q_head q = int (nat (q_head q))" and "q_size q = int (nat (q_size q))"
    and "nat (q_head q) < length (q_array q)" and "nat (q_size q) \<le> length (q_array q)"
    and "q_capacity q = int (length (q_array q))" and "0 < length (q_array q)"
    and "int (length (q_array q)) \<le> INT_MAX"
    using assms by (auto simp: queue_inv_def)
  show "q_tail q = int ((nat (q_head q) + nat (q_size q)) mod length (q_array q))"
    using assms by (auto simp: queue_inv_def zmod_int)
qed

lemma queue_items_length: "queue_inv q \<Longrightarrow> int (length (queue_items q)) = q_size q"
  by (simp add: queue_items_def queue_inv_def)

lemma queue_inv_lock [simp]: "queue_inv (q\<lparr>q_lock := k\<rparr>) = queue_inv q"
  by (simp add: queue_inv_def)

lemma queue_items_lock [simp]: "queue_items (q\<lparr>q_lock := k\<rparr>) = queue_items q"
  by (simp add: queue_items_def)

lemma Queue_New_inv:
  assumes "Queue_New a b c d sync cap growth = Some q"
    and "cap \<le> INT_MAX" and "growth \<noteq> 1"
  shows "queue_inv q \<and> queue_items q = [] \<and> q_lock q = 0"
  using assms
  by (auto simp: Queue_New_def queue_inv_def queue_items_def Let_def split: if_splits)

section \<open>Enqueue\<close>

lemma Queue_Grow_full:
  assumes inv: "queue_inv q" and full: "q_size q = q_capacity q"
    and fits: "q_capacity q * q_growthFactor q \<le> INT_MAX"
  shows "\<exists>q'. Queue_Grow (Some j) q = Some (Some q') \<and> queue_inv (q'\<lparr>q_event := e\<rparr>) = (0 < q_size q \<longrightarrow> e)
    \<and> queue_items q' = queue_items q \<and> q_size q' = q_size q \<and> q_size q < q_capacity q'
    \<and> q_growthFactor q' = q_growthFactor q \<and> q_synchronized q' = q_synchronized q
    \<and> q_lock q' = q_lock q \<and> q_freed q' = q_freed q \<and> q_fnObjectFree q' = q_fnObjectFree q
    \<and> q_fnObjectEquals q' = q_fnObjectEquals q"
proof -
  let ?L = "length (q_array q)" and ?g = "q_growthFactor q"
  obtain h n where q: "q_head q = int h" "q_size q = int n" "h < ?L" "n \<le> ?L"
    "q_capacity q = int ?L" "q_tail q = int ((h + n) mod ?L)" "0 < ?L" "int ?L \<le> INT_MAX"
    using inv by (rule queue_inv_nat)
  have n: "n = ?L" and tail: "q_tail q = int h" using q full by simp_all
  have g2: "2 \<le> ?g" using inv by (simp add: queue_inv_def)
  define N where "N = nat (int ?L * ?g)"
  have "2 * int ?L \<le> int ?L * ?g" using g2 mult_left_mono [of 2 ?g "int ?L"] by simp
  then have N: "int ?L * ?g = int N" "2 * ?L \<le> N" by (simp_all add: N_def)
  then have Nmax: "int N \<le> INT_MAX" using fits q(5) by simp
  obtain arr1 arr2 where m2: "afill (arealloc (q_array q) (int N) j) (int ?L) (int ?L) NULL = Some arr1"
    and m3: "acopy arr1 (int ?L) 0 (int h) = Some arr2" and len2: "length arr2 = N"
    and ring: "ring arr2 h n = ring (q_array q) h n"
    using ring_realloc [OF q(3) N(2), of j NULL] n by auto
  have m1: "cint (int N) = Some (int N)" using Nmax by (intro cint_Some) simp_all
  have m4: "cint (int h + int ?L) = Some (int h + int ?L)"
    using Nmax N(2) q(3) by (intro cint_Some) simp_all
  have mod: "(int h + int n) mod int N = int h + int n"
    using n q(3) N(2) by (simp flip: of_nat_add)
  have grow: "Queue_Grow (Some j) q = Some (Some (q\<lparr>q_capacity := int N, q_array := arr2,
      q_tail := int h + int ?L\<rparr>))"
    unfolding Queue_Grow_def using q(3,5) tail N(1) m1 m2 m3 m4
    by (simp add: Let_def)
  show ?thesis
    unfolding grow using inv q n g2 ring len2 N(2) Nmax mod
    by (auto simp: queue_inv_def queue_items_def)
qed

text \<open>Storing at the tail of a queue with a free slot.\<close>

lemma queue_store:
  assumes inv: "queue_inv (q\<lparr>q_event := True\<rparr>)" and room: "q_size q < q_capacity q"
  shows "\<exists>arr t. aset (q_array q) (q_tail q) obj = Some arr \<and> cint (q_tail q + 1) = Some (q_tail q + 1)
    \<and> crem (q_tail q + 1) (q_capacity q) = Some t \<and> cint (q_size q + 1) = Some (q_size q + 1)
    \<and> queue_inv (q\<lparr>q_array := arr, q_tail := t, q_size := q_size q + 1, q_event := True\<rparr>)
    \<and> ring arr (nat (q_head q)) (nat (q_size q + 1)) = queue_items q @ [obj]"
proof -
  let ?L = "length (q_array q)"
  obtain h n where q: "q_head q = int h" "q_size q = int n" "h < ?L" "n \<le> ?L"
    "q_capacity q = int ?L" "q_tail q = int ((h + n) mod ?L)" "0 < ?L" "int ?L \<le> INT_MAX"
    using queue_inv_nat [OF inv] by auto
  have n: "n < ?L" using room q by simp
  have t: "(h + n) mod ?L < ?L" using q(7) by simp
  let ?arr = "(q_array q)[(h + n) mod ?L := obj]"
  have ring: "ring ?arr h (Suc n) = queue_items q @ [obj]"
    using ring_put [OF n, of h obj] q by (simp add: queue_items_def)
  have Suc_n: "nat (int n + 1) = Suc n" by simp
  have tail: "(int ((h + n) mod ?L) + 1) mod int ?L = (int h + (int n + 1)) mod int ?L"
    by (simp add: zmod_int mod_add_left_eq add.assoc)
  have "aset (q_array q) (q_tail q) obj = Some ?arr" using t q by (simp add: aset_def)
  moreover have "cint (q_tail q + 1) = Some (q_tail q + 1)"
    using t q by (intro cint_Some) linarith+
  moreover have "crem (q_tail q + 1) (q_capacity q) = Some ((int h + (int n + 1)) mod int ?L)"
    using q tail by (simp add: crem_Some del: of_nat_mod)
  moreover have "cint (q_size q + 1) = Some (q_size q + 1)"
    using n q by (intro cint_Some) linarith+
  ultimately show ?thesis using inv ring Suc_n q n
    by (auto simp: queue_inv_def)
qed

lemma Queue_Enqueue_ok:
  assumes inv: "queue_inv q"
    and fits: "q_size q = q_capacity q \<Longrightarrow> q_capacity q * q_growthFactor q \<le> INT_MAX"
  shows "\<exists>q'. Queue_Enqueue (Some j) q obj = Some (True, q') \<and> queue_inv q'
    \<and> queue_items q' = queue_items q @ [obj] \<and> q_event q' \<and> q_lock q' = q_lock q
    \<and> q_growthFactor q' = q_growthFactor q \<and> q_freed q' = q_freed q
    \<and> q_synchronized q' = q_synchronized q"
proof -
  let ?q = "q_enter q"
  have inv0: "queue_inv ?q" using inv by (simp add: queue_lock_defs)
  have "\<exists>q1. (if q_size ?q = q_capacity ?q then Queue_Grow (Some j) ?q else Some (Some ?q)) = Some (Some q1)
    \<and> queue_inv (q1\<lparr>q_event := True\<rparr>) \<and> queue_items q1 = queue_items q \<and> q_size q1 < q_capacity q1
    \<and> q_growthFactor q1 = q_growthFactor q \<and> q_synchronized q1 = q_synchronized q
    \<and> q_lock q1 = q_lock ?q \<and> q_freed q1 = q_freed q"
  proof (cases "q_size q = q_capacity q")
    case True
    then show ?thesis using Queue_Grow_full [OF inv0, of j True] fits
      by (auto simp: queue_lock_defs)
  next
    case False
    with inv show ?thesis by (auto simp: queue_lock_defs queue_inv_def queue_items_def)
  qed
  then obtain q1 where grow: "(if q_size ?q = q_capacity ?q then Queue_Grow (Some j) ?q
      else Some (Some ?q)) = Some (Some q1)"
    and q1: "queue_inv (q1\<lparr>q_event := True\<rparr>)" "queue_items q1 = queue_items q"
      "q_size q1 < q_capacity q1" "q_growthFactor q1 = q_growthFactor q"
      "q_synchronized q1 = q_synchronized q" "q_lock q1 = q_lock ?q" "q_freed q1 = q_freed q"
    by blast
  obtain arr t where st: "aset (q_array q1) (q_tail q1) obj = Some arr"
    "cint (q_tail q1 + 1) = Some (q_tail q1 + 1)" "crem (q_tail q1 + 1) (q_capacity q1) = Some t"
    "cint (q_size q1 + 1) = Some (q_size q1 + 1)"
    "queue_inv (q1\<lparr>q_array := arr, q_tail := t, q_size := q_size q1 + 1, q_event := True\<rparr>)"
    "ring arr (nat (q_head q1)) (nat (q_size q1 + 1)) = queue_items q1 @ [obj]"
    using queue_store [OF q1(1,3)] by blast
  have "Queue_Enqueue (Some j) q obj = Some (True, q_leave (q1\<lparr>q_array := arr, q_tail := t,
      q_size := q_size q1 + 1, q_event := True\<rparr>))"
    unfolding Queue_Enqueue_def using grow st by (simp add: Let_def)
  then show ?thesis using st q1
    by (auto simp: queue_lock_defs queue_items_def queue_inv_def split: if_splits)
qed

lemma Queue_Enqueue_nomem:
  assumes inv: "queue_inv q" and full: "q_size q = q_capacity q"
    and fits: "q_capacity q * q_growthFactor q \<le> INT_MAX"
  shows "Queue_Enqueue None q obj = Some (False, q)"
proof -
  have "0 \<le> q_capacity q * q_growthFactor q" using inv by (simp add: queue_inv_def)
  then show ?thesis using full fits
    by (simp add: Queue_Enqueue_def Queue_Grow_def queue_lock_defs cint_Some Let_def)
qed

section \<open>Dequeue and peek\<close>

lemma Queue_Dequeue_empty:
  assumes "queue_inv q" and "queue_items q = []"
  shows "Queue_Dequeue q = Some (NULL, q\<lparr>q_event := False\<rparr>)"
  using assms queue_items_length [OF assms(1)]
  by (simp add: Queue_Dequeue_def queue_lock_defs Let_def)

lemma Queue_Dequeue_item:
  assumes inv: "queue_inv q" and items: "queue_items q = x # xs"
  shows "\<exists>q'. Queue_Dequeue q = Some (x, q') \<and> queue_inv q' \<and> queue_items q' = xs
    \<and> q_event q' = (xs \<noteq> []) \<and> q_lock q' = q_lock q \<and> q_growthFactor q' = q_growthFactor q
    \<and> q_freed q' = q_freed q \<and> q_array q' ! nat (q_head q) = NULL"
proof -
  let ?L = "length (q_array q)"
  obtain h n where q: "q_head q = int h" "q_size q = int n" "h < ?L" "n \<le> ?L"
    "q_capacity q = int ?L" "q_tail q = int ((h + n) mod ?L)" "0 < ?L" "int ?L \<le> INT_MAX"
    using queue_inv_nat [OF inv] by auto
  obtain m where m: "n = Suc m" using items q(2) by (cases n) (auto simp: queue_items_def)
  have hd: "q_array q ! h = x" and tl: "ring (q_array q) (Suc h) m = xs"
    using items q(1-3) m by (simp_all add: queue_items_def ring_Cons)
  have xs: "length xs = m" using tl by (metis length_ring)
  let ?arr = "(q_array q)[h := NULL]"
  have ring: "ring ?arr (Suc h mod ?L) m = xs"
    using ring_take [of h "q_array q" m NULL] q(3,4) m tl by (simp add: ring_Cons)
  have m1: "crem (int h + 1) (int ?L) = Some (int (Suc h mod ?L))"
    using q(7) by (simp add: crem_Some zmod_int add.commute)
  have m2: "cint (int h + 1) = Some (int h + 1)" using q(3,8) by (intro cint_Some) linarith+
  have "(Suc h mod ?L + m) mod ?L = (h + n) mod ?L" using m by (simp add: mod_add_left_eq)
  then have tail: "(int (Suc h mod ?L) + int m) mod int ?L = int ((h + n) mod ?L)"
    by (metis of_nat_add zmod_int)
  show ?thesis
    unfolding Queue_Dequeue_def using inv q m hd m1 m2 ring tail xs
    by (auto simp: queue_lock_defs queue_inv_def queue_items_def aget_def aset_def Let_def)
qed

lemma Queue_Peek_ok:
  assumes inv: "queue_inv q"
  shows "Queue_Peek q = Some (case queue_items q of [] \<Rightarrow> NULL | x # _ \<Rightarrow> x, q)"
proof -
  let ?L = "length (q_array q)"
  obtain h n where q: "q_head q = int h" "q_size q = int n" "h < ?L" "n \<le> ?L"
    "q_capacity q = int ?L" "q_tail q = int ((h + n) mod ?L)" "0 < ?L" "int ?L \<le> INT_MAX"
    using queue_inv_nat [OF inv] by auto
  then show ?thesis
    by (cases n) (auto simp: Queue_Peek_def queue_lock_defs queue_items_def ring_Cons aget_def Let_def)
qed

section \<open>Clear and contains\<close>

lemma Queue_Clear_loop_frees:
  assumes "q_capacity q = int (length (q_array q))" and "h < length (q_array q)"
    and "m < length (q_array q)" and "q_tail q = int ((h + m) mod length (q_array q))"
    and "int (length (q_array q)) \<le> INT_MAX"
  shows "\<exists>arr. length arr = length (q_array q) \<and> Queue_Clear_loop (int h) q = Some (q\<lparr>q_array := arr,
    q_freed := q_freed q @ (if q_fnObjectFree q then ring (q_array q) h m else [])\<rparr>)"
  using assms
proof (induction m arbitrary: h q)
  case 0
  then show ?case by (subst Queue_Clear_loop.simps) auto
next
  case (Suc m)
  let ?L = "length (q_array q)"
  have ne: "int h \<noteq> q_tail q"
  proof -
    have "(h + Suc m) mod ?L \<noteq> (h + 0) mod ?L"
      using Suc.prems(2,3) mod_add_inj [of h "Suc m" ?L 0] by fastforce
    then show ?thesis using Suc.prems(2,4) by simp
  qed
  define h' where "h' = Suc h mod ?L"
  have "0 < ?L" using Suc.prems(2) by linarith
  then have h': "h' < ?L" unfolding h'_def by (rule mod_less_divisor)
  have step: "crem (int h + 1) (int ?L) = Some (int h')" "cint (int h + 1) = Some (int h + 1)"
    using Suc.prems(2,5) \<open>0 < ?L\<close> by (simp_all add: crem_Some cint_Some h'_def zmod_int add.commute)
  define q1 where "q1 = q\<lparr>q_freed := (if q_fnObjectFree q then q_freed q @ [q_array q ! h]
    else q_freed q), q_array := (q_array q)[h := NULL]\<rparr>"
  have unfold: "Queue_Clear_loop (int h) q = Queue_Clear_loop (int h') q1"
    using ne step Suc.prems by (subst Queue_Clear_loop.simps) (simp add: aget_int aset_def q1_def)
  have "(h' + m) mod ?L = (h + Suc m) mod ?L" by (simp add: h'_def mod_add_left_eq)
  then obtain arr where arr: "length arr = ?L" "Queue_Clear_loop (int h') q1 = Some (q1\<lparr>q_array := arr,
      q_freed := q_freed q1 @ (if q_fnObjectFree q1 then ring (q_array q1) h' m else [])\<rparr>)"
    using Suc.IH [of q1 h'] Suc.prems h' by (auto simp: q1_def)
  have "ring (q_array q1) h' m = tl (ring (q_array q) h (Suc m))"
    using ring_take [of h "q_array q" m NULL] Suc.prems by (simp add: q1_def h'_def)
  then have "ring (q_array q) h (Suc m) = q_array q ! h # ring (q_array q1) h' m"
    using Suc.prems(2) by (simp add: ring_Cons)
  then show ?case using arr unfold by (auto simp: q1_def)
qed

lemma Queue_Clear_ok:
  assumes inv: "queue_inv q"
  shows "\<exists>q'. Queue_Clear q = Some q' \<and> queue_inv q' \<and> queue_items q' = [] \<and> q_event q' = q_event q
    \<and> q_lock q' = q_lock q \<and> q_capacity q' = q_capacity q
    \<and> q_freed q' = q_freed q @
        (if q_fnObjectFree q \<and> q_size q < q_capacity q then queue_items q else [])"
proof -
  let ?L = "length (q_array q)" and ?q = "q_enter q"
  obtain h n where q: "q_head q = int h" "q_size q = int n" "h < ?L" "n \<le> ?L"
    "q_capacity q = int ?L" "q_tail q = int ((h + n) mod ?L)" "0 < ?L" "int ?L \<le> INT_MAX"
    using queue_inv_nat [OF inv] by auto
  define m where "m = (if n = ?L then 0 else n)"
  have m: "m < ?L" "(h + n) mod ?L = (h + m) mod ?L" using q by (auto simp: m_def)
  have same: "q_array ?q = q_array q" "q_capacity ?q = q_capacity q" "q_tail ?q = q_tail q"
    "q_fnObjectFree ?q = q_fnObjectFree q" "q_freed ?q = q_freed q"
    by (simp_all add: queue_lock_defs)
  obtain arr where "length arr = ?L" and "Queue_Clear_loop (int h) ?q = Some (?q\<lparr>q_array := arr,
      q_freed := q_freed q @ (if q_fnObjectFree q then ring (q_array q) h m else [])\<rparr>)"
    using Queue_Clear_loop_frees [of ?q h m, unfolded same] q m by auto
  moreover have "ring (q_array q) h m = (if q_size q < q_capacity q then queue_items q else [])"
    using q by (simp add: m_def queue_items_def)
  ultimately show ?thesis using inv q
    by (auto simp: Queue_Clear_def queue_lock_defs queue_inv_def queue_items_def)
qed

text \<open>What \<open>Queue_Contains\<close> looks at: the cells below the tail, whatever the head is.\<close>

lemma Queue_Contains_scan:
  assumes inv: "queue_inv q"
  shows "Queue_Contains q obj =
    Some (\<exists>x \<in> set (take (nat (q_tail q)) (q_array q)). q_fnObjectEquals q x obj, q)"
proof -
  let ?L = "length (q_array q)"
  obtain h n where q: "q_head q = int h" "q_size q = int n" "h < ?L" "n \<le> ?L"
    "q_capacity q = int ?L" "q_tail q = int ((h + n) mod ?L)" "0 < ?L" "int ?L \<le> INT_MAX"
    using queue_inv_nat [OF inv] by auto
  then have t: "nat (q_tail q) \<le> ?L" and tail: "q_tail q = int (nat (q_tail q))"
    by (simp_all add: less_imp_le)
  show ?thesis
    using searchM_array [OF t, of "\<lambda>x. q_fnObjectEquals q x obj"]
      first_index_ex [OF t, of "\<lambda>x. q_fnObjectEquals q x obj"] tail
    by (simp add: Queue_Contains_def queue_lock_defs Let_def)
qed

section \<open>The queue contract\<close>

text \<open>\<open>Queue_Enqueue\<close> with memory available; the fresh cells of a growth hold \<open>j\<close>.\<close>

definition queue_put :: "(nat \<Rightarrow> ptr) \<Rightarrow> ptr \<Rightarrow> wQueue \<Rightarrow> wQueue option" where
  "queue_put j x q = map_option snd (Queue_Enqueue (Some j) q x)"

interpretation wq: fifo "queue_put j" Queue_Dequeue NULL queue_items queue_inv queue_fits for j
proof unfold_locales
  fix q n x
  assume inv: "queue_inv q" and fits: "queue_fits q n" and room: "length (queue_items q) < n"
  have "q_capacity q * q_growthFactor q \<le> INT_MAX" if full: "q_size q = q_capacity q"
  proof -
    have "q_capacity q \<le> int n" using room full queue_items_length [OF inv] by linarith
    then have "q_capacity q * q_growthFactor q \<le> int n * q_growthFactor q"
      using inv by (intro mult_right_mono) (simp_all add: queue_inv_def)
    with fits show ?thesis by (simp add: queue_fits_def)
  qed
  from Queue_Enqueue_ok [OF inv this]
  show "\<exists>q'. queue_put j x q = Some q' \<and> queue_inv q' \<and> queue_fits q' n
      \<and> queue_items q' = queue_items q @ [x]"
    using fits by (fastforce simp: queue_put_def queue_fits_def)
next
  fix q n
  assume "queue_inv q" and "queue_fits q n" and "queue_items q = []"
  then show "\<exists>q'. Queue_Dequeue q = Some (NULL, q') \<and> queue_inv q' \<and> queue_fits q' n
      \<and> queue_items q' = []"
    using Queue_Dequeue_empty queue_items_length [of q]
    by (auto simp: queue_inv_def queue_items_def queue_fits_def)
next
  fix q n x and xs :: "ptr list"
  assume "queue_inv q" and "queue_fits q n" and "queue_items q = x # xs"
  then show "\<exists>q'. Queue_Dequeue q = Some (x, q') \<and> queue_inv q' \<and> queue_fits q' n
      \<and> queue_items q' = xs"
    using Queue_Dequeue_item by (fastforce simp: queue_fits_def)
qed

section \<open>Properties\<close>

text \<open>C26. Whatever sequence of \<open>Queue_Enqueue\<close> and \<open>Queue_Dequeue\<close> calls a program makes on a
  fresh queue whose growth factor is not 1, as long as memory is available and the capacity it grows to is an \<open>int\<close>, growth
  and wrap-around included, every dequeue returns what a plain first-in first-out list returns (\<open>NULL\<close> when empty), no array
  access faults, and the ring invariant holds at the end. With the growth factor 1, which \<open>Queue_New\<close> accepts, the claim is
  false: \<open>Queue_growth_one_overrun\<close> below.\<close>
theorem Queue_run_fifo:
  assumes "Queue_New True True True True sync cap growth = Some q" and "cap \<le> INT_MAX"
    and "growth \<noteq> 1" and "int (n_puts ops) * q_growthFactor q \<le> INT_MAX"
  shows "\<exists>q'. run_queue (queue_put j) Queue_Dequeue ops q = Some (fst (run_list NULL ops []), q')
    \<and> queue_inv q' \<and> queue_items q' = snd (run_list NULL ops [])"
  using Queue_New_inv [OF assms(1-3)] wq.fifo_run [of q "n_puts ops" ops j] assms(4)
  by (auto simp: queue_fits_def)

theorem Queue_run_fifo_witness:
  "\<exists>q q'. Queue_New True True True True True 2 2 = Some q
    \<and> run_queue (queue_put (\<lambda>_. 9)) Queue_Dequeue [Put 5, Put 6, Put 7, Get, Get, Get, Get] q =
        Some ([5, 6, 7, 0], q') \<and> queue_items q' = []"
proof -
  obtain q where q: "Queue_New True True True True True 2 2 = Some q" and g: "q_growthFactor q = 2"
    by (simp add: Queue_New_def Let_def)
  show ?thesis
    using Queue_run_fifo [OF q, of "[Put 5, Put 6, Put 7, Get, Get, Get, Get]" "\<lambda>_. 9"] q g by auto
qed

text \<open>The growth factor 1 is one that \<open>Queue_New\<close> accepts, but a full queue does not grow by it, and clearing the cells
  behind the old capacity writes behind the array, whether the queue is synchronized or not.\<close>
theorem Queue_growth_one_overrun:
  assumes "q_growthFactor q = 1" and "q_size q = q_capacity q"
    and "0 < q_capacity q" and "q_capacity q \<le> INT_MAX" and "int (length (q_array q)) = q_capacity q"
  shows "Queue_Enqueue (Some j) q obj = None"
proof -
  have "cint (q_capacity q) = Some (q_capacity q)" using assms(3,4) by (intro cint_Some) simp_all
  moreover have "afill (arealloc (q_array q) (q_capacity q) j) (q_capacity q) (q_capacity q) NULL = None"
    using assms(3,5) by (auto simp: afill_def arealloc_def)
  ultimately have "Queue_Grow (Some j) (q_enter q) = None"
    using assms(1) by (simp add: Queue_Grow_def queue_lock_defs Let_def)
  then show ?thesis using assms(2) by (simp add: Queue_Enqueue_def queue_lock_defs Let_def)
qed

theorem Queue_growth_one_overrun_witness:
  "\<exists>q q2. Queue_New True True True True True 2 1 = Some q
    \<and> run_queue (queue_put (\<lambda>_. 9)) Queue_Dequeue [Put 5, Put 6] q = Some ([], q2)
    \<and> Queue_Enqueue (Some (\<lambda>_. 9)) q2 7 = None"
proof -
  obtain q where q: "Queue_New True True True True True 2 1 = Some q" by (simp add: Queue_New_def Let_def)
  have "map_option (\<lambda>(xs, q2). xs = [] \<and> q_growthFactor q2 = 1 \<and> q_size q2 = 2 \<and> q_capacity q2 = 2 \<and> length (q_array q2) = 2)
      (Option.bind (Queue_New True True True True True 2 1) (run_queue (queue_put (\<lambda>_. 9)) Queue_Dequeue [Put 5, Put 6])) = Some True"
    by code_simp
  then obtain q2 where r: "run_queue (queue_put (\<lambda>_. 9)) Queue_Dequeue [Put 5, Put 6] q = Some ([], q2)"
    and q2: "q_growthFactor q2 = 1" "q_size q2 = 2" "q_capacity q2 = 2" "length (q_array q2) = 2" by (auto simp: q)
  from Queue_growth_one_overrun [of q2 "\<lambda>_. 9" 7] q2 have "Queue_Enqueue (Some (\<lambda>_. 9)) q2 7 = None" by simp
  with q r show ?thesis by blast
qed

text \<open>\<open>Queue_Free\<close> hands every remaining item to the free callback exactly once, oldest first, as
  long as the queue is not full; a full queue has head and tail equal, the clearing loop stops at
  once, and no item is handed to the callback.\<close>
theorem Queue_Free_callbacks:
  assumes "queue_inv q" and "q_fnObjectFree q"
  shows "Queue_Free (Some q) =
    Some (q_freed q @ (if q_size q < q_capacity q then queue_items q else []))"
  using Queue_Clear_ok [OF assms(1)] assms(2) by (auto simp: Queue_Free_def)

theorem Queue_Free_callbacks_witness:
  "Queue_Free (Some \<lparr>q_capacity = 2, q_growthFactor = 2, q_synchronized = False, q_head = 1,
    q_tail = 1, q_size = 2, q_array = [7, 8], q_lock = 0, q_event = True, q_fnObjectFree = True,
    q_fnObjectEquals = (=), q_freed = []\<rparr>) = Some []"
  using Queue_Free_callbacks [of "\<lparr>q_capacity = 2, q_growthFactor = 2, q_synchronized = False,
    q_head = 1, q_tail = 1, q_size = 2, q_array = [7, 8], q_lock = 0, q_event = True,
    q_fnObjectFree = True, q_fnObjectEquals = (=), q_freed = []\<rparr>"]
  by (simp add: queue_inv_def)

text \<open>\<open>Queue_Contains\<close> scans the cells from 0 up to the tail, not the ring: once the tail has
  wrapped to 0 it denies every object, whatever items the queue holds.\<close>
theorem Queue_Contains_wrapped:
  assumes "queue_inv q" and "q_tail q = 0"
  shows "Queue_Contains q obj = Some (False, q)"
  using Queue_Contains_scan [OF assms(1)] assms(2) by simp

theorem Queue_Contains_wrapped_witness:
  "let q = \<lparr>q_capacity = 2, q_growthFactor = 2, q_synchronized = False, q_head = 1,
    q_tail = 0, q_size = 1, q_array = [0, 8], q_lock = 0, q_event = True, q_fnObjectFree = False,
    q_fnObjectEquals = (=), q_freed = []\<rparr>
   in 8 \<in> set (queue_items q) \<and> Queue_Contains q 8 = Some (False, q)"
  unfolding Let_def
  by (rule conjI, simp add: queue_items_def ring_Cons numeral_eq_Suc,
    rule Queue_Contains_wrapped, simp_all add: queue_inv_def)

end
