(* ===== verification/MsgQueue.thy ===== *)
theory MsgQueue
  imports RingSeq
begin

text \<open>
  \<open>wMessageQueue\<close> of \<open>winpr/libwinpr/utils/collections/MessageQueue.c\<close>: a circular array of message
  structs behind a critical section, with a manual-reset event that is set while messages wait.
\<close>

section \<open>State\<close>

record wMessage =
  m_id :: "32 word"
  m_context :: ptr
  m_wParam :: ptr
  m_lParam :: ptr
  m_time :: "64 word"
  m_Free :: ptr

record wMessageQueue =
  mq_head :: int
  mq_tail :: int
  mq_size :: int
  mq_capacity :: int
  mq_array :: "wMessage list"
  mq_lock :: int
  mq_event :: bool
  mq_fnObjectUninit :: bool
  mq_fnObjectFree :: bool
  mq_uninited :: "wMessage list"
  mq_freed :: "wMessage list"

definition zero_message :: wMessage where
  "zero_message = \<lparr>m_id = 0, m_context = NULL, m_wParam = NULL, m_lParam = NULL, m_time = 0,
     m_Free = NULL\<rparr>"

abbreviation WMQ_QUIT :: "32 word" where
  "WMQ_QUIT \<equiv> 0xFFFFFFFF"

abbreviation mq_enter :: "wMessageQueue \<Rightarrow> wMessageQueue" where
  "mq_enter q \<equiv> q\<lparr>mq_lock := mq_lock q + 1\<rparr>"

abbreviation mq_leave :: "wMessageQueue \<Rightarrow> wMessageQueue" where
  "mq_leave q \<equiv> q\<lparr>mq_lock := mq_lock q - 1\<rparr>"

section \<open>Operations\<close>

definition MessageQueue_Event :: "wMessageQueue \<Rightarrow> bool" where
  "MessageQueue_Event q = mq_event q"

definition MessageQueue_Size :: "wMessageQueue \<Rightarrow> int" where
  "MessageQueue_Size q = mq_size q"

text \<open>An infinite wait: it returns once the event is set, and never (\<open>None\<close>) if nothing sets it.\<close>

definition MessageQueue_Wait :: "wMessageQueue \<Rightarrow> bool option" where
  "MessageQueue_Wait q = (if mq_event q then Some True else None)"

text \<open>The growth of a full queue, \<open>None\<close> inside when \<open>realloc\<close> fails.\<close>

definition MessageQueue_grow :: "wMessage fresh \<Rightarrow> wMessageQueue \<Rightarrow> wMessageQueue option option" where
  "MessageQueue_grow mem q = do {
     let old_capacity = mq_capacity q;
     new_capacity \<leftarrow> cint (mq_capacity q * 2);
     (case mem of
        None \<Rightarrow> Some None
      | Some j \<Rightarrow> do {
          let arr = arealloc (mq_array q) new_capacity j;
          arr \<leftarrow> afill arr old_capacity old_capacity zero_message;
          let q = q\<lparr>mq_capacity := new_capacity, mq_array := arr\<rparr>;
          if mq_tail q < old_capacity then do {
            arr \<leftarrow> acopy (mq_array q) old_capacity 0 (mq_tail q);
            tail \<leftarrow> cint (mq_tail q + old_capacity);
            Some (Some (q\<lparr>mq_array := arr, mq_tail := tail\<rparr>))
          } else Some (Some q)
        }) }"

text \<open>
  \<open>tick\<close> is the value of \<open>GetTickCount\<close>. A failed \<open>realloc\<close> returns at once, inside the critical
  section. The time stamp goes to the slot at the new tail.
\<close>

definition MessageQueue_Dispatch ::
    "wMessage fresh \<Rightarrow> 64 word \<Rightarrow> wMessageQueue \<Rightarrow> wMessage \<Rightarrow> wMessageQueue option" where
  "MessageQueue_Dispatch mem tick q0 message = do {
     let q = mq_enter q0;
     g \<leftarrow> (if mq_size q = mq_capacity q then MessageQueue_grow mem q else Some (Some q));
     (case g of
        None \<Rightarrow> Some q
      | Some q \<Rightarrow> do {
          arr \<leftarrow> aset (mq_array q) (mq_tail q) message;
          t1 \<leftarrow> cint (mq_tail q + 1);
          tail \<leftarrow> crem t1 (mq_capacity q);
          size \<leftarrow> cint (mq_size q + 1);
          m \<leftarrow> aget arr tail;
          arr \<leftarrow> aset arr tail (m\<lparr>m_time := tick\<rparr>);
          let q = q\<lparr>mq_array := arr, mq_tail := tail, mq_size := size\<rparr>;
          let q = (if 0 < mq_size q then q\<lparr>mq_event := True\<rparr> else q);
          Some (mq_leave q)
        }) }"

text \<open>\<open>time0\<close> is the uninitialised time field of the message on the stack.\<close>

definition MessageQueue_Post :: "wMessage fresh \<Rightarrow> 64 word \<Rightarrow> 64 word \<Rightarrow> wMessageQueue \<Rightarrow>
    ptr \<Rightarrow> 32 word \<Rightarrow> ptr \<Rightarrow> ptr \<Rightarrow> wMessageQueue option" where
  "MessageQueue_Post mem tick time0 q context type wParam lParam =
     MessageQueue_Dispatch mem tick q \<lparr>m_id = type, m_context = context, m_wParam = wParam,
       m_lParam = lParam, m_time = time0, m_Free = NULL\<rparr>"

definition MessageQueue_PostQuit :: "wMessage fresh \<Rightarrow> 64 word \<Rightarrow> 64 word \<Rightarrow> wMessageQueue \<Rightarrow>
    32 word \<Rightarrow> wMessageQueue option" where
  "MessageQueue_PostQuit mem tick time0 q nExitCode =
     MessageQueue_Post mem tick time0 q NULL WMQ_QUIT (scast nExitCode) NULL"

text \<open>Taking the message at the head out of the array.\<close>

definition MessageQueue_pop :: "wMessageQueue \<Rightarrow> wMessageQueue option" where
  "MessageQueue_pop q = do {
     arr \<leftarrow> aset (mq_array q) (mq_head q) zero_message;
     h1 \<leftarrow> cint (mq_head q + 1);
     head \<leftarrow> crem h1 (mq_capacity q);
     Some (q\<lparr>mq_array := arr, mq_head := head, mq_size := mq_size q - 1\<rparr>) }"

definition MessageQueue_Get :: "wMessageQueue \<Rightarrow> wMessage \<Rightarrow> (int \<times> wMessage \<times> wMessageQueue) option" where
  "MessageQueue_Get q0 message = do {
     w \<leftarrow> MessageQueue_Wait q0;
     if \<not> w then Some (- 1, message, q0)
     else do {
       let q = mq_enter q0;
       (status, message, q) \<leftarrow>
         (if 0 < mq_size q then do {
            m \<leftarrow> aget (mq_array q) (mq_head q);
            q \<leftarrow> MessageQueue_pop q;
            let q = (if mq_size q < 1 then q\<lparr>mq_event := False\<rparr> else q);
            Some (if m_id m \<noteq> WMQ_QUIT then 1 else 0, m, q)
          } else Some (- 1, message, q));
       Some (status, message, mq_leave q)
     } }"

definition MessageQueue_Peek ::
    "wMessageQueue \<Rightarrow> wMessage \<Rightarrow> bool \<Rightarrow> (int \<times> wMessage \<times> wMessageQueue) option" where
  "MessageQueue_Peek q0 message remove = do {
     let q = mq_enter q0;
     (status, message, q) \<leftarrow>
       (if 0 < mq_size q then do {
          m \<leftarrow> aget (mq_array q) (mq_head q);
          if remove then do {
            q \<leftarrow> MessageQueue_pop q;
            let q = (if mq_size q < 1 then q\<lparr>mq_event := False\<rparr> else q);
            Some (1, m, q)
          } else Some (1, m, q)
        } else Some (0, message, q));
     Some (status, message, mq_leave q) }"

text \<open>
  The constructor: outcomes of the two \<open>malloc\<close> calls (the second is not checked before the array is
  cleared) and of \<open>CreateEvent\<close>, and the callbacks of the optional \<open>wObject\<close>.
\<close>

definition MessageQueue_New :: "bool \<Rightarrow> bool \<Rightarrow> (bool \<times> bool) option \<Rightarrow> wMessageQueue option option" where
  "MessageQueue_New mem_queue mem_array callback =
     (if \<not> mem_queue then Some None
      else if \<not> mem_array then None
      else Some (Some \<lparr>mq_head = 0, mq_tail = 0, mq_size = 0, mq_capacity = 32,
        mq_array = replicate 32 zero_message, mq_lock = 0, mq_event = False,
        mq_fnObjectUninit = (case callback of None \<Rightarrow> False | Some (u, f) \<Rightarrow> u),
        mq_fnObjectFree = (case callback of None \<Rightarrow> False | Some (u, f) \<Rightarrow> f),
        mq_uninited = [], mq_freed = []\<rparr>))"

partial_function (option) MessageQueue_Clear_loop :: "wMessageQueue \<Rightarrow> wMessageQueue option" where
  "MessageQueue_Clear_loop q =
     (if 0 < mq_size q then do {
        msg \<leftarrow> aget (mq_array q) (mq_head q);
        q \<leftarrow> MessageQueue_pop (q\<lparr>
          mq_uninited := (if mq_fnObjectUninit q then mq_uninited q @ [msg] else mq_uninited q),
          mq_freed := (if mq_fnObjectFree q then mq_freed q @ [msg] else mq_freed q)\<rparr>);
        MessageQueue_Clear_loop q
      } else Some q)"

definition MessageQueue_Clear :: "wMessageQueue \<Rightarrow> (int \<times> wMessageQueue) option" where
  "MessageQueue_Clear q = do {
     q \<leftarrow> MessageQueue_Clear_loop (mq_enter q);
     Some (0, mq_leave (q\<lparr>mq_event := False\<rparr>)) }"

text \<open>
  \<open>MessageQueue_Free\<close> closes the event and frees the memory. It calls no callback: the messages still
  queued are dropped, and the calls made before are what remains.
\<close>

definition MessageQueue_Free :: "wMessageQueue \<Rightarrow> wMessage list" where
  "MessageQueue_Free q = mq_freed q"

section \<open>Invariant and abstraction\<close>

definition mq_items :: "wMessageQueue \<Rightarrow> wMessage list" where
  "mq_items q = ring (mq_array q) (nat (mq_head q)) (nat (mq_size q))"

definition mq_inv :: "wMessageQueue \<Rightarrow> bool" where
  "mq_inv q \<longleftrightarrow> 2 \<le> mq_capacity q \<and> mq_capacity q \<le> INT_MAX
     \<and> int (length (mq_array q)) = mq_capacity q
     \<and> 0 \<le> mq_head q \<and> mq_head q < mq_capacity q \<and> 0 \<le> mq_size q \<and> mq_size q \<le> mq_capacity q
     \<and> mq_tail q = (mq_head q + mq_size q) mod mq_capacity q
     \<and> (mq_event q \<longleftrightarrow> 0 < mq_size q)"

lemma mq_inv_nat:
  assumes "mq_inv q"
  obtains h n where "mq_head q = int h" "mq_size q = int n" "h < length (mq_array q)"
    "n \<le> length (mq_array q)" "mq_capacity q = int (length (mq_array q))"
    "mq_tail q = int ((h + n) mod length (mq_array q))" "2 \<le> length (mq_array q)"
    "int (length (mq_array q)) \<le> INT_MAX"
proof
  show "mq_head q = int (nat (mq_head q))" and "mq_size q = int (nat (mq_size q))"
    and "nat (mq_head q) < length (mq_array q)" and "nat (mq_size q) \<le> length (mq_array q)"
    and "mq_capacity q = int (length (mq_array q))" and "2 \<le> length (mq_array q)"
    and "int (length (mq_array q)) \<le> INT_MAX"
    using assms by (auto simp: mq_inv_def)
  show "mq_tail q = int ((nat (mq_head q) + nat (mq_size q)) mod length (mq_array q))"
    using assms by (auto simp: mq_inv_def zmod_int)
qed

lemma mq_items_length: "mq_inv q \<Longrightarrow> int (length (mq_items q)) = mq_size q"
  by (simp add: mq_items_def mq_inv_def)

lemma mq_inv_lock [simp]: "mq_inv (q\<lparr>mq_lock := k\<rparr>) = mq_inv q"
  by (simp add: mq_inv_def)

lemma mq_items_lock [simp]: "mq_items (q\<lparr>mq_lock := k\<rparr>) = mq_items q"
  by (simp add: mq_items_def)

lemma MessageQueue_New_inv:
  "MessageQueue_New True True cb = Some (Some q) \<Longrightarrow> mq_inv q \<and> mq_items q = [] \<and> mq_lock q = 0"
  by (auto simp: MessageQueue_New_def mq_inv_def mq_items_def)

lemma MessageQueue_grow_full:
  assumes inv: "mq_inv q" and full: "mq_size q = mq_capacity q" and fits: "mq_capacity q * 2 \<le> INT_MAX"
  shows "\<exists>q'. MessageQueue_grow (Some j) q = Some (Some q') \<and> mq_inv q'
    \<and> mq_items q' = mq_items q \<and> mq_size q' = mq_size q \<and> mq_size q + 1 < mq_capacity q'
    \<and> mq_lock q' = mq_lock q"
proof -
  let ?L = "length (mq_array q)"
  obtain h n where q: "mq_head q = int h" "mq_size q = int n" "h < ?L" "n \<le> ?L"
    "mq_capacity q = int ?L" "mq_tail q = int ((h + n) mod ?L)" "2 \<le> ?L" "int ?L \<le> INT_MAX"
    using inv by (rule mq_inv_nat)
  have n: "n = ?L" and tail: "mq_tail q = int h" using q full by simp_all
  obtain arr1 arr2 where m2: "afill (arealloc (mq_array q) (int (2 * ?L)) j) (int ?L) (int ?L) zero_message
      = Some arr1"
    and m3: "acopy arr1 (int ?L) 0 (int h) = Some arr2" and len2: "length arr2 = 2 * ?L"
    and ring: "ring arr2 h n = ring (mq_array q) h n"
    using ring_realloc [OF q(3) order_refl, of j zero_message] n by auto
  have m1: "cint (int ?L * 2) = Some (int (2 * ?L))" using fits q(5) by (simp add: cint_Some)
  have m4: "cint (int h + int ?L) = Some (int h + int ?L)"
    using fits q(3,5) by (intro cint_Some) linarith+
  have "MessageQueue_grow (Some j) q = Some (Some (q\<lparr>mq_capacity := int (2 * ?L), mq_array := arr2,
      mq_tail := int h + int ?L\<rparr>))"
    unfolding MessageQueue_grow_def using q(3,5) tail m1 m2 m3 m4 by (simp add: Let_def)
  moreover have "(int h + int n) mod int (2 * ?L) = int h + int n" using n q(3) by simp
  ultimately show ?thesis using inv q n ring len2 fits
    by (auto simp: mq_inv_def mq_items_def)
qed

text \<open>
  Storing at the tail: the time stamp lands in the slot after the message, which is a free one, or,
  when the message takes the last free slot, the message at the head.
\<close>

lemma mq_store:
  assumes inv: "mq_inv q" and room: "mq_size q < mq_capacity q"
  shows "\<exists>q'. (do {
          arr \<leftarrow> aset (mq_array q) (mq_tail q) message;
          t1 \<leftarrow> cint (mq_tail q + 1);
          tail \<leftarrow> crem t1 (mq_capacity q);
          size \<leftarrow> cint (mq_size q + 1);
          m \<leftarrow> aget arr tail;
          arr \<leftarrow> aset arr tail (m\<lparr>m_time := tick\<rparr>);
          let q = q\<lparr>mq_array := arr, mq_tail := tail, mq_size := size\<rparr>;
          let q = (if 0 < mq_size q then q\<lparr>mq_event := True\<rparr> else q);
          Some (mq_leave q) }) = Some q' \<and> mq_inv q' \<and> mq_lock q' = mq_lock q - 1
     \<and> mq_items q' = (let ms = mq_items q @ [message] in
         if mq_size q + 1 = mq_capacity q then (hd ms)\<lparr>m_time := tick\<rparr> # tl ms else ms)"
proof -
  let ?L = "length (mq_array q)"
  obtain h n where q: "mq_head q = int h" "mq_size q = int n" "h < ?L" "n \<le> ?L"
    "mq_capacity q = int ?L" "mq_tail q = int ((h + n) mod ?L)" "2 \<le> ?L" "int ?L \<le> INT_MAX"
    using inv by (rule mq_inv_nat)
  have n: "n < ?L" using room q by simp
  then have L: "0 < ?L" by linarith
  define t where "t = (h + n) mod ?L"
  define t' where "t' = (h + Suc n) mod ?L"
  have t: "t < ?L" "t' < ?L" using L by (simp_all add: t_def t'_def)
  define arr1 where "arr1 = (mq_array q)[t := message]"
  define arr2 where "arr2 = arr1[t' := (arr1 ! t')\<lparr>m_time := tick\<rparr>]"
  have len: "length arr1 = ?L" "length arr2 = ?L" by (simp_all add: arr1_def arr2_def)
  have ring1: "ring arr1 h (Suc n) = mq_items q @ [message]"
    using ring_put [OF n, of h message] q by (simp add: arr1_def t_def mq_items_def)
  have ring2: "ring arr2 h (Suc n) = (let ms = mq_items q @ [message] in
      if Suc n = ?L then (hd ms)\<lparr>m_time := tick\<rparr> # tl ms else ms)"
  proof (cases "Suc n = ?L")
    case True
    then have "t' = h" using q(3) by (simp add: t'_def)
    then have "ring arr2 h (Suc n) = (arr1 ! h)\<lparr>m_time := tick\<rparr> # ring arr1 (Suc h) n"
      using ring_take [of h arr1 n "(arr1 ! h)\<lparr>m_time := tick\<rparr>"] q(3) n len
        ring_mod [of arr2 "Suc h" n] by (simp add: ring_Cons arr2_def)
    moreover have "ring arr1 h (Suc n) = arr1 ! h # ring arr1 (Suc h) n"
      using q(3) len by (simp add: ring_Cons)
    ultimately show ?thesis using True ring1 by (simp add: Let_def) (metis list.sel(1,3))
  next
    case False
    then show ?thesis
      using ring_update_free [of "Suc n" "Suc n" arr1 h "(arr1 ! t')\<lparr>m_time := tick\<rparr>"] n ring1 len
      by (simp add: arr2_def t'_def)
  qed
  have tail: "crem (int t + 1) (int ?L) = Some (int t')"
    using L by (simp add: crem_Some t_def t'_def zmod_int add.assoc add.commute)
      (metis (no_types, opaque_lifting) add.commute add.left_commute mod_add_right_eq)
  have ci: "cint (int t + 1) = Some (int t + 1)" "cint (int n + 1) = Some (int n + 1)"
    using t n q(8) by (auto intro!: cint_Some)
  have mod: "int t' = (int h + (int n + 1)) mod int ?L"
    by (simp add: t'_def zmod_int add.commute add.left_commute)
  have qt: "mq_tail q = int t" using q(6) by (simp add: t_def)
  have last: "ring arr2 h ?L = ring arr2 h (Suc n)" if "int n + 1 = int ?L"
    using that by (metis Suc_eq_plus1 of_nat_1 of_nat_add of_nat_eq_iff)
  show ?thesis
    unfolding q(2,5) qt using t len tail ci inv
    by (simp add: aset_def aget_def Let_def flip: arr1_def arr2_def)
      (use q(1-5,8) len mod ring2 inv n last in \<open>auto simp: mq_inv_def mq_items_def Let_def\<close>)
qed

lemma MessageQueue_Dispatch_ok:
  assumes inv: "mq_inv q" and fits: "mq_size q = mq_capacity q \<Longrightarrow> mq_capacity q * 2 \<le> INT_MAX"
  shows "\<exists>q'. MessageQueue_Dispatch (Some j) tick q message = Some q' \<and> mq_inv q'
    \<and> mq_lock q' = mq_lock q
    \<and> mq_items q' = (let ms = mq_items q @ [message] in
        if mq_size q + 1 = mq_capacity q then (hd ms)\<lparr>m_time := tick\<rparr> # tl ms else ms)"
proof -
  have "\<exists>q1. (if mq_size q = mq_capacity q then MessageQueue_grow (Some j) (mq_enter q)
      else Some (Some (mq_enter q))) = Some (Some q1) \<and> mq_inv q1 \<and> mq_items q1 = mq_items q
    \<and> mq_size q1 < mq_capacity q1 \<and> mq_lock q1 = mq_lock q + 1
    \<and> (mq_size q1 + 1 = mq_capacity q1) = (mq_size q + 1 = mq_capacity q)"
  proof (cases "mq_size q = mq_capacity q")
    case True
    then show ?thesis using MessageQueue_grow_full [of "mq_enter q" j] inv fits by fastforce
  next
    case False
    with inv show ?thesis by (auto simp: mq_inv_def mq_items_def)
  qed
  then obtain q1 where q1: "(if mq_size q = mq_capacity q then MessageQueue_grow (Some j) (mq_enter q)
      else Some (Some (mq_enter q))) = Some (Some q1)" "mq_inv q1" "mq_items q1 = mq_items q"
      "mq_size q1 < mq_capacity q1" "mq_lock q1 = mq_lock q + 1"
      "(mq_size q1 + 1 = mq_capacity q1) = (mq_size q + 1 = mq_capacity q)"
    by blast
  then show ?thesis using mq_store [OF q1(2,4), of message tick]
    by (simp add: MessageQueue_Dispatch_def Let_def)
qed

text \<open>When \<open>realloc\<close> fails the message is lost and the critical section stays entered.\<close>

lemma MessageQueue_Dispatch_nomem:
  assumes "mq_inv q" and "mq_size q = mq_capacity q" and "mq_capacity q * 2 \<le> INT_MAX"
  shows "MessageQueue_Dispatch None tick q message = Some (mq_enter q)"
  using assms
  by (simp add: MessageQueue_Dispatch_def MessageQueue_grow_def mq_inv_def cint_Some Let_def)

lemma MessageQueue_pop_ok:
  assumes inv: "mq_inv q" and items: "mq_items q = m # ms"
  shows "\<exists>q'. MessageQueue_pop q = Some q' \<and> aget (mq_array q) (mq_head q) = Some m
    \<and> mq_inv (q'\<lparr>mq_event := (ms \<noteq> [])\<rparr>) \<and> mq_items q' = ms \<and> mq_size q' = int (length ms)
    \<and> mq_lock q' = mq_lock q \<and> mq_event q' = mq_event q \<and> mq_capacity q' = mq_capacity q
    \<and> mq_uninited q' = mq_uninited q \<and> mq_freed q' = mq_freed q
    \<and> mq_fnObjectUninit q' = mq_fnObjectUninit q \<and> mq_fnObjectFree q' = mq_fnObjectFree q"
proof -
  let ?L = "length (mq_array q)"
  obtain h n where q: "mq_head q = int h" "mq_size q = int n" "h < ?L" "n \<le> ?L"
    "mq_capacity q = int ?L" "mq_tail q = int ((h + n) mod ?L)" "2 \<le> ?L" "int ?L \<le> INT_MAX"
    using inv by (rule mq_inv_nat)
  obtain k where k: "n = Suc k" using items q(2) by (cases n) (auto simp: mq_items_def)
  have hd: "mq_array q ! h = m" and tl: "ring (mq_array q) (Suc h) k = ms"
    using items q(1-3) k by (simp_all add: mq_items_def ring_Cons)
  have ms: "length ms = k" using tl by (metis length_ring)
  have ring: "ring ((mq_array q)[h := zero_message]) (Suc h mod ?L) k = ms"
    using ring_take [of h "mq_array q" k zero_message] q(3,4) k tl by (simp add: ring_Cons)
  have "0 < ?L" using q(7) by linarith
  then have m1: "crem (int h + 1) (int ?L) = Some (int (Suc h mod ?L))"
    by (simp add: crem_Some zmod_int add.commute)
  have m2: "cint (int h + 1) = Some (int h + 1)" using q(3,8) by (intro cint_Some) linarith+
  have "(Suc h mod ?L + k) mod ?L = (h + n) mod ?L" using k by (simp add: mod_add_left_eq)
  then have tail: "(int (Suc h mod ?L) + int k) mod int ?L = int ((h + n) mod ?L)"
    by (metis of_nat_add zmod_int)
  have "Suc h mod ?L < ?L" using \<open>0 < ?L\<close> by (rule mod_less_divisor)
  then show ?thesis
    unfolding MessageQueue_pop_def using inv q k hd m1 m2 ring tail ms
    by (auto simp: mq_inv_def mq_items_def aget_def aset_def)
qed

lemma MessageQueue_Peek_remove:
  assumes inv: "mq_inv q" and items: "mq_items q = m # ms"
  shows "\<exists>q'. MessageQueue_Peek q m0 True = Some (1, m, q') \<and> mq_inv q' \<and> mq_items q' = ms
    \<and> mq_lock q' = mq_lock q"
proof -
  have inv1: "mq_inv (mq_enter q)" and items1: "mq_items (mq_enter q) = m # ms"
    using inv items by simp_all
  obtain q1 where q1: "MessageQueue_pop (mq_enter q) = Some q1" "aget (mq_array q) (mq_head q) = Some m"
    "mq_inv (q1\<lparr>mq_event := (ms \<noteq> [])\<rparr>)" "mq_items q1 = ms" "mq_size q1 = int (length ms)"
    "mq_lock q1 = mq_lock q + 1" "mq_event q1 = mq_event q"
    using MessageQueue_pop_ok [OF inv1 items1] by auto
  have pos: "0 < mq_size q" and ev: "mq_event q"
    using mq_items_length [OF inv] items inv by (auto simp: mq_inv_def)
  let ?q2 = "if mq_size q1 < 1 then q1\<lparr>mq_event := False\<rparr> else q1"
  have "MessageQueue_Peek q m0 True = Some (1, m, mq_leave ?q2)"
    unfolding MessageQueue_Peek_def using pos q1 by (simp add: Let_def)
  moreover have "?q2 = q1\<lparr>mq_event := (ms \<noteq> [])\<rparr>"
    using q1(5,7) ev by (cases ms) auto
  ultimately show ?thesis using q1 by (auto simp: mq_items_def)
qed

lemma MessageQueue_Peek_empty:
  assumes "mq_inv q" and "mq_items q = []"
  shows "MessageQueue_Peek q m0 remove = Some (0, m0, q)"
  using mq_items_length [OF assms(1)] assms(2) by (simp add: MessageQueue_Peek_def Let_def)

lemma MessageQueue_Get_eq_Peek:
  assumes inv: "mq_inv q"
  shows "MessageQueue_Get q m0 = (if mq_items q = [] then None
    else map_option (\<lambda>(status, m, q'). (if m_id m \<noteq> WMQ_QUIT then 1 else 0, m, q'))
      (MessageQueue_Peek q m0 True))"
proof -
  have "mq_items q = [] \<longleftrightarrow> mq_size q = 0"
    using mq_items_length [OF inv] by auto
  then show ?thesis using inv
    by (auto simp: MessageQueue_Get_def MessageQueue_Peek_def MessageQueue_Wait_def Let_def mq_inv_def
        split: Option.bind_splits)
qed

lemma MessageQueue_Clear_loop_ok:
  assumes "mq_inv (q\<lparr>mq_event := (mq_items q \<noteq> [])\<rparr>)"
  shows "\<exists>q'. MessageQueue_Clear_loop q = Some q' \<and> mq_inv (q'\<lparr>mq_event := False\<rparr>) \<and> mq_items q' = []
    \<and> mq_lock q' = mq_lock q
    \<and> mq_uninited q' = mq_uninited q @ (if mq_fnObjectUninit q then mq_items q else [])
    \<and> mq_freed q' = mq_freed q @ (if mq_fnObjectFree q then mq_items q else [])"
  using assms
proof (induction "mq_items q" arbitrary: q)
  case Nil
  then show ?case
    using mq_items_length [of "q\<lparr>mq_event := False\<rparr>"]
    by (subst MessageQueue_Clear_loop.simps) (auto simp: mq_items_def)
next
  case (Cons m ms)
  define q0 where "q0 = q\<lparr>mq_uninited := (if mq_fnObjectUninit q then mq_uninited q @ [m] else mq_uninited q),
    mq_freed := (if mq_fnObjectFree q then mq_freed q @ [m] else mq_freed q), mq_event := True\<rparr>"
  have inv0: "mq_inv q0" and items0: "mq_items q0 = m # ms"
    using Cons.prems Cons.hyps(2) by (auto simp: q0_def mq_inv_def mq_items_def)
  have pos: "0 < mq_size q" using mq_items_length [OF inv0] items0 by (simp add: q0_def)
  have ev: "mq_event q0 = mq_event q \<or> True" by simp
  obtain q1 where pop0: "MessageQueue_pop q0 = Some q1" "aget (mq_array q0) (mq_head q0) = Some m"
    "mq_inv (q1\<lparr>mq_event := (ms \<noteq> [])\<rparr>)" "mq_items q1 = ms"
    "mq_lock q1 = mq_lock q0" "mq_uninited q1 = mq_uninited q0" "mq_freed q1 = mq_freed q0"
    "mq_fnObjectUninit q1 = mq_fnObjectUninit q0" "mq_fnObjectFree q1 = mq_fnObjectFree q0"
    using MessageQueue_pop_ok [OF inv0 items0] by blast
  define q2 where "q2 = q1\<lparr>mq_event := mq_event q\<rparr>"
  have pop: "MessageQueue_pop (q0\<lparr>mq_event := mq_event q\<rparr>) = Some q2"
    using pop0(1) unfolding MessageQueue_pop_def q2_def by (auto split: Option.bind_splits)
  have unfold: "MessageQueue_Clear_loop q = MessageQueue_Clear_loop q2"
    using pos pop pop0(2) by (subst MessageQueue_Clear_loop.simps) (simp add: q0_def)
  have "ms = mq_items q2" and "mq_inv (q2\<lparr>mq_event := (mq_items q2 \<noteq> [])\<rparr>)"
    using pop0(3,4) by (auto simp: q2_def mq_items_def)
  from Cons.hyps(1) [OF this] show ?case
    using unfold pop0 \<open>ms = mq_items q2\<close> Cons.hyps(2) by (auto simp: q2_def q0_def)
qed

section \<open>The queue contract\<close>

text \<open>A posted message is its context, type and two parameters; the time field is left out.\<close>

type_synonym posted = "ptr \<times> 32 word \<times> ptr \<times> ptr"

definition mq_payload :: "wMessage \<Rightarrow> posted" where
  "mq_payload m = (m_context m, m_id m, m_wParam m, m_lParam m)"

definition mq_posted :: "wMessageQueue \<Rightarrow> posted list" where
  "mq_posted q = map mq_payload (mq_items q)"

text \<open>\<open>MessageQueue_Post\<close> with memory available: \<open>j\<close> fills the fresh cells of a growth, \<open>tick\<close> is the
  clock and \<open>time0\<close> the uninitialised time field.\<close>

definition mq_put :: "(nat \<Rightarrow> wMessage) \<Rightarrow> 64 word \<Rightarrow> 64 word \<Rightarrow> posted \<Rightarrow> wMessageQueue \<Rightarrow>
    wMessageQueue option" where
  "mq_put j tick time0 p q = (case p of (context, type, wParam, lParam) \<Rightarrow>
     MessageQueue_Post (Some j) tick time0 q context type wParam lParam)"

definition mq_get :: "wMessageQueue \<Rightarrow> (posted \<times> wMessageQueue) option" where
  "mq_get q = do { (status, m, q) \<leftarrow> MessageQueue_Peek q zero_message True; Some (mq_payload m, q) }"

definition mq_fits :: "wMessageQueue \<Rightarrow> nat \<Rightarrow> bool" where
  "mq_fits q n \<longleftrightarrow> int n * 2 \<le> INT_MAX"

lemma mq_payload_time [simp]: "mq_payload (m\<lparr>m_time := t\<rparr>) = mq_payload m"
  by (simp add: mq_payload_def)

lemma mq_posted_stamp:
  "map mq_payload (let ms = xs @ [m] in if b then (hd ms)\<lparr>m_time := t\<rparr> # tl ms else ms) =
    map mq_payload xs @ [mq_payload m]"
  by (cases xs) (simp_all add: Let_def)

interpretation mq: fifo "mq_put j tick time0" mq_get "mq_payload zero_message" mq_posted mq_inv mq_fits
  for j tick time0
proof unfold_locales
  fix q n and x :: posted
  assume inv: "mq_inv q" and fits: "mq_fits q n" and room: "length (mq_posted q) < n"
  obtain c t w l where x: "x = (c, t, w, l)" by (cases x)
  define m where "m = \<lparr>m_id = t, m_context = c, m_wParam = w, m_lParam = l, m_time = time0, m_Free = NULL\<rparr>"
  have "mq_capacity q * 2 \<le> INT_MAX" if "mq_size q = mq_capacity q"
    using that fits room mq_items_length [OF inv] by (simp add: mq_fits_def mq_posted_def)
  from MessageQueue_Dispatch_ok [OF inv this, of j tick m] mq_posted_stamp
  show "\<exists>q'. mq_put j tick time0 x q = Some q' \<and> mq_inv q' \<and> mq_fits q' n \<and> mq_posted q' = mq_posted q @ [x]"
    using fits by (fastforce simp: x mq_put_def MessageQueue_Post_def mq_fits_def mq_posted_def
        m_def mq_payload_def)
next
  fix q n
  assume "mq_inv q" and "mq_fits q n" and "mq_posted q = []"
  then show "\<exists>q'. mq_get q = Some (mq_payload zero_message, q') \<and> mq_inv q' \<and> mq_fits q' n
      \<and> mq_posted q' = []"
    by (simp add: mq_get_def mq_posted_def MessageQueue_Peek_empty)
next
  fix q n x and xs :: "posted list"
  assume inv: "mq_inv q" and fits: "mq_fits q n" and items: "mq_posted q = x # xs"
  then obtain m ms where "mq_items q = m # ms" "x = mq_payload m" "xs = map mq_payload ms"
    by (auto simp: mq_posted_def)
  with MessageQueue_Peek_remove [OF inv, of m ms zero_message]
  show "\<exists>q'. mq_get q = Some (x, q') \<and> mq_inv q' \<and> mq_fits q' n \<and> mq_posted q' = xs"
    using fits by (auto simp: mq_get_def mq_fits_def mq_posted_def)
qed

section \<open>Properties\<close>

text \<open>C27. Any sequence of \<open>MessageQueue_Post\<close> and removing \<open>MessageQueue_Peek\<close> calls on a fresh queue
  delivers the contexts, types and parameters in the order they were posted, through any number of
  growths and wrap-arounds.\<close>
theorem MessageQueue_run_fifo:
  assumes "MessageQueue_New True True cb = Some (Some q)" and "int (n_puts ops) * 2 \<le> INT_MAX"
  shows "\<exists>q'. run_queue (mq_put j tick time0) mq_get ops q =
      Some (fst (run_list (mq_payload zero_message) ops []), q')
    \<and> mq_inv q' \<and> mq_posted q' = snd (run_list (mq_payload zero_message) ops [])"
  using MessageQueue_New_inv [OF assms(1)] mq.fifo_run [of q "n_puts ops" ops j tick time0] assms(2)
  by (auto simp: mq_fits_def mq_posted_def)

theorem MessageQueue_run_fifo_witness:
  "\<exists>q q'. MessageQueue_New True True None = Some (Some q)
    \<and> run_queue (mq_put (\<lambda>_. zero_message) 77 3) mq_get [Put (1, 2, 3, 4), Put (5, 6, 7, 8), Get] q =
      Some ([(1, 2, 3, 4)], q') \<and> mq_posted q' = [(5, 6, 7, 8)]"
proof -
  obtain q where q: "MessageQueue_New True True None = Some (Some q)" by (simp add: MessageQueue_New_def)
  show ?thesis
    using MessageQueue_run_fifo [OF q, of "[Put (1, 2, 3, 4), Put (5, 6, 7, 8), Get]"
      "\<lambda>_. zero_message" 77 3] q by auto
qed

text \<open>The time stamp of \<open>MessageQueue_Dispatch\<close> never reaches the message that is dispatched: with
  another free slot left, every queued message keeps the time its caller gave it; when the message
  takes the last free slot of a queue that holds others, the oldest message is stamped instead.\<close>
theorem MessageQueue_Dispatch_stamp:
  assumes "mq_inv q" and "mq_size q < mq_capacity q"
  shows "\<exists>q'. MessageQueue_Dispatch mem tick q message = Some q' \<and> mq_inv q' \<and> mq_lock q' = mq_lock q
    \<and> mq_items q' = (if mq_size q + 1 = mq_capacity q \<and> mq_items q \<noteq> []
        then (hd (mq_items q))\<lparr>m_time := tick\<rparr> # tl (mq_items q) @ [message]
        else mq_items q @ [message])"
proof -
  have same: "MessageQueue_Dispatch mem tick q message = MessageQueue_Dispatch (Some j) tick q message" for j
    using assms(2) by (simp add: MessageQueue_Dispatch_def Let_def)
  have "mq_size q + 1 = mq_capacity q \<Longrightarrow> mq_items q \<noteq> []"
    using mq_items_length [OF assms(1)] assms(1) by (auto simp: mq_inv_def)
  then show ?thesis
    using MessageQueue_Dispatch_ok [OF assms(1), of undefined tick message] assms(2)
    unfolding same [of undefined] by (auto simp: Let_def split: if_splits)
qed

theorem MessageQueue_Dispatch_stamp_witness:
  "\<exists>q'. MessageQueue_Dispatch None 99 \<lparr>mq_head = 0, mq_tail = 1, mq_size = 1, mq_capacity = 2,
      mq_array = [zero_message, zero_message], mq_lock = 0, mq_event = True,
      mq_fnObjectUninit = False, mq_fnObjectFree = False, mq_uninited = [], mq_freed = []\<rparr>
      (zero_message\<lparr>m_id := 5\<rparr>) = Some q'
    \<and> mq_items q' = [zero_message\<lparr>m_time := 99\<rparr>, zero_message\<lparr>m_id := 5\<rparr>]"
  using MessageQueue_Dispatch_stamp [of "\<lparr>mq_head = 0, mq_tail = 1, mq_size = 1, mq_capacity = 2,
      mq_array = [zero_message, zero_message], mq_lock = 0, mq_event = True,
      mq_fnObjectUninit = False, mq_fnObjectFree = False, mq_uninited = [], mq_freed = []\<rparr>" None 99
      "zero_message\<lparr>m_id := 5\<rparr>"]
  by (auto simp: mq_inv_def mq_items_def ring_Cons)

text \<open>When \<open>realloc\<close> fails on a full queue, \<open>MessageQueue_Dispatch\<close> drops the message and returns
  with the critical section still entered: one more enter than leave.\<close>
theorem MessageQueue_Dispatch_lock_leak:
  assumes "mq_inv q" and "mq_size q = mq_capacity q" and "mq_capacity q * 2 \<le> INT_MAX"
  shows "\<exists>q'. MessageQueue_Dispatch None tick q message = Some q' \<and> mq_items q' = mq_items q
    \<and> mq_lock q' = mq_lock q + 1"
  using MessageQueue_Dispatch_nomem [OF assms] by simp

theorem MessageQueue_Dispatch_lock_leak_witness:
  "\<exists>q'. MessageQueue_Dispatch None 99 \<lparr>mq_head = 0, mq_tail = 0, mq_size = 2, mq_capacity = 2,
      mq_array = [zero_message, zero_message], mq_lock = 0, mq_event = True,
      mq_fnObjectUninit = False, mq_fnObjectFree = False, mq_uninited = [], mq_freed = []\<rparr>
      zero_message = Some q' \<and> mq_lock q' = 1"
  using MessageQueue_Dispatch_lock_leak [of "\<lparr>mq_head = 0, mq_tail = 0, mq_size = 2, mq_capacity = 2,
      mq_array = [zero_message, zero_message], mq_lock = 0, mq_event = True,
      mq_fnObjectUninit = False, mq_fnObjectFree = False, mq_uninited = [], mq_freed = []\<rparr>" 99
      zero_message]
  by (auto simp: mq_inv_def)

text \<open>\<open>MessageQueue_Clear\<close> ends, hands every queued message once, oldest first, to the uninit and
  free callbacks that are installed, leaves an empty queue with its event reset and the critical
  section as it was.\<close>
theorem MessageQueue_Clear_drains:
  assumes "mq_inv q"
  shows "\<exists>q'. MessageQueue_Clear q = Some (0, q') \<and> mq_inv q' \<and> mq_items q' = [] \<and> \<not> mq_event q'
    \<and> mq_lock q' = mq_lock q
    \<and> mq_uninited q' = mq_uninited q @ (if mq_fnObjectUninit q then mq_items q else [])
    \<and> mq_freed q' = mq_freed q @ (if mq_fnObjectFree q then mq_items q else [])"
proof -
  have "(mq_items q \<noteq> []) = mq_event q"
    using mq_items_length [OF assms] assms by (cases "mq_items q") (auto simp: mq_inv_def)
  then have "mq_inv (mq_enter q\<lparr>mq_event := (mq_items (mq_enter q) \<noteq> [])\<rparr>)" using assms by simp
  from MessageQueue_Clear_loop_ok [OF this] show ?thesis
    by (auto simp: MessageQueue_Clear_def mq_inv_def mq_items_def)
qed

theorem MessageQueue_Clear_drains_witness:
  "\<exists>q'. MessageQueue_Clear \<lparr>mq_head = 1, mq_tail = 1, mq_size = 2, mq_capacity = 2,
      mq_array = [zero_message\<lparr>m_id := 4\<rparr>, zero_message], mq_lock = 0, mq_event = True,
      mq_fnObjectUninit = False, mq_fnObjectFree = True, mq_uninited = [], mq_freed = []\<rparr> =
      Some (0, q') \<and> mq_freed q' = [zero_message, zero_message\<lparr>m_id := 4\<rparr>]"
  using MessageQueue_Clear_drains [of "\<lparr>mq_head = 1, mq_tail = 1, mq_size = 2, mq_capacity = 2,
      mq_array = [zero_message\<lparr>m_id := 4\<rparr>, zero_message], mq_lock = 0, mq_event = True,
      mq_fnObjectUninit = False, mq_fnObjectFree = True, mq_uninited = [], mq_freed = []\<rparr>"]
  by (auto simp: mq_inv_def mq_items_def ring_def numeral_eq_Suc)

end
