(* ===== verification/WStack.thy ===== *)
theory WStack
  imports CPrelude
begin

text \<open>
  \<open>wStack\<close> of \<open>winpr/libwinpr/utils/collections/Stack.c\<close>: an array of object pointers that doubles as
  soon as one free cell is left. The critical section is its recursion count \<open>st_lock\<close>, and
  \<open>st_freed\<close> records the calls of the free callback.
\<close>

section \<open>State\<close>

record wStack =
  st_size :: int
  st_capacity :: int
  st_array :: "ptr list"
  st_lock :: int
  st_synchronized :: bool
  st_fnObjectFree :: bool
  st_fnObjectEquals :: "ptr \<Rightarrow> ptr \<Rightarrow> bool"
  st_freed :: "ptr list"

abbreviation st_enter :: "wStack \<Rightarrow> wStack" where
  "st_enter s \<equiv> (if st_synchronized s then s\<lparr>st_lock := st_lock s + 1\<rparr> else s)"

abbreviation st_leave :: "wStack \<Rightarrow> wStack" where
  "st_leave s \<equiv> (if st_synchronized s then s\<lparr>st_lock := st_lock s - 1\<rparr> else s)"

section \<open>Operations\<close>

definition Stack_Count :: "wStack \<Rightarrow> int \<times> wStack" where
  "Stack_Count s = (let s = st_enter s; ret = st_size s in (ret, st_leave s))"

definition Stack_IsSynchronized :: "wStack \<Rightarrow> bool" where
  "Stack_IsSynchronized s = st_synchronized s"

definition Stack_Clear :: "wStack \<Rightarrow> wStack option" where
  "Stack_Clear s0 = do {
     let s = st_enter s0;
     s \<leftarrow> foldM (\<lambda>index s. do {
            x \<leftarrow> aget (st_array s) index;
            arr \<leftarrow> aset (st_array s) index NULL;
            Some (s\<lparr>st_freed := (if st_fnObjectFree s then st_freed s @ [x] else st_freed s),
                    st_array := arr\<rparr>) }) [0..st_size s - 1] s;
     Some (st_leave (s\<lparr>st_size := 0\<rparr>)) }"

definition Stack_Contains :: "wStack \<Rightarrow> ptr \<Rightarrow> (bool \<times> wStack) option" where
  "Stack_Contains s0 obj = do {
     let s = st_enter s0;
     r \<leftarrow> searchM (\<lambda>i. do { x \<leftarrow> aget (st_array s) i; Some (st_fnObjectEquals s x obj) })
           [0..st_size s - 1];
     let found = (r \<noteq> None);
     Some (found, st_leave s) }"

text \<open>A failed \<open>realloc\<close> returns from inside the critical section.\<close>

definition Stack_Push :: "ptr fresh \<Rightarrow> wStack \<Rightarrow> ptr \<Rightarrow> wStack option" where
  "Stack_Push mem s0 obj = do {
     let s = st_enter s0;
     size1 \<leftarrow> cint (st_size s + 1);
     g \<leftarrow> (if st_capacity s \<le> size1 then do {
             new_cap \<leftarrow> cint (st_capacity s * 2);
             (case mem of
                None \<Rightarrow> Some None
              | Some j \<Rightarrow> Some (Some (s\<lparr>st_array := arealloc (st_array s) new_cap j,
                  st_capacity := new_cap\<rparr>)))
           } else Some (Some s));
     (case g of
        None \<Rightarrow> Some s
      | Some s \<Rightarrow> do {
          arr \<leftarrow> aset (st_array s) (st_size s) obj;
          Some (st_leave (s\<lparr>st_array := arr, st_size := size1\<rparr>))
        }) }"

definition Stack_Pop :: "wStack \<Rightarrow> (ptr \<times> wStack) option" where
  "Stack_Pop s0 = do {
     let s = st_enter s0;
     (obj, s) \<leftarrow> (if 0 < st_size s then do {
          let s = s\<lparr>st_size := st_size s - 1\<rparr>;
          obj \<leftarrow> aget (st_array s) (st_size s);
          Some (obj, s)
        } else Some (NULL, s));
     Some (obj, st_leave s) }"

definition Stack_Peek :: "wStack \<Rightarrow> (ptr \<times> wStack) option" where
  "Stack_Peek s0 = do {
     let s = st_enter s0;
     obj \<leftarrow> (if 0 < st_size s then aget (st_array s) (st_size s) else Some NULL);
     Some (obj, st_leave s) }"

definition default_stack_equals :: "ptr \<Rightarrow> ptr \<Rightarrow> bool" where
  "default_stack_equals obj1 obj2 = (obj1 = obj2)"

text \<open>Outcomes of the two allocations (the array is not cleared) and of the critical section.\<close>

definition Stack_New :: "bool \<Rightarrow> ptr fresh \<Rightarrow> bool \<Rightarrow> bool \<Rightarrow> wStack option" where
  "Stack_New mem_stack mem_array lock_ok synchronized =
     (if \<not> mem_stack then None
      else case mem_array of
        None \<Rightarrow> None
      | Some j \<Rightarrow>
          if synchronized \<and> \<not> lock_ok then None
          else Some \<lparr>st_size = 0, st_capacity = 32, st_array = map j [0..<32], st_lock = 0,
            st_synchronized = synchronized, st_fnObjectFree = False,
            st_fnObjectEquals = default_stack_equals, st_freed = []\<rparr>)"

text \<open>\<open>Stack_Free\<close> frees the memory and calls no callback; the calls made before are what remains.\<close>

definition Stack_Free :: "wStack option \<Rightarrow> ptr list" where
  "Stack_Free stack = (case stack of None \<Rightarrow> [] | Some s \<Rightarrow> st_freed s)"

section \<open>Invariant and abstraction\<close>

text \<open>The items, the top one last.\<close>

definition stack_items :: "wStack \<Rightarrow> ptr list" where
  "stack_items s = take (nat (st_size s)) (st_array s)"

definition stack_inv :: "wStack \<Rightarrow> bool" where
  "stack_inv s \<longleftrightarrow> 2 \<le> st_capacity s \<and> st_capacity s \<le> INT_MAX
     \<and> int (length (st_array s)) = st_capacity s \<and> 0 \<le> st_size s \<and> st_size s < st_capacity s"

lemma stack_items_length: "stack_inv s \<Longrightarrow> int (length (stack_items s)) = st_size s"
  by (auto simp: stack_items_def stack_inv_def)

lemma Stack_New_inv:
  "Stack_New a m b sync = Some s \<Longrightarrow> stack_inv s \<and> stack_items s = [] \<and> st_lock s = 0"
  by (auto simp: Stack_New_def stack_inv_def stack_items_def split: if_splits option.splits)

lemma take_update_snoc: "n < length xs \<Longrightarrow> take (Suc n) (xs[n := x]) = take n xs @ [x]"
  by (simp add: take_Suc_conv_app_nth)

lemma Stack_Push_ok:
  assumes inv: "stack_inv s" and fits: "st_capacity s \<le> st_size s + 1 \<Longrightarrow> st_capacity s * 2 \<le> INT_MAX"
  shows "\<exists>s'. Stack_Push (Some j) s obj = Some s' \<and> stack_inv s' \<and> stack_items s' = stack_items s @ [obj]
    \<and> st_lock s' = st_lock s \<and> st_freed s' = st_freed s"
proof -
  obtain n where n: "st_size s = int n" using inv by (metis nat_0_le stack_inv_def)
  have len: "int (length (st_array s)) = st_capacity s" and lt: "n < length (st_array s)"
    and max: "st_capacity s \<le> INT_MAX" and two: "2 \<le> st_capacity s"
    using inv n by (simp_all add: stack_inv_def)
  have m1: "cint (int n + 1) = Some (int n + 1)" using lt len max by (intro cint_Some) linarith+
  show ?thesis
  proof (cases "st_capacity s \<le> int n + 1")
    case True
    with fits n have dbl: "st_capacity s * 2 \<le> INT_MAX" by simp
    define arr where "arr = arealloc (st_array s) (st_capacity s * 2) j"
    have "take n arr = take n (st_array s)" and la: "n < length arr" "int (length arr) = st_capacity s * 2"
      using lt len by (auto simp: arr_def take_arealloc)
    moreover have "cint (st_capacity s * 2) = Some (st_capacity s * 2)"
      using dbl two by (intro cint_Some) linarith+
    ultimately show ?thesis using True n m1 dbl two lt len
      by (auto simp: Stack_Push_def Let_def aset_def stack_inv_def stack_items_def take_update_snoc
          simp flip: arr_def)
  next
    case False
    then show ?thesis using inv n m1 lt
      by (auto simp: Stack_Push_def Let_def aset_def stack_inv_def stack_items_def take_update_snoc)
  qed
qed

lemma Stack_Push_nomem:
  assumes "stack_inv s" and "st_capacity s \<le> st_size s + 1" and "st_capacity s * 2 \<le> INT_MAX"
  shows "Stack_Push None s obj = Some (st_enter s)"
  using assms by (simp add: Stack_Push_def Let_def stack_inv_def cint_Some)

lemma Stack_Pop_empty: "stack_inv s \<Longrightarrow> stack_items s = [] \<Longrightarrow> Stack_Pop s = Some (NULL, s)"
  using stack_items_length [of s] by (simp add: Stack_Pop_def Let_def)

lemma Stack_Pop_item:
  assumes inv: "stack_inv s" and items: "stack_items s = xs @ [x]"
  shows "Stack_Pop s = Some (x, s\<lparr>st_size := st_size s - 1\<rparr>) \<and> stack_inv (s\<lparr>st_size := st_size s - 1\<rparr>)
    \<and> stack_items (s\<lparr>st_size := st_size s - 1\<rparr>) = xs \<and> st_array s ! nat (st_size s - 1) = x"
proof -
  have n: "st_size s = int (Suc (length xs))" using stack_items_length [OF inv] items by simp
  then have take: "take (Suc (length xs)) (st_array s) = xs @ [x]" and lt: "length xs < length (st_array s)"
    using items inv by (simp_all add: stack_items_def stack_inv_def)
  then have "xs = take (length xs) (st_array s)" and x: "st_array s ! length xs = x"
    by (simp_all add: take_Suc_conv_app_nth)
  then show ?thesis using n lt inv
    by (auto simp: Stack_Pop_def Let_def aget_def stack_inv_def stack_items_def)
qed

lemma Stack_Contains_ok:
  assumes inv: "stack_inv s"
  shows "Stack_Contains s obj = Some (\<exists>x \<in> set (stack_items s). st_fnObjectEquals s x obj, s)"
proof -
  have n: "st_size s = int (nat (st_size s))" and le: "nat (st_size s) \<le> length (st_array s)"
    using inv by (auto simp: stack_inv_def)
  show ?thesis
    using searchM_array [OF le, of "\<lambda>x. st_fnObjectEquals s x obj"]
      first_index_ex [OF le, of "\<lambda>x. st_fnObjectEquals s x obj"] n
    by (simp add: Stack_Contains_def Let_def stack_items_def)
qed

text \<open>Clearing calls the free callback on every item, from the bottom up.\<close>

lemma clear_loop:
  assumes "k \<le> length (st_array s)"
  shows "foldM (\<lambda>index s. do {
      x \<leftarrow> aget (st_array s) index;
      arr \<leftarrow> aset (st_array s) index NULL;
      Some (s\<lparr>st_freed := (if st_fnObjectFree s then st_freed s @ [x] else st_freed s),
        st_array := arr\<rparr>) }) (map int [0..<k]) s =
    Some (s\<lparr>st_freed := st_freed s @ (if st_fnObjectFree s then take k (st_array s) else []),
      st_array := replicate k NULL @ drop k (st_array s)\<rparr>)"
  using assms
proof (induction k)
  case (Suc k)
  then show ?case
    by (simp add: foldM_append aget_def aset_def take_Suc_conv_app_nth nth_append
        list_update_append replicate_append_same [symmetric] Cons_nth_drop_Suc [symmetric]
        del: replicate_append_same)
qed simp

lemma Stack_Clear_ok:
  assumes inv: "stack_inv s"
  shows "\<exists>s'. Stack_Clear s = Some s' \<and> stack_inv s' \<and> stack_items s' = [] \<and> st_lock s' = st_lock s
    \<and> st_fnObjectEquals s' = st_fnObjectEquals s
    \<and> st_freed s' = st_freed s @ (if st_fnObjectFree s then stack_items s else [])"
proof -
  have n: "st_size s = int (nat (st_size s))" and le: "nat (st_size s) \<le> length (st_array s)"
    using inv by (auto simp: stack_inv_def)
  have ups: "[0..st_size s - 1] = map int [0..<nat (st_size s)]" using n upto_int by metis
  show ?thesis
    using clear_loop [of "nat (st_size s)" "st_enter s"] le inv
    by (auto simp: Stack_Clear_def Let_def ups stack_inv_def stack_items_def)
qed

section \<open>Properties\<close>

datatype stack_op = Push ptr | Pop | Contains ptr | Clear

datatype stack_ret = Popped ptr | Found bool | Done

fun stack_exec :: "(nat \<Rightarrow> ptr) \<Rightarrow> stack_op \<Rightarrow> wStack \<Rightarrow> (stack_ret \<times> wStack) option" where
  "stack_exec j (Push x) s = map_option (Pair Done) (Stack_Push (Some j) s x)"
| "stack_exec j Pop s = map_option (map_prod Popped id) (Stack_Pop s)"
| "stack_exec j (Contains x) s = map_option (map_prod Found id) (Stack_Contains s x)"
| "stack_exec j Clear s = map_option (Pair Done) (Stack_Clear s)"

text \<open>The same calls on a list, the top of the stack first.\<close>

fun stack_spec :: "stack_op \<Rightarrow> ptr list \<Rightarrow> stack_ret \<times> ptr list" where
  "stack_spec (Push x) xs = (Done, x # xs)"
| "stack_spec Pop [] = (Popped NULL, [])"
| "stack_spec Pop (x # xs) = (Popped x, xs)"
| "stack_spec (Contains x) xs = (Found (x \<in> set xs), xs)"
| "stack_spec Clear xs = (Done, [])"

fun stack_run :: "(nat \<Rightarrow> ptr) \<Rightarrow> stack_op list \<Rightarrow> wStack \<Rightarrow> (stack_ret list \<times> wStack) option" where
  "stack_run j [] s = Some ([], s)"
| "stack_run j (c # cs) s = do {
     (r, s) \<leftarrow> stack_exec j c s; (rs, s) \<leftarrow> stack_run j cs s; Some (r # rs, s) }"

fun stack_run_spec :: "stack_op list \<Rightarrow> ptr list \<Rightarrow> stack_ret list \<times> ptr list" where
  "stack_run_spec [] xs = ([], xs)"
| "stack_run_spec (c # cs) xs =
     (let (r, xs) = stack_spec c xs; (rs, xs) = stack_run_spec cs xs in (r # rs, xs))"

lemma stack_push_fields: "Stack_Push (Some j) s x = Some s' \<Longrightarrow> st_fnObjectEquals s' = st_fnObjectEquals s"
  by (auto simp: Stack_Push_def Let_def split: Option.bind_splits if_splits)

lemma stack_exec_ok:
  assumes inv: "stack_inv s" and eq: "st_fnObjectEquals s = default_stack_equals"
    and fits: "(st_size s + 1) * 2 \<le> INT_MAX" 
  shows "\<exists>s'. stack_exec j c s = Some (fst (stack_spec c (rev (stack_items s))), s') \<and> stack_inv s'
    \<and> rev (stack_items s') = snd (stack_spec c (rev (stack_items s)))
    \<and> st_fnObjectEquals s' = default_stack_equals \<and> st_lock s' = st_lock s"
proof (cases c)
  case (Push x)
  have "st_capacity s \<le> st_size s + 1 \<Longrightarrow> st_capacity s * 2 \<le> INT_MAX" using fits inv by (simp add: stack_inv_def)
  from Stack_Push_ok [OF inv this, of j x] show ?thesis
    using Push stack_push_fields [of j s x] eq by auto
next
  case Pop
  show ?thesis
  proof (cases "stack_items s" rule: rev_cases)
    case Nil
    then show ?thesis using Pop Stack_Pop_empty [OF inv] inv eq by simp
  next
    case (snoc xs x)
    then show ?thesis using Pop Stack_Pop_item [OF inv snoc] eq by auto
  qed
next
  case (Contains x)
  then show ?thesis using Stack_Contains_ok [OF inv, of x] inv eq by (auto simp: default_stack_equals_def)
next
  case Clear
  then show ?thesis using Stack_Clear_ok [OF inv] eq by auto
qed

lemma stack_spec_length: "length (snd (stack_spec c xs)) \<le> Suc (length xs)"
  by (cases "(c, xs)" rule: stack_spec.cases) auto

lemma stack_run_ok:
  assumes "stack_inv s" and "st_fnObjectEquals s = default_stack_equals"
    and "(st_size s + int (length cs)) * 2 \<le> INT_MAX"
  shows "\<exists>s'. stack_run j cs s = Some (fst (stack_run_spec cs (rev (stack_items s))), s') \<and> stack_inv s'
    \<and> rev (stack_items s') = snd (stack_run_spec cs (rev (stack_items s))) \<and> st_lock s' = st_lock s"
  using assms
proof (induction cs arbitrary: s)
  case (Cons c cs)
  from Cons.prems(3) have "(st_size s + 1) * 2 \<le> INT_MAX" by simp
  from stack_exec_ok [OF Cons.prems(1,2) this] obtain s1 where s1:
    "stack_exec j c s = Some (fst (stack_spec c (rev (stack_items s))), s1)" "stack_inv s1"
    "rev (stack_items s1) = snd (stack_spec c (rev (stack_items s)))"
    "st_fnObjectEquals s1 = default_stack_equals" "st_lock s1 = st_lock s" by blast
  have "length (stack_items s1) \<le> Suc (length (stack_items s))"
    using stack_spec_length [of c "rev (stack_items s)"] s1(3) by (metis length_rev)
  then have "st_size s1 \<le> st_size s + 1"
    using stack_items_length [OF s1(2)] stack_items_length [OF Cons.prems(1)] by simp
  then have "(st_size s1 + int (length cs)) * 2 \<le> INT_MAX" using Cons.prems(3) by simp
  from Cons.IH [OF s1(2,4) this] show ?case using s1 by (auto simp: split_beta Let_def)
qed simp

text \<open>Any sequence of \<open>Stack_Push\<close>, \<open>Stack_Pop\<close>, \<open>Stack_Contains\<close> and \<open>Stack_Clear\<close> calls on a
  fresh stack gives the results of a last-in first-out list, growth included, and leaves the
  critical section as it found it.\<close>
theorem Stack_run_lifo:
  assumes "Stack_New True (Some j0) True sync = Some s" and "int (length cs) * 2 \<le> INT_MAX"
  shows "\<exists>s'. stack_run j cs s = Some (fst (stack_run_spec cs []), s') \<and> stack_inv s'
    \<and> rev (stack_items s') = snd (stack_run_spec cs []) \<and> st_lock s' = 0"
proof -
  have s: "stack_inv s" "stack_items s = []" "st_lock s = 0" using Stack_New_inv [OF assms(1)] by simp_all
  have "st_fnObjectEquals s = default_stack_equals" and "st_size s = 0"
    using assms(1) by (auto simp: Stack_New_def split: if_splits)
  with stack_run_ok [OF s(1), of cs j] s assms(2) show ?thesis by auto
qed

theorem Stack_run_lifo_witness:
  "\<exists>s s'. Stack_New True (Some (\<lambda>_. 9)) True True = Some s
    \<and> stack_run (\<lambda>_. 8) [Push 1, Push 2, Contains 1, Pop, Contains 2, Clear, Pop] s =
      Some ([Done, Done, Found True, Popped 2, Found False, Done, Popped 0], s')"
proof -
  obtain s where s: "Stack_New True (Some (\<lambda>_. 9)) True True = Some s" by (simp add: Stack_New_def)
  from Stack_run_lifo [OF s, of "[Push 1, Push 2, Contains 1, Pop, Contains 2, Clear, Pop]" "\<lambda>_. 8"] s
  show ?thesis by auto
qed

text \<open>\<open>Stack_Peek\<close> reads the cell above the top item: right after a \<open>Stack_Pop\<close> that returned
  \<open>x\<close> and left the stack non-empty it returns \<open>x\<close> again, not the item that is now on top.\<close>
theorem Stack_Peek_after_Pop:
  assumes "stack_inv s" and "stack_items s = xs @ [y, x]"
  shows "\<exists>s'. Stack_Pop s = Some (x, s') \<and> stack_items s' = xs @ [y] \<and> Stack_Peek s' = Some (x, s')"
proof -
  have items: "stack_items s = (xs @ [y]) @ [x]" using assms(2) by simp
  let ?s = "s\<lparr>st_size := st_size s - 1\<rparr>"
  have s: "Stack_Pop s = Some (x, ?s)" "stack_inv ?s" "stack_items ?s = xs @ [y]"
    "st_array s ! nat (st_size s - 1) = x" using Stack_Pop_item [OF assms(1) items] by simp_all
  have "0 < st_size s - 1" and "st_size s - 1 < int (length (st_array s))"
    using stack_items_length [OF assms(1)] assms by (simp_all add: stack_inv_def)
  then have "Stack_Peek ?s = Some (x, ?s)" using s(4) by (simp add: Stack_Peek_def Let_def aget_def)
  with s show ?thesis by blast
qed

theorem Stack_Peek_after_Pop_witness:
  "\<exists>s'. Stack_Pop \<lparr>st_size = 2, st_capacity = 4, st_array = [5, 6, 0, 0], st_lock = 0,
     st_synchronized = False, st_fnObjectFree = False, st_fnObjectEquals = (=), st_freed = []\<rparr> =
     Some (6, s') \<and> stack_items s' = [5] \<and> Stack_Peek s' = Some (6, s')"
  using Stack_Peek_after_Pop [of "\<lparr>st_size = 2, st_capacity = 4, st_array = [5, 6, 0, 0],
     st_lock = 0, st_synchronized = False, st_fnObjectFree = False, st_fnObjectEquals = (=),
     st_freed = []\<rparr>" "[]" 5 6]
  by (simp add: stack_inv_def stack_items_def)

end
