(* ===== verification/WArrayList.thy ===== *)
theory WArrayList
  imports CPrelude
begin

text \<open>
  \<open>wArrayList\<close> of \<open>winpr/libwinpr/utils/collections/ArrayList.c\<close>: an array of object pointers with
  insertion and removal by index. The last part states what the operations do to the list of items
  and shows that any sequence of operations does that.
\<close>

section \<open>State\<close>

record wArrayList =
  al_capacity :: int
  al_growthFactor :: int
  al_synchronized :: bool
  al_size :: int
  al_array :: "ptr list"
  al_lock :: int
  al_fnObjectFree :: bool
  al_fnObjectEquals :: "ptr \<Rightarrow> ptr \<Rightarrow> bool"
  al_freed :: "ptr list"

definition ArrayList_Lock :: "wArrayList \<Rightarrow> wArrayList" where
  "ArrayList_Lock a = a\<lparr>al_lock := al_lock a + 1\<rparr>"

definition ArrayList_Unlock :: "wArrayList \<Rightarrow> wArrayList" where
  "ArrayList_Unlock a = a\<lparr>al_lock := al_lock a - 1\<rparr>"

definition al_enter :: "wArrayList \<Rightarrow> wArrayList" where
  "al_enter a = (if al_synchronized a then ArrayList_Lock a else a)"

definition al_leave :: "wArrayList \<Rightarrow> wArrayList" where
  "al_leave a = (if al_synchronized a then ArrayList_Unlock a else a)"

text \<open>Calling the free callback on one object, if there is one.\<close>

definition al_free :: "ptr \<Rightarrow> wArrayList \<Rightarrow> wArrayList" where
  "al_free x a = (if al_fnObjectFree a then a\<lparr>al_freed := al_freed a @ [x]\<rparr> else a)"

section \<open>Operations\<close>

definition ArrayList_Capacity :: "wArrayList \<Rightarrow> int" where
  "ArrayList_Capacity a = al_capacity a"

definition ArrayList_Count :: "wArrayList \<Rightarrow> int" where
  "ArrayList_Count a = al_size a"

definition ArrayList_Items :: "wArrayList \<Rightarrow> int \<times> ptr list" where
  "ArrayList_Items a = (al_size a, al_array a)"

definition ArrayList_IsFixedSized :: "wArrayList \<Rightarrow> bool" where
  "ArrayList_IsFixedSized a = False"

definition ArrayList_IsReadOnly :: "wArrayList \<Rightarrow> bool" where
  "ArrayList_IsReadOnly a = False"

definition ArrayList_IsSynchronized :: "wArrayList \<Rightarrow> bool" where
  "ArrayList_IsSynchronized a = al_synchronized a"

definition ArrayList_GetItem :: "wArrayList \<Rightarrow> int \<Rightarrow> ptr option" where
  "ArrayList_GetItem a index =
     (if 0 \<le> index \<and> index < al_size a then aget (al_array a) index else Some NULL)"

definition ArrayList_SetItem :: "wArrayList \<Rightarrow> int \<Rightarrow> ptr \<Rightarrow> wArrayList option" where
  "ArrayList_SetItem a index obj =
     (if 0 \<le> index \<and> index < al_size a
      then do { arr \<leftarrow> aset (al_array a) index obj; Some (a\<lparr>al_array := arr\<rparr>) }
      else Some a)"

text \<open>Growing the array; \<open>None\<close> inside when \<open>realloc\<close> fails.\<close>

definition ArrayList_grow :: "ptr fresh \<Rightarrow> wArrayList \<Rightarrow> wArrayList option option" where
  "ArrayList_grow mem a = do {
     newCapacity \<leftarrow> cint (al_capacity a * al_growthFactor a);
     (case mem of
        None \<Rightarrow> Some None
      | Some j \<Rightarrow> Some (Some (a\<lparr>al_array := arealloc (al_array a) newCapacity j,
          al_capacity := newCapacity\<rparr>))) }"

definition ArrayList_Shift :: "ptr fresh \<Rightarrow> wArrayList \<Rightarrow> int \<Rightarrow> int \<Rightarrow> (bool \<times> wArrayList) option" where
  "ArrayList_Shift mem a index count =
     (if 0 < count then do {
        need \<leftarrow> cint (al_size a + count);
        g \<leftarrow> (if al_capacity a < need then ArrayList_grow mem a else Some (Some a));
        (case g of
           None \<Rightarrow> Some (False, a)
         | Some a \<Rightarrow> do {
             dst \<leftarrow> cint (index + count);
             n \<leftarrow> cint (al_size a - index);
             arr \<leftarrow> amove (al_array a) dst index n;
             size \<leftarrow> cint (al_size a + count);
             Some (True, a\<lparr>al_array := arr, al_size := size\<rparr>) })
      } else if count < 0 then do {
        rest \<leftarrow> cint (al_size a - index);
        chunk \<leftarrow> cint (rest + count);
        arr \<leftarrow> (if 0 < chunk then do {
                  src \<leftarrow> cint (index - count);
                  amove (al_array a) index src chunk
                } else Some (al_array a));
        size \<leftarrow> cint (al_size a + count);
        Some (True, a\<lparr>al_array := arr, al_size := size\<rparr>)
      } else Some (True, a))"

definition ArrayList_Clear :: "wArrayList \<Rightarrow> wArrayList option" where
  "ArrayList_Clear a0 = do {
     let a = al_enter a0;
     a \<leftarrow> foldM (\<lambda>index a. do {
            x \<leftarrow> aget (al_array a) index;
            let a = al_free x a;
            arr \<leftarrow> aset (al_array a) index NULL;
            Some (a\<lparr>al_array := arr\<rparr>) }) [0..al_size a - 1] a;
     Some (al_leave (a\<lparr>al_size := 0\<rparr>)) }"

text \<open>The index is a \<open>DWORD\<close> here, so the bound is read as an unsigned number.\<close>

definition ArrayList_Contains :: "wArrayList \<Rightarrow> ptr \<Rightarrow> (bool \<times> wArrayList) option" where
  "ArrayList_Contains a0 obj = do {
     let a = al_enter a0;
     r \<leftarrow> searchM (\<lambda>i. do { x \<leftarrow> aget (al_array a) i; Some (al_fnObjectEquals a x obj) })
           [0..al_size a mod 2 ^ 32 - 1];
     let rc = (r \<noteq> None);
     Some (rc, al_leave a) }"

definition ArrayList_Add :: "ptr fresh \<Rightarrow> wArrayList \<Rightarrow> ptr \<Rightarrow> (int \<times> wArrayList) option" where
  "ArrayList_Add mem a0 obj = do {
     let a = al_enter a0;
     need \<leftarrow> cint (al_size a + 1);
     g \<leftarrow> (if al_capacity a < need then ArrayList_grow mem a else Some (Some a));
     (case g of
        None \<Rightarrow> Some (- 1, al_leave a)
      | Some a \<Rightarrow> do {
          arr \<leftarrow> aset (al_array a) (al_size a) obj;
          let a = a\<lparr>al_array := arr, al_size := need\<rparr>;
          let index = al_size a;
          Some (index, al_leave a) }) }"

definition ArrayList_Insert ::
    "ptr fresh \<Rightarrow> wArrayList \<Rightarrow> int \<Rightarrow> ptr \<Rightarrow> (bool \<times> wArrayList) option" where
  "ArrayList_Insert mem a0 index obj = do {
     let a = al_enter a0;
     (ret, a) \<leftarrow>
       (if 0 \<le> index \<and> index < al_size a then do {
          (ok, a) \<leftarrow> ArrayList_Shift mem a index 1;
          if \<not> ok then Some (False, a)
          else do {
            arr \<leftarrow> aset (al_array a) index obj;
            Some (True, a\<lparr>al_array := arr\<rparr>) }
        } else Some (True, a));
     Some (ret, al_leave a) }"

definition ArrayList_Remove :: "ptr fresh \<Rightarrow> wArrayList \<Rightarrow> ptr \<Rightarrow> (bool \<times> wArrayList) option" where
  "ArrayList_Remove mem a0 obj = do {
     let a = al_enter a0;
     found \<leftarrow> searchM (\<lambda>i. do { x \<leftarrow> aget (al_array a) i; Some (x = obj) }) [0..al_size a - 1];
     (ret, a) \<leftarrow>
       (case found of
          None \<Rightarrow> Some (True, a)
        | Some index \<Rightarrow> do {
            x \<leftarrow> aget (al_array a) index;
            ArrayList_Shift mem (al_free x a) index (- 1) });
     Some (ret, al_leave a) }"

definition ArrayList_RemoveAt :: "ptr fresh \<Rightarrow> wArrayList \<Rightarrow> int \<Rightarrow> (bool \<times> wArrayList) option" where
  "ArrayList_RemoveAt mem a0 index = do {
     let a = al_enter a0;
     (ret, a) \<leftarrow>
       (if 0 \<le> index \<and> index < al_size a then do {
          x \<leftarrow> aget (al_array a) index;
          ArrayList_Shift mem (al_free x a) index (- 1)
        } else Some (True, a));
     Some (ret, al_leave a) }"

definition ArrayList_IndexOf ::
    "wArrayList \<Rightarrow> ptr \<Rightarrow> int \<Rightarrow> int \<Rightarrow> (int \<times> wArrayList) option" where
  "ArrayList_IndexOf a0 obj startIndex count = do {
     let a = al_enter a0;
     let startIndex = (if startIndex < 0 then 0 else startIndex);
     let count = (if count < 0 then al_size a else count);
     stop \<leftarrow> cint (startIndex + count);
     found \<leftarrow> searchM (\<lambda>i. do { x \<leftarrow> aget (al_array a) i; Some (al_fnObjectEquals a x obj) })
               [startIndex..stop - 1];
     Some (case found of None \<Rightarrow> - 1 | Some index \<Rightarrow> index, al_leave a) }"

definition ArrayList_LastIndexOf ::
    "wArrayList \<Rightarrow> ptr \<Rightarrow> int \<Rightarrow> int \<Rightarrow> (int \<times> wArrayList) option" where
  "ArrayList_LastIndexOf a0 obj startIndex count = do {
     let a = al_enter a0;
     let startIndex = (if startIndex < 0 then 0 else startIndex);
     let count = (if count < 0 then al_size a else count);
     stop \<leftarrow> cint (startIndex + count);
     found \<leftarrow> searchM (\<lambda>i. do { x \<leftarrow> aget (al_array a) i; Some (al_fnObjectEquals a x obj) })
               (rev [startIndex..stop - 1]);
     Some (case found of None \<Rightarrow> - 1 | Some index \<Rightarrow> index, al_leave a) }"

definition ArrayList_DefaultCompare :: "ptr \<Rightarrow> ptr \<Rightarrow> bool" where
  "ArrayList_DefaultCompare objA objB = (objA = objB)"

definition ArrayList_New :: "bool \<Rightarrow> ptr fresh \<Rightarrow> bool \<Rightarrow> wArrayList option" where
  "ArrayList_New mem_list mem_array synchronized =
     (if \<not> mem_list then None
      else case mem_array of
        None \<Rightarrow> None
      | Some j \<Rightarrow> Some \<lparr>al_capacity = 32, al_growthFactor = 2, al_synchronized = synchronized,
          al_size = 0, al_array = map j [0..<32], al_lock = 0, al_fnObjectFree = False,
          al_fnObjectEquals = ArrayList_DefaultCompare, al_freed = []\<rparr>)"

text \<open>\<open>ArrayList_Free\<close> clears the list before its memory goes; the callback calls are what remains.\<close>

definition ArrayList_Free :: "wArrayList \<Rightarrow> ptr list option" where
  "ArrayList_Free a = do { a \<leftarrow> ArrayList_Clear a; Some (al_freed a) }"

section \<open>Invariant and abstraction\<close>

definition al_items :: "wArrayList \<Rightarrow> ptr list" where
  "al_items a = take (nat (al_size a)) (al_array a)"

definition al_inv :: "wArrayList \<Rightarrow> bool" where
  "al_inv a \<longleftrightarrow> 0 < al_capacity a \<and> al_capacity a \<le> INT_MAX \<and> 2 \<le> al_growthFactor a
     \<and> int (length (al_array a)) = al_capacity a \<and> 0 \<le> al_size a \<and> al_size a \<le> al_capacity a"

text \<open>The rest of the list object, which no operation on the items changes.\<close>

definition al_rest :: "wArrayList \<Rightarrow> int \<times> bool \<times> int \<times> bool \<times> (ptr \<Rightarrow> ptr \<Rightarrow> bool)" where
  "al_rest a = (al_growthFactor a, al_synchronized a, al_lock a, al_fnObjectFree a, al_fnObjectEquals a)"

lemmas al_lock_defs = ArrayList_Lock_def ArrayList_Unlock_def al_enter_def al_leave_def al_free_def

lemmas al_state_defs = al_inv_def al_items_def al_rest_def

lemma al_items_length: "al_inv a \<Longrightarrow> int (length (al_items a)) = al_size a"
  by (auto simp: al_items_def al_inv_def)

lemma al_inv_nat:
  assumes "al_inv a"
  obtains n where "al_size a = int n" "n \<le> length (al_array a)" "length (al_items a) = n"
    "int (length (al_array a)) = al_capacity a"
proof
  show "al_size a = int (nat (al_size a))" "nat (al_size a) \<le> length (al_array a)"
    "length (al_items a) = nat (al_size a)" "int (length (al_array a)) = al_capacity a"
    using assms by (auto simp: al_state_defs)
qed

lemma al_items_nth: "al_inv a \<Longrightarrow> i < length (al_items a) \<Longrightarrow> al_array a ! i = al_items a ! i"
  by (auto simp: al_items_def)

lemma ArrayList_New_inv:
  "ArrayList_New m j sync = Some a \<Longrightarrow>
    al_inv a \<and> al_items a = [] \<and> al_rest a = (2, sync, 0, False, ArrayList_DefaultCompare)"
  by (auto simp: ArrayList_New_def al_state_defs split: if_splits option.splits)

section \<open>One operation\<close>

lemma al_enter_simps [simp]:
  "al_size (al_enter a) = al_size a" "al_capacity (al_enter a) = al_capacity a"
  "al_growthFactor (al_enter a) = al_growthFactor a" "al_array (al_enter a) = al_array a"
  "al_fnObjectFree (al_enter a) = al_fnObjectFree a" "al_freed (al_enter a) = al_freed a"
  "al_fnObjectEquals (al_enter a) = al_fnObjectEquals a" "al_inv (al_enter a) = al_inv a"
  "al_items (al_enter a) = al_items a"
  by (simp_all add: al_lock_defs al_inv_def al_items_def)

lemma al_leave_enter [simp]: "al_leave (al_enter a) = a"
  by (simp add: al_lock_defs)

lemma take_insert:
  assumes "i < n" and "n < length xs"
  shows "take (Suc n) ((take (Suc i) xs @ take (n - i) (drop i xs) @ drop (Suc n) xs)[i := x]) =
    take i (take n xs) @ x # drop i (take n xs)"
proof -
  have "(take (Suc i) xs @ take (n - i) (drop i xs) @ drop (Suc n) xs)[i := x] =
      (take i xs @ x # take (n - i) (drop i xs)) @ drop (Suc n) xs"
    using assms by (simp add: take_Suc_conv_app_nth list_update_append)
  moreover have "length (take i xs @ x # take (n - i) (drop i xs)) = Suc n" using assms by simp
  then have "take (Suc n) ((take i xs @ x # take (n - i) (drop i xs)) @ drop (Suc n) xs) =
      take i xs @ x # take (n - i) (drop i xs)" by (metis append_eq_conv_conj)
  ultimately show ?thesis using assms by (simp add: drop_take min_def)
qed

lemma take_delete:
  assumes "i < n" and "n \<le> length xs"
  shows "take (n - 1) (take i xs @ take (n - 1 - i) (drop (Suc i) xs) @ drop (n - 1) xs) =
    take i (take n xs) @ drop (Suc i) (take n xs)"
proof -
  have "length (take i xs @ take (n - 1 - i) (drop (Suc i) xs)) = n - 1" using assms by simp
  then have "take (n - 1) ((take i xs @ take (n - 1 - i) (drop (Suc i) xs)) @ drop (n - 1) xs) =
      take i xs @ take (n - 1 - i) (drop (Suc i) xs)" by (metis append_eq_conv_conj)
  then show ?thesis using assms by (simp add: drop_take min_def)
qed

text \<open>Growing leaves the items and makes room.\<close>

lemma al_room:
  assumes inv: "al_inv a" and fits: "al_size a = al_capacity a \<Longrightarrow> al_capacity a * al_growthFactor a \<le> INT_MAX"
  shows "\<exists>a'. (if al_capacity a < al_size a + 1 then ArrayList_grow (Some j) a else Some (Some a)) = Some (Some a')
    \<and> al_inv a' \<and> al_items a' = al_items a \<and> al_size a' = al_size a \<and> al_size a < al_capacity a'
    \<and> al_rest a' = al_rest a \<and> al_freed a' = al_freed a"
proof (cases "al_capacity a < al_size a + 1")
  case True
  with inv have full: "al_size a = al_capacity a" by (simp add: al_inv_def)
  have le: "al_capacity a * 2 \<le> al_capacity a * al_growthFactor a" and pos: "0 < al_capacity a"
    using inv by (auto simp: al_inv_def intro!: mult_left_mono)
  then have "cint (al_capacity a * al_growthFactor a) = Some (al_capacity a * al_growthFactor a)"
    using fits [OF full] by (intro cint_Some) linarith+
  moreover have "al_capacity a < al_capacity a * al_growthFactor a" using le pos by linarith
  moreover have "take (nat (al_size a)) (arealloc (al_array a) (al_capacity a * al_growthFactor a) j) = al_array a"
    using le pos full inv
    by (subst take_arealloc) (auto simp: al_inv_def intro!: nat_mono)
  ultimately show ?thesis using True full fits inv
    by (auto simp: ArrayList_grow_def al_state_defs take_arealloc)
next
  case False
  then show ?thesis using inv by simp
qed

lemma al_cint_size: "al_inv a \<Longrightarrow> al_size a < al_capacity a \<Longrightarrow> cint (al_size a + 1) = Some (al_size a + 1)"
  by (auto simp: al_inv_def cint_def)

lemma ArrayList_Add_ok:
  assumes inv: "al_inv a"
    and fits: "al_size a = al_capacity a \<Longrightarrow> al_capacity a * al_growthFactor a \<le> INT_MAX"
  shows "\<exists>a'. ArrayList_Add (Some j) a obj = Some (al_size a + 1, a') \<and> al_inv a'
    \<and> al_items a' = al_items a @ [obj] \<and> al_rest a' = al_rest a \<and> al_freed a' = al_freed a"
proof -
  let ?a = "al_enter a"
  have "al_inv ?a" using inv by simp
  then obtain a1 where g: "(if al_capacity ?a < al_size ?a + 1 then ArrayList_grow (Some j) ?a
      else Some (Some ?a)) = Some (Some a1)"
    and a1: "al_inv a1" "al_items a1 = al_items ?a" "al_size a1 = al_size ?a" "al_size ?a < al_capacity a1"
      "al_rest a1 = al_rest ?a" "al_freed a1 = al_freed ?a"
    using al_room [of ?a j] fits unfolding al_enter_simps by blast
  obtain n where n: "al_size a1 = int n" "n \<le> length (al_array a1)"
    "int (length (al_array a1)) = al_capacity a1" using a1(1) by (rule al_inv_nat)
  have lt: "n < length (al_array a1)" and sz: "nat (al_size a) = n"
    using n a1(3,4) by simp_all
  have need: "cint (al_size ?a + 1) = Some (int n + 1)" using al_cint_size [OF a1(1)] a1(3,4) n by simp
  have "ArrayList_Add (Some j) a obj = Some (int n + 1,
      al_leave (a1\<lparr>al_array := (al_array a1)[n := obj], al_size := int n + 1\<rparr>))"
    unfolding ArrayList_Add_def using need g a1(3) n lt sz
    by (simp add: Let_def aset_def)
  moreover have "al_items (a1\<lparr>al_array := (al_array a1)[n := obj], al_size := int n + 1\<rparr>) = al_items a @ [obj]"
    using a1(2) n lt by (auto simp: al_items_def al_lock_defs take_Suc_conv_app_nth split: if_splits)
  moreover have "al_size a = int n" using a1(3) n(1) by simp
  ultimately show ?thesis using a1(1,5,6) n lt
    by (auto simp: al_inv_def al_rest_def al_lock_defs al_items_def split: if_splits)
qed

lemma ArrayList_Insert_ok:
  assumes inv: "al_inv a"
    and fits: "al_size a = al_capacity a \<Longrightarrow> al_capacity a * al_growthFactor a \<le> INT_MAX"
    and i: "i < length (al_items a)"
  shows "\<exists>a'. ArrayList_Insert (Some j) a (int i) obj = Some (True, a') \<and> al_inv a'
    \<and> al_items a' = take i (al_items a) @ obj # drop i (al_items a)
    \<and> al_rest a' = al_rest a \<and> al_freed a' = al_freed a"
proof -
  let ?a = "al_enter a"
  have "al_inv ?a" using inv by simp
  then obtain a1 where g: "(if al_capacity ?a < al_size ?a + 1 then ArrayList_grow (Some j) ?a
      else Some (Some ?a)) = Some (Some a1)"
    and a1: "al_inv a1" "al_items a1 = al_items ?a" "al_size a1 = al_size ?a" "al_size ?a < al_capacity a1"
      "al_rest a1 = al_rest ?a" "al_freed a1 = al_freed ?a"
    using al_room [of ?a j] fits unfolding al_enter_simps by blast
  obtain n where n: "al_size a1 = int n" "n \<le> length (al_array a1)" "length (al_items a1) = n"
    "int (length (al_array a1)) = al_capacity a1" using a1(1) by (rule al_inv_nat)
  have lt: "n < length (al_array a1)" using n a1(3,4) by simp
  have same: "al_size a = int n" "al_items a = take n (al_array a1)"
    using a1(2,3) n by (auto simp: al_lock_defs al_items_def split: if_splits)
  have i_n: "i < n" using i same(2) n(2) by simp
  have max: "int (length (al_array a1)) \<le> INT_MAX" using a1(1) by (simp add: al_inv_def)
  define arr where "arr = take (Suc i) (al_array a1) @ take (n - i) (drop i (al_array a1)) @
    drop (Suc n) (al_array a1)"
  have ci: "cint (int n + 1) = Some (int n + 1)" "cint (int i + 1) = Some (int i + 1)"
    "cint (int n - int i) = Some (int n - int i)"
    using lt i_n max by (auto intro!: cint_Some)
  have mv: "amove (al_array a1) (int i + 1) (int i) (int n - int i) = Some arr"
    using lt i_n by (simp add: amove_def arr_def nat_diff_distrib' nat_add_distrib add.commute)
  have sh: "ArrayList_Shift (Some j) ?a (int i) 1 = Some (True, a1\<lparr>al_array := arr, al_size := int n + 1\<rparr>)"
    unfolding ArrayList_Shift_def using g a1(3) n(1) ci mv by simp
  have sz: "al_size ?a = int n" using a1(3) n(1) by simp
  have larr: "length arr = length (al_array a1)" using lt i_n by (simp add: arr_def)
  have "ArrayList_Insert (Some j) a (int i) obj = Some (True,
      al_leave (a1\<lparr>al_array := arr[i := obj], al_size := int n + 1\<rparr>))"
    unfolding ArrayList_Insert_def using sh sz i_n lt larr
    by (simp add: Let_def aset_def al_lock_defs)
  moreover have "take (Suc n) (arr[i := obj]) = take i (al_items a) @ obj # drop i (al_items a)"
    unfolding arr_def same using take_insert [OF i_n lt] by simp
  then have "al_items (a1\<lparr>al_array := arr[i := obj], al_size := int n + 1\<rparr>) =
      take i (al_items a) @ obj # drop i (al_items a)" by (simp add: al_items_def)
  ultimately show ?thesis using a1(1,5,6) n(1) lt larr n(4)
    by (auto simp: al_inv_def al_rest_def al_lock_defs al_items_def split: if_splits)
qed

text \<open>Removing at a valid index, the common part of \<open>ArrayList_Remove\<close> and \<open>ArrayList_RemoveAt\<close>.\<close>

lemma ArrayList_Shift_down:
  assumes inv: "al_inv a" and i: "i < length (al_items a)"
  shows "\<exists>a'. ArrayList_Shift mem a (int i) (- 1) = Some (True, a') \<and> al_inv a'
    \<and> al_items a' = take i (al_items a) @ drop (Suc i) (al_items a)
    \<and> al_rest a' = al_rest a \<and> al_freed a' = al_freed a"
proof -
  let ?xs = "al_array a"
  obtain n where n: "al_size a = int n" "n \<le> length ?xs" "length (al_items a) = n"
    "int (length ?xs) = al_capacity a" using inv by (rule al_inv_nat)
  have i_n: "i < n" using i n by simp
  have max: "int (length ?xs) \<le> INT_MAX" using inv by (simp add: al_inv_def)
  define arr where "arr = take i ?xs @ take (n - 1 - i) (drop (Suc i) ?xs) @ drop (n - 1) ?xs"
  have larr: "length arr = length ?xs" using i_n n(2) by (simp add: arr_def)
  have more: "cint (int i + 1) = Some (int i + 1) \<and> amove ?xs (int i) (int i + 1) (int n - int i - 1) = Some arr"
    if "Suc i < n"
  proof -
    have "nat (int n - int i - 1) = n - 1 - i" and "nat (int i + (int n - int i - 1)) = n - 1" by simp_all
    then show ?thesis using that n(2) max by (simp add: cint_Some amove_def arr_def)
  qed
  have none: "arr = ?xs" if "\<not> Suc i < n"
  proof -
    have "n = Suc i" using i_n that by simp
    then show ?thesis using n(2) by (simp add: arr_def)
  qed
  have ci: "cint (int n - int i) = Some (int n - int i)" "cint (int n - int i - 1) = Some (int n - int i - 1)"
    "cint (int n - 1) = Some (int n - 1)"
    using i_n n(2) max by (auto intro!: cint_Some)
  have "ArrayList_Shift mem a (int i) (- 1) = Some (True, a\<lparr>al_array := arr, al_size := int n - 1\<rparr>)"
    unfolding ArrayList_Shift_def using ci more none n(1) by (cases "Suc i < n") simp_all
  moreover have "take (n - 1) arr = take i (al_items a) @ drop (Suc i) (al_items a)"
    unfolding arr_def al_items_def using take_delete [OF i_n n(2)] n(1) by simp
  ultimately show ?thesis using inv n i_n larr
    by (auto simp: al_state_defs nat_diff_distrib')
qed

lemma al_free_simps [simp]:
  "al_inv (al_free x a) = al_inv a" "al_items (al_free x a) = al_items a"
  "al_rest (al_free x a) = al_rest a" "al_size (al_free x a) = al_size a"
  "al_array (al_free x a) = al_array a"
  "al_freed (al_free x a) = al_freed a @ (if al_fnObjectFree a then [x] else [])"
  by (simp_all add: al_state_defs al_lock_defs)

lemma al_leave_ok:
  assumes "al_rest a' = al_rest (al_enter a)"
  shows "al_rest (al_leave a') = al_rest a" "al_inv (al_leave a') = al_inv a'"
    "al_items (al_leave a') = al_items a'" "al_freed (al_leave a') = al_freed a'"
  using assms by (auto simp: al_state_defs al_lock_defs split: if_splits)

lemma al_remove_common:
  assumes inv: "al_inv a" and i: "i < length (al_items a)"
  shows "\<exists>a'. ArrayList_Shift mem (al_free (al_items a ! i) (al_enter a)) (int i) (- 1) = Some (True, a')
    \<and> al_inv (al_leave a') \<and> al_items (al_leave a') = take i (al_items a) @ drop (Suc i) (al_items a)
    \<and> al_rest (al_leave a') = al_rest a
    \<and> al_freed (al_leave a') = al_freed a @ (if al_fnObjectFree a then [al_items a ! i] else [])"
proof -
  let ?a = "al_free (al_items a ! i) (al_enter a)"
  have "al_inv ?a" and "i < length (al_items ?a)"
    unfolding al_free_simps al_enter_simps using inv i by simp_all
  from ArrayList_Shift_down [OF this, of mem] obtain a' where
    "ArrayList_Shift mem ?a (int i) (- 1) = Some (True, a')" "al_inv a'"
    "al_items a' = take i (al_items ?a) @ drop (Suc i) (al_items ?a)"
    "al_rest a' = al_rest ?a" "al_freed a' = al_freed ?a" by blast
  then show ?thesis
    unfolding al_free_simps al_enter_simps using al_leave_ok [of a' a] by auto
qed

lemma ArrayList_RemoveAt_ok:
  assumes inv: "al_inv a" and i: "i < length (al_items a)"
  shows "\<exists>a'. ArrayList_RemoveAt mem a (int i) = Some (True, a') \<and> al_inv a'
    \<and> al_items a' = take i (al_items a) @ drop (Suc i) (al_items a) \<and> al_rest a' = al_rest a
    \<and> al_freed a' = al_freed a @ (if al_fnObjectFree a then [al_items a ! i] else [])"
proof -
  have "int i < al_size a" and "aget (al_array a) (int i) = Some (al_items a ! i)"
    using i inv al_items_length [OF inv] al_items_nth [OF inv i] by (auto simp: aget_int al_items_def)
  then show ?thesis
    using al_remove_common [OF inv i, of mem] by (auto simp: ArrayList_RemoveAt_def Let_def)
qed

lemma ArrayList_RemoveAt_out:
  "al_inv a \<Longrightarrow> index < 0 \<or> al_size a \<le> index \<Longrightarrow> ArrayList_RemoveAt mem a index = Some (True, a)"
  by (auto simp: ArrayList_RemoveAt_def Let_def)

lemma ArrayList_Insert_out:
  "al_inv a \<Longrightarrow> index < 0 \<or> al_size a \<le> index \<Longrightarrow> ArrayList_Insert mem a index obj = Some (True, a)"
  by (auto simp: ArrayList_Insert_def Let_def)

text \<open>A search over the items.\<close>

lemma al_search:
  assumes inv: "al_inv a"
  shows "searchM (\<lambda>i. do { x \<leftarrow> aget (al_array a) i; Some (P x) }) [0..al_size a - 1] =
    Some (map_option int (first_index P (al_items a) (length (al_items a))))"
proof -
  obtain n where n: "al_size a = int n" "n \<le> length (al_array a)" "length (al_items a) = n"
    using inv by (rule al_inv_nat)
  have "first_index P (al_array a) n = first_index P (al_items a) n"
    unfolding first_index_def using al_items_nth [OF inv] n(3) by (intro find_cong) simp_all
  then show ?thesis using searchM_array [OF n(2), of P] n by simp
qed

lemma remove1_first:
  assumes "i < length xs" and "xs ! i = x" and "\<forall>k < i. xs ! k \<noteq> x"
  shows "remove1 x xs = take i xs @ drop (Suc i) xs"
  using assms
proof (induction xs arbitrary: i)
  case (Cons y ys)
  show ?case
  proof (cases i)
    case (Suc j)
    then have "y \<noteq> x" using Cons.prems(3) by force
    moreover have "\<forall>k < j. ys ! k \<noteq> x" using Cons.prems(3) Suc by force
    ultimately show ?thesis using Cons.IH [of j] Cons.prems(1,2) Suc by simp
  qed (use Cons.prems in simp)
qed simp

lemma ArrayList_Remove_ok:
  assumes inv: "al_inv a"
  shows "\<exists>a'. ArrayList_Remove mem a obj = Some (True, a') \<and> al_inv a'
    \<and> al_items a' = remove1 obj (al_items a) \<and> al_rest a' = al_rest a
    \<and> al_freed a' = al_freed a @ (if al_fnObjectFree a \<and> obj \<in> set (al_items a) then [obj] else [])"
proof -
  have inv': "al_inv (al_enter a)" using inv by simp
  note search = al_search [OF inv', of "\<lambda>x. x = obj", unfolded al_enter_simps]
  show ?thesis
  proof (cases "first_index (\<lambda>x. x = obj) (al_items a) (length (al_items a))")
    case None
    then have no: "obj \<notin> set (al_items a)" unfolding first_index_None by (metis in_set_conv_nth)
    have "ArrayList_Remove mem a obj = Some (True, a)"
      unfolding ArrayList_Remove_def Let_def al_enter_simps search None by simp
    then show ?thesis using no inv by (simp add: remove1_idem)
  next
    case (Some i)
    have i: "i < length (al_items a)" "al_items a ! i = obj" "\<forall>k < i. al_items a ! k \<noteq> obj"
      using first_index_Some [OF Some] by blast+
    have "i < length (al_array a)" using i(1) by (simp add: al_items_def)
    then have get: "aget (al_array a) (int i) = Some obj"
      using al_items_nth [OF inv i(1)] i(2) by (simp add: aget_int)
    obtain a' where s: "ArrayList_Shift mem (al_free obj (al_enter a)) (int i) (- 1) = Some (True, a')"
      and a': "al_inv (al_leave a')" "al_items (al_leave a') = take i (al_items a) @ drop (Suc i) (al_items a)"
        "al_rest (al_leave a') = al_rest a"
        "al_freed (al_leave a') = al_freed a @ (if al_fnObjectFree a then [obj] else [])"
      using al_remove_common [OF inv i(1), of mem] unfolding i(2) by blast
    have "ArrayList_Remove mem a obj = Some (True, al_leave a')"
      unfolding ArrayList_Remove_def Let_def al_enter_simps search Some by (simp add: get s)
    moreover have "obj \<in> set (al_items a)" using nth_mem [OF i(1)] i(2) by metis
    ultimately show ?thesis using a' remove1_first [OF i] by simp
  qed
qed

lemma ArrayList_Contains_ok:
  assumes inv: "al_inv a"
  shows "ArrayList_Contains a obj = Some (\<exists>x \<in> set (al_items a). al_fnObjectEquals a x obj, a)"
proof -
  have "al_size a mod 2 ^ 32 = al_size a" using inv by (simp add: al_inv_def)
  moreover have "first_index P (al_items a) (length (al_items a)) \<noteq> None \<longleftrightarrow> (\<exists>x \<in> set (al_items a). P x)" for P
    using first_index_ex [OF order_refl, of P "al_items a"] by simp
  ultimately show ?thesis using al_search [OF inv, of "\<lambda>x. al_fnObjectEquals a x obj"]
    by (auto simp: ArrayList_Contains_def Let_def)
qed

text \<open>Searching the whole list from the front: the first matching index, or -1.\<close>

definition list_index_of :: "('a \<Rightarrow> bool) \<Rightarrow> 'a list \<Rightarrow> int" where
  "list_index_of P xs = (case List.find (\<lambda>i. P (xs ! i)) [0..<length xs] of None \<Rightarrow> - 1 | Some i \<Rightarrow> int i)"

definition list_last_index_of :: "('a \<Rightarrow> bool) \<Rightarrow> 'a list \<Rightarrow> int" where
  "list_last_index_of P xs =
     (case List.find (\<lambda>i. P (xs ! i)) (rev [0..<length xs]) of None \<Rightarrow> - 1 | Some i \<Rightarrow> int i)"

lemma ArrayList_IndexOf_all:
  assumes inv: "al_inv a" and "count < 0" and "startIndex \<le> 0"
  shows "ArrayList_IndexOf a obj startIndex count =
    Some (list_index_of (\<lambda>x. al_fnObjectEquals a x obj) (al_items a), a)"
proof -
  have "cint (al_size a) = Some (al_size a)" using inv by (auto simp: al_inv_def cint_def)
  moreover have "(if startIndex < 0 then 0 else startIndex) = 0" using assms(3) by simp
  ultimately show ?thesis using assms(2) al_search [OF inv, of "\<lambda>x. al_fnObjectEquals a x obj"]
    by (auto simp: ArrayList_IndexOf_def Let_def list_index_of_def first_index_def
        split: option.splits)
qed

lemma ArrayList_LastIndexOf_all:
  assumes inv: "al_inv a" and "count < 0" and "startIndex \<le> 0"
  shows "ArrayList_LastIndexOf a obj startIndex count =
    Some (list_last_index_of (\<lambda>x. al_fnObjectEquals a x obj) (al_items a), a)"
proof -
  let ?P = "\<lambda>x. al_fnObjectEquals a x obj"
  obtain n where n: "al_size a = int n" "n \<le> length (al_array a)" "length (al_items a) = n"
    using inv by (rule al_inv_nat)
  have "searchM (\<lambda>i. do { x \<leftarrow> aget (al_array a) i; Some (?P x) }) (map int (rev [0..<n])) =
      Some (List.find (\<lambda>i. ?P (al_items a ! nat i)) (map int (rev [0..<n])))"
    using n al_items_nth [OF inv] by (intro searchM_find) (auto simp: aget_def)
  then have "searchM (\<lambda>i. do { x \<leftarrow> aget (al_array a) i; Some (?P x) }) (rev [0..al_size a - 1]) =
      Some (map_option int (List.find (\<lambda>i. ?P (al_items a ! i)) (rev [0..<n])))"
    by (simp add: n(1) upto_int rev_map find_map comp_def)
  moreover have "cint (al_size a) = Some (al_size a)" using inv by (auto simp: al_inv_def cint_def)
  moreover have "(if startIndex < 0 then 0 else startIndex) = 0" using assms(3) by simp
  ultimately show ?thesis using assms(2) n(3)
    by (auto simp: ArrayList_LastIndexOf_def Let_def list_last_index_of_def
        split: option.splits)
qed

lemma al_clear_loop:
  assumes "k \<le> length (al_array a)"
  shows "foldM (\<lambda>index a. do {
      x \<leftarrow> aget (al_array a) index;
      let a = al_free x a;
      arr \<leftarrow> aset (al_array a) index NULL;
      Some (a\<lparr>al_array := arr\<rparr>) }) (map int [0..<k]) a =
    Some (a\<lparr>al_freed := al_freed a @ (if al_fnObjectFree a then take k (al_array a) else []),
      al_array := replicate k NULL @ drop k (al_array a)\<rparr>)"
  using assms
proof (induction k)
  case (Suc k)
  then have k: "k < length (al_array a)" by simp
  with Suc.IH show ?case
    by (simp add: foldM_append aget_def aset_def take_Suc_conv_app_nth nth_append al_free_def
        list_update_append replicate_append_same [symmetric] Cons_nth_drop_Suc [symmetric] Let_def
        del: replicate_append_same)
qed simp

lemma ArrayList_Clear_ok:
  assumes inv: "al_inv a"
  shows "\<exists>a'. ArrayList_Clear a = Some a' \<and> al_inv a' \<and> al_items a' = [] \<and> al_rest a' = al_rest a
    \<and> al_freed a' = al_freed a @ (if al_fnObjectFree a then al_items a else [])"
proof -
  obtain n where n: "al_size a = int n" "n \<le> length (al_array a)" "length (al_items a) = n"
    using inv by (rule al_inv_nat)
  then show ?thesis
    using al_clear_loop [of n "al_enter a"] inv
    by (auto simp: ArrayList_Clear_def Let_def upto_int al_state_defs al_lock_defs)
qed

lemma ArrayList_SetItem_ok:
  assumes inv: "al_inv a"
  shows "\<exists>a'. ArrayList_SetItem a index obj = Some a' \<and> al_inv a'
    \<and> al_items a' = (if 0 \<le> index then (al_items a)[nat index := obj] else al_items a)
    \<and> al_rest a' = al_rest a \<and> al_freed a' = al_freed a"
proof -
  obtain n where n: "al_size a = int n" "n \<le> length (al_array a)" "length (al_items a) = n"
    using inv by (rule al_inv_nat)
  show ?thesis
  proof (cases "0 \<le> index \<and> index < al_size a")
    case True
    then show ?thesis using inv n
      by (auto simp: ArrayList_SetItem_def aset_def al_state_defs take_update_swap)
  next
    case False
    then have "\<not> 0 \<le> index \<or> n \<le> nat index" using n(1) by linarith
    then show ?thesis using inv n(3) False by (auto simp: ArrayList_SetItem_def list_update_beyond)
  qed
qed

lemma ArrayList_GetItem_ok:
  "al_inv a \<Longrightarrow> ArrayList_GetItem a index =
    Some (if 0 \<le> index \<and> nat index < length (al_items a) then al_items a ! nat index else NULL)"
  using al_items_length [of a]
  by (auto simp: ArrayList_GetItem_def aget_def al_state_defs)

section \<open>Sequences of operations\<close>

datatype al_op = AL_Add ptr | AL_Insert int ptr | AL_Remove ptr | AL_RemoveAt int
  | AL_SetItem int ptr | AL_GetItem int | AL_Contains ptr | AL_IndexOf ptr | AL_LastIndexOf ptr
  | AL_Count | AL_Clear

datatype al_ret = RInt int | RBool bool | RPtr ptr | RVoid

text \<open>One call on the list object, with the fresh cells \<open>j\<close> of an allocation that succeeds.\<close>

fun al_exec :: "(nat \<Rightarrow> ptr) \<Rightarrow> al_op \<Rightarrow> wArrayList \<Rightarrow> (al_ret \<times> wArrayList) option" where
  "al_exec j (AL_Add x) a = map_option (map_prod RInt id) (ArrayList_Add (Some j) a x)"
| "al_exec j (AL_Insert i x) a = map_option (map_prod RBool id) (ArrayList_Insert (Some j) a i x)"
| "al_exec j (AL_Remove x) a = map_option (map_prod RBool id) (ArrayList_Remove (Some j) a x)"
| "al_exec j (AL_RemoveAt i) a = map_option (map_prod RBool id) (ArrayList_RemoveAt (Some j) a i)"
| "al_exec j (AL_SetItem i x) a = map_option (Pair RVoid) (ArrayList_SetItem a i x)"
| "al_exec j (AL_GetItem i) a = map_option (\<lambda>x. (RPtr x, a)) (ArrayList_GetItem a i)"
| "al_exec j (AL_Contains x) a = map_option (map_prod RBool id) (ArrayList_Contains a x)"
| "al_exec j (AL_IndexOf x) a = map_option (map_prod RInt id) (ArrayList_IndexOf a x (- 1) (- 1))"
| "al_exec j (AL_LastIndexOf x) a = map_option (map_prod RInt id) (ArrayList_LastIndexOf a x (- 1) (- 1))"
| "al_exec j AL_Count a = Some (RInt (ArrayList_Count a), a)"
| "al_exec j AL_Clear a = map_option (Pair RVoid) (ArrayList_Clear a)"

text \<open>
  The same call on a list: the value it returns and the new list. \<open>ArrayList_Add\<close> returns the new
  number of items, and \<open>ArrayList_Insert\<close> at an index that is not the one of an item leaves the list
  as it is and returns \<open>TRUE\<close>.
\<close>

fun al_spec :: "(ptr \<Rightarrow> ptr \<Rightarrow> bool) \<Rightarrow> al_op \<Rightarrow> ptr list \<Rightarrow> al_ret \<times> ptr list" where
  "al_spec eq (AL_Add x) xs = (RInt (int (length xs) + 1), xs @ [x])"
| "al_spec eq (AL_Insert i x) xs = (RBool True,
     if 0 \<le> i \<and> nat i < length xs then take (nat i) xs @ x # drop (nat i) xs else xs)"
| "al_spec eq (AL_Remove x) xs = (RBool True, remove1 x xs)"
| "al_spec eq (AL_RemoveAt i) xs = (RBool True,
     if 0 \<le> i then take (nat i) xs @ drop (Suc (nat i)) xs else xs)"
| "al_spec eq (AL_SetItem i x) xs = (RVoid, if 0 \<le> i then xs[nat i := x] else xs)"
| "al_spec eq (AL_GetItem i) xs = (RPtr (if 0 \<le> i \<and> nat i < length xs then xs ! nat i else NULL), xs)"
| "al_spec eq (AL_Contains x) xs = (RBool (\<exists>y \<in> set xs. eq y x), xs)"
| "al_spec eq (AL_IndexOf x) xs = (RInt (list_index_of (\<lambda>y. eq y x) xs), xs)"
| "al_spec eq (AL_LastIndexOf x) xs = (RInt (list_last_index_of (\<lambda>y. eq y x) xs), xs)"
| "al_spec eq AL_Count xs = (RInt (int (length xs)), xs)"
| "al_spec eq AL_Clear xs = (RVoid, [])"

fun al_run :: "(nat \<Rightarrow> ptr) \<Rightarrow> al_op list \<Rightarrow> wArrayList \<Rightarrow> (al_ret list \<times> wArrayList) option" where
  "al_run j [] a = Some ([], a)"
| "al_run j (c # cs) a = do { (r, a) \<leftarrow> al_exec j c a; (rs, a) \<leftarrow> al_run j cs a; Some (r # rs, a) }"

fun al_run_spec :: "(ptr \<Rightarrow> ptr \<Rightarrow> bool) \<Rightarrow> al_op list \<Rightarrow> ptr list \<Rightarrow> al_ret list \<times> ptr list" where
  "al_run_spec eq [] xs = ([], xs)"
| "al_run_spec eq (c # cs) xs =
     (let (r, xs) = al_spec eq c xs; (rs, xs) = al_run_spec eq cs xs in (r # rs, xs))"

lemma al_exec_ok:
  assumes inv: "al_inv a" and fits: "(al_size a) * al_growthFactor a \<le> INT_MAX"
  shows "\<exists>a'. al_exec j c a = Some (fst (al_spec (al_fnObjectEquals a) c (al_items a)), a') \<and> al_inv a'
    \<and> al_items a' = snd (al_spec (al_fnObjectEquals a) c (al_items a)) \<and> al_rest a' = al_rest a"
proof -
  have grow: "al_size a = al_capacity a \<Longrightarrow> al_capacity a * al_growthFactor a \<le> INT_MAX"
    using fits by simp
  show ?thesis
proof (cases c)
  case (AL_Add x)
  show ?thesis
    using AL_Add al_items_length [OF inv] ArrayList_Add_ok [OF inv grow, of j x] by auto
next
  case (AL_Insert i x)
  show ?thesis
  proof (cases "0 \<le> i \<and> nat i < length (al_items a)")
    case True
    then show ?thesis
      using AL_Insert ArrayList_Insert_ok [OF inv grow conjunct2 [OF True], of j x] True by auto
  next
    case False
    then have "i < 0 \<or> al_size a \<le> i" using al_items_length [OF inv] by linarith
    from ArrayList_Insert_out [OF inv this, of "Some j" x] show ?thesis
      using AL_Insert False inv by (simp only: al_exec.simps al_spec.simps) simp
  qed
next
  case (AL_Remove x)
  then show ?thesis using ArrayList_Remove_ok [OF inv, of "Some j" x] by auto
next
  case (AL_RemoveAt i)
  show ?thesis
  proof (cases "0 \<le> i \<and> nat i < length (al_items a)")
    case True
    then show ?thesis using AL_RemoveAt ArrayList_RemoveAt_ok [OF inv, of "nat i" "Some j"] by auto
  next
    case False
    then have "i < 0 \<or> al_size a \<le> i" using al_items_length [OF inv] by linarith
    from ArrayList_RemoveAt_out [OF inv this, of "Some j"] show ?thesis
      using AL_RemoveAt False inv by (auto simp: not_less)
  qed
next
  case (AL_SetItem i x)
  then show ?thesis using ArrayList_SetItem_ok [OF inv, of i x] by auto
next
  case (AL_IndexOf x)
  then show ?thesis using ArrayList_IndexOf_all [OF inv, of "- 1" "- 1" x] inv by auto
next
  case (AL_LastIndexOf x)
  then show ?thesis using ArrayList_LastIndexOf_all [OF inv, of "- 1" "- 1" x] inv by auto
next
  case AL_Clear
  then show ?thesis using ArrayList_Clear_ok [OF inv] by auto
qed (use inv ArrayList_GetItem_ok ArrayList_Contains_ok al_items_length [OF inv] in
    \<open>auto simp: ArrayList_Count_def\<close>)
qed

lemma al_spec_length: "length (snd (al_spec eq c xs)) \<le> Suc (length xs)"
  by (cases c) (auto simp: length_remove1)

lemma al_run_ok:
  assumes "al_inv a" and "(al_size a + int (length cs)) * al_growthFactor a \<le> INT_MAX"
  shows "\<exists>a'. al_run j cs a = Some (fst (al_run_spec (al_fnObjectEquals a) cs (al_items a)), a')
    \<and> al_inv a' \<and> al_items a' = snd (al_run_spec (al_fnObjectEquals a) cs (al_items a)) \<and> al_rest a' = al_rest a"
  using assms
proof (induction cs arbitrary: a)
  case (Cons c cs)
  have g: "0 \<le> al_growthFactor a" using Cons.prems(1) by (simp add: al_inv_def)
  then have "al_size a * al_growthFactor a \<le> (al_size a + int (length (c # cs))) * al_growthFactor a"
    by (intro mult_right_mono) simp_all
  with Cons.prems(2) have "al_size a * al_growthFactor a \<le> INT_MAX" by (rule order_trans [rotated])
  with al_exec_ok [OF Cons.prems(1)] obtain a1 where a1:
    "al_exec j c a = Some (fst (al_spec (al_fnObjectEquals a) c (al_items a)), a1)" "al_inv a1"
    "al_items a1 = snd (al_spec (al_fnObjectEquals a) c (al_items a))" "al_rest a1 = al_rest a" by blast
  then have size: "al_size a1 \<le> al_size a + 1"
    using al_spec_length [of "al_fnObjectEquals a" c "al_items a"] al_items_length [OF a1(2)]
      al_items_length [OF Cons.prems(1)] by simp
  have rest: "al_growthFactor a1 = al_growthFactor a" "al_fnObjectEquals a1 = al_fnObjectEquals a"
    using a1(4) by (auto simp: al_rest_def)
  have "(al_size a1 + int (length cs)) * al_growthFactor a \<le> (al_size a + int (length (c # cs))) * al_growthFactor a"
    using size g by (intro mult_right_mono) simp_all
  then have "(al_size a1 + int (length cs)) * al_growthFactor a1 \<le> INT_MAX"
    unfolding rest using Cons.prems(2) by (rule order_trans)
  from Cons.IH [OF a1(2) this] show ?case using a1 rest by (auto simp: split_beta Let_def)
qed simp

section \<open>Properties\<close>

text \<open>C28. Any sequence of \<open>ArrayList\<close> calls (add, insert, remove, remove-at, get, set, contains, index
  searches over the whole list, count, clear) on a fresh list returns what the list specification
  returns and leaves its items, with no access outside the array and the critical section as it was;
  the only bound is that twice the number of calls fits an \<open>int\<close>.\<close>
theorem ArrayList_run_list:
  assumes "ArrayList_New True (Some j0) sync = Some a" and "2 * int (length cs) \<le> INT_MAX"
  shows "\<exists>a'. al_run j cs a = Some (fst (al_run_spec ArrayList_DefaultCompare cs []), a') \<and> al_inv a'
    \<and> al_items a' = snd (al_run_spec ArrayList_DefaultCompare cs []) \<and> al_lock a' = 0"
proof -
  have a: "al_inv a" "al_items a = []" "al_rest a = (2, sync, 0, False, ArrayList_DefaultCompare)"
    using ArrayList_New_inv [OF assms(1)] by blast+
  then have "al_size a = 0" using al_items_length [OF a(1)] by simp
  with a al_run_ok [OF a(1), of cs j] assms(2) show ?thesis by (auto simp: al_rest_def)
qed

theorem ArrayList_run_list_witness:
  "\<exists>a a'. ArrayList_New True (Some (\<lambda>_. 9)) True = Some a
    \<and> al_run (\<lambda>_. 8) [AL_Add 5, AL_Insert 0 6, AL_Add 5, AL_Remove 5, AL_Insert 7 3, AL_Count, AL_GetItem 1] a =
      Some ([RInt 1, RBool True, RInt 3, RBool True, RBool True, RInt 2, RPtr 5], a')
    \<and> al_items a' = [6, 5]"
proof -
  obtain a where a: "ArrayList_New True (Some (\<lambda>_. 9)) True = Some a" by (simp add: ArrayList_New_def)
  from ArrayList_run_list [OF a, of "[AL_Add 5, AL_Insert 0 6, AL_Add 5, AL_Remove 5, AL_Insert 7 3,
      AL_Count, AL_GetItem 1]" "\<lambda>_. 8"] a
  show ?thesis by auto
qed

text \<open>Removing and clearing call the free callback exactly on the objects that leave the list: on
  the object of \<open>ArrayList_Remove\<close> when it is an item, on the item at the index of
  \<open>ArrayList_RemoveAt\<close>, and on every item once, in order, for \<open>ArrayList_Free\<close>.\<close>
theorem ArrayList_callbacks:
  assumes "al_inv a" and "al_fnObjectFree a" and "i < length (al_items a)"
  shows "map_option (al_freed \<circ> snd) (ArrayList_Remove mem a obj) =
      Some (al_freed a @ (if obj \<in> set (al_items a) then [obj] else []))
    \<and> map_option (al_freed \<circ> snd) (ArrayList_RemoveAt mem a (int i)) = Some (al_freed a @ [al_items a ! i])
    \<and> ArrayList_Free a = Some (al_freed a @ al_items a)"
  using ArrayList_Remove_ok [OF assms(1), of mem obj] ArrayList_RemoveAt_ok [OF assms(1,3), of mem]
    ArrayList_Clear_ok [OF assms(1)] assms(2)
  by (auto simp: ArrayList_Free_def)

theorem ArrayList_callbacks_witness:
  "ArrayList_Free \<lparr>al_capacity = 4, al_growthFactor = 2, al_synchronized = True, al_size = 2,
      al_array = [5, 6, 7, 8], al_lock = 0, al_fnObjectFree = True, al_fnObjectEquals = (=),
      al_freed = []\<rparr> = Some [5, 6]"
  using ArrayList_callbacks [of "\<lparr>al_capacity = 4, al_growthFactor = 2, al_synchronized = True,
      al_size = 2, al_array = [5, 6, 7, 8], al_lock = 0, al_fnObjectFree = True,
      al_fnObjectEquals = (=), al_freed = []\<rparr>" 0 None 5]
  by (simp add: al_inv_def al_items_def)

text \<open>A search with an explicit start and a negative count looks at \<open>startIndex + size\<close> cells: when
  the start is positive, the array is full and nothing matches, the search reads outside the array.\<close>
theorem ArrayList_IndexOf_overrun:
  assumes "al_inv a" and "al_size a = al_capacity a" and "0 < startIndex" and "startIndex \<le> 100"
    and "al_capacity a \<le> INT_MAX - 100" and "count < 0"
    and "\<forall>x \<in> set (al_array a). \<not> al_fnObjectEquals a x obj"
  shows "ArrayList_IndexOf a obj startIndex count = None"
proof -
  let ?f = "\<lambda>i. do { x \<leftarrow> aget (al_array a) i; Some (al_fnObjectEquals a x obj) }"
  have len: "al_size a = int (length (al_array a))" using assms(1,2) by (simp add: al_inv_def)
  have scan: "searchM ?f [i..stop - 1] = None"
    if "0 \<le> i" "i \<le> int (length (al_array a))" "int (length (al_array a)) < stop" for i stop
    using that
  proof (induction "nat (int (length (al_array a)) - i)" arbitrary: i)
    case 0
    then have "i = int (length (al_array a))" by simp
    with 0 show ?case by (subst upto.simps) (simp add: aget_def)
  next
    case (Suc k)
    then have "i < int (length (al_array a))" by linarith
    moreover from this Suc have "searchM ?f [i + 1..stop - 1] = None" by (intro Suc.hyps(1)) linarith+
    ultimately show ?case using Suc.prems assms(7)
      by (subst upto.simps) (simp add: aget_def)
  qed
  have "searchM ?f [startIndex..startIndex + al_size a - 1] = None"
  proof (cases "startIndex \<le> al_size a")
    case True
    then show ?thesis using scan [of startIndex "startIndex + al_size a"] assms(3) len by simp
  next
    case False
    moreover have "0 < al_size a" using assms(1,2) by (simp add: al_inv_def)
    ultimately show ?thesis using len by (subst upto.simps) (simp add: aget_def)
  qed
  moreover have "cint (startIndex + al_size a) = Some (startIndex + al_size a)"
    using assms(1-5) by (intro cint_Some) (auto simp: al_inv_def)
  ultimately show ?thesis using assms(3,6) by (simp add: ArrayList_IndexOf_def Let_def)
qed

theorem ArrayList_IndexOf_overrun_witness:
  "ArrayList_IndexOf \<lparr>al_capacity = 2, al_growthFactor = 2, al_synchronized = True, al_size = 2,
      al_array = [5, 6], al_lock = 0, al_fnObjectFree = True, al_fnObjectEquals = (=),
      al_freed = []\<rparr> 7 1 (- 1) = None"
  by (rule ArrayList_IndexOf_overrun) (simp_all add: al_inv_def)

end
