(* ===== verification/Heap.thy ===== *)
theory Heap
  imports CPrelude
begin

text \<open>
  Linked structures on the C heap. The nodes of one kind live in a partial map from addresses; a node
  that \<open>free\<close> released is no longer in the map, so reading or writing it is \<open>None\<close>. \<open>malloc\<close> hands
  out the address its argument names, or fails. \<open>lseg\<close> describes the nodes met when following one
  link field from an address to another.
\<close>

type_synonym 'n heap = "ptr \<Rightarrow> 'n option"

section \<open>Access\<close>

definition hset :: "'n heap \<Rightarrow> ptr \<Rightarrow> ('n \<Rightarrow> 'n) \<Rightarrow> 'n heap option" where
  "hset h p f = (case h p of None \<Rightarrow> None | Some n \<Rightarrow> Some (h(p \<mapsto> f n)))"

definition hfree :: "'n heap \<Rightarrow> ptr \<Rightarrow> 'n heap option" where
  "hfree h p = (case h p of None \<Rightarrow> None | Some _ \<Rightarrow> Some (h(p := None)))"

text \<open>What \<open>malloc\<close> promises about an address: it is not \<open>NULL\<close> and not in use.\<close>

definition fresh_in :: "'n heap \<Rightarrow> ptr \<Rightarrow> bool" where
  "fresh_in h p \<longleftrightarrow> p \<noteq> NULL \<and> h p = None"

lemma hset_Some: "h p = Some n \<Longrightarrow> hset h p f = Some (h(p \<mapsto> f n))"
  by (simp add: hset_def)

lemma hfree_Some: "h p = Some n \<Longrightarrow> hfree h p = Some (h(p := None))"
  by (simp add: hfree_def)

section \<open>Segments\<close>

fun lseg :: "('n \<Rightarrow> ptr) \<Rightarrow> 'n heap \<Rightarrow> ptr \<Rightarrow> ptr list \<Rightarrow> ptr \<Rightarrow> bool" where
  "lseg nx h p [] q = (p = q)"
| "lseg nx h p (a # as) q = (p = a \<and> a \<noteq> NULL \<and> (\<exists>n. h a = Some n \<and> lseg nx h (nx n) as q))"

lemma lseg_append: "lseg nx h p (as @ bs) q \<longleftrightarrow> (\<exists>r. lseg nx h p as r \<and> lseg nx h r bs q)"
  by (induction as arbitrary: p) auto

lemma lseg_frame [simp]: "b \<notin> set as \<Longrightarrow> lseg nx (h(b := v)) p as q = lseg nx h p as q"
  by (induction as arbitrary: p) auto

lemma lseg_in_heap: "lseg nx h p as q \<Longrightarrow> a \<in> set as \<Longrightarrow> a \<noteq> NULL \<and> (\<exists>n. h a = Some n)"
  by (induction as arbitrary: p) auto

lemma lseg_NULL: "lseg nx h NULL as q \<Longrightarrow> as = [] \<and> q = NULL"
  by (cases as) auto

lemma lseg_unique: "lseg nx h p as NULL \<Longrightarrow> lseg nx h p bs NULL \<Longrightarrow> as = bs"
proof (induction as arbitrary: p bs)
  case Nil
  then show ?case using lseg_NULL by fastforce
next
  case (Cons a as)
  then show ?case by (cases bs) auto
qed

lemma lseg_distinct: "lseg nx h p as NULL \<Longrightarrow> distinct as"
proof (induction as arbitrary: p)
  case (Cons a as)
  then obtain n where n: "h a = Some n" "lseg nx h (nx n) as NULL" by auto
  have "a \<notin> set as"
  proof
    assume "a \<in> set as"
    then obtain bs cs where as: "as = bs @ a # cs" by (meson split_list)
    with n(2) obtain r where "lseg nx h r (a # cs) NULL" by (auto simp: lseg_append)
    then have "lseg nx h (nx n) cs NULL" using n(1) by auto
    with lseg_unique [OF n(2)] have "length as = length cs" by simp
    with as show False by simp
  qed
  with Cons n show ?case by auto
qed simp

lemma lseg_next_cong:
  "(\<And>a. a \<in> set as \<Longrightarrow> map_option nx (h' a) = map_option nx (h a)) \<Longrightarrow> lseg nx h' p as q = lseg nx h p as q"
proof (induction as arbitrary: p)
  case (Cons a as)
  have "map_option nx (h' a) = map_option nx (h a)" using Cons.prems by simp
  moreover have "lseg nx h' r as q = lseg nx h r as q" for r using Cons by simp
  ultimately show ?case by (cases "h a"; cases "h' a") auto
qed simp

text \<open>The nodes of a chain, in order.\<close>

definition nodes :: "'n heap \<Rightarrow> ptr list \<Rightarrow> 'n list" where
  "nodes h as = map (\<lambda>a. the (h a)) as"

lemma nodes_simps [simp]: "nodes h [] = []" "nodes h (a # as) = the (h a) # nodes h as"
  "nodes h (as @ bs) = nodes h as @ nodes h bs" "length (nodes h as) = length as"
  by (simp_all add: nodes_def)

lemma nodes_frame [simp]: "b \<notin> set as \<Longrightarrow> nodes (h(b := v)) as = nodes h as"
  by (auto simp: nodes_def)

section \<open>Walking a chain\<close>

text \<open>\<open>while (item) { if (P(item)) break; item = item->next; }\<close>\<close>

partial_function (option) chain_find :: "('n \<Rightarrow> ptr) \<Rightarrow> 'n heap \<Rightarrow> ('n \<Rightarrow> bool) \<Rightarrow> ptr \<Rightarrow> ptr option" where
  "chain_find nx h P item =
     (if item = NULL then Some NULL
      else do { n \<leftarrow> h item; if P n then Some item else chain_find nx h P (nx n) })"

lemma chain_find_ok:
  "lseg nx h p as NULL \<Longrightarrow> chain_find nx h P p =
    Some (case List.find (\<lambda>a. P (the (h a))) as of None \<Rightarrow> NULL | Some a \<Rightarrow> a)"
proof (induction as arbitrary: p)
  case Nil
  then show ?case by (subst chain_find.simps) simp
next
  case (Cons a as)
  then obtain n where "p = a" "a \<noteq> NULL" "h a = Some n" "lseg nx h (nx n) as NULL" by auto
  with Cons.IH show ?case by (subst chain_find.simps) simp
qed

text \<open>Finding in the list of addresses is splitting the list of nodes at the first match.\<close>

lemma find_split:
  "List.find P as = Some a \<Longrightarrow> \<exists>bs cs. as = bs @ a # cs \<and> P a \<and> (\<forall>b \<in> set bs. \<not> P b)"
proof (induction as)
  case (Cons x as)
  show ?case
  proof (cases "P x")
    case True
    with Cons.prems show ?thesis by (intro exI [of _ "[]"] exI [of _ as]) simp
  next
    case False
    with Cons obtain bs cs where "as = bs @ a # cs" "P a" "\<forall>b \<in> set bs. \<not> P b" by auto
    with False have "x # as = (x # bs) @ a # cs \<and> P a \<and> (\<forall>b \<in> set (x # bs). \<not> P b)" by simp
    then show ?thesis by blast
  qed
qed simp

end
