(* ===== verification/Dict.thy ===== *)
theory Dict
  imports CPrelude
begin

text \<open>
  The contract the two dictionaries of WinPR share. \<open>repr d m\<close> says that the object \<open>d\<close> holds the
  partial map \<open>m\<close>; keys are compared by their class \<open>cls k\<close>, so that two pointers to equal strings
  can be the same key; \<open>room e k v d\<close> says that the outcomes \<open>e\<close> of the allocations allow the pair to
  be added. A dictionary promises nothing about adding a key it already holds; a replacing one
  promises that the new value takes the place of the old.
\<close>

datatype ('e, 'k, 'v) dict_op = Insert 'e 'k 'v | Delete 'k | Lookup 'k

fun run_dict :: "('e \<Rightarrow> 'k \<Rightarrow> 'v \<Rightarrow> 'd \<Rightarrow> 'd option) \<Rightarrow> ('k \<Rightarrow> 'd \<Rightarrow> 'd option) \<Rightarrow> ('k \<Rightarrow> 'd \<Rightarrow> ('v \<times> 'd) option) \<Rightarrow>
    ('e, 'k, 'v) dict_op list \<Rightarrow> 'd \<Rightarrow> ('v list \<times> 'd) option" where
  "run_dict put del get [] d = Some ([], d)"
| "run_dict put del get (Insert e k v # ops) d = do { d \<leftarrow> put e k v d; run_dict put del get ops d }"
| "run_dict put del get (Delete k # ops) d = do { d \<leftarrow> del k d; run_dict put del get ops d }"
| "run_dict put del get (Lookup k # ops) d = do {
     (v, d) \<leftarrow> get k d; (vs, d) \<leftarrow> run_dict put del get ops d; Some (v # vs, d) }"

fun run_map :: "('k \<Rightarrow> 'c) \<Rightarrow> 'v \<Rightarrow> ('e, 'k, 'v) dict_op list \<Rightarrow> ('c \<Rightarrow> 'v option) \<Rightarrow>
    'v list \<times> ('c \<Rightarrow> 'v option)" where
  "run_map cls z [] m = ([], m)"
| "run_map cls z (Insert e k v # ops) m = run_map cls z ops (m(cls k \<mapsto> v))"
| "run_map cls z (Delete k # ops) m = run_map cls z ops (m(cls k := None))"
| "run_map cls z (Lookup k # ops) m =
     (let (vs, m') = run_map cls z ops m in ((case m (cls k) of None \<Rightarrow> z | Some v \<Rightarrow> v) # vs, m'))"

text \<open>
  Every insertion has room in the object it meets, and, if \<open>fk\<close>, a key not held. That the operations return is
  not assumed: after a call that does not, nothing more is asked.
\<close>

fun admissible :: "bool \<Rightarrow> ('k \<Rightarrow> 'c) \<Rightarrow> ('e \<Rightarrow> 'k \<Rightarrow> 'v \<Rightarrow> 'd \<Rightarrow> bool) \<Rightarrow> ('e \<Rightarrow> 'k \<Rightarrow> 'v \<Rightarrow> 'd \<Rightarrow> 'd option) \<Rightarrow>
    ('k \<Rightarrow> 'd \<Rightarrow> 'd option) \<Rightarrow> ('e, 'k, 'v) dict_op list \<Rightarrow> 'd \<Rightarrow> ('c \<Rightarrow> 'v option) \<Rightarrow> bool" where
  "admissible fk cls room put del [] d m = True"
| "admissible fk cls room put del (Insert e k v # ops) d m =
     (room e k v d \<and> (fk \<longrightarrow> m (cls k) = None) \<and> (case put e k v d of None \<Rightarrow> True
        | Some d' \<Rightarrow> admissible fk cls room put del ops d' (m(cls k \<mapsto> v))))"
| "admissible fk cls room put del (Delete k # ops) d m = (case del k d of None \<Rightarrow> True
     | Some d' \<Rightarrow> admissible fk cls room put del ops d' (m(cls k := None)))"
| "admissible fk cls room put del (Lookup k # ops) d m = admissible fk cls room put del ops d m"

locale dictionary =
  fixes put :: "'e \<Rightarrow> 'k \<Rightarrow> 'v \<Rightarrow> 'd \<Rightarrow> 'd option"
    and del :: "'k \<Rightarrow> 'd \<Rightarrow> 'd option"
    and get :: "'k \<Rightarrow> 'd \<Rightarrow> ('v \<times> 'd) option"
    and cls :: "'k \<Rightarrow> 'c"
    and nothing :: 'v
    and repr :: "'d \<Rightarrow> ('c \<Rightarrow> 'v option) \<Rightarrow> bool"
    and room :: "'e \<Rightarrow> 'k \<Rightarrow> 'v \<Rightarrow> 'd \<Rightarrow> bool"
  assumes dict_put_new: "repr d m \<Longrightarrow> room e k v d \<Longrightarrow> m (cls k) = None \<Longrightarrow>
      \<exists>d'. put e k v d = Some d' \<and> repr d' (m(cls k \<mapsto> v))"
    and dict_del: "repr d m \<Longrightarrow> \<exists>d'. del k d = Some d' \<and> repr d' (m(cls k := None))"
    and dict_get: "repr d m \<Longrightarrow> get k d = Some (case m (cls k) of None \<Rightarrow> nothing | Some v \<Rightarrow> v, d)"
begin

lemma dict_run:
  assumes "repr d m" and "admissible True cls room put del ops d m"
  shows "\<exists>d'. run_dict put del get ops d = Some (fst (run_map cls nothing ops m), d')
    \<and> repr d' (snd (run_map cls nothing ops m))"
  using assms
proof (induction ops arbitrary: d m)
  case (Cons c ops)
  show ?case
  proof (cases c)
    case (Insert e k v)
    with Cons.prems dict_put_new [of d m e k v] obtain d' where
      p: "put e k v d = Some d'" and r: "repr d' (m(cls k \<mapsto> v))" by auto
    have "admissible True cls room put del ops d' (m(cls k \<mapsto> v))" using Cons.prems(2) Insert p by simp
    from Cons.IH [OF r this] show ?thesis using Insert p by (simp add: fun_upd_def)
  next
    case (Delete k)
    with Cons.prems dict_del [of d m k] obtain d' where "del k d = Some d'" "repr d' (m(cls k := None))" by auto
    with Delete Cons show ?thesis by simp
  next
    case (Lookup k)
    with Cons.prems Cons.IH [of d m] obtain d' where
      "run_dict put del get ops d = Some (fst (run_map cls nothing ops m), d')"
      "repr d' (snd (run_map cls nothing ops m))" by auto
    with Lookup dict_get [OF Cons.prems(1), of k] show ?thesis by (simp add: split_beta Let_def)
  qed
qed simp

end

locale replacing_dictionary = dictionary +
  assumes dict_put_old: "repr d m \<Longrightarrow> room e k v d \<Longrightarrow> m (cls k) = Some w \<Longrightarrow>
      \<exists>d'. put e k v d = Some d' \<and> repr d' (m(cls k \<mapsto> v))"
begin

lemma dict_put: "repr d m \<Longrightarrow> room e k v d \<Longrightarrow> \<exists>d'. put e k v d = Some d' \<and> repr d' (m(cls k \<mapsto> v))"
  using dict_put_new dict_put_old by (cases "m (cls k)") blast+

lemma dict_run_any:
  assumes "repr d m" and "admissible False cls room put del ops d m"
  shows "\<exists>d'. run_dict put del get ops d = Some (fst (run_map cls nothing ops m), d')
    \<and> repr d' (snd (run_map cls nothing ops m))"
  using assms
proof (induction ops arbitrary: d m)
  case (Cons c ops)
  show ?case
  proof (cases c)
    case (Insert e k v)
    with Cons.prems dict_put [of d m e k v] obtain d' where
      p: "put e k v d = Some d'" and r: "repr d' (m(cls k \<mapsto> v))" by auto
    have "admissible False cls room put del ops d' (m(cls k \<mapsto> v))" using Cons.prems(2) Insert p by simp
    from Cons.IH [OF r this] show ?thesis using Insert p by (simp add: fun_upd_def)
  next
    case (Delete k)
    with Cons.prems dict_del [of d m k] obtain d' where "del k d = Some d'" "repr d' (m(cls k := None))" by auto
    with Delete Cons show ?thesis by simp
  next
    case (Lookup k)
    with Cons.prems Cons.IH [of d m] obtain d' where
      "run_dict put del get ops d = Some (fst (run_map cls nothing ops m), d')"
      "repr d' (snd (run_map cls nothing ops m))" by auto
    with Lookup dict_get [OF Cons.prems(1), of k] show ?thesis by (simp add: split_beta Let_def)
  qed
qed simp

end

end
