(* ===== verification/WListDict.thy ===== *)
theory WListDict
  imports Heap Dict
begin

text \<open>
  \<open>wListDictionary\<close> of \<open>winpr/libwinpr/utils/collections/ListDictionary.c\<close>: key and value pairs in a
  singly linked list of heap nodes. \<open>ld_repr d kvs\<close> says that the list of \<open>d\<close> holds the pairs \<open>kvs\<close>
  and that the heap holds the nodes of the list and no others, so a node that is lost or freed twice
  breaks it.
\<close>

section \<open>State\<close>

record wListDictionaryItem =
  li_key :: ptr
  li_value :: ptr
  li_next :: ptr

text \<open>The trace \<open>ld_freed\<close> records the calls of the key (\<open>Inl\<close>) and value (\<open>Inr\<close>) free callbacks.\<close>

record wListDictionary =
  ld_synchronized :: bool
  ld_lock :: int
  ld_head :: ptr
  ld_heap :: "wListDictionaryItem heap"
  ld_keyEquals :: "ptr \<Rightarrow> ptr \<Rightarrow> bool"
  ld_keyFree :: bool
  ld_valueFree :: bool
  ld_freed :: "(ptr + ptr) list"

definition ListDictionary_Lock :: "wListDictionary \<Rightarrow> wListDictionary" where
  "ListDictionary_Lock d = d\<lparr>ld_lock := ld_lock d + 1\<rparr>"

definition ListDictionary_Unlock :: "wListDictionary \<Rightarrow> wListDictionary" where
  "ListDictionary_Unlock d = d\<lparr>ld_lock := ld_lock d - 1\<rparr>"

definition ld_enter :: "wListDictionary \<Rightarrow> wListDictionary" where
  "ld_enter d = (if ld_synchronized d then ListDictionary_Lock d else d)"

definition ld_leave :: "wListDictionary \<Rightarrow> wListDictionary" where
  "ld_leave d = (if ld_synchronized d then ListDictionary_Unlock d else d)"

definition ld_free_key :: "ptr \<Rightarrow> wListDictionary \<Rightarrow> wListDictionary" where
  "ld_free_key k d = (if ld_keyFree d then d\<lparr>ld_freed := ld_freed d @ [Inl k]\<rparr> else d)"

definition ld_free_value :: "ptr \<Rightarrow> wListDictionary \<Rightarrow> wListDictionary" where
  "ld_free_value v d = (if ld_valueFree d then d\<lparr>ld_freed := ld_freed d @ [Inr v]\<rparr> else d)"

section \<open>Operations\<close>

partial_function (option) ld_count_loop ::
    "wListDictionaryItem heap \<Rightarrow> ptr \<Rightarrow> int \<Rightarrow> int option" where
  "ld_count_loop h item count =
     (if item = NULL then Some count
      else do {
        count \<leftarrow> cint (count + 1);
        n \<leftarrow> h item;
        ld_count_loop h (li_next n) count })"

definition ListDictionary_Count :: "wListDictionary \<Rightarrow> (int \<times> wListDictionary) option" where
  "ListDictionary_Count d0 = do {
     let d = ld_enter d0;
     count \<leftarrow> ld_count_loop (ld_heap d) (ld_head d) 0;
     Some (count, ld_leave d) }"

definition ListDictionary_IsFixedSized :: "wListDictionary \<Rightarrow> bool" where
  "ListDictionary_IsFixedSized d = False"

definition ListDictionary_IsReadOnly :: "wListDictionary \<Rightarrow> bool" where
  "ListDictionary_IsReadOnly d = False"

definition ListDictionary_IsSynchronized :: "wListDictionary \<Rightarrow> bool" where
  "ListDictionary_IsSynchronized d = ld_synchronized d"

partial_function (option) ld_keys_loop ::
    "wListDictionaryItem heap \<Rightarrow> ptr \<Rightarrow> int \<Rightarrow> ptr list \<Rightarrow> ptr list option" where
  "ld_keys_loop h item index pKeys =
     (if item = NULL then Some pKeys
      else do {
        n \<leftarrow> h item;
        pKeys \<leftarrow> aset pKeys index (li_key n);
        index \<leftarrow> cint (index + 1);
        ld_keys_loop h (li_next n) index pKeys })"

text \<open>
  \<open>ppKeys\<close> says whether the out parameter is given and \<open>mem\<close> whether \<open>calloc\<close> succeeds; its result is
  not checked, so a failure with keys to store writes through \<open>NULL\<close>. The keys come back as a list.
\<close>

definition ListDictionary_GetKeys ::
    "bool \<Rightarrow> bool \<Rightarrow> wListDictionary \<Rightarrow> (int \<times> ptr list option \<times> wListDictionary) option" where
  "ListDictionary_GetKeys mem ppKeys d0 =
     (if \<not> ppKeys then Some (- 1, None, d0)
      else do {
        let d = ld_enter d0;
        count \<leftarrow> ld_count_loop (ld_heap d) (ld_head d) 0;
        let pKeys = (if count \<noteq> 0 \<and> mem then replicate (nat count) 0 else []);
        pKeys \<leftarrow> ld_keys_loop (ld_heap d) (ld_head d) 0 pKeys;
        Some (count, Some pKeys, ld_leave d) })"

partial_function (option) ld_last :: "wListDictionaryItem heap \<Rightarrow> ptr \<Rightarrow> ptr option" where
  "ld_last h lastItem = do {
     n \<leftarrow> h lastItem;
     if li_next n \<noteq> NULL then ld_last h (li_next n) else Some lastItem }"

text \<open>A failed \<open>malloc\<close> returns from inside the critical section.\<close>

definition ListDictionary_Add ::
    "ptr option \<Rightarrow> wListDictionary \<Rightarrow> ptr \<Rightarrow> ptr \<Rightarrow> (bool \<times> wListDictionary) option" where
  "ListDictionary_Add mem d0 key value = do {
     let d = ld_enter d0;
     (case mem of
        None \<Rightarrow> Some (False, d)
      | Some item \<Rightarrow> do {
          let d = d\<lparr>ld_heap := (ld_heap d)(item \<mapsto> \<lparr>li_key = key, li_value = value, li_next = NULL\<rparr>)\<rparr>;
          d \<leftarrow> (if ld_head d = NULL then Some (d\<lparr>ld_head := item\<rparr>)
                else do {
                  lastItem \<leftarrow> ld_last (ld_heap d) (ld_head d);
                  h \<leftarrow> hset (ld_heap d) lastItem (li_next_update (\<lambda>_. item));
                  Some (d\<lparr>ld_heap := h\<rparr>) });
          Some (True, ld_leave d) }) }"

partial_function (option) ld_clear_loop :: "wListDictionary \<Rightarrow> ptr \<Rightarrow> wListDictionary option" where
  "ld_clear_loop d item =
     (if item = NULL then Some d
      else do {
        n \<leftarrow> ld_heap d item;
        let nextItem = li_next n;
        let d = ld_free_key (li_key n) d;
        let d = ld_free_value (li_value n) d;
        h \<leftarrow> hfree (ld_heap d) item;
        ld_clear_loop (d\<lparr>ld_heap := h\<rparr>) nextItem })"

definition ListDictionary_Clear :: "wListDictionary \<Rightarrow> wListDictionary option" where
  "ListDictionary_Clear d0 = do {
     let d = ld_enter d0;
     d \<leftarrow> (if ld_head d \<noteq> NULL then do {
             d \<leftarrow> ld_clear_loop d (ld_head d);
             Some (d\<lparr>ld_head := NULL\<rparr>)
           } else Some d);
     Some (ld_leave d) }"

text \<open>The search loop of the operations that look a key up.\<close>

definition ld_find :: "wListDictionary \<Rightarrow> ptr \<Rightarrow> ptr option" where
  "ld_find d key = chain_find li_next (ld_heap d) (\<lambda>n. ld_keyEquals d (li_key n) key) (ld_head d)"

definition ListDictionary_Contains :: "wListDictionary \<Rightarrow> ptr \<Rightarrow> (bool \<times> wListDictionary) option" where
  "ListDictionary_Contains d0 key = do {
     let d = ld_enter d0;
     item \<leftarrow> ld_find d key;
     Some (item \<noteq> NULL, ld_leave d) }"

partial_function (option) ld_remove_loop ::
    "wListDictionary \<Rightarrow> ptr \<Rightarrow> ptr \<Rightarrow> ptr \<Rightarrow> (ptr \<times> wListDictionary) option" where
  "ld_remove_loop d key item prevItem =
     (if item = NULL then Some (NULL, d)
      else do {
        n \<leftarrow> ld_heap d item;
        if ld_keyEquals d (li_key n) key then do {
          d \<leftarrow> (if prevItem = NULL then Some (d\<lparr>ld_head := li_next n\<rparr>)
                else do {
                  h \<leftarrow> hset (ld_heap d) prevItem (li_next_update (\<lambda>_. li_next n));
                  Some (d\<lparr>ld_heap := h\<rparr>) });
          let value = li_value n;
          h \<leftarrow> hfree (ld_heap d) item;
          Some (value, d\<lparr>ld_heap := h\<rparr>)
        } else ld_remove_loop d key (li_next n) item })"

definition ListDictionary_Remove :: "wListDictionary \<Rightarrow> ptr \<Rightarrow> (ptr \<times> wListDictionary) option" where
  "ListDictionary_Remove d0 key = do {
     let d = ld_enter d0;
     (value, d) \<leftarrow> ld_remove_loop d key (ld_head d) NULL;
     Some (value, ld_leave d) }"

definition ListDictionary_Remove_Head :: "wListDictionary \<Rightarrow> (ptr \<times> wListDictionary) option" where
  "ListDictionary_Remove_Head d0 = do {
     let d = ld_enter d0;
     (value, d) \<leftarrow> (if ld_head d \<noteq> NULL then do {
          let item = ld_head d;
          n \<leftarrow> ld_heap d (ld_head d);
          let d = d\<lparr>ld_head := li_next n\<rparr>;
          h \<leftarrow> hfree (ld_heap d) item;
          Some (li_value n, d\<lparr>ld_heap := h\<rparr>)
        } else Some (NULL, d));
     Some (value, ld_leave d) }"

definition ListDictionary_GetItemValue :: "wListDictionary \<Rightarrow> ptr \<Rightarrow> (ptr \<times> wListDictionary) option" where
  "ListDictionary_GetItemValue d0 key = do {
     let d = ld_enter d0;
     item \<leftarrow> (if ld_head d \<noteq> NULL then ld_find d key else Some NULL);
     value \<leftarrow> (if item \<noteq> NULL then do { n \<leftarrow> ld_heap d item; Some (li_value n) } else Some NULL);
     Some (value, ld_leave d) }"

definition ListDictionary_SetItemValue ::
    "wListDictionary \<Rightarrow> ptr \<Rightarrow> ptr \<Rightarrow> (bool \<times> wListDictionary) option" where
  "ListDictionary_SetItemValue d0 key value = do {
     let d = ld_enter d0;
     (status, d) \<leftarrow> (if ld_head d \<noteq> NULL then do {
          item \<leftarrow> ld_find d key;
          d \<leftarrow> (if item \<noteq> NULL then do {
                  n \<leftarrow> ld_heap d item;
                  let d = ld_free_value (li_value n) d;
                  h \<leftarrow> hset (ld_heap d) item (li_value_update (\<lambda>_. value));
                  Some (d\<lparr>ld_heap := h\<rparr>)
                } else Some d);
          Some (item \<noteq> NULL, d)
        } else Some (False, d));
     Some (status, ld_leave d) }"

definition ld_default_equal_function :: "ptr \<Rightarrow> ptr \<Rightarrow> bool" where
  "ld_default_equal_function obj1 obj2 = (obj1 = obj2)"

text \<open>Outcomes of \<open>calloc\<close> and of the critical section.\<close>

definition ListDictionary_New :: "bool \<Rightarrow> bool \<Rightarrow> bool \<Rightarrow> wListDictionary option" where
  "ListDictionary_New mem lock_ok synchronized =
     (if \<not> mem then None
      else if \<not> lock_ok then None
      else Some \<lparr>ld_synchronized = synchronized, ld_lock = 0, ld_head = NULL, ld_heap = (\<lambda>_. None),
        ld_keyEquals = ld_default_equal_function, ld_keyFree = False, ld_valueFree = False,
        ld_freed = []\<rparr>)"

text \<open>\<open>ListDictionary_Free\<close> clears the dictionary before its memory goes.\<close>

definition ListDictionary_Free :: "wListDictionary option \<Rightarrow> (ptr + ptr) list option" where
  "ListDictionary_Free listDictionary = (case listDictionary of None \<Rightarrow> Some []
     | Some d \<Rightarrow> do { d \<leftarrow> ListDictionary_Clear d; Some (ld_freed d) })"

declare ld_count_loop.simps [code] ld_keys_loop.simps [code] ld_last.simps [code]
  ld_clear_loop.simps [code] ld_remove_loop.simps [code] chain_find.simps [code]

section \<open>Invariant and abstraction\<close>

definition li_pair :: "wListDictionaryItem \<Rightarrow> ptr \<times> ptr" where
  "li_pair n = (li_key n, li_value n)"

definition ld_at :: "wListDictionary \<Rightarrow> ptr list \<Rightarrow> bool" where
  "ld_at d as \<longleftrightarrow> lseg li_next (ld_heap d) (ld_head d) as NULL \<and> dom (ld_heap d) = set as"

definition ld_repr :: "wListDictionary \<Rightarrow> (ptr \<times> ptr) list \<Rightarrow> bool" where
  "ld_repr d kvs \<longleftrightarrow> (\<exists>as. ld_at d as \<and> kvs = map li_pair (nodes (ld_heap d) as))"

definition ld_rest :: "wListDictionary \<Rightarrow> bool \<times> int \<times> (ptr \<Rightarrow> ptr \<Rightarrow> bool) \<times> bool \<times> bool" where
  "ld_rest d = (ld_synchronized d, ld_lock d, ld_keyEquals d, ld_keyFree d, ld_valueFree d)"

lemmas ld_lock_defs = ListDictionary_Lock_def ListDictionary_Unlock_def ld_enter_def ld_leave_def
  ld_free_key_def ld_free_value_def

lemma ld_enter_simps [simp]:
  "ld_head (ld_enter d) = ld_head d" "ld_heap (ld_enter d) = ld_heap d"
  "ld_keyEquals (ld_enter d) = ld_keyEquals d" "ld_freed (ld_enter d) = ld_freed d"
  "ld_repr (ld_enter d) kvs = ld_repr d kvs" "ld_at (ld_enter d) as = ld_at d as"
  "ld_leave (ld_enter d) = d" "ld_valueFree (ld_enter d) = ld_valueFree d"
  by (simp_all add: ld_lock_defs ld_repr_def ld_at_def)

lemma ld_leave_simps:
  assumes "ld_rest d' = ld_rest (ld_enter d)"
  shows "ld_rest (ld_leave d') = ld_rest d" "ld_repr (ld_leave d') kvs = ld_repr d' kvs"
    "ld_freed (ld_leave d') = ld_freed d'"
  using assms by (auto simp: ld_lock_defs ld_rest_def ld_repr_def ld_at_def split: if_splits)

lemma ListDictionary_New_repr:
  "ListDictionary_New a b sync = Some d \<Longrightarrow>
    ld_repr d [] \<and> ld_rest d = (sync, 0, ld_default_equal_function, False, False) \<and> ld_freed d = []"
  by (auto simp: ListDictionary_New_def ld_repr_def ld_at_def ld_rest_def split: if_splits)

section \<open>The loops\<close>

lemma ld_count_loop_ok:
  "lseg li_next h p as NULL \<Longrightarrow> 0 \<le> c \<Longrightarrow> c + int (length as) \<le> INT_MAX \<Longrightarrow>
    ld_count_loop h p c = Some (c + int (length as))"
proof (induction as arbitrary: p c)
  case Nil
  then show ?case by (subst ld_count_loop.simps) simp
next
  case (Cons a as)
  moreover from Cons.prems have "cint (c + 1) = Some (c + 1)" by (intro cint_Some) simp_all
  ultimately show ?case by (subst ld_count_loop.simps) (auto simp: algebra_simps)
qed

lemma ld_keys_loop_ok:
  "lseg li_next h p as NULL \<Longrightarrow> length ks + length as \<le> length buf \<Longrightarrow> int (length buf) \<le> INT_MAX \<Longrightarrow>
    take (length ks) buf = ks \<Longrightarrow>
    \<exists>buf'. ld_keys_loop h p (int (length ks)) buf = Some buf' \<and> length buf' = length buf
      \<and> take (length ks + length as) buf' = ks @ map li_key (nodes h as)"
proof (induction as arbitrary: p ks buf)
  case Nil
  then show ?case by (subst ld_keys_loop.simps) simp
next
  case (Cons a as)
  then obtain n where n: "p = a" "a \<noteq> NULL" "h a = Some n" "lseg li_next h (li_next n) as NULL" by auto
  let ?buf = "buf[length ks := li_key n]" and ?ks = "ks @ [li_key n]"
  have lt: "length ks < length buf" using Cons.prems(2) by simp
  then have "take (length ?ks) ?buf = ?ks" using Cons.prems(4) by (simp add: take_Suc_conv_app_nth)
  with Cons.IH [OF n(4), of ?ks ?buf] Cons.prems(2,3) obtain buf' where
    "ld_keys_loop h (li_next n) (int (length ?ks)) ?buf = Some buf'" "length buf' = length buf"
    "take (length ?ks + length as) buf' = ?ks @ map li_key (nodes h as)" by auto
  moreover have "cint (int (length ks) + 1) = Some (int (length ?ks))"
    using lt Cons.prems(3) by (simp add: cint_Some)
  ultimately show ?case using n lt
    by (subst ld_keys_loop.simps) (auto simp: aset_def)
qed

lemma ld_last_ok: "lseg li_next h p (as @ [a]) NULL \<Longrightarrow> ld_last h p = Some a"
proof (induction as arbitrary: p)
  case Nil
  then show ?case by (subst ld_last.simps) auto
next
  case (Cons b as)
  then obtain n where n: "p = b" "h b = Some n" "lseg li_next h (li_next n) (as @ [a]) NULL" by auto
  then have "li_next n \<noteq> NULL" by (cases as) auto
  with n Cons.IH show ?case by (subst ld_last.simps) simp
qed

text \<open>The callback calls that dispose of a list of pairs.\<close>

definition ld_callbacks :: "wListDictionary \<Rightarrow> (ptr \<times> ptr) list \<Rightarrow> (ptr + ptr) list" where
  "ld_callbacks d kvs = concat (map (\<lambda>(k, v).
     (if ld_keyFree d then [Inl k] else []) @ (if ld_valueFree d then [Inr v] else [])) kvs)"

lemma ld_free_pair:
  "ld_free_value v (ld_free_key k d) = d\<lparr>ld_freed := ld_freed d @ ld_callbacks d [(k, v)]\<rparr>"
  by (simp add: ld_lock_defs ld_callbacks_def)

lemma ld_callbacks_Cons: "ld_callbacks d (kv # kvs) = ld_callbacks d [kv] @ ld_callbacks d kvs"
  by (simp add: ld_callbacks_def)

lemma ld_callbacks_cong:
  "ld_keyFree d' = ld_keyFree d \<Longrightarrow> ld_valueFree d' = ld_valueFree d \<Longrightarrow> ld_callbacks d' kvs = ld_callbacks d kvs"
  by (simp add: ld_callbacks_def)

lemma ld_clear_loop_ok:
  assumes "lseg li_next (ld_heap d) p as NULL" and "dom (ld_heap d) = set as"
  shows "ld_clear_loop d p = Some (d\<lparr>ld_heap := (\<lambda>_. None),
    ld_freed := ld_freed d @ ld_callbacks d (map li_pair (nodes (ld_heap d) as))\<rparr>)"
  using assms
proof (induction as arbitrary: d p)
  case Nil
  then show ?case by (subst ld_clear_loop.simps) (auto simp: ld_callbacks_def)
next
  case (Cons a as)
  obtain n where n: "p = a" "a \<noteq> NULL" "ld_heap d a = Some n" "lseg li_next (ld_heap d) (li_next n) as NULL"
    using Cons.prems by auto
  have "a \<notin> set as" using lseg_distinct [OF Cons.prems(1)] by simp
  let ?d = "d\<lparr>ld_freed := ld_freed d @ ld_callbacks d [li_pair n], ld_heap := (ld_heap d)(a := None)\<rparr>"
  have "lseg li_next (ld_heap ?d) (li_next n) as NULL" and "dom (ld_heap ?d) = set as"
    using n \<open>a \<notin> set as\<close> Cons.prems(2) by auto
  note IH = Cons.IH [OF this]
  have "ld_clear_loop d p = ld_clear_loop ?d (li_next n)"
    using n by (subst ld_clear_loop.simps) (simp add: Let_def hfree_def ld_free_pair li_pair_def)
  then show ?case using n \<open>a \<notin> set as\<close> ld_callbacks_cong [of ?d d]
      ld_callbacks_Cons [of d "li_pair n" "map li_pair (nodes (ld_heap d) as)"]
    unfolding IH by simp
qed

lemma ld_remove_loop_skip:
  "lseg li_next (ld_heap d) item (bs @ as) NULL \<Longrightarrow>
    \<forall>b \<in> set bs. \<not> ld_keyEquals d (li_key (the (ld_heap d b))) key \<Longrightarrow>
    ld_remove_loop d key item prev =
      ld_remove_loop d key (case as of [] \<Rightarrow> NULL | a # _ \<Rightarrow> a) (if bs = [] then prev else last bs)"
proof (induction bs arbitrary: item prev)
  case Nil
  then show ?case by (cases as) auto
next
  case (Cons b bs)
  then obtain n where n: "item = b" "b \<noteq> NULL" "ld_heap d b = Some n"
    "lseg li_next (ld_heap d) (li_next n) (bs @ as) NULL" by auto
  then have "ld_remove_loop d key item prev = ld_remove_loop d key (li_next n) b"
    using Cons.prems(2) by (subst ld_remove_loop.simps) simp
  with Cons.IH [OF n(4), of b] Cons.prems(2) show ?case by simp
qed

text \<open>Unlinking the node \<open>a\<close> between \<open>bs\<close> and \<open>cs\<close>.\<close>

lemma ld_unlink:
  assumes at: "ld_at d (bs @ a # cs)"
    and n: "ld_heap d a = Some n" and eq: "ld_keyEquals d (li_key n) key"
  shows "\<exists>d'. ld_remove_loop d key a (if bs = [] then NULL else last bs) = Some (li_value n, d')
    \<and> ld_at d' (bs @ cs) \<and> map li_pair (nodes (ld_heap d') (bs @ cs)) = map li_pair (nodes (ld_heap d) (bs @ cs))
    \<and> ld_rest d' = ld_rest d \<and> ld_freed d' = ld_freed d"
proof -
  have seg: "lseg li_next (ld_heap d) (ld_head d) (bs @ a # cs) NULL" and dom: "dom (ld_heap d) = set (bs @ a # cs)"
    using at by (simp_all add: ld_at_def)
  have dist: "distinct (bs @ a # cs)" using lseg_distinct [OF seg] .
  have a: "a \<noteq> NULL" and cs: "lseg li_next (ld_heap d) (li_next n) cs NULL"
    and bs: "lseg li_next (ld_heap d) (ld_head d) bs a"
    using seg n by (auto simp: lseg_append)
  show ?thesis
  proof (cases bs rule: rev_cases)
    case Nil
    let ?d = "d\<lparr>ld_head := li_next n, ld_heap := (ld_heap d)(a := None)\<rparr>"
    have "ld_remove_loop d key a NULL = Some (li_value n, ?d)"
      using a n eq by (subst ld_remove_loop.simps) (simp add: hfree_def)
    moreover have "ld_at ?d cs" using Nil dist cs dom by (auto simp: ld_at_def)
    ultimately show ?thesis using Nil dist by (simp add: ld_rest_def)
  next
    case (snoc bs' b)
    obtain m where m: "ld_heap d b = Some m" "b \<noteq> NULL"
      using lseg_in_heap [OF bs, of b] snoc by auto
    define h where "h = (ld_heap d)(b \<mapsto> m\<lparr>li_next := li_next n\<rparr>, a := None)"
    have ne: "b \<noteq> a" and dist': "b \<notin> set bs'" "a \<notin> set bs'" "b \<notin> set cs" "a \<notin> set cs"
      using dist snoc by auto
    have "ld_remove_loop d key a b = Some (li_value n, d\<lparr>ld_heap := h\<rparr>)"
      using a n eq m ne by (subst ld_remove_loop.simps) (simp add: hfree_def hset_def h_def fun_upd_twist)
    moreover have "lseg li_next h (ld_head d) (bs @ cs) NULL"
      using bs cs dist' ne m(2) unfolding snoc h_def by (auto simp: lseg_append)
    moreover have "dom h = set (bs @ cs)" using dom snoc dist' ne n m by (auto simp: h_def)
    moreover have "map li_pair (nodes h (bs @ cs)) = map li_pair (nodes (ld_heap d) (bs @ cs))"
      using dist' ne m unfolding snoc h_def by (simp add: li_pair_def)
    ultimately show ?thesis using snoc by (auto simp: ld_at_def ld_rest_def)
  qed
qed

section \<open>The operations on the pairs\<close>

fun pairs_get :: "('k \<Rightarrow> bool) \<Rightarrow> 'v \<Rightarrow> ('k \<times> 'v) list \<Rightarrow> 'v" where
  "pairs_get P z [] = z"
| "pairs_get P z ((k, v) # kvs) = (if P k then v else pairs_get P z kvs)"

fun pairs_del :: "('k \<Rightarrow> bool) \<Rightarrow> ('k \<times> 'v) list \<Rightarrow> ('k \<times> 'v) list" where
  "pairs_del P [] = []"
| "pairs_del P ((k, v) # kvs) = (if P k then kvs else (k, v) # pairs_del P kvs)"

fun pairs_set :: "('k \<Rightarrow> bool) \<Rightarrow> 'v \<Rightarrow> ('k \<times> 'v) list \<Rightarrow> ('k \<times> 'v) list" where
  "pairs_set P w [] = []"
| "pairs_set P w ((k, v) # kvs) = (if P k then (k, w) # kvs else (k, v) # pairs_set P w kvs)"

lemma pairs_split:
  assumes "\<forall>kv \<in> set xs. \<not> P (fst kv)" and "P k"
  shows "pairs_get P z (xs @ (k, v) # ys) = v" "pairs_del P (xs @ (k, v) # ys) = xs @ ys"
    "pairs_set P w (xs @ (k, v) # ys) = xs @ (k, w) # ys"
  using assms by (induction xs) auto

lemma pairs_none:
  assumes "\<forall>kv \<in> set xs. \<not> P (fst kv)"
  shows "pairs_get P z xs = z" "pairs_del P xs = xs" "pairs_set P w xs = xs"
  using assms by (induction xs) auto

text \<open>The list splits at the first node with the key, or has none.\<close>

lemma ld_split:
  assumes at: "ld_at d as"
  obtains (none) "\<forall>b \<in> set as. \<not> ld_keyEquals d (li_key (the (ld_heap d b))) key"
      "ld_find d key = Some NULL"
  | (hit) bs a cs n where "as = bs @ a # cs" "ld_heap d a = Some n" "a \<noteq> NULL"
      "ld_keyEquals d (li_key n) key" "ld_find d key = Some a"
      "\<forall>b \<in> set bs. \<not> ld_keyEquals d (li_key (the (ld_heap d b))) key"
proof -
  have seg: "lseg li_next (ld_heap d) (ld_head d) as NULL" using at by (simp add: ld_at_def)
  let ?P = "\<lambda>a. ld_keyEquals d (li_key (the (ld_heap d a))) key"
  have find: "ld_find d key = Some (case List.find ?P as of None \<Rightarrow> NULL | Some a \<Rightarrow> a)"
    unfolding ld_find_def using chain_find_ok [OF seg] by simp
  show thesis
  proof (cases "List.find ?P as")
    case None
    then have "ld_find d key = Some NULL" using find by simp
    then show thesis using None by (intro none) (auto simp: find_None_iff)
  next
    case (Some a)
    from find_split [OF this] obtain bs cs
      where s: "as = bs @ a # cs" "?P a" "\<forall>b \<in> set bs. \<not> ?P b" by blast
    have "a \<in> set as" using s(1) by simp
    then obtain n where "ld_heap d a = Some n" "a \<noteq> NULL" using lseg_in_heap [OF seg] by blast
    moreover have "ld_find d key = Some a" using find Some by simp
    ultimately show thesis using s(1,3) s(2) by (intro hit [of bs a cs n]) simp_all
  qed
qed

lemma ld_head_NULL: "ld_at d as \<Longrightarrow> ld_head d = NULL \<longleftrightarrow> as = []"
  by (cases as) (auto simp: ld_at_def)

lemma ListDictionary_Count_ok:
  assumes "ld_repr d kvs" and "int (length kvs) \<le> INT_MAX"
  shows "ListDictionary_Count d = Some (int (length kvs), d)"
  using assms ld_count_loop_ok [of "ld_heap d" "ld_head d" _ 0]
  by (auto simp: ListDictionary_Count_def Let_def ld_repr_def ld_at_def)

lemma ListDictionary_GetKeys_ok:
  assumes "ld_repr d kvs" and "int (length kvs) \<le> INT_MAX"
  shows "ListDictionary_GetKeys True True d = Some (int (length kvs), Some (map fst kvs), d)"
proof -
  obtain as where as: "lseg li_next (ld_heap d) (ld_head d) as NULL" "kvs = map li_pair (nodes (ld_heap d) as)"
    using assms(1) by (auto simp: ld_repr_def ld_at_def)
  have keys: "map fst kvs = map li_key (nodes (ld_heap d) as)" using as(2) by (simp add: li_pair_def)
  obtain buf where "ld_keys_loop (ld_heap d) (ld_head d) 0 (replicate (length as) 0) = Some buf"
    "length buf = length as" "take (length as) buf = map li_key (nodes (ld_heap d) as)"
    using ld_keys_loop_ok [OF as(1), of "[]" "replicate (length as) 0"] assms(2) as(2) by auto
  then show ?thesis
    using ld_count_loop_ok [OF as(1), of 0] assms(2) as(2) keys
    by (cases "as = []") (auto simp: ListDictionary_GetKeys_def Let_def)
qed

lemma ListDictionary_Add_ok:
  assumes repr: "ld_repr d kvs" and fresh: "fresh_in (ld_heap d) item"
  shows "\<exists>d'. ListDictionary_Add (Some item) d key value = Some (True, d')
    \<and> ld_repr d' (kvs @ [(key, value)]) \<and> ld_rest d' = ld_rest d \<and> ld_freed d' = ld_freed d"
proof -
  obtain as where at: "ld_at d as" and kvs: "kvs = map li_pair (nodes (ld_heap d) as)"
    using repr by (auto simp: ld_repr_def)
  have item: "item \<noteq> NULL" "item \<notin> set as"
    using at fresh domIff [of item "ld_heap d"] by (simp_all add: ld_at_def fresh_in_def)
  let ?n = "\<lparr>li_key = key, li_value = value, li_next = NULL\<rparr>"
  let ?h = "(ld_heap d)(item \<mapsto> ?n)"
  have seg: "lseg li_next ?h (ld_head d) as NULL" using at item by (simp add: ld_at_def)
  show ?thesis
  proof (cases as rule: rev_cases)
    case Nil
    let ?d = "(ld_enter d)\<lparr>ld_heap := ?h, ld_head := item\<rparr>"
    have "ListDictionary_Add (Some item) d key value = Some (True, ld_leave ?d)"
      using Nil ld_head_NULL [OF at] by (simp add: ListDictionary_Add_def Let_def)
    moreover have "ld_repr ?d (kvs @ [(key, value)])"
      using Nil at item kvs by (auto simp: ld_repr_def ld_at_def li_pair_def intro!: exI [of _ "[item]"])
    ultimately show ?thesis using ld_leave_simps [of ?d d] by (auto simp: ld_rest_def)
  next
    case (snoc bs b)
    have seg0: "lseg li_next (ld_heap d) (ld_head d) (bs @ [b]) NULL" using at snoc by (simp add: ld_at_def)
    then obtain m where m: "ld_heap d b = Some m" "b \<noteq> NULL" "li_next m = NULL"
      by (auto simp: lseg_append)
    have b: "b \<noteq> item" "b \<notin> set bs" using lseg_distinct [OF seg0] item(2) snoc by auto
    define h where "h = ?h(b \<mapsto> m\<lparr>li_next := item\<rparr>)"
    let ?d = "(ld_enter d)\<lparr>ld_heap := h\<rparr>"
    have head: "ld_head d \<noteq> NULL" using ld_head_NULL [OF at] snoc by simp
    have bs: "lseg li_next (ld_heap d) (ld_head d) bs b" using seg0 by (auto simp: lseg_append)
    have "lseg li_next h (ld_head d) (as @ [item]) NULL"
      using bs m b item snoc by (auto simp: h_def lseg_append)
    moreover have "dom h = set (as @ [item])" using at m by (auto simp: h_def ld_at_def snoc)
    moreover have "map li_pair (nodes h (as @ [item])) = kvs @ [(key, value)]"
      using b m item snoc by (simp add: h_def kvs li_pair_def)
    ultimately have "ld_repr ?d (kvs @ [(key, value)])" by (auto simp: ld_repr_def ld_at_def)
    moreover have "ListDictionary_Add (Some item) d key value = Some (True, ld_leave ?d)"
      using head ld_last_ok [of ?h "ld_head d" bs b] seg snoc m b
      by (simp add: ListDictionary_Add_def Let_def hset_def h_def)
    ultimately show ?thesis using ld_leave_simps [of ?d d] by (auto simp: ld_rest_def)
  qed
qed

lemma ListDictionary_Clear_ok:
  assumes repr: "ld_repr d kvs"
  shows "\<exists>d'. ListDictionary_Clear d = Some d' \<and> ld_repr d' [] \<and> ld_heap d' = (\<lambda>_. None)
    \<and> ld_rest d' = ld_rest d \<and> ld_freed d' = ld_freed d @ ld_callbacks d kvs"
proof -
  obtain as where at: "ld_at d as" and kvs: "kvs = map li_pair (nodes (ld_heap d) as)"
    using repr by (auto simp: ld_repr_def)
  let ?d = "(ld_enter d)\<lparr>ld_heap := (\<lambda>_. None), ld_freed := ld_freed d @ ld_callbacks d kvs, ld_head := NULL\<rparr>"
  have cb: "ld_callbacks (ld_enter d) = ld_callbacks d"
    by (simp add: ld_lock_defs ld_callbacks_def fun_eq_iff)
  have "ListDictionary_Clear d = Some (ld_leave ?d)"
  proof (cases "as = []")
    case True
    then have "ld_head d = NULL" "ld_heap d = (\<lambda>_. None)" "kvs = []"
      using at kvs by (auto simp: ld_at_def)
    then show ?thesis by (simp add: ListDictionary_Clear_def Let_def ld_callbacks_def ld_lock_defs)
  next
    case False
    then have "ld_head d \<noteq> NULL" using ld_head_NULL [OF at] by simp
    then show ?thesis using ld_clear_loop_ok [of "ld_enter d" "ld_head d" as] at kvs
      by (simp add: ListDictionary_Clear_def Let_def ld_at_def cb)
  qed
  moreover have "ld_repr ?d []" by (simp add: ld_repr_def ld_at_def)
  ultimately show ?thesis using ld_leave_simps [of ?d d] by (auto simp: ld_rest_def ld_lock_defs split: if_splits)
qed

lemma ListDictionary_lookup_ok:
  assumes repr: "ld_repr d kvs"
  shows "ListDictionary_Contains d key = Some (\<exists>kv \<in> set kvs. ld_keyEquals d (fst kv) key, d)"
    "ListDictionary_GetItemValue d key = Some (pairs_get (\<lambda>k. ld_keyEquals d k key) NULL kvs, d)"
proof -
  obtain as where at: "ld_at d as" and kvs: "kvs = map li_pair (nodes (ld_heap d) as)"
    using repr by (auto simp: ld_repr_def)
  have find: "ld_find (ld_enter d) key = ld_find d key" by (simp add: ld_find_def)
  have "ListDictionary_Contains d key = Some (\<exists>kv \<in> set kvs. ld_keyEquals d (fst kv) key, d)
    \<and> ListDictionary_GetItemValue d key = Some (pairs_get (\<lambda>k. ld_keyEquals d k key) NULL kvs, d)"
    using at
  proof (cases rule: ld_split [where key = key])
    case none
    then have "\<forall>kv \<in> set kvs. \<not> ld_keyEquals d (fst kv) key" by (auto simp: kvs nodes_def li_pair_def)
    with none(2) pairs_none(1) [of kvs "\<lambda>k. ld_keyEquals d k key" NULL] show ?thesis
      by (auto simp: ListDictionary_Contains_def ListDictionary_GetItemValue_def Let_def find)
  next
    case (hit bs a cs n)
    let ?xs = "map li_pair (nodes (ld_heap d) bs)"
    have "kvs = ?xs @ (li_key n, li_value n) # map li_pair (nodes (ld_heap d) cs)"
      using hit by (simp add: kvs li_pair_def)
    moreover have "\<forall>kv \<in> set ?xs. \<not> ld_keyEquals d (fst kv) key" using hit(6) by (auto simp: nodes_def li_pair_def)
    moreover have "ld_head d \<noteq> NULL" using ld_head_NULL [OF at] hit(1) by simp
    ultimately show ?thesis
      using hit(2-5) pairs_split(1) [of ?xs "\<lambda>k. ld_keyEquals d k key" "li_key n"]
      by (auto simp: ListDictionary_Contains_def ListDictionary_GetItemValue_def Let_def find)
  qed
  then show "ListDictionary_Contains d key = Some (\<exists>kv \<in> set kvs. ld_keyEquals d (fst kv) key, d)"
    "ListDictionary_GetItemValue d key = Some (pairs_get (\<lambda>k. ld_keyEquals d k key) NULL kvs, d)" by simp_all
qed

lemma ListDictionary_Remove_ok:
  assumes repr: "ld_repr d kvs"
  shows "\<exists>d'. ListDictionary_Remove d key = Some (pairs_get (\<lambda>k. ld_keyEquals d k key) NULL kvs, d')
    \<and> ld_repr d' (pairs_del (\<lambda>k. ld_keyEquals d k key) kvs) \<and> ld_rest d' = ld_rest d \<and> ld_freed d' = ld_freed d"
proof -
  let ?P = "\<lambda>k. ld_keyEquals d k key" and ?e = "ld_enter d"
  obtain as where at: "ld_at d as" and kvs: "kvs = map li_pair (nodes (ld_heap d) as)"
    using repr by (auto simp: ld_repr_def)
  have seg: "lseg li_next (ld_heap ?e) (ld_head ?e) as NULL" using at by (simp add: ld_at_def)
  show ?thesis using at
  proof (cases rule: ld_split [where key = key])
    case none
    then have no: "\<forall>kv \<in> set kvs. \<not> ?P (fst kv)" by (auto simp: kvs nodes_def li_pair_def)
    have "ld_remove_loop ?e key (ld_head d) NULL = ld_remove_loop ?e key NULL (if as = [] then NULL else last as)"
      using ld_remove_loop_skip [of ?e "ld_head d" as "[]" key NULL] seg none(1) by simp
    also have "\<dots> = Some (NULL, ?e)" by (subst ld_remove_loop.simps) simp
    finally show ?thesis using repr pairs_none [OF no]
      by (simp add: ListDictionary_Remove_def Let_def)
  next
    case (hit bs a cs n)
    let ?xs = "map li_pair (nodes (ld_heap d) bs)" and ?ys = "map li_pair (nodes (ld_heap d) cs)"
    have split: "kvs = ?xs @ (li_key n, li_value n) # ?ys" using hit by (simp add: kvs li_pair_def)
    have no: "\<forall>kv \<in> set ?xs. \<not> ?P (fst kv)" using hit(6) by (auto simp: nodes_def li_pair_def)
    have "ld_remove_loop ?e key (ld_head d) NULL = ld_remove_loop ?e key a (if bs = [] then NULL else last bs)"
      using ld_remove_loop_skip [of ?e "ld_head d" bs "a # cs" key NULL] seg hit(1,6) by simp
    moreover have "ld_at ?e (bs @ a # cs)" "ld_heap ?e a = Some n" "ld_keyEquals ?e (li_key n) key"
      using at hit by simp_all
    from ld_unlink [OF this] obtain d' where
      "ld_remove_loop ?e key a (if bs = [] then NULL else last bs) = Some (li_value n, d')"
      "ld_at d' (bs @ cs)" "map li_pair (nodes (ld_heap d') (bs @ cs)) = ?xs @ ?ys"
      "ld_rest d' = ld_rest ?e" "ld_freed d' = ld_freed d" by auto
    moreover from this have "ld_repr d' (pairs_del ?P kvs)"
      unfolding split pairs_split(2) [OF no hit(4)] ld_repr_def by metis
    moreover have "pairs_get ?P NULL kvs = li_value n" unfolding split by (rule pairs_split(1) [OF no hit(4)])
    ultimately show ?thesis using ld_leave_simps [of d' d]
      by (simp add: ListDictionary_Remove_def Let_def)
  qed
qed

lemma ListDictionary_Remove_Head_ok:
  assumes repr: "ld_repr d kvs"
  shows "\<exists>d'. ListDictionary_Remove_Head d = Some (case kvs of [] \<Rightarrow> NULL | (k, v) # _ \<Rightarrow> v, d')
    \<and> ld_repr d' (tl kvs) \<and> ld_rest d' = ld_rest d \<and> ld_freed d' = ld_freed d"
proof -
  obtain as where at: "ld_at d as" and kvs: "kvs = map li_pair (nodes (ld_heap d) as)"
    using repr by (auto simp: ld_repr_def)
  show ?thesis
  proof (cases as)
    case Nil
    then show ?thesis using at kvs repr ld_head_NULL [OF at]
      by (simp add: ListDictionary_Remove_Head_def Let_def)
  next
    case (Cons a as')
    then obtain n where n: "ld_head d = a" "a \<noteq> NULL" "ld_heap d a = Some n"
      "lseg li_next (ld_heap d) (li_next n) as' NULL" and dom: "dom (ld_heap d) = insert a (set as')"
      using at by (auto simp: ld_at_def)
    have a: "a \<notin> set as'" using lseg_distinct [of li_next "ld_heap d" "ld_head d" as] at Cons
      by (simp add: ld_at_def)
    let ?d = "(ld_enter d)\<lparr>ld_head := li_next n, ld_heap := (ld_heap d)(a := None)\<rparr>"
    have "ListDictionary_Remove_Head d = Some (li_value n, ld_leave ?d)"
      using n by (simp add: ListDictionary_Remove_Head_def Let_def hfree_def)
    moreover have "ld_repr ?d (tl kvs)"
      using n a dom kvs Cons by (auto simp: ld_repr_def ld_at_def intro!: exI [of _ as'])
    moreover have "kvs = (li_key n, li_value n) # tl kvs" using kvs Cons n by (simp add: li_pair_def)
    then have "(case kvs of [] \<Rightarrow> NULL | (k, v) # _ \<Rightarrow> v) = li_value n" by (metis list.simps(5) case_prod_conv)
    ultimately show ?thesis using ld_leave_simps [of ?d d] by (auto simp: ld_rest_def)
  qed
qed

lemma ListDictionary_SetItemValue_ok:
  assumes repr: "ld_repr d kvs"
  shows "\<exists>d'. ListDictionary_SetItemValue d key value = Some (\<exists>kv \<in> set kvs. ld_keyEquals d (fst kv) key, d')
    \<and> ld_repr d' (pairs_set (\<lambda>k. ld_keyEquals d k key) value kvs) \<and> ld_rest d' = ld_rest d
    \<and> ld_freed d' = ld_freed d @ (if ld_valueFree d \<and> (\<exists>kv \<in> set kvs. ld_keyEquals d (fst kv) key)
        then [Inr (pairs_get (\<lambda>k. ld_keyEquals d k key) NULL kvs)] else [])"
proof -
  let ?P = "\<lambda>k. ld_keyEquals d k key" and ?e = "ld_enter d"
  obtain as where at: "ld_at d as" and kvs: "kvs = map li_pair (nodes (ld_heap d) as)"
    using repr by (auto simp: ld_repr_def)
  have find: "ld_find ?e key = ld_find d key" by (simp add: ld_find_def)
  show ?thesis using at
  proof (cases rule: ld_split [where key = key])
    case none
    then have no: "\<forall>kv \<in> set kvs. \<not> ?P (fst kv)" by (auto simp: kvs nodes_def li_pair_def)
    then have "ListDictionary_SetItemValue d key value = Some (False, d)"
      using none(2) by (simp add: ListDictionary_SetItemValue_def Let_def find)
    then show ?thesis using no repr pairs_none(3) [OF no] by simp
  next
    case (hit bs a cs n)
    let ?xs = "map li_pair (nodes (ld_heap d) bs)" and ?ys = "map li_pair (nodes (ld_heap d) cs)"
    have split: "kvs = ?xs @ (li_key n, li_value n) # ?ys" using hit by (simp add: kvs li_pair_def)
    have no: "\<forall>kv \<in> set ?xs. \<not> ?P (fst kv)" using hit(6) by (auto simp: nodes_def li_pair_def)
    have head: "ld_head d \<noteq> NULL" using ld_head_NULL [OF at] hit(1) by simp
    have a: "a \<notin> set bs" "a \<notin> set cs"
      using lseg_distinct [of li_next "ld_heap d" "ld_head d" as] at hit(1) by (auto simp: ld_at_def)
    define h where "h = (ld_heap d)(a \<mapsto> n\<lparr>li_value := value\<rparr>)"
    let ?d = "?e\<lparr>ld_freed := ld_freed d @ (if ld_valueFree d then [Inr (li_value n)] else []), ld_heap := h\<rparr>"
    have free: "ld_free_value v ?e = ?e\<lparr>ld_freed := ld_freed d @ (if ld_valueFree d then [Inr v] else [])\<rparr>" for v
      by (simp add: ld_free_value_def)
    have "ListDictionary_SetItemValue d key value = Some (True, ld_leave ?d)"
      using hit(2,3,5) head
      by (simp add: ListDictionary_SetItemValue_def Let_def find free hset_def h_def)
    moreover have "lseg li_next h (ld_head d) as NULL"
    proof -
      have "lseg li_next h (ld_head d) as NULL = lseg li_next (ld_heap d) (ld_head d) as NULL"
        by (rule lseg_next_cong) (simp add: h_def hit(2))
      then show ?thesis using at by (simp add: ld_at_def)
    qed
    moreover have "dom h = set as" using at hit(1) by (auto simp: ld_at_def h_def)
    moreover have "map li_pair (nodes h as) = pairs_set ?P value kvs"
      unfolding split pairs_split(3) [OF no hit(4)] using a by (simp add: hit(1) h_def li_pair_def)
    ultimately have set: "ListDictionary_SetItemValue d key value = Some (True, ld_leave ?d)"
      and "ld_repr ?d (pairs_set ?P value kvs)"
      by (auto simp: ld_repr_def ld_at_def intro!: exI [of _ as])
    moreover have "\<exists>kv \<in> set kvs. ?P (fst kv)" using hit(4) by (auto simp: split)
    moreover have "pairs_get ?P NULL kvs = li_value n" unfolding split by (rule pairs_split(1) [OF no hit(4)])
    moreover have "ld_rest ?d = ld_rest ?e" by (simp add: ld_rest_def)
    ultimately show ?thesis using ld_leave_simps [of ?d d] by auto
  qed
qed

section \<open>The dictionary contract\<close>

lemma pairs_map_of:
  "pairs_get (\<lambda>k'. k' = k) z kvs = (case map_of kvs k of None \<Rightarrow> z | Some v \<Rightarrow> v)"
  by (induction kvs) auto

lemma pairs_del_map_of:
  assumes "distinct (map fst kvs)"
  shows "map_of (pairs_del (\<lambda>k'. k' = k) kvs) = (map_of kvs)(k := None)
    \<and> distinct (map fst (pairs_del (\<lambda>k'. k' = k) kvs))
    \<and> fst ` set (pairs_del (\<lambda>k'. k' = k) kvs) \<subseteq> fst ` set kvs"
  using assms
proof (induction kvs)
  case (Cons kv kvs)
  obtain k' v where kv: "kv = (k', v)" by (cases kv)
  have "map_of kvs k = None" if "k \<notin> fst ` set kvs" using that by (simp add: map_of_eq_None_iff)
  with Cons kv show ?case by (auto simp: fun_upd_twist fun_upd_idem)
qed simp

definition ld_put :: "ptr \<Rightarrow> ptr \<Rightarrow> ptr \<Rightarrow> wListDictionary \<Rightarrow> wListDictionary option" where
  "ld_put item k v d = map_option snd (ListDictionary_Add (Some item) d k v)"

definition ld_del :: "ptr \<Rightarrow> wListDictionary \<Rightarrow> wListDictionary option" where
  "ld_del k d = map_option snd (ListDictionary_Remove d k)"

definition ld_get :: "ptr \<Rightarrow> wListDictionary \<Rightarrow> (ptr \<times> wListDictionary) option" where
  "ld_get k d = ListDictionary_GetItemValue d k"

definition ld_map :: "wListDictionary \<Rightarrow> (ptr \<Rightarrow> ptr option) \<Rightarrow> bool" where
  "ld_map d m \<longleftrightarrow> (\<exists>kvs. ld_repr d kvs \<and> distinct (map fst kvs) \<and> m = map_of kvs)
     \<and> ld_keyEquals d = ld_default_equal_function"

definition ld_room :: "ptr \<Rightarrow> ptr \<Rightarrow> ptr \<Rightarrow> wListDictionary \<Rightarrow> bool" where
  "ld_room item k v d \<longleftrightarrow> fresh_in (ld_heap d) item"

lemma ld_eq_default: "ld_keyEquals d = ld_default_equal_function \<Longrightarrow> (\<lambda>k'. ld_keyEquals d k' k) = (\<lambda>k'. k' = k)"
  by (simp add: ld_default_equal_function_def fun_eq_iff)

lemma ld_rest_eq: "ld_rest d' = ld_rest d \<Longrightarrow> ld_keyEquals d' = ld_keyEquals d \<and> ld_lock d' = ld_lock d"
  by (simp add: ld_rest_def)

interpretation ld: dictionary ld_put ld_del ld_get id NULL ld_map ld_room
proof unfold_locales
  fix d m e k v
  assume "ld_map d m" and room: "ld_room e k v d" and new: "m (id k) = None"
  then obtain kvs where kvs: "ld_repr d kvs" "distinct (map fst kvs)" "m = map_of kvs"
    and eq: "ld_keyEquals d = ld_default_equal_function" by (auto simp: ld_map_def)
  have "fresh_in (ld_heap d) e" using room by (simp add: ld_room_def)
  from ListDictionary_Add_ok [OF kvs(1) this, of k v] obtain d' where
    d': "ListDictionary_Add (Some e) d k v = Some (True, d')" "ld_repr d' (kvs @ [(k, v)])"
      "ld_rest d' = ld_rest d" by blast
  have k: "k \<notin> fst ` set kvs" using new kvs(3) by (simp add: map_of_eq_None_iff)
  have "map_of (kvs @ [(k, v)]) = m(k \<mapsto> v)"
    using kvs(3) new by (auto simp: map_add_def fun_eq_iff split: option.splits)
  then have "ld_map d' (m(id k \<mapsto> v))"
    using d' k kvs(2) eq ld_rest_eq [OF d'(3)] unfolding ld_map_def
    by (auto intro!: exI [of _ "kvs @ [(k, v)]"])
  then show "\<exists>d'. ld_put e k v d = Some d' \<and> ld_map d' (m(id k \<mapsto> v))"
    using d'(1) by (simp add: ld_put_def)
next
  fix d m k
  assume "ld_map d m"
  then obtain kvs where kvs: "ld_repr d kvs" "distinct (map fst kvs)" "m = map_of kvs"
    and eq: "ld_keyEquals d = ld_default_equal_function" by (auto simp: ld_map_def)
  note P = ld_eq_default [OF eq, of k]
  from ListDictionary_Remove_ok [OF kvs(1), of k] obtain x d' where
    d': "ListDictionary_Remove d k = Some (x, d')" "ld_repr d' (pairs_del (\<lambda>k'. k' = k) kvs)"
      "ld_rest d' = ld_rest d" unfolding P by blast
  have "ld_map d' (m(id k := None))"
    using d' eq ld_rest_eq [OF d'(3)] pairs_del_map_of [OF kvs(2), of k] unfolding ld_map_def kvs(3)
    by (auto intro!: exI [of _ "pairs_del (\<lambda>k'. k' = k) kvs"])
  then show "\<exists>d'. ld_del k d = Some d' \<and> ld_map d' (m(id k := None))"
    using d'(1) by (simp add: ld_del_def)
next
  fix d m k
  assume "ld_map d m"
  then obtain kvs where kvs: "ld_repr d kvs" "m = map_of kvs"
    and eq: "ld_keyEquals d = ld_default_equal_function" by (auto simp: ld_map_def)
  show "ld_get k d = Some (case m (id k) of None \<Rightarrow> NULL | Some v \<Rightarrow> v, d)"
    using ListDictionary_lookup_ok(2) [OF kvs(1), of k] unfolding ld_eq_default [OF eq] pairs_map_of
    by (simp add: ld_get_def kvs(2))
qed

section \<open>Properties\<close>

text \<open>C21. Any sequence of \<open>ListDictionary_Add\<close> (of keys not held, at addresses \<open>malloc\<close> may return),
  \<open>ListDictionary_Remove\<close> and \<open>ListDictionary_GetItemValue\<close> calls on a fresh dictionary returns from every call
  and looks values up as a finite map does, with \<open>NULL\<close> for an absent key, without touching a freed node.\<close>
theorem ListDictionary_run_map:
  assumes "ListDictionary_New True True sync = Some d"
    and "admissible True id ld_room ld_put ld_del ops d Map.empty"
  shows "\<exists>d'. run_dict ld_put ld_del ld_get ops d = Some (fst (run_map id NULL ops Map.empty), d')
    \<and> ld_map d' (snd (run_map id NULL ops Map.empty))"
proof -
  have "ld_map d Map.empty"
    using ListDictionary_New_repr [OF assms(1)] by (force simp: ld_map_def ld_rest_def)
  from ld.dict_run [OF this assms(2)] show ?thesis .
qed

theorem ListDictionary_run_map_witness:
  "\<exists>d d'. ListDictionary_New True True True = Some d
    \<and> run_dict ld_put ld_del ld_get
        [Insert 100 1 11, Insert 200 2 12, Insert 300 3 13, Insert 400 4 14, Lookup 4, Lookup 1, Lookup 3, Delete 3,
         Lookup 3, Lookup 4, Delete 1, Insert 300 5 15, Lookup 1, Lookup 2, Lookup 5, Delete 5, Lookup 5, Lookup 4] d =
      Some ([14, 11, 13, 0, 14, 0, 12, 15, 0, 14], d')"
proof -
  let ?ops = "[Insert 100 1 11, Insert 200 2 12, Insert 300 3 13, Insert 400 4 14, Lookup 4, Lookup 1, Lookup 3, Delete 3,
    Lookup 3, Lookup 4, Delete 1, Insert 300 5 15, Lookup 1, Lookup 2, Lookup 5, Delete 5, Lookup 5, Lookup 4]"
  obtain d where d: "ListDictionary_New True True True = Some d"
    and d_def: "d = \<lparr>ld_synchronized = True, ld_lock = 0, ld_head = NULL, ld_heap = (\<lambda>_. None),
        ld_keyEquals = ld_default_equal_function, ld_keyFree = False, ld_valueFree = False,
        ld_freed = []\<rparr>" by (simp add: ListDictionary_New_def)
  have "admissible True id ld_room ld_put ld_del ?ops d Map.empty"
    unfolding d_def ld_room_def fresh_in_def by code_simp
  from ListDictionary_run_map [OF d this] d show ?thesis by auto
qed

text \<open>\<open>ListDictionary_Free\<close> releases every node of the list and passes each key and value once, in
  list order, to the callbacks that are installed; no node is left in the heap.\<close>
theorem ListDictionary_Free_releases:
  assumes "ld_repr d kvs"
  shows "ListDictionary_Free (Some d) = Some (ld_freed d @ ld_callbacks d kvs)
    \<and> map_option ld_heap (ListDictionary_Clear d) = Some (\<lambda>_. None)"
  using ListDictionary_Clear_ok [OF assms] by (auto simp: ListDictionary_Free_def)

theorem ListDictionary_Free_releases_witness:
  "ListDictionary_Free (Some \<lparr>ld_synchronized = True, ld_lock = 0, ld_head = 5,
     ld_heap = [5 \<mapsto> \<lparr>li_key = 1, li_value = 2, li_next = NULL\<rparr>], ld_keyEquals = (=),
     ld_keyFree = True, ld_valueFree = True, ld_freed = []\<rparr>) = Some [Inl 1, Inr 2]"
proof -
  let ?d = "\<lparr>ld_synchronized = True, ld_lock = 0, ld_head = 5 :: ptr,
     ld_heap = [5 \<mapsto> \<lparr>li_key = 1, li_value = 2, li_next = NULL\<rparr>], ld_keyEquals = (=),
     ld_keyFree = True, ld_valueFree = True, ld_freed = []\<rparr>"
  have "ld_at ?d [5]" by (simp add: ld_at_def)
  then have "ld_repr ?d [(1, 2)]" unfolding ld_repr_def by (rule exI [of _ "[5]", OF conjI]) (simp add: li_pair_def)
  from ListDictionary_Free_releases [OF this] show ?thesis by (simp add: ld_callbacks_def)
qed

text \<open>\<open>ListDictionary_SetItemValue\<close> replaces the value of the first pair with the key, frees the old
  value, and keeps every other pair; \<open>ListDictionary_Remove\<close> unlinks that pair without calling the free
  callbacks and returns its value. Both leave the critical section as it was.\<close>
theorem ListDictionary_update_first:
  assumes "ld_repr d (xs @ (k, v) # ys)" and "ld_keyEquals d k key"
    and "\<forall>(k', _) \<in> set xs. \<not> ld_keyEquals d k' key"
  shows "(\<exists>d'. ListDictionary_SetItemValue d key w = Some (True, d') \<and> ld_repr d' (xs @ (k, w) # ys)
      \<and> ld_freed d' = ld_freed d @ (if ld_valueFree d then [Inr v] else []) \<and> ld_lock d' = ld_lock d)
    \<and> (\<exists>d'. ListDictionary_Remove d key = Some (v, d') \<and> ld_repr d' (xs @ ys)
      \<and> ld_freed d' = ld_freed d \<and> ld_lock d' = ld_lock d)"
proof -
  let ?P = "\<lambda>k. ld_keyEquals d k key"
  have no: "\<forall>kv \<in> set xs. \<not> ?P (fst kv)" using assms(3) by auto
  note s = pairs_split [of xs ?P k, OF no assms(2)]
  have hit: "(\<exists>kv \<in> set (xs @ (k, v) # ys). ?P (fst kv)) = True" using assms(2) by simp
  obtain d1 where "ListDictionary_SetItemValue d key w = Some (True, d1)" "ld_repr d1 (xs @ (k, w) # ys)"
    "ld_rest d1 = ld_rest d" "ld_freed d1 = ld_freed d @ (if ld_valueFree d then [Inr v] else [])"
    using ListDictionary_SetItemValue_ok [OF assms(1), of key w] unfolding s hit simp_thms by blast
  moreover obtain d2 where "ListDictionary_Remove d key = Some (v, d2)" "ld_repr d2 (xs @ ys)"
    "ld_rest d2 = ld_rest d" "ld_freed d2 = ld_freed d"
    using ListDictionary_Remove_ok [OF assms(1), of key] unfolding s by blast
  ultimately show ?thesis using ld_rest_eq by blast
qed

theorem ListDictionary_update_first_witness:
  "\<exists>d'. ListDictionary_Remove \<lparr>ld_synchronized = True, ld_lock = 0, ld_head = 5,
     ld_heap = [5 \<mapsto> \<lparr>li_key = 1, li_value = 2, li_next = NULL\<rparr>], ld_keyEquals = (=),
     ld_keyFree = True, ld_valueFree = True, ld_freed = []\<rparr> 1 = Some (2, d') \<and> ld_repr d' []"
proof -
  let ?d = "\<lparr>ld_synchronized = True, ld_lock = 0, ld_head = 5 :: ptr,
     ld_heap = [5 \<mapsto> \<lparr>li_key = 1, li_value = 2, li_next = NULL\<rparr>], ld_keyEquals = (=),
     ld_keyFree = True, ld_valueFree = True, ld_freed = []\<rparr>"
  have "ld_at ?d [5]" by (simp add: ld_at_def)
  then have "ld_repr ?d ([] @ (1, 2) # [])"
    unfolding ld_repr_def by (rule exI [of _ "[5]", OF conjI]) (simp add: li_pair_def)
  from ListDictionary_update_first [OF this, of 1] show ?thesis by auto
qed

end
