(* ===== verification/WHashTable.thy ===== *)
theory WHashTable
  imports Complex_Main "HOL-Library.Multiset" Dict
begin

text \<open>
  \<open>wHashTable\<close> of \<open>winpr/libwinpr/utils/collections/HashTable.c\<close>: an array of buckets, each a chain of
  key and value pairs that only its bucket points to, so a chain is the list of its pairs in order.
  The pointer to a pair that \<open>HashTable_Get\<close> returns is its bucket and its position there.

  The two \<open>float\<close> fields and the load ratio are rationals: comparisons and the cast to \<open>int\<close> are exact
  on them, and \<open>rnd\<close>, an argument of the operations, is whatever rounding the machine applies to a
  conversion from \<open>int\<close> and to a division. The callbacks are the hash and compare functions of the
  table; \<open>ht_keyClone\<close> and \<open>ht_valueClone\<close> say whether a clone callback is set, and the pointers it
  returns are arguments. \<open>ht_freed\<close> records the calls of the key (\<open>Inl\<close>) and value (\<open>Inr\<close>) free
  callbacks.
\<close>

section \<open>State\<close>

record wKeyValuePair =
  kv_key :: ptr
  kv_value :: ptr

record wHashTable =
  ht_synchronized :: bool
  ht_lock :: int
  ht_numOfBuckets :: int
  ht_numOfElements :: int
  ht_idealRatio :: rat
  ht_lowerRehashThreshold :: rat
  ht_upperRehashThreshold :: rat
  ht_bucketArray :: "wKeyValuePair list list"
  ht_hash :: "ptr \<Rightarrow> 32 word"
  ht_keyCompare :: "ptr \<Rightarrow> ptr \<Rightarrow> bool"
  ht_valueCompare :: "ptr \<Rightarrow> ptr \<Rightarrow> bool"
  ht_keyClone :: bool
  ht_valueClone :: bool
  ht_keyFree :: bool
  ht_valueFree :: bool
  ht_freed :: "(ptr + ptr) list"

definition ht_enter :: "wHashTable \<Rightarrow> wHashTable" where
  "ht_enter t = (if ht_synchronized t then t\<lparr>ht_lock := ht_lock t + 1\<rparr> else t)"

definition ht_leave :: "wHashTable \<Rightarrow> wHashTable" where
  "ht_leave t = (if ht_synchronized t then t\<lparr>ht_lock := ht_lock t - 1\<rparr> else t)"

definition ht_free_key :: "ptr \<Rightarrow> wHashTable \<Rightarrow> wHashTable" where
  "ht_free_key k t = (if ht_keyFree t then t\<lparr>ht_freed := ht_freed t @ [Inl k]\<rparr> else t)"

definition ht_free_value :: "ptr \<Rightarrow> wHashTable \<Rightarrow> wHashTable" where
  "ht_free_value v t = (if ht_valueFree t then t\<lparr>ht_freed := ht_freed t @ [Inr v]\<rparr> else t)"

section \<open>Hash and compare functions\<close>

definition HashTable_PointerCompare :: "ptr \<Rightarrow> ptr \<Rightarrow> bool" where
  "HashTable_PointerCompare pointer1 pointer2 = (pointer1 = pointer2)"

definition HashTable_PointerHash :: "ptr \<Rightarrow> 32 word" where
  "HashTable_PointerHash pointer = drop_bit 4 (ucast pointer)"

text \<open>\<open>mem p\<close> are the bytes at address \<open>p\<close>; running off them is \<open>None\<close>.\<close>

fun strcmp_eq :: "byte list \<Rightarrow> byte list \<Rightarrow> bool option" where
  "strcmp_eq (a # as) (b # bs) =
     (if a \<noteq> b then Some False else if a = 0 then Some True else strcmp_eq as bs)"
| "strcmp_eq _ _ = None"

definition HashTable_StringCompare :: "(ptr \<Rightarrow> byte list) \<Rightarrow> ptr \<Rightarrow> ptr \<Rightarrow> bool option" where
  "HashTable_StringCompare mem string1 string2 =
     (if string1 = NULL \<or> string2 = NULL then Some (string1 = string2)
      else strcmp_eq (mem string1) (mem string2))"

fun ht_string_hash_loop :: "byte list \<Rightarrow> 32 word \<Rightarrow> 32 word option" where
  "ht_string_hash_loop [] hash = None"
| "ht_string_hash_loop (c # str) hash =
     (if c \<noteq> 0 then ht_string_hash_loop str (hash * 33 + ucast c) else Some hash)"

definition HashTable_StringHash :: "(ptr \<Rightarrow> byte list) \<Rightarrow> ptr \<Rightarrow> 32 word option" where
  "HashTable_StringHash mem key = ht_string_hash_loop (mem key) 5381"

section \<open>Rehashing\<close>

fun ht_prime_loop :: "int \<Rightarrow> int list \<Rightarrow> int option" where
  "ht_prime_loop oddNumber [] = Some 1"
| "ht_prime_loop oddNumber (i # is) =
     (if oddNumber = i then Some 1
      else do {
        r \<leftarrow> crem oddNumber i;
        if r = 0 then Some 0 else ht_prime_loop oddNumber is })"

definition HashTable_IsProbablePrime :: "int \<Rightarrow> int option" where
  "HashTable_IsProbablePrime oddNumber = ht_prime_loop oddNumber (map (\<lambda>k. 2 * int k + 3) [0..<24])"

partial_function (option) ht_ideal_loop :: "int \<Rightarrow> int option" where
  "ht_ideal_loop idealNumOfBuckets = do {
     p \<leftarrow> HashTable_IsProbablePrime idealNumOfBuckets;
     if p = 0 then do {
       n \<leftarrow> cint (idealNumOfBuckets + 2);
       ht_ideal_loop n
     } else Some idealNumOfBuckets }"

text \<open>The cast of a \<open>float\<close> to \<open>int\<close> truncates.\<close>

definition float_to_int :: "rat \<Rightarrow> int option" where
  "float_to_int r = cint (if 0 \<le> r then \<lfloor>r\<rfloor> else \<lceil>r\<rceil>)"

definition HashTable_CalculateIdealNumOfBuckets :: "wHashTable \<Rightarrow> int option" where
  "HashTable_CalculateIdealNumOfBuckets t = do {
     ratio \<leftarrow> float_to_int (ht_idealRatio t);
     n \<leftarrow> cdiv (ht_numOfElements t) ratio;
     let n = (if n < 5 then 5 else n OR 1);
     ht_ideal_loop n }"

text \<open>The remainder of the \<open>UINT32\<close> hash by the \<open>int\<close> number of buckets, both read as unsigned.\<close>

definition ht_slot :: "32 word \<Rightarrow> int \<Rightarrow> int option" where
  "ht_slot h numOfBuckets =
     (let n = numOfBuckets mod 2 ^ 32 in if n = 0 then None else Some (uint h mod n))"

definition ht_move :: "(ptr \<Rightarrow> 32 word) \<Rightarrow> int \<Rightarrow> wKeyValuePair \<Rightarrow> wKeyValuePair list list \<Rightarrow>
    wKeyValuePair list list option" where
  "ht_move hash numOfBuckets pair newBucketArray = do {
     hashValue \<leftarrow> ht_slot (hash (kv_key pair)) numOfBuckets;
     chain \<leftarrow> aget newBucketArray hashValue;
     aset newBucketArray hashValue (pair # chain) }"

text \<open>\<open>mem\<close> is the outcome of \<open>calloc\<close>; without memory the table stays as it is.\<close>

definition HashTable_Rehash :: "bool \<Rightarrow> wHashTable \<Rightarrow> int \<Rightarrow> wHashTable option" where
  "HashTable_Rehash mem t numOfBuckets = do {
     n \<leftarrow> (if numOfBuckets = 0 then HashTable_CalculateIdealNumOfBuckets t else Some numOfBuckets);
     if n = ht_numOfBuckets t then Some t
     else if \<not> mem then Some t
     else do {
       arr \<leftarrow> foldM (\<lambda>index arr. do {
                chain \<leftarrow> aget (ht_bucketArray t) index;
                foldM (ht_move (ht_hash t) n) chain arr }) [0..ht_numOfBuckets t - 1] (replicate (nat n) []);
       Some (t\<lparr>ht_bucketArray := arr, ht_numOfBuckets := n\<rparr>) } }"

definition HashTable_SetIdealRatio :: "wHashTable \<Rightarrow> rat \<Rightarrow> rat \<Rightarrow> rat \<Rightarrow> wHashTable" where
  "HashTable_SetIdealRatio t idealRatio lowerRehashThreshold upperRehashThreshold =
     t\<lparr>ht_idealRatio := idealRatio, ht_lowerRehashThreshold := lowerRehashThreshold,
       ht_upperRehashThreshold := upperRehashThreshold\<rparr>"

declare ht_ideal_loop.simps [code]

section \<open>Operations\<close>

fun ht_pos :: "('a \<Rightarrow> bool) \<Rightarrow> 'a list \<Rightarrow> nat option" where
  "ht_pos P [] = None"
| "ht_pos P (x # xs) = (if P x then Some 0 else map_option Suc (ht_pos P xs))"

text \<open>The walk along the bucket of a key: the bucket, its chain, and the position of the pair.\<close>

definition ht_walk :: "wHashTable \<Rightarrow> ptr \<Rightarrow> (int \<times> wKeyValuePair list \<times> nat option) option" where
  "ht_walk t key = do {
     hashValue \<leftarrow> ht_slot (ht_hash t key) (ht_numOfBuckets t);
     chain \<leftarrow> aget (ht_bucketArray t) hashValue;
     Some (hashValue, chain, ht_pos (\<lambda>pair. ht_keyCompare t key (kv_key pair)) chain) }"

definition HashTable_Get :: "wHashTable \<Rightarrow> ptr \<Rightarrow> (int \<times> nat) option option" where
  "HashTable_Get t key = do {
     (hashValue, chain, pos) \<leftarrow> ht_walk t key;
     Some (map_option (Pair hashValue) pos) }"

definition HashTable_Count :: "wHashTable \<Rightarrow> int" where
  "HashTable_Count t = ht_numOfElements t"

definition ht_ratio :: "(rat \<Rightarrow> rat) \<Rightarrow> wHashTable \<Rightarrow> rat" where
  "ht_ratio rnd t = rnd (rnd (of_int (ht_numOfElements t)) / rnd (of_int (ht_numOfBuckets t)))"

text \<open>
  The locked part of \<open>HashTable_Add\<close>: replace the pair of the key, or prepend a new one and rehash.
  \<open>mem\<close> and \<open>memr\<close> are the outcomes of \<open>malloc\<close> and of the \<open>calloc\<close> of a rehash.
\<close>

definition ht_add_pair :: "(rat \<Rightarrow> rat) \<Rightarrow> bool \<Rightarrow> bool \<Rightarrow> wHashTable \<Rightarrow> ptr \<Rightarrow> ptr \<Rightarrow>
    (int \<times> wHashTable) option" where
  "ht_add_pair rnd mem memr t key value = do {
     (hashValue, chain, pair) \<leftarrow> ht_walk t key;
     (case pair of
         Some pos \<Rightarrow> do {
           let p = chain ! pos;
           let t = (if kv_key p \<noteq> key then ht_free_key (kv_key p) t else t);
           let t = (if kv_value p \<noteq> value then ht_free_value (kv_value p) t else t);
           arr \<leftarrow> aset (ht_bucketArray t) hashValue (chain[pos := \<lparr>kv_key = key, kv_value = value\<rparr>]);
           Some (0, t\<lparr>ht_bucketArray := arr\<rparr>) }
       | None \<Rightarrow>
           if \<not> mem then Some (- 1, t)
           else do {
             arr \<leftarrow> aset (ht_bucketArray t) hashValue (\<lparr>kv_key = key, kv_value = value\<rparr> # chain);
             n \<leftarrow> cint (ht_numOfElements t + 1);
             let t = t\<lparr>ht_bucketArray := arr, ht_numOfElements := n\<rparr>;
             t \<leftarrow> (if ht_upperRehashThreshold t > ht_idealRatio t
                   then if ht_ratio rnd t > ht_upperRehashThreshold t then HashTable_Rehash memr t 0
                        else Some t
                   else Some t);
             Some (0, t) }) }"

text \<open>\<open>ck\<close> and \<open>cv\<close> are what the clone callbacks return.\<close>

definition HashTable_Add :: "(rat \<Rightarrow> rat) \<Rightarrow> ptr \<Rightarrow> ptr \<Rightarrow> bool \<Rightarrow> bool \<Rightarrow> wHashTable \<Rightarrow> ptr \<Rightarrow> ptr \<Rightarrow>
    (int \<times> wHashTable) option" where
  "HashTable_Add rnd ck cv mem memr t key value =
     (if key = NULL \<or> value = NULL then Some (- 1, t)
      else let key = (if ht_keyClone t then ck else key) in
      if key = NULL then Some (- 1, t)
      else let value = (if ht_valueClone t then cv else value) in
      if value = NULL then Some (- 1, t)
      else do {
        (status, t) \<leftarrow> ht_add_pair rnd mem memr (ht_enter t) key value;
        Some (status, ht_leave t) })"

definition HashTable_Remove :: "(rat \<Rightarrow> rat) \<Rightarrow> bool \<Rightarrow> wHashTable \<Rightarrow> ptr \<Rightarrow> (bool \<times> wHashTable) option" where
  "HashTable_Remove rnd memr t0 key = do {
     let t = ht_enter t0;
     (hashValue, chain, pair) \<leftarrow> ht_walk t key;
     (status, t) \<leftarrow> (case pair of
         None \<Rightarrow> Some (False, t)
       | Some pos \<Rightarrow> do {
           let p = chain ! pos;
           let t = ht_free_value (kv_value p) (ht_free_key (kv_key p) t);
           arr \<leftarrow> aset (ht_bucketArray t) hashValue (take pos chain @ drop (Suc pos) chain);
           n \<leftarrow> cint (ht_numOfElements t - 1);
           let t = t\<lparr>ht_bucketArray := arr, ht_numOfElements := n\<rparr>;
           t \<leftarrow> (if ht_lowerRehashThreshold t > 0
                 then if ht_ratio rnd t < ht_lowerRehashThreshold t then HashTable_Rehash memr t 0
                      else Some t
                 else Some t);
           Some (True, t) });
     Some (status, ht_leave t) }"

definition HashTable_GetItemValue :: "wHashTable \<Rightarrow> ptr \<Rightarrow> (ptr \<times> wHashTable) option" where
  "HashTable_GetItemValue t0 key = do {
     let t = ht_enter t0;
     pair \<leftarrow> HashTable_Get t key;
     value \<leftarrow> (case pair of None \<Rightarrow> Some NULL
       | Some (b, pos) \<Rightarrow> do { chain \<leftarrow> aget (ht_bucketArray t) b; Some (kv_value (chain ! pos)) });
     Some (value, ht_leave t) }"

definition HashTable_SetItemValue :: "ptr \<Rightarrow> wHashTable \<Rightarrow> ptr \<Rightarrow> ptr \<Rightarrow> (bool \<times> wHashTable) option" where
  "HashTable_SetItemValue cv t0 key value0 =
     (let value = (if ht_valueClone t0 \<and> value0 \<noteq> NULL then cv else value0) in
      if ht_valueClone t0 \<and> value0 \<noteq> NULL \<and> value = NULL then Some (False, t0)
      else do {
        let t = ht_enter t0;
        pair \<leftarrow> HashTable_Get t key;
        (status, t) \<leftarrow> (case pair of None \<Rightarrow> Some (False, t)
          | Some (b, pos) \<Rightarrow> do {
              chain \<leftarrow> aget (ht_bucketArray t) b;
              arr \<leftarrow> aset (ht_bucketArray t) b (chain[pos := (chain ! pos)\<lparr>kv_value := value\<rparr>]);
              Some (True, t\<lparr>ht_bucketArray := arr\<rparr>) });
        Some (status, ht_leave t) })"

text \<open>Disposing of one bucket, of \<open>HashTable_Clear\<close> and \<open>HashTable_Free\<close>.\<close>

definition ht_free_chain :: "wKeyValuePair list \<Rightarrow> wHashTable \<Rightarrow> wHashTable" where
  "ht_free_chain chain t = fold (\<lambda>p t. ht_free_value (kv_value p) (ht_free_key (kv_key p) t)) chain t"

definition HashTable_Clear :: "bool \<Rightarrow> wHashTable \<Rightarrow> wHashTable option" where
  "HashTable_Clear mem t0 = do {
     let t = ht_enter t0;
     t \<leftarrow> foldM (\<lambda>index t. do {
            chain \<leftarrow> aget (ht_bucketArray t) index;
            let t = ht_free_chain chain t;
            arr \<leftarrow> aset (ht_bucketArray t) index [];
            Some (t\<lparr>ht_bucketArray := arr\<rparr>) }) [0..ht_numOfBuckets t - 1] t;
     t \<leftarrow> HashTable_Rehash mem (t\<lparr>ht_numOfElements := 0\<rparr>) 5;
     Some (ht_leave t) }"

definition HashTable_GetKeys :: "bool \<Rightarrow> wHashTable \<Rightarrow> (int \<times> ptr list option \<times> wHashTable) option" where
  "HashTable_GetKeys mem t0 = do {
     let t = ht_enter t0;
     let count = ht_numOfElements t;
     if count < 1 then Some (0, None, ht_leave t)
     else if \<not> mem then Some (- 1, None, ht_leave t)
     else do {
       (iKey, pKeys) \<leftarrow> foldM (\<lambda>index s. do {
           chain \<leftarrow> aget (ht_bucketArray t) index;
           foldM (\<lambda>pair (iKey, pKeys). do {
             pKeys \<leftarrow> aset pKeys iKey (kv_key pair);
             iKey \<leftarrow> cint (iKey + 1);
             Some (iKey, pKeys) }) chain s }) [0..ht_numOfBuckets t - 1] (0, replicate (nat count) 0);
       Some (count, Some pKeys, ht_leave t) } }"

definition HashTable_Contains :: "wHashTable \<Rightarrow> ptr \<Rightarrow> (bool \<times> wHashTable) option" where
  "HashTable_Contains t0 key = do {
     let t = ht_enter t0;
     pair \<leftarrow> HashTable_Get t key;
     Some (pair \<noteq> None, ht_leave t) }"

definition HashTable_ContainsKey :: "wHashTable \<Rightarrow> ptr \<Rightarrow> (bool \<times> wHashTable) option" where
  "HashTable_ContainsKey t0 key = do {
     let t = ht_enter t0;
     pair \<leftarrow> HashTable_Get t key;
     Some (pair \<noteq> None, ht_leave t) }"

definition HashTable_ContainsValue :: "wHashTable \<Rightarrow> ptr \<Rightarrow> (bool \<times> wHashTable) option" where
  "HashTable_ContainsValue t0 value = do {
     let t = ht_enter t0;
     r \<leftarrow> searchM (\<lambda>index. do {
            chain \<leftarrow> aget (ht_bucketArray t) index;
            Some (ht_pos (\<lambda>pair. ht_valueCompare t value (kv_value pair)) chain \<noteq> None) })
          [0..ht_numOfBuckets t - 1];
     Some (r \<noteq> None, ht_leave t) }"

definition HashTable_New :: "bool \<Rightarrow> bool \<Rightarrow> bool \<Rightarrow> wHashTable option" where
  "HashTable_New mem_table mem_array synchronized =
     (if \<not> mem_table then None
      else if \<not> mem_array then None
      else Some \<lparr>ht_synchronized = synchronized, ht_lock = 0, ht_numOfBuckets = 64, ht_numOfElements = 0,
        ht_idealRatio = 3, ht_lowerRehashThreshold = 0, ht_upperRehashThreshold = 15,
        ht_bucketArray = replicate 64 [], ht_hash = HashTable_PointerHash,
        ht_keyCompare = HashTable_PointerCompare, ht_valueCompare = HashTable_PointerCompare,
        ht_keyClone = False, ht_valueClone = False, ht_keyFree = False, ht_valueFree = False,
        ht_freed = []\<rparr>)"

definition HashTable_Free :: "wHashTable option \<Rightarrow> (ptr + ptr) list option" where
  "HashTable_Free table = (case table of None \<Rightarrow> Some []
     | Some t \<Rightarrow> do {
         t \<leftarrow> foldM (\<lambda>index t. do {
                chain \<leftarrow> aget (ht_bucketArray t) index;
                Some (ht_free_chain chain t) }) [0..ht_numOfBuckets t - 1] t;
         Some (ht_freed t) })"

section \<open>The number of buckets\<close>

text \<open>
  The search for a probable prime ends before it leaves \<open>int\<close>: 2147483647 is a prime, and the
  candidates are odd.
\<close>

lemma ht_prime_loop_total: "\<forall>i \<in> set is. i \<noteq> 0 \<Longrightarrow> \<exists>b. ht_prime_loop n is = Some b"
  by (induction "is") (auto simp: crem_def)

lemma HashTable_IsProbablePrime_total: "\<exists>b. HashTable_IsProbablePrime n = Some b"
  unfolding HashTable_IsProbablePrime_def by (rule ht_prime_loop_total) auto

lemma HashTable_IsProbablePrime_max: "HashTable_IsProbablePrime INT_MAX = Some 1"
  by code_simp

lemma ht_ideal_loop_ok:
  assumes "odd n" and "5 \<le> n" and "n \<le> INT_MAX"
  shows "\<exists>m. ht_ideal_loop n = Some m \<and> n \<le> m \<and> m \<le> INT_MAX \<and> odd m \<and> HashTable_IsProbablePrime m \<noteq> Some 0"
  using assms
proof (induction "nat (INT_MAX - n)" arbitrary: n rule: less_induct)
  case less
  obtain b where b: "HashTable_IsProbablePrime n = Some b" using HashTable_IsProbablePrime_total by blast
  show ?case
  proof (cases "b = 0")
    case False
    then show ?thesis using b less.prems by (subst ht_ideal_loop.simps) auto
  next
    case True
    then have "n \<noteq> INT_MAX" using b HashTable_IsProbablePrime_max by auto
    moreover have "n \<noteq> INT_MAX - 1" using less.prems(1) by auto
    ultimately have le: "n + 2 \<le> INT_MAX" using less.prems(3) by linarith
    then obtain m where "ht_ideal_loop (n + 2) = Some m" "n + 2 \<le> m" "m \<le> INT_MAX" "odd m"
      "HashTable_IsProbablePrime m \<noteq> Some 0"
      using less.hyps [of "n + 2"] less.prems by auto
    moreover have "cint (n + 2) = Some (n + 2)" using le less.prems by (intro cint_Some) simp_all
    ultimately show ?thesis using b True by (subst ht_ideal_loop.simps) auto
  qed
qed

definition ht_ratio_ok :: "wHashTable \<Rightarrow> bool" where
  "ht_ratio_ok t \<longleftrightarrow> 1 \<le> ht_idealRatio t \<and> ht_idealRatio t \<le> of_int INT_MAX"

lemma HashTable_CalculateIdealNumOfBuckets_ok:
  assumes "ht_ratio_ok t" and "0 \<le> ht_numOfElements t" and "ht_numOfElements t \<le> INT_MAX"
  shows "\<exists>m. HashTable_CalculateIdealNumOfBuckets t = Some m \<and> 5 \<le> m \<and> m \<le> INT_MAX
    \<and> odd m \<and> HashTable_IsProbablePrime m \<noteq> Some 0"
proof -
  define r where "r = \<lfloor>ht_idealRatio t\<rfloor>"
  have r: "1 \<le> r" "r \<le> INT_MAX"
    using assms(1) unfolding r_def ht_ratio_ok_def by (simp_all add: le_floor_iff floor_le_iff)
  have f: "float_to_int (ht_idealRatio t) = Some r"
    using assms(1) r by (simp add: float_to_int_def ht_ratio_ok_def cint_Some flip: r_def)
  define q where "q = ht_numOfElements t div r"
  have q: "0 \<le> q" "q \<le> INT_MAX"
    using assms(2,3) r div_le_self_int [of "ht_numOfElements t" r]
    by (simp_all add: q_def pos_imp_zdiv_nonneg_iff)
  have d: "cdiv (ht_numOfElements t) r = Some q"
    using assms(2,3) r by (simp add: cdiv_Some q_def)
  define n where "n = (if q < 5 then 5 else q OR 1)"
  have "q OR 1 = 2 * (q div 2) + 1" by (simp add: or_one_eq)
  then have "odd n" and "5 \<le> n" and "n \<le> INT_MAX" using q unfolding n_def by (auto; presburger)+
  from ht_ideal_loop_ok [OF this] show ?thesis
    using \<open>5 \<le> n\<close> f d by (auto simp: HashTable_CalculateIdealNumOfBuckets_def Let_def n_def)
qed

section \<open>Invariant and abstraction\<close>

definition ht_pairs :: "wHashTable \<Rightarrow> wKeyValuePair list" where
  "ht_pairs t = concat (ht_bucketArray t)"

text \<open>Every pair is in the bucket its hash names.\<close>

definition ht_placed :: "(ptr \<Rightarrow> 32 word) \<Rightarrow> int \<Rightarrow> wKeyValuePair list list \<Rightarrow> bool" where
  "ht_placed hash n arr \<longleftrightarrow> int (length arr) = n
     \<and> (\<forall>i < length arr. \<forall>p \<in> set (arr ! i). uint (hash (kv_key p)) mod n = int i)"

text \<open>The compare function decides the classes of keys, and the hash respects them.\<close>

definition ht_funs_ok :: "(ptr \<Rightarrow> 'c) \<Rightarrow> (ptr \<Rightarrow> 32 word) \<Rightarrow> (ptr \<Rightarrow> ptr \<Rightarrow> bool) \<Rightarrow> bool" where
  "ht_funs_ok cls hash compare \<longleftrightarrow> (\<forall>k k'. compare k k' \<longleftrightarrow> cls k = cls k')
     \<and> (\<forall>k k'. cls k = cls k' \<longrightarrow> hash k = hash k')"

definition ht_inv :: "(ptr \<Rightarrow> 'c) \<Rightarrow> wHashTable \<Rightarrow> bool" where
  "ht_inv cls t \<longleftrightarrow> 0 < ht_numOfBuckets t \<and> ht_numOfBuckets t \<le> INT_MAX \<and> ht_ratio_ok t
     \<and> ht_placed (ht_hash t) (ht_numOfBuckets t) (ht_bucketArray t)
     \<and> ht_numOfElements t = int (length (ht_pairs t)) \<and> ht_numOfElements t \<le> INT_MAX
     \<and> ht_funs_ok cls (ht_hash t) (ht_keyCompare t)
     \<and> distinct (map (cls \<circ> kv_key) (ht_pairs t))"

definition ht_map :: "(ptr \<Rightarrow> 'c) \<Rightarrow> wHashTable \<Rightarrow> ('c \<Rightarrow> ptr option) \<Rightarrow> bool" where
  "ht_map cls t m \<longleftrightarrow> ht_inv cls t
     \<and> (\<forall>c v. m c = Some v \<longleftrightarrow> (\<exists>p \<in> set (ht_pairs t). cls (kv_key p) = c \<and> kv_value p = v))"

text \<open>What no operation changes.\<close>

definition ht_rest :: "wHashTable \<Rightarrow> bool \<times> int \<times> (ptr \<Rightarrow> 32 word) \<times> (ptr \<Rightarrow> ptr \<Rightarrow> bool) \<times> (rat \<times> rat \<times> rat) \<times>
    bool \<times> bool \<times> bool \<times> bool" where
  "ht_rest t = (ht_synchronized t, ht_lock t, ht_hash t, ht_keyCompare t,
     (ht_idealRatio t, ht_lowerRehashThreshold t, ht_upperRehashThreshold t),
     ht_keyClone t, ht_valueClone t, ht_keyFree t, ht_valueFree t)"

lemma ht_slot_ok: "0 < n \<Longrightarrow> n \<le> INT_MAX \<Longrightarrow> ht_slot h n = Some (uint h mod n)"
  by (simp add: ht_slot_def)

lemma mset_concat_update:
  "i < length arr \<Longrightarrow> mset (concat (arr[i := b])) + mset (arr ! i) = mset (concat arr) + mset b"
  by (induction arr arbitrary: i) (auto split: nat.split)

lemma ht_placed_update:
  assumes "ht_placed hash n arr" and "i < length arr"
    and "\<forall>p \<in> set b. uint (hash (kv_key p)) mod n = int i"
  shows "ht_placed hash n (arr[i := b])"
  using assms by (auto simp: ht_placed_def nth_list_update)

section \<open>Rehashing keeps the pairs\<close>

lemma ht_move_ok:
  assumes arr: "ht_placed hash n arr" and n: "0 < n" "n \<le> INT_MAX"
  shows "\<exists>arr'. ht_move hash n p arr = Some arr' \<and> ht_placed hash n arr'
    \<and> mset (concat arr') = add_mset p (mset (concat arr))"
proof -
  define i where "i = nat (uint (hash (kv_key p)) mod n)"
  have i: "uint (hash (kv_key p)) mod n = int i" "i < length arr"
  proof -
    have "0 \<le> uint (hash (kv_key p)) mod n" and lt: "uint (hash (kv_key p)) mod n < n" using n(1) by simp_all
    then show i: "uint (hash (kv_key p)) mod n = int i" by (simp add: i_def)
    show "i < length arr" using lt arr unfolding i ht_placed_def by simp
  qed
  have "ht_move hash n p arr = Some (arr[i := p # arr ! i])"
    using i n by (simp add: ht_move_def ht_slot_ok aget_int aset_def)
  moreover have "ht_placed hash n (arr[i := p # arr ! i])"
    using arr i by (intro ht_placed_update) (auto simp: ht_placed_def)
  moreover have "mset (concat (arr[i := p # arr ! i])) = add_mset p (mset (concat arr))"
    using mset_concat_update [OF i(2), of "p # arr ! i"] by simp
  ultimately show ?thesis by blast
qed

lemma ht_move_all:
  assumes "ht_placed hash n arr" and "0 < n" "n \<le> INT_MAX"
  shows "\<exists>arr'. foldM (ht_move hash n) ps arr = Some arr' \<and> ht_placed hash n arr'
    \<and> mset (concat arr') = mset ps + mset (concat arr)"
  using assms(1)
proof (induction ps arbitrary: arr)
  case (Cons p ps)
  from ht_move_ok [OF Cons.prems assms(2,3), of p] obtain arr1 where
    "ht_move hash n p arr = Some arr1" "ht_placed hash n arr1"
    "mset (concat arr1) = add_mset p (mset (concat arr))" by blast
  with Cons.IH [of arr1] show ?case by auto
qed simp

lemma ht_rehash_loop:
  assumes "ht_placed hash n arr" and "0 < n" "n \<le> INT_MAX" and "k \<le> length bs"
  shows "\<exists>arr'. foldM (\<lambda>index arr. do { chain \<leftarrow> aget bs index; foldM (ht_move hash n) chain arr })
      (map int [0..<k]) arr = Some arr' \<and> ht_placed hash n arr'
    \<and> mset (concat arr') = mset (concat (take k bs)) + mset (concat arr)"
  using assms(4)
proof (induction k)
  case 0
  then show ?case using assms(1) by simp
next
  case (Suc k)
  then obtain arr1 where a: "foldM (\<lambda>index arr. do { chain \<leftarrow> aget bs index; foldM (ht_move hash n) chain arr })
      (map int [0..<k]) arr = Some arr1" "ht_placed hash n arr1"
    "mset (concat arr1) = mset (concat (take k bs)) + mset (concat arr)" by auto
  from ht_move_all [OF a(2) assms(2,3), of "bs ! k"] obtain arr2 where
    "foldM (ht_move hash n) (bs ! k) arr1 = Some arr2" "ht_placed hash n arr2"
    "mset (concat arr2) = mset (bs ! k) + mset (concat arr1)" by blast
  then show ?case using a Suc.prems
    by (auto simp: foldM_append aget_int take_Suc_conv_app_nth ac_simps)
qed

lemma HashTable_Rehash_ok:
  assumes inv: "ht_inv cls t" and n: "0 \<le> n" "n \<le> INT_MAX"
  shows "\<exists>t'. HashTable_Rehash mem t n = Some t' \<and> ht_inv cls t' \<and> mset (ht_pairs t') = mset (ht_pairs t)
    \<and> ht_rest t' = ht_rest t \<and> ht_freed t' = ht_freed t"
proof -
  have "\<exists>m. (if n = 0 then HashTable_CalculateIdealNumOfBuckets t else Some n) = Some m \<and> 0 < m \<and> m \<le> INT_MAX"
    using HashTable_CalculateIdealNumOfBuckets_ok [of t] inv n by (fastforce simp: ht_inv_def)
  then obtain m where m: "(if n = 0 then HashTable_CalculateIdealNumOfBuckets t else Some n) = Some m"
    "0 < m" "m \<le> INT_MAX" by blast
  show ?thesis
  proof (cases "m = ht_numOfBuckets t \<or> \<not> mem")
    case True
    then show ?thesis using inv m by (auto simp: HashTable_Rehash_def)
  next
    case False
    have len: "ht_numOfBuckets t = int (length (ht_bucketArray t))" using inv by (simp add: ht_inv_def ht_placed_def)
    have "ht_placed (ht_hash t) m (replicate (nat m) [])" using m by (simp add: ht_placed_def)
    from ht_rehash_loop [OF this m(2,3) order_refl, of "ht_bucketArray t"] obtain arr where
      arr: "foldM (\<lambda>index arr. do { chain \<leftarrow> aget (ht_bucketArray t) index; foldM (ht_move (ht_hash t) m) chain arr })
        (map int [0..<length (ht_bucketArray t)]) (replicate (nat m) []) = Some arr"
      "ht_placed (ht_hash t) m arr" "mset (concat arr) = mset (ht_pairs t)"
      by (auto simp: ht_pairs_def)
    let ?t = "t\<lparr>ht_bucketArray := arr, ht_numOfBuckets := m\<rparr>"
    have run: "HashTable_Rehash mem t n = Some ?t"
      unfolding HashTable_Rehash_def using m False arr(1) by (simp add: len upto_int)
    have ms: "mset (ht_pairs ?t) = mset (ht_pairs t)" using arr(3) by (simp add: ht_pairs_def)
    have "length (ht_pairs ?t) = length (ht_pairs t)" using ms by (rule mset_eq_length)
    moreover have "mset (map (cls \<circ> kv_key) (ht_pairs ?t)) = mset (map (cls \<circ> kv_key) (ht_pairs t))" using ms by simp
    then have "distinct (map (cls \<circ> kv_key) (ht_pairs ?t)) = distinct (map (cls \<circ> kv_key) (ht_pairs t))"
      by (rule mset_eq_imp_distinct_iff)
    ultimately have "ht_inv cls ?t" using inv arr(2) m unfolding ht_inv_def ht_ratio_ok_def by simp
    moreover have "ht_rest ?t = ht_rest t" by (simp add: ht_rest_def)
    ultimately show ?thesis using run ms by simp
  qed
qed

section \<open>Walking a bucket\<close>

lemma ht_pos_None: "ht_pos P xs = None \<longleftrightarrow> (\<forall>x \<in> set xs. \<not> P x)"
  by (induction xs) auto

lemma ht_pos_Some: "ht_pos P xs = Some i \<Longrightarrow> i < length xs \<and> P (xs ! i)"
  by (induction xs arbitrary: i) (auto split: if_splits)

lemma ht_enter_simps [simp]:
  "ht_bucketArray (ht_enter t) = ht_bucketArray t" "ht_numOfBuckets (ht_enter t) = ht_numOfBuckets t"
  "ht_numOfElements (ht_enter t) = ht_numOfElements t" "ht_hash (ht_enter t) = ht_hash t"
  "ht_keyCompare (ht_enter t) = ht_keyCompare t" "ht_freed (ht_enter t) = ht_freed t"
  "ht_keyFree (ht_enter t) = ht_keyFree t" "ht_valueFree (ht_enter t) = ht_valueFree t"
  "ht_valueCompare (ht_enter t) = ht_valueCompare t"
  "ht_pairs (ht_enter t) = ht_pairs t" "ht_inv cls (ht_enter t) = ht_inv cls t"
  "ht_leave (ht_enter t) = t" "ht_walk (ht_enter t) = ht_walk t" "HashTable_Get (ht_enter t) = HashTable_Get t"
  by (simp_all add: ht_enter_def ht_leave_def ht_pairs_def ht_inv_def ht_ratio_ok_def ht_walk_def
      HashTable_Get_def fun_eq_iff)

lemma ht_leave_ok:
  assumes "ht_rest t' = ht_rest (ht_enter t)"
  shows "ht_rest (ht_leave t') = ht_rest t" "ht_inv cls (ht_leave t') = ht_inv cls t'"
    "ht_pairs (ht_leave t') = ht_pairs t'" "ht_freed (ht_leave t') = ht_freed t'"
    "ht_numOfElements (ht_leave t') = ht_numOfElements t'"
  using assms by (auto simp: ht_enter_def ht_leave_def ht_rest_def ht_inv_def ht_ratio_ok_def ht_pairs_def
      split: if_splits)

lemma ht_free_simps [simp]:
  "ht_free_key k t = t\<lparr>ht_freed := ht_freed t @ (if ht_keyFree t then [Inl k] else [])\<rparr>"
  "ht_free_value v t = t\<lparr>ht_freed := ht_freed t @ (if ht_valueFree t then [Inr v] else [])\<rparr>"
  by (simp_all add: ht_free_key_def ht_free_value_def)

text \<open>The bucket of a key holds every pair whose key is in its class.\<close>

lemma ht_walk_ok:
  assumes inv: "ht_inv cls t"
  obtains i where "i < length (ht_bucketArray t)"
    "ht_walk t key = Some (int i, ht_bucketArray t ! i,
      ht_pos (\<lambda>p. cls (kv_key p) = cls key) (ht_bucketArray t ! i))"
    "uint (ht_hash t key) mod ht_numOfBuckets t = int i"
    "\<forall>p \<in> set (ht_pairs t). cls (kv_key p) = cls key \<longrightarrow> p \<in> set (ht_bucketArray t ! i)"
proof -
  let ?n = "ht_numOfBuckets t" and ?arr = "ht_bucketArray t"
  have n: "0 < ?n" "?n \<le> INT_MAX" and len: "int (length ?arr) = ?n"
    and placed: "\<And>j p. j < length ?arr \<Longrightarrow> p \<in> set (?arr ! j) \<Longrightarrow> uint (ht_hash t (kv_key p)) mod ?n = int j"
    and funs: "ht_funs_ok cls (ht_hash t) (ht_keyCompare t)"
    using inv by (auto simp: ht_inv_def ht_placed_def)
  define i where "i = nat (uint (ht_hash t key) mod ?n)"
  have i: "uint (ht_hash t key) mod ?n = int i" using n(1) by (simp add: i_def)
  have "uint (ht_hash t key) mod ?n < ?n" using n(1) by simp
  then have lt: "i < length ?arr" using i len by simp
  have cmp: "ht_keyCompare t key = (\<lambda>k. cls k = cls key)"
    using funs by (auto simp: ht_funs_ok_def fun_eq_iff)
  have "ht_walk t key = Some (int i, ?arr ! i, ht_pos (\<lambda>p. cls (kv_key p) = cls key) (?arr ! i))"
    using i lt n by (simp add: ht_walk_def ht_slot_ok aget_int cmp)
  moreover have "p \<in> set (?arr ! i)" if p: "p \<in> set (ht_pairs t)" "cls (kv_key p) = cls key" for p
  proof -
    obtain c where "c \<in> set ?arr" and "p \<in> set c" using p(1) by (auto simp: ht_pairs_def)
    then obtain j where j: "j < length ?arr" "p \<in> set (?arr ! j)" by (metis in_set_conv_nth)
    have "ht_hash t (kv_key p) = ht_hash t key" using funs p(2) unfolding ht_funs_ok_def by blast
    then have "j = i" using placed [OF j] i by simp
    then show ?thesis using j by simp
  qed
  ultimately show thesis using that lt i by blast
qed

section \<open>Changing one bucket\<close>

lemma distinct_mset_cong: "mset xs = mset ys \<Longrightarrow> distinct xs = distinct ys"
  by (rule mset_eq_imp_distinct_iff)

lemma ht_inv_bucket:
  assumes inv: "ht_inv cls t" and i: "i < length (ht_bucketArray t)"
    and b: "\<forall>p \<in> set b. uint (ht_hash t (kv_key p)) mod ht_numOfBuckets t = int i"
    and t': "t' = t\<lparr>ht_bucketArray := (ht_bucketArray t)[i := b], ht_numOfElements := n, ht_freed := fr\<rparr>"
    and n: "n = int (length (ht_pairs t'))" "n \<le> INT_MAX"
    and d: "distinct (map (cls \<circ> kv_key) (ht_pairs t'))"
  shows "ht_inv cls t'"
proof -
  have "ht_placed (ht_hash t) (ht_numOfBuckets t) ((ht_bucketArray t)[i := b])"
    using ht_placed_update [OF _ i b] inv by (simp add: ht_inv_def)
  moreover have "n = int (length (concat ((ht_bucketArray t)[i := b])))"
    "distinct (map (cls \<circ> kv_key) (concat ((ht_bucketArray t)[i := b])))"
    using n(1) d t' by (simp_all add: ht_pairs_def)
  ultimately show ?thesis using inv n(2) unfolding t' ht_inv_def ht_ratio_ok_def ht_pairs_def by simp
qed

lemma distinct_map_other:
  assumes "distinct (map (cls \<circ> kv_key) (p # ps))"
  shows "\<forall>q \<in> set ps. cls (kv_key q) \<noteq> cls (kv_key p)"
proof -
  have "(cls \<circ> kv_key) p \<notin> (cls \<circ> kv_key) ` set ps" using assms by simp
  then show ?thesis by (metis comp_apply image_eqI)
qed

lemma ht_map_insert:
  assumes m: "ht_map cls t m" and inv: "ht_inv cls t'"
    and ms: "mset (ht_pairs t') = add_mset p (mset (ht_pairs t))"
  shows "ht_map cls t' (m(cls (kv_key p) \<mapsto> kv_value p))"
proof -
  have set: "set (ht_pairs t') = insert p (set (ht_pairs t))"
    using arg_cong [OF ms, of set_mset] by simp
  have "distinct (map (cls \<circ> kv_key) (p # ht_pairs t))"
    using inv distinct_mset_cong [of "map (cls \<circ> kv_key) (ht_pairs t')" "map (cls \<circ> kv_key) (p # ht_pairs t)"] ms
    by (simp add: ht_inv_def)
  then have "\<forall>q \<in> set (ht_pairs t). cls (kv_key q) \<noteq> cls (kv_key p)" by (rule distinct_map_other)
  then show ?thesis using m inv set by (auto simp: ht_map_def)
qed

lemma ht_map_delete:
  assumes m: "ht_map cls t m" and inv: "ht_inv cls t'"
    and ms: "mset (ht_pairs t) = add_mset p (mset (ht_pairs t'))"
  shows "ht_map cls t' (m(cls (kv_key p) := None))"
proof -
  have set: "set (ht_pairs t) = insert p (set (ht_pairs t'))"
    using arg_cong [OF ms, of set_mset] by simp
  have "distinct (map (cls \<circ> kv_key) (p # ht_pairs t'))"
    using m distinct_mset_cong [of "map (cls \<circ> kv_key) (ht_pairs t)" "map (cls \<circ> kv_key) (p # ht_pairs t')"] ms
    by (simp add: ht_map_def ht_inv_def)
  then have "\<forall>q \<in> set (ht_pairs t'). cls (kv_key q) \<noteq> cls (kv_key p)" by (rule distinct_map_other)
  then show ?thesis using m inv set by (auto simp: ht_map_def)
qed

lemma ht_map_lookup:
  assumes m: "ht_map cls t m" and p: "p \<in> set (ht_pairs t)"
  shows "m (cls (kv_key p)) = Some (kv_value p)"
  using assms by (auto simp: ht_map_def)

lemma ht_map_none:
  assumes m: "ht_map cls t m"
  shows "m c = None \<longleftrightarrow> (\<forall>p \<in> set (ht_pairs t). cls (kv_key p) \<noteq> c)"
proof -
  have "m c \<noteq> None \<longleftrightarrow> (\<exists>p \<in> set (ht_pairs t). cls (kv_key p) = c)"
    using m unfolding ht_map_def by (metis option.exhaust option.distinct(1))
  then show ?thesis by blast
qed

text \<open>What a walk finds, in terms of the map.\<close>

lemma ht_walk_map:
  assumes m: "ht_map cls t m"
  obtains (none) i where "i < length (ht_bucketArray t)" "m (cls key) = None"
      "ht_walk t key = Some (int i, ht_bucketArray t ! i, None)"
      "uint (ht_hash t key) mod ht_numOfBuckets t = int i"
  | (hit) i j where "i < length (ht_bucketArray t)" "j < length (ht_bucketArray t ! i)"
      "ht_walk t key = Some (int i, ht_bucketArray t ! i, Some j)"
      "cls (kv_key (ht_bucketArray t ! i ! j)) = cls key"
      "m (cls key) = Some (kv_value (ht_bucketArray t ! i ! j))"
      "uint (ht_hash t key) mod ht_numOfBuckets t = int i"
proof -
  have inv: "ht_inv cls t" using m by (simp add: ht_map_def)
  let ?P = "\<lambda>p. cls (kv_key p) = cls key"
  obtain i where i: "i < length (ht_bucketArray t)"
    "ht_walk t key = Some (int i, ht_bucketArray t ! i, ht_pos ?P (ht_bucketArray t ! i))"
    "uint (ht_hash t key) mod ht_numOfBuckets t = int i"
    "\<forall>p \<in> set (ht_pairs t). ?P p \<longrightarrow> p \<in> set (ht_bucketArray t ! i)"
    using ht_walk_ok [OF inv, of key] by metis
  have sub: "set (ht_bucketArray t ! i) \<subseteq> set (ht_pairs t)" using nth_mem [OF i(1)] by (auto simp: ht_pairs_def)
  show thesis
  proof (cases "ht_pos ?P (ht_bucketArray t ! i)")
    case None
    then have "\<forall>p \<in> set (ht_pairs t). \<not> ?P p" using i(4) by (auto simp: ht_pos_None)
    then show thesis using none i(1,2,3) None ht_map_none [OF m] by simp
  next
    case (Some j)
    then have j: "j < length (ht_bucketArray t ! i)" "?P (ht_bucketArray t ! i ! j)"
      using ht_pos_Some [OF Some] by simp_all
    moreover have "ht_bucketArray t ! i ! j \<in> set (ht_pairs t)" using j(1) sub nth_mem by blast
    ultimately show thesis using hit i(1,2,3) Some ht_map_lookup [OF m] by metis
  qed
qed

lemma HashTable_lookup_ok:
  assumes m: "ht_map cls t m"
  shows "HashTable_GetItemValue t key = Some (case m (cls key) of None \<Rightarrow> NULL | Some v \<Rightarrow> v, t)
    \<and> HashTable_Contains t key = Some (m (cls key) \<noteq> None, t)
    \<and> HashTable_ContainsKey t key = Some (m (cls key) \<noteq> None, t)"
  using m
  by (cases rule: ht_walk_map [where key = key])
    (auto simp: HashTable_GetItemValue_def HashTable_Contains_def HashTable_ContainsKey_def
      HashTable_Get_def Let_def aget_int)

section \<open>Adding, replacing and deleting one pair\<close>

lemma ht_invD:
  assumes "ht_inv cls t"
  shows "distinct (map (cls \<circ> kv_key) (ht_pairs t))" "ht_numOfElements t = int (length (ht_pairs t))"
    "ht_numOfElements t \<le> INT_MAX" "ht_placed (ht_hash t) (ht_numOfBuckets t) (ht_bucketArray t)"
    "ht_funs_ok cls (ht_hash t) (ht_keyCompare t)" "0 < ht_numOfBuckets t" "ht_numOfBuckets t \<le> INT_MAX"
  using assms by (simp_all add: ht_inv_def)

lemma mset_swap:
  assumes "M' + add_mset a B = add_mset a R + add_mset p B"
  shows "M' = add_mset p R"
proof -
  have "add_mset a R + add_mset p B = add_mset p R + add_mset a B" by (simp add: add_mset_commute)
  with assms have "M' + add_mset a B = add_mset p R + add_mset a B" by (rule trans)
  then show ?thesis by (rule add_right_imp_eq)
qed

lemma ht_map_same:
  assumes "ht_map cls t m" and "ht_inv cls t'" and "mset (ht_pairs t') = mset (ht_pairs t)"
  shows "ht_map cls t' m"
  using assms mset_eq_setD [OF assms(3)] by (simp add: ht_map_def)

lemma ht_insert_pair:
  assumes m: "ht_map cls t m" and i: "i < length (ht_bucketArray t)"
    and slot: "uint (ht_hash t (kv_key p)) mod ht_numOfBuckets t = int i"
    and new: "m (cls (kv_key p)) = None" and room: "ht_numOfElements t < INT_MAX"
  shows "ht_map cls (t\<lparr>ht_bucketArray := (ht_bucketArray t)[i := p # ht_bucketArray t ! i],
    ht_numOfElements := ht_numOfElements t + 1\<rparr>) (m(cls (kv_key p) \<mapsto> kv_value p))" (is "ht_map cls ?t _")
proof -
  have inv: "ht_inv cls t" using m by (simp add: ht_map_def)
  have ms: "mset (ht_pairs ?t) = add_mset p (mset (ht_pairs t))"
    using mset_concat_update [OF i, of "p # ht_bucketArray t ! i"] by (simp add: ht_pairs_def)
  have b: "\<forall>q \<in> set (p # ht_bucketArray t ! i). uint (ht_hash t (kv_key q)) mod ht_numOfBuckets t = int i"
    using ht_invD(4) [OF inv] slot i by (simp add: ht_placed_def)
  have t': "?t = t\<lparr>ht_bucketArray := (ht_bucketArray t)[i := p # ht_bucketArray t ! i],
    ht_numOfElements := ht_numOfElements t + 1, ht_freed := ht_freed t\<rparr>" by simp
  have n: "ht_numOfElements t + 1 = int (length (ht_pairs ?t))" "ht_numOfElements t + 1 \<le> INT_MAX"
    using ht_invD(2) [OF inv] arg_cong [OF ms, of size] room by simp_all
  have "mset (map (cls \<circ> kv_key) (ht_pairs ?t)) = mset (map (cls \<circ> kv_key) (p # ht_pairs t))" using ms by simp
  from distinct_mset_cong [OF this] have "distinct (map (cls \<circ> kv_key) (ht_pairs ?t))"
    using ht_invD(1) [OF inv] new ht_map_none [OF m] by auto
  from ht_map_insert [OF m ht_inv_bucket [OF inv i b t' n this] ms] show ?thesis .
qed

lemma ht_delete_pair:
  assumes m: "ht_map cls t m" and i: "i < length (ht_bucketArray t)" and j: "j < length (ht_bucketArray t ! i)"
  shows "ht_map cls (t\<lparr>ht_bucketArray := (ht_bucketArray t)[i := take j (ht_bucketArray t ! i) @ drop (Suc j) (ht_bucketArray t ! i)],
    ht_numOfElements := ht_numOfElements t - 1, ht_freed := fr\<rparr>)
    (m(cls (kv_key (ht_bucketArray t ! i ! j)) := None))" (is "ht_map cls ?t _")
proof -
  let ?b = "ht_bucketArray t ! i" and ?b' = "take j (ht_bucketArray t ! i) @ drop (Suc j) (ht_bucketArray t ! i)"
  have inv: "ht_inv cls t" using m by (simp add: ht_map_def)
  have "mset ?b = add_mset (?b ! j) (mset ?b')"
    by (subst id_take_nth_drop [OF j]) simp
  then have ms: "mset (ht_pairs t) = add_mset (?b ! j) (mset (ht_pairs ?t))"
    using mset_concat_update [OF i, of ?b'] by (simp add: ht_pairs_def)
  have b: "\<forall>q \<in> set ?b'. uint (ht_hash t (kv_key q)) mod ht_numOfBuckets t = int i"
    using ht_invD(4) [OF inv] i in_set_takeD [of _ j ?b] in_set_dropD [of _ "Suc j" ?b]
    by (auto simp: ht_placed_def)
  have n: "ht_numOfElements t - 1 = int (length (ht_pairs ?t))" "ht_numOfElements t - 1 \<le> INT_MAX"
    using ht_invD(2,3) [OF inv] arg_cong [OF ms, of size] by simp_all
  have "mset (map (cls \<circ> kv_key) (ht_pairs t)) = mset (map (cls \<circ> kv_key) (?b ! j # ht_pairs ?t))" using ms by simp
  from distinct_mset_cong [OF this] have "distinct (map (cls \<circ> kv_key) (ht_pairs ?t))"
    using ht_invD(1) [OF inv] by (simp only: list.simps distinct.simps simp_thms)
  from ht_map_delete [OF m ht_inv_bucket [OF inv i b refl n this] ms] show ?thesis .
qed

lemma ht_replace_pair:
  assumes m: "ht_map cls t m" and i: "i < length (ht_bucketArray t)" and j: "j < length (ht_bucketArray t ! i)"
    and key: "cls (kv_key p) = cls (kv_key (ht_bucketArray t ! i ! j))"
  shows "ht_map cls (t\<lparr>ht_bucketArray := (ht_bucketArray t)[i := (ht_bucketArray t ! i)[j := p]], ht_freed := fr\<rparr>)
    (m(cls (kv_key p) \<mapsto> kv_value p))" (is "ht_map cls ?t _")
proof -
  let ?b = "ht_bucketArray t ! i"
  define R where "R = remove1 (?b ! j) (ht_pairs t)"
  define B where "B = mset ?b - {#?b ! j#}"
  have inv: "ht_inv cls t" using m by (simp add: ht_map_def)
  have "?b ! j \<in> set (ht_pairs t)" using nth_mem [OF i] nth_mem [OF j] by (auto simp: ht_pairs_def)
  then have old: "mset (ht_pairs t) = add_mset (?b ! j) (mset R)" by (simp add: R_def)
  have "mset ?b = add_mset (?b ! j) B" "mset (?b[j := p]) = add_mset p B"
    using j by (simp_all add: B_def mset_update)
  then have "mset (ht_pairs ?t) + add_mset (?b ! j) B = add_mset (?b ! j) (mset R) + add_mset p B"
    using mset_concat_update [OF i, of "?b[j := p]"] old by (simp only: ht_pairs_def) simp
  then have new: "mset (ht_pairs ?t) = add_mset p (mset R)" by (rule mset_swap)
  have "mset (map (cls \<circ> kv_key) (ht_pairs t)) = mset (map (cls \<circ> kv_key) (?b ! j # R))" using old by simp
  from distinct_mset_cong [OF this] have "distinct (map (cls \<circ> kv_key) (?b ! j # R))"
    using ht_invD(1) [OF inv] by simp
  then have dR: "distinct (map (cls \<circ> kv_key) (p # R))" using key by simp
  have "mset (map (cls \<circ> kv_key) (ht_pairs ?t)) = mset (map (cls \<circ> kv_key) (p # R))" using new by simp
  from distinct_mset_cong [OF this] dR have d: "distinct (map (cls \<circ> kv_key) (ht_pairs ?t))" by simp
  have t': "?t = t\<lparr>ht_bucketArray := (ht_bucketArray t)[i := ?b[j := p]],
    ht_numOfElements := ht_numOfElements t, ht_freed := fr\<rparr>" by simp
  have n: "ht_numOfElements t = int (length (ht_pairs ?t))" "ht_numOfElements t \<le> INT_MAX"
    using arg_cong [OF old, of size] arg_cong [OF new, of size] ht_invD(2,3) [OF inv] by simp_all
  have b0: "uint (ht_hash t (kv_key q)) mod ht_numOfBuckets t = int i" if "q \<in> set ?b" for q
    using ht_invD(4) [OF inv] i that by (simp add: ht_placed_def)
  have "ht_hash t (kv_key p) = ht_hash t (kv_key (?b ! j))"
    using ht_invD(5) [OF inv] key unfolding ht_funs_ok_def by blast
  then have "uint (ht_hash t (kv_key p)) mod ht_numOfBuckets t = int i" using b0 [OF nth_mem [OF j]] by simp
  then have b: "\<forall>q \<in> set (?b[j := p]). uint (ht_hash t (kv_key q)) mod ht_numOfBuckets t = int i"
    using b0 set_update_subset_insert [of ?b j p] by blast
  note inv' = ht_inv_bucket [OF inv i b t' n d]
  have set: "set (ht_pairs t) = insert (?b ! j) (set R)" "set (ht_pairs ?t) = insert p (set R)"
    using arg_cong [OF old, of set_mset] arg_cong [OF new, of set_mset] by simp_all
  have other: "\<forall>q \<in> set R. cls (kv_key q) \<noteq> cls (kv_key p)" using dR by (rule distinct_map_other)
  have "(m(cls (kv_key p) \<mapsto> kv_value p)) c = Some v \<longleftrightarrow>
      (\<exists>q \<in> set (ht_pairs ?t). cls (kv_key q) = c \<and> kv_value q = v)" for c v
    using m other key unfolding set ht_map_def by auto
  then show ?thesis using inv' by (simp only: ht_map_def simp_thms)
qed

section \<open>The operations on the map\<close>

lemma ht_map_enter: "ht_map cls (ht_enter t) m = ht_map cls t m"
  by (simp add: ht_map_def)

lemma ht_map_leave:
  assumes "ht_rest t' = ht_rest (ht_enter t)"
  shows "ht_map cls (ht_leave t') m = ht_map cls t' m"
  unfolding ht_map_def ht_leave_ok [OF assms] ..

text \<open>The rehash that \<open>HashTable_Add\<close> and \<open>HashTable_Remove\<close> may end with.\<close>

lemma ht_rehash_map:
  assumes "ht_map cls t m"
  shows "\<exists>t'. (if b then if c then HashTable_Rehash mem t 0 else Some t else Some t) = Some t'
    \<and> ht_map cls t' m \<and> ht_rest t' = ht_rest t \<and> ht_freed t' = ht_freed t"
proof -
  have "ht_inv cls t" using assms by (simp add: ht_map_def)
  from HashTable_Rehash_ok [OF this, of 0 mem] obtain t' where
    "HashTable_Rehash mem t 0 = Some t'" "ht_inv cls t'" "mset (ht_pairs t') = mset (ht_pairs t)"
    "ht_rest t' = ht_rest t" "ht_freed t' = ht_freed t" by auto
  with ht_map_same [OF assms] assms show ?thesis by auto
qed

lemma HashTable_Add_ok:
  assumes m: "ht_map cls t m"
    and key: "key0 \<noteq> NULL" "key = (if ht_keyClone t then ck else key0)" "key \<noteq> NULL"
    and val: "value0 \<noteq> NULL" "value = (if ht_valueClone t then cv else value0)" "value \<noteq> NULL"
    and room: "ht_numOfElements t < INT_MAX"
  shows "\<exists>t'. HashTable_Add rnd ck cv True memr t key0 value0 = Some (0, t')
    \<and> ht_map cls t' (m(cls key \<mapsto> value)) \<and> ht_rest t' = ht_rest t
    \<and> (m (cls key) = None \<longrightarrow> ht_freed t' = ht_freed t)"
proof -
  let ?e = "ht_enter t" and ?p = "\<lparr>kv_key = key, kv_value = value\<rparr>"
  have m': "ht_map cls ?e m" using m by (simp add: ht_map_enter)
  have body: "HashTable_Add rnd ck cv True memr t key0 value0 =
      do { (status, t) \<leftarrow> ht_add_pair rnd True memr ?e key value; Some (status, ht_leave t) }"
    using key(1) val(1) key(3) val(3) by (simp add: HashTable_Add_def Let_def flip: key(2) val(2))
  show ?thesis
    using m
  proof (cases rule: ht_walk_map [where key = key])
    case (none i)
    let ?t = "?e\<lparr>ht_bucketArray := (ht_bucketArray t)[i := ?p # ht_bucketArray t ! i],
      ht_numOfElements := ht_numOfElements t + 1\<rparr>"
    have t1: "ht_map cls ?t (m(cls key \<mapsto> value))"
      using ht_insert_pair [OF m', of i ?p] none(1,2,4) room by simp
    obtain t2 where t2: "(if ht_upperRehashThreshold ?t > ht_idealRatio ?t
        then if ht_ratio rnd ?t > ht_upperRehashThreshold ?t then HashTable_Rehash memr ?t 0 else Some ?t
        else Some ?t) = Some t2" "ht_map cls t2 (m(cls key \<mapsto> value))" "ht_rest t2 = ht_rest ?t" "ht_freed t2 = ht_freed ?t"
      using ht_rehash_map [OF t1] by blast
    have rest: "ht_rest t2 = ht_rest ?e" "ht_freed t2 = ht_freed t" using t2(3,4) by (simp_all add: ht_rest_def)
    have c: "cint (ht_numOfElements t + 1) = Some (ht_numOfElements t + 1)"
      using room ht_invD(2) [of cls t] m by (intro cint_Some) (simp_all add: ht_map_def)
    have "HashTable_Add rnd ck cv True memr t key0 value0 = Some (0, ht_leave t2)"
      unfolding body ht_add_pair_def Let_def using none(1,3) c t2(1) by (simp add: aset_def)
    then show ?thesis using ht_map_leave [OF rest(1), of cls] ht_leave_ok [OF rest(1)] t2(2) rest(2) by simp
  next
    case (hit i j)
    let ?b = "ht_bucketArray t ! i"
    define fr where "fr = ht_freed t @ (if kv_key (?b ! j) \<noteq> key \<and> ht_keyFree t then [Inl (kv_key (?b ! j))] else [])
      @ (if kv_value (?b ! j) \<noteq> value \<and> ht_valueFree t then [Inr (kv_value (?b ! j))] else [])"
    let ?t = "?e\<lparr>ht_freed := fr, ht_bucketArray := (ht_bucketArray t)[i := ?b[j := ?p]]\<rparr>"
    have swap: "?t = ?e\<lparr>ht_bucketArray := (ht_bucketArray t)[i := ?b[j := ?p]], ht_freed := fr\<rparr>" by simp
    have t1: "ht_map cls ?t (m(cls key \<mapsto> value))"
      unfolding swap using ht_replace_pair [OF m', of i j ?p fr] hit(1,2,4) by simp
    have rest: "ht_rest ?t = ht_rest ?e" by (simp add: ht_rest_def)
    have e: "?e\<lparr>ht_freed := ht_freed t\<rparr> = ?e" by (simp add: ht_enter_def)
    have free: "(if kv_value (?b ! j) \<noteq> value
        then ht_free_value (kv_value (?b ! j)) (if kv_key (?b ! j) \<noteq> key then ht_free_key (kv_key (?b ! j)) ?e else ?e)
        else if kv_key (?b ! j) \<noteq> key then ht_free_key (kv_key (?b ! j)) ?e else ?e) = ?e\<lparr>ht_freed := fr\<rparr>"
      by (simp add: fr_def e)
    have "HashTable_Add rnd ck cv True memr t key0 value0 = Some (0, ht_leave ?t)"
      unfolding body ht_add_pair_def Let_def using hit(1,3) by (simp add: aset_def free del: ht_free_simps)
    then show ?thesis using ht_map_leave [OF rest, of cls] ht_leave_ok [OF rest] t1 hit(5) by simp
  qed
qed

lemma HashTable_Remove_ok:
  assumes m: "ht_map cls t m"
  shows "\<exists>t'. HashTable_Remove rnd memr t key = Some (m (cls key) \<noteq> None, t')
    \<and> ht_map cls t' (m(cls key := None)) \<and> ht_rest t' = ht_rest t
    \<and> (case m (cls key) of None \<Rightarrow> t' = t
       | Some v \<Rightarrow> \<exists>k. cls k = cls key \<and> ht_freed t' = ht_freed t @ (if ht_keyFree t then [Inl k] else [])
           @ (if ht_valueFree t then [Inr v] else []))"
proof -
  let ?e = "ht_enter t"
  have m': "ht_map cls ?e m" using m by (simp add: ht_map_enter)
  show ?thesis
    using m
  proof (cases rule: ht_walk_map [where key = key])
    case (none i)
    have "HashTable_Remove rnd memr t key = Some (False, t)"
      unfolding HashTable_Remove_def Let_def using none(3) by simp
    then show ?thesis using none(2) m by (simp add: fun_upd_idem)
  next
    case (hit i j)
    let ?b = "ht_bucketArray t ! i"
    define fr where "fr = ht_freed t @ (if ht_keyFree t then [Inl (kv_key (?b ! j))] else [])
      @ (if ht_valueFree t then [Inr (kv_value (?b ! j))] else [])"
    let ?t = "?e\<lparr>ht_freed := fr, ht_bucketArray := (ht_bucketArray t)[i := take j ?b @ drop (Suc j) ?b],
      ht_numOfElements := ht_numOfElements t - 1\<rparr>"
    have "?t = ?e\<lparr>ht_bucketArray := (ht_bucketArray ?e)[i := take j ?b @ drop (Suc j) ?b],
      ht_numOfElements := ht_numOfElements ?e - 1, ht_freed := fr\<rparr>" by simp
    with ht_delete_pair [OF m', of i j fr] hit(1,2,4) have t1: "ht_map cls ?t (m(cls key := None))"
      by (simp only: ht_enter_simps)
    obtain t2 where t2: "(if ht_lowerRehashThreshold ?t > 0
        then if ht_ratio rnd ?t < ht_lowerRehashThreshold ?t then HashTable_Rehash memr ?t 0 else Some ?t
        else Some ?t) = Some t2" "ht_map cls t2 (m(cls key := None))" "ht_rest t2 = ht_rest ?t" "ht_freed t2 = ht_freed ?t"
      using ht_rehash_map [OF t1] by blast
    have rest: "ht_rest t2 = ht_rest ?e" "ht_freed t2 = fr" using t2(3,4) by (simp_all add: ht_rest_def)
    have c: "cint (ht_numOfElements t - 1) = Some (ht_numOfElements t - 1)"
      using ht_invD(2,3) [of cls t] m by (intro cint_Some) (simp_all add: ht_map_def)
    have free: "ht_free_value (kv_value (?b ! j)) (ht_free_key (kv_key (?b ! j)) ?e) = ?e\<lparr>ht_freed := fr\<rparr>"
      by (simp add: fr_def)
    have "HashTable_Remove rnd memr t key = Some (True, ht_leave t2)"
      unfolding HashTable_Remove_def Let_def using hit(1,3) c t2(1)
      by (auto simp: aset_def free simp del: ht_free_simps split: if_splits)
    then show ?thesis using ht_map_leave [OF rest(1), of cls] ht_leave_ok [OF rest(1)] t2(2) rest(2) hit(4,5)
      by (auto simp: fr_def)
  qed
qed

lemma HashTable_SetItemValue_ok:
  assumes m: "ht_map cls t m"
    and val: "v = (if ht_valueClone t \<and> value0 \<noteq> NULL then cv else value0)"
      "ht_valueClone t \<and> value0 \<noteq> NULL \<Longrightarrow> cv \<noteq> NULL"
  shows "\<exists>t'. HashTable_SetItemValue cv t key value0 = Some (m (cls key) \<noteq> None, t')
    \<and> ht_map cls t' (if m (cls key) = None then m else m(cls key \<mapsto> v)) \<and> ht_rest t' = ht_rest t
    \<and> ht_freed t' = ht_freed t"
proof -
  let ?e = "ht_enter t"
  have m': "ht_map cls ?e m" using m by (simp add: ht_map_enter)
  have body: "HashTable_SetItemValue cv t key value0 = do {
      pair \<leftarrow> HashTable_Get t key;
      (status, t) \<leftarrow> (case pair of None \<Rightarrow> Some (False, ?e)
        | Some (b, pos) \<Rightarrow> do {
            chain \<leftarrow> aget (ht_bucketArray ?e) b;
            arr \<leftarrow> aset (ht_bucketArray ?e) b (chain[pos := (chain ! pos)\<lparr>kv_value := v\<rparr>]);
            Some (True, ?e\<lparr>ht_bucketArray := arr\<rparr>) });
      Some (status, ht_leave t) }"
  proof -
    have "\<not> (ht_valueClone t \<and> value0 \<noteq> NULL \<and> v = NULL)" using val by auto
    then show ?thesis by (simp only: HashTable_SetItemValue_def Let_def HashTable_Get_def ht_enter_simps
      if_False flip: val(1))
  qed
  show ?thesis
    using m
  proof (cases rule: ht_walk_map [where key = key])
    case (none i)
    then show ?thesis unfolding body HashTable_Get_def using m by simp
  next
    case (hit i j)
    let ?b = "ht_bucketArray t ! i"
    let ?t = "?e\<lparr>ht_bucketArray := (ht_bucketArray t)[i := ?b[j := (?b ! j)\<lparr>kv_value := v\<rparr>]]\<rparr>"
    have "?t = ?e\<lparr>ht_bucketArray := (ht_bucketArray t)[i := ?b[j := (?b ! j)\<lparr>kv_value := v\<rparr>]],
      ht_freed := ht_freed t\<rparr>" by (simp add: ht_enter_def)
    moreover have "ht_map cls (?e\<lparr>ht_bucketArray := (ht_bucketArray t)[i := ?b[j := (?b ! j)\<lparr>kv_value := v\<rparr>]],
      ht_freed := ht_freed t\<rparr>) (m(cls key \<mapsto> v))"
      using ht_replace_pair [OF m', of i j "(?b ! j)\<lparr>kv_value := v\<rparr>" "ht_freed t"] hit(1,2,4) by simp
    ultimately have t1: "ht_map cls ?t (m(cls key \<mapsto> v))" by (simp only:)
    have rest: "ht_rest ?t = ht_rest ?e" by (simp add: ht_rest_def)
    have "HashTable_SetItemValue cv t key value0 = Some (True, ht_leave ?t)"
      unfolding body HashTable_Get_def using hit(1,3) by (simp add: aset_def aget_int)
    then show ?thesis using ht_map_leave [OF rest, of cls] ht_leave_ok [OF rest] t1 hit(5) by simp
  qed
qed

section \<open>Operations over all buckets\<close>

lemma foldM_buckets:
  "k \<le> length bs \<Longrightarrow> foldM (\<lambda>index s. do { chain \<leftarrow> aget bs index; foldM f chain s }) (map int [0..<k]) s =
    foldM f (concat (take k bs)) s"
proof (induction k arbitrary: s)
  case (Suc k)
  then show ?case by (simp add: foldM_append aget_int take_Suc_conv_app_nth foldM_Nil_fun)
qed simp

definition ht_callbacks :: "wHashTable \<Rightarrow> wKeyValuePair list \<Rightarrow> (ptr + ptr) list" where
  "ht_callbacks t ps = concat (map (\<lambda>p. (if ht_keyFree t then [Inl (kv_key p)] else [])
     @ (if ht_valueFree t then [Inr (kv_value p)] else [])) ps)"

lemma ht_free_chain_ok: "ht_free_chain ps t = t\<lparr>ht_freed := ht_freed t @ ht_callbacks t ps\<rparr>"
  unfolding ht_free_chain_def
  by (induction ps arbitrary: t) (simp_all add: ht_callbacks_def)

lemma ht_callbacks_append: "ht_callbacks t (ps @ qs) = ht_callbacks t ps @ ht_callbacks t qs"
  by (simp add: ht_callbacks_def)

lemma ht_callbacks_upd [simp]:
  "ht_callbacks (t\<lparr>ht_freed := fr\<rparr>) ps = ht_callbacks t ps"
  "ht_callbacks (t\<lparr>ht_bucketArray := arr\<rparr>) ps = ht_callbacks t ps"
  "ht_callbacks (ht_enter t) ps = ht_callbacks t ps"
  by (simp_all add: ht_callbacks_def)

lemma ht_clear_loop:
  assumes "k \<le> length (ht_bucketArray t)"
  shows "foldM (\<lambda>index t. do {
      chain \<leftarrow> aget (ht_bucketArray t) index;
      let t = ht_free_chain chain t;
      arr \<leftarrow> aset (ht_bucketArray t) index [];
      Some (t\<lparr>ht_bucketArray := arr\<rparr>) }) (map int [0..<k]) t =
    Some (t\<lparr>ht_freed := ht_freed t @ ht_callbacks t (concat (take k (ht_bucketArray t))),
      ht_bucketArray := replicate k [] @ drop k (ht_bucketArray t)\<rparr>)"
  using assms
proof (induction k)
  case 0
  then show ?case by (simp add: ht_callbacks_def)
next
  case (Suc k)
  then have k: "k < length (ht_bucketArray t)" by simp
  with Suc.IH show ?case
    by (simp add: foldM_append aget_def aset_def take_Suc_conv_app_nth nth_append ht_free_chain_ok
        ht_callbacks_append list_update_append replicate_append_same [symmetric]
        Cons_nth_drop_Suc [symmetric] Let_def del: replicate_append_same)
qed

lemma HashTable_Clear_ok:
  assumes inv: "ht_inv cls t"
  shows "\<exists>t'. HashTable_Clear mem t = Some t' \<and> ht_map cls t' Map.empty \<and> ht_rest t' = ht_rest t
    \<and> ht_numOfElements t' = 0 \<and> ht_freed t' = ht_freed t @ ht_callbacks t (ht_pairs t)"
proof -
  let ?e = "ht_enter t" and ?n = "length (ht_bucketArray t)"
  have inv': "ht_inv cls ?e" using inv by simp
  have len: "ht_numOfBuckets t = int ?n" using ht_invD(4) [OF inv] by (simp add: ht_placed_def)
  let ?t = "?e\<lparr>ht_freed := ht_freed t @ ht_callbacks t (ht_pairs t), ht_bucketArray := replicate ?n [],
    ht_numOfElements := 0\<rparr>"
  have "ht_inv cls ?t"
    using inv' len by (simp add: ht_inv_def ht_pairs_def ht_ratio_ok_def ht_placed_def)
  then obtain t1 where t1: "HashTable_Rehash mem ?t 5 = Some t1" "ht_inv cls t1" "mset (ht_pairs t1) = mset (ht_pairs ?t)"
    "ht_rest t1 = ht_rest ?t" "ht_freed t1 = ht_freed ?t"
    using HashTable_Rehash_ok [of cls ?t 5 mem] by auto
  have no: "ht_pairs t1 = []" using t1(3) by (simp add: ht_pairs_def)
  have rest: "ht_rest t1 = ht_rest ?e" using t1(4) by (simp add: ht_rest_def)
  have "HashTable_Clear mem t = Some (ht_leave t1)"
    unfolding HashTable_Clear_def Let_def
    using ht_clear_loop [of ?n ?e, unfolded Let_def] t1(1) by (simp add: len upto_int ht_pairs_def)
  moreover have "ht_map cls t1 Map.empty" using t1(2) no by (simp add: ht_map_def)
  ultimately show ?thesis
    using ht_map_leave [OF rest, of cls] ht_leave_ok [OF rest] t1(5) ht_invD(2) [OF t1(2)] no by simp
qed

lemma HashTable_Free_ok:
  assumes inv: "ht_inv cls t"
  shows "HashTable_Free (Some t) = Some (ht_freed t @ ht_callbacks t (ht_pairs t))"
proof -
  let ?n = "length (ht_bucketArray t)"
  have len: "ht_numOfBuckets t = int ?n" using ht_invD(4) [OF inv] by (simp add: ht_placed_def)
  have "foldM (\<lambda>index t. do { chain \<leftarrow> aget (ht_bucketArray t) index; Some (ht_free_chain chain t) })
      (map int [0..<k]) t = Some (t\<lparr>ht_freed := ht_freed t @ ht_callbacks t (concat (take k (ht_bucketArray t)))\<rparr>)"
    if "k \<le> ?n" for k
    using that
  proof (induction k)
    case 0
    then show ?case by (simp add: ht_callbacks_def)
  next
    case (Suc k)
    then show ?case
      by (simp add: foldM_append aget_int take_Suc_conv_app_nth ht_free_chain_ok ht_callbacks_append)
  qed
  from this [OF order_refl] show ?thesis by (simp add: HashTable_Free_def len upto_int ht_pairs_def)
qed

lemma HashTable_ContainsValue_ok:
  assumes inv: "ht_inv cls t"
  shows "HashTable_ContainsValue t value =
    Some (\<exists>p \<in> set (ht_pairs t). ht_valueCompare t value (kv_value p), t)"
proof -
  let ?P = "\<lambda>chain. ht_pos (\<lambda>pair. ht_valueCompare t value (kv_value pair)) chain \<noteq> None"
  have len: "ht_numOfBuckets t = int (length (ht_bucketArray t))"
    using ht_invD(4) [OF inv] by (simp add: ht_placed_def)
  have "first_index ?P (ht_bucketArray t) (length (ht_bucketArray t)) \<noteq> None \<longleftrightarrow>
      (\<exists>p \<in> set (ht_pairs t). ht_valueCompare t value (kv_value p))"
    using first_index_ex [OF order_refl, of ?P "ht_bucketArray t"] by (auto simp: ht_pairs_def ht_pos_None)
  then show ?thesis
    using searchM_array [OF order_refl, of "ht_bucketArray t" ?P]
    by (simp add: HashTable_ContainsValue_def Let_def len)
qed

lemma ht_keys_chain:
  assumes "k + length ps \<le> length buf" and "int (length buf) \<le> INT_MAX"
  shows "foldM (\<lambda>pair (iKey, pKeys). do {
      pKeys \<leftarrow> aset pKeys iKey (kv_key pair);
      iKey \<leftarrow> cint (iKey + 1);
      Some (iKey, pKeys) }) ps (int k, buf) =
    Some (int (k + length ps), take k buf @ map kv_key ps @ drop (k + length ps) buf)"
  using assms
proof (induction ps arbitrary: k buf)
  case (Cons p ps)
  have lt: "k < length buf" using Cons.prems(1) by simp
  have "cint (int k + 1) = Some (int (Suc k))" using lt Cons.prems(2) by (simp add: cint_Some)
  moreover have "take (Suc k) (buf[k := kv_key p]) = take k buf @ [kv_key p]"
    using lt by (simp add: take_Suc_conv_app_nth)
  ultimately show ?case using Cons.IH [of "Suc k" "buf[k := kv_key p]"] Cons.prems lt
    by (simp add: aset_def)
qed simp

lemma HashTable_GetKeys_ok:
  assumes inv: "ht_inv cls t"
  shows "HashTable_GetKeys True t = Some (ht_numOfElements t,
    if ht_pairs t = [] then None else Some (map kv_key (ht_pairs t)), t)"
proof -
  let ?n = "length (ht_bucketArray t)" and ?c = "length (ht_pairs t)"
  have len: "ht_numOfBuckets t = int ?n" using ht_invD(4) [OF inv] by (simp add: ht_placed_def)
  have count: "ht_numOfElements t = int ?c" "int ?c \<le> INT_MAX" using ht_invD(2,3) [OF inv] by simp_all
  show ?thesis
  proof (cases "ht_pairs t = []")
    case True
    then show ?thesis using count by (simp add: HashTable_GetKeys_def Let_def)
  next
    case False
    then have "\<not> ht_numOfElements t < 1" using count by (cases "ht_pairs t") auto
    moreover have "foldM (\<lambda>index s. do {
           chain \<leftarrow> aget (ht_bucketArray t) index;
           foldM (\<lambda>pair (iKey, pKeys). do {
             pKeys \<leftarrow> aset pKeys iKey (kv_key pair);
             iKey \<leftarrow> cint (iKey + 1);
             Some (iKey, pKeys) }) chain s }) (map int [0..<?n]) (int 0, replicate ?c 0) =
        Some (int ?c, map kv_key (ht_pairs t))"
      using ht_keys_chain [of 0 "ht_pairs t" "replicate ?c 0"] count(2)
      by (subst foldM_buckets [OF order_refl]) (simp add: ht_pairs_def)
    ultimately show ?thesis using False count(1)
      by (simp add: HashTable_GetKeys_def Let_def len upto_int)
  qed
qed

section \<open>The dictionary contract\<close>

type_synonym ht_env = "ptr \<times> ptr \<times> bool"

text \<open>
  \<open>HashTable_Add\<close> with memory for the pair; the environment names what the clone callbacks return and
  whether a rehash gets memory.
\<close>

definition ht_put :: "(rat \<Rightarrow> rat) \<Rightarrow> ht_env \<Rightarrow> ptr \<Rightarrow> ptr \<Rightarrow> wHashTable \<Rightarrow> wHashTable option" where
  "ht_put rnd e k v t = (case e of (ck, cv, memr) \<Rightarrow>
     map_option snd (HashTable_Add rnd ck cv True memr t k v))"

definition ht_del :: "(rat \<Rightarrow> rat) \<Rightarrow> bool \<Rightarrow> ptr \<Rightarrow> wHashTable \<Rightarrow> wHashTable option" where
  "ht_del rnd memr k t = map_option snd (HashTable_Remove rnd memr t k)"

definition ht_get :: "ptr \<Rightarrow> wHashTable \<Rightarrow> (ptr \<times> wHashTable) option" where
  "ht_get k t = HashTable_GetItemValue t k"

definition ht_room :: "(ptr \<Rightarrow> 'c) \<Rightarrow> ht_env \<Rightarrow> ptr \<Rightarrow> ptr \<Rightarrow> wHashTable \<Rightarrow> bool" where
  "ht_room cls e k v t \<longleftrightarrow> (case e of (ck, cv, memr) \<Rightarrow> k \<noteq> NULL \<and> v \<noteq> NULL
     \<and> (ht_keyClone t \<longrightarrow> ck \<noteq> NULL \<and> cls ck = cls k) \<and> \<not> ht_valueClone t \<and> ht_numOfElements t < INT_MAX)"

interpretation ht: replacing_dictionary "ht_put rnd" "ht_del rnd memr" ht_get cls NULL "ht_map cls" "ht_room cls"
  for rnd memr and cls :: "ptr \<Rightarrow> 'c"
proof -
  have put: "\<exists>t'. ht_put rnd e k v t = Some t' \<and> ht_map cls t' (m(cls k \<mapsto> v))"
    if m: "ht_map cls t m" and room: "ht_room cls e k v t" for t m e k v
  proof -
    obtain ck cv memr where e: "e = (ck, cv, memr)" by (cases e)
    define key where "key = (if ht_keyClone t then ck else k)"
    have "cls key = cls k" and "key \<noteq> NULL" "k \<noteq> NULL" "v \<noteq> NULL" "\<not> ht_valueClone t"
      "ht_numOfElements t < INT_MAX" using room by (auto simp: e key_def ht_room_def)
    then show ?thesis using HashTable_Add_ok [OF m _ key_def, of v v cv rnd memr]
      by (auto simp: e ht_put_def)
  qed
  show "replacing_dictionary (ht_put rnd) (ht_del rnd memr) ht_get cls NULL (ht_map cls) (ht_room cls)"
  proof unfold_locales
    fix t m e k v
    assume "ht_map cls t m" and "ht_room cls e k v t"
    from put [OF this] show "\<exists>d'. ht_put rnd e k v t = Some d' \<and> ht_map cls d' (m(cls k \<mapsto> v))" .
  next
    fix t m e k v
    assume "ht_map cls t m" and "ht_room cls e k v t"
    from put [OF this] show "\<exists>d'. ht_put rnd e k v t = Some d' \<and> ht_map cls d' (m(cls k \<mapsto> v))" .
  next
    fix t m k
    assume "ht_map cls t m"
    from HashTable_Remove_ok [OF this, of rnd memr k]
    show "\<exists>d'. ht_del rnd memr k t = Some d' \<and> ht_map cls d' (m(cls k := None))"
      by (auto simp: ht_del_def)
  next
    fix t m k
    assume "ht_map cls t m"
    from HashTable_lookup_ok [OF this, of k]
    show "ht_get k t = Some (case m (cls k) of None \<Rightarrow> NULL | Some v \<Rightarrow> v, t)"
      by (simp add: ht_get_def)
  qed
qed

section \<open>Tables with string keys\<close>

definition c_string :: "(ptr \<Rightarrow> byte list) \<Rightarrow> ptr \<Rightarrow> byte list option" where
  "c_string mem p = (if p = NULL then None else Some (takeWhile (\<lambda>c. c \<noteq> 0) (mem p)))"

lemma strcmp_eq_ok:
  "0 \<in> set as \<Longrightarrow> 0 \<in> set bs \<Longrightarrow>
    strcmp_eq as bs = Some (takeWhile (\<lambda>c. c \<noteq> 0) as = takeWhile (\<lambda>c. c \<noteq> 0) bs)"
  by (induction as bs rule: strcmp_eq.induct) auto

lemma ht_string_hash_loop_ok:
  "0 \<in> set as \<Longrightarrow> ht_string_hash_loop as h =
    Some (fold (\<lambda>c h. h * 33 + ucast c) (takeWhile (\<lambda>c. c \<noteq> 0) as) h)"
  by (induction as h rule: ht_string_hash_loop.induct) auto

text \<open>A table whose callbacks are those for strings in the memory \<open>mem\<close>.\<close>

definition ht_string_table :: "(ptr \<Rightarrow> byte list) \<Rightarrow> wHashTable \<Rightarrow> wHashTable" where
  "ht_string_table mem t = t\<lparr>ht_hash := (\<lambda>p. if p = NULL then 0 else the (HashTable_StringHash mem p)),
     ht_keyCompare := (\<lambda>p q. the (HashTable_StringCompare mem p q))\<rparr>"

lemma ht_string_funs:
  assumes "\<And>p. p \<noteq> NULL \<Longrightarrow> 0 \<in> set (mem p)"
  shows "ht_funs_ok (c_string mem) (ht_hash (ht_string_table mem t)) (ht_keyCompare (ht_string_table mem t))"
proof -
  have cmp: "the (HashTable_StringCompare mem p q) = (c_string mem p = c_string mem q)" for p q
    using assms by (auto simp: HashTable_StringCompare_def c_string_def strcmp_eq_ok)
  have hash: "(if p = NULL then 0 else the (HashTable_StringHash mem p)) =
      (case c_string mem p of None \<Rightarrow> 0 | Some s \<Rightarrow> fold (\<lambda>c h. h * 33 + ucast c) s 5381)" for p
    using assms by (simp add: HashTable_StringHash_def c_string_def ht_string_hash_loop_ok)
  show ?thesis unfolding ht_funs_ok_def ht_string_table_def by (simp add: cmp hash)
qed

lemma ht_New_inv:
  assumes "HashTable_New True True sync = Some t0"
    and "t = t0\<lparr>ht_hash := hash, ht_keyCompare := compare\<rparr>" and "ht_funs_ok cls hash compare"
  shows "ht_map cls t Map.empty \<and> \<not> ht_keyClone t \<and> \<not> ht_valueClone t \<and> ht_numOfElements t = 0"
  using assms
  by (auto simp: HashTable_New_def ht_map_def ht_inv_def ht_ratio_ok_def ht_placed_def ht_pairs_def)

section \<open>Which insertions have room\<close>

fun n_inserts :: "('e, 'k, 'v) dict_op list \<Rightarrow> nat" where
  "n_inserts [] = 0"
| "n_inserts (Insert e k v # ops) = Suc (n_inserts ops)"
| "n_inserts (Delete k # ops) = n_inserts ops"
| "n_inserts (Lookup k # ops) = n_inserts ops"

definition no_null :: "('e, ptr, ptr) dict_op list \<Rightarrow> bool" where
  "no_null ops \<longleftrightarrow> list_all (\<lambda>c. case c of Insert e k v \<Rightarrow> k \<noteq> NULL \<and> v \<noteq> NULL | _ \<Rightarrow> True) ops"

lemma ht_map_card:
  assumes m: "ht_map cls t m"
  shows "ht_numOfElements t = int (card (dom m))"
proof -
  have inv: "ht_inv cls t" using m by (simp add: ht_map_def)
  have "c \<in> dom m \<longleftrightarrow> c \<in> set (map (cls \<circ> kv_key) (ht_pairs t))" for c
    using ht_map_none [OF m, of c] domIff [of c m] by auto
  then have "dom m = set (map (cls \<circ> kv_key) (ht_pairs t))" by blast
  then show ?thesis using ht_invD(1,2) [OF inv] distinct_card by (metis length_map)
qed

lemma ht_map_finite:
  assumes "ht_map cls t m"
  shows "finite (dom m)"
proof -
  have "c \<in> dom m \<Longrightarrow> c \<in> set (map (cls \<circ> kv_key) (ht_pairs t))" for c
    using ht_map_none [OF assms, of c] domIff [of c m] by auto
  then have "dom m \<subseteq> set (map (cls \<circ> kv_key) (ht_pairs t))" by blast
  then show ?thesis by (rule finite_subset) simp
qed

lemma ht_admissible:
  assumes "ht_map cls t m" and "\<not> ht_keyClone t" "\<not> ht_valueClone t"
    and "no_null ops" and "ht_numOfElements t + int (n_inserts ops) \<le> INT_MAX"
  shows "admissible False cls (ht_room cls) (ht_put rnd) (ht_del rnd memr) ops t m"
  using assms
proof (induction ops arbitrary: t m)
  case (Cons c ops)
  have rest: "no_null ops" using Cons.prems(4) by (simp add: no_null_def)
  show ?case
  proof (cases c)
    case (Insert e k v)
    obtain ck cv mr where e: "e = (ck, cv, mr)" by (cases e)
    have ops: "k \<noteq> NULL" "v \<noteq> NULL" and lt: "ht_numOfElements t < INT_MAX"
      using Cons.prems(4,5) Insert by (simp_all add: no_null_def)
    from HashTable_Add_ok [OF Cons.prems(1) ops(1) _ ops(1) ops(2) _ ops(2) lt, of ck cv rnd mr] Cons.prems(2,3)
    obtain t' where t': "HashTable_Add rnd ck cv True mr t k v = Some (0, t')"
      "ht_map cls t' (m(cls k \<mapsto> v))" "ht_rest t' = ht_rest t" by auto
    have "card (dom (m(cls k \<mapsto> v))) \<le> Suc (card (dom m))"
      using ht_map_finite [OF Cons.prems(1)] by (simp add: card_insert_if)
    then have "ht_numOfElements t' \<le> ht_numOfElements t + 1"
      using ht_map_card [OF Cons.prems(1)] ht_map_card [OF t'(2)] by simp
    then have "ht_numOfElements t' + int (n_inserts ops) \<le> INT_MAX" using Cons.prems(5) Insert by simp
    moreover have "\<not> ht_keyClone t'" "\<not> ht_valueClone t'" using t'(3) Cons.prems(2,3) by (simp_all add: ht_rest_def)
    ultimately have "admissible False cls (ht_room cls) (ht_put rnd) (ht_del rnd memr) ops t' (m(cls k \<mapsto> v))"
      using Cons.IH [OF t'(2) _ _ rest] by blast
    moreover have "ht_put rnd e k v t = Some t'" using t'(1) by (simp add: ht_put_def e)
    ultimately show ?thesis
      using Insert ops lt Cons.prems(2,3) by (simp only: admissible.simps) (simp add: ht_room_def e)
  next
    case (Delete k)
    from HashTable_Remove_ok [OF Cons.prems(1), of rnd memr k] obtain b t' where
      t': "HashTable_Remove rnd memr t k = Some (b, t')" "ht_map cls t' (m(cls k := None))" "ht_rest t' = ht_rest t"
      by auto
    have "card (dom (m(cls k := None))) \<le> card (dom m)"
      using ht_map_finite [OF Cons.prems(1)] by (intro card_mono) auto
    then have "ht_numOfElements t' + int (n_inserts ops) \<le> INT_MAX"
      using ht_map_card [OF Cons.prems(1)] ht_map_card [OF t'(2)] Cons.prems(5) Delete by simp
    moreover have "\<not> ht_keyClone t'" "\<not> ht_valueClone t'" using t'(3) Cons.prems(2,3) by (simp_all add: ht_rest_def)
    ultimately have "admissible False cls (ht_room cls) (ht_put rnd) (ht_del rnd memr) ops t' (m(cls k := None))"
      using Cons.IH [OF t'(2) _ _ rest] by blast
    moreover have "ht_del rnd memr k t = Some t'" using t'(1) by (simp add: ht_del_def)
    ultimately show ?thesis using Delete by (simp only: admissible.simps option.case)
  next
    case (Lookup k)
    then show ?thesis using Cons.IH [OF Cons.prems(1-3) rest] Cons.prems(5) by simp
  qed
qed simp

section \<open>Properties\<close>



text \<open>With the string callbacks, a table behaves as a finite map over the contents of the key
  strings: two pointers to equal strings are one key, because \<open>HashTable_StringCompare\<close> decides
  equality of the strings and \<open>HashTable_StringHash\<close> depends on nothing else.\<close>
theorem HashTable_string_run_map:
  assumes "HashTable_New True True sync = Some t" and "\<And>p. p \<noteq> NULL \<Longrightarrow> 0 \<in> set (mem p)"
    and "no_null ops" and "int (n_inserts ops) \<le> INT_MAX"
  shows "\<exists>t'. run_dict (ht_put rnd) (ht_del rnd memr) ht_get ops (ht_string_table mem t) =
      Some (fst (run_map (c_string mem) NULL ops Map.empty), t')
    \<and> ht_map (c_string mem) t' (snd (run_map (c_string mem) NULL ops Map.empty))"
proof -
  let ?t = "ht_string_table mem t"
  have t: "ht_map (c_string mem) ?t Map.empty \<and> \<not> ht_keyClone ?t \<and> \<not> ht_valueClone ?t \<and> ht_numOfElements ?t = 0"
    using ht_New_inv [OF assms(1) ht_string_table_def [of mem], of "c_string mem"]
      ht_string_funs [where mem = mem and t = t, OF assms(2)] by (simp add: ht_string_table_def)
  then have "admissible False (c_string mem) (ht_room (c_string mem)) (ht_put rnd) (ht_del rnd memr) ops ?t Map.empty"
    using assms(3,4) by (intro ht_admissible) simp_all
  from ht.dict_run_any [OF conjunct1 [OF t] this] show ?thesis .
qed

theorem HashTable_string_run_map_witness:
  "\<exists>t t'. HashTable_New True True False = Some t
    \<and> run_dict (ht_put (\<lambda>r. r)) (ht_del (\<lambda>r. r) True) ht_get
        [Insert (0, 0, True) 1 11, Insert (0, 0, True) 3 13, Lookup 2, Insert (0, 0, True) 2 12, Lookup 1]
        (ht_string_table (\<lambda>p. if p = 3 then [99, 0] else [97, 98, 0]) t) = Some ([11, 12], t')"
proof -
  let ?mem = "\<lambda>p :: ptr. if p = 3 then [99, 0] else [97, 98, 0 :: byte]"
  let ?ops = "[Insert (0, 0, True) 1 11, Insert (0, 0, True) 3 13, Lookup 2, Insert (0, 0, True) 2 12, Lookup 1]
    :: (ht_env, ptr, ptr) dict_op list"
  obtain t where t: "HashTable_New True True False = Some t" by (simp add: HashTable_New_def)
  have z: "p \<noteq> NULL \<Longrightarrow> 0 \<in> set (?mem p)" for p by simp
  have "no_null ?ops" by (simp add: no_null_def)
  from HashTable_string_run_map [where mem = ?mem, OF t z this, where rnd = "\<lambda>r. r" and memr = True] t show ?thesis by (auto simp: c_string_def)
qed

text \<open>C22. The search for a number of buckets always ends and never overflows: for any non-negative
  element count and any ideal ratio from 1 up, \<open>HashTable_CalculateIdealNumOfBuckets\<close> returns an odd
  number from 5 to \<open>INT_MAX\<close> that passes \<open>HashTable_IsProbablePrime\<close>.\<close>
theorem HashTable_ideal_terminates:
  assumes "1 \<le> ht_idealRatio t" and "ht_idealRatio t \<le> of_int INT_MAX"
    and "0 \<le> ht_numOfElements t" and "ht_numOfElements t \<le> INT_MAX"
  shows "\<exists>m. HashTable_CalculateIdealNumOfBuckets t = Some m \<and> 5 \<le> m \<and> m \<le> INT_MAX
    \<and> odd m \<and> HashTable_IsProbablePrime m \<noteq> Some 0"
  using HashTable_CalculateIdealNumOfBuckets_ok [of t] assms by (simp add: ht_ratio_ok_def)

theorem HashTable_ideal_terminates_witness:
  "\<exists>t m. HashTable_New True True False = Some t
    \<and> HashTable_CalculateIdealNumOfBuckets (t\<lparr>ht_numOfElements := INT_MAX, ht_idealRatio := 1\<rparr>) = Some m"
proof -
  obtain t where t: "HashTable_New True True False = Some t" by (simp add: HashTable_New_def)
  with HashTable_ideal_terminates [of "t\<lparr>ht_numOfElements := INT_MAX, ht_idealRatio := 1\<rparr>"]
  show ?thesis by auto
qed

text \<open>\<open>HashTable_Clear\<close> and \<open>HashTable_Free\<close> pass the key and the value of every pair, and of no
  other, once to the free callbacks; after a clear the table is a valid empty table whose critical
  section is as before. \<open>HashTable_SetItemValue\<close> replaces a value without passing the old one to the
  callback.\<close>
theorem HashTable_callbacks:
  assumes "ht_map cls t m"
  shows "HashTable_Free (Some t) = Some (ht_freed t @ ht_callbacks t (ht_pairs t))
    \<and> (\<exists>t'. HashTable_Clear mem t = Some t' \<and> ht_map cls t' Map.empty \<and> ht_lock t' = ht_lock t
        \<and> ht_freed t' = ht_freed t @ ht_callbacks t (ht_pairs t))
    \<and> (\<not> ht_valueClone t \<longrightarrow> (\<exists>t'. HashTable_SetItemValue cv t key v = Some (m (cls key) \<noteq> None, t')
        \<and> ht_map cls t' (if m (cls key) = None then m else m(cls key \<mapsto> v)) \<and> ht_freed t' = ht_freed t))"
proof -
  have inv: "ht_inv cls t" using assms by (simp add: ht_map_def)
  obtain t' where "HashTable_Clear mem t = Some t'" "ht_map cls t' Map.empty" "ht_rest t' = ht_rest t"
    "ht_freed t' = ht_freed t @ ht_callbacks t (ht_pairs t)"
    using HashTable_Clear_ok [OF inv, of mem] by blast
  moreover have "\<exists>t'. HashTable_SetItemValue cv t key v = Some (m (cls key) \<noteq> None, t')
      \<and> ht_map cls t' (if m (cls key) = None then m else m(cls key \<mapsto> v)) \<and> ht_freed t' = ht_freed t"
    if "\<not> ht_valueClone t"
    using HashTable_SetItemValue_ok [OF assms, of v v cv key] that by auto
  ultimately show ?thesis using HashTable_Free_ok [OF inv] by (simp add: ht_rest_def)
qed

theorem HashTable_callbacks_witness:
  "\<exists>t. HashTable_New True True False = Some t \<and> HashTable_Free (Some t) = Some []"
proof -
  obtain t where t: "HashTable_New True True False = Some t"
    and p: "ht_pairs t = []" "ht_freed t = []"
    by (simp add: HashTable_New_def ht_pairs_def)
  have funs: "ht_funs_ok id (ht_hash t) (ht_keyCompare t)"
    using t by (auto simp: HashTable_New_def ht_funs_ok_def HashTable_PointerCompare_def)
  have "ht_map id t Map.empty" using ht_New_inv [OF t _ funs] by simp
  from HashTable_callbacks [OF this] t p show ?thesis by (simp add: ht_callbacks_def)
qed

end
