(* ===== verification/WLinkedList.thy ===== *)
theory WLinkedList
  imports Heap
begin

text \<open>
  \<open>wLinkedList\<close> of \<open>winpr/libwinpr/utils/collections/LinkedList.c\<close>: a doubly linked list of heap nodes
  with an enumerator. \<open>dseg\<close> describes a piece of the list by the addresses of its nodes and by the
  links that enter and leave it at both ends.
\<close>

section \<open>State\<close>

record wLinkedListNode =
  ln_value :: ptr
  ln_prev :: ptr
  ln_next :: ptr

record wLinkedList =
  ll_count :: int
  ll_initial :: int
  ll_head :: ptr
  ll_tail :: ptr
  ll_current :: ptr
  ll_heap :: "wLinkedListNode heap"

section \<open>Operations\<close>

definition LinkedList_Count :: "wLinkedList \<Rightarrow> int" where
  "LinkedList_Count l = ll_count l"

definition LinkedList_First :: "wLinkedList \<Rightarrow> ptr option" where
  "LinkedList_First l =
     (if ll_head l \<noteq> NULL then do { n \<leftarrow> ll_heap l (ll_head l); Some (ln_value n) } else Some NULL)"

definition LinkedList_Last :: "wLinkedList \<Rightarrow> ptr option" where
  "LinkedList_Last l =
     (if ll_tail l \<noteq> NULL then do { n \<leftarrow> ll_heap l (ll_tail l); Some (ln_value n) } else Some NULL)"

definition LinkedList_Contains :: "wLinkedList \<Rightarrow> ptr \<Rightarrow> bool option" where
  "LinkedList_Contains l value =
     (if ll_head l = NULL then Some False
      else do {
        item \<leftarrow> chain_find ln_next (ll_heap l) (\<lambda>n. ln_value n = value) (ll_head l);
        Some (item \<noteq> NULL) })"

partial_function (option) ll_clear_loop :: "wLinkedListNode heap \<Rightarrow> ptr \<Rightarrow> wLinkedListNode heap option" where
  "ll_clear_loop h node =
     (if node = NULL then Some h
      else do {
        n \<leftarrow> h node;
        let nextNode = ln_next n;
        h \<leftarrow> hfree h node;
        ll_clear_loop h nextNode })"

definition LinkedList_Clear :: "wLinkedList \<Rightarrow> wLinkedList option" where
  "LinkedList_Clear l =
     (if ll_head l = NULL then Some l
      else do {
        h \<leftarrow> ll_clear_loop (ll_heap l) (ll_head l);
        Some (l\<lparr>ll_heap := h, ll_head := NULL, ll_tail := NULL, ll_count := 0\<rparr>) })"

definition LinkedList_AddFirst :: "ptr option \<Rightarrow> wLinkedList \<Rightarrow> ptr \<Rightarrow> (bool \<times> wLinkedList) option" where
  "LinkedList_AddFirst mem l value = (case mem of
       None \<Rightarrow> Some (False, l)
     | Some node \<Rightarrow> do {
         let h = (ll_heap l)(node \<mapsto> \<lparr>ln_value = value, ln_prev = NULL, ln_next = NULL\<rparr>);
         l \<leftarrow> (if ll_head l = NULL then Some (l\<lparr>ll_heap := h, ll_tail := node, ll_head := node\<rparr>)
               else do {
                 h \<leftarrow> hset h (ll_head l) (ln_prev_update (\<lambda>_. node));
                 h \<leftarrow> hset h node (ln_next_update (\<lambda>_. ll_head l));
                 Some (l\<lparr>ll_heap := h, ll_head := node\<rparr>) });
         c \<leftarrow> cint (ll_count l + 1);
         Some (True, l\<lparr>ll_count := c\<rparr>) })"

definition LinkedList_AddLast :: "ptr option \<Rightarrow> wLinkedList \<Rightarrow> ptr \<Rightarrow> (bool \<times> wLinkedList) option" where
  "LinkedList_AddLast mem l value = (case mem of
       None \<Rightarrow> Some (False, l)
     | Some node \<Rightarrow> do {
         let h = (ll_heap l)(node \<mapsto> \<lparr>ln_value = value, ln_prev = NULL, ln_next = NULL\<rparr>);
         l \<leftarrow> (if ll_tail l = NULL then Some (l\<lparr>ll_heap := h, ll_head := node, ll_tail := node\<rparr>)
               else do {
                 h \<leftarrow> hset h (ll_tail l) (ln_next_update (\<lambda>_. node));
                 h \<leftarrow> hset h node (ln_prev_update (\<lambda>_. ll_tail l));
                 Some (l\<lparr>ll_heap := h, ll_tail := node\<rparr>) });
         c \<leftarrow> cint (ll_count l + 1);
         Some (True, l\<lparr>ll_count := c\<rparr>) })"

text \<open>Unlinking a node, inside the loop of \<open>LinkedList_Remove\<close>.\<close>

definition ll_unlink :: "wLinkedList \<Rightarrow> ptr \<Rightarrow> wLinkedListNode \<Rightarrow> wLinkedList option" where
  "ll_unlink l node n = do {
     h \<leftarrow> (if ln_prev n \<noteq> NULL then hset (ll_heap l) (ln_prev n) (ln_next_update (\<lambda>_. ln_next n))
           else Some (ll_heap l));
     h \<leftarrow> (if ln_next n \<noteq> NULL then hset h (ln_next n) (ln_prev_update (\<lambda>_. ln_prev n)) else Some h);
     let l = l\<lparr>ll_heap := h\<rparr>;
     let l = (if node = ll_head l then l\<lparr>ll_head := ln_next n\<rparr> else l);
     let l = (if node = ll_tail l then l\<lparr>ll_tail := ln_prev n\<rparr> else l);
     h \<leftarrow> hfree (ll_heap l) node;
     c \<leftarrow> cint (ll_count l - 1);
     Some (l\<lparr>ll_heap := h, ll_count := c\<rparr>) }"

partial_function (option) ll_remove_loop :: "wLinkedList \<Rightarrow> ptr \<Rightarrow> ptr \<Rightarrow> (bool \<times> wLinkedList) option" where
  "ll_remove_loop l value node =
     (if node = NULL then Some (False, l)
      else do {
        n \<leftarrow> ll_heap l node;
        if ln_value n = value then do { l \<leftarrow> ll_unlink l node n; Some (True, l) }
        else ll_remove_loop l value (ln_next n) })"

definition LinkedList_Remove :: "wLinkedList \<Rightarrow> ptr \<Rightarrow> (bool \<times> wLinkedList) option" where
  "LinkedList_Remove l value = ll_remove_loop l value (ll_head l)"

definition LinkedList_RemoveFirst :: "wLinkedList \<Rightarrow> wLinkedList option" where
  "LinkedList_RemoveFirst l =
     (if ll_head l \<noteq> NULL then do {
        let node = ll_head l;
        n \<leftarrow> ll_heap l (ll_head l);
        let l = l\<lparr>ll_head := ln_next n\<rparr>;
        l \<leftarrow> (if ll_head l = NULL then Some (l\<lparr>ll_tail := NULL\<rparr>)
              else do {
                h \<leftarrow> hset (ll_heap l) (ll_head l) (ln_prev_update (\<lambda>_. NULL));
                Some (l\<lparr>ll_heap := h\<rparr>) });
        h \<leftarrow> hfree (ll_heap l) node;
        c \<leftarrow> cint (ll_count l - 1);
        Some (l\<lparr>ll_heap := h, ll_count := c\<rparr>)
      } else Some l)"

definition LinkedList_RemoveLast :: "wLinkedList \<Rightarrow> wLinkedList option" where
  "LinkedList_RemoveLast l =
     (if ll_tail l \<noteq> NULL then do {
        let node = ll_tail l;
        n \<leftarrow> ll_heap l (ll_tail l);
        let l = l\<lparr>ll_tail := ln_prev n\<rparr>;
        l \<leftarrow> (if ll_tail l = NULL then Some (l\<lparr>ll_head := NULL\<rparr>)
              else do {
                h \<leftarrow> hset (ll_heap l) (ll_tail l) (ln_next_update (\<lambda>_. NULL));
                Some (l\<lparr>ll_heap := h\<rparr>) });
        h \<leftarrow> hfree (ll_heap l) node;
        c \<leftarrow> cint (ll_count l - 1);
        Some (l\<lparr>ll_heap := h, ll_count := c\<rparr>)
      } else Some l)"

definition LinkedList_Enumerator_Reset :: "wLinkedList \<Rightarrow> wLinkedList" where
  "LinkedList_Enumerator_Reset l = l\<lparr>ll_initial := 1, ll_current := ll_head l\<rparr>"

definition LinkedList_Enumerator_Current :: "wLinkedList \<Rightarrow> ptr option" where
  "LinkedList_Enumerator_Current l =
     (if ll_initial l \<noteq> 0 then Some NULL
      else if ll_current l \<noteq> NULL then do { n \<leftarrow> ll_heap l (ll_current l); Some (ln_value n) }
      else Some NULL)"

definition LinkedList_Enumerator_MoveNext :: "wLinkedList \<Rightarrow> (bool \<times> wLinkedList) option" where
  "LinkedList_Enumerator_MoveNext l = do {
     l \<leftarrow> (if ll_initial l \<noteq> 0 then Some (l\<lparr>ll_initial := 0\<rparr>)
           else if ll_current l \<noteq> NULL then do {
             n \<leftarrow> ll_heap l (ll_current l);
             Some (l\<lparr>ll_current := ln_next n\<rparr>)
           } else Some l);
     Some (ll_current l \<noteq> NULL, l) }"

definition LinkedList_New :: "bool \<Rightarrow> wLinkedList option" where
  "LinkedList_New mem =
     (if mem then Some \<lparr>ll_count = 0, ll_initial = 0, ll_head = NULL, ll_tail = NULL, ll_current = NULL,
        ll_heap = (\<lambda>_. None)\<rparr> else None)"

text \<open>\<open>LinkedList_Free\<close>: the nodes still allocated once the list is freed.\<close>

definition LinkedList_Free :: "wLinkedList option \<Rightarrow> wLinkedListNode heap option" where
  "LinkedList_Free list = (case list of None \<Rightarrow> Some (\<lambda>_. None)
     | Some l \<Rightarrow> do { l \<leftarrow> LinkedList_Clear l; Some (ll_heap l) })"

declare ll_clear_loop.simps [code] ll_remove_loop.simps [code]

section \<open>Doubly linked segments\<close>

fun dseg :: "wLinkedListNode heap \<Rightarrow> ptr \<Rightarrow> ptr \<Rightarrow> ptr list \<Rightarrow> ptr \<Rightarrow> ptr \<Rightarrow> bool" where
  "dseg h pr p [] l q = (p = q \<and> l = pr)"
| "dseg h pr p (a # as) l q =
     (p = a \<and> a \<noteq> NULL \<and> (\<exists>n. h a = Some n \<and> ln_prev n = pr \<and> dseg h a (ln_next n) as l q))"

lemma dseg_append: "dseg h pr p (as @ bs) l q \<longleftrightarrow> (\<exists>m r. dseg h pr p as m r \<and> dseg h m r bs l q)"
  by (induction as arbitrary: pr p) auto

lemma dseg_frame [simp]: "b \<notin> set as \<Longrightarrow> dseg (h(b := v)) pr p as l q = dseg h pr p as l q"
  by (induction as arbitrary: pr p) auto

lemma dseg_lseg: "dseg h pr p as l q \<Longrightarrow> lseg ln_next h p as q"
  by (induction as arbitrary: pr p) auto

lemma dseg_set_next:
  "dseg h pr p (bs @ [b]) l q \<Longrightarrow> b \<notin> set bs \<Longrightarrow> h b = Some n \<Longrightarrow>
    dseg (h(b \<mapsto> n\<lparr>ln_next := q'\<rparr>)) pr p (bs @ [b]) l q'"
  by (auto simp: dseg_append)

lemma dseg_set_prev:
  "dseg h pr p (c # cs) l q \<Longrightarrow> c \<notin> set cs \<Longrightarrow> h c = Some n \<Longrightarrow>
    dseg (h(c \<mapsto> n\<lparr>ln_prev := pr'\<rparr>)) pr' p (c # cs) l q"
  by auto

definition ll_at :: "wLinkedList \<Rightarrow> ptr list \<Rightarrow> bool" where
  "ll_at l as \<longleftrightarrow> dseg (ll_heap l) NULL (ll_head l) as (ll_tail l) NULL \<and> dom (ll_heap l) = set as
     \<and> ll_count l = int (length as) \<and> length as \<le> nat INT_MAX"

definition ll_repr :: "wLinkedList \<Rightarrow> ptr list \<Rightarrow> bool" where
  "ll_repr l vs \<longleftrightarrow> (\<exists>as. ll_at l as \<and> vs = map ln_value (nodes (ll_heap l) as))"

lemma ll_at_distinct: "ll_at l as \<Longrightarrow> distinct as"
  unfolding ll_at_def using dseg_lseg lseg_distinct by blast

lemma ll_at_head: "ll_at l as \<Longrightarrow> ll_head l = (case as of [] \<Rightarrow> NULL | a # _ \<Rightarrow> a)"
  by (cases as) (auto simp: ll_at_def)

lemma ll_at_tail: "ll_at l as \<Longrightarrow> ll_tail l = (if as = [] then NULL else last as)"
  by (cases as rule: rev_cases) (auto simp: ll_at_def dseg_append)

lemma ll_at_NULL: "ll_at l as \<Longrightarrow> NULL \<notin> set as"
  unfolding ll_at_def using dseg_lseg lseg_in_heap by blast

lemma dseg_cong: "\<forall>x \<in> set as. h' x = h x \<Longrightarrow> dseg h' pr p as l q = dseg h pr p as l q"
  by (induction as arbitrary: pr p) auto

lemma nodes_cong: "\<forall>x \<in> set as. h' x = h x \<Longrightarrow> nodes h' as = nodes h as"
  by (simp add: nodes_def)

text \<open>Redirecting the link out of the last node of a piece, and the link back from the first.\<close>

lemma dseg_redirect_next:
  assumes seg: "dseg h NULL p bs m a" and dist: "distinct bs"
  shows "\<exists>h1. (if m \<noteq> NULL then hset h m (ln_next_update (\<lambda>_. q)) else Some h) = Some h1
    \<and> dseg h1 NULL (if bs = [] then q else p) bs m q \<and> (\<forall>x. x \<notin> set bs \<longrightarrow> h1 x = h x)
    \<and> dom h1 = dom h \<and> map ln_value (nodes h1 bs) = map ln_value (nodes h bs)
    \<and> (m = NULL \<longleftrightarrow> bs = [])"
proof (cases bs rule: rev_cases)
  case Nil
  then show ?thesis using seg by simp
next
  case (snoc bs' b)
  then obtain n where n: "m = b" "b \<noteq> NULL" "h b = Some n" using seg by (auto simp: dseg_append)
  have b: "b \<notin> set bs'" using dist snoc by simp
  have "dseg (h(b \<mapsto> n\<lparr>ln_next := q\<rparr>)) NULL p bs m q"
    using dseg_set_next [of h NULL p bs' b m a n q] seg n b snoc by simp
  moreover have "dom (h(b \<mapsto> n\<lparr>ln_next := q\<rparr>)) = dom h" using n by auto
  ultimately show ?thesis using n b snoc by (simp add: hset_def)
qed

lemma dseg_redirect_prev:
  assumes seg: "dseg h a r cs t NULL" and dist: "distinct cs"
  shows "\<exists>h1. (if r \<noteq> NULL then hset h r (ln_prev_update (\<lambda>_. pr)) else Some h) = Some h1
    \<and> dseg h1 pr r cs (if cs = [] then pr else t) NULL \<and> (\<forall>x. x \<notin> set cs \<longrightarrow> h1 x = h x)
    \<and> dom h1 = dom h \<and> map ln_value (nodes h1 cs) = map ln_value (nodes h cs)
    \<and> (r = NULL \<longleftrightarrow> cs = [])"
proof (cases cs)
  case Nil
  then show ?thesis using seg by simp
next
  case (Cons c cs')
  then obtain n where n: "r = c" "c \<noteq> NULL" "h c = Some n" using seg by auto
  have c: "c \<notin> set cs'" using dist Cons by simp
  have "dseg (h(c \<mapsto> n\<lparr>ln_prev := pr\<rparr>)) pr r cs t NULL"
    using dseg_set_prev [of h a r c cs' t NULL n pr] seg n c Cons by simp
  moreover have "dom (h(c \<mapsto> n\<lparr>ln_prev := pr\<rparr>)) = dom h" using n by auto
  ultimately show ?thesis using n c Cons by (simp add: hset_def)
qed

text \<open>Taking the node \<open>a\<close> out from between two pieces.\<close>

lemma ll_cut:
  assumes at: "ll_at l (bs @ a # cs)" and n: "ll_heap l a = Some n"
  shows "\<exists>h1 h2. (if ln_prev n \<noteq> NULL then hset (ll_heap l) (ln_prev n) (ln_next_update (\<lambda>_. ln_next n))
      else Some (ll_heap l)) = Some h1
    \<and> (if ln_next n \<noteq> NULL then hset h1 (ln_next n) (ln_prev_update (\<lambda>_. ln_prev n)) else Some h1) = Some h2
    \<and> h2 a = Some n \<and> dom (h2(a := None)) = set (bs @ cs)
    \<and> dseg (h2(a := None)) NULL (if bs = [] then ln_next n else ll_head l) (bs @ cs)
        (if cs = [] then ln_prev n else ll_tail l) NULL
    \<and> map ln_value (nodes (h2(a := None)) (bs @ cs)) = map ln_value (nodes (ll_heap l) (bs @ cs))
    \<and> (ln_prev n = NULL \<longleftrightarrow> bs = []) \<and> (ln_next n = NULL \<longleftrightarrow> cs = [])"
proof -
  let ?h = "ll_heap l"
  have dist: "distinct (bs @ a # cs)" using ll_at_distinct [OF at] .
  have dom: "dom ?h = set (bs @ a # cs)" using at by (simp add: ll_at_def)
  have left: "dseg ?h NULL (ll_head l) bs (ln_prev n) a" and right: "dseg ?h a (ln_next n) cs (ll_tail l) NULL"
    using at n by (auto simp: ll_at_def dseg_append)
  obtain h1 where h1: "(if ln_prev n \<noteq> NULL then hset ?h (ln_prev n) (ln_next_update (\<lambda>_. ln_next n)) else Some ?h) = Some h1"
    "dseg h1 NULL (if bs = [] then ln_next n else ll_head l) bs (ln_prev n) (ln_next n)"
    "\<forall>x. x \<notin> set bs \<longrightarrow> h1 x = ?h x" "dom h1 = dom ?h"
    "map ln_value (nodes h1 bs) = map ln_value (nodes ?h bs)" "ln_prev n = NULL \<longleftrightarrow> bs = []"
    using dseg_redirect_next [OF left, of "ln_next n"] dist by auto
  have h1_cs: "\<forall>x \<in> set cs. h1 x = ?h x" and h1_a: "h1 a = Some n" using h1(3) dist n by auto
  have "dseg h1 a (ln_next n) cs (ll_tail l) NULL" using right dseg_cong [OF h1_cs] by simp
  then obtain h2 where h2: "(if ln_next n \<noteq> NULL then hset h1 (ln_next n) (ln_prev_update (\<lambda>_. ln_prev n)) else Some h1) = Some h2"
    "dseg h2 (ln_prev n) (ln_next n) cs (if cs = [] then ln_prev n else ll_tail l) NULL"
    "\<forall>x. x \<notin> set cs \<longrightarrow> h2 x = h1 x" "dom h2 = dom h1"
    "map ln_value (nodes h2 cs) = map ln_value (nodes h1 cs)" "ln_next n = NULL \<longleftrightarrow> cs = []"
    using dseg_redirect_prev [of h1 a "ln_next n" cs "ll_tail l" "ln_prev n"] dist by auto
  have h2_bs: "\<forall>x \<in> set bs. h2 x = h1 x" and h2_a: "h2 a = Some n" using h2(3) dist h1_a by auto
  have "dseg h2 NULL (if bs = [] then ln_next n else ll_head l) bs (ln_prev n) (ln_next n)"
    using h1(2) dseg_cong [OF h2_bs] by simp
  then have "dseg h2 NULL (if bs = [] then ln_next n else ll_head l) (bs @ cs)
      (if cs = [] then ln_prev n else ll_tail l) NULL"
    using h2(2) unfolding dseg_append by blast
  moreover have "dom (h2(a := None)) = set (bs @ cs)" using h1(4) h2(4) dom dist by auto
  moreover have "map ln_value (nodes h2 (bs @ cs)) = map ln_value (nodes ?h (bs @ cs))"
    using h1(5) h2(5) nodes_cong [OF h2_bs] nodes_cong [OF h1_cs] by simp
  ultimately show ?thesis using h1(1,6) h2(1,6) h2_a dist by auto
qed

definition ll_rest :: "wLinkedList \<Rightarrow> int \<times> ptr" where
  "ll_rest l = (ll_initial l, ll_current l)"

lemma ll_unlink_ok:
  assumes at: "ll_at l (bs @ a # cs)" and n: "ll_heap l a = Some n"
  shows "\<exists>l'. ll_unlink l a n = Some l' \<and> ll_at l' (bs @ cs)
    \<and> map ln_value (nodes (ll_heap l') (bs @ cs)) = map ln_value (nodes (ll_heap l) (bs @ cs))
    \<and> ll_rest l' = ll_rest l"
proof -
  obtain h1 h2 where cut: "(if ln_prev n \<noteq> NULL then hset (ll_heap l) (ln_prev n) (ln_next_update (\<lambda>_. ln_next n))
      else Some (ll_heap l)) = Some h1"
    "(if ln_next n \<noteq> NULL then hset h1 (ln_next n) (ln_prev_update (\<lambda>_. ln_prev n)) else Some h1) = Some h2"
    "h2 a = Some n" "dom (h2(a := None)) = set (bs @ cs)"
    "dseg (h2(a := None)) NULL (if bs = [] then ln_next n else ll_head l) (bs @ cs)
        (if cs = [] then ln_prev n else ll_tail l) NULL"
    "map ln_value (nodes (h2(a := None)) (bs @ cs)) = map ln_value (nodes (ll_heap l) (bs @ cs))"
    using ll_cut [OF at n] by metis
  have dist: "distinct (bs @ a # cs)" using ll_at_distinct [OF at] .
  have ends: "(a = ll_head l) = (bs = [])" using ll_at_head [OF at] dist by (cases bs) auto
  have ends': "(a = ll_tail l) = (cs = [])" using ll_at_tail [OF at] dist by (cases cs rule: rev_cases) auto
  have c: "cint (ll_count l - 1) = Some (ll_count l - 1)"
    using at by (intro cint_Some) (auto simp: ll_at_def)
  have "ll_unlink l a n = Some (l\<lparr>ll_heap := h2(a := None),
      ll_head := (if bs = [] then ln_next n else ll_head l),
      ll_tail := (if cs = [] then ln_prev n else ll_tail l), ll_count := ll_count l - 1\<rparr>)"
    unfolding ll_unlink_def cut(1) bind.bind_lunit cut(2)
    using cut(3) ends ends' c by (cases "bs = []"; cases "cs = []") (simp_all add: Let_def hfree_def)
  then show ?thesis using cut(4-6) at by (auto simp: ll_at_def ll_rest_def)
qed

section \<open>The operations on the values\<close>

lemma LinkedList_New_repr: "LinkedList_New True = Some l \<Longrightarrow> ll_repr l []"
  by (auto simp: LinkedList_New_def ll_repr_def ll_at_def)

lemma ll_value_nodes: "ll_at l as \<Longrightarrow> a \<in> set as \<Longrightarrow> \<exists>n. ll_heap l a = Some n \<and> a \<noteq> NULL"
  unfolding ll_at_def using dseg_lseg lseg_in_heap by metis

lemma ll_remove_loop_skip:
  "lseg ln_next (ll_heap l) node (bs @ as) NULL \<Longrightarrow>
    \<forall>b \<in> set bs. ln_value (the (ll_heap l b)) \<noteq> v \<Longrightarrow>
    ll_remove_loop l v node = ll_remove_loop l v (case as of [] \<Rightarrow> NULL | a # _ \<Rightarrow> a)"
proof (induction bs arbitrary: node)
  case Nil
  then show ?case by (cases as) auto
next
  case (Cons b bs)
  then obtain n where n: "node = b" "b \<noteq> NULL" "ll_heap l b = Some n"
    "lseg ln_next (ll_heap l) (ln_next n) (bs @ as) NULL" by auto
  then have "ll_remove_loop l v node = ll_remove_loop l v (ln_next n)"
    using Cons.prems(2) by (subst ll_remove_loop.simps) simp
  with Cons.IH [OF n(4)] Cons.prems(2) show ?case by simp
qed

lemma LinkedList_Remove_ok:
  assumes repr: "ll_repr l vs"
  shows "\<exists>l'. LinkedList_Remove l v = Some (v \<in> set vs, l') \<and> ll_repr l' (remove1 v vs) \<and> ll_rest l' = ll_rest l"
proof -
  obtain as where at: "ll_at l as" and vs: "vs = map ln_value (nodes (ll_heap l) as)"
    using repr by (auto simp: ll_repr_def)
  have seg: "lseg ln_next (ll_heap l) (ll_head l) as NULL" using at dseg_lseg by (auto simp: ll_at_def)
  let ?P = "\<lambda>a. ln_value (the (ll_heap l a)) = v"
  show ?thesis
  proof (cases "List.find ?P as")
    case None
    then have no: "\<forall>a \<in> set as. \<not> ?P a" by (auto simp: find_None_iff)
    then have "v \<notin> set vs" by (auto simp: vs nodes_def)
    moreover have "LinkedList_Remove l v = Some (False, l)"
      using ll_remove_loop_skip [of l "ll_head l" as "[]" v] seg no
      by (simp add: LinkedList_Remove_def) (subst ll_remove_loop.simps, simp)
    ultimately show ?thesis using repr by (auto simp: remove1_idem)
  next
    case (Some a)
    from find_split [OF this] obtain bs cs
      where s: "as = bs @ a # cs" "?P a" "\<forall>b \<in> set bs. \<not> ?P b" by blast
    obtain n where n: "ll_heap l a = Some n" "a \<noteq> NULL" using ll_value_nodes [OF at, of a] s(1) by auto
    have at': "ll_at l (bs @ a # cs)" using at s(1) by simp
    obtain l' where l': "ll_unlink l a n = Some l'" "ll_at l' (bs @ cs)"
      "map ln_value (nodes (ll_heap l') (bs @ cs)) = map ln_value (nodes (ll_heap l) (bs @ cs))" "ll_rest l' = ll_rest l"
      using ll_unlink_ok [OF at' n(1)] by blast
    have "ll_remove_loop l v (ll_head l) = ll_remove_loop l v a"
      using ll_remove_loop_skip [of l "ll_head l" bs "a # cs" v] seg s by simp
    also have "\<dots> = Some (True, l')" using n s(2) l'(1) by (subst ll_remove_loop.simps) simp
    finally have "LinkedList_Remove l v = Some (True, l')" by (simp add: LinkedList_Remove_def)
    moreover have no: "v \<notin> set (map ln_value (nodes (ll_heap l) bs))" using s(3) by (auto simp: nodes_def)
    have "v = ln_value n" using s(2) n by simp
    then have "vs = map ln_value (nodes (ll_heap l) bs) @ v # map ln_value (nodes (ll_heap l) cs)"
      using n by (simp add: vs s(1))
    then have "remove1 v vs = map ln_value (nodes (ll_heap l') (bs @ cs))" and "v \<in> set vs"
      using no l'(3) by (simp_all add: remove1_append)
    ultimately show ?thesis using l'(2,4) unfolding ll_repr_def by (intro exI [of _ l'] conjI) auto
  qed
qed

lemma LinkedList_RemoveFirst_ok:
  assumes repr: "ll_repr l vs"
  shows "\<exists>l'. LinkedList_RemoveFirst l = Some l' \<and> ll_repr l' (tl vs) \<and> ll_rest l' = ll_rest l"
proof -
  obtain as where at: "ll_at l as" and vs: "vs = map ln_value (nodes (ll_heap l) as)"
    using repr by (auto simp: ll_repr_def)
  show ?thesis
  proof (cases as)
    case Nil
    then show ?thesis using ll_at_head [OF at] repr vs by (auto simp: LinkedList_RemoveFirst_def)
  next
    case (Cons a cs)
    obtain n where n: "ll_heap l a = Some n" "a \<noteq> NULL" using ll_value_nodes [OF at, of a] Cons by auto
    have at': "ll_at l ([] @ a # cs)" using at Cons by simp
    have prev: "ln_prev n = NULL" and head: "ll_head l = a" using at' n by (auto simp: ll_at_def)
    obtain h2 where cut: "(if ln_next n \<noteq> NULL then hset (ll_heap l) (ln_next n) (ln_prev_update (\<lambda>_. NULL))
        else Some (ll_heap l)) = Some h2" "h2 a = Some n" "dom (h2(a := None)) = set cs"
      "dseg (h2(a := None)) NULL (ln_next n) cs (if cs = [] then NULL else ll_tail l) NULL"
      "map ln_value (nodes (h2(a := None)) cs) = map ln_value (nodes (ll_heap l) cs)" "ln_next n = NULL \<longleftrightarrow> cs = []"
      using ll_cut [OF at' n(1)] unfolding prev by auto
    let ?l = "l\<lparr>ll_heap := h2(a := None), ll_head := ln_next n, ll_tail := (if cs = [] then NULL else ll_tail l),
      ll_count := ll_count l - 1\<rparr>"
    have "cint (ll_count l - 1) = Some (ll_count l - 1)" using at by (intro cint_Some) (auto simp: ll_at_def)
    then have "LinkedList_RemoveFirst l = Some ?l"
      using cut(1,2,6) n head by (cases "cs = []") (auto simp: LinkedList_RemoveFirst_def Let_def hfree_def)
    moreover have "ll_at ?l cs" using cut(3,4) at Cons by (auto simp: ll_at_def)
    ultimately show ?thesis using cut(5) vs Cons by (auto simp: ll_repr_def ll_rest_def)
  qed
qed

lemma LinkedList_RemoveLast_ok:
  assumes repr: "ll_repr l vs"
  shows "\<exists>l'. LinkedList_RemoveLast l = Some l' \<and> ll_repr l' (butlast vs) \<and> ll_rest l' = ll_rest l"
proof -
  obtain as where at: "ll_at l as" and vs: "vs = map ln_value (nodes (ll_heap l) as)"
    using repr by (auto simp: ll_repr_def)
  show ?thesis
  proof (cases as rule: rev_cases)
    case Nil
    then show ?thesis using ll_at_tail [OF at] repr vs by (auto simp: LinkedList_RemoveLast_def)
  next
    case (snoc bs a)
    obtain n where n: "ll_heap l a = Some n" "a \<noteq> NULL" using ll_value_nodes [OF at, of a] snoc by auto
    have at': "ll_at l (bs @ a # [])" using at snoc by simp
    have nxt: "ln_next n = NULL" and tail: "ll_tail l = a" using at' n by (auto simp: ll_at_def dseg_append)
    obtain h2 where cut: "(if ln_prev n \<noteq> NULL then hset (ll_heap l) (ln_prev n) (ln_next_update (\<lambda>_. NULL))
        else Some (ll_heap l)) = Some h2" "h2 a = Some n" "dom (h2(a := None)) = set bs"
      "dseg (h2(a := None)) NULL (if bs = [] then NULL else ll_head l) bs (ln_prev n) NULL"
      "map ln_value (nodes (h2(a := None)) bs) = map ln_value (nodes (ll_heap l) bs)" "ln_prev n = NULL \<longleftrightarrow> bs = []"
      using ll_cut [OF at' n(1)] unfolding nxt by auto
    let ?l = "l\<lparr>ll_heap := h2(a := None), ll_head := (if bs = [] then NULL else ll_head l), ll_tail := ln_prev n,
      ll_count := ll_count l - 1\<rparr>"
    have "cint (ll_count l - 1) = Some (ll_count l - 1)" using at by (intro cint_Some) (auto simp: ll_at_def)
    then have "LinkedList_RemoveLast l = Some ?l"
      using cut(1,2,6) n tail by (cases "bs = []") (auto simp: LinkedList_RemoveLast_def Let_def hfree_def)
    moreover have "ll_at ?l bs" using cut(3,4) at snoc by (auto simp: ll_at_def)
    ultimately show ?thesis using cut(5) vs snoc by (auto simp: ll_repr_def ll_rest_def)
  qed
qed

lemma ll_count_cint: "ll_repr l vs \<Longrightarrow> int (length vs) < INT_MAX \<Longrightarrow>
    ll_count l = int (length vs) \<and> cint (ll_count l + 1) = Some (ll_count l + 1)"
  by (auto simp: ll_repr_def ll_at_def intro!: cint_Some)

lemma LinkedList_AddFirst_ok:
  assumes repr: "ll_repr l vs" and fresh: "fresh_in (ll_heap l) node" and max: "int (length vs) < INT_MAX"
  shows "\<exists>l'. LinkedList_AddFirst (Some node) l v = Some (True, l') \<and> ll_repr l' (v # vs) \<and> ll_rest l' = ll_rest l"
proof -
  obtain as where at: "ll_at l as" and vs: "vs = map ln_value (nodes (ll_heap l) as)"
    using repr by (auto simp: ll_repr_def)
  have node: "node \<noteq> NULL" "node \<notin> set as"
    using at fresh domIff [of node "ll_heap l"] by (simp_all add: ll_at_def fresh_in_def)
  let ?h = "(ll_heap l)(node \<mapsto> \<lparr>ln_value = v, ln_prev = NULL, ln_next = NULL\<rparr>)"
  have seg: "dseg ?h NULL (ll_head l) as (ll_tail l) NULL" using at node by (simp add: ll_at_def)
  note c = ll_count_cint [OF repr max]
  obtain h1 where h1: "(if ll_head l \<noteq> NULL then hset ?h (ll_head l) (ln_prev_update (\<lambda>_. node)) else Some ?h) = Some h1"
    "dseg h1 node (ll_head l) as (if as = [] then node else ll_tail l) NULL" "\<forall>x. x \<notin> set as \<longrightarrow> h1 x = ?h x"
    "dom h1 = dom ?h" "map ln_value (nodes h1 as) = map ln_value (nodes ?h as)" "ll_head l = NULL \<longleftrightarrow> as = []"
    using dseg_redirect_prev [OF seg ll_at_distinct [OF at], of node] by auto
  have h1n: "h1 node = Some \<lparr>ln_value = v, ln_prev = NULL, ln_next = NULL\<rparr>" using h1(3) node by simp
  define h2 where "h2 = h1(node \<mapsto> \<lparr>ln_value = v, ln_prev = NULL, ln_next = ll_head l\<rparr>)"
  let ?l = "l\<lparr>ll_heap := h2, ll_head := node, ll_tail := (if as = [] then node else ll_tail l), ll_count := ll_count l + 1\<rparr>"
  have "LinkedList_AddFirst (Some node) l v = Some (True, ?l)"
    using h1(1,6) h1n c
    by (cases "as = []") (auto simp: LinkedList_AddFirst_def Let_def hset_def h2_def fun_upd_idem)
  moreover have "ll_at ?l (node # as)"
    using h1(2,4) node at c vs max by (auto simp: ll_at_def h2_def)
  moreover have "map ln_value (nodes h2 (node # as)) = v # vs" using h1(5) node by (simp add: h2_def vs)
  ultimately show ?thesis unfolding ll_repr_def ll_rest_def by fastforce
qed

lemma LinkedList_AddLast_ok:
  assumes repr: "ll_repr l vs" and fresh: "fresh_in (ll_heap l) node" and max: "int (length vs) < INT_MAX"
  shows "\<exists>l'. LinkedList_AddLast (Some node) l v = Some (True, l') \<and> ll_repr l' (vs @ [v]) \<and> ll_rest l' = ll_rest l"
proof -
  obtain as where at: "ll_at l as" and vs: "vs = map ln_value (nodes (ll_heap l) as)"
    using repr by (auto simp: ll_repr_def)
  have node: "node \<noteq> NULL" "node \<notin> set as"
    using at fresh domIff [of node "ll_heap l"] by (simp_all add: ll_at_def fresh_in_def)
  let ?h = "(ll_heap l)(node \<mapsto> \<lparr>ln_value = v, ln_prev = NULL, ln_next = NULL\<rparr>)"
  have seg: "dseg ?h NULL (ll_head l) as (ll_tail l) NULL" using at node by (simp add: ll_at_def)
  note c = ll_count_cint [OF repr max]
  obtain h1 where h1: "(if ll_tail l \<noteq> NULL then hset ?h (ll_tail l) (ln_next_update (\<lambda>_. node)) else Some ?h) = Some h1"
    "dseg h1 NULL (if as = [] then node else ll_head l) as (ll_tail l) node" "\<forall>x. x \<notin> set as \<longrightarrow> h1 x = ?h x"
    "dom h1 = dom ?h" "map ln_value (nodes h1 as) = map ln_value (nodes ?h as)" "ll_tail l = NULL \<longleftrightarrow> as = []"
    using dseg_redirect_next [OF seg ll_at_distinct [OF at], of node] by auto
  have h1n: "h1 node = Some \<lparr>ln_value = v, ln_prev = NULL, ln_next = NULL\<rparr>" using h1(3) node by simp
  define h2 where "h2 = h1(node \<mapsto> \<lparr>ln_value = v, ln_prev = ll_tail l, ln_next = NULL\<rparr>)"
  let ?l = "l\<lparr>ll_heap := h2, ll_head := (if as = [] then node else ll_head l), ll_tail := node, ll_count := ll_count l + 1\<rparr>"
  have "LinkedList_AddLast (Some node) l v = Some (True, ?l)"
    using h1(1,6) h1n c
    by (cases "as = []") (auto simp: LinkedList_AddLast_def Let_def hset_def h2_def fun_upd_idem)
  moreover have "dseg h2 NULL (ll_head ?l) as (ll_tail l) node" using h1(2) node by (simp add: h2_def)
  then have "dseg h2 NULL (ll_head ?l) (as @ [node]) node NULL"
    using node unfolding dseg_append by (auto simp: h2_def)
  then have "ll_at ?l (as @ [node])"
    using h1(4) node at c vs max by (auto simp: ll_at_def h2_def)
  moreover have "map ln_value (nodes h2 (as @ [node])) = vs @ [v]" using h1(5) node by (simp add: h2_def vs)
  ultimately show ?thesis unfolding ll_repr_def ll_rest_def by fastforce
qed

lemma LinkedList_read_ok:
  assumes repr: "ll_repr l vs"
  shows "LinkedList_First l = Some (case vs of [] \<Rightarrow> NULL | v # _ \<Rightarrow> v)"
    "LinkedList_Last l = Some (if vs = [] then NULL else last vs)"
    "LinkedList_Contains l v = Some (v \<in> set vs)" "LinkedList_Count l = int (length vs)"
proof -
  obtain as where at: "ll_at l as" and vs: "vs = map ln_value (nodes (ll_heap l) as)"
    using repr by (auto simp: ll_repr_def)
  have seg: "lseg ln_next (ll_heap l) (ll_head l) as NULL" using at dseg_lseg by (auto simp: ll_at_def)
  show "LinkedList_First l = Some (case vs of [] \<Rightarrow> NULL | v # _ \<Rightarrow> v)"
    using seg vs by (cases as) (auto simp: LinkedList_First_def)
  show "LinkedList_Last l = Some (if vs = [] then NULL else last vs)"
    using at vs by (cases as rule: rev_cases) (auto simp: LinkedList_Last_def ll_at_def dseg_append)
  show "LinkedList_Count l = int (length vs)" using at vs by (simp add: LinkedList_Count_def ll_at_def)
  let ?P = "\<lambda>a. ln_value (the (ll_heap l a)) = v"
  have "(case List.find ?P as of None \<Rightarrow> NULL | Some a \<Rightarrow> a) \<noteq> NULL \<longleftrightarrow> v \<in> set vs"
  proof (cases "List.find ?P as")
    case None
    then have "v \<notin> set vs" by (auto simp: find_None_iff vs nodes_def)
    then show ?thesis using None by simp
  next
    case (Some a)
    from find_split [OF this] have a: "a \<in> set as" "?P a" by auto
    then have "a \<noteq> NULL" using ll_at_NULL [OF at] by metis
    moreover have "v \<in> set vs" using a by (auto simp: vs nodes_def)
    ultimately show ?thesis using Some by simp
  qed
  moreover have "ll_head l = NULL \<Longrightarrow> vs = []" using ll_at_head [OF at] ll_at_NULL [OF at] vs by (cases as) auto
  ultimately show "LinkedList_Contains l v = Some (v \<in> set vs)"
    using chain_find_ok [OF seg, of "\<lambda>n. ln_value n = v"] by (auto simp: LinkedList_Contains_def)
qed

lemma ll_clear_loop_ok:
  "lseg ln_next h p as NULL \<Longrightarrow> dom h = set as \<Longrightarrow> ll_clear_loop h p = Some (\<lambda>_. None)"
proof (induction as arbitrary: h p)
  case Nil
  then show ?case by (subst ll_clear_loop.simps) auto
next
  case (Cons a as)
  then obtain n where n: "p = a" "a \<noteq> NULL" "h a = Some n" "lseg ln_next h (ln_next n) as NULL" by auto
  have a: "a \<notin> set as" using lseg_distinct [OF Cons.prems(1)] by simp
  have "ll_clear_loop h p = ll_clear_loop (h(a := None)) (ln_next n)"
    using n by (subst ll_clear_loop.simps) (simp add: Let_def hfree_def)
  also have "\<dots> = Some (\<lambda>_. None)"
  proof (rule Cons.IH)
    show "lseg ln_next (h(a := None)) (ln_next n) as NULL" using n a by simp
    show "dom (h(a := None)) = set as" using a Cons.prems(2) by simp
  qed
  finally show ?case .
qed

lemma LinkedList_Clear_ok:
  assumes repr: "ll_repr l vs"
  shows "\<exists>l'. LinkedList_Clear l = Some l' \<and> ll_repr l' [] \<and> ll_heap l' = (\<lambda>_. None) \<and> ll_rest l' = ll_rest l"
proof -
  obtain as where at: "ll_at l as" using repr by (auto simp: ll_repr_def)
  have seg: "lseg ln_next (ll_heap l) (ll_head l) as NULL" using at dseg_lseg by (auto simp: ll_at_def)
  show ?thesis
  proof (cases "ll_head l = NULL")
    case True
    then have "as = []" using ll_at_head [OF at] ll_at_NULL [OF at] by (cases as) auto
    then show ?thesis using at True
      by (auto simp: LinkedList_Clear_def ll_repr_def ll_at_def intro!: exI [of _ "[]"])
  next
    case False
    then show ?thesis using ll_clear_loop_ok [OF seg] at
      by (auto simp: LinkedList_Clear_def ll_repr_def ll_at_def ll_rest_def intro!: exI [of _ "[]"])
  qed
qed

section \<open>Properties\<close>

text \<open>The calls on a list object; an address is what \<open>malloc\<close> returns for the new node.\<close>

datatype ll_op = LL_AddFirst ptr ptr | LL_AddLast ptr ptr | LL_Remove ptr | LL_RemoveFirst | LL_RemoveLast
  | LL_First | LL_Last | LL_Contains ptr | LL_Count | LL_Clear

datatype ll_ret = LInt int | LBool bool | LPtr ptr | LVoid

fun ll_exec :: "ll_op \<Rightarrow> wLinkedList \<Rightarrow> (ll_ret \<times> wLinkedList) option" where
  "ll_exec (LL_AddFirst a v) l = map_option (map_prod LBool id) (LinkedList_AddFirst (Some a) l v)"
| "ll_exec (LL_AddLast a v) l = map_option (map_prod LBool id) (LinkedList_AddLast (Some a) l v)"
| "ll_exec (LL_Remove v) l = map_option (map_prod LBool id) (LinkedList_Remove l v)"
| "ll_exec LL_RemoveFirst l = map_option (Pair LVoid) (LinkedList_RemoveFirst l)"
| "ll_exec LL_RemoveLast l = map_option (Pair LVoid) (LinkedList_RemoveLast l)"
| "ll_exec LL_First l = map_option (\<lambda>x. (LPtr x, l)) (LinkedList_First l)"
| "ll_exec LL_Last l = map_option (\<lambda>x. (LPtr x, l)) (LinkedList_Last l)"
| "ll_exec (LL_Contains v) l = map_option (\<lambda>b. (LBool b, l)) (LinkedList_Contains l v)"
| "ll_exec LL_Count l = Some (LInt (LinkedList_Count l), l)"
| "ll_exec LL_Clear l = map_option (Pair LVoid) (LinkedList_Clear l)"

fun ll_spec :: "ll_op \<Rightarrow> ptr list \<Rightarrow> ll_ret \<times> ptr list" where
  "ll_spec (LL_AddFirst a v) vs = (LBool True, v # vs)"
| "ll_spec (LL_AddLast a v) vs = (LBool True, vs @ [v])"
| "ll_spec (LL_Remove v) vs = (LBool (v \<in> set vs), remove1 v vs)"
| "ll_spec LL_RemoveFirst vs = (LVoid, tl vs)"
| "ll_spec LL_RemoveLast vs = (LVoid, butlast vs)"
| "ll_spec LL_First vs = (LPtr (case vs of [] \<Rightarrow> NULL | v # _ \<Rightarrow> v), vs)"
| "ll_spec LL_Last vs = (LPtr (if vs = [] then NULL else last vs), vs)"
| "ll_spec (LL_Contains v) vs = (LBool (v \<in> set vs), vs)"
| "ll_spec LL_Count vs = (LInt (int (length vs)), vs)"
| "ll_spec LL_Clear vs = (LVoid, [])"

text \<open>\<open>malloc\<close> returns an address that is free in the heap the call meets.\<close>

fun ll_malloc_ok :: "ll_op \<Rightarrow> wLinkedList \<Rightarrow> bool" where
  "ll_malloc_ok (LL_AddFirst a v) l = fresh_in (ll_heap l) a"
| "ll_malloc_ok (LL_AddLast a v) l = fresh_in (ll_heap l) a"
| "ll_malloc_ok _ l = True"

fun ll_run :: "ll_op list \<Rightarrow> wLinkedList \<Rightarrow> (ll_ret list \<times> wLinkedList) option" where
  "ll_run [] l = Some ([], l)"
| "ll_run (c # cs) l = do { (r, l) \<leftarrow> ll_exec c l; (rs, l) \<leftarrow> ll_run cs l; Some (r # rs, l) }"

fun ll_run_spec :: "ll_op list \<Rightarrow> ptr list \<Rightarrow> ll_ret list \<times> ptr list" where
  "ll_run_spec [] vs = ([], vs)"
| "ll_run_spec (c # cs) vs =
     (let (r, vs) = ll_spec c vs; (rs, vs) = ll_run_spec cs vs in (r # rs, vs))"

fun ll_run_malloc_ok :: "ll_op list \<Rightarrow> wLinkedList \<Rightarrow> bool" where
  "ll_run_malloc_ok [] l = True"
| "ll_run_malloc_ok (c # cs) l =
     (ll_malloc_ok c l \<and> (case ll_exec c l of None \<Rightarrow> True | Some (r, l') \<Rightarrow> ll_run_malloc_ok cs l'))"

lemma ll_exec_ok:
  assumes "ll_repr l vs" and "ll_malloc_ok c l" and "int (length vs) < INT_MAX"
  shows "\<exists>l'. ll_exec c l = Some (fst (ll_spec c vs), l') \<and> ll_repr l' (snd (ll_spec c vs))"
  using assms LinkedList_read_ok [OF assms(1)]
proof (cases c)
  case (LL_AddFirst a v)
  then show ?thesis using LinkedList_AddFirst_ok [OF assms(1) _ assms(3), of a v] assms(2) by auto
next
  case (LL_AddLast a v)
  then show ?thesis using LinkedList_AddLast_ok [OF assms(1) _ assms(3), of a v] assms(2) by auto
next
  case (LL_Remove v)
  then show ?thesis using LinkedList_Remove_ok [OF assms(1), of v] by auto
next
  case LL_RemoveFirst
  then show ?thesis using LinkedList_RemoveFirst_ok [OF assms(1)] by auto
next
  case LL_RemoveLast
  then show ?thesis using LinkedList_RemoveLast_ok [OF assms(1)] by auto
next
  case LL_Clear
  then show ?thesis using LinkedList_Clear_ok [OF assms(1)] by auto
qed simp_all

lemma ll_spec_length: "length (snd (ll_spec c vs)) \<le> Suc (length vs)"
  by (cases c) (auto simp: length_remove1)

lemma ll_run_ok:
  assumes "ll_repr l vs" and "ll_run_malloc_ok cs l" and "int (length vs) + int (length cs) \<le> INT_MAX"
  shows "\<exists>l'. ll_run cs l = Some (fst (ll_run_spec cs vs), l') \<and> ll_repr l' (snd (ll_run_spec cs vs))"
  using assms
proof (induction cs arbitrary: l vs)
  case (Cons c cs)
  from Cons.prems have "ll_malloc_ok c l" and "int (length vs) < INT_MAX" by simp_all
  from ll_exec_ok [OF Cons.prems(1) this] obtain l1 where l1:
    "ll_exec c l = Some (fst (ll_spec c vs), l1)" "ll_repr l1 (snd (ll_spec c vs))" by blast
  have "ll_run_malloc_ok cs l1" using Cons.prems(2) l1(1) by simp
  moreover have "int (length (snd (ll_spec c vs))) + int (length cs) \<le> INT_MAX"
    using ll_spec_length [of c vs] Cons.prems(3) by simp
  ultimately show ?case using Cons.IH [OF l1(2)] l1(1) by (auto simp: split_beta Let_def)
qed simp

text \<open>C32. Any sequence of calls on a fresh doubly linked list (adding and removing at both ends,
  removing a value, the reads, clearing) does what the list specification does, and keeps both link
  directions, the count and the ends consistent; the heap holds exactly the nodes of the list, so
  none is lost, freed twice or used after it was freed.\<close>
theorem LinkedList_run_list:
  assumes "LinkedList_New True = Some l" and "ll_run_malloc_ok cs l" and "int (length cs) \<le> INT_MAX"
  shows "\<exists>l'. ll_run cs l = Some (fst (ll_run_spec cs []), l') \<and> ll_repr l' (snd (ll_run_spec cs []))"
  using ll_run_ok [OF LinkedList_New_repr [OF assms(1)] assms(2)] assms(3) by simp

theorem LinkedList_run_list_witness:
  "\<exists>l l'. LinkedList_New True = Some l
    \<and> ll_run [LL_AddLast 100 1, LL_AddFirst 200 2, LL_AddLast 300 3, LL_Remove 1, LL_AddLast 100 4,
        LL_First, LL_Last, LL_RemoveFirst, LL_RemoveLast, LL_Last, LL_Count] l =
      Some ([LBool True, LBool True, LBool True, LBool True, LBool True, LPtr 2, LPtr 4, LVoid, LVoid,
        LPtr 3, LInt 1], l')"
proof -
  let ?cs = "[LL_AddLast 100 1, LL_AddFirst 200 2, LL_AddLast 300 3, LL_Remove 1, LL_AddLast 100 4,
        LL_First, LL_Last, LL_RemoveFirst, LL_RemoveLast, LL_Last, LL_Count]"
  obtain l where l: "LinkedList_New True = Some l"
    and l_def: "l = \<lparr>ll_count = 0, ll_initial = 0, ll_head = NULL, ll_tail = NULL, ll_current = NULL,
        ll_heap = (\<lambda>_. None)\<rparr>" by (simp add: LinkedList_New_def)
  have "ll_run_malloc_ok ?cs l" unfolding l_def by code_simp
  from LinkedList_run_list [OF l this] l show ?thesis by auto
qed

text \<open>The client's loop: reset the enumerator, then move and read until it says \<open>FALSE\<close>.\<close>

partial_function (option) ll_enumerate_loop :: "wLinkedList \<Rightarrow> ptr list option" where
  "ll_enumerate_loop l = do {
     (more, l) \<leftarrow> LinkedList_Enumerator_MoveNext l;
     if more then do {
       v \<leftarrow> LinkedList_Enumerator_Current l;
       vs \<leftarrow> ll_enumerate_loop l;
       Some (v # vs)
     } else Some [] }"

definition ll_enumerate :: "wLinkedList \<Rightarrow> ptr list option" where
  "ll_enumerate l = ll_enumerate_loop (LinkedList_Enumerator_Reset l)"

lemma ll_enumerate_from:
  assumes "ll_initial l = 0" and "ll_current l = a" and "lseg ln_next (ll_heap l) a (a # as) NULL"
  shows "ll_enumerate_loop l = Some (map ln_value (nodes (ll_heap l) as))"
  using assms
proof (induction as arbitrary: l a)
  case Nil
  then show ?case by (subst ll_enumerate_loop.simps) (auto simp: LinkedList_Enumerator_MoveNext_def)
next
  case (Cons b as)
  obtain n m where n: "ll_heap l a = Some n" "a \<noteq> NULL" "ln_next n = b" "ll_heap l b = Some m" "b \<noteq> NULL"
    and seg: "lseg ln_next (ll_heap l) b (b # as) NULL" using Cons.prems(3) by auto
  let ?l = "l\<lparr>ll_current := b\<rparr>"
  have "ll_enumerate_loop ?l = Some (map ln_value (nodes (ll_heap l) as))"
    using Cons.IH [of ?l b] Cons.prems(1) seg by simp
  then show ?case using n Cons.prems(1,2)
    by (subst ll_enumerate_loop.simps)
      (simp add: LinkedList_Enumerator_MoveNext_def LinkedList_Enumerator_Current_def)
qed

text \<open>Enumerating a list visits every value once, first to last, and then ends.\<close>
theorem LinkedList_enumerates:
  assumes "ll_repr l vs"
  shows "ll_enumerate l = Some vs"
proof -
  obtain as where at: "ll_at l as" and vs: "vs = map ln_value (nodes (ll_heap l) as)"
    using assms by (auto simp: ll_repr_def)
  have seg: "lseg ln_next (ll_heap l) (ll_head l) as NULL" using at dseg_lseg by (auto simp: ll_at_def)
  show ?thesis
  proof (cases as)
    case Nil
    then show ?thesis using ll_at_head [OF at] vs unfolding ll_enumerate_def LinkedList_Enumerator_Reset_def
      by (subst ll_enumerate_loop.simps) (simp add: LinkedList_Enumerator_MoveNext_def)
  next
    case (Cons a as')
    then obtain n where n: "ll_head l = a" "ll_heap l a = Some n" "a \<noteq> NULL" using seg by auto
    let ?l = "l\<lparr>ll_current := a, ll_initial := 0\<rparr>"
    have "ll_enumerate_loop ?l = Some (map ln_value (nodes (ll_heap l) as'))"
      using ll_enumerate_from [of ?l a as'] seg Cons n by simp
    then show ?thesis using n vs Cons unfolding ll_enumerate_def LinkedList_Enumerator_Reset_def
      by (subst ll_enumerate_loop.simps)
        (simp add: LinkedList_Enumerator_MoveNext_def LinkedList_Enumerator_Current_def)
  qed
qed

theorem LinkedList_enumerates_witness:
  "ll_enumerate \<lparr>ll_count = 2, ll_initial = 0, ll_head = 5, ll_tail = 9, ll_current = NULL,
     ll_heap = [5 \<mapsto> \<lparr>ln_value = 1, ln_prev = NULL, ln_next = 9\<rparr>, 9 \<mapsto> \<lparr>ln_value = 2, ln_prev = 5, ln_next = NULL\<rparr>]\<rparr> =
   Some [1, 2]"
proof (rule LinkedList_enumerates)
  let ?l = "\<lparr>ll_count = 2, ll_initial = 0, ll_head = 5 :: ptr, ll_tail = 9, ll_current = NULL,
     ll_heap = [5 \<mapsto> \<lparr>ln_value = 1, ln_prev = NULL, ln_next = 9\<rparr>, 9 \<mapsto> \<lparr>ln_value = 2, ln_prev = 5, ln_next = NULL\<rparr>]\<rparr>"
  have "ll_at ?l [5, 9]" by (auto simp: ll_at_def)
  then show "ll_repr ?l [1, 2]" unfolding ll_repr_def by (intro exI [of _ "[5, 9]"]) simp
qed

end
