(* ===== verification/WBufferPool.thy ===== *)
theory WBufferPool
  imports CPrelude
begin

text \<open>
  \<open>wBufferPool\<close> of \<open>winpr/libwinpr/utils/collections/BufferPool.c\<close>. The heap blocks behind the
  buffers are the map \<open>bp_blocks\<close> from an address to the size of the block and whether it came from
  \<open>_aligned_malloc\<close>; freeing an address that is not a block, or with the wrong one of \<open>free\<close> and
  \<open>_aligned_free\<close>, is undefined behaviour (\<open>None\<close>).
\<close>

section \<open>State\<close>

record wBufferPoolItem =
  bi_size :: int
  bi_buffer :: ptr

record wBufferPool =
  bp_fixedSize :: int
  bp_alignment :: int
  bp_synchronized :: bool
  bp_lock :: int
  bp_size :: int
  bp_capacity :: int
  bp_array :: "ptr list"
  bp_aSize :: int
  bp_aCapacity :: int
  bp_aArray :: "wBufferPoolItem list"
  bp_uSize :: int
  bp_uCapacity :: int
  bp_uArray :: "wBufferPoolItem list"
  bp_blocks :: "ptr \<Rightarrow> (int \<times> bool) option"

definition bp_enter :: "wBufferPool \<Rightarrow> wBufferPool" where
  "bp_enter p = (if bp_synchronized p then p\<lparr>bp_lock := bp_lock p + 1\<rparr> else p)"

definition bp_leave :: "wBufferPool \<Rightarrow> wBufferPool" where
  "bp_leave p = (if bp_synchronized p then p\<lparr>bp_lock := bp_lock p - 1\<rparr> else p)"

section \<open>Blocks\<close>

text \<open>\<open>malloc\<close> or \<open>_aligned_malloc\<close> of a buffer, with its outcome.\<close>

definition bp_malloc :: "ptr option \<Rightarrow> bool \<Rightarrow> int \<Rightarrow> wBufferPool \<Rightarrow> ptr \<times> wBufferPool" where
  "bp_malloc mem aligned n p = (case mem of
       None \<Rightarrow> (NULL, p)
     | Some b \<Rightarrow> (b, p\<lparr>bp_blocks := (bp_blocks p)(b \<mapsto> (n, aligned))\<rparr>))"

definition bp_free :: "bool \<Rightarrow> ptr \<Rightarrow> wBufferPool \<Rightarrow> wBufferPool option" where
  "bp_free aligned b p =
     (if b = NULL then Some p
      else case bp_blocks p b of
        None \<Rightarrow> None
      | Some (n, al) \<Rightarrow> if al = aligned then Some (p\<lparr>bp_blocks := (bp_blocks p)(b := None)\<rparr>) else None)"

text \<open>\<open>realloc\<close> of a buffer; \<open>None\<close> inside when it fails and the block stays.\<close>

definition bp_realloc :: "ptr option \<Rightarrow> ptr \<Rightarrow> int \<Rightarrow> wBufferPool \<Rightarrow> (ptr \<times> wBufferPool) option option" where
  "bp_realloc mem b n p = (case mem of
       None \<Rightarrow> Some None
     | Some b' \<Rightarrow> do {
         p \<leftarrow> bp_free False b p;
         Some (Some (b', p\<lparr>bp_blocks := (bp_blocks p)(b' \<mapsto> (n, False))\<rparr>)) })"

section \<open>Operations\<close>

definition BufferPool_ShiftAvailable ::
    "wBufferPoolItem fresh \<Rightarrow> wBufferPool \<Rightarrow> int \<Rightarrow> int \<Rightarrow> (bool \<times> wBufferPool) option" where
  "BufferPool_ShiftAvailable mem p index count =
     (if 0 < count then do {
        need \<leftarrow> cint (bp_aSize p + count);
        g \<leftarrow> (if bp_aCapacity p < need then do {
                newCapacity \<leftarrow> cint (bp_aCapacity p * 2);
                (case mem of
                   None \<Rightarrow> Some None
                 | Some j \<Rightarrow> Some (Some (p\<lparr>bp_aArray := arealloc (bp_aArray p) newCapacity j,
                     bp_aCapacity := newCapacity\<rparr>)))
              } else Some (Some p));
        (case g of
           None \<Rightarrow> Some (False, p)
         | Some p \<Rightarrow> do {
             arr \<leftarrow> amove (bp_aArray p) (index + count) index (bp_aSize p - index);
             n \<leftarrow> cint (bp_aSize p + count);
             Some (True, p\<lparr>bp_aArray := arr, bp_aSize := n\<rparr>) })
      } else if count < 0 then do {
        arr \<leftarrow> amove (bp_aArray p) index (index - count) (bp_aSize p - index);
        n \<leftarrow> cint (bp_aSize p + count);
        Some (True, p\<lparr>bp_aArray := arr, bp_aSize := n\<rparr>)
      } else Some (True, p))"

definition BufferPool_ShiftUsed ::
    "wBufferPoolItem fresh \<Rightarrow> wBufferPool \<Rightarrow> int \<Rightarrow> int \<Rightarrow> (bool \<times> wBufferPool) option" where
  "BufferPool_ShiftUsed mem p index count =
     (if 0 < count then do {
        need \<leftarrow> cint (bp_uSize p + count);
        g \<leftarrow> (if bp_uCapacity p < need then do {
                newUCapacity \<leftarrow> cint (bp_uCapacity p * 2);
                (case mem of
                   None \<Rightarrow> Some None
                 | Some j \<Rightarrow> Some (Some (p\<lparr>bp_uCapacity := newUCapacity,
                     bp_uArray := arealloc (bp_uArray p) newUCapacity j\<rparr>)))
              } else Some (Some p));
        (case g of
           None \<Rightarrow> Some (False, p)
         | Some p \<Rightarrow> do {
             arr \<leftarrow> amove (bp_uArray p) (index + count) index (bp_uSize p - index);
             n \<leftarrow> cint (bp_uSize p + count);
             Some (True, p\<lparr>bp_uArray := arr, bp_uSize := n\<rparr>) })
      } else if count < 0 then do {
        arr \<leftarrow> amove (bp_uArray p) index (index - count) (bp_uSize p - index);
        n \<leftarrow> cint (bp_uSize p + count);
        Some (True, p\<lparr>bp_uArray := arr, bp_uSize := n\<rparr>)
      } else Some (True, p))"

definition BufferPool_GetPoolSize :: "wBufferPool \<Rightarrow> int \<times> wBufferPool" where
  "BufferPool_GetPoolSize p0 =
     (let p = bp_enter p0;
          sz = (if bp_fixedSize p \<noteq> 0 then bp_size p else bp_uSize p)
      in (sz, bp_leave p))"

text \<open>The search for a buffer among the used ones.\<close>

definition bp_find_used :: "wBufferPool \<Rightarrow> ptr \<Rightarrow> int option option" where
  "bp_find_used p buffer =
     searchM (\<lambda>i. do { x \<leftarrow> aget (bp_uArray p) i; Some (bi_buffer x = buffer) }) [0..bp_uSize p - 1]"

definition BufferPool_GetBufferSize :: "wBufferPool \<Rightarrow> ptr \<Rightarrow> (int \<times> wBufferPool) option" where
  "BufferPool_GetBufferSize p0 buffer = do {
     let p = bp_enter p0;
     (found, sz) \<leftarrow> (if bp_fixedSize p \<noteq> 0 then Some (True, bp_fixedSize p)
       else do {
         r \<leftarrow> bp_find_used p buffer;
         (case r of None \<Rightarrow> Some (False, 0)
          | Some index \<Rightarrow> do { x \<leftarrow> aget (bp_uArray p) index; Some (True, bi_size x) }) });
     Some (if found then sz else - 1, bp_leave p) }"

text \<open>The scan of the available buffers: found, its index, and the largest size with its index.\<close>

fun bp_scan :: "wBufferPoolItem list \<Rightarrow> int \<Rightarrow> int list \<Rightarrow> int \<Rightarrow> int \<Rightarrow> (bool \<times> int \<times> int \<times> int) option" where
  "bp_scan arr sz [] maxSize maxIndex = Some (False, 0, maxSize, maxIndex)"
| "bp_scan arr sz (index # is) maxSize maxIndex = do {
     x \<leftarrow> aget arr index;
     let (maxSize, maxIndex) = (if bi_size x > maxSize then (bi_size x, index) else (maxSize, maxIndex));
     if bi_size x \<ge> sz then Some (True, index, maxSize, maxIndex)
     else bp_scan arr sz is maxSize maxIndex }"

text \<open>
  \<open>BufferPool_Take\<close>: \<open>mem\<close> is the outcome of the allocation or reallocation of the buffer, \<open>memu\<close>
  that of the array of used buffers. The error exit frees the buffer, whatever array still names it.
\<close>

definition bp_take_error :: "wBufferPool \<Rightarrow> ptr \<Rightarrow> (ptr \<times> wBufferPool) option" where
  "bp_take_error p buffer = do {
     p \<leftarrow> (if buffer \<noteq> NULL then bp_free False buffer p else Some p);
     Some (NULL, bp_leave p) }"

definition bp_take_used :: "wBufferPoolItem fresh \<Rightarrow> wBufferPool \<Rightarrow> ptr \<Rightarrow> int \<Rightarrow> (ptr \<times> wBufferPool) option" where
  "bp_take_used memu p buffer sz = do {
     need \<leftarrow> cint (bp_uSize p + 1);
     g \<leftarrow> (if bp_uCapacity p < need then do {
             newUCapacity \<leftarrow> cint (bp_uCapacity p * 2);
             (case memu of
                None \<Rightarrow> Some None
              | Some j \<Rightarrow> Some (Some (p\<lparr>bp_uCapacity := newUCapacity,
                  bp_uArray := arealloc (bp_uArray p) newUCapacity j\<rparr>)))
           } else Some (Some p));
     (case g of
        None \<Rightarrow> bp_take_error p buffer
      | Some p \<Rightarrow> do {
          arr \<leftarrow> aset (bp_uArray p) (bp_uSize p) \<lparr>bi_size = sz, bi_buffer = buffer\<rparr>;
          Some (buffer, bp_leave (p\<lparr>bp_uArray := arr, bp_uSize := need\<rparr>)) }) }"

definition bp_take_avail ::
    "wBufferPoolItem fresh \<Rightarrow> wBufferPool \<Rightarrow> ptr \<Rightarrow> int \<Rightarrow> int \<Rightarrow> (ptr \<times> wBufferPool) option" where
  "bp_take_avail memu p buffer foundIndex sz = do {
     (ok, p) \<leftarrow> BufferPool_ShiftAvailable None p foundIndex (- 1);
     if \<not> ok then bp_take_error p buffer
     else if buffer = NULL then bp_take_error p buffer
     else bp_take_used memu p buffer sz }"

definition BufferPool_Take ::
    "ptr option \<Rightarrow> wBufferPoolItem fresh \<Rightarrow> wBufferPool \<Rightarrow> int \<Rightarrow> (ptr \<times> wBufferPool) option" where
  "BufferPool_Take mem memu p0 sz = do {
     let p = bp_enter p0;
     let aligned = (bp_alignment p \<noteq> 0);
     if bp_fixedSize p \<noteq> 0 then do {
       (buffer, p) \<leftarrow> (if 0 < bp_size p then do {
            let p = p\<lparr>bp_size := bp_size p - 1\<rparr>;
            b \<leftarrow> aget (bp_array p) (bp_size p);
            Some (b, p)
          } else Some (NULL, p));
       let (buffer, p) = (if buffer = NULL then bp_malloc mem aligned (bp_fixedSize p) p else (buffer, p));
       if buffer = NULL then bp_take_error p buffer else Some (buffer, bp_leave p)
     } else do {
       let sz = (if sz < 1 then bp_fixedSize p else sz);
       (found, foundIndex, maxSize, maxIndex) \<leftarrow> bp_scan (bp_aArray p) sz [0..bp_aSize p - 1] 0 0;
       let (found, foundIndex) = (if \<not> found \<and> maxSize \<noteq> 0 then (True, maxIndex) else (found, foundIndex));
       if \<not> found then do {
         let (buffer, p) = (if sz = 0 then (NULL, p) else bp_malloc mem aligned sz p);
         if buffer = NULL then bp_take_error p buffer else bp_take_used memu p buffer sz
       } else do {
         x \<leftarrow> aget (bp_aArray p) foundIndex;
         let buffer = bi_buffer x;
         r \<leftarrow> (if maxSize < sz then
                 (if aligned then do {
                    p \<leftarrow> bp_free True buffer p;
                    Some (Some (bp_malloc mem True sz p))
                  } else bp_realloc mem buffer sz p)
               else Some (Some (buffer, p)));
         (case r of
            None \<Rightarrow> bp_take_error p buffer
          | Some (buffer, p) \<Rightarrow> bp_take_avail memu p buffer foundIndex sz) } } }"

definition BufferPool_Return ::
    "ptr fresh \<Rightarrow> wBufferPoolItem fresh \<Rightarrow> wBufferPool \<Rightarrow> ptr \<Rightarrow> (bool \<times> wBufferPool) option" where
  "BufferPool_Return mem mema p0 buffer = do {
     let p = bp_enter p0;
     if bp_fixedSize p \<noteq> 0 then do {
       need \<leftarrow> cint (bp_size p + 1);
       g \<leftarrow> (if bp_capacity p \<le> need then do {
               newCapacity \<leftarrow> cint (bp_capacity p * 2);
               (case mem of
                  None \<Rightarrow> Some None
                | Some j \<Rightarrow> Some (Some (p\<lparr>bp_capacity := newCapacity,
                    bp_array := arealloc (bp_array p) newCapacity j\<rparr>)))
             } else Some (Some p));
       (case g of
          None \<Rightarrow> Some (False, bp_leave p)
        | Some p \<Rightarrow> do {
            arr \<leftarrow> aset (bp_array p) (bp_size p) buffer;
            Some (True, bp_leave (p\<lparr>bp_array := arr, bp_size := need\<rparr>)) })
     } else do {
       r \<leftarrow> bp_find_used p buffer;
       (ok, sz, p) \<leftarrow> (case r of
           None \<Rightarrow> Some (True, 0, p)
         | Some index \<Rightarrow> do {
             x \<leftarrow> aget (bp_uArray p) index;
             (ok, p) \<leftarrow> BufferPool_ShiftUsed None p index (- 1);
             Some (ok, bi_size x, p) });
       if \<not> ok then Some (False, bp_leave p)
       else if sz = 0 then Some (True, bp_leave p)
       else do {
         need \<leftarrow> cint (bp_aSize p + 1);
         g \<leftarrow> (if bp_aCapacity p \<le> need then do {
                 newCapacity \<leftarrow> cint (bp_aCapacity p * 2);
                 (case mema of
                    None \<Rightarrow> Some None
                  | Some j \<Rightarrow> Some (Some (p\<lparr>bp_aCapacity := newCapacity,
                      bp_aArray := arealloc (bp_aArray p) newCapacity j\<rparr>)))
               } else Some (Some p));
         (case g of
            None \<Rightarrow> Some (False, bp_leave p)
          | Some p \<Rightarrow> do {
              arr \<leftarrow> aset (bp_aArray p) (bp_aSize p) \<lparr>bi_size = sz, bi_buffer = buffer\<rparr>;
              Some (True, bp_leave (p\<lparr>bp_aArray := arr, bp_aSize := need\<rparr>)) }) } } }"

text \<open>The three loops of \<open>BufferPool_Clear\<close>, over the decreasing sizes.\<close>

definition BufferPool_Clear :: "wBufferPool \<Rightarrow> wBufferPool option" where
  "BufferPool_Clear p0 = do {
     let p = bp_enter p0;
     let aligned = (bp_alignment p \<noteq> 0);
     p \<leftarrow> (if bp_fixedSize p \<noteq> 0 then
             foldM (\<lambda>i p. do {
               b \<leftarrow> aget (bp_array p) i;
               bp_free aligned b (p\<lparr>bp_size := i\<rparr>) }) (rev [0..bp_size p - 1]) p
           else do {
             p \<leftarrow> foldM (\<lambda>i p. do {
                    x \<leftarrow> aget (bp_aArray p) i;
                    bp_free aligned (bi_buffer x) (p\<lparr>bp_aSize := i\<rparr>) }) (rev [0..bp_aSize p - 1]) p;
             foldM (\<lambda>i p. do {
               x \<leftarrow> aget (bp_uArray p) i;
               bp_free aligned (bi_buffer x) (p\<lparr>bp_uSize := i\<rparr>) }) (rev [0..bp_uSize p - 1]) p });
     Some (bp_leave p) }"

text \<open>
  The constructor: the outcome of the allocation of the struct, and the arbitrary cells of the arrays,
  whose allocation is not checked (without memory they have no cells). The fields the constructor does
  not set keep the values of \<open>u\<close>.
\<close>

definition BufferPool_New ::
    "bool \<Rightarrow> wBufferPool \<Rightarrow> ptr fresh \<Rightarrow> wBufferPoolItem fresh \<Rightarrow> wBufferPoolItem fresh \<Rightarrow> bool \<Rightarrow> int \<Rightarrow> int \<Rightarrow>
     wBufferPool option" where
  "BufferPool_New mem u mem1 mem2 mem3 synchronized fixedSize alignment =
     (if \<not> mem then None
      else let
        fixed = (if fixedSize < 0 then 0 else fixedSize);
        cells = (\<lambda>m. case m of None \<Rightarrow> [] | Some j \<Rightarrow> map j [0..<32]);
        cells' = (\<lambda>m. case m of None \<Rightarrow> [] | Some j \<Rightarrow> map j [0..<32]);
        p = u\<lparr>bp_fixedSize := fixed, bp_alignment := alignment, bp_synchronized := synchronized, bp_lock := 0\<rparr>
      in Some (if fixed \<noteq> 0 then p\<lparr>bp_size := 0, bp_capacity := 32, bp_array := cells mem1\<rparr>
               else p\<lparr>bp_aSize := 0, bp_aCapacity := 32, bp_aArray := cells' mem2,
                 bp_uSize := 0, bp_uCapacity := 32, bp_uArray := cells' mem3\<rparr>))"

text \<open>\<open>BufferPool_Free\<close>: the blocks that are left once the pool is gone.\<close>

definition BufferPool_Free :: "wBufferPool option \<Rightarrow> (ptr \<Rightarrow> (int \<times> bool) option) option" where
  "BufferPool_Free pool = (case pool of None \<Rightarrow> Some (\<lambda>_. None)
     | Some p \<Rightarrow> do { p \<leftarrow> BufferPool_Clear p; Some (bp_blocks p) })"

section \<open>Invariant\<close>

definition bp_avail :: "wBufferPool \<Rightarrow> wBufferPoolItem list" where
  "bp_avail p = take (nat (bp_aSize p)) (bp_aArray p)"

definition bp_used :: "wBufferPool \<Rightarrow> wBufferPoolItem list" where
  "bp_used p = take (nat (bp_uSize p)) (bp_uArray p)"

text \<open>
  The blocks are exactly the buffers of the pool, each in one place, each at least as large as the
  size the pool records for it.
\<close>

definition bp_contents :: "bool \<Rightarrow> wBufferPoolItem list \<Rightarrow> wBufferPoolItem list \<Rightarrow>
    (ptr \<Rightarrow> (int \<times> bool) option) \<Rightarrow> bool" where
  "bp_contents al xs us bl \<longleftrightarrow>
     (\<forall>x \<in> set (xs @ us). 0 < bi_size x \<and> bi_buffer x \<noteq> NULL
        \<and> (\<exists>n. bl (bi_buffer x) = Some (n, al) \<and> bi_size x \<le> n))
     \<and> distinct (map bi_buffer (xs @ us)) \<and> dom bl = bi_buffer ` set (xs @ us)"

definition bp_shape :: "wBufferPool \<Rightarrow> bool" where
  "bp_shape p \<longleftrightarrow> bp_fixedSize p = 0
     \<and> int (length (bp_aArray p)) = bp_aCapacity p \<and> bp_aCapacity p \<le> INT_MAX
     \<and> 0 \<le> bp_aSize p \<and> bp_aSize p < bp_aCapacity p
     \<and> int (length (bp_uArray p)) = bp_uCapacity p \<and> bp_uCapacity p \<le> INT_MAX
     \<and> 0 \<le> bp_uSize p \<and> bp_uSize p \<le> bp_uCapacity p \<and> 0 < bp_uCapacity p"

definition bp_ok :: "wBufferPool \<Rightarrow> bool" where
  "bp_ok p \<longleftrightarrow> bp_shape p \<and> bp_contents (bp_alignment p \<noteq> 0) (bp_avail p) (bp_used p) (bp_blocks p)"

definition remove_nth :: "nat \<Rightarrow> 'a list \<Rightarrow> 'a list" where
  "remove_nth i xs = take i xs @ drop (Suc i) xs"

lemma remove_nth_split:
  assumes "i < length xs"
  obtains l r where "xs = l @ xs ! i # r" "remove_nth i xs = l @ r"
  using id_take_nth_drop [OF assms] by (simp add: remove_nth_def)

lemma bp_contents_take:
  assumes c: "bp_contents al xs us bl" and i: "i < length xs" and sz: "0 < sz" "sz \<le> bi_size (xs ! i)"
  shows "bp_contents al (remove_nth i xs) (us @ [\<lparr>bi_size = sz, bi_buffer = bi_buffer (xs ! i)\<rparr>]) bl"
proof -
  obtain l r where s: "xs = l @ xs ! i # r" "remove_nth i xs = l @ r" using remove_nth_split [OF i] .
  define x where "x = xs ! i"
  have "bp_contents al (l @ x # r) us bl" using c s(1) by (simp add: x_def)
  then have "bp_contents al (l @ r) (us @ [\<lparr>bi_size = sz, bi_buffer = bi_buffer x\<rparr>]) bl"
    using sz unfolding bp_contents_def x_def [symmetric] by auto
  then show ?thesis by (simp add: s(2) x_def)
qed

lemma bp_contents_new:
  assumes c: "bp_contents al xs us bl" and b: "b \<noteq> NULL" "bl b = None" and sz: "0 < sz"
  shows "bp_contents al xs (us @ [\<lparr>bi_size = sz, bi_buffer = b\<rparr>]) (bl(b \<mapsto> (sz, al)))"
proof -
  have "b \<notin> bi_buffer ` set (xs @ us)" using c b(2) domIff [of b bl] by (simp add: bp_contents_def)
  then show ?thesis using c b(1) sz unfolding bp_contents_def by auto
qed

lemma bp_contents_drop:
  assumes c: "bp_contents al xs us bl" and i: "i < length xs"
  shows "bp_contents al (remove_nth i xs) us (bl(bi_buffer (xs ! i) := None))"
proof -
  obtain l r where s: "xs = l @ xs ! i # r" "remove_nth i xs = l @ r" using remove_nth_split [OF i] .
  define x where "x = xs ! i"
  have c': "bp_contents al (l @ x # r) us bl" using c s(1) by (simp add: x_def)
  then have "bi_buffer x \<notin> bi_buffer ` set (l @ r @ us)" by (auto simp: bp_contents_def)
  then have "\<forall>y \<in> set (l @ r @ us). bi_buffer y \<noteq> bi_buffer x" by (metis imageI)
  then have "bp_contents al (l @ r) us (bl(bi_buffer x := None))"
    using c' unfolding bp_contents_def by auto
  then show ?thesis by (simp add: s(2) x_def)
qed

lemma bp_contents_return:
  assumes c: "bp_contents al xs us bl" and i: "i < length us"
  shows "bp_contents al (xs @ [us ! i]) (remove_nth i us) bl"
proof -
  obtain l r where s: "us = l @ us ! i # r" "remove_nth i us = l @ r" using remove_nth_split [OF i] .
  define x where "x = us ! i"
  have "bp_contents al xs (l @ x # r) bl" using c s(1) by (simp add: x_def)
  then have "bp_contents al (xs @ [x]) (l @ r) bl" unfolding bp_contents_def by auto
  then show ?thesis by (simp add: s(2) x_def)
qed

lemma bp_contents_item:
  assumes "bp_contents al xs us bl" and "i < length xs"
  shows "0 < bi_size (xs ! i) \<and> bi_buffer (xs ! i) \<noteq> NULL
    \<and> (\<exists>n. bl (bi_buffer (xs ! i)) = Some (n, al) \<and> bi_size (xs ! i) \<le> n)"
  using assms nth_mem [OF assms(2)] unfolding bp_contents_def by auto

section \<open>Steps\<close>

lemma shift_down:
  assumes "i < n" and "n < length xs"
  shows "\<exists>ys. amove xs (int i) (int i - - 1) (int n - int i) = Some ys \<and> length ys = length xs
    \<and> take (n - 1) ys = remove_nth i (take n xs)"
proof -
  let ?ys = "take i xs @ take (n - i) (drop (Suc i) xs) @ drop n xs"
  have "nat (int n - int i) = n - i" by simp
  then have "amove xs (int i) (int i - - 1) (int n - int i) = Some ?ys" using assms by (simp add: amove_def)
  moreover have "take (n - 1) ?ys = remove_nth i (take n xs)"
  proof -
    have "take (n - 1) ?ys = take i xs @ take (n - Suc i) (take (n - i) (drop (Suc i) xs) @ drop n xs)"
      using assms by simp
    also have "take (n - Suc i) (take (n - i) (drop (Suc i) xs) @ drop n xs) = take (n - Suc i) (drop (Suc i) xs)"
      using assms by (auto simp: min_def)
    finally show ?thesis using assms by (simp add: remove_nth_def drop_take)
  qed
  ultimately show ?thesis using assms by auto
qed

lemma shift_down_overrun:
  assumes "i < length xs"
  shows "amove xs (int i) (int i - - 1) (int (length xs) - int i) = None"
  using assms by (simp add: amove_def)

lemma bp_shift_available:
  assumes shape: "bp_shape p" and i: "i < length (bp_avail p)"
  shows "\<exists>arr. BufferPool_ShiftAvailable mem p (int i) (- 1) = Some (True, p\<lparr>bp_aArray := arr, bp_aSize := bp_aSize p - 1\<rparr>)
    \<and> length arr = length (bp_aArray p) \<and> take (nat (bp_aSize p - 1)) arr = remove_nth i (bp_avail p)"
proof -
  obtain n where n: "bp_aSize p = int n" "n < length (bp_aArray p)"
    using shape by (metis bp_shape_def nat_0_le of_nat_less_iff)
  have max: "int (length (bp_aArray p)) \<le> INT_MAX" using shape by (simp add: bp_shape_def)
  have "i < n" using i n by (simp add: bp_avail_def)
  from shift_down [OF this n(2)] obtain arr where
    "amove (bp_aArray p) (int i) (int i - - 1) (int n - int i) = Some arr" "length arr = length (bp_aArray p)"
    "take (n - 1) arr = remove_nth i (take n (bp_aArray p))" by blast
  moreover have "cint (int n - 1) = Some (int n - 1)" using n max by (intro cint_Some) simp_all
  moreover have "nat (int n - 1) = n - 1" by simp
  ultimately show ?thesis using n
    by (intro exI [of _ arr]) (simp add: BufferPool_ShiftAvailable_def bp_avail_def)
qed

lemma bp_enter_simps [simp]:
  "bp_fixedSize (bp_enter p) = bp_fixedSize p" "bp_alignment (bp_enter p) = bp_alignment p"
  "bp_aSize (bp_enter p) = bp_aSize p" "bp_aArray (bp_enter p) = bp_aArray p"
  "bp_aCapacity (bp_enter p) = bp_aCapacity p" "bp_uSize (bp_enter p) = bp_uSize p"
  "bp_uArray (bp_enter p) = bp_uArray p" "bp_uCapacity (bp_enter p) = bp_uCapacity p"
  "bp_blocks (bp_enter p) = bp_blocks p" "bp_avail (bp_enter p) = bp_avail p"
  "bp_used (bp_enter p) = bp_used p" "bp_shape (bp_enter p) = bp_shape p" "bp_leave (bp_enter p) = p"
  "bp_find_used (bp_enter p) = bp_find_used p" "bp_synchronized (bp_enter p) = bp_synchronized p"
  by (simp_all add: bp_enter_def bp_leave_def bp_avail_def bp_used_def bp_shape_def bp_find_used_def fun_eq_iff)

lemma bp_leave_simps [simp]:
  "bp_fixedSize (bp_leave p) = bp_fixedSize p" "bp_alignment (bp_leave p) = bp_alignment p"
  "bp_aSize (bp_leave p) = bp_aSize p" "bp_aArray (bp_leave p) = bp_aArray p"
  "bp_uSize (bp_leave p) = bp_uSize p" "bp_uArray (bp_leave p) = bp_uArray p"
  "bp_blocks (bp_leave p) = bp_blocks p" "bp_avail (bp_leave p) = bp_avail p"
  "bp_used (bp_leave p) = bp_used p" "bp_shape (bp_leave p) = bp_shape p" "bp_ok (bp_leave p) = bp_ok p"
  by (simp_all add: bp_leave_def bp_avail_def bp_used_def bp_shape_def bp_ok_def)

text \<open>The scan finds a large enough buffer, or the largest one.\<close>

lemma bp_scan_ok:
  assumes "k + m = n" and "n \<le> length arr" and "0 \<le> mx" and "mx < sz"
    and "mx = 0 \<or> (0 \<le> mi \<and> nat mi < n \<and> bi_size (arr ! nat mi) = mx)"
  shows "\<exists>f i mx' mi'. bp_scan arr sz (map int [k..<n]) mx mi = Some (f, i, mx', mi') \<and> 0 \<le> mx'
    \<and> (if f then 0 \<le> i \<and> nat i < n \<and> sz \<le> bi_size (arr ! nat i) \<and> sz \<le> mx'
       else mx' < sz \<and> (mx' = 0 \<or> (0 \<le> mi' \<and> nat mi' < n \<and> bi_size (arr ! nat mi') = mx')))"
  using assms
proof (induction m arbitrary: k mx mi)
  case 0
  then show ?case by (intro exI [of _ False] exI [of _ 0] exI [of _ mx] exI [of _ mi]) auto
next
  case (Suc m)
  then have k: "k < n" and up: "[k..<n] = k # [Suc k..<n]" by (simp_all add: upt_conv_Cons)
  let ?x = "arr ! k"
  have get: "aget arr (int k) = Some ?x" using k Suc.prems(2) by (simp add: aget_int)
  show ?case
  proof (cases "sz \<le> bi_size ?x")
    case True
    then show ?thesis using get up k Suc.prems(3,4) by auto
  next
    case False
    define mx1 mi1 where "mx1 = (if bi_size ?x > mx then bi_size ?x else mx)"
      and "mi1 = (if bi_size ?x > mx then int k else mi)"
    have "bp_scan arr sz (map int [k..<n]) mx mi = bp_scan arr sz (map int [Suc k..<n]) mx1 mi1"
      using get up False by (simp add: mx1_def mi1_def)
    moreover have "0 \<le> mx1" "mx1 < sz" "mx1 = 0 \<or> (0 \<le> mi1 \<and> nat mi1 < n \<and> bi_size (arr ! nat mi1) = mx1)"
      using Suc.prems(3,4,5) False k by (auto simp: mx1_def mi1_def)
    ultimately show ?thesis using Suc.IH [of "Suc k" mx1 mi1] Suc.prems(1,2) by simp
  qed
qed

lemma bp_take_used_ok:
  assumes shape: "bp_shape p" and fits: "bp_uSize p = bp_uCapacity p \<Longrightarrow> bp_uCapacity p * 2 \<le> INT_MAX"
  shows "\<exists>p'. bp_take_used (Some j) p buffer sz = Some (buffer, bp_leave p') \<and> bp_shape p'
    \<and> bp_avail p' = bp_avail p \<and> bp_used p' = bp_used p @ [\<lparr>bi_size = sz, bi_buffer = buffer\<rparr>]
    \<and> bp_blocks p' = bp_blocks p \<and> bp_alignment p' = bp_alignment p \<and> bp_lock p' = bp_lock p
    \<and> bp_synchronized p' = bp_synchronized p"
proof -
  obtain n where n: "bp_uSize p = int n" "n \<le> length (bp_uArray p)"
    using shape by (metis bp_shape_def nat_0_le of_nat_le_iff)
  have cap: "bp_uCapacity p = int (length (bp_uArray p))" "Suc 0 \<le> length (bp_uArray p)"
    "int (length (bp_uArray p)) \<le> INT_MAX" using shape by (auto simp: bp_shape_def)
  show ?thesis
  proof (cases "n = length (bp_uArray p)")
    case True
    let ?arr = "arealloc (bp_uArray p) (bp_uCapacity p * 2) j"
    have dbl: "bp_uCapacity p * 2 \<le> INT_MAX" using fits True n cap by simp
    have "cint (int n + 1) = Some (int n + 1)" "cint (bp_uCapacity p * 2) = Some (bp_uCapacity p * 2)"
      using dbl True cap by (auto intro!: cint_Some)
    moreover have len: "length ?arr = 2 * length (bp_uArray p)" using cap by simp
    moreover have "take (Suc n) (?arr[n := x]) = bp_used p @ [x]" for x
    proof -
      have "n < length ?arr" using len True cap(2) by linarith
      then have "take (Suc n) (?arr[n := x]) = take n ?arr @ [x]" by (simp add: take_Suc_conv_app_nth)
      moreover have "take n ?arr = take n (bp_uArray p)" using True len by (intro take_arealloc) simp_all
      ultimately show ?thesis using n by (simp add: bp_used_def)
    qed
    ultimately show ?thesis using True n cap shape dbl
      by (intro exI [of _ "p\<lparr>bp_uCapacity := bp_uCapacity p * 2,
            bp_uArray := ?arr[n := \<lparr>bi_size = sz, bi_buffer = buffer\<rparr>], bp_uSize := int n + 1\<rparr>"])
        (simp add: bp_take_used_def aset_def bp_shape_def bp_avail_def bp_used_def)
  next
    case False
    then have lt: "n < length (bp_uArray p)" using n by simp
    have "cint (int n + 1) = Some (int n + 1)" using lt cap by (intro cint_Some) simp_all
    then show ?thesis using lt n cap shape
      by (auto simp: bp_take_used_def aset_def bp_shape_def bp_avail_def bp_used_def take_Suc_conv_app_nth)
  qed
qed


text \<open>What is left of a taking once the buffer is chosen: leave the available ones, join the used ones.\<close>

definition bp_took :: "wBufferPool \<Rightarrow> wBufferPool \<Rightarrow> ptr \<Rightarrow> int \<Rightarrow> wBufferPool \<Rightarrow> bool" where
  "bp_took p0 p buffer sz p' \<longleftrightarrow> bp_ok p' \<and> bp_used p' = bp_used p @ [\<lparr>bi_size = sz, bi_buffer = buffer\<rparr>]
     \<and> bp_lock p' = bp_lock p0 \<and> bp_alignment p' = bp_alignment p"

lemma bp_lock_leave: "bp_lock p' = bp_lock (bp_enter p) \<Longrightarrow> bp_synchronized p' = bp_synchronized p \<Longrightarrow>
    bp_lock (bp_leave p') = bp_lock p"
  by (simp add: bp_leave_def bp_enter_def)

lemma bp_take_used_took:
  assumes shape: "bp_shape p" and fits: "bp_uSize p = bp_uCapacity p \<Longrightarrow> bp_uCapacity p * 2 \<le> INT_MAX"
    and c: "bp_contents (bp_alignment p \<noteq> 0) (bp_avail p) (bp_used p @ [\<lparr>bi_size = sz, bi_buffer = buffer\<rparr>]) (bp_blocks p)"
    and lock: "bp_lock p = bp_lock (bp_enter p0)" "bp_synchronized p = bp_synchronized p0"
  shows "\<exists>p'. bp_take_used (Some j) p buffer sz = Some (buffer, p') \<and> bp_took p0 p buffer sz p'"
proof -
  obtain p' where r: "bp_take_used (Some j) p buffer sz = Some (buffer, bp_leave p')" "bp_shape p'"
    "bp_avail p' = bp_avail p" "bp_used p' = bp_used p @ [\<lparr>bi_size = sz, bi_buffer = buffer\<rparr>]"
    "bp_blocks p' = bp_blocks p" "bp_alignment p' = bp_alignment p" "bp_lock p' = bp_lock p"
    "bp_synchronized p' = bp_synchronized p"
    using bp_take_used_ok [OF shape fits, of j buffer sz] by blast
  have "bp_lock (bp_leave p') = bp_lock p0" by (rule bp_lock_leave) (simp_all add: r(7,8) lock)
  with r c show ?thesis by (intro exI [of _ "bp_leave p'"]) (simp add: bp_took_def bp_ok_def)
qed

lemma bp_take_rest:
  assumes shape: "bp_shape p" and i: "i < length (bp_avail p)" and b: "buffer \<noteq> NULL"
    and fits: "bp_uSize p = bp_uCapacity p \<Longrightarrow> bp_uCapacity p * 2 \<le> INT_MAX"
    and c: "bp_contents (bp_alignment p \<noteq> 0) (remove_nth i (bp_avail p))
      (bp_used p @ [\<lparr>bi_size = sz, bi_buffer = buffer\<rparr>]) (bp_blocks p)"
    and lock: "bp_lock p = bp_lock (bp_enter p0)" "bp_synchronized p = bp_synchronized p0"
  shows "\<exists>p'. bp_take_avail (Some j) p buffer (int i) sz = Some (buffer, p') \<and> bp_took p0 p buffer sz p'"
proof -
  obtain arr where s: "BufferPool_ShiftAvailable None p (int i) (- 1) =
      Some (True, p\<lparr>bp_aArray := arr, bp_aSize := bp_aSize p - 1\<rparr>)"
    and arr: "length arr = length (bp_aArray p)" "take (nat (bp_aSize p - 1)) arr = remove_nth i (bp_avail p)"
    using bp_shift_available [OF shape i] by blast
  define q where "q = p\<lparr>bp_aArray := arr, bp_aSize := bp_aSize p - 1\<rparr>"
  have "i < nat (bp_aSize p)" using i by (simp add: bp_avail_def)
  then have "1 \<le> bp_aSize p" by linarith
  then have "bp_shape q" using shape arr(1) by (simp add: bp_shape_def q_def)
  moreover have "bp_avail q = remove_nth i (bp_avail p)" using arr(2) by (simp add: q_def bp_avail_def)
  moreover have u: "bp_used q = bp_used p" "bp_alignment q = bp_alignment p" "bp_blocks q = bp_blocks p"
    "bp_uSize q = bp_uSize p" "bp_uCapacity q = bp_uCapacity p" "bp_lock q = bp_lock p"
    "bp_synchronized q = bp_synchronized p" by (simp_all add: q_def bp_used_def)
  ultimately obtain p' where "bp_take_used (Some j) q buffer sz = Some (buffer, p')" "bp_took p0 q buffer sz p'"
    using bp_take_used_took [of q sz buffer p0 j] fits c lock by auto
  moreover have "bp_took p0 p buffer sz p'" using calculation(2) u by (simp add: bp_took_def)
  ultimately show ?thesis using s b by (intro exI [of _ p']) (simp add: bp_take_avail_def q_def)
qed

lemma bp_avail_nth:
  assumes "bp_shape p" "0 \<le> i" "nat i < nat (bp_aSize p)"
  shows "nat i < length (bp_avail p)" and "bp_avail p ! nat i = bp_aArray p ! nat i"
    and "aget (bp_aArray p) i = Some (bp_avail p ! nat i)"
proof -
  have "nat i < length (bp_aArray p)" using assms by (simp add: bp_shape_def) linarith
  then show "nat i < length (bp_avail p)" "bp_avail p ! nat i = bp_aArray p ! nat i"
    "aget (bp_aArray p) i = Some (bp_avail p ! nat i)"
    using assms(2,3) by (simp_all add: bp_avail_def aget_def)
qed

text \<open>The three ways to a buffer.\<close>

lemma bp_take_hit:
  assumes ok: "bp_ok p" and fits: "bp_uSize p = bp_uCapacity p \<Longrightarrow> bp_uCapacity p * 2 \<le> INT_MAX"
    and i: "0 \<le> i" "nat i < nat (bp_aSize p)" "sz \<le> bi_size (bp_aArray p ! nat i)" "0 < sz"
  shows "\<exists>p'. bp_take_avail (Some j) (bp_enter p) (bi_buffer (bp_aArray p ! nat i)) i sz =
      Some (bi_buffer (bp_aArray p ! nat i), p') \<and> bp_took p (bp_enter p) (bi_buffer (bp_aArray p ! nat i)) sz p'"
proof -
  have shape: "bp_shape p" and c: "bp_contents (bp_alignment p \<noteq> 0) (bp_avail p) (bp_used p) (bp_blocks p)"
    using ok by (simp_all add: bp_ok_def)
  note a = bp_avail_nth [OF shape i(1,2)]
  have "sz \<le> bi_size (bp_avail p ! nat i)" using a(2) i(3) by simp
  note c' = bp_contents_take [OF c a(1) i(4) this]
  have "bi_buffer (bp_aArray p ! nat i) \<noteq> NULL" using bp_contents_item [OF c a(1)] a(2) by simp
  with bp_take_rest [of "bp_enter p" "nat i" "bi_buffer (bp_aArray p ! nat i)" sz p j] shape a fits c' i(1)
  show ?thesis by simp
qed

lemma bp_take_grow:
  assumes ok: "bp_ok p" and fits: "bp_uSize p = bp_uCapacity p \<Longrightarrow> bp_uCapacity p * 2 \<le> INT_MAX"
    and i: "0 \<le> i" "nat i < nat (bp_aSize p)" "0 < sz" and b: "b \<noteq> NULL" "bp_blocks p b = None"
  defines "old \<equiv> bi_buffer (bp_aArray p ! nat i)"
  defines "q \<equiv> (bp_enter p)\<lparr>bp_blocks := (bp_blocks p)(old := None, b \<mapsto> (sz, bp_alignment p \<noteq> 0))\<rparr>"
  shows "\<exists>p'. bp_take_avail (Some j) q b i sz = Some (b, p') \<and> bp_took p q b sz p'"
    and "\<exists>n. bp_blocks p old = Some (n, bp_alignment p \<noteq> 0)" and "old \<noteq> NULL"
proof -
  let ?al = "bp_alignment p \<noteq> 0"
  have shape: "bp_shape p" and c: "bp_contents ?al (bp_avail p) (bp_used p) (bp_blocks p)"
    using ok by (simp_all add: bp_ok_def)
  note a = bp_avail_nth [OF shape i(1,2)]
  show "\<exists>n. bp_blocks p old = Some (n, ?al)" "old \<noteq> NULL"
    using bp_contents_item [OF c a(1)] a(2) by (auto simp: old_def)
  have "bp_contents ?al (remove_nth (nat i) (bp_avail p)) (bp_used p) ((bp_blocks p)(old := None))"
    using bp_contents_drop [OF c a(1)] a(2) by (simp add: old_def)
  then have "bp_contents ?al (remove_nth (nat i) (bp_avail p)) (bp_used p @ [\<lparr>bi_size = sz, bi_buffer = b\<rparr>])
      ((bp_blocks p)(old := None, b \<mapsto> (sz, ?al)))"
    using bp_contents_new [of ?al "remove_nth (nat i) (bp_avail p)" "bp_used p" "(bp_blocks p)(old := None)" b sz]
      b i(3) by simp
  moreover have "bp_shape q" "bp_avail q = bp_avail p" "bp_used q = bp_used p" "bp_alignment q = bp_alignment p"
    "bp_uSize q = bp_uSize p" "bp_uCapacity q = bp_uCapacity p" "bp_lock q = bp_lock (bp_enter p)"
    "bp_synchronized q = bp_synchronized p"
    "bp_blocks q = (bp_blocks p)(old := None, b \<mapsto> (sz, ?al))"
    using shape by (simp_all add: q_def bp_shape_def bp_avail_def bp_used_def bp_enter_def)
  ultimately show "\<exists>p'. bp_take_avail (Some j) q b i sz = Some (b, p') \<and> bp_took p q b sz p'"
    using bp_take_rest [of q "nat i" b sz p j] a(1) fits b(1) i(1) by simp
qed

lemma bp_take_new:
  assumes ok: "bp_ok p" and fits: "bp_uSize p = bp_uCapacity p \<Longrightarrow> bp_uCapacity p * 2 \<le> INT_MAX"
    and b: "b \<noteq> NULL" "bp_blocks p b = None" and sz: "0 < sz"
  defines "q \<equiv> (bp_enter p)\<lparr>bp_blocks := (bp_blocks p)(b \<mapsto> (sz, bp_alignment p \<noteq> 0))\<rparr>"
  shows "\<exists>p'. bp_take_used (Some j) q b sz = Some (b, p') \<and> bp_took p q b sz p'"
proof -
  have shape: "bp_shape p" and c: "bp_contents (bp_alignment p \<noteq> 0) (bp_avail p) (bp_used p) (bp_blocks p)"
    using ok by (simp_all add: bp_ok_def)
  have "bp_shape q" "bp_avail q = bp_avail p" "bp_used q = bp_used p" "bp_alignment q = bp_alignment p"
    "bp_uSize q = bp_uSize p" "bp_uCapacity q = bp_uCapacity p" "bp_lock q = bp_lock (bp_enter p)"
    "bp_synchronized q = bp_synchronized p"
    "bp_blocks q = (bp_blocks p)(b \<mapsto> (sz, bp_alignment p \<noteq> 0))"
    using shape by (simp_all add: q_def bp_shape_def bp_avail_def bp_used_def bp_enter_def)
  with bp_take_used_took [of q sz b p j] fits bp_contents_new [OF c b sz] show ?thesis by simp
qed


lemma BufferPool_Take_took:
  assumes ok: "bp_ok p" and sz: "0 < sz" and b: "b \<noteq> NULL" "bp_blocks p b = None"
    and fits: "bp_uSize p = bp_uCapacity p \<Longrightarrow> bp_uCapacity p * 2 \<le> INT_MAX"
  shows "\<exists>buffer q p'. BufferPool_Take (Some b) (Some j) p sz = Some (buffer, p') \<and> bp_took p q buffer sz p'
    \<and> bp_used q = bp_used p \<and> bp_alignment q = bp_alignment p"
proof -
  let ?al = "bp_alignment p \<noteq> 0"
  have shape: "bp_shape p" using ok by (simp add: bp_ok_def)
  obtain n where n: "bp_aSize p = int n" "n \<le> length (bp_aArray p)"
    using shape by (metis bp_shape_def nat_0_le of_nat_le_iff order_less_imp_le)
  have fixed: "bp_fixedSize p = 0" using shape by (simp add: bp_shape_def)
  obtain f i mx mi where scan: "bp_scan (bp_aArray p) sz (map int [0..<n]) 0 0 = Some (f, i, mx, mi)" and mx: "0 \<le> mx"
    and res: "if f then 0 \<le> i \<and> nat i < n \<and> sz \<le> bi_size (bp_aArray p ! nat i) \<and> sz \<le> mx
      else mx < sz \<and> (mx = 0 \<or> (0 \<le> mi \<and> nat mi < n \<and> bi_size (bp_aArray p ! nat mi) = mx))"
    using bp_scan_ok [of 0 n n "bp_aArray p" 0 sz 0] n(2) sz by auto
  note take = BufferPool_Take_def [of "Some b" "Some j" p sz]
  consider (hit) f | (grow) "\<not> f" "mx \<noteq> 0" | (new) "\<not> f" "mx = 0" by blast
  then show ?thesis
  proof cases
    case hit
    with res n have i: "0 \<le> i" "nat i < nat (bp_aSize p)" "sz \<le> bi_size (bp_aArray p ! nat i)" "sz \<le> mx" by simp_all
    from bp_take_hit [OF ok fits i(1,2,3) sz, of j] obtain p' where
      "bp_take_avail (Some j) (bp_enter p) (bi_buffer (bp_aArray p ! nat i)) i sz = Some (bi_buffer (bp_aArray p ! nat i), p')"
      "bp_took p (bp_enter p) (bi_buffer (bp_aArray p ! nat i)) sz p'" by blast
    moreover note bp_avail_nth [OF shape i(1,2)]
    ultimately show ?thesis using scan i(4) hit n(1) fixed sz
      by (intro exI [of _ "bi_buffer (bp_aArray p ! nat i)"] exI [of _ "bp_enter p"] exI [of _ p']) (simp add: take upto_int)
  next
    case grow
    with res n have i: "0 \<le> mi" "nat mi < nat (bp_aSize p)" and lt: "mx < sz" by simp_all
    define old where "old = bi_buffer (bp_aArray p ! nat mi)"
    define q where "q = (bp_enter p)\<lparr>bp_blocks := (bp_blocks p)(old := None, b \<mapsto> (sz, ?al))\<rparr>"
    note g = bp_take_grow [OF ok fits i sz b, folded old_def, folded q_def]
    obtain p' where "bp_take_avail (Some j) q b mi sz = Some (b, p')" "bp_took p q b sz p'" using g(1) by blast
    moreover obtain m where "bp_blocks p old = Some (m, ?al)" using g(2) by blast
    moreover have "bp_used q = bp_used p" "bp_alignment q = bp_alignment p" by (simp_all add: q_def bp_used_def)
    ultimately show ?thesis using scan lt grow n(1) fixed sz g(3) bp_avail_nth [OF shape i]
      by (intro exI [of _ b] exI [of _ q] exI [of _ p'])
        (cases "bp_alignment p = 0"; simp add: take upto_int bp_free_def bp_malloc_def bp_realloc_def q_def old_def)
  next
    case new
    define q where "q = (bp_enter p)\<lparr>bp_blocks := (bp_blocks p)(b \<mapsto> (sz, ?al))\<rparr>"
    from bp_take_new [OF ok fits b sz, of j, folded q_def] obtain p' where
      "bp_take_used (Some j) q b sz = Some (b, p')" "bp_took p q b sz p'" by blast
    moreover have "bp_used q = bp_used p" "bp_alignment q = bp_alignment p" by (simp_all add: q_def bp_used_def)
    ultimately show ?thesis using scan new n(1) fixed sz b(1)
      by (intro exI [of _ b] exI [of _ q] exI [of _ p']) (simp add: take upto_int bp_malloc_def q_def)
  qed
qed

text \<open>A pool with one available buffer of 16 bytes and one of 8 bytes in use.\<close>

definition bp_demo :: "int \<Rightarrow> wBufferPool" where
  "bp_demo cap = \<lparr>bp_fixedSize = 0, bp_alignment = 0, bp_synchronized = True, bp_lock = 0, bp_size = 0,
     bp_capacity = 0, bp_array = [], bp_aSize = 1, bp_aCapacity = 2,
     bp_aArray = [\<lparr>bi_size = 16, bi_buffer = 64\<rparr>, \<lparr>bi_size = 0, bi_buffer = 0\<rparr>],
     bp_uSize = 1, bp_uCapacity = cap,
     bp_uArray = \<lparr>bi_size = 8, bi_buffer = 32\<rparr> # replicate (nat (cap - 1)) \<lparr>bi_size = 0, bi_buffer = 0\<rparr>,
     bp_blocks = [64 \<mapsto> (16, False), 32 \<mapsto> (8, False)]\<rparr>"

lemma bp_demo_ok: "1 \<le> cap \<Longrightarrow> cap \<le> INT_MAX \<Longrightarrow> bp_ok (bp_demo cap)"
  by (simp add: bp_demo_def bp_ok_def bp_shape_def bp_contents_def bp_avail_def bp_used_def insert_commute)

text \<open>
  C33. In a pool of buffers of variable size, taking a buffer of a positive size hands out one that is
  not among the buffers in use, whose block has at least that size; the pool records it as used with
  that size, owns exactly the blocks of its two lists again and has left the critical section.
\<close>

theorem BufferPool_Take_ok:
  assumes "bp_ok p" and "0 < sz" and "b \<noteq> NULL" and "bp_blocks p b = None"
    and "bp_uSize p = bp_uCapacity p \<Longrightarrow> bp_uCapacity p * 2 \<le> INT_MAX"
  shows "\<exists>buffer p' n. BufferPool_Take (Some b) (Some j) p sz = Some (buffer, p') \<and> bp_ok p'
    \<and> buffer \<notin> bi_buffer ` set (bp_used p)
    \<and> bp_used p' = bp_used p @ [\<lparr>bi_size = sz, bi_buffer = buffer\<rparr>]
    \<and> bp_blocks p' buffer = Some (n, bp_alignment p \<noteq> 0) \<and> sz \<le> n \<and> bp_lock p' = bp_lock p"
proof -
  obtain buffer q p' where t: "BufferPool_Take (Some b) (Some j) p sz = Some (buffer, p')" "bp_took p q buffer sz p'"
    "bp_used q = bp_used p" "bp_alignment q = bp_alignment p"
    using BufferPool_Take_took [OF assms, of j] by blast
  then have p': "bp_ok p'" "bp_used p' = bp_used p @ [\<lparr>bi_size = sz, bi_buffer = buffer\<rparr>]" "bp_lock p' = bp_lock p"
    "bp_alignment p' = bp_alignment p" by (simp_all add: bp_took_def)
  then have c: "bp_contents (bp_alignment p \<noteq> 0) (bp_avail p') (bp_used p @ [\<lparr>bi_size = sz, bi_buffer = buffer\<rparr>]) (bp_blocks p')"
    by (simp add: bp_ok_def)
  then have "\<exists>n. bp_blocks p' buffer = Some (n, bp_alignment p \<noteq> 0) \<and> sz \<le> n"
    by (simp add: bp_contents_def)
  moreover have "buffer \<notin> bi_buffer ` set (bp_used p)" using c by (auto simp: bp_contents_def)
  ultimately show ?thesis using t(1) p' by blast
qed


lemma BufferPool_Take_ok_witness:
  "bp_ok (bp_demo 2) \<and> (\<exists>buffer p' n. BufferPool_Take (Some 96) (Some (\<lambda>_. \<lparr>bi_size = 0, bi_buffer = 0\<rparr>)) (bp_demo 2) 24 =
      Some (buffer, p') \<and> bp_ok p' \<and> buffer \<notin> bi_buffer ` set (bp_used (bp_demo 2))
    \<and> bp_used p' = bp_used (bp_demo 2) @ [\<lparr>bi_size = 24, bi_buffer = buffer\<rparr>]
    \<and> bp_blocks p' buffer = Some (n, bp_alignment (bp_demo 2) \<noteq> 0) \<and> 24 \<le> n \<and> bp_lock p' = bp_lock (bp_demo 2))"
  by (intro conjI BufferPool_Take_ok bp_demo_ok) (simp_all add: bp_demo_def)

section \<open>Returning a buffer\<close>

lemma bp_used_len:
  assumes "bp_shape p"
  shows "nat (bp_uSize p) \<le> length (bp_uArray p)" "length (bp_used p) = nat (bp_uSize p)"
    "int (nat (bp_uSize p)) = bp_uSize p"
proof -
  show le: "nat (bp_uSize p) \<le> length (bp_uArray p)" using assms by (simp add: bp_shape_def) linarith
  then show "length (bp_used p) = nat (bp_uSize p)" by (simp add: bp_used_def)
  show "int (nat (bp_uSize p)) = bp_uSize p" using assms by (simp add: bp_shape_def)
qed

lemma bp_find_used_ok:
  assumes "bp_shape p"
  shows "bp_find_used p b = Some (map_option int (first_index (\<lambda>x. bi_buffer x = b) (bp_uArray p) (length (bp_used p))))"
proof -
  have n: "int (length (bp_used p)) = bp_uSize p" "length (bp_used p) \<le> length (bp_uArray p)"
    using bp_used_len [OF assms] by simp_all
  show ?thesis unfolding bp_find_used_def n(1) [symmetric] using searchM_array [OF n(2)] by simp
qed

lemma bp_find_used_Some:
  assumes shape: "bp_shape p" and b: "b \<in> bi_buffer ` set (bp_used p)"
  shows "\<exists>i < length (bp_used p). bp_find_used p b = Some (Some (int i)) \<and> bi_buffer (bp_used p ! i) = b
    \<and> aget (bp_uArray p) (int i) = Some (bp_used p ! i)"
proof -
  let ?n = "length (bp_used p)"
  have u: "bp_used p = take ?n (bp_uArray p)" "?n \<le> length (bp_uArray p)"
    using bp_used_len [OF shape] by (simp_all add: bp_used_def)
  from b have "\<exists>x \<in> set (take ?n (bp_uArray p)). bi_buffer x = b" using u(1) by auto
  then obtain i where i: "first_index (\<lambda>x. bi_buffer x = b) (bp_uArray p) ?n = Some i"
    using first_index_ex [OF u(2), of "\<lambda>x. bi_buffer x = b"] by auto
  from first_index_Some [OF i] have "i < ?n" "bi_buffer (bp_uArray p ! i) = b" by simp_all
  moreover have "bp_used p ! i = bp_uArray p ! i" using calculation(1) by (simp add: bp_used_def)
  ultimately show ?thesis using bp_find_used_ok [OF shape, of b] i u(2) by (intro exI [of _ i]) (simp add: aget_int)
qed

lemma bp_shift_used:
  assumes shape: "bp_shape p" and lt: "bp_uSize p < bp_uCapacity p" and i: "i < length (bp_used p)"
  shows "\<exists>arr. BufferPool_ShiftUsed mem p (int i) (- 1) = Some (True, p\<lparr>bp_uArray := arr, bp_uSize := bp_uSize p - 1\<rparr>)
    \<and> length arr = length (bp_uArray p) \<and> take (nat (bp_uSize p - 1)) arr = remove_nth i (bp_used p)"
proof -
  obtain n where n: "bp_uSize p = int n" "n < length (bp_uArray p)"
    using shape lt by (metis bp_shape_def nat_0_le of_nat_less_iff)
  have max: "int (length (bp_uArray p)) \<le> INT_MAX" using shape by (simp add: bp_shape_def)
  have "i < n" using i n by (simp add: bp_used_def)
  from shift_down [OF this n(2)] obtain arr where
    "amove (bp_uArray p) (int i) (int i - - 1) (int n - int i) = Some arr" "length arr = length (bp_uArray p)"
    "take (n - 1) arr = remove_nth i (take n (bp_uArray p))" by blast
  moreover have "cint (int n - 1) = Some (int n - 1)" using n max by (intro cint_Some) simp_all
  moreover have "nat (int n - 1) = n - 1" by simp
  ultimately show ?thesis using n
    by (intro exI [of _ arr]) (simp add: BufferPool_ShiftUsed_def bp_used_def)
qed

text \<open>The second half of \<open>BufferPool_Return\<close>: the buffer joins the available ones.\<close>

lemma bp_return_avail:
  fixes j :: "nat \<Rightarrow> wBufferPoolItem"
  assumes shape: "bp_shape p" and fits: "bp_aCapacity p \<le> bp_aSize p + 1 \<Longrightarrow> bp_aCapacity p * 2 \<le> INT_MAX"
    and c: "bp_contents (bp_alignment p \<noteq> 0) (bp_avail p @ [x]) (bp_used p) (bp_blocks p)"
  defines "n \<equiv> bp_aSize p"
  defines "q \<equiv> (if bp_aCapacity p \<le> n + 1 then p\<lparr>bp_aCapacity := bp_aCapacity p * 2,
      bp_aArray := arealloc (bp_aArray p) (bp_aCapacity p * 2) j\<rparr> else p)"
  shows "\<exists>arr. aset (bp_aArray q) n x = Some arr \<and> bp_ok (q\<lparr>bp_aArray := arr, bp_aSize := n + 1\<rparr>)
    \<and> bp_avail (q\<lparr>bp_aArray := arr, bp_aSize := n + 1\<rparr>) = bp_avail p @ [x] \<and> bp_used q = bp_used p"
proof -
  have len: "nat n < length (bp_aArray p)" and n: "0 \<le> n" "int (length (bp_aArray p)) = bp_aCapacity p" "n < bp_aCapacity p"
    using shape by (simp_all add: bp_shape_def n_def) linarith
  have q: "bp_used q = bp_used p" "bp_alignment q = bp_alignment p" "bp_blocks q = bp_blocks p"
    "int (length (bp_aArray q)) = bp_aCapacity q" "n + 1 < bp_aCapacity q"
    using n by (simp_all add: q_def bp_used_def)
  have lq: "nat n < length (bp_aArray q)" using q(4,5) n(1) by linarith
  have "take (nat n) (bp_aArray q) = bp_avail p"
    using len n by (simp add: q_def bp_avail_def n_def take_arealloc)
  then have "take (Suc (nat n)) ((bp_aArray q)[nat n := x]) = bp_avail p @ [x]"
    using lq by (simp add: take_Suc_conv_app_nth)
  moreover have "nat (n + 1) = Suc (nat n)" using n(1) by simp
  ultimately have av: "bp_avail (q\<lparr>bp_aArray := (bp_aArray q)[nat n := x], bp_aSize := n + 1\<rparr>) = bp_avail p @ [x]"
    by (simp add: bp_avail_def)
  have "bp_shape (q\<lparr>bp_aArray := (bp_aArray q)[nat n := x], bp_aSize := n + 1\<rparr>)"
    using shape q(4,5) n fits by (simp add: bp_shape_def q_def n_def split: if_splits)
  with av c q have "bp_ok (q\<lparr>bp_aArray := (bp_aArray q)[nat n := x], bp_aSize := n + 1\<rparr>)"
    by (simp add: bp_ok_def bp_used_def)
  with av q(1) lq n(1) show ?thesis by (intro exI [of _ "(bp_aArray q)[nat n := x]"]) (simp add: aset_def)
qed


lemma BufferPool_Return_returned:
  assumes ok: "bp_ok p" and b: "buffer \<in> bi_buffer ` set (bp_used p)" and room: "bp_uSize p < bp_uCapacity p"
    and fits: "bp_aCapacity p \<le> bp_aSize p + 1 \<Longrightarrow> bp_aCapacity p * 2 \<le> INT_MAX"
  shows "\<exists>i p'. i < length (bp_used p) \<and> bi_buffer (bp_used p ! i) = buffer
    \<and> BufferPool_Return mem (Some j) p buffer = Some (True, p') \<and> bp_ok p'
    \<and> bp_used p' = remove_nth i (bp_used p) \<and> bp_avail p' = bp_avail p @ [bp_used p ! i]
    \<and> bp_blocks p' = bp_blocks p \<and> bp_lock p' = bp_lock p"
proof -
  have shape: "bp_shape p" and c: "bp_contents (bp_alignment p \<noteq> 0) (bp_avail p) (bp_used p) (bp_blocks p)"
    using ok by (simp_all add: bp_ok_def)
  obtain i where i: "i < length (bp_used p)" "bp_find_used p buffer = Some (Some (int i))"
    "bi_buffer (bp_used p ! i) = buffer" "aget (bp_uArray p) (int i) = Some (bp_used p ! i)"
    using bp_find_used_Some [OF shape b] by blast
  let ?x = "bp_used p ! i"
  have x: "0 < bi_size ?x" using c i(1) nth_mem [OF i(1)] unfolding bp_contents_def by auto
  have x_eq: "\<lparr>bi_size = bi_size ?x, bi_buffer = buffer\<rparr> = ?x" using i(3) by (cases ?x) simp
  have shape': "bp_shape (bp_enter p)" "bp_uSize (bp_enter p) < bp_uCapacity (bp_enter p)"
    "i < length (bp_used (bp_enter p))" using shape room i(1) by simp_all
  obtain arr where s: "BufferPool_ShiftUsed None (bp_enter p) (int i) (- 1) =
      Some (True, (bp_enter p)\<lparr>bp_uArray := arr, bp_uSize := bp_uSize p - 1\<rparr>)"
    and arr: "length arr = length (bp_uArray p)" "take (nat (bp_uSize p - 1)) arr = remove_nth i (bp_used p)"
    using bp_shift_used [OF shape', of None] by auto
  define r where "r = (bp_enter p)\<lparr>bp_uArray := arr, bp_uSize := bp_uSize p - 1\<rparr>"
  have "i < nat (bp_uSize p)" using i(1) by (simp add: bp_used_def)
  then have "1 \<le> bp_uSize p" by linarith
  then have shr: "bp_shape r" using shape arr(1) by (simp add: bp_shape_def r_def)
  have r: "bp_avail r = bp_avail p" "bp_used r = remove_nth i (bp_used p)" "bp_alignment r = bp_alignment p"
    "bp_blocks r = bp_blocks p" "bp_aCapacity r = bp_aCapacity p" "bp_aSize r = bp_aSize p"
    "bp_lock r = bp_lock (bp_enter p)" "bp_synchronized r = bp_synchronized p"
    using arr(2) by (simp_all add: r_def bp_avail_def bp_used_def)
  have cr: "bp_contents (bp_alignment r \<noteq> 0) (bp_avail r @ [?x]) (bp_used r) (bp_blocks r)"
    using bp_contents_return [OF c i(1)] r by simp
  define q where "q = (if bp_aCapacity r \<le> bp_aSize r + 1 then r\<lparr>bp_aCapacity := bp_aCapacity r * 2,
      bp_aArray := arealloc (bp_aArray r) (bp_aCapacity r * 2) j\<rparr> else r)"
  obtain arr' where a: "aset (bp_aArray q) (bp_aSize r) ?x = Some arr'"
    "bp_ok (q\<lparr>bp_aArray := arr', bp_aSize := bp_aSize r + 1\<rparr>)"
    "bp_avail (q\<lparr>bp_aArray := arr', bp_aSize := bp_aSize r + 1\<rparr>) = bp_avail r @ [?x]" "bp_used q = bp_used r"
    using bp_return_avail [OF shr _ cr, of j, folded q_def] fits r by auto
  define p' where "p' = bp_leave (q\<lparr>bp_aArray := arr', bp_aSize := bp_aSize r + 1\<rparr>)"
  have "bp_aSize p + 1 \<le> INT_MAX" "0 \<le> bp_aSize p" using shape by (simp_all add: bp_shape_def)
  then have ci: "cint (bp_aSize p + 1) = Some (bp_aSize p + 1)" by (intro cint_Some) simp_all
  have cd: "bp_aCapacity p \<le> bp_aSize p + 1 \<Longrightarrow> cint (bp_aCapacity p * 2) = Some (bp_aCapacity p * 2)"
    using fits shape by (intro cint_Some) (simp_all add: bp_shape_def)
  have fixed: "bp_fixedSize p = 0" using shape by (simp add: bp_shape_def)
  note ret = BufferPool_Return_def [of mem "Some j" p buffer]
  have "BufferPool_Return mem (Some j) p buffer = Some (True, p')"
    using i(2,4) s x ci cd fixed a(1) r(5,6)
    by (simp add: ret r_def [symmetric] x_eq p'_def q_def split: if_splits)
  moreover have "bp_lock p' = bp_lock p" unfolding p'_def
    by (rule bp_lock_leave) (simp_all add: q_def r)
  ultimately show ?thesis using i(1,3) a r
    by (intro exI [of _ i] exI [of _ p']) (simp add: p'_def q_def bp_used_def)
qed


text \<open>
  Returning a buffer in use to a pool of buffers of variable size whose array of used buffers is not
  full moves exactly that buffer to the end of the available ones, with the size it was taken with, and
  frees nothing.
\<close>

theorem BufferPool_Return_ok:
  assumes "bp_ok p" and "buffer \<in> bi_buffer ` set (bp_used p)" and "bp_uSize p < bp_uCapacity p"
    and "bp_aCapacity p \<le> bp_aSize p + 1 \<Longrightarrow> bp_aCapacity p * 2 \<le> INT_MAX"
  shows "\<exists>i p'. i < length (bp_used p) \<and> bi_buffer (bp_used p ! i) = buffer
    \<and> BufferPool_Return mem (Some j) p buffer = Some (True, p') \<and> bp_ok p'
    \<and> bp_used p' = remove_nth i (bp_used p) \<and> bp_avail p' = bp_avail p @ [bp_used p ! i]
    \<and> bp_blocks p' = bp_blocks p \<and> bp_lock p' = bp_lock p"
  by (rule BufferPool_Return_returned [OF assms])

lemma BufferPool_Return_ok_witness:
  "bp_ok (bp_demo 2) \<and> (\<exists>i p'. i < length (bp_used (bp_demo 2)) \<and> bi_buffer (bp_used (bp_demo 2) ! i) = 32
    \<and> BufferPool_Return None (Some (\<lambda>_. \<lparr>bi_size = 0, bi_buffer = 0\<rparr>)) (bp_demo 2) 32 = Some (True, p') \<and> bp_ok p'
    \<and> bp_used p' = remove_nth i (bp_used (bp_demo 2)) \<and> bp_avail p' = bp_avail (bp_demo 2) @ [bp_used (bp_demo 2) ! i]
    \<and> bp_blocks p' = bp_blocks (bp_demo 2) \<and> bp_lock p' = bp_lock (bp_demo 2))"
  by (intro conjI BufferPool_Return_ok bp_demo_ok) (simp_all add: bp_demo_def bp_used_def)

text \<open>
  When the array of used buffers is full (32 buffers taken), returning any of them reads one cell
  past the end of that array: the shift moves \<open>uSize - index\<close> cells from \<open>index + 1\<close>.
\<close>

theorem BufferPool_Return_overrun:
  assumes ok: "bp_ok p" and b: "buffer \<in> bi_buffer ` set (bp_used p)" and full: "bp_uSize p = bp_uCapacity p"
  shows "BufferPool_Return mem mema p buffer = None"
proof -
  have shape: "bp_shape p" using ok by (simp add: bp_ok_def)
  obtain i where i: "i < length (bp_used p)" "bp_find_used p buffer = Some (Some (int i))"
    "aget (bp_uArray p) (int i) = Some (bp_used p ! i)" using bp_find_used_Some [OF shape b] by blast
  have n: "bp_uSize p = int (length (bp_uArray p))" "bp_fixedSize p = 0" using shape full by (simp_all add: bp_shape_def)
  have "i < length (bp_uArray p)" using i(1) bp_used_len [OF shape] by simp
  from shift_down_overrun [OF this] have "BufferPool_ShiftUsed None (bp_enter p) (int i) (- 1) = None"
    by (simp add: BufferPool_ShiftUsed_def n(1))
  then show ?thesis using i(2,3) n(2) by (simp add: BufferPool_Return_def)
qed

lemma BufferPool_Return_overrun_witness:
  "bp_ok (bp_demo 1) \<and> BufferPool_Return None None (bp_demo 1) 32 = None"
  by (intro conjI BufferPool_Return_overrun bp_demo_ok) (simp_all add: bp_demo_def bp_used_def)

section \<open>Clearing\<close>

lemma bp_contents_comm: "bp_contents al [] us bl = bp_contents al us [] bl"
  by (simp add: bp_contents_def)

lemma remove_nth_last: "n < length xs \<Longrightarrow> remove_nth n (take (Suc n) xs) = take n xs"
  by (simp add: remove_nth_def min_def)

lemma bp_free_item:
  assumes c: "bp_contents al (take (Suc n) xs) us (bp_blocks p)" and n: "n < length xs"
  shows "bp_free al (bi_buffer (xs ! n)) p = Some (p\<lparr>bp_blocks := (bp_blocks p)(bi_buffer (xs ! n) := None)\<rparr>)
    \<and> bp_contents al (take n xs) us ((bp_blocks p)(bi_buffer (xs ! n) := None))"
proof -
  have i: "n < length (take (Suc n) xs)" "take (Suc n) xs ! n = xs ! n" using n by simp_all
  from bp_contents_item [OF c i(1)] bp_contents_drop [OF c i(1)] show ?thesis
    using i(2) remove_nth_last [OF n] by (auto simp: bp_free_def)
qed

lemma bp_clear_avail:
  assumes "bp_contents al (take n (bp_aArray p)) us (bp_blocks p)" and "n \<le> length (bp_aArray p)"
    and "bp_aSize p = int n"
  shows "\<exists>bl. foldM (\<lambda>i p. do { x \<leftarrow> aget (bp_aArray p) i; bp_free al (bi_buffer x) (p\<lparr>bp_aSize := i\<rparr>) })
      (rev (map int [0..<n])) p = Some (p\<lparr>bp_aSize := 0, bp_blocks := bl\<rparr>) \<and> bp_contents al [] us bl"
  using assms
proof (induction n arbitrary: p)
  case 0
  then show ?case by (intro exI [of _ "bp_blocks p"]) simp
next
  case (Suc n)
  then have n: "n < length (bp_aArray p)" by simp
  define bl where "bl = (bp_blocks p)(bi_buffer (bp_aArray p ! n) := None)"
  define q where "q = p\<lparr>bp_aSize := int n, bp_blocks := bl\<rparr>"
  have f: "bp_free al (bi_buffer (bp_aArray p ! n)) (p\<lparr>bp_aSize := int n\<rparr>) = Some q"
    "bp_contents al (take n (bp_aArray p)) us bl"
    using bp_free_item [of al n "bp_aArray p" us "p\<lparr>bp_aSize := int n\<rparr>"] Suc.prems(1) n
    by (simp_all add: q_def bl_def)
  then obtain bl' where "foldM (\<lambda>i p. do { x \<leftarrow> aget (bp_aArray p) i; bp_free al (bi_buffer x) (p\<lparr>bp_aSize := i\<rparr>) })
      (rev (map int [0..<n])) q = Some (q\<lparr>bp_aSize := 0, bp_blocks := bl'\<rparr>)" "bp_contents al [] us bl'"
    using Suc.IH [of q] n by (auto simp: q_def)
  with f(1) n show ?case by (intro exI [of _ bl']) (simp add: aget_int q_def)
qed

lemma bp_clear_used:
  assumes "bp_contents al (take n (bp_uArray p)) us (bp_blocks p)" and "n \<le> length (bp_uArray p)"
    and "bp_uSize p = int n"
  shows "\<exists>bl. foldM (\<lambda>i p. do { x \<leftarrow> aget (bp_uArray p) i; bp_free al (bi_buffer x) (p\<lparr>bp_uSize := i\<rparr>) })
      (rev (map int [0..<n])) p = Some (p\<lparr>bp_uSize := 0, bp_blocks := bl\<rparr>) \<and> bp_contents al [] us bl"
  using assms
proof (induction n arbitrary: p)
  case 0
  then show ?case by (intro exI [of _ "bp_blocks p"]) simp
next
  case (Suc n)
  then have n: "n < length (bp_uArray p)" by simp
  define bl where "bl = (bp_blocks p)(bi_buffer (bp_uArray p ! n) := None)"
  define q where "q = p\<lparr>bp_uSize := int n, bp_blocks := bl\<rparr>"
  have f: "bp_free al (bi_buffer (bp_uArray p ! n)) (p\<lparr>bp_uSize := int n\<rparr>) = Some q"
    "bp_contents al (take n (bp_uArray p)) us bl"
    using bp_free_item [of al n "bp_uArray p" us "p\<lparr>bp_uSize := int n\<rparr>"] Suc.prems(1) n
    by (simp_all add: q_def bl_def)
  then obtain bl' where "foldM (\<lambda>i p. do { x \<leftarrow> aget (bp_uArray p) i; bp_free al (bi_buffer x) (p\<lparr>bp_uSize := i\<rparr>) })
      (rev (map int [0..<n])) q = Some (q\<lparr>bp_uSize := 0, bp_blocks := bl'\<rparr>)" "bp_contents al [] us bl'"
    using Suc.IH [of q] n by (auto simp: q_def)
  with f(1) n show ?case by (intro exI [of _ bl']) (simp add: aget_int q_def)
qed

text \<open>
  Clearing a pool of buffers of variable size frees every block it owns, available or in use, each
  once and with the release function that matches its allocation; freeing the pool leaves no block.
\<close>

theorem BufferPool_Clear_releases:
  assumes ok: "bp_ok p"
  shows "(\<exists>p'. BufferPool_Clear p = Some p' \<and> bp_blocks p' = Map.empty \<and> bp_aSize p' = 0 \<and> bp_uSize p' = 0 \<and> bp_ok p')
    \<and> BufferPool_Free (Some p) = Some Map.empty"
proof -
  let ?al = "bp_alignment p \<noteq> 0" and ?q = "bp_enter p"
  have shape: "bp_shape p" and c: "bp_contents ?al (bp_avail p) (bp_used p) (bp_blocks p)"
    using ok by (simp_all add: bp_ok_def)
  obtain n where n: "bp_aSize p = int n" "n \<le> length (bp_aArray p)"
    using shape by (metis bp_shape_def nat_0_le of_nat_le_iff order_less_imp_le)
  obtain m where m: "bp_uSize p = int m" "m \<le> length (bp_uArray p)"
    using shape by (metis bp_shape_def nat_0_le of_nat_le_iff)
  obtain bl where a: "foldM (\<lambda>i p. do { x \<leftarrow> aget (bp_aArray p) i; bp_free ?al (bi_buffer x) (p\<lparr>bp_aSize := i\<rparr>) })
      (rev (map int [0..<n])) ?q = Some (?q\<lparr>bp_aSize := 0, bp_blocks := bl\<rparr>)" "bp_contents ?al [] (bp_used p) bl"
    using bp_clear_avail [of ?al n ?q "bp_used p"] c n by (auto simp: bp_avail_def)
  let ?r = "?q\<lparr>bp_aSize := 0, bp_blocks := bl\<rparr>"
  have "bp_contents ?al (take m (bp_uArray ?r)) [] (bp_blocks ?r)"
    using a(2) m by (simp add: bp_contents_comm bp_used_def)
  then obtain bl' where u: "foldM (\<lambda>i p. do { x \<leftarrow> aget (bp_uArray p) i; bp_free ?al (bi_buffer x) (p\<lparr>bp_uSize := i\<rparr>) })
      (rev (map int [0..<m])) ?r = Some (?r\<lparr>bp_uSize := 0, bp_blocks := bl'\<rparr>)" "bp_contents ?al [] [] bl'"
    using bp_clear_used [of ?al m ?r "[]"] m by auto
  let ?s = "?r\<lparr>bp_uSize := 0, bp_blocks := bl'\<rparr>"
  have bl': "bl' = Map.empty" using u(2) by (simp add: bp_contents_def)
  have fixed: "bp_fixedSize p = 0" using shape by (simp add: bp_shape_def)
  have clear: "BufferPool_Clear p = Some (bp_leave ?s)"
    using a(1) u(1) n m fixed by (simp add: BufferPool_Clear_def upto_int)
  have "bp_shape ?s" using shape by (simp add: bp_shape_def bp_enter_def)
  then have "bp_ok ?s" using bl' by (simp add: bp_ok_def bp_avail_def bp_used_def bp_contents_def)
  with clear bl' show ?thesis by (simp add: BufferPool_Free_def)
qed

lemma BufferPool_Clear_releases_witness:
  "(\<exists>p'. BufferPool_Clear (bp_demo 2) = Some p' \<and> bp_blocks p' = Map.empty \<and> bp_aSize p' = 0 \<and> bp_uSize p' = 0 \<and> bp_ok p')
    \<and> BufferPool_Free (Some (bp_demo 2)) = Some Map.empty"
  by (rule BufferPool_Clear_releases) (rule bp_demo_ok; simp)

end
