(* ===== verification/WStream.thy ===== *)
theory WStream
  imports CPrelude
begin

text \<open>
  The byte streams of \<open>winpr/include/winpr/stream.h\<close> and \<open>winpr/libwinpr/utils/stream.c\<close>. The buffer
  is the list of the allocated bytes; \<open>pointer\<close> is kept as its distance \<open>s_pos\<close> from \<open>buffer\<close>. A
  read or a write outside the buffer, and a pointer moved outside it, are undefined behaviour
  (\<open>None\<close>). Values read and written are \<open>int\<close>s, as C promotes them; storing one in a byte keeps its
  low 8 bits. A parser returns \<open>Some (Some v, s)\<close> where the C function returns \<open>TRUE\<close> with its out
  parameter set to \<open>v\<close>, and \<open>Some (None, s)\<close> where it returns \<open>FALSE\<close>; what \<open>FALSE\<close> leaves in the out
  parameter is not part of the model.
\<close>

section \<open>State\<close>

record wStream =
  s_buffer :: "byte list"
  s_pos :: int
  s_length :: int
  s_capacity :: int
  s_count :: int
  s_pool :: ptr

text \<open>Conversion to \<open>size_t\<close> and to \<open>int\<close>.\<close>

definition csize :: "int \<Rightarrow> int" where
  "csize x = x mod 18446744073709551616"

definition as_int :: "int \<Rightarrow> int" where
  "as_int x = (x + 2147483648) mod 4294967296 - 2147483648"

lemma csize_nonneg: "0 \<le> x \<Longrightarrow> x < 18446744073709551616 \<Longrightarrow> csize x = x"
  by (simp add: csize_def)

lemma csize_neg: "- 18446744073709551616 \<le> x \<Longrightarrow> x < 0 \<Longrightarrow> csize x = x + 18446744073709551616"
  using mod_pos_pos_trivial [of "x + 18446744073709551616" 18446744073709551616]
  by (simp add: csize_def del: mod_pos_pos_trivial)

definition u8 :: "int \<Rightarrow> int" where
  "u8 x = x mod 256"

definition u16 :: "int \<Rightarrow> int" where
  "u16 x = x mod 65536"

section \<open>The stream macros\<close>

definition Stream_GetRemainingLength :: "wStream \<Rightarrow> int" where
  "Stream_GetRemainingLength s = csize (s_length s - s_pos s)"

definition Stream_Seek :: "wStream \<Rightarrow> int \<Rightarrow> wStream option" where
  "Stream_Seek s n =
     (if 0 \<le> s_pos s + n \<and> s_pos s + n \<le> int (length (s_buffer s)) then Some (s\<lparr>s_pos := s_pos s + n\<rparr>) else None)"

definition Stream_Rewind :: "wStream \<Rightarrow> int \<Rightarrow> wStream option" where
  "Stream_Rewind s n = Stream_Seek s (- n)"

definition Stream_SetPosition :: "wStream \<Rightarrow> int \<Rightarrow> wStream option" where
  "Stream_SetPosition s p = (if 0 \<le> p \<and> p \<le> int (length (s_buffer s)) then Some (s\<lparr>s_pos := p\<rparr>) else None)"

definition Stream_SealLength :: "wStream \<Rightarrow> wStream" where
  "Stream_SealLength s = s\<lparr>s_length := csize (s_pos s)\<rparr>"

definition Stream_SafeSeek :: "wStream \<Rightarrow> int \<Rightarrow> (unit option \<times> wStream) option" where
  "Stream_SafeSeek s n =
     (if Stream_GetRemainingLength s < n then Some (None, s)
      else do { s \<leftarrow> Stream_Seek s n; Some (Some (), s) })"

definition Stream_Read_UINT8 :: "wStream \<Rightarrow> (int \<times> wStream) option" where
  "Stream_Read_UINT8 s = do {
     b \<leftarrow> aget (s_buffer s) (s_pos s);
     Some (uint b, s\<lparr>s_pos := s_pos s + 1\<rparr>) }"

definition Stream_Peek_UINT8 :: "wStream \<Rightarrow> int option" where
  "Stream_Peek_UINT8 s = map_option uint (aget (s_buffer s) (s_pos s))"

definition Stream_Read_UINT16 :: "wStream \<Rightarrow> (int \<times> wStream) option" where
  "Stream_Read_UINT16 s = do {
     b0 \<leftarrow> aget (s_buffer s) (s_pos s);
     b1 \<leftarrow> aget (s_buffer s) (s_pos s + 1);
     Some (uint b0 + push_bit 8 (uint b1), s\<lparr>s_pos := s_pos s + 2\<rparr>) }"

definition Stream_Read_UINT16_BE :: "wStream \<Rightarrow> (int \<times> wStream) option" where
  "Stream_Read_UINT16_BE s = do {
     b0 \<leftarrow> aget (s_buffer s) (s_pos s);
     b1 \<leftarrow> aget (s_buffer s) (s_pos s + 1);
     Some (push_bit 8 (uint b0) + uint b1, s\<lparr>s_pos := s_pos s + 2\<rparr>) }"

definition Stream_Read_UINT32 :: "wStream \<Rightarrow> (int \<times> wStream) option" where
  "Stream_Read_UINT32 s = do {
     b0 \<leftarrow> aget (s_buffer s) (s_pos s);
     b1 \<leftarrow> aget (s_buffer s) (s_pos s + 1);
     b2 \<leftarrow> aget (s_buffer s) (s_pos s + 2);
     b3 \<leftarrow> aget (s_buffer s) (s_pos s + 3);
     Some (uint b0 + push_bit 8 (uint b1) + push_bit 16 (uint b2) + push_bit 24 (uint b3),
       s\<lparr>s_pos := s_pos s + 4\<rparr>) }"

definition Stream_Read_UINT32_BE :: "wStream \<Rightarrow> (int \<times> wStream) option" where
  "Stream_Read_UINT32_BE s = do {
     b0 \<leftarrow> aget (s_buffer s) (s_pos s);
     b1 \<leftarrow> aget (s_buffer s) (s_pos s + 1);
     b2 \<leftarrow> aget (s_buffer s) (s_pos s + 2);
     b3 \<leftarrow> aget (s_buffer s) (s_pos s + 3);
     Some (push_bit 24 (uint b0) + push_bit 16 (uint b1) + push_bit 8 (uint b2) + uint b3,
       s\<lparr>s_pos := s_pos s + 4\<rparr>) }"

definition Stream_Read :: "wStream \<Rightarrow> int \<Rightarrow> (byte list \<times> wStream) option" where
  "Stream_Read s n = do {
     bs \<leftarrow> ablock (s_buffer s) (s_pos s) n;
     Some (bs, s\<lparr>s_pos := s_pos s + n\<rparr>) }"

text \<open>\<open>memcpy\<close> of bytes at the pointer, which then moves behind them.\<close>

definition Stream_Write :: "wStream \<Rightarrow> byte list \<Rightarrow> wStream option" where
  "Stream_Write s bs = do {
     buf \<leftarrow> ablit (s_buffer s) (s_pos s) bs;
     Some (s\<lparr>s_buffer := buf, s_pos := s_pos s + int (length bs)\<rparr>) }"

definition Stream_Write_UINT8 :: "wStream \<Rightarrow> int \<Rightarrow> wStream option" where
  "Stream_Write_UINT8 s v = do {
     buf \<leftarrow> aset (s_buffer s) (s_pos s) (word_of_int v);
     Some (s\<lparr>s_buffer := buf, s_pos := s_pos s + 1\<rparr>) }"

definition Stream_Write_UINT16 :: "wStream \<Rightarrow> int \<Rightarrow> wStream option" where
  "Stream_Write_UINT16 s v = do {
     s \<leftarrow> Stream_Write_UINT8 s (v AND 0xFF);
     Stream_Write_UINT8 s (drop_bit 8 v AND 0xFF) }"

definition Stream_Write_UINT16_BE :: "wStream \<Rightarrow> int \<Rightarrow> wStream option" where
  "Stream_Write_UINT16_BE s v = do {
     s \<leftarrow> Stream_Write_UINT8 s (drop_bit 8 v AND 0xFF);
     Stream_Write_UINT8 s (v AND 0xFF) }"

definition Stream_Write_UINT32 :: "wStream \<Rightarrow> int \<Rightarrow> wStream option" where
  "Stream_Write_UINT32 s v = do {
     s \<leftarrow> Stream_Write_UINT8 s (v AND 0xFF);
     s \<leftarrow> Stream_Write_UINT8 s (drop_bit 8 v AND 0xFF);
     s \<leftarrow> Stream_Write_UINT8 s (drop_bit 16 v AND 0xFF);
     Stream_Write_UINT8 s (drop_bit 24 v AND 0xFF) }"

definition Stream_Write_UINT32_BE :: "wStream \<Rightarrow> int \<Rightarrow> wStream option" where
  "Stream_Write_UINT32_BE s v = do {
     s \<leftarrow> Stream_Write_UINT16_BE s (drop_bit 16 v AND 0xFFFF);
     Stream_Write_UINT16_BE s (v AND 0xFFFF) }"

definition Stream_Zero :: "wStream \<Rightarrow> int \<Rightarrow> wStream option" where
  "Stream_Zero s n = do {
     buf \<leftarrow> afill (s_buffer s) (s_pos s) n 0;
     Some (s\<lparr>s_buffer := buf, s_pos := s_pos s + n\<rparr>) }"

section \<open>The functions of \<open>stream.c\<close>\<close>

text \<open>\<open>do { new_capacity *= 2; } while (new_capacity < size);\<close>\<close>

partial_function (option) se_double :: "int \<Rightarrow> int \<Rightarrow> int option" where
  "se_double new_capacity sz =
     (let new_capacity = csize (new_capacity * 2)
      in if new_capacity < sz then se_double new_capacity sz else Some new_capacity)"

definition Stream_EnsureCapacity :: "byte fresh \<Rightarrow> wStream \<Rightarrow> int \<Rightarrow> (bool \<times> wStream) option" where
  "Stream_EnsureCapacity mem s sz =
     (if s_capacity s < sz then do {
        let old_capacity = s_capacity s;
        new_capacity \<leftarrow> se_double old_capacity sz;
        let position = s_pos s;
        (case mem of
           None \<Rightarrow> Some (False, s)
         | Some j \<Rightarrow> do {
             let s = s\<lparr>s_buffer := arealloc (s_buffer s) new_capacity j, s_capacity := new_capacity,
               s_length := new_capacity\<rparr>;
             buf \<leftarrow> afill (s_buffer s) old_capacity (s_capacity s - old_capacity) 0;
             s \<leftarrow> Stream_SetPosition (s\<lparr>s_buffer := buf\<rparr>) position;
             Some (True, s) })
      } else Some (True, s))"

definition Stream_EnsureRemainingCapacity :: "byte fresh \<Rightarrow> wStream \<Rightarrow> int \<Rightarrow> (bool \<times> wStream) option" where
  "Stream_EnsureRemainingCapacity mem s sz =
     (if csize (s_pos s + sz) > s_capacity s
      then Stream_EnsureCapacity mem s (csize (s_capacity s + sz))
      else Some (True, s))"

text \<open>The buffer is the caller's, or a fresh one.\<close>

definition Stream_New :: "bool \<Rightarrow> byte fresh \<Rightarrow> byte list option \<Rightarrow> int \<Rightarrow> wStream option" where
  "Stream_New mem memb buffer sz =
     (if \<not> mem then None
      else case (case buffer of Some b \<Rightarrow> Some b | None \<Rightarrow> map_option (\<lambda>j. map j [0..<nat sz]) memb) of
        None \<Rightarrow> None
      | Some b \<Rightarrow> Some \<lparr>s_buffer = b, s_pos = 0, s_length = sz, s_capacity = sz, s_count = 0, s_pool = NULL\<rparr>)"

text \<open>\<open>Stream_Free\<close>: whether the buffer and the structure are released.\<close>

definition Stream_Free :: "wStream option \<Rightarrow> bool \<Rightarrow> bool \<times> bool" where
  "Stream_Free s bFreeBuffer = (case s of None \<Rightarrow> (False, False) | Some _ \<Rightarrow> (bFreeBuffer, True))"

section \<open>Writing\<close>

text \<open>Every writer puts a block of bytes at the pointer.\<close>

named_theorems emits \<open>the bytes a writer puts\<close>

lemma ablit_append:
  "do { ys \<leftarrow> ablit xs d as; ablit ys (d + int (length as)) bs } = ablit xs d (as @ bs)"
proof (cases "0 \<le> d \<and> d + int (length as) \<le> int (length xs)")
  case False
  then show ?thesis by (auto simp: ablit_def)
next
  case True
  then obtain k where k: "d = int k" by (meson nonneg_int_cases)
  let ?ys = "take k xs @ as @ drop (k + length as) xs"
  have le: "k + length as \<le> length xs" using True k by linarith
  then have "take (k + length as) ?ys = take k xs @ as" "length ?ys = length xs"
    "drop (k + (length as + length bs)) ?ys = drop (k + (length as + length bs)) xs" by (simp_all add: ac_simps)
  moreover have "nat (int k + int (length as)) = k + length as" "k \<le> length xs" using le by linarith+
  moreover have "int k + int (length as) \<le> int (length xs)" using le by linarith
  ultimately show ?thesis unfolding k by (simp add: ablit_def add.assoc)
qed

lemma Stream_Write_append:
  "do { s \<leftarrow> Stream_Write s as; Stream_Write s bs } = Stream_Write s (as @ bs)"
  using ablit_append [of "s_buffer s" "s_pos s" as bs]
  by (cases "ablit (s_buffer s) (s_pos s) as") (auto simp: Stream_Write_def add.assoc split: Option.bind_split)

lemma Stream_Write_append_bind:
  "do { s \<leftarrow> Stream_Write s as; s \<leftarrow> Stream_Write s bs; f s } = do { s \<leftarrow> Stream_Write s (as @ bs); f s }"
  by (simp add: Stream_Write_append [symmetric])

lemmas write_merge = Stream_Write_append Stream_Write_append_bind

lemma Stream_Write_UINT8 [emits]: "Stream_Write_UINT8 s v = Stream_Write s [word_of_int v]"
proof (cases "0 \<le> s_pos s \<and> s_pos s < int (length (s_buffer s))")
  case True
  then have "nat (s_pos s) < length (s_buffer s)" by linarith
  from upd_conv_take_nth_drop [OF this] True show ?thesis
    by (simp add: Stream_Write_UINT8_def Stream_Write_def aset_def ablit_def)
next
  case False
  then show ?thesis by (auto simp: Stream_Write_UINT8_def Stream_Write_def aset_def ablit_def)
qed

lemma byte_mask [simp]: "word_of_int (v AND 255) = (word_of_int v :: byte)"
proof -
  have "v AND 255 = take_bit 8 v" by (simp add: take_bit_eq_mask mask_eq_exp_minus_1)
  then show ?thesis by (auto simp: bit_simps intro!: bit_word_eqI)
qed

definition be16 :: "int \<Rightarrow> byte list" where
  "be16 v = [word_of_int (drop_bit 8 v), word_of_int v]"

definition be32 :: "int \<Rightarrow> byte list" where
  "be32 v = be16 (drop_bit 16 v) @ be16 v"

definition le16 :: "int \<Rightarrow> byte list" where
  "le16 v = [word_of_int v, word_of_int (drop_bit 8 v)]"

definition le32 :: "int \<Rightarrow> byte list" where
  "le32 v = le16 v @ le16 (drop_bit 16 v)"

lemma be_length [simp]: "length (be16 v) = 2" "length (be32 v) = 4" "length (le16 v) = 2" "length (le32 v) = 4"
  by (simp_all add: be16_def be32_def le16_def le32_def)

lemma Stream_Write_UINT16_BE [emits]: "Stream_Write_UINT16_BE s v = Stream_Write s (be16 v)"
  by (simp add: Stream_Write_UINT16_BE_def be16_def emits write_merge)

lemma Stream_Write_UINT16 [emits]: "Stream_Write_UINT16 s v = Stream_Write s (le16 v)"
  by (simp add: Stream_Write_UINT16_def le16_def emits write_merge)

lemma be16_mask: "be16 (v AND 65535) = be16 v"
proof -
  have "v AND 65535 = take_bit 16 v" by (simp add: take_bit_eq_mask mask_eq_exp_minus_1)
  then show ?thesis by (auto simp: be16_def bit_simps intro!: bit_word_eqI)
qed

lemma Stream_Write_UINT32_BE [emits]: "Stream_Write_UINT32_BE s v = Stream_Write s (be32 v)"
  by (simp add: Stream_Write_UINT32_BE_def be32_def emits write_merge be16_mask)

lemma Stream_Write_UINT32 [emits]: "Stream_Write_UINT32 s v = Stream_Write s (le32 v)"
  by (simp add: Stream_Write_UINT32_def le32_def le16_def emits write_merge)

lemma Stream_Write_0: "0 \<le> s_pos s \<Longrightarrow> s_pos s \<le> int (length (s_buffer s)) \<Longrightarrow> Stream_Write s [] = Some s"
  by (simp add: Stream_Write_def ablit_def)

section \<open>Reading\<close>

text \<open>
  A stream being read: the pointer is at most at the length, which is at most the capacity, and the
  remaining length fits an \<open>int\<close>, to which some parsers convert it.
\<close>

definition s_ok :: "wStream \<Rightarrow> bool" where
  "s_ok s \<longleftrightarrow> 0 \<le> s_pos s \<and> s_pos s \<le> s_length s \<and> s_length s \<le> int (length (s_buffer s)) \<and> s_length s \<le> INT_MAX"

definition s_rest :: "wStream \<Rightarrow> byte list" where
  "s_rest s = take (nat (s_length s - s_pos s)) (drop (nat (s_pos s)) (s_buffer s))"

definition s_adv :: "nat \<Rightarrow> wStream \<Rightarrow> wStream" where
  "s_adv n s = s\<lparr>s_pos := s_pos s + int n\<rparr>"

lemma s_adv_0 [simp]: "s_adv 0 s = s"
  by (simp add: s_adv_def)

lemma s_adv_add [simp]: "s_adv m (s_adv n s) = s_adv (n + m) s"
  by (simp add: s_adv_def algebra_simps)

lemma length_s_rest: "s_ok s \<Longrightarrow> int (length (s_rest s)) = s_length s - s_pos s"
  unfolding s_ok_def s_rest_def by (simp add: min_def) linarith

lemma remaining [simp]: "s_ok s \<Longrightarrow> Stream_GetRemainingLength s = int (length (s_rest s))"
  using length_s_rest [of s] by (simp add: Stream_GetRemainingLength_def csize_def s_ok_def)

lemma remaining_int [simp]: "s_ok s \<Longrightarrow> as_int (int (length (s_rest s))) = int (length (s_rest s))"
  using length_s_rest [of s] by (simp add: as_int_def s_ok_def)

lemma remaining_int_rest:
  "s_ok s \<Longrightarrow> s_rest s = bs @ rest \<Longrightarrow>
    as_int (Stream_GetRemainingLength s) = int (length bs) + int (length rest)"
  using remaining_int [of s] by simp

lemma s_ok_adv [simp]: "s_ok s \<Longrightarrow> n \<le> length (s_rest s) \<Longrightarrow> s_ok (s_adv n s)"
  using length_s_rest [of s] by (auto simp: s_ok_def s_adv_def)

lemma s_rest_adv [simp]: "s_ok s \<Longrightarrow> s_rest (s_adv n s) = drop n (s_rest s)"
proof -
  assume "s_ok s"
  then have "nat (s_pos s + int n) = n + nat (s_pos s)" "nat (s_length s - (s_pos s + int n)) = nat (s_length s - s_pos s) - n"
    by (simp_all add: s_ok_def nat_add_distrib)
  then show ?thesis by (simp add: s_rest_def s_adv_def drop_take)
qed

lemma aget_rest:
  assumes "s_ok s" and "i < length (s_rest s)"
  shows "aget (s_buffer s) (s_pos s + int i) = Some (s_rest s ! i)"
proof -
  have "nat (s_pos s + int i) = nat (s_pos s) + i" "nat (s_pos s) + i < length (s_buffer s)"
    using assms length_s_rest [of s] by (simp_all add: s_ok_def nat_add_distrib) linarith
  then show ?thesis using assms by (simp add: aget_def s_rest_def s_ok_def)
qed

lemma ablock_rest:
  assumes "s_ok s" and "0 \<le> n" and "n \<le> int (length (s_rest s))"
  shows "ablock (s_buffer s) (s_pos s) n = Some (take (nat n) (s_rest s))"
  using assms length_s_rest [of s] by (simp add: ablock_def s_rest_def s_ok_def min_def)

text \<open>A parser that reads exactly the bytes \<open>bs\<close>, wherever they stand, and returns \<open>v\<close>.\<close>

definition parses :: "(wStream \<Rightarrow> ('a option \<times> wStream) option) \<Rightarrow> byte list \<Rightarrow> 'a \<Rightarrow> bool" where
  "parses rd bs v \<longleftrightarrow> (\<forall>s rest. s_ok s \<longrightarrow> s_rest s = bs @ rest \<longrightarrow> rd s = Some (Some v, s_adv (length bs) s))"

text \<open>A parser that is memory safe on every stream: it returns, moved forward only.\<close>

definition safe_reader :: "(wStream \<Rightarrow> ('a \<times> wStream) option) \<Rightarrow> bool" where
  "safe_reader rd \<longleftrightarrow> (\<forall>s. s_ok s \<longrightarrow> (\<exists>v n. n \<le> length (s_rest s) \<and> rd s = Some (v, s_adv n s)))"

definition rbind :: "('a option \<times> wStream) option \<Rightarrow> ('a \<Rightarrow> wStream \<Rightarrow> ('b option \<times> wStream) option) \<Rightarrow>
    ('b option \<times> wStream) option" where
  "rbind r f = do { (v, s) \<leftarrow> r; case v of None \<Rightarrow> Some (None, s) | Some x \<Rightarrow> f x s }"

lemma rbind_simps [simp]: "rbind (Some (None, s)) f = Some (None, s)" "rbind (Some (Some x, s)) f = f x s"
  "rbind None f = None"
  by (simp_all add: rbind_def)

lemma parsesI: "(\<And>s rest. s_ok s \<Longrightarrow> s_rest s = bs @ rest \<Longrightarrow> rd s = Some (Some v, s_adv (length bs) s)) \<Longrightarrow> parses rd bs v"
  by (simp add: parses_def)

lemma parsesD: "parses rd bs v \<Longrightarrow> s_ok s \<Longrightarrow> s_rest s = bs @ rest \<Longrightarrow> rd s = Some (Some v, s_adv (length bs) s)"
  by (simp add: parses_def)

lemma parses_rbind:
  assumes "parses rd bs v" and "parses (f v) cs w"
  shows "parses (\<lambda>s. rbind (rd s) f) (bs @ cs) w"
proof (rule parsesI)
  fix s rest
  assume s: "s_ok s" "s_rest s = (bs @ cs) @ rest"
  then have "rd s = Some (Some v, s_adv (length bs) s)" using parsesD [OF assms(1) s(1), of "cs @ rest"] by simp
  moreover have "f v (s_adv (length bs) s) = Some (Some w, s_adv (length cs) (s_adv (length bs) s))"
    using s by (intro parsesD [OF assms(2), of _ rest]) simp_all
  ultimately show "rbind (rd s) f = Some (Some w, s_adv (length (bs @ cs)) s)" by simp
qed

lemma safe_rbind:
  assumes rd: "safe_reader rd" and f: "\<And>x. safe_reader (f x)"
  shows "safe_reader (\<lambda>s. rbind (rd s) f)"
  unfolding safe_reader_def
proof (intro allI impI)
  fix s assume ok: "s_ok s"
  obtain v n where n: "n \<le> length (s_rest s)" "rd s = Some (v, s_adv n s)" using rd ok unfolding safe_reader_def by blast
  show "\<exists>v n. n \<le> length (s_rest s) \<and> rbind (rd s) f = Some (v, s_adv n s)"
  proof (cases v)
    case None
    with n show ?thesis by auto
  next
    case (Some x)
    have "s_ok (s_adv n s)" using ok n(1) by simp
    then obtain w m where "m \<le> length (s_rest (s_adv n s))" "f x (s_adv n s) = Some (w, s_adv m (s_adv n s))"
      using f [of x] unfolding safe_reader_def by blast
    with ok n Some show ?thesis by (intro exI [of _ w] exI [of _ "n + m"]) auto
  qed
qed

text \<open>Reading single values.\<close>

lemma Stream_Read_UINT8_rest:
  "s_ok s \<Longrightarrow> s_rest s = b # bs \<Longrightarrow> Stream_Read_UINT8 s = Some (uint b, s_adv 1 s)"
  using aget_rest [of s 0] by (simp add: Stream_Read_UINT8_def s_adv_def)

lemma Stream_Read_UINT16_BE_rest:
  "s_ok s \<Longrightarrow> s_rest s = b0 # b1 # bs \<Longrightarrow> Stream_Read_UINT16_BE s = Some (uint b0 * 256 + uint b1, s_adv 2 s)"
  using aget_rest [of s 0] aget_rest [of s 1] by (simp add: Stream_Read_UINT16_BE_def s_adv_def push_bit_eq_mult)

lemma Stream_Read_UINT16_rest:
  "s_ok s \<Longrightarrow> s_rest s = b0 # b1 # bs \<Longrightarrow> Stream_Read_UINT16 s = Some (uint b0 + uint b1 * 256, s_adv 2 s)"
  using aget_rest [of s 0] aget_rest [of s 1] by (simp add: Stream_Read_UINT16_def s_adv_def push_bit_eq_mult)

lemma Stream_Read_UINT32_BE_rest:
  "s_ok s \<Longrightarrow> s_rest s = b0 # b1 # b2 # b3 # bs \<Longrightarrow>
    Stream_Read_UINT32_BE s = Some (uint b0 * 16777216 + uint b1 * 65536 + uint b2 * 256 + uint b3, s_adv 4 s)"
  using aget_rest [of s 0] aget_rest [of s 1] aget_rest [of s 2] aget_rest [of s 3]
  by (simp add: Stream_Read_UINT32_BE_def s_adv_def push_bit_eq_mult)

lemma Stream_Seek_rest:
  "s_ok s \<Longrightarrow> 0 \<le> n \<Longrightarrow> n \<le> int (length (s_rest s)) \<Longrightarrow> Stream_Seek s n = Some (s_adv (nat n) s)"
  using length_s_rest [of s] by (simp add: Stream_Seek_def s_adv_def s_ok_def)

lemma parses_ret: "parses (\<lambda>s. Some (Some v, s)) [] v"
  by (simp add: parses_def)

lemma safe_ret: "safe_reader (\<lambda>s. Some (v, s))"
  unfolding safe_reader_def by (intro allI impI exI [of _ v] exI [of _ "0::nat"]) simp

text \<open>Safety of a parser from the number of bytes a guard has found, built along its text.\<close>

definition reads_from :: "nat \<Rightarrow> (wStream \<Rightarrow> ('a \<times> wStream) option) \<Rightarrow> bool" where
  "reads_from k rd \<longleftrightarrow> (\<forall>s. s_ok s \<longrightarrow> k \<le> length (s_rest s) \<longrightarrow>
     (\<exists>v n. n \<le> length (s_rest s) \<and> rd s = Some (v, s_adv n s)))"

named_theorems reads \<open>rules for the safety of parsers\<close>
named_theorems safe_readers \<open>the parsers known to be safe\<close>

lemma safe_reader_from: "reads_from 0 rd \<Longrightarrow> safe_reader rd"
  by (simp add: reads_from_def safe_reader_def)

lemma reads_safe: "safe_reader rd \<Longrightarrow> reads_from k rd"
  by (simp add: reads_from_def safe_reader_def)

lemma reads_ret [reads]: "reads_from k (\<lambda>s. Some (v, s))"
  by (rule reads_safe) (rule safe_ret)

lemma reads_guard [reads]:
  "reads_from (nat k) f \<Longrightarrow> reads_from j (\<lambda>s. if Stream_GetRemainingLength s < k then Some (v, s) else f s)"
  unfolding reads_from_def by (auto simp: not_less nat_le_iff intro!: exI [of _ "0::nat"])

lemma reads_guard_int [reads]:
  "reads_from (nat k) f \<Longrightarrow> reads_from j (\<lambda>s. if as_int (Stream_GetRemainingLength s) < k then Some (v, s) else f s)"
  unfolding reads_from_def by (auto simp: not_less nat_le_iff intro!: exI [of _ "0::nat"])

lemma reads_if [reads]: "(c \<Longrightarrow> reads_from k f) \<Longrightarrow> (\<not> c \<Longrightarrow> reads_from k g) \<Longrightarrow> reads_from k (\<lambda>s. if c then f s else g s)"
  by (cases c) (simp_all add: reads_from_def)

lemma reads_step:
  assumes "\<And>s. s_ok s \<Longrightarrow> k \<le> length (s_rest s) \<Longrightarrow> \<exists>x. rd s = Some (x, s_adv n s)" and "n \<le> k"
    and f: "\<And>x. reads_from (k - n) (f x)"
  shows "reads_from k (\<lambda>s. do { (x, s) \<leftarrow> rd s; f x s })"
  unfolding reads_from_def
proof (intro allI impI)
  fix s assume s: "s_ok s" "k \<le> length (s_rest s)"
  from assms(1) [OF this] obtain x where x: "rd s = Some (x, s_adv n s)" by blast
  have "s_ok (s_adv n s)" "k - n \<le> length (s_rest (s_adv n s))" using s assms(2) by simp_all
  then obtain v m where "m \<le> length (s_rest (s_adv n s))" "f x (s_adv n s) = Some (v, s_adv m (s_adv n s))"
    using f [of x] unfolding reads_from_def by blast
  then show "\<exists>v n. n \<le> length (s_rest s) \<and> (do { (x, s) \<leftarrow> rd s; f x s }) = Some (v, s_adv n s)"
    using x s assms(2) by (intro exI [of _ v] exI [of _ "n + m"]) auto
qed

lemma rest_at_least: "Suc n \<le> length (s_rest s) \<Longrightarrow> \<exists>b bs. s_rest s = b # bs \<and> n \<le> length bs"
  by (cases "s_rest s") auto

lemma reads_u8 [reads]:
  assumes "1 \<le> k" and "\<And>b. reads_from (k - 1) (f b)"
  shows "reads_from k (\<lambda>s. do { (b, s) \<leftarrow> Stream_Read_UINT8 s; f b s })"
proof (rule reads_step [where n = 1])
  show "\<exists>x. Stream_Read_UINT8 s = Some (x, s_adv 1 s)" if "s_ok s" "k \<le> length (s_rest s)" for s
    using that assms(1) Stream_Read_UINT8_rest by (cases "s_rest s") auto
qed (use assms in simp_all)

lemma reads_u16_BE [reads]:
  assumes "2 \<le> k" and "\<And>b. reads_from (k - 2) (f b)"
  shows "reads_from k (\<lambda>s. do { (b, s) \<leftarrow> Stream_Read_UINT16_BE s; f b s })"
proof (rule reads_step [where n = 2])
  show "\<exists>x. Stream_Read_UINT16_BE s = Some (x, s_adv 2 s)" if "s_ok s" "k \<le> length (s_rest s)" for s
  proof -
    have "Suc (Suc 0) \<le> length (s_rest s)" using that assms(1) by simp
    then obtain b0 b1 bs where "s_rest s = b0 # b1 # bs" by (auto simp: Suc_le_length_iff)
    then show ?thesis using Stream_Read_UINT16_BE_rest that by blast
  qed
qed (use assms in simp_all)

lemma reads_u32_BE [reads]:
  assumes "4 \<le> k" and "\<And>b. reads_from (k - 4) (f b)"
  shows "reads_from k (\<lambda>s. do { (b, s) \<leftarrow> Stream_Read_UINT32_BE s; f b s })"
proof (rule reads_step [where n = 4])
  show "\<exists>x. Stream_Read_UINT32_BE s = Some (x, s_adv 4 s)" if "s_ok s" "k \<le> length (s_rest s)" for s
  proof -
    have "Suc (Suc (Suc (Suc 0))) \<le> length (s_rest s)" using that assms(1) by simp
    then obtain b0 b1 b2 b3 bs where "s_rest s = b0 # b1 # b2 # b3 # bs"
      by (auto simp: Suc_le_length_iff)
    then show ?thesis using Stream_Read_UINT32_BE_rest that by blast
  qed
qed (use assms in simp_all)

lemma reads_seek [reads]:
  assumes "0 \<le> n" and "n \<le> int k" and "reads_from (k - nat n) f"
  shows "reads_from k (\<lambda>s. do { s \<leftarrow> Stream_Seek s n; f s })"
proof -
  have "reads_from k (\<lambda>s. do { (_, s) \<leftarrow> do { s \<leftarrow> Stream_Seek s n; Some ((), s) }; f s })"
    using assms by (intro reads_step [where n = "nat n"]) (auto simp: Stream_Seek_rest)
  moreover have "(\<lambda>s. do { (_, s) \<leftarrow> do { s \<leftarrow> Stream_Seek s n; Some ((), s) }; f s }) = (\<lambda>s. do { s \<leftarrow> Stream_Seek s n; f s })"
    by (rule ext) (auto split: Option.bind_split)
  ultimately show ?thesis by simp
qed

lemma reads_u16 [reads]:
  assumes "2 \<le> k" and "\<And>b. reads_from (k - 2) (f b)"
  shows "reads_from k (\<lambda>s. do { (b, s) \<leftarrow> Stream_Read_UINT16 s; f b s })"
proof (rule reads_step [where n = 2])
  show "\<exists>x. Stream_Read_UINT16 s = Some (x, s_adv 2 s)" if "s_ok s" "k \<le> length (s_rest s)" for s
  proof -
    have "Suc (Suc 0) \<le> length (s_rest s)" using that assms(1) by simp
    then obtain b0 b1 bs where "s_rest s = b0 # b1 # bs" by (auto simp: Suc_le_length_iff)
    then show ?thesis using Stream_Read_UINT16_rest that by blast
  qed
qed (use assms in simp_all)

lemma reads_u32 [reads]:
  assumes "4 \<le> k" and "\<And>b. reads_from (k - 4) (f b)"
  shows "reads_from k (\<lambda>s. do { (b, s) \<leftarrow> Stream_Read_UINT32 s; f b s })"
proof (rule reads_step [where n = 4])
  show "\<exists>x. Stream_Read_UINT32 s = Some (x, s_adv 4 s)" if "s_ok s" "k \<le> length (s_rest s)" for s
  proof -
    have "0 < length (s_rest s)" "1 < length (s_rest s)" "2 < length (s_rest s)" "3 < length (s_rest s)" using that assms(1) by linarith+
    from this [THEN aget_rest [OF that(1)]] show ?thesis by (simp add: Stream_Read_UINT32_def s_adv_def)
  qed
qed (use assms in simp_all)

lemma Stream_Read_rest:
  "s_ok s \<Longrightarrow> 0 \<le> n \<Longrightarrow> n \<le> int (length (s_rest s)) \<Longrightarrow> Stream_Read s n = Some (take (nat n) (s_rest s), s_adv (nat n) s)"
  by (simp add: Stream_Read_def ablock_rest s_adv_def)

lemma reads_block [reads]:
  assumes "0 \<le> n" and "n \<le> int k" and "\<And>bs. reads_from (k - nat n) (f bs)"
  shows "reads_from k (\<lambda>s. do { (bs, s) \<leftarrow> Stream_Read s n; f bs s })"
  using assms by (intro reads_step [where n = "nat n"]) (auto simp: Stream_Read_rest)

lemma reads_rbind [reads]:
  "safe_reader rd \<Longrightarrow> (\<And>x. reads_from 0 (f x)) \<Longrightarrow> reads_from k (\<lambda>s. rbind (rd s) f)"
  by (rule reads_safe) (blast intro: safe_rbind safe_reader_from)

text \<open>The rule for a parser whose values are known to satisfy \<open>V\<close>.\<close>

lemma reads_rbind_val:
  assumes rd: "safe_reader rd" and V: "\<And>s v s'. rd s = Some (Some v, s') \<Longrightarrow> V v" and f: "\<And>x. V x \<Longrightarrow> reads_from 0 (f x)"
  shows "reads_from k (\<lambda>s. rbind (rd s) f)"
  unfolding reads_from_def
proof (intro allI impI)
  fix s assume s: "s_ok s"
  obtain v n where n: "n \<le> length (s_rest s)" "rd s = Some (v, s_adv n s)" using rd s unfolding safe_reader_def by blast
  show "\<exists>v n. n \<le> length (s_rest s) \<and> rbind (rd s) f = Some (v, s_adv n s)"
  proof (cases v)
    case None
    with n show ?thesis by auto
  next
    case (Some x)
    have "V x" using V n(2) Some by simp
    moreover have "s_ok (s_adv n s)" using s n(1) by simp
    ultimately obtain w m where "m \<le> length (s_rest (s_adv n s))" "f x (s_adv n s) = Some (w, s_adv m (s_adv n s))"
      using f [of x] unfolding reads_from_def by (metis le0)
    with n s Some show ?thesis by (intro exI [of _ w] exI [of _ "n + m"]) auto
  qed
qed

section \<open>Writing and reading back\<close>

lemma Stream_Write_reread:
  assumes ok: "s_ok s" and fits: "length bs \<le> length (s_rest s)"
  shows "\<exists>s'. Stream_Write s bs = Some s' \<and> s_ok s' \<and> s_rest s' = drop (length bs) (s_rest s)
    \<and> s_ok (s'\<lparr>s_pos := s_pos s\<rparr>) \<and> s_rest (s'\<lparr>s_pos := s_pos s\<rparr>) = bs @ s_rest s'
    \<and> s_adv (length bs) (s'\<lparr>s_pos := s_pos s\<rparr>) = s' \<and> s_length s' = s_length s"
proof -
  obtain k where k: "s_pos s = int k" using ok by (metis nonneg_int_cases s_ok_def)
  obtain n where n: "s_length s = int n" using ok k by (metis nonneg_int_cases order_trans s_ok_def of_nat_0_le_iff)
  let ?xs = "s_buffer s"
  let ?buf = "take k ?xs @ bs @ drop (k + length bs) ?xs"
  have le: "k + length bs \<le> n" "n \<le> length ?xs" using ok fits length_s_rest [OF ok] k n by (simp_all add: s_ok_def)
  define s' where "s' = s\<lparr>s_buffer := ?buf, s_pos := int k + int (length bs)\<rparr>"
  have nat: "nat (int k + int (length bs)) = k + length bs" "int k + int (length bs) \<le> int (length ?xs)"
    "int k + int (length bs) \<le> int n" using le by linarith+
  have len: "length ?buf = length ?xs" using le by simp
  have w: "Stream_Write s bs = Some s'" using nat(2) by (simp add: Stream_Write_def ablit_def k s'_def)
  have ok': "s_ok s'" "s_ok (s'\<lparr>s_pos := s_pos s\<rparr>)"
    using ok len nat(3) k n by (simp_all add: s_ok_def s'_def)
  have d1: "drop (k + length bs) ?buf = drop (k + length bs) ?xs" "drop k ?buf = bs @ drop (k + length bs) ?xs"
    using le by simp_all
  have d2: "nat (int n - (int k + int (length bs))) = n - (k + length bs)" "nat (int n - int k) = n - k" by simp_all
  have r0: "s_rest s = take (n - k) (drop k ?xs)" unfolding s_rest_def k n by (simp only: d2 nat_int)
  have "s_rest s' = take (n - (k + length bs)) (drop (k + length bs) ?xs)"
    using d1(1) by (simp add: s_rest_def s'_def n nat(1) d2 del: drop_append)
  then have r': "s_rest s' = drop (length bs) (s_rest s)" using le by (simp add: r0 drop_take add.commute)
  have "s_rest (s'\<lparr>s_pos := s_pos s\<rparr>) = take (n - k) (bs @ drop (k + length bs) ?xs)"
    using d1(2) by (simp add: s_rest_def s'_def n k d2 del: drop_append)
  also have "\<dots> = bs @ s_rest s'" using le by (simp add: r' r0 drop_take add.commute)
  finally have r: "s_rest (s'\<lparr>s_pos := s_pos s\<rparr>) = bs @ s_rest s'" .
  have "s_adv (length bs) (s'\<lparr>s_pos := s_pos s\<rparr>) = s'" by (simp add: s_adv_def s'_def k)
  moreover have "s_length s' = s_length s" by (simp add: s'_def)
  ultimately show ?thesis using w ok' r' r by blast
qed

fun read_n :: "nat \<Rightarrow> (wStream \<Rightarrow> ('a option \<times> wStream) option) \<Rightarrow> wStream \<Rightarrow> ('a list option \<times> wStream) option" where
  "read_n 0 rd s = Some (Some [], s)"
| "read_n (Suc n) rd s = rbind (rd s) (\<lambda>v s. rbind (read_n n rd s) (\<lambda>vs s. Some (Some (v # vs), s)))"

lemma safe_read_n: "safe_reader rd \<Longrightarrow> safe_reader (read_n n rd)"
proof (induction n)
  case 0
  have "read_n 0 rd = (\<lambda>s. Some (Some [], s))" by (simp add: fun_eq_iff)
  then show ?case by (simp add: safe_ret)
next
  case (Suc n)
  have "read_n (Suc n) rd = (\<lambda>s. rbind (rd s) (\<lambda>v s. rbind (read_n n rd s) (\<lambda>vs s. Some (Some (v # vs), s))))"
    by (simp add: fun_eq_iff)
  with Suc show ?case by (simp add: safe_rbind safe_ret)
qed

text \<open>
  The contract of a writer and a parser of one kind of value: the writer puts the encoding of every
  valid value, and the parser reads exactly that encoding.
\<close>

locale codec =
  fixes wr :: "'a \<Rightarrow> wStream \<Rightarrow> wStream option"
    and rd :: "wStream \<Rightarrow> ('a option \<times> wStream) option"
    and enc :: "'a \<Rightarrow> byte list"
    and valid :: "'a \<Rightarrow> bool"
  assumes wr_enc: "valid v \<Longrightarrow> wr v s = Stream_Write s (enc v)"
    and rd_enc: "valid v \<Longrightarrow> parses rd (enc v) v"
begin

lemma roundtrip:
  assumes "valid v" and "s_ok s" and "length (enc v) \<le> length (s_rest s)"
  shows "\<exists>s'. wr v s = Some s' \<and> rd (s'\<lparr>s_pos := s_pos s\<rparr>) = Some (Some v, s')"
  using Stream_Write_reread [OF assms(2,3)] parsesD [OF rd_enc [OF assms(1)]] wr_enc [OF assms(1), of s] by fastforce

lemma parses_list: "(\<forall>v \<in> set vs. valid v) \<Longrightarrow> parses (read_n (length vs) rd) (concat (map enc vs)) vs"
proof (induction vs)
  case Nil
  then show ?case by (simp add: parses_def)
next
  case (Cons v vs)
  have eq: "read_n (length (v # vs)) rd =
      (\<lambda>s. rbind (rd s) (\<lambda>v s. rbind (read_n (length vs) rd s) (\<lambda>vs s. Some (Some (v # vs), s))))"
    by (simp add: fun_eq_iff)
  have "parses (read_n (length vs) rd) (concat (map enc vs)) vs" using Cons by simp
  from parses_rbind [OF this, of "\<lambda>vs s. Some (Some (v # vs), s)" "[]" "v # vs"] parses_ret [of "v # vs"]
  have "parses (\<lambda>s. rbind (read_n (length vs) rd s) (\<lambda>vs s. Some (Some (v # vs), s))) (concat (map enc vs)) (v # vs)" by simp
  moreover have "parses rd (enc v) v" using Cons.prems rd_enc by simp
  ultimately show ?case unfolding eq
    using parses_rbind [of rd "enc v" v "\<lambda>v s. rbind (read_n (length vs) rd s) (\<lambda>vs s. Some (Some (v # vs), s))"] by simp
qed

lemma write_list:
  assumes "\<forall>v \<in> set vs. valid v" and "s_ok s" and "length (concat (map enc vs)) \<le> length (s_rest s)"
  shows "foldM wr vs s = Stream_Write s (concat (map enc vs))"
  using assms
proof (induction vs arbitrary: s)
  case Nil
  then show ?case by (simp add: Stream_Write_0 s_ok_def)
next
  case (Cons v vs)
  have "length (enc v) \<le> length (s_rest s)" using Cons.prems(3) by simp
  from Stream_Write_reread [OF Cons.prems(2) this] obtain s' where
    w: "Stream_Write s (enc v) = Some s'" "s_ok s'" "s_rest s' = drop (length (enc v)) (s_rest s)" by blast
  then have "foldM wr vs s' = Stream_Write s' (concat (map enc vs))" using Cons by simp
  with w(1) show ?case using Cons.prems(1) wr_enc [of v s] by (simp add: Stream_Write_append [symmetric])
qed

text \<open>Any sequence of valid values written to a stream with room is read back.\<close>

lemma roundtrip_list:
  assumes "\<forall>v \<in> set vs. valid v" and "s_ok s" and "length (concat (map enc vs)) \<le> length (s_rest s)"
  shows "\<exists>s'. foldM wr vs s = Some s' \<and> read_n (length vs) rd (s'\<lparr>s_pos := s_pos s\<rparr>) = Some (Some vs, s')"
  using Stream_Write_reread [OF assms(2,3)] parsesD [OF parses_list [OF assms(1)]] write_list [OF assms] by fastforce

end

text \<open>A codec whose parser is safe on arbitrary bytes.\<close>

locale safe_codec = codec +
  assumes safe: "safe_reader rd"
begin

lemma safe_list: "safe_reader (read_n n rd)"
  using safe by (rule safe_read_n)

end

lemma and_128: "(x AND 128 = (0::int)) \<longleftrightarrow> \<not> bit x 7"
  using and_exp_eq_0_iff_not_bit [of x 7] by simp

lemma bit_128: "bit (128::int) n \<longleftrightarrow> n = 7" and bit_32768: "bit (32768::int) n \<longleftrightarrow> n = 15"
  using bit_exp_iff [where ?'a = int, of 7 n] bit_exp_iff [where ?'a = int, of 15 n] by simp_all

lemma small_no_bit: "0 \<le> n \<Longrightarrow> n \<le> 127 \<Longrightarrow> \<not> bit (n::int) 7"
  by (simp add: bit_iff_odd)

lemma uint_byte_less: "uint (b::byte) < 256"
  using uint_lt2p [of b] by simp

lemma Stream_Read_UINT8_range: "Stream_Read_UINT8 s = Some (b, s') \<Longrightarrow> 0 \<le> b \<and> b < 256"
  by (auto simp: Stream_Read_UINT8_def uint_byte_less split: bind_splits)

lemma Stream_Read_UINT16_range: "Stream_Read_UINT16 s = Some (v, s') \<Longrightarrow> 0 \<le> v \<and> v < 65536"
proof -
  assume "Stream_Read_UINT16 s = Some (v, s')"
  then obtain a b :: byte where "v = uint a + uint b * 256"
    by (auto simp: Stream_Read_UINT16_def push_bit_eq_mult split: bind_splits)
  with uint_byte_less [of a] uint_byte_less [of b] show ?thesis by simp
qed

lemma Stream_Read_UINT16_BE_range: "Stream_Read_UINT16_BE s = Some (v, s') \<Longrightarrow> 0 \<le> v \<and> v < 65536"
proof -
  assume "Stream_Read_UINT16_BE s = Some (v, s')"
  then obtain a b :: byte where "v = uint a * 256 + uint b"
    by (auto simp: Stream_Read_UINT16_BE_def push_bit_eq_mult split: bind_splits)
  with uint_byte_less [of a] uint_byte_less [of b] show ?thesis by simp
qed

text \<open>Reading what the macros write, and loops of writes.\<close>

lemma uint_byte: "uint (word_of_int v :: byte) = v mod 256"
  by (simp add: uint_word_of_int)

lemma read_byte: "s_ok s \<Longrightarrow> s_rest s = word_of_int v # rest \<Longrightarrow> Stream_Read_UINT8 s = Some (v mod 256, s_adv 1 s)"
  using Stream_Read_UINT8_rest [of s "word_of_int v" rest] by (simp add: uint_byte)

lemma be16_value: "(drop_bit 8 v mod 256) * 256 + v mod 256 = v mod (65536::int)"
  using zmod_zmult2_eq [of 256 v 256] by (simp add: drop_bit_eq_div)

lemma read_be16: "s_ok s \<Longrightarrow> s_rest s = be16 v @ rest \<Longrightarrow> Stream_Read_UINT16_BE s = Some (v mod 65536, s_adv 2 s)"
  using Stream_Read_UINT16_BE_rest [of s "word_of_int (drop_bit 8 v)" "word_of_int v" rest] be16_value [of v]
  by (simp add: be16_def uint_byte)

lemma be32_value: "(drop_bit 16 v mod 65536) * 65536 + v mod 65536 = v mod (4294967296::int)"
  using zmod_zmult2_eq [of 65536 v 65536] by (simp add: drop_bit_eq_div)

lemma read_be32: 
  assumes "s_ok s" and "s_rest s = be32 v @ rest"
  shows "Stream_Read_UINT32_BE s = Some (v mod 4294967296, s_adv 4 s)"
proof -
  let ?w = "drop_bit 16 v"
  have "Stream_Read_UINT32_BE s = Some ((drop_bit 8 ?w mod 256) * 16777216 + (?w mod 256) * 65536
      + (drop_bit 8 v mod 256) * 256 + v mod 256, s_adv 4 s)"
    using assms Stream_Read_UINT32_BE_rest [of s "word_of_int (drop_bit 8 ?w)" "word_of_int ?w"
      "word_of_int (drop_bit 8 v)" "word_of_int v" rest]
    by (simp add: be32_def be16_def uint_byte del: drop_bit_drop_bit)
  also have "(drop_bit 8 ?w mod 256) * 16777216 + (?w mod 256) * 65536 + (drop_bit 8 v mod 256) * 256 + v mod 256
      = v mod 4294967296"
    by (simp only: be32_value [symmetric] be16_value [symmetric] distrib_right add.assoc mult.assoc)
  finally show ?thesis .
qed

lemma read_le32:
  assumes "s_ok s" and "s_rest s = le32 v @ rest"
  shows "Stream_Read_UINT32 s = Some (v mod 4294967296, s_adv 4 s)"
proof -
  let ?w = "drop_bit 16 v"
  have "le32 v = [word_of_int v, word_of_int (drop_bit 8 v), word_of_int ?w, word_of_int (drop_bit 8 ?w)]"
    by (simp add: le32_def le16_def)
  then have r: "s_rest s = [word_of_int v, word_of_int (drop_bit 8 v), word_of_int ?w, word_of_int (drop_bit 8 ?w)] @ rest"
    using assms(2) by simp
  have "Stream_Read_UINT32 s = Some (v mod 256 + (drop_bit 8 v mod 256) * 256 + (?w mod 256) * 65536
      + (drop_bit 8 ?w mod 256) * 16777216, s_adv 4 s)"
    using assms(1) r aget_rest [of s 0] aget_rest [of s 1] aget_rest [of s 2] aget_rest [of s 3]
    by (simp add: Stream_Read_UINT32_def s_adv_def push_bit_eq_mult uint_byte del: drop_bit_drop_bit)
  also have "v mod 256 + (drop_bit 8 v mod 256) * 256 + (?w mod 256) * 65536 + (drop_bit 8 ?w mod 256) * 16777216 = v mod 4294967296"
    by (simp only: be32_value [symmetric] be16_value [symmetric] distrib_right add.assoc mult.assoc ac_simps) simp
  finally show ?thesis .
qed

lemma read_le16: "s_ok s \<Longrightarrow> s_rest s = le16 v @ rest \<Longrightarrow> Stream_Read_UINT16 s = Some (v mod 65536, s_adv 2 s)"
  using Stream_Read_UINT16_rest [of s "word_of_int v" "word_of_int (drop_bit 8 v)" rest] be16_value [of v]
  by (simp add: le16_def uint_byte add.commute)


definition pos_ok :: "wStream \<Rightarrow> bool" where
  "pos_ok s \<longleftrightarrow> 0 \<le> s_pos s \<and> s_pos s \<le> int (length (s_buffer s))"

lemma pos_ok_write: "Stream_Write s bs = Some s' \<Longrightarrow> pos_ok s'"
  by (auto simp: Stream_Write_def ablit_def pos_ok_def min_def split: if_splits bind_splits)

lemma s_ok_pos: "s_ok s \<Longrightarrow> pos_ok s"
  by (simp add: s_ok_def pos_ok_def)

lemma foldM_writes:
  "(\<And>i s. i \<in> set is \<Longrightarrow> f i s = Stream_Write s (e i)) \<Longrightarrow> pos_ok s \<Longrightarrow>
    foldM f is s = Stream_Write s (concat (map e is))"
proof (induction "is" arbitrary: s)
  case Nil
  then show ?case by (simp add: Stream_Write_0 pos_ok_def)
next
  case (Cons i "is")
  have "(do { s \<leftarrow> Stream_Write s (e i); foldM f is s }) = (do { s \<leftarrow> Stream_Write s (e i); Stream_Write s (concat (map e is)) })"
    using Cons.IH [OF Cons.prems(1)] pos_ok_write [of s "e i"] by (cases "Stream_Write s (e i)") simp_all
  then show ?case using Cons.prems(1) [of i s] by (simp add: Stream_Write_append)
qed

lemma writes_array:
  assumes "n \<le> length str" and "pos_ok s"
  shows "foldM (\<lambda>i s. do { c \<leftarrow> aget str i; Stream_Write_UINT8 s (uint c) }) [0..int n - 1] s = Stream_Write s (take n str)"
proof -
  have "foldM (\<lambda>i s. do { c \<leftarrow> aget str i; Stream_Write_UINT8 s (uint c) }) (map int [0..<n]) s =
      Stream_Write s (concat (map (\<lambda>i. [str ! nat i]) (map int [0..<n])))"
    using assms by (intro foldM_writes) (auto simp: aget_int emits)
  also have "concat (map (\<lambda>i. [str ! nat i]) (map int [0..<n])) = take n str"
    using assms(1) by (induction n) (simp_all add: take_Suc_conv_app_nth)
  finally show ?thesis by (simp only: upto_int)
qed

section \<open>Overwriting a part of a stream\<close>

lemma s_split:
  assumes "s_ok s"
  obtains pre post where "s_buffer s = pre @ s_rest s @ post" "s_pos s = int (length pre)"
    "s_length s = int (length pre + length (s_rest s))"
proof
  have le: "0 \<le> s_pos s" "s_pos s \<le> s_length s" "s_length s \<le> int (length (s_buffer s))" using assms by (simp_all add: s_ok_def)
  show "s_buffer s = take (nat (s_pos s)) (s_buffer s) @ s_rest s @ drop (nat (s_length s)) (s_buffer s)"
  proof -
    have "nat (s_length s) = nat (s_pos s) + nat (s_length s - s_pos s)" using le by simp
    then have "drop (nat (s_length s)) (s_buffer s) = drop (nat (s_length s - s_pos s)) (drop (nat (s_pos s)) (s_buffer s))"
      by (simp add: add.commute)
    then show ?thesis by (simp only: s_rest_def append_take_drop_id)
  qed
  show p: "s_pos s = int (length (take (nat (s_pos s)) (s_buffer s)))" using le by simp
  show "s_length s = int (length (take (nat (s_pos s)) (s_buffer s)) + length (s_rest s))"
    using p length_s_rest [OF assms] by simp
qed

lemma s_joined:
  assumes "s_buffer s = pre @ r @ post" "s_pos s = int (length pre)" "s_length s = int (length pre + length r)" "s_length s \<le> INT_MAX"
  shows "s_ok s" "s_rest s = r"
proof -
  have "nat (s_length s - s_pos s) = length r" using assms(2,3) by simp
  then show "s_rest s = r" using assms(1,2) by (simp add: s_rest_def)
  show "s_ok s" using assms by (simp add: s_ok_def)
qed

lemma s_overwrite:
  assumes "s_ok s" and "s_rest s = as @ bs @ cs" and "length ys = length bs"
  shows "\<exists>t. Stream_Write (s_adv (length as) s) ys = Some (s_adv (length as + length ys) t) \<and> s_ok t \<and> s_rest t = as @ ys @ cs
    \<and> s_pos t = s_pos s \<and> s_length t = s_length s \<and> length (s_buffer t) = length (s_buffer s)"
proof -
  from s_split [OF assms(1)] obtain pre post where s: "s_buffer s = pre @ s_rest s @ post" "s_pos s = int (length pre)"
    "s_length s = int (length pre + length (s_rest s))" .
  let ?buf = "pre @ (as @ ys @ cs) @ post"
  let ?t = "s\<lparr>s_buffer := ?buf\<rparr>"
  have nn: "nat (int (length pre) + int (length as)) = length pre + length as" "length ys = length bs" using assms(3) by simp_all
  have "s_ok ?t" "s_rest ?t = as @ ys @ cs"
    by (rule s_joined [of ?t pre "as @ ys @ cs" post]; use s assms in \<open>simp add: s_ok_def\<close>)+
  moreover have "ablit (s_buffer s) (s_pos s + int (length as)) ys = Some ?buf"
    using s assms(2) by (simp add: ablit_def nn)
  then have "Stream_Write (s_adv (length as) s) ys = Some (s_adv (length as + length ys) ?t)"
    by (simp add: Stream_Write_def s_adv_def ac_simps)
  moreover have "length (s_buffer ?t) = length (s_buffer s)" using s(1) assms(2,3) by simp
  ultimately show ?thesis by (intro exI [of _ ?t]) simp
qed

text \<open>A stream of zero bytes, written from its start.\<close>

abbreviation blank :: "nat \<Rightarrow> wStream" where
  "blank n \<equiv> \<lparr>s_buffer = replicate n 0, s_pos = 0, s_length = int n, s_capacity = int n, s_count = 0, s_pool = NULL\<rparr>"

lemma blank_ok: "int n \<le> INT_MAX \<Longrightarrow> s_ok (blank n) \<and> length (s_rest (blank n)) = n"
  by (simp add: s_ok_def s_rest_def)

section \<open>Growth\<close>

lemma se_double_ok:
  assumes "0 < c" and "c < sz" and "sz \<le> 4611686018427387904"
  shows "\<exists>k. se_double c sz = Some (c * 2 ^ Suc k) \<and> sz \<le> c * 2 ^ Suc k \<and> c * 2 ^ k < sz"
  using assms
proof (induction "nat (sz - c)" arbitrary: c rule: less_induct)
  case less
  have d: "csize (c * 2) = c * 2" using less.prems by (simp add: csize_def)
  show ?case
  proof (cases "c * 2 < sz")
    case True
    from less.hyps [of "c * 2"] True less.prems obtain k where
      "se_double (c * 2) sz = Some (c * 2 * 2 ^ Suc k) \<and> sz \<le> c * 2 * 2 ^ Suc k \<and> c * 2 * 2 ^ k < sz" by fastforce
    then show ?thesis using d True
      by (intro exI [of _ "Suc k"]) (subst se_double.simps, simp add: Let_def ac_simps)
  next
    case False
    then show ?thesis using d less.prems
      by (intro exI [of _ 0]) (subst se_double.simps, simp add: Let_def)
  qed
qed

lemma se_double_diverges:
  assumes "se_double c sz = Some y"
  shows "c = 0 \<longrightarrow> sz \<le> 0"
  by (rule se_double.raw_induct [where P = "\<lambda>c sz y. c = 0 \<longrightarrow> sz \<le> 0", OF _ assms])
    (auto simp: csize_def Let_def split: if_splits)

lemma se_double_0: "0 < sz \<Longrightarrow> se_double 0 sz = None"
  using se_double_diverges [of 0 sz] by (cases "se_double 0 sz") auto

lemma ensure_grows:
  assumes cap: "s_capacity s = int (length (s_buffer s))" "s_capacity s \<noteq> 0" and pos: "0 \<le> s_pos s" "s_pos s \<le> s_capacity s"
    and sz: "s_capacity s < sz" "sz \<le> 4611686018427387904"
  shows "\<exists>k s'. Stream_EnsureCapacity (Some j) s sz = Some (True, s')
      \<and> s_capacity s' = s_capacity s * 2 ^ Suc k \<and> sz \<le> s_capacity s' \<and> s_capacity s * 2 ^ k < sz
      \<and> s_buffer s' = s_buffer s @ replicate (nat (s_capacity s' - s_capacity s)) 0
      \<and> s_pos s' = s_pos s \<and> s_length s' = s_capacity s'"
proof -
  obtain k where k: "se_double (s_capacity s) sz = Some (s_capacity s * 2 ^ Suc k)"
    "sz \<le> s_capacity s * 2 ^ Suc k" "s_capacity s * 2 ^ k < sz"
    using se_double_ok [of "s_capacity s" sz] sz cap by fastforce
  let ?n = "s_capacity s * 2 ^ Suc k"
  have n: "s_capacity s < ?n" "0 \<le> ?n" "length (s_buffer s) \<le> nat ?n" "nat (int (length (s_buffer s))) = length (s_buffer s)"
    using sz(1) k(2) cap by linarith+
  let ?buf = "s_buffer s @ replicate (nat (?n - s_capacity s)) 0"
  have "afill (arealloc (s_buffer s) ?n j) (s_capacity s) (?n - s_capacity s) 0 = Some ?buf"
    using n cap by (simp add: afill_def take_arealloc del: power_Suc)
  moreover have "s_pos s \<le> int (length ?buf)"
    unfolding length_append using pos(2) cap(1) by linarith
  ultimately have "Stream_EnsureCapacity (Some j) s sz =
      Some (True, s\<lparr>s_capacity := ?n, s_length := ?n, s_buffer := ?buf\<rparr>)"
    using k(1) sz(1) pos n by (simp add: Stream_EnsureCapacity_def Stream_SetPosition_def Let_def del: power_Suc length_append)
  then show ?thesis using k(2,3) by (intro exI [of _ k]) (auto simp del: power_Suc)
qed

lemma ensure_ok:
  assumes cap: "s_capacity s = int (length (s_buffer s))" "0 < s_capacity s" and pos: "0 \<le> s_pos s" "s_pos s \<le> s_capacity s"
    and sz: "sz \<le> 4611686018427387904"
  shows "\<exists>s' zs. Stream_EnsureCapacity (Some j) s sz = Some (True, s') \<and> s_buffer s' = s_buffer s @ zs
      \<and> s_capacity s' = int (length (s_buffer s')) \<and> sz \<le> s_capacity s' \<and> s_pos s' = s_pos s
      \<and> (s_capacity s' = s_capacity s \<or> s_capacity s' < 2 * sz)"
proof (cases "s_capacity s < sz")
  case True
  from ensure_grows [OF cap(1) _ pos True sz, of j] cap(2) obtain k s' where g:
    "Stream_EnsureCapacity (Some j) s sz = Some (True, s')" "s_capacity s' = s_capacity s * 2 ^ Suc k" "sz \<le> s_capacity s'"
    "s_capacity s * 2 ^ k < sz" "s_buffer s' = s_buffer s @ replicate (nat (s_capacity s' - s_capacity s)) 0" "s_pos s' = s_pos s"
    by auto
  moreover have "s_capacity s' < 2 * sz" using g(2,4) by simp
  moreover have "s_capacity s' = int (length (s_buffer s'))" using g(3,5) True cap(1) by simp
  ultimately show ?thesis by blast
next
  case False
  with cap show ?thesis by (intro exI [of _ s] exI [of _ "[]"]) (simp add: Stream_EnsureCapacity_def)
qed

text \<open>
  C31. A stream whose capacity is smaller than what is asked grows to the first doubling of its capacity
  that is large enough; the bytes and the position stay and the new bytes are zero. With a capacity of
  0 the doubling never ends.
\<close>

theorem Stream_EnsureCapacity_ok:
  assumes cap: "s_capacity s = int (length (s_buffer s))" and pos: "0 \<le> s_pos s" "s_pos s \<le> s_capacity s"
    and sz: "s_capacity s < sz" "sz \<le> 4611686018427387904"
  shows "if s_capacity s = 0 then Stream_EnsureCapacity (Some j) s sz = None
    else \<exists>k s'. Stream_EnsureCapacity (Some j) s sz = Some (True, s')
      \<and> s_capacity s' = s_capacity s * 2 ^ Suc k \<and> sz \<le> s_capacity s' \<and> s_capacity s * 2 ^ k < sz
      \<and> s_buffer s' = s_buffer s @ replicate (nat (s_capacity s' - s_capacity s)) 0
      \<and> s_pos s' = s_pos s \<and> s_length s' = s_capacity s'"
  using ensure_grows [OF cap _ pos sz, of j] se_double_0 [of sz] sz(1)
  by (simp add: Stream_EnsureCapacity_def)

lemma Stream_EnsureCapacity_ok_witness:
  "\<exists>k s'. Stream_EnsureCapacity (Some (\<lambda>_. 7))
      \<lparr>s_buffer = [1, 2], s_pos = 1, s_length = 2, s_capacity = 2, s_count = 0, s_pool = 0\<rparr> 5 = Some (True, s')
    \<and> s_capacity s' = 2 * 2 ^ Suc k \<and> 5 \<le> s_capacity s' \<and> 2 * 2 ^ k < (5::int)
    \<and> s_buffer s' = [1, 2] @ replicate (nat (s_capacity s' - 2)) 0 \<and> s_pos s' = 1 \<and> s_length s' = s_capacity s'"
  using Stream_EnsureCapacity_ok [of "\<lparr>s_buffer = [1, 2], s_pos = 1, s_length = 2, s_capacity = 2, s_count = 0, s_pool = 0\<rparr>"
    5 "\<lambda>_. 7"] by simp

section \<open>A stream being filled\<close>

lemma ablit_nil: "0 \<le> d \<Longrightarrow> d \<le> int (length buf) \<Longrightarrow> ablit buf d [] = Some buf"
  by (simp add: ablit_def)

lemma ablit_trans: "ablit buf d as = Some buf1 \<Longrightarrow> ablit buf1 (d + int (length as)) bs = Some buf2 \<Longrightarrow>
    ablit buf d (as @ bs) = Some buf2"
  using ablit_append [of buf d as bs] by simp

lemma ablit_length: "ablit buf d as = Some buf' \<Longrightarrow> length buf' = length buf \<and> 0 \<le> d \<and> d + int (length as) \<le> int (length buf)"
  by (auto simp: ablit_def split: if_splits)

text \<open>The bytes \<open>p\<close> stand in front of the pointer of the stream.\<close>

definition holds :: "wStream \<Rightarrow> byte list \<Rightarrow> bool" where
  "holds s p \<longleftrightarrow> s_pos s = int (length p) \<and> take (length p) (s_buffer s) = p \<and> length p \<le> length (s_buffer s)
     \<and> s_capacity s = int (length (s_buffer s)) \<and> 0 < s_capacity s \<and> s_capacity s \<le> INT_MAX"

lemma holds_append:
  assumes "holds s p" and "ablit (s_buffer s) (s_pos s) c = Some buf"
  shows "holds (s\<lparr>s_buffer := buf, s_pos := s_pos s + int (length c)\<rparr>) (p @ c)"
proof -
  have buf: "buf = p @ c @ drop (length p + length c) (s_buffer s)"
    using assms by (auto simp: holds_def ablit_def split: if_splits)
  have len: "length buf = length (s_buffer s)" "length (p @ c) \<le> length (s_buffer s)"
    using ablit_length [OF assms(2)] assms(1) by (simp_all add: holds_def)
  have "take (length (p @ c)) buf = p @ c" by (subst buf) simp
  with assms(1) len show ?thesis by (auto simp: holds_def)
qed

lemma holds_ensure:
  assumes "holds s p" and "sz \<le> 1073741823" and "Stream_EnsureCapacity mem s sz = Some (ok, s')" and ok
  shows "holds s' p \<and> sz \<le> s_capacity s'"
proof (cases mem)
  case None
  with assms show ?thesis by (auto simp: Stream_EnsureCapacity_def split: if_splits bind_splits)
next
  case (Some j)
  have "\<exists>s' zs. Stream_EnsureCapacity (Some j) s sz = Some (True, s') \<and> s_buffer s' = s_buffer s @ zs
      \<and> s_capacity s' = int (length (s_buffer s')) \<and> sz \<le> s_capacity s' \<and> s_pos s' = s_pos s
      \<and> (s_capacity s' = s_capacity s \<or> s_capacity s' < 2 * sz)"
    using assms(1,2) unfolding holds_def by (intro ensure_ok) linarith+
  then show ?thesis using assms Some by (auto simp: holds_def)
qed

lemma ensure_total:
  assumes "holds s p" and "sz \<le> 1073741823"
  shows "\<exists>ok s'. Stream_EnsureCapacity mem s sz = Some (ok, s') \<and> (mem = None \<or> ok)"
proof (cases mem)
  case None
  have "s_capacity s < sz \<Longrightarrow> \<exists>y. se_double (s_capacity s) sz = Some y"
    using assms se_double_ok [of "s_capacity s" sz] by (auto simp: holds_def)
  then show ?thesis using None by (cases "s_capacity s < sz") (auto simp: Stream_EnsureCapacity_def)
next
  case (Some j)
  have "\<exists>s' zs. Stream_EnsureCapacity (Some j) s sz = Some (True, s') \<and> s_buffer s' = s_buffer s @ zs
      \<and> s_capacity s' = int (length (s_buffer s')) \<and> sz \<le> s_capacity s' \<and> s_pos s' = s_pos s
      \<and> (s_capacity s' = s_capacity s \<or> s_capacity s' < 2 * sz)"
    using assms unfolding holds_def by (intro ensure_ok) linarith+
  then show ?thesis using Some by auto
qed

lemma holds_write:
  assumes "holds s p" and "int (length p + length bs) \<le> s_capacity s"
  shows "\<exists>s'. Stream_Write s bs = Some s' \<and> holds s' (p @ bs) \<and> s_capacity s' = s_capacity s \<and> s_pool s' = s_pool s"
proof -
  obtain buf where "ablit (s_buffer s) (s_pos s) bs = Some buf" using assms by (simp add: ablit_def holds_def)
  with holds_append [OF assms(1) this] ablit_length [OF this] show ?thesis by (simp add: Stream_Write_def)
qed

lemma holds_remaining:
  assumes "holds s p" and "0 \<le> n" and "s_capacity s + n \<le> 1073741823"
  shows "\<exists>s'. Stream_EnsureRemainingCapacity (Some j) s n = Some (True, s') \<and> holds s' p
    \<and> int (length p) + n \<le> s_capacity s' \<and> s_capacity s' \<le> max (s_capacity s) (2 * (int (length p) + 2 * n))"
proof (cases "s_capacity s < int (length p) + n")
  case True
  have c: "csize (s_pos s + n) = int (length p) + n" "csize (s_capacity s + n) = s_capacity s + n"
    using assms by (simp_all add: csize_def holds_def)
  have "\<exists>s' zs. Stream_EnsureCapacity (Some j) s (s_capacity s + n) = Some (True, s') \<and> s_buffer s' = s_buffer s @ zs
      \<and> s_capacity s' = int (length (s_buffer s')) \<and> s_capacity s + n \<le> s_capacity s' \<and> s_pos s' = s_pos s
      \<and> (s_capacity s' = s_capacity s \<or> s_capacity s' < 2 * (s_capacity s + n))"
    using assms unfolding holds_def by (intro ensure_ok) linarith+
  then obtain s' zs where e: "Stream_EnsureCapacity (Some j) s (s_capacity s + n) = Some (True, s')" "s_buffer s' = s_buffer s @ zs"
      "s_capacity s' = int (length (s_buffer s'))" "s_capacity s + n \<le> s_capacity s'" "s_pos s' = s_pos s"
      "s_capacity s' = s_capacity s \<or> s_capacity s' < 2 * (s_capacity s + n)" by blast
  have "holds s' p" using assms(1,3) e by (auto simp: holds_def)
  moreover have "int (length p) \<le> s_capacity s" using assms(1) by (simp add: holds_def)
  ultimately show ?thesis using c True e assms by (intro exI [of _ s']) (auto simp: Stream_EnsureRemainingCapacity_def)
next
  case False
  have "csize (s_pos s + n) = int (length p) + n" using assms by (simp add: csize_def holds_def)
  with False assms show ?thesis by (intro exI [of _ s]) (simp add: Stream_EnsureRemainingCapacity_def)
qed

text \<open>A filled stream, rewound for reading.\<close>

lemma holds_reading: "holds s p \<Longrightarrow> s_ok (s\<lparr>s_pos := 0, s_length := int (length p)\<rparr>) \<and> s_rest (s\<lparr>s_pos := 0, s_length := int (length p)\<rparr>) = p"
  by (auto simp: holds_def s_ok_def s_rest_def)

section \<open>Parsing a known encoding\<close>

text \<open>As \<open>parses\<close>, for a function of any result: on the bytes \<open>bs\<close> it returns \<open>v\<close>, behind them.\<close>

definition yields :: "(wStream \<Rightarrow> ('a \<times> wStream) option) \<Rightarrow> byte list \<Rightarrow> 'a \<Rightarrow> bool" where
  "yields rd bs v \<longleftrightarrow> (\<forall>s rest. s_ok s \<longrightarrow> s_rest s = bs @ rest \<longrightarrow> rd s = Some (v, s_adv (length bs) s))"

named_theorems yields \<open>rules for parsers on a known encoding\<close>

lemma yieldsD: "yields rd bs v \<Longrightarrow> s_ok s \<Longrightarrow> s_rest s = bs @ rest \<Longrightarrow> rd s = Some (v, s_adv (length bs) s)"
  by (simp add: yields_def)

lemma yields_bind:
  assumes "yields rd bs v" and "yields (f v) cs w"
  shows "yields (\<lambda>s. do { (x, s) \<leftarrow> rd s; f x s }) (bs @ cs) w"
  unfolding yields_def
proof (intro allI impI)
  fix s rest assume s: "s_ok s" "s_rest s = (bs @ cs) @ rest"
  have "rd s = Some (v, s_adv (length bs) s)" using s by (intro yieldsD [OF assms(1), where rest = "cs @ rest"]) simp_all
  moreover have "f v (s_adv (length bs) s) = Some (w, s_adv (length cs) (s_adv (length bs) s))"
    using s by (intro yieldsD [OF assms(2), where rest = rest]) simp_all
  ultimately show "(do { (x, s) \<leftarrow> rd s; f x s }) = Some (w, s_adv (length (bs @ cs)) s)" by simp
qed

lemma yields_last: "yields rd bs v \<Longrightarrow> yields (f v) [] w \<Longrightarrow> yields (\<lambda>s. do { (x, s) \<leftarrow> rd s; f x s }) bs w"
  using yields_bind [of rd bs v f "[]" w] by simp

lemma yields_ret [yields]: "v = w \<Longrightarrow> yields (\<lambda>s. Some (v, s)) [] w"
  by (simp add: yields_def)

lemma yields_guard [yields]:
  "yields f bs w \<Longrightarrow> n \<le> int (length bs) \<Longrightarrow> yields (\<lambda>s. if Stream_GetRemainingLength s < n then g s else f s) bs w"
  by (simp add: yields_def)

lemma yields_then: "c \<Longrightarrow> yields f bs w \<Longrightarrow> yields (\<lambda>s. if c then f s else g s) bs w"
  by simp

lemma yields_else: "\<not> c \<Longrightarrow> yields g bs w \<Longrightarrow> yields (\<lambda>s. if c then f s else g s) bs w"
  by simp

lemma yields_u8 [yields]: "yields (f v) cs w \<Longrightarrow> 0 \<le> v \<Longrightarrow> v < 256 \<Longrightarrow>
    yields (\<lambda>s. do { (x, s) \<leftarrow> Stream_Read_UINT8 s; f x s }) (word_of_int v # cs) w"
  using yields_bind [of Stream_Read_UINT8 "[word_of_int v]" v f cs w] read_byte by (auto simp: yields_def)

lemma yields_u16 [yields]: "yields (f v) cs w \<Longrightarrow> 0 \<le> v \<Longrightarrow> v < 65536 \<Longrightarrow>
    yields (\<lambda>s. do { (x, s) \<leftarrow> Stream_Read_UINT16 s; f x s }) (le16 v @ cs) w"
  by (rule yields_bind [rotated]) (auto simp: yields_def read_le16)

lemma yields_u32 [yields]: "yields (f v) cs w \<Longrightarrow> 0 \<le> v \<Longrightarrow> v < 4294967296 \<Longrightarrow>
    yields (\<lambda>s. do { (x, s) \<leftarrow> Stream_Read_UINT32 s; f x s }) (le32 v @ cs) w"
  by (rule yields_bind [rotated]) (auto simp: yields_def read_le32)

lemma yields_block [yields]: "yields (f bs) cs w \<Longrightarrow> n = int (length bs) \<Longrightarrow>
    yields (\<lambda>s. do { (x, s) \<leftarrow> Stream_Read s n; f x s }) (bs @ cs) w"
  by (rule yields_bind [rotated]) (auto simp: yields_def Stream_Read_rest)

lemma yields_seek [yields]:
  assumes "yields f cs w" and "n = int (length bs)"
  shows "yields (\<lambda>s. do { s \<leftarrow> Stream_Seek s n; f s }) (bs @ cs) w"
  unfolding yields_def
proof (intro allI impI)
  fix s rest assume s: "s_ok s" "s_rest s = (bs @ cs) @ rest"
  then have "Stream_Seek s n = Some (s_adv (length bs) s)" using assms(2) by (simp add: Stream_Seek_rest)
  moreover have "f (s_adv (length bs) s) = Some (w, s_adv (length cs) (s_adv (length bs) s))"
    using s by (intro yieldsD [OF assms(1), where rest = rest]) simp_all
  ultimately show "(do { s \<leftarrow> Stream_Seek s n; f s }) = Some (w, s_adv (length (bs @ cs)) s)" by simp
qed

lemma yields_assoc [yields]: "yields (\<lambda>s. do { (x, s) \<leftarrow> rd s; Option.bind (f x s) h }) bs w \<Longrightarrow>
    yields (\<lambda>s. Option.bind (do { (x, s) \<leftarrow> rd s; f x s }) h) bs w"
  by (simp add: split_def)

lemma yields_value [yields]: "yields (\<lambda>s. f v s) bs w \<Longrightarrow> yields (\<lambda>s. do { (x, s) \<leftarrow> Some (v, s); f x s }) bs w"
  by simp

lemma yields_bind_then: "c \<Longrightarrow> yields (\<lambda>s. Option.bind (f s) h) bs w \<Longrightarrow> yields (\<lambda>s. Option.bind (if c then f s else g s) h) bs w"
  by simp

lemma yields_bind_else: "\<not> c \<Longrightarrow> yields (\<lambda>s. Option.bind (g s) h) bs w \<Longrightarrow> yields (\<lambda>s. Option.bind (if c then f s else g s) h) bs w"
  by simp

text \<open>For the last value of an encoding.\<close>

lemmas yields_lasts = yields_u16 [where cs = "[]", simplified append_Nil2] yields_u32 [where cs = "[]", simplified append_Nil2]
  yields_block [where cs = "[]", simplified append_Nil2] yields_seek [where cs = "[]", simplified append_Nil2]

lemmas yields_thens = yields_then yields_bind_then
lemmas yields_elses = yields_else yields_bind_else

end
