(* ===== verification/WPer.thy ===== *)
theory WPer
  imports WStream
begin

text \<open>
  The packed encoding rules of \<open>libfreerdp/crypto/per.c\<close>: parsers and writers of lengths, integers,
  object identifiers and strings over a stream.
\<close>

section \<open>Lengths and single bytes\<close>

definition per_read_length :: "wStream \<Rightarrow> (int option \<times> wStream) option" where
  "per_read_length s =
     (if Stream_GetRemainingLength s < 1 then Some (None, s)
      else do {
        (b, s) \<leftarrow> Stream_Read_UINT8 s;
        if b AND 0x80 \<noteq> 0 then
          (if Stream_GetRemainingLength s < 1 then Some (None, s)
           else do {
             (b', s) \<leftarrow> Stream_Read_UINT8 s;
             Some (Some (u16 (u16 (push_bit 8 (b AND NOT 0x80)) + b')), s) })
        else Some (Some b, s) })"

definition per_write_length :: "wStream \<Rightarrow> int \<Rightarrow> wStream option" where
  "per_write_length s len =
     (if 0x7F < len then Stream_Write_UINT16_BE s (len OR 0x8000) else Stream_Write_UINT8 s len)"

definition per_read_choice :: "wStream \<Rightarrow> (int option \<times> wStream) option" where
  "per_read_choice s =
     (if Stream_GetRemainingLength s < 1 then Some (None, s)
      else do { (choice, s) \<leftarrow> Stream_Read_UINT8 s; Some (Some choice, s) })"

definition per_write_choice :: "wStream \<Rightarrow> int \<Rightarrow> wStream option" where
  "per_write_choice s choice = Stream_Write_UINT8 s choice"

definition per_read_selection :: "wStream \<Rightarrow> (int option \<times> wStream) option" where
  "per_read_selection s =
     (if Stream_GetRemainingLength s < 1 then Some (None, s)
      else do { (selection, s) \<leftarrow> Stream_Read_UINT8 s; Some (Some selection, s) })"

definition per_write_selection :: "wStream \<Rightarrow> int \<Rightarrow> wStream option" where
  "per_write_selection s selection = Stream_Write_UINT8 s selection"

definition per_read_number_of_sets :: "wStream \<Rightarrow> (int option \<times> wStream) option" where
  "per_read_number_of_sets s =
     (if Stream_GetRemainingLength s < 1 then Some (None, s)
      else do { (number, s) \<leftarrow> Stream_Read_UINT8 s; Some (Some number, s) })"

definition per_write_number_of_sets :: "wStream \<Rightarrow> int \<Rightarrow> wStream option" where
  "per_write_number_of_sets s number = Stream_Write_UINT8 s number"

definition per_read_padding :: "wStream \<Rightarrow> int \<Rightarrow> (unit option \<times> wStream) option" where
  "per_read_padding s len =
     (if as_int (Stream_GetRemainingLength s) < len then Some (None, s)
      else do { s \<leftarrow> Stream_Seek s len; Some (Some (), s) })"

definition per_write_padding :: "wStream \<Rightarrow> int \<Rightarrow> wStream option" where
  "per_write_padding s len = foldM (\<lambda>i s. Stream_Write_UINT8 s 0) [0..len - 1] s"

section \<open>Integers\<close>

definition per_read_integer :: "wStream \<Rightarrow> (int option \<times> wStream) option" where
  "per_read_integer s = rbind (per_read_length s) (\<lambda>len s.
     if Stream_GetRemainingLength s < len then Some (None, s)
     else if len = 0 then Some (Some 0, s)
     else if len = 1 then do { (i, s) \<leftarrow> Stream_Read_UINT8 s; Some (Some i, s) }
     else if len = 2 then do { (i, s) \<leftarrow> Stream_Read_UINT16_BE s; Some (Some i, s) }
     else Some (None, s))"

definition per_write_integer :: "wStream \<Rightarrow> int \<Rightarrow> wStream option" where
  "per_write_integer s integer =
     (if integer \<le> 0xFF then do { s \<leftarrow> per_write_length s 1; Stream_Write_UINT8 s integer }
      else if integer \<le> 0xFFFF then do { s \<leftarrow> per_write_length s 2; Stream_Write_UINT16_BE s integer }
      else if integer \<le> 0xFFFFFFFF then do { s \<leftarrow> per_write_length s 4; Stream_Write_UINT32_BE s integer }
      else Some s)"

definition per_read_integer16 :: "wStream \<Rightarrow> int \<Rightarrow> (int option \<times> wStream) option" where
  "per_read_integer16 s mn =
     (if Stream_GetRemainingLength s < 2 then Some (None, s)
      else do {
        (integer, s) \<leftarrow> Stream_Read_UINT16_BE s;
        if integer + mn > 0xFFFF then Some (None, s) else Some (Some (u16 (integer + mn)), s) })"

definition per_write_integer16 :: "wStream \<Rightarrow> int \<Rightarrow> int \<Rightarrow> wStream option" where
  "per_write_integer16 s integer mn = Stream_Write_UINT16_BE s (integer - mn)"

definition per_read_enumerated :: "wStream \<Rightarrow> int \<Rightarrow> (int option \<times> wStream) option" where
  "per_read_enumerated s count =
     (if Stream_GetRemainingLength s < 1 then Some (None, s)
      else do {
        (enumerated, s) \<leftarrow> Stream_Read_UINT8 s;
        if enumerated + 1 > count then Some (None, s) else Some (Some enumerated, s) })"

definition per_write_enumerated :: "wStream \<Rightarrow> int \<Rightarrow> int \<Rightarrow> wStream option" where
  "per_write_enumerated s enumerated count = Stream_Write_UINT8 s enumerated"

section \<open>Object identifiers\<close>

text \<open>An identifier is six bytes; the parser compares the six read ones with the expected ones.\<close>

definition per_read_object_identifier :: "wStream \<Rightarrow> int list \<Rightarrow> (unit option \<times> wStream) option" where
  "per_read_object_identifier s oid = rbind (per_read_length s) (\<lambda>len s.
     if len \<noteq> 5 then Some (None, s)
     else if Stream_GetRemainingLength s < len then Some (None, s)
     else do {
       (t12, s) \<leftarrow> Stream_Read_UINT8 s;
       let a0 = drop_bit 4 t12;
       let a1 = t12 AND 0x0F;
       (a2, s) \<leftarrow> Stream_Read_UINT8 s;
       (a3, s) \<leftarrow> Stream_Read_UINT8 s;
       (a4, s) \<leftarrow> Stream_Read_UINT8 s;
       (a5, s) \<leftarrow> Stream_Read_UINT8 s;
       o0 \<leftarrow> aget oid 0; o1 \<leftarrow> aget oid 1; o2 \<leftarrow> aget oid 2;
       o3 \<leftarrow> aget oid 3; o4 \<leftarrow> aget oid 4; o5 \<leftarrow> aget oid 5;
       if a0 = o0 \<and> a1 = o1 \<and> a2 = o2 \<and> a3 = o3 \<and> a4 = o4 \<and> a5 = o5
       then Some (Some (), s) else Some (None, s) })"

definition per_write_object_identifier :: "wStream \<Rightarrow> int list \<Rightarrow> wStream option" where
  "per_write_object_identifier s oid = do {
     o0 \<leftarrow> aget oid 0; o1 \<leftarrow> aget oid 1; o2 \<leftarrow> aget oid 2;
     o3 \<leftarrow> aget oid 3; o4 \<leftarrow> aget oid 4; o5 \<leftarrow> aget oid 5;
     let t12 = u8 (push_bit 4 o0 AND (o1 AND 0x0F));
     s \<leftarrow> Stream_Write_UINT8 s 5;
     s \<leftarrow> Stream_Write_UINT8 s t12;
     s \<leftarrow> Stream_Write_UINT8 s o2;
     s \<leftarrow> Stream_Write_UINT8 s o3;
     s \<leftarrow> Stream_Write_UINT8 s o4;
     Stream_Write_UINT8 s o5 }"

section \<open>Strings\<close>

definition per_write_string :: "wStream \<Rightarrow> byte list \<Rightarrow> int \<Rightarrow> wStream option" where
  "per_write_string s str len =
     foldM (\<lambda>i s. do { c \<leftarrow> aget str i; Stream_Write_UINT8 s (uint c) }) [0..len - 1] s"

definition per_read_octet_string :: "wStream \<Rightarrow> byte list \<Rightarrow> int \<Rightarrow> int \<Rightarrow> (unit option \<times> wStream) option" where
  "per_read_octet_string s oct_str len mn = rbind (per_read_length s) (\<lambda>mlength s.
     if mlength + mn \<noteq> len then Some (None, s)
     else if as_int (Stream_GetRemainingLength s) < len then Some (None, s)
     else do {
       let a_oct_str = s_pos s;
       s \<leftarrow> Stream_Seek s len;
       diff \<leftarrow> searchM (\<lambda>i. do {
         a \<leftarrow> aget (s_buffer s) (a_oct_str + i);
         b \<leftarrow> aget oct_str i;
         Some (a \<noteq> b) }) [0..len - 1];
       if diff = None then Some (Some (), s) else Some (None, s) })"

definition per_write_octet_string :: "wStream \<Rightarrow> byte list \<Rightarrow> int \<Rightarrow> int \<Rightarrow> wStream option" where
  "per_write_octet_string s oct_str len mn = do {
     let mlength = (if len - mn \<ge> 0 then len - mn else mn);
     s \<leftarrow> per_write_length s mlength;
     foldM (\<lambda>i s. do { c \<leftarrow> aget oct_str i; Stream_Write_UINT8 s (uint c) }) [0..len - 1] s }"

definition per_read_numeric_string :: "wStream \<Rightarrow> int \<Rightarrow> (unit option \<times> wStream) option" where
  "per_read_numeric_string s mn = rbind (per_read_length s) (\<lambda>mlength s. do {
     need \<leftarrow> cint (mlength + mn + 1);
     len \<leftarrow> cdiv need 2;
     if as_int (Stream_GetRemainingLength s) < len then Some (None, s)
     else do { s \<leftarrow> Stream_Seek s len; Some (Some (), s) } })"

text \<open>Two digits per byte; the byte of the code after a last single digit is that of \<open>0\<close>.\<close>

definition per_write_numeric_string :: "wStream \<Rightarrow> byte list \<Rightarrow> int \<Rightarrow> int \<Rightarrow> wStream option" where
  "per_write_numeric_string s num_str len mn = do {
     let mlength = (if len - mn \<ge> 0 then len - mn else mn);
     s \<leftarrow> per_write_length s mlength;
     foldM (\<lambda>i s. do {
       c1 \<leftarrow> aget num_str i;
       c2 \<leftarrow> (if i + 1 < len then aget num_str (i + 1) else Some 0x30);
       c1 \<leftarrow> crem (uint c1 - 0x30) 10;
       c2 \<leftarrow> crem (uint c2 - 0x30) 10;
       let num = u8 (push_bit 4 (u8 c1) OR u8 c2);
       Stream_Write_UINT8 s num }) [i \<leftarrow> [0..len - 1]. even i] s }"

section \<open>Bits of the length octets\<close>

lemma high_octet: "uint (word_of_int (drop_bit 8 (n OR 32768)) :: byte) = take_bit 7 (drop_bit 8 n) OR 128"
proof -
  have "take_bit 8 (drop_bit 8 (n OR 32768)) = take_bit 7 (drop_bit 8 n) OR 128"
    by (rule bit_eqI) (auto simp: bit_simps bit_128 bit_32768)
  then show ?thesis by (simp add: uint_word_of_int take_bit_eq_mod)
qed

lemma high_octet_bit: "bit (take_bit 7 m OR (128::int)) 7"
  using bit_or_iff [of "take_bit 7 m" "2 ^ 7" 7] by (simp add: bit_exp_iff)

lemma high_octet_rest: "(take_bit 7 m OR 128) AND NOT 128 = take_bit 7 (m::int)"
proof -
  show ?thesis by (rule bit_eqI) (auto simp: bit_simps bit_128)
qed

lemma low_octet: "(n OR 32768) mod 256 = n mod (256::int)"
proof -
  have "take_bit 8 (n OR 32768) = take_bit 8 n" by (rule bit_eqI) (auto simp: bit_simps bit_128 bit_32768)
  then show ?thesis by (simp add: take_bit_eq_mod)
qed

lemma length_octets: "push_bit 8 (take_bit 7 (drop_bit 8 n)) + n mod 256 = n mod (32768::int)"
  using zmod_zmult2_eq [of 128 n 256] by (simp add: push_bit_eq_mult take_bit_eq_mod drop_bit_eq_div)

section \<open>Round trips of lengths and integers\<close>

definition per_len :: "int \<Rightarrow> byte list" where
  "per_len n = (if 0x7F < n then be16 (n OR 0x8000) else [word_of_int n])"

lemma per_len_length: "length (per_len n) = (if 0x7F < n then 2 else 1)"
  by (simp add: per_len_def)

lemma per_write_length_emits [emits]: "per_write_length s n = Stream_Write s (per_len n)"
  by (simp add: per_write_length_def per_len_def emits)

lemma per_read_length_parses:
  assumes "0 \<le> n"
  shows "parses per_read_length (per_len n) (if 0x7F < n then n mod 0x8000 else n)"
proof (rule parsesI)
  fix s rest
  assume s: "s_ok s" "s_rest s = per_len n @ rest"
  show "per_read_length s = Some (Some (if 0x7F < n then n mod 0x8000 else n), s_adv (length (per_len n)) s)"
  proof (cases "0x7F < n")
    case True
    define h where "h = take_bit 7 (drop_bit 8 n) OR 128"
    have h: "bit h 7" "h AND NOT 128 = take_bit 7 (drop_bit 8 n)"
      unfolding h_def by (rule high_octet_bit, rule high_octet_rest)
    define b l where "b = (word_of_int (drop_bit 8 (n OR 32768)) :: byte)" and "l = (word_of_int (n OR 32768) :: byte)"
    have bl: "uint b = h" "uint l = n mod 256"
      unfolding b_def l_def h_def by (rule high_octet, simp only: uint_byte low_octet)
    have rest: "s_rest s = b # l # rest" using s(2) True by (simp add: per_len_def be16_def b_def l_def del: drop_bit_or)
    have "Stream_Read_UINT8 s = Some (h, s_adv 1 s)" using Stream_Read_UINT8_rest [OF s(1) rest] bl by simp
    moreover have "Stream_Read_UINT8 (s_adv 1 s) = Some (n mod 256, s_adv 2 s)"
      using Stream_Read_UINT8_rest [of "s_adv 1 s" l rest] s(1) rest bl by (simp add: numeral_2_eq_2)
    moreover have "u16 (u16 (push_bit 8 (h AND NOT 128)) + n mod 256) = n mod 32768"
      using length_octets [of n] by (simp only: h) (simp add: u16_def push_bit_eq_mult take_bit_eq_mod)
    ultimately show ?thesis using True s(1) rest h(1)
      by (simp add: per_read_length_def and_128 per_len_length)
  next
    case False
    then have "s_rest s = word_of_int n # rest" using s(2) by (simp add: per_len_def)
    then show ?thesis using Stream_Read_UINT8_rest [OF s(1)] False s(1) assms
      by (simp add: per_read_length_def and_128 small_no_bit uint_byte per_len_length)
  qed
qed

lemma per_read_length_safe [safe_readers]: "safe_reader per_read_length"
  by (rule safe_reader_from, unfold per_read_length_def [abs_def]) (intro reads; simp)

interpretation per_length: safe_codec "\<lambda>n s. per_write_length s n" per_read_length per_len "\<lambda>n. 0 \<le> n \<and> n < 0x8000"
proof
  show "parses per_read_length (per_len v) v" if "0 \<le> v \<and> v < 32768" for v
    using per_read_length_parses [of v] that by (simp split: if_splits)
qed (use emits safe_readers in simp_all)

text \<open>
  A length below \<open>0x8000\<close> written to a stream with room is read back and the reader stops where the
  writer did; a longer one is silently read back modulo \<open>0x8000\<close>.
\<close>

theorem per_length_roundtrip:
  assumes "0 \<le> n" and "s_ok s" and "2 \<le> length (s_rest s)"
  shows "\<exists>s'. per_write_length s n = Some s'
    \<and> per_read_length (s'\<lparr>s_pos := s_pos s\<rparr>) = Some (Some (if 0x7F < n then n mod 0x8000 else n), s')"
proof -
  have "length (per_len n) \<le> length (s_rest s)" using assms(3) by (simp add: per_len_length)
  from Stream_Write_reread [OF assms(2) this] obtain s' where w: "Stream_Write s (per_len n) = Some s'"
    "s_ok (s'\<lparr>s_pos := s_pos s\<rparr>)" "s_rest (s'\<lparr>s_pos := s_pos s\<rparr>) = per_len n @ s_rest s'"
    "s_adv (length (per_len n)) (s'\<lparr>s_pos := s_pos s\<rparr>) = s'" by blast
  from parsesD [OF per_read_length_parses [OF assms(1)] w(2,3)] w(1,4) show ?thesis
    by (simp add: per_write_length_emits)
qed

lemma per_length_roundtrip_witness:
  "\<exists>s'. per_write_length (blank 4) 0x9001 = Some s'
    \<and> per_read_length (s'\<lparr>s_pos := s_pos (blank 4)\<rparr>) = Some (Some (0x9001 mod 0x8000), s')"
  using per_length_roundtrip [of "0x9001" "blank 4"] blank_ok [of 4] by simp

section \<open>Integers\<close>

definition per_int :: "int \<Rightarrow> byte list" where
  "per_int v = (if v \<le> 0xFF then per_len 1 @ [word_of_int v]
     else if v \<le> 0xFFFF then per_len 2 @ be16 v else per_len 4 @ be32 v)"

lemma per_write_integer_emits: "v \<le> 0xFFFFFFFF \<Longrightarrow> per_write_integer s v = Stream_Write s (per_int v)"
  by (simp add: per_write_integer_def per_int_def emits write_merge)

lemma per_read_integer_parses:
  assumes "0 \<le> v" and "v \<le> 0xFFFF"
  shows "parses per_read_integer (per_int v) v"
proof -
  let ?f = "\<lambda>len s. if Stream_GetRemainingLength s < len then Some (None, s)
     else if len = 0 then Some (Some 0, s)
     else if len = 1 then do { (i, s) \<leftarrow> Stream_Read_UINT8 s; Some (Some i, s) }
     else if len = 2 then do { (i, s) \<leftarrow> Stream_Read_UINT16_BE s; Some (Some i, s) }
     else Some (None, s)"
  have eq: "per_read_integer = (\<lambda>s. rbind (per_read_length s) ?f)" by (simp add: fun_eq_iff per_read_integer_def)
  show ?thesis
  proof (cases "v \<le> 0xFF")
    case True
    have "parses (?f 1) [word_of_int v] v" using assms(1) True by (intro parsesI) (simp add: read_byte)
    then show ?thesis using parses_rbind [OF per_read_length_parses [of 1], of ?f] True by (simp add: eq per_int_def)
  next
    case False
    have "parses (?f 2) (be16 v) v" using assms by (intro parsesI) (simp add: read_be16)
    then show ?thesis using parses_rbind [OF per_read_length_parses [of 2], of ?f] False assms(2)
      by (simp add: eq per_int_def)
  qed
qed

lemma per_read_integer_safe [safe_readers]: "safe_reader per_read_integer"
  by (rule safe_reader_from, unfold per_read_integer_def [abs_def]) (intro reads safe_readers; simp)

interpretation per_integer: safe_codec "\<lambda>v s. per_write_integer s v" per_read_integer per_int "\<lambda>v. 0 \<le> v \<and> v \<le> 0xFFFF"
  by unfold_locales (simp_all add: per_write_integer_emits per_read_integer_parses per_read_integer_safe)

text \<open>
  C29. Any list of integers below \<open>0x10000\<close> written one after the other to a stream with room is read
  back, and the reader ends where the writer did.
\<close>

theorem per_integer_list_roundtrip:
  assumes "\<forall>v \<in> set vs. 0 \<le> v \<and> v \<le> 0xFFFF" and "s_ok s" and "length (concat (map per_int vs)) \<le> length (s_rest s)"
  shows "\<exists>s'. foldM (\<lambda>v s. per_write_integer s v) vs s = Some s'
    \<and> read_n (length vs) per_read_integer (s'\<lparr>s_pos := s_pos s\<rparr>) = Some (Some vs, s')"
  by (rule per_integer.roundtrip_list [OF assms])

lemma per_integer_list_roundtrip_witness:
  "\<exists>s'. foldM (\<lambda>v s. per_write_integer s v) [5, 0x1234, 0xFF] (blank 8) = Some s'
    \<and> read_n (length [5, 0x1234, 0xFF::int]) per_read_integer (s'\<lparr>s_pos := s_pos (blank 8)\<rparr>) =
        Some (Some [5, 0x1234, 0xFF], s')"
  using blank_ok [of 8]
  by (intro per_integer_list_roundtrip) (simp_all add: per_int_def per_len_def)

text \<open>
  An integer above \<open>0xFFFF\<close> is written with length 4, and the reader of the same module rejects what
  the writer wrote.
\<close>

theorem per_integer_long_rejected:
  assumes v: "0xFFFF < v" "v \<le> 0xFFFFFFFF" and s: "s_ok s" "5 \<le> length (s_rest s)"
  shows "\<exists>s'. per_write_integer s v = Some s'
    \<and> per_read_integer (s'\<lparr>s_pos := s_pos s\<rparr>) = Some (None, s_adv 1 (s'\<lparr>s_pos := s_pos s\<rparr>))"
proof -
  have e: "per_int v = per_len 4 @ be32 v" "length (per_int v) = 5" using v by (simp_all add: per_int_def per_len_length)
  from Stream_Write_reread [OF s(1), of "per_int v"] s(2) e(2) obtain s' where w: "Stream_Write s (per_int v) = Some s'"
    "s_ok (s'\<lparr>s_pos := s_pos s\<rparr>)" "s_rest (s'\<lparr>s_pos := s_pos s\<rparr>) = per_len 4 @ be32 v @ s_rest s'" using e(1) by auto
  have "per_read_length (s'\<lparr>s_pos := s_pos s\<rparr>) = Some (Some 4, s_adv 1 (s'\<lparr>s_pos := s_pos s\<rparr>))"
    using parsesD [OF per_read_length_parses [of 4] w(2), of "be32 v @ s_rest s'"] w(3) by (simp add: per_len_length)
  then have "per_read_integer (s'\<lparr>s_pos := s_pos s\<rparr>) = Some (None, s_adv 1 (s'\<lparr>s_pos := s_pos s\<rparr>))"
    using w(2,3) by (simp add: per_read_integer_def)
  with w(1) v show ?thesis by (simp add: per_write_integer_emits)
qed

lemma per_integer_long_rejected_witness:
  "\<exists>s'. per_write_integer (blank 5) 0x10000 = Some s'
    \<and> per_read_integer (s'\<lparr>s_pos := s_pos (blank 5)\<rparr>) = Some (None, s_adv 1 (s'\<lparr>s_pos := s_pos (blank 5)\<rparr>))"
  using blank_ok [of 5] by (intro per_integer_long_rejected) simp_all

interpretation per_integer16: codec "\<lambda>v s. per_write_integer16 s v mn" "\<lambda>s. per_read_integer16 s mn"
    "\<lambda>v. be16 (v - mn)" "\<lambda>v. 0 \<le> mn \<and> mn \<le> v \<and> v \<le> 0xFFFF" for mn
proof
  show "parses (\<lambda>s. per_read_integer16 s mn) (be16 (v - mn)) v" if "0 \<le> mn \<and> mn \<le> v \<and> v \<le> 0xFFFF" for v
    using that by (intro parsesI) (simp add: per_read_integer16_def read_be16 u16_def)
qed (simp add: per_write_integer16_def emits)

text \<open>
  A 16-bit integer not below its minimum, written relative to the minimum, is read back with the same
  minimum; the reader rejects every encoding whose value would exceed \<open>0xFFFF\<close>.
\<close>

theorem per_integer16_roundtrip:
  assumes "0 \<le> mn" and "mn \<le> v" and "v \<le> 0xFFFF" and "s_ok s" and "2 \<le> length (s_rest s)"
  shows "(\<exists>s'. per_write_integer16 s v mn = Some s' \<and> per_read_integer16 (s'\<lparr>s_pos := s_pos s\<rparr>) mn = Some (Some v, s'))
    \<and> (\<forall>w r. s_rest s = be16 w @ r \<and> 0 \<le> w \<and> w \<le> 0xFFFF \<and> w + mn > 0xFFFF \<longrightarrow>
        per_read_integer16 s mn = Some (None, s_adv 2 s))"
  using per_integer16.roundtrip [of mn v s] assms by (auto simp: per_read_integer16_def read_be16)

lemma per_integer16_roundtrip_witness:
  "\<exists>s'. per_write_integer16 (blank 2) 1005 1001 = Some s'
    \<and> per_read_integer16 (s'\<lparr>s_pos := s_pos (blank 2)\<rparr>) 1001 = Some (Some 1005, s')"
  using per_integer16_roundtrip [of 1001 1005 "blank 2"] blank_ok [of 2] by simp

section \<open>Object identifiers\<close>

text \<open>The octet of the first two parts that the writer computes is always 0.\<close>

lemma oid_t12: "u8 (push_bit 4 a AND (b AND 0x0F)) = 0"
proof -
  have b15: "bit (15::int) n \<Longrightarrow> n < 4" for n
  proof -
    assume "bit (15::int) n"
    moreover have "(15::int) = mask 4" by (simp add: mask_eq_exp_minus_1)
    ultimately show "n < 4" by (simp add: bit_mask_iff)
  qed
  have "push_bit 4 a AND (b AND 15) = 0" by (intro bit_eqI) (auto simp: bit_simps dest: b15)
  then show ?thesis by (simp add: u8_def)
qed

text \<open>
  An object identifier that the writer wrote is accepted by the reader exactly when its first two
  parts are 0: the octet that should hold them is written as 0 whatever they are.
\<close>

theorem per_object_identifier_roundtrip:
  assumes oid: "length oid = 6" "\<forall>x \<in> set oid. 0 \<le> x \<and> x \<le> 0xFF" and s: "s_ok s" "6 \<le> length (s_rest s)"
  shows "\<exists>s'. per_write_object_identifier s oid = Some s'
    \<and> per_read_object_identifier (s'\<lparr>s_pos := s_pos s\<rparr>) oid =
        Some (if oid ! 0 = 0 \<and> oid ! 1 = 0 then Some () else None, s')"
proof -
  obtain a b c d e f where o: "oid = [a, b, c, d, e, f]"
    using oid(1) by (auto simp: length_Suc_conv eval_nat_numeral)
  have m: "c mod 256 = c" "d mod 256 = d" "e mod 256 = e" "f mod 256 = f" using oid(2) by (simp_all add: o)
  let ?bs = "[5, 0, word_of_int c, word_of_int d, word_of_int e, word_of_int f] :: byte list"
  have wr: "per_write_object_identifier s oid = Stream_Write s ?bs"
    by (simp add: per_write_object_identifier_def o oid_t12 aget_def emits write_merge)
  from Stream_Write_reread [OF s(1), of ?bs] s(2) obtain s' where w: "Stream_Write s ?bs = Some s'"
    "s_ok (s'\<lparr>s_pos := s_pos s\<rparr>)" "s_rest (s'\<lparr>s_pos := s_pos s\<rparr>) = ?bs @ s_rest s'"
    "s_adv (length ?bs) (s'\<lparr>s_pos := s_pos s\<rparr>) = s'" by auto
  define q where "q = s'\<lparr>s_pos := s_pos s\<rparr>"
  have q: "s_ok q" "s_rest q = ?bs @ s_rest s'" "s_adv 6 q = s'" using w(2,3,4) by (simp_all add: q_def eval_nat_numeral)
  define r where "r = s_adv 1 q"
  have len: "per_read_length q = Some (Some 5, r)"
    using parsesD [OF per_read_length_parses [of 5] q(1)] q(2) by (simp add: per_len_def r_def)
  have r: "s_ok r" "s_rest r = 0 # word_of_int c # word_of_int d # word_of_int e # word_of_int f # s_rest s'"
    using q(1,2) by (simp_all add: r_def)
  have r3: "s' = s_adv 5 r" using q(3) by (simp add: r_def)
  define u where "u = s_rest s'"
  note r2 = r(2) [folded u_def]
  have zero: "Stream_Read_UINT8 r = Some (0, s_adv 1 r)" using Stream_Read_UINT8_rest [OF r(1) r2] by simp
  have "per_read_object_identifier q oid = Some (if a = 0 \<and> b = 0 then Some () else None, s_adv 5 r)"
    using r(1) r2 zero m
    by (auto simp: per_read_object_identifier_def len o aget_def read_byte eval_nat_numeral)
  then have "per_read_object_identifier q oid = Some (if a = 0 \<and> b = 0 then Some () else None, s')"
    by (simp only: r3 [symmetric])
  with w(1) wr show ?thesis by (simp add: q_def o)
qed

lemma per_object_identifier_roundtrip_witness:
  "\<exists>s'. per_write_object_identifier (blank 6) [0, 0, 20, 124, 0, 1] = Some s'
    \<and> per_read_object_identifier (s'\<lparr>s_pos := s_pos (blank 6)\<rparr>) [0, 0, 20, 124, 0, 1] = Some (Some (), s')"
  using per_object_identifier_roundtrip [of "[0, 0, 20, 124, 0, 1]" "blank 6"] blank_ok [of 6] by simp

section \<open>Strings\<close>

text \<open>The bytes of a numeric string: two digits per byte, a missing last digit is \<open>0\<close>.\<close>

definition digit :: "byte \<Rightarrow> int" where
  "digit c = (uint c - 0x30) smod 10"

definition num_byte :: "byte list \<Rightarrow> nat \<Rightarrow> int \<Rightarrow> byte" where
  "num_byte str n i = word_of_int (u8 (push_bit 4 (u8 (digit (str ! nat i)))
     OR u8 (if i + 1 < int n then digit (str ! nat (i + 1)) else 0)))"

lemma smod_48: "((48::int) - 48) smod 10 = 0"
  by simp

lemma even_indices: "length [i \<leftarrow> [0..int n - 1]. even i] = (n + 1) div 2"
proof (induction n)
  case (Suc n)
  have "[0..int (Suc n) - 1] = [0..int n - 1] @ [int n]" using upto_rec2 [of 0 "int n"] by simp
  with Suc show ?case by (cases "even n") simp_all
qed simp

lemma numeric_loop:
  assumes "n \<le> length str" and "pos_ok s"
  shows "foldM (\<lambda>i s. do {
       c1 \<leftarrow> aget str i;
       c2 \<leftarrow> (if i + 1 < int n then aget str (i + 1) else Some 0x30);
       c1 \<leftarrow> crem (uint c1 - 0x30) 10;
       c2 \<leftarrow> crem (uint c2 - 0x30) 10;
       let num = u8 (push_bit 4 (u8 c1) OR u8 c2);
       Stream_Write_UINT8 s num }) [i \<leftarrow> [0..int n - 1]. even i] s =
    Stream_Write s (map (num_byte str n) [i \<leftarrow> [0..int n - 1]. even i])"
proof -
  have "concat (map (\<lambda>i. [num_byte str n i]) xs) = map (num_byte str n) xs" for xs
    by (induction xs) simp_all
  then show ?thesis using assms
    by (subst foldM_writes [where e = "\<lambda>i. [num_byte str n i]"])
      (auto simp: aget_def emits num_byte_def [abs_def] digit_def crem_def)
qed

lemma per_write_numeric_string_emits:
  assumes "n \<le> length str" and "0 \<le> mn" and "mn \<le> int n"
  shows "per_write_numeric_string s str (int n) mn =
    Stream_Write s (per_len (int n - mn) @ map (num_byte str n) [i \<leftarrow> [0..int n - 1]. even i])"
proof (cases "Stream_Write s (per_len (int n - mn))")
  case (Some s')
  then have "pos_ok s'" by (rule pos_ok_write)
  with Some numeric_loop [OF assms(1), of s'] assms show ?thesis
    by (simp add: per_write_numeric_string_def emits Stream_Write_append [symmetric])
qed (use assms in \<open>simp add: per_write_numeric_string_def emits Stream_Write_append [symmetric]\<close>)

lemma per_read_numeric_string_parses:
  assumes "0 \<le> mn" and "mn \<le> int n" and "int n - mn < 0x8000" and "int n < INT_MAX" and "length bs = (n + 1) div 2"
  shows "parses (\<lambda>s. per_read_numeric_string s mn) (per_len (int n - mn) @ bs) ()"
  unfolding per_read_numeric_string_def
proof (rule parses_rbind)
  show "parses per_read_length (per_len (int n - mn)) (int n - mn)"
    using per_read_length_parses [of "int n - mn"] assms by (simp split: if_splits)
  have "cint (int n - mn + mn + 1) = Some (int n + 1)" using assms by (simp add: cint_def)
  moreover have "cdiv (int n + 1) 2 = Some (int ((n + 1) div 2))"
    using assms(4) by (simp add: cdiv_Some zdiv_int)
  ultimately show "parses (\<lambda>s. do {
     need \<leftarrow> cint (int n - mn + mn + 1);
     len \<leftarrow> cdiv need 2;
     if as_int (Stream_GetRemainingLength s) < len then Some (None, s)
     else do { s \<leftarrow> Stream_Seek s len; Some (Some (), s) } }) bs ()"
    using assms(5) by (intro parsesI) (simp add: Stream_Seek_rest remaining_int_rest del: remaining)
qed

text \<open>
  A numeric string no shorter than its minimum is written as its length over the minimum and one
  byte for two digits, and the reader skips exactly what was written.
\<close>

theorem per_numeric_string_roundtrip:
  assumes n: "n \<le> length str" and mn: "0 \<le> mn" "mn \<le> int n" "int n - mn < 0x8000" "int n < INT_MAX"
    and s: "s_ok s" "3 + n div 2 \<le> length (s_rest s)"
  shows "\<exists>s'. per_write_numeric_string s str (int n) mn = Some s'
    \<and> per_read_numeric_string (s'\<lparr>s_pos := s_pos s\<rparr>) mn = Some (Some (), s')
    \<and> s_pos s' = s_pos s + (if 0x7F < int n - mn then 2 else 1) + (int n + 1) div 2"
proof -
  let ?ds = "map (num_byte str n) [i \<leftarrow> [0..int n - 1]. even i]"
  let ?bs = "per_len (int n - mn) @ ?ds"
  have len: "length ?ds = (n + 1) div 2" using even_indices [of n] by simp
  have "length ?bs \<le> length (s_rest s)" using s(2) len by (auto simp: per_len_length)
  from Stream_Write_reread [OF s(1) this] obtain s' where w: "Stream_Write s ?bs = Some s'"
    "s_ok (s'\<lparr>s_pos := s_pos s\<rparr>)" "s_rest (s'\<lparr>s_pos := s_pos s\<rparr>) = ?bs @ s_rest s'"
    "s_adv (length ?bs) (s'\<lparr>s_pos := s_pos s\<rparr>) = s'" by blast
  have "per_read_numeric_string (s'\<lparr>s_pos := s_pos s\<rparr>) mn = Some (Some (), s')"
    using parsesD [OF per_read_numeric_string_parses [OF mn len] w(2,3)] w(4) by simp
  moreover have "s_pos s' = s_pos s + int (length ?bs)"
    using arg_cong [OF w(4), of s_pos] by (simp add: s_adv_def)
  moreover have "int (length ?bs) = (if 0x7F < int n - mn then 2 else 1) + (int n + 1) div 2"
    using len by (simp add: per_len_length zdiv_int)
  ultimately show ?thesis using w(1) per_write_numeric_string_emits [OF n mn(1,2)] by simp
qed

lemma per_numeric_string_roundtrip_witness:
  "\<exists>s'. per_write_numeric_string (blank 8) [0x31, 0x32, 0x33] (int 3) 1 = Some s'
    \<and> per_read_numeric_string (s'\<lparr>s_pos := s_pos (blank 8)\<rparr>) 1 = Some (Some (), s')
    \<and> s_pos s' = s_pos (blank 8) + 1 + (int 3 + 1) div 2"
  using per_numeric_string_roundtrip [of 3 "[0x31, 0x32, 0x33]" 1 "blank 8"] blank_ok [of 8] by simp

text \<open>The comparison loop of the octet string reader.\<close>

lemma compare_loop:
  assumes s: "s_ok s" "s_rest s = bs @ rest" and n: "length bs = n" "n \<le> length str"
  shows "searchM (\<lambda>i. do {
         a \<leftarrow> aget (s_buffer s) (s_pos s + i);
         b \<leftarrow> aget str i;
         Some (a \<noteq> b) }) [0..int n - 1] = Some (if bs = take n str then None else
           List.find (\<lambda>i. bs ! nat i \<noteq> str ! nat i) [0..int n - 1])
    \<and> (bs \<noteq> take n str \<longrightarrow> List.find (\<lambda>i. bs ! nat i \<noteq> str ! nat i) [0..int n - 1] \<noteq> None)"
proof -
  have step: "(do { a \<leftarrow> aget (s_buffer s) (s_pos s + i); b \<leftarrow> aget str i; Some (a \<noteq> b) })
      = Some (bs ! nat i \<noteq> str ! nat i)" if "i \<in> set [0..int n - 1]" for i
  proof -
    obtain k where k: "i = int k" "k < n" using \<open>i \<in> _\<close> by (metis atLeastAtMost_iff nonneg_int_cases set_upto of_nat_less_iff zle_diff1_eq)
    then have "k < length (s_rest s)" "s_rest s ! k = bs ! k" using s(2) n(1) by (simp_all add: nth_append)
    with aget_rest [OF s(1)] k n show ?thesis by (simp add: aget_int)
  qed
  have eq: "bs = take n str \<longleftrightarrow> List.find (\<lambda>i. bs ! nat i \<noteq> str ! nat i) [0..int n - 1] = None"
  proof -
    have "List.find (\<lambda>i. bs ! nat i \<noteq> str ! nat i) [0..int n - 1] = None
        \<longleftrightarrow> (\<forall>i \<in> set (map int [0..<n]). bs ! nat i = str ! nat i)"
      by (simp only: upto_int find_None_iff) blast
    also have "\<dots> \<longleftrightarrow> (\<forall>k < n. bs ! k = str ! k)" by auto
    also have "\<dots> \<longleftrightarrow> bs = take n str" using n by (simp add: list_eq_iff_nth_eq)
    finally show ?thesis by (rule sym)
  qed
  have "searchM (\<lambda>i. do {
         a \<leftarrow> aget (s_buffer s) (s_pos s + i);
         b \<leftarrow> aget str i;
         Some (a \<noteq> b) }) [0..int n - 1] = Some (List.find (\<lambda>i. bs ! nat i \<noteq> str ! nat i) [0..int n - 1])"
    by (rule searchM_find) (rule step)
  then show ?thesis by (simp only: eq [symmetric] if_True if_False) (simp add: eq)
qed

text \<open>
  The octet string reader accepts a stream exactly when it announces the expected length over the
  minimum and carries the expected bytes, and it consumes the announced string either way.
\<close>

theorem per_read_octet_string_ok:
  assumes n: "n \<le> length str" "length bs = n" and mn: "mn \<le> int n" "int n - mn < 0x8000"
    and s: "s_ok s" "s_rest s = per_len (int n - mn) @ bs @ rest"
  shows "per_read_octet_string s str (int n) mn =
    Some (if bs = take n str then Some () else None, s_adv (length (per_len (int n - mn)) + n) s)"
proof -
  define q where "q = s_adv (length (per_len (int n - mn))) s"
  have len: "per_read_length s = Some (Some (int n - mn), q)"
    using parsesD [OF per_read_length_parses [of "int n - mn"] s] mn by (simp add: q_def split: if_splits)
  have q: "s_ok q" "s_rest q = bs @ rest" using s by (simp_all add: q_def)
  have seek: "Stream_Seek q (int n) = Some (s_adv n q)" using q n by (simp add: Stream_Seek_rest)
  have same: "s_buffer (s_adv n q) = s_buffer q" by (simp add: s_adv_def)
  have rem: "\<not> as_int (Stream_GetRemainingLength q) < int n" using remaining_int_rest [OF q] n by simp
  show ?thesis using compare_loop [OF q n(2,1)] rem
    by (simp add: per_read_octet_string_def len seek same del: remaining) (simp add: q_def)
qed

lemma per_read_octet_string_ok_witness:
  "per_read_octet_string \<lparr>s_buffer = [0, 7, 8, 9, 1], s_pos = 0, s_length = 5, s_capacity = 5, s_count = 0, s_pool = 0\<rparr>
     [7, 8, 9, 9] (int 4) 4 =
   Some (if [7, 8, 9, 1] = take 4 [7, 8, 9, 9::byte] then Some () else None,
     s_adv (length (per_len (int 4 - 4)) + 4)
       \<lparr>s_buffer = [0, 7, 8, 9, 1], s_pos = 0, s_length = 5, s_capacity = 5, s_count = 0, s_pool = 0\<rparr>)"
  by (rule per_read_octet_string_ok [where rest = "[]"]) (simp_all add: s_ok_def s_rest_def per_len_def)

text \<open>
  An octet string no shorter than its minimum is accepted by the reader with the same string and the
  same minimum.
\<close>

theorem per_octet_string_roundtrip:
  assumes n: "n \<le> length str" and mn: "mn \<le> int n" "int n - mn < 0x8000"
    and s: "s_ok s" "2 + n \<le> length (s_rest s)"
  shows "\<exists>s'. per_write_octet_string s str (int n) mn = Some s'
    \<and> per_read_octet_string (s'\<lparr>s_pos := s_pos s\<rparr>) str (int n) mn = Some (Some (), s')"
proof -
  let ?bs = "per_len (int n - mn) @ take n str"
  have wr: "per_write_octet_string s str (int n) mn = Stream_Write s ?bs"
  proof (cases "Stream_Write s (per_len (int n - mn))")
    case (Some s')
    then have "pos_ok s'" by (rule pos_ok_write)
    with Some writes_array [OF n, of s'] mn show ?thesis
      by (simp add: per_write_octet_string_def emits Stream_Write_append [symmetric])
  qed (use mn in \<open>simp add: per_write_octet_string_def emits Stream_Write_append [symmetric]\<close>)
  have "length ?bs \<le> length (s_rest s)" using s(2) n by (simp add: per_len_length)
  from Stream_Write_reread [OF s(1) this] obtain s' where w: "Stream_Write s ?bs = Some s'"
    "s_ok (s'\<lparr>s_pos := s_pos s\<rparr>)" "s_rest (s'\<lparr>s_pos := s_pos s\<rparr>) = ?bs @ s_rest s'"
    "s_adv (length ?bs) (s'\<lparr>s_pos := s_pos s\<rparr>) = s'" by blast
  have "per_read_octet_string (s'\<lparr>s_pos := s_pos s\<rparr>) str (int n) mn = Some (Some (), s')"
    using per_read_octet_string_ok [OF n _ mn w(2), of "take n str" "s_rest s'"] w(3,4) n by simp
  with w(1) wr show ?thesis by simp
qed

lemma per_octet_string_roundtrip_witness:
  "\<exists>s'. per_write_octet_string (blank 8) [7, 8, 9, 9] (int 4) 4 = Some s'
    \<and> per_read_octet_string (s'\<lparr>s_pos := s_pos (blank 8)\<rparr>) [7, 8, 9, 9] (int 4) 4 = Some (Some (), s')"
  using blank_ok [of 8] by (intro per_octet_string_roundtrip) simp_all

section \<open>Memory safety\<close>

lemma per_read_byte_safe [safe_readers]:
  "safe_reader per_read_choice" "safe_reader per_read_selection" "safe_reader per_read_number_of_sets"
  by (rule safe_reader_from, unfold per_read_choice_def [abs_def] per_read_selection_def [abs_def]
      per_read_number_of_sets_def [abs_def], intro reads; simp)+

lemma per_read_counted_safe [safe_readers]:
  "safe_reader (\<lambda>s. per_read_integer16 s mn)" "safe_reader (\<lambda>s. per_read_enumerated s cnt)"
  by (rule safe_reader_from, unfold per_read_integer16_def per_read_enumerated_def, intro reads; simp)+

lemma per_read_padding_safe [safe_readers]: "0 \<le> n \<Longrightarrow> safe_reader (\<lambda>s. per_read_padding s n)"
  by (rule safe_reader_from, unfold per_read_padding_def) (intro reads; simp)

lemma per_read_object_identifier_safe [safe_readers]:
  assumes "length oid = 6"
  shows "safe_reader (\<lambda>s. per_read_object_identifier s oid)"
proof -
  obtain a b c d e f where o: "oid = [a, b, c, d, e, f]" using assms by (auto simp: length_Suc_conv eval_nat_numeral)
  have g: "aget oid 0 = Some a" "aget oid 1 = Some b" "aget oid 2 = Some c" "aget oid 3 = Some d"
    "aget oid 4 = Some e" "aget oid 5 = Some f" by (simp_all add: o aget_def)
  show ?thesis
    by (rule safe_reader_from, unfold per_read_object_identifier_def Let_def g bind.bind_lunit)
      (intro reads safe_readers; simp)
qed

lemma per_read_octet_string_safe [safe_readers]:
  assumes n: "0 \<le> n" "n \<le> int (length str)"
  shows "safe_reader (\<lambda>s. per_read_octet_string s str n mn)"
proof -
  let ?loop = "\<lambda>q s. do {
       diff \<leftarrow> searchM (\<lambda>i. do { a \<leftarrow> aget (s_buffer s) (s_pos q + i); b \<leftarrow> aget str i; Some (a \<noteq> b) }) [0..n - 1];
       if diff = None then Some (Some (), s) else Some (None, s) }"
  have "reads_from (nat n) (\<lambda>q. do { s \<leftarrow> Stream_Seek q n; ?loop q s })"
    unfolding reads_from_def
  proof (intro allI impI)
    fix q assume q: "s_ok q" "nat n \<le> length (s_rest q)"
    then have seek: "Stream_Seek q n = Some (s_adv (nat n) q)" using n by (intro Stream_Seek_rest) simp_all
    have same: "s_buffer (s_adv (nat n) q) = s_buffer q" by (simp add: s_adv_def)
    have tot: "\<exists>d. (do { a \<leftarrow> aget (s_buffer q) (s_pos q + i); b \<leftarrow> aget str i; Some (a \<noteq> b) }) = Some d"
      if i: "i \<in> set [0..n - 1]" for i
    proof -
      have "nat i < length (s_rest q)" "0 \<le> i" "i < int (length str)" using i q(2) n by auto
      with aget_rest [OF q(1), of "nat i"] show ?thesis by (simp add: aget_Some)
    qed
    have "\<exists>d. searchM (\<lambda>i. do { a \<leftarrow> aget (s_buffer q) (s_pos q + i); b \<leftarrow> aget str i; Some (a \<noteq> b) }) [0..n - 1] = Some d"
      by (rule searchM_total) (rule tot)
    then obtain d where
      "searchM (\<lambda>i. do { a \<leftarrow> aget (s_buffer q) (s_pos q + i); b \<leftarrow> aget str i; Some (a \<noteq> b) }) [0..n - 1] = Some d"
      by blast
    with seek same q(2) show "\<exists>v m. m \<le> length (s_rest q) \<and>
        (do { s \<leftarrow> Stream_Seek q n; ?loop q s }) = Some (v, s_adv m q)" by auto
  qed
  then show ?thesis
    by (intro safe_reader_from, unfold per_read_octet_string_def Let_def) (intro reads safe_readers; simp)
qed

lemma per_read_length_range: "per_read_length s = Some (Some v, s') \<Longrightarrow> 0 \<le> v \<and> v \<le> 0xFFFF"
  by (auto simp: per_read_length_def u16_def split: if_splits bind_splits dest!: Stream_Read_UINT8_range)

lemma per_read_numeric_string_safe [safe_readers]:
  assumes "0 \<le> mn" and "mn \<le> 0x7FFEFFFF"
  shows "safe_reader (\<lambda>s. per_read_numeric_string s mn)"
  unfolding safe_reader_def
proof (intro allI impI)
  fix s assume s: "s_ok s"
  obtain r n where n: "n \<le> length (s_rest s)" "per_read_length s = Some (r, s_adv n s)"
    using per_read_length_safe s unfolding safe_reader_def by blast
  show "\<exists>v n. n \<le> length (s_rest s) \<and> per_read_numeric_string s mn = Some (v, s_adv n s)"
  proof (cases r)
    case None
    with n show ?thesis by (auto simp: per_read_numeric_string_def)
  next
    case (Some len)
    then have len: "0 \<le> len" "len \<le> 0xFFFF" using per_read_length_range [of s] n(2) by auto
    let ?k = "(len + mn + 1) div 2"
    have k: "cint (len + mn + 1) = Some (len + mn + 1)" "cdiv (len + mn + 1) 2 = Some ?k" "0 \<le> ?k"
      using len assms by (simp_all add: cint_def cdiv_Some)
    have "reads_from 0 (\<lambda>s. if as_int (Stream_GetRemainingLength s) < ?k then Some (None, s)
        else do { s \<leftarrow> Stream_Seek s ?k; Some (Some (), s) })"
      using k(3) by (intro reads; simp)
    then obtain v m where "m \<le> length (s_rest (s_adv n s))"
      "(if as_int (Stream_GetRemainingLength (s_adv n s)) < ?k then Some (None, s_adv n s)
        else do { s \<leftarrow> Stream_Seek (s_adv n s) ?k; Some (Some (), s) }) = Some (v, s_adv m (s_adv n s))"
      using s n(1) unfolding reads_from_def by (metis le0 s_ok_adv)
    with n s k Some show ?thesis
      by (intro exI [of _ v] exI [of _ "n + m"]) (simp add: per_read_numeric_string_def)
  qed
qed

text \<open>
  C30. No PER reader ever reads outside the stream: on every well-formed stream each of them returns,
  with TRUE or FALSE, and leaves the stream moved forward within its length and otherwise unchanged.
\<close>

theorem per_readers_safe:
  assumes "length oid = 6" and "0 \<le> n" and "n \<le> int (length str)" and "0 \<le> mn" and "mn \<le> 0x7FFEFFFF"
  shows "safe_reader per_read_length \<and> safe_reader per_read_choice \<and> safe_reader per_read_selection
    \<and> safe_reader per_read_number_of_sets \<and> safe_reader (\<lambda>s. per_read_padding s n)
    \<and> safe_reader per_read_integer \<and> safe_reader (\<lambda>s. per_read_integer16 s mn)
    \<and> safe_reader (\<lambda>s. per_read_enumerated s cnt) \<and> safe_reader (\<lambda>s. per_read_object_identifier s oid)
    \<and> safe_reader (\<lambda>s. per_read_octet_string s str n mn) \<and> safe_reader (\<lambda>s. per_read_numeric_string s mn)"
  by (intro conjI safe_readers assms)

lemma per_readers_safe_witness:
  "safe_reader (\<lambda>s. per_read_object_identifier s [0, 0, 20, 124, 0, 1])
    \<and> safe_reader (\<lambda>s. per_read_octet_string s [7, 8] 2 0) \<and> safe_reader (\<lambda>s. per_read_numeric_string s 0)"
  using per_readers_safe [of "[0, 0, 20, 124, 0, 1]" 2 "[7, 8]" 0] by simp

end
