(* ===== verification/WBer.thy ===== *)
theory WBer
  imports WStream
begin

text \<open>
  The basic encoding rules of \<open>libfreerdp/crypto/ber.c\<close> and the writers of \<open>der.c\<close>. A writer that
  returns the number of bytes it wrote returns it with the stream.
\<close>

section \<open>Tags of \<open>freerdp/crypto/ber.h\<close>\<close>

abbreviation BER_CLASS_UNIV :: int where "BER_CLASS_UNIV \<equiv> 0x00"
abbreviation BER_CLASS_APPL :: int where "BER_CLASS_APPL \<equiv> 0x40"
abbreviation BER_CLASS_CTXT :: int where "BER_CLASS_CTXT \<equiv> 0x80"
abbreviation BER_CONSTRUCT :: int where "BER_CONSTRUCT \<equiv> 0x20"
abbreviation BER_PRIMITIVE :: int where "BER_PRIMITIVE \<equiv> 0x00"
abbreviation BER_TAG_MASK :: int where "BER_TAG_MASK \<equiv> 0x1F"
abbreviation BER_TAG_BOOLEAN :: int where "BER_TAG_BOOLEAN \<equiv> 0x01"
abbreviation BER_TAG_INTEGER :: int where "BER_TAG_INTEGER \<equiv> 0x02"
abbreviation BER_TAG_BIT_STRING :: int where "BER_TAG_BIT_STRING \<equiv> 0x03"
abbreviation BER_TAG_OCTET_STRING :: int where "BER_TAG_OCTET_STRING \<equiv> 0x04"
abbreviation BER_TAG_ENUMERATED :: int where "BER_TAG_ENUMERATED \<equiv> 0x0A"
abbreviation BER_TAG_SEQUENCE :: int where "BER_TAG_SEQUENCE \<equiv> 0x10"
abbreviation BER_TAG_SEQUENCE_OF :: int where "BER_TAG_SEQUENCE_OF \<equiv> 0x10"

definition BER_PC :: "bool \<Rightarrow> int" where
  "BER_PC pc = (if pc then BER_CONSTRUCT else BER_PRIMITIVE)"

section \<open>Lengths\<close>

definition ber_read_length :: "wStream \<Rightarrow> (int option \<times> wStream) option" where
  "ber_read_length s =
     (if Stream_GetRemainingLength s < 1 then Some (None, s)
      else do {
        (b, s) \<leftarrow> Stream_Read_UINT8 s;
        if b AND 0x80 \<noteq> 0 then
          (let b = b AND NOT 0x80
           in if Stream_GetRemainingLength s < b then Some (None, s)
              else if b = 1 then do { (len, s) \<leftarrow> Stream_Read_UINT8 s; Some (Some len, s) }
              else if b = 2 then do { (len, s) \<leftarrow> Stream_Read_UINT16_BE s; Some (Some len, s) }
              else Some (None, s))
        else Some (Some b, s) })"

definition ber_write_length :: "wStream \<Rightarrow> int \<Rightarrow> (int \<times> wStream) option" where
  "ber_write_length s len =
     (if 0xFF < len then do {
        s \<leftarrow> Stream_Write_UINT8 s (0x80 XOR 2);
        s \<leftarrow> Stream_Write_UINT16_BE s len;
        Some (3, s)
      } else if 0x7F < len then do {
        s \<leftarrow> Stream_Write_UINT8 s (0x80 XOR 1);
        s \<leftarrow> Stream_Write_UINT8 s len;
        Some (2, s)
      } else do { s \<leftarrow> Stream_Write_UINT8 s len; Some (1, s) })"

definition ber_sizeof_length :: "int \<Rightarrow> int" where
  "ber_sizeof_length len = (if 0xFF < len then 3 else if 0x7F < len then 2 else 1)"

section \<open>Tags\<close>

definition ber_read_universal_tag :: "wStream \<Rightarrow> int \<Rightarrow> bool \<Rightarrow> (unit option \<times> wStream) option" where
  "ber_read_universal_tag s tag pc =
     (if Stream_GetRemainingLength s < 1 then Some (None, s)
      else do {
        (b, s) \<leftarrow> Stream_Read_UINT8 s;
        if b \<noteq> (BER_CLASS_UNIV OR BER_PC pc OR (BER_TAG_MASK AND tag)) then Some (None, s)
        else Some (Some (), s) })"

definition ber_write_universal_tag :: "wStream \<Rightarrow> int \<Rightarrow> bool \<Rightarrow> (int \<times> wStream) option" where
  "ber_write_universal_tag s tag pc = do {
     s \<leftarrow> Stream_Write_UINT8 s ((BER_CLASS_UNIV OR BER_PC pc) OR (BER_TAG_MASK AND tag));
     Some (1, s) }"

definition ber_read_application_tag :: "wStream \<Rightarrow> int \<Rightarrow> (int option \<times> wStream) option" where
  "ber_read_application_tag s tag =
     (if 30 < tag then
        (if Stream_GetRemainingLength s < 1 then Some (None, s)
         else do {
           (b, s) \<leftarrow> Stream_Read_UINT8 s;
           if b \<noteq> ((BER_CLASS_APPL OR BER_CONSTRUCT) OR BER_TAG_MASK) then Some (None, s)
           else if Stream_GetRemainingLength s < 1 then Some (None, s)
           else do {
             (b, s) \<leftarrow> Stream_Read_UINT8 s;
             if b \<noteq> tag then Some (None, s) else ber_read_length s } })
      else
        (if Stream_GetRemainingLength s < 1 then Some (None, s)
         else do {
           (b, s) \<leftarrow> Stream_Read_UINT8 s;
           if b \<noteq> ((BER_CLASS_APPL OR BER_CONSTRUCT) OR (BER_TAG_MASK AND tag)) then Some (None, s)
           else ber_read_length s }))"

definition ber_write_application_tag :: "wStream \<Rightarrow> int \<Rightarrow> int \<Rightarrow> wStream option" where
  "ber_write_application_tag s tag len =
     (if 30 < tag then do {
        s \<leftarrow> Stream_Write_UINT8 s ((BER_CLASS_APPL OR BER_CONSTRUCT) OR BER_TAG_MASK);
        s \<leftarrow> Stream_Write_UINT8 s tag;
        (_, s) \<leftarrow> ber_write_length s len;
        Some s
      } else do {
        s \<leftarrow> Stream_Write_UINT8 s ((BER_CLASS_APPL OR BER_CONSTRUCT) OR (BER_TAG_MASK AND tag));
        (_, s) \<leftarrow> ber_write_length s len;
        Some s })"

definition ber_read_contextual_tag :: "wStream \<Rightarrow> int \<Rightarrow> bool \<Rightarrow> (int option \<times> wStream) option" where
  "ber_read_contextual_tag s tag pc =
     (if Stream_GetRemainingLength s < 1 then Some (None, s)
      else do {
        (b, s) \<leftarrow> Stream_Read_UINT8 s;
        if b \<noteq> ((BER_CLASS_CTXT OR BER_PC pc) OR (BER_TAG_MASK AND tag))
        then do { s \<leftarrow> Stream_Rewind s 1; Some (None, s) }
        else ber_read_length s })"

definition ber_write_contextual_tag :: "wStream \<Rightarrow> int \<Rightarrow> int \<Rightarrow> bool \<Rightarrow> (int \<times> wStream) option" where
  "ber_write_contextual_tag s tag len pc = do {
     s \<leftarrow> Stream_Write_UINT8 s ((BER_CLASS_CTXT OR BER_PC pc) OR (BER_TAG_MASK AND tag));
     (n, s) \<leftarrow> ber_write_length s len;
     Some (1 + n, s) }"

definition ber_sizeof_contextual_tag :: "int \<Rightarrow> int" where
  "ber_sizeof_contextual_tag len = 1 + ber_sizeof_length len"

definition ber_read_sequence_tag :: "wStream \<Rightarrow> (int option \<times> wStream) option" where
  "ber_read_sequence_tag s =
     (if Stream_GetRemainingLength s < 1 then Some (None, s)
      else do {
        (b, s) \<leftarrow> Stream_Read_UINT8 s;
        if b \<noteq> ((BER_CLASS_UNIV OR BER_CONSTRUCT) OR BER_TAG_SEQUENCE_OF) then Some (None, s)
        else ber_read_length s })"

definition ber_write_sequence_tag :: "wStream \<Rightarrow> int \<Rightarrow> (int \<times> wStream) option" where
  "ber_write_sequence_tag s len = do {
     s \<leftarrow> Stream_Write_UINT8 s ((BER_CLASS_UNIV OR BER_CONSTRUCT) OR (BER_TAG_MASK AND BER_TAG_SEQUENCE));
     (n, s) \<leftarrow> ber_write_length s len;
     Some (1 + n, s) }"

definition ber_sizeof_sequence :: "int \<Rightarrow> int option" where
  "ber_sizeof_sequence len = cint (1 + ber_sizeof_length len + len)"

definition ber_sizeof_sequence_tag :: "int \<Rightarrow> int" where
  "ber_sizeof_sequence_tag len = 1 + ber_sizeof_length len"

section \<open>Values\<close>

definition ber_read_enumerated :: "wStream \<Rightarrow> int \<Rightarrow> (int option \<times> wStream) option" where
  "ber_read_enumerated s cnt =
     rbind (ber_read_universal_tag s BER_TAG_ENUMERATED False) (\<lambda>_ s.
     rbind (ber_read_length s) (\<lambda>len s.
     if len \<noteq> 1 then Some (None, s)
     else if Stream_GetRemainingLength s < 1 then Some (None, s)
     else do {
       (enumerated, s) \<leftarrow> Stream_Read_UINT8 s;
       if enumerated + 1 > cnt then Some (None, s) else Some (Some enumerated, s) }))"

definition ber_write_enumerated :: "wStream \<Rightarrow> int \<Rightarrow> int \<Rightarrow> wStream option" where
  "ber_write_enumerated s enumerated cnt = do {
     (_, s) \<leftarrow> ber_write_universal_tag s BER_TAG_ENUMERATED False;
     (_, s) \<leftarrow> ber_write_length s 1;
     Stream_Write_UINT8 s enumerated }"

text \<open>A bit string: its length and the number of unused bits.\<close>

definition ber_read_bit_string :: "wStream \<Rightarrow> ((int \<times> int) option \<times> wStream) option" where
  "ber_read_bit_string s =
     rbind (ber_read_universal_tag s BER_TAG_BIT_STRING False) (\<lambda>_ s.
     rbind (ber_read_length s) (\<lambda>len s.
     if Stream_GetRemainingLength s < 1 then Some (None, s)
     else do { (padding, s) \<leftarrow> Stream_Read_UINT8 s; Some (Some (len, padding), s) }))"

definition ber_write_octet_string :: "wStream \<Rightarrow> byte list \<Rightarrow> int \<Rightarrow> (int \<times> wStream) option" where
  "ber_write_octet_string s oct_str len = do {
     (n1, s) \<leftarrow> ber_write_universal_tag s BER_TAG_OCTET_STRING False;
     (n2, s) \<leftarrow> ber_write_length s len;
     bs \<leftarrow> ablock oct_str 0 len;
     s \<leftarrow> Stream_Write s bs;
     n \<leftarrow> cint (n1 + n2 + len);
     Some (n, s) }"

definition ber_read_octet_string_tag :: "wStream \<Rightarrow> (int option \<times> wStream) option" where
  "ber_read_octet_string_tag s =
     rbind (ber_read_universal_tag s BER_TAG_OCTET_STRING False) (\<lambda>_ s. ber_read_length s)"

definition ber_write_octet_string_tag :: "wStream \<Rightarrow> int \<Rightarrow> (int \<times> wStream) option" where
  "ber_write_octet_string_tag s len = do {
     (_, s) \<leftarrow> ber_write_universal_tag s BER_TAG_OCTET_STRING False;
     (_, s) \<leftarrow> ber_write_length s len;
     Some (1 + ber_sizeof_length len, s) }"

definition ber_sizeof_octet_string :: "int \<Rightarrow> int option" where
  "ber_sizeof_octet_string len = cint (1 + ber_sizeof_length len + len)"

definition ber_read_BOOL :: "wStream \<Rightarrow> (int option \<times> wStream) option" where
  "ber_read_BOOL s =
     rbind (ber_read_universal_tag s BER_TAG_BOOLEAN False) (\<lambda>_ s.
     rbind (ber_read_length s) (\<lambda>len s.
     if len \<noteq> 1 then Some (None, s)
     else if Stream_GetRemainingLength s < 1 then Some (None, s)
     else do { (v, s) \<leftarrow> Stream_Read_UINT8 s; Some (Some (if v \<noteq> 0 then 1 else 0), s) }))"

text \<open>A \<open>BOOL\<close> is an \<open>int\<close>; only \<open>TRUE\<close>, which is 1, is written as set.\<close>

definition ber_write_BOOL :: "wStream \<Rightarrow> int \<Rightarrow> wStream option" where
  "ber_write_BOOL s v = do {
     (_, s) \<leftarrow> ber_write_universal_tag s BER_TAG_BOOLEAN False;
     (_, s) \<leftarrow> ber_write_length s 1;
     Stream_Write_UINT8 s (if v = 1 then 0xFF else 0) }"

text \<open>
  \<open>ber_read_integer\<close>; without an out parameter (\<open>want\<close> false) the value is skipped and the 0 returned
  stands for no value.
\<close>

definition ber_read_integer :: "wStream \<Rightarrow> bool \<Rightarrow> (int option \<times> wStream) option" where
  "ber_read_integer s want =
     rbind (ber_read_universal_tag s BER_TAG_INTEGER False) (\<lambda>_ s.
     rbind (ber_read_length s) (\<lambda>len s.
     if as_int (Stream_GetRemainingLength s) < len then Some (None, s)
     else if \<not> want then rbind (Stream_SafeSeek s len) (\<lambda>_ s. Some (Some 0, s))
     else if len = 1 then do { (v, s) \<leftarrow> Stream_Read_UINT8 s; Some (Some v, s) }
     else if len = 2 then do { (v, s) \<leftarrow> Stream_Read_UINT16_BE s; Some (Some v, s) }
     else if len = 3 then do {
       (b, s) \<leftarrow> Stream_Read_UINT8 s;
       (v, s) \<leftarrow> Stream_Read_UINT16_BE s;
       Some (Some (v + push_bit 16 b), s)
     } else if len = 4 then do { (v, s) \<leftarrow> Stream_Read_UINT32_BE s; Some (Some v, s) }
     else Some (None, s)))"

definition ber_write_integer :: "wStream \<Rightarrow> int \<Rightarrow> (int \<times> wStream) option" where
  "ber_write_integer s v =
     (if v < 0x80 then do {
        (_, s) \<leftarrow> ber_write_universal_tag s BER_TAG_INTEGER False;
        (_, s) \<leftarrow> ber_write_length s 1;
        s \<leftarrow> Stream_Write_UINT8 s v;
        Some (3, s)
      } else if v < 0x8000 then do {
        (_, s) \<leftarrow> ber_write_universal_tag s BER_TAG_INTEGER False;
        (_, s) \<leftarrow> ber_write_length s 2;
        s \<leftarrow> Stream_Write_UINT16_BE s v;
        Some (4, s)
      } else if v < 0x800000 then do {
        (_, s) \<leftarrow> ber_write_universal_tag s BER_TAG_INTEGER False;
        (_, s) \<leftarrow> ber_write_length s 3;
        s \<leftarrow> Stream_Write_UINT8 s (drop_bit 16 v);
        s \<leftarrow> Stream_Write_UINT16_BE s (v AND 0xFFFF);
        Some (5, s)
      } else if v < 0x80000000 then do {
        (_, s) \<leftarrow> ber_write_universal_tag s BER_TAG_INTEGER False;
        (_, s) \<leftarrow> ber_write_length s 4;
        s \<leftarrow> Stream_Write_UINT32_BE s v;
        Some (6, s)
      } else Some (0, s))"

definition ber_sizeof_integer :: "int \<Rightarrow> int" where
  "ber_sizeof_integer v =
     (if v < 0x80 then 3 else if v < 0x8000 then 4 else if v < 0x800000 then 5
      else if v < 0x80000000 then 6 else 0)"

definition ber_read_integer_length :: "wStream \<Rightarrow> (int option \<times> wStream) option" where
  "ber_read_integer_length s =
     rbind (ber_read_universal_tag s BER_TAG_INTEGER False) (\<lambda>_ s. ber_read_length s)"

section \<open>Encodings\<close>

definition ber_len :: "int \<Rightarrow> byte list" where
  "ber_len n = (if 0xFF < n then 0x82 # be16 n else if 0x7F < n then [0x81, word_of_int n] else [word_of_int n])"

lemma length_ber_len: "int (length (ber_len n)) = ber_sizeof_length n"
  by (simp add: ber_len_def ber_sizeof_length_def)

lemma ber_write_length_emits [emits]:
  "ber_write_length s n = do { s \<leftarrow> Stream_Write s (ber_len n); Some (ber_sizeof_length n, s) }"
  by (simp add: ber_write_length_def ber_len_def ber_sizeof_length_def emits write_merge)

lemma ber_read_length_parses:
  assumes "0 \<le> n"
  shows "parses ber_read_length (ber_len n) (if 0xFF < n then n mod 0x10000 else n)"
proof (rule parsesI)
  fix s rest
  assume s: "s_ok s" "s_rest s = ber_len n @ rest"
  consider (long) "0xFF < n" | (mid) "0x7F < n" "n \<le> 0xFF" | (short) "n \<le> 0x7F" by linarith
  then show "ber_read_length s = Some (Some (if 0xFF < n then n mod 0x10000 else n), s_adv (length (ber_len n)) s)"
  proof cases
    case long
    then have r: "s_rest s = 0x82 # be16 n @ rest" using s(2) by (simp add: ber_len_def)
    have "Stream_Read_UINT16_BE (s_adv 1 s) = Some (n mod 65536, s_adv 2 (s_adv 1 s))"
      using read_be16 [of "s_adv 1 s" n rest] s(1) r by simp
    then show ?thesis using Stream_Read_UINT8_rest [OF s(1) r] s(1) r long
      by (simp add: ber_read_length_def ber_len_def numeral_3_eq_3)
  next
    case mid
    then have r: "s_rest s = 0x81 # word_of_int n # rest" using s(2) by (simp add: ber_len_def)
    have "Stream_Read_UINT8 (s_adv 1 s) = Some (n, s_adv 1 (s_adv 1 s))"
      using read_byte [of "s_adv 1 s" n rest] s(1) r mid by simp
    then show ?thesis using Stream_Read_UINT8_rest [OF s(1) r] s(1) r mid
      by (simp add: ber_read_length_def ber_len_def)
  next
    case short
    then have "s_rest s = word_of_int n # rest" using s(2) by (simp add: ber_len_def)
    then show ?thesis using read_byte [OF s(1)] s(1) short assms
      by (simp add: ber_read_length_def ber_len_def and_128 small_no_bit)
  qed
qed

lemma ber_read_length_safe [safe_readers]: "safe_reader ber_read_length"
  by (rule safe_reader_from, unfold ber_read_length_def [abs_def] Let_def) (intro reads; simp)

lemma ber_read_length_range: "ber_read_length s = Some (Some v, s') \<Longrightarrow> 0 \<le> v"
  by (auto simp: ber_read_length_def Let_def split: if_splits bind_splits
    dest!: Stream_Read_UINT8_range Stream_Read_UINT16_BE_range)

interpretation ber_length: safe_codec "\<lambda>n s. map_option snd (ber_write_length s n)" ber_read_length ber_len
    "\<lambda>n. 0 \<le> n \<and> n \<le> 0xFFFF"
proof
  show "parses ber_read_length (ber_len v) v" if "0 \<le> v \<and> v \<le> 0xFFFF" for v
    using ber_read_length_parses [of v] that by (simp split: if_splits)
  show "map_option snd (ber_write_length s v) = Stream_Write s (ber_len v)" for s v
    by (cases "Stream_Write s (ber_len v)") (simp_all add: emits)
qed (use safe_readers in simp)

section \<open>Tags\<close>

lemma and_31: "31 AND t = take_bit 5 (t::int)"
proof -
  have "(31::int) = mask 5" by (simp add: mask_eq_exp_minus_1)
  then show ?thesis by (simp add: take_bit_eq_mask and.commute)
qed

lemma tag_byte: "take_bit 8 c = c \<Longrightarrow> (c OR take_bit 5 t) mod 256 = c OR take_bit 5 (t::int)"
  using take_bit_or [of 8 c "take_bit 5 t"] by (simp add: take_bit_eq_mod [of 8 "c OR take_bit 5 t", simplified, symmetric])

lemma BER_PC_cases: "BER_PC pc = (if pc then 32 else 0)"
  by (simp add: BER_PC_def)

lemma class_pc: "take_bit 8 (BER_PC pc) = BER_PC pc" "take_bit 8 (128 OR BER_PC pc) = 128 OR BER_PC pc"
  by (simp_all add: BER_PC_def)

text \<open>A reader that checks one tag octet and goes on.\<close>

lemma parses_octet:
  assumes "\<And>s rest. s_ok s \<Longrightarrow> s_rest s = b # rest \<Longrightarrow> rd s = f (s_adv 1 s)" and "parses f bs v"
  shows "parses rd (b # bs) v"
proof (rule parsesI)
  fix s rest
  assume s: "s_ok s" "s_rest s = (b # bs) @ rest"
  then have "rd s = f (s_adv 1 s)" using assms(1) [of s "bs @ rest"] by simp
  also have "\<dots> = Some (Some v, s_adv (length bs) (s_adv 1 s))"
    using s by (intro parsesD [OF assms(2), of _ rest]) simp_all
  finally show "rd s = Some (Some v, s_adv (length (b # bs)) s)" by simp
qed

definition univ_tag :: "int \<Rightarrow> bool \<Rightarrow> byte" where
  "univ_tag tag pc = word_of_int (BER_PC pc OR take_bit 5 tag)"

definition ctxt_tag :: "int \<Rightarrow> bool \<Rightarrow> byte" where
  "ctxt_tag tag pc = word_of_int ((128 OR BER_PC pc) OR take_bit 5 tag)"

definition appl_tag :: "int \<Rightarrow> byte list" where
  "appl_tag tag = (if 30 < tag then [0x7F, word_of_int tag] else [word_of_int (96 OR take_bit 5 tag)])"

lemma ber_write_universal_tag_emits [emits]:
  "ber_write_universal_tag s tag pc = do { s \<leftarrow> Stream_Write s [univ_tag tag pc]; Some (1, s) }"
  by (simp add: ber_write_universal_tag_def univ_tag_def emits and_31)

lemma ber_read_universal_tag_parses: "parses (\<lambda>s. ber_read_universal_tag s tag pc) [univ_tag tag pc] ()"
  by (rule parses_octet [where f = "\<lambda>s. Some (Some (), s)"])
    (simp_all add: ber_read_universal_tag_def univ_tag_def read_byte and_31 tag_byte class_pc parses_ret)

lemma ber_write_contextual_tag_emits [emits]:
  "ber_write_contextual_tag s tag n pc = do { s \<leftarrow> Stream_Write s (ctxt_tag tag pc # ber_len n); Some (1 + ber_sizeof_length n, s) }"
  by (simp add: ber_write_contextual_tag_def ctxt_tag_def emits and_31 write_merge)

lemma ber_read_contextual_tag_parses:
  "0 \<le> n \<Longrightarrow> n \<le> 0xFFFF \<Longrightarrow> parses (\<lambda>s. ber_read_contextual_tag s tag pc) (ctxt_tag tag pc # ber_len n) n"
  by (rule parses_octet [where f = ber_read_length])
    (simp_all add: ber_read_contextual_tag_def ctxt_tag_def read_byte and_31 tag_byte class_pc ber_length.rd_enc)

lemma ber_write_sequence_tag_emits [emits]:
  "ber_write_sequence_tag s n = do { s \<leftarrow> Stream_Write s (0x30 # ber_len n); Some (1 + ber_sizeof_length n, s) }"
  by (simp add: ber_write_sequence_tag_def emits write_merge)

lemma ber_read_sequence_tag_parses:
  "0 \<le> n \<Longrightarrow> n \<le> 0xFFFF \<Longrightarrow> parses ber_read_sequence_tag (0x30 # ber_len n) n"
  by (rule parses_octet [where f = ber_read_length])
    (simp_all add: ber_read_sequence_tag_def Stream_Read_UINT8_rest ber_length.rd_enc)

lemma ber_write_application_tag_emits [emits]:
  "ber_write_application_tag s tag n = Stream_Write s (appl_tag tag @ ber_len n)"
  by (simp add: ber_write_application_tag_def appl_tag_def emits and_31 write_merge)

lemma ber_read_application_tag_parses:
  assumes n: "0 \<le> n" "n \<le> 0xFFFF" and tag: "0 \<le> tag" "tag \<le> 255"
  shows "parses (\<lambda>s. ber_read_application_tag s tag) (appl_tag tag @ ber_len n) n"
proof (cases "30 < tag")
  case True
  have "parses (\<lambda>s. if Stream_GetRemainingLength s < 1 then Some (None, s)
           else do { (b, s) \<leftarrow> Stream_Read_UINT8 s; if b \<noteq> tag then Some (None, s) else ber_read_length s })
      (word_of_int tag # ber_len n) n"
    using tag by (intro parses_octet [where f = ber_read_length]) (simp_all add: read_byte ber_length.rd_enc n)
  then have "parses (\<lambda>s. ber_read_application_tag s tag) (0x7F # word_of_int tag # ber_len n) n"
    by (rule parses_octet [rotated]) (simp add: ber_read_application_tag_def True Stream_Read_UINT8_rest)
  then show ?thesis by (simp add: appl_tag_def True)
next
  case False
  have "parses (\<lambda>s. ber_read_application_tag s tag) (word_of_int (96 OR take_bit 5 tag) # ber_len n) n"
    using False by (intro parses_octet [where f = ber_read_length])
      (simp_all add: ber_read_application_tag_def read_byte and_31 tag_byte ber_length.rd_enc n)
  with False show ?thesis by (simp add: appl_tag_def)
qed

text \<open>A contextual tag that is not there is not consumed.\<close>

lemma ber_read_contextual_tag_other:
  assumes "s_ok s" and "s_rest s = b # rest" and "b \<noteq> ctxt_tag tag pc"
  shows "ber_read_contextual_tag s tag pc = Some (None, s)"
proof -
  have "uint b \<noteq> (128 OR BER_PC pc) OR take_bit 5 tag"
    using assms(3) by (metis ctxt_tag_def word_of_int_uint)
  moreover have "Stream_Rewind (s_adv 1 s) 1 = Some s"
    using assms(1) by (simp add: Stream_Rewind_def Stream_Seek_def s_adv_def s_ok_def)
  ultimately show ?thesis using assms(1,2)
    by (simp add: ber_read_contextual_tag_def Stream_Read_UINT8_rest and_31)
qed

text \<open>
  A contextual, application or sequence tag with a length up to \<open>0xFFFF\<close> is read back with its length,
  the reader ends where the writer did, and the writer returns the number of bytes written, which is
  what the matching size function computes. A contextual tag that is not there is reported without
  consuming anything.
\<close>

theorem ber_tags_roundtrip:
  assumes n: "0 \<le> n" "n \<le> 0xFFFF" and tag: "0 \<le> tag" "tag \<le> 255" and s: "s_ok s" "5 \<le> length (s_rest s)"
  shows "(\<exists>s'. ber_write_contextual_tag s tag n pc = Some (ber_sizeof_contextual_tag n, s')
      \<and> s_pos s' = s_pos s + ber_sizeof_contextual_tag n
      \<and> ber_read_contextual_tag (s'\<lparr>s_pos := s_pos s\<rparr>) tag pc = Some (Some n, s'))
    \<and> (\<exists>s'. ber_write_sequence_tag s n = Some (ber_sizeof_sequence_tag n, s')
      \<and> s_pos s' = s_pos s + ber_sizeof_sequence_tag n
      \<and> ber_read_sequence_tag (s'\<lparr>s_pos := s_pos s\<rparr>) = Some (Some n, s'))
    \<and> (\<exists>s'. ber_write_application_tag s tag n = Some s'
      \<and> ber_read_application_tag (s'\<lparr>s_pos := s_pos s\<rparr>) tag = Some (Some n, s'))
    \<and> (s_rest s ! 0 \<noteq> ctxt_tag tag pc \<longrightarrow> ber_read_contextual_tag s tag pc = Some (None, s))"
proof -
  have reread: "\<exists>s'. Stream_Write s bs = Some s' \<and> s_pos s' = s_pos s + int (length bs)
      \<and> rd (s'\<lparr>s_pos := s_pos s\<rparr>) = Some (Some n, s')" if "parses rd bs n" "length bs \<le> 5" for rd bs
  proof -
    have "length bs \<le> length (s_rest s)" using that(2) s(2) by simp
    from Stream_Write_reread [OF s(1) this] obtain s' where w: "Stream_Write s bs = Some s'"
      "s_ok (s'\<lparr>s_pos := s_pos s\<rparr>)" "s_rest (s'\<lparr>s_pos := s_pos s\<rparr>) = bs @ s_rest s'"
      "s_adv (length bs) (s'\<lparr>s_pos := s_pos s\<rparr>) = s'" by blast
    have "s_pos s' = s_pos s + int (length bs)" using arg_cong [OF w(4), of s_pos] by (simp add: s_adv_def)
    with w parsesD [OF that(1) w(2,3)] show ?thesis by auto
  qed
  have len: "length (ber_len n) \<le> 3" "length (appl_tag tag) \<le> 2" by (simp_all add: ber_len_def appl_tag_def)
  have "\<exists>b rest. s_rest s = b # rest" using s(2) by (cases "s_rest s") simp_all
  then have "s_rest s ! 0 \<noteq> ctxt_tag tag pc \<longrightarrow> ber_read_contextual_tag s tag pc = Some (None, s)"
    using ber_read_contextual_tag_other [OF s(1)] by fastforce
  then show ?thesis
    using reread [OF ber_read_contextual_tag_parses [OF n, of tag pc]] reread [OF ber_read_sequence_tag_parses [OF n]]
      reread [OF ber_read_application_tag_parses [OF n tag]] len
    by (auto simp: emits ber_sizeof_contextual_tag_def ber_sizeof_sequence_tag_def length_ber_len)
qed

lemma ber_tags_roundtrip_witness:
  "\<exists>s'. ber_write_contextual_tag (blank 6) 3 0x1234 True = Some (ber_sizeof_contextual_tag 0x1234, s')
      \<and> s_pos s' = s_pos (blank 6) + ber_sizeof_contextual_tag 0x1234
      \<and> ber_read_contextual_tag (s'\<lparr>s_pos := s_pos (blank 6)\<rparr>) 3 True = Some (Some 0x1234, s')"
  using ber_tags_roundtrip [of "0x1234" 3 "blank 6" True] blank_ok [of 6] by simp

section \<open>Integers\<close>

definition ber_int :: "int \<Rightarrow> byte list" where
  "ber_int v = 2 # (if v < 0x80 then [1, word_of_int v] else if v < 0x8000 then 2 # be16 v
     else if v < 0x800000 then 3 # word_of_int (drop_bit 16 v) # be16 v else 4 # be32 v)"

lemma length_ber_int: "v < 0x80000000 \<Longrightarrow> int (length (ber_int v)) = ber_sizeof_integer v"
  by (simp add: ber_int_def ber_sizeof_integer_def)

lemma ber_write_integer_emits:
  "v < 0x80000000 \<Longrightarrow> ber_write_integer s v = do { s \<leftarrow> Stream_Write s (ber_int v); Some (ber_sizeof_integer v, s) }"
  by (simp add: ber_write_integer_def ber_int_def ber_sizeof_integer_def emits write_merge univ_tag_def BER_PC_def
      ber_len_def be16_mask)

lemma value3: "0 \<le> v \<Longrightarrow> v < 0x800000 \<Longrightarrow> v mod 65536 + push_bit 16 (drop_bit 16 v mod 256) = (v::int)"
  by (simp add: drop_bit_eq_div push_bit_eq_mult)

lemma ber_read_integer_parses:
  assumes v: "0 \<le> v" "v < 0x80000000"
  shows "parses (\<lambda>s. ber_read_integer s True) (ber_int v) v"
proof -
  let ?f = "\<lambda>len s. if as_int (Stream_GetRemainingLength s) < len then Some (None, s)
     else if \<not> True then rbind (Stream_SafeSeek s len) (\<lambda>_ s. Some (Some 0, s))
     else if len = 1 then do { (v, s) \<leftarrow> Stream_Read_UINT8 s; Some (Some v, s) }
     else if len = 2 then do { (v, s) \<leftarrow> Stream_Read_UINT16_BE s; Some (Some v, s) }
     else if len = 3 then do {
       (b, s) \<leftarrow> Stream_Read_UINT8 s;
       (v, s) \<leftarrow> Stream_Read_UINT16_BE s;
       Some (Some (v + push_bit 16 b), s)
     } else if len = 4 then do { (v, s) \<leftarrow> Stream_Read_UINT32_BE s; Some (Some v, s) }
     else Some (None, s)"
  have body: "parses (\<lambda>s. ber_read_integer s True) (2 # word_of_int k # bs) v"
    if "parses (?f k) bs v" "0 \<le> k" "k \<le> 127" for k bs
  proof -
    have "parses (\<lambda>s. rbind (ber_read_length s) ?f) (ber_len k @ bs) v"
      using ber_length.rd_enc [of k] that by (intro parses_rbind [where f = ?f]) simp_all
    then have "parses (\<lambda>s. rbind (ber_read_universal_tag s 2 False) (\<lambda>_ s. rbind (ber_read_length s) ?f))
        ([univ_tag 2 False] @ (ber_len k @ bs)) v"
      by (intro parses_rbind [OF ber_read_universal_tag_parses])
    then show ?thesis using that(3) by (simp add: ber_read_integer_def univ_tag_def BER_PC_def ber_len_def)
  qed
  have rem: "\<not> as_int (Stream_GetRemainingLength s) < int (length bs)" if "s_ok s" "s_rest s = bs @ rest" for s bs rest
    using remaining_int_rest [OF that] by simp
  consider (1) "v < 0x80" | (2) "0x80 \<le> v" "v < 0x8000" | (3) "0x8000 \<le> v" "v < 0x800000" | (4) "0x800000 \<le> v" by linarith
  then show ?thesis
  proof cases
    case 1
    have "parses (?f 1) [word_of_int v] v"
      using v 1 rem [of _ "[word_of_int v]"] by (intro parsesI) (simp add: read_byte del: remaining)
    from body [OF this] 1 show ?thesis by (simp add: ber_int_def)
  next
    case 2
    have "parses (?f 2) (be16 v) v"
      using v 2 rem [of _ "be16 v"] by (intro parsesI) (simp add: read_be16 del: remaining)
    from body [OF this] 2 show ?thesis by (simp add: ber_int_def)
  next
    case 3
    have "parses (?f 3) (word_of_int (drop_bit 16 v) # be16 v) v"
      using v 3 rem [of _ "word_of_int (drop_bit 16 v) # be16 v"] value3 [of v]
      by (intro parsesI) (simp add: read_byte read_be16 numeral_3_eq_3 del: remaining)
    from body [OF this] 3 show ?thesis by (simp add: ber_int_def)
  next
    case 4
    have "parses (?f 4) (be32 v) v"
      using v 4 rem [of _ "be32 v"] by (intro parsesI) (simp add: read_be32 del: remaining)
    from body [OF this] 4 show ?thesis by (simp add: ber_int_def)
  qed
qed

lemma ber_read_integer_safe [safe_readers]: "safe_reader (\<lambda>s. ber_read_integer s want)"
proof -
  have skip: "safe_reader (\<lambda>s. Stream_SafeSeek s len)" if "0 \<le> len" for len
    using that by (intro safe_reader_from, unfold Stream_SafeSeek_def) (intro reads; simp)
  have univ: "safe_reader (\<lambda>s. ber_read_universal_tag s tag pc)" for tag pc
    by (rule safe_reader_from, unfold ber_read_universal_tag_def) (intro reads; simp)
  have tail: "reads_from 0 (\<lambda>s. if as_int (Stream_GetRemainingLength s) < len then Some (None, s)
     else if \<not> want then rbind (Stream_SafeSeek s len) (\<lambda>_ s. Some (Some 0, s))
     else if len = 1 then do { (v, s) \<leftarrow> Stream_Read_UINT8 s; Some (Some v, s) }
     else if len = 2 then do { (v, s) \<leftarrow> Stream_Read_UINT16_BE s; Some (Some v, s) }
     else if len = 3 then do {
       (b, s) \<leftarrow> Stream_Read_UINT8 s;
       (v, s) \<leftarrow> Stream_Read_UINT16_BE s;
       Some (Some (v + push_bit 16 b), s)
     } else if len = 4 then do { (v, s) \<leftarrow> Stream_Read_UINT32_BE s; Some (Some v, s) }
     else Some (None, s))" if "0 \<le> len" for len
    using that by (intro reads skip; simp)
  show ?thesis
    unfolding ber_read_integer_def
    by (intro safe_reader_from reads_rbind univ reads_rbind_val [where V = "\<lambda>v. 0 \<le> v"] ber_read_length_safe tail)
      (auto dest: ber_read_length_range)
qed

interpretation ber_integer: safe_codec "\<lambda>v s. map_option snd (ber_write_integer s v)" "\<lambda>s. ber_read_integer s True" ber_int
    "\<lambda>v. 0 \<le> v \<and> v < 0x80000000"
proof
  show "map_option snd (ber_write_integer s v) = Stream_Write s (ber_int v)" if "0 \<le> v \<and> v < 0x80000000" for s v
    using that by (cases "Stream_Write s (ber_int v)") (simp_all add: ber_write_integer_emits)
qed (simp_all add: ber_read_integer_parses ber_read_integer_safe)

text \<open>
  C36. Any list of integers below \<open>0x80000000\<close> written one after the other to a stream with room is read
  back, and the reader ends where the writer did; each is written in the bytes its size function
  computes.
\<close>

theorem ber_integer_list_roundtrip:
  assumes "\<forall>v \<in> set vs. 0 \<le> v \<and> v < 0x80000000" and "s_ok s" and "length (concat (map ber_int vs)) \<le> length (s_rest s)"
  shows "(\<exists>s'. foldM (\<lambda>v s. map_option snd (ber_write_integer s v)) vs s = Some s'
    \<and> read_n (length vs) (\<lambda>s. ber_read_integer s True) (s'\<lparr>s_pos := s_pos s\<rparr>) = Some (Some vs, s'))
    \<and> (\<forall>v \<in> set vs. int (length (ber_int v)) = ber_sizeof_integer v)"
  using ber_integer.roundtrip_list [OF assms] assms(1) by (simp add: length_ber_int)

lemma ber_integer_list_roundtrip_witness:
  "\<exists>s'. foldM (\<lambda>v s. map_option snd (ber_write_integer s v)) [5, 0x1234, 0x123456, 0x12345678] (blank 32) = Some s'
    \<and> read_n (length [5, 0x1234, 0x123456, 0x12345678::int]) (\<lambda>s. ber_read_integer s True) (s'\<lparr>s_pos := s_pos (blank 32)\<rparr>)
      = Some (Some [5, 0x1234, 0x123456, 0x12345678], s')"
  using ber_integer_list_roundtrip [of "[5, 0x1234, 0x123456, 0x12345678]" "blank 32"] blank_ok [of 32]
  by (simp add: ber_int_def)

text \<open>An unsigned integer of \<open>0x80000000\<close> or more is not written at all, and its size is given as 0.\<close>

theorem ber_integer_large_dropped:
  assumes "0x80000000 \<le> v"
  shows "ber_write_integer s v = Some (0, s) \<and> ber_sizeof_integer v = 0"
  using assms by (simp add: ber_write_integer_def ber_sizeof_integer_def)

lemma ber_integer_large_dropped_witness:
  "ber_write_integer (blank 8) 0xFFFFFFFF = Some (0, blank 8) \<and> ber_sizeof_integer 0xFFFFFFFF = 0"
  by (rule ber_integer_large_dropped) simp

section \<open>Memory safety\<close>

lemma ber_read_universal_tag_safe [safe_readers]: "safe_reader (\<lambda>s. ber_read_universal_tag s tag pc)"
  by (rule safe_reader_from, unfold ber_read_universal_tag_def) (intro reads; simp)

lemmas ber_tail = reads_safe [OF ber_read_length_safe]

lemma ber_read_application_tag_safe [safe_readers]: "safe_reader (\<lambda>s. ber_read_application_tag s tag)"
  by (rule safe_reader_from, unfold ber_read_application_tag_def) (intro reads ber_tail; simp)

lemma ber_read_sequence_tag_safe [safe_readers]: "safe_reader ber_read_sequence_tag"
  by (rule safe_reader_from, unfold ber_read_sequence_tag_def [abs_def]) (intro reads ber_tail; simp)

lemma ber_read_contextual_tag_safe [safe_readers]: "safe_reader (\<lambda>s. ber_read_contextual_tag s tag pc)"
  unfolding safe_reader_def
proof (intro allI impI)
  fix s assume s: "s_ok s"
  show "\<exists>v n. n \<le> length (s_rest s) \<and> ber_read_contextual_tag s tag pc = Some (v, s_adv n s)"
  proof (cases "s_rest s")
    case Nil
    then show ?thesis using s by (simp add: ber_read_contextual_tag_def)
  next
    case (Cons b rest)
    show ?thesis
    proof (cases "b = ctxt_tag tag pc")
      case False
      then show ?thesis using ber_read_contextual_tag_other [OF s Cons] by (metis le0 s_adv_0)
    next
      case True
      then have "ber_read_contextual_tag s tag pc = ber_read_length (s_adv 1 s)"
        using s Cons read_byte [of s "(128 OR BER_PC pc) OR take_bit 5 tag" rest]
        by (simp add: ber_read_contextual_tag_def ctxt_tag_def and_31 tag_byte class_pc)
      moreover have "s_ok (s_adv 1 s)" using s Cons by simp
      ultimately obtain v n where "n \<le> length (s_rest (s_adv 1 s))" "ber_read_contextual_tag s tag pc = Some (v, s_adv n (s_adv 1 s))"
        using ber_read_length_safe unfolding safe_reader_def by metis
      then show ?thesis using s Cons by (intro exI [of _ v] exI [of _ "1 + n"]) auto
    qed
  qed
qed

lemma ber_read_value_safe [safe_readers]:
  "safe_reader (\<lambda>s. ber_read_enumerated s cnt)" "safe_reader ber_read_bit_string" "safe_reader ber_read_BOOL"
  by (rule safe_reader_from, unfold ber_read_enumerated_def ber_read_bit_string_def [abs_def] ber_read_BOOL_def [abs_def],
      intro reads safe_readers; simp)+

lemma ber_read_header_safe [safe_readers]: "safe_reader ber_read_octet_string_tag" "safe_reader ber_read_integer_length"
  unfolding ber_read_octet_string_tag_def [abs_def] ber_read_integer_length_def [abs_def]
  by (intro safe_rbind safe_readers)+

text \<open>
  C37. No BER reader ever reads outside the stream: on every well-formed stream each of them returns,
  with TRUE or FALSE, and leaves the stream moved forward within its length and otherwise unchanged.
\<close>

theorem ber_readers_safe:
  "safe_reader ber_read_length \<and> safe_reader (\<lambda>s. ber_read_universal_tag s tag pc)
    \<and> safe_reader (\<lambda>s. ber_read_application_tag s tag) \<and> safe_reader (\<lambda>s. ber_read_contextual_tag s tag pc)
    \<and> safe_reader ber_read_sequence_tag \<and> safe_reader (\<lambda>s. ber_read_enumerated s cnt)
    \<and> safe_reader ber_read_bit_string \<and> safe_reader ber_read_octet_string_tag \<and> safe_reader ber_read_BOOL
    \<and> safe_reader (\<lambda>s. ber_read_integer s want) \<and> safe_reader ber_read_integer_length"
  by (intro conjI safe_readers)

end
