(* ===== verification/WDer.thy ===== *)
theory WDer
  imports WBer
begin

text \<open>
  The distinguished encoding rules of \<open>libfreerdp/crypto/der.c\<close>, which only write. The tag constants of
  \<open>er.h\<close> have the values of those of \<open>ber.h\<close>.
\<close>

section \<open>Operations\<close>

definition der_skip_length :: "int \<Rightarrow> int" where
  "der_skip_length len = (if 0x7F < len \<and> len \<le> 0xFF then 2 else if 0xFF < len then 3 else 1)"

definition der_write_length :: "wStream \<Rightarrow> int \<Rightarrow> (int \<times> wStream) option" where
  "der_write_length s len =
     (if 0x7F < len \<and> len \<le> 0xFF then do {
        s \<leftarrow> Stream_Write_UINT8 s 0x81;
        s \<leftarrow> Stream_Write_UINT8 s len;
        Some (2, s)
      } else if 0xFF < len then do {
        s \<leftarrow> Stream_Write_UINT8 s 0x82;
        s \<leftarrow> Stream_Write_UINT16_BE s len;
        Some (3, s)
      } else do { s \<leftarrow> Stream_Write_UINT8 s len; Some (1, s) })"

definition der_get_content_length :: "int \<Rightarrow> int option" where
  "der_get_content_length len =
     (if 0x81 < len \<and> len \<le> 0x102 then cint (len - 3) else if 0x102 < len then cint (len - 4) else cint (len - 2))"

definition der_skip_contextual_tag :: "int \<Rightarrow> int" where
  "der_skip_contextual_tag len = der_skip_length len + 1"

definition der_write_contextual_tag :: "wStream \<Rightarrow> int \<Rightarrow> int \<Rightarrow> bool \<Rightarrow> (int \<times> wStream) option" where
  "der_write_contextual_tag s tag len pc = do {
     s \<leftarrow> Stream_Write_UINT8 s ((0x80 OR BER_PC pc) OR (0x1F AND tag));
     (n, s) \<leftarrow> der_write_length s len;
     Some (n + 1, s) }"

definition der_write_universal_tag :: "wStream \<Rightarrow> int \<Rightarrow> bool \<Rightarrow> wStream option" where
  "der_write_universal_tag s tag pc = Stream_Write_UINT8 s ((0x00 OR BER_PC pc) OR (0x1F AND tag))"

definition der_skip_octet_string :: "int \<Rightarrow> int option" where
  "der_skip_octet_string len = cint (1 + der_skip_length len + len)"

definition der_write_octet_string :: "wStream \<Rightarrow> byte list \<Rightarrow> int \<Rightarrow> wStream option" where
  "der_write_octet_string s oct_str len = do {
     s \<leftarrow> der_write_universal_tag s 0x04 False;
     (_, s) \<leftarrow> der_write_length s len;
     bs \<leftarrow> ablock oct_str 0 len;
     Stream_Write s bs }"

definition der_skip_sequence_tag :: "int \<Rightarrow> int" where
  "der_skip_sequence_tag len = 1 + der_skip_length len"

definition der_write_sequence_tag :: "wStream \<Rightarrow> int \<Rightarrow> (int \<times> wStream) option" where
  "der_write_sequence_tag s len = do {
     s \<leftarrow> Stream_Write_UINT8 s ((0x00 OR 0x20) OR (0x1F AND 0x10));
     (n, s) \<leftarrow> der_write_length s len;
     Some (n + 1, s) }"

section \<open>Agreement with the basic rules\<close>

lemma der_write_length_ber: "der_write_length s n = ber_write_length s n"
  by (simp add: der_write_length_def ber_write_length_def)

lemma der_skip_length_ber: "der_skip_length n = ber_sizeof_length n"
  by (simp add: der_skip_length_def ber_sizeof_length_def)

lemma der_write_universal_tag_ber: "der_write_universal_tag s tag pc = map_option snd (ber_write_universal_tag s tag pc)"
  by (cases "Stream_Write s [univ_tag tag pc]") (simp_all add: der_write_universal_tag_def emits and_31 univ_tag_def)

text \<open>The BER writer of octet strings also adds up the bytes it has written; the DER one returns nothing.\<close>

lemma der_write_octet_string_ber:
  assumes "n \<le> INT_MAX - 4"
  shows "der_write_octet_string s oct n = map_option snd (ber_write_octet_string s oct n)"
proof -
  note defs = der_write_octet_string_def ber_write_octet_string_def der_write_universal_tag_ber der_write_length_ber
  have tag: "n1 = 1" if "ber_write_universal_tag s 4 False = Some (n1, s1)" for n1 s1
    using that by (auto simp: ber_write_universal_tag_def split: bind_splits)
  have len: "1 \<le> k \<and> k \<le> 3" if "ber_write_length s n = Some (k, s')" for s k s'
    using that by (auto simp: ber_write_length_def split: if_splits bind_splits)
  have count: "cint (1 + k + n) = Some (1 + k + n)" if "1 \<le> k \<and> k \<le> 3" "ablock oct 0 n = Some bs" for k bs
    using that assms by (auto simp: cint_def ablock_def split: if_splits)
  show ?thesis
  proof (cases "ber_write_universal_tag s 4 False")
    case None
    then show ?thesis by (simp add: defs)
  next
    case (Some r)
    then obtain s1 where t: "ber_write_universal_tag s 4 False = Some (1, s1)" using tag by (cases r) simp
    show ?thesis
    proof (cases "ber_write_length s1 n")
      case None
      with t show ?thesis by (simp add: defs)
    next
      case (Some r)
      obtain k s2 where r: "r = (k, s2)" by (cases r)
      with Some len have "1 \<le> k \<and> k \<le> 3" by simp
      from count [OF this] t Some r show ?thesis
        by (cases "ablock oct 0 n") (auto simp: defs map_option_case split: bind_splits option.splits)
    qed
  qed
qed

text \<open>
  C38. The DER writers of tags, lengths and octet strings write what the BER writers write and return the same number of
  bytes, where they return one, for every length, and their size functions agree with the BER ones. The octet string ends
  4 bytes before the largest \<open>int\<close>, so that the BER writer can count its bytes.
\<close>

theorem der_writes_ber:
  assumes "m \<le> INT_MAX - 4"
  shows "der_write_length s n = ber_write_length s n
    \<and> der_write_contextual_tag s tag n pc = ber_write_contextual_tag s tag n pc
    \<and> der_write_sequence_tag s n = ber_write_sequence_tag s n
    \<and> der_write_universal_tag s tag pc = map_option snd (ber_write_universal_tag s tag pc)
    \<and> der_write_octet_string s oct m = map_option snd (ber_write_octet_string s oct m)
    \<and> der_skip_contextual_tag n = ber_sizeof_contextual_tag n
    \<and> der_skip_sequence_tag n = ber_sizeof_sequence_tag n
    \<and> der_skip_octet_string n = ber_sizeof_octet_string n"
  using der_write_octet_string_ber [OF assms]
  by (simp add: der_write_contextual_tag_def ber_write_contextual_tag_def der_write_sequence_tag_def
      ber_write_sequence_tag_def der_write_length_ber der_skip_length_ber der_skip_contextual_tag_def
      ber_sizeof_contextual_tag_def der_skip_sequence_tag_def ber_sizeof_sequence_tag_def
      der_skip_octet_string_def ber_sizeof_octet_string_def der_write_universal_tag_ber add.commute)

text \<open>An octet string of 200 bytes, whose length takes two bytes, and one whose bytes are not there.\<close>

theorem der_writes_ber_witness:
  "der_write_octet_string (blank 300) (replicate 200 7) 200 = map_option snd (ber_write_octet_string (blank 300) (replicate 200 7) 200)
    \<and> (\<exists>s'. der_write_octet_string (blank 300) (replicate 200 7) 200 = Some s' \<and> s_pos s' = 203)"
proof -
  have "map_option s_pos (der_write_octet_string (blank 300) (replicate 200 7) 200) = Some 203" by code_simp
  with der_writes_ber [of 200 "blank 300" 0 0 False "replicate 200 7"] show ?thesis by (auto simp: map_option_eq_Some)
qed

text \<open>
  The length of the content is recovered from the length of an element: for every content length
  the total of tag, length octets and content determines it.
\<close>

theorem der_content_length_inverse:
  assumes "0 \<le> n" and "n \<le> INT_MAX - 4"
  shows "\<exists>t. der_skip_octet_string n = Some t \<and> der_get_content_length t = Some n"
  using assms by (simp add: der_skip_octet_string_def der_skip_length_def der_get_content_length_def cint_def)

lemma der_content_length_inverse_witness:
  "\<exists>t. der_skip_octet_string 200 = Some t \<and> der_get_content_length t = Some 200"
  by (rule der_content_length_inverse) simp_all

end
