(* ===== verification/WTpdu.thy ===== *)
theory WTpdu
  imports WStream
begin

text \<open>
  The transport headers: TPKT packets (\<open>libfreerdp/core/tpkt.c\<close>) and the X.224 transport data units
  inside them (\<open>libfreerdp/core/tpdu.c\<close>).
\<close>

section \<open>TPKT\<close>

definition tpkt_verify_header :: "wStream \<Rightarrow> bool option" where
  "tpkt_verify_header s = do { version \<leftarrow> Stream_Peek_UINT8 s; Some (version = 3) }"

definition tpkt_read_header :: "wStream \<Rightarrow> (int \<times> wStream) option" where
  "tpkt_read_header s = do {
     version \<leftarrow> Stream_Peek_UINT8 s;
     if version = 3 then do { s \<leftarrow> Stream_Seek s 2; Stream_Read_UINT16_BE s } else Some (0, s) }"

definition tpkt_write_header :: "wStream \<Rightarrow> int \<Rightarrow> wStream option" where
  "tpkt_write_header s len = do {
     s \<leftarrow> Stream_Write_UINT8 s 3;
     s \<leftarrow> Stream_Write_UINT8 s 0;
     Stream_Write_UINT16_BE s len }"

section \<open>TPDU\<close>

abbreviation X224_TPDU_CONNECTION_REQUEST :: int where "X224_TPDU_CONNECTION_REQUEST \<equiv> 0xE0"
abbreviation X224_TPDU_CONNECTION_CONFIRM :: int where "X224_TPDU_CONNECTION_CONFIRM \<equiv> 0xD0"
abbreviation X224_TPDU_DISCONNECT_REQUEST :: int where "X224_TPDU_DISCONNECT_REQUEST \<equiv> 0x80"
abbreviation X224_TPDU_DATA :: int where "X224_TPDU_DATA \<equiv> 0xF0"

text \<open>The code and the length indicator of a unit.\<close>

definition tpdu_read_header :: "wStream \<Rightarrow> ((int \<times> int) option \<times> wStream) option" where
  "tpdu_read_header s =
     (if Stream_GetRemainingLength s < 3 then Some (None, s)
      else do {
        (li, s) \<leftarrow> Stream_Read_UINT8 s;
        (code, s) \<leftarrow> Stream_Read_UINT8 s;
        if code = X224_TPDU_DATA then do { s \<leftarrow> Stream_Seek s 1; Some (Some (code, li), s) }
        else rbind (Stream_SafeSeek s 5) (\<lambda>_ s. Some (Some (code, li), s)) })"

definition tpdu_write_header :: "wStream \<Rightarrow> int \<Rightarrow> int \<Rightarrow> wStream option" where
  "tpdu_write_header s len code = do {
     s \<leftarrow> Stream_Write_UINT8 s len;
     s \<leftarrow> Stream_Write_UINT8 s code;
     if code = X224_TPDU_DATA then Stream_Write_UINT8 s 0x80
     else do {
       s \<leftarrow> Stream_Write_UINT16 s 0;
       s \<leftarrow> Stream_Write_UINT16 s 0;
       Stream_Write_UINT8 s 0 } }"

definition tpdu_read_connection_request :: "wStream \<Rightarrow> (int option \<times> wStream) option" where
  "tpdu_read_connection_request s = rbind (tpdu_read_header s) (\<lambda>(code, li) s.
     if code \<noteq> X224_TPDU_CONNECTION_REQUEST then Some (None, s) else Some (Some li, s))"

definition tpdu_write_connection_request :: "wStream \<Rightarrow> int \<Rightarrow> wStream option" where
  "tpdu_write_connection_request s len = tpdu_write_header s len X224_TPDU_CONNECTION_REQUEST"

definition tpdu_read_connection_confirm :: "wStream \<Rightarrow> (int option \<times> wStream) option" where
  "tpdu_read_connection_confirm s =
     (let position = as_int (s_pos s)
      in rbind (tpdu_read_header s) (\<lambda>(code, li) s.
        if code \<noteq> X224_TPDU_CONNECTION_CONFIRM then Some (None, s)
        else do {
          let bytes_read = as_int (s_pos s - position - 1);
          rest \<leftarrow> cint (li - bytes_read);
          if Stream_GetRemainingLength s \<ge> csize rest then Some (Some li, s) else Some (None, s) }))"

definition tpdu_write_connection_confirm :: "wStream \<Rightarrow> int \<Rightarrow> wStream option" where
  "tpdu_write_connection_confirm s len = tpdu_write_header s len X224_TPDU_CONNECTION_CONFIRM"

definition tpdu_write_disconnect_request :: "wStream \<Rightarrow> int \<Rightarrow> wStream option" where
  "tpdu_write_disconnect_request s len = tpdu_write_header s len X224_TPDU_DISCONNECT_REQUEST"

definition tpdu_write_data :: "wStream \<Rightarrow> wStream option" where
  "tpdu_write_data s = tpdu_write_header s 2 X224_TPDU_DATA"

definition tpdu_read_data :: "wStream \<Rightarrow> (int option \<times> wStream) option" where
  "tpdu_read_data s = rbind (tpdu_read_header s) (\<lambda>(code, li) s.
     if code \<noteq> X224_TPDU_DATA then Some (None, s) else Some (Some li, s))"

section \<open>Encodings\<close>

definition tpkt_bytes :: "int \<Rightarrow> byte list" where
  "tpkt_bytes len = [3, 0] @ be16 len"

definition tpdu_bytes :: "int \<Rightarrow> int \<Rightarrow> byte list" where
  "tpdu_bytes len code = word_of_int len # word_of_int code # (if code = 0xF0 then [0x80] else replicate 5 0)"

lemma tpkt_write_header_emits [emits]: "tpkt_write_header s len = Stream_Write s (tpkt_bytes len)"
  by (simp add: tpkt_write_header_def tpkt_bytes_def emits write_merge)

lemma tpdu_write_header_emits [emits]: "tpdu_write_header s len code = Stream_Write s (tpdu_bytes len code)"
  by (simp add: tpdu_write_header_def tpdu_bytes_def emits write_merge le16_def eval_nat_numeral)

lemma tpkt_length [simp]: "length (tpkt_bytes len) = 4"
  by (simp add: tpkt_bytes_def)

lemma tpdu_length [simp]: "length (tpdu_bytes len code) = (if code = 0xF0 then 3 else 7)"
  by (simp add: tpdu_bytes_def)

lemma Stream_Peek_rest: "s_ok s \<Longrightarrow> s_rest s = b # bs \<Longrightarrow> Stream_Peek_UINT8 s = Some (uint b)"
  using aget_rest [of s 0] by (simp add: Stream_Peek_UINT8_def)

lemma tpkt_read_header_rest:
  assumes "s_ok s" and "s_rest s = tpkt_bytes len @ rest" and "0 \<le> len" and "len \<le> 0xFFFF"
  shows "tpkt_read_header s = Some (len, s_adv 4 s)"
proof -
  have r: "s_rest s = 3 # 0 # be16 len @ rest" using assms(2) by (simp add: tpkt_bytes_def)
  have "Stream_Read_UINT16_BE (s_adv 2 s) = Some (len, s_adv 2 (s_adv 2 s))"
    using read_be16 [of "s_adv 2 s" len rest] assms(1,3,4) r by simp
  moreover have "Stream_Seek s 2 = Some (s_adv 2 s)" using assms(1) r by (simp add: Stream_Seek_rest)
  ultimately show ?thesis using Stream_Peek_rest [OF assms(1) r] by (simp add: tpkt_read_header_def)
qed

lemma tpdu_read_header_parses:
  assumes "0 \<le> len" "len \<le> 255" "0 \<le> code" "code \<le> 255"
  shows "parses tpdu_read_header (tpdu_bytes len code) (code, len)"
proof (rule parsesI)
  fix s rest
  assume s: "s_ok s" "s_rest s = tpdu_bytes len code @ rest"
  define tail :: "byte list" where "tail = (if code = 240 then [0x80] else replicate 5 0)"
  have r: "s_rest s = word_of_int len # word_of_int code # tail @ rest" using s(2) by (simp add: tpdu_bytes_def tail_def)
  have tail: "length tail = (if code = 240 then 1 else 5)" by (simp add: tail_def)
  have r1: "Stream_Read_UINT8 s = Some (len, s_adv 1 s)" using read_byte [OF s(1) r] assms by simp
  have r2: "Stream_Read_UINT8 (s_adv 1 s) = Some (code, s_adv 2 s)"
    using read_byte [of "s_adv 1 s" code "tail @ rest"] s(1) r assms by (simp add: numeral_2_eq_2)
  have ok: "s_ok (s_adv 2 s)" "s_rest (s_adv 2 s) = tail @ rest" using s(1) r by (simp_all add: numeral_2_eq_2)
  have "Stream_Seek (s_adv 2 s) (int (length tail)) = Some (s_adv (2 + length tail) s)"
    using ok by (simp add: Stream_Seek_rest)
  moreover have "Stream_GetRemainingLength (s_adv 2 s) = int (length tail) + int (length rest)" using ok by simp
  moreover have "\<not> Stream_GetRemainingLength s < 3" using s(1) r tail by simp
  ultimately show "tpdu_read_header s = Some (Some (code, len), s_adv (length (tpdu_bytes len code)) s)"
    using r1 r2 tail by (cases "code = 240") (simp_all add: tpdu_read_header_def Stream_SafeSeek_def del: remaining)
qed

lemma tpdu_read_header_safe [safe_readers]: "safe_reader tpdu_read_header"
proof -
  have "safe_reader (\<lambda>s. Stream_SafeSeek s 5)"
    by (rule safe_reader_from, unfold Stream_SafeSeek_def) (intro reads; simp)
  then show ?thesis by (intro safe_reader_from, unfold tpdu_read_header_def [abs_def]) (intro reads; simp)
qed

lemma tpdu_write_data_emits [emits]: "tpdu_write_data s = Stream_Write s (tpdu_bytes 2 0xF0)"
  by (simp add: tpdu_write_data_def emits)

lemma tpdu_read_data_parses: "parses tpdu_read_data (tpdu_bytes 2 0xF0) 2"
proof -
  have "parses (\<lambda>s. rbind (tpdu_read_header s) (\<lambda>(code, li) s.
      if code \<noteq> 240 then Some (None, s) else Some (Some li, s))) (tpdu_bytes 2 240 @ []) 2"
    by (rule parses_rbind [OF tpdu_read_header_parses]) (simp_all add: parses_ret)
  then show ?thesis by (simp add: tpdu_read_data_def [abs_def])
qed

lemma tpdu_read_data_safe [safe_readers]: "safe_reader tpdu_read_data"
  by (rule safe_reader_from, unfold tpdu_read_data_def [abs_def] split_def) (intro reads safe_readers; simp)

section \<open>Connection units\<close>

text \<open>
  The reader of a connection confirm accepts a unit exactly when its code is the one of a confirm,
  its length indicator covers the seven bytes of the header and the stream still holds the bytes the
  indicator announces.
\<close>

theorem tpdu_connection_confirm_checks:
  assumes s: "s_ok s" "s_rest s = tpdu_bytes li code @ rest" and li: "0 \<le> li" "li \<le> 255"
    and code: "0 \<le> code" "code \<le> 255" "code \<noteq> 0xF0"
  shows "tpdu_read_connection_confirm s =
    Some (if code = 0xD0 \<and> 6 \<le> li \<and> li - 6 \<le> int (length rest) then Some li else None, s_adv 7 s)"
proof -
  have h: "tpdu_read_header s = Some (Some (code, li), s_adv 7 s)"
    using parsesD [OF tpdu_read_header_parses [OF li code(1,2)] s] code(3) by simp
  have ok: "s_ok (s_adv 7 s)" "s_rest (s_adv 7 s) = rest" using s code(3) by (simp_all add: s_ok_adv)
  have pos: "0 \<le> s_pos s" "s_pos s \<le> INT_MAX" using s(1) by (simp_all add: s_ok_def)
  then have "as_int (s_pos s) = s_pos s" "as_int (s_pos (s_adv 7 s) - s_pos s - 1) = 6"
    by (simp_all add: as_int_def s_adv_def)
  moreover have "cint (li - 6) = Some (li - 6)" using li by (simp add: cint_def)
  moreover have "int (length rest) < 4294967296"
    using length_s_rest [OF ok(1)] ok by (simp add: s_ok_def)
  moreover have "csize (li - 6) = (if 6 \<le> li then li - 6 else li - 6 + 18446744073709551616)"
    using li by (simp add: csize_neg csize_nonneg)
  ultimately show ?thesis using ok li by (auto simp: tpdu_read_connection_confirm_def h Let_def)
qed

lemma tpdu_connection_confirm_checks_witness:
  "tpdu_read_connection_confirm
     \<lparr>s_buffer = [8, 0xD0, 0, 0, 0, 0, 0, 1, 2, 3], s_pos = 0, s_length = 10, s_capacity = 10, s_count = 0, s_pool = 0\<rparr> =
   Some (if (0xD0::int) = 0xD0 \<and> 6 \<le> (8::int) \<and> 8 - 6 \<le> int (length [1, 2, 3::byte]) then Some 8 else None,
     s_adv 7 \<lparr>s_buffer = [8, 0xD0, 0, 0, 0, 0, 0, 1, 2, 3], s_pos = 0, s_length = 10, s_capacity = 10, s_count = 0, s_pool = 0\<rparr>)"
  by (rule tpdu_connection_confirm_checks) (simp_all add: s_ok_def s_rest_def tpdu_bytes_def eval_nat_numeral)

text \<open>
  The TPKT reader does not check the length of the stream: on a packet cut short after its version
  byte it moves past the end, and from then on the remaining length of the stream has wrapped around, so
  that every later length check passes.
\<close>

theorem tpkt_read_header_overrun:
  assumes s: "s_ok s" "s_rest s = 3 # bs" "length bs < 3" and mem: "s_pos s + 4 \<le> int (length (s_buffer s))"
  shows "\<exists>len. tpkt_read_header s = Some (len, s_adv 4 s)
    \<and> s_length s < s_pos (s_adv 4 s) \<and> INT_MAX < Stream_GetRemainingLength (s_adv 4 s)"
proof -
  have len: "s_length s - s_pos s = 1 + int (length bs)" using length_s_rest [OF s(1)] s(2) by simp
  have seek: "Stream_Seek s 2 = Some (s_adv 2 s)" using s(1) mem by (simp add: Stream_Seek_def s_adv_def s_ok_def)
  have get: "aget (s_buffer s) (s_pos s + 2) = Some (s_buffer s ! nat (s_pos s + 2))"
    "aget (s_buffer s) (s_pos s + 2 + 1) = Some (s_buffer s ! nat (s_pos s + 2 + 1))"
    using s(1) mem by (simp_all add: aget_def s_ok_def)
  then have "\<exists>v. Stream_Read_UINT16_BE (s_adv 2 s) = Some (v, s_adv 4 s)"
    by (simp add: Stream_Read_UINT16_BE_def s_adv_def)
  then obtain v where "tpkt_read_header s = Some (v, s_adv 4 s)"
    using Stream_Peek_rest [OF s(1,2)] seek by (auto simp: tpkt_read_header_def)
  moreover have "s_length s < s_pos (s_adv 4 s)" using len s(3) by (simp add: s_adv_def)
  moreover have "Stream_GetRemainingLength (s_adv 4 s) = int (length bs) - 3 + 18446744073709551616"
  proof -
    have "s_length (s_adv 4 s) - s_pos (s_adv 4 s) = int (length bs) - 3" using len by (simp add: s_adv_def)
    then show ?thesis using s(3) by (simp add: Stream_GetRemainingLength_def csize_neg)
  qed
  ultimately show ?thesis using s(3) by simp
qed

lemma tpkt_read_header_overrun_witness:
  "\<exists>len. tpkt_read_header \<lparr>s_buffer = [3, 0, 0, 7], s_pos = 0, s_length = 1, s_capacity = 4, s_count = 0, s_pool = 0\<rparr> =
      Some (len, s_adv 4 \<lparr>s_buffer = [3, 0, 0, 7], s_pos = 0, s_length = 1, s_capacity = 4, s_count = 0, s_pool = 0\<rparr>)
    \<and> s_length \<lparr>s_buffer = [3, 0, 0, 7], s_pos = 0, s_length = 1, s_capacity = 4, s_count = 0, s_pool = 0\<rparr>
      < s_pos (s_adv 4 \<lparr>s_buffer = [3, 0, 0, 7], s_pos = 0, s_length = 1, s_capacity = 4, s_count = 0, s_pool = 0\<rparr>)
    \<and> INT_MAX < Stream_GetRemainingLength (s_adv 4
        \<lparr>s_buffer = [3, 0, 0, 7], s_pos = 0, s_length = 1, s_capacity = 4, s_count = 0, s_pool = 0\<rparr>)"
  by (rule tpkt_read_header_overrun [where bs = "[]"]) (simp_all add: s_ok_def s_rest_def)

end
