(* ===== verification/WMcs.thy ===== *)
theory WMcs
  imports WPer WBer WTpdu
begin

text \<open>
  The multipoint communication service of \<open>libfreerdp/core/mcs.c\<close>: domain parameters, the PDUs that
  erect a domain, attach a user and join channels, and the module itself. The streams handed to
  \<open>transport_write\<close> are the trace \<open>mcs_sent\<close>; the status it returns is an argument of the sender, as
  is the outcome of the allocation of the stream, whose failure the code does not check.
\<close>

section \<open>State\<close>

abbreviation MCS_BASE_CHANNEL_ID :: int where "MCS_BASE_CHANNEL_ID \<equiv> 1001"
abbreviation MCS_GLOBAL_CHANNEL_ID :: int where "MCS_GLOBAL_CHANNEL_ID \<equiv> 1003"
abbreviation CHANNEL_MAX_COUNT :: nat where "CHANNEL_MAX_COUNT \<equiv> 30"
abbreviation MCS_Result_enum_length :: int where "MCS_Result_enum_length \<equiv> 16"
abbreviation DomainMCSPDU_ErectDomainRequest :: int where "DomainMCSPDU_ErectDomainRequest \<equiv> 1"
abbreviation DomainMCSPDU_DisconnectProviderUltimatum :: int where "DomainMCSPDU_DisconnectProviderUltimatum \<equiv> 8"
abbreviation DomainMCSPDU_AttachUserRequest :: int where "DomainMCSPDU_AttachUserRequest \<equiv> 10"
abbreviation DomainMCSPDU_AttachUserConfirm :: int where "DomainMCSPDU_AttachUserConfirm \<equiv> 11"
abbreviation DomainMCSPDU_ChannelJoinRequest :: int where "DomainMCSPDU_ChannelJoinRequest \<equiv> 14"
abbreviation DomainMCSPDU_ChannelJoinConfirm :: int where "DomainMCSPDU_ChannelJoinConfirm \<equiv> 15"

record DomainParameters =
  maxChannelIds :: int
  maxUserIds :: int
  maxTokenIds :: int
  numPriorities :: int
  minThroughput :: int
  maxHeight :: int
  maxMCSPDUsize :: int
  protocolVersion :: int

record rdpMcsChannel =
  ch_Name :: "byte list"
  ch_options :: int
  ch_ChannelId :: int
  ch_joined :: bool
  ch_handle :: ptr

record rdpMcs =
  mcs_userId :: int
  mcs_baseChannelId :: int
  mcs_messageChannelId :: int
  mcs_domainParameters :: DomainParameters
  mcs_targetParameters :: DomainParameters
  mcs_minimumParameters :: DomainParameters
  mcs_maximumParameters :: DomainParameters
  mcs_userChannelJoined :: bool
  mcs_globalChannelJoined :: bool
  mcs_messageChannelJoined :: bool
  mcs_channelCount :: int
  mcs_channelMaxCount :: int
  mcs_channels :: "rdpMcsChannel list"
  mcs_sent :: "wStream list"

definition mcs_transport_write :: "wStream \<Rightarrow> rdpMcs \<Rightarrow> rdpMcs" where
  "mcs_transport_write s mcs = mcs\<lparr>mcs_sent := mcs_sent mcs @ [s]\<rparr>"

section \<open>The module\<close>

definition mcs_zero_channel :: rdpMcsChannel where
  "mcs_zero_channel = \<lparr>ch_Name = replicate 8 0, ch_options = 0, ch_ChannelId = 0, ch_joined = False, ch_handle = NULL\<rparr>"

text \<open>The channel definitions of the settings are pairs of a name and options.\<close>

definition mcs_initialize_client_channels ::
    "rdpMcs \<Rightarrow> int \<Rightarrow> (byte list \<times> int) list \<Rightarrow> (int \<times> rdpMcs) option" where
  "mcs_initialize_client_channels mcs channelCount channelDefArray = do {
     let cnt = (if mcs_channelMaxCount mcs < channelCount then mcs_channelMaxCount mcs else channelCount);
     chans \<leftarrow> afill (mcs_channels mcs) 0 (mcs_channelMaxCount mcs) mcs_zero_channel;
     chans \<leftarrow> foldM (\<lambda>index chans. do {
       (name, options) \<leftarrow> aget channelDefArray index;
       name \<leftarrow> ablock name 0 8;
       ch \<leftarrow> aget chans index;
       aset chans index (ch\<lparr>ch_Name := name, ch_options := options\<rparr>) }) [0..cnt - 1] chans;
     Some (0, mcs\<lparr>mcs_channelCount := cnt, mcs_channels := chans\<rparr>) }"

definition mcs_init_domain_parameters :: "int \<Rightarrow> int \<Rightarrow> int \<Rightarrow> int \<Rightarrow> DomainParameters" where
  "mcs_init_domain_parameters channelIds userIds tokenIds pduSize =
     \<lparr>maxChannelIds = channelIds, maxUserIds = userIds, maxTokenIds = tokenIds, numPriorities = 1,
      minThroughput = 0, maxHeight = 1, maxMCSPDUsize = pduSize, protocolVersion = 2\<rparr>"

definition mcs_new :: "bool \<Rightarrow> bool \<Rightarrow> rdpMcs option" where
  "mcs_new mem memc =
     (if \<not> mem then None
      else if \<not> memc then None
      else Some \<lparr>mcs_userId = 0, mcs_baseChannelId = MCS_GLOBAL_CHANNEL_ID + 1, mcs_messageChannelId = 0,
        mcs_domainParameters = mcs_init_domain_parameters 0 0 0 0xFFFF,
        mcs_targetParameters = mcs_init_domain_parameters 34 2 0 0xFFFF,
        mcs_minimumParameters = mcs_init_domain_parameters 1 1 1 0x420,
        mcs_maximumParameters = mcs_init_domain_parameters 0xFFFF 0xFC17 0xFFFF 0xFFFF,
        mcs_userChannelJoined = False, mcs_globalChannelJoined = False, mcs_messageChannelJoined = False,
        mcs_channelCount = 0, mcs_channelMaxCount = int CHANNEL_MAX_COUNT,
        mcs_channels = replicate CHANNEL_MAX_COUNT mcs_zero_channel, mcs_sent = []\<rparr>)"

section \<open>Headers\<close>

text \<open>The expected PDU type is the value the caller stores in the parameter; the length is returned.\<close>

definition mcs_read_domain_mcspdu_header :: "wStream \<Rightarrow> int \<Rightarrow> (int option \<times> wStream) option" where
  "mcs_read_domain_mcspdu_header s domainMCSPDU = do {
     (len, s) \<leftarrow> tpkt_read_header s;
     rbind (tpdu_read_data s) (\<lambda>li s.
     rbind (per_read_choice s) (\<lambda>choice s.
     if drop_bit 2 choice \<noteq> domainMCSPDU then Some (None, s) else Some (Some len, s))) }"

definition mcs_write_domain_mcspdu_header :: "wStream \<Rightarrow> int \<Rightarrow> int \<Rightarrow> int \<Rightarrow> wStream option" where
  "mcs_write_domain_mcspdu_header s domainMCSPDU len options = do {
     s \<leftarrow> tpkt_write_header s len;
     s \<leftarrow> tpdu_write_data s;
     per_write_choice s (u8 (push_bit 2 domainMCSPDU OR options)) }"

section \<open>Domain parameters\<close>

definition mcs_read_domain_parameters :: "wStream \<Rightarrow> (DomainParameters option \<times> wStream) option" where
  "mcs_read_domain_parameters s =
     rbind (ber_read_sequence_tag s) (\<lambda>len s.
     rbind (ber_read_integer s True) (\<lambda>a s.
     rbind (ber_read_integer s True) (\<lambda>b s.
     rbind (ber_read_integer s True) (\<lambda>c s.
     rbind (ber_read_integer s True) (\<lambda>d s.
     rbind (ber_read_integer s True) (\<lambda>e s.
     rbind (ber_read_integer s True) (\<lambda>f s.
     rbind (ber_read_integer s True) (\<lambda>g s.
     rbind (ber_read_integer s True) (\<lambda>h s.
     Some (Some \<lparr>maxChannelIds = a, maxUserIds = b, maxTokenIds = c, numPriorities = d, minThroughput = e,
       maxHeight = f, maxMCSPDUsize = g, protocolVersion = h\<rparr>, s))))))))))"

definition mcs_write_domain_parameters ::
    "bool \<Rightarrow> byte fresh \<Rightarrow> wStream \<Rightarrow> DomainParameters \<Rightarrow> wStream option" where
  "mcs_write_domain_parameters mem memb s p = do {
     tmps \<leftarrow> Stream_New mem memb None (s_capacity s);
     (_, tmps) \<leftarrow> ber_write_integer tmps (maxChannelIds p);
     (_, tmps) \<leftarrow> ber_write_integer tmps (maxUserIds p);
     (_, tmps) \<leftarrow> ber_write_integer tmps (maxTokenIds p);
     (_, tmps) \<leftarrow> ber_write_integer tmps (numPriorities p);
     (_, tmps) \<leftarrow> ber_write_integer tmps (minThroughput p);
     (_, tmps) \<leftarrow> ber_write_integer tmps (maxHeight p);
     (_, tmps) \<leftarrow> ber_write_integer tmps (maxMCSPDUsize p);
     (_, tmps) \<leftarrow> ber_write_integer tmps (protocolVersion p);
     let len = as_int (s_pos tmps);
     (_, s) \<leftarrow> ber_write_sequence_tag s len;
     bs \<leftarrow> ablock (s_buffer tmps) 0 len;
     Stream_Write s bs }"

definition mcs_merge_domain_parameters ::
    "DomainParameters \<Rightarrow> DomainParameters \<Rightarrow> DomainParameters \<Rightarrow> DomainParameters option" where
  "mcs_merge_domain_parameters target mini maxi = do {
     channelIds \<leftarrow> (if maxChannelIds target \<ge> 4 then Some (maxChannelIds target)
       else if maxChannelIds maxi \<ge> 4 then Some 4 else None);
     userIds \<leftarrow> (if maxUserIds target \<ge> 3 then Some (maxUserIds target)
       else if maxUserIds maxi \<ge> 3 then Some 3 else None);
     priorities \<leftarrow> (if numPriorities mini \<le> 1 then Some 1 else None);
     height \<leftarrow> (if maxHeight target = 1 \<or> maxHeight mini \<le> 1 then Some 1 else None);
     pduSize \<leftarrow> (if maxMCSPDUsize target \<ge> 1024 then
         (if maxMCSPDUsize target \<le> 65528 then Some (maxMCSPDUsize target)
          else if maxMCSPDUsize mini \<ge> 124 \<and> maxMCSPDUsize mini \<le> 65528 then Some 65528 else None)
       else (if maxMCSPDUsize maxi \<ge> 124 then Some (maxMCSPDUsize maxi) else None));
     version \<leftarrow> (if protocolVersion target = 2 \<or> (protocolVersion mini \<le> 2 \<and> protocolVersion maxi \<ge> 2)
       then Some 2 else None);
     Some \<lparr>maxChannelIds = channelIds, maxUserIds = userIds, maxTokenIds = maxTokenIds target,
       numPriorities = priorities, minThroughput = minThroughput target, maxHeight = height,
       maxMCSPDUsize = pduSize, protocolVersion = version\<rparr> }"

section \<open>Connecting\<close>

text \<open>
  The user data is the part of its stream before the pointer. \<open>mems\<close> are the outcomes of the
  allocation of the temporary stream and of the three ones of the domain parameters.
\<close>

definition mcs_write_connect_initial ::
    "bool \<Rightarrow> byte fresh \<Rightarrow> wStream \<Rightarrow> rdpMcs \<Rightarrow> wStream \<Rightarrow> wStream option" where
  "mcs_write_connect_initial mem memb s mcs userData = do {
     tmps \<leftarrow> Stream_New mem memb None (s_capacity s);
     (_, tmps) \<leftarrow> ber_write_octet_string tmps [1] 1;
     (_, tmps) \<leftarrow> ber_write_octet_string tmps [1] 1;
     tmps \<leftarrow> ber_write_BOOL tmps 1;
     tmps \<leftarrow> mcs_write_domain_parameters mem memb tmps (mcs_targetParameters mcs);
     tmps \<leftarrow> mcs_write_domain_parameters mem memb tmps (mcs_minimumParameters mcs);
     tmps \<leftarrow> mcs_write_domain_parameters mem memb tmps (mcs_maximumParameters mcs);
     (_, tmps) \<leftarrow> ber_write_octet_string tmps (s_buffer userData) (as_int (s_pos userData));
     let len = as_int (s_pos tmps);
     s \<leftarrow> ber_write_application_tag s 0x65 len;
     bs \<leftarrow> ablock (s_buffer tmps) 0 len;
     Stream_Write s bs }"

definition mcs_write_connect_response ::
    "bool \<Rightarrow> byte fresh \<Rightarrow> wStream \<Rightarrow> rdpMcs \<Rightarrow> wStream \<Rightarrow> wStream option" where
  "mcs_write_connect_response mem memb s mcs userData = do {
     tmps \<leftarrow> Stream_New mem memb None (s_capacity s);
     tmps \<leftarrow> ber_write_enumerated tmps 0 MCS_Result_enum_length;
     (_, tmps) \<leftarrow> ber_write_integer tmps 0;
     tmps \<leftarrow> mcs_write_domain_parameters mem memb tmps (mcs_domainParameters mcs);
     (_, tmps) \<leftarrow> ber_write_octet_string tmps (s_buffer userData) (as_int (s_pos userData));
     let len = as_int (s_pos tmps);
     s \<leftarrow> ber_write_application_tag s 0x66 len;
     bs \<leftarrow> ablock (s_buffer tmps) 0 len;
     Stream_Write s bs }"

section \<open>PDUs\<close>

definition mcs_recv_erect_domain_request :: "rdpMcs \<Rightarrow> wStream \<Rightarrow> (unit option \<times> wStream) option" where
  "mcs_recv_erect_domain_request mcs s =
     rbind (mcs_read_domain_mcspdu_header s DomainMCSPDU_ErectDomainRequest) (\<lambda>len s.
     rbind (per_read_integer s) (\<lambda>subHeight s.
     rbind (per_read_integer s) (\<lambda>subInterval s. Some (Some (), s))))"

definition mcs_send_erect_domain_request ::
    "bool \<Rightarrow> byte fresh \<Rightarrow> int \<Rightarrow> rdpMcs \<Rightarrow> (bool \<times> rdpMcs) option" where
  "mcs_send_erect_domain_request mem memb status mcs = do {
     s \<leftarrow> Stream_New mem memb None 12;
     s \<leftarrow> mcs_write_domain_mcspdu_header s DomainMCSPDU_ErectDomainRequest 12 0;
     s \<leftarrow> per_write_integer s 0;
     s \<leftarrow> per_write_integer s 0;
     let s = Stream_SealLength s;
     Some (\<not> status < 0, mcs_transport_write s mcs) }"

definition mcs_recv_attach_user_request :: "rdpMcs \<Rightarrow> wStream \<Rightarrow> (unit option \<times> wStream) option" where
  "mcs_recv_attach_user_request mcs s =
     rbind (mcs_read_domain_mcspdu_header s DomainMCSPDU_AttachUserRequest) (\<lambda>len s. Some (Some (), s))"

definition mcs_send_attach_user_request ::
    "bool \<Rightarrow> byte fresh \<Rightarrow> int \<Rightarrow> rdpMcs \<Rightarrow> (bool \<times> rdpMcs) option" where
  "mcs_send_attach_user_request mem memb status mcs = do {
     s \<leftarrow> Stream_New mem memb None 8;
     s \<leftarrow> mcs_write_domain_mcspdu_header s DomainMCSPDU_AttachUserRequest 8 0;
     let s = Stream_SealLength s;
     Some (\<not> status < 0, mcs_transport_write s mcs) }"

definition mcs_recv_attach_user_confirm :: "rdpMcs \<Rightarrow> wStream \<Rightarrow> (rdpMcs option \<times> wStream) option" where
  "mcs_recv_attach_user_confirm mcs s =
     rbind (mcs_read_domain_mcspdu_header s DomainMCSPDU_AttachUserConfirm) (\<lambda>len s.
     rbind (per_read_enumerated s MCS_Result_enum_length) (\<lambda>result s.
     rbind (per_read_integer16 s MCS_BASE_CHANNEL_ID) (\<lambda>userId s.
     Some (Some (mcs\<lparr>mcs_userId := userId\<rparr>), s))))"

definition mcs_send_attach_user_confirm ::
    "bool \<Rightarrow> byte fresh \<Rightarrow> int \<Rightarrow> rdpMcs \<Rightarrow> (bool \<times> rdpMcs) option" where
  "mcs_send_attach_user_confirm mem memb status mcs = do {
     s \<leftarrow> Stream_New mem memb None 11;
     let mcs = mcs\<lparr>mcs_userId := mcs_baseChannelId mcs, mcs_baseChannelId := u16 (mcs_baseChannelId mcs + 1)\<rparr>;
     s \<leftarrow> mcs_write_domain_mcspdu_header s DomainMCSPDU_AttachUserConfirm 11 2;
     s \<leftarrow> per_write_enumerated s 0 MCS_Result_enum_length;
     s \<leftarrow> per_write_integer16 s (mcs_userId mcs) MCS_BASE_CHANNEL_ID;
     let s = Stream_SealLength s;
     Some (\<not> status < 0, mcs_transport_write s mcs) }"

definition mcs_recv_channel_join_request :: "rdpMcs \<Rightarrow> wStream \<Rightarrow> (int option \<times> wStream) option" where
  "mcs_recv_channel_join_request mcs s =
     rbind (mcs_read_domain_mcspdu_header s DomainMCSPDU_ChannelJoinRequest) (\<lambda>len s.
     rbind (per_read_integer16 s MCS_BASE_CHANNEL_ID) (\<lambda>userId s.
     if userId \<noteq> mcs_userId mcs then Some (None, s) else per_read_integer16 s 0))"

definition mcs_send_channel_join_request ::
    "bool \<Rightarrow> byte fresh \<Rightarrow> int \<Rightarrow> rdpMcs \<Rightarrow> int \<Rightarrow> (bool \<times> rdpMcs) option" where
  "mcs_send_channel_join_request mem memb status mcs channelId = do {
     s \<leftarrow> Stream_New mem memb None 12;
     s \<leftarrow> mcs_write_domain_mcspdu_header s DomainMCSPDU_ChannelJoinRequest 12 0;
     s \<leftarrow> per_write_integer16 s (mcs_userId mcs) MCS_BASE_CHANNEL_ID;
     s \<leftarrow> per_write_integer16 s channelId 0;
     let s = Stream_SealLength s;
     Some (\<not> status < 0, mcs_transport_write s mcs) }"

text \<open>The confirm reads on after a failure and combines the results with \<open>&=\<close>.\<close>

definition mcs_recv_channel_join_confirm :: "rdpMcs \<Rightarrow> wStream \<Rightarrow> (int option \<times> wStream) option" where
  "mcs_recv_channel_join_confirm mcs s = do {
     (hdr, s) \<leftarrow> mcs_read_domain_mcspdu_header s DomainMCSPDU_ChannelJoinConfirm;
     (result, s) \<leftarrow> per_read_enumerated s MCS_Result_enum_length;
     (initiator, s) \<leftarrow> per_read_integer16 s MCS_BASE_CHANNEL_ID;
     (requested, s) \<leftarrow> per_read_integer16 s 0;
     (channelId, s) \<leftarrow> per_read_integer16 s 0;
     Some (if hdr \<noteq> None \<and> result \<noteq> None \<and> initiator \<noteq> None \<and> requested \<noteq> None then channelId else None, s) }"

definition mcs_send_channel_join_confirm ::
    "bool \<Rightarrow> byte fresh \<Rightarrow> int \<Rightarrow> rdpMcs \<Rightarrow> int \<Rightarrow> (bool \<times> rdpMcs) option" where
  "mcs_send_channel_join_confirm mem memb status mcs channelId = do {
     s \<leftarrow> Stream_New mem memb None 15;
     s \<leftarrow> mcs_write_domain_mcspdu_header s DomainMCSPDU_ChannelJoinConfirm 15 2;
     s \<leftarrow> per_write_enumerated s 0 MCS_Result_enum_length;
     s \<leftarrow> per_write_integer16 s (mcs_userId mcs) MCS_BASE_CHANNEL_ID;
     s \<leftarrow> per_write_integer16 s channelId 0;
     s \<leftarrow> per_write_integer16 s channelId 0;
     let s = Stream_SealLength s;
     Some (\<not> status < 0, mcs_transport_write s mcs) }"

definition mcs_recv_disconnect_provider_ultimatum :: "rdpMcs \<Rightarrow> wStream \<Rightarrow> (int option \<times> wStream) option" where
  "mcs_recv_disconnect_provider_ultimatum mcs s =
     (if Stream_GetRemainingLength s < 1 then Some (None, s)
      else do {
        s \<leftarrow> Stream_Rewind s 1;
        (b1, s) \<leftarrow> Stream_Read_UINT8 s;
        (b2, s) \<leftarrow> Stream_Read_UINT8 s;
        Some (Some (push_bit 1 (b1 AND 0x01) OR drop_bit 7 b2), s) })"

definition mcs_send_disconnect_provider_ultimatum ::
    "bool \<Rightarrow> byte fresh \<Rightarrow> int \<Rightarrow> rdpMcs \<Rightarrow> (bool \<times> rdpMcs) option" where
  "mcs_send_disconnect_provider_ultimatum mem memb status mcs = do {
     s \<leftarrow> Stream_New mem memb None 9;
     s \<leftarrow> mcs_write_domain_mcspdu_header s DomainMCSPDU_DisconnectProviderUltimatum 9 1;
     s \<leftarrow> per_write_enumerated s 0x80 0;
     Some (\<not> status < 0, mcs_transport_write s mcs) }"

section \<open>Encodings of PDUs\<close>

lemma Stream_New_write:
  assumes "length bs = n" and "int n \<le> INT_MAX"
  shows "\<exists>s. (do { s \<leftarrow> Stream_New True (Some j) None (int n); Stream_Write s bs }) = Some s
    \<and> Stream_SealLength s = s \<and> s_ok (s\<lparr>s_pos := 0\<rparr>) \<and> s_rest (s\<lparr>s_pos := 0\<rparr>) = bs
    \<and> s_adv n (s\<lparr>s_pos := 0\<rparr>) = s \<and> s_length s = int n"
proof -
  define s0 where "s0 = \<lparr>s_buffer = map j [0..<n], s_pos = 0, s_length = int n, s_capacity = int n, s_count = 0, s_pool = NULL\<rparr>"
  have new: "Stream_New True (Some j) None (int n) = Some s0" by (simp add: Stream_New_def s0_def)
  have ok: "s_ok s0" "length (s_rest s0) = n" using assms(2) by (simp_all add: s0_def s_ok_def s_rest_def)
  from Stream_Write_reread [OF ok(1), of bs] ok(2) assms(1) obtain s where w: "Stream_Write s0 bs = Some s" "s_ok s"
    "s_rest s = drop (length bs) (s_rest s0)" "s_ok (s\<lparr>s_pos := s_pos s0\<rparr>)"
    "s_rest (s\<lparr>s_pos := s_pos s0\<rparr>) = bs @ s_rest s" "s_adv (length bs) (s\<lparr>s_pos := s_pos s0\<rparr>) = s" "s_length s = s_length s0" by auto
  have "s_pos s = int n" using arg_cong [OF w(6), of s_pos] assms(1) by (simp add: s_adv_def s0_def)
  then have "Stream_SealLength s = s" using w(7) assms(2)
    by (simp add: Stream_SealLength_def csize_nonneg s0_def)
  then show ?thesis using new w ok(2) assms(1) by (intro exI [of _ s]) (simp add: s0_def)
qed

definition mcspdu_header :: "int \<Rightarrow> int \<Rightarrow> int \<Rightarrow> byte list" where
  "mcspdu_header pdu len options = tpkt_bytes len @ tpdu_bytes 2 0xF0 @ [word_of_int (push_bit 2 pdu OR options)]"

lemma mcspdu_header_length [simp]: "length (mcspdu_header pdu len options) = 8"
  by (simp add: mcspdu_header_def)

lemma word_of_u8: "word_of_int (u8 x) = (word_of_int x :: byte)"
proof -
  have "u8 x = take_bit 8 x" by (simp add: u8_def take_bit_eq_mod)
  then show ?thesis by (auto simp: bit_simps intro!: bit_word_eqI)
qed

lemma mcs_write_domain_mcspdu_header_emits [emits]:
  "mcs_write_domain_mcspdu_header s pdu len options = Stream_Write s (mcspdu_header pdu len options)"
  by (simp add: mcs_write_domain_mcspdu_header_def mcspdu_header_def emits write_merge per_write_choice_def word_of_u8)

lemma per_read_choice_parses: "parses per_read_choice [b] (uint b)"
  by (intro parsesI) (simp add: per_read_choice_def Stream_Read_UINT8_rest)

lemma mcs_read_domain_mcspdu_header_parses:
  assumes len: "0 \<le> len" "len \<le> 0xFFFF" and pdu: "drop_bit 2 (uint (word_of_int (push_bit 2 pdu OR options) :: byte)) = pdu"
  shows "parses (\<lambda>s. mcs_read_domain_mcspdu_header s pdu) (mcspdu_header pdu len options) len"
proof (rule parsesI)
  fix s rest
  let ?b = "word_of_int (push_bit 2 pdu OR options) :: byte"
  let ?f = "\<lambda>s. rbind (tpdu_read_data s) (\<lambda>li s. rbind (per_read_choice s) (\<lambda>choice s.
     if drop_bit 2 choice \<noteq> pdu then Some (None, s) else Some (Some len, s)))"
  assume s: "s_ok s" "s_rest s = mcspdu_header pdu len options @ rest"
  then have r: "s_rest s = tpkt_bytes len @ (tpdu_bytes 2 0xF0 @ [?b]) @ rest" by (simp add: mcspdu_header_def)
  have ok: "s_ok (s_adv 4 s)" "s_rest (s_adv 4 s) = (tpdu_bytes 2 0xF0 @ [?b]) @ rest" using s(1) r by simp_all
  have "parses (\<lambda>s. rbind (per_read_choice s) (\<lambda>choice s.
     if drop_bit 2 choice \<noteq> pdu then Some (None, s) else Some (Some len, s))) ([?b] @ []) len"
    by (rule parses_rbind [OF per_read_choice_parses]) (simp add: pdu parses_ret)
  then have "parses ?f (tpdu_bytes 2 0xF0 @ [?b]) len"
    using parses_rbind [OF tpdu_read_data_parses, of "\<lambda>li s. rbind (per_read_choice s) (\<lambda>choice s.
     if drop_bit 2 choice \<noteq> pdu then Some (None, s) else Some (Some len, s))"] by simp
  from parsesD [OF this ok] have "?f (s_adv 4 s) = Some (Some len, s_adv 8 s)" by simp
  then show "mcs_read_domain_mcspdu_header s pdu = Some (Some len, s_adv (length (mcspdu_header pdu len options)) s)"
    using tpkt_read_header_rest [OF s(1) r len] by (simp add: mcs_read_domain_mcspdu_header_def)
qed

lemma send_recv:
  assumes "length bs = n" and "int n \<le> INT_MAX" and "parses rd bs v"
  shows "\<exists>s0 s. Stream_New True (Some j) None (int n) = Some s0 \<and> Stream_Write s0 bs = Some s
    \<and> Stream_SealLength s = s \<and> s_length s = int n \<and> rd (s\<lparr>s_pos := 0\<rparr>) = Some (Some v, s)"
proof -
  from Stream_New_write [OF assms(1,2), of j] obtain s where
    s: "(do { s \<leftarrow> Stream_New True (Some j) None (int n); Stream_Write s bs }) = Some s"
    "Stream_SealLength s = s" "s_ok (s\<lparr>s_pos := 0\<rparr>)" "s_rest (s\<lparr>s_pos := 0\<rparr>) = bs"
    "s_adv n (s\<lparr>s_pos := 0\<rparr>) = s" "s_length s = int n" by blast
  then have "rd (s\<lparr>s_pos := 0\<rparr>) = Some (Some v, s)"
    using parsesD [OF assms(3) s(3), of "[]"] assms(1) by simp
  with s show ?thesis by (cases "Stream_New True (Some j) None (int n)") auto
qed

lemma header_type:
  "drop_bit 2 (uint (word_of_int (push_bit 2 1 OR 0) :: byte)) = 1"
  "drop_bit 2 (uint (word_of_int (push_bit 2 10 OR 0) :: byte)) = 10"
  "drop_bit 2 (uint (word_of_int (push_bit 2 11 OR 2) :: byte)) = 11"
  "drop_bit 2 (uint (word_of_int (push_bit 2 14 OR 0) :: byte)) = 14"
  "drop_bit 2 (uint (word_of_int (push_bit 2 15 OR 2) :: byte)) = 15"
  "drop_bit 2 (uint (word_of_int (push_bit 2 8 OR 1) :: byte)) = 8"
  by (simp_all add: uint_word_of_int)

lemmas header_parses = mcs_read_domain_mcspdu_header_parses [OF _ _ header_type(1)]
  mcs_read_domain_mcspdu_header_parses [OF _ _ header_type(2)] mcs_read_domain_mcspdu_header_parses [OF _ _ header_type(3)]
  mcs_read_domain_mcspdu_header_parses [OF _ _ header_type(4)] mcs_read_domain_mcspdu_header_parses [OF _ _ header_type(5)]

lemma per_read_enumerated_parses: "0 \<le> v \<Longrightarrow> v < cnt \<Longrightarrow> v \<le> 255 \<Longrightarrow> parses (\<lambda>s. per_read_enumerated s cnt) [word_of_int v] v"
  by (intro parsesI) (simp add: per_read_enumerated_def read_byte)

lemma parses_last: "parses rd bs v \<Longrightarrow> parses (\<lambda>s. rbind (rd s) (\<lambda>x s. Some (Some (g x), s))) bs (g v)"
  using parses_rbind [of rd bs v "\<lambda>x s. Some (Some (g x), s)" "[]" "g v"] by (simp add: parses_ret)

lemma mcs_recv_erect_parses:
  "parses (mcs_recv_erect_domain_request mcs) (mcspdu_header 1 12 0 @ per_int 0 @ per_int 0) ()"
  unfolding mcs_recv_erect_domain_request_def [abs_def]
  by (rule parses_rbind [OF header_parses(1)], simp, simp, rule parses_rbind [OF per_read_integer_parses], simp, simp,
      rule parses_last [OF per_read_integer_parses, of 0 "\<lambda>_. ()"], simp_all)

lemma mcs_recv_attach_user_request_parses:
  "parses (mcs_recv_attach_user_request mcs) (mcspdu_header 10 8 0) ()"
  unfolding mcs_recv_attach_user_request_def [abs_def]
  by (rule parses_last [OF header_parses(2), of 8 "\<lambda>_. ()"]) simp_all

lemma mcs_recv_attach_user_confirm_parses:
  assumes "1001 \<le> uid" and "uid \<le> 0xFFFF"
  shows "parses (mcs_recv_attach_user_confirm mcs) (mcspdu_header 11 11 2 @ [0] @ be16 (uid - 1001)) (mcs\<lparr>mcs_userId := uid\<rparr>)"
  unfolding mcs_recv_attach_user_confirm_def [abs_def]
  using assms per_read_enumerated_parses [of 0 16]
  by (intro parses_rbind [OF header_parses(3)] parses_rbind [where v = "0 :: int" and bs = "[0 :: byte]"]
      parses_last [where g = "\<lambda>u. mcs\<lparr>mcs_userId := u\<rparr>"] per_integer16.rd_enc) simp_all

lemma mcs_recv_channel_join_request_parses:
  assumes "1001 \<le> mcs_userId mcs" and "mcs_userId mcs \<le> 0xFFFF" and "0 \<le> ch" and "ch \<le> 0xFFFF"
  shows "parses (mcs_recv_channel_join_request mcs) (mcspdu_header 14 12 0 @ be16 (mcs_userId mcs - 1001) @ be16 ch) ch"
proof -
  have "parses (\<lambda>s. per_read_integer16 s 0) (be16 ch) ch" using per_integer16.rd_enc [of 0 ch] assms(3,4) by simp
  moreover have "parses (\<lambda>s. per_read_integer16 s 1001) (be16 (mcs_userId mcs - 1001)) (mcs_userId mcs)"
    using per_integer16.rd_enc [of 1001 "mcs_userId mcs"] assms(1,2) by simp
  ultimately show ?thesis unfolding mcs_recv_channel_join_request_def [abs_def]
    by (intro parses_rbind [OF header_parses(4)] parses_rbind [where v = "mcs_userId mcs"]) simp_all
qed

lemma parses_step:
  assumes "parses rd as x" and "parses (\<lambda>s. f (Some x) s) bs w"
  shows "parses (\<lambda>s. do { (r, s) \<leftarrow> rd s; f r s }) (as @ bs) w"
proof (rule parsesI)
  fix s rest
  assume s: "s_ok s" "s_rest s = (as @ bs) @ rest"
  then have "rd s = Some (Some x, s_adv (length as) s)" using parsesD [OF assms(1) s(1), of "bs @ rest"] by simp
  moreover have "f (Some x) (s_adv (length as) s) = Some (Some w, s_adv (length bs) (s_adv (length as) s))"
    using s by (intro parsesD [OF assms(2), of _ rest]) simp_all
  ultimately show "(do { (r, s) \<leftarrow> rd s; f r s }) = Some (Some w, s_adv (length (as @ bs)) s)" by simp
qed

lemma parses_map: "parses rd bs v \<Longrightarrow> parses (\<lambda>s. do { (r, s) \<leftarrow> rd s; Some (g r, s) }) bs v" if "g (Some v) = Some v" for g
  using parses_step [of rd bs v "\<lambda>r s. Some (g r, s)" "[]" v] that by (simp add: parses_ret)

lemma mcs_recv_channel_join_confirm_parses:
  assumes "1001 \<le> uid" and "uid \<le> 0xFFFF" and "0 \<le> ch" and "ch \<le> 0xFFFF"
  shows "parses (mcs_recv_channel_join_confirm mcs)
    (mcspdu_header 15 15 2 @ [0] @ be16 (uid - 1001) @ be16 ch @ be16 ch) ch"
proof -
  have e: "parses (\<lambda>s. per_read_enumerated s 16) [0] 0" using per_read_enumerated_parses [of 0 16] by simp
  have u: "parses (\<lambda>s. per_read_integer16 s 1001) (be16 (uid - 1001)) uid"
    using per_integer16.rd_enc [of 1001 uid] assms(1,2) by simp
  have c: "parses (\<lambda>s. per_read_integer16 s 0) (be16 ch) ch" using per_integer16.rd_enc [of 0 ch] assms(3,4) by simp
  show ?thesis unfolding mcs_recv_channel_join_confirm_def [abs_def]
    by (rule parses_step [OF header_parses(5)], simp, simp, rule parses_step [OF e], rule parses_step [OF u],
        rule parses_step [OF c], rule parses_map [OF _ c]) simp
qed

text \<open>
  C34. Every PDU of the channel connection sequence is sent in one stream that is exactly as long as its
  TPKT header says, and the peer's receiver accepts it, returns the values that were sent and consumes
  the whole stream: erect domain, attach user request and confirm, channel join request and confirm.
\<close>

theorem mcs_pdus_roundtrip:
  assumes user: "1001 \<le> mcs_userId mcs" "mcs_userId mcs \<le> 0xFFFF" and base: "1001 \<le> mcs_baseChannelId mcs" "mcs_baseChannelId mcs \<le> 0xFFFF"
    and ch: "0 \<le> ch" "ch \<le> 0xFFFF" and peer: "mcs_userId peer = mcs_userId mcs"
  shows "(\<exists>s. mcs_send_erect_domain_request True (Some j) st mcs = Some (0 \<le> st, mcs\<lparr>mcs_sent := mcs_sent mcs @ [s]\<rparr>)
      \<and> s_length s = 12 \<and> mcs_recv_erect_domain_request peer (s\<lparr>s_pos := 0\<rparr>) = Some (Some (), s))
    \<and> (\<exists>s. mcs_send_attach_user_request True (Some j) st mcs = Some (0 \<le> st, mcs\<lparr>mcs_sent := mcs_sent mcs @ [s]\<rparr>)
      \<and> s_length s = 8 \<and> mcs_recv_attach_user_request peer (s\<lparr>s_pos := 0\<rparr>) = Some (Some (), s))
    \<and> (\<exists>s. mcs_send_attach_user_confirm True (Some j) st mcs = Some (0 \<le> st,
          mcs\<lparr>mcs_userId := mcs_baseChannelId mcs, mcs_baseChannelId := u16 (mcs_baseChannelId mcs + 1), mcs_sent := mcs_sent mcs @ [s]\<rparr>)
      \<and> s_length s = 11
      \<and> mcs_recv_attach_user_confirm peer (s\<lparr>s_pos := 0\<rparr>) = Some (Some (peer\<lparr>mcs_userId := mcs_baseChannelId mcs\<rparr>), s))
    \<and> (\<exists>s. mcs_send_channel_join_request True (Some j) st mcs ch = Some (0 \<le> st, mcs\<lparr>mcs_sent := mcs_sent mcs @ [s]\<rparr>)
      \<and> s_length s = 12 \<and> mcs_recv_channel_join_request peer (s\<lparr>s_pos := 0\<rparr>) = Some (Some ch, s))
    \<and> (\<exists>s. mcs_send_channel_join_confirm True (Some j) st mcs ch = Some (0 \<le> st, mcs\<lparr>mcs_sent := mcs_sent mcs @ [s]\<rparr>)
      \<and> s_length s = 15 \<and> mcs_recv_channel_join_confirm peer (s\<lparr>s_pos := 0\<rparr>) = Some (Some ch, s))"
proof (intro conjI)
  note sim = emits write_merge mcs_transport_write_def per_write_integer_emits per_write_integer16_def per_write_enumerated_def
  show "\<exists>s. mcs_send_erect_domain_request True (Some j) st mcs = Some (0 \<le> st, mcs\<lparr>mcs_sent := mcs_sent mcs @ [s]\<rparr>)
      \<and> s_length s = 12 \<and> mcs_recv_erect_domain_request peer (s\<lparr>s_pos := 0\<rparr>) = Some (Some (), s)"
    using send_recv [OF _ _ mcs_recv_erect_parses [of peer], of 12 j]
    by (auto simp: mcs_send_erect_domain_request_def sim per_int_def per_len_def not_less)
  show "\<exists>s. mcs_send_attach_user_request True (Some j) st mcs = Some (0 \<le> st, mcs\<lparr>mcs_sent := mcs_sent mcs @ [s]\<rparr>)
      \<and> s_length s = 8 \<and> mcs_recv_attach_user_request peer (s\<lparr>s_pos := 0\<rparr>) = Some (Some (), s)"
    using send_recv [OF _ _ mcs_recv_attach_user_request_parses [of peer], of 8 j]
    by (auto simp: mcs_send_attach_user_request_def sim not_less)
  show "\<exists>s. mcs_send_attach_user_confirm True (Some j) st mcs = Some (0 \<le> st,
          mcs\<lparr>mcs_userId := mcs_baseChannelId mcs, mcs_baseChannelId := u16 (mcs_baseChannelId mcs + 1), mcs_sent := mcs_sent mcs @ [s]\<rparr>)
      \<and> s_length s = 11
      \<and> mcs_recv_attach_user_confirm peer (s\<lparr>s_pos := 0\<rparr>) = Some (Some (peer\<lparr>mcs_userId := mcs_baseChannelId mcs\<rparr>), s)"
    using send_recv [OF _ _ mcs_recv_attach_user_confirm_parses [OF base, of peer], of 11 j]
    by (auto simp: mcs_send_attach_user_confirm_def sim not_less)
  show "\<exists>s. mcs_send_channel_join_request True (Some j) st mcs ch = Some (0 \<le> st, mcs\<lparr>mcs_sent := mcs_sent mcs @ [s]\<rparr>)
      \<and> s_length s = 12 \<and> mcs_recv_channel_join_request peer (s\<lparr>s_pos := 0\<rparr>) = Some (Some ch, s)"
    using send_recv [OF _ _ mcs_recv_channel_join_request_parses [of peer ch], of 12 j] user ch peer
    by (auto simp: mcs_send_channel_join_request_def sim not_less)
  show "\<exists>s. mcs_send_channel_join_confirm True (Some j) st mcs ch = Some (0 \<le> st, mcs\<lparr>mcs_sent := mcs_sent mcs @ [s]\<rparr>)
      \<and> s_length s = 15 \<and> mcs_recv_channel_join_confirm peer (s\<lparr>s_pos := 0\<rparr>) = Some (Some ch, s)"
    using send_recv [OF _ _ mcs_recv_channel_join_confirm_parses [OF user ch, of peer], of 15 j]
    by (auto simp: mcs_send_channel_join_confirm_def sim not_less)
qed

lemma mcs_pdus_roundtrip_witness:
  "\<exists>m. mcs_new True True = Some m \<and> (let mcs = m\<lparr>mcs_userId := 1007\<rparr> in
    \<exists>s. mcs_send_channel_join_request True (Some (\<lambda>_. 0)) 0 mcs 1003 = Some (0 \<le> (0::int), mcs\<lparr>mcs_sent := mcs_sent mcs @ [s]\<rparr>)
      \<and> s_length s = 12 \<and> mcs_recv_channel_join_request mcs (s\<lparr>s_pos := 0\<rparr>) = Some (Some 1003, s))"
proof -
  obtain m where m: "mcs_new True True = Some m" "mcs_baseChannelId m = 1004" by (simp add: mcs_new_def)
  define mcs where "mcs = m\<lparr>mcs_userId := 1007\<rparr>"
  have "1001 \<le> mcs_userId mcs" "mcs_userId mcs \<le> 0xFFFF" "1001 \<le> mcs_baseChannelId mcs" "mcs_baseChannelId mcs \<le> 0xFFFF"
    using m(2) by (simp_all add: mcs_def)
  from mcs_pdus_roundtrip [OF this, of 1003 mcs "\<lambda>_. 0" 0] show ?thesis
    unfolding m(1) Let_def mcs_def [symmetric] by (auto simp: mcs_def)
qed

section \<open>Disconnecting\<close>

text \<open>
  A disconnect ultimatum is a 9-byte PDU from which the peer, after it read the PDU header, recovers
  the reason user-requested (3).
\<close>

theorem mcs_disconnect_reason:
  "\<exists>s r. mcs_send_disconnect_provider_ultimatum True (Some j) st mcs = Some (0 \<le> st, mcs\<lparr>mcs_sent := mcs_sent mcs @ [s]\<rparr>)
    \<and> s_length s = 9 \<and> mcs_read_domain_mcspdu_header (s\<lparr>s_pos := 0\<rparr>) DomainMCSPDU_DisconnectProviderUltimatum = Some (Some 9, r)
    \<and> mcs_recv_disconnect_provider_ultimatum peer r = Some (Some 3, s)"
proof -
  let ?bs = "mcspdu_header 8 9 1 @ [0x80]"
  from Stream_New_write [of ?bs 9 j] obtain s where
    s: "(do { s \<leftarrow> Stream_New True (Some j) None 9; Stream_Write s ?bs }) = Some s"
    "s_ok (s\<lparr>s_pos := 0\<rparr>)" "s_rest (s\<lparr>s_pos := 0\<rparr>) = ?bs"
    "s_adv 9 (s\<lparr>s_pos := 0\<rparr>) = s" "s_length s = 9" by auto
  define q where "q = s\<lparr>s_pos := 0\<rparr>"
  have q: "s_ok q" "s_rest q = ?bs" "s_adv 9 q = s" using s by (simp_all add: q_def)
  have h: "mcs_read_domain_mcspdu_header q 8 = Some (Some 9, s_adv 8 q)"
    using parsesD [OF mcs_read_domain_mcspdu_header_parses [OF _ _ header_type(6), of 9] q(1), of "[0x80]"] q(2) by simp
  have r7: "s_ok (s_adv 7 q)" "s_rest (s_adv 7 q) = [0x21, 0x80]"
    using q(1,2) by (simp_all add: mcspdu_header_def tpkt_bytes_def tpdu_bytes_def be16_def eval_nat_numeral)
  have "Stream_Read_UINT8 (s_adv 7 q) = Some (0x21, s_adv 8 q)"
    using Stream_Read_UINT8_rest [OF r7] by simp
  moreover have r8: "s_ok (s_adv 8 q)" "s_rest (s_adv 8 q) = [0x80]"
    using q(1,2) by (simp_all add: mcspdu_header_def tpkt_bytes_def tpdu_bytes_def be16_def eval_nat_numeral)
  moreover have "Stream_Read_UINT8 (s_adv 8 q) = Some (0x80, s_adv 9 q)"
    using Stream_Read_UINT8_rest [OF r8] by simp
  moreover have "Stream_Rewind (s_adv 8 q) 1 = Some (s_adv 7 q)"
    using q(1) r7(1) by (simp add: Stream_Rewind_def Stream_Seek_def s_adv_def s_ok_def)
  ultimately have "mcs_recv_disconnect_provider_ultimatum peer (s_adv 8 q) = Some (Some 3, s)"
    using q(3) by (simp add: mcs_recv_disconnect_provider_ultimatum_def)
  moreover have "mcs_send_disconnect_provider_ultimatum True (Some j) st mcs = Some (0 \<le> st, mcs\<lparr>mcs_sent := mcs_sent mcs @ [s]\<rparr>)"
    using s(1) by (cases "Stream_New True (Some j) None 9")
      (auto simp: mcs_send_disconnect_provider_ultimatum_def emits write_merge mcs_transport_write_def per_write_enumerated_def not_less)
  ultimately show ?thesis using h s(5) by (intro exI [of _ s] exI [of _ "s_adv 8 q"]) (simp add: q_def)
qed

section \<open>Domain parameters\<close>

definition dp_values :: "DomainParameters \<Rightarrow> int list" where
  "dp_values p = [maxChannelIds p, maxUserIds p, maxTokenIds p, numPriorities p, minThroughput p, maxHeight p,
     maxMCSPDUsize p, protocolVersion p]"

definition dp_bytes :: "DomainParameters \<Rightarrow> byte list" where
  "dp_bytes p = (let bs = concat (map ber_int (dp_values p)) in 0x30 # ber_len (int (length bs)) @ bs)"

definition dp_ok :: "DomainParameters \<Rightarrow> bool" where
  "dp_ok p \<longleftrightarrow> (\<forall>v \<in> set (dp_values p). 0 \<le> v \<and> v < 0x80000000)"

lemma ber_int_short: "length (ber_int v) \<le> 6"
  by (simp add: ber_int_def)

lemma dp_content_short: "length (concat (map ber_int (dp_values p))) \<le> 48"
  using ber_int_short [of "maxChannelIds p"] ber_int_short [of "maxUserIds p"] ber_int_short [of "maxTokenIds p"]
    ber_int_short [of "numPriorities p"] ber_int_short [of "minThroughput p"] ber_int_short [of "maxHeight p"]
    ber_int_short [of "maxMCSPDUsize p"] ber_int_short [of "protocolVersion p"]
  by (simp add: dp_values_def)

lemma mcs_read_domain_parameters_parses:
  assumes "dp_ok p"
  shows "parses mcs_read_domain_parameters (dp_bytes p) p"
proof -
  let ?bs = "concat (map ber_int (dp_values p))"
  obtain a b c d e f g h where p: "p = \<lparr>maxChannelIds = a, maxUserIds = b, maxTokenIds = c,
      numPriorities = d, minThroughput = e, maxHeight = f, maxMCSPDUsize = g, protocolVersion = h\<rparr>" by (cases p)
  have v: "parses (\<lambda>s. ber_read_integer s True) (ber_int x) x" if "x \<in> {a, b, c, d, e, f, g, h}" for x
    using that assms by (intro ber_read_integer_parses) (auto simp: dp_ok_def dp_values_def p)
  have seq: "parses ber_read_sequence_tag (0x30 # ber_len (int (length ?bs))) (int (length ?bs))"
    using dp_content_short [of p] by (intro ber_read_sequence_tag_parses) simp_all
  have bytes: "dp_bytes p = (0x30 # ber_len (int (length ?bs))) @ ber_int a @ ber_int b @ ber_int c @ ber_int d
      @ ber_int e @ ber_int f @ ber_int g @ ber_int h @ []"
    by (simp add: dp_bytes_def Let_def dp_values_def p)
  show ?thesis unfolding mcs_read_domain_parameters_def [abs_def] bytes
    by (rule parses_rbind [OF seq], (rule parses_rbind, rule v, blast)+) (simp add: p parses_ret)
qed

text \<open>A temporary stream with room: what was written can be read back as a block.\<close>

lemma tmp_stream:
  assumes "int (length bs) \<le> cap" and "cap \<le> INT_MAX"
  shows "\<exists>t0 t. Stream_New True (Some j) None cap = Some t0 \<and> Stream_Write t0 bs = Some t
    \<and> as_int (s_pos t) = int (length bs) \<and> ablock (s_buffer t) 0 (int (length bs)) = Some bs"
proof -
  define n where "n = nat cap"
  have n: "cap = int n" "length bs \<le> n" using assms(1) by (simp_all add: n_def)
  define s0 where "s0 = \<lparr>s_buffer = map j [0..<n], s_pos = 0, s_length = int n, s_capacity = int n, s_count = 0, s_pool = NULL\<rparr>"
  have new: "Stream_New True (Some j) None cap = Some s0" by (simp add: Stream_New_def s0_def n(1))
  have ok: "s_ok s0" "length (s_rest s0) = n" using assms(2) n(1) by (simp_all add: s0_def s_ok_def s_rest_def)
  from Stream_Write_reread [OF ok(1), of bs] ok(2) n(2) obtain t where w: "Stream_Write s0 bs = Some t"
    "s_ok (t\<lparr>s_pos := s_pos s0\<rparr>)" "s_rest (t\<lparr>s_pos := s_pos s0\<rparr>) = bs @ s_rest t"
    "s_adv (length bs) (t\<lparr>s_pos := s_pos s0\<rparr>) = t" by auto
  have pos: "s_pos t = int (length bs)" using arg_cong [OF w(4), of s_pos] by (simp add: s_adv_def s0_def)
  have "ablock (s_buffer t) 0 (int (length bs)) = Some bs"
    using ablock_rest [OF w(2), of "int (length bs)"] w(3) by (simp add: s0_def)
  moreover have "as_int (int (length bs)) = int (length bs)" using assms by (simp add: as_int_def)
  ultimately show ?thesis using new w(1) pos by (intro exI [of _ s0] exI [of _ t]) simp
qed

lemma mcs_write_domain_parameters_emits:
  assumes p: "dp_ok p" and cap: "48 \<le> s_capacity s" "s_capacity s \<le> INT_MAX"
  shows "mcs_write_domain_parameters True (Some j) s p = Stream_Write s (dp_bytes p)"
proof -
  let ?bs = "concat (map ber_int (dp_values p))"
  have i: "ber_write_integer s v = do { s \<leftarrow> Stream_Write s (ber_int v); Some (ber_sizeof_integer v, s) }"
    if "v \<in> set (dp_values p)" for s v
    using that p by (intro ber_write_integer_emits) (simp add: dp_ok_def)
  have "int (length ?bs) \<le> s_capacity s" using dp_content_short [of p] cap(1) by linarith
  from tmp_stream [OF this cap(2), of j] obtain t0 t where
    "Stream_New True (Some j) None (s_capacity s) = Some t0" "Stream_Write t0 ?bs = Some t"
    "as_int (s_pos t) = int (length ?bs)" "ablock (s_buffer t) 0 (int (length ?bs)) = Some ?bs" by blast
  then show ?thesis
    by (simp add: mcs_write_domain_parameters_def i dp_values_def write_merge emits dp_bytes_def Let_def)
qed

lemma dp_bytes_length: "length (dp_bytes p) \<le> 50"
  using dp_content_short [of p] by (simp add: dp_bytes_def Let_def ber_len_def)

text \<open>
  Domain parameters below \<open>0x80000000\<close> written to a stream with room are read back field by field,
  and the reader ends where the writer did.
\<close>

theorem mcs_domain_parameters_roundtrip:
  assumes "dp_ok p" and s: "s_ok s" "50 \<le> length (s_rest s)" and cap: "s_capacity s = int (length (s_buffer s))" "s_capacity s \<le> INT_MAX"
  shows "\<exists>s'. mcs_write_domain_parameters True (Some j) s p = Some s'
    \<and> mcs_read_domain_parameters (s'\<lparr>s_pos := s_pos s\<rparr>) = Some (Some p, s')"
proof -
  have "48 \<le> s_capacity s" using s cap(1) length_s_rest [OF s(1)] by (simp add: s_ok_def)
  note emits = mcs_write_domain_parameters_emits [OF assms(1) this cap(2), of j]
  have "length (dp_bytes p) \<le> length (s_rest s)" using dp_bytes_length [of p] s(2) by simp
  from Stream_Write_reread [OF s(1) this] obtain s' where w: "Stream_Write s (dp_bytes p) = Some s'"
    "s_ok (s'\<lparr>s_pos := s_pos s\<rparr>)" "s_rest (s'\<lparr>s_pos := s_pos s\<rparr>) = dp_bytes p @ s_rest s'"
    "s_adv (length (dp_bytes p)) (s'\<lparr>s_pos := s_pos s\<rparr>) = s'" by blast
  from parsesD [OF mcs_read_domain_parameters_parses [OF assms(1)] w(2,3)] w(1,4) emits show ?thesis by simp
qed

lemma mcs_domain_parameters_roundtrip_witness:
  "\<exists>s'. mcs_write_domain_parameters True (Some (\<lambda>_. 0)) (blank 64) (mcs_init_domain_parameters 34 2 0 0xFFFF) = Some s'
    \<and> mcs_read_domain_parameters (s'\<lparr>s_pos := s_pos (blank 64)\<rparr>) = Some (Some (mcs_init_domain_parameters 34 2 0 0xFFFF), s')"
  using blank_ok [of 64]
  by (intro mcs_domain_parameters_roundtrip) (simp_all add: dp_ok_def dp_values_def mcs_init_domain_parameters_def)

text \<open>The parameters that no agreement reaches, in the order in which the code looks at them.\<close>

definition mcs_disagree :: "DomainParameters \<Rightarrow> DomainParameters \<Rightarrow> DomainParameters \<Rightarrow> bool list" where
  "mcs_disagree target mini maxi =
     [max (maxChannelIds target) (maxChannelIds maxi) < 4,
      max (maxUserIds target) (maxUserIds maxi) < 3,
      1 < numPriorities mini,
      maxHeight target \<noteq> 1 \<and> 1 < maxHeight mini,
      maxMCSPDUsize target < 1024 \<and> maxMCSPDUsize maxi < 124,
      65528 < maxMCSPDUsize target \<and> \<not> (124 \<le> maxMCSPDUsize mini \<and> maxMCSPDUsize mini \<le> 65528),
      protocolVersion target \<noteq> 2 \<and> \<not> (protocolVersion mini \<le> 2 \<and> 2 \<le> protocolVersion maxi)]"

lemma agree_least: "(if k \<le> a then Some a else if k \<le> b then Some k else None) = (if max a b < k then None else Some (max k a))"
  for a b k :: int
  by (simp add: max_def)

lemma agree_if: "(if a then Some x else None) = (if \<not> a then None else Some x)"
  by simp

lemma agree_pdu:
  "(if 1024 \<le> a then (if a \<le> 65528 then Some a else if 124 \<le> b \<and> b \<le> 65528 then Some 65528 else None)
    else (if 124 \<le> c then Some c else None))
   = (if a < 1024 \<and> c < 124 \<or> 65528 < a \<and> \<not> (124 \<le> b \<and> b \<le> 65528) then None
      else Some (if a < 1024 then c else min a 65528))" for a b c :: int
  by (cases "1024 \<le> a"; cases "a \<le> 65528") simp_all

lemma none_bind: "((if a then None else Some x) \<bind> f) = (if a then None else f x)"
  by simp

lemma none_or: "(if a then None else if b then None else r) = (if a \<or> b then None else r)"
  by simp

lemma mcs_merge_eq:
  "mcs_merge_domain_parameters target mini maxi = (if True \<in> set (mcs_disagree target mini maxi) then None else Some
     \<lparr>maxChannelIds = max 4 (maxChannelIds target), maxUserIds = max 3 (maxUserIds target), maxTokenIds = maxTokenIds target,
      numPriorities = 1, minThroughput = minThroughput target, maxHeight = 1,
      maxMCSPDUsize = (if maxMCSPDUsize target < 1024 then maxMCSPDUsize maxi else min (maxMCSPDUsize target) 65528),
      protocolVersion = 2\<rparr>)"
proof -
  have dis: "True \<in> set (mcs_disagree target mini maxi) \<longleftrightarrow>
     max (maxChannelIds target) (maxChannelIds maxi) < 4
     \<or> max (maxUserIds target) (maxUserIds maxi) < 3
     \<or> \<not> numPriorities mini \<le> 1
     \<or> \<not> (maxHeight target = 1 \<or> maxHeight mini \<le> 1)
     \<or> (maxMCSPDUsize target < 1024 \<and> maxMCSPDUsize maxi < 124
        \<or> 65528 < maxMCSPDUsize target \<and> \<not> (124 \<le> maxMCSPDUsize mini \<and> maxMCSPDUsize mini \<le> 65528))
     \<or> \<not> (protocolVersion target = 2 \<or> (protocolVersion mini \<le> 2 \<and> 2 \<le> protocolVersion maxi))"
    by (simp only: mcs_disagree_def list.set insert_iff empty_iff de_Morgan_disj not_le eq_True disj_assoc simp_thms)
  show ?thesis
    unfolding dis mcs_merge_domain_parameters_def agree_least agree_pdu
      agree_if [of "numPriorities mini \<le> 1"] agree_if [of "maxHeight target = 1 \<or> maxHeight mini \<le> 1"]
      agree_if [of "protocolVersion target = 2 \<or> (protocolVersion mini \<le> 2 \<and> 2 \<le> protocolVersion maxi)"] none_bind none_or
    by (rule refl)
qed

text \<open>
  C35. Merging fails exactly when some parameter cannot be agreed on: neither the target nor the maximum has 4 channels, or
  neither has 3 users, the minimum asks for more than one priority, or for a height above 1 that the target does not have
  as 1, a small PDU size meets a maximum below 124, a large one a minimum that does not allow 65528, or version 2 is out of
  the range. Otherwise the result is fixed: the channels and users of the target raised to 4 and 3, one priority, height 1,
  version 2, the PDU size of the target up to 65528, or that of the maximum when the target has less than 1024, and the tokens
  and throughput of the target. The parameters of a new module merge to 34 channels, 3 users and PDUs of 65528 bytes.
\<close>

theorem mcs_merge_ok:
  "(mcs_merge_domain_parameters target mini maxi = None \<longleftrightarrow> True \<in> set (mcs_disagree target mini maxi))
    \<and> (True \<notin> set (mcs_disagree target mini maxi) \<longrightarrow> mcs_merge_domain_parameters target mini maxi = Some
        \<lparr>maxChannelIds = max 4 (maxChannelIds target), maxUserIds = max 3 (maxUserIds target), maxTokenIds = maxTokenIds target,
         numPriorities = 1, minThroughput = minThroughput target, maxHeight = 1,
         maxMCSPDUsize = (if maxMCSPDUsize target < 1024 then maxMCSPDUsize maxi else min (maxMCSPDUsize target) 65528),
         protocolVersion = 2\<rparr>)
    \<and> (\<forall>m. mcs_new True True = Some m \<longrightarrow>
        map_option dp_values (mcs_merge_domain_parameters (mcs_targetParameters m) (mcs_minimumParameters m) (mcs_maximumParameters m))
          = Some [34, 3, 0, 1, 0, 1, 65528, 2])"
proof -
  have "map_option dp_values (mcs_merge_domain_parameters (mcs_targetParameters m) (mcs_minimumParameters m) (mcs_maximumParameters m))
      = Some [34, 3, 0, 1, 0, 1, 65528, 2]" if "mcs_new True True = Some m" for m
    using that by (auto simp: mcs_new_def mcs_merge_eq mcs_disagree_def mcs_init_domain_parameters_def dp_values_def)
  then show ?thesis by (simp add: mcs_merge_eq)
qed

text \<open>A client that accepts few channels and users against a server that allows more, and one whose minimum is too high.\<close>

lemma mcs_merge_ok_witness:
  "mcs_merge_domain_parameters (mcs_init_domain_parameters 2 1 0 512) (mcs_init_domain_parameters 1 1 1 0x420)
      (mcs_init_domain_parameters 4 3 0xFFFF 0xFFFF)
      = Some \<lparr>maxChannelIds = 4, maxUserIds = 3, maxTokenIds = 0, numPriorities = 1, minThroughput = 0, maxHeight = 1,
          maxMCSPDUsize = 0xFFFF, protocolVersion = 2\<rparr>
    \<and> mcs_merge_domain_parameters (mcs_init_domain_parameters 2 1 0 512) (mcs_init_domain_parameters 1 1 1 0x420)
      (mcs_init_domain_parameters 3 3 0xFFFF 0xFFFF) = None"
proof -
  let ?t = "mcs_init_domain_parameters 2 1 0 512" and ?n = "mcs_init_domain_parameters 1 1 1 0x420"
  have "True \<notin> set (mcs_disagree ?t ?n (mcs_init_domain_parameters 4 3 0xFFFF 0xFFFF))"
    "True \<in> set (mcs_disagree ?t ?n (mcs_init_domain_parameters 3 3 0xFFFF 0xFFFF))"
    by (simp_all add: mcs_disagree_def mcs_init_domain_parameters_def)
  with mcs_merge_ok [of ?t ?n "mcs_init_domain_parameters 4 3 0xFFFF 0xFFFF"]
    mcs_merge_ok [of ?t ?n "mcs_init_domain_parameters 3 3 0xFFFF 0xFFFF"] show ?thesis
    by (simp add: mcs_init_domain_parameters_def)
qed

section \<open>Static channels\<close>

text \<open>The channel that a definition of the settings describes.\<close>

definition mcs_channel_of :: "byte list \<times> int \<Rightarrow> rdpMcsChannel" where
  "mcs_channel_of d = mcs_zero_channel\<lparr>ch_Name := take 8 (fst d), ch_options := snd d\<rparr>"

lemma mcs_channels_loop:
  assumes "n \<le> length defs" and "n \<le> length chans" and "\<forall>d \<in> set defs. 8 \<le> length (fst d)"
    and "\<forall>ch \<in> set chans. ch = mcs_zero_channel"
  shows "foldM (\<lambda>index chans. do {
       (name, options) \<leftarrow> aget defs index;
       name \<leftarrow> ablock name 0 8;
       ch \<leftarrow> aget chans index;
       aset chans index (ch\<lparr>ch_Name := name, ch_options := options\<rparr>) }) (map int [0..<n]) chans =
    Some (map mcs_channel_of (take n defs) @ drop n chans)"
  using assms
proof (induction n)
  case (Suc n)
  let ?cs = "map mcs_channel_of (take n defs) @ drop n chans"
  have n: "n < length defs" "n < length chans" using Suc.prems by simp_all
  have name: "ablock (fst (defs ! n)) 0 8 = Some (take 8 (fst (defs ! n)))"
    using Suc.prems(3) n(1) by (simp add: ablock_def)
  have ch: "?cs ! n = mcs_zero_channel" "n < length ?cs" using Suc.prems(4) n by (simp_all add: nth_append)
  have upd: "?cs[n := mcs_channel_of (defs ! n)] = map mcs_channel_of (take (Suc n) defs) @ drop (Suc n) chans"
    using n by (simp add: list_update_append take_Suc_conv_app_nth Cons_nth_drop_Suc [symmetric])
  have "(?cs ! n)\<lparr>ch_Name := take 8 (fst (defs ! n)), ch_options := snd (defs ! n)\<rparr> = mcs_channel_of (defs ! n)"
    unfolding ch(1) mcs_channel_of_def ..
  with upd have "?cs[n := (?cs ! n)\<lparr>ch_Name := take 8 (fst (defs ! n)), ch_options := snd (defs ! n)\<rparr>]
      = map mcs_channel_of (take (Suc n) defs) @ drop (Suc n) chans" by simp
  then have "aset ?cs (int n) ((?cs ! n)\<lparr>ch_Name := take 8 (fst (defs ! n)), ch_options := snd (defs ! n)\<rparr>)
      = Some (map mcs_channel_of (take (Suc n) defs) @ drop (Suc n) chans)"
    using ch(2) by (simp add: aset_def del: list_update_append)
  moreover have "aget ?cs (int n) = Some (?cs ! n)" using ch(2) unfolding aget_int by (rule if_P)
  moreover have "aget defs (int n) = Some (defs ! n)" using n(1) unfolding aget_int by (rule if_P)
  ultimately show ?case using Suc.IH Suc.prems name n by (simp add: foldM_append split_def)
qed simp

text \<open>
  Initialising the client channels copies the name and options of each channel of the settings, at
  most as many as the module has room for, zeroes every other channel and never leaves the arrays.
\<close>

theorem mcs_initialize_channels_ok:
  assumes "mcs_channelMaxCount mcs = int (length (mcs_channels mcs))" and "0 \<le> cnt" and "cnt \<le> int (length defs)"
    and "\<forall>d \<in> set defs. 8 \<le> length (fst d)"
  defines "n \<equiv> min (nat cnt) (length (mcs_channels mcs))"
  shows "mcs_initialize_client_channels mcs cnt defs = Some (0, mcs\<lparr>mcs_channelCount := int n,
    mcs_channels := map mcs_channel_of (take n defs) @ replicate (length (mcs_channels mcs) - n) mcs_zero_channel\<rparr>)"
proof -
  let ?zs = "replicate (length (mcs_channels mcs)) mcs_zero_channel"
  have n: "n \<le> length defs" "n \<le> length ?zs" using assms(2,3) by (simp_all add: n_def)
  have cnt: "(if mcs_channelMaxCount mcs < cnt then mcs_channelMaxCount mcs else cnt) = int n"
    using assms(1,2) by (auto simp: n_def min_def)
  have fill: "afill (mcs_channels mcs) 0 (mcs_channelMaxCount mcs) mcs_zero_channel = Some ?zs"
    using assms(1) by (simp add: afill_def)
  show ?thesis using mcs_channels_loop [OF n assms(4)]
    by (simp add: mcs_initialize_client_channels_def cnt fill upto_int)
qed

lemma mcs_initialize_channels_ok_witness:
  "\<exists>m. mcs_new True True = Some m \<and> mcs_initialize_client_channels m 1 [([114, 100, 112, 115, 110, 100, 0, 0], 7)] =
    Some (0, m\<lparr>mcs_channelCount := int (min (nat 1) (length (mcs_channels m))),
      mcs_channels := map mcs_channel_of (take (min (nat 1) (length (mcs_channels m))) [([114, 100, 112, 115, 110, 100, 0, 0], 7)])
        @ replicate (length (mcs_channels m) - min (nat 1) (length (mcs_channels m))) mcs_zero_channel\<rparr>)"
proof -
  obtain m where m: "mcs_new True True = Some m" "mcs_channelMaxCount m = int (length (mcs_channels m))"
    by (simp add: mcs_new_def)
  show ?thesis using m(1)
    by (intro exI [of _ m] conjI mcs_initialize_channels_ok m(2)) simp_all
qed

end
