(* ===== verification/WTransport.thy ===== *)
theory WTransport
  imports WStream
begin

text \<open>
  The transport of \<open>libfreerdp/core/transport.c\<close>: connecting its layers, reading whole protocol data
  units from a byte stream that arrives in arbitrary pieces, and writing.

  The chain of OpenSSL BIOs, the sockets and the gateway and authentication modules are the record
  \<open>net\<close> of functions on a world \<open>'w\<close>, which also decides the outcome of each allocation. A \<open>BIO_read\<close> that fails returns no byte, otherwise it returns the
  bytes it stores; \<open>tp_frontBio\<close>, \<open>tp_tls\<close>, \<open>tp_rdg\<close> and \<open>tp_tsg\<close> say whether the pointer is set.
\<close>

section \<open>Data\<close>

datatype TRANSPORT_LAYER = TRANSPORT_LAYER_TCP | TRANSPORT_LAYER_TLS | TRANSPORT_LAYER_TSG
  | TRANSPORT_LAYER_TSG_TLS | TRANSPORT_LAYER_CLOSED

abbreviation FREERDP_ERROR_TLS_CONNECT_FAILED :: int where "FREERDP_ERROR_TLS_CONNECT_FAILED \<equiv> 0x20008"
abbreviation FREERDP_ERROR_AUTHENTICATION_FAILED :: int where "FREERDP_ERROR_AUTHENTICATION_FAILED \<equiv> 0x20009"
abbreviation FREERDP_ERROR_CONNECT_CANCELLED :: int where "FREERDP_ERROR_CONNECT_CANCELLED \<equiv> 0x2000B"
abbreviation CONNECTION_STATE_NLA :: int where "CONNECTION_STATE_NLA \<equiv> 2"

record 'w net =
  net_malloc :: "int \<Rightarrow> 'w \<Rightarrow> byte fresh \<times> 'w"
  ConvertToUnicode :: "byte list \<Rightarrow> 'w \<Rightarrow> byte list option \<times> 'w"
  BIO_new :: "'w \<Rightarrow> bool \<times> 'w"
  BIO_read :: "int \<Rightarrow> 'w \<Rightarrow> byte list \<times> 'w"
  BIO_write :: "byte list \<Rightarrow> 'w \<Rightarrow> int \<times> 'w"
  BIO_should_retry :: "'w \<Rightarrow> bool"
  BIO_wait_read :: "'w \<Rightarrow> int \<times> 'w"
  BIO_wait_write :: "'w \<Rightarrow> int \<times> 'w"
  BIO_write_blocked :: "'w \<Rightarrow> bool"
  BIO_flush :: "'w \<Rightarrow> int \<times> 'w"
  BIO_set_nonblock :: "bool \<Rightarrow> 'w \<Rightarrow> bool \<times> 'w"
  BIO_free :: "'w \<Rightarrow> 'w"
  StreamPool_Take :: "int \<Rightarrow> 'w \<Rightarrow> wStream option \<times> 'w"
  Stream_Release :: "wStream \<Rightarrow> 'w \<Rightarrow> 'w"
  freerdp_tcp_connect :: "int \<Rightarrow> 'w \<Rightarrow> int \<times> 'w"
  rdg_new :: "'w \<Rightarrow> bool \<times> 'w"
  rdg_connect :: "int \<Rightarrow> 'w \<Rightarrow> bool \<times> 'w"
  tsg_new :: "'w \<Rightarrow> bool \<times> 'w"
  tsg_connect :: "int \<Rightarrow> 'w \<Rightarrow> bool \<times> 'w"
  tls_new :: "'w \<Rightarrow> bool \<times> 'w"
  tls_connect :: "'w \<Rightarrow> int \<times> bool \<times> 'w"
  nla_new :: "'w \<Rightarrow> bool \<times> 'w"
  nla_make_spn :: "'w \<Rightarrow> bool \<times> 'w"
  nla_client_begin :: "'w \<Rightarrow> int \<times> 'w"

text \<open>The settings that the transport, the negotiation and the fast path read or write.\<close>

record rdpSettings =
  set_AsyncTransport :: bool
  set_GatewayHttpTransport :: bool
  set_GatewayRpcTransport :: bool
  set_WaitForOutputBufferFlush :: bool
  set_Authentication :: bool
  set_AuthenticationServiceClass :: bool
  set_RequestedProtocols :: int
  set_SelectedProtocol :: int
  set_NegotiationFlags :: int
  set_EncryptionMethods :: int
  set_EncryptionLevel :: int
  set_UseRdpSecurityLayer :: bool
  set_NetworkAutoDetect :: bool
  set_SupportGraphicsPipeline :: bool
  set_TlsSecurity :: bool
  set_NlaSecurity :: bool
  set_RdpSecurity :: bool
  set_LocalConnection :: bool
  set_RdpServerRsaKey :: bool
  set_RdpKeyFile :: bool
  set_CompressionEnabled :: bool
  set_FastPathOutput :: bool
  set_MultifragMaxRequestSize :: int

record 'w rdpTransport =
  tp_net :: 'w
  tp_layer :: TRANSPORT_LAYER
  tp_frontBio :: bool
  tp_rdg :: bool
  tp_tsg :: bool
  tp_tls :: bool
  tp_settings :: rdpSettings
  tp_ReceiveBuffer :: "wStream option"
  tp_async :: bool
  tp_stopEvent :: bool
  tp_thread :: bool
  tp_NlaMode :: bool
  tp_blocking :: bool
  tp_GatewayEnabled :: bool
  tp_WriteLock :: int
  tp_last_error :: int
  tp_rdp_state :: int

section \<open>Connecting\<close>

definition transport_set_gateway_enabled :: "'w rdpTransport \<Rightarrow> bool \<Rightarrow> 'w rdpTransport" where
  "transport_set_gateway_enabled t enabled = t\<lparr>tp_GatewayEnabled := enabled\<rparr>"

definition transport_set_nla_mode :: "'w rdpTransport \<Rightarrow> bool \<Rightarrow> 'w rdpTransport" where
  "transport_set_nla_mode t mode = t\<lparr>tp_NlaMode := mode\<rparr>"

definition transport_set_blocking_mode :: "'w net \<Rightarrow> 'w rdpTransport \<Rightarrow> bool \<Rightarrow> bool \<times> 'w rdpTransport" where
  "transport_set_blocking_mode net t blocking =
     (let t = t\<lparr>tp_blocking := blocking\<rparr>;
          (ok, w) = BIO_set_nonblock net (\<not> blocking) (tp_net t)
      in (ok, t\<lparr>tp_net := w\<rparr>))"

definition transport_attach :: "'w net \<Rightarrow> 'w rdpTransport \<Rightarrow> bool \<times> 'w rdpTransport" where
  "transport_attach net t =
     (let (ok, w) = BIO_new net (tp_net t); t = t\<lparr>tp_net := w\<rparr>
      in if \<not> ok then (False, t)
         else let (ok, w) = BIO_new net (tp_net t); t = t\<lparr>tp_net := w\<rparr>
              in if \<not> ok then (False, t) else (True, t\<lparr>tp_frontBio := True\<rparr>))"

definition transport_connect_rdp :: "'w rdpTransport \<Rightarrow> bool" where
  "transport_connect_rdp t = True"

definition transport_set_error :: "'w rdpTransport \<Rightarrow> int \<Rightarrow> 'w rdpTransport" where
  "transport_set_error t e = (if tp_last_error t = 0 then t\<lparr>tp_last_error := e\<rparr> else t)"

definition transport_connect_tls :: "'w net \<Rightarrow> 'w rdpTransport \<Rightarrow> (bool \<times> 'w rdpTransport) option" where
  "transport_connect_tls net t =
     (let (tls, w) = tls_new net (tp_net t);
          t = t\<lparr>tp_net := w, tp_tls := tls,
                tp_layer := (if tp_GatewayEnabled t then TRANSPORT_LAYER_TSG_TLS else TRANSPORT_LAYER_TLS)\<rparr>
      in if \<not> tls then None
         else let (tlsStatus, bio, w) = tls_connect net (tp_net t); t = t\<lparr>tp_net := w\<rparr>
              in if tlsStatus < 1 then
                   Some (False, transport_set_error t
                     (if tlsStatus < 0 then FREERDP_ERROR_TLS_CONNECT_FAILED else FREERDP_ERROR_CONNECT_CANCELLED))
                 else Some (bio, t\<lparr>tp_frontBio := bio\<rparr>))"

definition transport_connect_nla :: "'w net \<Rightarrow> 'w rdpTransport \<Rightarrow> (bool \<times> 'w rdpTransport) option" where
  "transport_connect_nla net t = do {
     (ok, t) \<leftarrow> transport_connect_tls net t;
     if \<not> ok then Some (False, t)
     else if \<not> set_Authentication (tp_settings t) then Some (True, t)
     else do {
       let (nla, w) = nla_new net (tp_net t);
       let t = t\<lparr>tp_net := w\<rparr>;
       if \<not> nla then Some (False, t)
       else do {
         let t = transport_set_nla_mode t True;
         let (spn, w) = (if set_AuthenticationServiceClass (tp_settings t) then nla_make_spn net (tp_net t)
                         else (True, tp_net t));
         let t = t\<lparr>tp_net := w\<rparr>;
         if \<not> spn then Some (False, t)
         else do {
           let (status, w) = nla_client_begin net (tp_net t);
           let t = t\<lparr>tp_net := w\<rparr>;
           if status < 0
           then Some (False, transport_set_nla_mode (transport_set_error t FREERDP_ERROR_AUTHENTICATION_FAILED) False)
           else Some (True, t\<lparr>tp_rdp_state := CONNECTION_STATE_NLA\<rparr>) } } } }"

text \<open>
  The connection goes through the gateway, over HTTP and then over RPC, or straight to the host; the
  result of attaching the socket is not looked at.
\<close>

definition transport_connect_rdg :: "'w net \<Rightarrow> 'w rdpTransport \<Rightarrow> int \<Rightarrow> (bool option \<times> 'w rdpTransport)" where
  "transport_connect_rdg net t timeout =
     (if \<not> set_GatewayHttpTransport (tp_settings t) then (Some False, t)
      else let (rdg, w) = rdg_new net (tp_net t); t = t\<lparr>tp_net := w, tp_rdg := rdg\<rparr>
      in if \<not> rdg then (None, t)
         else let (status, w) = rdg_connect net timeout (tp_net t); t = t\<lparr>tp_net := w\<rparr>
              in if status
                 then let (_, w) = BIO_set_nonblock net False (tp_net t)
                      in (Some True, t\<lparr>tp_frontBio := True, tp_net := w, tp_layer := TRANSPORT_LAYER_TSG\<rparr>)
                 else (Some False, t\<lparr>tp_rdg := False\<rparr>))"

definition transport_connect_tsg :: "'w net \<Rightarrow> 'w rdpTransport \<Rightarrow> int \<Rightarrow> (bool option \<times> 'w rdpTransport)" where
  "transport_connect_tsg net t timeout =
     (if \<not> set_GatewayRpcTransport (tp_settings t) then (Some False, t)
      else let (tsg, w) = tsg_new net (tp_net t); t = t\<lparr>tp_net := w, tp_tsg := tsg\<rparr>
      in if \<not> tsg then (None, t)
         else let (status, w) = tsg_connect net timeout (tp_net t); t = t\<lparr>tp_net := w\<rparr>
              in if status then (Some True, t\<lparr>tp_frontBio := True, tp_layer := TRANSPORT_LAYER_TSG\<rparr>)
                 else (Some False, t\<lparr>tp_tsg := False\<rparr>))"

definition transport_connect :: "'w net \<Rightarrow> 'w rdpTransport \<Rightarrow> int \<Rightarrow> bool \<times> 'w rdpTransport" where
  "transport_connect net t timeout =
     (let t = t\<lparr>tp_async := set_AsyncTransport (tp_settings t)\<rparr>;
          (status, t) =
            (if tp_GatewayEnabled t
             then case transport_connect_rdg net t timeout of
                 (Some False, t) \<Rightarrow> transport_connect_tsg net t timeout
               | r \<Rightarrow> r
             else let (sockfd, w) = freerdp_tcp_connect net timeout (tp_net t); t = t\<lparr>tp_net := w\<rparr>
                  in if sockfd < 1 then (None, t) else (Some True, snd (transport_attach net t)))
      in if status = Some True
         then (True, if tp_async t then t\<lparr>tp_stopEvent := True, tp_thread := True\<rparr> else t)
         else (False, t))"

definition transport_stop :: "'w rdpTransport \<Rightarrow> 'w rdpTransport" where
  "transport_stop t =
     (if tp_async t \<and> tp_stopEvent t then t\<lparr>tp_thread := False, tp_stopEvent := False\<rparr> else t)"

definition transport_disconnect :: "'w net \<Rightarrow> 'w rdpTransport \<Rightarrow> bool \<times> 'w rdpTransport" where
  "transport_disconnect net t =
     (let t = transport_stop t;
          t = (if tp_tls t then t\<lparr>tp_tls := False\<rparr>
               else if tp_frontBio t then t\<lparr>tp_net := BIO_free net (tp_net t)\<rparr> else t)
      in (True, t\<lparr>tp_tsg := False, tp_rdg := False, tp_frontBio := False, tp_layer := TRANSPORT_LAYER_TCP\<rparr>))"

section \<open>Reading\<close>

text \<open>The loop of \<open>transport_read_layer\<close>: the bytes go to the buffer at \<open>data + read\<close>.\<close>

partial_function (option) transport_read_loop ::
    "'w net \<Rightarrow> 'w rdpTransport \<Rightarrow> byte list \<Rightarrow> int \<Rightarrow> int \<Rightarrow> int \<Rightarrow> (int \<times> 'w rdpTransport \<times> byte list) option" where
  "transport_read_loop net t buf data rd bytes =
     (if rd < bytes then
        (case BIO_read net (bytes - rd) (tp_net t) of (bs, w) \<Rightarrow>
           if bs = [] then
             if \<not> BIO_should_retry net w
             then Some (- 1, t\<lparr>tp_net := w, tp_layer := TRANSPORT_LAYER_CLOSED\<rparr>, buf)
             else if \<not> tp_blocking t then Some (rd, t\<lparr>tp_net := w\<rparr>, buf)
             else (case BIO_wait_read net w of (r, w) \<Rightarrow>
               if r < 0 then Some (- 1, t\<lparr>tp_net := w\<rparr>, buf)
               else transport_read_loop net (t\<lparr>tp_net := w\<rparr>) buf data rd bytes)
           else do {
             buf \<leftarrow> ablit buf (data + rd) bs;
             transport_read_loop net (t\<lparr>tp_net := w\<rparr>) buf data (rd + int (length bs)) bytes })
      else Some (rd, t, buf))"

definition transport_read_layer ::
    "'w net \<Rightarrow> 'w rdpTransport \<Rightarrow> byte list \<Rightarrow> int \<Rightarrow> int \<Rightarrow> (int \<times> 'w rdpTransport \<times> byte list) option" where
  "transport_read_layer net t buf data bytes =
     (if \<not> tp_frontBio t then Some (- 1, t\<lparr>tp_layer := TRANSPORT_LAYER_CLOSED\<rparr>, buf)
      else transport_read_loop net t buf data 0 bytes)"

text \<open>The count is passed as an \<open>unsigned int\<close> and read as an \<open>int\<close>.\<close>

definition transport_read_layer_bytes ::
    "'w net \<Rightarrow> 'w rdpTransport \<Rightarrow> wStream \<Rightarrow> int \<Rightarrow> (int \<times> 'w rdpTransport \<times> wStream) option" where
  "transport_read_layer_bytes net t s toRead = do {
     (status, t, buf) \<leftarrow> transport_read_layer net t (s_buffer s) (s_pos s) (as_int toRead);
     let s = s\<lparr>s_buffer := buf\<rparr>;
     if status \<le> 0 then Some (status, t, s)
     else do {
       s \<leftarrow> Stream_Seek s status;
       Some (if status = as_int toRead then 1 else 0, t, s) } }"

text \<open>Reading on to \<open>n\<close> bytes of the header, unless an earlier call has.\<close>

definition transport_read_more ::
    "'w net \<Rightarrow> 'w rdpTransport \<Rightarrow> wStream \<Rightarrow> int \<Rightarrow> int \<Rightarrow> (int \<times> 'w rdpTransport \<times> wStream) option" where
  "transport_read_more net t s position n =
     (if position < n then transport_read_layer_bytes net t s (n - position) else Some (1, t, s))"

definition transport_header :: "wStream \<Rightarrow> int \<Rightarrow> int option" where
  "transport_header s i = map_option uint (aget (s_buffer s) i)"

text \<open>The length the header announces: \<open>Inl\<close> is the status of an early return.\<close>

definition transport_pdu_length ::
    "'w net \<Rightarrow> 'w rdpTransport \<Rightarrow> wStream \<Rightarrow> ((int + int) \<times> 'w rdpTransport \<times> wStream) option" where
  "transport_pdu_length net t s = do {
     let position = as_int (s_pos s);
     h0 \<leftarrow> transport_header s 0;
     h1 \<leftarrow> transport_header s 1;
     if tp_NlaMode t then
       if h0 = 0x30 then
         if h1 AND 0x80 \<noteq> 0 then
           if h1 AND 0x7F = 1 then do {
             (status, t, s) \<leftarrow> transport_read_more net t s position 3;
             if status \<noteq> 1 then Some (Inl status, t, s)
             else do { h2 \<leftarrow> transport_header s 2; Some (Inr (h2 + 3), t, s) } }
           else if h1 AND 0x7F = 2 then do {
             (status, t, s) \<leftarrow> transport_read_more net t s position 4;
             if status \<noteq> 1 then Some (Inl status, t, s)
             else do { h2 \<leftarrow> transport_header s 2; h3 \<leftarrow> transport_header s 3;
               Some (Inr ((push_bit 8 h2 OR h3) + 4), t, s) } }
           else Some (Inl (- 1), t, s)
         else Some (Inr (h1 + 2), t, s)
       else Some (Inr 0, t, s)
     else if h0 = 0x03 then do {
       (status, t, s) \<leftarrow> transport_read_more net t s position 4;
       if status \<noteq> 1 then Some (Inl status, t, s)
       else do { h2 \<leftarrow> transport_header s 2; h3 \<leftarrow> transport_header s 3;
         let pduLength = (push_bit 8 h2 OR h3);
         if pduLength < 7 \<or> 0xFFFF < pduLength then Some (Inl (- 1), t, s) else Some (Inr pduLength, t, s) } }
     else do {
       (r, t, s) \<leftarrow> (if h1 AND 0x80 \<noteq> 0 then do {
           (status, t, s) \<leftarrow> transport_read_more net t s position 3;
           if status \<noteq> 1 then Some (Inl status, t, s)
           else do { h2 \<leftarrow> transport_header s 2; Some (Inr (push_bit 8 (h1 AND 0x7F) OR h2), t, s) } }
         else Some (Inr h1, t, s));
       case r of
         Inl status \<Rightarrow> Some (Inl status, t, s)
       | Inr pduLength \<Rightarrow>
           if pduLength < 3 \<or> 0x8000 < pduLength then Some (Inl (- 1), t, s) else Some (Inr pduLength, t, s) } }"

text \<open>The body of a unit of a known length.\<close>

definition transport_read_body ::
    "'w net \<Rightarrow> byte fresh \<Rightarrow> 'w rdpTransport \<Rightarrow> wStream \<Rightarrow> int \<Rightarrow> (int \<times> 'w rdpTransport \<times> wStream) option" where
  "transport_read_body net mem t s pduLength = do {
     (ok, s) \<leftarrow> Stream_EnsureCapacity mem s (csize (s_pos s + pduLength));
     if \<not> ok then Some (- 1, t, s)
     else do {
       (status, t, s) \<leftarrow> transport_read_layer_bytes net t s (pduLength - s_pos s);
       if status \<noteq> 1 then Some (status, t, s)
       else do {
         let s = Stream_SealLength s;
         s \<leftarrow> Stream_SetPosition s 0;
         Some (as_int (s_length s), t, s) } } }"

definition transport_read_pdu ::
    "'w net \<Rightarrow> byte fresh \<Rightarrow> byte fresh \<Rightarrow> 'w rdpTransport \<Rightarrow> wStream \<Rightarrow> (int \<times> 'w rdpTransport \<times> wStream) option" where
  "transport_read_pdu net mem1 mem2 t s = do {
     let position = as_int (s_pos s);
     (ok, s) \<leftarrow> Stream_EnsureCapacity mem1 s 4;
     if \<not> ok then Some (- 1, t, s)
     else do {
       (status, t, s) \<leftarrow> transport_read_more net t s position 2;
       if status \<noteq> 1 then Some (status, t, s)
       else do {
         (r, t, s) \<leftarrow> transport_pdu_length net t s;
         case r of Inl status \<Rightarrow> Some (status, t, s) | Inr pduLength \<Rightarrow> transport_read_body net mem2 t s pduLength } } }"

text \<open>
  Delivering every unit that can be read: \<open>cb\<close> is the receive callback, and the growth of the \<open>n\<close>th
  buffer succeeds or fails as \<open>mem n\<close> says.
\<close>

partial_function (option) transport_check_fds ::
    "'w net \<Rightarrow> ('w rdpTransport \<Rightarrow> wStream \<Rightarrow> int \<times> 'w rdpTransport) \<Rightarrow> (nat \<Rightarrow> byte fresh \<times> byte fresh) \<Rightarrow> nat \<Rightarrow>
      'w rdpTransport \<Rightarrow> (int \<times> 'w rdpTransport) option" where
  "transport_check_fds net cb mem n t =
     (case tp_ReceiveBuffer t of
        None \<Rightarrow> Some (- 1, t)
      | Some s \<Rightarrow>
          (case transport_read_pdu net (fst (mem n)) (snd (mem n)) t s of
             None \<Rightarrow> None
           | Some (status, t, received) \<Rightarrow>
               if status \<le> 0 then Some (status, t\<lparr>tp_ReceiveBuffer := Some received\<rparr>)
               else (case StreamPool_Take net 0 (tp_net t) of (fresh, w) \<Rightarrow>
                 (let t = t\<lparr>tp_net := w, tp_ReceiveBuffer := fresh\<rparr>
                  in if fresh = None then Some (- 1, t)
                     else (case cb t received of (recv_status, t) \<Rightarrow>
                       (let t = t\<lparr>tp_net := Stream_Release net received (tp_net t)\<rparr>
                        in if recv_status = 1 \<or> recv_status = 2 then Some (recv_status, t)
                           else if recv_status < 0 then Some (- 1, t)
                           else transport_check_fds net cb mem (Suc n) t))))))"

section \<open>Writing\<close>

text \<open>The inner loop waits until the buffered BIO has passed on what it took; \<open>True\<close> is an error.\<close>

partial_function (option) transport_flush_loop :: "'w net \<Rightarrow> 'w \<Rightarrow> (bool \<times> 'w) option" where
  "transport_flush_loop net w =
     (if BIO_write_blocked net w then
        (case BIO_wait_write net w of (r, w) \<Rightarrow>
           if r < 0 then Some (True, w)
           else (case BIO_flush net w of (r, w) \<Rightarrow>
             if r < 1 then Some (True, w) else transport_flush_loop net w))
      else Some (False, w))"

text \<open>\<open>Inl\<close> is a return in the middle of the loop, without leaving the critical section.\<close>

partial_function (option) transport_write_loop ::
    "'w net \<Rightarrow> 'w rdpTransport \<Rightarrow> wStream \<Rightarrow> int \<Rightarrow> int \<Rightarrow> ((int + int) \<times> 'w rdpTransport \<times> wStream) option" where
  "transport_write_loop net t s len status =
     (if 0 < len then
        (case ablock (s_buffer s) (s_pos s) len of
           None \<Rightarrow> None
         | Some bs \<Rightarrow>
        (case BIO_write net bs (tp_net t) of (status, w) \<Rightarrow>
           let t = t\<lparr>tp_net := w\<rparr> in
           if status \<le> 0 then
             if \<not> BIO_should_retry net w then Some (Inl status, t, s)
             else if \<not> tp_blocking t then Some (Inl status, t, s)
             else (case BIO_wait_write net w of (r, w) \<Rightarrow>
               if r < 0 then Some (Inl (- 1), t\<lparr>tp_net := w\<rparr>, s)
               else transport_write_loop net (t\<lparr>tp_net := w\<rparr>) s len status)
           else do {
             (bad, w) \<leftarrow> (if tp_blocking t \<or> set_WaitForOutputBufferFlush (tp_settings t)
                          then transport_flush_loop net w else Some (False, w));
             let t = t\<lparr>tp_net := w\<rparr>;
             if bad then Some (Inl (- 1), t, s)
             else do {
               s \<leftarrow> Stream_Seek s status;
               transport_write_loop net t s (len - status) status } }))
      else Some (Inr status, t, s))"

definition transport_write :: "'w net \<Rightarrow> 'w rdpTransport \<Rightarrow> wStream \<Rightarrow> (int \<times> 'w rdpTransport \<times> wStream) option" where
  "transport_write net t s = do {
     let t = t\<lparr>tp_WriteLock := tp_WriteLock t + 1\<rparr>;
     let len = as_int (s_pos s);
     s \<leftarrow> Stream_SetPosition s 0;
     if 0 < len \<and> \<not> tp_frontBio t then None
     else do {
       (r, t, s) \<leftarrow> transport_write_loop net t s len (- 1);
       case r of
         Inl status \<Rightarrow> Some (status, t, s)
       | Inr status \<Rightarrow> do {
           let t = (if status < 0 then t\<lparr>tp_layer := TRANSPORT_LAYER_CLOSED\<rparr> else t);
           let t = (if s_pool s \<noteq> NULL then t\<lparr>tp_net := Stream_Release net s (tp_net t)\<rparr> else t);
           Some (status, t\<lparr>tp_WriteLock := tp_WriteLock t - 1\<rparr>, s) } } }"

definition transport_is_write_blocked :: "'w net \<Rightarrow> 'w rdpTransport \<Rightarrow> bool" where
  "transport_is_write_blocked net t = BIO_write_blocked net (tp_net t)"

definition transport_drain_output_buffer :: "'w net \<Rightarrow> 'w rdpTransport \<Rightarrow> int \<times> 'w rdpTransport" where
  "transport_drain_output_buffer net t =
     (if BIO_write_blocked net (tp_net t)
      then let (r, w) = BIO_flush net (tp_net t); t = t\<lparr>tp_net := w\<rparr>
           in if r < 1 then (- 1, t) else (if BIO_write_blocked net w then 1 else 0, t)
      else (0, t))"

end
