(* ===== verification/WFraming.thy ===== *)
theory WFraming
  imports WTransport
begin

text \<open>
  The lemmas on the transport of \<open>WTransport\<close>: what the BIO chain promises, how the receive buffer holds
  a unit that is still being read, the framing of units, their delivery, and writing.
\<close>

section \<open>What the chain of BIOs promises\<close>

text \<open>
  \<open>inp w\<close> are the bytes still to be read. A read returns the next ones, at most as many as asked for;
  waiting reads none.
\<close>

definition bio_delivers :: "'w net \<Rightarrow> ('w \<Rightarrow> byte list) \<Rightarrow> bool" where
  "bio_delivers net inp \<longleftrightarrow>
     (\<forall>n w bs w'. 0 < n \<longrightarrow> BIO_read net n w = (bs, w') \<longrightarrow> inp w = bs @ inp w' \<and> int (length bs) \<le> n) \<and>
     (\<forall>w r w'. BIO_wait_read net w = (r, w') \<longrightarrow> inp w' = inp w)"

lemma bio_deliversD: "bio_delivers net inp \<Longrightarrow> BIO_read net n w = (bs, w') \<Longrightarrow> 0 < n \<Longrightarrow>
    inp w = bs @ inp w' \<and> int (length bs) \<le> n"
  unfolding bio_delivers_def by blast

text \<open>An open connection whose reads return at least a byte whenever one is there.\<close>

definition bio_eager :: "'w net \<Rightarrow> ('w \<Rightarrow> byte list) \<Rightarrow> bool" where
  "bio_eager net inp \<longleftrightarrow>
     (\<forall>n w w'. 0 < n \<longrightarrow> BIO_read net n w = ([], w') \<longrightarrow> inp w = [] \<and> BIO_should_retry net w')"

definition same_transport :: "'w rdpTransport \<Rightarrow> 'w rdpTransport \<Rightarrow> bool" where
  "same_transport t t' \<longleftrightarrow> (\<exists>w l. t' = t\<lparr>tp_net := w, tp_layer := l\<rparr>)"

lemma same_transport_refl [simp]: "same_transport t t"
  unfolding same_transport_def by (rule exI [of _ "tp_net t"], rule exI [of _ "tp_layer t"]) simp

lemma same_transport_upd [simp]: "same_transport t (t\<lparr>tp_net := w\<rparr>)" "same_transport t (t\<lparr>tp_net := w, tp_layer := l\<rparr>)"
    "same_transport t (t\<lparr>tp_layer := l\<rparr>)"
  unfolding same_transport_def
  by (rule exI [of _ w], rule exI [of _ "tp_layer t"], simp, blast, rule exI [of _ "tp_net t"], rule exI [of _ l], simp)

lemma same_transport_net: "same_transport (t\<lparr>tp_net := w\<rparr>) t' \<Longrightarrow> same_transport t t'"
  by (auto simp: same_transport_def)

lemma same_transportD [dest]: "same_transport t t' \<Longrightarrow> tp_NlaMode t' = tp_NlaMode t \<and> tp_frontBio t' = tp_frontBio t
    \<and> tp_blocking t' = tp_blocking t \<and> tp_ReceiveBuffer t' = tp_ReceiveBuffer t \<and> tp_WriteLock t' = tp_WriteLock t"
  by (auto simp: same_transport_def)

lemma same_transport_trans: "same_transport t t' \<Longrightarrow> same_transport t' t'' \<Longrightarrow> same_transport t t''"
  unfolding same_transport_def by (elim exE, simp) blast

definition read_loop_post ::
    "('w \<Rightarrow> byte list) \<Rightarrow> 'w net \<Rightarrow> 'w rdpTransport \<Rightarrow> byte list \<Rightarrow> int \<Rightarrow> int \<Rightarrow> int \<Rightarrow> int \<times> 'w rdpTransport \<times> byte list \<Rightarrow> bool" where
  "read_loop_post inp net t buf data rd bytes =
     (\<lambda>(r, t', buf'). \<exists>c. inp (tp_net t) = c @ inp (tp_net t') \<and> ablit buf (data + rd) c = Some buf'
        \<and> rd + int (length c) \<le> bytes \<and> same_transport t t' \<and> (r = - 1 \<or> r = rd + int (length c))
        \<and> (r = bytes \<or> r = - 1 \<or> \<not> tp_blocking t)
        \<and> (bio_eager net inp \<longrightarrow> \<not> tp_blocking t \<longrightarrow> r = rd + int (length c) \<and> (r = bytes \<or> inp (tp_net t') = [])))"

lemma read_loop_post:
  assumes "transport_read_loop net t buf data rd bytes = Some res" and "bio_delivers net inp"
    and "0 \<le> rd" and "rd \<le> bytes" and "0 \<le> data" and "data + rd \<le> int (length buf)"
  shows "read_loop_post inp net t buf data rd bytes res"
proof -
  have "bio_delivers net inp \<longrightarrow> 0 \<le> rd \<longrightarrow> rd \<le> bytes \<longrightarrow> 0 \<le> data \<longrightarrow> data + rd \<le> int (length buf) \<longrightarrow>
      read_loop_post inp net t buf data rd bytes res"
  proof (rule transport_read_loop.raw_induct [where P = "\<lambda>net t buf data rd bytes res. bio_delivers net inp \<longrightarrow> 0 \<le> rd \<longrightarrow>
      rd \<le> bytes \<longrightarrow> 0 \<le> data \<longrightarrow> data + rd \<le> int (length buf) \<longrightarrow> read_loop_post inp net t buf data rd bytes res", OF _ assms(1)])
    fix f :: "'a net \<Rightarrow> 'a rdpTransport \<Rightarrow> byte list \<Rightarrow> int \<Rightarrow> int \<Rightarrow> int \<Rightarrow> (int \<times> 'a rdpTransport \<times> byte list) option"
    fix net :: "'a net" and t :: "'a rdpTransport" and buf data rd bytes res
    assume IH: "\<And>net t buf data rd bytes res. f net t buf data rd bytes = Some res \<Longrightarrow> bio_delivers net inp \<longrightarrow> 0 \<le> rd \<longrightarrow>
      rd \<le> bytes \<longrightarrow> 0 \<le> data \<longrightarrow> data + rd \<le> int (length buf) \<longrightarrow> read_loop_post inp net t buf data rd bytes res"
    assume eq: "(if rd < bytes then
        (case BIO_read net (bytes - rd) (tp_net t) of (bs, w) \<Rightarrow>
           if bs = [] then
             if \<not> BIO_should_retry net w
             then Some (- 1, t\<lparr>tp_net := w, tp_layer := TRANSPORT_LAYER_CLOSED\<rparr>, buf)
             else if \<not> tp_blocking t then Some (rd, t\<lparr>tp_net := w\<rparr>, buf)
             else (case BIO_wait_read net w of (r, w) \<Rightarrow>
               if r < 0 then Some (- 1, t\<lparr>tp_net := w\<rparr>, buf)
               else f net (t\<lparr>tp_net := w\<rparr>) buf data rd bytes)
           else do {
             buf \<leftarrow> ablit buf (data + rd) bs;
             f net (t\<lparr>tp_net := w\<rparr>) buf data (rd + int (length bs)) bytes })
      else Some (rd, t, buf)) = Some res"
    show "bio_delivers net inp \<longrightarrow> 0 \<le> rd \<longrightarrow> rd \<le> bytes \<longrightarrow> 0 \<le> data \<longrightarrow> data + rd \<le> int (length buf) \<longrightarrow>
        read_loop_post inp net t buf data rd bytes res"
    proof (intro impI)
      assume d: "bio_delivers net inp" and b: "0 \<le> rd" "rd \<le> bytes" "0 \<le> data" "data + rd \<le> int (length buf)"
      have nil: "ablit buf (data + rd) [] = Some buf" using b by (simp add: ablit_nil)
      obtain bs w where rd: "BIO_read net (bytes - rd) (tp_net t) = (bs, w)" by fastforce
      obtain r w' where wt: "BIO_wait_read net w = (r, w')" by fastforce
      have inw: "inp w' = inp w" using d wt by (simp add: bio_delivers_def)
      consider "\<not> rd < bytes" | "rd < bytes" "bs = []" | "rd < bytes" "bs \<noteq> []" by blast
      then show "read_loop_post inp net t buf data rd bytes res"
      proof cases
        case 1
        then show ?thesis using eq b nil by (auto simp: read_loop_post_def)
      next
        case 2
        then have inp: "inp (tp_net t) = inp w" using bio_deliversD [OF d rd] by simp
        have eager: "bio_eager net inp \<Longrightarrow> inp w = [] \<and> BIO_should_retry net w"
          using 2 rd inp unfolding bio_eager_def by (metis diff_gt_0_iff_gt)
        show ?thesis
        proof (cases "BIO_should_retry net w \<and> tp_blocking t \<and> 0 \<le> r")
          case True
          with eq 2 rd wt have "f net (t\<lparr>tp_net := w'\<rparr>) buf data rd bytes = Some res" by simp
          from IH [OF this] d b have "read_loop_post inp net (t\<lparr>tp_net := w'\<rparr>) buf data rd bytes res" by blast
          then show ?thesis using inp inw True unfolding read_loop_post_def
            by (auto dest: same_transport_net)
        next
          case False
          with eq 2 rd wt nil b show ?thesis using inp inw eager unfolding read_loop_post_def
            by (auto split: if_splits)
        qed
      next
        case 3
        then have inp: "inp (tp_net t) = bs @ inp w" "int (length bs) \<le> bytes - rd" using bio_deliversD [OF d rd] by simp_all
        from eq 3 rd obtain buf1 where b1: "ablit buf (data + rd) bs = Some buf1"
          "f net (t\<lparr>tp_net := w\<rparr>) buf1 data (rd + int (length bs)) bytes = Some res" by (auto split: bind_splits)
        have "data + (rd + int (length bs)) \<le> int (length buf1)" using ablit_length [OF b1(1)] by simp
        with IH [OF b1(2)] d b inp have
          post: "read_loop_post inp net (t\<lparr>tp_net := w\<rparr>) buf1 data (rd + int (length bs)) bytes res" by simp
        obtain r t' buf' where res: "res = (r, t', buf')" by (cases res)
        from post [unfolded read_loop_post_def res] obtain c where c: "inp w = c @ inp (tp_net t')"
          "ablit buf1 (data + (rd + int (length bs))) c = Some buf'" and rest: 
          "rd + int (length bs) + int (length c) \<le> bytes" "same_transport (t\<lparr>tp_net := w\<rparr>) t'"
          "r = - 1 \<or> r = rd + int (length bs) + int (length c)" "r = bytes \<or> r = - 1 \<or> \<not> tp_blocking t"
          "bio_eager net inp \<longrightarrow> \<not> tp_blocking t \<longrightarrow> r = rd + int (length bs) + int (length c) \<and> (r = bytes \<or> inp (tp_net t') = [])"
          by auto
        have "ablit buf (data + rd) (bs @ c) = Some buf'"
          using ablit_trans [OF b1(1)] c(2) by (simp add: add.assoc)
        then show ?thesis using c(1) rest inp(1) same_transport_net [OF rest(2)]
          unfolding read_loop_post_def res by (auto intro!: exI [of _ "bs @ c"])
      qed
    qed
  qed
  then show ?thesis using assms by blast
qed

text \<open>A read that is not blocking returns, and so does a blocking one of a BIO that never asks for a retry.\<close>

definition read_returns :: "'w net \<Rightarrow> 'w rdpTransport \<Rightarrow> bool" where
  "read_returns net t \<longleftrightarrow> \<not> tp_blocking t \<or> (\<forall>w. \<not> BIO_should_retry net w)"

lemma read_returns_same: "same_transport t t' \<Longrightarrow> read_returns net t' = read_returns net t"
  by (auto simp: read_returns_def)

lemma read_loop_total:
  assumes "bio_delivers net inp" and "read_returns net t" and "0 \<le> rd" "0 \<le> data" and "data + max rd bytes \<le> int (length buf)"
  shows "\<exists>res. transport_read_loop net t buf data rd bytes = Some res"
  using assms(2-)
proof (induction "nat (bytes - rd)" arbitrary: t buf rd rule: less_induct)
  case less
  show ?case
  proof (cases "rd < bytes")
    case False
    then show ?thesis by (subst transport_read_loop.simps) simp
  next
    case True
    obtain bs w where rd: "BIO_read net (bytes - rd) (tp_net t) = (bs, w)" by fastforce
    show ?thesis
    proof (cases "bs = []")
      case nil: True
      then have "\<not> BIO_should_retry net w \<or> \<not> tp_blocking t" using less.prems(1) by (auto simp: read_returns_def)
      with nil rd True show ?thesis by (subst transport_read_loop.simps) auto
    next
      case False
      have le: "int (length bs) \<le> bytes - rd" using bio_deliversD [OF assms(1) rd] True by simp
      then obtain buf' where buf': "ablit buf (data + rd) bs = Some buf'" "length buf' = length buf"
        using less.prems(2-) True by (simp add: ablit_def)
      have "nat (bytes - (rd + int (length bs))) < nat (bytes - rd)" using False True by simp
      from less.hyps [OF this, of "t\<lparr>tp_net := w\<rparr>" buf'] less.prems read_returns_same [of t "t\<lparr>tp_net := w\<rparr>" net] le buf'(2) obtain res where
        "transport_read_loop net (t\<lparr>tp_net := w\<rparr>) buf' data (rd + int (length bs)) bytes = Some res" by auto
      with rd False True buf'(1) show ?thesis by (intro exI [of _ res]) (subst transport_read_loop.simps, simp)
    qed
  qed
qed

section \<open>The receive buffer\<close>

lemma holds_header: "holds s p \<Longrightarrow> i < length p \<Longrightarrow> transport_header s (int i) = Some (uint (p ! i))"
proof -
  assume h: "holds s p" and i: "i < length p"
  from i have "take (length p) (s_buffer s) ! i = s_buffer s ! i" by (rule nth_take)
  moreover from h i have "i < length (s_buffer s)" by (simp add: holds_def)
  ultimately show ?thesis using h by (simp add: holds_def transport_header_def aget_int)
qed

text \<open>
  One step of the reader: what it consumed, and the stream it leaves. The status is an error, 0 when the
  bytes ran out, or 1. \<open>e\<close> says that the connection is open, its reads are eager and not blocking.
\<close>

definition read_step :: "('w \<Rightarrow> byte list) \<Rightarrow> bool \<Rightarrow> 'w rdpTransport \<Rightarrow> wStream \<Rightarrow> byte list \<Rightarrow> int \<Rightarrow> int \<Rightarrow> 'w rdpTransport \<Rightarrow> wStream \<Rightarrow> bool" where
  "read_step inp e t s p n st t' s' \<longleftrightarrow>
     (\<exists>c. inp (tp_net t) = c @ inp (tp_net t') \<and> same_transport t t' \<and> (0 \<le> st \<longrightarrow> holds s' (p @ c))
        \<and> s_capacity s' = s_capacity s \<and> int (length c) \<le> n \<and> (st = - 1 \<or> st = 0 \<or> st = 1) \<and> (st = 1 \<longrightarrow> int (length c) = n)
        \<and> (st = 0 \<longrightarrow> int (length c) < n \<or> n = 0)
        \<and> (e \<longrightarrow> st \<noteq> - 1 \<and> (st = 0 \<longrightarrow> n = 0 \<or> inp (tp_net t') = [])))"

lemma read_layer_bytes_step:
  assumes "transport_read_layer_bytes net t s n = Some (st, t', s')" and d: "bio_delivers net inp" and "tp_frontBio t"
    and h: "holds s p" and n: "0 \<le> n" "int (length p) + n \<le> s_capacity s"
  shows "read_step inp (bio_eager net inp \<and> \<not> tp_blocking t) t s p n st t' s'"
proof -
  have n': "as_int n = n" using n h by (simp add: as_int_def holds_def)
  from assms(1,3) n' obtain r buf where loop: "transport_read_loop net t (s_buffer s) (s_pos s) 0 n = Some (r, t', buf)"
    and res: "st = (if r \<le> 0 then r else if r = n then 1 else 0)"
      "r \<le> 0 \<Longrightarrow> s' = s\<lparr>s_buffer := buf\<rparr>" "0 < r \<Longrightarrow> s' = s\<lparr>s_buffer := buf, s_pos := s_pos s + r\<rparr>"
    by (auto simp: transport_read_layer_bytes_def transport_read_layer_def Stream_Seek_def Let_def split: bind_splits if_splits)
  have "read_loop_post inp net t (s_buffer s) (s_pos s) 0 n (r, t', buf)"
    using read_loop_post [OF loop d] n h by (simp add: holds_def)
  then obtain c where c: "inp (tp_net t) = c @ inp (tp_net t')" "ablit (s_buffer s) (s_pos s) c = Some buf"
    "int (length c) \<le> n" "same_transport t t'" "r = - 1 \<or> r = int (length c)"
    "bio_eager net inp \<Longrightarrow> \<not> tp_blocking t \<Longrightarrow> r = int (length c) \<and> (r = n \<or> inp (tp_net t') = [])"
    unfolding read_loop_post_def by auto
  have "holds (s\<lparr>s_buffer := buf, s_pos := s_pos s + int (length c)\<rparr>) (p @ c)" by (rule holds_append [OF h c(2)])
  moreover have "s\<lparr>s_buffer := buf, s_pos := s_pos s + int (length c)\<rparr> = s' \<or> r < 0"
    using res c(5) by (cases "r = 0") auto
  moreover have "s_capacity s' = s_capacity s" using res(2,3) by (cases "r \<le> 0") simp_all
  ultimately show ?thesis using c res unfolding read_step_def
    by (intro exI [of _ c]) auto
qed

lemma read_layer_bytes_total:
  assumes "bio_delivers net inp" and "read_returns net t" and h: "holds s p" and n: "n \<le> 2147483647" "- 2147483648 \<le> n"
    and "0 \<le> n \<Longrightarrow> int (length p) + n \<le> s_capacity s"
  shows "\<exists>st t' s'. transport_read_layer_bytes net t s n = Some (st, t', s')"
proof (cases "tp_frontBio t")
  case True
  have n': "as_int n = n" using n by (simp add: as_int_def)
  have "\<exists>res. transport_read_loop net t (s_buffer s) (s_pos s) 0 n = Some res"
    using assms by (intro read_loop_total) (auto simp: holds_def max_def)
  then obtain r t' buf where loop: "transport_read_loop net t (s_buffer s) (s_pos s) 0 n = Some (r, t', buf)" by auto
  have "r \<le> 0 \<or> Stream_Seek (s\<lparr>s_buffer := buf\<rparr>) r \<noteq> None"
  proof (cases "0 \<le> n")
    case True
    have "read_loop_post inp net t (s_buffer s) (s_pos s) 0 n (r, t', buf)"
      using read_loop_post [OF loop assms(1)] True assms(6) h by (simp add: holds_def)
    then obtain c where "ablit (s_buffer s) (s_pos s) c = Some buf" "r = - 1 \<or> r = int (length c)"
      unfolding read_loop_post_def by auto
    then show ?thesis using ablit_length by (fastforce simp: Stream_Seek_def)
  next
    case False
    then have "r = 0" using loop by (subst (asm) transport_read_loop.simps) simp
    then show ?thesis by simp
  qed
  with loop True n' show ?thesis by (auto simp: transport_read_layer_bytes_def transport_read_layer_def Let_def)
qed (simp add: transport_read_layer_bytes_def transport_read_layer_def)

section \<open>Framing\<close>

text \<open>
  What the first bytes of a unit announce: that more of the header must be read, that it is invalid, or
  the length of the unit.
\<close>

datatype frame = More nat | Bad | Len nat

definition pdu_frame :: "bool \<Rightarrow> byte list \<Rightarrow> frame" where
  "pdu_frame nla q =
     (if length q < 2 then More 2
      else let h = (\<lambda>i. unat (q ! i)) in
        if nla then
          if h 0 = 0x30 then
            if h 1 = 0x81 then (if length q < 3 then More 3 else Len (h 2 + 3))
            else if h 1 = 0x82 then (if length q < 4 then More 4 else Len (h 2 * 256 + h 3 + 4))
            else if 0x80 \<le> h 1 then Bad else Len (h 1 + 2)
          else Len 0
        else if h 0 = 3 then
          if length q < 4 then More 4
          else if h 2 * 256 + h 3 < 7 then Bad else Len (h 2 * 256 + h 3)
        else if 0x80 \<le> h 1 then
          if length q < 3 then More 3
          else if (h 1 - 0x80) * 256 + h 2 < 3 then Bad else Len ((h 1 - 0x80) * 256 + h 2)
        else if h 1 < 3 then Bad else Len (h 1))"

text \<open>The bytes end with the last byte of the header.\<close>

definition pdu_minimal :: "bool \<Rightarrow> byte list \<Rightarrow> bool" where
  "pdu_minimal nla q \<longleftrightarrow> (\<exists>k. pdu_frame nla (butlast q) = More k)"

text \<open>A unit that is still being read: its header, or a header that announces more bytes than there are.\<close>

definition pdu_unfinished :: "bool \<Rightarrow> byte list \<Rightarrow> bool" where
  "pdu_unfinished nla q \<longleftrightarrow> (case pdu_frame nla q of More k \<Rightarrow> True | Bad \<Rightarrow> False | Len n \<Rightarrow> length q < n)"

text \<open>A unit whose header is all of it, or announces less: the reader asks for no byte and reports that none came.\<close>

definition pdu_stuck :: "bool \<Rightarrow> byte list \<Rightarrow> bool" where
  "pdu_stuck nla q \<longleftrightarrow> (\<exists>n. pdu_frame nla q = Len n \<and> n \<le> length q) \<and> pdu_minimal nla q"

lemma byte_and_128: "0 \<le> x \<Longrightarrow> x < 256 \<Longrightarrow> (x AND 128 = 0) \<longleftrightarrow> x < (128::int)"
proof -
  assume "0 \<le> x" "x < 256"
  then have "x div 128 = (if x < 128 then 0 else 1)" by auto
  then show ?thesis by (auto simp: and_128 bit_iff_odd)
qed

lemma and_127: "(x AND 127) = x mod (128::int)"
  using take_bit_eq_mask [of 7 x] by (simp add: take_bit_eq_mod mask_eq_exp_minus_1)

lemma push_or: "0 \<le> b \<Longrightarrow> b < 256 \<Longrightarrow> (push_bit 8 a OR b) = a * 256 + (b::int)"
proof -
  assume "0 \<le> b" "b < 256"
  then have "take_bit 8 b = b" by (simp add: take_bit_int_eq_self)
  then have "push_bit 8 a AND b = push_bit 8 a AND take_bit 8 b" by simp
  also have "\<dots> = 0" by (rule bit_eqI) (auto simp: bit_simps)
  finally have "push_bit 8 a + b = push_bit 8 a OR b" by (rule disjunctive_add_eq_or)
  then show ?thesis by (simp add: push_bit_eq_mult)
qed

lemma byte_range: "0 \<le> uint (b::byte)" "uint b < 256"
  using uint_byte_less [of b] by simp_all

lemma byte_less: "unat (b::byte) < 256"
  using unsigned_less [of b, where ?'a = nat] by simp

lemmas byte_tests = byte_range byte_and_128 and_127 push_or

lemma pdu_frame_bound:
  "pdu_unfinished nla q \<or> pdu_stuck nla q \<Longrightarrow> length q < 65540" "pdu_frame nla q = Len n \<Longrightarrow> n < 65540"
  "pdu_frame nla q = More k \<Longrightarrow> length q < k \<and> k \<le> 4"
proof -
  have b: "unat (b::byte) < 256" for b using unsigned_less [of b] by simp
  show more: "pdu_frame nla q = More k \<Longrightarrow> length q < k \<and> k \<le> 4" for q k
    by (auto simp: pdu_frame_def Let_def split: if_splits)
  show n: "pdu_frame nla q = Len n \<Longrightarrow> n < 65540" for n
    using b [of "q ! 1"] b [of "q ! 2"] b [of "q ! 3"] by (auto simp: pdu_frame_def Let_def split: if_splits)
  then show "length q < 65540" if "pdu_unfinished nla q \<or> pdu_stuck nla q"
    using that more [of "butlast q"] more [of q]
    by (auto simp: pdu_unfinished_def pdu_stuck_def pdu_minimal_def split: frame.splits dest: less_trans order.strict_trans2)
qed

lemma read_more_step:
  assumes rm: "transport_read_more net t s (int (length p)) (int k) = Some (st, t', s')" and d: "bio_delivers net inp" and "tp_frontBio t"
    and h: "holds s p" and k: "int k \<le> s_capacity s"
  shows "\<exists>c. inp (tp_net t) = c @ inp (tp_net t') \<and> same_transport t t' \<and> (c = [] \<or> length (p @ c) \<le> k)
      \<and> s_capacity s' = s_capacity s \<and>
    (st = - 1 \<and> \<not> (bio_eager net inp \<and> \<not> tp_blocking t)
      \<or> st = 0 \<and> holds s' (p @ c) \<and> length (p @ c) < k \<and> (bio_eager net inp \<and> \<not> tp_blocking t \<longrightarrow> inp (tp_net t') = [])
      \<or> st = 1 \<and> holds s' (p @ c) \<and> k \<le> length (p @ c))"
proof (cases "length p < k")
  case False
  with rm h show ?thesis by (intro exI [of _ "[]"]) (auto simp: transport_read_more_def)
next
  case True
  then have "transport_read_layer_bytes net t s (int k - int (length p)) = Some (st, t', s')"
    using rm by (simp add: transport_read_more_def)
  from read_layer_bytes_step [OF this d assms(3) h] True k
  have "read_step inp (bio_eager net inp \<and> \<not> tp_blocking t) t s p (int k - int (length p)) st t' s'" by simp
  then show ?thesis using True unfolding read_step_def by fastforce
qed

lemma read_more_total:
  assumes "bio_delivers net inp" and "read_returns net t" and "holds s p" and "int k \<le> s_capacity s"
  shows "\<exists>st t' s'. transport_read_more net t s (int (length p)) (int k) = Some (st, t', s')"
  using read_layer_bytes_total [OF assms(1-3), of "int k - int (length p)"] assms(3,4)
  by (auto simp: transport_read_more_def holds_def)

lemma pdu_length_step:
  assumes run: "transport_pdu_length net t s = Some (r, t', s')" and d: "bio_delivers net inp" and f: "tp_frontBio t"
    and h: "holds s p" and p: "2 \<le> length p" and cap: "4 \<le> s_capacity s"
  shows "\<exists>c. inp (tp_net t) = c @ inp (tp_net t') \<and> same_transport t t' \<and> (c = [] \<or> pdu_minimal (tp_NlaMode t) (p @ c)) \<and>
    (case r of
       Inl st \<Rightarrow> st = - 1 \<and> (bio_eager net inp \<and> \<not> tp_blocking t \<longrightarrow> pdu_frame (tp_NlaMode t) (p @ c) = Bad)
         \<or> st = 0 \<and> holds s' (p @ c) \<and> (\<exists>k. pdu_frame (tp_NlaMode t) (p @ c) = More k)
            \<and> (bio_eager net inp \<and> \<not> tp_blocking t \<longrightarrow> inp (tp_net t') = [])
     | Inr n \<Rightarrow> holds s' (p @ c) \<and> 0 \<le> n \<and> pdu_frame (tp_NlaMode t) (p @ c) = Len (nat n))"
proof -
  obtain a b where ab: "unat (p ! 0) = a" "unat (p ! 1) = b" by blast
  have l: "0 < length p" "1 < length p" using p by linarith+
  from holds_header [OF h l(1)] holds_header [OF h l(2)]
  have hd: "transport_header s 0 = Some (int a)" "transport_header s 1 = Some (int b)"
    unfolding ab [symmetric] by (simp_all del: One_nat_def)
  have pos: "as_int (s_pos s) = int (length p)" using h by (simp add: holds_def as_int_def)
  have more: "\<And>k st t1 s1. transport_read_more net t s (int (length p)) (int k) = Some (st, t1, s1) \<Longrightarrow> k \<le> 4 \<Longrightarrow>
    \<exists>c. inp (tp_net t) = c @ inp (tp_net t1) \<and> same_transport t t1 \<and> (c = [] \<or> length (p @ c) \<le> k) \<and>
    (st = - 1 \<and> \<not> (bio_eager net inp \<and> \<not> tp_blocking t)
      \<or> st = 0 \<and> holds s1 (p @ c) \<and> length (p @ c) < k \<and> (bio_eager net inp \<and> \<not> tp_blocking t \<longrightarrow> inp (tp_net t1) = [])
      \<or> st = 1 \<and> holds s1 (p @ c) \<and> k \<le> length (p @ c))"
    using read_more_step [OF _ d f h] cap by fastforce
  have b: "b < 256" using unsigned_less [of "p ! 1", where ?'a = nat] ab(2) by simp
  have t128: "(int b AND 128 = 0) = (b < 128)" using byte_and_128 [of "int b"] b by simp
  have t127: "int b AND 127 = int (b mod 128)" by (simp add: and_127 zmod_int)
  have m128: "b mod 128 = b - 128" if "128 \<le> b" using b le_mod_geq [OF that] by simp
  note run = run [unfolded transport_pdu_length_def hd pos]
  have app: "(p @ c) ! 0 = p ! 0" "(p @ c) ! 1 = p ! 1" "\<not> length (p @ c) < 2" for c using p l by (simp_all add: nth_append)
  note frame = pdu_frame_def Let_def app ab if_False
  have hdr: "transport_header s1 (int i) = Some (int (unat ((p @ c) ! i)))" if "holds s1 (p @ c)" "i < length (p @ c)" for s1 c i
    using holds_header [OF that] by simp
  have h23: "transport_header s1 2 = Some (int (unat ((p @ c) ! 2)))" "transport_header s1 3 = Some (int (unat ((p @ c) ! 3)))"
    "push_bit 8 (int (unat ((p @ c) ! 2))) OR int (unat ((p @ c) ! 3)) = int (unat ((p @ c) ! 2) * 256 + unat ((p @ c) ! 3))"
    if "holds s1 (p @ c)" "4 \<le> length (p @ c)" for s1 c
    using hdr [OF that(1), of 2] hdr [OF that(1), of 3] that(2)
      push_or [of "int (unat ((p @ c) ! 3))" "int (unat ((p @ c) ! 2))"] byte_range [of "(p @ c) ! 3"] by simp_all
  have fin: ?thesis if m: "transport_read_more net t s (int (length p)) (int k) = Some (st, t1, s1)" and k: "k \<le> 4"
    and f1: "st \<noteq> 1 \<Longrightarrow> r = Inl st \<and> t' = t1 \<and> s' = s1"
    and f2: "\<And>c. length (p @ c) < k \<Longrightarrow> pdu_frame (tp_NlaMode t) (p @ c) = More k"
    and f3: "\<And>c. st = 1 \<Longrightarrow> holds s1 (p @ c) \<Longrightarrow> k \<le> length (p @ c) \<Longrightarrow> t' = t1
      \<and> (r = Inl (- 1) \<and> pdu_frame (tp_NlaMode t) (p @ c) = Bad
          \<or> (\<exists>n. r = Inr (int n) \<and> s' = s1 \<and> pdu_frame (tp_NlaMode t) (p @ c) = Len n))" for k st t1 s1
  proof -
    from more [OF m k] obtain c where c: "inp (tp_net t) = c @ inp (tp_net t1)" "same_transport t t1"
      "c = [] \<or> length (p @ c) \<le> k" and st: "st = - 1 \<and> \<not> (bio_eager net inp \<and> \<not> tp_blocking t)
      \<or> st = 0 \<and> holds s1 (p @ c) \<and> length (p @ c) < k \<and> (bio_eager net inp \<and> \<not> tp_blocking t \<longrightarrow> inp (tp_net t1) = [])
      \<or> st = 1 \<and> holds s1 (p @ c) \<and> k \<le> length (p @ c)" by auto
    have c4: "c = [] \<or> pdu_minimal (tp_NlaMode t) (p @ c)"
    proof (cases "c = []")
      case False
      then have "length (p @ butlast c) < k" using c(3) by (cases c rule: rev_cases) auto
      from f2 [OF this] False show ?thesis by (simp add: pdu_minimal_def butlast_append)
    qed simp
    from st show ?thesis
    proof (elim disjE conjE)
      assume "st = - 1" "\<not> (bio_eager net inp \<and> \<not> tp_blocking t)"
      with c(1,2) c4 f1 show ?thesis by (intro exI [of _ c]) auto
    next
      assume "st = 0" "holds s1 (p @ c)" "length (p @ c) < k" "bio_eager net inp \<and> \<not> tp_blocking t \<longrightarrow> inp (tp_net t1) = []"
      with c(1,2) c4 f1 f2 [of c] show ?thesis by (intro exI [of _ c]) auto
    next
      assume "st = 1" "holds s1 (p @ c)" "k \<le> length (p @ c)"
      with c(1,2) c4 f3 [of c] show ?thesis by (intro exI [of _ c]) auto
    qed
  qed
  consider (A) "tp_NlaMode t" "a = 0x30" "b = 0x81" | (B) "tp_NlaMode t" "a = 0x30" "b = 0x82"
    | (C) "tp_NlaMode t" "a = 0x30" "128 \<le> b" "b \<noteq> 0x81" "b \<noteq> 0x82" | (D) "tp_NlaMode t" "a = 0x30" "b < 128"
    | (E) "tp_NlaMode t" "a \<noteq> 0x30" | (F) "\<not> tp_NlaMode t" "a = 3" | (G) "\<not> tp_NlaMode t" "a \<noteq> 3" "128 \<le> b"
    | (H) "\<not> tp_NlaMode t" "a \<noteq> 3" "b < 128" by linarith
  then show ?thesis
  proof cases
    case C
    then have m: "b mod 128 \<noteq> 1" "b mod 128 \<noteq> 2" using m128 by linarith+
    have r: "r = Inl (- 1)" "t' = t" using run C m t128 t127 by simp_all
    have "pdu_frame True (p @ []) = Bad" unfolding frame using C p by simp
    with r C show ?thesis by (intro exI [of _ "[]"]) simp
  next
    case D
    have r: "r = Inr (int b + 2)" "t' = t" "s' = s" using run D t128 by simp_all
    have "pdu_frame True (p @ []) = Len (b + 2)" unfolding frame using D p by simp
    with r D h show ?thesis by (intro exI [of _ "[]"]) (simp add: nat_add_distrib)
  next
    case E
    have r: "r = Inr 0" "t' = t" "s' = s" using run E by simp_all
    have "pdu_frame True (p @ []) = Len 0" unfolding frame using E p by simp
    with r E h show ?thesis by (intro exI [of _ "[]"]) simp
  next
    case H
    have r: "r = (if b < 3 then Inl (- 1) else Inr (int b))" "t' = t" "s' = s"
      using run H b t128 by (simp_all split: if_splits)
    have "pdu_frame False (p @ []) = (if b < 3 then Bad else Len b)" unfolding frame using H p by simp
    with r H h show ?thesis by (intro exI [of _ "[]"]) simp
  next
    case A
    obtain st t1 s1 where m: "transport_read_more net t s (int (length p)) (int 3) = Some (st, t1, s1)"
      using run A t128 t127 by (auto split: bind_splits)
    show ?thesis
    proof (rule fin [OF m])
      show "r = Inl st \<and> t' = t1 \<and> s' = s1" if "st \<noteq> 1" using run A m that t128 t127 by simp
      show "pdu_frame (tp_NlaMode t) (p @ c) = More 3" if "length (p @ c) < 3" for c unfolding frame using that A p by simp
    next
      fix c assume s: "st = 1" "holds s1 (p @ c)" "3 \<le> length (p @ c)"
      from hdr [OF s(2), of 2] s(3) have "transport_header s1 2 = Some (int (unat ((p @ c) ! 2)))" by simp
      with A run m s t128 t127 have r: "r = Inr (int (unat ((p @ c) ! 2)) + 3)" "t' = t1" "s' = s1" by simp_all
      have "pdu_frame True (p @ c) = Len (unat ((p @ c) ! 2) + 3)" unfolding frame using s(3) A p by simp
      with r A show "t' = t1 \<and> (r = Inl (- 1) \<and> pdu_frame (tp_NlaMode t) (p @ c) = Bad
          \<or> (\<exists>n. r = Inr (int n) \<and> s' = s1 \<and> pdu_frame (tp_NlaMode t) (p @ c) = Len n))"
        by (auto intro!: exI [of _ "unat ((p @ c) ! 2) + 3"])
    qed simp
  next
    case B
    obtain st t1 s1 where m: "transport_read_more net t s (int (length p)) (int 4) = Some (st, t1, s1)"
      using run B t128 t127 by (auto split: bind_splits)
    show ?thesis
    proof (rule fin [OF m])
      show "r = Inl st \<and> t' = t1 \<and> s' = s1" if "st \<noteq> 1" using run B m that t128 t127 by simp
      show "pdu_frame (tp_NlaMode t) (p @ c) = More 4" if "length (p @ c) < 4" for c unfolding frame using that B p by simp
    next
      fix c assume s: "st = 1" "holds s1 (p @ c)" "4 \<le> length (p @ c)"
      note h23 = h23 [OF s(2,3)]
      let ?n = "unat ((p @ c) ! 2) * 256 + unat ((p @ c) ! 3) + 4"
      have r: "r = Inr (int ?n)" "t' = t1" "s' = s1" using B run m s(1) t128 t127 h23 by simp_all
      have "pdu_frame True (p @ c) = Len ?n" unfolding frame using s(3) B p by simp
      with r B show "t' = t1 \<and> (r = Inl (- 1) \<and> pdu_frame (tp_NlaMode t) (p @ c) = Bad
          \<or> (\<exists>n. r = Inr (int n) \<and> s' = s1 \<and> pdu_frame (tp_NlaMode t) (p @ c) = Len n))" by auto
    qed simp
  next
    case F
    obtain st t1 s1 where m: "transport_read_more net t s (int (length p)) (int 4) = Some (st, t1, s1)"
      using run F by (auto split: bind_splits)
    show ?thesis
    proof (rule fin [OF m])
      show "r = Inl st \<and> t' = t1 \<and> s' = s1" if "st \<noteq> 1" using run F m that by simp
      show "pdu_frame (tp_NlaMode t) (p @ c) = More 4" if "length (p @ c) < 4" for c unfolding frame using that F p by simp
    next
      fix c assume s: "st = 1" "holds s1 (p @ c)" "4 \<le> length (p @ c)"
      obtain x y where xy: "unat ((p @ c) ! 2) = x" "unat ((p @ c) ! 3) = y" by blast
      note h23 = h23 [OF s(2,3), unfolded xy]
      let ?n = "x * 256 + y"
      have n: "?n \<le> 65535" using byte_less [of "(p @ c) ! 2"] byte_less [of "(p @ c) ! 3"] xy by linarith
      have r: "r = (if ?n < 7 then Inl (- 1) else Inr (int ?n))" "t' = t1" "s' = s1"
        using F run m s(1) h23 n by (simp_all add: Let_def split: if_splits)
      have "pdu_frame False (p @ c) = (if ?n < 7 then Bad else Len ?n)" unfolding frame xy using s(3) F p by simp
      with r F show "t' = t1 \<and> (r = Inl (- 1) \<and> pdu_frame (tp_NlaMode t) (p @ c) = Bad
          \<or> (\<exists>n. r = Inr (int n) \<and> s' = s1 \<and> pdu_frame (tp_NlaMode t) (p @ c) = Len n))" by auto
    qed simp
  next
    case G
    obtain st t1 s1 where m: "transport_read_more net t s (int (length p)) (int 3) = Some (st, t1, s1)"
      using run G t128 by (auto split: bind_splits)
    show ?thesis
    proof (rule fin [OF m])
      show "r = Inl st \<and> t' = t1 \<and> s' = s1" if "st \<noteq> 1" using run G m that t128 by simp
      show "pdu_frame (tp_NlaMode t) (p @ c) = More 3" if "length (p @ c) < 3" for c unfolding frame using that G p by simp
    next
      fix c assume s: "st = 1" "holds s1 (p @ c)" "3 \<le> length (p @ c)"
      obtain x where x: "unat ((p @ c) ! 2) = x" by blast
      from hdr [OF s(2), of 2, unfolded x] s(3) have h2: "transport_header s1 2 = Some (int x)" by simp
      obtain e where e: "b - 128 = e" by blast
      let ?n = "e * 256 + x"
      have x': "x < 256" using byte_less [of "(p @ c) ! 2"] x by simp
      then have n: "?n \<le> 0x8000" using b e by linarith
      have v: "int b AND 127 = int e" "push_bit 8 (int e) OR int x = int ?n"
        using push_or [of "int x" "int e"] x' m128 [OF G(3)] t127 e by simp_all
      have r: "r = (if ?n < 3 then Inl (- 1) else Inr (int ?n))" "t' = t1" "s' = s1"
        using G(1,2) not_less [THEN iffD2, OF G(3)] run m s(1) t128 h2 n v by (simp_all add: Let_def split: if_splits)
      have "pdu_frame False (p @ c) = (if ?n < 3 then Bad else Len ?n)" unfolding frame x e using s(3) G p by simp
      with r G show "t' = t1 \<and> (r = Inl (- 1) \<and> pdu_frame (tp_NlaMode t) (p @ c) = Bad
          \<or> (\<exists>n. r = Inr (int n) \<and> s' = s1 \<and> pdu_frame (tp_NlaMode t) (p @ c) = Len n))" by auto
    qed simp
  qed
qed

lemma pdu_frame_Len_append:
  assumes "pdu_frame nla q = Len n"
  shows "pdu_frame nla (q @ c) = Len n"
proof -
  obtain k where k: "k = (if nla \<and> unat (q ! 0) = 48 then (if unat (q ! 1) = 129 then 3 else if unat (q ! 1) = 130 then 4 else 2)
      else if nla then 2 else if unat (q ! 0) = 3 then 4 else if 128 \<le> unat (q ! 1) then 3 else (2::nat))" by blast
  have "k \<le> length q" "2 \<le> length q"
    using assms unfolding k pdu_frame_def Let_def by (simp_all split: if_splits)
  then have nth: "(q @ c) ! 0 = q ! 0" "(q @ c) ! 1 = q ! 1" "2 < k \<Longrightarrow> (q @ c) ! 2 = q ! 2" "3 < k \<Longrightarrow> (q @ c) ! 3 = q ! 3"
    "\<not> length q < 2" "\<not> length (q @ c) < 2" "2 < k \<Longrightarrow> \<not> length q < 3 \<and> \<not> length (q @ c) < 3"
    "3 < k \<Longrightarrow> \<not> length q < 4 \<and> \<not> length (q @ c) < 4"
    by (auto simp: nth_append)
  have "pdu_frame nla (q @ c) = pdu_frame nla q"
    unfolding pdu_frame_def Let_def nth(1,2) using nth(3-) k
    by (cases nla; cases "unat (q ! 0) = 48"; cases "unat (q ! 0) = 3"; cases "unat (q ! 1) = 129"; cases "unat (q ! 1) = 130"; simp)
  then show ?thesis using assms by simp
qed

lemma read_layer_bytes_none:
  assumes "tp_frontBio t" and "n \<le> 0" and "- 2147483648 \<le> n"
  shows "transport_read_layer_bytes net t s n = Some (0, t, s)"
proof -
  have "as_int n = n" using assms(2,3) by (simp add: as_int_def)
  then show ?thesis using assms
    by (simp add: transport_read_layer_bytes_def transport_read_layer_def transport_read_loop.simps)
qed

lemma holds_done:
  assumes "holds s p"
  shows "\<exists>s'. Stream_SetPosition (Stream_SealLength s) 0 = Some s' \<and> s_length s' = int (length p)
    \<and> s_ok s' \<and> s_pos s' = 0 \<and> s_rest s' = p \<and> as_int (s_length s') = int (length p)"
proof -
  have "csize (s_pos s) = int (length p)" using assms by (simp add: holds_def csize_def)
  then show ?thesis using assms
    by (auto simp: holds_def Stream_SetPosition_def Stream_SealLength_def s_ok_def s_rest_def as_int_def)
qed

definition read_result :: "('w \<Rightarrow> byte list) \<Rightarrow> bool \<Rightarrow> 'w rdpTransport \<Rightarrow> byte list \<Rightarrow> int \<Rightarrow> 'w rdpTransport \<Rightarrow> wStream \<Rightarrow> bool" where
  "read_result inp e t p st t' s' \<longleftrightarrow>
     (\<exists>c. inp (tp_net t) = c @ inp (tp_net t') \<and> same_transport t t' \<and>
       (st = - 1 \<and> (e \<longrightarrow> pdu_frame (tp_NlaMode t) (p @ c) = Bad)
        \<or> st = 0 \<and> holds s' (p @ c)
          \<and> (pdu_unfinished (tp_NlaMode t) (p @ c) \<and> (e \<longrightarrow> inp (tp_net t') = []) \<or> pdu_stuck (tp_NlaMode t) (p @ c))
        \<or> st = int (length (p @ c)) \<and> pdu_frame (tp_NlaMode t) (p @ c) = Len (length (p @ c)) \<and> p @ c \<noteq> []
          \<and> s_ok s' \<and> s_pos s' = 0 \<and> s_rest s' = p @ c))"

lemma read_resultI:
  "inp (tp_net t) = c @ inp (tp_net t') \<Longrightarrow> same_transport t t' \<Longrightarrow>
    st = - 1 \<and> (e \<longrightarrow> pdu_frame (tp_NlaMode t) (p @ c) = Bad)
        \<or> st = 0 \<and> holds s' (p @ c)
          \<and> (pdu_unfinished (tp_NlaMode t) (p @ c) \<and> (e \<longrightarrow> inp (tp_net t') = []) \<or> pdu_stuck (tp_NlaMode t) (p @ c))
        \<or> st = int (length (p @ c)) \<and> pdu_frame (tp_NlaMode t) (p @ c) = Len (length (p @ c)) \<and> p @ c \<noteq> []
          \<and> s_ok s' \<and> s_pos s' = 0 \<and> s_rest s' = p @ c \<Longrightarrow> read_result inp e t p st t' s'"
  unfolding read_result_def by blast

lemma read_result_from:
  assumes "read_result inp e t1 (p @ c) st t' s'" and "inp (tp_net t) = c @ inp (tp_net t1)" and "same_transport t t1"
  shows "read_result inp e t p st t' s'"
proof -
  have "tp_NlaMode t1 = tp_NlaMode t" using assms(3) by auto
  with assms(1) obtain c' where c': "inp (tp_net t1) = c' @ inp (tp_net t')" "same_transport t1 t'"
    "st = - 1 \<and> (e \<longrightarrow> pdu_frame (tp_NlaMode t) ((p @ c) @ c') = Bad)
        \<or> st = 0 \<and> holds s' ((p @ c) @ c')
          \<and> (pdu_unfinished (tp_NlaMode t) ((p @ c) @ c') \<and> (e \<longrightarrow> inp (tp_net t') = []) \<or> pdu_stuck (tp_NlaMode t) ((p @ c) @ c'))
        \<or> st = int (length ((p @ c) @ c')) \<and> pdu_frame (tp_NlaMode t) ((p @ c) @ c') = Len (length ((p @ c) @ c'))
          \<and> (p @ c) @ c' \<noteq> [] \<and> s_ok s' \<and> s_pos s' = 0 \<and> s_rest s' = (p @ c) @ c'"
    unfolding read_result_def by (elim exE conjE) simp
  show ?thesis
    by (rule read_resultI [where c = "c @ c'"])
      (use c'(1) assms(2) same_transport_trans [OF assms(3) c'(2)] c'(3) [unfolded append_assoc] in \<open>simp_all only: append_assoc\<close>)
qed

lemma read_body_step:
  assumes run: "transport_read_body net mem t s n = Some (st, t', s')" and d: "bio_delivers net inp" and f: "tp_frontBio t"
    and h: "holds s q" and n: "0 \<le> n" and fr: "pdu_frame (tp_NlaMode t) q = Len (nat n)" and q4: "pdu_minimal (tp_NlaMode t) q \<or> length q < nat n"
  shows "read_result inp (bio_eager net inp \<and> \<not> tp_blocking t \<and> mem \<noteq> None) t q st t' s'"
proof -
  let ?e = "bio_eager net inp \<and> \<not> tp_blocking t \<and> mem \<noteq> None" and ?nla = "tp_NlaMode t"
  have "pdu_unfinished ?nla q \<or> pdu_stuck ?nla q" using fr q4 by (auto simp: pdu_unfinished_def pdu_stuck_def not_less)
  then have bound: "n < 65540" "length q < 65540" using pdu_frame_bound(2) [OF fr] pdu_frame_bound(1) n by auto
  have sz: "csize (s_pos s + n) = int (length q) + n" using h n bound by (simp add: holds_def csize_def)
  have "int (length q) + n \<le> 1073741823" using bound by simp
  from ensure_total [OF h this, of mem] holds_ensure [OF h this] obtain ok s3 where
    e: "Stream_EnsureCapacity mem s (int (length q) + n) = Some (ok, s3)" "mem = None \<or> ok"
      "ok \<Longrightarrow> holds s3 q \<and> int (length q) + n \<le> s_capacity s3" by meson
  show ?thesis
  proof (cases ok)
    case False
    with run sz e have res: "st = - 1" "t' = t" by (simp_all add: transport_read_body_def)
    with e(2) False show ?thesis by (intro read_resultI [where c = "[]"]) auto
  next
    case True
    have h3: "holds s3 q" "int (length q) + n \<le> s_capacity s3" "s_pos s3 = int (length q)"
      using e(3) [OF True] unfolding holds_def by blast+
    note run = run [unfolded transport_read_body_def sz e(1)]
    from run True h3(3) obtain st4 t4 s4 where
      b: "transport_read_layer_bytes net t s3 (n - int (length q)) = Some (st4, t4, s4)" by (auto split: bind_splits)
    have res: "if st4 = 1 then t' = t4 \<and> Stream_SetPosition (Stream_SealLength s4) 0 = Some s' \<and> st = as_int (s_length s')
        else st = st4 \<and> t' = t4 \<and> s' = s4"
      using run True h3(3) b by (auto simp: Let_def split: bind_splits)
    show ?thesis
    proof (cases "n \<le> int (length q)")
      case True
      have "st4 = 0" "t4 = t" "s4 = s3" using read_layer_bytes_none [OF f, of "n - int (length q)"] True b bound n by simp_all
      with res have "st = 0" "t' = t" "s' = s3" by simp_all
      moreover have "pdu_stuck ?nla q" using fr True q4 by (auto simp: pdu_stuck_def)
      ultimately show ?thesis using h3(1) by (intro read_resultI [where c = "[]"]) auto
    next
      case False
      from read_layer_bytes_step [OF b d f h3(1)] False h3(2) n obtain c where c:
        "inp (tp_net t) = c @ inp (tp_net t4)" "same_transport t t4" "0 \<le> st4 \<Longrightarrow> holds s4 (q @ c)"
        "st4 = - 1 \<or> st4 = 0 \<or> st4 = 1" "st4 = 1 \<Longrightarrow> int (length c) = n - int (length q)"
        "st4 = 0 \<Longrightarrow> int (length c) < n - int (length q)" "?e \<Longrightarrow> st4 \<noteq> - 1 \<and> (st4 = 0 \<longrightarrow> inp (tp_net t4) = [])"
        unfolding read_step_def by auto
      have fr': "pdu_frame ?nla (q @ c) = Len (nat n)" by (rule pdu_frame_Len_append [OF fr])
      have "st4 = 0 \<Longrightarrow> pdu_unfinished ?nla (q @ c)" using fr' c(6) by (auto simp: pdu_unfinished_def)
      moreover have "st = int (length (q @ c)) \<and> int (length (q @ c)) = n \<and> s_ok s' \<and> s_pos s' = 0 \<and> s_rest s' = q @ c"
        if "st4 = 1" using holds_done [OF c(3)] that res c(5) by auto
      ultimately show ?thesis using c res fr' False
        by (intro read_resultI [where c = c]) auto
    qed
  qed
qed

lemma read_result_weaken: "read_result inp e t p st t' s' \<Longrightarrow> (e' \<Longrightarrow> e) \<Longrightarrow> read_result inp e' t p st t' s'"
  unfolding read_result_def by (elim exE, rule exI) blast

lemma read_pdu_step:
  assumes run: "transport_read_pdu net mem1 mem2 t s = Some (st, t', s')" and d: "bio_delivers net inp" and f: "tp_frontBio t"
    and h: "holds s p" and pre: "pdu_unfinished (tp_NlaMode t) p \<or> pdu_stuck (tp_NlaMode t) p"
  shows "read_result inp (bio_eager net inp \<and> \<not> tp_blocking t \<and> mem1 \<noteq> None \<and> mem2 \<noteq> None) t p st t' s'"
proof -
  let ?e = "bio_eager net inp \<and> \<not> tp_blocking t" and ?nla = "tp_NlaMode t"
  have pos: "as_int (s_pos s) = int (length p)" using h by (simp add: holds_def as_int_def)
  obtain ok s0 where e1: "Stream_EnsureCapacity mem1 s 4 = Some (ok, s0)" "mem1 = None \<or> ok"
    using ensure_total [OF h, of 4 mem1] by auto
  note run = run [unfolded transport_read_pdu_def e1(1) pos]
  show ?thesis
  proof (cases ok)
    case False
    with run e1 show ?thesis by (intro read_resultI [where c = "[]"]) auto
  next
    case True
    have h0: "holds s0 p" "4 \<le> s_capacity s0" using holds_ensure [OF h _ e1(1) True] by simp_all
    from run True obtain st1 t1 s1 where m1: "transport_read_more net t s0 (int (length p)) (int 2) = Some (st1, t1, s1)"
      by (auto split: bind_splits)
    have m1': "transport_read_more net t s0 (int (length p)) 2 = Some (st1, t1, s1)" using m1 by simp
    from read_more_step [OF m1 d f h0(1)] h0(2) obtain c1 where c1: "inp (tp_net t) = c1 @ inp (tp_net t1)"
      "same_transport t t1" "c1 = [] \<or> length (p @ c1) \<le> 2" "s_capacity s1 = s_capacity s0" and st1: "st1 = - 1 \<and> \<not> ?e
        \<or> st1 = 0 \<and> holds s1 (p @ c1) \<and> length (p @ c1) < 2 \<and> (?e \<longrightarrow> inp (tp_net t1) = [])
        \<or> st1 = 1 \<and> holds s1 (p @ c1) \<and> 2 \<le> length (p @ c1)" by auto
    show ?thesis
    proof (cases "st1 = 1")
      case False
      with run True m1' have r: "st = st1" "t' = t1" "s' = s1" by simp_all
      have "length (p @ c1) < 2 \<Longrightarrow> pdu_unfinished ?nla (p @ c1)" by (simp add: pdu_unfinished_def pdu_frame_def)
      then show ?thesis using st1 False c1 r by (intro read_resultI [where c = c1]) auto
    next
      case s1: True
      then have h1: "holds s1 (p @ c1)" "2 \<le> length (p @ c1)" using st1 by auto
      have cap: "4 \<le> s_capacity s1" using c1(4) h0(2) by simp
      from run True s1 m1' obtain r t2 s2 where l: "transport_pdu_length net t1 s1 = Some (r, t2, s2)"
        by (auto split: bind_splits)
      have f1: "tp_frontBio t1" "tp_NlaMode t1 = ?nla" "tp_blocking t1 = tp_blocking t" using c1(2) f by auto
      from pdu_length_step [OF l d f1(1) h1 cap, unfolded f1(2,3) append_assoc] obtain c2 where c2: "inp (tp_net t1) = c2 @ inp (tp_net t2)"
        "same_transport t1 t2" "c2 = [] \<or> pdu_minimal ?nla (p @ c1 @ c2)" and r: "case r of
          Inl st \<Rightarrow> st = - 1 \<and> (?e \<longrightarrow> pdu_frame ?nla (p @ c1 @ c2) = Bad)
           \<or> st = 0 \<and> holds s2 (p @ c1 @ c2) \<and> (\<exists>k. pdu_frame ?nla (p @ c1 @ c2) = More k) \<and> (?e \<longrightarrow> inp (tp_net t2) = [])
        | Inr n \<Rightarrow> holds s2 (p @ c1 @ c2) \<and> 0 \<le> n \<and> pdu_frame ?nla (p @ c1 @ c2) = Len (nat n)" by blast
      have same: "same_transport t t2" using same_transport_trans c1(2) c2(2) by blast
      have inp2: "inp (tp_net t) = (c1 @ c2) @ inp (tp_net t2)" using c1(1) c2(1) by simp
      show ?thesis
      proof (cases r)
        case (Inl x)
        with run True s1 m1' l have res: "st = x" "t' = t2" "s' = s2" by simp_all
        show ?thesis using r Inl res inp2 same
          by (intro read_resultI [where c = "c1 @ c2"]) (auto simp: pdu_unfinished_def)
      next
        case (Inr n)
        have h2: "holds s2 (p @ c1 @ c2)" "0 \<le> n" "pdu_frame ?nla (p @ c1 @ c2) = Len (nat n)" using r Inr by auto
        have q4: "pdu_minimal ?nla (p @ c1 @ c2) \<or> length (p @ c1 @ c2) < nat n"
        proof (cases "c2 = []")
          case True
          show ?thesis
          proof (cases "c1 = []")
            case False
            then have "length (butlast (p @ c1)) < 2" using c1(3) by (cases c1 rule: rev_cases) auto
            then show ?thesis using True by (simp add: pdu_minimal_def pdu_frame_def)
          qed (use True pre h2(3) in \<open>auto simp: pdu_unfinished_def pdu_stuck_def\<close>)
        qed (use c2(3) in blast)
        have f2: "tp_frontBio t2" "tp_NlaMode t2 = ?nla" "tp_blocking t2 = tp_blocking t" using same f by auto
        from run True s1 m1' l Inr have "transport_read_body net mem2 t2 s2 n = Some (st, t', s')" by simp
        from read_body_step [OF this d f2(1) h2(1,2), unfolded f2(2,3), OF h2(3) q4]
        have "read_result inp (?e \<and> mem2 \<noteq> None) t2 (p @ c1 @ c2) st t' s'" by simp
        then have "read_result inp (?e \<and> mem2 \<noteq> None) t p st t' s'"
          by (rule read_result_from) (use inp2 same in simp_all)
        then show ?thesis by (rule read_result_weaken) simp
      qed
    qed
  qed
qed

lemma pdu_length_total:
  assumes d: "bio_delivers net inp" and f: "tp_frontBio t" and nb: "read_returns net t"
    and h: "holds s p" and p: "2 \<le> length p" and cap: "4 \<le> s_capacity s"
  shows "\<exists>r t' s'. transport_pdu_length net t s = Some (r, t', s')"
proof -
  have l: "0 < length p" "1 < length p" using p by linarith+
  from holds_header [OF h l(1)] holds_header [OF h l(2)]
  obtain a b where hd: "transport_header s 0 = Some a" "transport_header s 1 = Some b" by simp
  have pos: "as_int (s_pos s) = int (length p)" using h by (simp add: holds_def as_int_def)
  have more: "\<exists>st t1 s1. transport_read_more net t s (int (length p)) (int k) = Some (st, t1, s1)
      \<and> (st = 1 \<longrightarrow> (\<forall>i < k. \<exists>v. transport_header s1 (int i) = Some v))" if "k \<le> 4" for k
  proof -
    have k: "int k \<le> s_capacity s" using that cap by simp
    obtain st t1 s1 where m: "transport_read_more net t s (int (length p)) (int k) = Some (st, t1, s1)"
      using read_more_total [OF d nb h k] by blast
    from read_more_step [OF m d f h k] obtain c where "st = 1 \<Longrightarrow> holds s1 (p @ c) \<and> k \<le> length (p @ c)" by auto
    then have "st = 1 \<longrightarrow> (\<forall>i < k. \<exists>v. transport_header s1 (int i) = Some v)"
      using holds_header [of s1 "p @ c"] by (meson less_le_trans)
    with m show ?thesis by blast
  qed
  from more [of 3] obtain st t1 s1 where m3: "transport_read_more net t s (int (length p)) 3 = Some (st, t1, s1)"
    and i3: "\<And>i. st = 1 \<Longrightarrow> i < 3 \<Longrightarrow> \<exists>v. transport_header s1 (int i) = Some v" by auto
  from more [of 4] obtain st' t1' s1' where m4: "transport_read_more net t s (int (length p)) 4 = Some (st', t1', s1')"
    and i4: "\<And>i. st' = 1 \<Longrightarrow> i < 4 \<Longrightarrow> \<exists>v. transport_header s1' (int i) = Some v" by auto
  show ?thesis
    using i3 [of 2] i4 [of 2] i4 [of 3]
    by (cases "st = 1"; cases "st' = 1") (auto simp: transport_pdu_length_def hd pos m3 m4 Let_def)
qed

lemma read_body_total:
  assumes d: "bio_delivers net inp" and f: "tp_frontBio t" and nb: "read_returns net t"
    and h: "holds s q" and n: "0 \<le> n" "n < 65540" "length q < 65540"
  shows "\<exists>r. transport_read_body net mem t s n = Some r"
proof -
  have sz: "csize (s_pos s + n) = int (length q) + n" using h n by (simp add: holds_def csize_def)
  have "int (length q) + n \<le> 1073741823" using n by simp
  from ensure_total [OF h this, of mem] holds_ensure [OF h this] obtain ok s3 where
    e: "Stream_EnsureCapacity mem s (int (length q) + n) = Some (ok, s3)"
      "ok \<Longrightarrow> holds s3 q \<and> int (length q) + n \<le> s_capacity s3" by meson
  show ?thesis
  proof (cases ok)
    case False
    with sz e show ?thesis by (simp add: transport_read_body_def)
  next
    case True
    have h3: "holds s3 q" "int (length q) + n \<le> s_capacity s3" "s_pos s3 = int (length q)"
      using e(2) [OF True] unfolding holds_def by blast+
    have "\<exists>st t' s'. transport_read_layer_bytes net t s3 (n - int (length q)) = Some (st, t', s')"
      using h3 n by (intro read_layer_bytes_total [OF d nb h3(1)]) auto
    then obtain st t' s' where b: "transport_read_layer_bytes net t s3 (n - int (length q)) = Some (st, t', s')" by blast
    have "\<exists>s''. Stream_SetPosition (Stream_SealLength s') 0 = Some s''"
      by (simp add: Stream_SetPosition_def)
    with sz e True h3(3) b show ?thesis by (auto simp: transport_read_body_def Let_def)
  qed
qed

lemma read_pdu_total:
  assumes d: "bio_delivers net inp" and f: "tp_frontBio t" and nb: "read_returns net t"
    and h: "holds s p" and pre: "pdu_unfinished (tp_NlaMode t) p \<or> pdu_stuck (tp_NlaMode t) p"
  shows "\<exists>r. transport_read_pdu net mem1 mem2 t s = Some r"
proof -
  have pos: "as_int (s_pos s) = int (length p)" using h by (simp add: holds_def as_int_def)
  obtain ok s0 where e1: "Stream_EnsureCapacity mem1 s 4 = Some (ok, s0)"
    using ensure_total [OF h, of 4 mem1] by auto
  show ?thesis
  proof (cases ok)
    case False
    with e1 show ?thesis by (simp add: transport_read_pdu_def)
  next
    case True
    have h0: "holds s0 p" "4 \<le> s_capacity s0" using holds_ensure [OF h _ e1 True] by simp_all
    then have k2: "int 2 \<le> s_capacity s0" by simp
    obtain st1 t1 s1 where m1: "transport_read_more net t s0 (int (length p)) 2 = Some (st1, t1, s1)"
      using read_more_total [OF d nb h0(1) k2] by auto
    have m1': "transport_read_more net t s0 (int (length p)) (int 2) = Some (st1, t1, s1)" using m1 by simp
    show ?thesis
    proof (cases "st1 = 1")
      case False
      with e1 True pos m1 show ?thesis by (simp add: transport_read_pdu_def)
    next
      case s1: True
      from read_more_step [OF m1' d f h0(1) k2] s1 obtain c1 where c1: "same_transport t t1" "holds s1 (p @ c1)"
        "2 \<le> length (p @ c1)" "s_capacity s1 = s_capacity s0" "c1 = [] \<or> length (p @ c1) \<le> 2" by auto
      have cap: "4 \<le> s_capacity s1" using c1(4) h0(2) by simp
      have f1: "tp_frontBio t1" "read_returns net t1" "tp_NlaMode t1 = tp_NlaMode t"
        using c1(1) f nb read_returns_same [OF c1(1)] by auto
      obtain r t2 s2 where l: "transport_pdu_length net t1 s1 = Some (r, t2, s2)"
        using pdu_length_total [OF d f1(1,2) c1(2,3) cap] by blast
      show ?thesis
      proof (cases r)
        case (Inl x)
        with e1 True pos m1 s1 l show ?thesis by (simp add: transport_read_pdu_def)
      next
        case (Inr n)
        from pdu_length_step [OF l d f1(1) c1(2,3) cap] Inr obtain c2 where c2: "same_transport t1 t2"
          "c2 = [] \<or> pdu_minimal (tp_NlaMode t1) ((p @ c1) @ c2)" "holds s2 ((p @ c1) @ c2)" "0 \<le> n"
          "pdu_frame (tp_NlaMode t1) ((p @ c1) @ c2) = Len (nat n)" by auto
        have f2: "tp_frontBio t2" "read_returns net t2" using c2(1) f1 read_returns_same [OF c2(1)] by auto
        have n: "n < 65540" using pdu_frame_bound(2) [OF c2(5)] c2(4) by simp
        have "length ((p @ c1) @ c2) < 65540"
        proof (cases "c2 = []")
          case True
          then show ?thesis using c1(5) pdu_frame_bound(1) [OF pre] by auto
        next
          case False
          then show ?thesis using c2(2) pdu_frame_bound(3) [of _ "butlast ((p @ c1) @ c2)"] by (fastforce simp: pdu_minimal_def)
        qed
        from read_body_total [OF d f2 c2(3,4) n this] e1 True pos m1 s1 l Inr
        show ?thesis by (simp add: transport_read_pdu_def)
      qed
    qed
  qed
qed

lemma pdu_frame_Bad_append:
  assumes "pdu_frame nla q = Bad"
  shows "pdu_frame nla (q @ c) = Bad"
proof -
  obtain k where k: "k = (if nla then 2 else if unat (q ! 0) = 3 then 4 else if 128 \<le> unat (q ! 1) then 3 else (2::nat))" by blast
  have "k \<le> length q" "2 \<le> length q"
    using assms unfolding k pdu_frame_def Let_def by (simp_all split: if_splits)
  then have nth: "(q @ c) ! 0 = q ! 0" "(q @ c) ! 1 = q ! 1" "2 < k \<Longrightarrow> (q @ c) ! 2 = q ! 2" "3 < k \<Longrightarrow> (q @ c) ! 3 = q ! 3"
    "\<not> length q < 2" "\<not> length (q @ c) < 2" "2 < k \<Longrightarrow> \<not> length q < 3 \<and> \<not> length (q @ c) < 3"
    "3 < k \<Longrightarrow> \<not> length q < 4 \<and> \<not> length (q @ c) < 4"
    by (auto simp: nth_append)
  show ?thesis using assms
    unfolding pdu_frame_def Let_def nth(1,2) using nth(3-) k
    by (cases nla; cases "unat (q ! 0) = 48"; cases "unat (q ! 0) = 3"; cases "unat (q ! 1) = 129"; cases "unat (q ! 1) = 130";
      simp split: if_split_asm)
qed

section \<open>Delivery\<close>

text \<open>A unit whose header announces its length and is shorter than it.\<close>

definition pdu_whole :: "bool \<Rightarrow> byte list \<Rightarrow> bool" where
  "pdu_whole nla q \<longleftrightarrow> (\<exists>k < length q. pdu_frame nla (take k q) = Len (length q))"

lemma pdu_wholeD:
  assumes "pdu_whole nla q"
  shows "pdu_frame nla (q @ c) = Len (length q)" and "\<not> pdu_minimal nla (q @ c)" and "q \<noteq> []"
proof -
  obtain k where k: "k < length q" "pdu_frame nla (take k q) = Len (length q)" using assms by (auto simp: pdu_whole_def)
  have split: "q @ c = take k q @ (drop k q @ c)" by simp
  have ne: "drop k q @ c \<noteq> []" using k(1) by simp
  show "pdu_frame nla (q @ c) = Len (length q)" unfolding split by (rule pdu_frame_Len_append [OF k(2)])
  have "butlast (take k q @ (drop k q @ c)) = take k q @ butlast (drop k q @ c)" by (simp only: butlast_append ne if_False)
  then have "butlast (q @ c) = take k q @ butlast (drop k q @ c)" unfolding split [symmetric] .
  with pdu_frame_Len_append [OF k(2)] show "\<not> pdu_minimal nla (q @ c)" by (simp add: pdu_minimal_def)
  show "q \<noteq> []" using k(1) by auto
qed

lemma pdu_whole_prefix:
  assumes "pdu_whole nla q" and "q = r @ c"
  shows "pdu_frame nla r \<noteq> Bad" and "pdu_frame nla r = Len n \<Longrightarrow> n = length q" and "pdu_stuck nla r \<Longrightarrow> False"
proof -
  have q: "pdu_frame nla (r @ c) = Len (length q)" using pdu_wholeD(1) [OF assms(1), of "[]"] assms(2) by simp
  show "pdu_frame nla r \<noteq> Bad" using pdu_frame_Bad_append [of nla r c] q by auto
  show n: "pdu_frame nla r = Len n \<Longrightarrow> n = length q" for n using pdu_frame_Len_append [of nla r n c] q by simp
  assume st: "pdu_stuck nla r"
  then have "length q \<le> length r" using n by (auto simp: pdu_stuck_def)
  then have "r = q" using assms(2) by simp
  then show False using st pdu_wholeD(2) [OF assms(1), of "[]"] by (simp add: pdu_stuck_def)
qed

lemma pdu_unfinished_prefix:
  assumes "pdu_unfinished nla (r @ c)"
  shows "pdu_frame nla r \<noteq> Bad" and "pdu_frame nla r = Len n \<Longrightarrow> length r < n" and "\<not> pdu_stuck nla r"
proof -
  show "pdu_frame nla r \<noteq> Bad" using pdu_frame_Bad_append [of nla r c] assms by (auto simp: pdu_unfinished_def)
  show n: "pdu_frame nla r = Len n \<Longrightarrow> length r < n" for n
    using pdu_frame_Len_append [of nla r n c] assms by (auto simp: pdu_unfinished_def)
  show "\<not> pdu_stuck nla r" using n by (auto simp: pdu_stuck_def)
qed

text \<open>
  The contract of the receive loop's surroundings: \<open>out\<close> are the units handed to the callback, which
  accepts them; the pool hands out empty streams; nothing else touches the input.
\<close>

definition receiver :: "'w net \<Rightarrow> ('w rdpTransport \<Rightarrow> wStream \<Rightarrow> int \<times> 'w rdpTransport) \<Rightarrow>
    ('w \<Rightarrow> byte list) \<Rightarrow> ('w \<Rightarrow> byte list list) \<Rightarrow> bool" where
  "receiver net cb inp out \<longleftrightarrow>
     (\<forall>n w. out (snd (BIO_read net n w)) = out w) \<and>
     (\<forall>w. out (snd (BIO_wait_read net w)) = out w) \<and>
     (\<forall>w. \<exists>s w'. StreamPool_Take net 0 w = (Some s, w') \<and> holds s [] \<and> inp w' = inp w \<and> out w' = out w) \<and>
     (\<forall>s w. inp (Stream_Release net s w) = inp w \<and> out (Stream_Release net s w) = out w) \<and>
     (\<forall>t s. \<exists>w. cb t s = (0, t\<lparr>tp_net := w\<rparr>) \<and> inp w = inp (tp_net t) \<and> out w = out (tp_net t) @ [s_rest s])"


text \<open>What reads of the BIO leave alone, the transport's reader does.\<close>

definition bio_keeps :: "'w net \<Rightarrow> ('w \<Rightarrow> 'a) \<Rightarrow> bool" where
  "bio_keeps net out \<longleftrightarrow> (\<forall>n w. out (snd (BIO_read net n w)) = out w) \<and> (\<forall>w. out (snd (BIO_wait_read net w)) = out w)"

lemma read_loop_keeps:
  assumes "transport_read_loop net t buf data rd bytes = Some res" and "bio_keeps net out"
  shows "out (tp_net (fst (snd res))) = out (tp_net t)"
proof -
  have "bio_keeps net out \<longrightarrow> out (tp_net (fst (snd res))) = out (tp_net t)"
  proof (rule transport_read_loop.raw_induct [where P = "\<lambda>net t buf data rd bytes res. bio_keeps net out \<longrightarrow>
      out (tp_net (fst (snd res))) = out (tp_net t)", OF _ assms(1)])
    fix f :: "'a net \<Rightarrow> 'a rdpTransport \<Rightarrow> byte list \<Rightarrow> int \<Rightarrow> int \<Rightarrow> int \<Rightarrow> (int \<times> 'a rdpTransport \<times> byte list) option"
    fix net :: "'a net" and t :: "'a rdpTransport" and buf data rd bytes res
    assume IH: "\<And>net t buf data rd bytes res. f net t buf data rd bytes = Some res \<Longrightarrow> bio_keeps net out \<longrightarrow>
      out (tp_net (fst (snd res))) = out (tp_net t)"
    assume eq: "(if rd < bytes then
        (case BIO_read net (bytes - rd) (tp_net t) of (bs, w) \<Rightarrow>
           if bs = [] then
             if \<not> BIO_should_retry net w
             then Some (- 1, t\<lparr>tp_net := w, tp_layer := TRANSPORT_LAYER_CLOSED\<rparr>, buf)
             else if \<not> tp_blocking t then Some (rd, t\<lparr>tp_net := w\<rparr>, buf)
             else (case BIO_wait_read net w of (r, w) \<Rightarrow>
               if r < 0 then Some (- 1, t\<lparr>tp_net := w\<rparr>, buf)
               else f net (t\<lparr>tp_net := w\<rparr>) buf data rd bytes)
           else do {
             buf \<leftarrow> ablit buf (data + rd) bs;
             f net (t\<lparr>tp_net := w\<rparr>) buf data (rd + int (length bs)) bytes })
      else Some (rd, t, buf)) = Some res"
    show "bio_keeps net out \<longrightarrow> out (tp_net (fst (snd res))) = out (tp_net t)"
    proof
      assume k: "bio_keeps net out"
      obtain bs w where rd: "BIO_read net (bytes - rd) (tp_net t) = (bs, w)" by fastforce
      obtain r w' where wt: "BIO_wait_read net w = (r, w')" by fastforce
      have ow: "out w = out (tp_net t)" "out w' = out w"
        using k rd wt unfolding bio_keeps_def by (metis snd_conv)+
      show "out (tp_net (fst (snd res))) = out (tp_net t)"
      proof (cases "rd < bytes \<and> (bs \<noteq> [] \<or> BIO_should_retry net w \<and> tp_blocking t \<and> 0 \<le> r)")
        case False
        with eq rd wt ow show ?thesis by (auto split: if_splits)
      next
        case True
        show ?thesis
        proof (cases "bs = []")
          case nil: True
          with True eq rd wt have "f net (t\<lparr>tp_net := w'\<rparr>) buf data rd bytes = Some res" by simp
          from IH [OF this] k ow show ?thesis by simp
        next
          case False
          with True eq rd obtain buf' where "f net (t\<lparr>tp_net := w\<rparr>) buf' data (rd + int (length bs)) bytes = Some res"
            by (auto split: bind_splits)
          from IH [OF this] k ow show ?thesis by simp
        qed
      qed
    qed
  qed
  then show ?thesis using assms(2) by blast
qed

lemma read_bytes_keeps:
  assumes "transport_read_layer_bytes net t s n = Some (st, t', s')" and "bio_keeps net out"
  shows "out (tp_net t') = out (tp_net t)"
  using assms read_loop_keeps [OF _ assms(2)]
  by (fastforce simp: transport_read_layer_bytes_def transport_read_layer_def Let_def split: if_splits bind_splits)

lemma read_more_keeps:
  assumes "transport_read_more net t s p n = Some (st, t', s')" and "bio_keeps net out"
  shows "out (tp_net t') = out (tp_net t)"
  using assms read_bytes_keeps [OF _ assms(2)] by (auto simp: transport_read_more_def split: if_splits)

lemma pdu_length_keeps:
  assumes "transport_pdu_length net t s = Some (st, t', s')" and "bio_keeps net out"
  shows "out (tp_net t') = out (tp_net t)"
proof -
  note keep = read_more_keeps [OF _ assms(2), of t s "as_int (s_pos s)"]
  from assms(1) obtain h0 h1 where "transport_header s 0 = Some h0" "transport_header s 1 = Some h1"
    by (auto simp: transport_pdu_length_def Let_def split: bind_splits)
  with assms(1) keep show ?thesis
    by (auto simp: transport_pdu_length_def Let_def split: if_splits bind_splits sum.splits)
qed

lemma read_body_keeps:
  assumes "transport_read_body net mem t s n = Some (st, t', s')" and "bio_keeps net out"
  shows "out (tp_net t') = out (tp_net t)"
  using assms(1) read_bytes_keeps [OF _ assms(2)]
  by (auto simp: transport_read_body_def Let_def split: if_splits bind_splits)

lemma read_pdu_keeps:
  assumes "transport_read_pdu net mem1 mem2 t s = Some (st, t', s')" and "bio_keeps net out"
  shows "out (tp_net t') = out (tp_net t)"
  using assms(1) read_more_keeps [OF _ assms(2)] pdu_length_keeps [OF _ assms(2)] read_body_keeps [OF _ assms(2)]
  by (fastforce simp: transport_read_pdu_def Let_def split: if_splits bind_splits sum.splits)

lemma append_prefix_cases:
  assumes "xs @ ys = us @ vs"
  obtains zs where "us = xs @ zs" "ys = zs @ vs" | zs where "xs = us @ zs" "vs = zs @ ys" "zs \<noteq> []"
proof -
  from assms obtain zs where zs: "us = xs @ zs \<and> ys = zs @ vs \<or> xs = us @ zs \<and> vs = zs @ ys"
    unfolding append_eq_append_conv2 by blast
  then show ?thesis using that by (cases "zs = []") auto
qed

text \<open>One unit of a well formed input: it is delivered whole, or the input ends inside it.\<close>

lemma read_pdu_input:
  assumes d: "bio_delivers net inp" "bio_eager net inp" and t: "tp_frontBio t" "\<not> tp_blocking t"
    and h: "holds s p" and un: "pdu_unfinished (tp_NlaMode t) p" and mem: "mem1 \<noteq> None" "mem2 \<noteq> None"
    and eq: "p @ inp (tp_net t) = concat pkts @ tail"
    and whole: "\<forall>q \<in> set pkts. pdu_whole (tp_NlaMode t) q" and tail: "pdu_unfinished (tp_NlaMode t) tail"
  shows "\<exists>t' s'. same_transport t t' \<and>
    (case pkts of
       [] \<Rightarrow> transport_read_pdu net mem1 mem2 t s = Some (0, t', s') \<and> holds s' tail \<and> inp (tp_net t') = []
     | q # qs \<Rightarrow> transport_read_pdu net mem1 mem2 t s = Some (int (length q), t', s') \<and> q \<noteq> [] \<and> s_rest s' = q
         \<and> inp (tp_net t') = concat qs @ tail)"
proof -
  let ?nla = "tp_NlaMode t"
  obtain st t' s' where run: "transport_read_pdu net mem1 mem2 t s = Some (st, t', s')"
    using read_pdu_total [OF d(1) t(1) _ h, of mem1 mem2] un t(2) by (auto simp: read_returns_def)
  from read_pdu_step [OF run d(1) t(1) h] un d(2) t(2) mem
  have "read_result inp True t p st t' s'" by simp
  then obtain c where c: "inp (tp_net t) = c @ inp (tp_net t')" "same_transport t t'" and
    st: "st = - 1 \<and> pdu_frame ?nla (p @ c) = Bad
        \<or> st = 0 \<and> holds s' (p @ c) \<and> (pdu_unfinished ?nla (p @ c) \<and> inp (tp_net t') = [] \<or> pdu_stuck ?nla (p @ c))
        \<or> st = int (length (p @ c)) \<and> pdu_frame ?nla (p @ c) = Len (length (p @ c)) \<and> p @ c \<noteq> []
          \<and> s_ok s' \<and> s_pos s' = 0 \<and> s_rest s' = p @ c"
    unfolding read_result_def by auto
  have e: "(p @ c) @ inp (tp_net t') = concat pkts @ tail" using eq c(1) by simp
  show ?thesis
  proof (cases pkts)
    case Nil
    then have "pdu_unfinished ?nla ((p @ c) @ inp (tp_net t'))" using e tail by simp
    note u = pdu_unfinished_prefix [OF this]
    from st u have "st = 0 \<and> holds s' (p @ c) \<and> inp (tp_net t') = []" by fastforce
    then show ?thesis using Nil e run c(2) by auto
  next
    case (Cons q qs)
    have q: "pdu_whole ?nla q" using whole Cons by simp
    from e Cons have "(p @ c) @ inp (tp_net t') = q @ (concat qs @ tail)" by simp
    then show ?thesis
    proof (cases rule: append_prefix_cases)
      case (1 zs)
      note w = pdu_whole_prefix [OF q 1(1)]
      consider "st = 0" "pdu_unfinished ?nla (p @ c)" "inp (tp_net t') = []"
        | "st = int (length (p @ c))" "pdu_frame ?nla (p @ c) = Len (length (p @ c))" "s_rest s' = p @ c"
        using st w(1) w(3) by blast
      then show ?thesis
      proof cases
        case a: 1
        then have "q = p @ c" using 1 by simp
        with a(2) pdu_wholeD(1) [OF q, of "[]"] show ?thesis by (simp add: pdu_unfinished_def)
      next
        case 2
        with w(2) have "length q = length (p @ c)" by simp
        then have "zs = []" using 1(1) by simp
        then show ?thesis using 1 2 Cons run c(2) pdu_wholeD(3) [OF q] by auto
      qed
    next
      case (2 zs)
      have "pdu_frame ?nla (p @ c) = Len (length q)" "\<not> pdu_minimal ?nla (p @ c)"
        using pdu_wholeD(1,2) [OF q] 2(1) by simp_all
      moreover have "length q < length (p @ c)" using 2(1,3) by (simp only: length_append) simp
      ultimately show ?thesis using st by (auto simp: pdu_unfinished_def pdu_stuck_def)
    qed
  qed
qed

lemma receiverD:
  assumes "receiver net cb inp out"
  shows "bio_keeps net out"
    and "\<exists>s w'. StreamPool_Take net 0 w = (Some s, w') \<and> holds s [] \<and> inp w' = inp w \<and> out w' = out w"
    and "inp (Stream_Release net s w) = inp w" and "out (Stream_Release net s w) = out w"
    and "\<exists>w. cb t s = (0, t\<lparr>tp_net := w\<rparr>) \<and> inp w = inp (tp_net t) \<and> out w = out (tp_net t) @ [s_rest s]"
  using assms unfolding receiver_def bio_keeps_def by blast+

text \<open>
  C19. On an open non-blocking connection the receive loop hands to the callback exactly the units of the
  input, each once and in order, however the BIO cuts the bytes into pieces and whatever earlier call
  left in the receive buffer; the bytes of a unit that has not arrived completely stay in the buffer.
\<close>

theorem transport_check_fds_delivers:
  assumes net: "bio_delivers net inp" "bio_eager net inp" "receiver net cb inp out"
    and t: "tp_frontBio t" "\<not> tp_blocking t" "tp_ReceiveBuffer t = Some s"
    and s: "holds s p" "pdu_unfinished (tp_NlaMode t) p"
    and mem: "\<forall>n. fst (mem n) \<noteq> None \<and> snd (mem n) \<noteq> None"
    and input: "p @ inp (tp_net t) = concat pkts @ tail"
      "\<forall>q \<in> set pkts. pdu_whole (tp_NlaMode t) q" "pdu_unfinished (tp_NlaMode t) tail"
  shows "\<exists>t' s'. transport_check_fds net cb mem n t = Some (0, t') \<and> out (tp_net t') = out (tp_net t) @ pkts
    \<and> inp (tp_net t') = [] \<and> tp_ReceiveBuffer t' = Some s' \<and> holds s' tail"
  using t s input
proof (induction pkts arbitrary: t s p n)
  case Nil
  have m: "fst (mem n) \<noteq> None" "snd (mem n) \<noteq> None" using mem by auto
  from read_pdu_input [OF net(1,2) Nil.prems(1,2,4,5) m Nil.prems(6-8)] obtain t' s' where
    r: "same_transport t t'" "transport_read_pdu net (fst (mem n)) (snd (mem n)) t s = Some (0, t', s')" "holds s' tail"
    "inp (tp_net t') = []" by auto
  from read_pdu_keeps [OF r(2) receiverD(1) [OF net(3)]] have "out (tp_net t') = out (tp_net t)" .
  with r Nil.prems(3) show ?case by (subst transport_check_fds.simps) auto
next
  case (Cons q qs)
  have m: "fst (mem n) \<noteq> None" "snd (mem n) \<noteq> None" using mem by auto
  from read_pdu_input [OF net(1,2) Cons.prems(1,2,4,5) m Cons.prems(6-8)] obtain t1 s1 where
    r: "same_transport t t1" "transport_read_pdu net (fst (mem n)) (snd (mem n)) t s = Some (int (length q), t1, s1)" "q \<noteq> []"
    "s_rest s1 = q" "inp (tp_net t1) = concat qs @ tail" by auto
  from read_pdu_keeps [OF r(2) receiverD(1) [OF net(3)]] have o1: "out (tp_net t1) = out (tp_net t)" .
  obtain f w where take: "StreamPool_Take net 0 (tp_net t1) = (Some f, w)" "holds f []" "inp w = inp (tp_net t1)" "out w = out (tp_net t1)"
    using receiverD(2) [OF net(3), of "tp_net t1"] by blast
  let ?t2 = "t1\<lparr>tp_net := w, tp_ReceiveBuffer := Some f\<rparr>"
  obtain w2 where cb: "cb ?t2 s1 = (0, ?t2\<lparr>tp_net := w2\<rparr>)" "inp w2 = inp w" "out w2 = out w @ [q]"
    using receiverD(5) [OF net(3), of ?t2 s1] r(4) by auto
  let ?t3 = "?t2\<lparr>tp_net := Stream_Release net s1 w2\<rparr>"
  have rel: "inp (Stream_Release net s1 w2) = concat qs @ tail" "out (Stream_Release net s1 w2) = out (tp_net t) @ [q]"
    using receiverD(3,4) [OF net(3), of s1 w2] cb(2,3) take(3,4) o1 r(5) by simp_all
  have same: "tp_frontBio ?t3" "\<not> tp_blocking ?t3" "tp_NlaMode ?t3 = tp_NlaMode t" "tp_ReceiveBuffer ?t3 = Some f"
    using same_transportD [OF r(1)] Cons.prems(1,2) by simp_all
  have "\<exists>t' s'. transport_check_fds net cb mem (Suc n) ?t3 = Some (0, t') \<and> out (tp_net t') = out (tp_net ?t3) @ qs
    \<and> inp (tp_net t') = [] \<and> tp_ReceiveBuffer t' = Some s' \<and> holds s' tail"
  proof (rule Cons.IH [OF same(1,2,4) take(2)])
    show "pdu_unfinished (tp_NlaMode ?t3) []" by (simp add: pdu_unfinished_def pdu_frame_def)
    show "[] @ inp (tp_net ?t3) = concat qs @ tail" using rel(1) by simp
    show "\<forall>q \<in> set qs. pdu_whole (tp_NlaMode ?t3) q" "pdu_unfinished (tp_NlaMode ?t3) tail"
      unfolding same(3) using Cons.prems(7,8) by simp_all
  qed
  moreover have "transport_check_fds net cb mem n t = transport_check_fds net cb mem (Suc n) ?t3"
    using Cons.prems(3) r(2,3) take(1) cb(1) by (subst transport_check_fds.simps) (simp add: Let_def)
  moreover have "out (tp_net ?t3) @ qs = out (tp_net t) @ (q # qs)" using rel(2) by simp
  ultimately show ?case by simp
qed

section \<open>Writing\<close>

text \<open>\<open>sent w\<close> are the bytes accepted so far; a write of the BIO accepts a prefix of what it is given.\<close>

definition bio_accepts :: "'w net \<Rightarrow> ('w \<Rightarrow> byte list) \<Rightarrow> bool" where
  "bio_accepts net sent \<longleftrightarrow>
     (\<forall>bs w st w'. BIO_write net bs w = (st, w') \<longrightarrow> st \<le> int (length bs) \<and> sent w' = sent w @ take (nat st) bs) \<and>
     (\<forall>w. sent (snd (BIO_wait_write net w)) = sent w) \<and> (\<forall>w. sent (snd (BIO_flush net w)) = sent w) \<and>
     (\<forall>s w. sent (Stream_Release net s w) = sent w)"






section \<open>A pipe\<close>

text \<open>A connection that returns its input in pieces of at most \<open>n\<close> bytes and takes pieces of that size; the
  units delivered, the input and the output are the world.\<close>

type_synonym pipe = "byte list list \<times> byte list \<times> byte list"

definition pipe_net :: "nat \<Rightarrow> wStream \<Rightarrow> pipe net" where
  "pipe_net n s =
     \<lparr>net_malloc = (\<lambda>k w. (Some (\<lambda>_. 0), w)), ConvertToUnicode = (\<lambda>s w. (None, w)), BIO_new = (\<lambda>w. (True, w)),
      BIO_read = (\<lambda>k (ps, i, os). let m = min n (nat k) in (take m i, (ps, drop m i, os))),
      BIO_write = (\<lambda>bs (ps, i, os). (int (min n (length bs)), (ps, i, os @ take n bs))),
      BIO_should_retry = (\<lambda>w. True), BIO_wait_read = (\<lambda>w. (0, w)), BIO_wait_write = (\<lambda>w. (0, w)),
      BIO_write_blocked = (\<lambda>w. False), BIO_flush = (\<lambda>w. (1, w)), BIO_set_nonblock = (\<lambda>b w. (True, w)),
      BIO_free = (\<lambda>w. w), StreamPool_Take = (\<lambda>k w. (Some s, w)), Stream_Release = (\<lambda>s w. w),
      freerdp_tcp_connect = (\<lambda>k w. (1, w)), rdg_new = (\<lambda>w. (True, w)), rdg_connect = (\<lambda>k w. (True, w)),
      tsg_new = (\<lambda>w. (True, w)), tsg_connect = (\<lambda>k w. (True, w)), tls_new = (\<lambda>w. (True, w)),
      tls_connect = (\<lambda>w. (1, True, w)), nla_new = (\<lambda>w. (True, w)), nla_make_spn = (\<lambda>w. (True, w)),
      nla_client_begin = (\<lambda>w. (1, w))\<rparr>"

lemma pipe_write [simp]: "BIO_write (pipe_net n s) bs (ps, i, os) = (int (min n (length bs)), (ps, i, os @ take n bs))"
  "BIO_write_blocked (pipe_net n s) w = False"
  by (simp_all add: pipe_net_def)

definition pipe_cb :: "pipe rdpTransport \<Rightarrow> wStream \<Rightarrow> int \<times> pipe rdpTransport" where
  "pipe_cb t s = (0, t\<lparr>tp_net := (case tp_net t of (ps, r) \<Rightarrow> (ps @ [s_rest s], r))\<rparr>)"

lemma pipe_laws:
  assumes "0 < n" and "holds s []"
  shows "bio_delivers (pipe_net n s) (fst \<circ> snd)" "bio_eager (pipe_net n s) (fst \<circ> snd)"
    "receiver (pipe_net n s) pipe_cb (fst \<circ> snd) fst" "bio_accepts (pipe_net n s) (snd \<circ> snd)"
  using assms by (auto simp: pipe_net_def pipe_cb_def bio_delivers_def bio_eager_def receiver_def bio_accepts_def min_def Let_def
      split: if_splits prod.splits)

definition pipe_transport :: "byte list \<Rightarrow> wStream \<Rightarrow> pipe rdpTransport" where
  "pipe_transport input s =
     \<lparr>tp_net = ([], input, []), tp_layer = TRANSPORT_LAYER_TCP, tp_frontBio = True, tp_rdg = False, tp_tsg = False, tp_tls = False,
      tp_settings = \<lparr>set_AsyncTransport = False, set_GatewayHttpTransport = False, set_GatewayRpcTransport = False,
        set_WaitForOutputBufferFlush = False, set_Authentication = True, set_AuthenticationServiceClass = False,
        set_RequestedProtocols = 0, set_SelectedProtocol = 0, set_NegotiationFlags = 0, set_EncryptionMethods = 0,
        set_EncryptionLevel = 0, set_UseRdpSecurityLayer = False, set_NetworkAutoDetect = True,
        set_SupportGraphicsPipeline = False, set_TlsSecurity = False, set_NlaSecurity = False, set_RdpSecurity = False,
        set_LocalConnection = False, set_RdpServerRsaKey = False, set_RdpKeyFile = False,
        set_CompressionEnabled = False, set_FastPathOutput = True, set_MultifragMaxRequestSize = 65535\<rparr>,
      tp_ReceiveBuffer = Some s, tp_async = False, tp_stopEvent = False, tp_thread = False, tp_NlaMode = False,
      tp_blocking = False, tp_GatewayEnabled = False, tp_WriteLock = 0, tp_last_error = 0, tp_rdp_state = 0\<rparr>"

lemma blank_holds: "0 < n \<Longrightarrow> int n \<le> INT_MAX \<Longrightarrow> holds (blank n) []"
  by (simp add: holds_def)

lemma transport_check_fds_delivers_witness:
  "\<exists>t' s'. transport_check_fds (pipe_net 2 (blank 4)) pipe_cb (\<lambda>_. (Some (\<lambda>_. 0), Some (\<lambda>_. 0))) 0
      (pipe_transport ([3, 0, 0, 8, 1, 2, 3, 4] @ [0, 5, 1, 2, 3] @ [3, 0]) (blank 4)) = Some (0, t')
    \<and> fst (tp_net t') = fst (tp_net (pipe_transport ([3, 0, 0, 8, 1, 2, 3, 4] @ [0, 5, 1, 2, 3] @ [3, 0]) (blank 4)))
        @ [[3, 0, 0, 8, 1, 2, 3, 4], [0, 5, 1, 2, 3]]
    \<and> (fst \<circ> snd) (tp_net t') = [] \<and> tp_ReceiveBuffer t' = Some s' \<and> holds s' [3, 0]"
proof -
  let ?s = "blank 4" and ?n = "pipe_net 2 (blank 4)"
  let ?t = "pipe_transport ([3, 0, 0, 8, 1, 2, 3, 4] @ [0, 5, 1, 2, 3] @ [3, 0]) ?s"
  have h: "holds ?s []" by (rule blank_holds) simp_all
  have t: "tp_frontBio ?t" "\<not> tp_blocking ?t" "tp_ReceiveBuffer ?t = Some ?s" "tp_NlaMode ?t = False"
    and i: "[] @ (fst \<circ> snd) (tp_net ?t) = concat [[3, 0, 0, 8, 1, 2, 3, 4], [0, 5, 1, 2, 3]] @ [3, 0]"
    by (simp_all add: pipe_transport_def)
  have "pdu_whole False [3, 0, 0, 8, 1, 2, 3, 4]"
    unfolding pdu_whole_def by (rule exI [of _ 4]) (simp add: pdu_frame_def)
  moreover have "pdu_whole False [0, 5, 1, 2, 3]"
    unfolding pdu_whole_def by (rule exI [of _ 2]) (simp add: pdu_frame_def)
  ultimately have w: "\<forall>q \<in> set [[3, 0, 0, 8, 1, 2, 3, 4], [0, 5, 1, 2, 3]]. pdu_whole (tp_NlaMode ?t) q"
    unfolding t(4) by simp
  show ?thesis
  proof (rule transport_check_fds_delivers [OF pipe_laws(1,2,3) t(1-3) h _ _ i w])
    show "pdu_unfinished (tp_NlaMode ?t) []" "pdu_unfinished (tp_NlaMode ?t) [3, 0]"
      unfolding t(4) by (simp_all add: pdu_unfinished_def pdu_frame_def)
  qed (use h in simp_all)
qed


text \<open>
  C40. A fast-path unit of three bytes whose length is written in the long form, whose header is thus the
  whole unit, is never delivered: the reader reports for ever that no unit has arrived yet.
\<close>

theorem transport_read_pdu_stuck:
  assumes "holds s [h, 0x80, 3]" and "h \<noteq> 3" and "\<not> tp_NlaMode t" and "tp_frontBio t"
  shows "\<exists>s'. transport_read_pdu net (Some j1) (Some j2) t s = Some (0, t, s') \<and> holds s' [h, 0x80, 3]"
proof -
  let ?q = "[h, 0x80, 3] :: byte list"
  obtain s1 where e1: "Stream_EnsureCapacity (Some j1) s 4 = Some (True, s1)" using ensure_total [OF assms(1), of 4 "Some j1"] by auto
  have h1: "holds s1 ?q" using holds_ensure [OF assms(1) _ e1] by simp
  obtain s2 where e2: "Stream_EnsureCapacity (Some j2) s1 6 = Some (True, s2)" using ensure_total [OF h1, of 6 "Some j2"] by auto
  have h2: "holds s2 ?q" using holds_ensure [OF h1 _ e2] by simp
  have pos: "s_pos s = 3" "s_pos s1 = 3" "s_pos s2 = 3" using assms(1) h1 h2 by (simp_all add: holds_def)
  have hd: "transport_header s1 0 = Some (uint h)" "transport_header s1 1 = Some 0x80" "transport_header s1 2 = Some 3"
    using holds_header [OF h1, of 0] holds_header [OF h1, of 1] holds_header [OF h1, of 2] by simp_all
  have "uint h \<noteq> 3" using assms(2) by (simp add: word_uint_eq_iff)
  then have "transport_pdu_length net t s1 = Some (Inr 3, t, s1)"
    using assms(3) by (simp add: transport_pdu_length_def hd pos as_int_def transport_read_more_def Let_def)
  moreover have "transport_read_body net (Some j2) t s1 3 = Some (0, t, s2)"
    using read_layer_bytes_none [OF assms(4), of 0] by (simp add: transport_read_body_def pos csize_def e2)
  ultimately show ?thesis using h2 pos e1
    by (simp add: transport_read_pdu_def as_int_def transport_read_more_def)
qed

lemma transport_read_pdu_stuck_witness:
  "\<exists>s'. transport_read_pdu (pipe_net 2 (blank 4)) (Some (\<lambda>_. 0)) (Some (\<lambda>_. 0)) (pipe_transport [] (blank 4))
      (blank 3\<lparr>s_buffer := [4, 0x80, 3], s_pos := 3\<rparr>) = Some (0, pipe_transport [] (blank 4), s') \<and> holds s' [4, 0x80, 3]"
  by (rule transport_read_pdu_stuck) (simp_all add: holds_def pipe_transport_def eval_nat_numeral)

end
