(* ===== verification/WNego.thy ===== *)
theory WNego
  imports WFraming WTpdu
begin

text \<open>
  The negotiation of the security protocol, \<open>libfreerdp/core/nego.c\<close>: the state machine of the client,
  the connection requests and responses, and the server's side of both.

  The streams are allocated with the outcomes that the world of the transport decides. \<open>ConvertToUnicode\<close>
  returns the converted bytes with the two of the terminator it counts, or nothing.
\<close>

section \<open>Data\<close>

abbreviation (input) PROTOCOL_RDP :: int where "PROTOCOL_RDP \<equiv> 0"
abbreviation (input) PROTOCOL_TLS :: int where "PROTOCOL_TLS \<equiv> 1"
abbreviation (input) PROTOCOL_NLA :: int where "PROTOCOL_NLA \<equiv> 2"
abbreviation (input) PROTOCOL_EXT :: int where "PROTOCOL_EXT \<equiv> 8"
abbreviation (input) PROTOCOL_FAILED_NEGO :: int where "PROTOCOL_FAILED_NEGO \<equiv> 0x80000000"

datatype NEGO_STATE = NEGO_STATE_INITIAL | NEGO_STATE_EXT | NEGO_STATE_NLA | NEGO_STATE_TLS | NEGO_STATE_RDP
  | NEGO_STATE_FAIL | NEGO_STATE_FINAL

record 'w rdpNego =
  ng_port :: int
  ng_flags :: int
  ng_hostname :: "byte list"
  ng_cookie :: "byte list option"
  ng_RoutingToken :: "byte list option"
  ng_RoutingTokenLength :: int
  ng_SendPreconnectionPdu :: bool
  ng_PreconnectionId :: int
  ng_PreconnectionBlob :: "byte list option"
  ng_state :: NEGO_STATE
  ng_TcpConnected :: bool
  ng_SecurityConnected :: bool
  ng_CookieMaxLength :: int
  ng_sendNegoData :: bool
  ng_SelectedProtocol :: int
  ng_RequestedProtocols :: int
  ng_NegotiateSecurityLayer :: bool
  ng_EnabledProtocols :: "int \<Rightarrow> bool"
  ng_RestrictedAdminModeRequired :: bool
  ng_GatewayEnabled :: bool
  ng_GatewayBypassLocal :: bool
  ng_transport :: "'w rdpTransport"

section \<open>Connecting the layers\<close>

definition nego_security_connect :: "'w net \<Rightarrow> 'w rdpNego \<Rightarrow> (bool \<times> 'w rdpNego) option" where
  "nego_security_connect net g =
     (if \<not> ng_TcpConnected g then Some (False, g\<lparr>ng_SecurityConnected := False\<rparr>)
      else if \<not> ng_SecurityConnected g then
        if ng_SelectedProtocol g = PROTOCOL_NLA then do {
          (ok, t) \<leftarrow> transport_connect_nla net (ng_transport g);
          Some (ok, g\<lparr>ng_transport := t, ng_SecurityConnected := ok\<rparr>) }
        else if ng_SelectedProtocol g = PROTOCOL_TLS then do {
          (ok, t) \<leftarrow> transport_connect_tls net (ng_transport g);
          Some (ok, g\<lparr>ng_transport := t, ng_SecurityConnected := ok\<rparr>) }
        else if ng_SelectedProtocol g = PROTOCOL_RDP then
          let ok = transport_connect_rdp (ng_transport g) in Some (ok, g\<lparr>ng_SecurityConnected := ok\<rparr>)
        else Some (False, g)
      else Some (True, g))"

definition nego_tcp_connect :: "'w net \<Rightarrow> 'w rdpNego \<Rightarrow> bool \<times> 'w rdpNego" where
  "nego_tcp_connect net g =
     (if ng_TcpConnected g then (True, g)
      else if ng_GatewayEnabled g then
        let g = (if ng_GatewayBypassLocal g then
                   let (ok, t) = transport_connect net (transport_set_gateway_enabled (ng_transport g) False) 1
                   in g\<lparr>ng_transport := t, ng_TcpConnected := ok\<rparr>
                 else g)
        in if \<not> ng_TcpConnected g then
             let (ok, t) = transport_connect net (transport_set_gateway_enabled (ng_transport g) True) 15
             in (ok, g\<lparr>ng_transport := t, ng_TcpConnected := ok\<rparr>)
           else (True, g)
      else let (ok, t) = transport_connect net (ng_transport g) 15
           in (ok, g\<lparr>ng_transport := t, ng_TcpConnected := ok\<rparr>))"

definition nego_transport_connect :: "'w net \<Rightarrow> 'w rdpNego \<Rightarrow> (bool \<times> 'w rdpNego) option" where
  "nego_transport_connect net g =
     (let (_, g) = nego_tcp_connect net g
      in if ng_TcpConnected g \<and> \<not> ng_NegotiateSecurityLayer g then nego_security_connect net g
         else Some (ng_TcpConnected g, g))"

definition nego_transport_disconnect :: "'w net \<Rightarrow> 'w rdpNego \<Rightarrow> bool \<times> 'w rdpNego" where
  "nego_transport_disconnect net g =
     (let g = (if ng_TcpConnected g then g\<lparr>ng_transport := snd (transport_disconnect net (ng_transport g))\<rparr> else g)
      in (True, g\<lparr>ng_TcpConnected := False, ng_SecurityConnected := False\<rparr>))"

definition nego_disconnect :: "'w net \<Rightarrow> 'w rdpNego \<Rightarrow> bool \<times> 'w rdpNego" where
  "nego_disconnect net g = nego_transport_disconnect net (g\<lparr>ng_state := NEGO_STATE_INITIAL\<rparr>)"

section \<open>Streams of the negotiation\<close>

text \<open>\<open>Stream_New (NULL, size)\<close>: \<open>None\<close> is the null pointer.\<close>

definition nego_stream :: "'w net \<Rightarrow> 'w rdpNego \<Rightarrow> int \<Rightarrow> wStream option \<times> 'w rdpNego" where
  "nego_stream net g sz =
     (let (m1, w) = net_malloc net 48 (tp_net (ng_transport g)); (m2, w) = net_malloc net sz w
      in (Stream_New (m1 \<noteq> None) m2 None sz, g\<lparr>ng_transport := ng_transport g\<lparr>tp_net := w\<rparr>\<rparr>))"

definition nego_write :: "'w net \<Rightarrow> 'w rdpNego \<Rightarrow> wStream \<Rightarrow> (bool \<times> 'w rdpNego) option" where
  "nego_write net g s = do {
     (status, t, s) \<leftarrow> transport_write net (ng_transport g) s;
     Some (\<not> status < 0, g\<lparr>ng_transport := t\<rparr>) }"

text \<open>The preconnection unit that is put into the stream; the blob is copied with one character more than it has.\<close>

definition nego_put_preconnection :: "'w rdpNego \<Rightarrow> byte list option \<Rightarrow> int \<Rightarrow> int \<Rightarrow> wStream \<Rightarrow> wStream option" where
  "nego_put_preconnection g wszPCB cbSize cchPCB s = do {
     s \<leftarrow> Stream_Write_UINT32 s cbSize;
     s \<leftarrow> Stream_Write_UINT32 s 0;
     s \<leftarrow> Stream_Write_UINT32 s 2;
     s \<leftarrow> Stream_Write_UINT32 s (ng_PreconnectionId g);
     s \<leftarrow> Stream_Write_UINT16 s cchPCB;
     s \<leftarrow> (case wszPCB of
            None \<Rightarrow> Some s
          | Some bs \<Rightarrow> do { bs \<leftarrow> ablock bs 0 (cchPCB * 2); Stream_Write s bs });
     Some (Stream_SealLength s) }"

definition nego_send_preconnection_pdu :: "'w net \<Rightarrow> 'w rdpNego \<Rightarrow> (bool \<times> 'w rdpNego) option" where
  "nego_send_preconnection_pdu net g = do {
     let (ok, g) = nego_tcp_connect net g;
     if \<not> ok then Some (False, g)
     else do {
       let (wszPCB, w) = (case ng_PreconnectionBlob g of
            None \<Rightarrow> (None, tp_net (ng_transport g))
          | Some blob \<Rightarrow> ConvertToUnicode net blob (tp_net (ng_transport g)));
       let g = g\<lparr>ng_transport := ng_transport g\<lparr>tp_net := w\<rparr>\<rparr>;
       let converted = (case wszPCB of None \<Rightarrow> 0 | Some bs \<Rightarrow> u16 (int (length bs) div 2));
       let cchPCB = (if ng_PreconnectionBlob g = None then 0 else u16 (converted + 1));
       let cbSize = 18 + cchPCB * 2;
       let (s, g) = nego_stream net g cbSize;
       s \<leftarrow> s;
       s \<leftarrow> nego_put_preconnection g wszPCB cbSize cchPCB s;
       nego_write net g s } }"

section \<open>The connection request\<close>

definition nego_write_routing_token :: "wStream \<Rightarrow> byte list \<Rightarrow> int \<Rightarrow> (int \<times> wStream) option" where
  "nego_write_routing_token s token len = do {
     bs \<leftarrow> ablock token 0 len;
     s \<leftarrow> Stream_Write s bs;
     terminated \<leftarrow> (if 2 < len then do {
         a \<leftarrow> aget token (len - 2);
         if a = 0x0D then do { b \<leftarrow> aget token (len - 1); Some (b = 0x0A) } else Some False }
       else Some False);
     if terminated then Some (len, s)
     else do {
       s \<leftarrow> Stream_Write_UINT8 s 0x0D;
       s \<leftarrow> Stream_Write_UINT8 s 0x0A;
       Some (len + 2, s) } }"

definition cookie_prefix :: "byte list" where
  "cookie_prefix = [0x43, 0x6F, 0x6F, 0x6B, 0x69, 0x65, 0x3A, 0x20, 0x6D, 0x73, 0x74, 0x73, 0x68, 0x61, 0x73, 0x68, 0x3D]"

definition token_prefix :: "byte list" where
  "token_prefix = [0x43, 0x6F, 0x6F, 0x6B, 0x69, 0x65, 0x3A, 0x20, 0x6D, 0x73, 0x74, 0x73, 0x3D]"

definition nego_write_cookie :: "wStream \<Rightarrow> byte list \<Rightarrow> int \<Rightarrow> (int \<times> wStream) option" where
  "nego_write_cookie s cookie CookieMaxLength = do {
     let cookie_length = int (length cookie);
     let cookie_length = (if as_int CookieMaxLength < cookie_length then as_int CookieMaxLength else cookie_length);
     s \<leftarrow> Stream_Write s cookie_prefix;
     bs \<leftarrow> ablock cookie 0 cookie_length;
     s \<leftarrow> Stream_Write s bs;
     s \<leftarrow> Stream_Write_UINT8 s 0x0D;
     s \<leftarrow> Stream_Write_UINT8 s 0x0A;
     Some (cookie_length + 19, s) }"

text \<open>The request that is put into the stream, without the allocation and the transport around it.\<close>

definition nego_put_request :: "'w rdpNego \<Rightarrow> wStream \<Rightarrow> wStream option" where
  "nego_put_request g s = do {
     let len = 11;
     let bm = s_pos s;
     s \<leftarrow> Stream_Seek s len;
     (len, s) \<leftarrow> (case ng_RoutingToken g of
         Some token \<Rightarrow> do { (n, s) \<leftarrow> nego_write_routing_token s token (ng_RoutingTokenLength g); Some (len + n, s) }
       | None \<Rightarrow> (case ng_cookie g of
           Some cookie \<Rightarrow> do { (n, s) \<leftarrow> nego_write_cookie s cookie (ng_CookieMaxLength g); Some (len + n, s) }
         | None \<Rightarrow> Some (len, s)));
     (len, s) \<leftarrow> (if PROTOCOL_RDP < ng_RequestedProtocols g \<or> ng_sendNegoData g then do {
         s \<leftarrow> Stream_Write_UINT8 s 1;
         s \<leftarrow> Stream_Write_UINT8 s (if ng_RestrictedAdminModeRequired g then 1 else 0);
         s \<leftarrow> Stream_Write_UINT16 s 8;
         s \<leftarrow> Stream_Write_UINT32 s (ng_RequestedProtocols g);
         Some (len + 8, s) }
       else Some (len, s));
     let em = s_pos s;
     s \<leftarrow> Stream_SetPosition s bm;
     s \<leftarrow> tpkt_write_header s len;
     s \<leftarrow> tpdu_write_connection_request s (len - 5);
     s \<leftarrow> Stream_SetPosition s em;
     Some (Stream_SealLength s) }"

definition nego_send_negotiation_request :: "'w net \<Rightarrow> 'w rdpNego \<Rightarrow> (bool \<times> 'w rdpNego) option" where
  "nego_send_negotiation_request net g = do {
     let (s, g) = nego_stream net g 512;
     s \<leftarrow> s;
     s \<leftarrow> nego_put_request g s;
     nego_write net g s }"

section \<open>Responses, on the client\<close>

definition nego_process_negotiation_response :: "'w rdpNego \<Rightarrow> wStream \<Rightarrow> ('w rdpNego \<times> wStream) option" where
  "nego_process_negotiation_response g s =
     (if Stream_GetRemainingLength s < 7 then Some (g\<lparr>ng_state := NEGO_STATE_FAIL\<rparr>, s)
      else do {
        (flags, s) \<leftarrow> Stream_Read_UINT8 s;
        (len, s) \<leftarrow> Stream_Read_UINT16 s;
        (selected, s) \<leftarrow> Stream_Read_UINT32 s;
        Some (g\<lparr>ng_flags := flags, ng_SelectedProtocol := selected, ng_state := NEGO_STATE_FINAL\<rparr>, s) })"

definition nego_process_negotiation_failure :: "'w rdpNego \<Rightarrow> wStream \<Rightarrow> ('w rdpNego \<times> wStream) option" where
  "nego_process_negotiation_failure g s = do {
     (flags, s) \<leftarrow> Stream_Read_UINT8 s;
     (len, s) \<leftarrow> Stream_Read_UINT16 s;
     (failureCode, s) \<leftarrow> Stream_Read_UINT32 s;
     let g = (if failureCode = 2 \<or> failureCode = 3 then g\<lparr>ng_sendNegoData := True\<rparr> else g);
     Some (g\<lparr>ng_state := NEGO_STATE_FAIL\<rparr>, s) }"

text \<open>The protocol that was selected must be one that is enabled, as far as the code looks at it.\<close>

definition nego_check_selected :: "'w rdpNego \<Rightarrow> 'w rdpNego" where
  "nego_check_selected g =
     (if ng_SelectedProtocol g \<noteq> 0 then
        let g = (if ng_SelectedProtocol g = PROTOCOL_NLA \<and> \<not> ng_EnabledProtocols g PROTOCOL_NLA
                 then g\<lparr>ng_state := NEGO_STATE_FAIL\<rparr> else g)
        in (if ng_SelectedProtocol g = PROTOCOL_TLS \<and> \<not> ng_EnabledProtocols g PROTOCOL_TLS
            then g\<lparr>ng_state := NEGO_STATE_FAIL\<rparr> else g)
      else if \<not> ng_EnabledProtocols g PROTOCOL_RDP then g\<lparr>ng_state := NEGO_STATE_FAIL\<rparr> else g)"

definition nego_recv :: "'w rdpNego \<Rightarrow> wStream \<Rightarrow> (int \<times> 'w rdpNego \<times> wStream) option" where
  "nego_recv g s = do {
     (len, s) \<leftarrow> tpkt_read_header s;
     if len = 0 then Some (- 1, g, s)
     else do {
       (li, s) \<leftarrow> tpdu_read_connection_confirm s;
       case li of
         None \<Rightarrow> Some (- 1, g, s)
       | Some li \<Rightarrow>
           if 6 < li then do {
             (type, s) \<leftarrow> Stream_Read_UINT8 s;
             if type = 2 then do {
               (g, s) \<leftarrow> nego_process_negotiation_response g s;
               Some (0, nego_check_selected g, s) }
             else if type = 3 then do {
               (g, s) \<leftarrow> nego_process_negotiation_failure g s;
               Some (0, g, s) }
             else Some (0, g, s) }
           else if li = 6 then
             Some (0, g\<lparr>ng_state := (if ng_EnabledProtocols g PROTOCOL_RDP then NEGO_STATE_FINAL else NEGO_STATE_FAIL)\<rparr>, s)
           else Some (0, g\<lparr>ng_state := NEGO_STATE_FAIL\<rparr>, s) } }"

definition nego_recv_response :: "'w net \<Rightarrow> 'w rdpNego \<Rightarrow> (bool \<times> 'w rdpNego) option" where
  "nego_recv_response net g =
     (let (s, g) = nego_stream net g 1024
      in case s of
        None \<Rightarrow> Some (False, g)
      | Some s \<Rightarrow> do {
          let (m1, w) = net_malloc net 4 (tp_net (ng_transport g));
          let (m2, w) = net_malloc net 65536 w;
          (status, t, s) \<leftarrow> transport_read_pdu net m1 m2 (ng_transport g\<lparr>tp_net := w\<rparr>) s;
          let g = g\<lparr>ng_transport := t\<rparr>;
          if status < 0 then Some (False, g)
          else do {
            (status, g, s) \<leftarrow> nego_recv g s;
            Some (\<not> status < 0, g) } })"

section \<open>The attempts\<close>

definition nego_attempt_ext :: "'w net \<Rightarrow> 'w rdpNego \<Rightarrow> 'w rdpNego option" where
  "nego_attempt_ext net g = do {
     (ok, g) \<leftarrow> nego_transport_connect net (g\<lparr>ng_RequestedProtocols := PROTOCOL_NLA OR PROTOCOL_TLS OR PROTOCOL_EXT\<rparr>);
     if \<not> ok then Some (g\<lparr>ng_state := NEGO_STATE_FAIL\<rparr>)
     else do {
       (ok, g) \<leftarrow> nego_send_negotiation_request net g;
       if \<not> ok then Some (g\<lparr>ng_state := NEGO_STATE_FAIL\<rparr>)
       else do {
         (ok, g) \<leftarrow> nego_recv_response net g;
         if \<not> ok then Some (g\<lparr>ng_state := NEGO_STATE_FAIL\<rparr>)
         else if ng_state g \<noteq> NEGO_STATE_FINAL then
           let g = snd (nego_transport_disconnect net g)
           in Some (g\<lparr>ng_state :=
             (if ng_EnabledProtocols g PROTOCOL_NLA then NEGO_STATE_NLA
              else if ng_EnabledProtocols g PROTOCOL_TLS then NEGO_STATE_TLS
              else if ng_EnabledProtocols g PROTOCOL_RDP then NEGO_STATE_RDP else NEGO_STATE_FAIL)\<rparr>)
         else Some g } } }"

definition nego_attempt_nla :: "'w net \<Rightarrow> 'w rdpNego \<Rightarrow> 'w rdpNego option" where
  "nego_attempt_nla net g = do {
     (ok, g) \<leftarrow> nego_transport_connect net (g\<lparr>ng_RequestedProtocols := PROTOCOL_NLA OR PROTOCOL_TLS\<rparr>);
     if \<not> ok then Some (g\<lparr>ng_state := NEGO_STATE_FAIL\<rparr>)
     else do {
       (ok, g) \<leftarrow> nego_send_negotiation_request net g;
       if \<not> ok then Some (g\<lparr>ng_state := NEGO_STATE_FAIL\<rparr>)
       else do {
         (ok, g) \<leftarrow> nego_recv_response net g;
         if \<not> ok then Some (g\<lparr>ng_state := NEGO_STATE_FAIL\<rparr>)
         else if ng_state g \<noteq> NEGO_STATE_FINAL then
           let g = snd (nego_transport_disconnect net g)
           in Some (g\<lparr>ng_state :=
             (if ng_EnabledProtocols g PROTOCOL_TLS then NEGO_STATE_TLS
              else if ng_EnabledProtocols g PROTOCOL_RDP then NEGO_STATE_RDP else NEGO_STATE_FAIL)\<rparr>)
         else Some g } } }"

definition nego_attempt_tls :: "'w net \<Rightarrow> 'w rdpNego \<Rightarrow> 'w rdpNego option" where
  "nego_attempt_tls net g = do {
     (ok, g) \<leftarrow> nego_transport_connect net (g\<lparr>ng_RequestedProtocols := PROTOCOL_TLS\<rparr>);
     if \<not> ok then Some (g\<lparr>ng_state := NEGO_STATE_FAIL\<rparr>)
     else do {
       (ok, g) \<leftarrow> nego_send_negotiation_request net g;
       if \<not> ok then Some (g\<lparr>ng_state := NEGO_STATE_FAIL\<rparr>)
       else do {
         (ok, g) \<leftarrow> nego_recv_response net g;
         if \<not> ok then Some (g\<lparr>ng_state := NEGO_STATE_FAIL\<rparr>)
         else if ng_state g \<noteq> NEGO_STATE_FINAL then
           let g = snd (nego_transport_disconnect net g)
           in Some (g\<lparr>ng_state :=
             (if ng_EnabledProtocols g PROTOCOL_RDP then NEGO_STATE_RDP else NEGO_STATE_FAIL)\<rparr>)
         else Some g } } }"

definition nego_attempt_rdp :: "'w net \<Rightarrow> 'w rdpNego \<Rightarrow> 'w rdpNego option" where
  "nego_attempt_rdp net g = do {
     (ok, g) \<leftarrow> nego_transport_connect net (g\<lparr>ng_RequestedProtocols := PROTOCOL_RDP\<rparr>);
     if \<not> ok then Some (g\<lparr>ng_state := NEGO_STATE_FAIL\<rparr>)
     else do {
       (ok, g) \<leftarrow> nego_send_negotiation_request net g;
       if \<not> ok then Some (g\<lparr>ng_state := NEGO_STATE_FAIL\<rparr>)
       else do {
         (ok, g) \<leftarrow> nego_recv_response net g;
         if \<not> ok then Some (g\<lparr>ng_state := NEGO_STATE_FAIL\<rparr>) else Some g } } }"

definition nego_send :: "'w net \<Rightarrow> 'w rdpNego \<Rightarrow> 'w rdpNego option" where
  "nego_send net g =
     (case ng_state g of
        NEGO_STATE_EXT \<Rightarrow> nego_attempt_ext net g
      | NEGO_STATE_NLA \<Rightarrow> nego_attempt_nla net g
      | NEGO_STATE_TLS \<Rightarrow> nego_attempt_tls net g
      | NEGO_STATE_RDP \<Rightarrow> nego_attempt_rdp net g
      | _ \<Rightarrow> Some g)"

text \<open>The loop of \<open>nego_connect\<close>; the result says whether the state \<open>NEGO_STATE_FAIL\<close> ended it.\<close>

partial_function (option) nego_connect_loop :: "'w net \<Rightarrow> 'w rdpNego \<Rightarrow> (bool \<times> 'w rdpNego) option" where
  "nego_connect_loop net g = do {
     g \<leftarrow> nego_send net g;
     if ng_state g = NEGO_STATE_FAIL then Some (False, g\<lparr>ng_state := NEGO_STATE_FINAL\<rparr>)
     else if ng_state g \<noteq> NEGO_STATE_FINAL then nego_connect_loop net g
     else Some (True, g) }"

definition nego_initial_state :: "'w rdpNego \<Rightarrow> NEGO_STATE" where
  "nego_initial_state g =
     (if ng_EnabledProtocols g PROTOCOL_EXT then NEGO_STATE_EXT
      else if ng_EnabledProtocols g PROTOCOL_NLA then NEGO_STATE_NLA
      else if ng_EnabledProtocols g PROTOCOL_TLS then NEGO_STATE_TLS
      else if ng_EnabledProtocols g PROTOCOL_RDP then NEGO_STATE_RDP
      else NEGO_STATE_FAIL)"

text \<open>Without negotiation only the protocol of the initial state stays enabled.\<close>

definition nego_fix_protocol :: "'w rdpNego \<Rightarrow> 'w rdpNego" where
  "nego_fix_protocol g =
     (let g = g\<lparr>ng_EnabledProtocols :=
            (ng_EnabledProtocols g)(PROTOCOL_NLA := False, PROTOCOL_TLS := False, PROTOCOL_RDP := False, PROTOCOL_EXT := False)\<rparr>
      in case ng_state g of
        NEGO_STATE_EXT \<Rightarrow> g\<lparr>ng_EnabledProtocols := (ng_EnabledProtocols g)(PROTOCOL_EXT := True, PROTOCOL_NLA := True),
          ng_SelectedProtocol := PROTOCOL_EXT\<rparr>
      | NEGO_STATE_NLA \<Rightarrow> g\<lparr>ng_EnabledProtocols := (ng_EnabledProtocols g)(PROTOCOL_NLA := True), ng_SelectedProtocol := PROTOCOL_NLA\<rparr>
      | NEGO_STATE_TLS \<Rightarrow> g\<lparr>ng_EnabledProtocols := (ng_EnabledProtocols g)(PROTOCOL_TLS := True), ng_SelectedProtocol := PROTOCOL_TLS\<rparr>
      | NEGO_STATE_RDP \<Rightarrow> g\<lparr>ng_EnabledProtocols := (ng_EnabledProtocols g)(PROTOCOL_RDP := True), ng_SelectedProtocol := PROTOCOL_RDP\<rparr>
      | _ \<Rightarrow> g)"

text \<open>What \<open>nego_connect\<close> does before its loop: \<open>False\<close> is an early return.\<close>

definition nego_start :: "'w net \<Rightarrow> 'w rdpNego \<Rightarrow> (bool \<times> 'w rdpNego) option" where
  "nego_start net g =
     (if ng_state g \<noteq> NEGO_STATE_INITIAL then Some (True, g)
      else let g = g\<lparr>ng_state := nego_initial_state g\<rparr>
      in if ng_state g = NEGO_STATE_FAIL then Some (False, g)
         else let g = (if \<not> ng_NegotiateSecurityLayer g then nego_fix_protocol g else g)
         in if ng_SendPreconnectionPdu g then do {
              (ok, g) \<leftarrow> nego_send_preconnection_pdu net g;
              if \<not> ok then Some (False, g\<lparr>ng_state := NEGO_STATE_FINAL\<rparr>) else Some (True, g) }
            else Some (True, g))"

definition nego_settings :: "'w rdpNego \<Rightarrow> rdpSettings" where
  "nego_settings g = tp_settings (ng_transport g)"

definition nego_set_settings :: "(rdpSettings \<Rightarrow> rdpSettings) \<Rightarrow> 'w rdpNego \<Rightarrow> 'w rdpNego" where
  "nego_set_settings f g = g\<lparr>ng_transport := ng_transport g\<lparr>tp_settings := f (nego_settings g)\<rparr>\<rparr>"

definition nego_connect :: "'w net \<Rightarrow> 'w rdpNego \<Rightarrow> (bool \<times> 'w rdpNego) option" where
  "nego_connect net g = do {
     (ok, g) \<leftarrow> nego_start net g;
     if \<not> ok then Some (False, g)
     else do {
       (ok, g) \<leftarrow> nego_connect_loop net g;
       if \<not> ok then Some (False, g)
       else do {
         let g = nego_set_settings (\<lambda>st. st\<lparr>set_RequestedProtocols := ng_RequestedProtocols g,
             set_SelectedProtocol := ng_SelectedProtocol g, set_NegotiationFlags := ng_flags g\<rparr>) g;
         let g = (if ng_SelectedProtocol g = PROTOCOL_RDP
                  then nego_set_settings (\<lambda>st. st\<lparr>set_UseRdpSecurityLayer := True,
                      set_EncryptionMethods := (if set_EncryptionMethods st = 0 then 1 OR 8 OR 2 OR 0x10 else set_EncryptionMethods st)\<rparr>) g
                  else g);
         (ok, g) \<leftarrow> nego_security_connect net g;
         if \<not> ok then Some (False, g)
         else Some (True, if ng_flags g AND 2 = 0 then nego_set_settings (\<lambda>st. st\<lparr>set_NetworkAutoDetect := False\<rparr>) g else g) } } }"

section \<open>Requests and responses, on the server\<close>

definition nego_set_routing_token :: "byte fresh \<Rightarrow> 'w rdpNego \<Rightarrow> byte list \<Rightarrow> bool \<times> 'w rdpNego" where
  "nego_set_routing_token mem g token =
     (let g = g\<lparr>ng_RoutingTokenLength := int (length token)\<rparr>
      in if mem = None then (False, g\<lparr>ng_RoutingToken := None\<rparr>) else (True, g\<lparr>ng_RoutingToken := Some token\<rparr>))"

definition nego_set_cookie :: "byte fresh \<Rightarrow> 'w rdpNego \<Rightarrow> byte list option \<Rightarrow> bool \<times> 'w rdpNego" where
  "nego_set_cookie mem g cookie =
     (let g = g\<lparr>ng_cookie := None\<rparr>
      in case cookie of
        None \<Rightarrow> (True, g)
      | Some c \<Rightarrow> if mem = None then (False, g) else (True, g\<lparr>ng_cookie := Some c\<rparr>))"

text \<open>The search for the end of the line: whether it was found, and the stream behind it.\<close>

partial_function (option) nego_find_crlf :: "wStream \<Rightarrow> (bool \<times> wStream) option" where
  "nego_find_crlf s =
     (if 2 \<le> Stream_GetRemainingLength s then do {
        (crlf, s) \<leftarrow> Stream_Read_UINT16 s;
        if crlf = 0x0A0D then Some (True, s)
        else do { s \<leftarrow> Stream_Rewind s 1; nego_find_crlf s } }
      else Some (False, s))"

text \<open>\<open>strlen\<close> of the bytes at a position of the buffer.\<close>

definition buffer_strlen :: "wStream \<Rightarrow> int \<Rightarrow> nat option" where
  "buffer_strlen s pos =
     (let bs = drop (nat pos) (s_buffer s) in if 0 \<in> set bs then Some (length (takeWhile (\<lambda>b. b \<noteq> 0) bs)) else None)"

definition nego_read_request_token_or_cookie :: "byte fresh \<Rightarrow> 'w rdpNego \<Rightarrow> wStream \<Rightarrow> (bool \<times> 'w rdpNego \<times> wStream) option" where
  "nego_read_request_token_or_cookie mem g s = do {
     let pos = s_pos s;
     if Stream_GetRemainingLength s < 15 then Some (True, g, s)
     else do {
       head \<leftarrow> ablock (s_buffer s) pos 13;
       (start, isToken) \<leftarrow> (if head = token_prefix then Some (13, True)
          else if Stream_GetRemainingLength s < 19 then Some (0, False)
          else do { head \<leftarrow> ablock (s_buffer s) pos 17; Some (if head = cookie_prefix then 17 else 0, False) });
       if start = 0 then Some (True, g, s)
       else do {
         s \<leftarrow> Stream_Seek s start;
         (found, s) \<leftarrow> nego_find_crlf s;
         (result, g, s) \<leftarrow> (if found then do {
             s \<leftarrow> Stream_Rewind s 2;
             let len = as_int (s_pos s - pos);
             s \<leftarrow> Stream_Write_UINT16 s 0;
             n \<leftarrow> buffer_strlen s pos;
             if int n = len then do {
               str \<leftarrow> ablock (s_buffer s) pos len;
               let (ok, g) = (if isToken then nego_set_routing_token mem g str else nego_set_cookie mem g (Some str));
               Some (ok, g, s) }
             else Some (False, g, s) }
           else Some (False, g, s));
         if result then Some (True, g, s)
         else do { s \<leftarrow> Stream_SetPosition s pos; Some (False, g, s) } } } }"

definition nego_process_negotiation_request :: "'w rdpNego \<Rightarrow> wStream \<Rightarrow> ('w rdpNego \<times> wStream) option" where
  "nego_process_negotiation_request g s = do {
     (flags, s) \<leftarrow> Stream_Read_UINT8 s;
     (len, s) \<leftarrow> Stream_Read_UINT16 s;
     (requested, s) \<leftarrow> Stream_Read_UINT32 s;
     Some (g\<lparr>ng_RequestedProtocols := requested, ng_state := NEGO_STATE_FINAL\<rparr>, s) }"

definition nego_read_request :: "byte fresh \<Rightarrow> 'w rdpNego \<Rightarrow> wStream \<Rightarrow> (bool \<times> 'w rdpNego \<times> wStream) option" where
  "nego_read_request mem g s = do {
     (_, s) \<leftarrow> tpkt_read_header s;
     (li, s) \<leftarrow> tpdu_read_connection_request s;
     case li of
       None \<Rightarrow> Some (False, g, s)
     | Some li \<Rightarrow>
         if li \<noteq> csize (Stream_GetRemainingLength s + 6) then Some (False, g, s)
         else do {
           (ok, g, s) \<leftarrow> nego_read_request_token_or_cookie mem g s;
           if \<not> ok then Some (False, g, s)
           else if 8 \<le> Stream_GetRemainingLength s then do {
             (type, s) \<leftarrow> Stream_Read_UINT8 s;
             if type \<noteq> 1 then Some (False, g, s)
             else do { (g, s) \<leftarrow> nego_process_negotiation_request g s; Some (True, g, s) } }
           else Some (True, g, s) } }"

text \<open>The response that is put into the stream.\<close>

definition nego_put_response :: "'w rdpNego \<Rightarrow> wStream \<Rightarrow> wStream option" where
  "nego_put_response g s = do {
     let bm = s_pos s;
     s \<leftarrow> Stream_Seek s 11;
     s \<leftarrow> (if ng_SelectedProtocol g AND PROTOCOL_FAILED_NEGO \<noteq> 0 then do {
         s \<leftarrow> Stream_Write_UINT8 s 3;
         s \<leftarrow> Stream_Write_UINT8 s 0;
         s \<leftarrow> Stream_Write_UINT16 s 8;
         Stream_Write_UINT32 s (ng_SelectedProtocol g AND NOT PROTOCOL_FAILED_NEGO) }
       else do {
         s \<leftarrow> Stream_Write_UINT8 s 2;
         s \<leftarrow> Stream_Write_UINT8 s (if set_SupportGraphicsPipeline (nego_settings g) then 1 OR 2 else 1);
         s \<leftarrow> Stream_Write_UINT16 s 8;
         Stream_Write_UINT32 s (ng_SelectedProtocol g) });
     let em = s_pos s;
     s \<leftarrow> Stream_SetPosition s bm;
     s \<leftarrow> tpkt_write_header s 19;
     s \<leftarrow> tpdu_write_connection_confirm s 14;
     s \<leftarrow> Stream_SetPosition s em;
     Some (Stream_SealLength s) }"

text \<open>The settings after a selection; the result is \<open>False\<close> when the server has no certificate.\<close>

definition nego_select :: "rdpSettings \<Rightarrow> bool \<times> rdpSettings" where
  "nego_select st =
     (if set_SelectedProtocol st = PROTOCOL_RDP then
        let st = st\<lparr>set_TlsSecurity := False, set_NlaSecurity := False, set_RdpSecurity := True, set_UseRdpSecurityLayer := True,
              set_EncryptionLevel := (if set_EncryptionLevel st = 0 then 2 else set_EncryptionLevel st)\<rparr>;
            st = (if set_LocalConnection st then st\<lparr>set_UseRdpSecurityLayer := False, set_EncryptionLevel := 0\<rparr> else st)
        in (set_RdpServerRsaKey st \<or> set_RdpKeyFile st, st)
      else if set_SelectedProtocol st = PROTOCOL_TLS then
        (True, st\<lparr>set_TlsSecurity := True, set_NlaSecurity := False, set_RdpSecurity := False, set_UseRdpSecurityLayer := False,
           set_EncryptionLevel := 0\<rparr>)
      else if set_SelectedProtocol st = PROTOCOL_NLA then
        (True, st\<lparr>set_TlsSecurity := True, set_NlaSecurity := True, set_RdpSecurity := False, set_UseRdpSecurityLayer := False,
           set_EncryptionLevel := 0\<rparr>)
      else (True, st))"

definition nego_send_negotiation_response :: "'w net \<Rightarrow> 'w rdpNego \<Rightarrow> (bool \<times> 'w rdpNego) option" where
  "nego_send_negotiation_response net g =
     (let (s, g) = nego_stream net g 512
      in case s of
        None \<Rightarrow> Some (False, g)
      | Some s \<Rightarrow> do {
          let status = (ng_SelectedProtocol g AND PROTOCOL_FAILED_NEGO = 0);
          s \<leftarrow> nego_put_response g s;
          (ok, g) \<leftarrow> nego_write net g s;
          if \<not> ok then Some (False, g)
          else if status then
            let (ok, st) = nego_select ((nego_settings g)\<lparr>set_RequestedProtocols := ng_RequestedProtocols g,
              set_SelectedProtocol := ng_SelectedProtocol g\<rparr>)
            in Some (ok, nego_set_settings (\<lambda>_. st) g)
          else Some (False, g) })"

section \<open>Construction and options\<close>

definition nego_init :: "'w rdpNego \<Rightarrow> 'w rdpNego" where
  "nego_init g = g\<lparr>ng_state := NEGO_STATE_INITIAL, ng_RequestedProtocols := PROTOCOL_RDP, ng_CookieMaxLength := 0xFF,
     ng_sendNegoData := False, ng_flags := 0\<rparr>"

definition nego_new :: "bool \<Rightarrow> 'w rdpTransport \<Rightarrow> 'w rdpNego option" where
  "nego_new mem t =
     (if \<not> mem then None
      else Some (nego_init \<lparr>ng_port = 0, ng_flags = 0, ng_hostname = [], ng_cookie = None, ng_RoutingToken = None,
        ng_RoutingTokenLength = 0, ng_SendPreconnectionPdu = False, ng_PreconnectionId = 0, ng_PreconnectionBlob = None,
        ng_state = NEGO_STATE_INITIAL, ng_TcpConnected = False, ng_SecurityConnected = False, ng_CookieMaxLength = 0,
        ng_sendNegoData = False, ng_SelectedProtocol = 0, ng_RequestedProtocols = 0, ng_NegotiateSecurityLayer = False,
        ng_EnabledProtocols = (\<lambda>_. False), ng_RestrictedAdminModeRequired = False, ng_GatewayEnabled = False,
        ng_GatewayBypassLocal = False, ng_transport = t\<rparr>))"

definition nego_set_target :: "'w rdpNego \<Rightarrow> byte list \<Rightarrow> int \<Rightarrow> 'w rdpNego" where
  "nego_set_target g hostname port = g\<lparr>ng_hostname := hostname, ng_port := port\<rparr>"

definition nego_set_negotiation_enabled :: "'w rdpNego \<Rightarrow> bool \<Rightarrow> 'w rdpNego" where
  "nego_set_negotiation_enabled g b = g\<lparr>ng_NegotiateSecurityLayer := b\<rparr>"

definition nego_set_restricted_admin_mode_required :: "'w rdpNego \<Rightarrow> bool \<Rightarrow> 'w rdpNego" where
  "nego_set_restricted_admin_mode_required g b = g\<lparr>ng_RestrictedAdminModeRequired := b\<rparr>"

definition nego_set_gateway_enabled :: "'w rdpNego \<Rightarrow> bool \<Rightarrow> 'w rdpNego" where
  "nego_set_gateway_enabled g b = g\<lparr>ng_GatewayEnabled := b\<rparr>"

definition nego_set_gateway_bypass_local :: "'w rdpNego \<Rightarrow> bool \<Rightarrow> 'w rdpNego" where
  "nego_set_gateway_bypass_local g b = g\<lparr>ng_GatewayBypassLocal := b\<rparr>"

definition nego_enable_rdp :: "'w rdpNego \<Rightarrow> bool \<Rightarrow> 'w rdpNego" where
  "nego_enable_rdp g b = g\<lparr>ng_EnabledProtocols := (ng_EnabledProtocols g)(PROTOCOL_RDP := b)\<rparr>"

definition nego_enable_tls :: "'w rdpNego \<Rightarrow> bool \<Rightarrow> 'w rdpNego" where
  "nego_enable_tls g b = g\<lparr>ng_EnabledProtocols := (ng_EnabledProtocols g)(PROTOCOL_TLS := b)\<rparr>"

definition nego_enable_nla :: "'w rdpNego \<Rightarrow> bool \<Rightarrow> 'w rdpNego" where
  "nego_enable_nla g b = g\<lparr>ng_EnabledProtocols := (ng_EnabledProtocols g)(PROTOCOL_NLA := b)\<rparr>"

definition nego_enable_ext :: "'w rdpNego \<Rightarrow> bool \<Rightarrow> 'w rdpNego" where
  "nego_enable_ext g b = g\<lparr>ng_EnabledProtocols := (ng_EnabledProtocols g)(PROTOCOL_EXT := b)\<rparr>"

definition nego_set_cookie_max_length :: "'w rdpNego \<Rightarrow> int \<Rightarrow> 'w rdpNego" where
  "nego_set_cookie_max_length g n = g\<lparr>ng_CookieMaxLength := n\<rparr>"

definition nego_set_send_preconnection_pdu :: "'w rdpNego \<Rightarrow> bool \<Rightarrow> 'w rdpNego" where
  "nego_set_send_preconnection_pdu g b = g\<lparr>ng_SendPreconnectionPdu := b\<rparr>"

definition nego_set_preconnection_id :: "'w rdpNego \<Rightarrow> int \<Rightarrow> 'w rdpNego" where
  "nego_set_preconnection_id g n = g\<lparr>ng_PreconnectionId := n\<rparr>"

definition nego_set_preconnection_blob :: "'w rdpNego \<Rightarrow> byte list option \<Rightarrow> 'w rdpNego" where
  "nego_set_preconnection_blob g blob = g\<lparr>ng_PreconnectionBlob := blob\<rparr>"

text \<open>The loops are evaluated by their equations.\<close>

declare nego_connect_loop.simps [code]
declare transport_read_loop.simps [code]
declare transport_write_loop.simps [code]
declare transport_flush_loop.simps [code]

end
