(* ===== verification/NegoSafety.thy ===== *)
theory NegoSafety
  imports WNego
begin

text \<open>
  The negotiation never ends with a protocol that the client did not enable; what every step keeps of the
  client, how the attempts follow each other, and that without standard security they come to an end.
\<close>

section \<open>What an attempt keeps\<close>

text \<open>The protocols, the mode and the absence of a security layer are as in \<open>g\<close>.\<close>

definition nego_keeps :: "'w rdpNego \<Rightarrow> 'w rdpNego \<Rightarrow> bool" where
  "nego_keeps g g' \<longleftrightarrow> ng_EnabledProtocols g' = ng_EnabledProtocols g \<and> ng_NegotiateSecurityLayer g' = ng_NegotiateSecurityLayer g
     \<and> (ng_NegotiateSecurityLayer g \<longrightarrow> ng_SecurityConnected g' \<longrightarrow> ng_SecurityConnected g)"

lemma nego_keeps_refl [simp]: "nego_keeps g g"
  by (simp add: nego_keeps_def)

lemma nego_keeps_trans: "nego_keeps g g' \<Longrightarrow> nego_keeps g' g'' \<Longrightarrow> nego_keeps g g''"
  by (auto simp: nego_keeps_def)

lemma tcp_connect_keeps: "nego_tcp_connect net g = (ok, g') \<Longrightarrow> nego_keeps g g' \<and> ng_state g' = ng_state g"
  by (auto simp: nego_tcp_connect_def nego_keeps_def Let_def split: if_splits prod.splits)

lemma transport_connect_keeps:
  assumes "nego_transport_connect net g = Some (ok, g')"
  shows "nego_keeps g g' \<and> ng_state g' = ng_state g"
proof -
  obtain b g1 where t: "nego_tcp_connect net g = (b, g1)" by fastforce
  from tcp_connect_keeps [OF t] assms t show ?thesis
    by (auto simp: nego_transport_connect_def nego_security_connect_def nego_keeps_def Let_def split: if_splits bind_splits)
qed

lemma transport_disconnect_keeps: "nego_keeps g (snd (nego_transport_disconnect net g))"
  by (simp add: nego_transport_disconnect_def nego_keeps_def Let_def)

lemma nego_stream_keeps: "nego_stream net g n = (s, g') \<Longrightarrow> nego_keeps g g' \<and> ng_state g' = ng_state g"
  by (auto simp: nego_stream_def nego_keeps_def Let_def split: prod.splits)

lemma send_request_keeps:
  assumes "nego_send_negotiation_request net g = Some (ok, g')"
  shows "nego_keeps g g' \<and> ng_state g' = ng_state g"
proof -
  obtain s g1 where s: "nego_stream net g 512 = (s, g1)" by fastforce
  from nego_stream_keeps [OF s] assms s show ?thesis
    by (auto simp: nego_send_negotiation_request_def nego_write_def nego_keeps_def split: bind_splits)
qed

text \<open>
  A selection that the client accepted: with standard RDP security disabled it is not standard security,
  and TLS or NLA only when it is enabled.
\<close>

definition nego_selected :: "'w rdpNego \<Rightarrow> bool" where
  "nego_selected g \<longleftrightarrow> ng_SelectedProtocol g \<noteq> PROTOCOL_RDP
     \<and> (ng_SelectedProtocol g = PROTOCOL_NLA \<longrightarrow> ng_EnabledProtocols g PROTOCOL_NLA)
     \<and> (ng_SelectedProtocol g = PROTOCOL_TLS \<longrightarrow> ng_EnabledProtocols g PROTOCOL_TLS)"

lemma nego_recv_keeps:
  assumes "nego_recv g s = Some (st, g', s')"
  shows "nego_keeps g g'" and "ng_state g \<noteq> NEGO_STATE_FINAL \<Longrightarrow> \<not> ng_EnabledProtocols g PROTOCOL_RDP \<Longrightarrow>
    ng_state g' = NEGO_STATE_FINAL \<Longrightarrow> nego_selected g'"
  using assms
  by (auto simp: nego_recv_def nego_process_negotiation_response_def nego_process_negotiation_failure_def nego_check_selected_def
      nego_keeps_def nego_selected_def Let_def split: bind_splits if_splits option.splits)

lemma recv_response_keeps:
  assumes "nego_recv_response net g = Some (ok, g')"
  shows "nego_keeps g g'" and "ng_state g \<noteq> NEGO_STATE_FINAL \<Longrightarrow> \<not> ng_EnabledProtocols g PROTOCOL_RDP \<Longrightarrow>
    ng_state g' = NEGO_STATE_FINAL \<Longrightarrow> nego_selected g'"
proof -
  obtain s g1 where s: "nego_stream net g 1024 = (s, g1)" by fastforce
  note k = nego_stream_keeps [OF s]
  have "nego_keeps g g' \<and> (ng_state g \<noteq> NEGO_STATE_FINAL \<longrightarrow> \<not> ng_EnabledProtocols g PROTOCOL_RDP \<longrightarrow>
      ng_state g' = NEGO_STATE_FINAL \<longrightarrow> nego_selected g')"
  proof (cases s)
    case None
    with assms s k show ?thesis by (auto simp: nego_recv_response_def)
  next
    case (Some s1)
    obtain m1 w1 where m1: "net_malloc net 4 (tp_net (ng_transport g1)) = (m1, w1)" by fastforce
    obtain m2 w2 where m2: "net_malloc net 65536 w1 = (m2, w2)" by fastforce
    from assms s Some m1 m2 obtain st t s2 where
      r: "transport_read_pdu net m1 m2 (ng_transport g1\<lparr>tp_net := w2\<rparr>) s1 = Some (st, t, s2)"
      by (auto simp: nego_recv_response_def split: bind_splits)
    let ?g2 = "g1\<lparr>ng_transport := t\<rparr>"
    have k2: "nego_keeps g ?g2" "ng_state ?g2 = ng_state g" using k by (auto simp: nego_keeps_def)
    show ?thesis
    proof (cases "st < 0")
      case True
      with assms s Some m1 m2 r k2 show ?thesis by (auto simp: nego_recv_response_def)
    next
      case False
      with assms s Some m1 m2 r obtain st2 s3 where "nego_recv ?g2 s2 = Some (st2, g', s3)"
        by (auto simp: nego_recv_response_def split: bind_splits)
      note n = nego_recv_keeps [OF this]
      have "ng_EnabledProtocols ?g2 = ng_EnabledProtocols g" using k2 by (simp add: nego_keeps_def)
      with n k2 nego_keeps_trans [OF k2(1) n(1)] show ?thesis by auto
    qed
  qed
  then show "nego_keeps g g'" and "ng_state g \<noteq> NEGO_STATE_FINAL \<Longrightarrow> \<not> ng_EnabledProtocols g PROTOCOL_RDP \<Longrightarrow>
    ng_state g' = NEGO_STATE_FINAL \<Longrightarrow> nego_selected g'" by auto
qed

text \<open>The common shape of the attempts.\<close>

definition nego_attempt :: "'w net \<Rightarrow> int \<Rightarrow> ('w rdpNego \<Rightarrow> 'w rdpNego) \<Rightarrow> 'w rdpNego \<Rightarrow> 'w rdpNego option" where
  "nego_attempt net req fallback g = do {
     (ok, g) \<leftarrow> nego_transport_connect net (g\<lparr>ng_RequestedProtocols := req\<rparr>);
     if \<not> ok then Some (g\<lparr>ng_state := NEGO_STATE_FAIL\<rparr>)
     else do {
       (ok, g) \<leftarrow> nego_send_negotiation_request net g;
       if \<not> ok then Some (g\<lparr>ng_state := NEGO_STATE_FAIL\<rparr>)
       else do {
         (ok, g) \<leftarrow> nego_recv_response net g;
         if \<not> ok then Some (g\<lparr>ng_state := NEGO_STATE_FAIL\<rparr>)
         else if ng_state g \<noteq> NEGO_STATE_FINAL then Some (fallback g) else Some g } } }"

definition nego_fall :: "'w net \<Rightarrow> NEGO_STATE \<Rightarrow> 'w rdpNego \<Rightarrow> 'w rdpNego" where
  "nego_fall net from g =
     (let g = snd (nego_transport_disconnect net g); e = ng_EnabledProtocols g
      in g\<lparr>ng_state :=
        (if from = NEGO_STATE_EXT \<and> e PROTOCOL_NLA then NEGO_STATE_NLA
         else if from \<noteq> NEGO_STATE_TLS \<and> e PROTOCOL_TLS then NEGO_STATE_TLS
         else if e PROTOCOL_RDP then NEGO_STATE_RDP else NEGO_STATE_FAIL)\<rparr>)"

lemma nego_send_attempt:
  "nego_send net g =
     (case ng_state g of
        NEGO_STATE_EXT \<Rightarrow> nego_attempt net (2 OR 1 OR 8) (nego_fall net NEGO_STATE_EXT) g
      | NEGO_STATE_NLA \<Rightarrow> nego_attempt net (2 OR 1) (nego_fall net NEGO_STATE_NLA) g
      | NEGO_STATE_TLS \<Rightarrow> nego_attempt net 1 (nego_fall net NEGO_STATE_TLS) g
      | NEGO_STATE_RDP \<Rightarrow> nego_attempt net 0 (\<lambda>g. g) g
      | _ \<Rightarrow> Some g)"
  by (simp add: nego_send_def nego_attempt_ext_def nego_attempt_nla_def nego_attempt_tls_def nego_attempt_rdp_def
      nego_attempt_def nego_fall_def Let_def cong: if_cong split: NEGO_STATE.splits)


lemma attempt_keeps:
  assumes "nego_attempt net req f g = Some g'" and f: "\<And>x. nego_keeps x (f x)" "\<And>x. ng_state x \<noteq> NEGO_STATE_FINAL \<Longrightarrow> ng_state (f x) \<noteq> NEGO_STATE_FINAL"
  shows "nego_keeps g g'" and "ng_state g \<noteq> NEGO_STATE_FINAL \<Longrightarrow> \<not> ng_EnabledProtocols g PROTOCOL_RDP \<Longrightarrow>
    ng_state g' = NEGO_STATE_FINAL \<Longrightarrow> nego_selected g'"
proof -
  let ?Q = "nego_keeps g g' \<and> (ng_state g \<noteq> NEGO_STATE_FINAL \<longrightarrow> \<not> ng_EnabledProtocols g PROTOCOL_RDP \<longrightarrow>
    ng_state g' = NEGO_STATE_FINAL \<longrightarrow> nego_selected g')"
  have fail: "nego_keeps g x \<Longrightarrow> nego_keeps g (x\<lparr>ng_state := st\<rparr>)" for x st by (simp add: nego_keeps_def)
  from assms(1) obtain ok1 g1 where c: "nego_transport_connect net (g\<lparr>ng_RequestedProtocols := req\<rparr>) = Some (ok1, g1)"
    by (auto simp: nego_attempt_def split: bind_splits)
  have k1: "nego_keeps g g1" "ng_state g1 = ng_state g" using transport_connect_keeps [OF c] by (auto simp: nego_keeps_def)
  have ?Q
  proof (cases ok1)
    case False
    with assms(1) c k1 fail show ?thesis by (auto simp: nego_attempt_def)
  next
    case ok1: True
    with assms(1) c obtain ok2 g2 where q: "nego_send_negotiation_request net g1 = Some (ok2, g2)"
      by (auto simp: nego_attempt_def split: bind_splits)
    have k2: "nego_keeps g g2" "ng_state g2 = ng_state g"
      using send_request_keeps [OF q] k1 nego_keeps_trans by auto
    show ?thesis
    proof (cases ok2)
      case False
      with assms(1) c q ok1 k2 fail show ?thesis by (auto simp: nego_attempt_def)
    next
      case ok2: True
      with assms(1) c q ok1 obtain ok3 g3 where r: "nego_recv_response net g2 = Some (ok3, g3)"
        by (auto simp: nego_attempt_def split: bind_splits)
      have k3: "nego_keeps g g3" using recv_response_keeps(1) [OF r] k2 nego_keeps_trans by auto
      have e: "ng_EnabledProtocols g2 = ng_EnabledProtocols g" using k2 by (simp add: nego_keeps_def)
      note sel = recv_response_keeps(2) [OF r, unfolded e k2(2)]
      have "g' = g3\<lparr>ng_state := NEGO_STATE_FAIL\<rparr> \<or> ng_state g3 \<noteq> NEGO_STATE_FINAL \<and> g' = f g3 \<or> g' = g3"
        using assms(1) c q r ok1 ok2 by (auto simp: nego_attempt_def split: if_splits)
      then show ?thesis using k3 sel fail [OF k3] nego_keeps_trans [OF k3 f(1)] f(2) by auto
    qed
  qed
  then show "nego_keeps g g'" and "ng_state g \<noteq> NEGO_STATE_FINAL \<Longrightarrow> \<not> ng_EnabledProtocols g PROTOCOL_RDP \<Longrightarrow>
    ng_state g' = NEGO_STATE_FINAL \<Longrightarrow> nego_selected g'" by auto
qed

lemma nego_fall_keeps: "nego_keeps x (nego_fall net st x)" "ng_state (nego_fall net st x) \<noteq> NEGO_STATE_FINAL"
  using transport_disconnect_keeps [of x net] by (auto simp: nego_fall_def nego_keeps_def Let_def)

lemma nego_send_keeps:
  assumes "nego_send net g = Some g'"
  shows "nego_keeps g g'" and "ng_state g \<noteq> NEGO_STATE_FINAL \<Longrightarrow> \<not> ng_EnabledProtocols g PROTOCOL_RDP \<Longrightarrow>
    ng_state g' = NEGO_STATE_FINAL \<Longrightarrow> nego_selected g'"
proof -
  have "nego_keeps g g' \<and> (ng_state g \<noteq> NEGO_STATE_FINAL \<longrightarrow> \<not> ng_EnabledProtocols g PROTOCOL_RDP \<longrightarrow>
    ng_state g' = NEGO_STATE_FINAL \<longrightarrow> nego_selected g')"
  proof (cases "ng_state g")
    case NEGO_STATE_EXT
    with assms have a: "nego_attempt net (2 OR 1 OR 8) (nego_fall net NEGO_STATE_EXT) g = Some g'" by (simp add: nego_send_attempt)
    show ?thesis using attempt_keeps [OF a nego_fall_keeps(1)] nego_fall_keeps(2) by blast
  next
    case NEGO_STATE_NLA
    with assms have a: "nego_attempt net (2 OR 1) (nego_fall net NEGO_STATE_NLA) g = Some g'" by (simp add: nego_send_attempt)
    show ?thesis using attempt_keeps [OF a nego_fall_keeps(1)] nego_fall_keeps(2) by blast
  next
    case NEGO_STATE_TLS
    with assms have a: "nego_attempt net 1 (nego_fall net NEGO_STATE_TLS) g = Some g'" by (simp add: nego_send_attempt)
    show ?thesis using attempt_keeps [OF a nego_fall_keeps(1)] nego_fall_keeps(2) by blast
  next
    case NEGO_STATE_RDP
    with assms have a: "nego_attempt net 0 (\<lambda>g. g) g = Some g'" by (simp add: nego_send_attempt)
    show ?thesis using attempt_keeps [OF a] by simp
  qed (use assms in \<open>simp_all add: nego_send_attempt\<close>)
  then show "nego_keeps g g'" and "ng_state g \<noteq> NEGO_STATE_FINAL \<Longrightarrow> \<not> ng_EnabledProtocols g PROTOCOL_RDP \<Longrightarrow>
    ng_state g' = NEGO_STATE_FINAL \<Longrightarrow> nego_selected g'" by auto
qed

lemma connect_loop_selected:
  assumes "nego_connect_loop net g = Some (ok, g')" and "ng_state g \<noteq> NEGO_STATE_FINAL" and "\<not> ng_EnabledProtocols g PROTOCOL_RDP"
  shows "nego_keeps g g' \<and> (ok \<longrightarrow> nego_selected g')"
proof -
  have "ng_state g \<noteq> NEGO_STATE_FINAL \<longrightarrow> \<not> ng_EnabledProtocols g PROTOCOL_RDP \<longrightarrow>
      nego_keeps g (snd (ok, g')) \<and> (fst (ok, g') \<longrightarrow> nego_selected (snd (ok, g')))"
  proof (rule nego_connect_loop.raw_induct [where P = "\<lambda>net g r. ng_state g \<noteq> NEGO_STATE_FINAL \<longrightarrow> \<not> ng_EnabledProtocols g PROTOCOL_RDP \<longrightarrow>
      nego_keeps g (snd r) \<and> (fst r \<longrightarrow> nego_selected (snd r))", OF _ assms(1)])
    fix f :: "'a net \<Rightarrow> 'a rdpNego \<Rightarrow> (bool \<times> 'a rdpNego) option" and net :: "'a net" and g res
    assume IH: "\<And>net g r. f net g = Some r \<Longrightarrow> ng_state g \<noteq> NEGO_STATE_FINAL \<longrightarrow> \<not> ng_EnabledProtocols g PROTOCOL_RDP \<longrightarrow>
      nego_keeps g (snd r) \<and> (fst r \<longrightarrow> nego_selected (snd r))"
    assume eq: "(do {
      g \<leftarrow> nego_send net g;
      if ng_state g = NEGO_STATE_FAIL then Some (False, g\<lparr>ng_state := NEGO_STATE_FINAL\<rparr>)
      else if ng_state g \<noteq> NEGO_STATE_FINAL then f net g
      else Some (True, g) }) = Some res"
    show "ng_state g \<noteq> NEGO_STATE_FINAL \<longrightarrow> \<not> ng_EnabledProtocols g PROTOCOL_RDP \<longrightarrow>
      nego_keeps g (snd res) \<and> (fst res \<longrightarrow> nego_selected (snd res))"
    proof (intro impI)
      assume g: "ng_state g \<noteq> NEGO_STATE_FINAL" "\<not> ng_EnabledProtocols g PROTOCOL_RDP"
      from eq obtain g1 where s: "nego_send net g = Some g1" by (auto split: bind_splits)
      note k = nego_send_keeps(1) [OF s] nego_send_keeps(2) [OF s g]
      have e: "ng_EnabledProtocols g1 = ng_EnabledProtocols g" using k(1) by (simp add: nego_keeps_def)
      show "nego_keeps g (snd res) \<and> (fst res \<longrightarrow> nego_selected (snd res))"
      proof (cases "ng_state g1 = NEGO_STATE_FAIL \<or> ng_state g1 = NEGO_STATE_FINAL")
        case True
        with eq s k show ?thesis by (auto simp: nego_keeps_def split: if_splits)
      next
        case False
        with eq s have "f net g1 = Some res" by simp
        from IH [OF this] False g(2) e nego_keeps_trans [OF k(1)] show ?thesis by simp
      qed
    qed
  qed
  then show ?thesis using assms by simp
qed

lemma preconnection_keeps:
  assumes that: "nego_send_preconnection_pdu net x = Some (ok, y)"
  shows "nego_keeps x y \<and> ng_state y = ng_state x"
proof -
  obtain b x1 where t: "nego_tcp_connect net x = (b, x1)" by fastforce
  note k = tcp_connect_keeps [OF t]
  show ?thesis
  proof (cases b)
    case False
    with that t k show ?thesis by (simp add: nego_send_preconnection_pdu_def)
  next
    case True
    obtain wsz w where c: "(case ng_PreconnectionBlob x1 of None \<Rightarrow> (None, tp_net (ng_transport x1))
      | Some blob \<Rightarrow> ConvertToUnicode net blob (tp_net (ng_transport x1))) = (wsz, w)" by fastforce
    let ?x2 = "x1\<lparr>ng_transport := ng_transport x1\<lparr>tp_net := w\<rparr>\<rparr>"
    let ?cch = "if ng_PreconnectionBlob x1 = None then 0
      else u16 ((case wsz of None \<Rightarrow> 0 | Some bs \<Rightarrow> u16 (int (length bs) div 2)) + 1)"
    obtain s x3 where n: "nego_stream net ?x2 (18 + ?cch * 2) = (s, x3)" by fastforce
    from that have "\<exists>s'. nego_write net x3 s' = Some (ok, y)"
      unfolding nego_send_preconnection_pdu_def t Let_def prod.case c using True n by (auto split: bind_splits)
    then have "nego_keeps x3 y \<and> ng_state y = ng_state x3" by (auto simp: nego_write_def nego_keeps_def split: bind_splits)
    moreover have "nego_keeps x ?x2" "ng_state ?x2 = ng_state x" using k by (simp_all add: nego_keeps_def)
    ultimately show ?thesis using nego_stream_keeps [OF n] nego_keeps_trans by metis
  qed
qed

lemma nego_start_keeps:
  assumes "nego_start net g = Some (True, g')" and "ng_NegotiateSecurityLayer g" and "ng_state g = NEGO_STATE_INITIAL"
  shows "nego_keeps g g' \<and> ng_state g' \<noteq> NEGO_STATE_FINAL"
proof -
  have st: "nego_initial_state g \<noteq> NEGO_STATE_FINAL" by (simp add: nego_initial_state_def)
  let ?g = "g\<lparr>ng_state := nego_initial_state g\<rparr>"
  have k: "nego_keeps g ?g" by (simp add: nego_keeps_def)
  show ?thesis
  proof (cases "nego_initial_state g = NEGO_STATE_FAIL \<or> \<not> ng_SendPreconnectionPdu g")
    case True
    with assms have "g' = ?g" by (simp add: nego_start_def Let_def split: if_splits)
    with k st show ?thesis by simp
  next
    case False
    obtain q where q: "nego_send_preconnection_pdu net ?g = Some q"
      using assms False by (simp add: nego_start_def Let_def split: bind_splits)
    obtain ok y where y: "q = (ok, y)" by fastforce
    have "y = g'" using assms False q y by (simp add: nego_start_def Let_def split: if_splits)
    with q y have "nego_send_preconnection_pdu net ?g = Some (ok, g')" by simp
    from preconnection_keeps [OF this] nego_keeps_trans [OF k] st show ?thesis by simp
  qed
qed


section \<open>Progress\<close>

lemma nego_recv_state: "nego_recv g s = Some (st, g', s') \<Longrightarrow> ng_state g' \<in> {ng_state g, NEGO_STATE_FAIL, NEGO_STATE_FINAL}"
  by (auto simp: nego_recv_def nego_process_negotiation_response_def nego_process_negotiation_failure_def nego_check_selected_def
      Let_def split: bind_splits if_splits option.splits)

lemma recv_response_state:
  assumes "nego_recv_response net g = Some (ok, g')"
  shows "ng_state g' \<in> {ng_state g, NEGO_STATE_FAIL, NEGO_STATE_FINAL}"
proof -
  obtain s g1 where s: "nego_stream net g 1024 = (s, g1)" by fastforce
  note k = nego_stream_keeps [OF s]
  show ?thesis
  proof (cases s)
    case None
    with assms s k show ?thesis by (auto simp: nego_recv_response_def)
  next
    case (Some s1)
    obtain m1 w1 where m1: "net_malloc net 4 (tp_net (ng_transport g1)) = (m1, w1)" by fastforce
    obtain m2 w2 where m2: "net_malloc net 65536 w1 = (m2, w2)" by fastforce
    from assms s Some m1 m2 obtain st t s2 where
      r: "transport_read_pdu net m1 m2 (ng_transport g1\<lparr>tp_net := w2\<rparr>) s1 = Some (st, t, s2)"
      by (auto simp: nego_recv_response_def split: bind_splits)
    show ?thesis
    proof (cases "st < 0")
      case True
      with assms s Some m1 m2 r k show ?thesis by (auto simp: nego_recv_response_def)
    next
      case False
      with assms s Some m1 m2 r obtain st2 s3 where "nego_recv (g1\<lparr>ng_transport := t\<rparr>) s2 = Some (st2, g', s3)"
        by (auto simp: nego_recv_response_def split: bind_splits)
      from nego_recv_state [OF this] k show ?thesis by simp
    qed
  qed
qed

lemma attempt_state:
  assumes "nego_attempt net req f g = Some g'"
  shows "ng_state g' \<in> {NEGO_STATE_FAIL, NEGO_STATE_FINAL} \<or>
    (\<exists>x. nego_keeps g x \<and> ng_state x \<in> {ng_state g, NEGO_STATE_FAIL} \<and> g' = f x)"
proof -
  from assms obtain ok1 g1 where c: "nego_transport_connect net (g\<lparr>ng_RequestedProtocols := req\<rparr>) = Some (ok1, g1)"
    by (auto simp: nego_attempt_def split: bind_splits)
  have k1: "nego_keeps g g1" "ng_state g1 = ng_state g" using transport_connect_keeps [OF c] by (auto simp: nego_keeps_def)
  show ?thesis
  proof (cases ok1)
    case False
    with assms c show ?thesis by (auto simp: nego_attempt_def)
  next
    case ok1: True
    with assms c obtain ok2 g2 where q: "nego_send_negotiation_request net g1 = Some (ok2, g2)"
      by (auto simp: nego_attempt_def split: bind_splits)
    have k2: "nego_keeps g g2" "ng_state g2 = ng_state g" using send_request_keeps [OF q] k1 nego_keeps_trans by auto
    show ?thesis
    proof (cases ok2)
      case False
      with assms c q ok1 show ?thesis by (auto simp: nego_attempt_def)
    next
      case ok2: True
      with assms c q ok1 obtain ok3 g3 where r: "nego_recv_response net g2 = Some (ok3, g3)"
        by (auto simp: nego_attempt_def split: bind_splits)
      have k3: "nego_keeps g g3" using recv_response_keeps(1) [OF r] k2 nego_keeps_trans by auto
      have "g' = g3\<lparr>ng_state := NEGO_STATE_FAIL\<rparr> \<or> ng_state g3 \<noteq> NEGO_STATE_FINAL \<and> g' = f g3 \<or> g' = g3 \<and> ng_state g3 = NEGO_STATE_FINAL"
        using assms c q r ok1 ok2 by (auto simp: nego_attempt_def split: if_splits)
      then show ?thesis using k3 recv_response_state [OF r] k2(2) by auto
    qed
  qed
qed

text \<open>The order of the attempts, and the protocol each of them stands for.\<close>

fun nego_rank :: "NEGO_STATE \<Rightarrow> nat" where
  "nego_rank NEGO_STATE_EXT = 4"
| "nego_rank NEGO_STATE_NLA = 3"
| "nego_rank NEGO_STATE_TLS = 2"
| "nego_rank NEGO_STATE_RDP = 1"
| "nego_rank _ = 0"

fun nego_protocol :: "NEGO_STATE \<Rightarrow> int" where
  "nego_protocol NEGO_STATE_EXT = PROTOCOL_EXT"
| "nego_protocol NEGO_STATE_NLA = PROTOCOL_NLA"
| "nego_protocol NEGO_STATE_TLS = PROTOCOL_TLS"
| "nego_protocol _ = PROTOCOL_RDP"

text \<open>What an attempt may do to the state.\<close>

definition nego_progress :: "'w rdpNego \<Rightarrow> 'w rdpNego \<Rightarrow> bool" where
  "nego_progress g g' \<longleftrightarrow> ng_state g' \<in> {NEGO_STATE_FAIL, NEGO_STATE_FINAL}
    \<or> 0 < nego_rank (ng_state g') \<and> nego_rank (ng_state g') < nego_rank (ng_state g)
      \<and> ng_EnabledProtocols g (nego_protocol (ng_state g'))
    \<or> ng_state g = NEGO_STATE_RDP \<and> ng_state g' = NEGO_STATE_RDP"

lemma send_progress:
  assumes "nego_send net g = Some g'" and "0 < nego_rank (ng_state g)"
  shows "nego_progress g g'"
proof -
  have fall: ?thesis if "nego_attempt net req (nego_fall net (ng_state g)) g = Some g'" "ng_state g \<noteq> NEGO_STATE_RDP" for req
  proof -
    from attempt_state [OF that(1)] show ?thesis
    proof
      assume "\<exists>x. nego_keeps g x \<and> ng_state x \<in> {ng_state g, NEGO_STATE_FAIL} \<and> g' = nego_fall net (ng_state g) x"
      then obtain x where x: "nego_keeps g x" "g' = nego_fall net (ng_state g) x" by blast
      have "ng_EnabledProtocols (snd (nego_transport_disconnect net x)) = ng_EnabledProtocols g"
        using transport_disconnect_keeps [of x net] x(1) by (simp add: nego_keeps_def)
      with x(2) assms(2) that(2) show ?thesis
        by (cases "ng_state g") (auto simp: nego_progress_def nego_fall_def Let_def)
    qed (simp add: nego_progress_def)
  qed
  show ?thesis
  proof (cases "ng_state g")
    case NEGO_STATE_RDP
    with assms(1) have "nego_attempt net 0 (\<lambda>g. g) g = Some g'" by (simp add: nego_send_attempt)
    from attempt_state [OF this] NEGO_STATE_RDP show ?thesis by (auto simp: nego_progress_def)
  qed (use assms fall in \<open>simp_all add: nego_send_attempt\<close>)
qed

text \<open>The first \<open>n\<close> attempts, without the tests of the loop; an attempt in a final state does nothing.\<close>

fun nego_steps :: "nat \<Rightarrow> 'w net \<Rightarrow> 'w rdpNego \<Rightarrow> 'w rdpNego option" where
  "nego_steps 0 net g = Some g"
| "nego_steps (Suc n) net g = do { g \<leftarrow> nego_send net g; nego_steps n net g }"

lemma nego_steps_done: "ng_state g \<in> {NEGO_STATE_FAIL, NEGO_STATE_FINAL} \<Longrightarrow> nego_steps n net g = Some g"
  by (induction n) (auto simp: nego_send_def)

lemma connect_loop_done:
  assumes "ng_state g \<in> {NEGO_STATE_FAIL, NEGO_STATE_FINAL}"
  shows "nego_connect_loop net g = Some (ng_state g = NEGO_STATE_FINAL, g\<lparr>ng_state := NEGO_STATE_FINAL\<rparr>)"
  using assms by (subst nego_connect_loop.simps) (cases g, auto simp: nego_send_def)

text \<open>A measure of the loop: without standard security at most three attempts are left.\<close>

lemma connect_loop_returns:
  assumes "nego_steps k net g = Some g'" and "\<not> ng_EnabledProtocols g PROTOCOL_RDP"
    and "ng_state g \<in> {NEGO_STATE_FAIL, NEGO_STATE_FINAL} \<or> 1 < nego_rank (ng_state g)" and "nego_rank (ng_state g) \<le> Suc k"
  shows "nego_connect_loop net g = Some (ng_state g' = NEGO_STATE_FINAL, g'\<lparr>ng_state := NEGO_STATE_FINAL\<rparr>)
    \<and> ng_state g' \<in> {NEGO_STATE_FAIL, NEGO_STATE_FINAL}"
  using assms
proof (induction k arbitrary: g)
  case 0
  then have "ng_state g \<in> {NEGO_STATE_FAIL, NEGO_STATE_FINAL}" "g' = g" by auto
  then show ?case using connect_loop_done by blast
next
  case (Suc k)
  show ?case
  proof (cases "ng_state g \<in> {NEGO_STATE_FAIL, NEGO_STATE_FINAL}")
    case True
    with Suc.prems(1) have "g' = g" using nego_steps_done [of g "Suc k" net] by simp
    with True connect_loop_done show ?thesis by blast
  next
    case False
    with Suc.prems obtain g1 where s: "nego_send net g = Some g1" "nego_steps k net g1 = Some g'" and r: "1 < nego_rank (ng_state g)"
      by (auto split: bind_splits)
    have e: "ng_EnabledProtocols g1 = ng_EnabledProtocols g" using nego_send_keeps(1) [OF s(1)] by (simp add: nego_keeps_def)
    have p: "nego_progress g g1" using send_progress [OF s(1)] r by simp
    have st: "ng_state g1 \<in> {NEGO_STATE_FAIL, NEGO_STATE_FINAL} \<or> 1 < nego_rank (ng_state g1)"
      using p r Suc.prems(2) by (cases "ng_state g1") (auto simp: nego_progress_def)
    have le: "nego_rank (ng_state g1) \<le> Suc k" using p Suc.prems(4) r by (auto simp: nego_progress_def)
    note ih = Suc.IH [OF s(2) _ st le, unfolded e, OF Suc.prems(2)]
    have "nego_connect_loop net g = nego_connect_loop net g1"
    proof (cases "ng_state g1 \<in> {NEGO_STATE_FAIL, NEGO_STATE_FINAL}")
      case True
      then show ?thesis using connect_loop_done [OF True, of net] s(1)
        by (subst nego_connect_loop.simps) (cases g1, auto)
    next
      case False
      then show ?thesis using s(1) by (subst nego_connect_loop.simps) simp
    qed
    with ih show ?thesis by simp
  qed
qed

text \<open>
  C23. Whatever the server and the network do, an attempt that returns ends the negotiation or leaves the client one
  attempt further down the order EXT, NLA, TLS, RDP, at a protocol that is enabled; only the last one can
  leave the client where it is. With standard RDP security disabled the loop of \<open>nego_connect\<close> therefore returns as soon as
  its attempts do: when that attempt and the next two return, the negotiation is over, and its result is the state they leave.
\<close>

theorem nego_send_progress:
  assumes "nego_send net g = Some g'" and "0 < nego_rank (ng_state g)"
  shows "nego_progress g g'
    \<and> (\<forall>g''. \<not> ng_EnabledProtocols g PROTOCOL_RDP \<and> ng_state g \<noteq> NEGO_STATE_RDP \<and> nego_steps 2 net g' = Some g'' \<longrightarrow>
        ng_state g'' \<in> {NEGO_STATE_FAIL, NEGO_STATE_FINAL}
        \<and> nego_connect_loop net g = Some (ng_state g'' = NEGO_STATE_FINAL, g''\<lparr>ng_state := NEGO_STATE_FINAL\<rparr>))"
proof -
  have "1 < nego_rank (ng_state g)" if "ng_state g \<noteq> NEGO_STATE_RDP" using assms(2) that by (cases "ng_state g") simp_all
  moreover have "nego_rank (ng_state g) \<le> Suc 3" by (cases "ng_state g") simp_all
  moreover have "nego_steps 3 net g = nego_steps 2 net g'" using assms(1) by (simp add: numeral_3_eq_3 numeral_2_eq_2)
  ultimately show ?thesis using connect_loop_returns [of 3 net g] send_progress [OF assms] by auto
qed

section \<open>No downgrade\<close>

text \<open>
  C18. A client that negotiates with standard RDP security disabled never connects with it: when
  \<open>nego_connect\<close> succeeds, whatever the server and the network did, the protocol is TLS or NLA, it is one
  that was enabled, its security layer is connected, and it is the one recorded in the settings.
\<close>

theorem nego_no_downgrade:
  assumes "nego_connect net g = Some (True, g')"
    and "ng_state g = NEGO_STATE_INITIAL" and "ng_NegotiateSecurityLayer g" and "\<not> ng_SecurityConnected g"
    and "\<not> ng_EnabledProtocols g PROTOCOL_RDP"
  shows "ng_SelectedProtocol g' \<in> {PROTOCOL_TLS, PROTOCOL_NLA} \<and> ng_EnabledProtocols g (ng_SelectedProtocol g')
    \<and> ng_SecurityConnected g' \<and> set_SelectedProtocol (nego_settings g') = ng_SelectedProtocol g'"
proof -
  from assms(1) obtain g1 where s: "nego_start net g = Some (True, g1)" by (auto simp: nego_connect_def split: bind_splits if_splits)
  note k1 = nego_start_keeps [OF s assms(3,2)]
  from assms(1) s obtain g2 where l: "nego_connect_loop net g1 = Some (True, g2)"
    by (auto simp: nego_connect_def split: bind_splits if_splits)
  have e: "ng_EnabledProtocols g1 = ng_EnabledProtocols g" using k1 by (simp add: nego_keeps_def)
  have k2: "nego_keeps g g2" "nego_selected g2" using connect_loop_selected [OF l] k1 assms(5) e nego_keeps_trans by auto
  then have sec: "\<not> ng_SecurityConnected g2" "ng_EnabledProtocols g2 = ng_EnabledProtocols g"
    using assms(3,4) by (auto simp: nego_keeps_def)
  from assms(1) s l k2(2) obtain g3 where c: "nego_security_connect net
      (nego_set_settings (\<lambda>st. st\<lparr>set_RequestedProtocols := ng_RequestedProtocols g2,
             set_SelectedProtocol := ng_SelectedProtocol g2, set_NegotiationFlags := ng_flags g2\<rparr>) g2) = Some (True, g3)"
    and g': "g' = (if ng_flags g3 AND 2 = 0 then nego_set_settings (\<lambda>st. st\<lparr>set_NetworkAutoDetect := False\<rparr>) g3 else g3)"
    by (auto simp: nego_connect_def nego_selected_def Let_def nego_set_settings_def split: bind_splits if_splits)
  have tls: "tp_settings t' = tp_settings t" if "transport_connect_tls net t = Some (ok, t')" for t ok t'
    using that by (auto simp: transport_connect_tls_def transport_set_error_def Let_def split: if_splits prod.splits)
  have nla: "tp_settings t' = tp_settings t" if "transport_connect_nla net t = Some (ok, t')" for t ok t'
    using that tls by (fastforce simp: transport_connect_nla_def transport_set_error_def transport_set_nla_mode_def Let_def
      split: if_splits prod.splits bind_splits)
  from c k2 sec have "ng_SelectedProtocol g3 \<in> {PROTOCOL_TLS, PROTOCOL_NLA} \<and> ng_EnabledProtocols g (ng_SelectedProtocol g3)
    \<and> ng_SecurityConnected g3 \<and> set_SelectedProtocol (nego_settings g3) = ng_SelectedProtocol g3"
    using tls nla by (fastforce simp: nego_security_connect_def nego_set_settings_def nego_settings_def nego_selected_def Let_def
      split: if_splits bind_splits)
  with g' show ?thesis by (simp add: nego_set_settings_def nego_settings_def)
qed

section \<open>Concrete servers\<close>

definition reply_net :: "byte list net" where
  "reply_net =
     \<lparr>net_malloc = (\<lambda>k w. (Some (\<lambda>_. 0), w)), ConvertToUnicode = (\<lambda>s w. (None, w)), BIO_new = (\<lambda>w. (True, w)),
      BIO_read = (\<lambda>k i. (take (nat k) i, drop (nat k) i)),
      BIO_write = (\<lambda>bs i. (int (length bs), i)),
      BIO_should_retry = (\<lambda>w. False), BIO_wait_read = (\<lambda>w. (0, w)), BIO_wait_write = (\<lambda>w. (0, w)),
      BIO_write_blocked = (\<lambda>w. False), BIO_flush = (\<lambda>w. (1, w)), BIO_set_nonblock = (\<lambda>b w. (True, w)),
      BIO_free = (\<lambda>w. w), StreamPool_Take = (\<lambda>k w. (None, w)), Stream_Release = (\<lambda>s w. w),
      freerdp_tcp_connect = (\<lambda>k w. (1, w)), rdg_new = (\<lambda>w. (True, w)), rdg_connect = (\<lambda>k w. (True, w)),
      tsg_new = (\<lambda>w. (True, w)), tsg_connect = (\<lambda>k w. (True, w)), tls_new = (\<lambda>w. (True, w)),
      tls_connect = (\<lambda>w. (1, True, w)), nla_new = (\<lambda>w. (True, w)), nla_make_spn = (\<lambda>w. (True, w)),
      nla_client_begin = (\<lambda>w. (1, w))\<rparr>"

definition reply_transport :: "byte list \<Rightarrow> byte list rdpTransport" where
  "reply_transport input =
     \<lparr>tp_net = input, tp_layer = TRANSPORT_LAYER_TCP, tp_frontBio = False, tp_rdg = False, tp_tsg = False, tp_tls = False,
      tp_settings = tp_settings (pipe_transport [] (blank 4)),
      tp_ReceiveBuffer = None, tp_async = False, tp_stopEvent = False, tp_thread = False, tp_NlaMode = False,
      tp_blocking = True, tp_GatewayEnabled = False, tp_WriteLock = 0, tp_last_error = 0, tp_rdp_state = 0\<rparr>"

definition reply_nego :: "byte list \<Rightarrow> byte list rdpNego" where
  "reply_nego input = nego_enable_tls (nego_set_negotiation_enabled (the (nego_new True (reply_transport input))) True) True"

definition tls_reply :: "byte list" where
  "tls_reply = [3, 0, 0, 0x13, 0xE, 0xD0, 0, 0, 0, 0, 0, 2, 0, 8, 0, 1, 0, 0, 0]"


text \<open>
  A server that answers every request with a confirm whose negotiation data has the unknown type 0: the world is what the
  client has still to read of the answer.
\<close>

definition stubborn_net :: "byte list net" where
  "stubborn_net = reply_net\<lparr>freerdp_tcp_connect := (\<lambda>k w. (1, [])),
     BIO_write := (\<lambda>bs i. (int (length bs), [3, 0, 0, 0x13, 0xE, 0xD0, 0, 0, 0, 0, 0, 0, 0, 8, 0, 0, 0, 0, 0]))\<rparr>"

lemma nego_no_downgrade_witness:
  "\<exists>g'. nego_connect reply_net (reply_nego tls_reply) = Some (True, g') \<and> ng_SelectedProtocol g' = 1 \<and> ng_SecurityConnected g'"
proof -
  have "map_option (\<lambda>r. fst r \<and> ng_SelectedProtocol (snd r) = 1) (nego_connect reply_net (reply_nego tls_reply)) = Some True"
    by code_simp
  then obtain g' where c: "nego_connect reply_net (reply_nego tls_reply) = Some (True, g')" "ng_SelectedProtocol g' = 1"
    by (cases "nego_connect reply_net (reply_nego tls_reply)") auto
  have "ng_SecurityConnected g'"
    using nego_no_downgrade [OF c(1)]
    by (simp add: reply_nego_def nego_enable_tls_def nego_set_negotiation_enabled_def nego_new_def nego_init_def)
  with c show ?thesis by blast
qed

text \<open>
  A client with NLA and TLS enabled against that server: it goes on from NLA to TLS, and from TLS, with nothing left to try,
  to the end of the negotiation.
\<close>

lemma nego_send_progress_witness:
  "\<exists>g' g''. nego_send stubborn_net (nego_enable_nla (reply_nego []) True\<lparr>ng_state := NEGO_STATE_NLA\<rparr>) = Some g'
    \<and> ng_state g' = NEGO_STATE_TLS
    \<and> nego_progress (nego_enable_nla (reply_nego []) True\<lparr>ng_state := NEGO_STATE_NLA\<rparr>) g'
    \<and> nego_steps 2 stubborn_net g' = Some g'' \<and> ng_state g'' = NEGO_STATE_FAIL
    \<and> nego_connect_loop stubborn_net (nego_enable_nla (reply_nego []) True\<lparr>ng_state := NEGO_STATE_NLA\<rparr>)
        = Some (False, g''\<lparr>ng_state := NEGO_STATE_FINAL\<rparr>)"
proof -
  let ?g = "nego_enable_nla (reply_nego []) True\<lparr>ng_state := NEGO_STATE_NLA\<rparr>"
  have "map_option (\<lambda>g'. (ng_state g', map_option ng_state (nego_steps 2 stubborn_net g'))) (nego_send stubborn_net ?g)
      = Some (NEGO_STATE_TLS, Some NEGO_STATE_FAIL)" by code_simp
  then obtain g' g'' where g': "nego_send stubborn_net ?g = Some g'" "ng_state g' = NEGO_STATE_TLS"
    and g'': "nego_steps 2 stubborn_net g' = Some g''" "ng_state g'' = NEGO_STATE_FAIL" by auto
  have "\<not> ng_EnabledProtocols ?g PROTOCOL_RDP"
    by (simp add: reply_nego_def nego_enable_nla_def nego_enable_tls_def nego_set_negotiation_enabled_def nego_new_def nego_init_def)
  with nego_send_progress [OF g'(1)] g' g'' show ?thesis by auto
qed

end
