(* ===== verification/NegoMessages.thy ===== *)
theory NegoMessages
  imports NegoSafety "HOL-Library.Sublist"
begin

text \<open>
  The messages of the negotiation read back: the response of the server by the client, and the request of
  the client by the server.
\<close>

section \<open>The response\<close>

text \<open>A header put in front of a body after it, as the writers of requests and responses do.\<close>

lemma put_framed_pos:
  assumes "s_ok s" and "s_pos s = 0" and "length hdr = n" and "n + length body \<le> length (s_rest s)"
  shows "\<exists>s'. (do {
      s1 \<leftarrow> Stream_Seek s (int n);
      s2 \<leftarrow> Stream_Write s1 body;
      s3 \<leftarrow> Stream_SetPosition s2 0;
      s4 \<leftarrow> Stream_Write s3 hdr;
      s5 \<leftarrow> Stream_SetPosition s4 (s_pos s2);
      Some (Stream_SealLength s5) }) = Some s' \<and> s_ok (s'\<lparr>s_pos := 0\<rparr>) \<and> s_rest (s'\<lparr>s_pos := 0\<rparr>) = hdr @ body
    \<and> s_pos s' = int (n + length body)"
proof -
  let ?a = "take n (s_rest s)" and ?b = "take (length body) (drop n (s_rest s))" and ?c = "drop (n + length body) (s_rest s)"
  have r: "s_rest s = ?a @ ?b @ ?c" by (metis append_take_drop_id drop_drop add.commute)
  have len: "length ?a = n" "length ?b = length body" using assms(4) by simp_all
  from s_overwrite [OF assms(1) r len(2) [symmetric]] obtain t where
    t: "Stream_Write (s_adv n s) body = Some (s_adv (n + length body) t)" "s_ok t" "s_rest t = ?a @ body @ ?c"
      "s_pos t = s_pos s" "s_length t = s_length s" "length (s_buffer t) = length (s_buffer s)"
    unfolding len(1) by auto
  from s_overwrite [of t "[]" ?a "body @ ?c" hdr] t(2,3) assms(3) len(1) obtain u where
    u: "Stream_Write t hdr = Some (s_adv n u)" "s_ok u" "s_rest u = hdr @ body @ ?c"
      "s_pos u = 0" "s_length u = s_length s" "length (s_buffer u) = length (s_buffer s)"
    using t(4-6) assms(2) by auto
  let ?m = "n + length body"
  have m: "int ?m \<le> int (length (s_buffer s))" "int ?m \<le> INT_MAX"
    using assms(1,2,4) length_s_rest [OF assms(1)] by (simp_all add: s_ok_def)
  let ?v = "s_adv ?m u\<lparr>s_length := csize (int ?m)\<rparr>"
  have "Stream_Seek s (int n) = Some (s_adv n s)" using Stream_Seek_rest [OF assms(1), of "int n"] assms(4) by simp
  moreover have "Stream_SetPosition (s_adv ?m t) 0 = Some t" using t(4) assms(2) by (simp add: Stream_SetPosition_def s_adv_def)
  moreover have "Stream_SetPosition (s_adv n u) (s_pos (s_adv ?m t)) = Some (s_adv ?m u)"
    using m u(4,6) t(4) assms(2) by (simp add: Stream_SetPosition_def s_adv_def)
  moreover have "Stream_SealLength (s_adv ?m u) = ?v" using u(4) by (simp add: Stream_SealLength_def s_adv_def)
  moreover have "s_ok (?v\<lparr>s_pos := 0\<rparr>) \<and> s_rest (?v\<lparr>s_pos := 0\<rparr>) = hdr @ body"
  proof -
    from s_split [OF u(2)] obtain pre post where "s_buffer u = pre @ s_rest u @ post" "s_pos u = int (length pre)" .
    then have "s_buffer (?v\<lparr>s_pos := 0\<rparr>) = [] @ (hdr @ body) @ (?c @ post)" using u(3,4) by (simp add: s_adv_def)
    from s_joined [OF this] show ?thesis using m(2) assms(3) by (simp add: csize_def)
  qed
  moreover have "s_pos ?v = int ?m" using u(4) by (simp add: s_adv_def)
  ultimately show ?thesis using t(1) u(1) by simp
qed

lemma put_framed:
  assumes "s_ok s" and "s_pos s = 0" and "length hdr = n" and "n + length body \<le> length (s_rest s)"
  shows "\<exists>s'. (do {
      s1 \<leftarrow> Stream_Seek s (int n);
      s2 \<leftarrow> Stream_Write s1 body;
      s3 \<leftarrow> Stream_SetPosition s2 0;
      s4 \<leftarrow> Stream_Write s3 hdr;
      s5 \<leftarrow> Stream_SetPosition s4 (s_pos s2);
      Some (Stream_SealLength s5) }) = Some s' \<and> s_ok (s'\<lparr>s_pos := 0\<rparr>) \<and> s_rest (s'\<lparr>s_pos := 0\<rparr>) = hdr @ body"
  using put_framed_pos [OF assms] by blast

definition neg_data :: "int \<Rightarrow> int \<Rightarrow> int \<Rightarrow> byte list" where
  "neg_data type flags v = word_of_int type # word_of_int flags # le16 8 @ le32 v"

lemma neg_data_length [simp]: "length (neg_data type flags v) = 8"
  by (simp add: neg_data_def le32_def)

definition response_bytes :: "'w rdpNego \<Rightarrow> byte list" where
  "response_bytes g = (tpkt_bytes 19 @ tpdu_bytes 14 0xD0) @
     neg_data 2 (if set_SupportGraphicsPipeline (nego_settings g) then 1 OR 2 else 1) (ng_SelectedProtocol g)"

lemma put_response:
  assumes "s_ok s" and "s_pos s = 0" and "19 \<le> length (s_rest s)" and "ng_SelectedProtocol g AND 0x80000000 = 0"
  shows "\<exists>s'. nego_put_response g s = Some s' \<and> s_ok (s'\<lparr>s_pos := 0\<rparr>) \<and> s_rest (s'\<lparr>s_pos := 0\<rparr>) = response_bytes g"
proof -
  let ?body = "neg_data 2 (if set_SupportGraphicsPipeline (nego_settings g) then 1 OR 2 else 1) (ng_SelectedProtocol g)"
  let ?hdr = "tpkt_bytes 19 @ tpdu_bytes 14 0xD0"
  have "nego_put_response g s = (do {
      s1 \<leftarrow> Stream_Seek s (int 11);
      s2 \<leftarrow> Stream_Write s1 ?body;
      s3 \<leftarrow> Stream_SetPosition s2 0;
      s4 \<leftarrow> Stream_Write s3 ?hdr;
      s5 \<leftarrow> Stream_SetPosition s4 (s_pos s2);
      Some (Stream_SealLength s5) })"
    using assms(2,4) by (simp add: nego_put_response_def tpdu_write_connection_confirm_def emits write_merge neg_data_def)
  with put_framed [OF assms(1,2), of ?hdr 11 ?body] assms(3) show ?thesis by (simp add: response_bytes_def)
qed

lemma confirm_parses:
  assumes "s_ok s" and "s_rest s = tpdu_bytes 14 0xD0 @ rest" and "8 \<le> length rest"
  shows "tpdu_read_connection_confirm s = Some (Some 14, s_adv 7 s)"
proof -
  have h: "tpdu_read_header s = Some (Some (0xD0, 14), s_adv 7 s)"
    using parsesD [OF tpdu_read_header_parses [of 14 "0xD0"] assms(1,2)] by simp
  have ok: "s_ok (s_adv 7 s)" "s_rest (s_adv 7 s) = rest" using assms by simp_all
  have pos: "0 \<le> s_pos s" "s_pos s \<le> INT_MAX" using assms(1) by (simp_all add: s_ok_def)
  then have "as_int (s_pos s) = s_pos s" "as_int (s_pos (s_adv 7 s) - s_pos s - 1) = 6"
    by (simp_all add: as_int_def s_adv_def)
  with ok assms(3) show ?thesis by (simp add: tpdu_read_connection_confirm_def h Let_def cint_def csize_def)
qed

lemma neg_data_fields:
  assumes "s_ok s" and "s_rest s = neg_data type flags v @ rest" and "0 \<le> type" "type \<le> 255" "0 \<le> flags" "flags \<le> 255"
    and "0 \<le> v" "v \<le> 0xFFFFFFFF"
  shows "Stream_Read_UINT8 s = Some (type, s_adv 1 s)" and "Stream_Read_UINT8 (s_adv 1 s) = Some (flags, s_adv 2 s)"
    and "Stream_Read_UINT16 (s_adv 2 s) = Some (8, s_adv 4 s)" and "Stream_Read_UINT32 (s_adv 4 s) = Some (v, s_adv 8 s)"
proof -
  have r: "s_rest s = word_of_int type # word_of_int flags # le16 8 @ le32 v @ rest" using assms(2) by (simp add: neg_data_def)
  have l: "length (le16 8) = 2" "length (le32 v) = 4" by simp_all
  show "Stream_Read_UINT8 s = Some (type, s_adv 1 s)" using read_byte [OF assms(1) r] assms(3,4) by simp
  show "Stream_Read_UINT8 (s_adv 1 s) = Some (flags, s_adv 2 s)"
    using read_byte [of "s_adv 1 s" flags "le16 8 @ le32 v @ rest"] assms(1,5,6) r by (simp add: numeral_2_eq_2)
  show "Stream_Read_UINT16 (s_adv 2 s) = Some (8, s_adv 4 s)"
    using read_le16 [of "s_adv 2 s" 8 "le32 v @ rest"] assms(1) r l by (simp add: numeral_eq_Suc)
  have "s_rest (s_adv 4 s) = le32 v @ rest" using assms(1) r by (simp add: numeral_eq_Suc le16_def)
  moreover have "s_ok (s_adv 4 s)" using assms(1) r by simp
  ultimately show "Stream_Read_UINT32 (s_adv 4 s) = Some (v, s_adv 8 s)"
    using read_le32 [of "s_adv 4 s" v rest] assms(7,8) by simp
qed

text \<open>
  The response a server writes for the protocol it selected is read by the client as that selection: the
  protocol and the flags arrive, and unless the protocol is one the client refuses the negotiation is over.
\<close>

theorem nego_response_roundtrip:
  assumes "s_ok s" and "s_pos s = 0" and "19 \<le> length (s_rest s)"
    and "0 \<le> ng_SelectedProtocol srv" and "ng_SelectedProtocol srv < 0x80000000"
  shows "\<exists>s' s''. nego_put_response srv s = Some s'
    \<and> nego_recv g (s'\<lparr>s_pos := 0\<rparr>) = Some (0, nego_check_selected
        (g\<lparr>ng_flags := (if set_SupportGraphicsPipeline (nego_settings srv) then 3 else 1),
           ng_SelectedProtocol := ng_SelectedProtocol srv, ng_state := NEGO_STATE_FINAL\<rparr>), s'')"
proof -
  let ?f = "if set_SupportGraphicsPipeline (nego_settings srv) then 1 OR 2 else 1 :: int"
  let ?v = "ng_SelectedProtocol srv"
  have "?v = take_bit 31 ?v" using assms(4,5) by (simp add: take_bit_int_eq_self)
  then have "\<not> bit ?v 31" by (metis bit_take_bit_iff less_irrefl)
  then have "?v AND 0x80000000 = 0" using and_exp_eq_0_iff_not_bit [of ?v 31] by simp
  from put_response [OF assms(1-3) this] obtain s' where p: "nego_put_response srv s = Some s'"
    "s_ok (s'\<lparr>s_pos := 0\<rparr>)" "s_rest (s'\<lparr>s_pos := 0\<rparr>) = response_bytes srv" by blast
  let ?r = "s'\<lparr>s_pos := 0\<rparr>"
  have r: "s_rest ?r = tpkt_bytes 19 @ tpdu_bytes 14 0xD0 @ neg_data 2 ?f ?v" using p(3) by (simp add: response_bytes_def)
  have h1: "tpkt_read_header ?r = Some (19, s_adv 4 ?r)" using tpkt_read_header_rest [OF p(2) r] by simp
  have ok1: "s_ok (s_adv 4 ?r)" "s_rest (s_adv 4 ?r) = tpdu_bytes 14 0xD0 @ neg_data 2 ?f ?v" using p(2) r by simp_all
  have h2: "tpdu_read_connection_confirm (s_adv 4 ?r) = Some (Some 14, s_adv 11 ?r)"
    using confirm_parses [OF ok1] by simp
  have ok2: "s_ok (s_adv 11 ?r)" "s_rest (s_adv 11 ?r) = neg_data 2 ?f ?v @ []"
    using s_ok_adv [OF ok1(1), of 7] s_rest_adv [OF ok1(1), of 7] ok1(2) by simp_all
  have f: "0 \<le> ?f" "?f \<le> 255" by simp_all
  note n = neg_data_fields [OF ok2 _ _ f, simplified]
  have ok3: "s_ok (s_adv 12 ?r)" "length (s_rest (s_adv 12 ?r)) = 7"
    using s_ok_adv [OF ok2(1), of 1] s_rest_adv [OF ok2(1), of 1] ok2(2) by simp_all
  have "nego_process_negotiation_response g (s_adv 12 ?r) = Some (g\<lparr>ng_flags := ?f, ng_SelectedProtocol := ?v,
      ng_state := NEGO_STATE_FINAL\<rparr>, s_adv 19 ?r)"
    using n assms(4,5) ok3 by (simp add: nego_process_negotiation_response_def)
  then have "nego_recv g ?r = Some (0, nego_check_selected (g\<lparr>ng_flags := ?f, ng_SelectedProtocol := ?v,
      ng_state := NEGO_STATE_FINAL\<rparr>), s_adv 19 ?r)"
    using h1 h2 n assms(4,5) by (simp add: nego_recv_def)
  with p(1) show ?thesis by simp
qed

section \<open>The request\<close>

text \<open>A line that holds no carriage return followed by a line feed.\<close>

definition one_line :: "byte list \<Rightarrow> bool" where
  "one_line c \<longleftrightarrow> \<not> sublist [0x0D, 0x0A] c"

lemma find_crlf:
  assumes "s_ok s" and "s_rest s = c @ 0x0D # 0x0A # rest" and "one_line c"
  shows "nego_find_crlf s = Some (True, s_adv (length c + 2) s)"
  using assms
proof (induction c arbitrary: s)
  case Nil
  then have "Stream_Read_UINT16 s = Some (0x0A0D, s_adv 2 s)" by (simp add: Stream_Read_UINT16_rest)
  with Nil show ?case by (simp add: nego_find_crlf.simps [of s] numeral_2_eq_2)
next
  case (Cons a c)
  obtain b bs where c: "c @ 0x0D # 0x0A # rest = b # bs" by (cases c) auto
  have no: "\<not> (a = 0x0D \<and> b = 0x0A)"
    using Cons.prems(3) c by (cases c) (auto simp: one_line_def sublist_Cons_right)
  have r: "s_rest s = a # b # bs" using Cons.prems(2) c by simp
  have rd: "Stream_Read_UINT16 s = Some (uint a + uint b * 256, s_adv 2 s)"
    using Stream_Read_UINT16_rest [OF Cons.prems(1) r] .
  have ne: "uint a + uint b * 256 \<noteq> 0x0A0D"
  proof
    assume e: "uint a + uint b * 256 = 0x0A0D"
    have "uint a = (uint a + uint b * 256) mod 256" using uint_byte_less [of a] by simp
    then have "uint a = 0x0D" "uint b = 0x0A" using e by simp_all
    with no show False by (simp add: word_uint_eq_iff)
  qed
  have pos: "0 \<le> s_pos s" "s_pos s + 2 \<le> int (length (s_buffer s))"
    using Cons.prems(1) length_s_rest [OF Cons.prems(1)] r by (simp_all add: s_ok_def)
  have "Stream_Rewind (s_adv 2 s) 1 = Some (s_adv 1 s)"
    using pos by (simp add: Stream_Rewind_def Stream_Seek_def s_adv_def)
  moreover have "nego_find_crlf (s_adv 1 s) = Some (True, s_adv (length c + 2) (s_adv 1 s))"
    using Cons.prems r c by (intro Cons.IH) (auto simp: one_line_def sublist_Cons_right)
  moreover have "2 \<le> Stream_GetRemainingLength s" using Cons.prems(1) r by simp
  ultimately show ?case using rd ne by (simp add: nego_find_crlf.simps [of s])
qed

lemma buffer_strlen_rest:
  assumes "s_ok s" and "s_rest s = c @ 0 # rest" and "0 \<notin> set c"
  shows "buffer_strlen s (s_pos s) = Some (length c)"
proof -
  from s_split [OF assms(1)] obtain pre post where "s_buffer s = pre @ s_rest s @ post" "s_pos s = int (length pre)" .
  then have "drop (nat (s_pos s)) (s_buffer s) = c @ 0 # rest @ post" using assms(2) by simp
  moreover have "takeWhile (\<lambda>b. b \<noteq> 0) (c @ 0 # rest @ post) = c" using assms(3) by (induction c) auto
  ultimately show ?thesis by (simp add: buffer_strlen_def)
qed

lemma prefix_facts: "length cookie_prefix = 17" "take 13 cookie_prefix \<noteq> token_prefix" "0 \<notin> set cookie_prefix"
  by (simp_all add: cookie_prefix_def token_prefix_def)

text \<open>A cookie in the line of a request: the server terminates it in place and keeps it with its prefix.\<close>

lemma read_cookie:
  assumes "s_ok s" and "s_rest s = cookie_prefix @ c @ 0x0D # 0x0A # rest" and "one_line c" and "0 \<notin> set c" and "mem \<noteq> None"
  shows "\<exists>s'. nego_read_request_token_or_cookie mem g s = Some (True, g\<lparr>ng_cookie := Some (cookie_prefix @ c)\<rparr>, s')
    \<and> s_ok s' \<and> s_rest s' = rest"
proof -
  let ?p = "s_pos s" and ?n = "17 + length c"
  have len: "length (s_rest s) = ?n + 2 + length rest" using assms(2) by (simp add: prefix_facts)
  then have le: "\<not> Stream_GetRemainingLength s < 15" "\<not> Stream_GetRemainingLength s < 19" using assms(1) by simp_all
  have h13: "ablock (s_buffer s) ?p 13 = Some (take 13 cookie_prefix)"
    using ablock_rest [OF assms(1), of 13] len assms(2) by (simp add: prefix_facts)
  have h17: "ablock (s_buffer s) ?p 17 = Some cookie_prefix"
    using ablock_rest [OF assms(1), of 17] len assms(2) by (simp add: prefix_facts)
  have sk: "Stream_Seek s 17 = Some (s_adv 17 s)" using Stream_Seek_rest [OF assms(1), of 17] len by simp
  have ok1: "s_ok (s_adv 17 s)" "s_rest (s_adv 17 s) = c @ 0x0D # 0x0A # rest"
    using assms(1,2) len by (simp_all add: prefix_facts)
  have crlf: "nego_find_crlf (s_adv 17 s) = Some (True, s_adv (?n + 2) s)"
    using find_crlf [OF ok1 assms(3)] by (simp add: add.assoc)
  have rw: "Stream_Rewind (s_adv (?n + 2) s) 2 = Some (s_adv ?n s)"
    using assms(1) len length_s_rest [OF assms(1)] by (simp add: Stream_Rewind_def Stream_Seek_def s_adv_def s_ok_def)
  have pos: "as_int (s_pos (s_adv ?n s) - ?p) = int ?n"
    using assms(1) len length_s_rest [OF assms(1)] by (simp add: s_adv_def as_int_def s_ok_def)
  have "s_rest s = (cookie_prefix @ c) @ [0x0D, 0x0A] @ rest" using assms(2) by simp
  from s_overwrite [OF assms(1) this, of "[0, 0]"] obtain t where t:
    "Stream_Write (s_adv ?n s) [0, 0] = Some (s_adv (?n + 2) t)" "s_ok t" "s_rest t = (cookie_prefix @ c) @ 0 # 0 # rest" "s_pos t = ?p"
    by (auto simp: prefix_facts)
  have w: "Stream_Write_UINT16 (s_adv ?n s) 0 = Some (s_adv (?n + 2) t)" using t(1) by (simp add: emits le16_def)
  have len_t: "length (s_rest t) = ?n + 2 + length rest" using t(3) by (simp add: prefix_facts)
  have "0 \<notin> set (cookie_prefix @ c)" using assms(4) prefix_facts(3) by simp
  from buffer_strlen_rest [OF t(2,3) this] have sl: "buffer_strlen (s_adv (?n + 2) t) ?p = Some ?n"
    using t(4) by (simp add: buffer_strlen_def s_adv_def prefix_facts)
  have str: "ablock (s_buffer (s_adv (?n + 2) t)) ?p (int ?n) = Some (cookie_prefix @ c)"
    using ablock_rest [OF t(2), of "int ?n"] len_t t(3,4) by (simp add: s_adv_def prefix_facts)
  obtain y where y: "mem = Some y" using assms(5) by auto
  have "s_ok (s_adv (?n + 2) t)" "s_rest (s_adv (?n + 2) t) = rest" using t(2,3) len_t by (simp_all add: prefix_facts)
  then show ?thesis
    using le h13 h17 sk crlf rw pos w sl str prefix_facts(2)
    by (simp add: nego_read_request_token_or_cookie_def nego_set_cookie_def y Let_def del: remaining)
qed


lemma request_parses:
  assumes "s_ok s" and "s_rest s = tpdu_bytes li 0xE0 @ rest" and "0 \<le> li" "li \<le> 255"
  shows "tpdu_read_connection_request s = Some (Some li, s_adv 7 s)"
  using parsesD [OF tpdu_read_header_parses [of li "0xE0"] assms(1,2)] assms(3,4)
  by (simp add: tpdu_read_connection_request_def)

definition request_bytes :: "'w rdpNego \<Rightarrow> byte list \<Rightarrow> byte list" where
  "request_bytes g c = (tpkt_bytes (38 + int (length c)) @ tpdu_bytes (33 + int (length c)) 0xE0) @
     cookie_prefix @ c @ 0x0D # 0x0A # neg_data 1 (if ng_RestrictedAdminModeRequired g then 1 else 0) (ng_RequestedProtocols g)"

lemma put_request:
  assumes "s_ok s" and "s_pos s = 0" and "38 + length c \<le> length (s_rest s)"
    and "ng_RoutingToken g = None" and "ng_cookie g = Some c"
    and "int (length c) \<le> ng_CookieMaxLength g" and "ng_CookieMaxLength g \<le> INT_MAX" and "0 < ng_RequestedProtocols g"
  shows "\<exists>s'. nego_put_request g s = Some s' \<and> s_ok (s'\<lparr>s_pos := 0\<rparr>) \<and> s_rest (s'\<lparr>s_pos := 0\<rparr>) = request_bytes g c"
proof -
  let ?line = "cookie_prefix @ c @ [0x0D, 0x0A]"
  let ?neg = "neg_data 1 (if ng_RestrictedAdminModeRequired g then 1 else 0) (ng_RequestedProtocols g)"
  let ?hdr = "tpkt_bytes (38 + int (length c)) @ tpdu_bytes (33 + int (length c)) 0xE0"
  have "as_int (ng_CookieMaxLength g) = ng_CookieMaxLength g" using assms(6,7) by (simp add: as_int_def)
  then have cookie: "nego_write_cookie s1 c (ng_CookieMaxLength g) =
      do { s2 \<leftarrow> Stream_Write s1 ?line; Some (int (length c) + 19, s2) }" for s1
    using assms(6) by (simp add: nego_write_cookie_def emits write_merge ablock_def)
  have "nego_put_request g s = (do {
      s1 \<leftarrow> Stream_Seek s (int 11);
      s2 \<leftarrow> Stream_Write s1 (?line @ ?neg);
      s3 \<leftarrow> Stream_SetPosition s2 0;
      s4 \<leftarrow> Stream_Write s3 ?hdr;
      s5 \<leftarrow> Stream_SetPosition s4 (s_pos s2);
      Some (Stream_SealLength s5) })"
    using assms(2,4,5,8)
    by (simp add: nego_put_request_def cookie tpdu_write_connection_request_def emits write_merge neg_data_def add.commute)
  with put_framed [OF assms(1,2), of ?hdr 11 "?line @ ?neg"] assms(3) show ?thesis
    by (simp add: request_bytes_def prefix_facts)
qed

text \<open>
  C24. The request a client writes is read back by the server: for a cookie on one line that fits the limit
  of the client and the length indicator of the unit, the server gets the protocols that were requested and
  the cookie, which it keeps together with the words \<open>Cookie: mstshash=\<close> in front of it.
\<close>

theorem nego_request_roundtrip:
  assumes "s_ok s" and "s_pos s = 0" and "38 + length c \<le> length (s_rest s)"
    and "ng_RoutingToken g = None" and "ng_cookie g = Some c" and "0 \<notin> set c" and "one_line c"
    and "int (length c) \<le> ng_CookieMaxLength g" and "ng_CookieMaxLength g \<le> INT_MAX" and "length c \<le> 222"
    and "0 < ng_RequestedProtocols g" and "ng_RequestedProtocols g \<le> 0xFFFFFFFF" and "mem \<noteq> None"
  shows "\<exists>s' s''. nego_put_request g s = Some s'
    \<and> nego_read_request mem srv (s'\<lparr>s_pos := 0\<rparr>) = Some (True, srv\<lparr>ng_cookie := Some (cookie_prefix @ c),
        ng_RequestedProtocols := ng_RequestedProtocols g, ng_state := NEGO_STATE_FINAL\<rparr>, s'')"
proof -
  from put_request [OF assms(1-5,8,9,11)] obtain s' where p: "nego_put_request g s = Some s'"
    "s_ok (s'\<lparr>s_pos := 0\<rparr>)" "s_rest (s'\<lparr>s_pos := 0\<rparr>) = request_bytes g c" by blast
  let ?r = "s'\<lparr>s_pos := 0\<rparr>" and ?li = "33 + int (length c)" and ?f = "if ng_RestrictedAdminModeRequired g then 1 else 0 :: int"
  let ?neg = "neg_data 1 ?f (ng_RequestedProtocols g)"
  have r: "s_rest ?r = tpkt_bytes (38 + int (length c)) @ tpdu_bytes ?li 0xE0 @ cookie_prefix @ c @ 0x0D # 0x0A # ?neg"
    using p(3) by (simp add: request_bytes_def)
  have h1: "\<exists>n. tpkt_read_header ?r = Some (n, s_adv 4 ?r)" using tpkt_read_header_rest [OF p(2) r] assms(10) by simp
  have ok1: "s_ok (s_adv 4 ?r)" "s_rest (s_adv 4 ?r) = tpdu_bytes ?li 0xE0 @ cookie_prefix @ c @ 0x0D # 0x0A # ?neg"
    using p(2) r by simp_all
  have h2: "tpdu_read_connection_request (s_adv 4 ?r) = Some (Some ?li, s_adv 11 ?r)"
    using request_parses [OF ok1] assms(10) by simp
  have ok2: "s_ok (s_adv 11 ?r)" "s_rest (s_adv 11 ?r) = cookie_prefix @ c @ 0x0D # 0x0A # ?neg"
    using s_ok_adv [OF ok1(1), of 7] s_rest_adv [OF ok1(1), of 7] ok1(2) by simp_all
  have li: "csize (Stream_GetRemainingLength (s_adv 11 ?r) + 6) = ?li"
    using ok2 assms(10) by (simp add: prefix_facts csize_def)
  from read_cookie [OF ok2 assms(7,6,13), of srv] obtain u where
    u: "nego_read_request_token_or_cookie mem srv (s_adv 11 ?r) = Some (True, srv\<lparr>ng_cookie := Some (cookie_prefix @ c)\<rparr>, u)"
      "s_ok u" "s_rest u = ?neg @ []" by auto
  have f: "0 \<le> ?f" "?f \<le> 255" by simp_all
  note n = neg_data_fields [OF u(2,3) _ _ f _ assms(12), simplified]
  have "nego_read_request mem srv ?r = Some (True, srv\<lparr>ng_cookie := Some (cookie_prefix @ c),
      ng_RequestedProtocols := ng_RequestedProtocols g, ng_state := NEGO_STATE_FINAL\<rparr>, s_adv 8 u)"
    using h1 h2 li u n assms(11)
    by (auto simp: nego_read_request_def nego_process_negotiation_request_def)
  with p(1) show ?thesis by simp
qed


section \<open>Instances\<close>

lemma nego_response_roundtrip_witness:
  "\<exists>s' s''. nego_put_response (reply_nego []\<lparr>ng_SelectedProtocol := 1\<rparr>) (blank 19) = Some s'
    \<and> nego_recv (reply_nego []) (s'\<lparr>s_pos := 0\<rparr>) = Some (0, nego_check_selected
        (reply_nego []\<lparr>ng_flags := 1, ng_SelectedProtocol := 1, ng_state := NEGO_STATE_FINAL\<rparr>), s'')"
  using nego_response_roundtrip [of "blank 19" "reply_nego []\<lparr>ng_SelectedProtocol := 1\<rparr>" "reply_nego []"] blank_ok [of 19]
  by (simp add: reply_nego_def nego_settings_def nego_enable_tls_def nego_set_negotiation_enabled_def nego_new_def nego_init_def
      reply_transport_def pipe_transport_def)

lemma nego_request_roundtrip_witness:
  "\<exists>s' s''. nego_put_request (reply_nego []\<lparr>ng_cookie := Some [0x75, 0x0D], ng_RequestedProtocols := 3\<rparr>) (blank 40) = Some s'
    \<and> nego_read_request (Some (\<lambda>_. 0)) (reply_nego []) (s'\<lparr>s_pos := 0\<rparr>) =
      Some (True, reply_nego []\<lparr>ng_cookie := Some (cookie_prefix @ [0x75, 0x0D]), ng_RequestedProtocols := 3,
        ng_state := NEGO_STATE_FINAL\<rparr>, s'')"
  using nego_request_roundtrip [of "blank 40" "[0x75, 0x0D]"
      "reply_nego []\<lparr>ng_cookie := Some [0x75, 0x0D], ng_RequestedProtocols := 3\<rparr>" "Some (\<lambda>_. 0)" "reply_nego []"] blank_ok [of 40]
  by (simp add: reply_nego_def nego_enable_tls_def nego_set_negotiation_enabled_def nego_new_def nego_init_def one_line_def
      sublist_Cons_right)

end
