(* ===== verification/NegoEndless.thy ===== *)
theory NegoEndless
  imports NegoMessages
begin

text \<open>
  A server on which the client of the negotiation never gives up: every attempt returns, and leaves the client in the state
  from which it made it.
\<close>

section \<open>The server\<close>

text \<open>
  \<open>inp w\<close> is what the client has still to read. Memory is there, the connection is made, the request is taken at once and
  answered with \<open>reply\<close>, and what is there can be read.
\<close>

definition answers :: "'w net \<Rightarrow> ('w \<Rightarrow> byte list) \<Rightarrow> byte list \<Rightarrow> bool" where
  "answers net inp reply \<longleftrightarrow>
     (\<forall>n w. \<exists>j w'. net_malloc net n w = (Some j, w') \<and> inp w' = inp w) \<and>
     (\<forall>k w. \<exists>fd w'. freerdp_tcp_connect net k w = (fd, w') \<and> 0 < fd \<and> inp w' = []) \<and>
     (\<forall>w. \<exists>w'. BIO_new net w = (True, w') \<and> inp w' = inp w) \<and>
     (\<forall>bs w. bs \<noteq> [] \<longrightarrow> inp w = [] \<longrightarrow>
        (\<exists>w'. BIO_write net bs w = (int (length bs), w') \<and> inp w' = reply \<and> \<not> BIO_write_blocked net w')) \<and>
     (\<forall>s w. inp (Stream_Release net s w) = inp w) \<and>
     (\<forall>n w. 0 < n \<longrightarrow> n \<le> length (inp w) \<longrightarrow> (\<exists>w'. BIO_read net (int n) w = (take n (inp w), w') \<and> inp w' = drop n (inp w)))"

lemma answersD:
  assumes "answers net inp reply"
  shows "\<exists>j w'. net_malloc net n w = (Some j, w') \<and> inp w' = inp w"
    and "\<exists>fd w'. freerdp_tcp_connect net k w = (fd, w') \<and> 0 < fd \<and> inp w' = []"
    and "\<exists>w'. BIO_new net w = (True, w') \<and> inp w' = inp w"
    and "bs \<noteq> [] \<Longrightarrow> inp w = [] \<Longrightarrow> \<exists>w'. BIO_write net bs w = (int (length bs), w') \<and> inp w' = reply \<and> \<not> BIO_write_blocked net w'"
    and "inp (Stream_Release net s w) = inp w"
    and "0 < m \<Longrightarrow> m \<le> length (inp w) \<Longrightarrow> \<exists>w'. BIO_read net (int m) w = (take m (inp w), w') \<and> inp w' = drop m (inp w)"
proof -
  note a = assms [unfolded answers_def]
  note b = a [THEN conjunct2] and c = a [THEN conjunct2, THEN conjunct2]
  note d = c [THEN conjunct2, THEN conjunct2]
  show "\<exists>j w'. net_malloc net n w = (Some j, w') \<and> inp w' = inp w" by (rule a [THEN conjunct1, THEN spec, THEN spec])
  show "\<exists>fd w'. freerdp_tcp_connect net k w = (fd, w') \<and> 0 < fd \<and> inp w' = []" by (rule b [THEN conjunct1, THEN spec, THEN spec])
  show "\<exists>w'. BIO_new net w = (True, w') \<and> inp w' = inp w" by (rule c [THEN conjunct1, THEN spec])
  show "\<exists>w'. BIO_write net bs w = (int (length bs), w') \<and> inp w' = reply \<and> \<not> BIO_write_blocked net w'" if "bs \<noteq> []" "inp w = []"
    by (rule c [THEN conjunct2, THEN conjunct1, THEN spec, THEN spec, THEN mp, THEN mp, OF that])
  show "inp (Stream_Release net s w) = inp w" by (rule d [THEN conjunct1, THEN spec, THEN spec])
  show "\<exists>w'. BIO_read net (int m) w = (take m (inp w), w') \<and> inp w' = drop m (inp w)" if "0 < m" "m \<le> length (inp w)"
    by (rule d [THEN conjunct2, THEN spec, THEN spec, THEN mp, THEN mp, OF that])
qed

text \<open>A confirm with eight bytes of negotiation data, of a type that is neither a response nor a failure.\<close>

definition unknown_reply :: "byte list \<Rightarrow> bool" where
  "unknown_reply reply \<longleftrightarrow> (\<exists>ty data. reply = tpkt_bytes 19 @ tpdu_bytes 14 0xD0 @ ty # data \<and> length data = 7 \<and> ty \<noteq> 2 \<and> ty \<noteq> 3)"

section \<open>The transport\<close>

text \<open>A transport that is connected, up to the parts an attempt uses.\<close>

definition tp_open :: "('w \<Rightarrow> byte list) \<Rightarrow> byte list \<Rightarrow> 'w rdpTransport \<Rightarrow> bool" where
  "tp_open inp bs t \<longleftrightarrow> tp_frontBio t \<and> \<not> tp_NlaMode t \<and> \<not> tp_GatewayEnabled t \<and> inp (tp_net t) = bs"

lemma tp_open_upd [simp]: "tp_open inp bs (t\<lparr>tp_WriteLock := k\<rparr>) = tp_open inp bs t"
  "tp_open inp bs (t\<lparr>tp_net := w\<rparr>) \<longleftrightarrow> tp_frontBio t \<and> \<not> tp_NlaMode t \<and> \<not> tp_GatewayEnabled t \<and> inp w = bs"
  by (simp_all add: tp_open_def)

lemma read_bytes_there:
  assumes "answers net inp reply" "tp_open inp bs t" "holds s p" "0 < n" "n \<le> length bs"
    and "length p + n \<le> length (s_buffer s)"
  shows "\<exists>t' s'. transport_read_layer_bytes net t s (int n) = Some (1, t', s') \<and> tp_open inp (drop n bs) t'
    \<and> holds s' (p @ take n bs) \<and> s_capacity s' = s_capacity s"
proof -
  have bs: "inp (tp_net t) = bs" using assms(2) by (simp add: tp_open_def)
  obtain w where w: "BIO_read net (int n) (tp_net t) = (take n bs, w)" "inp w = drop n bs"
    using answersD(6) [OF assms(1,4), of "tp_net t"] assms(5) bs by auto
  have c: "take n bs \<noteq> []" "length (take n bs) = n" using assms(4,5) by auto
  obtain buf where b: "ablit (s_buffer s) (s_pos s) (take n bs) = Some buf"
    using assms(3,6) c(2) by (simp add: ablit_def holds_def)
  from holds_append [OF assms(3) b] have h: "holds (s\<lparr>s_buffer := buf, s_pos := s_pos s + int n\<rparr>) (p @ take n bs)" using c(2) by simp
  have n: "as_int (int n) = int n" "s_pos s = int (length p)" "int (length p) + int n \<le> INT_MAX"
    using assms(3,6) by (simp_all add: holds_def as_int_def)
  have "transport_read_loop net t (s_buffer s) (s_pos s) 0 (int n) = Some (int n, t\<lparr>tp_net := w\<rparr>, buf)"
    using w(1) c b assms(4) by (subst transport_read_loop.simps) (simp add: transport_read_loop.simps)
  moreover have "Stream_Seek (s\<lparr>s_buffer := buf\<rparr>) (int n) = Some (s\<lparr>s_buffer := buf, s_pos := s_pos s + int n\<rparr>)"
    using h n c(2) by (simp add: Stream_Seek_def holds_def)
  ultimately show ?thesis using assms(2,4) h w(2) n
    by (auto simp: transport_read_layer_bytes_def transport_read_layer_def tp_open_def)
qed

text \<open>The whole reply is read: the two bytes and the two bytes of the header, and the rest.\<close>

lemma read_reply:
  assumes net: "answers net inp reply" and t: "tp_open inp reply t" and s: "holds s []" "1024 \<le> s_capacity s"
    and r: "reply = tpkt_bytes 19 @ rest" "length rest = 15"
  shows "\<exists>t' s'. transport_read_pdu net mem1 mem2 t s = Some (19, t', s') \<and> tp_open inp [] t' \<and> s_ok s' \<and> s_rest s' = reply"
proof -
  have len: "length reply = 19" using r by simp
  have cap: "int (length (s_buffer s)) = s_capacity s" "s_capacity s \<le> INT_MAX" using s(1) by (simp_all add: holds_def)
  obtain t1 s1 where 1: "transport_read_layer_bytes net t s 2 = Some (1, t1, s1)" "tp_open inp (drop 2 reply) t1"
      "holds s1 (take 2 reply)" "s_capacity s1 = s_capacity s"
    using read_bytes_there [OF net t s(1), of 2] len cap(1) s(2) by auto
  have b1: "int (length (s_buffer s1)) = s_capacity s" using 1(3,4) by (simp add: holds_def)
  obtain t2 s2 where 2: "transport_read_layer_bytes net t1 s1 2 = Some (1, t2, s2)" "tp_open inp (drop 4 reply) t2"
      "holds s2 (take 2 reply @ take 2 (drop 2 reply))" "s_capacity s2 = s_capacity s"
    using read_bytes_there [OF net 1(2,3), of 2] len b1 s(2) 1(4) by auto
  have h4: "take 2 reply @ take 2 (drop 2 reply) = take 4 reply" by (simp add: take_add [of 2 2, simplified, symmetric])
  have b2: "int (length (s_buffer s2)) = s_capacity s" using 2(3,4) by (simp add: holds_def)
  obtain t3 s3 where 3: "transport_read_layer_bytes net t2 s2 15 = Some (1, t3, s3)" "tp_open inp [] t3"
      "holds s3 (take 4 reply @ drop 4 reply)" "s_capacity s3 = s_capacity s"
    using read_bytes_there [OF net 2(2,3), of 15] len b2 s(2) 2(4) h4 by auto
  have pos: "s_pos s = 0" "s_pos s1 = 2" "s_pos s2 = 4" "s_pos s3 = 19" "as_int 2 = 2"
    using s(1) 1(3) 2(3) 3(3) len h4 by (simp_all add: holds_def as_int_def)
  have e: "Stream_EnsureCapacity m s 4 = Some (True, s)" "Stream_EnsureCapacity m s2 (csize (4 + 19)) = Some (True, s2)" for m
    using s(2) 2(4) by (simp_all add: Stream_EnsureCapacity_def csize_def)
  have h: "transport_header s1 0 = Some 3" "transport_header s1 1 = Some 0" "transport_header s2 2 = Some 0" "transport_header s2 3 = Some 19"
    using holds_header [OF 1(3), of 0] holds_header [OF 1(3), of 1] holds_header [OF 2(3) [unfolded h4], of 2] holds_header [OF 2(3) [unfolded h4], of 3] len r
    by (simp_all add: tpkt_bytes_def be16_def)
  have nla: "\<not> tp_NlaMode t1" using 1(2) by (simp add: tp_open_def)
  have l: "transport_pdu_length net t1 s1 = Some (Inr 19, t2, s2)"
    using h nla pos 2(1) by (simp add: transport_pdu_length_def transport_read_more_def)
  have seal: "Stream_SetPosition (Stream_SealLength s3) 0 = Some (s3\<lparr>s_pos := 0, s_length := 19\<rparr>)"
    using pos by (simp add: Stream_SealLength_def Stream_SetPosition_def csize_def)
  have "transport_read_body net mem2 t2 s2 19 = Some (19, t3, s3\<lparr>s_pos := 0, s_length := 19\<rparr>)"
    using e 3(1) pos seal by (simp add: transport_read_body_def as_int_def Stream_SealLength_def csize_def)
  then have "transport_read_pdu net mem1 mem2 t s = Some (19, t3, s3\<lparr>s_pos := 0, s_length := 19\<rparr>)"
    using e 1(1) l pos by (simp add: transport_read_pdu_def transport_read_more_def as_int_def)
  moreover have "s_ok (s3\<lparr>s_pos := 0, s_length := 19\<rparr>) \<and> s_rest (s3\<lparr>s_pos := 0, s_length := 19\<rparr>) = reply"
    using holds_reading [OF 3(3)] len by simp
  ultimately show ?thesis using 3(2) by blast
qed

text \<open>The request is written at once, and the reply is there.\<close>

lemma write_request:
  assumes net: "answers net inp reply" and t: "tp_open inp [] t"
    and s: "0 < s_pos s" "s_pos s \<le> int (length (s_buffer s))" "s_pos s \<le> INT_MAX"
  shows "\<exists>t' s'. transport_write net t s = Some (s_pos s, t', s') \<and> tp_open inp reply t'"
proof -
  let ?t = "t\<lparr>tp_WriteLock := tp_WriteLock t + 1\<rparr>" and ?bs = "take (nat (s_pos s)) (s_buffer s)"
  have len: "as_int (s_pos s) = s_pos s" "int (length ?bs) = s_pos s" using s by (simp_all add: as_int_def)
  then have ne: "?bs \<noteq> []" using s(1) by auto
  obtain w where w: "BIO_write net ?bs (tp_net t) = (s_pos s, w)" "inp w = reply" "\<not> BIO_write_blocked net w"
    using answersD(4) [OF net ne, of "tp_net t"] t len(2) by (auto simp: tp_open_def)
  have f: "transport_flush_loop net w = Some (False, w)" using w(3) by (subst transport_flush_loop.simps) simp
  have b: "ablock (s_buffer s) 0 (s_pos s) = Some ?bs" using s by (simp add: ablock_def)
  have "Stream_Seek (s\<lparr>s_pos := 0\<rparr>) (s_pos s) = Some s" using s(1,2) by (simp add: Stream_Seek_def)
  then have "transport_write_loop net ?t (s\<lparr>s_pos := 0\<rparr>) (s_pos s) (- 1) = Some (Inr (s_pos s), ?t\<lparr>tp_net := w\<rparr>, s)"
    using w f b s(1) by (subst transport_write_loop.simps) (simp add: transport_write_loop.simps)
  then show ?thesis
    using s t w(2) len(1) answersD(5) [OF net]
    by (auto simp: transport_write_def Stream_SetPosition_def tp_open_def Let_def)
qed

section \<open>The attempt\<close>

text \<open>
  A client that negotiates without a gateway and without a routing token; its cookie, if it has one, is any. When it is
  connected, nothing is left to read.
\<close>

definition rdp_client :: "('w \<Rightarrow> byte list) \<Rightarrow> 'w rdpNego \<Rightarrow> bool" where
  "rdp_client inp g \<longleftrightarrow> ng_NegotiateSecurityLayer g \<and> \<not> ng_GatewayEnabled g \<and> \<not> tp_GatewayEnabled (ng_transport g)
     \<and> ng_RoutingToken g = None \<and> 0 \<le> ng_CookieMaxLength g \<and> ng_CookieMaxLength g \<le> 255 \<and> \<not> tp_NlaMode (ng_transport g)
     \<and> (ng_TcpConnected g \<longrightarrow> tp_open inp [] (ng_transport g))"

lemma connected:
  assumes "answers net inp reply" and "rdp_client inp g"
  shows "\<exists>g'. nego_transport_connect net g = Some (True, g') \<and> rdp_client inp g' \<and> ng_TcpConnected g' \<and> ng_state g' = ng_state g"
proof (cases "ng_TcpConnected g")
  case True
  with assms(2) show ?thesis by (auto simp: nego_transport_connect_def nego_tcp_connect_def rdp_client_def)
next
  case False
  let ?t = "(ng_transport g)\<lparr>tp_async := set_AsyncTransport (tp_settings (ng_transport g))\<rparr>"
  obtain fd w1 where w1: "freerdp_tcp_connect net 15 (tp_net (ng_transport g)) = (fd, w1)" "0 < fd" "inp w1 = []"
    using answersD(2) [OF assms(1)] by blast
  obtain w2 where w2: "BIO_new net w1 = (True, w2)" "inp w2 = []" using answersD(3) [OF assms(1), of w1] w1(3) by auto
  obtain w3 where w3: "BIO_new net w2 = (True, w3)" "inp w3 = []" using answersD(3) [OF assms(1), of w2] w2(2) by auto
  have "\<exists>t. transport_connect net (ng_transport g) 15 = (True, t) \<and> tp_open inp [] t"
    using assms(2) w1 w2(1) w3
    by (simp add: transport_connect_def transport_attach_def tp_open_def rdp_client_def Let_def)
  with False assms(2) show ?thesis
    by (auto simp: nego_transport_connect_def nego_tcp_connect_def rdp_client_def tp_open_def)
qed

text \<open>The request with any cookie, with or without negotiation data.\<close>

lemma put_any_request:
  assumes "s_ok s" "s_pos s = 0" "512 \<le> length (s_rest s)" "rdp_client inp g"
  shows "\<exists>s'. nego_put_request g s = Some s' \<and> 0 < s_pos s' \<and> s_pos s' \<le> int (length (s_buffer s')) \<and> s_pos s' \<le> INT_MAX"
proof -
  let ?neg = "if 0 < ng_RequestedProtocols g \<or> ng_sendNegoData g
      then neg_data 1 (if ng_RestrictedAdminModeRequired g then 1 else 0) (ng_RequestedProtocols g) else []"
  let ?line = "case ng_cookie g of None \<Rightarrow> [] | Some c \<Rightarrow> cookie_prefix @ take (nat (ng_CookieMaxLength g)) c @ [0x0D, 0x0A]"
  let ?n = "int (length (?line @ ?neg))"
  let ?hdr = "tpkt_bytes (11 + ?n) @ tpdu_bytes (6 + ?n) 0xE0"
  have max: "as_int (ng_CookieMaxLength g) = ng_CookieMaxLength g" "0 \<le> ng_CookieMaxLength g" "ng_CookieMaxLength g \<le> 255"
    "ng_RoutingToken g = None" using assms(4) by (simp_all add: rdp_client_def as_int_def)
  have cookie: "nego_write_cookie s1 c (ng_CookieMaxLength g) =
      do { s2 \<leftarrow> Stream_Write s1 (cookie_prefix @ take (nat (ng_CookieMaxLength g)) c @ [0x0D, 0x0A]);
           Some (int (length (take (nat (ng_CookieMaxLength g)) c)) + 19, s2) }" for s1 c
    using max by (auto simp: nego_write_cookie_def emits write_merge ablock_def min_def Let_def nat_le_iff le_nat_iff)
  have fit: "11 + length (?line @ ?neg) \<le> length (s_rest s)"
    using assms(3) max by (auto simp: prefix_facts min_def split: option.splits)
  have seek: "Stream_Seek s 11 = Some (s_adv 11 s)" using Stream_Seek_rest [OF assms(1), of 11] assms(3) by simp
  have in11: "0 \<le> s_pos (s_adv 11 s)" "s_pos (s_adv 11 s) \<le> int (length (s_buffer (s_adv 11 s)))"
    using assms(1-3) length_s_rest [OF assms(1)] by (simp_all add: s_adv_def s_ok_def)
  have nil: "Stream_Write (s_adv 11 s) [] = Some (s_adv 11 s)" by (rule Stream_Write_0 [OF in11])
  have "nego_put_request g s = (do {
      s1 \<leftarrow> Stream_Seek s (int 11);
      s2 \<leftarrow> Stream_Write s1 (?line @ ?neg);
      s3 \<leftarrow> Stream_SetPosition s2 0;
      s4 \<leftarrow> Stream_Write s3 ?hdr;
      s5 \<leftarrow> Stream_SetPosition s4 (s_pos s2);
      Some (Stream_SealLength s5) })"
    using assms(2) max
    by (cases "ng_cookie g"; cases "0 < ng_RequestedProtocols g \<or> ng_sendNegoData g")
      (simp_all add: nego_put_request_def cookie tpdu_write_connection_request_def emits write_merge neg_data_def seek nil
        prefix_facts le32_def algebra_simps)
  with put_framed_pos [OF assms(1,2), of ?hdr 11 "?line @ ?neg"] fit obtain s' where
    s': "nego_put_request g s = Some s'" "s_ok (s'\<lparr>s_pos := 0\<rparr>)" "s_rest (s'\<lparr>s_pos := 0\<rparr>) = ?hdr @ (?line @ ?neg)"
      "s_pos s' = int (11 + length (?line @ ?neg))" by (auto simp: tpkt_bytes_def tpdu_bytes_def)
  have "length (s_rest (s'\<lparr>s_pos := 0\<rparr>)) = 11 + length (?line @ ?neg)" unfolding s'(3) by (simp add: tpkt_bytes_def tpdu_bytes_def)
  with s'(2,4) length_s_rest [OF s'(2)] have "s_pos s' \<le> int (length (s_buffer s'))" "s_pos s' \<le> INT_MAX"
    by (auto simp: s_ok_def)
  moreover have "0 < s_pos s'" using s'(4) by simp
  ultimately show ?thesis using s'(1) by blast
qed

lemma nego_stream_new:
  assumes "answers net inp reply"
  shows "\<exists>j w. nego_stream net g (int n) = (Some \<lparr>s_buffer = map j [0..<n], s_pos = 0, s_length = int n, s_capacity = int n, s_count = 0, s_pool = NULL\<rparr>,
      g\<lparr>ng_transport := (ng_transport g)\<lparr>tp_net := w\<rparr>\<rparr>) \<and> inp w = inp (tp_net (ng_transport g))"
proof -
  obtain j1 w1 where 1: "net_malloc net 48 (tp_net (ng_transport g)) = (Some j1, w1)" "inp w1 = inp (tp_net (ng_transport g))"
    using answersD(1) [OF assms] by blast
  obtain j2 w2 where 2: "net_malloc net (int n) w1 = (Some j2, w2)" "inp w2 = inp w1" using answersD(1) [OF assms] by blast
  show ?thesis using 1 2 by (intro exI [of _ j2] exI [of _ w2]) (simp add: nego_stream_def Stream_New_def)
qed

lemma request_sent:
  assumes "answers net inp reply" and "rdp_client inp g" and "ng_TcpConnected g"
  shows "\<exists>t. nego_send_negotiation_request net g = Some (True, g\<lparr>ng_transport := t\<rparr>) \<and> tp_open inp reply t"
proof -
  obtain j w where w: "nego_stream net g 512 = (Some \<lparr>s_buffer = map j [0..<512], s_pos = 0, s_length = 512, s_capacity = 512, s_count = 0, s_pool = NULL\<rparr>,
      g\<lparr>ng_transport := (ng_transport g)\<lparr>tp_net := w\<rparr>\<rparr>)" "inp w = inp (tp_net (ng_transport g))"
    using nego_stream_new [OF assms(1), of g 512] by auto
  let ?s = "\<lparr>s_buffer = map j [0..<512], s_pos = 0, s_length = 512, s_capacity = 512, s_count = 0, s_pool = NULL\<rparr>"
  let ?g = "g\<lparr>ng_transport := (ng_transport g)\<lparr>tp_net := w\<rparr>\<rparr>"
  have s: "s_ok ?s" "s_pos ?s = 0" "512 \<le> length (s_rest ?s)" by (simp_all add: s_ok_def s_rest_def)
  have c: "rdp_client inp ?g" and t: "tp_open inp [] (ng_transport ?g)" using assms(2,3) w(2) by (auto simp: rdp_client_def tp_open_def)
  obtain s1 where s1: "nego_put_request ?g ?s = Some s1" "0 < s_pos s1" "s_pos s1 \<le> int (length (s_buffer s1))" "s_pos s1 \<le> INT_MAX"
    using put_any_request [OF s c] by blast
  obtain t' s' where t': "transport_write net (ng_transport ?g) s1 = Some (s_pos s1, t', s')" "tp_open inp reply t'"
    using write_request [OF assms(1) t s1(2-4)] by blast
  show ?thesis using w(1) s1(1,2) t' by (intro exI [of _ t']) (simp add: nego_send_negotiation_request_def nego_write_def)
qed

text \<open>A confirm with negotiation data of an unknown type is taken for a success that changes nothing.\<close>

lemma recv_unknown:
  assumes "s_ok s" and "s_rest s = reply" and "unknown_reply reply"
  shows "\<exists>s'. nego_recv g s = Some (0, g, s')"
proof -
  obtain ty data where r: "s_rest s = tpkt_bytes 19 @ tpdu_bytes 14 0xD0 @ ty # data" "length data = 7" "ty \<noteq> 2" "ty \<noteq> 3"
    using assms(2,3) by (auto simp: unknown_reply_def)
  have h1: "tpkt_read_header s = Some (19, s_adv 4 s)" using tpkt_read_header_rest [OF assms(1) r(1)] by simp
  have ok1: "s_ok (s_adv 4 s)" "s_rest (s_adv 4 s) = tpdu_bytes 14 0xD0 @ ty # data" using assms(1) r(1) by simp_all
  have h2: "tpdu_read_connection_confirm (s_adv 4 s) = Some (Some 14, s_adv 11 s)"
    using confirm_parses [OF ok1] r(2) by simp
  have ok2: "s_ok (s_adv 11 s)" "s_rest (s_adv 11 s) = ty # data"
    using s_ok_adv [OF ok1(1), of 7] s_rest_adv [OF ok1(1), of 7] ok1(2) by simp_all
  have t: "Stream_Read_UINT8 (s_adv 11 s) = Some (uint ty, s_adv 12 s)" using Stream_Read_UINT8_rest [OF ok2] by simp
  have "uint ty \<noteq> 2" "uint ty \<noteq> 3" using r(3,4) by (auto simp: word_uint_eq_iff)
  with h1 h2 t show ?thesis by (simp add: nego_recv_def)
qed

lemma reply_received:
  assumes "answers net inp reply" and "unknown_reply reply" and "tp_open inp reply (ng_transport g)"
  shows "\<exists>t. nego_recv_response net g = Some (True, g\<lparr>ng_transport := t\<rparr>) \<and> tp_open inp [] t"
proof -
  obtain j w where w: "nego_stream net g 1024 = (Some \<lparr>s_buffer = map j [0..<1024], s_pos = 0, s_length = 1024, s_capacity = 1024, s_count = 0, s_pool = NULL\<rparr>,
      g\<lparr>ng_transport := (ng_transport g)\<lparr>tp_net := w\<rparr>\<rparr>)" "inp w = inp (tp_net (ng_transport g))"
    using nego_stream_new [OF assms(1), of g 1024] by auto
  let ?s = "\<lparr>s_buffer = map j [0..<1024], s_pos = 0, s_length = 1024, s_capacity = 1024, s_count = 0, s_pool = NULL\<rparr>"
  obtain j1 w1 where w1: "net_malloc net 4 w = (Some j1, w1)" "inp w1 = inp w" using answersD(1) [OF assms(1)] by blast
  obtain j2 w2 where w2: "net_malloc net 65536 w1 = (Some j2, w2)" "inp w2 = inp w1" using answersD(1) [OF assms(1)] by blast
  let ?t = "(ng_transport g)\<lparr>tp_net := w2\<rparr>"
  have t: "tp_open inp reply ?t" using assms(3) w(2) w1(2) w2(2) by (simp add: tp_open_def)
  have s: "holds ?s []" "1024 \<le> s_capacity ?s" by (simp_all add: holds_def)
  obtain rest where r: "reply = tpkt_bytes 19 @ rest" "length rest = 15"
    using assms(2) by (auto simp: unknown_reply_def tpdu_bytes_def)
  obtain t' s' where t': "transport_read_pdu net (Some j1) (Some j2) ?t ?s = Some (19, t', s')" "tp_open inp [] t'"
      "s_ok s'" "s_rest s' = reply" using read_reply [OF assms(1) t s r] by blast
  obtain s'' where "nego_recv (g\<lparr>ng_transport := t'\<rparr>) s' = Some (0, g\<lparr>ng_transport := t'\<rparr>, s'')"
    using recv_unknown [OF t'(3,4) assms(2)] by blast
  with w(1) w1(1) w2(1) t'(1,2) show ?thesis by (intro exI [of _ t']) (simp add: nego_recv_response_def)
qed

lemma attempt_again:
  assumes net: "answers net inp reply" "unknown_reply reply" and g: "rdp_client inp g" "ng_state g = NEGO_STATE_RDP"
  shows "\<exists>g'. nego_send net g = Some g' \<and> rdp_client inp g' \<and> ng_state g' = NEGO_STATE_RDP"
proof -
  have "rdp_client inp (g\<lparr>ng_RequestedProtocols := PROTOCOL_RDP\<rparr>)" using g(1) by (simp add: rdp_client_def)
  from connected [OF net(1) this] obtain g1 where 1: "nego_transport_connect net (g\<lparr>ng_RequestedProtocols := PROTOCOL_RDP\<rparr>) = Some (True, g1)"
      "rdp_client inp g1" "ng_TcpConnected g1" "ng_state g1 = NEGO_STATE_RDP" using g(2) by auto
  from request_sent [OF net(1) 1(2,3)] obtain t2 where 2: "nego_send_negotiation_request net g1 = Some (True, g1\<lparr>ng_transport := t2\<rparr>)"
      "tp_open inp reply t2" by blast
  from reply_received [OF net, of "g1\<lparr>ng_transport := t2\<rparr>"] 2(2) obtain t3 where
    3: "nego_recv_response net (g1\<lparr>ng_transport := t2\<rparr>) = Some (True, g1\<lparr>ng_transport := t3\<rparr>)" "tp_open inp [] t3" by auto
  have "nego_send net g = Some (g1\<lparr>ng_transport := t3\<rparr>)" using 1(1) 2(1) 3(1) g(2) by (simp add: nego_send_def nego_attempt_rdp_def)
  moreover have "rdp_client inp (g1\<lparr>ng_transport := t3\<rparr>)" using 1(2) 3(2) by (simp add: rdp_client_def tp_open_def)
  ultimately show ?thesis using 1(4) by simp
qed

section \<open>The loop\<close>

text \<open>A set of states that no attempt leaves.\<close>

lemma connect_loop_stuck:
  assumes step: "\<And>g. P g \<Longrightarrow> \<exists>g'. nego_send net g = Some g' \<and> P g' \<and> ng_state g' \<notin> {NEGO_STATE_FAIL, NEGO_STATE_FINAL}"
    and "P g"
  shows "nego_connect_loop net g = None"
proof (cases "nego_connect_loop net g")
  case (Some r)
  let ?Q = "\<lambda>n g r. n = net \<longrightarrow> \<not> P g"
  have "?Q net g r"
  proof (rule nego_connect_loop.raw_induct [where P = ?Q, OF _ Some])
    fix f :: "'a net \<Rightarrow> 'a rdpNego \<Rightarrow> (bool \<times> 'a rdpNego) option" and n g r
    assume IH: "\<And>n g r. f n g = Some r \<Longrightarrow> ?Q n g r"
    assume eq: "(do {
      g \<leftarrow> nego_send n g;
      if ng_state g = NEGO_STATE_FAIL then Some (False, g\<lparr>ng_state := NEGO_STATE_FINAL\<rparr>)
      else if ng_state g \<noteq> NEGO_STATE_FINAL then f n g
      else Some (True, g) }) = Some r"
    show "?Q n g r"
    proof (intro impI notI)
      assume n: "n = net" and "P g"
      from step [OF this(2)] obtain g' where "nego_send net g = Some g'" "P g'" "ng_state g' \<notin> {NEGO_STATE_FAIL, NEGO_STATE_FINAL}" by blast
      with eq n IH [of net g'] show False by auto
    qed
  qed
  with assms(2) show ?thesis by simp
qed

text \<open>
  C39. A server that answers every request with a confirm whose negotiation data is of an unknown type, against a client with
  only standard RDP security enabled that uses no gateway, no routing token and no preconnection unit: however often the client
  has tried, the next attempt returns as well and leaves it in the state of the attempt, so \<open>nego_connect\<close> never comes to an end.
\<close>

theorem nego_connect_unknown_reply:
  assumes "answers net inp reply" and "unknown_reply reply" and "rdp_client inp g" and "\<not> ng_SendPreconnectionPdu g"
    and "ng_state g = NEGO_STATE_INITIAL" and "ng_EnabledProtocols g = (\<lambda>_. False)(PROTOCOL_RDP := True)"
  shows "nego_start net g = Some (True, g\<lparr>ng_state := NEGO_STATE_RDP\<rparr>)
    \<and> (\<forall>n. \<exists>g'. nego_steps n net (g\<lparr>ng_state := NEGO_STATE_RDP\<rparr>) = Some g' \<and> ng_state g' = NEGO_STATE_RDP)
    \<and> nego_connect net g = None"
proof -
  let ?P = "\<lambda>g. rdp_client inp g \<and> ng_state g = NEGO_STATE_RDP" and ?g = "g\<lparr>ng_state := NEGO_STATE_RDP\<rparr>"
  have P: "?P ?g" using assms(3) by (simp add: rdp_client_def)
  have start: "nego_start net g = Some (True, ?g)"
    using assms(3-6) by (simp add: nego_start_def nego_initial_state_def rdp_client_def Let_def)
  have "\<exists>g'. nego_steps n net g = Some g' \<and> ng_state g' = NEGO_STATE_RDP" if "?P g" for n g
    using that
  proof (induction n arbitrary: g)
    case (Suc n)
    from attempt_again [OF assms(1,2)] Suc.prems obtain g1 where "nego_send net g = Some g1" "?P g1" by blast
    with Suc.IH show ?case by simp
  qed simp
  with P have "\<forall>n. \<exists>g'. nego_steps n net ?g = Some g' \<and> ng_state g' = NEGO_STATE_RDP" by blast
  moreover have "nego_connect_loop net ?g = None"
    by (rule connect_loop_stuck [where P = ?P, OF _ P]) (use attempt_again [OF assms(1,2)] in fastforce)
  ultimately show ?thesis using start by (simp add: nego_connect_def)
qed

text \<open>A client with a cookie against the server of \<open>stubborn_net\<close>.\<close>

lemma stubborn_answers: "answers stubborn_net id [3, 0, 0, 0x13, 0xE, 0xD0, 0, 0, 0, 0, 0, 0, 0, 8, 0, 0, 0, 0, 0]"
  by (simp add: answers_def stubborn_net_def reply_net_def)

theorem nego_connect_unknown_reply_witness:
  "\<exists>g. nego_set_cookie (Some (\<lambda>_. 0)) (nego_enable_rdp (nego_set_negotiation_enabled (the (nego_new True (reply_transport []))) True) True)
        (Some [0x75, 0x73, 0x65, 0x72]) = (True, g)
    \<and> (\<forall>n. \<exists>g'. nego_steps n stubborn_net (g\<lparr>ng_state := NEGO_STATE_RDP\<rparr>) = Some g' \<and> ng_state g' = NEGO_STATE_RDP)
    \<and> nego_connect stubborn_net g = None"
proof -
  obtain g where g: "nego_set_cookie (Some (\<lambda>_. 0)) (nego_enable_rdp (nego_set_negotiation_enabled (the (nego_new True (reply_transport []))) True) True)
      (Some [0x75, 0x73, 0x65, 0x72]) = (True, g)" by (simp add: nego_set_cookie_def Let_def)
  note defs = nego_set_cookie_def nego_enable_rdp_def nego_set_negotiation_enabled_def nego_new_def nego_init_def reply_transport_def Let_def
  have "rdp_client id g" "\<not> ng_SendPreconnectionPdu g" "ng_state g = NEGO_STATE_INITIAL"
    "ng_EnabledProtocols g = (\<lambda>_. False)(PROTOCOL_RDP := True)"
    using g by (auto simp: defs rdp_client_def)
  moreover have "unknown_reply [3, 0, 0, 0x13, 0xE, 0xD0, 0, 0, 0, 0, 0, 0, 0, 8, 0, 0, 0, 0, 0]"
    unfolding unknown_reply_def by (intro exI [of _ 0] exI [of _ "[0, 8, 0, 0, 0, 0, 0]"]) code_simp
  ultimately show ?thesis using nego_connect_unknown_reply [OF stubborn_answers] g by blast
qed

end
