(* ===== verification/WBitStream.thy ===== *)
theory WBitStream
  imports CPrelude
begin

text \<open>
  The bit streams of \<open>winpr/include/winpr/bitstream.h\<close> and \<open>winpr/libwinpr/utils/collections/BitStream.c\<close>:
  a window of 32 bits and a prefetched word behind it slide over a buffer of bytes. The buffer is the memory
  behind the pointer, which may be larger than the \<open>capacity\<close> the stream was attached with; \<open>bs_pointer\<close>
  is an index into it. Shifts by an amount outside the range C allows are \<open>None\<close>.
\<close>

type_synonym uint32 = "32 word"

section \<open>State\<close>

record wBitStream =
  bs_buffer :: "byte list"
  bs_pointer :: int
  bs_position :: int
  bs_length :: int
  bs_capacity :: int
  bs_mask :: uint32
  bs_offset :: int
  bs_prefetch :: uint32
  bs_accumulator :: uint32

definition u32 :: "int \<Rightarrow> int" where
  "u32 x = x mod 4294967296"

definition shl :: "uint32 \<Rightarrow> int \<Rightarrow> uint32 option" where
  "shl x n = (if 0 \<le> n \<and> n < 32 then Some (push_bit (nat n) x) else None)"

definition shr :: "uint32 \<Rightarrow> int \<Rightarrow> uint32 option" where
  "shr x n = (if 0 \<le> n \<and> n < 32 then Some (drop_bit (nat n) x) else None)"

text \<open>\<open>(1 << n) - 1\<close> on signed integers.\<close>

definition ones :: "int \<Rightarrow> uint32 option" where
  "ones n = (if 0 \<le> n \<and> n < 31 then Some (push_bit (nat n) 1 - 1) else None)"

section \<open>Operations\<close>

text \<open>One guarded load of a byte, as both \<open>BitStream_Prefetch\<close> and \<open>BitStream_Fetch\<close> do it.\<close>

definition bs_load :: "wBitStream \<Rightarrow> int \<Rightarrow> uint32 option" where
  "bs_load bs k =
     (if u32 (bs_pointer bs) < u32 (bs_capacity bs + k) then map_option ucast (aget (bs_buffer bs) (bs_pointer bs + k)) else Some 0)"

definition BitStream_Prefetch :: "wBitStream \<Rightarrow> wBitStream option" where
  "BitStream_Prefetch bs = do {
     b4 \<leftarrow> bs_load bs 4;
     b5 \<leftarrow> bs_load bs 5;
     b6 \<leftarrow> bs_load bs 6;
     b7 \<leftarrow> bs_load bs 7;
     Some (bs\<lparr>bs_prefetch := push_bit 24 b4 OR push_bit 16 b5 OR push_bit 8 b6 OR b7\<rparr>) }"

definition BitStream_Fetch :: "wBitStream \<Rightarrow> wBitStream option" where
  "BitStream_Fetch bs = do {
     b0 \<leftarrow> bs_load bs 0;
     b1 \<leftarrow> bs_load bs 1;
     b2 \<leftarrow> bs_load bs 2;
     b3 \<leftarrow> bs_load bs 3;
     BitStream_Prefetch (bs\<lparr>bs_accumulator := push_bit 24 b0 OR push_bit 16 b1 OR push_bit 8 b2 OR b3\<rparr>) }"

definition bs_store :: "int \<Rightarrow> byte \<Rightarrow> wBitStream \<Rightarrow> wBitStream option" where
  "bs_store k b bs =
     (if u32 (bs_pointer bs) < u32 (bs_capacity bs + k)
      then do { buf \<leftarrow> aset (bs_buffer bs) (bs_pointer bs + k) b; Some (bs\<lparr>bs_buffer := buf\<rparr>) } else Some bs)"

definition BitStream_Flush :: "wBitStream \<Rightarrow> wBitStream option" where
  "BitStream_Flush bs = do {
     let acc = bs_accumulator bs;
     bs \<leftarrow> bs_store 0 (ucast (drop_bit 24 acc)) bs;
     bs \<leftarrow> bs_store 1 (ucast (drop_bit 16 acc)) bs;
     bs \<leftarrow> bs_store 2 (ucast (drop_bit 8 acc)) bs;
     bs_store 3 (ucast acc) bs }"

definition BitStream_Shift :: "wBitStream \<Rightarrow> int \<Rightarrow> wBitStream option" where
  "BitStream_Shift bs nbits =
     (if nbits = 0 then Some bs
      else if 0 < nbits \<and> nbits < 32 then do {
        acc \<leftarrow> shl (bs_accumulator bs) nbits;
        pos \<leftarrow> cint (bs_position bs + nbits);
        let offset = u32 (bs_offset bs + nbits);
        mask \<leftarrow> ones nbits;
        more \<leftarrow> shr (bs_prefetch bs) (32 - nbits);
        prefetch \<leftarrow> shl (bs_prefetch bs) nbits;
        let bs = bs\<lparr>bs_position := pos, bs_offset := offset, bs_mask := mask,
          bs_accumulator := acc OR (more AND mask), bs_prefetch := prefetch\<rparr>;
        if offset < 32 then Some bs
        else do {
          bs \<leftarrow> BitStream_Prefetch (bs\<lparr>bs_offset := offset - 32, bs_pointer := bs_pointer bs + 4\<rparr>);
          if bs_offset bs \<noteq> 0 then do {
            mask \<leftarrow> ones (bs_offset bs);
            more \<leftarrow> shr (bs_prefetch bs) (32 - bs_offset bs);
            prefetch \<leftarrow> shl (bs_prefetch bs) (bs_offset bs);
            Some (bs\<lparr>bs_mask := mask, bs_accumulator := bs_accumulator bs OR (more AND mask), bs_prefetch := prefetch\<rparr>) }
          else Some bs } }
      else Some bs)"

definition BitStream_Write_Bits :: "wBitStream \<Rightarrow> uint32 \<Rightarrow> int \<Rightarrow> wBitStream option" where
  "BitStream_Write_Bits bs bits nbits = do {
     pos \<leftarrow> cint (bs_position bs + nbits);
     let offset = u32 (bs_offset bs + nbits);
     let bs = bs\<lparr>bs_position := pos, bs_offset := offset\<rparr>;
     if offset < 32 then do {
       more \<leftarrow> shl bits (32 - offset);
       Some (bs\<lparr>bs_accumulator := bs_accumulator bs OR more\<rparr>) }
     else do {
       let offset = offset - 32;
       mask \<leftarrow> ones (nbits - offset);
       more \<leftarrow> shr bits offset;
       bs \<leftarrow> BitStream_Flush (bs\<lparr>bs_offset := offset, bs_mask := mask, bs_accumulator := bs_accumulator bs OR (more AND mask)\<rparr>);
       let bs = bs\<lparr>bs_accumulator := 0, bs_pointer := bs_pointer bs + 4\<rparr>;
       if offset \<noteq> 0 then do {
         mask \<leftarrow> ones offset;
         more \<leftarrow> shl (bits AND mask) (32 - offset);
         Some (bs\<lparr>bs_mask := mask, bs_accumulator := bs_accumulator bs OR more\<rparr>) }
       else Some bs } }"

definition BitStream_Attach :: "wBitStream \<Rightarrow> byte list \<Rightarrow> int \<Rightarrow> wBitStream option" where
  "BitStream_Attach bs buffer capacity = do {
     len \<leftarrow> cint (capacity * 8);
     Some (bs\<lparr>bs_position := 0, bs_buffer := buffer, bs_offset := 0, bs_accumulator := 0, bs_pointer := 0,
       bs_capacity := capacity, bs_length := len\<rparr>) }"

definition BitStream_New :: "bool \<Rightarrow> wBitStream option" where
  "BitStream_New mem =
     (if mem then Some \<lparr>bs_buffer = [], bs_pointer = 0, bs_position = 0, bs_length = 0, bs_capacity = 0, bs_mask = 0,
        bs_offset = 0, bs_prefetch = 0, bs_accumulator = 0\<rparr> else None)"

section \<open>Bits of the buffer\<close>

text \<open>The bits of the bytes in the order of the stream, the highest of each byte first.\<close>

definition bitat :: "byte list \<Rightarrow> nat \<Rightarrow> bool" where
  "bitat xs i = bit (xs ! (i div 8)) (7 - i mod 8)"

text \<open>The \<open>n\<close> low bits of a number, the highest first.\<close>

definition nbits :: "nat \<Rightarrow> nat \<Rightarrow> bool list" where
  "nbits n v = map (\<lambda>i. bit v (n - 1 - i)) [0..<n]"

lemma length_nbits [simp]: "length (nbits n v) = n"
  by (simp add: nbits_def)

lemma nth_nbits [simp]: "i < n \<Longrightarrow> nbits n v ! i = bit v (n - 1 - i)"
  by (simp add: nbits_def)

definition sees :: "byte list \<Rightarrow> nat \<Rightarrow> bool list \<Rightarrow> bool" where
  "sees buf pos bl \<longleftrightarrow> (\<forall>i < length bl. bitat buf (pos + i) = bl ! i)"

lemma sees_append [simp]: "sees buf pos (as @ bs) \<longleftrightarrow> sees buf pos as \<and> sees buf (pos + length as) bs"
proof
  assume l: "sees buf pos (as @ bs)"
  have "bitat buf (pos + length as + i) = bs ! i" if "i < length bs" for i
    using l that unfolding sees_def by (metis add.assoc length_append nat_add_left_cancel_less nth_append_length_plus)
  then show "sees buf pos as \<and> sees buf (pos + length as) bs"
    using l by (auto simp: sees_def nth_append)
next
  assume r: "sees buf pos as \<and> sees buf (pos + length as) bs"
  show "sees buf pos (as @ bs)"
    unfolding sees_def
  proof (intro allI impI)
    fix i assume i: "i < length (as @ bs)"
    show "bitat buf (pos + i) = (as @ bs) ! i"
    proof (cases "i < length as")
      case False
      then have "i - length as < length bs" using i by simp
      then have "bitat buf (pos + length as + (i - length as)) = bs ! (i - length as)" using r unfolding sees_def by blast
      moreover have eq: "pos + length as + (i - length as) = pos + i" using False by simp
      ultimately have "bitat buf (pos + i) = bs ! (i - length as)" unfolding eq by simp
      with False show ?thesis by (simp add: nth_append)
    qed (use r in \<open>auto simp: sees_def nth_append\<close>)
  qed
qed

text \<open>The four bytes from a word boundary.\<close>

lemma bit_bytes:
  fixes b0 b1 b2 b3 :: byte
  assumes "i < 32"
  shows "bit (push_bit 24 (ucast b0) OR push_bit 16 (ucast b1) OR push_bit 8 (ucast b2) OR ucast b3 :: uint32) i =
    (if i < 8 then bit b3 i else if i < 16 then bit b2 (i - 8) else if i < 24 then bit b1 (i - 16) else bit b0 (i - 24))"
proof -
  have "\<not> bit b3 n" if "8 \<le> n" for n using that by (auto dest: bit_imp_le_length)
  moreover have "\<not> bit b2 (n - 8)" if "16 \<le> n" for n using that by (auto dest: bit_imp_le_length)
  moreover have "\<not> bit b1 (n - 16)" if "24 \<le> n" for n using that by (auto dest: bit_imp_le_length)
  moreover have "i - 8 < 32" "i - 16 < 32" "i - 24 < 32" using assms by simp_all
  ultimately show ?thesis using assms by (simp add: bit_or_iff bit_push_bit_iff bit_ucast_iff)
qed

lemma bitat_at: "k < 8 \<Longrightarrow> bitat xs (8 * p + k) = bit (xs ! p) (7 - k)"
  by (simp add: bitat_def)

lemma bitat_byte: "j < 8 \<Longrightarrow> bitat xs (8 * p + (7 - j)) = bit (xs ! p) j"
  using bitat_at [of "7 - j" xs p] by simp

lemma bit_word_at:
  assumes "i < 32"
  shows "bit (push_bit 24 (ucast (xs ! p)) OR push_bit 16 (ucast (xs ! (p + 1))) OR push_bit 8 (ucast (xs ! (p + 2)))
    OR ucast (xs ! (p + 3)) :: uint32) i = bitat xs (8 * p + 31 - i)"
proof -
  consider "i < 8" | "8 \<le> i" "i < 16" | "16 \<le> i" "i < 24" | "24 \<le> i" using assms by linarith
  then show ?thesis
  proof cases
    case 1
    then have "8 * p + 31 - i = 8 * (p + 3) + (7 - i)" by simp
    with 1 show ?thesis unfolding bit_bytes [OF assms] by (simp only: bitat_byte) simp
  next
    case 2
    then have "8 * p + 31 - i = 8 * (p + 2) + (7 - (i - 8))" "i - 8 < 8" by simp_all
    with 2 show ?thesis unfolding bit_bytes [OF assms] by (simp only: bitat_byte) simp
  next
    case 3
    then have "8 * p + 31 - i = 8 * (p + 1) + (7 - (i - 16))" "i - 16 < 8" by simp_all
    with 3 show ?thesis unfolding bit_bytes [OF assms] by (simp only: bitat_byte) simp
  next
    case 4
    then have "8 * p + 31 - i = 8 * p + (7 - (i - 24))" "i - 24 < 8" using assms by simp_all
    with 4 show ?thesis unfolding bit_bytes [OF assms] by (simp only: bitat_byte) simp
  qed
qed

section \<open>Reading\<close>

text \<open>The loads below the guard, of a pointer that is not past the capacity.\<close>

lemma bs_load_ok:
  assumes "bs_pointer bs = int p" "bs_capacity bs = int cap" "p < cap + k" "k < 8" "cap \<le> 268435455"
    and "p + k < length (bs_buffer bs)"
  shows "bs_load bs (int k) = Some (ucast (bs_buffer bs ! (p + k)))"
proof -
  have "u32 (int p) = int p" "u32 (int cap + int k) = int cap + int k" using assms by (simp_all add: u32_def)
  moreover have "aget (bs_buffer bs) (int p + int k) = Some (bs_buffer bs ! (p + k))"
    using assms(6) by (simp add: aget_def flip: of_nat_add)
  ultimately show ?thesis using assms(1-3) by (simp add: bs_load_def)
qed

lemma prefetch_ok:
  assumes "bs_pointer bs = int p" "bs_capacity bs = int cap" "p \<le> cap" "cap \<le> 268435455" "p + 7 < length (bs_buffer bs)"
  shows "\<exists>w. BitStream_Prefetch bs = Some (bs\<lparr>bs_prefetch := w\<rparr>) \<and> (\<forall>i < 32. bit w i = bitat (bs_buffer bs) (8 * p + 63 - i))"
proof -
  have l: "bs_load bs (int k) = Some (ucast (bs_buffer bs ! (p + k)))" if "4 \<le> k" "k < 8" for k
    using assms that by (intro bs_load_ok) auto
  let ?w = "push_bit 24 (ucast (bs_buffer bs ! (p + 4))) OR push_bit 16 (ucast (bs_buffer bs ! (p + 4 + 1)))
    OR push_bit 8 (ucast (bs_buffer bs ! (p + 4 + 2))) OR ucast (bs_buffer bs ! (p + 4 + 3)) :: uint32"
  have "BitStream_Prefetch bs = Some (bs\<lparr>bs_prefetch := ?w\<rparr>)"
    using l [of 4] l [of 5] l [of 6] l [of 7] by (simp add: BitStream_Prefetch_def add.commute [of p])
  moreover have "bit ?w i = bitat (bs_buffer bs) (8 * p + 63 - i)" if "i < 32" for i
    using bit_word_at [OF that, of "bs_buffer bs" "p + 4"] by (simp add: add.commute)
  ultimately show ?thesis by blast
qed

text \<open>The window at a position: the accumulator holds the next 32 bits and the prefetched word what follows, as far as it goes.\<close>

definition bs_reads :: "wBitStream \<Rightarrow> byte list \<Rightarrow> nat \<Rightarrow> nat \<Rightarrow> bool" where
  "bs_reads bs buf cap pos \<longleftrightarrow> bs_buffer bs = buf \<and> bs_capacity bs = int cap \<and> bs_length bs = 8 * int cap
     \<and> bs_position bs = int pos \<and> bs_offset bs = int (pos mod 32) \<and> bs_pointer bs = int (4 * (pos div 32))
     \<and> (\<forall>i < 32. bit (bs_accumulator bs) i = bitat buf (pos + 31 - i))
     \<and> (\<forall>i < 32. bit (bs_prefetch bs) i = (pos mod 32 \<le> i \<and> bitat buf (pos + 63 - i)))"

lemma attach_reads:
  assumes "0 < cap" "cap \<le> 268435455" "cap + 8 \<le> length buf"
  shows "\<exists>bs1 bs2. BitStream_Attach bs buf (int cap) = Some bs1 \<and> BitStream_Fetch bs1 = Some bs2 \<and> bs_reads bs2 buf cap 0"
proof -
  have a: "BitStream_Attach bs buf (int cap) = Some (bs\<lparr>bs_position := 0, bs_buffer := buf, bs_offset := 0, bs_accumulator := 0,
      bs_pointer := 0, bs_capacity := int cap, bs_length := int cap * 8\<rparr>)" (is "_ = Some ?a")
    using assms(2) by (simp add: BitStream_Attach_def cint_def)
  have l: "bs_load ?a (int k) = Some (ucast (buf ! (0 + k)))" if "k < 4" for k
    using bs_load_ok [of ?a 0 cap k] assms that by auto
  let ?w = "push_bit 24 (ucast (buf ! 0)) OR push_bit 16 (ucast (buf ! (0 + 1))) OR push_bit 8 (ucast (buf ! (0 + 2)))
    OR ucast (buf ! (0 + 3)) :: uint32"
  obtain w where w: "BitStream_Prefetch (?a\<lparr>bs_accumulator := ?w\<rparr>) = Some (?a\<lparr>bs_accumulator := ?w, bs_prefetch := w\<rparr>)"
    "\<forall>i < 32. bit w i = bitat buf (8 * 0 + 63 - i)"
    using prefetch_ok [of "?a\<lparr>bs_accumulator := ?w\<rparr>" 0 cap] assms by auto
  have "\<forall>i < 32. bit ?w i = bitat buf (8 * 0 + 31 - i)"
    using bit_word_at [of _ buf 0] by blast
  then have "bs_reads (?a\<lparr>bs_accumulator := ?w, bs_prefetch := w\<rparr>) buf cap 0"
    using w(2) by (simp add: bs_reads_def)
  then show ?thesis using a l [of 0] l [of 1] l [of 2] l [of 3] w(1) by (simp add: BitStream_Fetch_def)
qed

lemma bit_ones: "0 < n \<Longrightarrow> n < 31 \<Longrightarrow> ones (int n) = Some (mask n)"
  by (simp add: ones_def mask_eq_decr_exp)

lemma shift_reads:
  assumes "bs_reads bs buf cap pos" "0 < n" "n < 31" "pos + n \<le> 8 * cap" "cap \<le> 268435455" "cap + 8 \<le> length buf"
  shows "\<exists>bs'. BitStream_Shift bs (int n) = Some bs' \<and> bs_reads bs' buf cap (pos + n)"
proof -
  let ?o = "pos mod 32" and ?acc = "bs_accumulator bs" and ?pre = "bs_prefetch bs"
  note r = assms(1) [unfolded bs_reads_def]
  have sh: "shl w (int n) = Some (push_bit n w)" "shr w (32 - int n) = Some (drop_bit (32 - n) w)" for w
    using assms(2,3) by (simp_all add: shl_def shr_def nat_diff_distrib)
  have pos: "cint (int pos + int n) = Some (int (pos + n))" using assms(4,5) by (simp add: cint_def)
  have off: "u32 (int ?o + int n) = int (?o + n)"
  proof -
    have "?o < 32" by simp
    then show ?thesis using assms(3) by (simp add: u32_def)
  qed
  let ?acc1 = "push_bit n ?acc OR (drop_bit (32 - n) ?pre AND mask n)" and ?pre1 = "push_bit n ?pre"
  have acc1: "bit ?acc1 i = (if n \<le> i then bitat buf (pos + n + 31 - i) else ?o + n \<le> i + 32 \<and> bitat buf (pos + n + 31 - i))" if "i < 32" for i
  proof (cases "n \<le> i")
    case True
    have "pos + 31 - (i - n) = pos + n + 31 - i" using True by simp
    moreover have "bit ?acc (i - n) = bitat buf (pos + 31 - (i - n))" using r that by simp
    ultimately show ?thesis using True that by (simp add: bit_simps)
  next
    case False
    have "pos + 63 - (i + 32 - n) = pos + n + 31 - i" using False assms(3) by simp
    moreover have "bit ?pre (i + 32 - n) = (?o \<le> i + 32 - n \<and> bitat buf (pos + 63 - (i + 32 - n)))" using r False assms(3) by simp
    moreover have "32 - n + i = i + 32 - n" using assms(3) by simp
    ultimately show ?thesis using False assms(3) that by (auto simp: bit_simps)
  qed
  have pre1: "bit ?pre1 i = (?o + n \<le> i \<and> bitat buf (pos + n + 63 - i))" if "i < 32" for i
  proof (cases "n \<le> i")
    case True
    have "pos + 63 - (i - n) = pos + n + 63 - i" using True by simp
    moreover have "bit ?pre (i - n) = (?o \<le> i - n \<and> bitat buf (pos + 63 - (i - n)))" using r that by simp
    ultimately show ?thesis using True that by (auto simp: bit_simps)
  qed (simp add: bit_simps)
  let ?bs1 = "bs\<lparr>bs_position := int (pos + n), bs_offset := int (?o + n), bs_mask := mask n, bs_accumulator := ?acc1, bs_prefetch := ?pre1\<rparr>"
  show ?thesis
  proof (cases "?o + n < 32")
    case True
    have pn: "pos + n = 32 * (pos div 32) + (?o + n)" by simp
    have "(32 * q + x) mod 32 = x" "(32 * q + x) div 32 = q" if "x < 32" for q x :: nat using that by simp_all
    from this [OF True, of "pos div 32", folded pn] have m: "(pos + n) mod 32 = ?o + n" "(pos + n) div 32 = pos div 32" .
    have "BitStream_Shift bs (int n) = Some ?bs1"
      using r sh pos off bit_ones [OF assms(2,3)] True assms(2,3) by (simp add: BitStream_Shift_def)
    moreover have "bs_reads ?bs1 buf cap (pos + n)"
      using r m True acc1 pre1 by (auto simp: bs_reads_def)
    ultimately show ?thesis by blast
  next
    case False
    let ?p = "4 * (pos div 32) + 4"
    have "?o < 32" by simp
    then obtain o2 where o2: "?o + n = 32 + o2" "o2 < 31" using False assms(3) by (intro that [of "?o + n - 32"]) linarith+
    have "pos + n = 32 * (pos div 32) + (?o + n)" by simp
    then have pn: "pos + n = 32 * (pos div 32 + 1) + o2" unfolding o2(1) by simp
    have "(32 * q + x) mod 32 = x" "(32 * q + x) div 32 = q" if "x < 32" for q x :: nat using that by simp_all
    from this [of o2 "pos div 32 + 1", folded pn] o2(2) have m: "(pos + n) mod 32 = o2" "(pos + n) div 32 = pos div 32 + 1" by simp_all
    have p: "?p \<le> cap" using pn assms(4) by simp
    let ?bs2 = "?bs1\<lparr>bs_offset := int o2, bs_pointer := int ?p\<rparr>"
    have "bs_pointer ?bs2 = int ?p" "bs_capacity ?bs2 = int cap" "bs_buffer ?bs2 = buf" using r by simp_all
    with prefetch_ok [of ?bs2 ?p cap] p assms(5,6) obtain w where
      w: "BitStream_Prefetch ?bs2 = Some (?bs2\<lparr>bs_prefetch := w\<rparr>)" "\<forall>i < 32. bit w i = bitat buf (8 * ?p + 63 - i)" by auto
    have wp: "bit w i = bitat buf (pos + n + 63 - i - o2)" if "i < 32" for i
    proof -
      have "8 * ?p + 63 - i = pos + n + 63 - i - o2" using pn that by simp
      with w(2) that show ?thesis by simp
    qed
    have step: "BitStream_Shift bs (int n) = (if o2 = 0 then Some (?bs2\<lparr>bs_prefetch := w\<rparr>)
      else Some (?bs2\<lparr>bs_mask := mask o2, bs_accumulator := ?acc1 OR (drop_bit (32 - o2) w AND mask o2), bs_prefetch := push_bit o2 w\<rparr>))"
    proof -
      have o32: "int (?o + n) - 32 = int o2" "\<not> int (?o + n) < 32" unfolding o2(1) by simp_all
      have "shl w (int k) = Some (push_bit k w)" "k \<noteq> 0 \<Longrightarrow> shr w (32 - int k) = Some (drop_bit (32 - k) w)" if "k < 31" for k
        using that by (simp_all add: shl_def shr_def nat_diff_distrib)
      note sh2 = this [OF o2(2)]
      have "BitStream_Shift bs (int n) = (do {
          bs' \<leftarrow> BitStream_Prefetch ?bs2;
          if bs_offset bs' \<noteq> 0 then do {
            mask \<leftarrow> ones (bs_offset bs');
            more \<leftarrow> shr (bs_prefetch bs') (32 - bs_offset bs');
            prefetch \<leftarrow> shl (bs_prefetch bs') (bs_offset bs');
            Some (bs'\<lparr>bs_mask := mask, bs_accumulator := bs_accumulator bs' OR (more AND mask), bs_prefetch := prefetch\<rparr>) }
          else Some bs' })"
        using r sh pos off bit_ones [OF assms(2,3)] False assms(2,3) o32 by (simp add: BitStream_Shift_def)
      then show ?thesis using w(1) sh2 bit_ones [of o2] o2(2) by (simp add: Let_def)
    qed
    show ?thesis
    proof (cases "o2 = 0")
      case True
      have "bs_reads (?bs2\<lparr>bs_prefetch := w\<rparr>) buf cap (pos + n)"
        using r m True acc1 wp o2(1) by (auto simp: bs_reads_def)
      with step True show ?thesis by auto
    next
      case o2pos: False
      let ?acc2 = "?acc1 OR (drop_bit (32 - o2) w AND mask o2)"
      have acc2: "bit ?acc2 i = bitat buf (pos + n + 31 - i)" if "i < 32" for i
      proof (cases "i < o2")
        case True
        have "32 - o2 + i < 32" using True o2(2) by simp
        moreover have "pos + n + 63 - (32 - o2 + i) - o2 = pos + n + 31 - i" using True o2(2) by simp
        ultimately have "bit w (32 - o2 + i) = bitat buf (pos + n + 31 - i)" using wp by metis
        moreover have "bit ?acc1 i \<longrightarrow> bitat buf (pos + n + 31 - i)" using acc1 [OF that] by (simp split: if_splits)
        ultimately show ?thesis using True that by (auto simp: bit_simps)
      next
        case False
        have "bit ?acc1 i = bitat buf (pos + n + 31 - i)" using acc1 [OF that] False o2(1) by (simp split: if_splits)
        with False show ?thesis by (simp add: bit_simps)
      qed
      have pre2: "bit (push_bit o2 w) i = (o2 \<le> i \<and> bitat buf (pos + n + 63 - i))" if "i < 32" for i
      proof (cases "o2 \<le> i")
        case True
        have "pos + n + 63 - (i - o2) - o2 = pos + n + 63 - i" using True by simp
        with wp [of "i - o2"] True that show ?thesis by (simp add: bit_simps)
      qed (simp add: bit_simps)
      have "bs_reads (?bs2\<lparr>bs_mask := mask o2, bs_accumulator := ?acc2, bs_prefetch := push_bit o2 w\<rparr>) buf cap (pos + n)"
        using r m acc2 pre2 by (auto simp: bs_reads_def)
      with step o2pos show ?thesis by auto
    qed
  qed
qed


text \<open>The next bits as a number: the top of the accumulator.\<close>

definition top_bits :: "nat \<Rightarrow> uint32 \<Rightarrow> nat" where
  "top_bits n w = unat (drop_bit (32 - n) w)"

lemma bits_small: "v < 2 ^ n \<Longrightarrow> n \<le> i \<Longrightarrow> \<not> bit (v :: nat) i"
proof -
  assume "v < 2 ^ n" "n \<le> i"
  then have "v < 2 ^ i" using power_increasing [of n i "2::nat"] by linarith
  then show ?thesis by (simp add: bit_iff_odd)
qed

lemma reads_top:
  assumes "bs_reads bs buf cap pos" "n \<le> 32" "v < 2 ^ n" "sees buf pos (nbits n v)"
  shows "top_bits n (bs_accumulator bs) = v"
proof -
  have v: "v < 2 ^ 32" using assms(2,3) power_increasing [of n 32 "2::nat"] by linarith
  have "drop_bit (32 - n) (bs_accumulator bs) = word_of_nat v"
  proof (rule bit_word_eqI)
    fix i assume "i < LENGTH(32)"
    then have i: "i < 32" by simp
    show "bit (drop_bit (32 - n) (bs_accumulator bs)) i = bit (word_of_nat v :: uint32) i"
    proof (cases "i < n")
      case True
      have e1: "pos + 31 - (32 - n + i) = pos + (n - 1 - i)" using True assms(2) by simp
      have e2: "bit (bs_accumulator bs) (32 - n + i) = bitat buf (pos + 31 - (32 - n + i))"
        using assms(1,2) True unfolding bs_reads_def by simp
      have e3: "bitat buf (pos + (n - 1 - i)) = bit v i" using assms(4) [unfolded sees_def, rule_format, of "n - 1 - i"] True by simp
      have "bit (bs_accumulator bs) (32 - n + i) = bit v i" by (simp only: e2 e1 e3)
      then show ?thesis using i by (simp add: bit_drop_bit_eq bit_of_nat_iff)
    next
      case False
      have "\<not> bit (bs_accumulator bs) (32 - n + i)" using False assms(2) by (auto dest: bit_imp_le_length)
      moreover have "\<not> bit v i" using False assms(3) bits_small [of v n i] by simp
      ultimately show ?thesis by (simp add: bit_drop_bit_eq bit_of_nat_iff)
    qed
  qed
  then show ?thesis using v by (simp add: top_bits_def unat_of_nat take_bit_nat_eq_self)
qed

section \<open>Writing\<close>

text \<open>The bits \<open>bl\<close> have been written: whole words are in the buffer and the rest in the accumulator.\<close>

definition bs_writes :: "wBitStream \<Rightarrow> byte list \<Rightarrow> nat \<Rightarrow> bool list \<Rightarrow> bool" where
  "bs_writes bs buf cap bl \<longleftrightarrow> length (bs_buffer bs) = length buf \<and> bs_capacity bs = int cap
     \<and> bs_position bs = int (length bl) \<and> bs_offset bs = int (length bl mod 32) \<and> bs_pointer bs = int (4 * (length bl div 32))
     \<and> (\<forall>i < 32 * (length bl div 32). bitat (bs_buffer bs) i = bl ! i)
     \<and> (\<forall>i < 32. bit (bs_accumulator bs) (31 - i) = (i < length bl mod 32 \<and> bl ! (32 * (length bl div 32) + i)))"

lemma bs_store_ok:
  assumes "bs_pointer bs = int p" "bs_capacity bs = int cap" "p < cap + k" "k < 8" "cap \<le> 268435455"
    and "p + k < length (bs_buffer bs)"
  shows "bs_store (int k) b bs = Some (bs\<lparr>bs_buffer := (bs_buffer bs)[p + k := b]\<rparr>)"
proof -
  have "u32 (int p) = int p" "u32 (int cap + int k) = int cap + int k" using assms by (simp_all add: u32_def)
  moreover have "aset (bs_buffer bs) (int p + int k) b = Some ((bs_buffer bs)[p + k := b])"
    using assms(6) by (simp add: aset_def flip: of_nat_add)
  ultimately show ?thesis using assms(1-3) by (simp add: bs_store_def)
qed

lemma flush_ok:
  assumes "bs_pointer bs = int p" "bs_capacity bs = int cap" "p < cap" "cap \<le> 268435455" "p + 3 < length (bs_buffer bs)"
  shows "\<exists>buf. BitStream_Flush bs = Some (bs\<lparr>bs_buffer := buf\<rparr>) \<and> length buf = length (bs_buffer bs)
    \<and> (\<forall>i < 8 * p. bitat buf i = bitat (bs_buffer bs) i)
    \<and> (\<forall>i < 32. bitat buf (8 * p + 31 - i) = bit (bs_accumulator bs) i)"
proof -
  let ?a = "bs_accumulator bs"
  let ?buf = "(bs_buffer bs)[p := ucast (drop_bit 24 ?a), p + 1 := ucast (drop_bit 16 ?a), p + 2 := ucast (drop_bit 8 ?a), p + 3 := ucast ?a]"
  have st: "bs_store (int k) b (bs\<lparr>bs_buffer := x\<rparr>) = Some (bs\<lparr>bs_buffer := x[p + k := b]\<rparr>)"
    if "k < 4" "length x = length (bs_buffer bs)" for k b x
    using bs_store_ok [of "bs\<lparr>bs_buffer := x\<rparr>" p cap k b] assms that by simp
  have "bs_store 0 b bs = Some (bs\<lparr>bs_buffer := (bs_buffer bs)[p := b]\<rparr>)" for b
    using st [of 0 "bs_buffer bs"] by simp
  then have "BitStream_Flush bs = Some (bs\<lparr>bs_buffer := ?buf\<rparr>)"
    using st [of 1] st [of 2] st [of 3] by (simp add: BitStream_Flush_def Let_def)
  moreover have "bitat ?buf i = bitat (bs_buffer bs) i" if "i < 8 * p" for i
  proof -
    have "i div 8 < p" using that by (simp add: div_less_iff_less_mult mult.commute)
    then show ?thesis by (simp add: bitat_def)
  qed
  moreover have "bitat ?buf (8 * p + 31 - i) = bit ?a i" if "i < 32" for i
  proof -
    have w: "?buf ! p = ucast (drop_bit 24 ?a)" "?buf ! (p + 1) = ucast (drop_bit 16 ?a)" "?buf ! (p + 2) = ucast (drop_bit 8 ?a)"
      "?buf ! (p + 3) = ucast ?a" using assms(5) by (simp_all add: nth_list_update)
    show ?thesis unfolding bit_word_at [OF that, of ?buf p, symmetric] w bit_bytes [OF that]
      using that by (auto simp: bit_ucast_iff bit_drop_bit_eq)
  qed
  ultimately show ?thesis by auto
qed


lemma shl_back: "0 < k \<Longrightarrow> k < 32 \<Longrightarrow> shl x (32 - int k) = Some (push_bit (32 - k) x)"
  by (simp add: shl_def nat_diff_distrib)

lemma nth_append_nbits:
  "i < length bl + n \<Longrightarrow> (bl @ nbits n v) ! i = (if i < length bl then bl ! i else bit v (n - 1 - (i - length bl)))"
  by (simp add: nth_append)

lemma write_bits:
  assumes "bs_writes bs buf cap bl" "0 < n" "n < 31" "v < 2 ^ n" "length bl + n < 8 * cap" "cap \<le> 268435455" "cap + 3 \<le> length buf"
  shows "\<exists>bs'. BitStream_Write_Bits bs (of_nat v) (int n) = Some bs' \<and> bs_writes bs' buf cap (bl @ nbits n v)"
proof -
  let ?o = "length bl mod 32" and ?q = "length bl div 32" and ?acc = "bs_accumulator bs" and ?w = "of_nat v :: uint32"
  note r = assms(1) [unfolded bs_writes_def]
  have len: "length bl = 32 * ?q + ?o" by simp
  have o: "?o < 32" by simp
  have bw: "bit ?w i = (i < 32 \<and> bit v i)" for i by (auto simp: bit_of_nat_iff)
  have pos: "cint (int (length bl) + int n) = Some (int (length bl + n))" using assms(5,6) by (simp add: cint_def)
  have off: "u32 (int ?o + int n) = int (?o + n)" using o assms(3) by (simp add: u32_def)
  have dm: "(32 * q + x) mod 32 = x" "(32 * q + x) div 32 = q" if "x < 32" for q x :: nat using that by simp_all
  show ?thesis
  proof (cases "?o + n < 32")
    case True
    have ln: "length (bl @ nbits n v) = 32 * ?q + (?o + n)" using len by simp
    have m: "length (bl @ nbits n v) mod 32 = ?o + n" "length (bl @ nbits n v) div 32 = ?q"
      using dm [OF True, of ?q, folded ln] by simp_all
    let ?acc1 = "?acc OR push_bit (32 - (?o + n)) ?w"
    let ?bs1 = "bs\<lparr>bs_position := int (length bl + n), bs_offset := int (?o + n), bs_accumulator := ?acc1\<rparr>"
    have sh: "shl ?w (32 - int (?o + n)) = Some (push_bit (32 - (?o + n)) ?w)"
      using True assms(2) by (intro shl_back) simp_all
    have st: "BitStream_Write_Bits bs ?w (int n) = Some ?bs1"
      using r pos off sh True by (simp add: BitStream_Write_Bits_def)
    have "bit ?acc1 (31 - i) = (i < ?o + n \<and> (bl @ nbits n v) ! (32 * ?q + i))" if i: "i < 32" for i
    proof (cases "i < ?o + n")
      case False
      then have "bit ?acc (31 - i) = False" using r i by simp
      moreover have "\<not> 32 - (?o + n) \<le> 31 - i" using False True i by simp
      ultimately show ?thesis using False by (simp add: bit_simps)
    next
      case io: True
      then have "32 * ?q + i < length bl + n" using len by linarith
      note nth = nth_append_nbits [OF this, of v]
      have "bit (push_bit (32 - (?o + n)) ?w) (31 - i) = bit v (?o + n - 1 - i)"
      proof -
        have "31 - i - (32 - (?o + n)) = ?o + n - 1 - i" "32 - (?o + n) \<le> 31 - i"
          "31 - i < 32" "?o + n - Suc i < 32" using io True by simp_all
        then show ?thesis using bw True by (simp add: bit_push_bit_iff)
      qed
      show ?thesis
      proof (cases "i < ?o")
        case True
        have "\<not> bit v (?o + n - 1 - i)" using True bits_small [OF assms(4), of "?o + n - 1 - i"] by linarith
        moreover have "bit ?acc (31 - i) = bl ! (32 * ?q + i)" using r i True by simp
        moreover have "32 * ?q + i < length bl" using len True by linarith
        ultimately show ?thesis using io nth \<open>bit (push_bit _ _) _ = _\<close> by (simp add: bit_or_iff)
      next
        case False
        have "\<not> bit ?acc (31 - i)" using r i False by simp
        moreover have "\<not> 32 * ?q + i < length bl" "n - 1 - (32 * ?q + i - length bl) = ?o + n - 1 - i"
          using len False by linarith+
        ultimately show ?thesis using io nth \<open>bit (push_bit _ _) _ = _\<close> by (simp add: bit_or_iff)
      qed
    qed
    moreover have "bitat (bs_buffer bs) i = (bl @ nbits n v) ! i" if "i < 32 * ?q" for i
    proof -
      have "i < length bl" using that len by linarith
      with r that show ?thesis by (simp add: nth_append)
    qed
    ultimately have "bs_writes ?bs1 buf cap (bl @ nbits n v)"
      unfolding bs_writes_def m using r by simp
    with st show ?thesis by blast
  next
    case False
    obtain o2 where o2: "?o + n = 32 + o2" "o2 < 30" using False o assms(3) by (intro that [of "?o + n - 32"]) linarith+
    have k: "int n - int o2 = int (32 - ?o)" "32 - ?o < 31" "0 < 32 - ?o" using o2 o assms(3) by (auto simp: of_nat_diff)
    have "length (bl @ nbits n v) = 32 * ?q + (?o + n)" using len by simp
    then have ln: "length (bl @ nbits n v) = 32 * (?q + 1) + o2" unfolding o2(1) by simp
    have m: "length (bl @ nbits n v) mod 32 = o2" "length (bl @ nbits n v) div 32 = ?q + 1"
      using dm [of o2 "?q + 1", folded ln] o2(2) by simp_all
    have p: "4 * ?q < cap" using assms(5) len o2(1) by linarith
    have sh: "ones (int n - int o2) = Some (mask (32 - ?o))" "shr ?w (int o2) = Some (drop_bit o2 ?w)"
      "o2 \<noteq> 0 \<Longrightarrow> ones (int o2) = Some (mask o2)"
      "\<And>x. o2 \<noteq> 0 \<Longrightarrow> shl x (32 - int o2) = Some (push_bit (32 - o2) x)"
      unfolding k(1) using bit_ones [of "32 - ?o"] bit_ones [of o2] k(2,3) o2(2) by (simp_all add: shr_def shl_def nat_diff_distrib)
    let ?acc1 = "?acc OR (drop_bit o2 ?w AND mask (32 - ?o))"
    let ?bs1 = "bs\<lparr>bs_position := int (length bl + n), bs_offset := int o2, bs_mask := mask (32 - ?o), bs_accumulator := ?acc1\<rparr>"
    obtain buf1 where f: "BitStream_Flush ?bs1 = Some (?bs1\<lparr>bs_buffer := buf1\<rparr>)" "length buf1 = length buf"
      "\<forall>i < 8 * (4 * ?q). bitat buf1 i = bitat (bs_buffer bs) i" "\<forall>i < 32. bitat buf1 (8 * (4 * ?q) + 31 - i) = bit ?acc1 i"
      using flush_ok [of ?bs1 "4 * ?q" cap] r p assms(6,7) by auto
    let ?acc2 = "if o2 = 0 then 0 else push_bit (32 - o2) (?w AND mask o2)"
    have o32: "int (?o + n) - 32 = int o2" "\<not> int (?o + n) < 32" unfolding o2(1) by simp_all
    have "BitStream_Write_Bits bs ?w (int n) = (do {
        bs' \<leftarrow> BitStream_Flush ?bs1;
        let bs' = bs'\<lparr>bs_accumulator := 0, bs_pointer := bs_pointer bs' + 4\<rparr>;
        if int o2 \<noteq> 0 then do {
          mask \<leftarrow> ones (int o2);
          more \<leftarrow> shl (?w AND mask) (32 - int o2);
          Some (bs'\<lparr>bs_mask := mask, bs_accumulator := bs_accumulator bs' OR more\<rparr>) }
        else Some bs' })"
      using r pos off sh(1,2) o32 by (simp add: BitStream_Write_Bits_def Let_def)
    moreover define ms where "ms = (if o2 = 0 then mask (32 - ?o) else mask o2 :: uint32)"
    ultimately have st: "BitStream_Write_Bits bs ?w (int n) =
        Some (?bs1\<lparr>bs_buffer := buf1, bs_mask := ms, bs_accumulator := ?acc2, bs_pointer := int (4 * (?q + 1))\<rparr>)"
      using f(1) sh(3,4) r by (cases "o2 = 0") (simp_all add: Let_def add.commute)
    have acc1: "bit ?acc1 (31 - i) = (bl @ nbits n v) ! (32 * ?q + i)" if i: "i < 32" for i
    proof -
      have "32 * ?q + i < length bl + n" using len o2(1) i by linarith
      note nth = nth_append_nbits [OF this, of v]
      show ?thesis
      proof (cases "i < ?o")
        case True
        have "\<not> 31 - i < 32 - ?o" using True o by linarith
        then have "\<not> bit (drop_bit o2 ?w AND mask (32 - ?o)) (31 - i)" by (simp add: bit_and_iff bit_mask_iff)
        moreover have "bit ?acc (31 - i) = bl ! (32 * ?q + i)" using r i True by simp
        moreover have "32 * ?q + i < length bl" using len True by linarith
        ultimately show ?thesis using nth by (simp add: bit_or_iff)
      next
        case False
        have "\<not> bit ?acc (31 - i)" using r i False by simp
        moreover have "\<not> 32 * ?q + i < length bl" "n - 1 - (32 * ?q + i - length bl) = 31 - i + o2"
          using len False o2(1) i by linarith+
        moreover have "bit (drop_bit o2 ?w AND mask (32 - ?o)) (31 - i) = bit v (31 - i + o2)"
        proof -
          have "31 - i + o2 < 32 \<or> \<not> bit v (31 - i + o2)"
            using bits_small [of v n "31 - i + o2"] assms(3,4) by linarith
          then show ?thesis using False bw [of "31 - i + o2"] i by (auto simp: bit_simps add.commute)
        qed
        ultimately show ?thesis using nth by (simp add: bit_or_iff)
      qed
    qed
    have "bitat buf1 i = (bl @ nbits n v) ! i" if "i < 32 * (?q + 1)" for i
    proof (cases "i < 32 * ?q")
      case True
      then have "i < length bl" using len by linarith
      with True f(3) r show ?thesis by (simp add: nth_append)
    next
      case False
      define j where "j = 31 - (i - 32 * ?q)"
      have j: "j < 32" "8 * (4 * ?q) + 31 - j = i" "31 - (i - 32 * ?q) = j" "i - 32 * ?q < 32" "32 * ?q + (i - 32 * ?q) = i"
        using False that by (simp_all add: j_def)
      have "bitat buf1 i = bit ?acc1 j" using f(4) j(1) unfolding j(2) [symmetric] by blast
      also have "\<dots> = (bl @ nbits n v) ! i" using acc1 [OF j(4)] unfolding j(3,5) .
      finally show ?thesis .
    qed
    moreover have "bit ?acc2 (31 - i) = (i < o2 \<and> (bl @ nbits n v) ! (32 * (?q + 1) + i))" if i: "i < 32" for i
    proof (cases "i < o2")
      case True
      have lt: "32 * (?q + 1) + i < length bl + n" using ln True by simp
      have "L = 32 * q + r \<Longrightarrow> r < 32 \<Longrightarrow> r + n = 32 + o2 \<Longrightarrow>
        32 * (q + 1) + i = L + (32 - r + i) \<and> n - 1 - (32 - r + i) = o2 - 1 - i" for L q r :: nat by auto
      from this [OF len o o2(1)] have e: "32 * (?q + 1) + i = length bl + (32 - ?o + i)" "n - 1 - (32 - ?o + i) = o2 - 1 - i" by blast+
      have "\<not> 32 * (?q + 1) + i < length bl" "n - 1 - (32 * (?q + 1) + i - length bl) = o2 - 1 - i" "o2 - 1 - i < 32"
        unfolding e(1) using o2(2) e(2) by simp_all
      moreover have "31 - i - (32 - o2) = o2 - 1 - i" "32 - o2 \<le> 31 - i" "o2 - 1 - i < o2" "31 - i < 32" using True o2(2) by simp_all
      ultimately show ?thesis using nth_append_nbits [OF lt, of v] True bw by (simp add: bit_push_bit_iff bit_and_iff bit_mask_iff)
    next
      case False
      then have "\<not> 32 - o2 \<le> 31 - i" using o2(2) i by linarith
      with False show ?thesis by (simp add: bit_push_bit_iff bit_and_iff)
    qed
    ultimately have "bs_writes (?bs1\<lparr>bs_buffer := buf1, bs_mask := ms, bs_accumulator := ?acc2, bs_pointer := int (4 * (?q + 1))\<rparr>)
        buf cap (bl @ nbits n v)"
      unfolding bs_writes_def m using r f(2) by simp
    with st show ?thesis by blast
  qed
qed

lemma attach_writes:
  assumes "0 < cap" "cap \<le> 268435455"
  shows "\<exists>bs'. BitStream_Attach bs buf (int cap) = Some bs' \<and> bs_writes bs' buf cap []"
  using assms by (simp add: BitStream_Attach_def cint_def bs_writes_def)

text \<open>After the final flush all bits are in the buffer.\<close>

lemma flush_writes:
  assumes "bs_writes bs buf cap bl" "length bl < 8 * cap" "cap \<le> 268435455" "cap + 3 \<le> length buf"
  shows "\<exists>buf'. BitStream_Flush bs = Some (bs\<lparr>bs_buffer := buf'\<rparr>) \<and> length buf' = length buf \<and> sees buf' 0 bl"
proof -
  let ?o = "length bl mod 32" and ?q = "length bl div 32"
  note r = assms(1) [unfolded bs_writes_def]
  have len: "length bl = 32 * ?q + ?o" by simp
  have p: "4 * ?q < cap" using assms(2) len by linarith
  obtain buf1 where f: "BitStream_Flush bs = Some (bs\<lparr>bs_buffer := buf1\<rparr>)" "length buf1 = length buf"
    "\<forall>i < 8 * (4 * ?q). bitat buf1 i = bitat (bs_buffer bs) i"
    "\<forall>i < 32. bitat buf1 (8 * (4 * ?q) + 31 - i) = bit (bs_accumulator bs) i"
    using flush_ok [of bs "4 * ?q" cap] r p assms(3,4) by auto
  have "bitat buf1 i = bl ! i" if "i < length bl" for i
  proof (cases "i < 32 * ?q")
    case True
    with f(3) r show ?thesis by simp
  next
    case False
    define j where "j = i - 32 * ?q"
    have "32 * ?q + j = i" using False by (simp add: j_def)
    moreover from this have "j < ?o" using that len by linarith
    moreover have "?o < 32" by simp
    ultimately have j: "j < ?o" "j < 32" "32 * ?q + j = i" "8 * (4 * ?q) + 31 - (31 - j) = i" by linarith+
    have "bitat buf1 i = bit (bs_accumulator bs) (31 - j)" using f(4) [rule_format, of "31 - j"] unfolding j(4) by simp
    also have "\<dots> = bl ! i" using r j(1,2) unfolding j(3) [symmetric] by simp
    finally show ?thesis .
  qed
  with f(1,2) show ?thesis by (intro exI [of _ buf1]) (simp add: sees_def)
qed

end
