(* ===== verification/WMppc.thy ===== *)
theory WMppc
  imports WBitStream
begin

text \<open>
  The bulk compressor of \<open>libfreerdp/codec/mppc.c\<close>: RDP 4 with a history of 8 kB (level 0) and RDP 5 with
  64 kB (level 1). The pointers into \<open>HistoryBuffer\<close> and the source are indices. \<open>before\<close> is the byte of the
  context in front of \<open>HistoryBuffer\<close>, which the compressor reads for a match index of 0.
\<close>

section \<open>State\<close>

record MPPC_CONTEXT =
  mp_bs :: wBitStream
  mp_Compressor :: bool
  mp_HistoryPtr :: int
  mp_HistoryOffset :: int
  mp_HistoryBufferSize :: int
  mp_HistoryBuffer :: "byte list"
  mp_MatchBuffer :: "16 word list"
  mp_CompressionLevel :: int

abbreviation (input) PACKET_COMPRESSED :: int where "PACKET_COMPRESSED \<equiv> 0x20"
abbreviation (input) PACKET_AT_FRONT :: int where "PACKET_AT_FRONT \<equiv> 0x40"
abbreviation (input) PACKET_FLUSHED :: int where "PACKET_FLUSHED \<equiv> 0x80"

definition MPPC_MATCH_TABLE :: "uint32 list" where
  "MPPC_MATCH_TABLE =
    [0x00000000, 0x009CCF93, 0x01399F26, 0x01D66EB9, 0x02733E4C, 0x03100DDF, 0x03ACDD72, 0x0449AD05,
     0x04E67C98, 0x05834C2B, 0x06201BBE, 0x06BCEB51, 0x0759BAE4, 0x07F68A77, 0x08935A0A, 0x0930299D,
     0x09CCF930, 0x0A69C8C3, 0x0B069856, 0x0BA367E9, 0x0C40377C, 0x0CDD070F, 0x0D79D6A2, 0x0E16A635,
     0x0EB375C8, 0x0F50455B, 0x0FED14EE, 0x1089E481, 0x1126B414, 0x11C383A7, 0x1260533A, 0x12FD22CD,
     0x1399F260, 0x1436C1F3, 0x14D39186, 0x15706119, 0x160D30AC, 0x16AA003F, 0x1746CFD2, 0x17E39F65,
     0x18806EF8, 0x191D3E8B, 0x19BA0E1E, 0x1A56DDB1, 0x1AF3AD44, 0x1B907CD7, 0x1C2D4C6A, 0x1CCA1BFD,
     0x1D66EB90, 0x1E03BB23, 0x1EA08AB6, 0x1F3D5A49, 0x1FDA29DC, 0x2076F96F, 0x2113C902, 0x21B09895,
     0x224D6828, 0x22EA37BB, 0x2387074E, 0x2423D6E1, 0x24C0A674, 0x255D7607, 0x25FA459A, 0x2697152D,
     0x2733E4C0, 0x27D0B453, 0x286D83E6, 0x290A5379, 0x29A7230C, 0x2A43F29F, 0x2AE0C232, 0x2B7D91C5,
     0x2C1A6158, 0x2CB730EB, 0x2D54007E, 0x2DF0D011, 0x2E8D9FA4, 0x2F2A6F37, 0x2FC73ECA, 0x30640E5D,
     0x3100DDF0, 0x319DAD83, 0x323A7D16, 0x32D74CA9, 0x33741C3C, 0x3410EBCF, 0x34ADBB62, 0x354A8AF5,
     0x35E75A88, 0x36842A1B, 0x3720F9AE, 0x37BDC941, 0x385A98D4, 0x38F76867, 0x399437FA, 0x3A31078D,
     0x3ACDD720, 0x3B6AA6B3, 0x3C077646, 0x3CA445D9, 0x3D41156C, 0x3DDDE4FF, 0x3E7AB492, 0x3F178425,
     0x3FB453B8, 0x4051234B, 0x40EDF2DE, 0x418AC271, 0x42279204, 0x42C46197, 0x4361312A, 0x43FE00BD,
     0x449AD050, 0x45379FE3, 0x45D46F76, 0x46713F09, 0x470E0E9C, 0x47AADE2F, 0x4847ADC2, 0x48E47D55,
     0x49814CE8, 0x4A1E1C7B, 0x4ABAEC0E, 0x4B57BBA1, 0x4BF48B34, 0x4C915AC7, 0x4D2E2A5A, 0x4DCAF9ED,
     0x4E67C980, 0x4F049913, 0x4FA168A6, 0x503E3839, 0x50DB07CC, 0x5177D75F, 0x5214A6F2, 0x52B17685,
     0x534E4618, 0x53EB15AB, 0x5487E53E, 0x5524B4D1, 0x55C18464, 0x565E53F7, 0x56FB238A, 0x5797F31D,
     0x5834C2B0, 0x58D19243, 0x596E61D6, 0x5A0B3169, 0x5AA800FC, 0x5B44D08F, 0x5BE1A022, 0x5C7E6FB5,
     0x5D1B3F48, 0x5DB80EDB, 0x5E54DE6E, 0x5EF1AE01, 0x5F8E7D94, 0x602B4D27, 0x60C81CBA, 0x6164EC4D,
     0x6201BBE0, 0x629E8B73, 0x633B5B06, 0x63D82A99, 0x6474FA2C, 0x6511C9BF, 0x65AE9952, 0x664B68E5,
     0x66E83878, 0x6785080B, 0x6821D79E, 0x68BEA731, 0x695B76C4, 0x69F84657, 0x6A9515EA, 0x6B31E57D,
     0x6BCEB510, 0x6C6B84A3, 0x6D085436, 0x6DA523C9, 0x6E41F35C, 0x6EDEC2EF, 0x6F7B9282, 0x70186215,
     0x70B531A8, 0x7152013B, 0x71EED0CE, 0x728BA061, 0x73286FF4, 0x73C53F87, 0x74620F1A, 0x74FEDEAD,
     0x759BAE40, 0x76387DD3, 0x76D54D66, 0x77721CF9, 0x780EEC8C, 0x78ABBC1F, 0x79488BB2, 0x79E55B45,
     0x7A822AD8, 0x7B1EFA6B, 0x7BBBC9FE, 0x7C589991, 0x7CF56924, 0x7D9238B7, 0x7E2F084A, 0x7ECBD7DD,
     0x7F68A770, 0x80057703, 0x80A24696, 0x813F1629, 0x81DBE5BC, 0x8278B54F, 0x831584E2, 0x83B25475,
     0x844F2408, 0x84EBF39B, 0x8588C32E, 0x862592C1, 0x86C26254, 0x875F31E7, 0x87FC017A, 0x8898D10D,
     0x8935A0A0, 0x89D27033, 0x8A6F3FC6, 0x8B0C0F59, 0x8BA8DEEC, 0x8C45AE7F, 0x8CE27E12, 0x8D7F4DA5,
     0x8E1C1D38, 0x8EB8ECCB, 0x8F55BC5E, 0x8FF28BF1, 0x908F5B84, 0x912C2B17, 0x91C8FAAA, 0x9265CA3D,
     0x930299D0, 0x939F6963, 0x943C38F6, 0x94D90889, 0x9575D81C, 0x9612A7AF, 0x96AF7742, 0x974C46D5,
     0x97E91668, 0x9885E5FB, 0x9922B58E, 0x99BF8521, 0x9A5C54B4, 0x9AF92447, 0x9B95F3DA, 0x9C32C36D]"

definition MPPC_MATCH_INDEX :: "byte \<Rightarrow> byte \<Rightarrow> byte \<Rightarrow> uint32" where
  "MPPC_MATCH_INDEX sym1 sym2 sym3 =
     drop_bit 12 ((push_bit 16 (MPPC_MATCH_TABLE ! unat sym3) + push_bit 8 (MPPC_MATCH_TABLE ! unat sym2)
       + MPPC_MATCH_TABLE ! unat sym1) AND 0x07FFF000)"

section \<open>Decompression\<close>

text \<open>The offset of a match: \<open>Inl\<close> is the status of an error return.\<close>

definition mppc_read_offset :: "int \<Rightarrow> wBitStream \<Rightarrow> (int + (int \<times> wBitStream)) option" where
  "mppc_read_offset level bs =
     (let acc = bs_accumulator bs in
      if level \<noteq> 0 then
        if acc AND 0xF8000000 = 0xF8000000 then do {
          bs \<leftarrow> BitStream_Shift bs 11; Some (Inr (uint (drop_bit 21 acc AND 0x3F), bs)) }
        else if acc AND 0xF8000000 = 0xF0000000 then do {
          bs \<leftarrow> BitStream_Shift bs 13; Some (Inr (uint (drop_bit 19 acc AND 0xFF) + 64, bs)) }
        else if acc AND 0xF0000000 = 0xE0000000 then do {
          bs \<leftarrow> BitStream_Shift bs 15; Some (Inr (uint (drop_bit 17 acc AND 0x7FF) + 320, bs)) }
        else if acc AND 0xE0000000 = 0xC0000000 then do {
          bs \<leftarrow> BitStream_Shift bs 19; Some (Inr (uint (drop_bit 13 acc AND 0xFFFF) + 2368, bs)) }
        else Some (Inl (- 1001))
      else
        if acc AND 0xF0000000 = 0xF0000000 then do {
          bs \<leftarrow> BitStream_Shift bs 10; Some (Inr (uint (drop_bit 22 acc AND 0x3F), bs)) }
        else if acc AND 0xF0000000 = 0xE0000000 then do {
          bs \<leftarrow> BitStream_Shift bs 12; Some (Inr (uint (drop_bit 20 acc AND 0xFF) + 64, bs)) }
        else if acc AND 0xE0000000 = 0xC0000000 then do {
          bs \<leftarrow> BitStream_Shift bs 16; Some (Inr (uint (drop_bit 16 acc AND 0x1FFF) + 320, bs)) }
        else Some (Inl (- 1002)))"

definition mppc_read_length :: "int \<Rightarrow> wBitStream \<Rightarrow> (int + (int \<times> wBitStream)) option" where
  "mppc_read_length level bs =
     (let acc = bs_accumulator bs in
      if acc AND 0x80000000 = 0 then do { bs \<leftarrow> BitStream_Shift bs 1; Some (Inr (3, bs)) }
      else if acc AND 0xC0000000 = 0x80000000 then do {
        bs \<leftarrow> BitStream_Shift bs 4;
        Some (Inr (uint (drop_bit 28 acc AND 0x0003) + 0x0004, bs)) }
      else if acc AND 0xE0000000 = 0xC0000000 then do {
        bs \<leftarrow> BitStream_Shift bs 6;
        Some (Inr (uint (drop_bit 26 acc AND 0x0007) + 0x0008, bs)) }
      else if acc AND 0xF0000000 = 0xE0000000 then do {
        bs \<leftarrow> BitStream_Shift bs 8;
        Some (Inr (uint (drop_bit 24 acc AND 0x000F) + 0x0010, bs)) }
      else if acc AND 0xF8000000 = 0xF0000000 then do {
        bs \<leftarrow> BitStream_Shift bs 10;
        Some (Inr (uint (drop_bit 22 acc AND 0x001F) + 0x0020, bs)) }
      else if acc AND 0xFC000000 = 0xF8000000 then do {
        bs \<leftarrow> BitStream_Shift bs 12;
        Some (Inr (uint (drop_bit 20 acc AND 0x003F) + 0x0040, bs)) }
      else if acc AND 0xFE000000 = 0xFC000000 then do {
        bs \<leftarrow> BitStream_Shift bs 14;
        Some (Inr (uint (drop_bit 18 acc AND 0x007F) + 0x0080, bs)) }
      else if acc AND 0xFF000000 = 0xFE000000 then do {
        bs \<leftarrow> BitStream_Shift bs 16;
        Some (Inr (uint (drop_bit 16 acc AND 0x00FF) + 0x0100, bs)) }
      else if acc AND 0xFF800000 = 0xFF000000 then do {
        bs \<leftarrow> BitStream_Shift bs 18;
        Some (Inr (uint (drop_bit 14 acc AND 0x01FF) + 0x0200, bs)) }
      else if acc AND 0xFFC00000 = 0xFF800000 then do {
        bs \<leftarrow> BitStream_Shift bs 20;
        Some (Inr (uint (drop_bit 12 acc AND 0x03FF) + 0x0400, bs)) }
      else if acc AND 0xFFE00000 = 0xFFC00000 then do {
        bs \<leftarrow> BitStream_Shift bs 22;
        Some (Inr (uint (drop_bit 10 acc AND 0x07FF) + 0x0800, bs)) }
      else if acc AND 0xFFF00000 = 0xFFE00000 then do {
        bs \<leftarrow> BitStream_Shift bs 24;
        Some (Inr (uint (drop_bit 8 acc AND 0x0FFF) + 0x1000, bs)) }
      else if acc AND 0xFFF80000 = 0xFFF00000 \<and> level \<noteq> 0 then do {
        bs \<leftarrow> BitStream_Shift bs 26;
        Some (Inr (uint (drop_bit 6 acc AND 0x1FFF) + 0x2000, bs)) }
      else if acc AND 0xFFFC0000 = 0xFFF80000 \<and> level \<noteq> 0 then do {
        bs \<leftarrow> BitStream_Shift bs 28;
        Some (Inr (uint (drop_bit 4 acc AND 0x3FFF) + 0x4000, bs)) }
      else if acc AND 0xFFFE0000 = 0xFFFC0000 \<and> level \<noteq> 0 then do {
        bs \<leftarrow> BitStream_Shift bs 30;
        Some (Inr (uint (drop_bit 2 acc AND 0x7FFF) + 0x8000, bs)) }
      else Some (Inl (- 1003)))"

text \<open>\<open>do *HistoryPtr++ = *SrcPtr++; while (--LengthOfMatch)\<close>; the two ranges may overlap.\<close>

fun mppc_copy :: "byte list \<Rightarrow> int \<Rightarrow> int \<Rightarrow> nat \<Rightarrow> byte list option" where
  "mppc_copy h dst src 0 = Some h"
| "mppc_copy h dst src (Suc n) = do { b \<leftarrow> aget h src; h \<leftarrow> aset h dst b; mppc_copy h (dst + 1) (src + 1) n }"

text \<open>The loop over the codes: the status, the bit stream, the history and its pointer.\<close>

partial_function (option) mppc_decompress_loop ::
    "int \<Rightarrow> int \<Rightarrow> wBitStream \<Rightarrow> byte list \<Rightarrow> int \<Rightarrow> (int \<times> wBitStream \<times> byte list \<times> int) option" where
  "mppc_decompress_loop level sz bs h hp =
     (if 8 \<le> bs_length bs - bs_position bs then
        (let acc = bs_accumulator bs in
         if sz - 1 < hp then Some (- 1004, bs, h, hp)
         else if acc AND 0x80000000 = 0 then do {
           h \<leftarrow> aset h hp (ucast (drop_bit 24 (acc AND 0x7F000000)));
           bs \<leftarrow> BitStream_Shift bs 8;
           mppc_decompress_loop level sz bs h (hp + 1) }
         else if acc AND 0xC0000000 = 0x80000000 then do {
           h \<leftarrow> aset h hp (ucast (drop_bit 23 (acc AND 0x3F800000) + 0x80));
           bs \<leftarrow> BitStream_Shift bs 9;
           mppc_decompress_loop level sz bs h (hp + 1) }
         else (case mppc_read_offset level bs of
             None \<Rightarrow> None
           | Some (Inl status) \<Rightarrow> Some (status, bs, h, hp)
           | Some (Inr (CopyOffset, bs)) \<Rightarrow>
               (case mppc_read_length level bs of
                  None \<Rightarrow> None
                | Some (Inl status) \<Rightarrow> Some (status, bs, h, hp)
                | Some (Inr (LengthOfMatch, bs)) \<Rightarrow>
                    if sz - 1 < hp + LengthOfMatch - 1 then Some (- 1005, bs, h, hp)
                    else do {
                      h \<leftarrow> mppc_copy h hp ((hp - CopyOffset) AND (if level \<noteq> 0 then 0xFFFF else 0x1FFF)) (nat LengthOfMatch);
                      mppc_decompress_loop level sz bs h (hp + LengthOfMatch) })))
      else Some (1, bs, h, hp))"

text \<open>The status, the bytes at \<open>*ppDstData\<close> unless it failed, and the context.\<close>

definition mppc_decompress :: "MPPC_CONTEXT \<Rightarrow> byte list \<Rightarrow> int \<Rightarrow> int \<Rightarrow> (int \<times> byte list option \<times> MPPC_CONTEXT) option" where
  "mppc_decompress mppc pSrcData SrcSize flags = do {
     bs \<leftarrow> BitStream_Attach (mp_bs mppc) pSrcData SrcSize;
     bs \<leftarrow> BitStream_Fetch bs;
     let mppc = mppc\<lparr>mp_bs := bs\<rparr>;
     let mppc = (if flags AND PACKET_AT_FRONT \<noteq> 0 then mppc\<lparr>mp_HistoryOffset := 0, mp_HistoryPtr := 0\<rparr> else mppc);
     mppc \<leftarrow> (if flags AND PACKET_FLUSHED \<noteq> 0 then do {
         h \<leftarrow> afill (mp_HistoryBuffer mppc) 0 (mp_HistoryBufferSize mppc) 0;
         Some (mppc\<lparr>mp_HistoryOffset := 0, mp_HistoryPtr := 0, mp_HistoryBuffer := h\<rparr>) }
       else Some mppc);
     if flags AND PACKET_COMPRESSED = 0 then do {
       data \<leftarrow> ablock pSrcData 0 SrcSize;
       Some (1, Some data, mppc) }
     else do {
       (status, bs, h, hp) \<leftarrow> mppc_decompress_loop (mp_CompressionLevel mppc) (mp_HistoryBufferSize mppc) bs
         (mp_HistoryBuffer mppc) (mp_HistoryPtr mppc);
       let mppc = mppc\<lparr>mp_bs := bs, mp_HistoryBuffer := h\<rparr>;
       if status < 0 then Some (status, None, mppc)
       else do {
         data \<leftarrow> ablock h (mp_HistoryPtr mppc) (hp - mp_HistoryPtr mppc);
         Some (1, Some data, mppc\<lparr>mp_HistoryPtr := hp\<rparr>) } } }"

section \<open>Compression\<close>

definition mppc_write_literal :: "wBitStream \<Rightarrow> byte \<Rightarrow> wBitStream option" where
  "mppc_write_literal bs ch =
     (let acc = uint ch in
      if acc < 0x80 then BitStream_Write_Bits bs (word_of_int acc) 8
      else BitStream_Write_Bits bs (word_of_int (0x100 OR (acc AND 0x7F))) 9)"

definition mppc_write_offset :: "int \<Rightarrow> wBitStream \<Rightarrow> int \<Rightarrow> wBitStream option" where
  "mppc_write_offset level bs CopyOffset =
     (if level \<noteq> 0 then
        if CopyOffset < 64 then BitStream_Write_Bits bs (word_of_int (0x07C0 OR (CopyOffset AND 0x003F))) 11
        else if 64 \<le> CopyOffset \<and> CopyOffset < 320 then
          BitStream_Write_Bits bs (word_of_int (0x1E00 OR ((CopyOffset - 64) AND 0x00FF))) 13
        else if 320 \<le> CopyOffset \<and> CopyOffset < 2368 then
          BitStream_Write_Bits bs (word_of_int (0x7000 OR ((CopyOffset - 320) AND 0x07FF))) 15
        else BitStream_Write_Bits bs (word_of_int (0x060000 OR ((CopyOffset - 2368) AND 0xFFFF))) 19
      else
        if CopyOffset < 64 then BitStream_Write_Bits bs (word_of_int (0x03C0 OR (CopyOffset AND 0x003F))) 10
        else if 64 \<le> CopyOffset \<and> CopyOffset < 320 then
          BitStream_Write_Bits bs (word_of_int (0x0E00 OR ((CopyOffset - 64) AND 0x00FF))) 12
        else if 320 \<le> CopyOffset \<and> CopyOffset < 8192 then
          BitStream_Write_Bits bs (word_of_int (0xC000 OR ((CopyOffset - 320) AND 0x1FFF))) 16
        else Some bs)"

definition mppc_write_length :: "int \<Rightarrow> wBitStream \<Rightarrow> int \<Rightarrow> wBitStream option" where
  "mppc_write_length level bs len =
     (if len = 3 then BitStream_Write_Bits bs 0 1
      else if 0x4 \<le> len \<and> len < 0x8 then BitStream_Write_Bits bs (word_of_int (0x0008 OR (len AND 0x0003))) 4
      else if 0x8 \<le> len \<and> len < 0x10 then BitStream_Write_Bits bs (word_of_int (0x0030 OR (len AND 0x0007))) 6
      else if 0x10 \<le> len \<and> len < 0x20 then BitStream_Write_Bits bs (word_of_int (0x00E0 OR (len AND 0x000F))) 8
      else if 0x20 \<le> len \<and> len < 0x40 then BitStream_Write_Bits bs (word_of_int (0x03C0 OR (len AND 0x001F))) 10
      else if 0x40 \<le> len \<and> len < 0x80 then BitStream_Write_Bits bs (word_of_int (0x0F80 OR (len AND 0x003F))) 12
      else if 0x80 \<le> len \<and> len < 0x100 then BitStream_Write_Bits bs (word_of_int (0x3F00 OR (len AND 0x007F))) 14
      else if 0x100 \<le> len \<and> len < 0x200 then BitStream_Write_Bits bs (word_of_int (0xFE00 OR (len AND 0x00FF))) 16
      else if 0x200 \<le> len \<and> len < 0x400 then BitStream_Write_Bits bs (word_of_int (0x3FC00 OR (len AND 0x01FF))) 18
      else if 0x400 \<le> len \<and> len < 0x800 then BitStream_Write_Bits bs (word_of_int (0xFF800 OR (len AND 0x03FF))) 20
      else if 0x800 \<le> len \<and> len < 0x1000 then BitStream_Write_Bits bs (word_of_int (0x3FF000 OR (len AND 0x07FF))) 22
      else if 0x1000 \<le> len \<and> len < 0x2000 then BitStream_Write_Bits bs (word_of_int (0xFFE000 OR (len AND 0x0FFF))) 24
      else if 0x2000 \<le> len \<and> len < 0x4000 \<and> level \<noteq> 0 then BitStream_Write_Bits bs (word_of_int (0x3FFC000 OR (len AND 0x1FFF))) 26
      else if 0x4000 \<le> len \<and> len < 0x8000 \<and> level \<noteq> 0 then BitStream_Write_Bits bs (word_of_int (0xFFF8000 OR (len AND 0x3FFF))) 28
      else if 0x8000 \<le> len \<and> len < 0x10000 \<and> level \<noteq> 0 then BitStream_Write_Bits bs (word_of_int (0x3FFF0000 OR (len AND 0x7FFF))) 30
      else Some bs)"

text \<open>The bytes at and behind the match pointer, read as far as the condition needs them.\<close>

definition mppc_no_match :: "byte \<Rightarrow> byte list \<Rightarrow> int \<Rightarrow> int \<Rightarrow> int \<Rightarrow> byte \<Rightarrow> byte \<Rightarrow> byte \<Rightarrow> bool option" where
  "mppc_no_match before h M hp mhp sym1 sym2 sym3 = do {
     a \<leftarrow> (if M = 0 then Some before else aget h (M - 1));
     if sym1 \<noteq> a then Some True
     else do {
       b \<leftarrow> aget h M;
       if sym2 \<noteq> b then Some True
       else do {
         c \<leftarrow> aget h (M + 1);
         Some (sym3 \<noteq> c \<or> mhp < M + 1 \<or> M = 0 \<or> M = hp - 1 \<or> M = hp) } } }"

text \<open>A match grows while the bytes agree: the source index, the history, its pointer and the length.\<close>

partial_function (option) mppc_extend ::
    "byte list \<Rightarrow> int \<Rightarrow> int \<Rightarrow> int \<Rightarrow> int \<Rightarrow> byte list \<Rightarrow> int \<Rightarrow> int \<Rightarrow> (int \<times> byte list \<times> int \<times> int) option" where
  "mppc_extend src pend mhp p M h hp len = do {
     a \<leftarrow> aget src p;
     b \<leftarrow> aget h M;
     if a = b \<and> p < pend \<and> M \<le> mhp then do {
       h \<leftarrow> aset h hp a;
       mppc_extend src pend mhp (p + 1) (M + 1) h (hp + 1) (len + 1) }
     else Some (p, h, hp, len) }"

text \<open>Whether the output has no room for \<open>k\<close> bytes more.\<close>

definition mppc_full :: "int \<Rightarrow> int \<Rightarrow> wBitStream \<Rightarrow> bool" where
  "mppc_full DstSize k bs \<longleftrightarrow> u32 (DstSize - 1) < u32 (bs_position bs div 8 + k)"

text \<open>The first loop of \<open>mppc_compress\<close>; \<open>False\<close> when the output is full.\<close>

partial_function (option) mppc_compress_loop ::
    "byte \<Rightarrow> byte list \<Rightarrow> int \<Rightarrow> int \<Rightarrow> MPPC_CONTEXT \<Rightarrow> int \<Rightarrow> int \<Rightarrow> (bool \<times> MPPC_CONTEXT \<times> int \<times> int) option" where
  "mppc_compress_loop before src SrcSize DstSize mppc p hp =
     (if p < SrcSize - 1 - 2 then do {
        sym1 \<leftarrow> aget src p;
        sym2 \<leftarrow> aget src (p + 1);
        sym3 \<leftarrow> aget src (p + 2);
        h \<leftarrow> aset (mp_HistoryBuffer mppc) hp sym1;
        let hp = hp + 1;
        let p = p + 1;
        let MatchIndex = uint (MPPC_MATCH_INDEX sym1 sym2 sym3);
        m \<leftarrow> aget (mp_MatchBuffer mppc) MatchIndex;
        let M = uint m;
        mb \<leftarrow> (if M \<noteq> hp - 1 then aset (mp_MatchBuffer mppc) MatchIndex (word_of_int hp) else Some (mp_MatchBuffer mppc));
        let mhp = (if mp_HistoryPtr mppc < hp then hp else mp_HistoryPtr mppc);
        let mppc = mppc\<lparr>mp_HistoryBuffer := h, mp_MatchBuffer := mb, mp_HistoryPtr := mhp\<rparr>;
        literal \<leftarrow> mppc_no_match before h M hp mhp sym1 sym2 sym3;
        if literal then
          if mppc_full DstSize 2 (mp_bs mppc) then Some (False, mppc, p, hp)
          else do {
            bs \<leftarrow> mppc_write_literal (mp_bs mppc) sym1;
            mppc_compress_loop before src SrcSize DstSize (mppc\<lparr>mp_bs := bs\<rparr>) p hp }
        else do {
          let CopyOffset = (mp_HistoryBufferSize mppc - 1) AND (hp - M);
          h \<leftarrow> aset h hp sym2;
          h \<leftarrow> aset h (hp + 1) sym3;
          (p, h, hp, LengthOfMatch) \<leftarrow> mppc_extend src (SrcSize - 1) mhp (p + 2) (M + 2) h (hp + 2) 3;
          let mppc = mppc\<lparr>mp_HistoryBuffer := h\<rparr>;
          if mppc_full DstSize 7 (mp_bs mppc) then Some (False, mppc, p, hp)
          else do {
            bs \<leftarrow> mppc_write_offset (mp_CompressionLevel mppc) (mp_bs mppc) CopyOffset;
            bs \<leftarrow> mppc_write_length (mp_CompressionLevel mppc) bs LengthOfMatch;
            mppc_compress_loop before src SrcSize DstSize (mppc\<lparr>mp_bs := bs\<rparr>) p hp } } }
      else Some (True, mppc, p, hp))"

text \<open>The trailing symbols are literals.\<close>

partial_function (option) mppc_compress_tail ::
    "byte list \<Rightarrow> int \<Rightarrow> int \<Rightarrow> MPPC_CONTEXT \<Rightarrow> int \<Rightarrow> int \<Rightarrow> (bool \<times> MPPC_CONTEXT \<times> int \<times> int) option" where
  "mppc_compress_tail src SrcSize DstSize mppc p hp =
     (if p \<le> SrcSize - 1 then
        if mppc_full DstSize 2 (mp_bs mppc) then Some (False, mppc, p, hp)
        else do {
          ch \<leftarrow> aget src p;
          bs \<leftarrow> mppc_write_literal (mp_bs mppc) ch;
          h \<leftarrow> aset (mp_HistoryBuffer mppc) hp ch;
          mppc_compress_tail src SrcSize DstSize (mppc\<lparr>mp_bs := bs, mp_HistoryBuffer := h\<rparr>) (p + 1) (hp + 1) }
      else Some (True, mppc, p, hp))"

definition mppc_context_reset :: "MPPC_CONTEXT \<Rightarrow> bool \<Rightarrow> MPPC_CONTEXT" where
  "mppc_context_reset mppc flush =
     (let offset = (if flush then mp_HistoryBufferSize mppc + 1 else 0)
      in mppc\<lparr>mp_HistoryBuffer := replicate (length (mp_HistoryBuffer mppc)) 0,
           mp_MatchBuffer := replicate (length (mp_MatchBuffer mppc)) 0,
           mp_HistoryOffset := offset, mp_HistoryPtr := offset\<rparr>)"

text \<open>What is returned when the output is full: the source itself.\<close>

definition mppc_give_up :: "byte list \<Rightarrow> int \<Rightarrow> MPPC_CONTEXT \<Rightarrow> (int \<times> byte list option \<times> int \<times> MPPC_CONTEXT) option" where
  "mppc_give_up src SrcSize mppc = do {
     data \<leftarrow> ablock src 0 SrcSize;
     Some (1, Some data, PACKET_FLUSHED OR mp_CompressionLevel mppc, mppc_context_reset mppc True) }"

text \<open>The status, the bytes at \<open>*ppDstData\<close>, the flags and the context; \<open>dst\<close> is the memory at \<open>*ppDstData\<close> before.\<close>

definition mppc_compress :: "byte \<Rightarrow> MPPC_CONTEXT \<Rightarrow> byte list \<Rightarrow> int \<Rightarrow> byte list option \<Rightarrow> int \<Rightarrow>
    (int \<times> byte list option \<times> int \<times> MPPC_CONTEXT) option" where
  "mppc_compress before mppc src SrcSize dst DstSize =
     (let front = \<not> (u32 (mp_HistoryOffset mppc + SrcSize) < mp_HistoryBufferSize mppc - 3 \<and> mp_HistoryOffset mppc \<noteq> 0);
          flushed = (front \<and> mp_HistoryOffset mppc = mp_HistoryBufferSize mppc + 1);
          hp = (if front then 0 else mp_HistoryOffset mppc)
      in case dst of
        None \<Rightarrow> Some (- 1, None, 0, mppc)
      | Some pDstData \<Rightarrow> do {
          let DstSize = (if SrcSize < DstSize then SrcSize else DstSize);
          bs \<leftarrow> BitStream_Attach (mp_bs mppc) pDstData DstSize;
          (ok, mppc, p, hp) \<leftarrow> mppc_compress_loop before src SrcSize DstSize (mppc\<lparr>mp_bs := bs\<rparr>) 0 hp;
          if \<not> ok then mppc_give_up src SrcSize mppc
          else do {
            (ok, mppc, p, hp) \<leftarrow> mppc_compress_tail src SrcSize DstSize mppc p hp;
            if \<not> ok then mppc_give_up src SrcSize mppc
            else do {
              bs \<leftarrow> BitStream_Flush (mp_bs mppc);
              data \<leftarrow> ablock (bs_buffer bs) 0 ((bs_position bs + 7) div 8);
              Some (1, Some data,
                PACKET_COMPRESSED OR mp_CompressionLevel mppc OR (if front then PACKET_AT_FRONT else 0)
                  OR (if flushed then PACKET_FLUSHED else 0),
                mppc\<lparr>mp_bs := bs, mp_HistoryPtr := hp, mp_HistoryOffset := hp\<rparr>) } } })"

section \<open>Contexts\<close>

definition mppc_set_compression_level :: "MPPC_CONTEXT \<Rightarrow> int \<Rightarrow> MPPC_CONTEXT" where
  "mppc_set_compression_level mppc level =
     (if level < 1 then mppc\<lparr>mp_CompressionLevel := 0, mp_HistoryBufferSize := 8192\<rparr>
      else mppc\<lparr>mp_CompressionLevel := 1, mp_HistoryBufferSize := 65536\<rparr>)"

text \<open>\<open>None\<close> is the null pointer; a failed allocation of the bit stream is not looked at.\<close>

definition mppc_context_new :: "bool \<Rightarrow> int \<Rightarrow> bool \<Rightarrow> MPPC_CONTEXT option" where
  "mppc_context_new mem level Compressor =
     (if mem then map_option (\<lambda>bs. mppc_context_reset
         \<lparr>mp_bs = bs, mp_Compressor = Compressor, mp_HistoryPtr = 0, mp_HistoryOffset = 0,
          mp_HistoryBufferSize = (if level < 1 then 8192 else 65536), mp_HistoryBuffer = replicate 65536 0,
          mp_MatchBuffer = replicate 32768 0, mp_CompressionLevel = (if level < 1 then 0 else 1)\<rparr> False) (BitStream_New True)
      else None)"

end
