(* ===== verification/MppcCodes.thy ===== *)
theory MppcCodes
  imports WMppc
begin

text \<open>
  The bit codes of MPPC: literals, offsets and lengths. Each is a number of \<open>n\<close> bits; what the compressor
  writes for it is what the decompressor reads back.
\<close>

section \<open>Tests on the leading bits\<close>

lemma top_bits_div:
  assumes "k \<le> n" "n \<le> 32"
  shows "top_bits k w = top_bits n w div 2 ^ (n - k)"
proof -
  have "32 - k = (32 - n) + (n - k)" using assms by simp
  then show ?thesis by (simp only: top_bits_def unat_drop_bit_eq) (simp add: drop_bit_eq_div power_add div_mult2_eq)
qed

lemma top_test:
  assumes "n \<le> 32" "c < 2 ^ n"
  shows "w AND push_bit (32 - n) (mask n) = push_bit (32 - n) (of_nat c) \<longleftrightarrow> top_bits n w = c"
proof -
  have bc: "\<not> bit c i" if "n \<le> i" for i using bits_small [OF assms(2) that] .
  have bw: "\<not> bit w i" if "32 \<le> i" for i using that by (auto dest: bit_imp_le_length)
  have c: "c < 2 ^ 32" using assms power_increasing [of n 32 "2::nat"] by linarith
  have "top_bits n w = c \<longleftrightarrow> drop_bit (32 - n) w = of_nat c"
    using c by (simp add: top_bits_def word_unat_eq_iff unat_of_nat take_bit_nat_eq_self)
  also have "\<dots> \<longleftrightarrow> (\<forall>j < n. bit w (32 - n + j) = bit c j)"
  proof
    assume e: "drop_bit (32 - n) w = of_nat c"
    show "\<forall>j < n. bit w (32 - n + j) = bit c j"
    proof (intro allI impI)
      fix j assume "j < n"
      with assms(1) have "j < 32" by simp
      have "bit (drop_bit (32 - n) w) j = bit (of_nat c :: uint32) j" using e by simp
      with \<open>j < 32\<close> show "bit w (32 - n + j) = bit c j" by (simp add: bit_drop_bit_eq bit_of_nat_iff)
    qed
  next
    assume r: "\<forall>j < n. bit w (32 - n + j) = bit c j"
    show "drop_bit (32 - n) w = of_nat c"
    proof (rule bit_word_eqI)
      fix j assume "j < LENGTH(32)"
      then show "bit (drop_bit (32 - n) w) j = bit (of_nat c :: uint32) j"
        using r bw [of "32 - n + j"] bc [of j] assms(1) by (cases "j < n") (auto simp: bit_drop_bit_eq bit_of_nat_iff)
    qed
  qed
  also have "\<dots> \<longleftrightarrow> w AND push_bit (32 - n) (mask n) = push_bit (32 - n) (of_nat c)"
  proof
    assume r: "\<forall>j < n. bit w (32 - n + j) = bit c j"
    show "w AND push_bit (32 - n) (mask n) = push_bit (32 - n) (of_nat c)"
    proof (rule bit_word_eqI)
      fix i assume "i < LENGTH(32)"
      then have i: "i < 32" by simp
      show "bit (w AND push_bit (32 - n) (mask n)) i = bit (push_bit (32 - n) (of_nat c) :: uint32) i"
      proof (cases "32 - n \<le> i")
        case True
        then have j: "32 - n + (i - (32 - n)) = i" "i - (32 - n) < n" "i - (32 - n) < 32" using i assms(1) by simp_all
        have "bit w i = bit c (i - (32 - n))" using r [rule_format, OF j(2)] unfolding j(1) .
        with True i j show ?thesis by (simp add: bit_and_iff bit_push_bit_iff bit_mask_iff bit_of_nat_iff)
      qed (simp add: bit_and_iff bit_push_bit_iff)
    qed
  next
    assume e: "w AND push_bit (32 - n) (mask n) = push_bit (32 - n) (of_nat c)"
    show "\<forall>j < n. bit w (32 - n + j) = bit c j"
    proof (intro allI impI)
      fix j assume j: "j < n"
      have "bit (w AND push_bit (32 - n) (mask n)) (32 - n + j) = bit (push_bit (32 - n) (of_nat c) :: uint32) (32 - n + j)"
        using e by simp
      moreover have "32 + j - n < 32" "32 - n \<le> 32 + j - n" "32 + j - n - (32 - n) = j" using j assms(1) by simp_all
      ultimately show "bit w (32 - n + j) = bit c j" using j assms(1) by (simp add: bit_and_iff bit_push_bit_iff bit_mask_iff bit_of_nat_iff)
    qed
  qed
  finally show ?thesis by simp
qed

lemma field_bits:
  assumes "j \<le> n" "n \<le> 32"
  shows "uint (drop_bit (32 - n) w AND mask j) = int (top_bits n w mod 2 ^ j)"
proof -
  have "drop_bit (32 - n) w AND mask j = take_bit j (drop_bit (32 - n) w)" by (simp add: take_bit_eq_mask)
  then have "unat (drop_bit (32 - n) w AND mask j) = top_bits n w mod 2 ^ j"
    by (simp only: top_bits_def unsigned_take_bit_eq) (simp add: take_bit_eq_mod)
  then show ?thesis by (simp add: uint_nat)
qed

lemma tests:
  fixes w :: uint32
  shows "w AND 0x80000000 = 0 \<longleftrightarrow> top_bits 1 w = 0" "w AND 0xC0000000 = 0x80000000 \<longleftrightarrow> top_bits 2 w = 2"
    "w AND 0xE0000000 = 0xC0000000 \<longleftrightarrow> top_bits 3 w = 6" "w AND 0xF0000000 = 0xE0000000 \<longleftrightarrow> top_bits 4 w = 14"
    "w AND 0xF8000000 = 0xF0000000 \<longleftrightarrow> top_bits 5 w = 30" "w AND 0xFC000000 = 0xF8000000 \<longleftrightarrow> top_bits 6 w = 62"
    "w AND 0xFE000000 = 0xFC000000 \<longleftrightarrow> top_bits 7 w = 126" "w AND 0xFF000000 = 0xFE000000 \<longleftrightarrow> top_bits 8 w = 254"
    "w AND 0xFF800000 = 0xFF000000 \<longleftrightarrow> top_bits 9 w = 510" "w AND 0xFFC00000 = 0xFF800000 \<longleftrightarrow> top_bits 10 w = 1022"
    "w AND 0xFFE00000 = 0xFFC00000 \<longleftrightarrow> top_bits 11 w = 2046" "w AND 0xFFF00000 = 0xFFE00000 \<longleftrightarrow> top_bits 12 w = 4094"
    "w AND 0xFFF80000 = 0xFFF00000 \<longleftrightarrow> top_bits 13 w = 8190" "w AND 0xFFFC0000 = 0xFFF80000 \<longleftrightarrow> top_bits 14 w = 16382"
    "w AND 0xFFFE0000 = 0xFFFC0000 \<longleftrightarrow> top_bits 15 w = 32766"
    "w AND 0xF8000000 = 0xF8000000 \<longleftrightarrow> top_bits 5 w = 31" "w AND 0xF0000000 = 0xF0000000 \<longleftrightarrow> top_bits 4 w = 15"
  using top_test [of 1 0 w] top_test [of 2 2 w] top_test [of 3 6 w] top_test [of 4 14 w] top_test [of 5 30 w] top_test [of 6 62 w]
    top_test [of 7 126 w] top_test [of 8 254 w] top_test [of 9 510 w] top_test [of 10 1022 w] top_test [of 11 2046 w]
    top_test [of 12 4094 w] top_test [of 13 8190 w] top_test [of 14 16382 w] top_test [of 15 32766 w] top_test [of 5 31 w]
    top_test [of 4 15 w]
  by (simp_all add: mask_numeral push_bit_eq_mult)


section \<open>The codes\<close>

fun log2 :: "nat \<Rightarrow> nat" where
  "log2 n = (if n < 2 then 0 else Suc (log2 (n div 2)))"

declare log2.simps [simp del]

lemma log2_bounds: "0 < n \<Longrightarrow> 2 ^ log2 n \<le> n \<and> n < 2 ^ Suc (log2 n)"
proof (induction n rule: log2.induct)
  case (1 n)
  show ?case
  proof (cases "n < 2")
    case False
    then have "2 ^ log2 (n div 2) \<le> n div 2 \<and> n div 2 < 2 ^ Suc (log2 (n div 2))" using 1 by simp
    then show ?thesis using False by (subst (1 2) log2.simps) auto
  qed (use 1 in \<open>simp add: log2.simps\<close>)
qed

definition lit_code :: "byte \<Rightarrow> nat \<times> nat" where
  "lit_code b = (if unat b < 128 then (8, unat b) else (9, 256 + (unat b - 128)))"

fun off_code :: "bool \<Rightarrow> nat \<Rightarrow> nat \<times> nat" where
  "off_code True co = (if co < 64 then (11, 0x7C0 + co) else if co < 320 then (13, 0x1E00 + (co - 64))
     else if co < 2368 then (15, 0x7000 + (co - 320)) else (19, 0x60000 + (co - 2368)))"
| "off_code False co = (if co < 64 then (10, 0x3C0 + co) else if co < 320 then (12, 0xE00 + (co - 64))
     else (16, 0xC000 + (co - 320)))"

definition len_code :: "nat \<Rightarrow> nat \<times> nat" where
  "len_code len = (if len = 3 then (1, 0) else (let k = log2 len in (2 * k, (2 ^ k - 2) * 2 ^ k + (len - 2 ^ k))))"

abbreviation code_bits :: "nat \<times> nat \<Rightarrow> bool list" where
  "code_bits c \<equiv> nbits (fst c) (snd c)"

definition wlevel :: "bool \<Rightarrow> nat" where
  "wlevel rdp5 = (if rdp5 then 65536 else 8192)"

lemma lit_code_ok: "snd (lit_code b) < 2 ^ fst (lit_code b)" "8 \<le> fst (lit_code b)" "fst (lit_code b) \<le> 9"
  using unsigned_less [of b, where ?'a = nat] by (auto simp: lit_code_def)

lemma off_code_ok:
  "co < wlevel r \<Longrightarrow> snd (off_code r co) < 2 ^ fst (off_code r co)" "10 \<le> fst (off_code r co)" "fst (off_code r co) \<le> 19"
  by (cases r; auto simp: wlevel_def)+

lemma len_exp:
  assumes "4 \<le> len" "len < wlevel r"
  obtains k where "2 \<le> k" "k \<le> (if r then 15 else 12)" "2 ^ k \<le> len" "len < 2 ^ Suc k"
    "len_code len = (2 * k, (2 ^ k - 2) * 2 ^ k + (len - 2 ^ k))"
proof -
  let ?k = "log2 len"
  have b: "2 ^ ?k \<le> len" "len < 2 ^ Suc ?k" using log2_bounds [of len] assms(1) by auto
  have "2 ^ 2 < (2::nat) ^ Suc ?k" using b(2) assms(1) by simp
  then have k2: "2 < Suc ?k" using power_less_imp_less_exp [of "2::nat" 2 "Suc ?k"] by simp
  have "2 ^ ?k < wlevel r" using b(1) assms(2) by linarith
  then have "?k < (if r then 16 else 13)"
    using power_less_imp_less_exp [of "2::nat" ?k 16] power_less_imp_less_exp [of "2::nat" ?k 13] by (cases r) (simp_all add: wlevel_def)
  with k2 b show ?thesis using assms(1) by (intro that [of ?k]) (auto simp: len_code_def Let_def split: if_splits)
qed

lemma exp_cases:
  fixes k :: nat
  assumes "2 \<le> k" "k \<le> (if r then 15 else 12)"
  shows "k = 13 \<and> r \<or> k = 14 \<and> r \<or> k = 15 \<and> r \<or> k = 2 \<or> k = 3 \<or> k = 4 \<or> k = 5 \<or> k = 6 \<or> k = 7 \<or> k = 8 \<or> k = 9
    \<or> k = 10 \<or> k = 11 \<or> k = 12"
proof -
  have "k = 13 \<and> r \<or> k = 14 \<and> r \<or> k = 15 \<and> r \<or> k \<in> {2..<13}" using assms by (cases r) (simp_all, linarith)
  then show ?thesis by (simp flip: set_upt add: upt_rec)
qed

lemma len_code_ok:
  assumes "3 \<le> len" "len < wlevel r"
  shows "snd (len_code len) < 2 ^ fst (len_code len)" "0 < fst (len_code len)" "fst (len_code len) \<le> 30"
proof -
  have "snd (len_code len) < 2 ^ fst (len_code len) \<and> 0 < fst (len_code len) \<and> fst (len_code len) \<le> 30"
  proof (cases "len = 3")
    case False
    then have "4 \<le> len" using assms(1) by simp
    from len_exp [OF this assms(2)] obtain k where k: "2 \<le> k" "k \<le> (if r then 15 else 12)" "2 ^ k \<le> len" "len < 2 ^ Suc k"
      "len_code len = (2 * k, (2 ^ k - 2) * 2 ^ k + (len - 2 ^ k))" .
    have "(2 ^ k - 2) * 2 ^ k + (len - 2 ^ k) < (2 ^ k - 2) * 2 ^ k + 2 ^ k" using k(3,4) by simp
    moreover have "m * 2 ^ k + 2 ^ k \<le> (2 ^ k :: nat) * 2 ^ k" if "2 ^ k = m + 2" for m
      unfolding that by (simp add: algebra_simps)
    moreover have "(2::nat) ^ k = (2 ^ k - 2) + 2" using k(1) power_increasing [of 1 k "2::nat"] by simp
    ultimately have "(2 ^ k - 2) * 2 ^ k + (len - 2 ^ k) < (2 ^ k :: nat) * 2 ^ k" by (meson less_le_trans)
    then have "(2 ^ k - 2) * 2 ^ k + (len - 2 ^ k) < (2::nat) ^ (2 * k)" by (simp add: mult_2 power_add)
    with k show ?thesis by (auto split: if_splits)
  qed (simp add: len_code_def)
  then show "snd (len_code len) < 2 ^ fst (len_code len)" "0 < fst (len_code len)" "fst (len_code len) \<le> 30" by auto
qed


section \<open>Writing and reading codes\<close>

lemma or_field:
  fixes C :: int
  assumes "C = 2 ^ k * c" "m = 2 ^ k - 1"
  shows "C OR (x AND m) = C + x mod 2 ^ k"
proof -
  have m: "m = mask k" by (simp add: assms(2) mask_eq_exp_minus_1)
  have "C AND (x AND m) = 0"
    by (rule bit_eqI) (simp add: assms(1) m bit_and_iff bit_mask_iff flip: push_bit_eq_mult mult.commute [of c], simp add: bit_push_bit_iff)
  then have "C + (x AND m) = C OR (x AND m)" by (rule disjunctive_add_eq_or)
  moreover have "x AND m = x mod 2 ^ k" by (simp add: m take_bit_eq_mod flip: take_bit_eq_mask)
  ultimately show ?thesis by simp
qed


lemma lit_writes:
  assumes "bs_writes bs buf cap bl" "length bl + 9 < 8 * cap" "cap \<le> 268435455" "cap + 3 \<le> length buf"
  shows "\<exists>bs'. mppc_write_literal bs ch = Some bs' \<and> bs_writes bs' buf cap (bl @ code_bits (lit_code ch))"
proof -
  obtain u where u: "unat ch = u" "uint ch = int u" "u < 256"
    using unsigned_less [of ch, where ?'a = nat] by (simp add: uint_nat)
  have "mppc_write_literal bs ch = BitStream_Write_Bits bs (of_nat (snd (lit_code ch))) (int (fst (lit_code ch)))"
  proof (cases "u < 128")
    case False
    have "(256::int) OR (int u AND 127) = 256 + int u mod 128" using or_field [of 256 7 2 127 "int u"] by simp
    moreover have "int u mod 128 = int (u - 128)" 
    proof -
      obtain v where "u = v + 128" "v < 128" using False u(3) by (intro that [of "u - 128"]) simp_all
      then show ?thesis by simp
    qed
    ultimately show ?thesis using False by (simp add: mppc_write_literal_def lit_code_def u)
  qed (simp add: mppc_write_literal_def lit_code_def u)
  moreover obtain bs' where "BitStream_Write_Bits bs (of_nat (snd (lit_code ch))) (int (fst (lit_code ch))) = Some bs'"
    "bs_writes bs' buf cap (bl @ code_bits (lit_code ch))"
    using write_bits [of bs buf cap bl "fst (lit_code ch)" "snd (lit_code ch)"] lit_code_ok [of ch] assms by auto
  ultimately show ?thesis by simp
qed

lemma off_writes:
  assumes "bs_writes bs buf cap bl" "length bl + 19 < 8 * cap" "cap \<le> 268435455" "cap + 3 \<le> length buf" "co < wlevel r"
  shows "\<exists>bs'. mppc_write_offset (of_bool r) bs (int co) = Some bs' \<and> bs_writes bs' buf cap (bl @ code_bits (off_code r co))"
proof -
  have f: "(C::int) OR (int co AND (2 ^ k - 1)) = C + int co" if "C = 2 ^ k * c" "co < 2 ^ k" for C c k
    using or_field [OF that(1) refl, of "int co"] that(2) by simp
  have g: "(C::int) OR ((int co - int d) AND (2 ^ k - 1)) = C + int (co - d)" if "C = 2 ^ k * c" "d \<le> co" "co - d < 2 ^ k" for C c k d
    using or_field [OF that(1) refl, of "int co - int d"] that(2,3) by (simp flip: of_nat_diff)
  have "mppc_write_offset (of_bool r) bs (int co) = BitStream_Write_Bits bs (of_nat (snd (off_code r co))) (int (fst (off_code r co)))"
  proof -
    consider "co < 64" | "64 \<le> co" "co < 320" | "320 \<le> co" "co < 2368" | "2368 \<le> co" by linarith
    then show ?thesis
    proof cases
      case 1
      then show ?thesis using f [of "0x7C0" 6 31] f [of "0x3C0" 6 15] by (cases r) (simp_all add: mppc_write_offset_def)
    next
      case 2
      then show ?thesis using g [of "0x1E00" 8 30 64] g [of "0xE00" 8 14 64]
        by (cases r) (simp_all add: mppc_write_offset_def of_nat_diff)
    next
      case 3
      then show ?thesis using g [of "0x7000" 11 14 320] g [of "0xC000" 13 6 320]
        by (cases r) (simp_all add: mppc_write_offset_def of_nat_diff)
    next
      case 4
      then show ?thesis using g [of "0x60000" 16 6 2368] g [of "0xC000" 13 6 320] assms(5)
        by (cases r) (simp_all add: mppc_write_offset_def of_nat_diff wlevel_def)
    qed
  qed
  moreover obtain bs' where "BitStream_Write_Bits bs (of_nat (snd (off_code r co))) (int (fst (off_code r co))) = Some bs'"
    "bs_writes bs' buf cap (bl @ code_bits (off_code r co))"
    using write_bits [of bs buf cap bl "fst (off_code r co)" "snd (off_code r co)"] off_code_ok(1) [of co r] off_code_ok(2,3) [of r co] assms by auto
  ultimately show ?thesis by simp
qed

lemma len_writes:
  assumes "bs_writes bs buf cap bl" "length bl + 30 < 8 * cap" "cap \<le> 268435455" "cap + 3 \<le> length buf" "3 \<le> len" "len < wlevel r"
  shows "\<exists>bs'. mppc_write_length (of_bool r) bs (int len) = Some bs' \<and> bs_writes bs' buf cap (bl @ code_bits (len_code len))"
proof -
  have "mppc_write_length (of_bool r) bs (int len) = BitStream_Write_Bits bs (of_nat (snd (len_code len))) (int (fst (len_code len)))"
  proof (cases "len = 3")
    case False
    with assms(5) have "4 \<le> len" by simp
    from len_exp [OF this assms(6)] obtain k where k: "2 \<le> k" "k \<le> (if r then 15 else 12)" "2 ^ k \<le> len" "len < 2 ^ Suc k"
      "len_code len = (2 * k, (2 ^ k - 2) * 2 ^ k + (len - 2 ^ k))" .
    have m: "len mod 2 ^ k = len - 2 ^ k" using k(3,4) by (simp add: mod_if)
    have f: "(C::int) OR (int len AND (2 ^ k - 1)) = C + int (len - 2 ^ k)" if "C = 2 ^ k * c" for C c
      using or_field [OF that refl, of "int len"] m by (simp flip: m of_nat_mod [where 'a = int] add: of_nat_mod)
    from exp_cases [OF k(1,2)] show ?thesis
      apply (elim disjE conjE)
      subgoal using f [of "0x3FFC000" 8190] k by (simp add: mppc_write_length_def of_nat_diff)
      subgoal using f [of "0xFFF8000" 16382] k by (simp add: mppc_write_length_def of_nat_diff)
      subgoal using f [of "0x3FFF0000" 32766] k by (simp add: mppc_write_length_def of_nat_diff)
      subgoal using f [of "0x8" 2] k by (simp add: mppc_write_length_def of_nat_diff)
      subgoal using f [of "0x30" 6] k by (simp add: mppc_write_length_def of_nat_diff)
      subgoal using f [of "0xE0" 14] k by (simp add: mppc_write_length_def of_nat_diff)
      subgoal using f [of "0x3C0" 30] k by (simp add: mppc_write_length_def of_nat_diff)
      subgoal using f [of "0xF80" 62] k by (simp add: mppc_write_length_def of_nat_diff)
      subgoal using f [of "0x3F00" 126] k by (simp add: mppc_write_length_def of_nat_diff)
      subgoal using f [of "0xFE00" 254] k by (simp add: mppc_write_length_def of_nat_diff)
      subgoal using f [of "0x3FC00" 510] k by (simp add: mppc_write_length_def of_nat_diff)
      subgoal using f [of "0xFF800" 1022] k by (simp add: mppc_write_length_def of_nat_diff)
      subgoal using f [of "0x3FF000" 2046] k by (simp add: mppc_write_length_def of_nat_diff)
      subgoal using f [of "0xFFE000" 4094] k by (simp add: mppc_write_length_def of_nat_diff)
      done
  qed (simp add: mppc_write_length_def len_code_def)
  moreover obtain bs' where "BitStream_Write_Bits bs (of_nat (snd (len_code len))) (int (fst (len_code len))) = Some bs'"
    "bs_writes bs' buf cap (bl @ code_bits (len_code len))"
    using write_bits [of bs buf cap bl "fst (len_code len)" "snd (len_code len)"] len_code_ok [OF assms(5,6)] assms by auto
  ultimately show ?thesis by simp
qed


lemma code_read:
  assumes "bs_reads bs buf cap pos" "n \<le> 32" "c < 2 ^ n" "sees buf pos (nbits n c)" "j \<le> n"
  shows "top_bits j (bs_accumulator bs) = c div 2 ^ (n - j)"
  using top_bits_div [OF assms(5,2)] reads_top [OF assms(1-4)] by simp

lemma off_reads:
  assumes "bs_reads bs buf cap pos" "sees buf pos (code_bits (off_code r co))" "co < wlevel r"
    and "pos + fst (off_code r co) \<le> 8 * cap" "cap \<le> 268435455" "cap + 8 \<le> length buf"
  shows "\<exists>bs'. mppc_read_offset (of_bool r) bs = Some (Inr (int co, bs')) \<and> bs_reads bs' buf cap (pos + fst (off_code r co))"
proof -
  let ?n = "fst (off_code r co)" and ?c = "snd (off_code r co)" and ?acc = "bs_accumulator bs"
  have n: "?n \<le> 32" "0 < ?n" "?n < 31" using off_code_ok(2,3) [of r co] by simp_all
  have t: "top_bits j ?acc = ?c div 2 ^ (?n - j)" if "j \<le> ?n" for j
    using code_read [OF assms(1) n(1) off_code_ok(1) [OF assms(3)] assms(2) that] .
  have f: "uint (drop_bit (32 - ?n) ?acc AND mask j) = int (?c mod 2 ^ j)" if "j \<le> ?n" for j
    using field_bits [OF that n(1), of ?acc] t [of ?n] by simp
  obtain bs' where b: "BitStream_Shift bs (int ?n) = Some bs'" "bs_reads bs' buf cap (pos + ?n)"
    using shift_reads [OF assms(1) n(2,3) assms(4-6)] by blast
  have dm: "(a * 2 ^ j + x) mod 2 ^ j = x" "(a * 2 ^ j + x) div 2 ^ j = a" if "x < 2 ^ j" for a j x :: nat using that by simp_all
  have lt: "(C + x) div k < a" if "C + x < a * k" for C x k a :: nat using that by (rule less_mult_imp_div_less)
  consider "co < 64" | "64 \<le> co" "co < 320" | "320 \<le> co" "co < 2368" | "2368 \<le> co" by linarith
  then have "mppc_read_offset (of_bool r) bs = Some (Inr (int co, bs'))"
  proof cases
    case 1
    have m: "(1984 + co) mod 64 = co" "(1984 + co) div 64 = 31" "(960 + co) mod 64 = co" "(960 + co) div 64 = 15"
      using 1 dm [of co 6 31] dm [of co 6 15] by simp_all
    from 1 show ?thesis using b(1) t [of 5] t [of 4] f [of 6] m
      by (cases r) (simp_all add: mppc_read_offset_def tests mask_numeral)
  next
    case 2
    obtain d where d: "co = d + 64" "d < 256" using 2 by (intro that [of "co - 64"]) simp_all
    have m: "(7680 + d) mod 256 = d" "(7680 + d) div 256 = 30" "(3584 + d) mod 256 = d" "(3584 + d) div 256 = 14"
      using d(2) dm [of d 8 30] dm [of d 8 14] by simp_all
    from d show ?thesis using b(1) t [of 5] t [of 4] f [of 8] m
      by (cases r) (simp_all add: mppc_read_offset_def tests mask_numeral)
  next
    case 3
    obtain d where d: "co = d + 320" "d < 2048" using 3 by (intro that [of "co - 320"]) simp_all
    have m: "(28672 + d) mod 2048 = d" "(28672 + d) div 2048 = 14" "(49152 + d) mod 8192 = d" "(49152 + d) div 8192 = 6"
      using d(2) dm [of d 11 14] dm [of d 13 6] by simp_all
    have l: "(28672 + d) div 1024 < 30" "(49152 + d) div 4096 < 14" using d(2) by (intro lt; simp)+
    show ?thesis
    proof (cases r)
      case True
      then show ?thesis using d b(1) t [of 5] t [of 4] f [of 11] m(1,2) l(1) by (simp add: mppc_read_offset_def tests mask_numeral)
    next
      case False
      then show ?thesis using d b(1) t [of 4] t [of 3] f [of 13] m(3,4) l(2) by (simp add: mppc_read_offset_def tests mask_numeral)
    qed
  next
    case 4
    obtain d where d: "co = d + 2368" using 4 by (intro that [of "co - 2368"]) simp_all
    show ?thesis
    proof (cases r)
      case True
      then have d': "d < 63168" using d assms(3) by (simp add: wlevel_def)
      have m: "(393216 + d) mod 65536 = d" "(393216 + d) div 65536 = 6" using d' dm [of d 16 6] by simp_all
      have l: "(393216 + d) div 32768 < 14" "(393216 + d) div 16384 < 28" using d' by (intro lt; simp)+
      show ?thesis using True d b(1) t [of 5] t [of 4] t [of 3] f [of 16] m l by (simp add: mppc_read_offset_def tests mask_numeral)
    next
      case False
      then have d': "d < 5824" using d assms(3) by (simp add: wlevel_def)
      have m: "(51200 + d) mod 8192 = d + 2048" "(51200 + d) div 8192 = 6" using d' dm [of "d + 2048" 13 6] by simp_all
      have l: "(51200 + d) div 4096 < 14" using d' by (intro lt; simp)
      show ?thesis using False d b(1) t [of 4] t [of 3] f [of 13] m l by (simp add: mppc_read_offset_def tests mask_numeral)
    qed
  qed
  with b(2) show ?thesis by blast
qed

lemma len_reads:
  assumes "bs_reads bs buf cap pos" "sees buf pos (code_bits (len_code len))" "3 \<le> len" "len < wlevel r"
    and "pos + fst (len_code len) \<le> 8 * cap" "cap \<le> 268435455" "cap + 8 \<le> length buf"
  shows "\<exists>bs'. mppc_read_length (of_bool r) bs = Some (Inr (int len, bs')) \<and> bs_reads bs' buf cap (pos + fst (len_code len))"
proof -
  let ?n = "fst (len_code len)" and ?c = "snd (len_code len)" and ?acc = "bs_accumulator bs"
  note ok = len_code_ok [OF assms(3,4)]
  have n: "?n \<le> 32" "?n < 31" using ok by simp_all
  obtain bs' where b: "BitStream_Shift bs (int ?n) = Some bs'" "bs_reads bs' buf cap (pos + ?n)"
    using shift_reads [OF assms(1) ok(2) n(2) assms(5-7)] by blast
  have "mppc_read_length (of_bool r) bs = Some (Inr (int len, bs'))"
  proof (cases "len = 3")
    case True
    then show ?thesis using b(1) code_read [OF assms(1) n(1) ok(1) assms(2), of 1]
      by (simp add: mppc_read_length_def tests len_code_def)
  next
    case False
    with assms(3) have "4 \<le> len" by simp
    from len_exp [OF this assms(4)] obtain k where k: "2 \<le> k" "k \<le> (if r then 15 else 12)" "2 ^ k \<le> len" "len < 2 ^ Suc k"
      "len_code len = (2 * k, (2 ^ k - 2) * 2 ^ k + (len - 2 ^ k))" .
    obtain x where x: "len = 2 ^ k + x" "x < 2 ^ k" using k(3,4) by (intro that [of "len - 2 ^ k"]) simp_all
    have c: "len_code len = (2 * k, x + (2 ^ k - 2) * 2 ^ k)" using k(5) x(1) by (simp add: add.commute)
    have tk: "top_bits k ?acc = 2 ^ k - 2"
      using code_read [OF assms(1) n(1) ok(1) assms(2), of k] x(2) by (simp add: c mult_2)
    have t: "top_bits j ?acc = (2 ^ k - 2) div 2 ^ (k - j)" if "j \<le> k" for j
      using top_bits_div [OF that, of ?acc] tk n(1) c by simp
    have "top_bits ?n ?acc = ?c" using code_read [OF assms(1) n(1) ok(1) assms(2), of ?n] by simp
    then have f: "uint (drop_bit (32 - 2 * k) ?acc AND mask k) = int x"
      using field_bits [of k "2 * k" ?acc] n(1) c x(2) by simp
    from exp_cases [OF k(1,2)] show ?thesis using b(1) f t x(1) c
      by (elim disjE conjE) (simp_all add: mppc_read_length_def tests mask_numeral)
  qed
  with b(2) show ?thesis by blast
qed

end
