(* ===== verification/MppcTokens.thy ===== *)
theory MppcTokens
  imports MppcCodes
begin

text \<open>
  What a compressed packet means: a sequence of literals and matches, which \<open>plays\<close> writes into the history.
  The loop of \<open>mppc_decompress\<close> plays the tokens whose codes it reads.
\<close>

section \<open>Copying inside the history\<close>

primrec cpy :: "byte list \<Rightarrow> nat \<Rightarrow> nat \<Rightarrow> nat \<Rightarrow> byte list" where
  "cpy h d s 0 = h"
| "cpy h d s (Suc n) = cpy (h[d := h ! s]) (d + 1) (s + 1) n"

lemma length_cpy [simp]: "length (cpy h d s n) = length h"
  by (induction n arbitrary: h d s) simp_all

lemma cpy_add: "cpy h d s (m + n) = cpy (cpy h d s m) (d + m) (s + m) n"
  by (induction m arbitrary: h d s) simp_all

lemma cpy_below: "i < d \<Longrightarrow> cpy h d s n ! i = h ! i"
  by (induction n arbitrary: h d s) simp_all

lemma cpy_above: "d + n \<le> i \<Longrightarrow> cpy h d s n ! i = h ! i"
  by (induction n arbitrary: h d s) simp_all

lemma copy_cpy: "d + n \<le> length h \<Longrightarrow> s + n \<le> length h \<Longrightarrow> mppc_copy h (int d) (int s) n = Some (cpy h d s n)"
proof (induction n arbitrary: h d s)
  case (Suc n)
  then show ?case using Suc.IH [of "d + 1" "h[d := h ! s]" "s + 1"] by (simp add: aget_def aset_def add.commute)
qed simp

section \<open>Tokens\<close>

datatype token = Lit byte | Mat nat nat

fun token_bits :: "bool \<Rightarrow> token \<Rightarrow> bool list" where
  "token_bits r (Lit b) = code_bits (lit_code b)"
| "token_bits r (Mat co len) = code_bits (off_code r co) @ code_bits (len_code len)"

definition bits_of :: "bool \<Rightarrow> token list \<Rightarrow> bool list" where
  "bits_of r ts = concat (map (token_bits r) ts)"

lemma bits_of_simps [simp]: "bits_of r [] = []" "bits_of r (t # ts) = token_bits r t @ bits_of r ts"
    "bits_of r (ts @ us) = bits_of r ts @ bits_of r us"
  by (simp_all add: bits_of_def)

definition match_src :: "bool \<Rightarrow> nat \<Rightarrow> nat \<Rightarrow> nat" where
  "match_src r hp co = nat ((int hp - int co) mod int (wlevel r))"

fun plays :: "bool \<Rightarrow> token list \<Rightarrow> byte list \<times> nat \<Rightarrow> (byte list \<times> nat) option" where
  "plays r [] s = Some s"
| "plays r (Lit b # ts) (h, hp) = (if hp < wlevel r then plays r ts (h[hp := b], hp + 1) else None)"
| "plays r (Mat co len # ts) (h, hp) =
     (if co < wlevel r \<and> 3 \<le> len \<and> len < wlevel r \<and> hp + len \<le> wlevel r \<and> match_src r hp co + len \<le> wlevel r
      then plays r ts (cpy h hp (match_src r hp co) len, hp + len) else None)"

lemma plays_append: "plays r (ts @ us) s = Option.bind (plays r ts s) (plays r us)"
proof (induction ts arbitrary: s)
  case (Cons t ts)
  show ?case by (cases s; cases t) (simp_all add: Cons.IH)
qed simp

lemma plays_length: "plays r ts (h, hp) = Some (h', hp') \<Longrightarrow> length h' = length h \<and> hp \<le> hp'"
proof (induction ts arbitrary: h hp)
  case (Cons t ts)
  then show ?case by (cases t) (fastforce split: if_splits)+
qed simp

lemma wlevel_mask:
  "x AND (if (of_bool r :: int) \<noteq> 0 then 0xFFFF else 0x1FFF) = x mod int (wlevel r)"
  "(int (wlevel r) - 1) AND x = x mod int (wlevel r)"
proof -
  have m: "x AND 0xFFFF = x mod 65536" "x AND 0x1FFF = x mod 8192"
    using take_bit_eq_mask [of 16 x] take_bit_eq_mask [of 13 x] by (simp_all add: mask_numeral take_bit_eq_mod)
  show "x AND (if (of_bool r :: int) \<noteq> 0 then 0xFFFF else 0x1FFF) = x mod int (wlevel r)"
    by (cases r) (simp_all add: wlevel_def m)
  show "(int (wlevel r) - 1) AND x = x mod int (wlevel r)"
    by (cases r) (simp_all add: wlevel_def m and.commute [of _ x])
qed

lemma wlevel_pos: "8192 \<le> wlevel r" "wlevel r \<le> 65536"
  by (simp_all add: wlevel_def)

section \<open>The decompressor plays tokens\<close>

lemma lit_read:
  assumes "bs_reads bs buf cap pos" "sees buf pos (code_bits (lit_code b))"
  shows "bs_accumulator bs AND 0x80000000 = 0 \<Longrightarrow>
      (ucast (drop_bit 24 (bs_accumulator bs AND 0x7F000000)) :: byte) = b \<and> fst (lit_code b) = 8"
    and "bs_accumulator bs AND 0x80000000 \<noteq> 0 \<Longrightarrow> bs_accumulator bs AND 0xC0000000 = 0x80000000
      \<and> (ucast (drop_bit 23 (bs_accumulator bs AND 0x3F800000) + 0x80) :: byte) = b \<and> fst (lit_code b) = 9"
proof -
  let ?acc = "bs_accumulator bs" and ?n = "fst (lit_code b)" and ?c = "snd (lit_code b)"
  obtain u where u: "unat b = u" "u < 256" using unsigned_less [of b, where ?'a = nat] by simp
  have n: "?n \<le> 32" using lit_code_ok(3) [of b] by simp
  have t: "top_bits j ?acc = ?c div 2 ^ (?n - j)" if "j \<le> ?n" for j
    using code_read [OF assms(1) n lit_code_ok(1) assms(2) that] .
  have f: "uint (drop_bit (32 - ?n) ?acc AND mask 7) = int (?c mod 2 ^ 7)"
    using field_bits [of 7 ?n ?acc] lit_code_ok(2) [of b] n t [of ?n] by simp
  have w: "(ucast y :: byte) = b" if "uint (y :: uint32) = int u" for y
    using that by (simp add: ucast_eq flip: u(1))
  have d: "drop_bit 24 (?acc AND 0x7F000000) = drop_bit 24 ?acc AND 0x7F" "drop_bit 23 (?acc AND 0x3F800000) = drop_bit 23 ?acc AND 0x7F"
    by (simp_all add: drop_bit_and)
  show "?acc AND 0x80000000 = 0 \<Longrightarrow> (ucast (drop_bit 24 (?acc AND 0x7F000000)) :: byte) = b \<and> ?n = 8"
  proof -
    assume z: "?acc AND 0x80000000 = 0"
    have "u < 128"
    proof (rule ccontr)
      assume "\<not> u < 128"
      then obtain v where v: "u = v + 128" "v < 128" using u(2) by (intro that [of "u - 128"]) simp_all
      have "(256 + v) div 256 = 1" using v(2) by simp
      with v(1) show False using z t [of 1] by (simp add: tests lit_code_def u(1))
    qed
    then show ?thesis using f w [of "drop_bit 24 ?acc AND 0x7F"] unfolding d by (simp add: lit_code_def u(1) mask_numeral)
  qed
  show "?acc AND 0x80000000 \<noteq> 0 \<Longrightarrow> ?acc AND 0xC0000000 = 0x80000000
      \<and> (ucast (drop_bit 23 (?acc AND 0x3F800000) + 0x80) :: byte) = b \<and> ?n = 9"
  proof -
    assume z: "?acc AND 0x80000000 \<noteq> 0"
    have "\<not> u < 128" using z t [of 1] by (auto simp: tests lit_code_def u(1))
    then obtain v where v: "u = v + 128" "v < 128" using u(2) by (intro that [of "u - 128"]) simp_all
    have "(256 + v) mod 128 = (2 * 128 + v) mod 128" by simp
    also have "\<dots> = v" using v(2) by (simp only: mod_mult_self3 mod_less)
    finally have m: "(256 + v) div 128 = 2" "(256 + v) mod 128 = v" using v(2) by simp_all
    let ?y = "drop_bit 23 ?acc AND 0x7F"
    have y: "uint ?y = int v" using f m(2) v(1) by (simp add: lit_code_def u(1) mask_numeral)
    then have "uint (?y + 0x80) = int u" using v by (simp add: uint_word_ariths)
    then show ?thesis using w [of "?y + 0x80"] t [of 2] m(1) v(1) unfolding d by (simp add: tests lit_code_def u(1))
  qed
qed

lemma length_token_bits: "8 \<le> length (token_bits r t)"
proof (cases t)
  case (Mat co len)
  then show ?thesis using off_code_ok(2) [of r co] by simp
qed (simp add: lit_code_ok)

text \<open>One token.\<close>

lemma decompress_stop:
  assumes "bs_reads bs buf cap pos" "8 * cap < pos + 8"
  shows "mppc_decompress_loop level sz bs h hp = Some (1, bs, h, hp)"
  using assms by (subst mppc_decompress_loop.simps) (simp add: bs_reads_def)

lemma decompress_lit:
  assumes "bs_reads bs buf cap pos" "sees buf pos (token_bits r (Lit b))" "pos + length (token_bits r (Lit b)) \<le> 8 * cap"
    and "cap \<le> 268435455" "cap + 8 \<le> length buf" "hp < wlevel r" "wlevel r \<le> length h"
  shows "\<exists>bs'. bs_reads bs' buf cap (pos + length (token_bits r (Lit b))) \<and>
    mppc_decompress_loop (of_bool r) (int (wlevel r)) bs h (int hp) =
    mppc_decompress_loop (of_bool r) (int (wlevel r)) bs' (h[hp := b]) (int (hp + 1))"
proof -
  let ?n = "fst (lit_code b)"
  have n: "0 < ?n" "?n < 31" "8 \<le> ?n" using lit_code_ok(2,3) [of b] by simp_all
  obtain bs' where b: "BitStream_Shift bs (int ?n) = Some bs'" "bs_reads bs' buf cap (pos + ?n)"
    using shift_reads [OF assms(1) n(1,2) _ assms(4,5)] assms(3) by auto
  have s: "sees buf pos (code_bits (lit_code b))" using assms(2) by simp
  have r: "8 \<le> bs_length bs - bs_position bs" using assms(1,3) n(3) by (simp add: bs_reads_def)
  have a: "aset h (int hp) x = Some (h[hp := x])" for x using assms(6,7) by (simp add: aset_def)
  have "mppc_decompress_loop (of_bool r) (int (wlevel r)) bs h (int hp) =
      mppc_decompress_loop (of_bool r) (int (wlevel r)) bs' (h[hp := b]) (int (hp + 1))"
  proof (cases "bs_accumulator bs AND 0x80000000 = 0")
    case True
    with lit_read(1) [OF assms(1) s True] r a b(1) assms(6) show ?thesis
      by (subst mppc_decompress_loop.simps) (simp add: add.commute)
  next
    case False
    with lit_read(2) [OF assms(1) s False] r a b(1) assms(6) show ?thesis
      by (subst mppc_decompress_loop.simps) (simp add: add.commute)
  qed
  with b(2) show ?thesis by auto
qed

lemma off_not_lit:
  assumes "bs_reads bs buf cap pos" "sees buf pos (code_bits (off_code r co))" "co < wlevel r"
  shows "bs_accumulator bs AND 0x80000000 \<noteq> 0" "bs_accumulator bs AND 0xC0000000 \<noteq> 0x80000000"
proof -
  let ?n = "fst (off_code r co)" and ?c = "snd (off_code r co)"
  have n: "?n \<le> 32" "2 \<le> ?n" using off_code_ok(2,3) [of r co] by simp_all
  have "3 * 2 ^ (?n - 2) \<le> ?c" by (cases r) (auto simp: not_less)
  then have "3 \<le> ?c div 2 ^ (?n - 2)" by (simp add: less_eq_div_iff_mult_less_eq)
  moreover have "top_bits 2 (bs_accumulator bs) = ?c div 2 ^ (?n - 2)"
    using code_read [OF assms(1) n(1) off_code_ok(1) [OF assms(3)] assms(2) n(2)] .
  ultimately have t: "3 \<le> top_bits 2 (bs_accumulator bs)" by simp
  moreover have "top_bits 1 (bs_accumulator bs) = top_bits 2 (bs_accumulator bs) div 2" using top_bits_div [of 1 2] by simp
  ultimately show "bs_accumulator bs AND 0x80000000 \<noteq> 0" "bs_accumulator bs AND 0xC0000000 \<noteq> 0x80000000"
    by (auto simp: tests)
qed

lemma decompress_mat:
  assumes "bs_reads bs buf cap pos" "sees buf pos (token_bits r (Mat co len))"
    and "pos + length (token_bits r (Mat co len)) \<le> 8 * cap" "cap \<le> 268435455" "cap + 8 \<le> length buf"
    and "co < wlevel r" "3 \<le> len" "len < wlevel r" "hp + len \<le> wlevel r" "match_src r hp co + len \<le> wlevel r" "wlevel r \<le> length h"
  shows "\<exists>bs'. bs_reads bs' buf cap (pos + length (token_bits r (Mat co len))) \<and>
    mppc_decompress_loop (of_bool r) (int (wlevel r)) bs h (int hp) =
    mppc_decompress_loop (of_bool r) (int (wlevel r)) bs' (cpy h hp (match_src r hp co) len) (int (hp + len))"
proof -
  let ?n = "fst (off_code r co)" and ?m = "fst (len_code len)"
  have s: "sees buf pos (code_bits (off_code r co))" "sees buf (pos + ?n) (code_bits (len_code len))" using assms(2) by simp_all
  obtain bs1 where b1: "mppc_read_offset (of_bool r) bs = Some (Inr (int co, bs1))" "bs_reads bs1 buf cap (pos + ?n)"
    using off_reads [OF assms(1) s(1) assms(6) _ assms(4,5)] assms(3) by auto
  obtain bs2 where b2: "mppc_read_length (of_bool r) bs1 = Some (Inr (int len, bs2))" "bs_reads bs2 buf cap (pos + ?n + ?m)"
    using len_reads [OF b1(2) s(2) assms(7,8) _ assms(4,5)] assms(3) by auto
  have r: "8 \<le> bs_length bs - bs_position bs" using assms(1,3) off_code_ok(2) [of r co] by (simp add: bs_reads_def)
  have src: "(int hp - int co) mod int (wlevel r) = int (match_src r hp co)" using wlevel_pos(1) [of r] by (simp add: match_src_def)
  have c: "mppc_copy h (int hp) (int (match_src r hp co)) len = Some (cpy h hp (match_src r hp co) len)"
    using assms(9-11) by (intro copy_cpy) simp_all
  have "mppc_decompress_loop (of_bool r) (int (wlevel r)) bs h (int hp) =
      mppc_decompress_loop (of_bool r) (int (wlevel r)) bs2 (cpy h hp (match_src r hp co) len) (int (hp + len))"
    using r off_not_lit [OF assms(1) s(1) assms(6)] b1(1) b2(1) assms(7,9) c
    by (subst mppc_decompress_loop.simps) (simp add: wlevel_mask(1) src del: of_bool_eq_0_iff)
  with b2(2) show ?thesis by (auto simp: add.assoc)
qed

lemma decompress_tokens:
  assumes "bs_reads bs buf cap pos" "sees buf pos (bits_of r ts)" "pos + length (bits_of r ts) \<le> 8 * cap"
    and "8 * cap < pos + length (bits_of r ts) + 8" "cap \<le> 268435455" "cap + 8 \<le> length buf"
    and "plays r ts (h, hp) = Some (h', hp')" "wlevel r \<le> length h"
  shows "\<exists>bs'. mppc_decompress_loop (of_bool r) (int (wlevel r)) bs h (int hp) = Some (1, bs', h', int hp')"
  using assms
proof (induction ts arbitrary: bs pos h hp)
  case Nil
  then show ?case using decompress_stop [of bs buf cap pos] by simp
next
  case (Cons t ts)
  have s: "sees buf pos (token_bits r t)" "sees buf (pos + length (token_bits r t)) (bits_of r ts)" using Cons.prems(2) by simp_all
  have l: "pos + length (token_bits r t) \<le> 8 * cap" using Cons.prems(3) by simp
  show ?case
  proof (cases t)
    case (Lit b)
    with Cons.prems(7) have p: "hp < wlevel r" "plays r ts (h[hp := b], hp + 1) = Some (h', hp')" by (auto split: if_splits)
    from decompress_lit [OF Cons.prems(1) s(1) [unfolded Lit] l [unfolded Lit] Cons.prems(5,6) p(1) Cons.prems(8)]
    obtain bs' where b: "bs_reads bs' buf cap (pos + length (token_bits r t))"
      "mppc_decompress_loop (of_bool r) (int (wlevel r)) bs h (int hp) =
       mppc_decompress_loop (of_bool r) (int (wlevel r)) bs' (h[hp := b]) (int (hp + 1))" unfolding Lit by blast
    show ?thesis unfolding b(2) using Cons.IH [OF b(1) s(2) _ _ Cons.prems(5,6) p(2)] Cons.prems by simp
  next
    case (Mat co len)
    with Cons.prems(7) have p: "co < wlevel r" "3 \<le> len" "len < wlevel r" "hp + len \<le> wlevel r" "match_src r hp co + len \<le> wlevel r"
      "plays r ts (cpy h hp (match_src r hp co) len, hp + len) = Some (h', hp')" by (auto split: if_splits)
    from decompress_mat [OF Cons.prems(1) s(1) [unfolded Mat] l [unfolded Mat] Cons.prems(5,6) p(1-5) Cons.prems(8)]
    obtain bs' where b: "bs_reads bs' buf cap (pos + length (token_bits r t))"
      "mppc_decompress_loop (of_bool r) (int (wlevel r)) bs h (int hp) =
       mppc_decompress_loop (of_bool r) (int (wlevel r)) bs' (cpy h hp (match_src r hp co) len) (int (hp + len))" unfolding Mat by blast
    show ?thesis unfolding b(2) using Cons.IH [OF b(1) s(2) _ _ Cons.prems(5,6) p(6)] Cons.prems by simp
  qed
qed

end
