(* ===== verification/MppcSafety.thy ===== *)
theory MppcSafety
  imports MppcTokens
begin

text \<open>
  What \<open>mppc_decompress\<close> does with arbitrary bytes: with RDP 4 it returns and stays in its buffers; with
  RDP 5 the source of a match may leave the history.
\<close>

section \<open>The bit stream at any position\<close>

text \<open>The guards of the loads let a byte be read up to 13 bytes behind the capacity.\<close>

definition bs_safe :: "byte list \<Rightarrow> nat \<Rightarrow> nat \<Rightarrow> wBitStream \<Rightarrow> bool" where
  "bs_safe buf cap pos bs \<longleftrightarrow> bs_buffer bs = buf \<and> bs_capacity bs = int cap \<and> bs_length bs = 8 * int cap
     \<and> bs_position bs = int pos \<and> bs_offset bs = int (pos mod 32) \<and> bs_pointer bs = int (4 * (pos div 32))"

lemma bs_load_safe:
  assumes "bs_pointer bs = int p" "bs_capacity bs = int cap" "k < 8" "cap \<le> 268435000" "p \<le> cap + 100" "cap + 14 \<le> length (bs_buffer bs)"
  shows "\<exists>w. bs_load bs (int k) = Some w"
proof -
  have "u32 (int p) = int p" "u32 (int cap + int k) = int cap + int k" using assms by (simp_all add: u32_def)
  then show ?thesis using assms by (simp add: bs_load_def aget_def)
qed

lemma prefetch_safe:
  assumes "bs_pointer bs = int p" "bs_capacity bs = int cap" "cap \<le> 268435000" "p \<le> cap + 100" "cap + 14 \<le> length (bs_buffer bs)"
  shows "\<exists>w. BitStream_Prefetch bs = Some (bs\<lparr>bs_prefetch := w\<rparr>)"
proof -
  have "\<exists>w. bs_load bs (int k) = Some w" if "k < 8" for k using bs_load_safe [OF assms(1,2) that assms(3-5)] .
  from this [of 4] this [of 5] this [of 6] this [of 7] show ?thesis by (auto simp: BitStream_Prefetch_def)
qed

lemma attach_safe:
  assumes "cap \<le> 268435000" "cap + 14 \<le> length buf"
  obtains bs1 bs2 where "BitStream_Attach bs buf (int cap) = Some bs1" "BitStream_Fetch bs1 = Some bs2" "bs_safe buf cap 0 bs2"
proof -
  let ?a = "bs\<lparr>bs_position := 0, bs_buffer := buf, bs_offset := 0, bs_accumulator := 0, bs_pointer := 0, bs_capacity := int cap,
    bs_length := int cap * 8\<rparr>"
  have a: "BitStream_Attach bs buf (int cap) = Some ?a" using assms(1) by (simp add: BitStream_Attach_def cint_def)
  have "\<exists>w. bs_load ?a (int k) = Some w" if "k < 8" for k by (rule bs_load_safe [of _ 0 cap]) (use that assms in simp_all)
  from this [of 0] this [of 1] this [of 2] this [of 3] obtain w where
    w: "BitStream_Fetch ?a = BitStream_Prefetch (?a\<lparr>bs_accumulator := w\<rparr>)" by (auto simp: BitStream_Fetch_def)
  obtain v where "BitStream_Prefetch (?a\<lparr>bs_accumulator := w\<rparr>) = Some (?a\<lparr>bs_accumulator := w, bs_prefetch := v\<rparr>)"
    using prefetch_safe [of "?a\<lparr>bs_accumulator := w\<rparr>" 0 cap] assms by auto
  with w have f: "BitStream_Fetch ?a = Some (?a\<lparr>bs_accumulator := w, bs_prefetch := v\<rparr>)" by simp
  show ?thesis by (rule that [OF a f]) (simp add: bs_safe_def)
qed

lemma shift_safe:
  assumes "bs_safe buf cap pos bs" "0 < n" "n < 31" "pos \<le> 8 * cap + 100" "cap \<le> 268435000" "cap + 14 \<le> length buf"
  shows "\<exists>bs'. BitStream_Shift bs (int n) = Some bs' \<and> bs_safe buf cap (pos + n) bs'"
proof -
  note r = assms(1) [unfolded bs_safe_def]
  let ?q = "pos div 32" and ?o = "pos mod 32"
  have o: "?o < 32" "pos = 32 * ?q + ?o" by simp_all
  have s: "shl w (int n) = Some (push_bit n w)" "shr w (32 - int n) = Some (drop_bit (32 - n) w)" "ones (int n) = Some (mask n)" for w
    using assms(2,3) by (simp_all add: shl_def shr_def nat_diff_distrib bit_ones)
  have c: "cint (int pos + int n) = Some (int (pos + n))" using assms(3-5) by (simp add: cint_def)
  have u: "u32 (int ?o + int n) = int (?o + n)" using o(1) assms(3) by (simp add: u32_def)
  have dm: "(32 * q + x) mod 32 = x" "(32 * q + x) div 32 = q" if "x < 32" for q x :: nat using that by simp_all
  show ?thesis
  proof (cases "?o + n < 32")
    case True
    have pn: "pos + n = 32 * ?q + (?o + n)" by simp
    have "(pos + n) mod 32 = ?o + n" "(pos + n) div 32 = ?q" using dm [OF True, of ?q, folded pn] by simp_all
    moreover have "int ?o + int n < 32" using True by linarith
    ultimately show ?thesis using assms(2,3) r c u s by (simp add: BitStream_Shift_def bs_safe_def)
  next
    case False
    obtain o2 where o2: "?o + n = 32 + o2" "o2 < 30" using False o assms(3) by (intro that [of "?o + n - 32"]) linarith+
    have "L = 32 * q + x \<Longrightarrow> x + n = 32 + o2 \<Longrightarrow> L + n = 32 * (q + 1) + o2" for L q x :: nat by simp
    from this [OF o(2) o2(1)] have pn: "pos + n = 32 * (?q + 1) + o2" .
    have m: "(pos + n) mod 32 = o2" "(pos + n) div 32 = ?q + 1" using dm [of o2 "?q + 1", folded pn] o2(2) by simp_all
    have nf: "\<not> int (?o + n) < 32" "int (?o + n) - 32 = int o2" unfolding o2(1) by simp_all
    have "4 * (q + 1) \<le> cap + 100" if "pos = 32 * q + x" for q x :: nat using assms(4) that by simp
    from this [OF o(2)] have p: "4 * (?q + 1) \<le> cap + 100" .
    have s2: "o2 \<noteq> 0 \<Longrightarrow> ones (int o2) = Some (mask o2)" "o2 \<noteq> 0 \<Longrightarrow> shr w (32 - int o2) = Some (drop_bit (32 - o2) w)"
      "o2 \<noteq> 0 \<Longrightarrow> shl w (int o2) = Some (push_bit o2 w)" for w
      using o2(2) by (simp_all add: bit_ones shl_def shr_def nat_diff_distrib)
    define a where "a = push_bit n (bs_accumulator bs) OR (drop_bit (32 - n) (bs_prefetch bs) AND mask n)"
    let ?b = "bs\<lparr>bs_position := int (pos + n), bs_offset := int o2, bs_mask := mask n, bs_accumulator := a,
      bs_prefetch := push_bit n (bs_prefetch bs), bs_pointer := int (4 * (?q + 1))\<rparr>"
    obtain w where w: "BitStream_Prefetch ?b = Some (?b\<lparr>bs_prefetch := w\<rparr>)"
      using prefetch_safe [of ?b "4 * (?q + 1)" cap] r p assms(5,6) by auto
    have nb: "int n \<noteq> 0" "0 < int n" "int n < 32" using assms(2,3) by simp_all
    have rr: "bs_position bs = int pos" "bs_offset bs = int ?o" "bs_pointer bs + 4 = int (4 * (?q + 1))" using r by simp_all
    have st: "BitStream_Shift bs (int n) = do {
        bs \<leftarrow> Some (?b\<lparr>bs_prefetch := w\<rparr>);
        if bs_offset bs \<noteq> 0 then do {
            mask \<leftarrow> ones (bs_offset bs);
            more \<leftarrow> shr (bs_prefetch bs) (32 - bs_offset bs);
            prefetch \<leftarrow> shl (bs_prefetch bs) (bs_offset bs);
            Some (bs\<lparr>bs_mask := mask, bs_accumulator := bs_accumulator bs OR (more AND mask), bs_prefetch := prefetch\<rparr>) }
          else Some bs }"
    proof -
      have "bs\<lparr>bs_position := int (pos + n), bs_offset := int (?o + n), bs_mask := mask n, bs_accumulator := a,
          bs_prefetch := push_bit n (bs_prefetch bs)\<rparr>\<lparr>bs_offset := int o2, bs_pointer := bs_pointer bs + 4\<rparr> = ?b" using rr(3) by simp
      then show ?thesis unfolding w [symmetric] using nb nf c u s rr(1,2)
        by (simp add: BitStream_Shift_def Let_def a_def del: of_nat_add)
    qed
    show ?thesis unfolding st using r s2 m by (cases "o2 = 0") (simp_all add: bs_safe_def)
  qed
qed


section \<open>Any codes\<close>

lemma uint_and_le: "uint (a AND b) \<le> uint b" for a b :: uint32
  using word_and_le1 [of a b] by (simp add: word_le_def)

text \<open>A code has been read, of \<open>lo\<close> to \<open>hi\<close> bits and a value with \<open>P\<close>, or the read failed.\<close>

definition reads_code :: "byte list \<Rightarrow> nat \<Rightarrow> nat \<Rightarrow> nat \<Rightarrow> nat \<Rightarrow> (int \<Rightarrow> bool) \<Rightarrow> (int + (int \<times> wBitStream)) option \<Rightarrow> bool" where
  "reads_code buf cap pos lo hi P res \<longleftrightarrow> (\<exists>st < 0. res = Some (Inl st)) \<or>
     (\<exists>v bs' n. res = Some (Inr (v, bs')) \<and> bs_safe buf cap (pos + n) bs' \<and> lo \<le> n \<and> n \<le> hi \<and> P v)"

lemma code_if: "(c \<Longrightarrow> reads_code buf cap pos lo hi P a) \<Longrightarrow> (\<not> c \<Longrightarrow> reads_code buf cap pos lo hi P b) \<Longrightarrow>
    reads_code buf cap pos lo hi P (if c then a else b)"
  by simp

lemma code_fail: "st < 0 \<Longrightarrow> reads_code buf cap pos lo hi P (Some (Inl st))"
  by (simp add: reads_code_def)

lemma code_shift:
  assumes "bs_safe buf cap pos bs" "pos \<le> 8 * cap + 60" "cap \<le> 268435000" "cap + 14 \<le> length buf" "0 < k" "k < 31" "int lo \<le> k" "k \<le> int hi" "P v"
  shows "reads_code buf cap pos lo hi P (do { bs \<leftarrow> BitStream_Shift bs k; Some (Inr (v, bs)) })"
proof -
  obtain bs' where b: "BitStream_Shift bs (int (nat k)) = Some bs'" "bs_safe buf cap (pos + nat k) bs'"
    using shift_safe [OF assms(1) _ _ _ assms(3,4), of "nat k"] assms(2,5,6) by (auto simp: nat_less_iff)
  show ?thesis unfolding reads_code_def
    by (intro disjI2 exI [of _ v] exI [of _ bs'] exI [of _ "nat k"]) (use b assms(5-9) in \<open>simp add: le_nat_iff nat_le_iff\<close>)
qed

lemma offset_safe:
  assumes "bs_safe buf cap pos bs" "pos \<le> 8 * cap + 60" "cap \<le> 268435000" "cap + 14 \<le> length buf"
  shows "reads_code buf cap pos 0 19 (\<lambda>_. True) (mppc_read_offset level bs)"
  unfolding mppc_read_offset_def Let_def by (intro code_if code_shift [OF assms] code_fail) simp_all

lemma length_safe:
  assumes "bs_safe buf cap pos bs" "pos \<le> 8 * cap + 60" "cap \<le> 268435000" "cap + 14 \<le> length buf"
  shows "reads_code buf cap pos 1 30 (\<lambda>n. 3 \<le> n \<and> (level = 0 \<longrightarrow> n < 8192)) (mppc_read_length level bs)"
proof -
  have v: "3 \<le> uint (w AND m) + d \<and> (level = 0 \<longrightarrow> uint (w AND m) + d < 8192)"
    if "3 \<le> d" "level = 0 \<Longrightarrow> uint m + d < 8192" for w m :: uint32 and d
    using uint_and_le [of w m] that by (smt (verit, best) uint_nonnegative)
  show ?thesis
    unfolding mppc_read_length_def Let_def by (intro code_if code_shift [OF assms] code_fail v) simp_all
qed

section \<open>The decompressor of RDP 4\<close>

definition history_ok :: "byte list \<Rightarrow> int \<Rightarrow> bool" where
  "history_ok h hp \<longleftrightarrow> length h = 65536 \<and> 0 \<le> hp \<and> hp \<le> 8192"

lemma copy_total:
  assumes "dst + n \<le> length h" "src + n \<le> length h"
  shows "mppc_copy h (int dst) (int src) n = Some (cpy h dst src n)"
  using copy_cpy [OF assms] .

text \<open>The loop returns: every round takes a bit of the packet or ends it.\<close>

lemma loop_safe:
  assumes "bs_safe buf cap pos bs" "pos \<le> 8 * cap + 60" "cap \<le> 268435000" "cap + 14 \<le> length buf" "history_ok h hp"
  shows "\<exists>st bs' h' hp'. mppc_decompress_loop 0 8192 bs h hp = Some (st, bs', h', hp') \<and> history_ok h' hp' \<and> hp \<le> hp' \<and> (0 \<le> st \<longrightarrow> st = 1)"
  using assms(1,2,5)
proof (induction "8 * cap + 60 - pos" arbitrary: pos bs h hp rule: less_induct)
  case less
  note r = less.prems(1) [unfolded bs_safe_def]
  let ?loop = "mppc_decompress_loop 0 8192" and ?acc = "bs_accumulator bs"
  have h: "length h = 65536" "0 \<le> hp" "hp \<le> 8192" using less.prems(3) by (simp_all add: history_ok_def)
  show ?case
  proof (cases "pos + 8 \<le> 8 * cap")
    case False
    then have "?loop bs h hp = Some (1, bs, h, hp)" using r by (subst mppc_decompress_loop.simps) simp
    then show ?thesis using less.prems(3) by simp
  next
    case True
    then have g: "8 \<le> bs_length bs - bs_position bs" using r by simp
    have ih: "\<exists>st bs' h' hp'. ?loop bs1 h1 hp1 = Some (st, bs', h', hp') \<and> history_ok h' hp' \<and> hp \<le> hp' \<and> (0 \<le> st \<longrightarrow> st = 1)"
      if "bs_safe buf cap pos1 bs1" "pos < pos1" "pos1 \<le> pos + 49" "history_ok h1 hp1" "hp \<le> hp1" for pos1 bs1 h1 hp1
    proof -
      have "8 * cap + 60 - pos1 < 8 * cap + 60 - pos" "pos1 \<le> 8 * cap + 60" using that True by simp_all
      from less.hyps [OF this(1) that(1) this(2) that(4)] obtain st bs' h' hp' where
        "?loop bs1 h1 hp1 = Some (st, bs', h', hp') \<and> history_ok h' hp' \<and> hp1 \<le> hp' \<and> (0 \<le> st \<longrightarrow> st = 1)" by blast
      with that(5) show ?thesis by (intro exI [of _ st] exI [of _ bs'] exI [of _ h'] exI [of _ hp']) simp
    qed
    consider "8191 < hp" | "hp \<le> 8191" "?acc AND 0x80000000 = 0" | "hp \<le> 8191" "?acc AND 0x80000000 \<noteq> 0" "?acc AND 0xC0000000 = 0x80000000"
      | "hp \<le> 8191" "?acc AND 0x80000000 \<noteq> 0" "?acc AND 0xC0000000 \<noteq> 0x80000000" by linarith
    then show ?thesis
    proof cases
      case 1
      then have "?loop bs h hp = Some (- 1004, bs, h, hp)" using g by (subst mppc_decompress_loop.simps) simp
      then show ?thesis using less.prems(3) by simp
    next
      case 2
      obtain bs' where b: "BitStream_Shift bs 8 = Some bs'" "bs_safe buf cap (pos + 8) bs'"
        using shift_safe [OF less.prems(1) _ _ _ assms(3,4), of 8] less.prems(2) by auto
      have "?loop bs h hp = ?loop bs' (h[nat hp := ucast (drop_bit 24 (?acc AND 0x7F000000))]) (hp + 1)"
        using g 2 b(1) h by (subst mppc_decompress_loop.simps) (simp add: aset_def)
      then show ?thesis using ih [OF b(2)] h 2(1) by (simp add: history_ok_def)
    next
      case 3
      obtain bs' where b: "BitStream_Shift bs 9 = Some bs'" "bs_safe buf cap (pos + 9) bs'"
        using shift_safe [OF less.prems(1) _ _ _ assms(3,4), of 9] less.prems(2) by auto
      have "?loop bs h hp = ?loop bs' (h[nat hp := ucast (drop_bit 23 (?acc AND 0x3F800000) + 0x80)]) (hp + 1)"
        using g 3 b(1) h by (subst mppc_decompress_loop.simps) (simp add: aset_def)
      then show ?thesis using ih [OF b(2)] h 3(1) by (simp add: history_ok_def)
    next
      case 4
      have st: "?loop bs h hp = (case mppc_read_offset 0 bs of None \<Rightarrow> None
           | Some (Inl status) \<Rightarrow> Some (status, bs, h, hp)
           | Some (Inr (CopyOffset, bs)) \<Rightarrow>
               (case mppc_read_length 0 bs of
                  None \<Rightarrow> None
                | Some (Inl status) \<Rightarrow> Some (status, bs, h, hp)
                | Some (Inr (LengthOfMatch, bs)) \<Rightarrow>
                    if 8192 - 1 < hp + LengthOfMatch - 1 then Some (- 1005, bs, h, hp)
                    else do {
                      h \<leftarrow> mppc_copy h hp ((hp - CopyOffset) AND 0x1FFF) (nat LengthOfMatch);
                      ?loop bs h (hp + LengthOfMatch) }))"
        using g 4 by (subst mppc_decompress_loop.simps) simp
      have hk: "history_ok h hp" using less.prems(3) .
      from offset_safe [OF less.prems(1,2) assms(3,4), of 0] show ?thesis unfolding reads_code_def
      proof (elim disjE exE conjE)
        fix st assume "st < 0" "mppc_read_offset 0 bs = Some (Inl st)"
        then show ?thesis using hk by (simp add: st)
      next
        fix co bs1 n1
        assume o: "mppc_read_offset 0 bs = Some (Inr (co, bs1))" "bs_safe buf cap (pos + n1) bs1" "n1 \<le> 19"
        have p1: "pos + n1 \<le> 8 * cap + 60" using True o(3) by simp
        from length_safe [OF o(2) p1 assms(3,4), of 0] show ?thesis unfolding reads_code_def
        proof (elim disjE exE conjE)
          fix st assume "st < 0" "mppc_read_length 0 bs1 = Some (Inl st)"
          then show ?thesis using hk by (simp add: st o(1))
        next
          fix len bs2 n2
          assume l: "mppc_read_length 0 bs1 = Some (Inr (len, bs2))" "bs_safe buf cap (pos + n1 + n2) bs2" "1 \<le> n2" "n2 \<le> 30"
            "3 \<le> len" "0 = 0 \<longrightarrow> len < 8192"
          show ?thesis
          proof (cases "8191 < hp + len - 1")
            case True
            then show ?thesis using hk by (simp add: st o(1) l(1))
          next
            case False
            obtain d m where d: "hp = int d" "len = int m" using h(2) l(5) by (metis nonneg_int_cases order_trans zero_le_numeral)
            obtain src where src: "(hp - co) AND 0x1FFF = int src" "src < 8192"
            proof -
              have "(hp - co) AND 0x1FFF = (hp - co) mod 8192" using take_bit_eq_mask [of 13 "hp - co"] by (simp add: mask_numeral take_bit_eq_mod)
              then show ?thesis by (intro that [of "nat ((hp - co) mod 8192)"]) (simp_all add: nat_less_iff)
            qed
            have "d + m \<le> length h" "src + m \<le> length h" "m < 8192" using False d src(2) h(1) l(6) by simp_all
            then have c: "mppc_copy h hp ((hp - co) AND 0x1FFF) (nat len) = Some (cpy h d src m)"
              by (simp only: src(1), simp add: d copy_cpy)
            have "history_ok (cpy h d src m) (hp + len)" using False h l(5) by (simp add: history_ok_def)
            moreover have "pos < pos + n1 + n2" "pos + n1 + n2 \<le> pos + 49" "hp \<le> hp + len" using o(3) l(3-5) by simp_all
            ultimately show ?thesis using ih [OF l(2)] False c by (simp add: st o(1) l(1))
          qed
        qed
      qed
    qed
  qed
qed


lemma bitat_Cons: "bitat (x # xs) i = (if i < 8 then bit x (7 - i) else bitat xs (i - 8))"
proof (cases "i < 8")
  case False
  then obtain j where "i = j + 8" by (metis add.commute le_add_diff_inverse not_less)
  moreover have "(j + 8) div 8 = Suc (j div 8)" by simp
  ultimately show ?thesis by (simp add: bitat_def)
qed (simp add: bitat_def)

lemma sees_map: "sees buf pos bl \<longleftrightarrow> map (\<lambda>i. bitat buf (pos + i)) [0..<length bl] = bl"
  unfolding list_eq_iff_nth_eq sees_def by simp

text \<open>The bits of a packet of two bytes: offset 1 and length 3.\<close>

lemma far_match:
  "sees ([0xF8, 0x20] @ xs) 0 (code_bits (off_code True 1))" "sees ([0xF8, 0x20] @ xs) 11 (code_bits (len_code 3))"
proof -
  have "[0..<11] = [0, 1, 2, 3, 4, 5, 6, 7, 8, 9, 10]" by (simp add: upt_rec)
  then have "nbits 11 1985 = [True, True, True, True, True, False, False, False, False, False, True]"
    unfolding nbits_def by (simp add: bit_0 bit_Suc)
  then show "sees ([0xF8, 0x20] @ xs) 0 (code_bits (off_code True 1))" by (simp add: sees_map bitat_Cons bit_0 bit_Suc)
  show "sees ([0xF8, 0x20] @ xs) 11 (code_bits (len_code 3))" by (simp add: len_code_def sees_map nbits_def bitat_Cons bit_0 bit_Suc)
qed

lemma copy_outside: "length h = 65536 \<Longrightarrow> mppc_copy h 0 65535 (Suc (Suc n)) = None"
  by (simp add: aget_def aset_def)

lemma new_decompressor:
  assumes "mppc_context_new True 1 False = Some d"
  shows "mp_HistoryBuffer d = replicate 65536 0" "mp_HistoryBufferSize d = 65536" "mp_CompressionLevel d = 1" "mp_HistoryPtr d = 0"
proof -
  obtain bs where "d = \<lparr>mp_bs = bs, mp_Compressor = False, mp_HistoryPtr = 0, mp_HistoryOffset = 0, mp_HistoryBufferSize = 65536,
    mp_HistoryBuffer = replicate 65536 0, mp_MatchBuffer = replicate 32768 0, mp_CompressionLevel = 1\<rparr>"
    using assms by (simp add: mppc_context_new_def BitStream_New_def mppc_context_reset_def Let_def) (drule sym, simp)
  then show "mp_HistoryBuffer d = replicate 65536 0" "mp_HistoryBufferSize d = 65536" "mp_CompressionLevel d = 1" "mp_HistoryPtr d = 0"
    by simp_all
qed

section \<open>Properties\<close>

text \<open>A decompressor of RDP 4 between packets.\<close>

definition rdp4_ok :: "MPPC_CONTEXT \<Rightarrow> bool" where
  "rdp4_ok d \<longleftrightarrow> history_ok (mp_HistoryBuffer d) (mp_HistoryPtr d) \<and> mp_HistoryBufferSize d = 8192 \<and> mp_CompressionLevel d = 0"

text \<open>
  C16. At the level of RDP 4 the decompressor takes any bytes with any flags: it returns, it stays inside the history and
  at most 14 bytes behind the packet, it gives data exactly when the status is 1,
  from a compressed packet never more than the 8192 bytes of the history, and its context stays well-formed.
\<close>

theorem mppc_decompress_rdp4_safe:
  assumes "rdp4_ok d" "length data \<le> 268435000" "14 \<le> length slack"
  shows "\<exists>status out d'. mppc_decompress d (data @ slack) (int (length data)) flags = Some (status, out, d') \<and> rdp4_ok d'
    \<and> (status = 1 \<longleftrightarrow> out \<noteq> None) \<and> (status = 1 \<or> status < 0)
    \<and> (\<forall>x. out = Some x \<longrightarrow> flags AND PACKET_COMPRESSED \<noteq> 0 \<longrightarrow> length x \<le> 8192)"
proof -
  obtain bs1 bs2 where b: "BitStream_Attach (mp_bs d) (data @ slack) (int (length data)) = Some bs1" "BitStream_Fetch bs1 = Some bs2"
    "bs_safe (data @ slack) (length data) 0 bs2"
    using attach_safe [of "length data" "data @ slack" "mp_bs d"] assms(2,3) by auto
  define d1 where "d1 = (if flags AND PACKET_AT_FRONT \<noteq> 0 then d\<lparr>mp_bs := bs2, mp_HistoryOffset := 0, mp_HistoryPtr := 0\<rparr> else d\<lparr>mp_bs := bs2\<rparr>)"
  have d1: "rdp4_ok d1" "mp_bs d1 = bs2" using assms(1) by (simp_all add: d1_def rdp4_ok_def history_ok_def)
  obtain d2 where d2: "(if flags AND PACKET_FLUSHED \<noteq> 0 then do {
         h \<leftarrow> afill (mp_HistoryBuffer d1) 0 (mp_HistoryBufferSize d1) 0;
         Some (d1\<lparr>mp_HistoryOffset := 0, mp_HistoryPtr := 0, mp_HistoryBuffer := h\<rparr>) }
       else Some d1) = Some d2" "rdp4_ok d2" "mp_bs d2 = bs2"
  proof (cases "flags AND PACKET_FLUSHED \<noteq> 0")
    case True
    obtain h where "afill (mp_HistoryBuffer d1) 0 (mp_HistoryBufferSize d1) 0 = Some h" "length h = 65536"
      using d1 by (simp add: afill_def rdp4_ok_def history_ok_def)
    with True d1 show ?thesis
      by (intro that [of "d1\<lparr>mp_HistoryOffset := 0, mp_HistoryPtr := 0, mp_HistoryBuffer := h\<rparr>"]) (simp_all add: rdp4_ok_def history_ok_def)
  qed (use d1 that in simp)
  have st: "mppc_decompress d (data @ slack) (int (length data)) flags = (if flags AND PACKET_COMPRESSED = 0 then do {
       data \<leftarrow> ablock (data @ slack) 0 (int (length data));
       Some (1, Some data, d2) }
     else do {
       (status, bs, h, hp) \<leftarrow> mppc_decompress_loop (mp_CompressionLevel d2) (mp_HistoryBufferSize d2) (mp_bs d2) (mp_HistoryBuffer d2) (mp_HistoryPtr d2);
       let mppc = d2\<lparr>mp_bs := bs, mp_HistoryBuffer := h\<rparr>;
       if status < 0 then Some (status, None, mppc)
       else do {
         data \<leftarrow> ablock h (mp_HistoryPtr mppc) (hp - mp_HistoryPtr mppc);
         Some (1, Some data, mppc\<lparr>mp_HistoryPtr := hp\<rparr>) } })"
    unfolding mppc_decompress_def Let_def b(1,2) Option.bind.bind_lunit d2(1) [unfolded d1_def] by (simp add: d2(3))
  show ?thesis
  proof (cases "flags AND PACKET_COMPRESSED = 0")
    case True
    then show ?thesis using d2(2) unfolding st by (simp add: ablock_def)
  next
    case False
    have r: "mp_HistoryBufferSize d2 = 8192" "mp_CompressionLevel d2 = 0" "history_ok (mp_HistoryBuffer d2) (mp_HistoryPtr d2)"
      using d2(2) by (simp_all add: rdp4_ok_def)
    obtain status bs' h' hp' where l: "mppc_decompress_loop 0 8192 bs2 (mp_HistoryBuffer d2) (mp_HistoryPtr d2) = Some (status, bs', h', hp')"
      "history_ok h' hp'" "mp_HistoryPtr d2 \<le> hp'" "0 \<le> status \<longrightarrow> status = 1"
      using loop_safe [OF b(3) _ assms(2) _ r(3)] assms(3) by auto
    show ?thesis
    proof (cases "status < 0")
      case True
      then show ?thesis using False l r d2(3) unfolding st by (simp add: rdp4_ok_def history_ok_def)
    next
      case nonneg: False
      have "ablock h' (mp_HistoryPtr d2) (hp' - mp_HistoryPtr d2) = Some (take (nat (hp' - mp_HistoryPtr d2)) (drop (nat (mp_HistoryPtr d2)) h'))"
        using l(2,3) r(3) by (simp add: ablock_def history_ok_def)
      moreover have "nat (hp' - mp_HistoryPtr d2) \<le> 8192" using l(2) r(3) by (auto simp: history_ok_def nat_le_iff)
      ultimately show ?thesis using False nonneg l r d2(3) unfolding st by (simp add: rdp4_ok_def history_ok_def min_le_iff_disj)
    qed
  qed
qed

theorem mppc_decompress_rdp4_safe_witness:
  "\<exists>d status out d'. mppc_decompress d ([255, 255, 255] @ replicate 14 0) (int (length [255, 255, 255 :: byte])) PACKET_COMPRESSED = Some (status, out, d')
    \<and> rdp4_ok d' \<and> (status = 1 \<longleftrightarrow> out \<noteq> None) \<and> (status = 1 \<or> status < 0)
    \<and> (\<forall>x. out = Some x \<longrightarrow> PACKET_COMPRESSED AND PACKET_COMPRESSED \<noteq> 0 \<longrightarrow> length x \<le> 8192)"
proof -
  obtain bs where bs: "BitStream_New True = Some bs" by (simp add: BitStream_New_def)
  define d where "d = \<lparr>mp_bs = bs, mp_Compressor = False, mp_HistoryPtr = 0, mp_HistoryOffset = 0, mp_HistoryBufferSize = 8192,
    mp_HistoryBuffer = replicate 65536 0, mp_MatchBuffer = replicate 32768 0, mp_CompressionLevel = 0\<rparr>"
  have "rdp4_ok d" by (simp add: d_def rdp4_ok_def history_ok_def)
  moreover have "length [255, 255, 255 :: byte] \<le> 268435000" "14 \<le> length (replicate 14 (0 :: byte))" by simp_all
  ultimately show ?thesis using mppc_decompress_rdp4_safe [of d "[255, 255, 255]" "replicate 14 0" PACKET_COMPRESSED] by blast
qed

text \<open>
  C17. At the level of RDP 5 nothing checks the source of a match: a packet of two bytes, one match at offset 1 of
  the first byte of the history, makes the decompressor read behind the history of a new context.
\<close>

theorem mppc_decompress_reads_past_history:
  assumes "mppc_context_new True 1 False = Some d"
  shows "mppc_decompress d ([0xF8, 0x20] @ replicate 14 0) 2 PACKET_COMPRESSED = None"
proof -
  let ?buf = "[0xF8, 0x20] @ replicate 14 0 :: byte list"
  have s: "sees ?buf 0 (code_bits (off_code True 1))" "sees ?buf (0 + fst (off_code True 1)) (code_bits (len_code 3))"
    using far_match [of "replicate 14 0"] by simp_all
  note d = new_decompressor [OF assms]
  obtain bs1 bs2 where b: "BitStream_Attach (mp_bs d) ?buf (int 2) = Some bs1" "BitStream_Fetch bs1 = Some bs2" "bs_reads bs2 ?buf 2 0"
    using attach_reads [of 2 ?buf "mp_bs d"] by auto
  obtain bs3 where o: "mppc_read_offset (of_bool True) bs2 = Some (Inr (int 1, bs3))" "bs_reads bs3 ?buf 2 (0 + fst (off_code True 1))"
    using off_reads [OF b(3) s(1)] by (auto simp: wlevel_def)
  obtain bs4 where l: "mppc_read_length (of_bool True) bs3 = Some (Inr (int 3, bs4))"
    using len_reads [OF o(2) s(2), of True] by (auto simp: wlevel_def len_code_def)
  have "1 < wlevel True" by (simp add: wlevel_def)
  note nl = off_not_lit [OF b(3) s(1) this]
  have len: "8 \<le> bs_length bs2 - bs_position bs2" using b(3) by (simp add: bs_reads_def)
  let ?h = "replicate 65536 0 :: byte list"
  have "nat 3 = Suc (Suc (Suc 0))" by simp
  then have "mppc_copy ?h 0 65535 (nat 3) = None" by (simp only: copy_outside length_replicate)
  then have "mppc_decompress_loop 1 65536 bs2 ?h 0 = None"
    using len nl o(1) l by (subst mppc_decompress_loop.simps) simp
  then show ?thesis using b(1,2) d by (simp add: mppc_decompress_def)
qed

theorem mppc_decompress_reads_past_history_witness:
  "\<exists>d. mppc_context_new True 1 False = Some d \<and> mppc_decompress d ([0xF8, 0x20] @ replicate 14 0) 2 PACKET_COMPRESSED = None"
proof -
  obtain d where d: "mppc_context_new True 1 False = Some d" by (simp add: mppc_context_new_def BitStream_New_def)
  from d mppc_decompress_reads_past_history [OF d] show ?thesis by blast
qed

end
