(* ===== verification/WUpdate.thy ===== *)
theory WUpdate
  imports WStream
begin

text \<open>
  The graphics updates of \<open>libfreerdp/core/update.c\<close> and the surface commands of \<open>libfreerdp/core/surface.c\<close>:
  bitmaps, palette, pointers, sound, surface bits and frame markers, as they are parsed and written.

  A parser fills in a struct that lives in the \<open>rdpUpdate\<close> from one update to the next, so it takes the struct and
  returns it with its \<open>BOOL\<close> or status, also when it fails half way. A pointer into the stream
  (\<open>bitmapDataStream\<close>, \<open>bitmapData\<close>) is the block of bytes the code that uses it reads there. The
  application's callbacks, the parser of one drawing order, the outcome of each allocation and the capture
  file of \<open>dump_rfx\<close> are the record \<open>updates\<close> of functions on a world \<open>'w\<close>; a callback that is not set is the identity.
\<close>

section \<open>Data\<close>

abbreviation (input) UPDATE_TYPE_ORDERS :: int where "UPDATE_TYPE_ORDERS \<equiv> 0"
abbreviation (input) UPDATE_TYPE_BITMAP :: int where "UPDATE_TYPE_BITMAP \<equiv> 1"
abbreviation (input) UPDATE_TYPE_PALETTE :: int where "UPDATE_TYPE_PALETTE \<equiv> 2"
abbreviation (input) UPDATE_TYPE_SYNCHRONIZE :: int where "UPDATE_TYPE_SYNCHRONIZE \<equiv> 3"
abbreviation (input) BITMAP_COMPRESSION :: int where "BITMAP_COMPRESSION \<equiv> 1"
abbreviation (input) NO_BITMAP_COMPRESSION_HDR :: int where "NO_BITMAP_COMPRESSION_HDR \<equiv> 0x400"
abbreviation (input) PTR_MSG_TYPE_SYSTEM :: int where "PTR_MSG_TYPE_SYSTEM \<equiv> 1"
abbreviation (input) PTR_MSG_TYPE_POSITION :: int where "PTR_MSG_TYPE_POSITION \<equiv> 3"
abbreviation (input) PTR_MSG_TYPE_COLOR :: int where "PTR_MSG_TYPE_COLOR \<equiv> 6"
abbreviation (input) PTR_MSG_TYPE_CACHED :: int where "PTR_MSG_TYPE_CACHED \<equiv> 7"
abbreviation (input) PTR_MSG_TYPE_POINTER :: int where "PTR_MSG_TYPE_POINTER \<equiv> 8"
abbreviation (input) CMDTYPE_SET_SURFACE_BITS :: int where "CMDTYPE_SET_SURFACE_BITS \<equiv> 1"
abbreviation (input) CMDTYPE_FRAME_MARKER :: int where "CMDTYPE_FRAME_MARKER \<equiv> 4"
abbreviation (input) CMDTYPE_STREAM_SURFACE_BITS :: int where "CMDTYPE_STREAM_SURFACE_BITS \<equiv> 6"

record BITMAP_DATA =
  bd_destLeft :: int
  bd_destTop :: int
  bd_destRight :: int
  bd_destBottom :: int
  bd_width :: int
  bd_height :: int
  bd_bitsPerPixel :: int
  bd_flags :: int
  bd_bitmapLength :: int
  bd_cbCompFirstRowSize :: int
  bd_cbCompMainBodySize :: int
  bd_cbScanWidth :: int
  bd_cbUncompressedSize :: int
  bd_bitmapDataStream :: "byte list"
  bd_compressed :: bool

record BITMAP_UPDATE =
  bu_count :: int
  bu_number :: int
  bu_rectangles :: "BITMAP_DATA list"
  bu_skipCompression :: bool

record PALETTE_ENTRY =
  pe_red :: int
  pe_green :: int
  pe_blue :: int

record PALETTE_UPDATE =
  pu_number :: int
  pu_entries :: "PALETTE_ENTRY list"

record PLAY_SOUND_UPDATE =
  ps_duration :: int
  ps_frequency :: int

record POINTER_POSITION_UPDATE =
  pp_xPos :: int
  pp_yPos :: int

record POINTER_COLOR_UPDATE =
  pc_cacheIndex :: int
  pc_xPos :: int
  pc_yPos :: int
  pc_width :: int
  pc_height :: int
  pc_lengthAndMask :: int
  pc_lengthXorMask :: int
  pc_xorMaskData :: "byte list"
  pc_andMaskData :: "byte list"

record POINTER_NEW_UPDATE =
  pn_xorBpp :: int
  pn_colorPtrAttr :: POINTER_COLOR_UPDATE

record SURFACE_BITS_COMMAND =
  sb_destLeft :: int
  sb_destTop :: int
  sb_destRight :: int
  sb_destBottom :: int
  sb_bpp :: int
  sb_codecID :: int
  sb_width :: int
  sb_height :: int
  sb_bitmapDataLength :: int
  sb_bitmapData :: "byte list"
  sb_skipCompression :: bool

record SURFACE_FRAME_MARKER =
  fm_frameAction :: int
  fm_frameId :: int

record rdpUpdate =
  upd_NoBitmapCompressionHeader :: bool
  upd_dump_rfx :: bool
  upd_bitmap_update :: BITMAP_UPDATE
  upd_palette_update :: PALETTE_UPDATE
  upd_play_sound :: PLAY_SOUND_UPDATE
  upd_surface_bits_command :: SURFACE_BITS_COMMAND
  upd_surface_frame_marker :: SURFACE_FRAME_MARKER
  upd_pointer_position :: POINTER_POSITION_UPDATE
  upd_pointer_system :: int
  upd_pointer_color :: POINTER_COLOR_UPDATE
  upd_pointer_new :: POINTER_NEW_UPDATE
  upd_pointer_cached :: int

record 'w updates =
  cb_BeginPaint :: "'w \<Rightarrow> 'w"
  cb_EndPaint :: "'w \<Rightarrow> 'w"
  cb_Synchronize :: "'w \<Rightarrow> 'w"
  cb_BitmapUpdate :: "BITMAP_UPDATE \<Rightarrow> 'w \<Rightarrow> 'w"
  cb_Palette :: "PALETTE_UPDATE \<Rightarrow> 'w \<Rightarrow> 'w"
  cb_PlaySound :: "PLAY_SOUND_UPDATE \<Rightarrow> 'w \<Rightarrow> 'w"
  cb_SurfaceBits :: "SURFACE_BITS_COMMAND \<Rightarrow> 'w \<Rightarrow> 'w"
  cb_SurfaceFrameMarker :: "SURFACE_FRAME_MARKER \<Rightarrow> 'w \<Rightarrow> 'w"
  cb_PointerPosition :: "POINTER_POSITION_UPDATE \<Rightarrow> 'w \<Rightarrow> 'w"
  cb_PointerSystem :: "int \<Rightarrow> 'w \<Rightarrow> 'w"
  cb_PointerColor :: "POINTER_COLOR_UPDATE \<Rightarrow> 'w \<Rightarrow> 'w"
  cb_PointerNew :: "POINTER_NEW_UPDATE \<Rightarrow> 'w \<Rightarrow> 'w"
  cb_PointerCached :: "int \<Rightarrow> 'w \<Rightarrow> 'w"
  update_recv_order :: "'w \<Rightarrow> wStream \<Rightarrow> ((bool \<times> 'w) \<times> wStream) option"
  realloc_rectangles :: "'w \<Rightarrow> BITMAP_DATA fresh \<times> 'w"
  realloc_mask :: "'w \<Rightarrow> byte fresh \<times> 'w"
  pcap_add_record :: "byte list \<Rightarrow> 'w \<Rightarrow> 'w"

section \<open>Bitmaps and the palette\<close>

definition update_read_bitmap_data :: "BITMAP_DATA \<Rightarrow> wStream \<Rightarrow> ((bool \<times> BITMAP_DATA) \<times> wStream) option" where
  "update_read_bitmap_data d s =
     (if Stream_GetRemainingLength s < 18 then Some ((False, d), s)
      else do {
        (destLeft, s) \<leftarrow> Stream_Read_UINT16 s;
        (destTop, s) \<leftarrow> Stream_Read_UINT16 s;
        (destRight, s) \<leftarrow> Stream_Read_UINT16 s;
        (destBottom, s) \<leftarrow> Stream_Read_UINT16 s;
        (width, s) \<leftarrow> Stream_Read_UINT16 s;
        (height, s) \<leftarrow> Stream_Read_UINT16 s;
        (bitsPerPixel, s) \<leftarrow> Stream_Read_UINT16 s;
        (flags, s) \<leftarrow> Stream_Read_UINT16 s;
        (bitmapLength, s) \<leftarrow> Stream_Read_UINT16 s;
        let d = d\<lparr>bd_destLeft := destLeft, bd_destTop := destTop, bd_destRight := destRight, bd_destBottom := destBottom,
          bd_width := width, bd_height := height, bd_bitsPerPixel := bitsPerPixel, bd_flags := flags,
          bd_bitmapLength := bitmapLength\<rparr>;
        if flags AND BITMAP_COMPRESSION \<noteq> 0 then do {
          (d, s) \<leftarrow>
            (if flags AND NO_BITMAP_COMPRESSION_HDR = 0 then do {
               (cbCompFirstRowSize, s) \<leftarrow> Stream_Read_UINT16 s;
               (cbCompMainBodySize, s) \<leftarrow> Stream_Read_UINT16 s;
               (cbScanWidth, s) \<leftarrow> Stream_Read_UINT16 s;
               (cbUncompressedSize, s) \<leftarrow> Stream_Read_UINT16 s;
               Some (d\<lparr>bd_cbCompFirstRowSize := cbCompFirstRowSize, bd_cbCompMainBodySize := cbCompMainBodySize,
                 bd_cbScanWidth := cbScanWidth, bd_cbUncompressedSize := cbUncompressedSize,
                 bd_bitmapLength := cbCompMainBodySize\<rparr>, s) }
             else Some (d, s));
          (bitmapDataStream, s) \<leftarrow> Stream_Read s (bd_bitmapLength d);
          Some ((True, d\<lparr>bd_compressed := True, bd_bitmapDataStream := bitmapDataStream\<rparr>), s) }
        else if Stream_GetRemainingLength s < bitmapLength then Some ((False, d), s)
        else do {
          (bitmapDataStream, s) \<leftarrow> Stream_Read s bitmapLength;
          Some ((True, d\<lparr>bd_compressed := False, bd_bitmapDataStream := bitmapDataStream\<rparr>), s) } })"

text \<open>What \<open>ZeroMemory\<close> leaves in the new rectangles.\<close>

definition zero_bitmap :: BITMAP_DATA where
  "zero_bitmap = \<lparr>bd_destLeft = 0, bd_destTop = 0, bd_destRight = 0, bd_destBottom = 0, bd_width = 0, bd_height = 0,
     bd_bitsPerPixel = 0, bd_flags = 0, bd_bitmapLength = 0, bd_cbCompFirstRowSize = 0, bd_cbCompMainBodySize = 0,
     bd_cbScanWidth = 0, bd_cbUncompressedSize = 0, bd_bitmapDataStream = [], bd_compressed = False\<rparr>"

text \<open>The loop reads \<open>n\<close> rectangles from the index \<open>i\<close> on.\<close>

fun read_rectangles :: "nat \<Rightarrow> int \<Rightarrow> BITMAP_DATA list \<Rightarrow> wStream \<Rightarrow> ((bool \<times> BITMAP_DATA list) \<times> wStream) option" where
  "read_rectangles 0 i rectangles s = Some ((True, rectangles), s)"
| "read_rectangles (Suc n) i rectangles s = do {
     d \<leftarrow> aget rectangles i;
     ((ok, d), s) \<leftarrow> update_read_bitmap_data d s;
     rectangles \<leftarrow> aset rectangles i d;
     if \<not> ok then Some ((False, rectangles), s) else read_rectangles n (i + 1) rectangles s }"

text \<open>The new \<open>count\<close> is a \<open>UINT16\<close>; the difference of the counts is one of \<open>UINT32\<close> values.\<close>

definition update_read_bitmap_update :: "BITMAP_DATA fresh \<Rightarrow> BITMAP_UPDATE \<Rightarrow> wStream \<Rightarrow>
    ((bool \<times> BITMAP_UPDATE) \<times> wStream) option" where
  "update_read_bitmap_update mem bu s =
     (if Stream_GetRemainingLength s < 2 then Some ((False, bu), s)
      else do {
        (number, s) \<leftarrow> Stream_Read_UINT16 s;
        let bu = bu\<lparr>bu_number := number\<rparr>;
        (ok, bu) \<leftarrow>
          (if bu_count bu < number then
             let count = u16 (number * 2) in
             case mem of None \<Rightarrow> Some (False, bu)
             | Some j \<Rightarrow> do {
                 rectangles \<leftarrow> afill (arealloc (bu_rectangles bu) count j) (bu_count bu)
                   ((count - bu_count bu) mod 4294967296) zero_bitmap;
                 Some (True, bu\<lparr>bu_rectangles := rectangles, bu_count := count\<rparr>) }
           else Some (True, bu));
        if \<not> ok then Some ((False, bu), s)
        else do {
          ((ok, rectangles), s) \<leftarrow> read_rectangles (nat number) 0 (bu_rectangles bu) s;
          Some ((ok, bu\<lparr>bu_rectangles := rectangles\<rparr>), s) } })"

text \<open>The colours \<open>i\<close>, \<open>i + 1\<close>, \<open>\<dots>\<close> of the palette.\<close>

fun read_palette_entries :: "nat \<Rightarrow> int \<Rightarrow> PALETTE_ENTRY list \<Rightarrow> wStream \<Rightarrow> (PALETTE_ENTRY list \<times> wStream) option" where
  "read_palette_entries 0 i entries s = Some (entries, s)"
| "read_palette_entries (Suc n) i entries s = do {
     (red, s) \<leftarrow> Stream_Read_UINT8 s;
     (green, s) \<leftarrow> Stream_Read_UINT8 s;
     (blue, s) \<leftarrow> Stream_Read_UINT8 s;
     entries \<leftarrow> aset entries i \<lparr>pe_red = red, pe_green = green, pe_blue = blue\<rparr>;
     read_palette_entries n (i + 1) entries s }"

definition update_read_palette :: "PALETTE_UPDATE \<Rightarrow> wStream \<Rightarrow> ((bool \<times> PALETTE_UPDATE) \<times> wStream) option" where
  "update_read_palette pu s =
     (if Stream_GetRemainingLength s < 6 then Some ((False, pu), s)
      else do {
        s \<leftarrow> Stream_Seek s 2;
        (number, s) \<leftarrow> Stream_Read_UINT32 s;
        let number = (if 256 < number then 256 else number);
        let pu = pu\<lparr>pu_number := number\<rparr>;
        if Stream_GetRemainingLength s < number * 3 then Some ((False, pu), s)
        else do {
          (entries, s) \<leftarrow> read_palette_entries (nat number) 0 (pu_entries pu) s;
          Some ((True, pu\<lparr>pu_entries := entries\<rparr>), s) } })"

section \<open>Pointers and sound\<close>

definition update_read_synchronize :: "wStream \<Rightarrow> wStream option" where
  "update_read_synchronize s = Stream_Seek s 2"

definition update_read_play_sound :: "PLAY_SOUND_UPDATE \<Rightarrow> wStream \<Rightarrow> ((bool \<times> PLAY_SOUND_UPDATE) \<times> wStream) option" where
  "update_read_play_sound p s =
     (if Stream_GetRemainingLength s < 8 then Some ((False, p), s)
      else do {
        (duration, s) \<leftarrow> Stream_Read_UINT32 s;
        (frequency, s) \<leftarrow> Stream_Read_UINT32 s;
        Some ((True, p\<lparr>ps_duration := duration, ps_frequency := frequency\<rparr>), s) })"

definition update_read_pointer_position :: "POINTER_POSITION_UPDATE \<Rightarrow> wStream \<Rightarrow>
    ((bool \<times> POINTER_POSITION_UPDATE) \<times> wStream) option" where
  "update_read_pointer_position p s =
     (if Stream_GetRemainingLength s < 4 then Some ((False, p), s)
      else do {
        (xPos, s) \<leftarrow> Stream_Read_UINT16 s;
        (yPos, s) \<leftarrow> Stream_Read_UINT16 s;
        Some ((True, p\<lparr>pp_xPos := xPos, pp_yPos := yPos\<rparr>), s) })"

definition update_read_pointer_system :: "int \<Rightarrow> wStream \<Rightarrow> ((bool \<times> int) \<times> wStream) option" where
  "update_read_pointer_system type s =
     (if Stream_GetRemainingLength s < 4 then Some ((False, type), s)
      else do { (type, s) \<leftarrow> Stream_Read_UINT32 s; Some ((True, type), s) })"

definition update_read_pointer_cached :: "int \<Rightarrow> wStream \<Rightarrow> ((bool \<times> int) \<times> wStream) option" where
  "update_read_pointer_cached cacheIndex s =
     (if Stream_GetRemainingLength s < 2 then Some ((False, cacheIndex), s)
      else do { (cacheIndex, s) \<leftarrow> Stream_Read_UINT16 s; Some ((True, cacheIndex), s) })"

text \<open>The bytes of a scan line of a mask: whole bytes, in an even number.\<close>

definition scanlineSize :: "int \<Rightarrow> int \<Rightarrow> int" where
  "scanlineSize bpp width = (let n = (7 + bpp * width) div 8 in (n + 1) div 2 * 2)"

text \<open>
  Reading one mask of the length \<open>len\<close> into a fresh block: the result \<open>None\<close> is a return of \<open>FALSE\<close>. A length of 0
  leaves the mask of the last pointer in place.
\<close>

definition read_pointer_mask :: "byte fresh \<Rightarrow> int \<Rightarrow> int \<Rightarrow> int \<Rightarrow> int \<Rightarrow> byte list \<Rightarrow> wStream \<Rightarrow>
    (byte list option \<times> wStream) option" where
  "read_pointer_mask mem bpp width height len old s =
     (if 0 < len then
        if Stream_GetRemainingLength s < len then Some (None, s)
        else if scanlineSize bpp width * height \<noteq> len then Some (None, s)
        else (case mem of None \<Rightarrow> Some (None, s)
          | Some j \<Rightarrow> do {
              (bs, s) \<leftarrow> Stream_Read s len;
              newMask \<leftarrow> ablit (arealloc old len j) 0 bs;
              Some (Some newMask, s) })
      else Some (Some old, s))"

definition update_read_pointer_color :: "byte fresh \<Rightarrow> byte fresh \<Rightarrow> int \<Rightarrow> POINTER_COLOR_UPDATE \<Rightarrow> wStream \<Rightarrow>
    ((bool \<times> POINTER_COLOR_UPDATE) \<times> wStream) option" where
  "update_read_pointer_color mem1 mem2 xorBpp p s =
     (if Stream_GetRemainingLength s < 14 then Some ((False, p), s)
      else do {
        (cacheIndex, s) \<leftarrow> Stream_Read_UINT16 s;
        (xPos, s) \<leftarrow> Stream_Read_UINT16 s;
        (yPos, s) \<leftarrow> Stream_Read_UINT16 s;
        (width, s) \<leftarrow> Stream_Read_UINT16 s;
        (height, s) \<leftarrow> Stream_Read_UINT16 s;
        let p = p\<lparr>pc_cacheIndex := cacheIndex, pc_xPos := xPos, pc_yPos := yPos, pc_width := width, pc_height := height\<rparr>;
        if 96 < width \<or> 96 < height then Some ((False, p), s)
        else do {
          (lengthAndMask, s) \<leftarrow> Stream_Read_UINT16 s;
          (lengthXorMask, s) \<leftarrow> Stream_Read_UINT16 s;
          let p = p\<lparr>pc_lengthAndMask := lengthAndMask, pc_lengthXorMask := lengthXorMask,
            pc_xPos := (if width \<le> xPos then 0 else xPos), pc_yPos := (if height \<le> yPos then 0 else yPos)\<rparr>;
          (xorMask, s) \<leftarrow> read_pointer_mask mem1 xorBpp width height lengthXorMask (pc_xorMaskData p) s;
          case xorMask of None \<Rightarrow> Some ((False, p), s)
          | Some xorMaskData \<Rightarrow> do {
              let p = p\<lparr>pc_xorMaskData := xorMaskData\<rparr>;
              (andMask, s) \<leftarrow> read_pointer_mask mem2 1 width height lengthAndMask (pc_andMaskData p) s;
              case andMask of None \<Rightarrow> Some ((False, p), s)
              | Some andMaskData \<Rightarrow> do {
                  s \<leftarrow> (if 0 < Stream_GetRemainingLength s then Stream_Seek s 1 else Some s);
                  Some ((True, p\<lparr>pc_andMaskData := andMaskData\<rparr>), s) } } } })"

definition update_read_pointer_new :: "byte fresh \<Rightarrow> byte fresh \<Rightarrow> POINTER_NEW_UPDATE \<Rightarrow> wStream \<Rightarrow>
    ((bool \<times> POINTER_NEW_UPDATE) \<times> wStream) option" where
  "update_read_pointer_new mem1 mem2 p s =
     (if Stream_GetRemainingLength s < 2 then Some ((False, p), s)
      else do {
        (xorBpp, s) \<leftarrow> Stream_Read_UINT16 s;
        let p = p\<lparr>pn_xorBpp := xorBpp\<rparr>;
        if xorBpp < 1 \<or> 32 < xorBpp then Some ((False, p), s)
        else do {
          ((ok, c), s) \<leftarrow> update_read_pointer_color mem1 mem2 xorBpp (pn_colorPtrAttr p) s;
          Some ((ok, p\<lparr>pn_colorPtrAttr := c\<rparr>), s) } })"

section \<open>Receiving updates\<close>

text \<open>What a handler returns: its \<open>BOOL\<close> or status, the updates and the world, and the stream.\<close>

type_synonym ('r, 'w) handled = "(('r \<times> rdpUpdate \<times> 'w) \<times> wStream) option"

definition recv_bitmap_update :: "'w updates \<Rightarrow> rdpUpdate \<Rightarrow> 'w \<Rightarrow> wStream \<Rightarrow> (bool, 'w) handled" where
  "recv_bitmap_update U upd w s = do {
     let (mem, w) = realloc_rectangles U w;
     ((ok, v), s) \<leftarrow> update_read_bitmap_update mem (upd_bitmap_update upd) s;
     Some ((ok, upd\<lparr>upd_bitmap_update := v\<rparr>, if ok then cb_BitmapUpdate U v w else w), s) }"

definition recv_palette :: "'w updates \<Rightarrow> rdpUpdate \<Rightarrow> 'w \<Rightarrow> wStream \<Rightarrow> (bool, 'w) handled" where
  "recv_palette U upd w s = do {
     ((ok, v), s) \<leftarrow> update_read_palette (upd_palette_update upd) s;
     Some ((ok, upd\<lparr>upd_palette_update := v\<rparr>, if ok then cb_Palette U v w else w), s) }"

definition update_recv_play_sound :: "'w updates \<Rightarrow> rdpUpdate \<Rightarrow> 'w \<Rightarrow> wStream \<Rightarrow> (bool, 'w) handled" where
  "update_recv_play_sound U upd w s = do {
     ((ok, v), s) \<leftarrow> update_read_play_sound (upd_play_sound upd) s;
     Some ((ok, upd\<lparr>upd_play_sound := v\<rparr>, if ok then cb_PlaySound U v w else w), s) }"

definition recv_pointer_position :: "'w updates \<Rightarrow> rdpUpdate \<Rightarrow> 'w \<Rightarrow> wStream \<Rightarrow> (bool, 'w) handled" where
  "recv_pointer_position U upd w s = do {
     ((ok, v), s) \<leftarrow> update_read_pointer_position (upd_pointer_position upd) s;
     Some ((ok, upd\<lparr>upd_pointer_position := v\<rparr>, if ok then cb_PointerPosition U v w else w), s) }"

definition recv_pointer_system :: "'w updates \<Rightarrow> rdpUpdate \<Rightarrow> 'w \<Rightarrow> wStream \<Rightarrow> (bool, 'w) handled" where
  "recv_pointer_system U upd w s = do {
     ((ok, v), s) \<leftarrow> update_read_pointer_system (upd_pointer_system upd) s;
     Some ((ok, upd\<lparr>upd_pointer_system := v\<rparr>, if ok then cb_PointerSystem U v w else w), s) }"

definition recv_pointer_color :: "'w updates \<Rightarrow> rdpUpdate \<Rightarrow> 'w \<Rightarrow> wStream \<Rightarrow> (bool, 'w) handled" where
  "recv_pointer_color U upd w s = do {
     let (mem1, w) = realloc_mask U w;
     let (mem2, w) = realloc_mask U w;
     ((ok, v), s) \<leftarrow> update_read_pointer_color mem1 mem2 24 (upd_pointer_color upd) s;
     Some ((ok, upd\<lparr>upd_pointer_color := v\<rparr>, if ok then cb_PointerColor U v w else w), s) }"

definition recv_pointer_new :: "'w updates \<Rightarrow> rdpUpdate \<Rightarrow> 'w \<Rightarrow> wStream \<Rightarrow> (bool, 'w) handled" where
  "recv_pointer_new U upd w s = do {
     let (mem1, w) = realloc_mask U w;
     let (mem2, w) = realloc_mask U w;
     ((ok, v), s) \<leftarrow> update_read_pointer_new mem1 mem2 (upd_pointer_new upd) s;
     Some ((ok, upd\<lparr>upd_pointer_new := v\<rparr>, if ok then cb_PointerNew U v w else w), s) }"

definition recv_pointer_cached :: "'w updates \<Rightarrow> rdpUpdate \<Rightarrow> 'w \<Rightarrow> wStream \<Rightarrow> (bool, 'w) handled" where
  "recv_pointer_cached U upd w s = do {
     ((ok, v), s) \<leftarrow> update_read_pointer_cached (upd_pointer_cached upd) s;
     Some ((ok, upd\<lparr>upd_pointer_cached := v\<rparr>, if ok then cb_PointerCached U v w else w), s) }"

definition update_recv_pointer :: "'w updates \<Rightarrow> rdpUpdate \<Rightarrow> 'w \<Rightarrow> wStream \<Rightarrow> (bool, 'w) handled" where
  "update_recv_pointer U upd w s =
     (if Stream_GetRemainingLength s < 2 + 2 then Some ((False, upd, w), s)
      else do {
        (messageType, s) \<leftarrow> Stream_Read_UINT16 s;
        s \<leftarrow> Stream_Seek s 2;
        if messageType = PTR_MSG_TYPE_POSITION then recv_pointer_position U upd w s
        else if messageType = PTR_MSG_TYPE_SYSTEM then recv_pointer_system U upd w s
        else if messageType = PTR_MSG_TYPE_COLOR then recv_pointer_color U upd w s
        else if messageType = PTR_MSG_TYPE_POINTER then recv_pointer_new U upd w s
        else if messageType = PTR_MSG_TYPE_CACHED then recv_pointer_cached U upd w s
        else Some ((True, upd, w), s) })"

text \<open>The loop over the drawing orders of an update.\<close>

fun recv_orders_loop :: "'w updates \<Rightarrow> nat \<Rightarrow> 'w \<Rightarrow> wStream \<Rightarrow> ((bool \<times> 'w) \<times> wStream) option" where
  "recv_orders_loop U 0 w s = Some ((True, w), s)"
| "recv_orders_loop U (Suc n) w s = do {
     ((ok, w), s) \<leftarrow> update_recv_order U w s;
     if \<not> ok then Some ((False, w), s) else recv_orders_loop U n w s }"

definition update_recv_orders :: "'w updates \<Rightarrow> 'w \<Rightarrow> wStream \<Rightarrow> ((bool \<times> 'w) \<times> wStream) option" where
  "update_recv_orders U w s =
     (if Stream_GetRemainingLength s < 6 then Some ((False, w), s)
      else do {
        s \<leftarrow> Stream_Seek s 2;
        (numberOrders, s) \<leftarrow> Stream_Read_UINT16 s;
        s \<leftarrow> Stream_Seek s 2;
        recv_orders_loop U (nat numberOrders) w s })"

text \<open>A slow-path update; painting is not ended after one that fails.\<close>

definition update_recv :: "'w updates \<Rightarrow> rdpUpdate \<Rightarrow> 'w \<Rightarrow> wStream \<Rightarrow> (bool, 'w) handled" where
  "update_recv U upd w s =
     (if Stream_GetRemainingLength s < 2 then Some ((False, upd, w), s)
      else do {
        (updateType, s) \<leftarrow> Stream_Read_UINT16 s;
        let w = cb_BeginPaint U w;
        ((ok, upd, w), s) \<leftarrow>
          (if updateType = UPDATE_TYPE_ORDERS then do {
             ((ok, w), s) \<leftarrow> update_recv_orders U w s;
             Some ((ok, upd, w), s) }
           else if updateType = UPDATE_TYPE_BITMAP then recv_bitmap_update U upd w s
           else if updateType = UPDATE_TYPE_PALETTE then recv_palette U upd w s
           else if updateType = UPDATE_TYPE_SYNCHRONIZE then do {
             s \<leftarrow> update_read_synchronize s;
             Some ((True, upd, cb_Synchronize U w), s) }
           else Some ((True, upd, w), s));
        Some ((ok, upd, if ok then cb_EndPaint U w else w), s) })"

section \<open>Surface commands\<close>

text \<open>The status and the length; an invalid depth returns \<open>FALSE\<close>, which is the status 0, with the length unset.\<close>

definition update_recv_surfcmd_surface_bits :: "'w updates \<Rightarrow> rdpUpdate \<Rightarrow> 'w \<Rightarrow> int \<Rightarrow> wStream \<Rightarrow> (int \<times> int, 'w) handled" where
  "update_recv_surfcmd_surface_bits U upd w len s =
     (if Stream_GetRemainingLength s < 20 then Some (((- 1, len), upd, w), s)
      else do {
        (destLeft, s) \<leftarrow> Stream_Read_UINT16 s;
        (destTop, s) \<leftarrow> Stream_Read_UINT16 s;
        (destRight, s) \<leftarrow> Stream_Read_UINT16 s;
        (destBottom, s) \<leftarrow> Stream_Read_UINT16 s;
        (bpp, s) \<leftarrow> Stream_Read_UINT8 s;
        let cmd = (upd_surface_bits_command upd)\<lparr>sb_destLeft := destLeft, sb_destTop := destTop, sb_destRight := destRight,
          sb_destBottom := destBottom, sb_bpp := bpp\<rparr>;
        if bpp < 1 \<or> 32 < bpp then Some (((0, len), upd\<lparr>upd_surface_bits_command := cmd\<rparr>, w), s)
        else do {
          s \<leftarrow> Stream_Seek s 2;
          (codecID, s) \<leftarrow> Stream_Read_UINT8 s;
          (width, s) \<leftarrow> Stream_Read_UINT16 s;
          (height, s) \<leftarrow> Stream_Read_UINT16 s;
          (bitmapDataLength, s) \<leftarrow> Stream_Read_UINT32 s;
          let cmd = cmd\<lparr>sb_codecID := codecID, sb_width := width, sb_height := height,
            sb_bitmapDataLength := bitmapDataLength\<rparr>;
          if Stream_GetRemainingLength s < bitmapDataLength
          then Some (((- 1, len), upd\<lparr>upd_surface_bits_command := cmd\<rparr>, w), s)
          else do {
            let pos = as_int (s_pos s + bitmapDataLength);
            bitmapData \<leftarrow> ablock (s_buffer s) (s_pos s) bitmapDataLength;
            let cmd = cmd\<lparr>sb_bitmapData := bitmapData\<rparr>;
            s \<leftarrow> Stream_SetPosition s pos;
            Some (((0, (20 + bitmapDataLength) mod 4294967296), upd\<lparr>upd_surface_bits_command := cmd\<rparr>, cb_SurfaceBits U cmd w), s) } } })"

definition update_recv_surfcmd_frame_marker :: "'w updates \<Rightarrow> rdpUpdate \<Rightarrow> 'w \<Rightarrow> int \<Rightarrow> wStream \<Rightarrow> (int \<times> int, 'w) handled" where
  "update_recv_surfcmd_frame_marker U upd w len s =
     (if Stream_GetRemainingLength s < 6 then Some (((- 1, len), upd, w), s)
      else do {
        (frameAction, s) \<leftarrow> Stream_Read_UINT16 s;
        (frameId, s) \<leftarrow> Stream_Read_UINT32 s;
        let marker = \<lparr>fm_frameAction = frameAction, fm_frameId = frameId\<rparr>;
        Some (((0, 6), upd\<lparr>upd_surface_frame_marker := marker\<rparr>, cb_SurfaceFrameMarker U marker w), s) })"

text \<open>The sizes are \<open>UINT32\<close> values; \<open>cmdLength\<close> is that of the last command that set it.\<close>

partial_function (option) surfcmds_loop :: "'w updates \<Rightarrow> rdpUpdate \<Rightarrow> 'w \<Rightarrow> int \<Rightarrow> int \<Rightarrow> wStream \<Rightarrow> (int, 'w) handled" where
  "surfcmds_loop U upd w cmdLength sz s =
     (if 2 < sz then do {
        let mark = s_pos s;
        (cmdType, s) \<leftarrow> Stream_Read_UINT16 s;
        let sz = sz - 2;
        (((status, cmdLength), upd, w), s) \<leftarrow>
          (if cmdType = CMDTYPE_SET_SURFACE_BITS \<or> cmdType = CMDTYPE_STREAM_SURFACE_BITS
           then update_recv_surfcmd_surface_bits U upd w cmdLength s
           else if cmdType = CMDTYPE_FRAME_MARKER then update_recv_surfcmd_frame_marker U upd w cmdLength s
           else Some (((- 1, cmdLength), upd, w), s));
        if status < 0 then Some ((- 1, upd, w), s)
        else do {
          let sz = (sz - cmdLength) mod 4294967296;
          w \<leftarrow> (if upd_dump_rfx upd then do {
                  record \<leftarrow> ablock (s_buffer s) mark (cmdLength + 2);
                  Some (pcap_add_record U record w) }
                else Some w);
          surfcmds_loop U upd w cmdLength sz s } }
      else Some ((0, upd, w), s))"

definition update_recv_surfcmds :: "'w updates \<Rightarrow> rdpUpdate \<Rightarrow> 'w \<Rightarrow> int \<Rightarrow> wStream \<Rightarrow> (int, 'w) handled" where
  "update_recv_surfcmds U upd w sz s = surfcmds_loop U upd w 0 sz s"

section \<open>Creation\<close>

text \<open>The fields that \<open>update_new\<close> leaves when its allocations succeed: room for 64 rectangles, and zero elsewhere.\<close>

definition update_new :: rdpUpdate where
  "update_new =
     (let p = \<lparr>pc_cacheIndex = 0, pc_xPos = 0, pc_yPos = 0, pc_width = 0, pc_height = 0, pc_lengthAndMask = 0, pc_lengthXorMask = 0,
        pc_xorMaskData = [], pc_andMaskData = []\<rparr>
      in \<lparr>upd_NoBitmapCompressionHeader = False, upd_dump_rfx = False,
        upd_bitmap_update = \<lparr>bu_count = 64, bu_number = 0, bu_rectangles = replicate 64 zero_bitmap, bu_skipCompression = False\<rparr>,
        upd_palette_update = \<lparr>pu_number = 0, pu_entries = replicate 256 \<lparr>pe_red = 0, pe_green = 0, pe_blue = 0\<rparr>\<rparr>,
        upd_play_sound = \<lparr>ps_duration = 0, ps_frequency = 0\<rparr>,
        upd_surface_bits_command = \<lparr>sb_destLeft = 0, sb_destTop = 0, sb_destRight = 0, sb_destBottom = 0, sb_bpp = 0, sb_codecID = 0,
          sb_width = 0, sb_height = 0, sb_bitmapDataLength = 0, sb_bitmapData = [], sb_skipCompression = False\<rparr>,
        upd_surface_frame_marker = \<lparr>fm_frameAction = 0, fm_frameId = 0\<rparr>,
        upd_pointer_position = \<lparr>pp_xPos = 0, pp_yPos = 0\<rparr>, upd_pointer_system = 0, upd_pointer_color = p,
        upd_pointer_new = \<lparr>pn_xorBpp = 0, pn_colorPtrAttr = p\<rparr>, upd_pointer_cached = 0\<rparr>)"

lemma update_new_simps [simp]:
  "upd_bitmap_update update_new = \<lparr>bu_count = 64, bu_number = 0, bu_rectangles = replicate 64 zero_bitmap, bu_skipCompression = False\<rparr>"
  "\<not> upd_dump_rfx update_new"
  by (simp_all add: update_new_def Let_def)

end
