(* ===== verification/WUpdateWrite.thy ===== *)
theory WUpdateWrite
  imports WUpdate
begin

text \<open>
  Writing the updates of \<open>update.c\<close> and \<open>surface.c\<close>, and reading them back: what the server writes for bitmaps,
  pointers and surface commands reaches the callbacks of the client unchanged.
\<close>

section \<open>The writers\<close>

text \<open>The header flags are set by the writer; \<open>noHdr\<close> is the setting \<open>NoBitmapCompressionHeader\<close>.\<close>

definition bitmap_flags :: "bool \<Rightarrow> BITMAP_DATA \<Rightarrow> BITMAP_DATA" where
  "bitmap_flags noHdr d =
     (let d = d\<lparr>bd_flags := 0, bd_cbCompFirstRowSize := 0\<rparr>;
          d = (if bd_compressed d then d\<lparr>bd_flags := bd_flags d OR BITMAP_COMPRESSION\<rparr> else d)
      in if noHdr then d\<lparr>bd_flags := bd_flags d OR NO_BITMAP_COMPRESSION_HDR, bd_cbCompMainBodySize := bd_bitmapLength d\<rparr> else d)"

definition update_write_bitmap_data :: "byte fresh \<Rightarrow> bool \<Rightarrow> BITMAP_DATA \<Rightarrow> wStream \<Rightarrow> ((bool \<times> BITMAP_DATA) \<times> wStream) option" where
  "update_write_bitmap_data mem noHdr d s = do {
     (ok, s) \<leftarrow> Stream_EnsureRemainingCapacity mem s ((64 + bd_bitmapLength d) mod 4294967296);
     if \<not> ok then Some ((False, d), s)
     else do {
       let d = bitmap_flags noHdr d;
       s \<leftarrow> Stream_Write_UINT16 s (bd_destLeft d);
       s \<leftarrow> Stream_Write_UINT16 s (bd_destTop d);
       s \<leftarrow> Stream_Write_UINT16 s (bd_destRight d);
       s \<leftarrow> Stream_Write_UINT16 s (bd_destBottom d);
       s \<leftarrow> Stream_Write_UINT16 s (bd_width d);
       s \<leftarrow> Stream_Write_UINT16 s (bd_height d);
       s \<leftarrow> Stream_Write_UINT16 s (bd_bitsPerPixel d);
       s \<leftarrow> Stream_Write_UINT16 s (bd_flags d);
       s \<leftarrow> Stream_Write_UINT16 s (bd_bitmapLength d);
       s \<leftarrow> (if bd_flags d AND BITMAP_COMPRESSION \<noteq> 0 \<and> bd_flags d AND NO_BITMAP_COMPRESSION_HDR = 0 then do {
               s \<leftarrow> Stream_Write_UINT16 s (bd_cbCompFirstRowSize d);
               s \<leftarrow> Stream_Write_UINT16 s (bd_cbCompMainBodySize d);
               s \<leftarrow> Stream_Write_UINT16 s (bd_cbScanWidth d);
               Stream_Write_UINT16 s (bd_cbUncompressedSize d) }
             else Some s);
       bs \<leftarrow> ablock (bd_bitmapDataStream d) 0 (bd_bitmapLength d);
       s \<leftarrow> Stream_Write s bs;
       Some ((True, d), s) } }"

text \<open>The rectangles from the index \<open>i\<close> on; the growth for the rectangle \<open>i\<close> succeeds or fails as \<open>mem i\<close> says.\<close>

fun write_rectangles :: "(nat \<Rightarrow> byte fresh) \<Rightarrow> bool \<Rightarrow> nat \<Rightarrow> nat \<Rightarrow> BITMAP_DATA list \<Rightarrow> wStream \<Rightarrow>
    ((bool \<times> BITMAP_DATA list) \<times> wStream) option" where
  "write_rectangles mem noHdr 0 i rectangles s = Some ((True, rectangles), s)"
| "write_rectangles mem noHdr (Suc n) i rectangles s = do {
     d \<leftarrow> aget rectangles (int i);
     ((ok, d), s) \<leftarrow> update_write_bitmap_data (mem i) noHdr d s;
     rectangles \<leftarrow> aset rectangles (int i) d;
     if \<not> ok then Some ((False, rectangles), s) else write_rectangles mem noHdr n (Suc i) rectangles s }"

definition update_write_bitmap_update :: "byte fresh \<Rightarrow> (nat \<Rightarrow> byte fresh) \<Rightarrow> bool \<Rightarrow> BITMAP_UPDATE \<Rightarrow> wStream \<Rightarrow>
    ((bool \<times> BITMAP_UPDATE) \<times> wStream) option" where
  "update_write_bitmap_update mem0 mem noHdr bu s = do {
     (ok, s) \<leftarrow> Stream_EnsureRemainingCapacity mem0 s 32;
     if \<not> ok then Some ((False, bu), s)
     else do {
       s \<leftarrow> Stream_Write_UINT16 s UPDATE_TYPE_BITMAP;
       s \<leftarrow> Stream_Write_UINT16 s (bu_number bu);
       ((ok, rectangles), s) \<leftarrow> write_rectangles mem noHdr (nat (bu_number bu)) 0 (bu_rectangles bu) s;
       Some ((ok, bu\<lparr>bu_rectangles := rectangles\<rparr>), s) } }"

text \<open>The results of the growth of the stream are not looked at here.\<close>

definition update_write_pointer_color :: "byte fresh \<Rightarrow> wStream \<Rightarrow> POINTER_COLOR_UPDATE \<Rightarrow> wStream option" where
  "update_write_pointer_color mem s p = do {
     (_, s) \<leftarrow> Stream_EnsureRemainingCapacity mem s (32 + as_int (pc_lengthAndMask p) + as_int (pc_lengthXorMask p));
     s \<leftarrow> Stream_Write_UINT16 s (pc_cacheIndex p);
     s \<leftarrow> Stream_Write_UINT16 s (pc_xPos p);
     s \<leftarrow> Stream_Write_UINT16 s (pc_yPos p);
     s \<leftarrow> Stream_Write_UINT16 s (pc_width p);
     s \<leftarrow> Stream_Write_UINT16 s (pc_height p);
     s \<leftarrow> Stream_Write_UINT16 s (pc_lengthAndMask p);
     s \<leftarrow> Stream_Write_UINT16 s (pc_lengthXorMask p);
     s \<leftarrow> (if 0 < pc_lengthXorMask p then do { bs \<leftarrow> ablock (pc_xorMaskData p) 0 (pc_lengthXorMask p); Stream_Write s bs } else Some s);
     s \<leftarrow> (if 0 < pc_lengthAndMask p then do { bs \<leftarrow> ablock (pc_andMaskData p) 0 (pc_lengthAndMask p); Stream_Write s bs } else Some s);
     Stream_Write_UINT8 s 0 }"

definition update_write_surfcmd_surface_bits_header :: "byte fresh \<Rightarrow> wStream \<Rightarrow> SURFACE_BITS_COMMAND \<Rightarrow> wStream option" where
  "update_write_surfcmd_surface_bits_header mem s cmd = do {
     (_, s) \<leftarrow> Stream_EnsureRemainingCapacity mem s 22;
     s \<leftarrow> Stream_Write_UINT16 s CMDTYPE_STREAM_SURFACE_BITS;
     s \<leftarrow> Stream_Write_UINT16 s (sb_destLeft cmd);
     s \<leftarrow> Stream_Write_UINT16 s (sb_destTop cmd);
     s \<leftarrow> Stream_Write_UINT16 s (sb_destRight cmd);
     s \<leftarrow> Stream_Write_UINT16 s (sb_destBottom cmd);
     s \<leftarrow> Stream_Write_UINT8 s (sb_bpp cmd);
     s \<leftarrow> Stream_Write_UINT16 s 0;
     s \<leftarrow> Stream_Write_UINT8 s (sb_codecID cmd);
     s \<leftarrow> Stream_Write_UINT16 s (sb_width cmd);
     s \<leftarrow> Stream_Write_UINT16 s (sb_height cmd);
     Stream_Write_UINT32 s (sb_bitmapDataLength cmd) }"

definition update_write_surfcmd_frame_marker :: "byte fresh \<Rightarrow> wStream \<Rightarrow> int \<Rightarrow> int \<Rightarrow> wStream option" where
  "update_write_surfcmd_frame_marker mem s frameAction frameId = do {
     (_, s) \<leftarrow> Stream_EnsureRemainingCapacity mem s 8;
     s \<leftarrow> Stream_Write_UINT16 s CMDTYPE_FRAME_MARKER;
     s \<leftarrow> Stream_Write_UINT16 s frameAction;
     Stream_Write_UINT32 s frameId }"

section \<open>Bitmap updates\<close>

text \<open>The bytes of a rectangle, those of its flags included.\<close>

definition bitmap_hdr :: "bool \<Rightarrow> BITMAP_DATA \<Rightarrow> bool" where
  "bitmap_hdr noHdr d \<longleftrightarrow> bd_compressed d \<and> \<not> noHdr"

definition bitmap_bytes :: "bool \<Rightarrow> BITMAP_DATA \<Rightarrow> byte list" where
  "bitmap_bytes noHdr d = le16 (bd_destLeft d) @ le16 (bd_destTop d) @ le16 (bd_destRight d) @ le16 (bd_destBottom d)
     @ le16 (bd_width d) @ le16 (bd_height d) @ le16 (bd_bitsPerPixel d)
     @ le16 ((if bd_compressed d then 1 else 0) + (if noHdr then 0x400 else 0)) @ le16 (bd_bitmapLength d)
     @ (if bitmap_hdr noHdr d then le16 0 @ le16 (bd_cbCompMainBodySize d) @ le16 (bd_cbScanWidth d) @ le16 (bd_cbUncompressedSize d) else [])
     @ bd_bitmapDataStream d"

text \<open>A rectangle that the wire format can carry.\<close>

definition bitmap_ok :: "bool \<Rightarrow> BITMAP_DATA \<Rightarrow> bool" where
  "bitmap_ok noHdr d \<longleftrightarrow> list_all (\<lambda>v. 0 \<le> v \<and> v < 65536) [bd_destLeft d, bd_destTop d, bd_destRight d, bd_destBottom d,
       bd_width d, bd_height d, bd_bitsPerPixel d, bd_bitmapLength d]
     \<and> bd_bitmapLength d = int (length (bd_bitmapDataStream d))
     \<and> (bitmap_hdr noHdr d \<longrightarrow> bd_cbCompMainBodySize d = bd_bitmapLength d
         \<and> 0 \<le> bd_cbScanWidth d \<and> bd_cbScanWidth d < 65536 \<and> 0 \<le> bd_cbUncompressedSize d \<and> bd_cbUncompressedSize d < 65536)"

text \<open>The picture of a rectangle: all but the flags, and the sizes of the compression header where there is one.\<close>

definition bitmap_view :: "bool \<Rightarrow> BITMAP_DATA \<Rightarrow> BITMAP_DATA" where
  "bitmap_view noHdr d = (if bitmap_hdr noHdr d then d\<lparr>bd_flags := 0, bd_cbCompFirstRowSize := 0\<rparr>
     else d\<lparr>bd_flags := 0, bd_cbCompFirstRowSize := 0, bd_cbCompMainBodySize := 0, bd_cbScanWidth := 0, bd_cbUncompressedSize := 0\<rparr>)"

lemma bitmap_flags_simps: "bd_flags (bitmap_flags noHdr d) = (if bd_compressed d then 1 else 0) + (if noHdr then 0x400 else 0)"
  "bitmap_view noHdr (bitmap_flags noHdr d) = bitmap_view noHdr d"
  by (auto simp: bitmap_flags_def bitmap_view_def bitmap_hdr_def Let_def)

lemma write_bitmap_data:
  assumes "holds s p" "bitmap_ok noHdr d" "s_capacity s \<le> 536870912" "length p \<le> 67108864"
  shows "\<exists>s'. update_write_bitmap_data (Some j) noHdr d s = Some ((True, bitmap_flags noHdr d), s') \<and> holds s' (p @ bitmap_bytes noHdr d)
    \<and> s_capacity s' \<le> 536870912"
proof -
  have n: "0 \<le> bd_bitmapLength d" "bd_bitmapLength d < 65536" "bd_bitmapLength d = int (length (bd_bitmapDataStream d))"
    using assms(2) by (simp_all add: bitmap_ok_def)
  let ?n = "64 + bd_bitmapLength d"
  obtain s1 where s1: "Stream_EnsureRemainingCapacity (Some j) s ?n = Some (True, s1)" "holds s1 p"
      "int (length p) + ?n \<le> s_capacity s1" "s_capacity s1 \<le> max (s_capacity s) (2 * (int (length p) + 2 * ?n))"
    using holds_remaining [OF assms(1), of ?n j] n assms(3) by auto
  have len: "length (bitmap_bytes noHdr d) \<le> 26 + length (bd_bitmapDataStream d)" by (simp add: bitmap_bytes_def)
  obtain s2 where s2: "Stream_Write s1 (bitmap_bytes noHdr d) = Some s2" "holds s2 (p @ bitmap_bytes noHdr d)" "s_capacity s2 = s_capacity s1"
    using holds_write [OF s1(2), of "bitmap_bytes noHdr d"] s1(3) n(3) len by auto
  have "update_write_bitmap_data (Some j) noHdr d s = Some ((True, bitmap_flags noHdr d), s2)"
    using s1(1) s2(1) n
    by (simp add: update_write_bitmap_data_def emits write_merge bitmap_flags_simps Let_def)
       (auto simp: bitmap_bytes_def bitmap_hdr_def bitmap_flags_def ablock_def Let_def emits write_merge)
  with s2 s1(4) n assms(3,4) show ?thesis by auto
qed

text \<open>What the parser makes of them in a struct that held \<open>o\<close>.\<close>

definition bitmap_got :: "bool \<Rightarrow> BITMAP_DATA \<Rightarrow> BITMAP_DATA \<Rightarrow> BITMAP_DATA" where
  "bitmap_got noHdr d0 d =
     (let d = d\<lparr>bd_flags := (if bd_compressed d then 1 else 0) + (if noHdr then 0x400 else 0)\<rparr>
      in if bitmap_hdr noHdr d then d\<lparr>bd_cbCompFirstRowSize := 0\<rparr>
         else d\<lparr>bd_cbCompFirstRowSize := bd_cbCompFirstRowSize d0, bd_cbCompMainBodySize := bd_cbCompMainBodySize d0,
           bd_cbScanWidth := bd_cbScanWidth d0, bd_cbUncompressedSize := bd_cbUncompressedSize d0\<rparr>)"

lemma bitmap_got_view [simp]: "bitmap_view noHdr (bitmap_got noHdr d0 d) = bitmap_view noHdr d"
  by (auto simp: bitmap_got_def bitmap_view_def bitmap_hdr_def Let_def)

lemma read_bitmap_data:
  assumes "bitmap_ok noHdr d"
  shows "yields (update_read_bitmap_data d0) (bitmap_bytes noHdr d) (True, bitmap_got noHdr d0 d)"
proof -
  consider "bd_compressed d" "\<not> noHdr" | "bd_compressed d" "noHdr" | "\<not> bd_compressed d" "noHdr" | "\<not> bd_compressed d" "\<not> noHdr" by blast
  from this assms show ?thesis
    unfolding update_read_bitmap_data_def bitmap_bytes_def Let_def
    by cases (simp add: bitmap_hdr_def,
      (rule yields | rule yields_thens, (simp; fail) | rule yields_elses, (simp; fail) | rule yields_lasts)+,
      (simp add: bitmap_ok_def bitmap_got_def bitmap_hdr_def; fail)+)+
qed

lemma write_rectangles:
  assumes "holds s p" "list_all (bitmap_ok noHdr) ds" "s_capacity s \<le> 536870912"
    and "length p + length (concat (map (bitmap_bytes noHdr) ds)) \<le> 67108864"
  shows "\<exists>s'. write_rectangles (\<lambda>k. Some (j k)) noHdr (length ds) (length pre) (pre @ ds @ post) s
      = Some ((True, pre @ map (bitmap_flags noHdr) ds @ post), s')
    \<and> holds s' (p @ concat (map (bitmap_bytes noHdr) ds))"
  using assms
proof (induction ds arbitrary: s p pre)
  case (Cons d ds)
  obtain s1 where s1: "update_write_bitmap_data (Some (j (length pre))) noHdr d s = Some ((True, bitmap_flags noHdr d), s1)"
      "holds s1 (p @ bitmap_bytes noHdr d)" "s_capacity s1 \<le> 536870912"
    using write_bitmap_data [OF Cons.prems(1), of noHdr d "j (length pre)"] Cons.prems by auto
  obtain s2 where "write_rectangles (\<lambda>k. Some (j k)) noHdr (length ds) (length (pre @ [bitmap_flags noHdr d])) ((pre @ [bitmap_flags noHdr d]) @ ds @ post) s1
      = Some ((True, (pre @ [bitmap_flags noHdr d]) @ map (bitmap_flags noHdr) ds @ post), s2)"
      "holds s2 ((p @ bitmap_bytes noHdr d) @ concat (map (bitmap_bytes noHdr) ds))"
    using Cons.IH [OF s1(2) _ s1(3), where pre = "pre @ [bitmap_flags noHdr d]"] Cons.prems by auto
  with s1 show ?case by (simp add: aget_int aset_def nth_append list_update_append)
qed simp

lemma read_rectangles:
  assumes "list_all (bitmap_ok noHdr) ds" "length olds = length ds"
  shows "yields (read_rectangles (length ds) (int (length pre)) (pre @ olds @ post)) (concat (map (bitmap_bytes noHdr) ds))
    (True, pre @ map2 (bitmap_got noHdr) olds ds @ post)"
  using assms
proof (induction ds arbitrary: olds pre)
  case Nil
  then show ?case by (simp add: yields_def)
next
  case (Cons d ds)
  then obtain d0 ds0 where o: "olds = d0 # ds0" "length ds0 = length ds" by (cases olds) auto
  let ?g = "bitmap_got noHdr d0 d"
  have ih: "yields (read_rectangles (length ds) (int (length pre) + 1) ((pre @ [?g]) @ ds0 @ post)) (concat (map (bitmap_bytes noHdr) ds))
      (True, (pre @ [?g]) @ map2 (bitmap_got noHdr) ds0 ds @ post)"
    using Cons.IH [of ds0 "pre @ [?g]"] Cons.prems o(2) by (simp add: add.commute)
  have d: "yields (update_read_bitmap_data d0) (bitmap_bytes noHdr d) (True, ?g)" using Cons.prems(1) by (simp add: read_bitmap_data)
  have "aget (pre @ d0 # ds0 @ post) (int (length pre)) = Some d0"
    "aset (pre @ d0 # ds0 @ post) (int (length pre)) x = Some (pre @ x # ds0 @ post)" for x
    by (simp_all add: aget_int aset_def nth_append list_update_append)
  then have "read_rectangles (length (d # ds)) (int (length pre)) (pre @ olds @ post) = (\<lambda>s. do {
      (r, s) \<leftarrow> update_read_bitmap_data d0 s;
      (case r of (ok, d) \<Rightarrow> (\<lambda>s. if \<not> ok then Some ((False, pre @ d # ds0 @ post), s)
        else read_rectangles (length ds) (int (length pre) + 1) (pre @ d # ds0 @ post) s)) s })"
    by (auto simp: fun_eq_iff o split_def)
  with d ih show ?case by (auto intro!: yields_bind simp: o)
qed

text \<open>A bitmap update whose \<open>count\<close> is the size of its array.\<close>

definition bu_wf :: "BITMAP_UPDATE \<Rightarrow> bool" where
  "bu_wf bu \<longleftrightarrow> bu_count bu = int (length (bu_rectangles bu)) \<and> bu_count bu < 65536"

lemma grown_rectangles:
  assumes "length xs < n" "n < 32768"
  shows "afill (arealloc xs (u16 (int n * 2)) j) (int (length xs)) ((u16 (int n * 2) - int (length xs)) mod 4294967296) z
    = Some (xs @ replicate (2 * n - length xs) z)"
proof -
  have u: "u16 (int n * 2) = 2 * int n" using assms by (simp add: u16_def)
  have m: "(2 * int n - int (length xs)) mod 4294967296 = int (2 * n - length xs)" using assms by simp
  have "take (length xs) (arealloc xs (2 * int n) j) = xs" using assms by (simp add: arealloc_def)
  then show ?thesis using assms by (simp add: afill_def u m)
qed

lemma read_bitmap_update:
  assumes "list_all (bitmap_ok noHdr) ds" "length ds < 32768" "bu_wf bu"
  shows "\<exists>got. yields (update_read_bitmap_update (Some j) bu) (le16 (int (length ds)) @ concat (map (bitmap_bytes noHdr) ds)) (True, got)
    \<and> bu_wf got \<and> bu_number got = int (length ds)
    \<and> map (bitmap_view noHdr) (take (length ds) (bu_rectangles got)) = map (bitmap_view noHdr) ds"
proof -
  let ?n = "length ds"
  let ?xs = "bu_rectangles bu"
  define R where "R = (if length ?xs < ?n then ?xs @ replicate (2 * ?n - length ?xs) zero_bitmap else ?xs)"
  have c: "bu_count bu = int (length ?xs)" "length ?xs < 65536" using assms(3) by (simp_all add: bu_wf_def)
  have R: "?n \<le> length R" "length R < 65536" using assms(2) c(2) by (auto simp: R_def)
  define G where "G = map2 (bitmap_got noHdr) (take ?n R) ds @ drop ?n R"
  define got where "got = bu\<lparr>bu_number := int ?n, bu_rectangles := G, bu_count := int (length R)\<rparr>"
  have "yields (read_rectangles ?n 0 R) (concat (map (bitmap_bytes noHdr) ds)) (True, G)"
    using read_rectangles [OF assms(1), of "take ?n R" "[]" "drop ?n R"] R(1) by (simp add: G_def)
  then have rd: "yields (\<lambda>s. do { ((ok, rectangles), s) \<leftarrow> read_rectangles ?n 0 R s;
      Some ((ok, bu\<lparr>bu_number := int ?n, bu_count := int (length R), bu_rectangles := rectangles\<rparr>), s) })
      (concat (map (bitmap_bytes noHdr) ds)) (True, got)"
    by (rule yields_last) (simp add: got_def yields_def)
  have u: "length ?xs < ?n \<Longrightarrow> u16 (int ?n * 2) = int (length R)" using assms(2) by (simp add: u16_def R_def)
  have "yields (update_read_bitmap_update (Some j) bu) (le16 (int ?n) @ concat (map (bitmap_bytes noHdr) ds)) (True, got)"
    unfolding update_read_bitmap_update_def
  proof (intro yields, cases "length ?xs < ?n", goal_cases)
    case 1
    then show ?case using rd grown_rectangles [OF 1 assms(2), of j zero_bitmap] by (simp add: Let_def c u R_def split_def)
  next
    case 2
    have k: "bu\<lparr>bu_number := int ?n, bu_count := int (length ?xs), bu_rectangles := r\<rparr> = bu\<lparr>bu_number := int ?n, bu_rectangles := r\<rparr>" for r
      by (simp add: c(1) [symmetric])
    show ?case using rd 2 by (simp add: Let_def c R_def split_def k)
  qed (use assms(2) in simp_all)
  moreover have "map (bitmap_view noHdr) (map2 (bitmap_got noHdr) (take ?n R) ds) = map (bitmap_view noHdr) ds"
    using R(1) by (auto simp: intro: nth_equalityI)
  ultimately show ?thesis using R by (intro exI [of _ got]) (auto simp: got_def bu_wf_def G_def)
qed

lemma write_bitmap_update:
  assumes "holds s []" "list_all (bitmap_ok noHdr) ds" "s_capacity s \<le> 268435456"
    and "length (concat (map (bitmap_bytes noHdr) ds)) \<le> 67108860" "bu_rectangles bu = ds @ post" "bu_number bu = int (length ds)"
  shows "\<exists>bu' s'. update_write_bitmap_update (Some j0) (\<lambda>k. Some (j k)) noHdr bu s = Some ((True, bu'), s')
    \<and> holds s' (le16 1 @ le16 (int (length ds)) @ concat (map (bitmap_bytes noHdr) ds))"
proof -
  obtain s1 where s1: "Stream_EnsureRemainingCapacity (Some j0) s 32 = Some (True, s1)" "holds s1 []"
      "32 \<le> s_capacity s1" "s_capacity s1 \<le> max (s_capacity s) (2 * (2 * 32))"
    using holds_remaining [OF assms(1), of 32 j0] assms(3) by auto
  let ?h = "le16 1 @ le16 (int (length ds))"
  obtain s2 where s2: "Stream_Write s1 ?h = Some s2" "holds s2 ?h" "s_capacity s2 = s_capacity s1"
    using holds_write [OF s1(2), of ?h] s1(3) by auto
  have "s_capacity s2 \<le> 536870912" using s2(3) s1(4) assms(3) by linarith
  from write_rectangles [OF s2(2) assms(2) this, of j "[]" post] assms(4) obtain s3 where
    "write_rectangles (\<lambda>k. Some (j k)) noHdr (length ds) 0 (ds @ post) s2 = Some ((True, map (bitmap_flags noHdr) ds @ post), s3)"
    "holds s3 (?h @ concat (map (bitmap_bytes noHdr) ds))" by auto
  with s1(1) s2(1) assms(5,6) show ?thesis by (simp add: update_write_bitmap_update_def emits write_merge)
qed

section \<open>Surface commands\<close>

datatype surfcmd = SurfaceBits SURFACE_BITS_COMMAND | FrameMarker int int

fun surfcmd_bytes :: "surfcmd \<Rightarrow> byte list" where
  "surfcmd_bytes (SurfaceBits c) = le16 6 @ le16 (sb_destLeft c) @ le16 (sb_destTop c) @ le16 (sb_destRight c) @ le16 (sb_destBottom c)
     @ word_of_int (sb_bpp c) # le16 0 @ word_of_int (sb_codecID c) # le16 (sb_width c) @ le16 (sb_height c)
     @ le32 (sb_bitmapDataLength c) @ sb_bitmapData c"
| "surfcmd_bytes (FrameMarker action frameId) = le16 4 @ le16 action @ le32 frameId"

fun surfcmd_ok :: "surfcmd \<Rightarrow> bool" where
  "surfcmd_ok (SurfaceBits c) \<longleftrightarrow> list_all (\<lambda>v. 0 \<le> v \<and> v < 65536) [sb_destLeft c, sb_destTop c, sb_destRight c, sb_destBottom c,
       sb_width c, sb_height c] \<and> 1 \<le> sb_bpp c \<and> sb_bpp c \<le> 32 \<and> 0 \<le> sb_codecID c \<and> sb_codecID c < 256
     \<and> sb_bitmapDataLength c = int (length (sb_bitmapData c)) \<and> length (sb_bitmapData c) \<le> 1073741824"
| "surfcmd_ok (FrameMarker action frameId) \<longleftrightarrow> 0 \<le> action \<and> action < 65536 \<and> 0 \<le> frameId \<and> frameId < 4294967296"

text \<open>What the client does with a command: \<open>skipCompression\<close> is not sent.\<close>

fun deliver_surfcmd :: "'w updates \<Rightarrow> surfcmd \<Rightarrow> rdpUpdate \<times> 'w \<Rightarrow> rdpUpdate \<times> 'w" where
  "deliver_surfcmd U c (upd, w) =
     (let (upd, w) = (case c of
          SurfaceBits cmd \<Rightarrow> (let cmd = cmd\<lparr>sb_skipCompression := sb_skipCompression (upd_surface_bits_command upd)\<rparr>
            in (upd\<lparr>upd_surface_bits_command := cmd\<rparr>, cb_SurfaceBits U cmd w))
        | FrameMarker action frameId \<Rightarrow> (let m = \<lparr>fm_frameAction = action, fm_frameId = frameId\<rparr>
            in (upd\<lparr>upd_surface_frame_marker := m\<rparr>, cb_SurfaceFrameMarker U m w)))
      in (upd, if upd_dump_rfx upd then pcap_add_record U (surfcmd_bytes c) w else w))"

lemma s_adv_simps [simp]: "s_buffer (s_adv n s) = s_buffer s" "s_length (s_adv n s) = s_length s"
  by (simp_all add: s_adv_def)

lemma yields_jump:
  assumes "yields (f bs) cs w" and "n = int (length bs)"
  shows "yields (\<lambda>s. do { x \<leftarrow> ablock (s_buffer s) (s_pos s) n; s' \<leftarrow> Stream_SetPosition s (as_int (s_pos s + n)); f x s' }) (bs @ cs) w"
  unfolding yields_def
proof (intro allI impI)
  fix s rest assume s: "s_ok s" "s_rest s = (bs @ cs) @ rest"
  have le: "s_pos s + n \<le> s_length s" using s assms(2) length_s_rest [OF s(1)] by simp
  then have "as_int (s_pos s + n) = s_pos s + n" using s(1) assms(2) by (simp add: as_int_def s_ok_def)
  then have j: "Stream_SetPosition s (as_int (s_pos s + n)) = Some (s_adv (length bs) s)"
    using s(1) le assms(2) by (simp add: Stream_SetPosition_def s_adv_def s_ok_def)
  have "f bs (s_adv (length bs) s) = Some (w, s_adv (length cs) (s_adv (length bs) s))"
    using s by (intro yieldsD [OF assms(1), where rest = rest]) simp_all
  then show "(do { x \<leftarrow> ablock (s_buffer s) (s_pos s) n; s' \<leftarrow> Stream_SetPosition s (as_int (s_pos s + n)); f x s' })
      = Some (w, s_adv (length (bs @ cs)) s)"
    using s assms(2) j by (simp add: ablock_rest)
qed

lemmas yields_jump_last = yields_jump [where cs = "[]", simplified append_Nil2]

lemma sent_surface_bits:
  "p\<lparr>sb_destLeft := sb_destLeft c, sb_destTop := sb_destTop c, sb_destRight := sb_destRight c, sb_destBottom := sb_destBottom c,
     sb_bpp := sb_bpp c, sb_codecID := sb_codecID c, sb_width := sb_width c, sb_height := sb_height c,
     sb_bitmapDataLength := sb_bitmapDataLength c, sb_bitmapData := sb_bitmapData c\<rparr> = (c\<lparr>sb_skipCompression := sb_skipCompression p\<rparr> :: SURFACE_BITS_COMMAND)"
  by (cases p, cases c) simp

lemma read_surface_bits:
  assumes "surfcmd_ok (SurfaceBits c)"
  shows "yields (update_recv_surfcmd_surface_bits U upd w len)
    (le16 (sb_destLeft c) @ le16 (sb_destTop c) @ le16 (sb_destRight c) @ le16 (sb_destBottom c)
     @ word_of_int (sb_bpp c) # le16 0 @ word_of_int (sb_codecID c) # le16 (sb_width c) @ le16 (sb_height c)
     @ le32 (sb_bitmapDataLength c) @ sb_bitmapData c)
    (let cmd = c\<lparr>sb_skipCompression := sb_skipCompression (upd_surface_bits_command upd)\<rparr>
     in ((0, 20 + int (length (sb_bitmapData c))), upd\<lparr>upd_surface_bits_command := cmd\<rparr>, cb_SurfaceBits U cmd w))"
  unfolding update_recv_surfcmd_surface_bits_def Let_def
  by ((rule yields | rule yields_else, (use assms in \<open>simp; fail\<close>) | rule yields_jump_last | rule yields_lasts)+,
    unfold sent_surface_bits) (use assms in simp_all)

lemma read_frame_marker:
  assumes "surfcmd_ok (FrameMarker action frameId)"
  shows "yields (update_recv_surfcmd_frame_marker U upd w len) (le16 action @ le32 frameId)
    (let m = \<lparr>fm_frameAction = action, fm_frameId = frameId\<rparr>
     in ((0, 6), upd\<lparr>upd_surface_frame_marker := m\<rparr>, cb_SurfaceFrameMarker U m w))"
  unfolding update_recv_surfcmd_frame_marker_def Let_def
  by ((rule yields | rule yields_lasts)+, (use assms in \<open>simp; fail\<close>)+)

text \<open>One round of the loop on the encoding of a command: the size that is left wraps around.\<close>

lemma surfcmds_step_wrap:
  assumes "surfcmd_ok c" "s_ok s" "s_rest s = surfcmd_bytes c @ rest" "2 < sz"
  shows "\<exists>len'. surfcmds_loop U upd w len sz s = (case deliver_surfcmd U c (upd, w) of
    (upd, w) \<Rightarrow> surfcmds_loop U upd w len' ((sz - int (length (surfcmd_bytes c))) mod 4294967296) (s_adv (length (surfcmd_bytes c)) s))"
proof -
  have rec: "ablock (s_buffer s) (s_pos s) (int (length (surfcmd_bytes c))) = Some (surfcmd_bytes c)"
    using assms(2,3) by (simp add: ablock_rest)
  show ?thesis
  proof (cases c)
    case (SurfaceBits cmd)
    let ?n = "length (sb_bitmapData cmd)"
    have body: "s_rest (s_adv 2 s) = drop 2 (surfcmd_bytes c) @ rest" "s_ok (s_adv 2 s)" using assms(2,3) by (simp_all add: SurfaceBits)
    have t: "Stream_Read_UINT16 s = Some (6, s_adv 2 s)" using assms(2,3) read_le16 [of s 6] by (simp add: SurfaceBits)
    have len: "length (surfcmd_bytes c) = 22 + ?n" by (simp add: SurfaceBits)
    have b: "update_recv_surfcmd_surface_bits U upd w len (s_adv 2 s) = Some (let cmd = cmd\<lparr>sb_skipCompression := sb_skipCompression (upd_surface_bits_command upd)\<rparr>
       in ((0, 20 + int ?n), upd\<lparr>upd_surface_bits_command := cmd\<rparr>, cb_SurfaceBits U cmd w), s_adv (20 + ?n) (s_adv 2 s))"
      using yieldsD [OF read_surface_bits, OF assms(1) [unfolded SurfaceBits] body(2), of rest] body(1) by (simp add: SurfaceBits Let_def)
    show ?thesis using t b rec assms(4) len
      by (intro exI [of _ "20 + int ?n"], subst surfcmds_loop.simps) (simp add: SurfaceBits Let_def split_def diff_diff_eq add.commute)
  next
    case (FrameMarker action frameId)
    have body: "s_rest (s_adv 2 s) = le16 action @ le32 frameId @ rest" "s_ok (s_adv 2 s)" using assms(2,3) by (simp_all add: FrameMarker)
    have t: "Stream_Read_UINT16 s = Some (4, s_adv 2 s)" using assms(2,3) read_le16 [of s 4] by (simp add: FrameMarker)
    have b: "update_recv_surfcmd_frame_marker U upd w len (s_adv 2 s) = Some (let m = \<lparr>fm_frameAction = action, fm_frameId = frameId\<rparr>
     in ((0, 6), upd\<lparr>upd_surface_frame_marker := m\<rparr>, cb_SurfaceFrameMarker U m w), s_adv 6 (s_adv 2 s))"
      using yieldsD [OF read_frame_marker, OF assms(1) [unfolded FrameMarker] body(2), of rest] body(1) by (simp add: Let_def)
    show ?thesis using t b rec assms(4)
      by (intro exI [of _ 6], subst surfcmds_loop.simps) (simp add: FrameMarker Let_def split_def)
  qed
qed

lemma surfcmd_bytes_length: "8 \<le> length (surfcmd_bytes c)"
  by (cases c) simp_all

lemma surfcmds_step:
  assumes "surfcmd_ok c" "s_ok s" "s_rest s = surfcmd_bytes c @ rest" "int (length (surfcmd_bytes c)) \<le> sz" "sz < 4294967296"
  shows "\<exists>len'. surfcmds_loop U upd w len sz s = (case deliver_surfcmd U c (upd, w) of
    (upd, w) \<Rightarrow> surfcmds_loop U upd w len' (sz - int (length (surfcmd_bytes c))) (s_adv (length (surfcmd_bytes c)) s))"
proof -
  have "(sz - int (length (surfcmd_bytes c))) mod 4294967296 = sz - int (length (surfcmd_bytes c))" "2 < sz"
    using assms(4,5) surfcmd_bytes_length [of c] by simp_all
  with surfcmds_step_wrap [OF assms(1-3), of sz U upd w len] show ?thesis by simp
qed

lemma surfcmds_loop_all:
  assumes "list_all surfcmd_ok cs" "s_ok s" "s_rest s = concat (map surfcmd_bytes cs) @ rest"
  shows "surfcmds_loop U upd w len (int (length (concat (map surfcmd_bytes cs)))) s
    = Some ((0, fold (deliver_surfcmd U) cs (upd, w)), s_adv (length (concat (map surfcmd_bytes cs))) s)"
  using assms
proof (induction cs arbitrary: upd w len s)
  case Nil
  then show ?case by (subst surfcmds_loop.simps) simp
next
  case (Cons c cs)
  let ?a = "surfcmd_bytes c" and ?b = "concat (map surfcmd_bytes cs)"
  have "int (length (s_rest s)) \<le> INT_MAX" using length_s_rest [OF Cons.prems(2)] Cons.prems(2) by (simp add: s_ok_def)
  then have sz: "int (length (?a @ ?b)) < 4294967296" using Cons.prems(3) by simp
  obtain upd' w' where d: "deliver_surfcmd U c (upd, w) = (upd', w')" by fastforce
  obtain len' where "surfcmds_loop U upd w len (int (length (?a @ ?b))) s
      = surfcmds_loop U upd' w' len' (int (length (?a @ ?b)) - int (length ?a)) (s_adv (length ?a) s)"
    using surfcmds_step [of c s "?b @ rest" "int (length (?a @ ?b))" U upd w len] Cons.prems sz d by auto
  moreover have "surfcmds_loop U upd' w' len' (int (length ?b)) (s_adv (length ?a) s)
      = Some ((0, fold (deliver_surfcmd U) cs (upd', w')), s_adv (length ?b) (s_adv (length ?a) s))"
    using Cons.prems by (intro Cons.IH) simp_all
  ultimately show ?case using d by simp
qed

text \<open>Whole commands in front of the rest.\<close>

lemma surfcmds_loop_prefix:
  assumes "list_all surfcmd_ok cs" "s_ok s" "s_rest s = concat (map surfcmd_bytes cs) @ rest"
    and "2 < k" "int (length (concat (map surfcmd_bytes cs))) + k < 4294967296"
  shows "\<exists>len'. surfcmds_loop U upd w len (int (length (concat (map surfcmd_bytes cs))) + k) s
    = (case fold (deliver_surfcmd U) cs (upd, w) of (upd, w) \<Rightarrow>
        surfcmds_loop U upd w len' k (s_adv (length (concat (map surfcmd_bytes cs))) s))"
  using assms(1-3,5)
proof (induction cs arbitrary: upd w len s)
  case Nil
  then show ?case by auto
next
  case (Cons c cs)
  let ?a = "surfcmd_bytes c" and ?b = "concat (map surfcmd_bytes cs)"
  obtain upd' w' where d: "deliver_surfcmd U c (upd, w) = (upd', w')" by fastforce
  obtain len' where 1: "surfcmds_loop U upd w len (int (length (?a @ ?b)) + k) s
      = surfcmds_loop U upd' w' len' (int (length (?a @ ?b)) + k - int (length ?a)) (s_adv (length ?a) s)"
    using surfcmds_step [of c s "?b @ rest" "int (length (?a @ ?b)) + k" U upd w len] Cons.prems assms(4) d by auto
  have "s_ok (s_adv (length ?a) s)" "s_rest (s_adv (length ?a) s) = ?b @ rest" "int (length ?b) + k < 4294967296"
    using Cons.prems by simp_all
  from Cons.IH [OF _ this, of upd' w' len'] obtain len'' where
    "surfcmds_loop U upd' w' len' (int (length ?b) + k) (s_adv (length ?a) s)
      = (case fold (deliver_surfcmd U) cs (upd', w') of (upd, w) \<Rightarrow> surfcmds_loop U upd w len'' k (s_adv (length ?b) (s_adv (length ?a) s)))"
    using Cons.prems(1) by auto
  with 1 d show ?case by (intro exI [of _ len'']) (simp add: algebra_simps)
qed

lemma holds_room:
  assumes "holds s p" "0 \<le> n" "int (length p) + n \<le> s_capacity s"
  shows "Stream_EnsureRemainingCapacity mem s n = Some (True, s)"
  using assms by (simp add: Stream_EnsureRemainingCapacity_def holds_def csize_def)

lemma write_surface_bits_header:
  assumes "holds s p" "int (length p) + 22 \<le> s_capacity s"
  shows "update_write_surfcmd_surface_bits_header mem s c = Stream_Write s (surfcmd_bytes (SurfaceBits (c\<lparr>sb_bitmapData := []\<rparr>)))"
  using holds_room [OF assms(1), of 22 mem] assms(2)
  by (simp add: update_write_surfcmd_surface_bits_header_def emits write_merge)

lemma write_frame_marker:
  assumes "holds s p" "int (length p) + 8 \<le> s_capacity s"
  shows "update_write_surfcmd_frame_marker mem s action frameId = Stream_Write s (surfcmd_bytes (FrameMarker action frameId))"
  using holds_room [OF assms(1), of 8 mem] assms(2)
  by (simp add: update_write_surfcmd_frame_marker_def emits write_merge)

section \<open>Pointers\<close>

definition pointer_bytes :: "POINTER_COLOR_UPDATE \<Rightarrow> byte list" where
  "pointer_bytes p = le16 (pc_cacheIndex p) @ le16 (pc_xPos p) @ le16 (pc_yPos p) @ le16 (pc_width p) @ le16 (pc_height p)
     @ le16 (pc_lengthAndMask p) @ le16 (pc_lengthXorMask p)
     @ take (nat (pc_lengthXorMask p)) (pc_xorMaskData p) @ take (nat (pc_lengthAndMask p)) (pc_andMaskData p) @ [0]"

text \<open>A pointer whose masks have the sizes of its picture, or are left out.\<close>

definition mask_ok :: "int \<Rightarrow> int \<Rightarrow> int \<Rightarrow> int \<Rightarrow> byte list \<Rightarrow> bool" where
  "mask_ok bpp width height len bm \<longleftrightarrow> 0 \<le> len \<and> len < 65536 \<and> len \<le> int (length bm)
     \<and> (len = 0 \<or> len = scanlineSize bpp width * height)"

definition pointer_ok :: "int \<Rightarrow> POINTER_COLOR_UPDATE \<Rightarrow> bool" where
  "pointer_ok bpp p \<longleftrightarrow> list_all (\<lambda>v. 0 \<le> v \<and> v < 65536) [pc_cacheIndex p, pc_xPos p, pc_yPos p, pc_width p, pc_height p]
     \<and> pc_width p \<le> 96 \<and> pc_height p \<le> 96 \<and> (pc_xPos p < pc_width p \<or> pc_xPos p = 0) \<and> (pc_yPos p < pc_height p \<or> pc_yPos p = 0)
     \<and> mask_ok bpp (pc_width p) (pc_height p) (pc_lengthXorMask p) (pc_xorMaskData p)
     \<and> mask_ok 1 (pc_width p) (pc_height p) (pc_lengthAndMask p) (pc_andMaskData p)"

text \<open>What is received into a struct that held \<open>o\<close>: a mask that is left out stays.\<close>

definition pointer_got :: "POINTER_COLOR_UPDATE \<Rightarrow> POINTER_COLOR_UPDATE \<Rightarrow> POINTER_COLOR_UPDATE" where
  "pointer_got p0 p = p\<lparr>
     pc_xorMaskData := (if 0 < pc_lengthXorMask p then take (nat (pc_lengthXorMask p)) (pc_xorMaskData p) else pc_xorMaskData p0),
     pc_andMaskData := (if 0 < pc_lengthAndMask p then take (nat (pc_lengthAndMask p)) (pc_andMaskData p) else pc_andMaskData p0)\<rparr>"

lemma write_pointer_color:
  assumes "holds s q" "pointer_ok bpp p" "s_capacity s \<le> 268435456" "length q \<le> 65536"
  shows "\<exists>s'. update_write_pointer_color (Some j) s p = Some s' \<and> holds s' (q @ pointer_bytes p)"
proof -
  have n: "0 \<le> pc_lengthAndMask p" "pc_lengthAndMask p < 65536" "0 \<le> pc_lengthXorMask p" "pc_lengthXorMask p < 65536"
    "pc_lengthAndMask p \<le> int (length (pc_andMaskData p))" "pc_lengthXorMask p \<le> int (length (pc_xorMaskData p))"
    using assms(2) by (simp_all add: pointer_ok_def mask_ok_def)
  then have a: "as_int (pc_lengthAndMask p) = pc_lengthAndMask p" "as_int (pc_lengthXorMask p) = pc_lengthXorMask p" "as_int 0 = 0"
    by (simp_all add: as_int_def)
  let ?n = "32 + pc_lengthAndMask p + pc_lengthXorMask p"
  obtain s1 where s1: "Stream_EnsureRemainingCapacity (Some j) s ?n = Some (True, s1)" "holds s1 q" "int (length q) + ?n \<le> s_capacity s1"
    using holds_remaining [OF assms(1), of ?n j] n assms(3) by auto
  have "length (pointer_bytes p) = 15 + nat (pc_lengthXorMask p) + nat (pc_lengthAndMask p)"
    using n by (simp add: pointer_bytes_def)
  then obtain s2 where s2: "Stream_Write s1 (pointer_bytes p) = Some s2" "holds s2 (q @ pointer_bytes p)"
    using holds_write [OF s1(2), of "pointer_bytes p"] s1(3) n by auto
  have "update_write_pointer_color (Some j) s p = Some s2"
  proof (cases "0 < pc_lengthXorMask p"; cases "0 < pc_lengthAndMask p")
  qed (use s1(1) s2(1) n in \<open>simp_all add: update_write_pointer_color_def a ablock_def emits write_merge pointer_bytes_def\<close>)
  with s2(2) show ?thesis by blast
qed

lemma read_mask:
  assumes "mask_ok bpp width height len bm"
  shows "yields (read_pointer_mask (Some j) bpp width height len old) (take (nat len) bm)
    (Some (if 0 < len then take (nat len) bm else old))"
proof (cases "0 < len")
  case True
  have l: "length (take (nat len) bm) = nat len" using assms by (auto simp: mask_ok_def min_def)
  then have "ablit (arealloc old len j) 0 (take (nat len) bm) = Some (take (nat len) bm)" by (simp add: ablit_def)
  moreover have "scanlineSize bpp width * height = len" using True assms by (simp add: mask_ok_def)
  moreover have "Stream_Read s len = Some (take (nat len) bm, s_adv (nat len) s)" "\<not> Stream_GetRemainingLength s < len"
    if "s_ok s" "s_rest s = take (nat len) bm @ rest" for s rest
    using that l True by (simp_all add: Stream_Read_rest)
  ultimately show ?thesis using True l by (simp add: read_pointer_mask_def yields_def)
next
  case False
  with assms show ?thesis by (simp add: read_pointer_mask_def mask_ok_def yields_def)
qed

lemma yields_pad: "v = w \<Longrightarrow>
    yields (\<lambda>s. do { s \<leftarrow> (if 0 < Stream_GetRemainingLength s then Stream_Seek s 1 else Some s); Some (v, s) }) [0] w"
  by (simp add: yields_def Stream_Seek_rest)

lemma read_pointer_color:
  assumes "pointer_ok bpp p"
  shows "yields (update_read_pointer_color (Some j1) (Some j2) bpp p0) (pointer_bytes p) (True, pointer_got p0 p)"
proof -
  have ok: "mask_ok bpp (pc_width p) (pc_height p) (pc_lengthXorMask p) (pc_xorMaskData p)"
    "mask_ok 1 (pc_width p) (pc_height p) (pc_lengthAndMask p) (pc_andMaskData p)" using assms by (simp_all add: pointer_ok_def)
  have pos: "(if pc_width p \<le> pc_xPos p then 0 else pc_xPos p) = pc_xPos p" "(if pc_height p \<le> pc_yPos p then 0 else pc_yPos p) = pc_yPos p"
    using assms by (auto simp: pointer_ok_def)
  show ?thesis
    unfolding update_read_pointer_color_def Let_def pointer_bytes_def
    by ((rule yields | rule yields_else, (use assms in \<open>simp add: pointer_ok_def; fail\<close>))+,
        rule yields_bind [OF read_mask], rule ok, simp only: option.case,
        rule yields_bind [OF read_mask], rule ok, simp only: option.case, rule yields_pad)
      (use assms in \<open>simp_all add: pointer_ok_def pointer_got_def mask_ok_def pos\<close>)
qed

section \<open>Bitmap updates, from the writer to the reader\<close>

text \<open>
  What the writer puts into an empty stream, read from behind the type of the update: whatever the struct of the client held
  before and whatever the fresh rectangles hold, the reader accepts it, ends where the writer did, and gets the same pictures.
\<close>

lemma bitmap_update_read:
  assumes "holds s []" "s_capacity s \<le> 268435456" "list_all (bitmap_ok noHdr) ds" "length ds < 32768"
    and "length (concat (map (bitmap_bytes noHdr) ds)) \<le> 67108860"
    and "bu_rectangles bu = ds @ post" "bu_number bu = int (length ds)"
  shows "\<exists>bu' s'. update_write_bitmap_update (Some j0) (\<lambda>k. Some (j k)) noHdr bu s = Some ((True, bu'), s')
    \<and> Stream_Read_UINT16 (s'\<lparr>s_pos := 0, s_length := s_pos s'\<rparr>) = Some (1, s_adv 2 (s'\<lparr>s_pos := 0, s_length := s_pos s'\<rparr>))
    \<and> \<not> Stream_GetRemainingLength (s'\<lparr>s_pos := 0, s_length := s_pos s'\<rparr>) < 2
    \<and> (\<forall>old j1. bu_wf old \<longrightarrow> (\<exists>got. update_read_bitmap_update (Some j1) old (s_adv 2 (s'\<lparr>s_pos := 0, s_length := s_pos s'\<rparr>))
          = Some ((True, got), s'\<lparr>s_length := s_pos s'\<rparr>)
        \<and> bu_wf got \<and> bu_number got = int (length ds)
        \<and> map (bitmap_view noHdr) (take (length ds) (bu_rectangles got)) = map (bitmap_view noHdr) ds))"
proof -
  let ?body = "le16 (int (length ds)) @ concat (map (bitmap_bytes noHdr) ds)"
  obtain bu' s' where w: "update_write_bitmap_update (Some j0) (\<lambda>k. Some (j k)) noHdr bu s = Some ((True, bu'), s')"
      "holds s' (le16 1 @ ?body)"
    using write_bitmap_update [OF assms(1,3,2,5,6,7)] by blast
  let ?s = "s'\<lparr>s_pos := 0, s_length := s_pos s'\<rparr>"
  have pos: "s_pos s' = int (length (le16 1 @ ?body))" using w(2) by (simp add: holds_def)
  then have s: "s_ok ?s" "s_rest ?s = le16 1 @ ?body" using holds_reading [OF w(2)] by simp_all
  have fin: "s_adv (length ?body) (s_adv 2 ?s) = s'\<lparr>s_length := s_pos s'\<rparr>" using pos by (simp add: s_adv_def)
  have "\<exists>got. update_read_bitmap_update (Some j1) old (s_adv 2 ?s) = Some ((True, got), s'\<lparr>s_length := s_pos s'\<rparr>)
      \<and> bu_wf got \<and> bu_number got = int (length ds)
      \<and> map (bitmap_view noHdr) (take (length ds) (bu_rectangles got)) = map (bitmap_view noHdr) ds" if wf: "bu_wf old" for old j1
  proof -
    obtain got where g: "yields (update_read_bitmap_update (Some j1) old) ?body (True, got)"
        "bu_wf got" "bu_number got = int (length ds)" "map (bitmap_view noHdr) (take (length ds) (bu_rectangles got)) = map (bitmap_view noHdr) ds"
      using read_bitmap_update [OF assms(3,4) wf] by blast
    have "update_read_bitmap_update (Some j1) old (s_adv 2 ?s) = Some ((True, got), s_adv (length ?body) (s_adv 2 ?s))"
      using s by (intro yieldsD [OF g(1), where rest = "[]"]) simp_all
    with g(2-4) fin show ?thesis by auto
  qed
  moreover have "Stream_Read_UINT16 ?s = Some (1, s_adv 2 ?s)" using read_le16 [OF s] by simp
  moreover have "\<not> Stream_GetRemainingLength ?s < 2" using s by simp
  ultimately show ?thesis using w(1) by blast
qed

text \<open>Updates whose callbacks do nothing and whose allocations succeed.\<close>

definition quiet_updates :: "'w updates" where
  "quiet_updates = \<lparr>cb_BeginPaint = id, cb_EndPaint = id, cb_Synchronize = id, cb_BitmapUpdate = \<lambda>_. id, cb_Palette = \<lambda>_. id,
     cb_PlaySound = \<lambda>_. id, cb_SurfaceBits = \<lambda>_. id, cb_SurfaceFrameMarker = \<lambda>_. id, cb_PointerPosition = \<lambda>_. id,
     cb_PointerSystem = \<lambda>_. id, cb_PointerColor = \<lambda>_. id, cb_PointerNew = \<lambda>_. id, cb_PointerCached = \<lambda>_. id,
     update_recv_order = \<lambda>w s. Some ((True, w), s), realloc_rectangles = \<lambda>w. (Some (\<lambda>_. zero_bitmap), w),
     realloc_mask = \<lambda>w. (Some (\<lambda>_. 0), w), pcap_add_record = \<lambda>_. id\<rparr>"

lemma quiet_simps [simp]: "cb_EndPaint quiet_updates = id" "cb_BitmapUpdate quiet_updates b = id"
  by (simp_all add: quiet_updates_def)

end
