(* ===== verification/UpdateSafety.thy ===== *)
theory UpdateSafety
  imports WUpdateWrite
begin

text \<open>
  The parsers of \<open>update.c\<close> and \<open>surface.c\<close> on arbitrary input: which of them stay inside the stream and the
  arrays they fill whatever the bytes are, and the inputs on which the others do not.
\<close>

section \<open>Parsers that are safe on every input\<close>

lemma reads_bind:
  assumes rd: "reads_from k rd" and f: "\<And>x. reads_from 0 (f x)"
  shows "reads_from k (\<lambda>s. do { (x, s) \<leftarrow> rd s; f x s })"
  unfolding reads_from_def
proof (intro allI impI)
  fix s assume s: "s_ok s" "k \<le> length (s_rest s)"
  obtain v n where n: "n \<le> length (s_rest s)" "rd s = Some (v, s_adv n s)" using rd s unfolding reads_from_def by blast
  have "s_ok (s_adv n s)" using s n(1) by simp
  then obtain w m where "m \<le> length (s_rest (s_adv n s))" "f v (s_adv n s) = Some (w, s_adv m (s_adv n s))"
    using f [of v] unfolding reads_from_def by blast
  with n s show "\<exists>v n. n \<le> length (s_rest s) \<and> (do { (x, s) \<leftarrow> rd s; f x s }) = Some (v, s_adv n s)"
    by (intro exI [of _ w] exI [of _ "n + m"]) auto
qed

lemma reads_option:
  "reads_from k f \<Longrightarrow> (\<And>x. reads_from k (g x)) \<Longrightarrow> reads_from k (\<lambda>s. case v of None \<Rightarrow> f s | Some x \<Rightarrow> g x s)"
  by (cases v) simp_all

lemma reads_last [reads]: "reads_from k (\<lambda>s. do { s \<leftarrow> (if 0 < Stream_GetRemainingLength s then Stream_Seek s 1 else Some s); Some (v, s) })"
  unfolding reads_from_def
  by (auto simp: Stream_Seek_rest Suc_le_eq intro: exI [of _ "0::nat"] exI [of _ "1::nat"])

lemma read_pointer_mask_safe: "safe_reader (read_pointer_mask mem bpp width height len old)"
proof -
  have "ablit (arealloc old l j) 0 (take (nat l) bs) = Some (take (nat l) bs @ drop (min (length bs) (nat l)) (arealloc old l j))" for l j bs
    by (auto simp: ablit_def min_def)
  then have "reads_from 0 (read_pointer_mask mem bpp width height len old)"
    unfolding reads_from_def read_pointer_mask_def
    by (auto simp: Stream_Read_rest nat_le_iff split: option.split intro: exI [of _ "0::nat"] exI [of _ "nat len"])
  then show ?thesis by (rule safe_reader_from)
qed

lemma pointer_parsers_safe [safe_readers]:
  "safe_reader (update_read_pointer_position p)" "safe_reader (update_read_pointer_system t)"
  "safe_reader (update_read_pointer_cached c)" "safe_reader (update_read_play_sound ps)"
  unfolding update_read_pointer_position_def update_read_pointer_system_def update_read_pointer_cached_def update_read_play_sound_def
  by (rule safe_reader_from, intro reads; simp)+

lemma update_read_pointer_color_safe [safe_readers]: "safe_reader (update_read_pointer_color mem1 mem2 xorBpp p)"
  unfolding update_read_pointer_color_def Let_def
  by (rule safe_reader_from, (rule reads reads_option | rule reads_bind [OF reads_safe, OF read_pointer_mask_safe] | simp; fail)+)

lemma update_read_pointer_new_safe [safe_readers]: "safe_reader (update_read_pointer_new mem1 mem2 p)"
  unfolding update_read_pointer_new_def Let_def
  by (rule safe_reader_from, (rule reads | rule reads_bind, rule reads_safe, rule safe_readers | simp add: split_def reads; fail)+)

lemma read_palette_entries_safe:
  "int n + i \<le> int (length entries) \<Longrightarrow> 0 \<le> i \<Longrightarrow> reads_from (3 * n) (read_palette_entries n i entries)"
proof (induction n arbitrary: i entries)
  case 0
  have "read_palette_entries 0 i entries = (\<lambda>s. Some (entries, s))" by (simp add: fun_eq_iff)
  then show ?case by (simp add: reads_ret)
next
  case (Suc n)
  have "reads_from (3 * n) (\<lambda>s. do { es \<leftarrow> aset entries i e; read_palette_entries n (i + 1) es s })" for e
    using Suc.IH [of "i + 1" "entries[nat i := e]"] Suc.prems by (simp add: aset_Some)
  moreover have "3 * Suc n - 1 - 1 - 1 = 3 * n" by simp
  ultimately show ?case unfolding read_palette_entries.simps by (intro reads) simp_all
qed

lemma update_read_palette_safe [safe_readers]:
  assumes "length (pu_entries pu) = 256"
  shows "safe_reader (update_read_palette pu)"
proof (rule safe_reader_from)
  have last: "reads_from (nat (m * 3)) (\<lambda>s. do { (es, s) \<leftarrow> read_palette_entries (nat m) 0 entries s; Some ((True, f es), s) })"
    if "m \<le> 256" "length entries = 256" for m f entries
  proof -
    have "reads_from (3 * nat m) (read_palette_entries (nat m) 0 entries)"
      using read_palette_entries_safe [of "nat m" 0 entries] that by simp
    moreover have "nat (m * 3) = 3 * nat m" by simp
    ultimately show ?thesis by (intro reads_bind reads_ret) simp
  qed
  show "reads_from 0 (update_read_palette pu)"
    unfolding update_read_palette_def Let_def
    by (rule reads_guard, rule reads_seek, simp, simp, rule reads_u32, simp, rule reads_guard, rule last) (use assms in simp_all)
qed

text \<open>The handlers built on them.\<close>

lemma recv_pointer_safe [safe_readers]:
  "safe_reader (recv_pointer_position U upd w)" "safe_reader (recv_pointer_system U upd w)"
  "safe_reader (recv_pointer_color U upd w)" "safe_reader (recv_pointer_new U upd w)" "safe_reader (recv_pointer_cached U upd w)"
  "safe_reader (update_recv_play_sound U upd w)"
  unfolding recv_pointer_position_def recv_pointer_system_def recv_pointer_color_def recv_pointer_new_def
    recv_pointer_cached_def update_recv_play_sound_def Let_def split_beta
  by (rule safe_reader_from, rule reads_bind [OF reads_safe, unfolded split_beta], rule safe_readers, rule reads_ret)+

lemma update_recv_pointer_reads: "safe_reader (update_recv_pointer U upd w)"
  unfolding update_recv_pointer_def
  by (rule safe_reader_from, (rule reads | rule reads_safe, rule safe_readers | simp; fail)+)

section \<open>Parsers that are not\<close>

text \<open>A parser that runs into the end of a buffer that holds the bytes and nothing behind them.\<close>

definition faults :: "(wStream \<Rightarrow> 'a option) \<Rightarrow> byte list \<Rightarrow> bool" where
  "faults rd bs \<longleftrightarrow> (\<forall>s. s_ok s \<longrightarrow> s_rest s = bs \<longrightarrow> s_length s = int (length (s_buffer s)) \<longrightarrow> rd s = None)"

named_theorems faults \<open>rules for parsers that run off the end\<close>

lemma faults_u16 [faults]:
  assumes "faults (f v) cs" "0 \<le> v" "v < 65536"
  shows "faults (\<lambda>s. do { (x, s) \<leftarrow> Stream_Read_UINT16 s; f x s }) (le16 v @ cs)"
  using assms by (auto simp: faults_def read_le16)

lemma faults_u8 [faults]:
  assumes "faults (f v) cs" "0 \<le> v" "v < 256"
  shows "faults (\<lambda>s. do { (x, s) \<leftarrow> Stream_Read_UINT8 s; f x s }) (word_of_int v # cs)"
  using assms by (auto simp: faults_def read_byte)

lemma faults_u16_end [faults]: "length bs < 2 \<Longrightarrow> faults (\<lambda>s. do { (x, s) \<leftarrow> Stream_Read_UINT16 s; f x s }) bs"
proof -
  have "aget (s_buffer s) (s_pos s + 1) = None"
    if "s_ok s" "s_length s = int (length (s_buffer s))" "length (s_rest s) < 2" for s
    using length_s_rest [OF that(1)] that by (simp add: aget_def)
  moreover assume "length bs < 2"
  ultimately show ?thesis by (auto simp: faults_def Stream_Read_UINT16_def split: Option.bind_split)
qed

lemma faults_guard [faults]:
  "faults f bs \<Longrightarrow> n \<le> int (length bs) \<Longrightarrow> faults (\<lambda>s. if Stream_GetRemainingLength s < n then g s else f s) bs"
  by (auto simp: faults_def)

lemma faults_then: "c \<Longrightarrow> faults f bs \<Longrightarrow> faults (\<lambda>s. if c then f s else g s) bs"
  by simp

lemma faults_bind_then: "c \<Longrightarrow> faults (\<lambda>s. Option.bind (f s) h) bs \<Longrightarrow> faults (\<lambda>s. Option.bind (if c then f s else g s) h) bs"
  by simp

lemma faults_assoc [faults]: "faults (\<lambda>s. do { (x, s) \<leftarrow> rd s; Option.bind (f x s) h }) bs \<Longrightarrow>
    faults (\<lambda>s. Option.bind (do { (x, s) \<leftarrow> rd s; f x s }) h) bs"
  by (simp add: split_def)

lemma zero_rectangle: "bitmap_bytes False zero_bitmap = replicate 18 0" "bitmap_ok False zero_bitmap"
  by (simp_all add: bitmap_bytes_def bitmap_hdr_def zero_bitmap_def le16_def bitmap_ok_def numeral_eq_Suc)

text \<open>More rectangles in the stream than in the array.\<close>

lemma read_rectangles_overflow:
  assumes "length olds < n" "s_ok s" "s_rest s = replicate (18 * length olds) 0 @ rest"
  shows "read_rectangles n (int (length pre)) (pre @ olds) s = None"
  using assms
proof (induction olds arbitrary: n pre s)
  case Nil
  then show ?case by (cases n) (simp_all add: aget_def)
next
  case (Cons d0 olds)
  let ?z = "bitmap_got False d0 zero_bitmap"
  obtain m where n: "n = Suc m" "length olds < m" using Cons.prems(1) by (cases n) auto
  have r: "s_rest s = replicate 18 0 @ replicate (18 * length olds) 0 @ rest"
    using Cons.prems(3) by (simp add: replicate_add)
  then have "update_read_bitmap_data d0 s = Some ((True, ?z), s_adv 18 s)"
    using yieldsD [OF read_bitmap_data [OF zero_rectangle(2)] Cons.prems(2), of _ d0] by (simp add: zero_rectangle(1))
  moreover have "read_rectangles m (int (length (pre @ [?z]))) ((pre @ [?z]) @ olds) (s_adv 18 s) = None"
    using Cons.prems(2) r n(2) by (intro Cons.IH) simp_all
  ultimately show ?case by (simp add: n aget_int aset_def nth_append list_update_append add.commute)
qed

section \<open>Properties\<close>

text \<open>A stream that holds exactly the bytes \<open>bs\<close>, and a pointer of one pixel.\<close>

definition reading :: "byte list \<Rightarrow> wStream" where
  "reading bs = \<lparr>s_buffer = bs, s_pos = 0, s_length = int (length bs), s_capacity = int (length bs), s_count = 0, s_pool = NULL\<rparr>"

lemma reading_ok: "length bs \<le> 1000 \<Longrightarrow> s_ok (reading bs) \<and> s_rest (reading bs) = bs \<and> s_length (reading bs) = int (length (s_buffer (reading bs)))"
  by (simp add: reading_def s_ok_def s_rest_def)

definition a_pointer :: POINTER_COLOR_UPDATE where
  "a_pointer = \<lparr>pc_cacheIndex = 0, pc_xPos = 0, pc_yPos = 0, pc_width = 1, pc_height = 1, pc_lengthAndMask = 2, pc_lengthXorMask = 4,
     pc_xorMaskData = [255, 255, 255, 0], pc_andMaskData = [0, 0]\<rparr>"

text \<open>
  C6. The parser of the pointer updates of the slow path stays inside its stream, whatever the bytes of the update are, and
  whether its allocations succeed.
\<close>

theorem update_recv_pointer_safe:
  assumes "s_ok s"
  shows "\<exists>ok upd' w' n. n \<le> length (s_rest s) \<and> update_recv_pointer U upd w s = Some ((ok, upd', w'), s_adv n s)"
  using update_recv_pointer_reads [of U upd w] assms unfolding safe_reader_def by (metis prod_cases3)

theorem update_recv_pointer_safe_witness:
  "\<forall>U upd (w :: nat). \<exists>ok upd' w' n. n \<le> 7 \<and>
    update_recv_pointer U upd w (reading [6, 0, 0, 0, 1, 2, 3]) = Some ((ok, upd', w'), s_adv n (reading [6, 0, 0, 0, 1, 2, 3]))"
  using update_recv_pointer_safe [of "reading [6, 0, 0, 0, 1, 2, 3]", where ?'a = nat] by (simp add: reading_ok numeral_eq_Suc)

text \<open>
  C7. A pointer that is accepted is at most 96 pixels wide and high, its hot spot is a pixel of it (the origin when it has no
  pixels), whatever position the server announced, and each of its masks, unless it is left out, is a block of exactly the bytes
  that its scan lines need: drawing the pointer from its masks stays inside them.
\<close>

theorem update_read_pointer_color_bounds:
  assumes "update_read_pointer_color mem1 mem2 xorBpp p s = Some ((True, q), s')"
  shows "0 \<le> pc_width q \<and> pc_width q \<le> 96 \<and> 0 \<le> pc_height q \<and> pc_height q \<le> 96
    \<and> 0 \<le> pc_xPos q \<and> pc_xPos q < max 1 (pc_width q) \<and> 0 \<le> pc_yPos q \<and> pc_yPos q < max 1 (pc_height q)
    \<and> (0 < pc_lengthXorMask q \<longrightarrow> int (length (pc_xorMaskData q)) = scanlineSize xorBpp (pc_width q) * pc_height q)
    \<and> (0 < pc_lengthAndMask q \<longrightarrow> int (length (pc_andMaskData q)) = scanlineSize 1 (pc_width q) * pc_height q)"
proof -
  have bm: "int (length m) = scanlineSize bpp width * height"
    if "read_pointer_mask mem bpp width height len old s = Some (Some m, s')" "0 < len" for mem bpp width height len old s m s'
    using that by (auto simp: read_pointer_mask_def ablit_def split: if_splits option.splits bind_splits)
  have masks: "(0 < pc_lengthXorMask q \<longrightarrow> int (length (pc_xorMaskData q)) = scanlineSize xorBpp (pc_width q) * pc_height q)
    \<and> (0 < pc_lengthAndMask q \<longrightarrow> int (length (pc_andMaskData q)) = scanlineSize 1 (pc_width q) * pc_height q)" using assms
    by (auto simp: update_read_pointer_color_def Let_def split: if_splits option.splits bind_splits) (rule bm, assumption, assumption)+
  have "0 \<le> pc_width q \<and> pc_width q \<le> 96 \<and> 0 \<le> pc_height q \<and> pc_height q \<le> 96
    \<and> 0 \<le> pc_xPos q \<and> pc_xPos q < max 1 (pc_width q) \<and> 0 \<le> pc_yPos q \<and> pc_yPos q < max 1 (pc_height q)" using assms
    by (auto simp: update_read_pointer_color_def Let_def less_max_iff_disj dest!: Stream_Read_UINT16_range split: if_splits option.splits bind_splits)
  with masks show ?thesis by blast
qed

text \<open>The server announces the hot spot (7, 9) of a pointer of one pixel.\<close>

theorem update_read_pointer_color_bounds_witness:
  "\<exists>q s'. update_read_pointer_color (Some (\<lambda>_. 0)) (Some (\<lambda>_. 0)) 24 a_pointer
      (reading (pointer_bytes (a_pointer\<lparr>pc_xPos := 7, pc_yPos := 9\<rparr>))) = Some ((True, q), s')
    \<and> pc_width q = 1 \<and> pc_xPos q = 0 \<and> pc_yPos q = 0 \<and> int (length (pc_xorMaskData q)) = scanlineSize 24 1 * 1"
proof -
  let ?r = "update_read_pointer_color (Some (\<lambda>_. 0)) (Some (\<lambda>_. 0)) 24 a_pointer
      (reading (pointer_bytes (a_pointer\<lparr>pc_xPos := 7, pc_yPos := 9\<rparr>)))"
  have "map_option (\<lambda>((ok, q), s'). ok \<and> pc_width q = 1 \<and> pc_height q = 1 \<and> pc_lengthXorMask q = 4) ?r = Some True"
    by code_simp
  then obtain q s' where r: "?r = Some ((True, q), s')" and q: "pc_width q = 1" "pc_height q = 1" "pc_lengthXorMask q = 4" by auto
  from update_read_pointer_color_bounds [OF r] q have "0 \<le> pc_xPos q" "pc_xPos q < 1" "0 \<le> pc_yPos q" "pc_yPos q < 1"
    "int (length (pc_xorMaskData q)) = scanlineSize 24 1 * 1" by simp_all
  with r q show ?thesis by auto
qed

text \<open>
  C8. A bitmap update that announces more than 32768 rectangles: the array is sized by the low 16 bits of twice the number, and
  the parser writes behind its end.
\<close>

theorem update_read_bitmap_update_overflow:
  assumes "32768 < n" "n < 65536" "bu_wf bu" "bu_count bu \<le> 2 * n - 65536"
    and "s_ok s" "s_rest s = le16 n @ replicate (nat (18 * (2 * n - 65536))) 0 @ rest"
  shows "update_read_bitmap_update (Some j) bu s = None"
proof -
  obtain c where c: "bu_count bu = int c" "c = length (bu_rectangles bu)" using assms(3) by (simp add: bu_wf_def)
  obtain k where k: "2 * n - 65536 = int k" using assms(1) zero_le_imp_eq_int [of "2 * n - 65536"] by auto
  define R where "R = bu_rectangles bu @ replicate (k - c) zero_bitmap"
  have ck: "c \<le> k" "int k < n" "k < 65536" using assms(1,2,4) c(1) k by linarith+
  have R: "length R = k" "R = [] @ R" using ck c(2) by (simp_all add: R_def)
  have "n * 2 = int k + 65536" using k by simp
  then have u: "u16 (n * 2) = int k" using ck(3) by (simp add: u16_def)
  have "take c (arealloc (bu_rectangles bu) (int k) j) = bu_rectangles bu" using ck c(2) by (simp add: take_arealloc)
  moreover have "(int k - int c) mod 4294967296 = int (k - c)" using ck by simp
  ultimately have fill: "afill (arealloc (bu_rectangles bu) (int k) j) (int c) ((int k - int c) mod 4294967296) zero_bitmap = Some R"
    using ck by (simp add: afill_def R_def)
  have rd: "Stream_Read_UINT16 s = Some (n, s_adv 2 s)" using read_le16 [OF assms(5,6)] assms(1,2) by simp
  have "nat (18 * (2 * n - 65536)) = 18 * length R" using k R(1) by (simp add: nat_mult_distrib)
  then have "s_rest (s_adv 2 s) = replicate (18 * length R) 0 @ rest" "s_ok (s_adv 2 s)" using assms(5,6) by simp_all
  from read_rectangles_overflow [OF _ this(2,1), of "nat n" "[]"] have "read_rectangles (nat n) 0 R (s_adv 2 s) = None"
    using R(1) ck(2) by simp
  then show ?thesis using assms(5,6) rd fill c(1) ck u by (simp add: update_read_bitmap_update_def Let_def)
qed

theorem update_read_bitmap_update_overflow_witness:
  "update_read_bitmap_update (Some (\<lambda>_. zero_bitmap)) \<lparr>bu_count = 0, bu_number = 0, bu_rectangles = [], bu_skipCompression = False\<rparr>
    (reading (le16 32769 @ replicate 36 0)) = None"
  using reading_ok [of "le16 32769 @ replicate 36 0"]
  by (intro update_read_bitmap_update_overflow [where n = 32769 and rest = "[]"]) (simp_all add: bu_wf_def)

text \<open>
  A compressed rectangle whose update ends behind the 18 bytes that are checked for: the parser reads the compression
  header behind the end of the buffer.
\<close>

theorem update_read_bitmap_data_overrun:
  assumes "\<forall>v \<in> set [a, b, c, d, e, f, g, len]. 0 \<le> v \<and> v < 65536"
    and "s_ok s" "s_length s = int (length (s_buffer s))"
    and "s_rest s = le16 a @ le16 b @ le16 c @ le16 d @ le16 e @ le16 f @ le16 g @ le16 1 @ le16 len"
  shows "update_read_bitmap_data d0 s = None"
proof -
  have "faults (update_read_bitmap_data d0) (le16 a @ le16 b @ le16 c @ le16 d @ le16 e @ le16 f @ le16 g @ le16 1 @ le16 len @ [])"
    unfolding update_read_bitmap_data_def Let_def
    by (rule faults | rule faults_then, (simp; fail) | rule faults_bind_then, (simp; fail))+ (use assms(1) in simp_all)
  with assms(2-4) show ?thesis by (simp add: faults_def)
qed

theorem update_read_bitmap_data_overrun_witness:
  "update_read_bitmap_data zero_bitmap (reading (le16 0 @ le16 0 @ le16 7 @ le16 7 @ le16 8 @ le16 8 @ le16 16 @ le16 1 @ le16 64)) = None"
  using reading_ok [of "le16 0 @ le16 0 @ le16 7 @ le16 7 @ le16 8 @ le16 8 @ le16 16 @ le16 1 @ le16 64"]
  by (intro update_read_bitmap_data_overrun [where a = 0 and b = 0 and c = 7 and d = 7 and e = 8 and f = 8 and g = 16 and len = 64])
    simp_all

text \<open>
  C9. Surface commands whose announced size ends inside the last of them, after more than two of its bytes: that command is
  received, the size that is left wraps around, and the loop reads the type of another command behind the end of the buffer.
\<close>

theorem update_recv_surfcmds_overrun:
  assumes "list_all surfcmd_ok cs" "surfcmd_ok c" "2 < k" "k < int (length (surfcmd_bytes c))"
    and "s_ok s" "s_length s = int (length (s_buffer s))" "s_rest s = concat (map surfcmd_bytes cs) @ surfcmd_bytes c"
  shows "update_recv_surfcmds U upd w (int (length (concat (map surfcmd_bytes cs))) + k) s = None"
proof -
  let ?a = "concat (map surfcmd_bytes cs)" and ?b = "surfcmd_bytes c"
  have len: "int (length ?a) + int (length ?b) \<le> INT_MAX"
    using assms(5,7) length_s_rest [OF assms(5)] by (simp add: s_ok_def)
  obtain upd1 w1 where f: "fold (deliver_surfcmd U) cs (upd, w) = (upd1, w1)" by fastforce
  obtain l1 where 1: "surfcmds_loop U upd w 0 (int (length ?a) + k) s = surfcmds_loop U upd1 w1 l1 k (s_adv (length ?a) s)"
    using surfcmds_loop_prefix [OF assms(1,5,7,3), of U upd w 0] len assms(4) f by auto
  have r: "s_ok (s_adv (length ?a) s)" "s_rest (s_adv (length ?a) s) = ?b @ []" using assms(5,7) by simp_all
  obtain upd2 w2 where d: "deliver_surfcmd U c (upd1, w1) = (upd2, w2)" by fastforce
  obtain l2 where 2: "surfcmds_loop U upd1 w1 l1 k (s_adv (length ?a) s)
      = surfcmds_loop U upd2 w2 l2 ((k - int (length ?b)) mod 4294967296) (s_adv (length ?b) (s_adv (length ?a) s))"
    using surfcmds_step_wrap [OF assms(2) r assms(3), of U upd1 w1 l1] d by auto
  let ?e = "s_adv (length ?b) (s_adv (length ?a) s)"
  have "s_ok ?e" "s_rest ?e = []" "s_length ?e = int (length (s_buffer ?e))" using assms(5-7) by simp_all
  then have "aget (s_buffer ?e) (s_pos ?e) = None" using length_s_rest [of ?e] by (simp add: aget_def)
  then have "Stream_Read_UINT16 ?e = None" by (simp add: Stream_Read_UINT16_def)
  moreover have "2 < (k - int (length ?b)) mod 4294967296"
  proof -
    have "(k - int (length ?b)) mod 4294967296 = k - int (length ?b) + 4294967296"
      using assms(3,4) len mod_pos_pos_trivial [of "k - int (length ?b) + 4294967296" 4294967296] by (simp only: mod_add_self2)
    then show ?thesis using assms(3,4) len by simp
  qed
  ultimately have "surfcmds_loop U upd2 w2 l2 ((k - int (length ?b)) mod 4294967296) ?e = None"
    by (subst surfcmds_loop.simps) simp
  with 1 2 show ?thesis by (simp add: update_recv_surfcmds_def)
qed

text \<open>Two frame markers of eight bytes each in an update of eleven.\<close>

theorem update_recv_surfcmds_overrun_witness:
  "\<forall>U (w :: nat). update_recv_surfcmds U update_new w 11 (reading (surfcmd_bytes (FrameMarker 0 7) @ surfcmd_bytes (FrameMarker 1 7))) = None"
proof (intro allI)
  fix U and w :: nat
  let ?s = "reading (surfcmd_bytes (FrameMarker 0 7) @ surfcmd_bytes (FrameMarker 1 7))"
  have "s_ok ?s" "s_length ?s = int (length (s_buffer ?s))" "s_rest ?s = concat (map surfcmd_bytes [FrameMarker 0 7]) @ surfcmd_bytes (FrameMarker 1 7)"
    using reading_ok [of "surfcmd_bytes (FrameMarker 0 7) @ surfcmd_bytes (FrameMarker 1 7)"] by simp_all
  from update_recv_surfcmds_overrun [OF _ _ _ _ this, of 3 U update_new w]
  show "update_recv_surfcmds U update_new w 11 ?s = None" by simp
qed

text \<open>
  A surface command with an invalid depth is not refused: the status is the one of success, the length is that of the command before,
  and the parser stands in the middle of the command, from where it goes on.
\<close>

theorem update_recv_surfcmd_bad_depth:
  assumes "\<forall>v \<in> set [a, b, c, d]. 0 \<le> v \<and> v < 65536" "bpp = 0 \<or> 32 < bpp \<and> bpp < 256"
    and "s_ok s" "s_rest s = le16 a @ le16 b @ le16 c @ le16 d @ word_of_int bpp # rest" "11 \<le> length rest"
  shows "\<exists>upd'. update_recv_surfcmd_surface_bits U upd w len s = Some (((0, len), upd', w), s_adv 9 s)"
proof -
  have "Stream_Read_UINT16 s = Some (a, s_adv 2 s)" "Stream_Read_UINT16 (s_adv 2 s) = Some (b, s_adv 4 s)"
    "Stream_Read_UINT16 (s_adv 4 s) = Some (c, s_adv 6 s)" "Stream_Read_UINT16 (s_adv 6 s) = Some (d, s_adv 8 s)"
    using assms(1,3-5) read_le16 [of s a] read_le16 [of "s_adv 2 s" b] read_le16 [of "s_adv 4 s" c] read_le16 [of "s_adv 6 s" d]
    by simp_all
  moreover have "Stream_Read_UINT8 (s_adv 8 s) = Some (bpp, s_adv 9 s)"
    using assms(2-5) read_byte [of "s_adv 8 s" bpp] by auto
  moreover have "(bpp < 1 \<or> 32 < bpp) = True" using assms(2) by auto
  ultimately show ?thesis using assms(3-5) by (simp only: update_recv_surfcmd_surface_bits_def Let_def) simp
qed

theorem update_recv_surfcmd_bad_depth_witness:
  "\<forall>U upd (w :: nat). \<exists>upd'. update_recv_surfcmd_surface_bits U upd w 5 (reading (le16 0 @ le16 0 @ le16 7 @ le16 7 @ 0 # replicate 11 0))
    = Some (((0, 5), upd', w), s_adv 9 (reading (le16 0 @ le16 0 @ le16 7 @ le16 7 @ 0 # replicate 11 0)))"
  using reading_ok [of "le16 0 @ le16 0 @ le16 7 @ le16 7 @ 0 # replicate 11 0"]
  by (intro allI update_recv_surfcmd_bad_depth [where a = 0 and b = 0 and c = 7 and d = 7 and bpp = 0 and rest = "replicate 11 0"]) simp_all

end
