(* ===== verification/PacketLink.thy ===== *)
theory PacketLink
  imports CPrelude
begin

text \<open>
  Two ends of a stateful channel: the sender turns a packet into what goes over the wire and the receiver turns
  it back, each with a context of its own that depends on all packets before. The contract of such a channel is
  that the contexts stay in step; whole sessions follow from it.
\<close>

fun link_session :: "('s \<Rightarrow> 'p \<Rightarrow> ('w \<times> 's) option) \<Rightarrow> ('r \<Rightarrow> 'p \<Rightarrow> 'w \<Rightarrow> ('m \<times> 'r) option) \<Rightarrow> 's \<Rightarrow> 'r \<Rightarrow> 'p list \<Rightarrow>
    ('m list \<times> 's \<times> 'r) option" where
  "link_session send receive s r [] = Some ([], s, r)"
| "link_session send receive s r (p # ps) = do {
     (w, s) \<leftarrow> send s p;
     (m, r) \<leftarrow> receive r p w;
     (ms, s, r) \<leftarrow> link_session send receive s r ps;
     Some (m # ms, s, r) }"

locale packet_link =
  fixes in_sync :: "'s \<Rightarrow> 'r \<Rightarrow> bool"
    and fits :: "'p \<Rightarrow> bool"
    and send :: "'s \<Rightarrow> 'p \<Rightarrow> ('w \<times> 's) option"
    and receive :: "'r \<Rightarrow> 'p \<Rightarrow> 'w \<Rightarrow> ('m \<times> 'r) option"
    and content :: "'p \<Rightarrow> 'm"
  assumes transfer: "in_sync s r \<Longrightarrow> fits p \<Longrightarrow>
    \<exists>w s' r'. send s p = Some (w, s') \<and> receive r p w = Some (content p, r') \<and> in_sync s' r'"
begin

lemma session: "in_sync s r \<Longrightarrow> \<forall>p \<in> set ps. fits p \<Longrightarrow>
    \<exists>s' r'. link_session send receive s r ps = Some (map content ps, s', r') \<and> in_sync s' r'"
proof (induction ps arbitrary: s r)
  case (Cons p ps)
  obtain w s1 r1 where t: "send s p = Some (w, s1)" "receive r p w = Some (content p, r1)" "in_sync s1 r1"
    using transfer [OF Cons.prems(1), of p] Cons.prems(2) by auto
  obtain s' r' where "link_session send receive s1 r1 ps = Some (map content ps, s', r')" "in_sync s' r'"
    using Cons.IH [OF t(3)] Cons.prems(2) by auto
  with t show ?case by simp
qed simp

end

end
