(* ===== verification/MppcRoundtrip.thy ===== *)
theory MppcRoundtrip
  imports MppcTokens PacketLink
begin

text \<open>
  The compressor writes tokens that play back its source, and a compressor and a decompressor that start in
  step stay in step over any sequence of packets.
\<close>

section \<open>Matches\<close>

lemma drop_masked: "unat (drop_bit 12 (w AND 0x07FFF000)) < 32768" for w :: uint32
proof -
  have "w AND 0x07FFF000 \<le> 0x07FFF000" by (rule word_and_le1)
  then have "unat (w AND 0x07FFF000) \<le> 0x07FFF000" by (simp add: word_le_nat_alt)
  then have "unat (w AND 0x07FFF000) div 2 ^ 12 < 32768" by (intro less_mult_imp_div_less) simp
  moreover have "unat (drop_bit 12 (w AND 0x07FFF000)) = unat (w AND 0x07FFF000) div 2 ^ 12"
    unfolding unat_drop_bit_eq by (rule drop_bit_eq_div)
  ultimately show ?thesis by metis
qed

lemma match_index_small: "uint (MPPC_MATCH_INDEX a b c) < 32768"
proof -
  have "int (unat (MPPC_MATCH_INDEX a b c)) < int 32768" unfolding MPPC_MATCH_INDEX_def of_nat_less_iff by (rule drop_masked)
  then show ?thesis by simp
qed

text \<open>A match of three bytes, found or not.\<close>

lemma no_match_total:
  assumes "M + 1 < length h"
  obtains b where "mppc_no_match before h (int M) hp mhp x y z = Some b"
    "\<not> b \<Longrightarrow> M \<noteq> 0 \<and> h ! (M - 1) = x \<and> h ! M = y \<and> h ! (M + 1) = z \<and> int M + 1 \<le> mhp \<and> int M \<noteq> hp - 1 \<and> int M \<noteq> hp"
proof -
  have g: "aget h (int M) = Some (h ! M)" "aget h (int M + 1) = Some (h ! (M + 1))"
    "M \<noteq> 0 \<Longrightarrow> aget h (int M - 1) = Some (h ! (M - 1))"
    using assms by (simp_all add: aget_def nat_diff_distrib nat_add_distrib)
  show ?thesis
  proof (cases "M = 0")
    case True
    then show ?thesis using g(1,2) by (intro that) (auto simp: mppc_no_match_def)
  next
    case False
    then show ?thesis using g
      by (intro that [of "x \<noteq> h ! (M - 1) \<or> y \<noteq> h ! M \<or> z \<noteq> h ! (M + 1) \<or> mhp < int M + 1 \<or> int M = hp - 1 \<or> int M = hp"])
        (auto simp: mppc_no_match_def)
  qed
qed

lemma cpy_three:
  assumes "M \<noteq> 0" "M \<noteq> hp" "M \<noteq> hp + 1" "h1 = h[hp := x]" "h1 ! (M - 1) = x" "h1 ! M = y" "h1 ! (M + 1) = z"
    "hp + 2 < length h" "M + 1 < length h"
  shows "cpy h hp (M - 1) 3 = h1[hp + 1 := y, hp + 2 := z]"
proof -
  have "h ! (M - 1) = x" using assms by (cases "M - 1 = hp") (auto simp: nth_list_update)
  moreover have "h[hp := x] ! M = y" using assms(4,6) by simp
  moreover have "h[hp := x, Suc hp := y] ! Suc M = z" using assms by (auto simp: nth_list_update)
  ultimately show ?thesis using assms(1,4) by (simp add: numeral_3_eq_3)
qed

lemma extend_ok:
  assumes "p < length src" "hp + (length src - p) \<le> length h" "M < hp \<or> M \<le> mhp + 1 \<and> mhp + 1 < length h"
  shows "\<exists>n. mppc_extend src (int (length src) - 1) (int mhp) (int p) (int M) h (int hp) (int len) =
      Some (int (p + n), cpy h hp M n, int (hp + n), int (len + n))
    \<and> p + n < length src \<and> (\<forall>i < n. cpy h hp M n ! (hp + i) = src ! (p + i)) \<and> (M < hp \<or> M + n \<le> mhp + 1)"
  using assms
proof (induction "length src - p" arbitrary: p hp M h len rule: less_induct)
  case less
  have M: "M < length h" using less.prems by auto
  have g: "aget src (int p) = Some (src ! p)" "aget h (int M) = Some (h ! M)" using less.prems(1) M by (simp_all add: aget_int)
  show ?case
  proof (cases "src ! p = h ! M \<and> p + 1 < length src \<and> M \<le> mhp")
    case False
    then have "mppc_extend src (int (length src) - 1) (int mhp) (int p) (int M) h (int hp) (int len) =
        Some (int p, h, int hp, int len)"
      using g by (subst mppc_extend.simps) auto
    then show ?thesis using less.prems by (intro exI [of _ 0]) auto
  next
    case True
    let ?h = "h[hp := src ! p]"
    have st: "mppc_extend src (int (length src) - 1) (int mhp) (int p) (int M) h (int hp) (int len) =
        mppc_extend src (int (length src) - 1) (int mhp) (int (p + 1)) (int (M + 1)) ?h (int (hp + 1)) (int (len + 1))"
      using g True less.prems(1,2) by (subst mppc_extend.simps) (auto simp: aset_def add.commute)
    have "length src - (p + 1) < length src - p" "p + 1 < length src" "hp + 1 + (length src - (p + 1)) \<le> length ?h"
      "M + 1 < hp + 1 \<or> M + 1 \<le> mhp + 1 \<and> mhp + 1 < length ?h" using True less.prems by auto
    from less.hyps [OF this] obtain n where n:
      "mppc_extend src (int (length src) - 1) (int mhp) (int (p + 1)) (int (M + 1)) ?h (int (hp + 1)) (int (len + 1)) =
        Some (int (p + 1 + n), cpy ?h (hp + 1) (M + 1) n, int (hp + 1 + n), int (len + 1 + n))"
      "p + 1 + n < length src" "\<forall>i < n. cpy ?h (hp + 1) (M + 1) n ! (hp + 1 + i) = src ! (p + 1 + i)"
      "M + 1 < hp + 1 \<or> M + 1 + n \<le> mhp + 1" by blast
    have c: "cpy h hp M (Suc n) = cpy ?h (hp + 1) (M + 1) n" using True by simp
    have "cpy h hp M (Suc n) ! (hp + i) = src ! (p + i)" if "i < Suc n" for i
    proof (cases i)
      case 0
      then show ?thesis using cpy_below [of hp "hp + 1" ?h "M + 1" n] less.prems(1,2) unfolding c by simp
    next
      case (Suc j)
      then show ?thesis using n(3) that unfolding c by simp
    qed
    then show ?thesis using n(1,2,4) c by (intro exI [of _ "Suc n"]) (simp add: st)
  qed
qed

section \<open>The loops of the compressor\<close>

text \<open>
  The compressor in the middle of a packet: \<open>p\<close> bytes of the source are in the history from \<open>hp0\<close> on. An entry
  of the match table points into the part of the history already written: up to the highest position since
  the last reset, which \<open>HistoryPtr\<close> holds, or, directly after a reset, up to the current position.
\<close>

definition entries_ok :: "bool \<Rightarrow> nat \<Rightarrow> MPPC_CONTEXT \<Rightarrow> bool" where
  "entries_ok r hp c \<longleftrightarrow> (\<exists>mhp. mp_HistoryPtr c = int mhp \<and>
     (\<forall>e \<in> set (mp_MatchBuffer c). unat e + 3 \<le> wlevel r \<and> (mhp + 3 \<le> wlevel r \<or> unat e \<le> hp)))"

definition ctx_ok :: "bool \<Rightarrow> MPPC_CONTEXT \<Rightarrow> bool" where
  "ctx_ok r c \<longleftrightarrow> length (mp_HistoryBuffer c) = 65536 \<and> length (mp_MatchBuffer c) = 32768
     \<and> mp_HistoryBufferSize c = int (wlevel r) \<and> mp_CompressionLevel c = of_bool r
     \<and> (\<forall>i < 65536. wlevel r \<le> i \<longrightarrow> mp_HistoryBuffer c ! i = 0)"

definition compressing :: "bool \<Rightarrow> byte list \<Rightarrow> nat \<Rightarrow> nat \<Rightarrow> MPPC_CONTEXT \<Rightarrow> bool" where
  "compressing r src hp0 p c \<longleftrightarrow> ctx_ok r c \<and> entries_ok r (hp0 + p) c \<and> p \<le> length src \<and> hp0 + length src + 3 < wlevel r
     \<and> (\<forall>i < p. mp_HistoryBuffer c ! (hp0 + i) = src ! i)"

text \<open>What a loop gives: a full output, or tokens for what it has taken from the source.\<close>

definition wrote :: "bool \<Rightarrow> byte list \<Rightarrow> nat \<Rightarrow> byte list \<Rightarrow> nat \<Rightarrow> bool list \<Rightarrow> byte list \<Rightarrow> nat \<Rightarrow>
    (bool \<times> MPPC_CONTEXT \<times> int \<times> int) option \<Rightarrow> bool" where
  "wrote r src hp0 buf cap bl h p res \<longleftrightarrow> (\<exists>ok c' p'. res = Some (ok, c', int p', int (hp0 + p')) \<and> ctx_ok r c' \<and>
     (ok \<longrightarrow> compressing r src hp0 p' c' \<and> p \<le> p' \<and>
        (\<exists>ts. bs_writes (mp_bs c') buf cap (bl @ bits_of r ts) \<and> length (bl @ bits_of r ts) < 8 * cap
           \<and> plays r ts (h, hp0 + p) = Some (mp_HistoryBuffer c', hp0 + p'))))"

lemma not_full:
  assumes "bs_position bs = int n" "0 < cap" "cap \<le> 65536" "n \<le> 8 * cap" "\<not> mppc_full (int cap) (int k) bs" "k < 8"
  shows "n + 8 * k + 1 \<le> 8 * cap"
proof -
  have "u32 (int cap - 1) = int cap - 1" using assms(2,3) by (simp add: u32_def)
  moreover have "u32 (int n div 8 + int k) = int (n div 8) + int k" using assms(3,4,6) by (simp add: u32_def zdiv_int)
  ultimately have "int (n div 8) + int k \<le> int cap - 1" using assms(1,5) by (simp add: mppc_full_def zdiv_int not_less)
  then show ?thesis by linarith
qed


lemma wrote_step:
  assumes "wrote r src hp0 buf cap (bl @ token_bits r t) h1 p1 res" "plays r [t] (h, hp0 + p) = Some (h1, hp0 + p1)" "p \<le> p1"
  shows "wrote r src hp0 buf cap bl h p res"
proof -
  obtain ok c' p' where w: "res = Some (ok, c', int p', int (hp0 + p'))" "ctx_ok r c'"
    "ok \<longrightarrow> compressing r src hp0 p' c' \<and> p1 \<le> p' \<and> (\<exists>ts. bs_writes (mp_bs c') buf cap ((bl @ token_bits r t) @ bits_of r ts)
       \<and> length ((bl @ token_bits r t) @ bits_of r ts) < 8 * cap \<and> plays r ts (h1, hp0 + p1) = Some (mp_HistoryBuffer c', hp0 + p'))"
    using assms(1) unfolding wrote_def by blast
  have "\<exists>ts. bs_writes (mp_bs c') buf cap (bl @ bits_of r ts) \<and> length (bl @ bits_of r ts) < 8 * cap
      \<and> plays r ts (h, hp0 + p) = Some (mp_HistoryBuffer c', hp0 + p')" if ok
  proof -
    from w(3) that obtain ts where ts: "bs_writes (mp_bs c') buf cap ((bl @ token_bits r t) @ bits_of r ts)"
       "length ((bl @ token_bits r t) @ bits_of r ts) < 8 * cap" "plays r ts (h1, hp0 + p1) = Some (mp_HistoryBuffer c', hp0 + p')" by blast
    then show ?thesis using plays_append [of r "[t]" ts "(h, hp0 + p)"] assms(2) by (intro exI [of _ "t # ts"]) simp
  qed
  with w assms(3) show ?thesis unfolding wrote_def by (intro exI [of _ ok] exI [of _ c'] exI [of _ p']) auto
qed

lemma wrote_full:
  "ctx_ok r c \<Longrightarrow> wrote r src hp0 buf cap bl h p (Some (False, c, int p', int (hp0 + p')))"
  by (auto simp: wrote_def)

lemma entries_mono: "entries_ok r hp c \<Longrightarrow> hp \<le> hp' \<Longrightarrow> mp_HistoryPtr c' = mp_HistoryPtr c \<Longrightarrow>
    mp_MatchBuffer c' = mp_MatchBuffer c \<Longrightarrow> entries_ok r hp' c'"
  by (fastforce simp: entries_ok_def)

lemma entries_update:
  assumes "entries_ok r hp c" "hp + 4 \<le> wlevel r" "mp_MatchBuffer c' = (mp_MatchBuffer c)[i := word_of_int (int (hp + 1))] \<or> mp_MatchBuffer c' = mp_MatchBuffer c"
    and "mp_HistoryPtr c' = (if mp_HistoryPtr c < int (hp + 1) then int (hp + 1) else mp_HistoryPtr c)"
  shows "entries_ok r (hp + 1) c'"
proof -
  obtain mhp where m: "mp_HistoryPtr c = int mhp"
    "\<And>e. e \<in> set (mp_MatchBuffer c) \<Longrightarrow> unat e + 3 \<le> wlevel r \<and> (mhp + 3 \<le> wlevel r \<or> unat e \<le> hp)"
    using assms(1) by (auto simp: entries_ok_def)
  let ?m = "if mhp < hp + 1 then hp + 1 else mhp"
  have u: "unat (word_of_int (int (hp + 1)) :: 16 word) = hp + 1"
    using assms(2) wlevel_pos(2) [of r] by (simp add: unat_of_nat take_bit_nat_eq_self del: of_nat_Suc flip: of_nat_Suc)
  have "unat e + 3 \<le> wlevel r \<and> (?m + 3 \<le> wlevel r \<or> unat e \<le> hp + 1)" if "e \<in> set (mp_MatchBuffer c')" for e
  proof (cases "e = word_of_int (int (hp + 1))")
    case True
    then show ?thesis using u assms(2) by simp
  next
    case False
    then have "e \<in> set (mp_MatchBuffer c)" using that assms(3) set_update_subset_insert by fastforce
    then show ?thesis using m(2) [of e] assms(2) by auto
  qed
  moreover have "mp_HistoryPtr c' = int ?m" using assms(4) m(1) by simp
  ultimately show ?thesis unfolding entries_ok_def by blast
qed

lemma aset_int: "aset xs (int i) v = (if i < length xs then Some (xs[i := v]) else None)"
  by (simp add: aset_def)

lemma match_src_back:
  assumes "M \<noteq> 0" "M \<le> wlevel r"
  shows "match_src r hp (nat ((int (hp + 1) - int M) mod int (wlevel r))) = M - 1"
proof -
  have "int (nat ((int (hp + 1) - int M) mod int (wlevel r))) = (int (hp + 1) - int M) mod int (wlevel r)"
    using wlevel_pos(1) [of r] by simp
  then have "match_src r hp (nat ((int (hp + 1) - int M) mod int (wlevel r))) = nat ((int hp - (int (hp + 1) - int M)) mod int (wlevel r))"
    by (simp add: match_src_def mod_diff_right_eq)
  also have "int hp - (int (hp + 1) - int M) = int (M - 1)" using assms(1) by simp
  also have "int (M - 1) mod int (wlevel r) = int (M - 1)" using assms by simp
  finally show ?thesis by simp
qed


text \<open>The state after one symbol has been looked up.\<close>

definition looked :: "nat \<Rightarrow> byte \<Rightarrow> nat \<Rightarrow> MPPC_CONTEXT \<Rightarrow> MPPC_CONTEXT" where
  "looked hp ch i c = c\<lparr>mp_HistoryBuffer := (mp_HistoryBuffer c)[hp := ch],
     mp_MatchBuffer := (if unat (mp_MatchBuffer c ! i) \<noteq> hp then (mp_MatchBuffer c)[i := word_of_int (int (hp + 1))] else mp_MatchBuffer c),
     mp_HistoryPtr := (if mp_HistoryPtr c < int (hp + 1) then int (hp + 1) else mp_HistoryPtr c)\<rparr>"

lemma looked_ok:
  assumes "compressing r src hp0 p c" "p < length src" "ch = src ! p" "i < 32768"
  shows "compressing r src hp0 (p + 1) (looked (hp0 + p) ch i c)"
proof -
  note c = assms(1) [unfolded compressing_def ctx_ok_def]
  have "entries_ok r (hp0 + p + 1) (looked (hp0 + p) ch i c)"
    using c assms(2) by (intro entries_update [of _ _ c _ i]) (auto simp: looked_def)
  moreover have "ctx_ok r (looked (hp0 + p) ch i c)"
    using c assms(2) by (auto simp: ctx_ok_def looked_def nth_list_update)
  moreover have "mp_HistoryBuffer (looked (hp0 + p) ch i c) ! (hp0 + j) = src ! j" if "j < p + 1" for j
    using c assms(2,3) that wlevel_pos(2) [of r] by (auto simp: looked_def nth_list_update less_Suc_eq)
  ultimately show ?thesis using c assms(2) by (simp add: compressing_def add.assoc)
qed

lemma compressing_bs: "compressing r src hp0 p (c\<lparr>mp_bs := bs\<rparr>) = compressing r src hp0 p c"
  by (simp add: compressing_def ctx_ok_def entries_ok_def)

text \<open>The state after a match of \<open>k\<close> bytes.\<close>

lemma matched_ok:
  assumes "compressing r src hp0 p c" "p \<le> p'" "p' \<le> length src"
    and "length h = length (mp_HistoryBuffer c)" "\<And>i. i < hp0 + p \<Longrightarrow> h ! i = mp_HistoryBuffer c ! i"
    and "\<And>i. hp0 + p' \<le> i \<Longrightarrow> h ! i = mp_HistoryBuffer c ! i" "\<And>i. p \<le> i \<Longrightarrow> i < p' \<Longrightarrow> h ! (hp0 + i) = src ! i"
  shows "compressing r src hp0 p' (c\<lparr>mp_HistoryBuffer := h\<rparr>)"
proof -
  have c: "ctx_ok r c" "entries_ok r (hp0 + p) c" "hp0 + length src + 3 < wlevel r"
    and z: "\<And>i. i < 65536 \<Longrightarrow> wlevel r \<le> i \<Longrightarrow> mp_HistoryBuffer c ! i = 0"
    and w: "\<And>i. i < p \<Longrightarrow> mp_HistoryBuffer c ! (hp0 + i) = src ! i"
    using assms(1) unfolding compressing_def ctx_ok_def by blast+
  have "entries_ok r (hp0 + p') (c\<lparr>mp_HistoryBuffer := h\<rparr>)" by (rule entries_mono [OF c(2)]) (use assms(2) in simp_all)
  moreover have "h ! (hp0 + i) = src ! i" if "i < p'" for i
  proof (cases "i < p")
    case True
    then show ?thesis using assms(5) [of "hp0 + i"] w [of i] by simp
  next
    case False
    then show ?thesis using assms(7) [of i] that by simp
  qed
  moreover have "h ! i = 0" if "i < 65536" "wlevel r \<le> i" for i
  proof -
    have "hp0 + p' \<le> i" using that(2) c(3) assms(3) by linarith
    from assms(6) [OF this] z [OF that] show ?thesis by metis
  qed
  moreover have "length h = 65536" using c(1) assms(4) by (simp add: ctx_ok_def)
  moreover have "length (mp_MatchBuffer c) = 32768" "mp_HistoryBufferSize c = int (wlevel r)" "mp_CompressionLevel c = of_bool r"
    using c(1) unfolding ctx_ok_def by blast+
  ultimately show ?thesis using c(3) assms(3) by (simp add: compressing_def ctx_ok_def)
qed

lemma literal_written:
  assumes "bs_writes bs buf cap bl" "length bl < 8 * cap" "cap \<le> 65536" "cap + 3 \<le> length buf" "\<not> mppc_full (int cap) 2 bs"
  obtains bs' where "mppc_write_literal bs x = Some bs'" "bs_writes bs' buf cap (bl @ token_bits r (Lit x))"
    "length (bl @ token_bits r (Lit x)) < 8 * cap"
proof -
  have cap: "0 < cap" "cap \<le> 268435455" using assms(2,3) by linarith+
  have pos: "bs_position bs = int (length bl)" using assms(1) by (simp add: bs_writes_def)
  have "\<not> mppc_full (int cap) (int 2) bs" using assms(5) by simp
  from not_full [OF pos cap(1) assms(3) _ this] have f: "length bl + 17 \<le> 8 * cap"
    using assms(2) by simp
  obtain bs' where b: "mppc_write_literal bs x = Some bs'" "bs_writes bs' buf cap (bl @ code_bits (lit_code x))"
    using lit_writes [OF assms(1) _ cap(2) assms(4), of x] f by auto
  show ?thesis by (rule that [OF b(1)]) (use b(2) f lit_code_ok(3) [of x] in simp_all)
qed

lemma match_written:
  assumes "bs_writes bs buf cap bl" "length bl < 8 * cap" "cap \<le> 65536" "cap + 3 \<le> length buf" "\<not> mppc_full (int cap) 7 bs"
    and "co < wlevel r" "3 \<le> len" "len < wlevel r"
  obtains bs1 bs' where "mppc_write_offset (of_bool r) bs (int co) = Some bs1" "mppc_write_length (of_bool r) bs1 (int len) = Some bs'"
    "bs_writes bs' buf cap (bl @ token_bits r (Mat co len))" "length (bl @ token_bits r (Mat co len)) < 8 * cap"
proof -
  have cap: "0 < cap" "cap \<le> 268435455" using assms(2,3) by linarith+
  have pos: "bs_position bs = int (length bl)" using assms(1) by (simp add: bs_writes_def)
  have "\<not> mppc_full (int cap) (int 7) bs" using assms(5) by simp
  from not_full [OF pos cap(1) assms(3) _ this] have f: "length bl + 57 \<le> 8 * cap"
    using assms(2) by simp
  obtain bs1 where b1: "mppc_write_offset (of_bool r) bs (int co) = Some bs1" "bs_writes bs1 buf cap (bl @ code_bits (off_code r co))"
    using off_writes [OF assms(1) _ cap(2) assms(4,6)] f by auto
  have l: "fst (off_code r co) \<le> 19" "fst (len_code len) \<le> 30" using off_code_ok(3) [of r co] len_code_ok(3) [OF assms(7,8)] .
  have "length (bl @ code_bits (off_code r co)) + 30 < 8 * cap" using f l(1) by simp
  from len_writes [OF b1(2) this cap(2) assms(4,7,8)] obtain bs' where b2: "mppc_write_length (of_bool r) bs1 (int len) = Some bs'"
    "bs_writes bs' buf cap ((bl @ code_bits (off_code r co)) @ code_bits (len_code len))" by blast
  show ?thesis by (rule that [OF b1(1) b2(1)]) (use b2(2) f l in simp_all)
qed

text \<open>One round of the first loop.\<close>

lemma compress_loop_step:
  assumes "p + 3 < length src" "hp < length (mp_HistoryBuffer c)" "x = src ! p" "y = src ! (p + 1)" "z = src ! (p + 2)"
    and "uint (MPPC_MATCH_INDEX x y z) = int i" "i < length (mp_MatchBuffer c)" "M = unat (mp_MatchBuffer c ! i)"
    and "c1 = looked hp x i c" "mp_HistoryPtr c1 = int mhp" "loop = mppc_compress_loop before src (int (length src)) DstSize"
    and "mppc_no_match before (mp_HistoryBuffer c1) (int M) (int (hp + 1)) (int mhp) x y z = Some lit"
  shows "loop c (int p) (int hp) =
    (if lit then
       if mppc_full DstSize 2 (mp_bs c) then Some (False, c1, int (p + 1), int (hp + 1))
       else do {
         bs \<leftarrow> mppc_write_literal (mp_bs c) x;
         loop (c1\<lparr>mp_bs := bs\<rparr>) (int (p + 1)) (int (hp + 1)) }
     else do {
       h \<leftarrow> aset (mp_HistoryBuffer c1) (int (hp + 1)) y;
       h \<leftarrow> aset h (int (hp + 2)) z;
       (p, h, hp', len) \<leftarrow> mppc_extend src (int (length src) - 1) (int mhp) (int (p + 3)) (int (M + 2)) h (int (hp + 3)) 3;
       if mppc_full DstSize 7 (mp_bs c) then Some (False, c1\<lparr>mp_HistoryBuffer := h\<rparr>, p, hp')
       else do {
         bs \<leftarrow> mppc_write_offset (mp_CompressionLevel c) (mp_bs c) ((mp_HistoryBufferSize c - 1) AND (int (hp + 1) - int M));
         bs \<leftarrow> mppc_write_length (mp_CompressionLevel c) bs len;
         loop (c1\<lparr>mp_HistoryBuffer := h, mp_bs := bs\<rparr>) p hp' } })"
proof -
  let ?mb = "mp_MatchBuffer c"
  have g: "aget src (int p) = Some x" "aget src (int p + 1) = Some y" "aget src (int p + 2) = Some z"
    "aget ?mb (int i) = Some (?mb ! i)" "uint (?mb ! i) = int M"
    using assms(1,3-5,7,8) by (simp_all add: aget_def nat_add_distrib)
  have a: "aset (mp_HistoryBuffer c) (int hp) x = Some (mp_HistoryBuffer c1)" using assms(2) by (simp add: aset_def assms(9) looked_def)
  have m: "(if int M \<noteq> int hp then aset ?mb (int i) (word_of_int (int hp + 1)) else Some ?mb) = Some (mp_MatchBuffer c1)"
    using assms(7) by (simp add: aset_def assms(9) looked_def add.commute flip: assms(8))
  have h: "(if mp_HistoryPtr c < int hp + 1 then int hp + 1 else mp_HistoryPtr c) = int mhp"
    using assms(10) by (auto simp: assms(9) looked_def split: if_splits)
  have c1: "c\<lparr>mp_HistoryBuffer := mp_HistoryBuffer c1, mp_MatchBuffer := mp_MatchBuffer c1, mp_HistoryPtr := int mhp\<rparr> = c1"
    using assms(10) by (simp add: assms(9) looked_def)
  have e: "int (p + 1) = int p + 1" "int (hp + 1) = int hp + 1" "int (p + 3) = int p + 1 + 2" "int (M + 2) = int M + 2" "int (hp + 2) = int hp + 1 + 1"
    "int (hp + 3) = int hp + 1 + 2" "int hp + 1 - 1 = int hp" by simp_all
  have s: "mp_bs c1 = mp_bs c" "mp_HistoryBufferSize c1 = mp_HistoryBufferSize c" "mp_CompressionLevel c1 = mp_CompressionLevel c"
    by (simp_all add: assms(9) looked_def)
  have t: "int p < int (length src) - 1 - 2" using assms(1) by simp
  show ?thesis
    unfolding e assms(11)
    by (subst mppc_compress_loop.simps)
      (simp only: t g a m h c1 s e Let_def Option.bind.bind_lunit if_True assms(6) assms(12) [unfolded e] simp_thms, simp add: s split_def cong: if_cong)
qed

text \<open>A match that has been found is copied and grows.\<close>

lemma match_found:
  assumes "compressing r src hp0 p c" "p + 3 < length src" "i < 32768" "c1 = looked (hp0 + p) (src ! p) i c" "mp_HistoryPtr c1 = int mhp"
    and M: "M \<noteq> 0" "M \<noteq> hp0 + p" "M \<noteq> hp0 + p + 1" "M + 1 \<le> mhp" "mp_HistoryBuffer c1 ! (M - 1) = src ! p"
      "mp_HistoryBuffer c1 ! M = src ! (p + 1)" "mp_HistoryBuffer c1 ! (M + 1) = src ! (p + 2)"
    and m: "M + 3 \<le> wlevel r" "mhp + 3 \<le> wlevel r \<or> M \<le> hp0 + p"
  obtains n h3 where "do {
        h \<leftarrow> aset (mp_HistoryBuffer c1) (int (hp0 + p + 1)) (src ! (p + 1));
        h \<leftarrow> aset h (int (hp0 + p + 2)) (src ! (p + 2));
        mppc_extend src (int (length src) - 1) (int mhp) (int (p + 3)) (int (M + 2)) h (int (hp0 + p + 3)) 3 } =
      Some (int (p + 3 + n), h3, int (hp0 + (p + 3 + n)), int (3 + n))"
    "p + 3 + n < length src" "compressing r src hp0 (p + 3 + n) (c1\<lparr>mp_HistoryBuffer := h3\<rparr>)"
    "h3 = cpy (mp_HistoryBuffer c) (hp0 + p) (M - 1) (3 + n)" "M - 1 + (3 + n) \<le> wlevel r"
proof -
  let ?hp = "hp0 + p" and ?h = "mp_HistoryBuffer c" and ?h1 = "mp_HistoryBuffer c1" and ?y = "src ! (p + 1)" and ?z = "src ! (p + 2)"
  have c1: "compressing r src hp0 (p + 1) c1" unfolding assms(4) using looked_ok [OF assms(1) _ refl assms(3)] assms(2) by simp
  have h1: "?h1 = ?h[?hp := src ! p]" by (simp add: assms(4) looked_def)
  have len: "length ?h = 65536" "length ?h1 = 65536" using assms(1) c1 unfolding compressing_def ctx_ok_def by blast+
  have room: "hp0 + length src + 3 < wlevel r" "wlevel r \<le> 65536" using assms(1) wlevel_pos(2) unfolding compressing_def by blast+
  define h2 where "h2 = ?h1[?hp + 1 := ?y, ?hp + 2 := ?z]"
  have h2: "h2 = cpy ?h ?hp (M - 1) 3" "length h2 = 65536"
  proof -
    have "?hp + 2 < length ?h" "M + 1 < length ?h" using room assms(2) m(1) len(1) by linarith+
    from cpy_three [OF M(1-3) h1 M(5-7) this] show "h2 = cpy ?h ?hp (M - 1) 3" by (simp only: h2_def)
    show "length h2 = 65536" using len(2) by (simp add: h2_def)
  qed
  have e: "p + 3 < length src" "?hp + 3 + (length src - (p + 3)) \<le> length h2" "M + 2 < ?hp + 3 \<or> M + 2 \<le> mhp + 1 \<and> mhp + 1 < length h2"
    using assms(2) room h2(2) m(2) M(3,4) by linarith+
  obtain n where n: "mppc_extend src (int (length src) - 1) (int mhp) (int (p + 3)) (int (M + 2)) h2 (int (?hp + 3)) (int 3) =
      Some (int (p + 3 + n), cpy h2 (?hp + 3) (M + 2) n, int (?hp + 3 + n), int (3 + n))"
    "p + 3 + n < length src" "\<forall>i < n. cpy h2 (?hp + 3) (M + 2) n ! (?hp + 3 + i) = src ! (p + 3 + i)"
    "M + 2 < ?hp + 3 \<or> M + 2 + n \<le> mhp + 1"
    using extend_ok [OF e, of 3] by blast
  define h3 where "h3 = cpy h2 (?hp + 3) (M + 2) n"
  have h3: "h3 = cpy ?h ?hp (M - 1) (3 + n)" using M(1) unfolding h3_def h2(1) cpy_add by simp
  have a: "aset ?h1 (int (?hp + 1)) ?y = Some (?h1[?hp + 1 := ?y])" "aset (?h1[?hp + 1 := ?y]) (int (?hp + 2)) ?z = Some h2"
    using room assms(2) len(2) unfolding h2_def aset_int by simp_all
  have nx: "compressing r src hp0 (p + 3 + n) (c1\<lparr>mp_HistoryBuffer := h3\<rparr>)"
  proof (rule matched_ok [OF c1])
    show "p + 1 \<le> p + 3 + n" "p + 3 + n \<le> length src" using n(2) by simp_all
    show "length h3 = length ?h1" using h2(2) len(2) by (simp add: h3_def)
    fix i
    show "h3 ! i = ?h1 ! i" if "i < hp0 + (p + 1)"
      using that cpy_below [of i "?hp + 3" h2 "M + 2" n] unfolding h3_def by (simp add: h2_def)
    show "h3 ! i = ?h1 ! i" if "hp0 + (p + 3 + n) \<le> i"
      using that cpy_above [of "?hp + 3" n i h2 "M + 2"] unfolding h3_def by (simp add: h2_def)
    assume "p + 1 \<le> i" "i < p + 3 + n"
    then consider "i = p + 1" | "i = p + 2" | "p + 3 \<le> i" by linarith
    then show "h3 ! (hp0 + i) = src ! i"
    proof cases
      case 1
      have "?hp + 1 < length ?h1" using room assms(2) len(2) by linarith
      then show ?thesis using 1 cpy_below [of "?hp + 1" "?hp + 3" h2 "M + 2" n] unfolding h3_def by (simp add: h2_def)
    next
      case 2
      have "?hp + 2 < length ?h1" using room assms(2) len(2) by linarith
      then show ?thesis using 2 cpy_below [of "?hp + 2" "?hp + 3" h2 "M + 2" n] unfolding h3_def by (simp add: h2_def)
    next
      case 3
      then obtain j where j: "i = p + 3 + j" by (metis le_add_diff_inverse)
      then have "j < n" using \<open>i < p + 3 + n\<close> by simp
      then show ?thesis using n(3) j unfolding h3_def by (simp add: add.assoc)
    qed
  qed
  have bound: "M - 1 + (3 + n) \<le> wlevel r" using n(2,4) room m(2) M(1,4) by linarith
  have "int 3 = 3" "?hp + 3 + n = hp0 + (p + 3 + n)" by simp_all
  note n1 = n(1) [unfolded this, folded h3_def]
  show ?thesis by (rule that [OF _ n(2) nx h3 bound]) (simp only: a n1 Option.bind.bind_lunit)
qed

lemma compress_loop_ok:
  assumes "compressing r src hp0 p c" "bs_writes (mp_bs c) buf cap bl" "length bl < 8 * cap" "cap \<le> 65536" "cap + 3 \<le> length buf"
  shows "wrote r src hp0 buf cap bl (mp_HistoryBuffer c) p
    (mppc_compress_loop before src (int (length src)) (int cap) c (int p) (int (hp0 + p)))"
  using assms(1-3)
proof (induction "length src - p" arbitrary: p c bl rule: less_induct)
  case less
  note c = less.prems(1) [unfolded compressing_def ctx_ok_def]
  let ?h = "mp_HistoryBuffer c" and ?hp = "hp0 + p"
  show ?case
  proof (cases "p + 3 < length src")
    case False
    then have "mppc_compress_loop before src (int (length src)) (int cap) c (int p) (int ?hp) = Some (True, c, int p, int ?hp)"
      by (subst mppc_compress_loop.simps) simp
    moreover have "wrote r src hp0 buf cap bl ?h p (Some (True, c, int p, int ?hp))"
      unfolding wrote_def using less.prems c
      by (intro exI [of _ True] exI [of _ c] exI [of _ p] conjI refl impI exI [of _ "[]"]) (simp_all add: ctx_ok_def)
    ultimately show ?thesis by simp
  next
    case True
    define x y z where xyz: "x = src ! p" "y = src ! (p + 1)" "z = src ! (p + 2)"
    obtain i where i: "uint (MPPC_MATCH_INDEX x y z) = int i" "i < 32768"
    proof -
      obtain i where "uint (MPPC_MATCH_INDEX x y z) = int i" using zero_le_imp_eq_int [of "uint (MPPC_MATCH_INDEX x y z)"] by auto
      with match_index_small [of x y z] show ?thesis by (intro that [of i]) simp_all
    qed
    define M where "M = unat (mp_MatchBuffer c ! i)"
    define c1 where "c1 = looked ?hp x i c"
    have c1: "compressing r src hp0 (p + 1) c1" unfolding c1_def using looked_ok [OF less.prems(1) _ xyz(1) i(2)] True by simp
    note k1 = c1 [unfolded compressing_def ctx_ok_def]
    let ?h1 = "mp_HistoryBuffer c1"
    have h1: "?h1 = ?h[?hp := x]" "mp_bs c1 = mp_bs c" by (simp_all add: c1_def looked_def)
    have mem: "mp_MatchBuffer c ! i \<in> set (mp_MatchBuffer c)" using c i(2) by simp
    obtain mhp where m: "mp_HistoryPtr c1 = int mhp" "M + 3 \<le> wlevel r" "mhp + 3 \<le> wlevel r \<or> M \<le> ?hp"
    proof -
      obtain mhp0 where m: "mp_HistoryPtr c = int mhp0" "M + 3 \<le> wlevel r" "mhp0 + 3 \<le> wlevel r \<or> M \<le> ?hp"
        using c mem by (auto simp: entries_ok_def M_def)
      show ?thesis using m c True
        by (intro that [of "if mhp0 < ?hp + 1 then ?hp + 1 else mhp0"]) (auto simp: c1_def looked_def)
    qed
    obtain lit where lit: "mppc_no_match before ?h1 (int M) (int (?hp + 1)) (int mhp) x y z = Some lit"
      "\<not> lit \<Longrightarrow> M \<noteq> 0 \<and> ?h1 ! (M - 1) = x \<and> ?h1 ! M = y \<and> ?h1 ! (M + 1) = z \<and> int M + 1 \<le> int mhp
        \<and> int M \<noteq> int (?hp + 1) - 1 \<and> int M \<noteq> int (?hp + 1)"
    proof -
      have "M + 1 < length ?h1" using k1 m(2) wlevel_pos(2) [of r] by linarith
      then show ?thesis using that no_match_total [of M ?h1 before "int (?hp + 1)" "int mhp" x y z] by blast
    qed
    let ?loop = "mppc_compress_loop before src (int (length src)) (int cap)"
    define loop where "loop = mppc_compress_loop before src (int (length src)) (int cap)"
    have pre: "?hp < length ?h" "i < length (mp_MatchBuffer c)"
      using c True i(2) wlevel_pos(2) [of r] by linarith+
    have st: "loop c (int p) (int ?hp) =
        (if lit then
           if mppc_full (int cap) 2 (mp_bs c) then Some (False, c1, int (p + 1), int (?hp + 1))
           else do {
             bs \<leftarrow> mppc_write_literal (mp_bs c) x;
             loop (c1\<lparr>mp_bs := bs\<rparr>) (int (p + 1)) (int (?hp + 1)) }
         else do {
           h \<leftarrow> aset ?h1 (int (?hp + 1)) y;
           h \<leftarrow> aset h (int (?hp + 2)) z;
           (p, h, hp', len) \<leftarrow> mppc_extend src (int (length src) - 1) (int mhp) (int (p + 3)) (int (M + 2)) h (int (?hp + 3)) 3;
           if mppc_full (int cap) 7 (mp_bs c) then Some (False, c1\<lparr>mp_HistoryBuffer := h\<rparr>, p, hp')
           else do {
             bs \<leftarrow> mppc_write_offset (mp_CompressionLevel c) (mp_bs c) ((mp_HistoryBufferSize c - 1) AND (int (?hp + 1) - int M));
             bs \<leftarrow> mppc_write_length (mp_CompressionLevel c) bs len;
             loop (c1\<lparr>mp_HistoryBuffer := h, mp_bs := bs\<rparr>) p hp' } })"
      by (rule compress_loop_step [OF True pre(1) xyz i(1) pre(2) M_def c1_def m(1) loop_def lit(1)])
    have pos: "bs_position (mp_bs c) = int (length bl)" using less.prems(2) by (simp add: bs_writes_def)
    have cap: "0 < cap" "cap \<le> 268435455" using less.prems(3) assms(4) by simp_all
    have ih: "wrote r src hp0 buf cap bl' (mp_HistoryBuffer c') p' (loop c' (int p') (int (hp0 + p')))"
      if "compressing r src hp0 p' c'" "bs_writes (mp_bs c') buf cap bl'" "length bl' < 8 * cap" "p < p'" for p' c' bl'
      unfolding loop_def by (rule less.hyps) (use that True in simp_all)
    have ih: "wrote r src hp0 buf cap bl' (mp_HistoryBuffer c') p' (loop c' (int p') (int (hp0 + p')))"
      if "compressing r src hp0 p' c'" "bs_writes (mp_bs c') buf cap bl'" "length bl' < 8 * cap" "p < p'" for p' c' bl'
      unfolding loop_def by (rule less.hyps) (use that True in simp_all)
    have "wrote r src hp0 buf cap bl ?h p (loop c (int p) (int ?hp))"
    proof (cases lit)
      case lt: True
      show ?thesis
      proof (cases "mppc_full (int cap) 2 (mp_bs c)")
        case True
        have "wrote r src hp0 buf cap bl ?h p (Some (False, c1, int (p + 1), int (hp0 + (p + 1))))"
          by (rule wrote_full) (use c1 in \<open>simp add: compressing_def\<close>)
        then show ?thesis unfolding st by (simp add: lt True add.assoc)
      next
        case False
        obtain bs' where b: "mppc_write_literal (mp_bs c) x = Some bs'" "bs_writes bs' buf cap (bl @ token_bits r (Lit x))"
          "length (bl @ token_bits r (Lit x)) < 8 * cap"
          using literal_written [OF less.prems(2,3) assms(4,5) False] .
        have "wrote r src hp0 buf cap (bl @ token_bits r (Lit x)) ?h1 (p + 1) (loop (c1\<lparr>mp_bs := bs'\<rparr>) (int (p + 1)) (int (hp0 + (p + 1))))"
          using ih [of "p + 1" "c1\<lparr>mp_bs := bs'\<rparr>", OF _ _ b(3)] b(2) c1 by (simp add: compressing_bs)
        moreover have "plays r [Lit x] (?h, hp0 + p) = Some (?h1, hp0 + (p + 1))" using c True h1 by simp
        ultimately have "wrote r src hp0 buf cap bl ?h p (loop (c1\<lparr>mp_bs := bs'\<rparr>) (int (p + 1)) (int (hp0 + (p + 1))))"
          by (rule wrote_step) simp
        then show ?thesis unfolding st by (simp add: lt False b(1) add.assoc)
      qed
    next
      case False
      note f = lit(2) [OF False]
      have M: "M \<noteq> 0" "M \<noteq> ?hp" "M \<noteq> ?hp + 1" "M + 1 \<le> mhp" "?h1 ! (M - 1) = x" "?h1 ! M = y" "?h1 ! (M + 1) = z" using f by auto
      have room: "hp0 + length src + 3 < wlevel r" using c by blast
      obtain n h3 where n: "do {
            h \<leftarrow> aset ?h1 (int (?hp + 1)) y;
            h \<leftarrow> aset h (int (?hp + 2)) z;
            mppc_extend src (int (length src) - 1) (int mhp) (int (p + 3)) (int (M + 2)) h (int (?hp + 3)) 3 } =
          Some (int (p + 3 + n), h3, int (hp0 + (p + 3 + n)), int (3 + n))"
        "p + 3 + n < length src" "compressing r src hp0 (p + 3 + n) (c1\<lparr>mp_HistoryBuffer := h3\<rparr>)"
        "h3 = cpy ?h ?hp (M - 1) (3 + n)" "M - 1 + (3 + n) \<le> wlevel r"
        using match_found [OF less.prems(1) True i(2) c1_def [unfolded xyz(1)] m(1) M [unfolded xyz] m(2,3)] unfolding xyz by blast
      define co where "co = nat ((int (?hp + 1) - int M) mod int (wlevel r))"
      have co: "(mp_HistoryBufferSize c - 1) AND (int (?hp + 1) - int M) = int co" "co < wlevel r" "match_src r ?hp co = M - 1"
      proof -
        show "(mp_HistoryBufferSize c - 1) AND (int (?hp + 1) - int M) = int co"
          using c wlevel_pos(1) [of r] by (simp only: wlevel_mask(2)) (simp add: co_def)
        show "co < wlevel r" using wlevel_pos(1) [of r] by (simp add: co_def nat_less_iff)
        show "match_src r ?hp co = M - 1" unfolding co_def by (rule match_src_back) (use M(1) m(2) in simp_all)
      qed
      have lv: "mp_CompressionLevel c = of_bool r" using c by blast
      have out: "loop c (int p) (int ?hp) =
          (if mppc_full (int cap) 7 (mp_bs c) then Some (False, c1\<lparr>mp_HistoryBuffer := h3\<rparr>, int (p + 3 + n), int (hp0 + (p + 3 + n)))
           else do {
             bs \<leftarrow> mppc_write_offset (of_bool r) (mp_bs c) (int co);
             bs \<leftarrow> mppc_write_length (of_bool r) bs (int (3 + n));
             loop (c1\<lparr>mp_HistoryBuffer := h3, mp_bs := bs\<rparr>) (int (p + 3 + n)) (int (hp0 + (p + 3 + n))) })"
        unfolding st by (simp only: False if_False Option.bind_assoc [symmetric] n(1) [unfolded Option.bind_assoc [symmetric]] Option.bind.bind_lunit co(1) lv prod.case)
      show ?thesis
      proof (cases "mppc_full (int cap) 7 (mp_bs c)")
        case True
        have "wrote r src hp0 buf cap bl ?h p (Some (False, c1\<lparr>mp_HistoryBuffer := h3\<rparr>, int (p + 3 + n), int (hp0 + (p + 3 + n))))"
          by (rule wrote_full) (use n(3) in \<open>simp add: compressing_def\<close>)
        then show ?thesis unfolding out by (simp only: True if_True)
      next
        case False
        have ln: "3 \<le> 3 + n" "3 + n < wlevel r" using n(2) room by linarith+
        obtain bs1 bs' where b: "mppc_write_offset (of_bool r) (mp_bs c) (int co) = Some bs1"
          "mppc_write_length (of_bool r) bs1 (int (3 + n)) = Some bs'" "bs_writes bs' buf cap (bl @ token_bits r (Mat co (3 + n)))"
          "length (bl @ token_bits r (Mat co (3 + n))) < 8 * cap"
          using match_written [OF less.prems(2,3) assms(4,5) False co(2) ln] .
        let ?c3 = "c1\<lparr>mp_HistoryBuffer := h3, mp_bs := bs'\<rparr>"
        have "wrote r src hp0 buf cap (bl @ token_bits r (Mat co (3 + n))) h3 (p + 3 + n) (loop ?c3 (int (p + 3 + n)) (int (hp0 + (p + 3 + n))))"
          using ih [of "p + 3 + n" ?c3, OF _ _ b(4)] b(3) n(3) by (simp add: compressing_bs)
        moreover have "plays r [Mat co (3 + n)] (?h, ?hp) = Some (h3, hp0 + (p + 3 + n))"
        proof -
          have "?hp + (3 + n) \<le> wlevel r" "match_src r ?hp co + (3 + n) \<le> wlevel r" using n(2,5) room unfolding co(3) by linarith+
          then show ?thesis using co(2,3) ln n(4) by (simp add: add.assoc)
        qed
        ultimately have "wrote r src hp0 buf cap bl ?h p (loop ?c3 (int (p + 3 + n)) (int (hp0 + (p + 3 + n))))"
          by (rule wrote_step) simp
        then show ?thesis unfolding out by (simp only: False b(1,2) if_False Option.bind.bind_lunit)
      qed
    qed
    then show ?thesis unfolding loop_def .
  qed
qed


lemma compress_tail_ok:
  assumes "compressing r src hp0 p c" "bs_writes (mp_bs c) buf cap bl" "length bl < 8 * cap" "cap \<le> 65536" "cap + 3 \<le> length buf"
  shows "wrote r src hp0 buf cap bl (mp_HistoryBuffer c) p
      (mppc_compress_tail src (int (length src)) (int cap) c (int p) (int (hp0 + p)))
    \<and> (\<forall>c' p' hp'. mppc_compress_tail src (int (length src)) (int cap) c (int p) (int (hp0 + p)) = Some (True, c', p', hp') \<longrightarrow> p' = int (length src))"
  using assms(1-3)
proof (induction "length src - p" arbitrary: p c bl rule: less_induct)
  case less
  let ?h = "mp_HistoryBuffer c" and ?tail = "mppc_compress_tail src (int (length src)) (int cap)"
  have c: "p \<le> length src" "hp0 + length src + 3 < wlevel r" "length ?h = 65536" "ctx_ok r c"
    using less.prems(1) unfolding compressing_def ctx_ok_def by blast+
  consider "p = length src" | "p < length src" "mppc_full (int cap) 2 (mp_bs c)" | "p < length src" "\<not> mppc_full (int cap) 2 (mp_bs c)"
    using c(1) by linarith
  then show ?case
  proof cases
    case 1
    then have "?tail c (int p) (int (hp0 + p)) = Some (True, c, int p, int (hp0 + p))" by (subst mppc_compress_tail.simps) simp
    moreover have "wrote r src hp0 buf cap bl ?h p (Some (True, c, int p, int (hp0 + p)))"
      unfolding wrote_def using less.prems c(4)
      by (intro exI [of _ True] exI [of _ c] exI [of _ p] conjI refl impI exI [of _ "[]"]) simp_all
    ultimately show ?thesis using 1 by simp
  next
    case 2
    then have "?tail c (int p) (int (hp0 + p)) = Some (False, c, int p, int (hp0 + p))" by (subst mppc_compress_tail.simps) simp
    then show ?thesis using wrote_full [OF c(4), of src hp0 buf cap bl ?h p p] by simp
  next
    case 3
    let ?x = "src ! p"
    obtain bs' where b: "mppc_write_literal (mp_bs c) ?x = Some bs'" "bs_writes bs' buf cap (bl @ token_bits r (Lit ?x))"
      "length (bl @ token_bits r (Lit ?x)) < 8 * cap"
      using literal_written [OF less.prems(2,3) assms(4,5) 3(2)] .
    let ?c = "c\<lparr>mp_bs := bs', mp_HistoryBuffer := ?h[hp0 + p := ?x]\<rparr>"
    have hp: "hp0 + p < length ?h" "hp0 + p < wlevel r" using 3(1) c(2,3) wlevel_pos(2) [of r] by linarith+
    have st: "?tail c (int p) (int (hp0 + p)) = ?tail ?c (int (p + 1)) (int (hp0 + (p + 1)))"
    proof -
      have "aget src (int p) = Some ?x" "aset ?h (int (hp0 + p)) ?x = Some (?h[hp0 + p := ?x])" unfolding aget_int aset_int using 3(1) hp(1) by simp_all
      moreover have "int (p + 1) = int p + 1" "int (hp0 + (p + 1)) = int (hp0 + p) + 1" by simp_all
      moreover have "int p \<le> int (length src) - 1" using 3(1) by simp
      ultimately show ?thesis using b(1) 3(2) by (subst mppc_compress_tail.simps) (simp only: if_True if_False Option.bind.bind_lunit)
    qed
    have "compressing r src hp0 (p + 1) (c\<lparr>mp_HistoryBuffer := ?h[hp0 + p := ?x]\<rparr>)"
      using 3(1) hp(1) by (intro matched_ok [OF less.prems(1)]) (auto simp: nth_list_update le_less_Suc_eq)
    moreover have "?c = c\<lparr>mp_HistoryBuffer := ?h[hp0 + p := ?x]\<rparr>\<lparr>mp_bs := bs'\<rparr>" by simp
    ultimately have nx: "compressing r src hp0 (p + 1) ?c" by (simp only: compressing_bs)
    have "wrote r src hp0 buf cap (bl @ token_bits r (Lit ?x)) (mp_HistoryBuffer ?c) (p + 1) (?tail ?c (int (p + 1)) (int (hp0 + (p + 1))))
      \<and> (\<forall>c' p' hp'. ?tail ?c (int (p + 1)) (int (hp0 + (p + 1))) = Some (True, c', p', hp') \<longrightarrow> p' = int (length src))"
      by (rule less.hyps) (use 3(1) nx b(2,3) in simp_all)
    moreover have "plays r [Lit ?x] (?h, hp0 + p) = Some (mp_HistoryBuffer ?c, hp0 + (p + 1))" using hp(2) by simp
    ultimately show ?thesis unfolding st using wrote_step [of r src hp0 buf cap bl "Lit ?x" "mp_HistoryBuffer ?c" "p + 1" _ ?h p] by auto
  qed
qed


section \<open>Packets\<close>

text \<open>
  A compressor and a decompressor in step. Between packets \<open>HistoryOffset\<close> is where the compressor goes on,
  or one past the size of the history after a reset, when the history and the match table are empty.
\<close>

definition in_step :: "bool \<Rightarrow> MPPC_CONTEXT \<Rightarrow> MPPC_CONTEXT \<Rightarrow> bool" where
  "in_step r e d \<longleftrightarrow> ctx_ok r e \<and> mp_HistoryBuffer d = mp_HistoryBuffer e
     \<and> mp_HistoryBufferSize d = int (wlevel r) \<and> mp_CompressionLevel d = of_bool r
     \<and> (\<exists>ho. mp_HistoryOffset e = int ho \<and> mp_HistoryPtr e = int ho \<and>
          (ho + 3 < wlevel r \<and> mp_HistoryPtr d = int ho \<and> (\<forall>w \<in> set (mp_MatchBuffer e). unat w + 3 \<le> wlevel r)
           \<or> ho = wlevel r + 1 \<and> mp_HistoryBuffer e = replicate 65536 0 \<and> mp_MatchBuffer e = replicate 32768 0))"

text \<open>What the compressor starts a packet with.\<close>

definition fronted :: "bool \<Rightarrow> nat \<Rightarrow> nat \<Rightarrow> bool" where
  "fronted r ho n \<longleftrightarrow> \<not> (ho + n + 3 < wlevel r \<and> ho \<noteq> 0)"

lemma front_test:
  assumes "ho \<le> 65537" "n \<le> 65536"
  shows "(\<not> (u32 (int ho + int n) < int (wlevel r) - 3 \<and> int ho \<noteq> 0)) = fronted r ho n"
proof -
  have "u32 (int ho + int n) = int ho + int n" using assms by (simp add: u32_def)
  then show ?thesis by (auto simp: fronted_def)
qed

lemma in_step_start:
  assumes "in_step r e d" "mp_HistoryOffset e = int ho" "length src + 3 < wlevel r" "hp0 = (if fronted r ho (length src) then 0 else ho)"
  shows "compressing r src hp0 0 (e\<lparr>mp_bs := bs\<rparr>)"
proof -
  have e: "ctx_ok r e" "mp_HistoryPtr e = int ho"
    "ho + 3 < wlevel r \<and> (\<forall>w \<in> set (mp_MatchBuffer e). unat w + 3 \<le> wlevel r) \<or> ho = wlevel r + 1 \<and> mp_MatchBuffer e = replicate 32768 0"
    using assms(1,2) by (auto simp: in_step_def)
  have "entries_ok r hp0 e"
    using e(3)
  proof
    assume "ho + 3 < wlevel r \<and> (\<forall>w \<in> set (mp_MatchBuffer e). unat w + 3 \<le> wlevel r)"
    then show ?thesis unfolding entries_ok_def using e(2) by (intro exI [of _ ho]) auto
  next
    assume "ho = wlevel r + 1 \<and> mp_MatchBuffer e = replicate 32768 0"
    then show ?thesis unfolding entries_ok_def using e(2) wlevel_pos(1) [of r] by (intro exI [of _ ho]) auto
  qed
  moreover have "hp0 + length src + 3 < wlevel r" using assms(3,4) e(3) by (auto simp: fronted_def)
  ultimately have "compressing r src hp0 0 e" using e(1) by (simp add: compressing_def)
  then show ?thesis by (simp add: compressing_bs)
qed


lemma sees_take:
  assumes "sees buf 0 bl" "length bl \<le> 8 * k" "k \<le> length buf"
  shows "sees (take k buf @ zs) 0 bl"
  unfolding sees_def
proof (intro allI impI)
  fix i assume i: "i < length bl"
  then have "i div 8 < k" using assms(2) by (simp add: less_mult_imp_div_less mult.commute)
  then have "(take k buf @ zs) ! (i div 8) = buf ! (i div 8)" using assms(3) by (simp add: nth_append)
  then have "bitat (take k buf @ zs) i = bitat buf i" by (simp add: bitat_def)
  then show "bitat (take k buf @ zs) (0 + i) = bl ! i" using assms(1) i by (simp add: sees_def)
qed

definition packet_flags :: "bool \<Rightarrow> bool \<Rightarrow> bool \<Rightarrow> int" where
  "packet_flags r front flushed = PACKET_COMPRESSED OR of_bool r OR (if front then PACKET_AT_FRONT else 0) OR (if flushed then PACKET_FLUSHED else 0)"

text \<open>The compressor gives up, or gives tokens that play back the source.\<close>

definition gave_up :: "bool \<Rightarrow> MPPC_CONTEXT \<Rightarrow> bool" where
  "gave_up r e \<longleftrightarrow> ctx_ok r e \<and> mp_HistoryBuffer e = replicate 65536 0 \<and> mp_MatchBuffer e = replicate 32768 0
     \<and> mp_HistoryOffset e = int (wlevel r + 1) \<and> mp_HistoryPtr e = int (wlevel r + 1)"

lemma give_up_ok:
  assumes "ctx_ok r c"
  obtains e' where "mppc_give_up src (int (length src)) c = Some (1, Some src, PACKET_FLUSHED OR of_bool r, e')" "gave_up r e'"
proof -
  have c: "length (mp_HistoryBuffer c) = 65536" "length (mp_MatchBuffer c) = 32768" "mp_HistoryBufferSize c = int (wlevel r)"
    "mp_CompressionLevel c = of_bool r" using assms unfolding ctx_ok_def by blast+
  have "gave_up r (mppc_context_reset c True)"
    using c by (simp add: gave_up_def ctx_ok_def mppc_context_reset_def Let_def)
  then show ?thesis using c by (intro that) (simp_all add: mppc_give_up_def ablock_def)
qed

lemma compress_ok:
  assumes "in_step r e d" "mp_HistoryOffset e = int ho" "0 < length src" "length src + 3 < wlevel r" "hp0 = (if fronted r ho (length src) then 0 else ho)"
    and "0 < n" "cap = (if length src < n then length src else n)" "cap + 3 \<le> length dst"
    and "res = mppc_compress before e src (int (length src)) (Some dst) (int n)"
  shows "(\<exists>e'. res = Some (1, Some src, PACKET_FLUSHED OR of_bool r, e') \<and> gave_up r e') \<or>
    (\<exists>e' c' ts buf. res = Some (1, Some (take ((length (bits_of r ts) + 7) div 8) buf),
         packet_flags r (fronted r ho (length src)) (ho = wlevel r + 1), e')
       \<and> sees buf 0 (bits_of r ts) \<and> length (bits_of r ts) < 8 * cap \<and> cap \<le> length buf
       \<and> plays r ts (mp_HistoryBuffer e, hp0) = Some (mp_HistoryBuffer c', hp0 + length src)
       \<and> compressing r src hp0 (length src) c'
       \<and> e' = c'\<lparr>mp_bs := mp_bs e', mp_HistoryPtr := int (hp0 + length src), mp_HistoryOffset := int (hp0 + length src)\<rparr>)"
proof -
  have e: "ctx_ok r e" "ho \<le> wlevel r + 1" using assms(1,2) by (auto simp: in_step_def)
  then have sz: "mp_HistoryBufferSize e = int (wlevel r)" "mp_CompressionLevel e = of_bool r" unfolding ctx_ok_def by blast+
  have cap: "0 < cap" "cap \<le> 65536" "cap \<le> 268435455" using assms(3,4,6,7) wlevel_pos(2) [of r] by (auto split: if_splits)
  obtain bs1 where b1: "BitStream_Attach (mp_bs e) dst (int cap) = Some bs1" "bs_writes bs1 dst cap []"
    using attach_writes [OF cap(1,3)] by blast
  let ?e = "e\<lparr>mp_bs := bs1\<rparr>" and ?fr = "fronted r ho (length src)"
  have front: "(\<not> (u32 (mp_HistoryOffset e + int (length src)) < mp_HistoryBufferSize e - 3 \<and> mp_HistoryOffset e \<noteq> 0)) = ?fr"
    unfolding assms(2) sz by (rule front_test) (use e(2) assms(4) wlevel_pos(2) [of r] in linarith)+
  have flush: "(?fr \<and> mp_HistoryOffset e = mp_HistoryBufferSize e + 1) = (ho = wlevel r + 1)"
    unfolding assms(2) sz by (auto simp: fronted_def)
  have ptr: "(if ?fr then 0 else mp_HistoryOffset e) = int hp0" by (simp add: assms(2,5))
  have dsz: "(if int (length src) < int n then int (length src) else int n) = int cap" by (simp add: assms(7))
  have start: "compressing r src hp0 0 ?e" using in_step_start [OF assms(1,2,4,5)] .
  have w: "bs_writes (mp_bs ?e) dst cap []" "length [] < 8 * cap" using b1(2) cap(1) by simp_all
  obtain ok1 c1 p1 where l: "mppc_compress_loop before src (int (length src)) (int cap) ?e 0 (int hp0) = Some (ok1, c1, int p1, int (hp0 + p1))"
    "ctx_ok r c1" "ok1 \<Longrightarrow> compressing r src hp0 p1 c1 \<and> (\<exists>ts. bs_writes (mp_bs c1) dst cap (bits_of r ts) \<and> length (bits_of r ts) < 8 * cap
       \<and> plays r ts (mp_HistoryBuffer e, hp0) = Some (mp_HistoryBuffer c1, hp0 + p1))"
    using compress_loop_ok [OF start w cap(2) assms(8), of before] unfolding wrote_def by auto
  have st: "res = (if ok1 then do {
        (ok, mppc, p, hp) \<leftarrow> mppc_compress_tail src (int (length src)) (int cap) c1 (int p1) (int (hp0 + p1));
        if \<not> ok then mppc_give_up src (int (length src)) mppc
        else do {
          bs \<leftarrow> BitStream_Flush (mp_bs mppc);
          data \<leftarrow> ablock (bs_buffer bs) 0 ((bs_position bs + 7) div 8);
          Some (1, Some data,
            PACKET_COMPRESSED OR mp_CompressionLevel mppc OR (if ?fr then PACKET_AT_FRONT else 0) OR (if ho = wlevel r + 1 then PACKET_FLUSHED else 0),
            mppc\<lparr>mp_bs := bs, mp_HistoryPtr := hp, mp_HistoryOffset := hp\<rparr>) } }
      else mppc_give_up src (int (length src)) c1)"
    unfolding assms(9) mppc_compress_def Let_def front flush ptr option.case dsz b1(1) Option.bind.bind_lunit l(1) prod.case
    by simp
  show ?thesis
  proof (cases ok1)
    case False
    obtain e' where "mppc_give_up src (int (length src)) c1 = Some (1, Some src, PACKET_FLUSHED OR of_bool r, e')" "gave_up r e'"
      using give_up_ok [OF l(2)] .
    then show ?thesis unfolding st by (simp only: False if_False) blast
  next
    case True
    obtain ts where ts: "compressing r src hp0 p1 c1" "bs_writes (mp_bs c1) dst cap (bits_of r ts)" "length (bits_of r ts) < 8 * cap"
       "plays r ts (mp_HistoryBuffer e, hp0) = Some (mp_HistoryBuffer c1, hp0 + p1)" using l(3) [OF True] by blast
    note tail = compress_tail_ok [OF ts(1-3) cap(2) assms(8)]
    obtain ok2 c2 p2 where t: "mppc_compress_tail src (int (length src)) (int cap) c1 (int p1) (int (hp0 + p1)) = Some (ok2, c2, int p2, int (hp0 + p2))"
      "ctx_ok r c2" "ok2 \<Longrightarrow> compressing r src hp0 p2 c2 \<and> (\<exists>us. bs_writes (mp_bs c2) dst cap (bits_of r ts @ bits_of r us)
         \<and> length (bits_of r ts @ bits_of r us) < 8 * cap \<and> plays r us (mp_HistoryBuffer c1, hp0 + p1) = Some (mp_HistoryBuffer c2, hp0 + p2))"
      using tail unfolding wrote_def by blast
    show ?thesis
    proof (cases ok2)
      case False
      obtain e' where "mppc_give_up src (int (length src)) c2 = Some (1, Some src, PACKET_FLUSHED OR of_bool r, e')" "gave_up r e'"
        using give_up_ok [OF t(2)] .
      then show ?thesis unfolding st by (simp only: True False if_True t(1) Option.bind.bind_lunit prod.case not_False_eq_True) blast
    next
      case ok2: True
      then have p2: "p2 = length src" using tail t(1) by auto
      obtain us where us: "compressing r src hp0 p2 c2" "bs_writes (mp_bs c2) dst cap (bits_of r (ts @ us))" "length (bits_of r (ts @ us)) < 8 * cap"
        "plays r (ts @ us) (mp_HistoryBuffer e, hp0) = Some (mp_HistoryBuffer c2, hp0 + p2)"
        using t(3) [OF ok2] ts(4) plays_append [of r ts] by auto
      obtain buf where f: "BitStream_Flush (mp_bs c2) = Some ((mp_bs c2)\<lparr>bs_buffer := buf\<rparr>)" "length buf = length dst" "sees buf 0 (bits_of r (ts @ us))"
        using flush_writes [OF us(2,3) cap(3) assms(8)] by blast
      let ?n = "(length (bits_of r (ts @ us)) + 7) div 8"
      have "bs_position (mp_bs c2) = int (length (bits_of r (ts @ us)))" using us(2) by (simp add: bs_writes_def)
      then have q: "(bs_position ((mp_bs c2)\<lparr>bs_buffer := buf\<rparr>) + 7) div 8 = int ?n" by (simp add: zdiv_int)
      have n: "?n \<le> length buf" using us(3) assms(8) f(2) by linarith
      have data: "ablock (bs_buffer ((mp_bs c2)\<lparr>bs_buffer := buf\<rparr>)) 0 (int ?n) = Some (take ?n buf)" using n by (simp add: ablock_def)
      let ?e' = "c2\<lparr>mp_bs := (mp_bs c2)\<lparr>bs_buffer := buf\<rparr>, mp_HistoryPtr := int (hp0 + length src), mp_HistoryOffset := int (hp0 + length src)\<rparr>"
      have "mp_CompressionLevel c2 = of_bool r" using t(2) unfolding ctx_ok_def by blast
      then have "res = Some (1, Some (take ?n buf), packet_flags r ?fr (ho = wlevel r + 1), ?e')"
        unfolding st by (simp only: True ok2 if_True if_False t(1) Option.bind.bind_lunit prod.case not_True_eq_False f(1) q data p2 packet_flags_def)
      moreover have "cap \<le> length buf" using assms(8) f(2) by simp
      ultimately show ?thesis using us f(3) unfolding p2
        by (intro disjI2 exI [of _ ?e'] exI [of _ c2] exI [of _ "ts @ us"] exI [of _ buf]) simp
    qed
  qed
qed


text \<open>The decompressor on either.\<close>

lemma zero_fill:
  assumes "ctx_ok r e"
  shows "afill (mp_HistoryBuffer e) 0 (int (wlevel r)) 0 = Some (replicate 65536 0)"
proof -
  have l: "length (mp_HistoryBuffer e) = 65536" and z: "\<And>i. i < 65536 \<Longrightarrow> wlevel r \<le> i \<Longrightarrow> mp_HistoryBuffer e ! i = 0"
    using assms unfolding ctx_ok_def by blast+
  have "replicate (wlevel r) 0 @ drop (wlevel r) (mp_HistoryBuffer e) = replicate 65536 0"
    by (rule nth_equalityI) (use l z wlevel_pos(2) [of r] in \<open>auto simp: nth_append\<close>)
  then show ?thesis using l wlevel_pos(2) [of r] by (simp add: afill_def)
qed

lemma plain_flags:
  "(PACKET_FLUSHED OR of_bool r) AND PACKET_AT_FRONT = 0" "(PACKET_FLUSHED OR of_bool r) AND PACKET_FLUSHED \<noteq> 0"
  "(PACKET_FLUSHED OR of_bool r) AND PACKET_COMPRESSED = 0"
  by (cases r; simp)+

lemma packed_flags:
  "(packet_flags r front flushed AND PACKET_AT_FRONT \<noteq> 0) = front" "(packet_flags r front flushed AND PACKET_FLUSHED \<noteq> 0) = flushed"
  "packet_flags r front flushed AND PACKET_COMPRESSED \<noteq> 0"
  by (cases r; cases front; cases flushed; simp add: packet_flags_def)+

text \<open>The level in the low bits says which history the packet is for.\<close>

definition flags_of_level :: "bool \<Rightarrow> int \<Rightarrow> bool" where
  "flags_of_level r flags \<longleftrightarrow> 0 \<le> flags \<and> flags < 256 \<and> flags AND 0x0F = of_bool r \<and> flags AND 0xE0 \<noteq> 0"

lemma flags_level: "flags_of_level r (PACKET_FLUSHED OR of_bool r)" "flags_of_level r (packet_flags r front flushed)"
  by (cases r; cases front; cases flushed; simp add: flags_of_level_def packet_flags_def)+

lemma decompress_plain:
  assumes "in_step r e d" "gave_up r e'" "0 < length src" "length src \<le> 65536" "8 \<le> length slack"
  shows "\<exists>d'. mppc_decompress d (src @ slack) (int (length src)) (PACKET_FLUSHED OR of_bool r) = Some (1, Some src, d') \<and> in_step r e' d'"
proof -
  obtain bs1 bs2 where b: "BitStream_Attach (mp_bs d) (src @ slack) (int (length src)) = Some bs1" "BitStream_Fetch bs1 = Some bs2"
    using attach_reads [of "length src" "src @ slack" "mp_bs d"] assms(3-5) by auto
  have d: "mp_HistoryBuffer d = mp_HistoryBuffer e" "mp_HistoryBufferSize d = int (wlevel r)" "mp_CompressionLevel d = of_bool r" "ctx_ok r e"
    using assms(1) unfolding in_step_def by blast+
  let ?d = "d\<lparr>mp_bs := bs2, mp_HistoryOffset := 0, mp_HistoryPtr := 0, mp_HistoryBuffer := replicate 65536 0\<rparr>"
  have "mppc_decompress d (src @ slack) (int (length src)) (PACKET_FLUSHED OR of_bool r) = Some (1, Some src, ?d)"
    using b d zero_fill [OF d(4)] by (simp add: mppc_decompress_def plain_flags ablock_def)
  moreover have "in_step r e' ?d" using assms(2) d(2,3) unfolding in_step_def gave_up_def
    by (intro conjI exI [of _ "wlevel r + 1"]) simp_all
  ultimately show ?thesis by blast
qed

lemma decompress_packed:
  assumes "in_step r e d" "mp_HistoryOffset e = int ho" "0 < length src" "length src + 3 < wlevel r" "hp0 = (if fronted r ho (length src) then 0 else ho)"
    and "plays r ts (mp_HistoryBuffer e, hp0) = Some (mp_HistoryBuffer c', hp0 + length src)" "compressing r src hp0 (length src) c'"
    and "sees buf 0 (bits_of r ts)" "length (bits_of r ts) < 8 * cap" "cap \<le> length buf" "cap \<le> 65536" "8 \<le> length slack"
    and "data = take ((length (bits_of r ts) + 7) div 8) buf"
    and "e' = c'\<lparr>mp_bs := mp_bs e', mp_HistoryPtr := int (hp0 + length src), mp_HistoryOffset := int (hp0 + length src)\<rparr>"
  shows "\<exists>d'. mppc_decompress d (data @ slack) (int (length data)) (packet_flags r (fronted r ho (length src)) (ho = wlevel r + 1))
    = Some (1, Some src, d') \<and> in_step r e' d'"
proof -
  let ?n = "length (bits_of r ts)" and ?k = "(length (bits_of r ts) + 7) div 8" and ?fr = "fronted r ho (length src)"
  have "ts \<noteq> []" using assms(3,6) by auto
  then obtain t us where "ts = t # us" by (cases ts) auto
  then have n: "8 \<le> ?n" using length_token_bits [of r t] by simp
  have k: "?k \<le> length buf" "?n \<le> 8 * ?k" "8 * ?k < ?n + 8" "0 < ?k" "?k \<le> 268435455" using assms(9-11) n by linarith+
  have len: "length data = ?k" using k(1) assms(13) by simp
  have s: "sees (data @ slack) 0 (bits_of r ts)" unfolding assms(13) by (rule sees_take [OF assms(8) k(2,1)])
  obtain bs1 bs2 where b: "BitStream_Attach (mp_bs d) (data @ slack) (int (length data)) = Some bs1" "BitStream_Fetch bs1 = Some bs2"
    "bs_reads bs2 (data @ slack) (length data) 0"
    using attach_reads [of "length data" "data @ slack" "mp_bs d"] k assms(12) len by auto
  have d: "mp_HistoryBuffer d = mp_HistoryBuffer e" "mp_HistoryBufferSize d = int (wlevel r)" "mp_CompressionLevel d = of_bool r" "ctx_ok r e"
    using assms(1) unfolding in_step_def by blast+
  have h: "length (mp_HistoryBuffer e) = 65536" using d(4) unfolding ctx_ok_def by blast
  let ?d = "if ho = wlevel r + 1 \<or> ?fr then d\<lparr>mp_bs := bs2, mp_HistoryOffset := 0, mp_HistoryPtr := 0\<rparr> else d\<lparr>mp_bs := bs2\<rparr>"
  have zero: "mp_HistoryBuffer e = replicate 65536 0" if "ho = wlevel r + 1" using assms(1,2) that by (auto simp: in_step_def)
  have ptr: "mp_HistoryPtr ?d = int hp0" using assms(1,2,5) by (auto simp: in_step_def fronted_def)
  obtain bs' where l: "mppc_decompress_loop (of_bool r) (int (wlevel r)) bs2 (mp_HistoryBuffer e) (int hp0) =
      Some (1, bs', mp_HistoryBuffer c', int (hp0 + length src))"
    using decompress_tokens [OF b(3) s _ _ _ _ assms(6)] k assms(12) len h wlevel_pos(2) [of r] by auto
  have c': "\<forall>i < length src. mp_HistoryBuffer c' ! (hp0 + i) = src ! i" "length (mp_HistoryBuffer c') = 65536" "hp0 + length src + 3 < wlevel r"
    using assms(7) unfolding compressing_def ctx_ok_def by blast+
  have out: "ablock (mp_HistoryBuffer c') (int hp0) (int (hp0 + length src) - int hp0) = Some src"
  proof -
    have "take (length src) (drop hp0 (mp_HistoryBuffer c')) = src"
      by (rule nth_equalityI) (use c' wlevel_pos(2) [of r] in simp_all)
    moreover have "hp0 + length src \<le> 65536" using c'(3) wlevel_pos(2) [of r] by linarith
    ultimately show ?thesis using c'(2) by (simp add: ablock_def)
  qed
  let ?d' = "?d\<lparr>mp_bs := bs', mp_HistoryBuffer := mp_HistoryBuffer c', mp_HistoryPtr := int (hp0 + length src)\<rparr>"
  have mid: "(if ho = wlevel r + 1 then do {
         h \<leftarrow> afill (mp_HistoryBuffer d1) 0 (mp_HistoryBufferSize d1) 0;
         Some (d1\<lparr>mp_HistoryOffset := 0, mp_HistoryPtr := 0, mp_HistoryBuffer := h\<rparr>) }
       else Some d1) = Some ?d" if "d1 = (if ?fr then d\<lparr>mp_bs := bs2, mp_HistoryOffset := 0, mp_HistoryPtr := 0\<rparr> else d\<lparr>mp_bs := bs2\<rparr>)" for d1
  proof (cases "ho = wlevel r + 1")
    case True
    have "d1 = d\<lparr>mp_bs := bs2, mp_HistoryOffset := 0, mp_HistoryPtr := 0\<rparr>" using that True by (simp add: fronted_def)
    then show ?thesis using True zero_fill [OF d(4)] zero [OF True] d(1,2) by simp
  qed (simp add: that)
  have dd: "mp_HistoryBuffer ?d = mp_HistoryBuffer e" "mp_HistoryBufferSize ?d = int (wlevel r)" "mp_CompressionLevel ?d = of_bool r"
    using d by simp_all
  have "mppc_decompress d (data @ slack) (int (length data)) (packet_flags r ?fr (ho = wlevel r + 1)) = Some (1, Some src, ?d')"
  proof -
    define d1 where "d1 = ?d"
    note mid1 = mid [folded d1_def] and dd1 = dd [folded d1_def] and ptr1 = ptr [folded d1_def]
    show ?thesis unfolding d1_def [symmetric] mppc_decompress_def Let_def b(1,2) Option.bind.bind_lunit packed_flags(1,2) mid1 [OF refl]
      using packed_flags(3) [of r ?fr "ho = wlevel r + 1"] out by (simp add: dd1 ptr1 l del: of_nat_add)
  qed
  moreover have "in_step r e' ?d'"
  proof -
    have c: "ctx_ok r c'" "\<forall>w \<in> set (mp_MatchBuffer c'). unat w + 3 \<le> wlevel r"
      using assms(7) unfolding compressing_def entries_ok_def by blast+
    have "ctx_ok r e'" using c(1) by (subst assms(14)) (simp add: ctx_ok_def)
    moreover have "mp_HistoryBuffer e' = mp_HistoryBuffer c'" "mp_MatchBuffer e' = mp_MatchBuffer c'"
      "mp_HistoryPtr e' = int (hp0 + length src)" "mp_HistoryOffset e' = int (hp0 + length src)"
      by (subst assms(14); simp)+
    ultimately show ?thesis unfolding in_step_def using c(2) c'(3) dd
      by (intro conjI exI [of _ "hp0 + length src"]) simp_all
  qed
  ultimately show ?thesis by blast
qed


section \<open>Sessions\<close>

text \<open>
  A packet: the source, the memory at \<open>*ppDstData\<close>, \<open>*pDstSize\<close>, and what follows the packet in the memory of the
  receiver, which the bit stream prefetches. The destination has three bytes more than the compressor may fill,
  which the last flush of the bit stream writes.
\<close>

fun packet_ok :: "bool \<Rightarrow> byte list \<times> byte list \<times> nat \<times> byte list \<Rightarrow> bool" where
  "packet_ok r (src, dst, room, slack) \<longleftrightarrow> 0 < length src \<and> length src + 3 < wlevel r \<and> 0 < room
     \<and> min (length src) room + 3 \<le> length dst \<and> 8 \<le> length slack"

lemma packet_roundtrip:
  assumes "in_step r e d" "packet_ok r (src, dst, room, slack)"
  obtains data flags e' d' where "mppc_compress before e src (int (length src)) (Some dst) (int room) = Some (1, Some data, flags, e')"
    "mppc_decompress d (data @ slack) (int (length data)) flags = Some (1, Some src, d')" "in_step r e' d'" "length data \<le> length src" "flags_of_level r flags"
proof -
  have p: "0 < length src" "length src + 3 < wlevel r" "0 < room" "min (length src) room + 3 \<le> length dst" "8 \<le> length slack"
    using assms(2) by simp_all
  obtain ho where ho: "mp_HistoryOffset e = int ho" using assms(1) unfolding in_step_def by blast
  define hp0 cap res where d: "hp0 = (if fronted r ho (length src) then 0 else ho)" "cap = (if length src < room then length src else room)"
    "res = mppc_compress before e src (int (length src)) (Some dst) (int room)"
  have cap: "cap + 3 \<le> length dst" "cap \<le> 65536" "cap \<le> length src" using p wlevel_pos(2) [of r] by (auto simp: d(2) split: if_splits)
  from compress_ok [OF assms(1) ho p(1,2) d(1) p(3) d(2) cap(1) d(3)] show ?thesis
  proof (elim disjE exE conjE)
    fix e' assume e: "res = Some (1, Some src, PACKET_FLUSHED OR of_bool r, e')" "gave_up r e'"
    have "length src \<le> 65536" using p(2) wlevel_pos(2) [of r] by linarith
    from decompress_plain [OF assms(1) e(2) p(1) this p(5)] show ?thesis using that e(1) flags_level(1) unfolding d(3) by blast
  next
    fix e' c' ts buf
    assume e: "res = Some (1, Some (take ((length (bits_of r ts) + 7) div 8) buf), packet_flags r (fronted r ho (length src)) (ho = wlevel r + 1), e')"
      "sees buf 0 (bits_of r ts)" "length (bits_of r ts) < 8 * cap" "cap \<le> length buf"
      "plays r ts (mp_HistoryBuffer e, hp0) = Some (mp_HistoryBuffer c', hp0 + length src)" "compressing r src hp0 (length src) c'"
      "e' = c'\<lparr>mp_bs := mp_bs e', mp_HistoryPtr := int (hp0 + length src), mp_HistoryOffset := int (hp0 + length src)\<rparr>"
    have l: "length (take ((length (bits_of r ts) + 7) div 8) buf) \<le> length src" using e(3) cap(3) by simp
    from decompress_packed [OF assms(1) ho p(1,2) d(1) e(5,6,2,3,4) cap(2) p(5) refl e(7)] show ?thesis
      using that [OF e(1) [unfolded d(3)] _ _ l flags_level(2)] by blast
  qed
qed

fun mppc_send :: "byte \<Rightarrow> MPPC_CONTEXT \<Rightarrow> byte list \<times> byte list \<times> nat \<times> byte list \<Rightarrow> ((byte list \<times> int) \<times> MPPC_CONTEXT) option" where
  "mppc_send before e (src, dst, room, slack) = do {
     (status, data, flags, e) \<leftarrow> mppc_compress before e src (int (length src)) (Some dst) (int room);
     data \<leftarrow> data;
     Some ((data, flags), e) }"

fun mppc_receive :: "MPPC_CONTEXT \<Rightarrow> byte list \<times> byte list \<times> nat \<times> byte list \<Rightarrow> byte list \<times> int \<Rightarrow> (byte list \<times> MPPC_CONTEXT) option" where
  "mppc_receive d (src, dst, room, slack) (data, flags) = do {
     (status, out, d) \<leftarrow> mppc_decompress d (data @ slack) (int (length data)) flags;
     out \<leftarrow> out;
     Some (out, d) }"

interpretation mppc: packet_link "in_step r" "packet_ok r" "mppc_send before" mppc_receive fst for r before
proof
  fix e d and p :: "byte list \<times> byte list \<times> nat \<times> byte list"
  assume "in_step r e d" "packet_ok r p"
  moreover obtain src dst room slack where p: "p = (src, dst, room, slack)" by (cases p)
  ultimately obtain data flags e' d' where
    s: "mppc_compress before e src (int (length src)) (Some dst) (int room) = Some (1, Some data, flags, e')"
    "mppc_decompress d (data @ slack) (int (length data)) flags = Some (1, Some src, d')" "in_step r e' d'"
    by (metis packet_roundtrip)
  then show "\<exists>w e' d'. mppc_send before e p = Some (w, e') \<and> mppc_receive d p w = Some (fst p, d') \<and> in_step r e' d'"
    by (intro exI [of _ "(data, flags)"] exI [of _ e'] exI [of _ d']) (simp add: p)
qed

text \<open>New contexts.\<close>

definition new_context :: "bool \<Rightarrow> bool \<Rightarrow> wBitStream \<Rightarrow> MPPC_CONTEXT" where
  "new_context r enc bs = \<lparr>mp_bs = bs, mp_Compressor = enc, mp_HistoryPtr = 0, mp_HistoryOffset = 0, mp_HistoryBufferSize = int (wlevel r),
     mp_HistoryBuffer = replicate 65536 0, mp_MatchBuffer = replicate 32768 0, mp_CompressionLevel = of_bool r\<rparr>"

lemma context_new: "\<exists>bs. mppc_context_new True level enc = Some (new_context (1 \<le> level) enc bs)"
  by (simp add: mppc_context_new_def BitStream_New_def mppc_context_reset_def new_context_def wlevel_def Let_def)

lemma new_in_step: "in_step r (new_context r c bs) (new_context r c' bs')"
proof -
  have "ctx_ok r (new_context r c bs)" unfolding ctx_ok_def new_context_def by simp
  moreover have "\<forall>w \<in> set (replicate 32768 0 :: 16 word list). unat w + 3 \<le> wlevel r" using wlevel_pos(1) [of r] by auto
  ultimately show ?thesis unfolding in_step_def using wlevel_pos(1) [of r]
    by (intro conjI exI [of _ 0] disjI1) (simp_all add: new_context_def)
qed

section \<open>Properties\<close>

text \<open>
  C14. Whatever packets a compressor sends, compressed or given up on, the decompressor gives back their sources:
  for a new pair of contexts of either level and any sequence of packets shorter than the history less four bytes.
\<close>

theorem mppc_session_roundtrip:
  assumes "mppc_context_new True level True = Some e" "mppc_context_new True level False = Some d" "\<forall>p \<in> set ps. packet_ok (1 \<le> level) p"
  shows "\<exists>e' d'. link_session (mppc_send before) mppc_receive e d ps = Some (map fst ps, e', d')"
proof -
  obtain bs bs' where "e = new_context (1 \<le> level) True bs" "d = new_context (1 \<le> level) False bs'"
    using context_new [of level True] context_new [of level False] assms(1,2) by (metis option.inject)
  then show ?thesis using mppc.session [OF new_in_step assms(3)] by blast
qed

theorem mppc_session_roundtrip_witness:
  "\<exists>e d e' d'. link_session (mppc_send 0) mppc_receive e d
      [([1, 2, 3, 1, 2, 3, 1, 2, 3, 200], replicate 16 0, 16, replicate 8 0), ([1, 2, 3, 4], replicate 16 7, 3, replicate 8 0)]
    = Some ([[1, 2, 3, 1, 2, 3, 1, 2, 3, 200], [1, 2, 3, 4]], e', d')"
proof -
  obtain e d where c: "mppc_context_new True 1 True = Some e" "mppc_context_new True 1 False = Some d"
    using context_new by blast
  have "\<forall>p \<in> set [([1, 2, 3, 1, 2, 3, 1, 2, 3, 200], replicate 16 0, 16, replicate 8 0), ([1, 2, 3, 4], replicate 16 7, 3, replicate 8 0)].
      packet_ok (1 \<le> (1 :: int)) p" by (simp add: wlevel_def)
  from mppc_session_roundtrip [OF c this, of 0] show ?thesis unfolding list.map fst_conv by blast
qed

text \<open>
  C15. One packet of contexts that are in step: compression succeeds and does not make the packet longer,
  decompression succeeds and gives the source, and the contexts are in step again.
\<close>

theorem mppc_packet_roundtrip:
  assumes "in_step r e d" "packet_ok r (src, dst, room, slack)"
  shows "\<exists>data flags e' d'. mppc_compress before e src (int (length src)) (Some dst) (int room) = Some (1, Some data, flags, e')
    \<and> mppc_decompress d (data @ slack) (int (length data)) flags = Some (1, Some src, d')
    \<and> in_step r e' d' \<and> length data \<le> length src"
  by (rule packet_roundtrip [OF assms, where before = before]) (intro exI conjI, assumption+)

theorem mppc_packet_roundtrip_witness:
  "\<exists>e d data flags e' d'. mppc_compress 0 e [7, 7, 7, 7, 7, 7] (int (length [7, 7, 7, 7, 7, 7 :: byte])) (Some (replicate 9 0)) (int 6) = Some (1, Some data, flags, e')
    \<and> mppc_decompress d (data @ replicate 8 0) (int (length data)) flags = Some (1, Some [7, 7, 7, 7, 7, 7], d')
    \<and> in_step False e' d' \<and> length data \<le> length [7, 7, 7, 7, 7, 7 :: byte]"
proof -
  have "packet_ok False ([7, 7, 7, 7, 7, 7], replicate 9 0, 6, replicate 8 0)" by (simp add: wlevel_def)
  from mppc_packet_roundtrip [OF new_in_step this, of 0] show ?thesis by blast
qed

end
