(* ===== verification/WBulk.thy ===== *)
theory WBulk
  imports MppcRoundtrip
begin

text \<open>
  Bulk compression, \<open>libfreerdp/core/bulk.c\<close>: the choice of the compressor by the level of the connection and of
  the decompressor by the type of the packet. The compressors of RDP 6 and 6.1 (\<open>ncrush.c\<close>, \<open>xcrush.c\<close>) are
  arguments; no law is assumed of them. The ratios of the metrics, doubles for the log, are left out.
\<close>

section \<open>State\<close>

record 'c crush =
  crush_compress :: "'c \<Rightarrow> byte list \<Rightarrow> int \<Rightarrow> byte list \<Rightarrow> int \<Rightarrow> (int \<times> byte list option \<times> int \<times> 'c) option"
  crush_decompress :: "'c \<Rightarrow> byte list \<Rightarrow> int \<Rightarrow> int \<Rightarrow> (int \<times> byte list option \<times> 'c) option"
  crush_reset :: "'c \<Rightarrow> bool \<Rightarrow> 'c"

record rdpMetrics =
  TotalCompressedBytes :: int
  TotalUncompressedBytes :: int

record ('n, 'x) rdpBulk =
  bulk_settings_level :: int
  bulk_metrics :: rdpMetrics
  CompressionLevel :: int
  CompressionMaxSize :: int
  mppcSend :: MPPC_CONTEXT
  mppcRecv :: MPPC_CONTEXT
  ncrushRecv :: 'n
  ncrushSend :: 'n
  xcrushRecv :: 'x
  xcrushSend :: 'x

abbreviation (input) BULK_COMPRESSION_FLAGS_MASK :: int where "BULK_COMPRESSION_FLAGS_MASK \<equiv> 0xE0"
abbreviation (input) BULK_COMPRESSION_TYPE_MASK :: int where "BULK_COMPRESSION_TYPE_MASK \<equiv> 0x0F"
abbreviation (input) PACKET_COMPR_TYPE_8K :: int where "PACKET_COMPR_TYPE_8K \<equiv> 0"
abbreviation (input) PACKET_COMPR_TYPE_64K :: int where "PACKET_COMPR_TYPE_64K \<equiv> 1"
abbreviation (input) PACKET_COMPR_TYPE_RDP6 :: int where "PACKET_COMPR_TYPE_RDP6 \<equiv> 2"
abbreviation (input) PACKET_COMPR_TYPE_RDP61 :: int where "PACKET_COMPR_TYPE_RDP61 \<equiv> 3"

section \<open>Operations\<close>

definition bulk_get_compression_flags_string :: "int \<Rightarrow> string" where
  "bulk_get_compression_flags_string flags =
     (let flags = flags AND BULK_COMPRESSION_FLAGS_MASK in
      if flags = 0 then ''PACKET_UNCOMPRESSED''
      else if flags = PACKET_COMPRESSED then ''PACKET_COMPRESSED''
      else if flags = PACKET_AT_FRONT then ''PACKET_AT_FRONT''
      else if flags = PACKET_FLUSHED then ''PACKET_FLUSHED''
      else if flags = (PACKET_COMPRESSED OR PACKET_AT_FRONT) then ''PACKET_COMPRESSED | PACKET_AT_FRONT''
      else if flags = (PACKET_COMPRESSED OR PACKET_FLUSHED) then ''PACKET_COMPRESSED | PACKET_FLUSHED''
      else if flags = (PACKET_AT_FRONT OR PACKET_FLUSHED) then ''PACKET_AT_FRONT | PACKET_FLUSHED''
      else if flags = (PACKET_COMPRESSED OR PACKET_AT_FRONT OR PACKET_FLUSHED) then ''PACKET_COMPRESSED | PACKET_AT_FRONT | PACKET_FLUSHED''
      else ''PACKET_UNKNOWN'')"

definition metrics_write_bytes :: "rdpMetrics \<Rightarrow> int \<Rightarrow> int \<Rightarrow> rdpMetrics" where
  "metrics_write_bytes metrics UncompressedBytes CompressedBytes =
     metrics\<lparr>TotalUncompressedBytes := (TotalUncompressedBytes metrics + UncompressedBytes) mod 2 ^ 64,
       TotalCompressedBytes := (TotalCompressedBytes metrics + CompressedBytes) mod 2 ^ 64\<rparr>"

definition bulk_compression_level :: "('n, 'x) rdpBulk \<Rightarrow> ('n, 'x) rdpBulk" where
  "bulk_compression_level bulk =
     bulk\<lparr>CompressionLevel := (if PACKET_COMPR_TYPE_RDP61 \<le> bulk_settings_level bulk then PACKET_COMPR_TYPE_RDP61 else bulk_settings_level bulk)\<rparr>"

definition bulk_compression_max_size :: "('n, 'x) rdpBulk \<Rightarrow> ('n, 'x) rdpBulk" where
  "bulk_compression_max_size bulk =
     (let bulk = bulk_compression_level bulk
      in bulk\<lparr>CompressionMaxSize := (if CompressionLevel bulk < PACKET_COMPR_TYPE_64K then 8192 else 65536)\<rparr>)"

text \<open>The status, the bytes at \<open>*ppDstData\<close> unless it failed, and the state.\<close>

definition bulk_decompress :: "'n crush \<Rightarrow> 'x crush \<Rightarrow> ('n, 'x) rdpBulk \<Rightarrow> byte list \<Rightarrow> int \<Rightarrow> int \<Rightarrow>
    (int \<times> byte list option \<times> ('n, 'x) rdpBulk) option" where
  "bulk_decompress nc xc bulk pSrcData SrcSize flags = do {
     let bulk = bulk_compression_max_size bulk;
     let type = flags AND BULK_COMPRESSION_TYPE_MASK;
     (status, out, bulk) \<leftarrow>
       (if flags AND BULK_COMPRESSION_FLAGS_MASK \<noteq> 0 then
          if type = PACKET_COMPR_TYPE_8K then do {
            (status, out, mppc) \<leftarrow> mppc_decompress (mppc_set_compression_level (mppcRecv bulk) 0) pSrcData SrcSize flags;
            Some (status, out, bulk\<lparr>mppcRecv := mppc\<rparr>) }
          else if type = PACKET_COMPR_TYPE_64K then do {
            (status, out, mppc) \<leftarrow> mppc_decompress (mppc_set_compression_level (mppcRecv bulk) 1) pSrcData SrcSize flags;
            Some (status, out, bulk\<lparr>mppcRecv := mppc\<rparr>) }
          else if type = PACKET_COMPR_TYPE_RDP6 then do {
            (status, out, c) \<leftarrow> crush_decompress nc (ncrushRecv bulk) pSrcData SrcSize flags;
            Some (status, out, bulk\<lparr>ncrushRecv := c\<rparr>) }
          else if type = PACKET_COMPR_TYPE_RDP61 then do {
            (status, out, c) \<leftarrow> crush_decompress xc (xcrushRecv bulk) pSrcData SrcSize flags;
            Some (status, out, bulk\<lparr>xcrushRecv := c\<rparr>) }
          else Some (- 1, None, bulk)
        else do { data \<leftarrow> ablock pSrcData 0 SrcSize; Some (0, Some data, bulk) });
     Some (status, out,
       (if 0 \<le> status then bulk\<lparr>bulk_metrics := metrics_write_bytes (bulk_metrics bulk) (case out of Some x \<Rightarrow> int (length x) | None \<Rightarrow> 0) SrcSize\<rparr>
        else bulk)) }"

text \<open>
  The status, the bytes at \<open>*ppDstData\<close>, the flags and the state. \<open>OutputBuffer\<close> is what the buffer of the struct
  holds before, \<open>before\<close> the byte in front of the history of the compressor.
\<close>

definition bulk_compress :: "'n crush \<Rightarrow> 'x crush \<Rightarrow> byte \<Rightarrow> byte list \<Rightarrow> ('n, 'x) rdpBulk \<Rightarrow> byte list \<Rightarrow> int \<Rightarrow> int \<Rightarrow>
    (int \<times> byte list option \<times> int \<times> ('n, 'x) rdpBulk) option" where
  "bulk_compress nc xc before OutputBuffer bulk pSrcData SrcSize flags =
     (if SrcSize \<le> 50 \<or> 16384 \<le> SrcSize then do {
        data \<leftarrow> ablock pSrcData 0 SrcSize;
        Some (0, Some data, flags, bulk) }
      else do {
        let bulk = bulk_compression_level bulk;
        let bulk = bulk_compression_max_size bulk;
        (status, out, flags, bulk) \<leftarrow>
          (if CompressionLevel bulk = PACKET_COMPR_TYPE_8K \<or> CompressionLevel bulk = PACKET_COMPR_TYPE_64K then do {
             (status, out, flags, mppc) \<leftarrow> mppc_compress before (mppc_set_compression_level (mppcSend bulk) (CompressionLevel bulk))
               pSrcData SrcSize (Some OutputBuffer) 65536;
             Some (status, out, flags, bulk\<lparr>mppcSend := mppc\<rparr>) }
           else if CompressionLevel bulk = PACKET_COMPR_TYPE_RDP6 then do {
             (status, out, flags, c) \<leftarrow> crush_compress nc (ncrushSend bulk) pSrcData SrcSize OutputBuffer 65536;
             Some (status, out, flags, bulk\<lparr>ncrushSend := c\<rparr>) }
           else if CompressionLevel bulk = PACKET_COMPR_TYPE_RDP61 then do {
             (status, out, flags, c) \<leftarrow> crush_compress xc (xcrushSend bulk) pSrcData SrcSize OutputBuffer 65536;
             Some (status, out, flags, bulk\<lparr>xcrushSend := c\<rparr>) }
           else Some (- 1, None, flags, bulk));
        Some (status, out, flags,
          (if 0 \<le> status then bulk\<lparr>bulk_metrics := metrics_write_bytes (bulk_metrics bulk) SrcSize (case out of Some x \<Rightarrow> int (length x) | None \<Rightarrow> 0)\<rparr>
           else bulk)) })"

text \<open>The check of a compressed packet against its source; \<open>slack\<close> is the memory behind the packet.\<close>

definition bulk_compress_validate :: "'n crush \<Rightarrow> 'x crush \<Rightarrow> ('n, 'x) rdpBulk \<Rightarrow> byte list \<Rightarrow> byte list \<Rightarrow> byte list \<Rightarrow> int \<Rightarrow>
    (int \<times> ('n, 'x) rdpBulk) option" where
  "bulk_compress_validate nc xc bulk src data slack flags = do {
     (status, out, bulk) \<leftarrow> bulk_decompress nc xc bulk (data @ slack) (int (length data)) (flags OR CompressionLevel bulk);
     Some ((if status < 0 then status else if out \<noteq> Some src then - 1 else status), bulk) }"

definition bulk_reset :: "'n crush \<Rightarrow> 'x crush \<Rightarrow> ('n, 'x) rdpBulk \<Rightarrow> ('n, 'x) rdpBulk" where
  "bulk_reset nc xc bulk =
     bulk\<lparr>mppcSend := mppc_context_reset (mppcSend bulk) False, mppcRecv := mppc_context_reset (mppcRecv bulk) False,
       ncrushRecv := crush_reset nc (ncrushRecv bulk) False, ncrushSend := crush_reset nc (ncrushSend bulk) False,
       xcrushRecv := crush_reset xc (xcrushRecv bulk) False, xcrushSend := crush_reset xc (xcrushSend bulk) False\<rparr>"

text \<open>The contexts of the other compressors are passed in; the results of the allocations are not looked at.\<close>

definition bulk_new :: "bool \<Rightarrow> int \<Rightarrow> rdpMetrics \<Rightarrow> 'n \<Rightarrow> 'n \<Rightarrow> 'x \<Rightarrow> 'x \<Rightarrow> ('n, 'x) rdpBulk option" where
  "bulk_new mem level metrics ncr ncs xcr xcs =
     (if mem then do {
        send \<leftarrow> mppc_context_new True 1 True;
        recv \<leftarrow> mppc_context_new True 1 False;
        Some \<lparr>bulk_settings_level = level, bulk_metrics = metrics, CompressionLevel = level, CompressionMaxSize = 0,
          mppcSend = send, mppcRecv = recv, ncrushRecv = ncr, ncrushSend = ncs, xcrushRecv = xcr, xcrushSend = xcs\<rparr> }
      else None)"

section \<open>The contexts at the level of a connection\<close>

lemma set_level: "mppc_set_compression_level c (of_bool r) = c\<lparr>mp_CompressionLevel := of_bool r, mp_HistoryBufferSize := int (wlevel r)\<rparr>"
  by (cases r) (simp_all add: mppc_set_compression_level_def wlevel_def)

definition leveled :: "bool \<Rightarrow> MPPC_CONTEXT \<Rightarrow> MPPC_CONTEXT" where
  "leveled r c = mppc_set_compression_level c (of_bool r)"

text \<open>A sender and a receiver of a connection at the level 8K or 64K.\<close>

definition bulk_in_step :: "bool \<Rightarrow> ('n, 'x) rdpBulk \<Rightarrow> ('m, 'y) rdpBulk \<Rightarrow> bool" where
  "bulk_in_step r a b \<longleftrightarrow> bulk_settings_level a = of_bool r \<and> in_step r (leveled r (mppcSend a)) (leveled r (mppcRecv b))"

fun bulk_packet_ok :: "bool \<Rightarrow> byte list \<times> byte list \<times> byte list \<Rightarrow> bool" where
  "bulk_packet_ok r (src, out, slack) \<longleftrightarrow> length out = 65536 \<and> 8 \<le> length slack
     \<and> (length src \<le> 50 \<or> 16384 \<le> length src \<or> length src + 3 < wlevel r)"

fun bulk_send :: "'n crush \<Rightarrow> 'x crush \<Rightarrow> byte \<Rightarrow> ('n, 'x) rdpBulk \<Rightarrow> byte list \<times> byte list \<times> byte list \<Rightarrow> ((byte list \<times> int) \<times> ('n, 'x) rdpBulk) option" where
  "bulk_send nc xc before bulk (src, out, slack) = do {
     (status, data, flags, bulk) \<leftarrow> bulk_compress nc xc before out bulk src (int (length src)) 0;
     data \<leftarrow> (if 0 \<le> status then data else None);
     Some ((data, flags), bulk) }"

fun bulk_receive :: "'n crush \<Rightarrow> 'x crush \<Rightarrow> ('n, 'x) rdpBulk \<Rightarrow> byte list \<times> byte list \<times> byte list \<Rightarrow> byte list \<times> int \<Rightarrow> (byte list \<times> ('n, 'x) rdpBulk) option" where
  "bulk_receive nc xc bulk (src, out, slack) (data, flags) = do {
     (status, out, bulk) \<leftarrow> bulk_decompress nc xc bulk (data @ slack) (int (length data)) flags;
     out \<leftarrow> (if 0 \<le> status then out else None);
     Some (out, bulk) }"


lemma leveled_id: "in_step r e d \<Longrightarrow> leveled r e = e \<and> leveled r d = d"
  by (simp add: leveled_def set_level in_step_def ctx_ok_def)

text \<open>One packet, with what the fast path looks at: no flags mean that the packet was not touched.\<close>

lemma bulk_packet:
  assumes "bulk_in_step r a b" "bulk_packet_ok r (src, out, slack)"
  shows "\<exists>st data flags a' st' b'. bulk_compress nc xc before out a src (int (length src)) 0 = Some (st, Some data, flags, a') \<and> 0 \<le> st
    \<and> bulk_decompress nc' xc' b (data @ slack) (int (length data)) flags = Some (st', Some src, b')
    \<and> length data \<le> length src \<and> 0 \<le> flags \<and> flags < 256 \<and> (if flags = 0 then data = src \<and> st' = 0 else st' = 1)
    \<and> bulk_in_step r a' b'"
proof -
  have len: "length out = 65536" "8 \<le> length slack" using assms(2) by simp_all
  let ?e = "leveled r (mppcSend a)" and ?d = "leveled r (mppcRecv b)"
  have step: "in_step r ?e ?d" and lv: "bulk_settings_level a = of_bool r" using assms(1) by (simp_all add: bulk_in_step_def)
  show ?thesis
  proof (cases "length src \<le> 50 \<or> 16384 \<le> length src")
    case True
    then have "int (length src) \<le> 50 \<or> 16384 \<le> int (length src)" by simp
    then have "bulk_compress nc xc before out a src (int (length src)) 0 = Some (0, Some src, 0, a)" by (simp add: bulk_compress_def ablock_def)
    moreover obtain b' where "bulk_decompress nc' xc' b (src @ slack) (int (length src)) 0 = Some (0, Some src, b')" "mppcRecv b' = mppcRecv b"
      by (simp add: bulk_decompress_def ablock_def bulk_compression_max_size_def bulk_compression_level_def Let_def)
    ultimately show ?thesis using assms(1) by (auto simp: bulk_in_step_def)
  next
    case False
    then have "packet_ok r (src, out, 65536, slack)" using assms(2) by auto
    then obtain data flags e' d' where
      t: "mppc_compress before ?e src (int (length src)) (Some out) (int 65536) = Some (1, Some data, flags, e')"
      "mppc_decompress ?d (data @ slack) (int (length data)) flags = Some (1, Some src, d')" "in_step r e' d'"
      "length data \<le> length src" "flags_of_level r flags"
      by (rule packet_roundtrip [OF step])
    have cl: "CompressionLevel (bulk_compression_max_size (bulk_compression_level a)) = of_bool r"
      "mppcSend (bulk_compression_max_size (bulk_compression_level a)) = mppcSend a"
      "bulk_settings_level (bulk_compression_max_size (bulk_compression_level a)) = of_bool r"
      using lv by (simp_all add: bulk_compression_max_size_def bulk_compression_level_def Let_def)
    obtain a' where a: "bulk_compress nc xc before out a src (int (length src)) 0 = Some (1, Some data, flags, a')"
      "mppcSend a' = e'" "bulk_settings_level a' = of_bool r"
      using False t(1) cl by (cases r) (simp_all add: bulk_compress_def leveled_def Let_def)
    have rv: "mppcRecv (bulk_compression_max_size b) = mppcRecv b" by (simp add: bulk_compression_max_size_def bulk_compression_level_def Let_def)
    obtain b' where b: "bulk_decompress nc' xc' b (data @ slack) (int (length data)) flags = Some (1, Some src, b')" "mppcRecv b' = d'"
      using t(2,5) rv by (cases r) (simp_all add: bulk_decompress_def flags_of_level_def leveled_def Let_def)
    have "bulk_in_step r a' b'" using a b t(3) leveled_id [OF t(3)] by (simp add: bulk_in_step_def)
    moreover have "0 \<le> flags" "flags < 256" "flags \<noteq> 0" using t(5) by (auto simp: flags_of_level_def)
    ultimately show ?thesis using a(1) b(1) t(4) by auto
  qed
qed

lemma bulk_transfer:
  assumes "bulk_in_step r a b" "bulk_packet_ok r p"
  shows "\<exists>w a' b'. bulk_send nc xc before a p = Some (w, a') \<and> bulk_receive nc' xc' b p w = Some (fst p, b') \<and> bulk_in_step r a' b'"
proof -
  obtain src out slack where p: "p = (src, out, slack)" by (cases p)
  obtain st data flags a' st' b' where "bulk_compress nc xc before out a src (int (length src)) 0 = Some (st, Some data, flags, a')" "0 \<le> st"
    "bulk_decompress nc' xc' b (data @ slack) (int (length data)) flags = Some (st', Some src, b')"
    "if flags = 0 then data = src \<and> st' = 0 else st' = 1" "bulk_in_step r a' b'"
    using bulk_packet [OF assms(1), of src out slack nc xc before nc' xc'] assms(2) p by blast
  then show ?thesis by (auto simp: p split: if_splits)
qed

interpretation bulk: packet_link "bulk_in_step r" "bulk_packet_ok r" "bulk_send nc xc before" "bulk_receive nc' xc'" fst
  for r nc xc before nc' xc'
  by unfold_locales (rule bulk_transfer)

lemma new_bulk_in_step:
  assumes "bulk_new True (of_bool r) m ncr ncs xcr xcs = Some a" "bulk_new True level m' ncr' ncs' xcr' xcs' = Some b"
  shows "bulk_in_step r a b"
proof -
  obtain bs1 where 1: "mppc_context_new True 1 True = Some (new_context True True bs1)" using context_new [of 1 True] by auto
  obtain bs2 where 2: "mppc_context_new True 1 False = Some (new_context True False bs2)" using context_new [of 1 False] by auto
  have l: "leveled r (new_context True enc bs) = new_context r enc bs" for enc bs
    by (simp add: leveled_def set_level new_context_def)
  have "mppcSend a = new_context True True bs1" "bulk_settings_level a = of_bool r" "mppcRecv b = new_context True False bs2"
    using assms by (auto simp: bulk_new_def 1 2)
  then show ?thesis by (simp add: bulk_in_step_def l new_in_step)
qed

section \<open>Properties\<close>

text \<open>
  C13. Two new bulk compressors, whatever compressors of RDP 6 they come with: when the sender has the level 64K every packet
  of any length arrives, in any sequence; with the level 8K every packet but those of 8189 to 16383 bytes.
\<close>

theorem bulk_session_roundtrip:
  assumes "bulk_new True (of_bool r) m ncr ncs xcr xcs = Some a" "bulk_new True level m' ncr' ncs' xcr' xcs' = Some b"
    and "\<forall>(src, out, slack) \<in> set ps. length out = 65536 \<and> 8 \<le> length slack \<and> (r \<or> length src < 8189 \<or> 16384 \<le> length src)"
  shows "\<exists>a' b'. link_session (bulk_send nc xc before) (bulk_receive nc' xc') a b ps = Some (map fst ps, a', b')"
proof -
  have "\<forall>p \<in> set ps. bulk_packet_ok r p" using assms(3) by (fastforce simp: wlevel_def)
  from bulk.session [OF new_bulk_in_step [OF assms(1,2)] this] show ?thesis by blast
qed

theorem bulk_session_roundtrip_witness:
  "\<exists>(a :: (unit, unit) rdpBulk) (b :: (unit, unit) rdpBulk) (nc :: unit crush) a' b'.
    link_session (bulk_send nc nc 0) (bulk_receive nc nc) a b
      [([1, 2, 3], replicate 65536 0, replicate 8 0), (replicate 1000 7, replicate 65536 0, replicate 8 0)]
    = Some ([[1, 2, 3], replicate 1000 7], a', b')"
proof -
  define m where "m = \<lparr>TotalCompressedBytes = 0, TotalUncompressedBytes = 0\<rparr>"
  obtain bs1 bs2 where "mppc_context_new True 1 True = Some bs1" "mppc_context_new True 1 False = Some bs2"
    using context_new by blast
  then obtain a b :: "(unit, unit) rdpBulk" where
    n: "bulk_new True (of_bool False) m () () () () = Some a" "bulk_new True 0 m () () () () = Some b"
    by (simp add: bulk_new_def)
  define nc :: "unit crush" where "nc = \<lparr>crush_compress = \<lambda>_ _ _ _ _. None, crush_decompress = \<lambda>_ _ _ _. None, crush_reset = \<lambda>c _. c\<rparr>"
  have "\<forall>(src, out, slack) \<in> set [([1, 2, 3], replicate 65536 0, replicate 8 0), (replicate 1000 7, replicate 65536 0, replicate 8 0)].
      length (out :: byte list) = 65536 \<and> 8 \<le> length (slack :: byte list) \<and> (False \<or> length (src :: byte list) < 8189 \<or> 16384 \<le> length src)"
    by simp
  from bulk_session_roundtrip [OF n this, of nc nc 0 nc nc] show ?thesis unfolding list.map fst_conv by blast
qed

end
