(* ===== verification/WFastpath.thy ===== *)
theory WFastpath
  imports WUpdate WPer WTransport WBulk WMcs
begin

text \<open>
  The fast path of \<open>libfreerdp/core/fastpath.c\<close>: the compact headers, the fragmentation and compression of the
  server's graphics updates and their reassembly by the client, and the client's input events.

  The record \<open>rdpRdp\<close> holds the fields of \<open>struct rdp_fastpath\<close> and of the \<open>rdpRdp\<close> it belongs to; the settings and the
  state of the connection are those of the transport, which points to the same struct; the fields of \<open>autodetect\<close>, of the peer and of the settings
  that only the layers above use stand in it too. A stream of the pool that was released is gone
  (\<open>fp_updateData\<close> is \<open>None\<close>), so that a later use of it counts as undefined behaviour. The record \<open>session\<close>
  bundles what the code calls outside of the model: the network and the stream pool, the application's callbacks,
  the signatures and ciphers of \<open>security.c\<close>, the compressors of RDP 6, and the memory around the
  output buffer of the compressor.
\<close>

section \<open>State\<close>

record 'w inputs =
  cb_KeyboardEvent :: "int \<Rightarrow> int \<Rightarrow> 'w \<Rightarrow> 'w"
  cb_UnicodeKeyboardEvent :: "int \<Rightarrow> int \<Rightarrow> 'w \<Rightarrow> 'w"
  cb_MouseEvent :: "int \<Rightarrow> int \<Rightarrow> int \<Rightarrow> 'w \<Rightarrow> 'w"
  cb_ExtendedMouseEvent :: "int \<Rightarrow> int \<Rightarrow> int \<Rightarrow> 'w \<Rightarrow> 'w"
  cb_SynchronizeEvent :: "int \<Rightarrow> 'w \<Rightarrow> 'w"

record 'w security =
  security_hmac_signature :: "byte list \<Rightarrow> 'w \<Rightarrow> byte list \<times> 'w"
  security_salted_mac_signature :: "byte list \<Rightarrow> bool \<Rightarrow> 'w \<Rightarrow> byte list \<times> 'w"
  security_mac_signature :: "byte list \<Rightarrow> 'w \<Rightarrow> byte list \<times> 'w"
  security_fips_encrypt :: "byte list \<Rightarrow> 'w \<Rightarrow> byte list \<times> 'w"
  security_encrypt :: "byte list \<Rightarrow> 'w \<Rightarrow> byte list \<times> 'w"
  security_fips_decrypt :: "byte list \<Rightarrow> 'w \<Rightarrow> bool \<times> byte list \<times> 'w"
  security_fips_check_signature :: "byte list \<Rightarrow> byte list \<Rightarrow> 'w \<Rightarrow> bool \<times> 'w"
  security_decrypt :: "byte list \<Rightarrow> 'w \<Rightarrow> bool \<times> byte list \<times> 'w"

text \<open>
  The application: its callbacks, the clock and the random numbers of the system, and the state of the drawing orders, which
  is part of the world.
\<close>

record 'w application =
  GetTickCount :: "'w \<Rightarrow> int \<times> 'w"
  c_rand :: "'w \<Rightarrow> int \<times> 'w"
  update_reset_state :: "'w \<Rightarrow> 'w"
  cb_PostConnect :: "'w \<Rightarrow> bool \<times> 'w"
  cb_Activate :: "'w \<Rightarrow> bool \<times> 'w"
  cb_ErrorInfo :: "int \<Rightarrow> 'w \<Rightarrow> 'w"
  cb_Terminate :: "'w \<Rightarrow> 'w"
  cb_SetKeyboardIndicators :: "int \<Rightarrow> 'w \<Rightarrow> 'w"
  cb_LogonErrorInfo :: "int \<Rightarrow> int \<Rightarrow> 'w \<Rightarrow> 'w"
  cb_ReceiveChannelData :: "int \<Rightarrow> byte list \<Rightarrow> int \<Rightarrow> int \<Rightarrow> 'w \<Rightarrow> 'w"
  cb_VirtualChannelRead :: "(ptr \<Rightarrow> byte list \<Rightarrow> 'w \<Rightarrow> 'w) option"
  cb_RTTMeasureResponse :: "int \<Rightarrow> 'w \<Rightarrow> bool \<times> 'w"
  cb_BandwidthMeasureResults :: "int \<Rightarrow> 'w \<Rightarrow> bool \<times> 'w"
  cb_NetworkCharacteristicsResult :: "int \<Rightarrow> 'w \<Rightarrow> bool \<times> 'w"
  cb_SurfaceFrameAcknowledge :: "int \<Rightarrow> 'w \<Rightarrow> 'w"
  cb_RefreshRect :: "(int \<times> int \<times> int \<times> int) list \<Rightarrow> 'w \<Rightarrow> 'w"
  cb_SuppressOutput :: "int \<Rightarrow> byte list option \<Rightarrow> 'w \<Rightarrow> 'w"

record ('w, 'n, 'x) session =
  se_net :: "'w net"
  se_updates :: "'w updates"
  se_inputs :: "'w inputs"
  se_app :: "'w application"
  se_security :: "'w security"
  se_ncrush :: "'n crush"
  se_xcrush :: "'x crush"
  se_bulk_memory :: "'w \<Rightarrow> byte \<times> byte list"

record ARC_SC_PRIVATE_PACKET =
  arc_cbLen :: int
  arc_version :: int
  arc_logonId :: int
  arc_arcRandomBits :: "byte list"

record ('w, 'n, 'x) rdpRdp =
  fp_fs :: wStream
  fp_encryptionFlags :: int
  fp_numberEvents :: int
  fp_updateData :: "wStream option"
  fp_fragmentation :: int
  rdp_transport :: "'w rdpTransport"
  rdp_bulk :: "('n, 'x) rdpBulk"
  rdp_update :: rdpUpdate
  rdp_do_crypt :: bool
  rdp_do_secure_checksum :: bool
  rdp_sec_flags :: int
  rdp_mcs :: rdpMcs
  rdp_instance :: bool
  rdp_finalize_sc_pdus :: int
  rdp_resendFocus :: bool
  rdp_deactivation_reactivation :: bool
  rdp_ServerMode :: bool
  rdp_ShareId :: int
  rdp_PduSource :: int
  rdp_errorInfo :: int
  rdp_disconnect :: bool
  rdp_bandwidthMeasureStarted :: bool
  rdp_bandwidthMeasureStartTime :: int
  rdp_bandwidthMeasureTimeDelta :: int
  rdp_bandwidthMeasureByteCount :: int
  rdp_rttMeasureStartTime :: int
  rdp_netCharBandwidth :: int
  rdp_netCharBaseRTT :: int
  rdp_netCharAverageRTT :: int
  rdp_VirtualChannelChunkSize :: int
  rdp_FastPathInput :: bool
  rdp_RefreshRect :: bool
  rdp_SuppressOutput :: bool
  rdp_AwaitCapabilities :: bool
  rdp_peer_connected :: bool
  rdp_peer_activated :: bool
  rdp_ack_frame_id :: int
  rdp_ServerAutoReconnectCookie :: ARC_SC_PRIVATE_PACKET

abbreviation rdp_settings :: "('w, 'n, 'x) rdpRdp \<Rightarrow> rdpSettings" where
  "rdp_settings rdp \<equiv> tp_settings (rdp_transport rdp)"

abbreviation rdp_world :: "('w, 'n, 'x) rdpRdp \<Rightarrow> 'w" where
  "rdp_world rdp \<equiv> tp_net (rdp_transport rdp)"

definition rdp_set_world :: "'w \<Rightarrow> ('w, 'n, 'x) rdpRdp \<Rightarrow> ('w, 'n, 'x) rdpRdp" where
  "rdp_set_world w rdp = rdp\<lparr>rdp_transport := (rdp_transport rdp)\<lparr>tp_net := w\<rparr>\<rparr>"

abbreviation rdp_state :: "('w, 'n, 'x) rdpRdp \<Rightarrow> int" where
  "rdp_state rdp \<equiv> tp_rdp_state (rdp_transport rdp)"

definition rdp_set_state :: "int \<Rightarrow> ('w, 'n, 'x) rdpRdp \<Rightarrow> ('w, 'n, 'x) rdpRdp" where
  "rdp_set_state state rdp = rdp\<lparr>rdp_transport := (rdp_transport rdp)\<lparr>tp_rdp_state := state\<rparr>\<rparr>"

text \<open>Running a handler of updates on the state of the connection.\<close>

definition handle_update :: "(rdpUpdate \<Rightarrow> 'w \<Rightarrow> wStream \<Rightarrow> ('r, 'w) handled) \<Rightarrow> ('w, 'n, 'x) rdpRdp \<Rightarrow> wStream \<Rightarrow>
    (('r \<times> ('w, 'n, 'x) rdpRdp) \<times> wStream) option" where
  "handle_update h rdp s = do {
     ((r, upd, w), s) \<leftarrow> h (rdp_update rdp) (rdp_world rdp) s;
     Some ((r, rdp_set_world w (rdp\<lparr>rdp_update := upd\<rparr>)), s) }"

abbreviation (input) FASTPATH_MAX_PACKET_SIZE :: int where "FASTPATH_MAX_PACKET_SIZE \<equiv> 0x3FFF"
abbreviation (input) FASTPATH_UPDATETYPE_ORDERS :: int where "FASTPATH_UPDATETYPE_ORDERS \<equiv> 0"
abbreviation (input) FASTPATH_UPDATETYPE_BITMAP :: int where "FASTPATH_UPDATETYPE_BITMAP \<equiv> 1"
abbreviation (input) FASTPATH_UPDATETYPE_PALETTE :: int where "FASTPATH_UPDATETYPE_PALETTE \<equiv> 2"
abbreviation (input) FASTPATH_UPDATETYPE_SYNCHRONIZE :: int where "FASTPATH_UPDATETYPE_SYNCHRONIZE \<equiv> 3"
abbreviation (input) FASTPATH_UPDATETYPE_SURFCMDS :: int where "FASTPATH_UPDATETYPE_SURFCMDS \<equiv> 4"
abbreviation (input) FASTPATH_UPDATETYPE_PTR_NULL :: int where "FASTPATH_UPDATETYPE_PTR_NULL \<equiv> 5"
abbreviation (input) FASTPATH_UPDATETYPE_PTR_DEFAULT :: int where "FASTPATH_UPDATETYPE_PTR_DEFAULT \<equiv> 6"
abbreviation (input) FASTPATH_UPDATETYPE_PTR_POSITION :: int where "FASTPATH_UPDATETYPE_PTR_POSITION \<equiv> 8"
abbreviation (input) FASTPATH_UPDATETYPE_COLOR :: int where "FASTPATH_UPDATETYPE_COLOR \<equiv> 9"
abbreviation (input) FASTPATH_UPDATETYPE_CACHED :: int where "FASTPATH_UPDATETYPE_CACHED \<equiv> 10"
abbreviation (input) FASTPATH_UPDATETYPE_POINTER :: int where "FASTPATH_UPDATETYPE_POINTER \<equiv> 11"
abbreviation (input) FASTPATH_FRAGMENT_SINGLE :: int where "FASTPATH_FRAGMENT_SINGLE \<equiv> 0"
abbreviation (input) FASTPATH_FRAGMENT_LAST :: int where "FASTPATH_FRAGMENT_LAST \<equiv> 1"
abbreviation (input) FASTPATH_FRAGMENT_FIRST :: int where "FASTPATH_FRAGMENT_FIRST \<equiv> 2"
abbreviation (input) FASTPATH_FRAGMENT_NEXT :: int where "FASTPATH_FRAGMENT_NEXT \<equiv> 3"
abbreviation (input) FASTPATH_OUTPUT_COMPRESSION_USED :: int where "FASTPATH_OUTPUT_COMPRESSION_USED \<equiv> 2"
abbreviation (input) FASTPATH_SECURE_CHECKSUM :: int where "FASTPATH_SECURE_CHECKSUM \<equiv> 1"
abbreviation (input) FASTPATH_ENCRYPTED :: int where "FASTPATH_ENCRYPTED \<equiv> 2"
abbreviation (input) FASTPATH_INPUT_EVENT_SCANCODE :: int where "FASTPATH_INPUT_EVENT_SCANCODE \<equiv> 0"
abbreviation (input) FASTPATH_INPUT_EVENT_MOUSE :: int where "FASTPATH_INPUT_EVENT_MOUSE \<equiv> 1"
abbreviation (input) FASTPATH_INPUT_EVENT_MOUSEX :: int where "FASTPATH_INPUT_EVENT_MOUSEX \<equiv> 2"
abbreviation (input) FASTPATH_INPUT_EVENT_SYNC :: int where "FASTPATH_INPUT_EVENT_SYNC \<equiv> 3"
abbreviation (input) FASTPATH_INPUT_EVENT_UNICODE :: int where "FASTPATH_INPUT_EVENT_UNICODE \<equiv> 4"
abbreviation (input) FASTPATH_INPUT_KBDFLAGS_RELEASE :: int where "FASTPATH_INPUT_KBDFLAGS_RELEASE \<equiv> 1"
abbreviation (input) FASTPATH_INPUT_KBDFLAGS_EXTENDED :: int where "FASTPATH_INPUT_KBDFLAGS_EXTENDED \<equiv> 2"
abbreviation (input) FASTPATH_INPUT_KBDFLAGS_PREFIX_E1 :: int where "FASTPATH_INPUT_KBDFLAGS_PREFIX_E1 \<equiv> 4"
abbreviation (input) KBD_FLAGS_EXTENDED :: int where "KBD_FLAGS_EXTENDED \<equiv> 0x100"
abbreviation (input) KBD_FLAGS_DOWN :: int where "KBD_FLAGS_DOWN \<equiv> 0x4000"
abbreviation (input) KBD_FLAGS_RELEASE :: int where "KBD_FLAGS_RELEASE \<equiv> 0x8000"
abbreviation (input) SEC_ENCRYPT :: int where "SEC_ENCRYPT \<equiv> 0x8"
abbreviation (input) SEC_SECURE_CHECKSUM :: int where "SEC_SECURE_CHECKSUM \<equiv> 0x800"
abbreviation (input) ENCRYPTION_METHOD_FIPS :: int where "ENCRYPTION_METHOD_FIPS \<equiv> 0x10"
abbreviation (input) SYSPTR_NULL :: int where "SYSPTR_NULL \<equiv> 0"
abbreviation (input) SYSPTR_DEFAULT :: int where "SYSPTR_DEFAULT \<equiv> 0x7F00"

section \<open>Headers\<close>

definition fastpath_header_length :: "wStream \<Rightarrow> (int \<times> wStream) option" where
  "fastpath_header_length s = do {
     s \<leftarrow> Stream_Seek s 1;
     (length1, s) \<leftarrow> Stream_Read_UINT8 s;
     s \<leftarrow> Stream_Rewind s 2;
     Some (if length1 AND 0x80 \<noteq> 0 then 3 else 2, s) }"

text \<open>The first byte of a header, where the pointer to the connection may be missing.\<close>

definition fastpath_header_byte :: "int \<Rightarrow> ('w, 'n, 'x) rdpRdp option \<Rightarrow> ('w, 'n, 'x) rdpRdp option" where
  "fastpath_header_byte header rdp =
     map_option (\<lambda>rdp. rdp\<lparr>fp_encryptionFlags := drop_bit 6 (header AND 0xC0), fp_numberEvents := drop_bit 2 (header AND 0x3C)\<rparr>) rdp"

text \<open>A length that cannot be read is returned uninitialised.\<close>

definition fastpath_read_header :: "('w, 'n, 'x) rdpRdp option \<Rightarrow> wStream \<Rightarrow> (int \<times> ('w, 'n, 'x) rdpRdp option \<times> wStream) option" where
  "fastpath_read_header rdp s = do {
     (header, s) \<leftarrow> Stream_Read_UINT8 s;
     (len, s) \<leftarrow> per_read_length s;
     len \<leftarrow> len;
     Some (len, fastpath_header_byte header rdp, s) }"

definition fastpath_read_header_rdp :: "('w, 'n, 'x) rdpRdp option \<Rightarrow> wStream \<Rightarrow>
    ((int option \<times> ('w, 'n, 'x) rdpRdp option) \<times> wStream) option" where
  "fastpath_read_header_rdp rdp s = do {
     (header, s) \<leftarrow> Stream_Read_UINT8 s;
     let rdp = fastpath_header_byte header rdp;
     (len, s) \<leftarrow> per_read_length s;
     Some ((map_option (\<lambda>len. u16 (len - s_pos s)) len, rdp), s) }"

definition fastpath_read_update_header :: "wStream \<Rightarrow> ((int \<times> int \<times> int) \<times> wStream) option" where
  "fastpath_read_update_header s = do {
     (updateHeader, s) \<leftarrow> Stream_Read_UINT8 s;
     Some ((updateHeader AND 0x0F, drop_bit 4 updateHeader AND 0x03, drop_bit 6 updateHeader AND 0x03), s) }"

record FASTPATH_UPDATE_PDU_HEADER =
  ph_fpOutputHeader :: int
  ph_fipsInformation :: "byte list"
  ph_dataSignature :: "byte list"
  ph_action :: int
  ph_secFlags :: int
  ph_length :: int

record FASTPATH_UPDATE_HEADER =
  uh_updateHeader :: int
  uh_compressionFlags :: int
  uh_size :: int
  uh_updateCode :: int
  uh_fragmentation :: int
  uh_compression :: int

definition fastpath_write_update_header :: "wStream \<Rightarrow> FASTPATH_UPDATE_HEADER \<Rightarrow> (FASTPATH_UPDATE_HEADER \<times> wStream) option" where
  "fastpath_write_update_header s h = do {
     let updateHeader = u8 ((uh_updateCode h AND 0x0F) OR push_bit 4 (uh_fragmentation h AND 0x03) OR push_bit 6 (uh_compression h AND 0x03));
     let h = h\<lparr>uh_updateHeader := updateHeader\<rparr>;
     s \<leftarrow> Stream_Write_UINT8 s updateHeader;
     s \<leftarrow> (if uh_compression h \<noteq> 0 then Stream_Write_UINT8 s (uh_compressionFlags h) else Some s);
     s \<leftarrow> Stream_Write_UINT16 s (uh_size h);
     Some (h, s) }"

definition fastpath_get_update_header_size :: "FASTPATH_UPDATE_HEADER \<Rightarrow> int" where
  "fastpath_get_update_header_size h = (if uh_compression h \<noteq> 0 then 4 else 3)"

definition fastpath_write_update_pdu_header :: "wStream \<Rightarrow> FASTPATH_UPDATE_PDU_HEADER \<Rightarrow> ('w, 'n, 'x) rdpRdp \<Rightarrow>
    (FASTPATH_UPDATE_PDU_HEADER \<times> wStream) option" where
  "fastpath_write_update_pdu_header s h rdp = do {
     let fpOutputHeader = u8 ((ph_action h AND 0x03) OR push_bit 6 (ph_secFlags h AND 0x03));
     let h = h\<lparr>ph_fpOutputHeader := fpOutputHeader\<rparr>;
     s \<leftarrow> Stream_Write_UINT8 s fpOutputHeader;
     s \<leftarrow> Stream_Write_UINT8 s (0x80 OR drop_bit 8 (ph_length h));
     s \<leftarrow> Stream_Write_UINT8 s (ph_length h AND 0xFF);
     s \<leftarrow> (if ph_secFlags h \<noteq> 0 then do {
             s \<leftarrow> (if set_EncryptionMethods (rdp_settings rdp) = ENCRYPTION_METHOD_FIPS
                  then Stream_Write s (ph_fipsInformation h) else Some s);
             Stream_Write s (ph_dataSignature h) }
           else Some s);
     Some (h, s) }"

definition fastpath_get_update_pdu_header_size :: "FASTPATH_UPDATE_PDU_HEADER \<Rightarrow> ('w, 'n, 'x) rdpRdp \<Rightarrow> int" where
  "fastpath_get_update_pdu_header_size h rdp =
     (if ph_secFlags h \<noteq> 0 then 3 + 8 + (if set_EncryptionMethods (rdp_settings rdp) = ENCRYPTION_METHOD_FIPS then 4 else 0) else 3)"

definition fastpath_get_fragmentation_string :: "int \<Rightarrow> string" where
  "fastpath_get_fragmentation_string fragmentation =
     (if fragmentation = FASTPATH_FRAGMENT_SINGLE then ''FASTPATH_FRAGMENT_SINGLE''
      else if fragmentation = FASTPATH_FRAGMENT_LAST then ''FASTPATH_FRAGMENT_LAST''
      else if fragmentation = FASTPATH_FRAGMENT_FIRST then ''FASTPATH_FRAGMENT_FIRST''
      else if fragmentation = FASTPATH_FRAGMENT_NEXT then ''FASTPATH_FRAGMENT_NEXT''
      else ''FASTPATH_FRAGMENT_UNKNOWN'')"

section \<open>Receiving updates\<close>

definition as_status :: "bool \<Rightarrow> int" where
  "as_status ok = (if ok then 0 else - 1)"

definition fastpath_recv_orders :: "'w updates \<Rightarrow> rdpUpdate \<Rightarrow> 'w \<Rightarrow> wStream \<Rightarrow> (bool, 'w) handled" where
  "fastpath_recv_orders U upd w s = do {
     (numberOrders, s) \<leftarrow> Stream_Read_UINT16 s;
     ((ok, w), s) \<leftarrow> recv_orders_loop U (nat numberOrders) w s;
     Some ((ok, upd, w), s) }"

definition fastpath_recv_update_common :: "'w updates \<Rightarrow> rdpUpdate \<Rightarrow> 'w \<Rightarrow> wStream \<Rightarrow> (bool, 'w) handled" where
  "fastpath_recv_update_common U upd w s =
     (if Stream_GetRemainingLength s < 2 then Some ((False, upd, w), s)
      else do {
        (updateType, s) \<leftarrow> Stream_Read_UINT16 s;
        if updateType = UPDATE_TYPE_BITMAP then recv_bitmap_update U upd w s
        else if updateType = UPDATE_TYPE_PALETTE then recv_palette U upd w s
        else Some ((True, upd, w), s) })"

definition fastpath_recv_update_synchronize :: "wStream \<Rightarrow> (bool \<times> wStream) option" where
  "fastpath_recv_update_synchronize s = do { (_, s) \<leftarrow> Stream_SafeSeek s 2; Some (True, s) }"

definition fastpath_recv_update :: "'w updates \<Rightarrow> int \<Rightarrow> int \<Rightarrow> rdpUpdate \<Rightarrow> 'w \<Rightarrow> wStream \<Rightarrow> (int, 'w) handled" where
  "fastpath_recv_update U updateCode sz upd w s =
     (let checked = (\<lambda>r. do { ((ok, upd, w), s) \<leftarrow> r; Some ((as_status ok, upd, w), s) })
      in if updateCode = FASTPATH_UPDATETYPE_ORDERS then checked (fastpath_recv_orders U upd w s)
         else if updateCode = FASTPATH_UPDATETYPE_BITMAP \<or> updateCode = FASTPATH_UPDATETYPE_PALETTE
         then checked (fastpath_recv_update_common U upd w s)
         else if updateCode = FASTPATH_UPDATETYPE_SYNCHRONIZE then do {
           (ok, s) \<leftarrow> fastpath_recv_update_synchronize s;
           Some ((0, upd, if ok then cb_Synchronize U w else w), s) }
         else if updateCode = FASTPATH_UPDATETYPE_SURFCMDS then update_recv_surfcmds U upd w sz s
         else if updateCode = FASTPATH_UPDATETYPE_PTR_NULL
         then Some ((0, upd\<lparr>upd_pointer_system := SYSPTR_NULL\<rparr>, cb_PointerSystem U SYSPTR_NULL w), s)
         else if updateCode = FASTPATH_UPDATETYPE_PTR_DEFAULT
         then Some ((0, upd\<lparr>upd_pointer_system := SYSPTR_DEFAULT\<rparr>, cb_PointerSystem U SYSPTR_DEFAULT w), s)
         else if updateCode = FASTPATH_UPDATETYPE_PTR_POSITION then checked (recv_pointer_position U upd w s)
         else if updateCode = FASTPATH_UPDATETYPE_COLOR then checked (recv_pointer_color U upd w s)
         else if updateCode = FASTPATH_UPDATETYPE_CACHED then checked (recv_pointer_cached U upd w s)
         else if updateCode = FASTPATH_UPDATETYPE_POINTER then checked (recv_pointer_new U upd w s)
         else Some ((0, upd, w), s))"

text \<open>\<open>memcpy\<close> from one stream to another.\<close>

definition Stream_Copy :: "wStream \<Rightarrow> wStream \<Rightarrow> int \<Rightarrow> (wStream \<times> wStream) option" where
  "Stream_Copy dst src n = do {
     bs \<leftarrow> ablock (s_buffer src) (s_pos src) n;
     dst \<leftarrow> Stream_Write dst bs;
     Some (dst, src\<lparr>s_pos := s_pos src + n\<rparr>) }"

text \<open>Taking a stream from the pool: \<open>None\<close> where the pool has none.\<close>

definition take_stream :: "('w, 'n, 'x) session \<Rightarrow> int \<Rightarrow> ('w, 'n, 'x) rdpRdp \<Rightarrow> wStream option \<times> ('w, 'n, 'x) rdpRdp" where
  "take_stream E sz rdp = (let (s, w) = StreamPool_Take (se_net E) sz (rdp_world rdp) in (s, rdp_set_world w rdp))"

definition release_stream :: "('w, 'n, 'x) session \<Rightarrow> wStream \<Rightarrow> ('w, 'n, 'x) rdpRdp \<Rightarrow> ('w, 'n, 'x) rdpRdp" where
  "release_stream E s rdp = rdp_set_world (Stream_Release (se_net E) s (rdp_world rdp)) rdp"

text \<open>Growing the stream of the update and adding the fragment \<open>cs\<close> of \<open>sz\<close> bytes to it: whether it has succeeded.\<close>

definition append_fragment :: "('w, 'n, 'x) session \<Rightarrow> int \<Rightarrow> wStream \<Rightarrow> ('w, 'n, 'x) rdpRdp \<Rightarrow>
    (bool \<times> int \<times> wStream \<times> ('w, 'n, 'x) rdpRdp) option" where
  "append_fragment E sz cs rdp = do {
     updateData \<leftarrow> fp_updateData rdp;
     let totalSize = (s_pos updateData + sz) mod 4294967296;
     if set_MultifragMaxRequestSize (rdp_settings rdp) < totalSize then Some (False, totalSize, cs, rdp)
     else do {
       let (mem, w) = net_malloc (se_net E) totalSize (rdp_world rdp);
       let rdp = rdp_set_world w rdp;
       (ok, updateData) \<leftarrow> Stream_EnsureCapacity mem updateData totalSize;
       if \<not> ok then Some (False, totalSize, cs, rdp\<lparr>fp_updateData := Some updateData\<rparr>)
       else do {
         (updateData, cs) \<leftarrow> Stream_Copy updateData cs sz;
         Some (True, totalSize, cs, rdp\<lparr>fp_updateData := Some updateData\<rparr>) } } }"

text \<open>What is done with the content \<open>cs\<close> of \<open>sz\<close> bytes of one update PDU.\<close>

definition recv_fragment :: "('w, 'n, 'x) session \<Rightarrow> int \<Rightarrow> int \<Rightarrow> int \<Rightarrow> ('w, 'n, 'x) rdpRdp \<Rightarrow> wStream \<Rightarrow>
    ((int \<times> ('w, 'n, 'x) rdpRdp) \<times> wStream) option" where
  "recv_fragment E updateCode fragmentation sz rdp cs =
     (if fragmentation = FASTPATH_FRAGMENT_SINGLE then
        if fp_fragmentation rdp \<noteq> - 1 then Some ((- 1, rdp), cs)
        else handle_update (fastpath_recv_update (se_updates E) updateCode sz) rdp cs
      else if fragmentation = FASTPATH_FRAGMENT_FIRST then
        if fp_fragmentation rdp \<noteq> - 1 then Some ((- 1, rdp), cs)
        else do {
          let rdp = rdp\<lparr>fp_fragmentation := FASTPATH_FRAGMENT_FIRST\<rparr>;
          if set_MultifragMaxRequestSize (rdp_settings rdp) < sz then Some ((- 1, rdp), cs)
          else do {
            let (updateData, rdp) = take_stream E sz rdp;
            (case updateData of None \<Rightarrow> Some ((- 1, rdp\<lparr>fp_updateData := None\<rparr>), cs)
             | Some updateData \<Rightarrow> do {
                 updateData \<leftarrow> Stream_SetPosition updateData 0;
                 (updateData, cs) \<leftarrow> Stream_Copy updateData cs sz;
                 Some ((0, rdp\<lparr>fp_updateData := Some updateData\<rparr>), cs) }) } }
      else if fragmentation = FASTPATH_FRAGMENT_NEXT then
        if fp_fragmentation rdp \<noteq> FASTPATH_FRAGMENT_FIRST \<and> fp_fragmentation rdp \<noteq> FASTPATH_FRAGMENT_NEXT
        then Some ((- 1, rdp), cs)
        else do {
          (ok, totalSize, cs, rdp) \<leftarrow> append_fragment E sz cs (rdp\<lparr>fp_fragmentation := FASTPATH_FRAGMENT_NEXT\<rparr>);
          Some ((as_status ok, rdp), cs) }
      else if fragmentation = FASTPATH_FRAGMENT_LAST then
        if fp_fragmentation rdp \<noteq> FASTPATH_FRAGMENT_FIRST \<and> fp_fragmentation rdp \<noteq> FASTPATH_FRAGMENT_NEXT
        then Some ((- 1, rdp), cs)
        else do {
          (ok, totalSize, cs, rdp) \<leftarrow> append_fragment E sz cs (rdp\<lparr>fp_fragmentation := - 1\<rparr>);
          if \<not> ok then Some ((- 1, rdp), cs)
          else do {
            updateData \<leftarrow> fp_updateData rdp;
            updateData \<leftarrow> Stream_SetPosition (Stream_SealLength updateData) 0;
            ((status, rdp), updateData) \<leftarrow> handle_update (fastpath_recv_update (se_updates E) updateCode totalSize) rdp updateData;
            Some ((status, (release_stream E updateData rdp)\<lparr>fp_updateData := None\<rparr>), cs) } }
      else Some ((0, rdp), cs))"

definition fastpath_recv_update_data :: "('w, 'n, 'x) session \<Rightarrow> ('w, 'n, 'x) rdpRdp \<Rightarrow> wStream \<Rightarrow>
    ((int \<times> ('w, 'n, 'x) rdpRdp) \<times> wStream) option" where
  "fastpath_recv_update_data E rdp s = do {
     ((updateCode, fragmentation, compression), s) \<leftarrow> fastpath_read_update_header s;
     (compressionFlags, s) \<leftarrow> (if compression = FASTPATH_OUTPUT_COMPRESSION_USED then Stream_Read_UINT8 s else Some (0, s));
     (sz, s) \<leftarrow> Stream_Read_UINT16 s;
     if Stream_GetRemainingLength s < sz then Some ((- 1, rdp), s)
     else do {
       let next_pos = as_int (s_pos s + sz);
       (bulkStatus, dst, bulk) \<leftarrow> bulk_decompress (se_ncrush E) (se_xcrush E) (rdp_bulk rdp)
         (drop (nat (s_pos s)) (s_buffer s)) sz compressionFlags;
       let rdp = rdp\<lparr>rdp_bulk := bulk\<rparr>;
       if bulkStatus < 0 then Some ((- 1, rdp), s)
       else if 0 < bulkStatus then do {
         pDstData \<leftarrow> dst;
         let sz = int (length pDstData);
         let (cs, rdp) = take_stream E sz rdp;
         (case cs of None \<Rightarrow> Some ((- 1, rdp), s)
          | Some cs \<Rightarrow> do {
              cs \<leftarrow> Stream_SetPosition cs 0;
              cs \<leftarrow> Stream_Write cs pDstData;
              cs \<leftarrow> Stream_SetPosition (Stream_SealLength cs) 0;
              ((status, rdp), cs) \<leftarrow> recv_fragment E updateCode fragmentation (u16 sz) rdp cs;
              if status < 0 then Some ((- 1, rdp), s)
              else do {
                s \<leftarrow> Stream_SetPosition s next_pos;
                Some ((status, release_stream E cs rdp), s) } }) }
       else do {
         ((status, rdp), s) \<leftarrow> recv_fragment E updateCode fragmentation sz rdp s;
         if status < 0 then Some ((- 1, rdp), s)
         else do {
           s \<leftarrow> Stream_SetPosition s next_pos;
           Some ((status, rdp), s) } } } }"

text \<open>The loop ends when fewer than 3 bytes are left.\<close>

partial_function (option) recv_updates_loop :: "('w, 'n, 'x) session \<Rightarrow> ('w, 'n, 'x) rdpRdp \<Rightarrow> wStream \<Rightarrow>
    ((int \<times> ('w, 'n, 'x) rdpRdp) \<times> wStream) option" where
  "recv_updates_loop E rdp s =
     (if 3 \<le> Stream_GetRemainingLength s then do {
        ((status, rdp), s) \<leftarrow> fastpath_recv_update_data E rdp s;
        if status < 0 then Some ((- 1, rdp), s) else recv_updates_loop E rdp s }
      else Some ((0, rdp), s))"

definition fastpath_recv_updates :: "('w, 'n, 'x) session \<Rightarrow> ('w, 'n, 'x) rdpRdp \<Rightarrow> wStream \<Rightarrow>
    ((int \<times> ('w, 'n, 'x) rdpRdp) \<times> wStream) option" where
  "fastpath_recv_updates E rdp s = do {
     let rdp = rdp_set_world (cb_BeginPaint (se_updates E) (rdp_world rdp)) rdp;
     ((status, rdp), s) \<leftarrow> recv_updates_loop E rdp s;
     Some ((status, if status < 0 then rdp else rdp_set_world (cb_EndPaint (se_updates E) (rdp_world rdp)) rdp), s) }"

section \<open>Receiving input\<close>

definition fastpath_read_input_event_header :: "wStream \<Rightarrow> ((int \<times> int) option \<times> wStream) option" where
  "fastpath_read_input_event_header s =
     (if Stream_GetRemainingLength s < 1 then Some (None, s)
      else do {
        (eventHeader, s) \<leftarrow> Stream_Read_UINT8 s;
        Some (Some (eventHeader AND 0x1F, drop_bit 5 eventHeader), s) })"

text \<open>The flags of a keyboard event as the callbacks expect them.\<close>

definition kbd_flags :: "int \<Rightarrow> int" where
  "kbd_flags eventFlags = (if eventFlags AND FASTPATH_INPUT_KBDFLAGS_RELEASE \<noteq> 0 then KBD_FLAGS_RELEASE else KBD_FLAGS_DOWN)"

definition fastpath_recv_input_event_scancode :: "'w inputs \<Rightarrow> int \<Rightarrow> 'w \<Rightarrow> wStream \<Rightarrow> ((bool \<times> 'w) \<times> wStream) option" where
  "fastpath_recv_input_event_scancode I eventFlags w s =
     (if Stream_GetRemainingLength s < 1 then Some ((False, w), s)
      else do {
        (code, s) \<leftarrow> Stream_Read_UINT8 s;
        let flags = kbd_flags eventFlags;
        let flags = (if eventFlags AND FASTPATH_INPUT_KBDFLAGS_EXTENDED \<noteq> 0 then flags OR KBD_FLAGS_EXTENDED else flags);
        Some ((True, cb_KeyboardEvent I flags code w), s) })"

definition fastpath_recv_input_event_mouse :: "'w inputs \<Rightarrow> int \<Rightarrow> 'w \<Rightarrow> wStream \<Rightarrow> ((bool \<times> 'w) \<times> wStream) option" where
  "fastpath_recv_input_event_mouse I eventFlags w s =
     (if Stream_GetRemainingLength s < 6 then Some ((False, w), s)
      else do {
        (pointerFlags, s) \<leftarrow> Stream_Read_UINT16 s;
        (xPos, s) \<leftarrow> Stream_Read_UINT16 s;
        (yPos, s) \<leftarrow> Stream_Read_UINT16 s;
        Some ((True, cb_MouseEvent I pointerFlags xPos yPos w), s) })"

definition fastpath_recv_input_event_mousex :: "'w inputs \<Rightarrow> int \<Rightarrow> 'w \<Rightarrow> wStream \<Rightarrow> ((bool \<times> 'w) \<times> wStream) option" where
  "fastpath_recv_input_event_mousex I eventFlags w s =
     (if Stream_GetRemainingLength s < 6 then Some ((False, w), s)
      else do {
        (pointerFlags, s) \<leftarrow> Stream_Read_UINT16 s;
        (xPos, s) \<leftarrow> Stream_Read_UINT16 s;
        (yPos, s) \<leftarrow> Stream_Read_UINT16 s;
        Some ((True, cb_ExtendedMouseEvent I pointerFlags xPos yPos w), s) })"

definition fastpath_recv_input_event_sync :: "'w inputs \<Rightarrow> int \<Rightarrow> 'w \<Rightarrow> wStream \<Rightarrow> ((bool \<times> 'w) \<times> wStream) option" where
  "fastpath_recv_input_event_sync I eventFlags w s = Some ((True, cb_SynchronizeEvent I eventFlags w), s)"

definition fastpath_recv_input_event_unicode :: "'w inputs \<Rightarrow> int \<Rightarrow> 'w \<Rightarrow> wStream \<Rightarrow> ((bool \<times> 'w) \<times> wStream) option" where
  "fastpath_recv_input_event_unicode I eventFlags w s =
     (if Stream_GetRemainingLength s < 2 then Some ((False, w), s)
      else do {
        (unicodeCode, s) \<leftarrow> Stream_Read_UINT16 s;
        Some ((True, cb_UnicodeKeyboardEvent I (kbd_flags eventFlags) unicodeCode w), s) })"

definition fastpath_recv_input_event :: "'w inputs \<Rightarrow> 'w \<Rightarrow> wStream \<Rightarrow> ((bool \<times> 'w) \<times> wStream) option" where
  "fastpath_recv_input_event I w s = do {
     (h, s) \<leftarrow> fastpath_read_input_event_header s;
     case h of None \<Rightarrow> Some ((False, w), s)
     | Some h \<Rightarrow> (case h of (eventFlags, eventCode) \<Rightarrow>
         if eventCode = FASTPATH_INPUT_EVENT_SCANCODE then fastpath_recv_input_event_scancode I eventFlags w s
         else if eventCode = FASTPATH_INPUT_EVENT_MOUSE then fastpath_recv_input_event_mouse I eventFlags w s
         else if eventCode = FASTPATH_INPUT_EVENT_MOUSEX then fastpath_recv_input_event_mousex I eventFlags w s
         else if eventCode = FASTPATH_INPUT_EVENT_SYNC then fastpath_recv_input_event_sync I eventFlags w s
         else if eventCode = FASTPATH_INPUT_EVENT_UNICODE then fastpath_recv_input_event_unicode I eventFlags w s
         else Some ((True, w), s)) }"

fun recv_inputs_loop :: "'w inputs \<Rightarrow> nat \<Rightarrow> 'w \<Rightarrow> wStream \<Rightarrow> ((bool \<times> 'w) \<times> wStream) option" where
  "recv_inputs_loop I 0 w s = Some ((True, w), s)"
| "recv_inputs_loop I (Suc n) w s = do {
     ((ok, w), s) \<leftarrow> fastpath_recv_input_event I w s;
     if \<not> ok then Some ((False, w), s) else recv_inputs_loop I n w s }"

definition fastpath_recv_inputs :: "('w, 'n, 'x) session \<Rightarrow> ('w, 'n, 'x) rdpRdp \<Rightarrow> wStream \<Rightarrow>
    ((int \<times> ('w, 'n, 'x) rdpRdp) \<times> wStream) option" where
  "fastpath_recv_inputs E rdp s = do {
     (r, s) \<leftarrow>
       (if fp_numberEvents rdp = 0 then
          if Stream_GetRemainingLength s < 1 then Some (None, s)
          else do { (n, s) \<leftarrow> Stream_Read_UINT8 s; Some (Some (rdp\<lparr>fp_numberEvents := n\<rparr>), s) }
        else Some (Some rdp, s));
     case r of None \<Rightarrow> Some ((- 1, rdp), s)
     | Some rdp \<Rightarrow> do {
         ((ok, w), s) \<leftarrow> recv_inputs_loop (se_inputs E) (nat (fp_numberEvents rdp)) (rdp_world rdp) s;
         Some ((as_status ok, rdp_set_world w rdp), s) } }"

section \<open>Sending input\<close>

definition fastpath_get_sec_bytes :: "('w, 'n, 'x) rdpRdp \<Rightarrow> int" where
  "fastpath_get_sec_bytes rdp =
     (if rdp_do_crypt rdp then 8 + (if set_EncryptionMethods (rdp_settings rdp) = ENCRYPTION_METHOD_FIPS then 4 else 0) else 0)"

text \<open>The flags with which the next PDU is sent.\<close>

definition rdp_raise_sec_flags :: "('w, 'n, 'x) rdpRdp \<Rightarrow> ('w, 'n, 'x) rdpRdp" where
  "rdp_raise_sec_flags rdp =
     (if rdp_do_crypt rdp
      then rdp\<lparr>rdp_sec_flags := rdp_sec_flags rdp OR SEC_ENCRYPT OR (if rdp_do_secure_checksum rdp then SEC_SECURE_CHECKSUM else 0)\<rparr>
      else rdp)"

definition transport_send_stream_init :: "('w, 'n, 'x) session \<Rightarrow> int \<Rightarrow> ('w, 'n, 'x) rdpRdp \<Rightarrow>
    (wStream option \<times> ('w, 'n, 'x) rdpRdp) option" where
  "transport_send_stream_init E sz rdp =
     (let (s, rdp) = take_stream E sz rdp
      in case s of None \<Rightarrow> Some (None, rdp)
         | Some s \<Rightarrow> do {
             let (mem, w) = net_malloc (se_net E) sz (rdp_world rdp);
             let rdp = rdp_set_world w rdp;
             (ok, s) \<leftarrow> Stream_EnsureCapacity mem s sz;
             if \<not> ok then Some (None, release_stream E s rdp)
             else do { s \<leftarrow> Stream_SetPosition s 0; Some (Some s, rdp) } })"

text \<open>Without a stream the code uses the null pointer.\<close>

definition fastpath_input_pdu_init_header :: "('w, 'n, 'x) session \<Rightarrow> ('w, 'n, 'x) rdpRdp \<Rightarrow> (wStream \<times> ('w, 'n, 'x) rdpRdp) option" where
  "fastpath_input_pdu_init_header E rdp = do {
     (s, rdp) \<leftarrow> transport_send_stream_init E 256 rdp;
     s \<leftarrow> s;
     s \<leftarrow> Stream_Seek s 3;
     let rdp = rdp_raise_sec_flags rdp;
     s \<leftarrow> Stream_Seek s (fastpath_get_sec_bytes rdp);
     Some (s, rdp) }"

definition fastpath_input_pdu_init :: "('w, 'n, 'x) session \<Rightarrow> int \<Rightarrow> int \<Rightarrow> ('w, 'n, 'x) rdpRdp \<Rightarrow> (wStream \<times> ('w, 'n, 'x) rdpRdp) option" where
  "fastpath_input_pdu_init E eventFlags eventCode rdp = do {
     (s, rdp) \<leftarrow> fastpath_input_pdu_init_header E rdp;
     s \<leftarrow> Stream_Write_UINT8 s (eventFlags OR push_bit 5 eventCode);
     Some (s, rdp) }"

text \<open>
  Signing and encrypting \<open>n\<close> bytes of a stream in place, from the index \<open>data\<close> on: the signature, of the first
  \<open>n - pad\<close> of them, goes to the index \<open>sig\<close>.
\<close>

definition seal_bytes :: "('w, 'n, 'x) session \<Rightarrow> bool \<Rightarrow> bool \<Rightarrow> int \<Rightarrow> int \<Rightarrow> int \<Rightarrow> int \<Rightarrow> wStream \<Rightarrow> 'w \<Rightarrow> (wStream \<times> 'w) option" where
  "seal_bytes E fips salted data n pad sig s w = do {
     plain \<leftarrow> ablock (s_buffer s) data n;
     signed \<leftarrow> ablock (s_buffer s) data (n - pad);
     let S = se_security E;
     let (mac, w) = (if fips then security_hmac_signature S signed w
       else if salted then security_salted_mac_signature S signed True w
       else security_mac_signature S signed w);
     buf \<leftarrow> ablit (s_buffer s) sig mac;
     let (cipher, w) = (if fips then security_fips_encrypt S plain w else security_encrypt S plain w);
     buf \<leftarrow> ablit buf data cipher;
     Some (s\<lparr>s_buffer := buf\<rparr>, w) }"

definition fastpath_send_multiple_input_pdu :: "('w, 'n, 'x) session \<Rightarrow> ('w, 'n, 'x) rdpRdp \<Rightarrow> wStream \<Rightarrow> int \<Rightarrow>
    (bool \<times> ('w, 'n, 'x) rdpRdp \<times> wStream) option" where
  "fastpath_send_multiple_input_pdu E rdp s iNumEvents =
     (if 15 < iNumEvents then Some (False, rdp, s)
      else do {
        let len = u16 (s_pos s);
        if 32768 \<le> len then Some (False, rdp, s)
        else do {
          let encrypt = (rdp_sec_flags rdp AND SEC_ENCRYPT \<noteq> 0);
          let salted = (rdp_sec_flags rdp AND SEC_SECURE_CHECKSUM \<noteq> 0);
          let fips = (set_EncryptionMethods (rdp_settings rdp) = ENCRYPTION_METHOD_FIPS);
          let eventHeader = push_bit 2 iNumEvents OR (if encrypt then push_bit 6 FASTPATH_ENCRYPTED else 0)
            OR (if salted then push_bit 6 FASTPATH_SECURE_CHECKSUM else 0);
          s \<leftarrow> Stream_SetPosition s 0;
          s \<leftarrow> Stream_Write_UINT8 s eventHeader;
          s \<leftarrow> Stream_Seek s 2;
          (len, rdp, s) \<leftarrow>
            (if encrypt then do {
               let sec_bytes = fastpath_get_sec_bytes rdp;
               let fpInputEvents = s_pos s + sec_bytes;
               let n = u16 (len - 3 - sec_bytes);
               if fips then do {
                 let pad = (if 8 - n mod 8 = 8 then 0 else 8 - n mod 8);
                 s \<leftarrow> Stream_Write_UINT16 s 0x10;
                 s \<leftarrow> Stream_Write_UINT8 s 0x1;
                 s \<leftarrow> Stream_Write_UINT8 s pad;
                 buf \<leftarrow> (if pad \<noteq> 0 then afill (s_buffer s) (fpInputEvents + n) pad 0 else Some (s_buffer s));
                 (s, w) \<leftarrow> seal_bytes E True salted fpInputEvents (n + pad) pad (s_pos s) (s\<lparr>s_buffer := buf\<rparr>) (rdp_world rdp);
                 Some (u16 (len + pad), rdp_set_world w rdp, s) }
               else do {
                 (s, w) \<leftarrow> seal_bytes E False salted fpInputEvents n 0 (s_pos s) s (rdp_world rdp);
                 Some (len, rdp_set_world w rdp, s) } }
             else Some (len, rdp, s));
          let rdp = rdp\<lparr>rdp_sec_flags := 0\<rparr>;
          s \<leftarrow> Stream_SetPosition s 1;
          s \<leftarrow> Stream_Write_UINT16_BE s (0x8000 OR len);
          s \<leftarrow> Stream_SetPosition s len;
          let s = Stream_SealLength s;
          (status, t, s) \<leftarrow> transport_write (se_net E) (rdp_transport rdp) s;
          Some (0 \<le> status, rdp\<lparr>rdp_transport := t\<rparr>, s) } })"

definition fastpath_send_input_pdu :: "('w, 'n, 'x) session \<Rightarrow> ('w, 'n, 'x) rdpRdp \<Rightarrow> wStream \<Rightarrow>
    (bool \<times> ('w, 'n, 'x) rdpRdp \<times> wStream) option" where
  "fastpath_send_input_pdu E rdp s = fastpath_send_multiple_input_pdu E rdp s 1"

section \<open>Sending updates\<close>

definition fastpath_update_pdu_init :: "('w, 'n, 'x) session \<Rightarrow> ('w, 'n, 'x) rdpRdp \<Rightarrow> (wStream option \<times> ('w, 'n, 'x) rdpRdp) option" where
  "fastpath_update_pdu_init E rdp = transport_send_stream_init E FASTPATH_MAX_PACKET_SIZE rdp"

definition fastpath_update_pdu_init_new :: "bool \<Rightarrow> byte fresh \<Rightarrow> wStream option" where
  "fastpath_update_pdu_init_new mem memb = Stream_New mem memb None FASTPATH_MAX_PACKET_SIZE"

text \<open>The bytes of the update in one PDU.\<close>

definition fp_compress :: "('w, 'n, 'x) rdpRdp \<Rightarrow> bool \<Rightarrow> bool" where
  "fp_compress rdp skipCompression \<longleftrightarrow> set_CompressionEnabled (rdp_settings rdp) \<and> \<not> skipCompression"

definition fp_maxLength :: "('w, 'n, 'x) rdpRdp \<Rightarrow> bool \<Rightarrow> int \<times> ('w, 'n, 'x) rdpRdp" where
  "fp_maxLength rdp skipCompression =
     (let maxLength = FASTPATH_MAX_PACKET_SIZE - 20
      in if fp_compress rdp skipCompression then
           let bulk = bulk_compression_max_size (rdp_bulk rdp);
               maxLength = u16 (if maxLength < CompressionMaxSize bulk then maxLength else CompressionMaxSize bulk)
           in (u16 (maxLength - 20), rdp\<lparr>rdp_bulk := bulk\<rparr>)
         else (maxLength, rdp))"

text \<open>
  One round of the loop: the fragment of \<open>SrcSize\<close> bytes at the pointer of \<open>s\<close> is compressed, put behind its headers into \<open>fs\<close>,
  sealed and written; \<open>rest\<close> bytes of the update follow it. The result is the status of the write.
\<close>

definition fastpath_send_fragment :: "('w, 'n, 'x) session \<Rightarrow> int \<Rightarrow> bool \<Rightarrow> bool \<Rightarrow> int \<Rightarrow> int \<Rightarrow> wStream \<Rightarrow> ('w, 'n, 'x) rdpRdp \<Rightarrow>
    (int \<times> ('w, 'n, 'x) rdpRdp) option" where
  "fastpath_send_fragment E updateCode skipCompression first SrcSize rest s rdp = do {
     let encrypt = (rdp_sec_flags rdp AND SEC_ENCRYPT \<noteq> 0);
     let salted = (rdp_sec_flags rdp AND SEC_SECURE_CHECKSUM \<noteq> 0);
     let fips = (set_EncryptionMethods (rdp_settings rdp) = ENCRYPTION_METHOD_FIPS);
     let ph = \<lparr>ph_fpOutputHeader = 0, ph_fipsInformation = replicate 4 0, ph_dataSignature = replicate 8 0, ph_action = 0,
       ph_secFlags = (if encrypt then FASTPATH_ENCRYPTED else 0) OR (if salted then FASTPATH_SECURE_CHECKSUM else 0), ph_length = 0\<rparr>;
     let uh = \<lparr>uh_updateHeader = 0, uh_compressionFlags = 0, uh_size = SrcSize, uh_updateCode = updateCode, uh_fragmentation = 0,
       uh_compression = 0\<rparr>;
     pSrcData \<leftarrow> ablock (s_buffer s) (s_pos s) SrcSize;
     (pDstData, uh, rdp) \<leftarrow>
       (if fp_compress rdp skipCompression then do {
          let (before, OutputBuffer) = se_bulk_memory E (rdp_world rdp);
          (status, out, compressionFlags, bulk) \<leftarrow>
            bulk_compress (se_ncrush E) (se_xcrush E) before OutputBuffer (rdp_bulk rdp) pSrcData SrcSize 0;
          let rdp = rdp\<lparr>rdp_bulk := bulk\<rparr>;
          if 0 \<le> status \<and> compressionFlags \<noteq> 0 then do {
            out \<leftarrow> out;
            Some (out, uh\<lparr>uh_compressionFlags := u8 compressionFlags, uh_compression := FASTPATH_OUTPUT_COMPRESSION_USED\<rparr>, rdp) }
          else Some (pSrcData, uh, rdp) }
        else Some (pSrcData, uh, rdp));
     let DstSize = int (length pDstData);
     let uh = uh\<lparr>uh_size := u16 DstSize,
       uh_fragmentation := (if rest = 0 then (if first then FASTPATH_FRAGMENT_SINGLE else FASTPATH_FRAGMENT_LAST)
         else (if first then FASTPATH_FRAGMENT_FIRST else FASTPATH_FRAGMENT_NEXT))\<rparr>;
     let fpUpdateHeaderSize = fastpath_get_update_header_size uh;
     let fpUpdatePduHeaderSize = fastpath_get_update_pdu_header_size ph rdp;
     let fpHeaderSize = fpUpdateHeaderSize + fpUpdatePduHeaderSize;
     let pad = (if encrypt \<and> fips then (let p = 8 - (DstSize + fpUpdateHeaderSize) mod 8 in if p = 8 then 0 else p) else 0);
     let ph = (if encrypt \<and> fips then ph\<lparr>ph_fipsInformation := [0x10, 0, 1, word_of_int pad]\<rparr> else ph);
     let ph = ph\<lparr>ph_length := u16 (uh_size uh + fpHeaderSize + pad)\<rparr>;
     fs \<leftarrow> Stream_SetPosition (fp_fs rdp) 0;
     (ph, fs) \<leftarrow> fastpath_write_update_pdu_header fs ph rdp;
     (uh, fs) \<leftarrow> fastpath_write_update_header fs uh;
     fs \<leftarrow> Stream_Write fs pDstData;
     fs \<leftarrow> (if pad \<noteq> 0 then Stream_Zero fs pad else Some fs);
     (fs, w) \<leftarrow>
       (if encrypt then do {
          let dataSize = fpUpdateHeaderSize + DstSize + pad;
          seal_bytes E fips salted (s_pos fs - dataSize) dataSize pad (if fips then 7 else 3) fs (rdp_world rdp) }
        else Some (fs, rdp_world rdp));
     let fs = Stream_SealLength fs;
     let rdp = rdp_set_world w rdp;
     (status, t, fs) \<leftarrow> transport_write (se_net E) (rdp_transport rdp) fs;
     Some (status, rdp\<lparr>rdp_transport := t, fp_fs := fs\<rparr>) }"

partial_function (option) send_update_loop :: "('w, 'n, 'x) session \<Rightarrow> int \<Rightarrow> bool \<Rightarrow> int \<Rightarrow> bool \<Rightarrow> int \<Rightarrow> wStream \<Rightarrow> ('w, 'n, 'x) rdpRdp \<Rightarrow>
    (bool \<times> ('w, 'n, 'x) rdpRdp \<times> wStream) option" where
  "send_update_loop E updateCode skipCompression maxLength first totalLength s rdp =
     (if 0 < totalLength \<or> first then do {
        let SrcSize = (if maxLength < totalLength then maxLength else totalLength);
        (status, rdp) \<leftarrow> fastpath_send_fragment E updateCode skipCompression first SrcSize (totalLength - SrcSize) s rdp;
        if status < 0 then Some (False, rdp, s)
        else do {
          s \<leftarrow> Stream_Seek s SrcSize;
          send_update_loop E updateCode skipCompression maxLength False (totalLength - SrcSize) s rdp } }
      else Some (True, rdp, s))"

definition fastpath_send_update_pdu :: "('w, 'n, 'x) session \<Rightarrow> ('w, 'n, 'x) rdpRdp \<Rightarrow> int \<Rightarrow> wStream \<Rightarrow> bool \<Rightarrow>
    (bool \<times> ('w, 'n, 'x) rdpRdp \<times> wStream) option" where
  "fastpath_send_update_pdu E rdp updateCode s skipCompression = do {
     let (maxLength, rdp) = fp_maxLength rdp skipCompression;
     let totalLength = s_pos s mod 4294967296;
     s \<leftarrow> Stream_SetPosition s 0;
     if \<not> set_FastPathOutput (rdp_settings rdp) then Some (False, rdp, s)
     else if set_MultifragMaxRequestSize (rdp_settings rdp) < totalLength then Some (False, rdp, s)
     else do {
       (ok, rdp, s) \<leftarrow> send_update_loop E updateCode skipCompression maxLength True totalLength s (rdp_raise_sec_flags rdp);
       Some (ok, rdp\<lparr>rdp_sec_flags := 0\<rparr>, s) } }"

section \<open>Creation\<close>

text \<open>The stream \<open>fs\<close> of a new fast path; \<open>None\<close> where an allocation fails, and whether the struct is then freed.\<close>

definition fastpath_new :: "bool \<Rightarrow> bool \<Rightarrow> byte fresh \<Rightarrow> ('w, 'n, 'x) rdpRdp \<Rightarrow> ('w, 'n, 'x) rdpRdp option" where
  "fastpath_new mem memS memB rdp =
     (if \<not> mem then None
      else do {
        fs \<leftarrow> Stream_New memS memB None FASTPATH_MAX_PACKET_SIZE;
        Some (rdp\<lparr>fp_fs := fs, fp_encryptionFlags := 0, fp_numberEvents := 0, fp_updateData := None, fp_fragmentation := - 1\<rparr>) })"

end
