(* ===== verification/WRdp.thy ===== *)
theory WRdp
  imports WFastpath
begin

text \<open>
  The RDP layer of \<open>libfreerdp/core/rdp.c\<close>: what a connection does with a unit that the transport delivers. The
  fast-path input of the server in \<open>peer.c\<close> stands beside its client counterpart.
\<close>

section \<open>Decryption and the fast path\<close>

text \<open>Deciphering \<open>n\<close> bytes in place.\<close>

definition decipher :: "(byte list \<Rightarrow> 'w \<Rightarrow> bool \<times> byte list \<times> 'w) \<Rightarrow> int \<Rightarrow> wStream \<Rightarrow> 'w \<Rightarrow> (bool \<times> wStream \<times> 'w) option" where
  "decipher f n s w = do {
     cipher \<leftarrow> ablock (s_buffer s) (s_pos s) n;
     let (ok, plain, w) = f cipher w;
     buf \<leftarrow> ablit (s_buffer s) (s_pos s) plain;
     Some (ok, s\<lparr>s_buffer := buf\<rparr>, w) }"

text \<open>A wrong signature is refused under FIPS and only reported otherwise.\<close>

definition rdp_decrypt :: "('w, 'n, 'x) session \<Rightarrow> ('w, 'n, 'x) rdpRdp \<Rightarrow> wStream \<Rightarrow> int \<Rightarrow> int \<Rightarrow>
    ((bool \<times> ('w, 'n, 'x) rdpRdp) \<times> wStream) option" where
  "rdp_decrypt E rdp s len securityFlags =
     (let S = se_security E in
      if set_EncryptionMethods (rdp_settings rdp) = ENCRYPTION_METHOD_FIPS then
        if Stream_GetRemainingLength s < 12 then Some ((False, rdp), s)
        else do {
          (_, s) \<leftarrow> Stream_Read_UINT16 s;
          (version, s) \<leftarrow> Stream_Read_UINT8 s;
          (pad, s) \<leftarrow> Stream_Read_UINT8 s;
          (sig, s) \<leftarrow> Stream_Read s 8;
          let len = len - 12;
          (ok, s, w) \<leftarrow> decipher (security_fips_decrypt S) len s (rdp_world rdp);
          let rdp = rdp_set_world w rdp;
          if \<not> ok then Some ((False, rdp), s)
          else do {
            signed \<leftarrow> ablock (s_buffer s) (s_pos s) (len - pad);
            let (ok, w) = security_fips_check_signature S signed sig (rdp_world rdp);
            let rdp = rdp_set_world w rdp;
            if \<not> ok then Some ((False, rdp), s)
            else Some ((True, rdp), s\<lparr>s_length := csize (s_length s - pad)\<rparr>) } }
      else if Stream_GetRemainingLength s < 8 then Some ((False, rdp), s)
      else do {
        (wmac, s) \<leftarrow> Stream_Read s 8;
        let len = len - 8;
        (ok, s, w) \<leftarrow> decipher (security_decrypt S) len s (rdp_world rdp);
        let rdp = rdp_set_world w rdp;
        if \<not> ok then Some ((False, rdp), s)
        else do {
          signed \<leftarrow> ablock (s_buffer s) (s_pos s) len;
          let (cmac, w) = (if securityFlags AND SEC_SECURE_CHECKSUM \<noteq> 0 then security_salted_mac_signature S signed False (rdp_world rdp)
            else security_mac_signature S signed (rdp_world rdp));
          Some ((True, rdp_set_world w rdp), s) } })"

definition rdp_recv_fastpath_pdu :: "('w, 'n, 'x) session \<Rightarrow> ('w, 'n, 'x) rdpRdp \<Rightarrow> wStream \<Rightarrow>
    ((int \<times> ('w, 'n, 'x) rdpRdp) \<times> wStream) option" where
  "rdp_recv_fastpath_pdu E rdp s = do {
     ((len, r), s) \<leftarrow> fastpath_read_header_rdp (Some rdp) s;
     rdp \<leftarrow> r;
     case len of None \<Rightarrow> Some ((- 1, rdp), s)
     | Some len \<Rightarrow>
         if len = 0 \<or> Stream_GetRemainingLength s < len then Some ((- 1, rdp), s)
         else do {
           let rdp = (if rdp_bandwidthMeasureStarted rdp
             then rdp\<lparr>rdp_bandwidthMeasureByteCount := (rdp_bandwidthMeasureByteCount rdp + len) mod 4294967296\<rparr> else rdp);
           ((ok, rdp), s) \<leftarrow>
             (if fp_encryptionFlags rdp AND FASTPATH_ENCRYPTED \<noteq> 0
              then rdp_decrypt E rdp s len (if fp_encryptionFlags rdp AND FASTPATH_SECURE_CHECKSUM \<noteq> 0 then SEC_SECURE_CHECKSUM else 0)
              else Some ((True, rdp), s));
           if \<not> ok then Some ((- 1, rdp), s) else fastpath_recv_updates E rdp s } }"

text \<open>The server does not look at the result of the header: a length that was not read is used uninitialised.\<close>

definition peer_recv_fastpath_pdu :: "('w, 'n, 'x) session \<Rightarrow> ('w, 'n, 'x) rdpRdp \<Rightarrow> wStream \<Rightarrow>
    ((int \<times> ('w, 'n, 'x) rdpRdp) \<times> wStream) option" where
  "peer_recv_fastpath_pdu E rdp s = do {
     ((len, r), s) \<leftarrow> fastpath_read_header_rdp (Some rdp) s;
     rdp \<leftarrow> r;
     len \<leftarrow> len;
     if len = 0 \<or> Stream_GetRemainingLength s < len then Some ((- 1, rdp), s)
     else do {
       ((ok, rdp), s) \<leftarrow>
         (if fp_encryptionFlags rdp AND FASTPATH_ENCRYPTED \<noteq> 0
          then rdp_decrypt E rdp s len (if fp_encryptionFlags rdp AND FASTPATH_SECURE_CHECKSUM \<noteq> 0 then SEC_SECURE_CHECKSUM else 0)
          else Some ((True, rdp), s));
       if \<not> ok then Some ((- 1, rdp), s) else fastpath_recv_inputs E rdp s } }"

end
