(* ===== verification/FastpathLink.thy ===== *)
theory FastpathLink
  imports WRdp UpdateSafety WFraming
begin

text \<open>
  What the server sends through \<open>fastpath_send_update_pdu\<close> reaches the client's handler: an update is cut into fragments,
  each compressed, put into a unit of its own, written, deciphered by \<open>rdp_recv_fastpath_pdu\<close> and put together again.
\<close>

section \<open>A network that takes every byte\<close>

text \<open>A write of \<open>BIO\<close> takes some of the bytes, and it never has to wait.\<close>

definition bio_progress :: "'w net \<Rightarrow> ('w \<Rightarrow> byte list) \<Rightarrow> bool" where
  "bio_progress net sent \<longleftrightarrow> (\<forall>bs w. bs \<noteq> [] \<longrightarrow> (\<exists>k w'. BIO_write net bs w = (int k, w') \<and> 0 < k \<and> k \<le> length bs
     \<and> sent w' = sent w @ take k bs \<and> \<not> BIO_write_blocked net w'))"

lemma bio_progressE:
  assumes "bio_progress net sent" "bs \<noteq> []"
  obtains k w' where "BIO_write net bs w = (int k, w')" "0 < k" "k \<le> length bs" "sent w' = sent w @ take k bs" "\<not> BIO_write_blocked net w'"
  using assms unfolding bio_progress_def by blast

lemma write_loop_all:
  assumes "bio_progress net sent" "0 \<le> s_pos s" "s_pos s + int n \<le> int (length (s_buffer s))" "0 < n \<or> 0 < st"
  shows "\<exists>st' w. transport_write_loop net t s (int n) st = Some (Inr st', t\<lparr>tp_net := w\<rparr>, s\<lparr>s_pos := s_pos s + int n\<rparr>)
    \<and> 0 < st' \<and> sent w = sent (tp_net t) @ take n (drop (nat (s_pos s)) (s_buffer s))"
  using assms(2-)
proof (induction n arbitrary: t s st rule: less_induct)
  case (less n)
  show ?case
  proof (cases "n = 0")
    case True
    with less.prems show ?thesis by (intro exI [of _ st] exI [of _ "tp_net t"]) (simp add: transport_write_loop.simps)
  next
    case False
    define bs where "bs = take n (drop (nat (s_pos s)) (s_buffer s))"
    have bs: "ablock (s_buffer s) (s_pos s) (int n) = Some bs" "length bs = n" "bs \<noteq> []"
      using less.prems False by (auto simp: ablock_def bs_def)
    obtain k w where k: "BIO_write net bs (tp_net t) = (int k, w)" "0 < k" "k \<le> n" "sent w = sent (tp_net t) @ take k bs" "\<not> BIO_write_blocked net w"
      using bio_progressE [OF assms(1) bs(3), of "tp_net t"] bs(2) by metis
    let ?s = "s\<lparr>s_pos := s_pos s + int k\<rparr>"
    have "\<exists>st' w'. transport_write_loop net (t\<lparr>tp_net := w\<rparr>) ?s (int (n - k)) (int k)
          = Some (Inr st', (t\<lparr>tp_net := w\<rparr>)\<lparr>tp_net := w'\<rparr>, ?s\<lparr>s_pos := s_pos ?s + int (n - k)\<rparr>)
        \<and> 0 < st' \<and> sent w' = sent (tp_net (t\<lparr>tp_net := w\<rparr>)) @ take (n - k) (drop (nat (s_pos ?s)) (s_buffer ?s))"
      using less.prems k False by (intro less.IH) simp_all
    then obtain st' w' where r: "transport_write_loop net (t\<lparr>tp_net := w\<rparr>) ?s (int n - int k) (int k)
          = Some (Inr st', t\<lparr>tp_net := w'\<rparr>, s\<lparr>s_pos := s_pos s + int n\<rparr>)" "0 < st'"
        "sent w' = sent w @ take (n - k) (drop (nat (s_pos s + int k)) (s_buffer s))"
      using k(3) by (auto simp: of_nat_diff)
    have f: "transport_flush_loop net w = Some (False, w)" using k(5) by (simp add: transport_flush_loop.simps)
    have sk: "Stream_Seek s (int k) = Some ?s" using less.prems k(3) by (simp add: Stream_Seek_def)
    have "take (n - k) (drop (nat (s_pos s + int k)) (s_buffer s)) = drop k bs"
      using less.prems(1) by (simp add: bs_def drop_take nat_add_distrib add.commute)
    then have "sent w' = sent (tp_net t) @ bs" using r(3) k(4) by simp
    moreover have "transport_write_loop net t s (int n) st = Some (Inr st', t\<lparr>tp_net := w'\<rparr>, s\<lparr>s_pos := s_pos s + int n\<rparr>)"
      using False k(2) by (subst transport_write_loop.simps) (simp add: bs(1) k(1) f sk r(1) Let_def)
    ultimately show ?thesis using r(2) by (auto simp: bs_def)
  qed
qed

text \<open>A whole stream is written, without a trace in the transport but the bytes that were sent.\<close>

lemma transport_write_all_sent:
  assumes "bio_progress net sent" "holds s p" "p \<noteq> []" "s_pool s = NULL" "tp_frontBio t"
  shows "\<exists>st w. transport_write net t s = Some (st, t\<lparr>tp_net := w\<rparr>, s) \<and> 0 \<le> st \<and> sent w = sent (tp_net t) @ p"
proof -
  let ?t = "t\<lparr>tp_WriteLock := tp_WriteLock t + 1\<rparr>"
  have p: "s_pos s = int (length p)" "take (length p) (s_buffer s) = p" "length p \<le> length (s_buffer s)" "int (length p) \<le> INT_MAX"
    using assms(2) by (simp_all add: holds_def)
  obtain st w where l: "transport_write_loop net ?t (s\<lparr>s_pos := 0\<rparr>) (int (length p)) (- 1)
      = Some (Inr st, ?t\<lparr>tp_net := w\<rparr>, s\<lparr>s_pos := int (length p)\<rparr>)" "0 < st" "sent w = sent (tp_net t) @ p"
    using write_loop_all [OF assms(1), of "s\<lparr>s_pos := 0\<rparr>" "length p" "- 1" ?t] p assms(3) by auto
  have "s\<lparr>s_pos := int (length p)\<rparr> = s" using p(1) by (cases s) simp
  moreover have "as_int (int (length p)) = int (length p)" using p(4) by (simp add: as_int_def)
  ultimately have "transport_write net t s = Some (st, t\<lparr>tp_net := w\<rparr>, s)"
    using l p assms(3-5) by (simp add: transport_write_def Let_def Stream_SetPosition_def)
  with l(2,3) show ?thesis by (intro exI [of _ st] exI [of _ w]) simp
qed

section \<open>The unit of one fragment\<close>

definition fp_header :: "int \<Rightarrow> int \<Rightarrow> bool \<Rightarrow> int" where
  "fp_header code frag compressed = code + 16 * frag + (if compressed then 128 else 0)"

definition fp_body :: "int \<Rightarrow> int \<Rightarrow> int \<Rightarrow> byte list \<Rightarrow> byte list" where
  "fp_body code frag flags data =
     word_of_int (fp_header code frag (flags \<noteq> 0)) # (if flags = 0 then [] else [word_of_int flags]) @ le16 (int (length data)) @ data"

definition fp_pdu :: "byte list \<Rightarrow> byte list" where
  "fp_pdu body = 0 # be16 (32768 + (int (length body) + 3)) @ body"

lemma and_low: "(x AND 15) = x mod (16::int)" "(x AND 3) = x mod (4::int)"
  using take_bit_eq_mask [of 4 x] take_bit_eq_mask [of 2 x] by (simp_all add: take_bit_eq_mod mask_eq_exp_minus_1)

lemma or_push: "0 \<le> b \<Longrightarrow> b < 2 ^ n \<Longrightarrow> (b OR push_bit n a) = b + a * 2 ^ n" for b :: int
proof -
  assume "0 \<le> b" "b < 2 ^ n"
  then have "take_bit n b = b" by (simp add: take_bit_int_eq_self)
  then have "b AND push_bit n a = take_bit n b AND push_bit n a" by simp
  also have "\<dots> = 0" by (rule bit_eqI) (auto simp: bit_simps)
  finally have "b + push_bit n a = b OR push_bit n a" by (rule disjunctive_add_eq_or)
  then show ?thesis by (simp add: push_bit_eq_mult)
qed

lemma fp_header_bits:
  assumes "0 \<le> code" "code < 16" "0 \<le> frag" "frag < 4"
  shows "u8 ((code AND 15) OR push_bit 4 (frag AND 3) OR push_bit 6 ((if c then 2 else 0) AND 3)) = fp_header code frag c"
    and "fp_header code frag c AND 15 = code" "drop_bit 4 (fp_header code frag c) AND 3 = frag"
    and "drop_bit 6 (fp_header code frag c) AND 3 = (if c then 2 else 0)" "fp_header code frag c mod 256 = fp_header code frag c"
proof -
  have low: "(code AND 15) = code" "(frag AND 3) = frag" "((if c then 2 else 0) AND 3) = (if c then 2 else (0 :: int))"
    using assms by (simp_all add: and_low)
  have top: "(code OR push_bit 4 frag) = code + frag * 16" using or_push [of code 4 frag] assms by simp
  have top': "((code + frag * 16) OR push_bit 6 (if c then 2 else 0)) = code + frag * 16 + (if c then 2 else 0) * 64"
    using or_push [of "code + frag * 16" 6 "if c then 2 else 0"] assms by simp
  have small: "0 \<le> fp_header code frag c" "fp_header code frag c < 256" using assms by (simp_all add: fp_header_def)
  then show "fp_header code frag c mod 256 = fp_header code frag c" by (rule mod_pos_pos_trivial)
  then show "u8 ((code AND 15) OR push_bit 4 (frag AND 3) OR push_bit 6 ((if c then 2 else 0) AND 3)) = fp_header code frag c"
    unfolding low or.assoc [symmetric] top top' u8_def by (cases c) (simp_all add: fp_header_def mult.commute)
  have d: "code div 16 = 0" "(code + 16 * frag) div 64 = 0" "frag mod 4 = frag" "code mod 16 = code"
    using assms by (auto intro: div_pos_pos_trivial mod_pos_pos_trivial)
  have e: "fp_header code frag c = code + 16 * (frag + 4 * (2 * of_bool c))" "fp_header code frag c = (code + 16 * frag) + 64 * (2 * of_bool c)"
    by (simp_all add: fp_header_def)
  have "fp_header code frag c mod 16 = code" unfolding e(1) by (simp only: mod_mult_self2 d)
  moreover have "fp_header code frag c div 16 mod 4 = frag" 
    unfolding e(1) by (subst div_mult_self2, simp) (simp only: mod_mult_self2 d add_0_right)
  moreover have "fp_header code frag c div 64 mod 4 = (if c then 2 else 0)" 
    unfolding e(2) by (subst div_mult_self2, simp) (simp only: d, simp)
  ultimately show "fp_header code frag c AND 15 = code" "drop_bit 4 (fp_header code frag c) AND 3 = frag"
    "drop_bit 6 (fp_header code frag c) AND 3 = (if c then 2 else 0)"
    by (simp_all add: and_low drop_bit_eq_div)
qed

section \<open>Sending one fragment\<close>

text \<open>A stream with room for a unit of the fast path.\<close>

definition fs_room :: "wStream \<Rightarrow> bool" where
  "fs_room s \<longleftrightarrow> (\<exists>p. holds s p) \<and> 16383 \<le> s_capacity s \<and> s_pool s = NULL"

text \<open>What the compressor of the sender makes of the bytes \<open>src\<close>: the bytes \<open>data\<close> with their flags.\<close>

definition fp_packed :: "('w, 'n, 'x) session \<Rightarrow> ('w, 'n, 'x) rdpRdp \<Rightarrow> bool \<Rightarrow> byte list \<Rightarrow> byte list \<Rightarrow> int \<Rightarrow> ('n, 'x) rdpBulk \<Rightarrow> bool" where
  "fp_packed E A skip src data flags bulk \<longleftrightarrow>
     (if fp_compress A skip then
        (\<exists>st. 0 \<le> st \<and> bulk_compress (se_ncrush E) (se_xcrush E) (fst (se_bulk_memory E (rdp_world A))) (snd (se_bulk_memory E (rdp_world A)))
           (rdp_bulk A) src (int (length src)) 0 = Some (st, Some data, flags, bulk)) \<and> 0 \<le> flags \<and> flags < 256 \<and> (flags = 0 \<longrightarrow> data = src)
      else data = src \<and> flags = 0 \<and> bulk = rdp_bulk A)"

definition fp_frag :: "bool \<Rightarrow> int \<Rightarrow> int" where
  "fp_frag first rest = (if rest = 0 then if first then 0 else 1 else if first then 2 else 3)"

lemma holds_rewound: "holds s p \<Longrightarrow> Stream_SetPosition s 0 = Some (s\<lparr>s_pos := 0\<rparr>) \<and> holds (s\<lparr>s_pos := 0\<rparr>) []"
  by (auto simp: holds_def Stream_SetPosition_def)

lemma be16_long: "0 \<le> n \<Longrightarrow> n < 32768 \<Longrightarrow> [word_of_int (0x80 OR drop_bit 8 n), word_of_int n] = be16 (32768 + n)"
proof -
  assume n: "0 \<le> n" "n < 32768"
  have h: "(32768 + n) div 256 = 128 + n div 256" "0 \<le> n div 256" "n div 256 < 128" using n by linarith+
  have "(n div 256 OR push_bit 7 1) = n div 256 + 128" using or_push [of "n div 256" 7 1] h by simp
  then have "(0x80 OR drop_bit 8 n) = 128 + n div 256" by (simp add: drop_bit_eq_div or.commute add.commute)
  moreover have "word_of_int (32768 + n) = (word_of_int n :: byte)" 
    using mod_mult_self2 [of n 256 128] by (intro word_of_int_eq_iff [THEN iffD2]) (simp add: take_bit_eq_mod add.commute)
  ultimately show ?thesis by (simp add: be16_def drop_bit_eq_div h(1))
qed

lemma write_pdu_header:
  assumes "ph_action h = 0" "ph_secFlags h = 0" "0 \<le> ph_length h" "ph_length h < 32768"
  shows "fastpath_write_update_pdu_header s h rdp
    = map_option (Pair (h\<lparr>ph_fpOutputHeader := 0\<rparr>)) (Stream_Write s (0 # be16 (32768 + ph_length h)))"
proof -
  have b: "be16 (32768 + ph_length h) = [word_of_int (128 OR drop_bit 8 (ph_length h)), word_of_int (ph_length h)]"
    using be16_long [OF assms(3,4)] by simp
  show ?thesis unfolding b using assms(1,2)
    by (simp add: fastpath_write_update_pdu_header_def Let_def emits u8_def write_merge map_option_case split: option.split bind_split)
qed

lemma write_header:
  assumes "0 \<le> uh_updateCode h" "uh_updateCode h < 16" "0 \<le> uh_fragmentation h" "uh_fragmentation h < 4"
    and "uh_compression h = (if uh_compressionFlags h \<noteq> 0 then 2 else 0)"
  shows "fastpath_write_update_header s h
    = map_option (Pair (h\<lparr>uh_updateHeader := fp_header (uh_updateCode h) (uh_fragmentation h) (uh_compressionFlags h \<noteq> 0)\<rparr>))
        (Stream_Write s (word_of_int (fp_header (uh_updateCode h) (uh_fragmentation h) (uh_compressionFlags h \<noteq> 0))
          # (if uh_compressionFlags h = 0 then [] else [word_of_int (uh_compressionFlags h)]) @ le16 (uh_size h)))"
  using fp_header_bits(1) [OF assms(1-4), of "uh_compressionFlags h \<noteq> 0"] assms(5)
  by (cases "uh_compressionFlags h = 0")
    (simp_all add: fastpath_write_update_header_def Let_def emits write_merge map_option_case split: option.split bind_split)

lemma send_fragment:
  assumes "bio_progress (se_net E) sent" "rdp_sec_flags A = 0" "fs_room (fp_fs A)" "tp_frontBio (rdp_transport A)"
    and "fp_packed E A skip src data flags bulk" "length data \<le> 16376" "ablock (s_buffer s) (s_pos s) (int (length src)) = Some src"
    and "0 \<le> code" "code < 16"
  shows "\<exists>st w fs. fastpath_send_fragment E code skip first (int (length src)) rest s A
      = Some (st, A\<lparr>rdp_bulk := bulk, rdp_transport := (rdp_transport A)\<lparr>tp_net := w\<rparr>, fp_fs := fs\<rparr>)
    \<and> 0 \<le> st \<and> sent w = sent (rdp_world A) @ fp_pdu (fp_body code (fp_frag first rest) flags data) \<and> fs_room fs"
proof -
  let ?frag = "fp_frag first rest" and ?body = "fp_body code (fp_frag first rest) flags data"
  let ?pdu = "fp_pdu ?body" and ?A = "A\<lparr>rdp_bulk := bulk\<rparr>"
  have frag: "0 \<le> ?frag" "?frag < 4" by (simp_all add: fp_frag_def)
  have len: "length ?body + 3 \<le> 16383" "length ?pdu = length ?body + 3" using assms(6) by (simp_all add: fp_body_def fp_pdu_def)
  obtain p where p: "holds (fp_fs A) p" "16383 \<le> s_capacity (fp_fs A)" "s_pool (fp_fs A) = NULL" using assms(3) by (auto simp: fs_room_def)
  obtain fs where fs: "Stream_Write ((fp_fs A)\<lparr>s_pos := 0\<rparr>) ?pdu = Some fs" "holds fs ?pdu" "s_capacity fs = s_capacity (fp_fs A)" "s_pool fs = NULL"
    using holds_write [of "(fp_fs A)\<lparr>s_pos := 0\<rparr>" "[]" ?pdu] holds_rewound [OF p(1)] p(2,3) len by auto
  have sealed: "holds (Stream_SealLength fs) ?pdu" "s_pool (Stream_SealLength fs) = NULL" using fs(2,4) by (auto simp: Stream_SealLength_def holds_def)
  obtain st w where w: "transport_write (se_net E) (rdp_transport A) (Stream_SealLength fs)
      = Some (st, (rdp_transport A)\<lparr>tp_net := w\<rparr>, Stream_SealLength fs)" "0 \<le> st" "sent w = sent (rdp_world A) @ ?pdu"
    using transport_write_all_sent [OF assms(1) sealed(1) _ sealed(2) assms(4)] by (auto simp: fp_pdu_def)
  have u: "u16 (int (length data)) = int (length data)" "u16 (int (length data) + (if flags = 0 then 6 else 7)) = int (length data) + (if flags = 0 then 6 else 7)"
    using assms(6) by (auto simp: u16_def)
  have f: "u8 flags = flags" "flags = 0 \<longrightarrow> data = src" using assms(5) by (auto simp: fp_packed_def u8_def split: if_splits)
  let ?h = "0 # be16 (32768 + (int (length ?body) + 3))" and ?b = "word_of_int (fp_header code ?frag (flags \<noteq> 0))
    # (if flags = 0 then [] else [word_of_int flags]) @ le16 (int (length data))"
  have pdu: "?pdu = (?h @ ?b) @ data" by (simp add: fp_pdu_def fp_body_def)
  obtain s1 s2 where ws: "Stream_Write ((fp_fs A)\<lparr>s_pos := 0\<rparr>) ?h = Some s1" "Stream_Write s1 ?b = Some s2" "Stream_Write s2 data = Some fs"
    using fs(1) unfolding pdu Stream_Write_append [symmetric] by (auto split: bind_splits)
  define uh where "uh = \<lparr>uh_updateHeader = 0, uh_compressionFlags = flags, uh_size = int (length data), uh_updateCode = code,
    uh_fragmentation = ?frag, uh_compression = (if flags \<noteq> 0 then 2 else 0)\<rparr>"
  define ph where "ph = \<lparr>ph_fpOutputHeader = 0, ph_fipsInformation = replicate 4 0, ph_dataSignature = replicate 8 (0 :: byte), ph_action = 0,
    ph_secFlags = 0, ph_length = int (length ?body) + 3\<rparr>"
  have w1: "fastpath_write_update_pdu_header ((fp_fs A)\<lparr>s_pos := 0\<rparr>) ph R = Some (ph, s1)" for R :: "('a, 'b, 'c) rdpRdp"
    using write_pdu_header [of ph _ R] len(1) ws(1) by (simp add: ph_def)
  have w2: "fastpath_write_update_header s1 uh = Some (uh\<lparr>uh_updateHeader := fp_header code ?frag (flags \<noteq> 0)\<rparr>, s2)"
    using write_header [of uh s1] assms(8,9) frag ws(2) by (simp add: uh_def split: if_splits)
  have n: "u16 (int (length data) + (fastpath_get_update_header_size uh + 3)) = int (length ?body) + 3"
    using assms(6) by (simp add: fp_body_def u16_def fastpath_get_update_header_size_def uh_def)
  let ?u = "\<lparr>uh_updateHeader = 0, uh_compressionFlags = 0, uh_size = int (length src), uh_updateCode = code, uh_fragmentation = 0, uh_compression = 0\<rparr>"
  have pack: "(if fp_compress A skip then
       (case se_bulk_memory E (rdp_world A) of (before, OutputBuffer) \<Rightarrow> do {
          (status, out, compressionFlags, bulk) \<leftarrow>
            bulk_compress (se_ncrush E) (se_xcrush E) before OutputBuffer (rdp_bulk A) src (int (length src)) 0;
          if 0 \<le> status \<and> compressionFlags \<noteq> 0 then do {
            out \<leftarrow> out;
            Some (out, ?u\<lparr>uh_compressionFlags := u8 compressionFlags, uh_compression := 2\<rparr>, A\<lparr>rdp_bulk := bulk\<rparr>) }
          else Some (src, ?u, A\<lparr>rdp_bulk := bulk\<rparr>) })
     else Some (src, ?u, A)) = Some (data, ?u\<lparr>uh_compressionFlags := flags, uh_compression := (if flags \<noteq> 0 then 2 else 0)\<rparr>, ?A)"
    using assms(5) f by (cases "se_bulk_memory E (rdp_world A)") (auto simp: fp_packed_def Let_def)
  have rw: "rdp_set_world (rdp_world A) ?A = ?A" by (simp add: rdp_set_world_def)
  have hdr: "fastpath_get_update_pdu_header_size
      \<lparr>ph_fpOutputHeader = 0, ph_fipsInformation = replicate 4 0, ph_dataSignature = replicate 8 0, ph_action = 0, ph_secFlags = 0, ph_length = 0\<rparr> ?A = 3"
    by (simp add: fastpath_get_update_pdu_header_size_def)
  have z: "(0 AND SEC_ENCRYPT \<noteq> 0) = False" "(0 AND SEC_SECURE_CHECKSUM \<noteq> 0) = False" by simp_all
  have "fastpath_send_fragment E code skip first (int (length src)) rest s A
      = Some (st, A\<lparr>rdp_bulk := bulk, rdp_transport := (rdp_transport A)\<lparr>tp_net := w\<rparr>, fp_fs := Stream_SealLength fs\<rparr>)"
    unfolding fastpath_send_fragment_def assms(2,7) z Let_def Option.bind.simps if_False pack fp_frag_def [symmetric]
    by (simp add: holds_rewound [OF p(1)] u(1) uh_def [symmetric] hdr n ph_def [symmetric] w1 w2 ws rw w(1) split del: if_split)
  moreover have "fs_room (Stream_SealLength fs)" using sealed fs(3) p(2) by (auto simp: fs_room_def Stream_SealLength_def)
  ultimately show ?thesis using w(2,3) by blast
qed

section \<open>Receiving one fragment\<close>

text \<open>
  The allocations of the client succeed, and what the application sees, \<open>app\<close>, does not depend on them. The capacity of a
  stream of the pool is at least the size that was asked for.
\<close>

definition pool_ready :: "'w net \<Rightarrow> ('w \<Rightarrow> 'h) \<Rightarrow> bool" where
  "pool_ready net app \<longleftrightarrow>
     (\<forall>n w. 0 < n \<longrightarrow> n \<le> 1073741823 \<longrightarrow> (\<exists>s w' p. StreamPool_Take net n w = (Some s, w') \<and> app w' = app w \<and> holds s p \<and> n \<le> s_capacity s)) \<and>
     (\<forall>n w. \<exists>j w'. net_malloc net n w = (Some j, w') \<and> app w' = app w) \<and> (\<forall>s w. app (Stream_Release net s w) = app w)"

lemma pool_readyE:
  assumes "pool_ready net app"
  shows "0 < n \<Longrightarrow> n \<le> 1073741823 \<Longrightarrow> \<exists>s w' p. StreamPool_Take net n w = (Some s, w') \<and> app w' = app w \<and> holds s p \<and> n \<le> s_capacity s"
    and "\<exists>j w'. net_malloc net n w = (Some j, w') \<and> app w' = app w" and "app (Stream_Release net s w) = app w"
  using assms unfolding pool_ready_def by blast+

text \<open>The handler of an update takes the bytes \<open>u\<close>, wherever they stand, from one state of the application to another.\<close>

definition delivers :: "'w updates \<Rightarrow> ('w \<Rightarrow> 'h) \<Rightarrow> int \<Rightarrow> byte list \<Rightarrow> 'h \<times> rdpUpdate \<Rightarrow> 'h \<times> rdpUpdate \<Rightarrow> bool" where
  "delivers U app code u hD hD' \<longleftrightarrow> (\<forall>w s. app w = fst hD \<longrightarrow> s_ok s \<longrightarrow> s_rest s = u \<longrightarrow>
     (\<exists>st w' n. fastpath_recv_update U code (int (length u)) (snd hD) w s = Some ((st, snd hD', w'), s_adv n s) \<and> 0 \<le> st \<and> app w' = fst hD'))"

text \<open>
  The client between two units: \<open>acc\<close> are the bytes of the update of which some fragments have arrived.
\<close>

definition recv_phase :: "('w \<Rightarrow> 'h) \<Rightarrow> rdpSettings \<Rightarrow> (('n, 'x) rdpBulk \<Rightarrow> bool) \<Rightarrow> 'h \<times> rdpUpdate \<Rightarrow> byte list option \<Rightarrow> ('w, 'n, 'x) rdpRdp \<Rightarrow> bool" where
  "recv_phase app S P hD acc B \<longleftrightarrow> app (rdp_world B) = fst hD \<and> rdp_update B = snd hD \<and> rdp_settings B = S \<and> P (rdp_bulk B)
     \<and> (case acc of None \<Rightarrow> fp_fragmentation B = - 1
        | Some u \<Rightarrow> (fp_fragmentation B = 2 \<or> fp_fragmentation B = 3) \<and> (\<exists>d. fp_updateData B = Some d \<and> holds d u))"

definition arrived :: "byte list option \<Rightarrow> byte list" where
  "arrived acc = (case acc of None \<Rightarrow> [] | Some u \<Rightarrow> u)"

lemma arrived_simps [simp]: "arrived None = []" "arrived (Some u) = u"
  by (simp_all add: arrived_def)

lemma rdp_set_world_simps [simp]:
  "rdp_world (rdp_set_world w B) = w" "rdp_update (rdp_set_world w B) = rdp_update B" "rdp_settings (rdp_set_world w B) = rdp_settings B"
  "rdp_bulk (rdp_set_world w B) = rdp_bulk B" "fp_fragmentation (rdp_set_world w B) = fp_fragmentation B"
  "fp_updateData (rdp_set_world w B) = fp_updateData B" "fp_encryptionFlags (rdp_set_world w B) = fp_encryptionFlags B"
  "rdp_bandwidthMeasureStarted (rdp_set_world w B) = rdp_bandwidthMeasureStarted B"
  by (simp_all add: rdp_set_world_def)

lemma copy_fragment:
  assumes "holds d u" "int (length u + length src) \<le> s_capacity d" "s_ok cs" "s_rest cs = src"
  shows "\<exists>d'. Stream_Copy d cs (int (length src)) = Some (d', cs\<lparr>s_pos := s_pos cs + int (length src)\<rparr>) \<and> holds d' (u @ src) \<and> s_capacity d' = s_capacity d"
  using holds_write [OF assms(1), of src] assms(2-4) ablock_rest [OF assms(3), of "int (length src)"] by (auto simp: Stream_Copy_def)

lemma append_fragment_step:
  assumes "pool_ready (se_net E) app" "fp_updateData B = Some d" "holds d u" "s_ok cs" "s_rest cs = src"
    and "int (length u + length src) \<le> set_MultifragMaxRequestSize (rdp_settings B)" "set_MultifragMaxRequestSize (rdp_settings B) \<le> 1073741823"
  shows "\<exists>w d'. append_fragment E (int (length src)) cs B
      = Some (True, int (length u + length src), s_adv (length src) cs, (rdp_set_world w B)\<lparr>fp_updateData := Some d'\<rparr>)
    \<and> app w = app (rdp_world B) \<and> holds d' (u @ src)"
proof -
  let ?n = "int (length u + length src)"
  obtain j w where w: "net_malloc (se_net E) ?n (rdp_world B) = (Some j, w)" "app w = app (rdp_world B)" using pool_readyE(2) [OF assms(1)] by blast
  obtain d1 where d1: "Stream_EnsureCapacity (Some j) d ?n = Some (True, d1)" "holds d1 u" "?n \<le> s_capacity d1"
    using ensure_total [OF assms(3), of ?n "Some j"] holds_ensure [OF assms(3), of ?n "Some j" True] assms(6,7) by auto
  obtain d2 where d2: "Stream_Copy d1 cs (int (length src)) = Some (d2, s_adv (length src) cs)" "holds d2 (u @ src)"
    using copy_fragment [OF d1(2,3) assms(4,5)] by (auto simp: s_adv_def)
  have pos: "(s_pos d + int (length src)) mod 4294967296 = ?n" using assms(3,6,7) by (simp add: holds_def)
  show ?thesis using assms(2,6) w d1(1) d2
    by (intro exI [of _ w] exI [of _ d2]) (simp add: append_fragment_def Let_def pos)
qed

text \<open>The handler, run on the state of the connection.\<close>

lemma handle_delivers:
  assumes "delivers U app code u hD hD'" "app (rdp_world B) = fst hD" "rdp_update B = snd hD" "s_ok s" "s_rest s = u"
  shows "\<exists>st w n. handle_update (fastpath_recv_update U code (int (length u))) B s
      = Some ((st, rdp_set_world w (B\<lparr>rdp_update := snd hD'\<rparr>)), s_adv n s) \<and> 0 \<le> st \<and> app w = fst hD'"
proof -
  obtain st w n where "fastpath_recv_update U code (int (length u)) (snd hD) (rdp_world B) s = Some ((st, snd hD', w), s_adv n s)" "0 \<le> st" "app w = fst hD'"
    using assms(1)[unfolded delivers_def] assms(2,4,5) by blast
  then show ?thesis using assms(3) by (intro exI conjI) (simp_all add: handle_update_def)
qed

lemma recv_fragment_single:
  assumes "recv_phase app S P hD None B" "s_ok cs" "s_rest cs = src" "delivers (se_updates E) app code src hD hD'"
  shows "\<exists>st B' n. recv_fragment E code 0 (int (length src)) B cs = Some ((st, B'), s_adv n cs) \<and> 0 \<le> st \<and> recv_phase app S P hD' None B'"
proof -
  obtain st w n where "handle_update (fastpath_recv_update (se_updates E) code (int (length src))) B cs
      = Some ((st, rdp_set_world w (B\<lparr>rdp_update := snd hD'\<rparr>)), s_adv n cs)" "0 \<le> st" "app w = fst hD'"
    using handle_delivers [OF assms(4) _ _ assms(2,3), of B] assms(1) by (auto simp: recv_phase_def)
  then show ?thesis using assms(1) by (intro exI conjI, simp add: recv_fragment_def recv_phase_def rdp_set_world_def) (simp_all add: recv_phase_def)
qed

lemma recv_fragment_first:
  assumes "pool_ready (se_net E) app" "recv_phase app S P hD None B" "s_ok cs" "s_rest cs = src" "src \<noteq> []"
    and "int (length src) \<le> set_MultifragMaxRequestSize S" "set_MultifragMaxRequestSize S \<le> 1073741823"
  shows "\<exists>B' n. recv_fragment E code 2 (int (length src)) B cs = Some ((0, B'), s_adv n cs) \<and> recv_phase app S P hD (Some src) B'"
proof -
  obtain d w p where d: "StreamPool_Take (se_net E) (int (length src)) (rdp_world B) = (Some d, w)" "app w = app (rdp_world B)"
      "holds d p" "int (length src) \<le> s_capacity d"
    using pool_readyE(1) [OF assms(1), of "int (length src)" "rdp_world B"] assms(5-7) by auto
  obtain d' where d': "Stream_Copy (d\<lparr>s_pos := 0\<rparr>) cs (int (length src)) = Some (d', s_adv (length src) cs)" "holds d' src"
    using copy_fragment [of "d\<lparr>s_pos := 0\<rparr>" "[]" src cs] holds_rewound [OF d(3)] d(4) assms(3,4) by (auto simp: s_adv_def)
  show ?thesis using assms(2,6) d d' holds_rewound [OF d(3)]
    by (intro exI conjI) (simp add: recv_fragment_def Let_def take_stream_def rdp_set_world_def recv_phase_def, simp add: recv_phase_def)
qed

lemma recv_fragment_next:
  assumes "pool_ready (se_net E) app" "recv_phase app S P hD (Some u) B" "s_ok cs" "s_rest cs = src"
    and "int (length u + length src) \<le> set_MultifragMaxRequestSize S" "set_MultifragMaxRequestSize S \<le> 1073741823"
  shows "\<exists>B' n. recv_fragment E code 3 (int (length src)) B cs = Some ((0, B'), s_adv n cs) \<and> recv_phase app S P hD (Some (u @ src)) B'"
proof -
  let ?B = "B\<lparr>fp_fragmentation := 3\<rparr>"
  obtain d where d: "fp_updateData ?B = Some d" "holds d u" using assms(2) by (auto simp: recv_phase_def)
  have "rdp_settings ?B = S" using assms(2) by (simp add: recv_phase_def)
  with assms(5,6) append_fragment_step [OF assms(1) d assms(3,4)] obtain w d' where
    "append_fragment E (int (length src)) cs ?B
      = Some (True, int (length u + length src), s_adv (length src) cs, (rdp_set_world w ?B)\<lparr>fp_updateData := Some d'\<rparr>)"
    "app w = app (rdp_world ?B)" "holds d' (u @ src)" by auto
  then show ?thesis using assms(2)
    by (intro exI conjI) (simp add: recv_fragment_def recv_phase_def as_status_def, auto simp: recv_phase_def)
qed

lemma recv_fragment_last:
  assumes "pool_ready (se_net E) app" "recv_phase app S P hD (Some u) B" "s_ok cs" "s_rest cs = src"
    and "int (length u + length src) \<le> set_MultifragMaxRequestSize S" "set_MultifragMaxRequestSize S \<le> 1073741823"
    and "delivers (se_updates E) app code (u @ src) hD hD'"
  shows "\<exists>st B' n. recv_fragment E code 1 (int (length src)) B cs = Some ((st, B'), s_adv n cs) \<and> 0 \<le> st \<and> recv_phase app S P hD' None B'"
proof -
  let ?B = "B\<lparr>fp_fragmentation := - 1\<rparr>"
  have fr: "(fp_fragmentation B \<noteq> 2 \<and> fp_fragmentation B \<noteq> 3) = False" using assms(2) by (auto simp: recv_phase_def)
  obtain d0 where d0: "fp_updateData ?B = Some d0" "holds d0 u" using assms(2) by (auto simp: recv_phase_def)
  have S: "rdp_settings ?B = S" using assms(2) by (simp add: recv_phase_def)
  with assms(5,6) append_fragment_step [OF assms(1) d0 assms(3,4)] obtain w1 d where
    w1: "append_fragment E (int (length src)) cs ?B
      = Some (True, int (length (u @ src)), s_adv (length src) cs, (rdp_set_world w1 ?B)\<lparr>fp_updateData := Some d\<rparr>)"
      "app w1 = app (rdp_world ?B)" "holds d (u @ src)" by auto
  define B1 where "B1 = (rdp_set_world w1 ?B)\<lparr>fp_updateData := Some d\<rparr>"
  have a: "append_fragment E (int (length src)) cs ?B = Some (True, int (length (u @ src)), s_adv (length src) cs, B1)"
      "fp_fragmentation B1 = - 1" "app (rdp_world B1) = fst hD" "rdp_update B1 = snd hD" "rdp_settings B1 = S" "P (rdp_bulk B1)"
      "fp_updateData B1 = Some d" "holds d (u @ src)"
    using assms(2) w1 by (auto simp: B1_def recv_phase_def rdp_set_world_def)
  let ?d = "d\<lparr>s_pos := 0, s_length := int (length (u @ src))\<rparr>"
  have "csize (s_pos d) = int (length (u @ src))" "0 \<le> int (length (s_buffer d))"
    using a(8) by (simp_all add: holds_def csize_def)
  then have sp: "Stream_SetPosition (Stream_SealLength d) 0 = Some ?d" by (simp add: Stream_SetPosition_def Stream_SealLength_def)
  obtain st w n where h: "handle_update (fastpath_recv_update (se_updates E) code (int (length (u @ src)))) B1 ?d
      = Some ((st, rdp_set_world w (B1\<lparr>rdp_update := snd hD'\<rparr>)), s_adv n ?d)" "0 \<le> st" "app w = fst hD'"
    using handle_delivers [OF assms(7) a(3,4)] holds_reading [OF a(8)] by blast
  define B2 where "B2 = (release_stream E (s_adv n ?d) (rdp_set_world w (B1\<lparr>rdp_update := snd hD'\<rparr>)))\<lparr>fp_updateData := None\<rparr>"
  have "recv_phase app S P hD' None B2"
    using a(2,5,6) h(3) pool_readyE(3) [OF assms(1)] by (simp add: B2_def recv_phase_def release_stream_def rdp_set_world_def)
  moreover have "recv_fragment E code 1 (int (length src)) B cs = Some ((st, B2), s_adv (length src) cs)"
    unfolding recv_fragment_def fr using a(1,7) h(1) sp by (simp add: B2_def)
  ultimately show ?thesis using h(2) by blast
qed

text \<open>The four cases together: the fragment \<open>src\<close> of an update of which \<open>rest\<close> bytes are still to come.\<close>

lemma recv_fragment_step:
  assumes "pool_ready (se_net E) app" "recv_phase app S P hD acc B" "s_ok cs" "s_rest cs = src"
    and "int (length (arrived acc @ src)) \<le> set_MultifragMaxRequestSize S" "set_MultifragMaxRequestSize S \<le> 1073741823"
    and "if rest = 0 then delivers (se_updates E) app code (arrived acc @ src) hD hD' else src \<noteq> []"
  shows "\<exists>st B' n. recv_fragment E code (fp_frag (acc = None) rest) (int (length src)) B cs = Some ((st, B'), s_adv n cs) \<and> 0 \<le> st
    \<and> (if rest = 0 then recv_phase app S P hD' None B' else recv_phase app S P hD (Some (arrived acc @ src)) B')"
proof (cases acc)
  case None
  then show ?thesis
    using recv_fragment_single [of app S P hD B cs src E code hD'] recv_fragment_first [OF assms(1), of S P hD B cs src code] assms(2-7)
    by (cases "rest = 0") (auto simp: fp_frag_def)
next
  case (Some u)
  then show ?thesis
    using recv_fragment_next [OF assms(1), of S P hD u B cs src code] recv_fragment_last [OF assms(1), of S P hD u B cs src code hD'] assms(2-7)
    by (cases "rest = 0") (auto simp: fp_frag_def)
qed

section \<open>Receiving one unit\<close>

text \<open>
  The packet \<open>data\<close> with its flags gives a client whose decompressor satisfies \<open>P\<close> the bytes \<open>src\<close>, and then it satisfies \<open>P'\<close>. The eight bytes of memory behind the packet are read
  by the decompressor but do not matter.
\<close>

definition fp_unpacked :: "('w, 'n, 'x) session \<Rightarrow> byte list \<Rightarrow> int \<Rightarrow> byte list \<Rightarrow>
    (('n, 'x) rdpBulk \<Rightarrow> bool) \<Rightarrow> (('n, 'x) rdpBulk \<Rightarrow> bool) \<Rightarrow> bool" where
  "fp_unpacked E data flags src P P' \<longleftrightarrow> 0 \<le> flags \<and> flags < 256 \<and> (flags \<noteq> 0 \<longrightarrow> src \<noteq> [] \<and> length src < 65536) \<and>
     (\<forall>b slack. P b \<longrightarrow> 8 \<le> length slack \<longrightarrow>
       (\<exists>b'. bulk_decompress (se_ncrush E) (se_xcrush E) b (data @ slack) (int (length data)) flags
         = Some (if flags = 0 then 0 else 1, Some src, b') \<and> P' b')) \<and> (flags = 0 \<longrightarrow> data = src)"

lemma fp_unpacked_next: "fp_unpacked E data flags src P P' \<Longrightarrow> P b \<Longrightarrow> \<exists>b'. P' b'"
proof -
  assume "fp_unpacked E data flags src P P'" "P b"
  moreover have "8 \<le> length (replicate 8 0 :: byte list)" by simp
  ultimately show ?thesis unfolding fp_unpacked_def by blast
qed

lemma s_adv_seek: "s_ok s \<Longrightarrow> n \<le> length (s_rest s) \<Longrightarrow> Stream_SetPosition (s_adv k s) (s_pos s + int n) = Some (s_adv n s)"
  using length_s_rest [of s] by (simp add: Stream_SetPosition_def s_adv_def s_ok_def)

lemma s_rest_slack: "s_ok s \<Longrightarrow> drop (nat (s_pos s)) (s_buffer s) = s_rest s @ drop (nat (s_length s)) (s_buffer s)"
proof -
  assume s: "s_ok s"
  then have "nat (s_length s) = nat (s_length s - s_pos s) + nat (s_pos s)" by (simp add: s_ok_def nat_add_distrib [symmetric])
  then have "drop (nat (s_length s)) (s_buffer s) = drop (nat (s_length s - s_pos s)) (drop (nat (s_pos s)) (s_buffer s))" by (simp only: drop_drop)
  then show ?thesis unfolding s_rest_def by (simp only: append_take_drop_id)
qed

lemma recv_update_data:
  assumes "pool_ready (se_net E) app" "recv_phase app S P hD acc B" "s_ok s" "s_rest s = fp_body code (fp_frag (acc = None) rest) flags data"
    and "s_length s + 8 \<le> int (length (s_buffer s))" "fp_unpacked E data flags src P P'" "0 \<le> code" "code < 16" "length data < 65536"
    and "int (length (arrived acc @ src)) \<le> set_MultifragMaxRequestSize S" "set_MultifragMaxRequestSize S \<le> 1073741823"
    and "if rest = 0 then delivers (se_updates E) app code (arrived acc @ src) hD hD' else src \<noteq> []"
  shows "\<exists>st B'. fastpath_recv_update_data E B s = Some ((st, B'), s_adv (length (s_rest s)) s) \<and> 0 \<le> st
    \<and> (if rest = 0 then recv_phase app S P' hD' None B' else recv_phase app S P' hD (Some (arrived acc @ src)) B')"
proof -
  let ?frag = "fp_frag (acc = None) rest" and ?m = "if flags = 0 then 3 else 4 :: nat"
  have frag: "0 \<le> ?frag" "?frag < 4" by (simp_all add: fp_frag_def)
  note bits = fp_header_bits [OF assms(7,8) frag, of "flags \<noteq> 0"]
  have fl: "0 \<le> flags" "flags < 256" using assms(6) by (simp_all add: fp_unpacked_def)
  let ?t = "s_adv ?m s"
  have hd: "fastpath_read_update_header s = Some ((code, ?frag, if flags = 0 then 0 else 2), s_adv 1 s)"
    using read_byte [OF assms(3), of "fp_header code ?frag (flags \<noteq> 0)"] assms(4) bits by (simp add: fastpath_read_update_header_def fp_body_def)
  have fd: "(if (if flags = 0 then 0 else 2) = FASTPATH_OUTPUT_COMPRESSION_USED then Stream_Read_UINT8 (s_adv 1 s) else Some (0, s_adv 1 s))
      = Some (flags, s_adv (?m - 2) s)"
    using read_byte [of "s_adv 1 s" flags] assms(3,4) fl by (auto simp: fp_body_def numeral_2_eq_2)
  have sz: "Stream_Read_UINT16 (s_adv (?m - 2) s) = Some (int (length data), ?t)"
  proof -
    have "s_rest (s_adv (?m - 2) s) = le16 (int (length data)) @ data" using assms(3,4) by (simp add: fp_body_def)
    then have "Stream_Read_UINT16 (s_adv (?m - 2) s) = Some (int (length data) mod 65536, s_adv 2 (s_adv (?m - 2) s))"
      using assms(3,4) by (intro read_le16) (simp_all add: fp_body_def)
    moreover have "s_adv 2 (s_adv (?m - 2) s) = ?t" by (simp add: s_adv_def)
    ultimately show ?thesis using assms(9) by simp
  qed
  have t: "s_ok ?t" "s_rest ?t = data" "length (s_rest s) = ?m + length data" using assms(3,4) by (auto simp: fp_body_def)
  define slack where "slack = drop (nat (s_length s)) (s_buffer s)"
  have sl: "drop (nat (s_pos ?t)) (s_buffer ?t) = data @ slack"
    using s_rest_slack [OF t(1)] t(2) by (simp add: slack_def)
  have "8 \<le> length slack" using assms(3,5) unfolding slack_def s_ok_def length_drop by linarith
  moreover have "P (rdp_bulk B)" using assms(2) by (simp add: recv_phase_def)
  ultimately obtain b' where dec: "bulk_decompress (se_ncrush E) (se_xcrush E) (rdp_bulk B) (data @ slack) (int (length data)) flags
      = Some (if flags = 0 then 0 else 1, Some src, b')" "P' b'"
    using assms(6) unfolding fp_unpacked_def by blast
  have ph: "recv_phase app S P' hD acc (B\<lparr>rdp_bulk := b'\<rparr>)" using assms(2) dec(2) by (simp add: recv_phase_def split: option.splits)
  have pos: "s_pos ?t + int (length data) = s_pos s + int (length (s_rest s))" using t(3) by (simp add: s_adv_def)
  then have np: "as_int (s_pos ?t + int (length data)) = s_pos s + int (length (s_rest s))"
    using length_s_rest [OF assms(3)] assms(3) by (simp add: as_int_def s_ok_def)
  show ?thesis
  proof (cases "flags = 0")
    case True
    then have "data = src" using assms(6) by (simp add: fp_unpacked_def)
    obtain st B' n where r: "recv_fragment E code ?frag (int (length data)) (B\<lparr>rdp_bulk := b'\<rparr>) ?t = Some ((st, B'), s_adv n ?t)" "0 \<le> st"
      "if rest = 0 then recv_phase app S P' hD' None B' else recv_phase app S P' hD (Some (arrived acc @ src)) B'"
      using recv_fragment_step [OF assms(1) ph t(1) _ assms(10,11,12)] t(2) \<open>data = src\<close> by blast
    have "Stream_SetPosition (s_adv n ?t) (s_pos s + int (length (s_rest s))) = Some (s_adv (length (s_rest s)) s)"
      using s_adv_seek [OF assms(3), of "length (s_rest s)" "n + ?m"] by (simp add: add.commute)
    then have "fastpath_recv_update_data E B s = Some ((st, B'), s_adv (length (s_rest s)) s)"
      unfolding fastpath_recv_update_data_def hd Option.bind.simps prod.case fd sz
      using True r(1,2) t(1,2) dec(1) sl np by (simp add: Let_def)
    with r(2,3) show ?thesis by blast
  next
    case False
    then have src: "0 < int (length src)" "int (length src) < 65536" using assms(6) by (simp_all add: fp_unpacked_def)
    let ?B = "B\<lparr>rdp_bulk := b'\<rparr>"
    obtain d w p where d: "StreamPool_Take (se_net E) (int (length src)) (rdp_world ?B) = (Some d, w)" "app w = app (rdp_world ?B)"
        "holds d p" "int (length src) \<le> s_capacity d"
      using pool_readyE(1) [OF assms(1) src(1), of "rdp_world ?B"] src(2) by auto
    obtain cs where cs: "Stream_Write (d\<lparr>s_pos := 0\<rparr>) src = Some cs" "holds cs src"
      using holds_write [of "d\<lparr>s_pos := 0\<rparr>" "[]" src] holds_rewound [OF d(3)] d(4) by auto
    let ?cs = "cs\<lparr>s_pos := 0, s_length := int (length src)\<rparr>"
    have "csize (s_pos cs) = int (length src)" using cs(2) by (simp add: holds_def csize_def)
    then have seal: "Stream_SetPosition (Stream_SealLength cs) 0 = Some ?cs" by (simp add: Stream_SetPosition_def Stream_SealLength_def)
    have "recv_phase app S P' hD acc (rdp_set_world w ?B)" using ph d(2) by (simp add: recv_phase_def split: option.splits)
    then obtain st B' n where r: "recv_fragment E code ?frag (int (length src)) (rdp_set_world w ?B) ?cs = Some ((st, B'), s_adv n ?cs)" "0 \<le> st"
      "if rest = 0 then recv_phase app S P' hD' None B' else recv_phase app S P' hD (Some (arrived acc @ src)) B'"
      using recv_fragment_step [OF assms(1) _ _ _ assms(10,11,12), of P' _ ?cs] holds_reading [OF cs(2)] by blast
    have "Stream_SetPosition ?t (s_pos s + int (length (s_rest s))) = Some (s_adv (length (s_rest s)) s)" by (rule s_adv_seek [OF assms(3)]) simp
    then have "fastpath_recv_update_data E B s = Some ((st, release_stream E (s_adv n ?cs) B'), s_adv (length (s_rest s)) s)"
      unfolding fastpath_recv_update_data_def hd Option.bind.simps prod.case fd sz
      using False r(1,2) t(1,2) dec(1) sl np d(1) cs(1) seal holds_rewound [OF d(3)] src by (simp add: Let_def take_stream_def u16_def)
    moreover have "recv_phase app S P' x y (release_stream E (s_adv n ?cs) B') = recv_phase app S P' x y B'" for x y
      using pool_readyE(3) [OF assms(1)] by (simp add: recv_phase_def release_stream_def split: option.splits)
    ultimately show ?thesis using r(2,3) by auto
  qed
qed

text \<open>Neither do the calls around the updates of a unit change what the application sees.\<close>

definition paint_quiet :: "'w updates \<Rightarrow> ('w \<Rightarrow> 'h) \<Rightarrow> bool" where
  "paint_quiet U app \<longleftrightarrow> (\<forall>w. app (cb_BeginPaint U w) = app w \<and> app (cb_EndPaint U w) = app w)"

lemma recv_updates_one:
  assumes "paint_quiet (se_updates E) app" "recv_phase app S P hD acc B" "s_ok s" "3 \<le> length (s_rest s)"
    and "\<And>B. recv_phase app S P hD acc B \<Longrightarrow> \<exists>st B'. fastpath_recv_update_data E B s = Some ((st, B'), s_adv (length (s_rest s)) s) \<and> 0 \<le> st
      \<and> recv_phase app S P' hD' acc' B'"
  shows "\<exists>B'. fastpath_recv_updates E B s = Some ((0, B'), s_adv (length (s_rest s)) s) \<and> recv_phase app S P' hD' acc' B'"
proof -
  let ?U = "se_updates E"
  have "recv_phase app S P hD acc (rdp_set_world (cb_BeginPaint ?U (rdp_world B)) B)"
    using assms(1,2) by (simp add: recv_phase_def paint_quiet_def split: option.splits)
  from assms(5) [OF this] obtain st B1 where r: "fastpath_recv_update_data E (rdp_set_world (cb_BeginPaint ?U (rdp_world B)) B) s
      = Some ((st, B1), s_adv (length (s_rest s)) s)" "0 \<le> st" "recv_phase app S P' hD' acc' B1" by blast
  have "recv_phase app S P' hD' acc' (rdp_set_world (cb_EndPaint ?U (rdp_world B1)) B1)"
    using assms(1) r(3) by (simp add: recv_phase_def paint_quiet_def split: option.splits)
  moreover have "recv_updates_loop E (rdp_set_world (cb_BeginPaint ?U (rdp_world B)) B) s = Some ((0, B1), s_adv (length (s_rest s)) s)"
    using assms(3,4) r(1,2) by (subst recv_updates_loop.simps) (simp add: recv_updates_loop.simps)
  ultimately show ?thesis by (simp add: fastpath_recv_updates_def)
qed

lemma read_long_length:
  assumes "s_ok s" "s_rest s = be16 (32768 + n) @ rest" "0 \<le> n" "n < 32768"
  shows "per_read_length s = Some (Some n, s_adv 2 s)"
proof -
  have "(n OR push_bit 15 1) = n + 1 * 2 ^ 15" using assms(3,4) by (intro or_push) simp_all
  then have e: "32768 + n = n OR 32768" by simp
  have "(32768 + n) OR 32768 = 32768 + n" unfolding e or.assoc by simp
  then have "s_rest s = per_len (32768 + n) @ rest" using assms(2,3) by (simp add: per_len_def)
  from parsesD [OF per_read_length_parses assms(1) this] assms(3,4) show ?thesis
    by (simp add: per_len_length)
qed

lemma recv_pdu:
  assumes "pool_ready (se_net E) app" "paint_quiet (se_updates E) app" "recv_phase app S P hD acc B"
    and "s_ok s" "s_pos s = 0" "s_rest s = fp_pdu (fp_body code (fp_frag (acc = None) rest) flags data)" "s_length s + 8 \<le> int (length (s_buffer s))"
    and "fp_unpacked E data flags src P P'" "0 \<le> code" "code < 16" "length data < 32760"
    and "int (length (arrived acc @ src)) \<le> set_MultifragMaxRequestSize S" "set_MultifragMaxRequestSize S \<le> 1073741823"
    and "if rest = 0 then delivers (se_updates E) app code (arrived acc @ src) hD hD' else src \<noteq> []"
  shows "\<exists>B'. rdp_recv_fastpath_pdu E B s = Some ((0, B'), s_adv (length (s_rest s)) s)
    \<and> (if rest = 0 then recv_phase app S P' hD' None B' else recv_phase app S P' hD (Some (arrived acc @ src)) B')"
proof -
  let ?body = "fp_body code (fp_frag (acc = None) rest) flags data" and ?t = "s_adv 3 s"
  have len: "3 \<le> length ?body" "length ?body \<le> length data + 4" by (simp_all add: fp_body_def)
  have hd: "Stream_Read_UINT8 s = Some (0, s_adv 1 s)" using read_byte [OF assms(4), of 0] assms(6) by (simp add: fp_pdu_def)
  have ln: "per_read_length (s_adv 1 s) = Some (Some (int (length ?body) + 3), ?t)"
  proof -
    have "per_read_length (s_adv 1 s) = Some (Some (int (length ?body) + 3), s_adv 2 (s_adv 1 s))"
      using assms(4,6,11) len by (intro read_long_length [where rest = ?body]) (simp_all add: fp_pdu_def)
    then show ?thesis by (simp add: s_adv_def)
  qed
  have t: "s_ok ?t" "s_rest ?t = ?body" "s_length ?t = s_length s" "s_buffer ?t = s_buffer s" using assms(4,6) by (simp_all add: fp_pdu_def)
  have u: "u16 (int (length ?body) + 3 - s_pos ?t) = int (length ?body)" using assms(5,11) len by (simp add: s_adv_def u16_def)
  define B0 where "B0 = B\<lparr>fp_encryptionFlags := 0, fp_numberEvents := 0\<rparr>"
  define B1 where "B1 = (if rdp_bandwidthMeasureStarted B0
    then B0\<lparr>rdp_bandwidthMeasureByteCount := (rdp_bandwidthMeasureByteCount B0 + int (length ?body)) mod 4294967296\<rparr> else B0)"
  have ph: "recv_phase app S P hD acc B1" using assms(3) by (simp add: recv_phase_def B1_def B0_def split: option.splits)
  have "\<exists>B'. fastpath_recv_updates E B1 ?t = Some ((0, B'), s_adv (length (s_rest ?t)) ?t)
      \<and> recv_phase app S P' (if rest = 0 then hD' else hD) (if rest = 0 then None else Some (arrived acc @ src)) B'"
  proof (rule recv_updates_one [OF assms(2) ph t(1)])
    show "3 \<le> length (s_rest ?t)" using t(2) len by simp
    fix B2 assume "recv_phase app S P hD acc B2"
    from recv_update_data [OF assms(1) this t(1,2) _ assms(8-10) _ assms(12-14)] assms(7,11) t(3,4)
    show "\<exists>st B'. fastpath_recv_update_data E B2 ?t = Some ((st, B'), s_adv (length (s_rest ?t)) ?t) \<and> 0 \<le> st
      \<and> recv_phase app S P' (if rest = 0 then hD' else hD) (if rest = 0 then None else Some (arrived acc @ src)) B'"
      by (cases "rest = 0") auto
  qed
  then obtain B' where r: "fastpath_recv_updates E B1 ?t = Some ((0, B'), s_adv (length ?body) ?t)"
      "if rest = 0 then recv_phase app S P' hD' None B' else recv_phase app S P' hD (Some (arrived acc @ src)) B'"
    using t(2) by (auto split: if_splits)
  have "rdp_recv_fastpath_pdu E B s = Some ((0, B'), s_adv (length (s_rest s)) s)"
  proof -
    have "fastpath_read_header_rdp (Some B) s = Some ((Some (int (length ?body)), Some B0), ?t)"
      using u by (simp add: fastpath_read_header_rdp_def hd [unfolded One_nat_def] ln [unfolded One_nat_def] fastpath_header_byte_def B0_def)
    moreover have "fp_encryptionFlags B1 = 0" by (simp add: B1_def B0_def)
    moreover have "s_adv (length ?body) ?t = s_adv (length (s_rest s)) s" using assms(6) by (simp add: fp_pdu_def s_adv_def)
    moreover have "\<not> int (length ?body) < 0" "int (length ?body) \<noteq> 0" using len by linarith+
    ultimately show ?thesis using r(1) t(1,2)
      by (simp add: rdp_recv_fastpath_pdu_def B1_def [symmetric] del: of_nat_eq_0_iff)
  qed
  with r(2) show ?thesis by blast
qed

section \<open>Fragments and compression\<close>

text \<open>The largest fragment, at the compression levels 64K (\<open>r\<close>) and 8K.\<close>

definition fp_chunk :: "bool \<Rightarrow> bool \<Rightarrow> nat" where
  "fp_chunk compress r = (if compress then if r then 16343 else 8172 else 16363)"

definition bulk_memory_ok :: "('w, 'n, 'x) session \<Rightarrow> bool" where
  "bulk_memory_ok E \<longleftrightarrow> (\<forall>w. length (snd (se_bulk_memory E w)) = 65536)"

lemma fp_maxLength_chunk:
  assumes "bulk_settings_level (rdp_bulk A) = of_bool r"
  shows "\<exists>b. fp_maxLength A skip = (int (fp_chunk (fp_compress A skip) r), A\<lparr>rdp_bulk := b\<rparr>)
    \<and> bulk_settings_level b = of_bool r \<and> mppcSend b = mppcSend (rdp_bulk A)"
proof (cases "fp_compress A skip")
  case True
  then show ?thesis using assms
    by (intro exI [of _ "bulk_compression_max_size (rdp_bulk A)"], cases r) (simp_all add: fp_maxLength_def fp_chunk_def Let_def bulk_compression_max_size_def bulk_compression_level_def u16_def)
next
  case False
  then show ?thesis using assms by (intro exI [of _ "rdp_bulk A"]) (simp add: fp_maxLength_def fp_chunk_def)
qed

lemma plain_unpacked:
  assumes "length src < 65536"
  shows "fp_unpacked E src 0 src (bulk_in_step r a) (bulk_in_step r a)"
  unfolding fp_unpacked_def
proof (intro conjI allI impI)
  fix b :: "('b, 'c) rdpBulk" and slack :: "byte list"
  assume "bulk_in_step r a b"
  then show "\<exists>b'. bulk_decompress (se_ncrush E) (se_xcrush E) b (src @ slack) (int (length src)) 0 = Some (if 0 = (0 :: int) then 0 else 1, Some src, b')
      \<and> bulk_in_step r a b'"
    by (simp add: bulk_decompress_def ablock_def bulk_compression_max_size_def bulk_compression_level_def Let_def bulk_in_step_def)
qed simp_all

lemma fragment_packed:
  assumes "bulk_memory_ok E" "bulk_in_step r (rdp_bulk A) b" "length src \<le> fp_chunk (fp_compress A skip) r"
  shows "\<exists>data flags a'. fp_packed E A skip src data flags a' \<and> fp_unpacked F data flags src (bulk_in_step r (rdp_bulk A)) (bulk_in_step r a')
    \<and> length data \<le> length src"
proof (cases "fp_compress A skip")
  case False
  with plain_unpacked [of src F r "rdp_bulk A"] assms(3) show ?thesis
    by (intro exI [of _ src] exI [of _ 0] exI [of _ "rdp_bulk A"]) (simp add: fp_packed_def fp_chunk_def)
next
  case True
  obtain before out where m: "se_bulk_memory E (rdp_world A) = (before, out)" "length out = 65536"
    using assms(1) unfolding bulk_memory_ok_def by (metis surj_pair snd_conv)
  have ok: "bulk_packet_ok r (src, out, slack)" if "8 \<le> length slack" for slack
    using that m(2) assms(3) True by (auto simp: fp_chunk_def wlevel_def split: if_splits)
  let ?c = "bulk_compress (se_ncrush E) (se_xcrush E) before out (rdp_bulk A) src (int (length src)) 0"
  obtain st data flags a' where c: "?c = Some (st, Some data, flags, a')" "0 \<le> st" "length data \<le> length src" "0 \<le> flags" "flags < 256"
      "flags = 0 \<longrightarrow> data = src"
    using bulk_packet [OF assms(2) ok [of "replicate 8 0"], of "se_ncrush E" "se_xcrush E" before undefined undefined] by (auto split: if_splits)
  have "\<exists>b'. bulk_decompress (se_ncrush F) (se_xcrush F) b (data @ slack) (int (length data)) flags = Some (if flags = 0 then 0 else 1, Some src, b')
      \<and> bulk_in_step r a' b'" if "bulk_in_step r (rdp_bulk A) b" "8 \<le> length slack" for b slack
    using bulk_packet [OF that(1) ok [OF that(2)], of "se_ncrush E" "se_xcrush E" before "se_ncrush F" "se_xcrush F"] c(1) by (auto split: if_splits)
  moreover have "flags \<noteq> 0 \<longrightarrow> src \<noteq> []" using c(1) by (auto simp: bulk_compress_def split: bind_splits)
  moreover have "length src < 65536" using assms(3) by (auto simp: fp_chunk_def split: if_splits)
  ultimately have "fp_unpacked F data flags src (bulk_in_step r (rdp_bulk A)) (bulk_in_step r a')"
    using c(4-6) by (simp add: fp_unpacked_def)
  moreover have "fp_packed E A skip src data flags a'" using True m(1) c by (auto simp: fp_packed_def)
  ultimately show ?thesis using c(3) by blast
qed

section \<open>A whole update\<close>

text \<open>The streams that the transport hands to the client, one unit in each.\<close>

definition carries :: "wStream \<Rightarrow> byte list \<Rightarrow> bool" where
  "carries s pdu \<longleftrightarrow> s_ok s \<and> s_pos s = 0 \<and> s_rest s = pdu \<and> s_length s + 8 \<le> int (length (s_buffer s))"

fun recv_all :: "('w, 'n, 'x) session \<Rightarrow> ('w, 'n, 'x) rdpRdp \<Rightarrow> wStream list \<Rightarrow> ('w, 'n, 'x) rdpRdp option" where
  "recv_all E B [] = Some B"
| "recv_all E B (s # ss) = do {
     ((status, B), s) \<leftarrow> rdp_recv_fastpath_pdu E B s;
     if status < 0 then None else recv_all E B ss }"

text \<open>A unit that the reader of the transport delivers as one, within the size of the fast path.\<close>

definition fp_unit :: "byte list \<Rightarrow> bool" where
  "fp_unit pdu \<longleftrightarrow> pdu_whole False pdu \<and> length pdu \<le> 16383"

lemma long_frame: "128 \<le> unat hi \<Longrightarrow> (unat hi - 128) * 256 + unat lo = n \<Longrightarrow> 3 \<le> n \<Longrightarrow> pdu_frame False [0, hi, lo] = Len n"
  by (simp add: pdu_frame_def Let_def)

lemma fp_pdu_unit:
  assumes "length data \<le> 16363"
  shows "fp_unit (fp_pdu (fp_body code frag flags data))"
proof -
  let ?body = "fp_body code frag flags data"
  let ?n = "int (length ?body) + 3"
  have n: "?n < 16384" "0 \<le> ?n" "length ?body \<noteq> 0" using assms by (simp_all add: fp_body_def)
  have d: "(32768 + ?n) div 256 = 128 + ?n div 256" "?n div 256 < 64" "0 \<le> ?n div 256" using n by linarith+
  have w: "unat (word_of_int x :: byte) = nat (x mod 256)" for x by (simp add: unat_eq_nat_uint uint_byte)
  have "(128 + ?n div 256) mod 256 = 128 + ?n div 256" "(32768 + ?n) mod 256 = ?n mod 256"
    using d(2,3) mod_mult_self2 [of ?n 256 128] by (simp_all add: add.commute)
  then have h: "unat (word_of_int (128 + ?n div 256) :: byte) = 128 + nat (?n div 256)" "unat (word_of_int (32768 + ?n) :: byte) = nat (?n mod 256)"
    unfolding w using d(3) by (simp_all add: nat_add_distrib)
  have "nat (?n div 256) * 256 + nat (?n mod 256) = nat ?n"
  proof -
    have "int (nat (?n div 256) * 256 + nat (?n mod 256)) = ?n" using n(2) d(3) by simp
    then show ?thesis by linarith
  qed
  then have "pdu_frame False [0, word_of_int (128 + ?n div 256), word_of_int (32768 + ?n)] = Len (nat ?n)"
    using n by (intro long_frame) (simp_all only: h, simp_all)
  moreover have "take 3 (fp_pdu ?body) = [0, word_of_int (128 + ?n div 256), word_of_int (32768 + ?n)]"
    using d(1) by (simp add: fp_pdu_def be16_def drop_bit_eq_div numeral_3_eq_3)
  moreover have "length (fp_pdu ?body) = nat ?n" "3 < length (fp_pdu ?body)" using n by (simp_all add: fp_pdu_def)
  ultimately have "pdu_whole False (fp_pdu ?body)" unfolding pdu_whole_def by (intro exI [of _ 3]) simp
  then show ?thesis using n(1) by (simp add: fp_unit_def fp_pdu_def)
qed

text \<open>
  The loop of the sender from the byte \<open>k\<close> of the update \<open>u\<close> on: it writes units that take the client from the fragments it
  has to the handler of the update.
\<close>

lemma send_update_loop_arrives:
  fixes F :: "('v, 'm, 'y) session" and b :: "('m, 'y) rdpBulk"
  assumes "bio_progress (se_net E) sent" "bulk_memory_ok E" "pool_ready (se_net F) app" "paint_quiet (se_updates F) app"
    and "0 \<le> code" "code < 16" "int (length u) \<le> set_MultifragMaxRequestSize S" "set_MultifragMaxRequestSize S \<le> 1073741823"
    and "delivers (se_updates F) app code u hD hD'" "take (length u) (s_buffer s) = u" "length u \<le> length (s_buffer s)"
    and "rdp_sec_flags A = 0" "fs_room (fp_fs A)" "tp_frontBio (rdp_transport A)" "bulk_in_step r (rdp_bulk A) b"
    and "if first then k = 0 else k < length u" "s_pos s = int k"
  shows "\<exists>A' pdus. send_update_loop E code skip (int (fp_chunk (fp_compress A skip) r)) first (int (length u - k)) s A
        = Some (True, A', s\<lparr>s_pos := int (length u)\<rparr>)
    \<and> (\<exists>a w fs. A' = A\<lparr>rdp_bulk := a, rdp_transport := (rdp_transport A)\<lparr>tp_net := w\<rparr>, fp_fs := fs\<rparr>) \<and> fs_room (fp_fs A')
    \<and> (\<exists>b :: ('m, 'y) rdpBulk. bulk_in_step r (rdp_bulk A') b)
    \<and> sent (rdp_world A') = sent (rdp_world A) @ concat pdus \<and> list_all fp_unit pdus
    \<and> (\<forall>ss B. list_all2 carries ss pdus \<longrightarrow> recv_phase app S (bulk_in_step r (rdp_bulk A)) hD (if first then None else Some (take k u)) B
        \<longrightarrow> (\<exists>B'. recv_all F B ss = Some B' \<and> recv_phase app S (bulk_in_step r (rdp_bulk A')) hD' None B'))"
  using assms(10-)
proof (induction "length u - k" arbitrary: k first s A b rule: less_induct)
  case less
  let ?m = "fp_chunk (fp_compress A skip) r" and ?acc = "if first then None else Some (take k u)"
  define src where "src = take ?m (drop k u)"
  define rest where "rest = length u - k - length src"
  have chunk: "0 < ?m" "?m \<le> 16363" by (simp_all add: fp_chunk_def)
  have k: "k \<le> length u" "first \<or> k < length u" using less.prems(7) by (auto split: if_splits)
  have sz: "(if int ?m < int (length u - k) then int ?m else int (length u - k)) = int (length src)" by (simp add: src_def)
  have rs: "int (length u - k) - int (length src) = int rest" "int rest = 0 \<longleftrightarrow> rest = 0" by (auto simp: rest_def src_def)
  have blk: "ablock (s_buffer s) (s_pos s) (int (length src)) = Some src"
  proof -
    have "take (length src) (drop k (s_buffer s)) = src"
    proof -
      obtain x where "s_buffer s = u @ x" using less.prems(1) append_take_drop_id by metis
      then show ?thesis using k(1) by (auto simp: src_def min_def)
    qed
    moreover have "length src \<le> length (s_buffer s) - k" "k \<le> length (s_buffer s)" using less.prems(2) k by (auto simp: src_def)
    ultimately show ?thesis using less.prems(8) by (simp add: ablock_def)
  qed
  have sl: "length src \<le> ?m" by (simp add: src_def)
  obtain data flags a where pk: "fp_packed E A skip src data flags a" "fp_unpacked F data flags src (bulk_in_step r (rdp_bulk A)) (bulk_in_step r a)"
      "length data \<le> length src"
    using fragment_packed [OF assms(2) less.prems(6) sl] by blast
  obtain st w fs where sf: "fastpath_send_fragment E code skip first (int (length src)) (int rest) s A
      = Some (st, A\<lparr>rdp_bulk := a, rdp_transport := (rdp_transport A)\<lparr>tp_net := w\<rparr>, fp_fs := fs\<rparr>)" "0 \<le> st"
      "sent w = sent (rdp_world A) @ fp_pdu (fp_body code (fp_frag first (int rest)) flags data)" "fs_room fs"
    using send_fragment [OF assms(1) less.prems(3-5) pk(1) _ blk assms(5,6)] pk(3) sl chunk by fastforce
  let ?pdu = "fp_pdu (fp_body code (fp_frag first (int rest)) flags data)"
  let ?A = "A\<lparr>rdp_bulk := a, rdp_transport := (rdp_transport A)\<lparr>tp_net := w\<rparr>, fp_fs := fs\<rparr>"
  have unit: "fp_unit ?pdu" using fp_pdu_unit pk(3) sl chunk by simp
  have arr: "arrived ?acc @ src = take (k + length src) u" using less.prems(7) by (auto simp: src_def take_add min_def)
  have got: "length (arrived ?acc @ src) \<le> length u" unfolding arr by simp
  have del: "if int rest = 0 then delivers (se_updates F) app code (arrived ?acc @ src) hD hD' else src \<noteq> []"
    using assms(9) k chunk unfolding arr by (auto simp: rest_def src_def)
  have rcv: "\<exists>B'. rdp_recv_fastpath_pdu F B t = Some ((0, B'), s_adv (length (s_rest t)) t)
      \<and> (if int rest = 0 then recv_phase app S (bulk_in_step r a) hD' None B' else recv_phase app S (bulk_in_step r a) hD (Some (take (k + length src) u)) B')"
    if "carries t ?pdu" "recv_phase app S (bulk_in_step r (rdp_bulk A)) hD ?acc B" for t B
  proof -
    have "(?acc = None) = first" by simp
    then show ?thesis
      using that recv_pdu [OF assms(3,4) that(2), of t code "int rest" flags data src "bulk_in_step r a" hD']
        pk assms(5-8) got del sl chunk unfolding arr carries_def by simp
  qed
  obtain b' :: "('m, 'y) rdpBulk" where b': "bulk_in_step r a b'" using fp_unpacked_next [OF pk(2) less.prems(6)] by blast
  let ?s = "s\<lparr>s_pos := int (k + length src)\<rparr>"
  have seek: "Stream_Seek s (int (length src)) = Some ?s" using less.prems(2,8) k by (auto simp: Stream_Seek_def src_def)
  have unf: "send_update_loop E code skip (int ?m) first (int (length u - k)) s A = send_update_loop E code skip (int ?m) False (int rest) ?s ?A"
  proof -
    have "(0 < int (length u - k) \<or> first) = True" using k(2) by auto
    then show ?thesis unfolding send_update_loop.simps [of E code skip "int ?m" first] Let_def sz rs(1) sf(1) using sf(2) seek by simp
  qed
  show ?case
  proof (cases "rest = 0")
    case True
    then have "k + length src = length u" using k by (auto simp: rest_def src_def)
    have "send_update_loop E code skip (int ?m) False (int rest) ?s ?A = Some (True, ?A, ?s)"
      using True by (subst send_update_loop.simps) simp
    with \<open>k + length src = length u\<close> have loop: "send_update_loop E code skip (int ?m) first (int (length u - k)) s A
        = Some (True, ?A, s\<lparr>s_pos := int (length u)\<rparr>)"
      using unf by simp
    have "\<exists>B'. recv_all F B ss = Some B' \<and> recv_phase app S (bulk_in_step r a) hD' None B'"
      if c: "list_all2 carries ss [?pdu]" and ph: "recv_phase app S (bulk_in_step r (rdp_bulk A)) hD ?acc B" for ss B
    proof -
      obtain t where t: "ss = [t]" "carries t ?pdu" using c by (auto simp: list_all2_Cons2 list_all2_Nil2)
      from rcv [OF t(2) ph] True t(1) show ?thesis by auto
    qed
    then have fin: "\<forall>ss B. list_all2 carries ss [?pdu] \<longrightarrow> recv_phase app S (bulk_in_step r (rdp_bulk A)) hD ?acc B
        \<longrightarrow> (\<exists>B'. recv_all F B ss = Some B' \<and> recv_phase app S (bulk_in_step r (rdp_bulk ?A)) hD' None B')" by simp
    have out: "sent (rdp_world ?A) = sent (rdp_world A) @ concat [?pdu]" "fs_room (fp_fs ?A)" "list_all fp_unit [?pdu]"
      "\<exists>b :: ('m, 'y) rdpBulk. bulk_in_step r (rdp_bulk ?A) b"
      using sf(3,4) unit b' by auto
    show ?thesis
      by (intro exI [of _ ?A] exI [of _ "[?pdu]"] conjI loop out fin) (intro exI, rule refl)
  next
    case False
    have n: "length u - (k + length src) = rest" by (simp add: rest_def)
    have ne: "src \<noteq> []" using del False by simp
    have "\<exists>A' pdus. send_update_loop E code skip (int (fp_chunk (fp_compress ?A skip) r)) False (int (length u - (k + length src))) ?s ?A
        = Some (True, A', ?s\<lparr>s_pos := int (length u)\<rparr>)
      \<and> (\<exists>a' w' fs'. A' = ?A\<lparr>rdp_bulk := a', rdp_transport := (rdp_transport ?A)\<lparr>tp_net := w'\<rparr>, fp_fs := fs'\<rparr>) \<and> fs_room (fp_fs A')
      \<and> (\<exists>b :: ('m, 'y) rdpBulk. bulk_in_step r (rdp_bulk A') b)
      \<and> sent (rdp_world A') = sent (rdp_world ?A) @ concat pdus \<and> list_all fp_unit pdus
      \<and> (\<forall>ss B. list_all2 carries ss pdus \<longrightarrow> recv_phase app S (bulk_in_step r (rdp_bulk ?A)) hD (if False then None else Some (take (k + length src) u)) B
        \<longrightarrow> (\<exists>B'. recv_all F B ss = Some B' \<and> recv_phase app S (bulk_in_step r (rdp_bulk A')) hD' None B'))"
      (is "\<exists>A' pdus. ?Q A' pdus")
    proof (rule less.hyps)
      show "length u - (k + length src) < length u - k" using ne False unfolding rest_def by (cases src) simp_all
      show "if False then k + length src = 0 else k + length src < length u" using False unfolding rest_def by simp
      show "bulk_in_step r (rdp_bulk ?A) b'" using b' by simp
    qed (use less.prems(1-5) sf(4) in simp_all)
    then obtain A' pdus where "?Q A' pdus" by blast
    then have ih: "send_update_loop E code skip (int (fp_chunk (fp_compress ?A skip) r)) False (int rest) ?s ?A
        = Some (True, A', s\<lparr>s_pos := int (length u)\<rparr>)"
      "\<exists>a' w' fs'. A' = A\<lparr>rdp_bulk := a', rdp_transport := (rdp_transport A)\<lparr>tp_net := w'\<rparr>, fp_fs := fs'\<rparr>" "fs_room (fp_fs A')"
      "\<exists>b :: ('m, 'y) rdpBulk. bulk_in_step r (rdp_bulk A') b" "sent (rdp_world A') = sent w @ concat pdus" "list_all fp_unit pdus"
      "\<And>ss B. list_all2 carries ss pdus \<Longrightarrow> recv_phase app S (bulk_in_step r a) hD (Some (take (k + length src) u)) B
        \<Longrightarrow> \<exists>B'. recv_all F B ss = Some B' \<and> recv_phase app S (bulk_in_step r (rdp_bulk A')) hD' None B'"
      by (simp_all add: n)
    have "fp_compress ?A skip = fp_compress A skip" by (simp add: fp_compress_def)
    with ih(1) unf have loop: "send_update_loop E code skip (int ?m) first (int (length u - k)) s A = Some (True, A', s\<lparr>s_pos := int (length u)\<rparr>)"
      by simp
    have "\<exists>B'. recv_all F B ss = Some B' \<and> recv_phase app S (bulk_in_step r (rdp_bulk A')) hD' None B'"
      if c: "list_all2 carries ss (?pdu # pdus)" and ph: "recv_phase app S (bulk_in_step r (rdp_bulk A)) hD ?acc B" for ss B
    proof -
      obtain t ts where t: "ss = t # ts" "carries t ?pdu" "list_all2 carries ts pdus" using c by (auto simp: list_all2_Cons2)
      from rcv [OF t(2) ph] False obtain B1 where "rdp_recv_fastpath_pdu F B t = Some ((0, B1), s_adv (length (s_rest t)) t)"
        "recv_phase app S (bulk_in_step r a) hD (Some (take (k + length src) u)) B1" by auto
      with ih(7) [OF t(3)] t(1) show ?thesis by simp
    qed
    then have fin: "\<forall>ss B. list_all2 carries ss (?pdu # pdus) \<longrightarrow> recv_phase app S (bulk_in_step r (rdp_bulk A)) hD ?acc B
        \<longrightarrow> (\<exists>B'. recv_all F B ss = Some B' \<and> recv_phase app S (bulk_in_step r (rdp_bulk A')) hD' None B')" by blast
    have out: "sent (rdp_world A') = sent (rdp_world A) @ concat (?pdu # pdus)" "list_all fp_unit (?pdu # pdus)"
      using ih(5,6) sf(3) unit by simp_all
    show ?thesis by (intro exI [of _ A'] exI [of _ "?pdu # pdus"] conjI loop ih(2-4) out fin)
  qed
qed

text \<open>A server that can send, and what its \<open>BIO\<close> has taken.\<close>

definition sender_ready :: "('w, 'n, 'x) session \<Rightarrow> ('w \<Rightarrow> byte list) \<Rightarrow> ('w, 'n, 'x) rdpRdp \<Rightarrow> bool" where
  "sender_ready E sent A \<longleftrightarrow> bio_progress (se_net E) sent \<and> bulk_memory_ok E \<and> rdp_sec_flags A = 0 \<and> \<not> rdp_do_crypt A
     \<and> fs_room (fp_fs A) \<and> tp_frontBio (rdp_transport A) \<and> set_FastPathOutput (rdp_settings A)"

definition client_ready :: "('w, 'n, 'x) session \<Rightarrow> ('w \<Rightarrow> 'h) \<Rightarrow> bool" where
  "client_ready F app \<longleftrightarrow> pool_ready (se_net F) app \<and> paint_quiet (se_updates F) app"

lemma send_update_arrives:
  fixes F :: "('v, 'm, 'y) session" and b :: "('m, 'y) rdpBulk"
  assumes "sender_ready E sent A" "client_ready F app" "0 \<le> code" "code < 16" "holds s u"
    and "int (length u) \<le> set_MultifragMaxRequestSize (rdp_settings A)"
    and "int (length u) \<le> set_MultifragMaxRequestSize S" "set_MultifragMaxRequestSize S \<le> 1073741823"
    and "delivers (se_updates F) app code u hD hD'" "bulk_in_step r (rdp_bulk A) b"
  shows "\<exists>A' pdus. fastpath_send_update_pdu E A code s skip = Some (True, A', s) \<and> sender_ready E sent A' \<and> rdp_settings A' = rdp_settings A
    \<and> sent (rdp_world A') = sent (rdp_world A) @ concat pdus \<and> list_all fp_unit pdus
    \<and> (\<exists>b :: ('m, 'y) rdpBulk. bulk_in_step r (rdp_bulk A') b)
    \<and> (\<forall>ss B. list_all2 carries ss pdus \<longrightarrow> recv_phase app S (bulk_in_step r (rdp_bulk A)) hD None B
        \<longrightarrow> (\<exists>B'. recv_all F B ss = Some B' \<and> recv_phase app S (bulk_in_step r (rdp_bulk A')) hD' None B'))"
proof -
  have bs: "bulk_settings_level (rdp_bulk A) = of_bool r" using assms(10) by (simp add: bulk_in_step_def)
  obtain a where a: "fp_maxLength A skip = (int (fp_chunk (fp_compress A skip) r), A\<lparr>rdp_bulk := a\<rparr>)"
      "bulk_settings_level a = of_bool r" "mppcSend a = mppcSend (rdp_bulk A)"
    using fp_maxLength_chunk [OF bs] by blast
  let ?A = "A\<lparr>rdp_bulk := a\<rparr>" and ?s = "s\<lparr>s_pos := 0\<rparr>"
  have step: "bulk_in_step r a = (bulk_in_step r (rdp_bulk A) :: ('m, 'y) rdpBulk \<Rightarrow> bool)"
    using a(2,3) bs by (simp add: bulk_in_step_def fun_eq_iff)
  note ready = assms(1)[unfolded sender_ready_def] and client = assms(2)[unfolded client_ready_def]
  have u: "s_pos s = int (length u)" "take (length u) (s_buffer ?s) = u" "length u \<le> length (s_buffer ?s)" "int (length u) \<le> INT_MAX"
    using assms(5) by (simp_all add: holds_def)
  have c: "fp_compress ?A skip = fp_compress A skip" by (simp add: fp_compress_def)
  have "\<exists>A' pdus. send_update_loop E code skip (int (fp_chunk (fp_compress ?A skip) r)) True (int (length u - 0)) ?s ?A
        = Some (True, A', ?s\<lparr>s_pos := int (length u)\<rparr>)
    \<and> (\<exists>a w fs. A' = ?A\<lparr>rdp_bulk := a, rdp_transport := (rdp_transport ?A)\<lparr>tp_net := w\<rparr>, fp_fs := fs\<rparr>) \<and> fs_room (fp_fs A')
    \<and> (\<exists>b :: ('m, 'y) rdpBulk. bulk_in_step r (rdp_bulk A') b)
    \<and> sent (rdp_world A') = sent (rdp_world ?A) @ concat pdus \<and> list_all fp_unit pdus
    \<and> (\<forall>ss B. list_all2 carries ss pdus \<longrightarrow> recv_phase app S (bulk_in_step r (rdp_bulk ?A)) hD (if True then None else Some (take 0 u)) B
        \<longrightarrow> (\<exists>B'. recv_all F B ss = Some B' \<and> recv_phase app S (bulk_in_step r (rdp_bulk A')) hD' None B'))" (is "\<exists>A' pdus. ?Q A' pdus")
    by (rule send_update_loop_arrives [where b = b]) (use ready client assms(3,4,7-10) u(2,3) step in simp_all)
  then obtain A1 pdus where "?Q A1 pdus" by blast
  then have q: "send_update_loop E code skip (int (fp_chunk (fp_compress A skip) r)) True (int (length u)) ?s ?A = Some (True, A1, s)"
    "\<exists>a w fs. A1 = A\<lparr>rdp_bulk := a, rdp_transport := (rdp_transport A)\<lparr>tp_net := w\<rparr>, fp_fs := fs\<rparr>" "fs_room (fp_fs A1)"
    "\<exists>b :: ('m, 'y) rdpBulk. bulk_in_step r (rdp_bulk A1) b" "sent (rdp_world A1) = sent (rdp_world A) @ concat pdus" "list_all fp_unit pdus"
    "\<forall>ss B. list_all2 carries ss pdus \<longrightarrow> recv_phase app S (bulk_in_step r (rdp_bulk A)) hD None B
        \<longrightarrow> (\<exists>B'. recv_all F B ss = Some B' \<and> recv_phase app S (bulk_in_step r (rdp_bulk A1)) hD' None B')"
    using u(1) c step by simp_all
  have up: "A1\<lparr>rdp_sec_flags := 0\<rparr> = A1" using q(2) ready by auto
  have "rdp_raise_sec_flags ?A = ?A" using ready by (simp add: rdp_raise_sec_flags_def)
  then have send: "fastpath_send_update_pdu E A code s skip = Some (True, A1, s)"
    using ready assms(6) a(1) u(1,4) q(1) up by (simp add: fastpath_send_update_pdu_def Stream_SetPosition_def)
  have "sender_ready E sent A1" "rdp_settings A1 = rdp_settings A" using q(2,3) ready by (auto simp: sender_ready_def)
  with send q(4-7) show ?thesis by blast
qed

section \<open>A session\<close>

text \<open>The updates are sent one after the other, from a stream each.\<close>

fun send_all :: "('w, 'n, 'x) session \<Rightarrow> ('w, 'n, 'x) rdpRdp \<Rightarrow> (int \<times> wStream \<times> bool) list \<Rightarrow> ('w, 'n, 'x) rdpRdp option" where
  "send_all E A [] = Some A"
| "send_all E A ((code, s, skip) # us) = do {
     (ok, A, s) \<leftarrow> fastpath_send_update_pdu E A code s skip;
     if ok then send_all E A us else None }"

text \<open>What the handlers make of the updates \<open>us\<close>, in their order.\<close>

fun delivered :: "'w updates \<Rightarrow> ('w \<Rightarrow> 'h) \<Rightarrow> (int \<times> byte list) list \<Rightarrow> 'h \<times> rdpUpdate \<Rightarrow> 'h \<times> rdpUpdate \<Rightarrow> bool" where
  "delivered U app [] hD hD' \<longleftrightarrow> hD' = hD"
| "delivered U app ((code, u) # us) hD hD' \<longleftrightarrow> 0 \<le> code \<and> code < 16 \<and> (\<exists>hD1. delivers U app code u hD hD1 \<and> delivered U app us hD1 hD')"

lemma recv_all_append: "recv_all F B (ss @ ts) = do { B \<leftarrow> recv_all F B ss; recv_all F B ts }"
  by (induction ss arbitrary: B) (auto split: bind_split)

lemma session_arrives:
  fixes F :: "('v, 'm, 'y) session" and b :: "('m, 'y) rdpBulk"
  assumes "client_ready F app" "set_MultifragMaxRequestSize S \<le> 1073741823"
    and "\<forall>(code, s, skip, u) \<in> set us. holds s u \<and> int (length u) \<le> M \<and> int (length u) \<le> set_MultifragMaxRequestSize S"
    and "delivered (se_updates F) app (map (\<lambda>(code, s, skip, u). (code, u)) us) hD hD'"
    and "sender_ready E sent A" "set_MultifragMaxRequestSize (rdp_settings A) = M" "bulk_in_step r (rdp_bulk A) b"
  shows "\<exists>A' pdus. send_all E A (map (\<lambda>(code, s, skip, u). (code, s, skip)) us) = Some A'
    \<and> sent (rdp_world A') = sent (rdp_world A) @ concat pdus \<and> list_all fp_unit pdus
    \<and> (\<forall>ss B. list_all2 carries ss pdus \<longrightarrow> recv_phase app S (bulk_in_step r (rdp_bulk A)) hD None B
        \<longrightarrow> (\<exists>B'. recv_all F B ss = Some B' \<and> recv_phase app S (bulk_in_step r (rdp_bulk A')) hD' None B'))"
  using assms(3-)
proof (induction us arbitrary: A b hD)
  case Nil
  then show ?case by (intro exI [of _ A] exI [of _ "[]"]) (auto simp: list_all2_Nil2)
next
  case (Cons x us)
  obtain code s skip u where x: "x = (code, s, skip, u)" by (cases x) auto
  obtain hD1 where d: "0 \<le> code" "code < 16" "delivers (se_updates F) app code u hD hD1"
      "delivered (se_updates F) app (map (\<lambda>(code, s, skip, u). (code, u)) us) hD1 hD'"
    using Cons.prems(2) by (auto simp: x)
  have u: "holds s u" "int (length u) \<le> M" "int (length u) \<le> set_MultifragMaxRequestSize S" using Cons.prems(1) by (simp_all add: x)
  obtain A1 pdus1 and b1 :: "('m, 'y) rdpBulk" where 1: "fastpath_send_update_pdu E A code s skip = Some (True, A1, s)" "sender_ready E sent A1"
      "rdp_settings A1 = rdp_settings A" "sent (rdp_world A1) = sent (rdp_world A) @ concat pdus1" "list_all fp_unit pdus1" "bulk_in_step r (rdp_bulk A1) b1"
      "\<And>ss B. list_all2 carries ss pdus1 \<Longrightarrow> recv_phase app S (bulk_in_step r (rdp_bulk A)) hD None B
        \<Longrightarrow> \<exists>B'. recv_all F B ss = Some B' \<and> recv_phase app S (bulk_in_step r (rdp_bulk A1)) hD1 None B'"
    using send_update_arrives [OF Cons.prems(3) assms(1) d(1,2) u(1) _ u(3) assms(2) d(3) Cons.prems(5), of skip] u(2) Cons.prems(4) by fastforce
  obtain A2 pdus2 where 2: "send_all E A1 (map (\<lambda>(code, s, skip, u). (code, s, skip)) us) = Some A2"
      "sent (rdp_world A2) = sent (rdp_world A1) @ concat pdus2" "list_all fp_unit pdus2"
      "\<And>ss B. list_all2 carries ss pdus2 \<Longrightarrow> recv_phase app S (bulk_in_step r (rdp_bulk A1)) hD1 None B
        \<Longrightarrow> \<exists>B'. recv_all F B ss = Some B' \<and> recv_phase app S (bulk_in_step r (rdp_bulk A2)) hD' None B'"
    using Cons.IH [of hD1 A1 b1] Cons.prems(1,4) d(4) 1(2,3,6) by fastforce
  have "\<exists>B'. recv_all F B ss = Some B' \<and> recv_phase app S (bulk_in_step r (rdp_bulk A2)) hD' None B'"
    if c: "list_all2 carries ss (pdus1 @ pdus2)" and ph: "recv_phase app S (bulk_in_step r (rdp_bulk A)) hD None B" for ss B
  proof -
    obtain ss1 ss2 where s: "ss = ss1 @ ss2" "list_all2 carries ss1 pdus1" "list_all2 carries ss2 pdus2"
      using c by (auto simp: list_all2_append2)
    obtain B1 where "recv_all F B ss1 = Some B1" "recv_phase app S (bulk_in_step r (rdp_bulk A1)) hD1 None B1" using 1(7) [OF s(2) ph] by blast
    with 2(4) [OF s(3)] show ?thesis by (simp add: s(1) recv_all_append)
  qed
  with 1 2(1-3) show ?case by (intro exI [of _ A2] exI [of _ "pdus1 @ pdus2"]) (simp add: x)
qed

end
