(* ===== verification/FastpathSession.thy ===== *)
theory FastpathSession
  imports FastpathLink
begin

text \<open>
  Whole sessions over the fast path: any updates, and in particular surface commands, on an instance with a network that takes
  a few bytes at a time and with compression; and bitmap updates, which the fast and the slow path read alike.
\<close>

section \<open>An instance\<close>

definition fp_net :: "pipe net" where
  "fp_net = (pipe_net 1000 (blank 4))\<lparr>StreamPool_Take := \<lambda>n w. (Some (blank (nat n)), w)\<rparr>"

text \<open>The client notes the frame markers that it gets.\<close>

definition fp_updates :: "pipe updates" where
  "fp_updates = quiet_updates\<lparr>cb_SurfaceFrameMarker := \<lambda>m (ps, i). (ps @ [[word_of_int (fm_frameAction m)]], i)\<rparr>"

definition no_crush :: "unit crush" where
  "no_crush = \<lparr>crush_compress = \<lambda>_ _ _ _ _. None, crush_decompress = \<lambda>_ _ _ _. None, crush_reset = \<lambda>c _. c\<rparr>"

definition quiet_inputs :: "'w inputs" where
  "quiet_inputs = \<lparr>cb_KeyboardEvent = \<lambda>_ _. id, cb_UnicodeKeyboardEvent = \<lambda>_ _. id, cb_MouseEvent = \<lambda>_ _ _. id,
     cb_ExtendedMouseEvent = \<lambda>_ _ _. id, cb_SynchronizeEvent = \<lambda>_. id\<rparr>"

definition quiet_app :: "'w application" where
  "quiet_app = \<lparr>GetTickCount = \<lambda>w. (0, w), c_rand = \<lambda>w. (0, w), update_reset_state = id, cb_PostConnect = \<lambda>w. (True, w),
     cb_Activate = \<lambda>w. (True, w), cb_ErrorInfo = \<lambda>_. id, cb_Terminate = id, cb_SetKeyboardIndicators = \<lambda>_. id,
     cb_LogonErrorInfo = \<lambda>_ _. id, cb_ReceiveChannelData = \<lambda>_ _ _ _. id, cb_VirtualChannelRead = None,
     cb_RTTMeasureResponse = \<lambda>_ w. (True, w), cb_BandwidthMeasureResults = \<lambda>_ w. (True, w),
     cb_NetworkCharacteristicsResult = \<lambda>_ w. (True, w), cb_SurfaceFrameAcknowledge = \<lambda>_. id, cb_RefreshRect = \<lambda>_. id,
     cb_SuppressOutput = \<lambda>_ _. id\<rparr>"

definition no_security :: "'w security" where
  "no_security = \<lparr>security_hmac_signature = \<lambda>_ w. (replicate 8 0, w), security_salted_mac_signature = \<lambda>_ _ w. (replicate 8 0, w),
     security_mac_signature = \<lambda>_ w. (replicate 8 0, w), security_fips_encrypt = \<lambda>bs w. (bs, w), security_encrypt = \<lambda>bs w. (bs, w),
     security_fips_decrypt = \<lambda>bs w. (True, bs, w), security_fips_check_signature = \<lambda>_ _ w. (True, w),
     security_decrypt = \<lambda>bs w. (True, bs, w)\<rparr>"

definition fp_session :: "(pipe, unit, unit) session" where
  "fp_session = \<lparr>se_net = fp_net, se_updates = fp_updates, se_inputs = quiet_inputs, se_app = quiet_app, se_security = no_security, se_ncrush = no_crush,
     se_xcrush = no_crush, se_bulk_memory = \<lambda>_. (0, replicate 65536 0)\<rparr>"

definition fp_bulk :: "(unit, unit) rdpBulk" where
  "fp_bulk = the (bulk_new True (of_bool True) \<lparr>TotalCompressedBytes = 0, TotalUncompressedBytes = 0\<rparr> () () () ())"

definition fp_end :: "(pipe, unit, unit) rdpRdp" where
  "fp_end = \<lparr>fp_fs = blank 16384, fp_encryptionFlags = 0, fp_numberEvents = 0, fp_updateData = None, fp_fragmentation = - 1,
     rdp_transport = (pipe_transport [] (blank 4))\<lparr>tp_settings :=
       (tp_settings (pipe_transport [] (blank 4)))\<lparr>set_CompressionEnabled := True, set_MultifragMaxRequestSize := 200000\<rparr>\<rparr>,
     rdp_bulk = fp_bulk, rdp_update = update_new, rdp_do_crypt = False, rdp_do_secure_checksum = False, rdp_sec_flags = 0,
     rdp_mcs = the (mcs_new True False), rdp_instance = True, rdp_finalize_sc_pdus = 0, rdp_resendFocus = False,
     rdp_deactivation_reactivation = False, rdp_ServerMode = False, rdp_ShareId = 0, rdp_PduSource = 0, rdp_errorInfo = 0, rdp_disconnect = False,
     rdp_bandwidthMeasureStarted = False, rdp_bandwidthMeasureStartTime = 0, rdp_bandwidthMeasureTimeDelta = 0,
     rdp_bandwidthMeasureByteCount = 0, rdp_rttMeasureStartTime = 0, rdp_netCharBandwidth = 0, rdp_netCharBaseRTT = 0,
     rdp_netCharAverageRTT = 0, rdp_VirtualChannelChunkSize = 1600, rdp_FastPathInput = True, rdp_RefreshRect = True,
     rdp_SuppressOutput = True, rdp_AwaitCapabilities = False, rdp_peer_connected = False, rdp_peer_activated = False, rdp_ack_frame_id = 0,
     rdp_ServerAutoReconnectCookie = \<lparr>arc_cbLen = 28, arc_version = 1, arc_logonId = 0, arc_arcRandomBits = replicate 16 0\<rparr>\<rparr>"

text \<open>A stream that has just been written.\<close>

definition written :: "byte list \<Rightarrow> wStream" where
  "written u = \<lparr>s_buffer = u @ replicate 64 0, s_pos = int (length u), s_length = int (length u), s_capacity = int (length u) + 64,
     s_count = 0, s_pool = NULL\<rparr>"

lemma written_holds: "length u \<le> 1000000 \<Longrightarrow> holds (written u) u"
  by (simp add: written_def holds_def)

lemma fp_bulk_in_step: "bulk_in_step True fp_bulk fp_bulk"
proof -
  let ?m = "\<lparr>TotalCompressedBytes = 0, TotalUncompressedBytes = 0\<rparr>"
  obtain bs1 bs2 where "mppc_context_new True 1 True = Some bs1" "mppc_context_new True 1 False = Some bs2"
    using context_new by blast
  then obtain a :: "(unit, unit) rdpBulk" where a: "bulk_new True (of_bool True) ?m () () () () = Some a" by (simp add: bulk_new_def)
  then have "fp_bulk = a" by (simp add: fp_bulk_def)
  with new_bulk_in_step [OF a a] show ?thesis by simp
qed

lemma fp_ready: "sender_ready fp_session (snd \<circ> snd) fp_end" "client_ready fp_session fst"
proof -
  have "bio_progress fp_net (snd \<circ> snd)"
    unfolding bio_progress_def
  proof (intro allI impI)
    fix bs :: "byte list" and w :: pipe assume "bs \<noteq> []"
    then show "\<exists>k w'. BIO_write fp_net bs w = (int k, w') \<and> 0 < k \<and> k \<le> length bs
        \<and> (snd \<circ> snd) w' = (snd \<circ> snd) w @ take k bs \<and> \<not> BIO_write_blocked fp_net w'"
      by (cases w) (auto simp: fp_net_def min_def)
  qed
  moreover have "fs_room (blank 16384)" using blank_holds [of 16384] by (auto simp: fs_room_def)
  ultimately show "sender_ready fp_session (snd \<circ> snd) fp_end"
    by (simp add: sender_ready_def bulk_memory_ok_def fp_session_def fp_end_def pipe_transport_def)
  have "pool_ready fp_net fst"
    unfolding pool_ready_def
  proof (intro conjI allI impI)
    fix n :: int and w :: pipe assume "0 < n" "n \<le> 1073741823"
    then have "holds (blank (nat n)) []" by (intro blank_holds) simp_all
    with \<open>0 < n\<close> show "\<exists>s w' p. StreamPool_Take fp_net n w = (Some s, w') \<and> fst w' = fst w \<and> holds s p \<and> n \<le> s_capacity s"
      by (intro exI [of _ "blank (nat n)"] exI [of _ w] exI [of _ "[]"]) (simp add: fp_net_def)
  qed (simp_all add: fp_net_def pipe_net_def)
  then show "client_ready fp_session fst"
    by (simp add: client_ready_def fp_session_def paint_quiet_def fp_updates_def quiet_updates_def)
qed

lemma fp_end_simps [simp]: "rdp_bulk fp_end = fp_bulk" "fp_fragmentation fp_end = - 1" "rdp_update fp_end = update_new"
  "set_MultifragMaxRequestSize (rdp_settings fp_end) = 200000" "rdp_world fp_end = ([], [], [])"
  by (simp_all add: fp_end_def pipe_transport_def)

section \<open>Properties\<close>

text \<open>
  C2. Any sequence of updates, each up to the limit of both sides, compressed or not: the server writes units of at most 16383
  bytes, and a client that gets them, one in each stream, runs the handler of each update once, in order, on the bytes that
  were sent, however many fragments an update takes. At both compression levels of MPPC; without encryption.
\<close>

theorem fastpath_session_roundtrip:
  fixes A :: "('w, 'n, 'x) rdpRdp" and B :: "('v, 'm, 'y) rdpRdp"
  assumes "sender_ready E sent A" "client_ready F app" "bulk_in_step r (rdp_bulk A) (rdp_bulk B)" "fp_fragmentation B = - 1"
    and "set_MultifragMaxRequestSize (rdp_settings B) \<le> 1073741823"
    and "\<forall>(code, s, skip, u) \<in> set us. holds s u \<and> int (length u) \<le> set_MultifragMaxRequestSize (rdp_settings A)
      \<and> int (length u) \<le> set_MultifragMaxRequestSize (rdp_settings B)"
    and "delivered (se_updates F) app (map (\<lambda>(code, s, skip, u). (code, u)) us) (app (rdp_world B), rdp_update B) hD"
  shows "\<exists>A' pdus. send_all E A (map (\<lambda>(code, s, skip, u). (code, s, skip)) us) = Some A'
    \<and> sent (rdp_world A') = sent (rdp_world A) @ concat pdus \<and> list_all fp_unit pdus
    \<and> (\<forall>ss. list_all2 carries ss pdus \<longrightarrow> (\<exists>B'. recv_all F B ss = Some B' \<and> (app (rdp_world B'), rdp_update B') = hD
        \<and> fp_fragmentation B' = - 1 \<and> bulk_in_step r (rdp_bulk A') (rdp_bulk B')))"
proof -
  let ?S = "rdp_settings B"
  have ph: "recv_phase app ?S (bulk_in_step r (rdp_bulk A)) (app (rdp_world B), rdp_update B) None B"
    using assms(3,4) by (simp add: recv_phase_def)
  obtain A' pdus where a: "send_all E A (map (\<lambda>(code, s, skip, u). (code, s, skip)) us) = Some A'"
    "sent (rdp_world A') = sent (rdp_world A) @ concat pdus" "list_all fp_unit pdus"
    "\<And>ss B1. list_all2 carries ss pdus \<Longrightarrow> recv_phase app ?S (bulk_in_step r (rdp_bulk A)) (app (rdp_world B), rdp_update B) None B1
      \<Longrightarrow> \<exists>B'. recv_all F B1 ss = Some B' \<and> recv_phase app ?S (bulk_in_step r (rdp_bulk A')) hD None B'"
    using session_arrives [OF assms(2,5) assms(6,7,1) refl assms(3)] by blast
  have "\<exists>B'. recv_all F B ss = Some B' \<and> (app (rdp_world B'), rdp_update B') = hD \<and> fp_fragmentation B' = - 1
      \<and> bulk_in_step r (rdp_bulk A') (rdp_bulk B')" if "list_all2 carries ss pdus" for ss
    using a(4) [OF that ph] by (auto simp: recv_phase_def)
  with a(1-3) show ?thesis by blast
qed

text \<open>The null pointer is an update without bytes.\<close>

lemma null_pointer_delivers: "delivers fp_updates fst 5 [] (h, D) (h, D\<lparr>upd_pointer_system := 0\<rparr>)"
  unfolding delivers_def
proof (intro allI impI)
  fix w :: pipe and s :: wStream assume "fst w = fst (h, D)"
  then show "\<exists>st w' n. fastpath_recv_update fp_updates 5 (int (length [])) (snd (h, D)) w s
      = Some ((st, snd (h, D\<lparr>upd_pointer_system := 0\<rparr>), w'), s_adv n s) \<and> 0 \<le> st \<and> fst w' = fst (h, D\<lparr>upd_pointer_system := 0\<rparr>)"
    by (intro exI [of _ 0] exI [of _ w] exI [of _ 0]) (simp add: fastpath_recv_update_def Let_def fp_updates_def quiet_updates_def)
qed

theorem fastpath_session_roundtrip_witness:
  "\<exists>A' pdus. send_all fp_session fp_end [(5, written [], False), (5, written [], True)] = Some A'
    \<and> snd (snd (rdp_world A')) = concat pdus \<and> list_all fp_unit pdus
    \<and> (\<forall>ss. list_all2 carries ss pdus \<longrightarrow> (\<exists>B'. recv_all fp_session fp_end ss = Some B' \<and> upd_pointer_system (rdp_update B') = 0))"
proof -
  let ?D = "update_new\<lparr>upd_pointer_system := 0\<rparr>"
  let ?us = "[(5, written [], False, []), (5, written [], True, [])]"
  have us: "\<forall>(code, s, skip, u) \<in> set ?us. holds s u \<and> int (length u) \<le> set_MultifragMaxRequestSize (rdp_settings fp_end)
      \<and> int (length u) \<le> set_MultifragMaxRequestSize (rdp_settings fp_end)"
    using written_holds [of "[]"] by simp
  have "delivers fp_updates fst 5 [] ([], update_new) ([], ?D)" "delivers fp_updates fst 5 [] ([], ?D) ([], ?D)"
    using null_pointer_delivers [of "[]" update_new] null_pointer_delivers [of "[]" ?D] by simp_all
  then have d: "delivered (se_updates fp_session) fst (map (\<lambda>(code, s, skip, u). (code, u)) ?us) (fst (rdp_world fp_end), rdp_update fp_end) ([], ?D)"
    by (auto simp: fp_session_def)
  have b: "bulk_in_step True (rdp_bulk fp_end) (rdp_bulk fp_end)" using fp_bulk_in_step by simp
  from fastpath_session_roundtrip [OF fp_ready b fp_end_simps(2) _ us d] show ?thesis by fastforce
qed

section \<open>Surface commands\<close>

text \<open>The application sees each command: what it sees of the world after a command depends on what it saw before.\<close>

definition sees_commands :: "'w updates \<Rightarrow> ('w \<Rightarrow> 'h) \<Rightarrow> (surfcmd \<Rightarrow> rdpUpdate \<times> 'h \<Rightarrow> rdpUpdate \<times> 'h) \<Rightarrow> bool" where
  "sees_commands U app see \<longleftrightarrow> (\<forall>c D w. map_prod id app (deliver_surfcmd U c (D, w)) = see c (D, app w))"

lemma sees_all: "sees_commands U app see \<Longrightarrow> map_prod id app (fold (deliver_surfcmd U) cs (D, w)) = fold see cs (D, app w)"
proof (induction cs arbitrary: D w)
  case (Cons c cs)
  obtain D1 w1 where "deliver_surfcmd U c (D, w) = (D1, w1)" by fastforce
  with Cons.prems Cons.IH [OF Cons.prems, of D1 w1] show ?case unfolding sees_commands_def by (metis fold_simps(2) id_apply map_prod_simp)
qed simp

lemma surfcmds_deliver:
  assumes "sees_commands U app see" "list_all surfcmd_ok cs"
  shows "delivers U app 4 (concat (map surfcmd_bytes cs)) (h, D) (prod.swap (fold see cs (D, h)))"
  unfolding delivers_def
proof (intro allI impI)
  fix w s assume w: "app w = fst (h, D)" and s: "s_ok s" "s_rest s = concat (map surfcmd_bytes cs)"
  obtain D1 w1 where f: "fold (deliver_surfcmd U) cs (D, w) = (D1, w1)" by fastforce
  have "fold see cs (D, h) = (D1, app w1)" using sees_all [OF assms(1), of cs D w] w f by simp
  moreover have "surfcmds_loop U D w 0 (int (length (concat (map surfcmd_bytes cs)))) s
      = Some ((0, D1, w1), s_adv (length (concat (map surfcmd_bytes cs))) s)"
    using surfcmds_loop_all [OF assms(2) s(1), of "[]" U D w 0] s(2) f by simp
  ultimately show "\<exists>st w' n. fastpath_recv_update U 4 (int (length (concat (map surfcmd_bytes cs)))) (snd (h, D)) w s
      = Some ((st, snd (prod.swap (fold see cs (D, h))), w'), s_adv n s) \<and> 0 \<le> st \<and> app w' = fst (prod.swap (fold see cs (D, h)))"
    by (intro exI [of _ 0] exI [of _ w1] exI [of _ "length (concat (map surfcmd_bytes cs))"])
      (simp add: fastpath_recv_update_def update_recv_surfcmds_def)
qed

lemma surfcmds_delivered:
  assumes "sees_commands U app see" "\<forall>cs \<in> set css. list_all surfcmd_ok cs"
  shows "delivered U app (map (\<lambda>cs. (4, concat (map surfcmd_bytes cs))) css) (h, D) (prod.swap (fold see (concat css) (D, h)))"
  using assms(2)
proof (induction css arbitrary: h D)
  case (Cons cs css)
  obtain D1 h1 where f: "fold see cs (D, h) = (D1, h1)" by fastforce
  have "delivers U app 4 (concat (map surfcmd_bytes cs)) (h, D) (h1, D1)" using surfcmds_deliver [OF assms(1), of cs h D] Cons.prems f by simp
  moreover have "delivered U app (map (\<lambda>cs. (4, concat (map surfcmd_bytes cs))) css) (h1, D1) (prod.swap (fold see (concat css) (D1, h1)))"
    using Cons.IH Cons.prems by simp
  ultimately show ?case using f by auto
qed simp

text \<open>
  C3. Surface commands end to end: each stream holds the encoding of a list of commands, as the writers of \<open>surface.c\<close> put them,
  and is sent as one update. The application of the client sees all the commands of all the updates, once each and in order.
\<close>

theorem surface_commands_roundtrip:
  fixes A :: "('w, 'n, 'x) rdpRdp" and B :: "('v, 'm, 'y) rdpRdp"
  assumes "sender_ready E sent A" "client_ready F app" "bulk_in_step r (rdp_bulk A) (rdp_bulk B)" "fp_fragmentation B = - 1"
    and "set_MultifragMaxRequestSize (rdp_settings B) \<le> 1073741823"
    and "set_MultifragMaxRequestSize (rdp_settings A) \<le> set_MultifragMaxRequestSize (rdp_settings B)"
    and "sees_commands (se_updates F) app see"
    and "\<forall>(s, skip, cs) \<in> set us. list_all surfcmd_ok cs \<and> holds s (concat (map surfcmd_bytes cs))
      \<and> s_pos s \<le> set_MultifragMaxRequestSize (rdp_settings A)"
  shows "\<exists>A' pdus. send_all E A (map (\<lambda>(s, skip, cs). (4, s, skip)) us) = Some A'
    \<and> sent (rdp_world A') = sent (rdp_world A) @ concat pdus \<and> list_all fp_unit pdus
    \<and> (\<forall>ss. list_all2 carries ss pdus \<longrightarrow> (\<exists>B'. recv_all F B ss = Some B'
        \<and> (rdp_update B', app (rdp_world B')) = fold see (concat (map (snd \<circ> snd) us)) (rdp_update B, app (rdp_world B))))"
proof -
  let ?us = "map (\<lambda>(s, skip, cs). (4 :: int, s, skip :: bool, concat (map surfcmd_bytes cs))) us"
  have "\<forall>cs \<in> set (map (snd \<circ> snd) us). list_all surfcmd_ok cs" using assms(8) by auto
  from surfcmds_delivered [OF assms(7) this]
  have d: "delivered (se_updates F) app (map (\<lambda>(code, s, skip, u). (code, u)) ?us) (app (rdp_world B), rdp_update B)
      (prod.swap (fold see (concat (map (snd \<circ> snd) us)) (rdp_update B, app (rdp_world B))))"
    by (simp add: comp_def split_def)
  have "\<forall>(code, s, skip, u) \<in> set ?us. holds s u \<and> int (length u) \<le> set_MultifragMaxRequestSize (rdp_settings A)
      \<and> int (length u) \<le> set_MultifragMaxRequestSize (rdp_settings B)"
    using assms(6,8) by (fastforce simp: holds_def)
  from session_arrives [OF assms(2,5) this d assms(1) refl assms(3)] obtain A' pdus where
    a: "send_all E A (map (\<lambda>(code, s, skip, u). (code, s, skip)) ?us) = Some A'"
      "sent (rdp_world A') = sent (rdp_world A) @ concat pdus" "list_all fp_unit pdus"
      "\<And>ss B1. list_all2 carries ss pdus
        \<Longrightarrow> recv_phase app (rdp_settings B) (bulk_in_step r (rdp_bulk A)) (app (rdp_world B), rdp_update B) None B1
        \<Longrightarrow> \<exists>B'. recv_all F B1 ss = Some B' \<and> recv_phase app (rdp_settings B) (bulk_in_step r (rdp_bulk A'))
          (prod.swap (fold see (concat (map (snd \<circ> snd) us)) (rdp_update B, app (rdp_world B)))) None B'"
    by blast
  have m: "map (\<lambda>(code, s, skip, u). (code, s, skip)) ?us = map (\<lambda>(s, skip, cs). (4, s, skip)) us" by (simp add: comp_def split_def)
  have ph: "recv_phase app (rdp_settings B) (bulk_in_step r (rdp_bulk A)) (app (rdp_world B), rdp_update B) None B"
    using assms(3,4) by (simp add: recv_phase_def)
  have "\<exists>B'. recv_all F B ss = Some B' \<and> (rdp_update B', app (rdp_world B'))
      = fold see (concat (map (snd \<circ> snd) us)) (rdp_update B, app (rdp_world B))" if "list_all2 carries ss pdus" for ss
    using a(4) [OF that ph] by (auto simp: recv_phase_def)
  with a(1-3) show ?thesis unfolding m by blast
qed

definition see_marker :: "surfcmd \<Rightarrow> rdpUpdate \<times> byte list list \<Rightarrow> rdpUpdate \<times> byte list list" where
  "see_marker c = (\<lambda>(D, ps). case c of
     FrameMarker action frameId \<Rightarrow> (D\<lparr>upd_surface_frame_marker := \<lparr>fm_frameAction = action, fm_frameId = frameId\<rparr>\<rparr>, ps @ [[word_of_int action]])
   | SurfaceBits cmd \<Rightarrow> (D\<lparr>upd_surface_bits_command := cmd\<lparr>sb_skipCompression := sb_skipCompression (upd_surface_bits_command D)\<rparr>\<rparr>, ps))"

lemma fp_sees_commands: "sees_commands fp_updates fst see_marker"
  unfolding sees_commands_def
proof (intro allI)
  fix c D and w :: pipe
  show "map_prod id fst (deliver_surfcmd fp_updates c (D, w)) = see_marker c (D, fst w)"
    by (cases c; cases w) (auto simp: see_marker_def fp_updates_def quiet_updates_def Let_def)
qed

theorem surface_commands_roundtrip_witness:
  "\<exists>A' pdus. send_all fp_session fp_end [(4, written (surfcmd_bytes (FrameMarker 0 7) @ surfcmd_bytes (FrameMarker 1 7)), False)] = Some A'
    \<and> snd (snd (rdp_world A')) = concat pdus
    \<and> (\<forall>ss. list_all2 carries ss pdus \<longrightarrow> (\<exists>B'. recv_all fp_session fp_end ss = Some B' \<and> fst (rdp_world B') = [[0], [1]]))"
proof -
  let ?cs = "[FrameMarker 0 7, FrameMarker 1 7]"
  let ?us = "[(written (concat (map surfcmd_bytes ?cs)), False, ?cs)]"
  have us: "\<forall>(s, skip, cs) \<in> set ?us. list_all surfcmd_ok cs \<and> holds s (concat (map surfcmd_bytes cs))
      \<and> s_pos s \<le> set_MultifragMaxRequestSize (rdp_settings fp_end)"
    using written_holds [of "concat (map surfcmd_bytes ?cs)"] by (simp add: written_def)
  have b: "bulk_in_step True (rdp_bulk fp_end) (rdp_bulk fp_end)" using fp_bulk_in_step by simp
  have s: "sees_commands (se_updates fp_session) fst see_marker" using fp_sees_commands by (simp add: fp_session_def)
  have "fold see_marker (concat (map (snd \<circ> snd) ?us)) (rdp_update fp_end, fst (rdp_world fp_end))
      = (update_new\<lparr>upd_surface_frame_marker := \<lparr>fm_frameAction = 1, fm_frameId = 7\<rparr>\<rparr>, [[0], [1]])"
    by (simp add: see_marker_def)
  with surface_commands_roundtrip [OF fp_ready b fp_end_simps(2) _ order_refl s us] show ?thesis by fastforce
qed

section \<open>Bitmap updates\<close>

text \<open>
  C5. A bitmap update of up to 32767 rectangles that the writer puts into an empty stream, read by \<open>update_recv\<close>, the slow path,
  and by the handler of the fast path for updates of the type bitmap: on both the client accepts it, reads all of it and calls
  its callback with the same pictures, compressed or not, with or without the compression header, whatever its struct held before.
\<close>

theorem bitmap_update_roundtrip:
  assumes "holds s []" "s_capacity s \<le> 268435456" "list_all (bitmap_ok noHdr) ds" "length ds < 32768"
    and "length (concat (map (bitmap_bytes noHdr) ds)) \<le> 67108860"
    and "bu_rectangles bu = ds @ post" "bu_number bu = int (length ds)"
    and "bu_wf (upd_bitmap_update upd)" "realloc_rectangles U (cb_BeginPaint U w) = (Some j1, w1)" "realloc_rectangles U w = (Some j2, w2)"
  shows "\<exists>bu' s' slow fast. update_write_bitmap_update (Some j0) (\<lambda>k. Some (j k)) noHdr bu s = Some ((True, bu'), s')
    \<and> update_recv U upd w (s'\<lparr>s_pos := 0, s_length := s_pos s'\<rparr>)
        = Some ((True, upd\<lparr>upd_bitmap_update := slow\<rparr>, cb_EndPaint U (cb_BitmapUpdate U slow w1)), s'\<lparr>s_length := s_pos s'\<rparr>)
    \<and> fastpath_recv_update U FASTPATH_UPDATETYPE_BITMAP (s_pos s') upd w (s'\<lparr>s_pos := 0, s_length := s_pos s'\<rparr>)
        = Some ((0, upd\<lparr>upd_bitmap_update := fast\<rparr>, cb_BitmapUpdate U fast w2), s'\<lparr>s_length := s_pos s'\<rparr>)
    \<and> (\<forall>got \<in> {slow, fast}. bu_wf got \<and> bu_number got = int (length ds)
        \<and> map (bitmap_view noHdr) (take (length ds) (bu_rectangles got)) = map (bitmap_view noHdr) ds)"
proof -
  obtain bu' s' where w: "update_write_bitmap_update (Some j0) (\<lambda>k. Some (j k)) noHdr bu s = Some ((True, bu'), s')"
    and r: "Stream_Read_UINT16 (s'\<lparr>s_pos := 0, s_length := s_pos s'\<rparr>) = Some (1, s_adv 2 (s'\<lparr>s_pos := 0, s_length := s_pos s'\<rparr>))"
      "\<not> Stream_GetRemainingLength (s'\<lparr>s_pos := 0, s_length := s_pos s'\<rparr>) < 2"
    and got: "\<And>j. \<exists>got. update_read_bitmap_update (Some j) (upd_bitmap_update upd) (s_adv 2 (s'\<lparr>s_pos := 0, s_length := s_pos s'\<rparr>))
        = Some ((True, got), s'\<lparr>s_length := s_pos s'\<rparr>)
      \<and> bu_wf got \<and> bu_number got = int (length ds)
      \<and> map (bitmap_view noHdr) (take (length ds) (bu_rectangles got)) = map (bitmap_view noHdr) ds"
    using bitmap_update_read [OF assms(1-7)] assms(8) by blast
  obtain slow fast where g: "update_read_bitmap_update (Some j1) (upd_bitmap_update upd) (s_adv 2 (s'\<lparr>s_pos := 0, s_length := s_pos s'\<rparr>))
        = Some ((True, slow), s'\<lparr>s_length := s_pos s'\<rparr>)"
      "update_read_bitmap_update (Some j2) (upd_bitmap_update upd) (s_adv 2 (s'\<lparr>s_pos := 0, s_length := s_pos s'\<rparr>))
        = Some ((True, fast), s'\<lparr>s_length := s_pos s'\<rparr>)"
    and v: "\<forall>got \<in> {slow, fast}. bu_wf got \<and> bu_number got = int (length ds)
        \<and> map (bitmap_view noHdr) (take (length ds) (bu_rectangles got)) = map (bitmap_view noHdr) ds"
    using got [of j1] got [of j2] by auto
  have "update_recv U upd w (s'\<lparr>s_pos := 0, s_length := s_pos s'\<rparr>)
      = Some ((True, upd\<lparr>upd_bitmap_update := slow\<rparr>, cb_EndPaint U (cb_BitmapUpdate U slow w1)), s'\<lparr>s_length := s_pos s'\<rparr>)"
    using r g(1) assms(9) by (simp add: update_recv_def recv_bitmap_update_def Let_def)
  moreover have "fastpath_recv_update U FASTPATH_UPDATETYPE_BITMAP (s_pos s') upd w (s'\<lparr>s_pos := 0, s_length := s_pos s'\<rparr>)
      = Some ((0, upd\<lparr>upd_bitmap_update := fast\<rparr>, cb_BitmapUpdate U fast w2), s'\<lparr>s_length := s_pos s'\<rparr>)"
    using r g(2) assms(10)
    by (simp add: fastpath_recv_update_def fastpath_recv_update_common_def recv_bitmap_update_def Let_def as_status_def)
  ultimately show ?thesis using w v by blast
qed

theorem bitmap_update_roundtrip_witness:
  "\<forall>w :: nat. \<exists>bu' s' slow fast. update_write_bitmap_update (Some (\<lambda>_. 0)) (\<lambda>_. Some (\<lambda>_. 0)) False
        \<lparr>bu_count = 1, bu_number = 1, bu_rectangles = [zero_bitmap], bu_skipCompression = False\<rparr> (blank 100) = Some ((True, bu'), s')
      \<and> update_recv quiet_updates update_new w (s'\<lparr>s_pos := 0, s_length := s_pos s'\<rparr>)
        = Some ((True, update_new\<lparr>upd_bitmap_update := slow\<rparr>, w), s'\<lparr>s_length := s_pos s'\<rparr>)
      \<and> fastpath_recv_update quiet_updates FASTPATH_UPDATETYPE_BITMAP (s_pos s') update_new w (s'\<lparr>s_pos := 0, s_length := s_pos s'\<rparr>)
        = Some ((0, update_new\<lparr>upd_bitmap_update := fast\<rparr>, w), s'\<lparr>s_length := s_pos s'\<rparr>)
      \<and> map (bitmap_view False) (take 1 (bu_rectangles slow)) = [bitmap_view False zero_bitmap]
      \<and> map (bitmap_view False) (take 1 (bu_rectangles fast)) = [bitmap_view False zero_bitmap]"
proof
  fix w :: nat
  let ?bu = "\<lparr>bu_count = 1, bu_number = 1, bu_rectangles = [zero_bitmap], bu_skipCompression = False\<rparr>"
  have b: "bitmap_ok False zero_bitmap" "length (bitmap_bytes False zero_bitmap) = 18"
    by (simp_all add: bitmap_ok_def bitmap_hdr_def zero_bitmap_def bitmap_bytes_def)
  have s: "holds (blank 100) []" "s_capacity (blank 100) \<le> 268435456" by (simp_all add: holds_def)
  have r: "realloc_rectangles quiet_updates (cb_BeginPaint quiet_updates w) = (Some (\<lambda>_. zero_bitmap), w)"
    "realloc_rectangles quiet_updates w = (Some (\<lambda>_. zero_bitmap), w)"
    by (simp_all add: quiet_updates_def)
  have "bu_wf (upd_bitmap_update update_new)" by (simp add: bu_wf_def)
  from bitmap_update_roundtrip [OF s, of False "[zero_bitmap]" ?bu "[]", OF _ _ _ _ _ this r, of "\<lambda>_. 0" "\<lambda>_ _. 0"] b
  show "\<exists>bu' s' slow fast. update_write_bitmap_update (Some (\<lambda>_. 0)) (\<lambda>_. Some (\<lambda>_. 0)) False ?bu (blank 100) = Some ((True, bu'), s')
      \<and> update_recv quiet_updates update_new w (s'\<lparr>s_pos := 0, s_length := s_pos s'\<rparr>)
        = Some ((True, update_new\<lparr>upd_bitmap_update := slow\<rparr>, w), s'\<lparr>s_length := s_pos s'\<rparr>)
      \<and> fastpath_recv_update quiet_updates FASTPATH_UPDATETYPE_BITMAP (s_pos s') update_new w (s'\<lparr>s_pos := 0, s_length := s_pos s'\<rparr>)
        = Some ((0, update_new\<lparr>upd_bitmap_update := fast\<rparr>, w), s'\<lparr>s_length := s_pos s'\<rparr>)
      \<and> map (bitmap_view False) (take 1 (bu_rectangles slow)) = [bitmap_view False zero_bitmap]
      \<and> map (bitmap_view False) (take 1 (bu_rectangles fast)) = [bitmap_view False zero_bitmap]"
    by (simp del: bex_simps ex_simps) (elim exE conjE, intro exI conjI, assumption+)
qed

end
