(* ===== verification/WRdpPdu.thy ===== *)
theory WRdpPdu
  imports WRdp WTpdu
begin

text \<open>
  The slow path of \<open>libfreerdp/core/rdp.c\<close>: the headers of the RDP layer, the streams in which a unit is built behind the
  room left for its headers, and the functions that write the headers, sign and encrypt the content and send it.
\<close>

abbreviation (input) RDP_PACKET_HEADER_MAX_LENGTH :: int where "RDP_PACKET_HEADER_MAX_LENGTH \<equiv> 15"
abbreviation (input) RDP_SHARE_CONTROL_HEADER_LENGTH :: int where "RDP_SHARE_CONTROL_HEADER_LENGTH \<equiv> 6"
abbreviation (input) RDP_SHARE_DATA_HEADER_LENGTH :: int where "RDP_SHARE_DATA_HEADER_LENGTH \<equiv> 12"
abbreviation (input) PDU_TYPE_DATA :: int where "PDU_TYPE_DATA \<equiv> 7"
abbreviation (input) PDU_TYPE_DEACTIVATE_ALL :: int where "PDU_TYPE_DEACTIVATE_ALL \<equiv> 6"
abbreviation (input) PDU_TYPE_CONFIRM_ACTIVE :: int where "PDU_TYPE_CONFIRM_ACTIVE \<equiv> 3"
abbreviation (input) PDU_TYPE_SERVER_REDIRECTION :: int where "PDU_TYPE_SERVER_REDIRECTION \<equiv> 10"
abbreviation (input) PDU_TYPE_FLOW_TEST :: int where "PDU_TYPE_FLOW_TEST \<equiv> 0x41"
abbreviation (input) PDU_TYPE_FLOW_RESPONSE :: int where "PDU_TYPE_FLOW_RESPONSE \<equiv> 0x42"
abbreviation (input) PDU_TYPE_FLOW_STOP :: int where "PDU_TYPE_FLOW_STOP \<equiv> 0x43"
abbreviation (input) STREAM_LOW :: int where "STREAM_LOW \<equiv> 1"
abbreviation (input) DomainMCSPDU_SendDataRequest :: int where "DomainMCSPDU_SendDataRequest \<equiv> 25"
abbreviation (input) DomainMCSPDU_SendDataIndication :: int where "DomainMCSPDU_SendDataIndication \<equiv> 26"
abbreviation (input) ERRINFO_SUCCESS :: int where "ERRINFO_SUCCESS \<equiv> 0"
abbreviation (input) ERRINFO_RPC_INITIATED_DISCONNECT :: int where "ERRINFO_RPC_INITIATED_DISCONNECT \<equiv> 1"
abbreviation (input) ERRINFO_LOGOFF_BY_USER :: int where "ERRINFO_LOGOFF_BY_USER \<equiv> 0xC"
abbreviation (input) MCS_Reason_provider_initiated :: int where "MCS_Reason_provider_initiated \<equiv> 1"
abbreviation (input) MCS_Reason_user_requested :: int where "MCS_Reason_user_requested \<equiv> 3"

section \<open>Headers\<close>

definition rdp_read_security_header :: "wStream \<Rightarrow> (int option \<times> wStream) option" where
  "rdp_read_security_header s =
     (if Stream_GetRemainingLength s < 4 then Some (None, s)
      else do {
        (flags, s) \<leftarrow> Stream_Read_UINT16 s;
        s \<leftarrow> Stream_Seek s 2;
        Some (Some flags, s) })"

definition rdp_write_security_header :: "wStream \<Rightarrow> int \<Rightarrow> wStream option" where
  "rdp_write_security_header s flags = do {
     s \<leftarrow> Stream_Write_UINT16 s flags;
     Stream_Write_UINT16 s 0 }"

definition rdp_read_flow_control_pdu :: "wStream \<Rightarrow> (int \<times> wStream) option" where
  "rdp_read_flow_control_pdu s = do {
     (pduType, s) \<leftarrow> Stream_Read_UINT8 s;
     s \<leftarrow> Stream_Seek s 1;
     s \<leftarrow> Stream_Seek s 1;
     s \<leftarrow> Stream_Seek s 1;
     s \<leftarrow> Stream_Seek s 2;
     Some (pduType, s) }"

text \<open>The length, the type and the source of a PDU. The type is read without a check where the length is 2 or 3.\<close>

definition rdp_read_share_control_header :: "wStream \<Rightarrow> ((int \<times> int \<times> int) option \<times> wStream) option" where
  "rdp_read_share_control_header s =
     (if Stream_GetRemainingLength s < 2 then Some (None, s)
      else do {
        (len, s) \<leftarrow> Stream_Read_UINT16 s;
        if len = 0x8000 then do {
          (pduType, s) \<leftarrow> rdp_read_flow_control_pdu s;
          Some (Some (8, pduType, 0), s) }
        else if Stream_GetRemainingLength s < csize (len - 2) then Some (None, s)
        else do {
          (pduType, s) \<leftarrow> Stream_Read_UINT16 s;
          let pduType = pduType AND 0x0F;
          if 4 < len then do {
            (channel_id, s) \<leftarrow> Stream_Read_UINT16 s;
            Some (Some (len, pduType, channel_id), s) }
          else Some (Some (len, pduType, 0), s) } })"

definition rdp_write_share_control_header :: "wStream \<Rightarrow> int \<Rightarrow> int \<Rightarrow> int \<Rightarrow> wStream option" where
  "rdp_write_share_control_header s len pduType channel_id = do {
     let len = u16 (len - RDP_PACKET_HEADER_MAX_LENGTH);
     s \<leftarrow> Stream_Write_UINT16 s len;
     s \<leftarrow> Stream_Write_UINT16 s (pduType OR 0x10);
     Stream_Write_UINT16 s channel_id }"

text \<open>The length, the type, the share, and the flags and length of the compressed data.\<close>

definition rdp_read_share_data_header :: "wStream \<Rightarrow> ((int \<times> int \<times> int \<times> int \<times> int) option \<times> wStream) option" where
  "rdp_read_share_data_header s =
     (if Stream_GetRemainingLength s < 12 then Some (None, s)
      else do {
        (shareId, s) \<leftarrow> Stream_Read_UINT32 s;
        s \<leftarrow> Stream_Seek s 1;
        s \<leftarrow> Stream_Seek s 1;
        (len, s) \<leftarrow> Stream_Read_UINT16 s;
        (pduType2, s) \<leftarrow> Stream_Read_UINT8 s;
        (compressedType, s) \<leftarrow> Stream_Read_UINT8 s;
        (compressedLength, s) \<leftarrow> Stream_Read_UINT16 s;
        Some (Some (len, pduType2, shareId, compressedType, compressedLength), s) })"

definition rdp_write_share_data_header :: "wStream \<Rightarrow> int \<Rightarrow> int \<Rightarrow> int \<Rightarrow> wStream option" where
  "rdp_write_share_data_header s len pduType2 share_id = do {
     let len = u16 (len - RDP_PACKET_HEADER_MAX_LENGTH - RDP_SHARE_CONTROL_HEADER_LENGTH - RDP_SHARE_DATA_HEADER_LENGTH);
     s \<leftarrow> Stream_Write_UINT32 s share_id;
     s \<leftarrow> Stream_Write_UINT8 s 0;
     s \<leftarrow> Stream_Write_UINT8 s STREAM_LOW;
     s \<leftarrow> Stream_Write_UINT16 s len;
     s \<leftarrow> Stream_Write_UINT8 s pduType2;
     s \<leftarrow> Stream_Write_UINT8 s 0;
     Stream_Write_UINT16 s 0 }"

section \<open>Room for the headers\<close>

definition rdp_security_stream_init :: "('w, 'n, 'x) rdpRdp \<Rightarrow> wStream \<Rightarrow> bool \<Rightarrow> (('w, 'n, 'x) rdpRdp \<times> wStream) option" where
  "rdp_security_stream_init rdp s sec_header =
     (if rdp_do_crypt rdp then do {
        s \<leftarrow> Stream_Seek s 12;
        s \<leftarrow> (if set_EncryptionMethods (rdp_settings rdp) = ENCRYPTION_METHOD_FIPS then Stream_Seek s 4 else Some s);
        let rdp = rdp\<lparr>rdp_sec_flags := rdp_sec_flags rdp OR SEC_ENCRYPT\<rparr>;
        let rdp = (if rdp_do_secure_checksum rdp then rdp\<lparr>rdp_sec_flags := rdp_sec_flags rdp OR SEC_SECURE_CHECKSUM\<rparr> else rdp);
        Some (rdp, s) }
      else if rdp_sec_flags rdp \<noteq> 0 \<or> sec_header then do { s \<leftarrow> Stream_Seek s 4; Some (rdp, s) }
      else Some (rdp, s))"

definition rdp_init_stream :: "('w, 'n, 'x) rdpRdp \<Rightarrow> wStream \<Rightarrow> (('w, 'n, 'x) rdpRdp \<times> wStream) option" where
  "rdp_init_stream rdp s = do {
     s \<leftarrow> Stream_Seek s RDP_PACKET_HEADER_MAX_LENGTH;
     rdp_security_stream_init rdp s False }"

definition rdp_init_stream_pdu :: "('w, 'n, 'x) rdpRdp \<Rightarrow> wStream \<Rightarrow> (('w, 'n, 'x) rdpRdp \<times> wStream) option" where
  "rdp_init_stream_pdu rdp s = do {
     s \<leftarrow> Stream_Seek s RDP_PACKET_HEADER_MAX_LENGTH;
     (rdp, s) \<leftarrow> rdp_security_stream_init rdp s False;
     s \<leftarrow> Stream_Seek s RDP_SHARE_CONTROL_HEADER_LENGTH;
     Some (rdp, s) }"

definition rdp_init_stream_data_pdu :: "('w, 'n, 'x) rdpRdp \<Rightarrow> wStream \<Rightarrow> (('w, 'n, 'x) rdpRdp \<times> wStream) option" where
  "rdp_init_stream_data_pdu rdp s = do {
     s \<leftarrow> Stream_Seek s RDP_PACKET_HEADER_MAX_LENGTH;
     (rdp, s) \<leftarrow> rdp_security_stream_init rdp s False;
     s \<leftarrow> Stream_Seek s RDP_SHARE_CONTROL_HEADER_LENGTH;
     s \<leftarrow> Stream_Seek s RDP_SHARE_DATA_HEADER_LENGTH;
     Some (rdp, s) }"

text \<open>Only the message channel looks whether there is a stream; elsewhere the null pointer is used.\<close>

definition rdp_send_stream_init :: "('w, 'n, 'x) session \<Rightarrow> ('w, 'n, 'x) rdpRdp \<Rightarrow> (('w, 'n, 'x) rdpRdp \<times> wStream) option" where
  "rdp_send_stream_init E rdp = do {
     (s, rdp) \<leftarrow> transport_send_stream_init E 2048 rdp;
     s \<leftarrow> s;
     rdp_init_stream rdp s }"

definition rdp_data_pdu_init :: "('w, 'n, 'x) session \<Rightarrow> ('w, 'n, 'x) rdpRdp \<Rightarrow> (('w, 'n, 'x) rdpRdp \<times> wStream) option" where
  "rdp_data_pdu_init E rdp = do {
     (s, rdp) \<leftarrow> transport_send_stream_init E 2048 rdp;
     s \<leftarrow> s;
     rdp_init_stream_data_pdu rdp s }"

definition rdp_message_channel_pdu_init :: "('w, 'n, 'x) session \<Rightarrow> ('w, 'n, 'x) rdpRdp \<Rightarrow>
    (('w, 'n, 'x) rdpRdp \<times> wStream option) option" where
  "rdp_message_channel_pdu_init E rdp = do {
     (s, rdp) \<leftarrow> transport_send_stream_init E 2048 rdp;
     case s of None \<Rightarrow> Some (rdp, None)
     | Some s \<Rightarrow> do {
         s \<leftarrow> Stream_Seek s RDP_PACKET_HEADER_MAX_LENGTH;
         (rdp, s) \<leftarrow> rdp_security_stream_init rdp s True;
         Some (rdp, Some s) } }"

section \<open>The packet header\<close>

definition rdp_set_error_info :: "('w, 'n, 'x) session \<Rightarrow> int \<Rightarrow> ('w, 'n, 'x) rdpRdp \<Rightarrow> ('w, 'n, 'x) rdpRdp" where
  "rdp_set_error_info E errorInfo rdp =
     (let rdp = rdp\<lparr>rdp_errorInfo := errorInfo\<rparr>
      in if errorInfo \<noteq> ERRINFO_SUCCESS then
           rdp_set_world (cb_ErrorInfo (se_app E) errorInfo (rdp_world rdp))
             (rdp\<lparr>rdp_transport := (rdp_transport rdp)\<lparr>tp_last_error := 0x10000 OR errorInfo\<rparr>\<rparr>)
         else rdp\<lparr>rdp_transport := (rdp_transport rdp)\<lparr>tp_last_error := 0\<rparr>\<rparr>)"

text \<open>The other side has ended the connection.\<close>

definition rdp_recv_disconnect :: "('w, 'n, 'x) session \<Rightarrow> ('w, 'n, 'x) rdpRdp \<Rightarrow> wStream \<Rightarrow>
    ((bool \<times> ('w, 'n, 'x) rdpRdp) \<times> wStream) option" where
  "rdp_recv_disconnect E rdp s = do {
     (reason, s) \<leftarrow> mcs_recv_disconnect_provider_ultimatum (rdp_mcs rdp) s;
     case reason of None \<Rightarrow> Some ((False, rdp), s)
     | Some reason \<Rightarrow>
         if \<not> rdp_instance rdp then Some ((False, rdp\<lparr>rdp_disconnect := True\<rparr>), s)
         else
           let rdp = (if rdp_errorInfo rdp = ERRINFO_SUCCESS then
                   if reason = MCS_Reason_provider_initiated then rdp_set_error_info E ERRINFO_RPC_INITIATED_DISCONNECT rdp
                   else if reason = MCS_Reason_user_requested then rdp_set_error_info E ERRINFO_LOGOFF_BY_USER rdp
                   else rdp_set_error_info E ERRINFO_RPC_INITIATED_DISCONNECT rdp
                 else rdp);
               rdp = rdp\<lparr>rdp_disconnect := True\<rparr>
           in Some ((True, rdp_set_world (cb_Terminate (se_app E) (rdp_world rdp)) rdp), s) }"

text \<open>The length and the channel of a unit; when the other side disconnects the channel is left unset.\<close>

definition rdp_read_header :: "('w, 'n, 'x) session \<Rightarrow> ('w, 'n, 'x) rdpRdp \<Rightarrow> wStream \<Rightarrow>
    (((int \<times> int) option \<times> ('w, 'n, 'x) rdpRdp) \<times> wStream) option" where
  "rdp_read_header E rdp s = do {
     let MCSPDU = (if rdp_ServerMode rdp then DomainMCSPDU_SendDataRequest else DomainMCSPDU_SendDataIndication);
     (len, s) \<leftarrow> tpkt_read_header s;
     (h, s) \<leftarrow> tpdu_read_header s;
     case h of None \<Rightarrow> Some ((None, rdp), s)
     | Some (code, li) \<Rightarrow>
         if code \<noteq> X224_TPDU_DATA then
           if code = X224_TPDU_DISCONNECT_REQUEST then Some ((Some (len, 0), rdp\<lparr>rdp_disconnect := True\<rparr>), s)
           else Some ((None, rdp), s)
         else do {
           (choice, s) \<leftarrow> per_read_choice s;
           (case choice of None \<Rightarrow> Some ((None, rdp), s)
            | Some choice \<Rightarrow>
                let domainMCSPDU = drop_bit 2 choice in
                if domainMCSPDU \<noteq> MCSPDU \<and> domainMCSPDU \<noteq> DomainMCSPDU_DisconnectProviderUltimatum then Some ((None, rdp), s)
                else if Stream_GetRemainingLength s < csize (len - 8) then Some ((None, rdp), s)
                else if domainMCSPDU = DomainMCSPDU_DisconnectProviderUltimatum then do {
                  ((ok, rdp), s) \<leftarrow> rdp_recv_disconnect E rdp s;
                  Some ((if ok then Some (len, 0) else None, rdp), s) }
                else if Stream_GetRemainingLength s < 5 then Some ((None, rdp), s)
                else do {
                  (initiator, s) \<leftarrow> per_read_integer16 s MCS_BASE_CHANNEL_ID;
                  (channelId, s) \<leftarrow> per_read_integer16 s 0;
                  channelId \<leftarrow> channelId;
                  (priority, s) \<leftarrow> Stream_Read_UINT8 s;
                  (len, s) \<leftarrow> per_read_length s;
                  (case len of None \<Rightarrow> Some ((None, rdp), s)
                   | Some len \<Rightarrow>
                       if Stream_GetRemainingLength s < len then Some ((None, rdp), s)
                       else Some ((Some (len, channelId), rdp), s)) }) } }"

definition rdp_write_header :: "('w, 'n, 'x) rdpRdp \<Rightarrow> wStream \<Rightarrow> int \<Rightarrow> int \<Rightarrow> wStream option" where
  "rdp_write_header rdp s len channelId = do {
     let MCSPDU = (if rdp_ServerMode rdp then DomainMCSPDU_SendDataIndication else DomainMCSPDU_SendDataRequest);
     len \<leftarrow>
       (if rdp_sec_flags rdp AND SEC_ENCRYPT \<noteq> 0 \<and> set_EncryptionMethods (rdp_settings rdp) = ENCRYPTION_METHOD_FIPS then do {
          let body_length = len - RDP_PACKET_HEADER_MAX_LENGTH - 16;
          r \<leftarrow> crem body_length 8;
          let pad = 8 - r;
          Some (if pad \<noteq> 8 then u16 (len + pad) else len) }
        else Some len);
     s \<leftarrow> mcs_write_domain_mcspdu_header s MCSPDU len 0;
     s \<leftarrow> per_write_integer16 s (mcs_userId (rdp_mcs rdp)) MCS_BASE_CHANNEL_ID;
     s \<leftarrow> per_write_integer16 s channelId 0;
     s \<leftarrow> Stream_Write_UINT8 s 0x70;
     Stream_Write_UINT16_BE s (u16 ((len - RDP_PACKET_HEADER_MAX_LENGTH) OR 0x8000)) }"

section \<open>Sending\<close>

text \<open>The padding that was added, for \<open>len\<close> bytes from the start of the buffer.\<close>

definition rdp_security_stream_out :: "('w, 'n, 'x) session \<Rightarrow> ('w, 'n, 'x) rdpRdp \<Rightarrow> wStream \<Rightarrow> int \<Rightarrow> int \<Rightarrow>
    (int \<times> ('w, 'n, 'x) rdpRdp \<times> wStream) option" where
  "rdp_security_stream_out E rdp s len sec_flags =
     (let sec_flags = sec_flags OR rdp_sec_flags rdp
      in if sec_flags \<noteq> 0 then do {
           s \<leftarrow> rdp_write_security_header s sec_flags;
           (pad, w, s) \<leftarrow>
             (if sec_flags AND SEC_ENCRYPT \<noteq> 0 then
                if set_EncryptionMethods (rdp_settings rdp) = ENCRYPTION_METHOD_FIPS then do {
                  let data = s_pos s + 12;
                  let len = len - data;
                  s \<leftarrow> Stream_Write_UINT16 s 0x10;
                  s \<leftarrow> Stream_Write_UINT8 s 0x1;
                  r \<leftarrow> crem len 8;
                  let pad = (if 8 - r = 8 then 0 else 8 - r);
                  buf \<leftarrow> (if pad \<noteq> 0 then afill (s_buffer s) (data + len) pad 0 else Some (s_buffer s));
                  s \<leftarrow> Stream_Write_UINT8 (s\<lparr>s_buffer := buf\<rparr>) pad;
                  (s, w) \<leftarrow> seal_bytes E True False data (len + pad) pad (s_pos s) s (rdp_world rdp);
                  s \<leftarrow> Stream_Seek s 8;
                  Some (pad, w, s) }
                else do {
                  let data = s_pos s + 8;
                  let len = len - data;
                  (s, w) \<leftarrow> seal_bytes E False (sec_flags AND SEC_SECURE_CHECKSUM \<noteq> 0) data len 0 (s_pos s) s (rdp_world rdp);
                  s \<leftarrow> Stream_Seek s 8;
                  Some (0, w, s) }
              else Some (0, rdp_world rdp, s));
           Some (pad, (rdp_set_world w rdp)\<lparr>rdp_sec_flags := 0\<rparr>, s) }
         else Some (0, rdp, s))"

definition rdp_get_sec_bytes :: "('w, 'n, 'x) rdpRdp \<Rightarrow> int \<Rightarrow> int" where
  "rdp_get_sec_bytes rdp sec_flags =
     (if rdp_sec_flags rdp AND SEC_ENCRYPT \<noteq> 0
      then 12 + (if set_EncryptionMethods (rdp_settings rdp) = ENCRYPTION_METHOD_FIPS then 4 else 0)
      else if rdp_sec_flags rdp \<noteq> 0 \<or> sec_flags \<noteq> 0 then 4 else 0)"

text \<open>The end of every sender: the content is secured, the stream sealed and written.\<close>

definition rdp_send_out :: "('w, 'n, 'x) session \<Rightarrow> ('w, 'n, 'x) rdpRdp \<Rightarrow> wStream \<Rightarrow> int \<Rightarrow> int \<Rightarrow>
    (bool \<times> ('w, 'n, 'x) rdpRdp \<times> wStream) option" where
  "rdp_send_out E rdp s len sec_flags = do {
     (pad, rdp, s) \<leftarrow> rdp_security_stream_out E rdp s len sec_flags;
     s \<leftarrow> Stream_SetPosition s (u16 (len + pad));
     let s = Stream_SealLength s;
     (status, t, s) \<leftarrow> transport_write (se_net E) (rdp_transport rdp) s;
     Some (\<not> status < 0, rdp\<lparr>rdp_transport := t\<rparr>, s) }"

definition rdp_send :: "('w, 'n, 'x) session \<Rightarrow> ('w, 'n, 'x) rdpRdp \<Rightarrow> wStream \<Rightarrow> int \<Rightarrow>
    (bool \<times> ('w, 'n, 'x) rdpRdp \<times> wStream) option" where
  "rdp_send E rdp s channel_id = do {
     let len = u16 (s_pos s);
     s \<leftarrow> Stream_SetPosition s 0;
     s \<leftarrow> rdp_write_header rdp s len channel_id;
     rdp_send_out E rdp s len 0 }"

definition rdp_send_pdu :: "('w, 'n, 'x) session \<Rightarrow> ('w, 'n, 'x) rdpRdp \<Rightarrow> wStream \<Rightarrow> int \<Rightarrow> int \<Rightarrow>
    (bool \<times> ('w, 'n, 'x) rdpRdp \<times> wStream) option" where
  "rdp_send_pdu E rdp s pduType channel_id = do {
     let len = u16 (s_pos s);
     s \<leftarrow> Stream_SetPosition s 0;
     s \<leftarrow> rdp_write_header rdp s len MCS_GLOBAL_CHANNEL_ID;
     let sec_bytes = rdp_get_sec_bytes rdp 0;
     let sec_hold = as_int (s_pos s);
     s \<leftarrow> Stream_Seek s sec_bytes;
     s \<leftarrow> rdp_write_share_control_header s (u16 (len - sec_bytes)) pduType channel_id;
     s \<leftarrow> Stream_SetPosition s sec_hold;
     rdp_send_out E rdp s len 0 }"

definition rdp_send_data_pdu :: "('w, 'n, 'x) session \<Rightarrow> ('w, 'n, 'x) rdpRdp \<Rightarrow> wStream \<Rightarrow> int \<Rightarrow> int \<Rightarrow>
    (bool \<times> ('w, 'n, 'x) rdpRdp \<times> wStream) option" where
  "rdp_send_data_pdu E rdp s pduType2 channel_id = do {
     let len = u16 (s_pos s);
     s \<leftarrow> Stream_SetPosition s 0;
     s \<leftarrow> rdp_write_header rdp s len MCS_GLOBAL_CHANNEL_ID;
     let sec_bytes = rdp_get_sec_bytes rdp 0;
     let sec_hold = as_int (s_pos s);
     s \<leftarrow> Stream_Seek s sec_bytes;
     s \<leftarrow> rdp_write_share_control_header s (u16 (len - sec_bytes)) PDU_TYPE_DATA channel_id;
     s \<leftarrow> rdp_write_share_data_header s (u16 (len - sec_bytes)) pduType2 (rdp_ShareId rdp);
     s \<leftarrow> Stream_SetPosition s sec_hold;
     rdp_send_out E rdp s len 0 }"

definition rdp_send_message_channel_pdu :: "('w, 'n, 'x) session \<Rightarrow> ('w, 'n, 'x) rdpRdp \<Rightarrow> wStream \<Rightarrow> int \<Rightarrow>
    (bool \<times> ('w, 'n, 'x) rdpRdp \<times> wStream) option" where
  "rdp_send_message_channel_pdu E rdp s sec_flags = do {
     let len = u16 (s_pos s);
     s \<leftarrow> Stream_SetPosition s 0;
     s \<leftarrow> rdp_write_header rdp s len (mcs_messageChannelId (rdp_mcs rdp));
     let sec_bytes = rdp_get_sec_bytes rdp sec_flags;
     let sec_hold = as_int (s_pos s);
     s \<leftarrow> Stream_Seek s sec_bytes;
     s \<leftarrow> Stream_SetPosition s sec_hold;
     rdp_send_out E rdp s len sec_flags }"

definition rdp_send_error_info :: "('w, 'n, 'x) session \<Rightarrow> ('w, 'n, 'x) rdpRdp \<Rightarrow> (bool \<times> ('w, 'n, 'x) rdpRdp) option" where
  "rdp_send_error_info E rdp =
     (if rdp_errorInfo rdp = ERRINFO_SUCCESS then Some (True, rdp)
      else do {
        (rdp, s) \<leftarrow> rdp_data_pdu_init E rdp;
        s \<leftarrow> Stream_Write_UINT32 s (rdp_errorInfo rdp);
        (ok, rdp, s) \<leftarrow> rdp_send_data_pdu E rdp s 0x2F 0;
        Some (ok, rdp) })"

end
