(* ===== verification/WActivation.thy ===== *)
theory WActivation
  imports WRdpPdu
begin

text \<open>
  The end of the connection sequence, from \<open>libfreerdp/core/activation.c\<close>: the units with which the two sides finalize a
  connection and deactivate it, and the transitions of the state machine from \<open>connection.c\<close>. The record \<open>upper\<close> bundles
  what the receivers call that is not modelled: polling the transport while the connection is activated again, the
  redirection packet and the capabilities of the client.
\<close>

record ('w, 'n, 'x) upper =
  rdp_check_fds :: "('w, 'n, 'x) rdpRdp \<Rightarrow> (int \<times> ('w, 'n, 'x) rdpRdp) option"
  rdp_recv_redirection :: "('w, 'n, 'x) rdpRdp \<Rightarrow> wStream \<Rightarrow> ((int \<times> ('w, 'n, 'x) rdpRdp) \<times> wStream) option"
  rdp_accept_confirm_active :: "('w, 'n, 'x) rdpRdp \<Rightarrow> wStream \<Rightarrow> ((bool \<times> ('w, 'n, 'x) rdpRdp) \<times> wStream) option"

abbreviation (input) CONNECTION_STATE_RDP_SECURITY_COMMENCEMENT :: int where "CONNECTION_STATE_RDP_SECURITY_COMMENCEMENT \<equiv> 7"
abbreviation (input) CONNECTION_STATE_CAPABILITIES_EXCHANGE :: int where "CONNECTION_STATE_CAPABILITIES_EXCHANGE \<equiv> 12"
abbreviation (input) CONNECTION_STATE_FINALIZATION :: int where "CONNECTION_STATE_FINALIZATION \<equiv> 13"
abbreviation (input) CONNECTION_STATE_ACTIVE :: int where "CONNECTION_STATE_ACTIVE \<equiv> 14"
abbreviation (input) SYNCMSGTYPE_SYNC :: int where "SYNCMSGTYPE_SYNC \<equiv> 1"
abbreviation (input) CTRLACTION_REQUEST_CONTROL :: int where "CTRLACTION_REQUEST_CONTROL \<equiv> 1"
abbreviation (input) CTRLACTION_GRANTED_CONTROL :: int where "CTRLACTION_GRANTED_CONTROL \<equiv> 2"
abbreviation (input) CTRLACTION_COOPERATE :: int where "CTRLACTION_COOPERATE \<equiv> 4"
abbreviation (input) PERSIST_FIRST_PDU :: int where "PERSIST_FIRST_PDU \<equiv> 1"
abbreviation (input) PERSIST_LAST_PDU :: int where "PERSIST_LAST_PDU \<equiv> 2"
abbreviation (input) FONTLIST_FIRST :: int where "FONTLIST_FIRST \<equiv> 1"
abbreviation (input) FONTLIST_LAST :: int where "FONTLIST_LAST \<equiv> 2"
abbreviation (input) FINALIZE_SC_SYNCHRONIZE_PDU :: int where "FINALIZE_SC_SYNCHRONIZE_PDU \<equiv> 1"
abbreviation (input) FINALIZE_SC_CONTROL_COOPERATE_PDU :: int where "FINALIZE_SC_CONTROL_COOPERATE_PDU \<equiv> 2"
abbreviation (input) FINALIZE_SC_CONTROL_GRANTED_PDU :: int where "FINALIZE_SC_CONTROL_GRANTED_PDU \<equiv> 4"
abbreviation (input) FINALIZE_SC_FONT_MAP_PDU :: int where "FINALIZE_SC_FONT_MAP_PDU \<equiv> 8"
abbreviation (input) FINALIZE_SC_COMPLETE :: int where "FINALIZE_SC_COMPLETE \<equiv> 15"
abbreviation (input) DATA_PDU_TYPE_CONTROL :: int where "DATA_PDU_TYPE_CONTROL \<equiv> 0x14"
abbreviation (input) DATA_PDU_TYPE_SYNCHRONIZE :: int where "DATA_PDU_TYPE_SYNCHRONIZE \<equiv> 0x1F"
abbreviation (input) DATA_PDU_TYPE_FONT_LIST :: int where "DATA_PDU_TYPE_FONT_LIST \<equiv> 0x27"
abbreviation (input) DATA_PDU_TYPE_FONT_MAP :: int where "DATA_PDU_TYPE_FONT_MAP \<equiv> 0x28"
abbreviation (input) DATA_PDU_TYPE_BITMAP_CACHE_PERSISTENT_LIST :: int where "DATA_PDU_TYPE_BITMAP_CACHE_PERSISTENT_LIST \<equiv> 0x2B"

section \<open>The state machine\<close>

definition rdp_client_transition_to_state :: "('w, 'n, 'x) session \<Rightarrow> ('w, 'n, 'x) rdpRdp \<Rightarrow> int \<Rightarrow> int \<times> ('w, 'n, 'x) rdpRdp" where
  "rdp_client_transition_to_state E rdp state =
     (if state = CONNECTION_STATE_FINALIZATION then
        let rdp = rdp_set_state CONNECTION_STATE_FINALIZATION rdp;
            rdp = rdp_set_world (update_reset_state (se_app E) (rdp_world rdp)) rdp
        in (0, rdp\<lparr>rdp_finalize_sc_pdus := 0\<rparr>)
      else if 0 \<le> state \<and> state \<le> CONNECTION_STATE_ACTIVE then (0, rdp_set_state state rdp)
      else (- 1, rdp))"

text \<open>The server tells its application when the connection becomes active.\<close>

definition server_activate :: "('w, 'n, 'x) session \<Rightarrow> ('w, 'n, 'x) rdpRdp \<Rightarrow> int \<times> ('w, 'n, 'x) rdpRdp" where
  "server_activate E rdp =
     (let rdp = (if rdp_peer_connected rdp then rdp
            else let (ok, w) = cb_PostConnect (se_app E) (rdp_world rdp) in rdp_set_world w (rdp\<lparr>rdp_peer_connected := ok\<rparr>))
      in if \<not> rdp_peer_connected rdp then (- 1, rdp)
         else if CONNECTION_STATE_ACTIVE \<le> rdp_state rdp then
           let (ok, w) = cb_Activate (se_app E) (rdp_world rdp);
               rdp = rdp_set_world w (rdp\<lparr>rdp_peer_activated := ok\<rparr>)
           in (if ok then 0 else - 1, rdp)
         else (0, rdp))"

definition rdp_server_transition_to_state :: "('w, 'n, 'x) session \<Rightarrow> ('w, 'n, 'x) rdpRdp \<Rightarrow> int \<Rightarrow> int \<times> ('w, 'n, 'x) rdpRdp" where
  "rdp_server_transition_to_state E rdp state =
     (let client = (CONNECTION_STATE_RDP_SECURITY_COMMENCEMENT \<le> rdp_state rdp);
          rdp = (if rdp_state rdp < CONNECTION_STATE_ACTIVE \<and> client then rdp\<lparr>rdp_peer_activated := False\<rparr> else rdp)
      in if state = CONNECTION_STATE_CAPABILITIES_EXCHANGE then
           (0, (rdp_set_state CONNECTION_STATE_CAPABILITIES_EXCHANGE rdp)\<lparr>rdp_AwaitCapabilities := False\<rparr>)
         else if state = CONNECTION_STATE_FINALIZATION then
           (0, (rdp_set_state CONNECTION_STATE_FINALIZATION rdp)\<lparr>rdp_finalize_sc_pdus := 0\<rparr>)
         else if state = CONNECTION_STATE_ACTIVE then
           let rdp = rdp_set_state CONNECTION_STATE_ACTIVE rdp;
               rdp = rdp_set_world (update_reset_state (se_app E) (rdp_world rdp)) rdp
           in if client then server_activate E rdp else (0, rdp)
         else if state \<noteq> CONNECTION_STATE_NLA \<and> 0 \<le> state \<and> state \<le> CONNECTION_STATE_ACTIVE then (0, rdp_set_state state rdp)
         else (- 1, rdp))"

section \<open>Synchronization\<close>

definition rdp_write_synchronize_pdu :: "wStream \<Rightarrow> ('w, 'n, 'x) rdpRdp \<Rightarrow> wStream option" where
  "rdp_write_synchronize_pdu s rdp = do {
     s \<leftarrow> Stream_Write_UINT16 s SYNCMSGTYPE_SYNC;
     Stream_Write_UINT16 s (rdp_PduSource rdp) }"

abbreviation (input) finalize_pdu :: "int \<Rightarrow> ('w, 'n, 'x) rdpRdp \<Rightarrow> ('w, 'n, 'x) rdpRdp" where
  "finalize_pdu flag rdp \<equiv> rdp\<lparr>rdp_finalize_sc_pdus := rdp_finalize_sc_pdus rdp OR flag\<rparr>"

definition rdp_recv_server_synchronize_pdu :: "('w, 'n, 'x) rdpRdp \<Rightarrow> wStream \<Rightarrow> ((bool \<times> ('w, 'n, 'x) rdpRdp) \<times> wStream) option" where
  "rdp_recv_server_synchronize_pdu rdp s = Some ((True, finalize_pdu FINALIZE_SC_SYNCHRONIZE_PDU rdp), s)"

definition rdp_recv_client_synchronize_pdu :: "('w, 'n, 'x) rdpRdp \<Rightarrow> wStream \<Rightarrow> ((bool \<times> ('w, 'n, 'x) rdpRdp) \<times> wStream) option" where
  "rdp_recv_client_synchronize_pdu rdp s =
     (let rdp = finalize_pdu FINALIZE_SC_SYNCHRONIZE_PDU rdp
      in if Stream_GetRemainingLength s < 4 then Some ((False, rdp), s)
         else do {
           (messageType, s) \<leftarrow> Stream_Read_UINT16 s;
           if messageType \<noteq> SYNCMSGTYPE_SYNC then Some ((False, rdp), s)
           else do { s \<leftarrow> Stream_Seek s 2; Some ((True, rdp), s) } })"

definition rdp_recv_synchronize_pdu :: "('w, 'n, 'x) rdpRdp \<Rightarrow> wStream \<Rightarrow> ((bool \<times> ('w, 'n, 'x) rdpRdp) \<times> wStream) option" where
  "rdp_recv_synchronize_pdu rdp s =
     (if rdp_ServerMode rdp then rdp_recv_server_synchronize_pdu rdp s else rdp_recv_client_synchronize_pdu rdp s)"

text \<open>A data unit whose content is written by \<open>wr\<close>. The streams that are sent go back to the pool with the write.\<close>

definition send_data :: "('w, 'n, 'x) session \<Rightarrow> ('w, 'n, 'x) rdpRdp \<Rightarrow> (('w, 'n, 'x) rdpRdp \<Rightarrow> wStream \<Rightarrow> wStream option) \<Rightarrow> int \<Rightarrow>
    (bool \<times> ('w, 'n, 'x) rdpRdp) option" where
  "send_data E rdp wr pduType2 = do {
     (rdp, s) \<leftarrow> rdp_data_pdu_init E rdp;
     s \<leftarrow> wr rdp s;
     (ok, rdp, s) \<leftarrow> rdp_send_data_pdu E rdp s pduType2 (mcs_userId (rdp_mcs rdp));
     Some (ok, rdp) }"

definition rdp_send_server_synchronize_pdu :: "('w, 'n, 'x) session \<Rightarrow> ('w, 'n, 'x) rdpRdp \<Rightarrow> (bool \<times> ('w, 'n, 'x) rdpRdp) option" where
  "rdp_send_server_synchronize_pdu E rdp = send_data E rdp (\<lambda>rdp s. rdp_write_synchronize_pdu s rdp) DATA_PDU_TYPE_SYNCHRONIZE"

definition rdp_send_client_synchronize_pdu :: "('w, 'n, 'x) session \<Rightarrow> ('w, 'n, 'x) rdpRdp \<Rightarrow> (bool \<times> ('w, 'n, 'x) rdpRdp) option" where
  "rdp_send_client_synchronize_pdu E rdp = send_data E rdp (\<lambda>rdp s. rdp_write_synchronize_pdu s rdp) DATA_PDU_TYPE_SYNCHRONIZE"

section \<open>Control\<close>

definition rdp_recv_control_pdu :: "wStream \<Rightarrow> (int option \<times> wStream) option" where
  "rdp_recv_control_pdu s =
     (if Stream_GetRemainingLength s < 8 then Some (None, s)
      else do {
        (action, s) \<leftarrow> Stream_Read_UINT16 s;
        s \<leftarrow> Stream_Seek s 2;
        s \<leftarrow> Stream_Seek s 4;
        Some (Some action, s) })"

definition rdp_write_client_control_pdu :: "wStream \<Rightarrow> int \<Rightarrow> wStream option" where
  "rdp_write_client_control_pdu s action = do {
     s \<leftarrow> Stream_Write_UINT16 s action;
     s \<leftarrow> Stream_Write_UINT16 s 0;
     Stream_Write_UINT32 s 0 }"

definition rdp_recv_server_control_pdu :: "('w, 'n, 'x) rdpRdp \<Rightarrow> wStream \<Rightarrow> ((bool \<times> ('w, 'n, 'x) rdpRdp) \<times> wStream) option" where
  "rdp_recv_server_control_pdu rdp s = do {
     (action, s) \<leftarrow> rdp_recv_control_pdu s;
     case action of None \<Rightarrow> Some ((False, rdp), s)
     | Some action \<Rightarrow> Some ((True,
         if action = CTRLACTION_COOPERATE then finalize_pdu FINALIZE_SC_CONTROL_COOPERATE_PDU rdp
         else if action = CTRLACTION_GRANTED_CONTROL then (finalize_pdu FINALIZE_SC_CONTROL_GRANTED_PDU rdp)\<lparr>rdp_resendFocus := True\<rparr>
         else rdp), s) }"

definition rdp_send_server_control_cooperate_pdu :: "('w, 'n, 'x) session \<Rightarrow> ('w, 'n, 'x) rdpRdp \<Rightarrow> (bool \<times> ('w, 'n, 'x) rdpRdp) option" where
  "rdp_send_server_control_cooperate_pdu E rdp = send_data E rdp (\<lambda>rdp s. do {
     s \<leftarrow> Stream_Write_UINT16 s CTRLACTION_COOPERATE;
     s \<leftarrow> Stream_Write_UINT16 s 0;
     Stream_Write_UINT32 s 0 }) DATA_PDU_TYPE_CONTROL"

definition rdp_send_server_control_granted_pdu :: "('w, 'n, 'x) session \<Rightarrow> ('w, 'n, 'x) rdpRdp \<Rightarrow> (bool \<times> ('w, 'n, 'x) rdpRdp) option" where
  "rdp_send_server_control_granted_pdu E rdp = send_data E rdp (\<lambda>rdp s. do {
     s \<leftarrow> Stream_Write_UINT16 s CTRLACTION_GRANTED_CONTROL;
     s \<leftarrow> Stream_Write_UINT16 s (mcs_userId (rdp_mcs rdp));
     Stream_Write_UINT32 s 0x03EA }) DATA_PDU_TYPE_CONTROL"

definition rdp_send_client_control_pdu :: "('w, 'n, 'x) session \<Rightarrow> ('w, 'n, 'x) rdpRdp \<Rightarrow> int \<Rightarrow> (bool \<times> ('w, 'n, 'x) rdpRdp) option" where
  "rdp_send_client_control_pdu E rdp action = send_data E rdp (\<lambda>rdp s. rdp_write_client_control_pdu s action) DATA_PDU_TYPE_CONTROL"

section \<open>Keys and fonts\<close>

definition rdp_write_persistent_list_entry :: "wStream \<Rightarrow> int \<Rightarrow> int \<Rightarrow> wStream option" where
  "rdp_write_persistent_list_entry s key1 key2 = do {
     s \<leftarrow> Stream_Write_UINT32 s key1;
     Stream_Write_UINT32 s key2 }"

definition rdp_write_client_persistent_key_list_pdu :: "wStream \<Rightarrow> wStream option" where
  "rdp_write_client_persistent_key_list_pdu s = do {
     s \<leftarrow> Stream_Write_UINT16 s 0;
     s \<leftarrow> Stream_Write_UINT16 s 0;
     s \<leftarrow> Stream_Write_UINT16 s 0;
     s \<leftarrow> Stream_Write_UINT16 s 0;
     s \<leftarrow> Stream_Write_UINT16 s 0;
     s \<leftarrow> Stream_Write_UINT16 s 0;
     s \<leftarrow> Stream_Write_UINT16 s 0;
     s \<leftarrow> Stream_Write_UINT16 s 0;
     s \<leftarrow> Stream_Write_UINT16 s 0;
     s \<leftarrow> Stream_Write_UINT16 s 0;
     s \<leftarrow> Stream_Write_UINT8 s (PERSIST_FIRST_PDU OR PERSIST_LAST_PDU);
     s \<leftarrow> Stream_Write_UINT8 s 0;
     Stream_Write_UINT16 s 0 }"

definition rdp_send_client_persistent_key_list_pdu :: "('w, 'n, 'x) session \<Rightarrow> ('w, 'n, 'x) rdpRdp \<Rightarrow> (bool \<times> ('w, 'n, 'x) rdpRdp) option" where
  "rdp_send_client_persistent_key_list_pdu E rdp =
     send_data E rdp (\<lambda>rdp s. rdp_write_client_persistent_key_list_pdu s) DATA_PDU_TYPE_BITMAP_CACHE_PERSISTENT_LIST"

definition rdp_recv_client_font_list_pdu :: "wStream \<Rightarrow> bool" where
  "rdp_recv_client_font_list_pdu s \<longleftrightarrow> \<not> Stream_GetRemainingLength s < 8"

definition rdp_write_client_font_list_pdu :: "wStream \<Rightarrow> int \<Rightarrow> wStream option" where
  "rdp_write_client_font_list_pdu s flags = do {
     s \<leftarrow> Stream_Write_UINT16 s 0;
     s \<leftarrow> Stream_Write_UINT16 s 0;
     s \<leftarrow> Stream_Write_UINT16 s flags;
     Stream_Write_UINT16 s 50 }"

definition rdp_send_client_font_list_pdu :: "('w, 'n, 'x) session \<Rightarrow> ('w, 'n, 'x) rdpRdp \<Rightarrow> int \<Rightarrow> (bool \<times> ('w, 'n, 'x) rdpRdp) option" where
  "rdp_send_client_font_list_pdu E rdp flags = send_data E rdp (\<lambda>rdp s. rdp_write_client_font_list_pdu s flags) DATA_PDU_TYPE_FONT_LIST"

definition rdp_recv_server_font_map_pdu :: "('w, 'n, 'x) rdpRdp \<Rightarrow> wStream \<Rightarrow> ((bool \<times> ('w, 'n, 'x) rdpRdp) \<times> wStream) option" where
  "rdp_recv_server_font_map_pdu rdp s = Some ((True, finalize_pdu FINALIZE_SC_FONT_MAP_PDU rdp), s)"

definition rdp_recv_client_font_map_pdu :: "('w, 'n, 'x) rdpRdp \<Rightarrow> wStream \<Rightarrow> ((bool \<times> ('w, 'n, 'x) rdpRdp) \<times> wStream) option" where
  "rdp_recv_client_font_map_pdu rdp s = do {
     let rdp = finalize_pdu FINALIZE_SC_FONT_MAP_PDU rdp;
     s \<leftarrow> (if 8 \<le> Stream_GetRemainingLength s then do {
             s \<leftarrow> Stream_Seek s 2;
             s \<leftarrow> Stream_Seek s 2;
             s \<leftarrow> Stream_Seek s 2;
             Stream_Seek s 2 }
           else Some s);
     Some ((True, rdp), s) }"

definition rdp_recv_font_map_pdu :: "('w, 'n, 'x) rdpRdp \<Rightarrow> wStream \<Rightarrow> ((bool \<times> ('w, 'n, 'x) rdpRdp) \<times> wStream) option" where
  "rdp_recv_font_map_pdu rdp s =
     (if rdp_ServerMode rdp then rdp_recv_server_font_map_pdu rdp s else rdp_recv_client_font_map_pdu rdp s)"

definition rdp_send_server_font_map_pdu :: "('w, 'n, 'x) session \<Rightarrow> ('w, 'n, 'x) rdpRdp \<Rightarrow> (bool \<times> ('w, 'n, 'x) rdpRdp) option" where
  "rdp_send_server_font_map_pdu E rdp = send_data E rdp (\<lambda>rdp s. do {
     s \<leftarrow> Stream_Write_UINT16 s 0;
     s \<leftarrow> Stream_Write_UINT16 s 0;
     s \<leftarrow> Stream_Write_UINT16 s (FONTLIST_FIRST OR FONTLIST_LAST);
     Stream_Write_UINT16 s 4 }) DATA_PDU_TYPE_FONT_MAP"

section \<open>Deactivation\<close>

text \<open>The client polls until the connection is active again, which may never be.\<close>

partial_function (option) reactivate_loop :: "('w, 'n, 'x) upper \<Rightarrow> ('w, 'n, 'x) rdpRdp \<Rightarrow> (bool \<times> ('w, 'n, 'x) rdpRdp) option" where
  "reactivate_loop U rdp =
     (if rdp_state rdp = CONNECTION_STATE_ACTIVE then Some (True, rdp)
      else do {
        (status, rdp) \<leftarrow> rdp_check_fds U rdp;
        if status < 0 then Some (False, rdp)
        else if rdp_disconnect rdp then Some (True, rdp)
        else reactivate_loop U rdp })"

text \<open>The fields that Windows XP leaves out: reading stops at the first that is not there.\<close>

definition read_deactivate_all :: "('w, 'n, 'x) rdpRdp \<Rightarrow> wStream \<Rightarrow> (('w, 'n, 'x) rdpRdp \<times> wStream) option" where
  "read_deactivate_all rdp s =
     (if Stream_GetRemainingLength s < 4 then Some (rdp, s)
      else do {
        (shareId, s) \<leftarrow> Stream_Read_UINT32 s;
        let rdp = rdp\<lparr>rdp_ShareId := shareId\<rparr>;
        if Stream_GetRemainingLength s < 2 then Some (rdp, s)
        else do {
          (lengthSourceDescriptor, s) \<leftarrow> Stream_Read_UINT16 s;
          if Stream_GetRemainingLength s < lengthSourceDescriptor then Some (rdp, s)
          else do { s \<leftarrow> Stream_Seek s lengthSourceDescriptor; Some (rdp, s) } } })"

definition rdp_recv_deactivate_all :: "('w, 'n, 'x) session \<Rightarrow> ('w, 'n, 'x) upper \<Rightarrow> ('w, 'n, 'x) rdpRdp \<Rightarrow> wStream \<Rightarrow>
    ((bool \<times> ('w, 'n, 'x) rdpRdp) \<times> wStream) option" where
  "rdp_recv_deactivate_all E U rdp s = do {
     let rdp = rdp\<lparr>rdp_deactivation_reactivation := (rdp_state rdp = CONNECTION_STATE_ACTIVE)\<rparr>;
     (rdp, s) \<leftarrow> (if 0 < Stream_GetRemainingLength s then read_deactivate_all rdp s else Some (rdp, s));
     let (_, rdp) = rdp_client_transition_to_state E rdp CONNECTION_STATE_CAPABILITIES_EXCHANGE;
     (ok, rdp) \<leftarrow> reactivate_loop U rdp;
     Some ((ok, rdp), s) }"

definition rdp_send_deactivate_all :: "('w, 'n, 'x) session \<Rightarrow> bool \<Rightarrow> byte fresh \<Rightarrow> ('w, 'n, 'x) rdpRdp \<Rightarrow>
    (bool \<times> ('w, 'n, 'x) rdpRdp) option" where
  "rdp_send_deactivate_all E mem memb rdp =
     (case Stream_New mem memb None 1024 of None \<Rightarrow> Some (False, rdp)
      | Some s \<Rightarrow> do {
          (rdp, s) \<leftarrow> rdp_init_stream_pdu rdp s;
          s \<leftarrow> Stream_Write_UINT32 s (rdp_ShareId rdp);
          s \<leftarrow> Stream_Write_UINT16 s 1;
          s \<leftarrow> Stream_Write_UINT8 s 0;
          (ok, rdp, s) \<leftarrow> rdp_send_pdu E rdp s PDU_TYPE_DEACTIVATE_ALL (mcs_userId (rdp_mcs rdp));
          Some (ok, rdp) })"

section \<open>The server\<close>

definition rdp_server_accept_client_control_pdu :: "('w, 'n, 'x) session \<Rightarrow> ('w, 'n, 'x) rdpRdp \<Rightarrow> wStream \<Rightarrow>
    ((bool \<times> ('w, 'n, 'x) rdpRdp) \<times> wStream) option" where
  "rdp_server_accept_client_control_pdu E rdp s = do {
     (action, s) \<leftarrow> rdp_recv_control_pdu s;
     case action of None \<Rightarrow> Some ((False, rdp), s)
     | Some action \<Rightarrow>
         if action = CTRLACTION_REQUEST_CONTROL then do {
           (ok, rdp) \<leftarrow> rdp_send_server_control_granted_pdu E rdp;
           Some ((ok, rdp), s) }
         else Some ((True, rdp), s) }"

definition rdp_server_accept_client_font_list_pdu :: "('w, 'n, 'x) session \<Rightarrow> ('w, 'n, 'x) rdpRdp \<Rightarrow> wStream \<Rightarrow>
    ((bool \<times> ('w, 'n, 'x) rdpRdp) \<times> wStream) option" where
  "rdp_server_accept_client_font_list_pdu E rdp s =
     (if \<not> rdp_recv_client_font_list_pdu s then Some ((False, rdp), s)
      else do {
        (ok, rdp) \<leftarrow> rdp_send_server_font_map_pdu E rdp;
        if \<not> ok then Some ((False, rdp), s)
        else
          let (status, rdp) = rdp_server_transition_to_state E rdp CONNECTION_STATE_ACTIVE
          in Some ((\<not> status < 0, rdp), s) })"

end
