(* ===== verification/WInput.thy ===== *)
theory WInput
  imports WRdpPdu
begin

text \<open>
  Input, from \<open>libfreerdp/core/input.c\<close>: the events of the client on the slow path and on the fast path, and the slow-path
  receiver of the server. The fast-path receiver is part of \<open>WFastpath\<close>.
\<close>

abbreviation (input) INPUT_EVENT_SYNC :: int where "INPUT_EVENT_SYNC \<equiv> 0"
abbreviation (input) INPUT_EVENT_SCANCODE :: int where "INPUT_EVENT_SCANCODE \<equiv> 4"
abbreviation (input) INPUT_EVENT_UNICODE :: int where "INPUT_EVENT_UNICODE \<equiv> 5"
abbreviation (input) INPUT_EVENT_MOUSE :: int where "INPUT_EVENT_MOUSE \<equiv> 0x8001"
abbreviation (input) INPUT_EVENT_MOUSEX :: int where "INPUT_EVENT_MOUSEX \<equiv> 0x8002"
abbreviation (input) DATA_PDU_TYPE_INPUT :: int where "DATA_PDU_TYPE_INPUT \<equiv> 0x1C"
abbreviation (input) RDP_SCANCODE_LCONTROL :: int where "RDP_SCANCODE_LCONTROL \<equiv> 0x1D"
abbreviation (input) RDP_SCANCODE_NUMLOCK :: int where "RDP_SCANCODE_NUMLOCK \<equiv> 0x45"

section \<open>The slow path of the client\<close>

definition rdp_write_client_input_pdu_header :: "wStream \<Rightarrow> int \<Rightarrow> wStream option" where
  "rdp_write_client_input_pdu_header s number = do {
     s \<leftarrow> Stream_Write_UINT16 s 1;
     Stream_Write_UINT16 s 0 }"

definition rdp_write_input_event_header :: "wStream \<Rightarrow> int \<Rightarrow> int \<Rightarrow> wStream option" where
  "rdp_write_input_event_header s time eventType = do {
     s \<leftarrow> Stream_Write_UINT32 s time;
     Stream_Write_UINT16 s eventType }"

definition rdp_client_input_pdu_init :: "('w, 'n, 'x) session \<Rightarrow> ('w, 'n, 'x) rdpRdp \<Rightarrow> int \<Rightarrow> (('w, 'n, 'x) rdpRdp \<times> wStream) option" where
  "rdp_client_input_pdu_init E rdp eventType = do {
     (rdp, s) \<leftarrow> rdp_data_pdu_init E rdp;
     s \<leftarrow> rdp_write_client_input_pdu_header s 1;
     s \<leftarrow> rdp_write_input_event_header s 0 eventType;
     Some (rdp, s) }"

definition rdp_send_client_input_pdu :: "('w, 'n, 'x) session \<Rightarrow> ('w, 'n, 'x) rdpRdp \<Rightarrow> wStream \<Rightarrow> ('w, 'n, 'x) rdpRdp option" where
  "rdp_send_client_input_pdu E rdp s = do {
     (_, rdp, _) \<leftarrow> rdp_send_data_pdu E rdp s DATA_PDU_TYPE_INPUT (mcs_userId (rdp_mcs rdp));
     Some rdp }"

definition input_write_synchronize_event :: "wStream \<Rightarrow> int \<Rightarrow> wStream option" where
  "input_write_synchronize_event s flags = do {
     s \<leftarrow> Stream_Write_UINT16 s 0;
     Stream_Write_UINT32 s flags }"

definition input_send_synchronize_event :: "('w, 'n, 'x) session \<Rightarrow> int \<Rightarrow> ('w, 'n, 'x) rdpRdp \<Rightarrow> ('w, 'n, 'x) rdpRdp option" where
  "input_send_synchronize_event E flags rdp = do {
     (rdp, s) \<leftarrow> rdp_client_input_pdu_init E rdp INPUT_EVENT_SYNC;
     s \<leftarrow> input_write_synchronize_event s flags;
     rdp_send_client_input_pdu E rdp s }"

definition input_write_keyboard_event :: "wStream \<Rightarrow> int \<Rightarrow> int \<Rightarrow> wStream option" where
  "input_write_keyboard_event s flags code = do {
     s \<leftarrow> Stream_Write_UINT16 s flags;
     s \<leftarrow> Stream_Write_UINT16 s code;
     Stream_Write_UINT16 s 0 }"

definition input_send_keyboard_event :: "('w, 'n, 'x) session \<Rightarrow> int \<Rightarrow> int \<Rightarrow> ('w, 'n, 'x) rdpRdp \<Rightarrow> ('w, 'n, 'x) rdpRdp option" where
  "input_send_keyboard_event E flags code rdp = do {
     (rdp, s) \<leftarrow> rdp_client_input_pdu_init E rdp INPUT_EVENT_SCANCODE;
     s \<leftarrow> input_write_keyboard_event s flags code;
     rdp_send_client_input_pdu E rdp s }"

definition input_write_unicode_keyboard_event :: "wStream \<Rightarrow> int \<Rightarrow> int \<Rightarrow> wStream option" where
  "input_write_unicode_keyboard_event s flags code = do {
     s \<leftarrow> Stream_Write_UINT16 s flags;
     s \<leftarrow> Stream_Write_UINT16 s code;
     Stream_Write_UINT16 s 0 }"

text \<open>The code computes the flags that the specification allows, and then sends those that it was given.\<close>

definition input_send_unicode_keyboard_event :: "('w, 'n, 'x) session \<Rightarrow> int \<Rightarrow> int \<Rightarrow> ('w, 'n, 'x) rdpRdp \<Rightarrow>
    ('w, 'n, 'x) rdpRdp option" where
  "input_send_unicode_keyboard_event E flags code rdp = do {
     let keyboardFlags = (if flags AND KBD_FLAGS_RELEASE \<noteq> 0 then KBD_FLAGS_RELEASE else 0);
     (rdp, s) \<leftarrow> rdp_client_input_pdu_init E rdp INPUT_EVENT_UNICODE;
     s \<leftarrow> input_write_unicode_keyboard_event s flags code;
     rdp_send_client_input_pdu E rdp s }"

definition input_write_mouse_event :: "wStream \<Rightarrow> int \<Rightarrow> int \<Rightarrow> int \<Rightarrow> wStream option" where
  "input_write_mouse_event s flags x y = do {
     s \<leftarrow> Stream_Write_UINT16 s flags;
     s \<leftarrow> Stream_Write_UINT16 s x;
     Stream_Write_UINT16 s y }"

definition input_send_mouse_event :: "('w, 'n, 'x) session \<Rightarrow> int \<Rightarrow> int \<Rightarrow> int \<Rightarrow> ('w, 'n, 'x) rdpRdp \<Rightarrow>
    ('w, 'n, 'x) rdpRdp option" where
  "input_send_mouse_event E flags x y rdp = do {
     (rdp, s) \<leftarrow> rdp_client_input_pdu_init E rdp INPUT_EVENT_MOUSE;
     s \<leftarrow> input_write_mouse_event s flags x y;
     rdp_send_client_input_pdu E rdp s }"

definition input_write_extended_mouse_event :: "wStream \<Rightarrow> int \<Rightarrow> int \<Rightarrow> int \<Rightarrow> wStream option" where
  "input_write_extended_mouse_event s flags x y = do {
     s \<leftarrow> Stream_Write_UINT16 s flags;
     s \<leftarrow> Stream_Write_UINT16 s x;
     Stream_Write_UINT16 s y }"

definition input_send_extended_mouse_event :: "('w, 'n, 'x) session \<Rightarrow> int \<Rightarrow> int \<Rightarrow> int \<Rightarrow> ('w, 'n, 'x) rdpRdp \<Rightarrow>
    ('w, 'n, 'x) rdpRdp option" where
  "input_send_extended_mouse_event E flags x y rdp = do {
     (rdp, s) \<leftarrow> rdp_client_input_pdu_init E rdp INPUT_EVENT_MOUSEX;
     s \<leftarrow> input_write_extended_mouse_event s flags x y;
     rdp_send_client_input_pdu E rdp s }"

definition input_send_focus_in_event :: "('w, 'n, 'x) session \<Rightarrow> int \<Rightarrow> ('w, 'n, 'x) rdpRdp \<Rightarrow> ('w, 'n, 'x) rdpRdp option" where
  "input_send_focus_in_event E toggleStates rdp = do {
     rdp \<leftarrow> input_send_keyboard_event E KBD_FLAGS_RELEASE 0x0f rdp;
     rdp \<leftarrow> input_send_synchronize_event E (toggleStates AND 0x1F) rdp;
     input_send_keyboard_event E KBD_FLAGS_RELEASE 0x0f rdp }"

definition input_send_keyboard_pause_event :: "('w, 'n, 'x) session \<Rightarrow> ('w, 'n, 'x) rdpRdp \<Rightarrow> ('w, 'n, 'x) rdpRdp option" where
  "input_send_keyboard_pause_event E rdp = do {
     rdp \<leftarrow> input_send_keyboard_event E 0 RDP_SCANCODE_LCONTROL rdp;
     rdp \<leftarrow> input_send_keyboard_event E 0 RDP_SCANCODE_NUMLOCK rdp;
     rdp \<leftarrow> input_send_keyboard_event E KBD_FLAGS_RELEASE RDP_SCANCODE_LCONTROL rdp;
     input_send_keyboard_event E KBD_FLAGS_RELEASE RDP_SCANCODE_NUMLOCK rdp }"

section \<open>The fast path of the client\<close>

definition input_send_fastpath_synchronize_event :: "('w, 'n, 'x) session \<Rightarrow> int \<Rightarrow> ('w, 'n, 'x) rdpRdp \<Rightarrow>
    ('w, 'n, 'x) rdpRdp option" where
  "input_send_fastpath_synchronize_event E flags rdp = do {
     (s, rdp) \<leftarrow> fastpath_input_pdu_init E (u8 flags) FASTPATH_INPUT_EVENT_SYNC rdp;
     (_, rdp, _) \<leftarrow> fastpath_send_input_pdu E rdp s;
     Some rdp }"

definition input_send_fastpath_keyboard_event :: "('w, 'n, 'x) session \<Rightarrow> int \<Rightarrow> int \<Rightarrow> ('w, 'n, 'x) rdpRdp \<Rightarrow>
    ('w, 'n, 'x) rdpRdp option" where
  "input_send_fastpath_keyboard_event E flags code rdp = do {
     let eventFlags = (if flags AND KBD_FLAGS_RELEASE \<noteq> 0 then FASTPATH_INPUT_KBDFLAGS_RELEASE else 0)
       OR (if flags AND KBD_FLAGS_EXTENDED \<noteq> 0 then FASTPATH_INPUT_KBDFLAGS_EXTENDED else 0);
     (s, rdp) \<leftarrow> fastpath_input_pdu_init E eventFlags FASTPATH_INPUT_EVENT_SCANCODE rdp;
     s \<leftarrow> Stream_Write_UINT8 s code;
     (_, rdp, _) \<leftarrow> fastpath_send_input_pdu E rdp s;
     Some rdp }"

definition input_send_fastpath_unicode_keyboard_event :: "('w, 'n, 'x) session \<Rightarrow> int \<Rightarrow> int \<Rightarrow> ('w, 'n, 'x) rdpRdp \<Rightarrow>
    ('w, 'n, 'x) rdpRdp option" where
  "input_send_fastpath_unicode_keyboard_event E flags code rdp = do {
     let eventFlags = (if flags AND KBD_FLAGS_RELEASE \<noteq> 0 then FASTPATH_INPUT_KBDFLAGS_RELEASE else 0);
     (s, rdp) \<leftarrow> fastpath_input_pdu_init E eventFlags FASTPATH_INPUT_EVENT_UNICODE rdp;
     s \<leftarrow> Stream_Write_UINT16 s code;
     (_, rdp, _) \<leftarrow> fastpath_send_input_pdu E rdp s;
     Some rdp }"

definition input_send_fastpath_mouse_event :: "('w, 'n, 'x) session \<Rightarrow> int \<Rightarrow> int \<Rightarrow> int \<Rightarrow> ('w, 'n, 'x) rdpRdp \<Rightarrow>
    ('w, 'n, 'x) rdpRdp option" where
  "input_send_fastpath_mouse_event E flags x y rdp = do {
     (s, rdp) \<leftarrow> fastpath_input_pdu_init E 0 FASTPATH_INPUT_EVENT_MOUSE rdp;
     s \<leftarrow> input_write_mouse_event s flags x y;
     (_, rdp, _) \<leftarrow> fastpath_send_input_pdu E rdp s;
     Some rdp }"

definition input_send_fastpath_extended_mouse_event :: "('w, 'n, 'x) session \<Rightarrow> int \<Rightarrow> int \<Rightarrow> int \<Rightarrow> ('w, 'n, 'x) rdpRdp \<Rightarrow>
    ('w, 'n, 'x) rdpRdp option" where
  "input_send_fastpath_extended_mouse_event E flags x y rdp = do {
     (s, rdp) \<leftarrow> fastpath_input_pdu_init E 0 FASTPATH_INPUT_EVENT_MOUSEX rdp;
     s \<leftarrow> input_write_extended_mouse_event s flags x y;
     (_, rdp, _) \<leftarrow> fastpath_send_input_pdu E rdp s;
     Some rdp }"

definition input_send_fastpath_focus_in_event :: "('w, 'n, 'x) session \<Rightarrow> int \<Rightarrow> ('w, 'n, 'x) rdpRdp \<Rightarrow>
    ('w, 'n, 'x) rdpRdp option" where
  "input_send_fastpath_focus_in_event E toggleStates rdp = do {
     (s, rdp) \<leftarrow> fastpath_input_pdu_init_header E rdp;
     let eventFlags = FASTPATH_INPUT_KBDFLAGS_RELEASE OR push_bit 5 FASTPATH_INPUT_EVENT_SCANCODE;
     s \<leftarrow> Stream_Write_UINT8 s eventFlags;
     s \<leftarrow> Stream_Write_UINT8 s 0x0f;
     let eventFlags = u8 ((toggleStates AND 0x1F) OR push_bit 5 FASTPATH_INPUT_EVENT_SYNC);
     s \<leftarrow> Stream_Write_UINT8 s eventFlags;
     let eventFlags = FASTPATH_INPUT_KBDFLAGS_RELEASE OR push_bit 5 FASTPATH_INPUT_EVENT_SCANCODE;
     s \<leftarrow> Stream_Write_UINT8 s eventFlags;
     s \<leftarrow> Stream_Write_UINT8 s 0x0f;
     (_, rdp, _) \<leftarrow> fastpath_send_multiple_input_pdu E rdp s 3;
     Some rdp }"

definition input_send_fastpath_keyboard_pause_event :: "('w, 'n, 'x) session \<Rightarrow> ('w, 'n, 'x) rdpRdp \<Rightarrow> ('w, 'n, 'x) rdpRdp option" where
  "input_send_fastpath_keyboard_pause_event E rdp = do {
     let keyDownEvent = push_bit 5 FASTPATH_INPUT_EVENT_SCANCODE;
     let keyUpEvent = push_bit 5 FASTPATH_INPUT_EVENT_SCANCODE OR FASTPATH_INPUT_KBDFLAGS_RELEASE;
     (s, rdp) \<leftarrow> fastpath_input_pdu_init_header E rdp;
     s \<leftarrow> Stream_Write_UINT8 s (keyDownEvent OR FASTPATH_INPUT_KBDFLAGS_PREFIX_E1);
     s \<leftarrow> Stream_Write_UINT8 s RDP_SCANCODE_LCONTROL;
     s \<leftarrow> Stream_Write_UINT8 s keyDownEvent;
     s \<leftarrow> Stream_Write_UINT8 s RDP_SCANCODE_NUMLOCK;
     s \<leftarrow> Stream_Write_UINT8 s (keyUpEvent OR FASTPATH_INPUT_KBDFLAGS_PREFIX_E1);
     s \<leftarrow> Stream_Write_UINT8 s RDP_SCANCODE_LCONTROL;
     s \<leftarrow> Stream_Write_UINT8 s keyUpEvent;
     s \<leftarrow> Stream_Write_UINT8 s RDP_SCANCODE_NUMLOCK;
     (_, rdp, _) \<leftarrow> fastpath_send_multiple_input_pdu E rdp s 4;
     Some rdp }"

section \<open>The interface of the client\<close>

datatype input_event =
  SynchronizeEvent int
| KeyboardEvent int int
| KeyboardPauseEvent
| UnicodeKeyboardEvent int int
| MouseEvent int int int
| ExtendedMouseEvent int int int
| FocusInEvent int

text \<open>The callbacks of the client are those of the path that the settings name.\<close>

fun input_client_callback :: "('w, 'n, 'x) session \<Rightarrow> bool \<Rightarrow> input_event \<Rightarrow> ('w, 'n, 'x) rdpRdp \<Rightarrow> ('w, 'n, 'x) rdpRdp option" where
  "input_client_callback E FastPathInput (SynchronizeEvent flags) =
     (if FastPathInput then input_send_fastpath_synchronize_event E flags else input_send_synchronize_event E flags)"
| "input_client_callback E FastPathInput (KeyboardEvent flags code) =
     (if FastPathInput then input_send_fastpath_keyboard_event E flags code else input_send_keyboard_event E flags code)"
| "input_client_callback E FastPathInput KeyboardPauseEvent =
     (if FastPathInput then input_send_fastpath_keyboard_pause_event E else input_send_keyboard_pause_event E)"
| "input_client_callback E FastPathInput (UnicodeKeyboardEvent flags code) =
     (if FastPathInput then input_send_fastpath_unicode_keyboard_event E flags code else input_send_unicode_keyboard_event E flags code)"
| "input_client_callback E FastPathInput (MouseEvent flags x y) =
     (if FastPathInput then input_send_fastpath_mouse_event E flags x y else input_send_mouse_event E flags x y)"
| "input_client_callback E FastPathInput (ExtendedMouseEvent flags x y) =
     (if FastPathInput then input_send_fastpath_extended_mouse_event E flags x y else input_send_extended_mouse_event E flags x y)"
| "input_client_callback E FastPathInput (FocusInEvent toggleStates) =
     (if FastPathInput then input_send_fastpath_focus_in_event E toggleStates else input_send_focus_in_event E toggleStates)"

text \<open>A key by its scan code, with \<open>KBDEXT\<close> for the extended keys.\<close>

definition keyboard_event_ex :: "bool \<Rightarrow> int \<Rightarrow> input_event" where
  "keyboard_event_ex down rdp_scancode =
     KeyboardEvent ((if rdp_scancode AND 0x100 \<noteq> 0 then KBD_FLAGS_EXTENDED else 0) OR (if down then KBD_FLAGS_DOWN else KBD_FLAGS_RELEASE))
       (u8 (rdp_scancode AND 0xFF))"

section \<open>The slow path of the server\<close>

definition input_recv_sync_event :: "'w inputs \<Rightarrow> 'w \<Rightarrow> wStream \<Rightarrow> ((bool \<times> 'w) \<times> wStream) option" where
  "input_recv_sync_event I w s =
     (if Stream_GetRemainingLength s < 6 then Some ((False, w), s)
      else do {
        s \<leftarrow> Stream_Seek s 2;
        (toggleFlags, s) \<leftarrow> Stream_Read_UINT32 s;
        Some ((True, cb_SynchronizeEvent I toggleFlags w), s) })"

text \<open>The flag that tells a pressed key is derived from the flag that tells a released one.\<close>

definition down_unless_release :: "int \<Rightarrow> int" where
  "down_unless_release keyboardFlags =
     (if keyboardFlags AND KBD_FLAGS_RELEASE \<noteq> 0 then keyboardFlags AND NOT KBD_FLAGS_DOWN else keyboardFlags OR KBD_FLAGS_DOWN)"

definition input_recv_keyboard_event :: "'w inputs \<Rightarrow> 'w \<Rightarrow> wStream \<Rightarrow> ((bool \<times> 'w) \<times> wStream) option" where
  "input_recv_keyboard_event I w s =
     (if Stream_GetRemainingLength s < 6 then Some ((False, w), s)
      else do {
        (keyboardFlags, s) \<leftarrow> Stream_Read_UINT16 s;
        (keyCode, s) \<leftarrow> Stream_Read_UINT16 s;
        s \<leftarrow> Stream_Seek s 2;
        Some ((True, cb_KeyboardEvent I (down_unless_release keyboardFlags) keyCode w), s) })"

definition input_recv_unicode_keyboard_event :: "'w inputs \<Rightarrow> 'w \<Rightarrow> wStream \<Rightarrow> ((bool \<times> 'w) \<times> wStream) option" where
  "input_recv_unicode_keyboard_event I w s =
     (if Stream_GetRemainingLength s < 6 then Some ((False, w), s)
      else do {
        (keyboardFlags, s) \<leftarrow> Stream_Read_UINT16 s;
        (unicodeCode, s) \<leftarrow> Stream_Read_UINT16 s;
        s \<leftarrow> Stream_Seek s 2;
        Some ((True, cb_UnicodeKeyboardEvent I (down_unless_release keyboardFlags) unicodeCode w), s) })"

definition input_recv_mouse_event :: "'w inputs \<Rightarrow> 'w \<Rightarrow> wStream \<Rightarrow> ((bool \<times> 'w) \<times> wStream) option" where
  "input_recv_mouse_event I w s =
     (if Stream_GetRemainingLength s < 6 then Some ((False, w), s)
      else do {
        (pointerFlags, s) \<leftarrow> Stream_Read_UINT16 s;
        (xPos, s) \<leftarrow> Stream_Read_UINT16 s;
        (yPos, s) \<leftarrow> Stream_Read_UINT16 s;
        Some ((True, cb_MouseEvent I pointerFlags xPos yPos w), s) })"

definition input_recv_extended_mouse_event :: "'w inputs \<Rightarrow> 'w \<Rightarrow> wStream \<Rightarrow> ((bool \<times> 'w) \<times> wStream) option" where
  "input_recv_extended_mouse_event I w s =
     (if Stream_GetRemainingLength s < 6 then Some ((False, w), s)
      else do {
        (pointerFlags, s) \<leftarrow> Stream_Read_UINT16 s;
        (xPos, s) \<leftarrow> Stream_Read_UINT16 s;
        (yPos, s) \<leftarrow> Stream_Read_UINT16 s;
        Some ((True, cb_ExtendedMouseEvent I pointerFlags xPos yPos w), s) })"

text \<open>An event of unknown type is skipped without a look at what is left.\<close>

definition input_recv_event :: "'w inputs \<Rightarrow> 'w \<Rightarrow> wStream \<Rightarrow> ((bool \<times> 'w) \<times> wStream) option" where
  "input_recv_event I w s =
     (if Stream_GetRemainingLength s < 6 then Some ((False, w), s)
      else do {
        s \<leftarrow> Stream_Seek s 4;
        (messageType, s) \<leftarrow> Stream_Read_UINT16 s;
        if messageType = INPUT_EVENT_SYNC then input_recv_sync_event I w s
        else if messageType = INPUT_EVENT_SCANCODE then input_recv_keyboard_event I w s
        else if messageType = INPUT_EVENT_UNICODE then input_recv_unicode_keyboard_event I w s
        else if messageType = INPUT_EVENT_MOUSE then input_recv_mouse_event I w s
        else if messageType = INPUT_EVENT_MOUSEX then input_recv_extended_mouse_event I w s
        else do { s \<leftarrow> Stream_Seek s 6; Some ((True, w), s) } })"

fun input_recv_loop :: "'w inputs \<Rightarrow> nat \<Rightarrow> 'w \<Rightarrow> wStream \<Rightarrow> ((bool \<times> 'w) \<times> wStream) option" where
  "input_recv_loop I 0 w s = Some ((True, w), s)"
| "input_recv_loop I (Suc n) w s = do {
     ((ok, w), s) \<leftarrow> input_recv_event I w s;
     if \<not> ok then Some ((False, w), s) else input_recv_loop I n w s }"

definition input_recv :: "'w inputs \<Rightarrow> 'w \<Rightarrow> wStream \<Rightarrow> ((bool \<times> 'w) \<times> wStream) option" where
  "input_recv I w s =
     (if Stream_GetRemainingLength s < 4 then Some ((False, w), s)
      else do {
        (numberEvents, s) \<leftarrow> Stream_Read_UINT16 s;
        s \<leftarrow> Stream_Seek s 2;
        if Stream_GetRemainingLength s < 6 * numberEvents then Some ((False, w), s)
        else input_recv_loop I (nat numberEvents) w s })"

end
