(* ===== verification/InputLink.thy ===== *)
theory InputLink
  imports WInput FastpathSession
begin

text \<open>
  Input from end to end: the events that an application of the client passes to \<open>input.c\<close> run the callbacks of the server once
  and in order. On the fast path the units go through the transport of the client and \<open>peer_recv_fastpath_pdu\<close>.
\<close>

section \<open>The events as the server sees them\<close>

definition kbd_view :: "int \<Rightarrow> int" where
  "kbd_view flags = (if flags AND KBD_FLAGS_EXTENDED \<noteq> 0
     then (if flags AND KBD_FLAGS_RELEASE \<noteq> 0 then KBD_FLAGS_RELEASE else KBD_FLAGS_DOWN) OR KBD_FLAGS_EXTENDED
     else (if flags AND KBD_FLAGS_RELEASE \<noteq> 0 then KBD_FLAGS_RELEASE else KBD_FLAGS_DOWN))"

fun server_events :: "input_event \<Rightarrow> input_event list" where
  "server_events (SynchronizeEvent flags) = [SynchronizeEvent flags]"
| "server_events (KeyboardEvent flags code) = [KeyboardEvent (kbd_view flags) code]"
| "server_events KeyboardPauseEvent = [KeyboardEvent KBD_FLAGS_DOWN 0x1D, KeyboardEvent KBD_FLAGS_DOWN 0x45,
     KeyboardEvent KBD_FLAGS_RELEASE 0x1D, KeyboardEvent KBD_FLAGS_RELEASE 0x45]"
| "server_events (UnicodeKeyboardEvent flags code) =
     [UnicodeKeyboardEvent (if flags AND KBD_FLAGS_RELEASE \<noteq> 0 then KBD_FLAGS_RELEASE else KBD_FLAGS_DOWN) code]"
| "server_events (MouseEvent flags x y) = [MouseEvent flags x y]"
| "server_events (ExtendedMouseEvent flags x y) = [ExtendedMouseEvent flags x y]"
| "server_events (FocusInEvent toggleStates) = [KeyboardEvent KBD_FLAGS_RELEASE 0x0f, SynchronizeEvent (toggleStates AND 0x1F),
     KeyboardEvent KBD_FLAGS_RELEASE 0x0f]"

fun deliver_input :: "'w inputs \<Rightarrow> input_event \<Rightarrow> 'w \<Rightarrow> 'w" where
  "deliver_input I (SynchronizeEvent flags) = cb_SynchronizeEvent I flags"
| "deliver_input I (KeyboardEvent flags code) = cb_KeyboardEvent I flags code"
| "deliver_input I (UnicodeKeyboardEvent flags code) = cb_UnicodeKeyboardEvent I flags code"
| "deliver_input I (MouseEvent flags x y) = cb_MouseEvent I flags x y"
| "deliver_input I (ExtendedMouseEvent flags x y) = cb_ExtendedMouseEvent I flags x y"
| "deliver_input I _ = id"

text \<open>The ranges of the arguments; a synchronize event has five flags.\<close>

fun input_ok :: "input_event \<Rightarrow> bool" where
  "input_ok (SynchronizeEvent flags) \<longleftrightarrow> 0 \<le> flags \<and> flags < 32"
| "input_ok (KeyboardEvent flags code) \<longleftrightarrow> 0 \<le> code \<and> code < 256"
| "input_ok (UnicodeKeyboardEvent flags code) \<longleftrightarrow> 0 \<le> code \<and> code < 65536"
| "input_ok (MouseEvent flags x y) \<longleftrightarrow> 0 \<le> flags \<and> flags < 65536 \<and> 0 \<le> x \<and> x < 65536 \<and> 0 \<le> y \<and> y < 65536"
| "input_ok (ExtendedMouseEvent flags x y) \<longleftrightarrow> 0 \<le> flags \<and> flags < 65536 \<and> 0 \<le> x \<and> x < 65536 \<and> 0 \<le> y \<and> y < 65536"
| "input_ok _ \<longleftrightarrow> True"

section \<open>The bytes of an event on the fast path\<close>

definition fp_event :: "int \<Rightarrow> int \<Rightarrow> byte list \<Rightarrow> byte list" where
  "fp_event eventFlags eventCode payload = word_of_int (eventFlags OR push_bit 5 eventCode) # payload"

definition kbd_event_flags :: "int \<Rightarrow> int" where
  "kbd_event_flags flags = (if flags AND KBD_FLAGS_RELEASE \<noteq> 0 then FASTPATH_INPUT_KBDFLAGS_RELEASE else 0)
     OR (if flags AND KBD_FLAGS_EXTENDED \<noteq> 0 then FASTPATH_INPUT_KBDFLAGS_EXTENDED else 0)"

fun fp_events :: "input_event \<Rightarrow> byte list list" where
  "fp_events (SynchronizeEvent flags) = [fp_event flags 3 []]"
| "fp_events (KeyboardEvent flags code) = [fp_event (kbd_event_flags flags) 0 [word_of_int code]]"
| "fp_events KeyboardPauseEvent = [fp_event 4 0 [0x1D], fp_event 0 0 [0x45], fp_event 5 0 [0x1D], fp_event 1 0 [0x45]]"
| "fp_events (UnicodeKeyboardEvent flags code) = [fp_event (if flags AND KBD_FLAGS_RELEASE \<noteq> 0 then 1 else 0) 4 (le16 code)]"
| "fp_events (MouseEvent flags x y) = [fp_event 0 1 (le16 flags @ le16 x @ le16 y)]"
| "fp_events (ExtendedMouseEvent flags x y) = [fp_event 0 2 (le16 flags @ le16 x @ le16 y)]"
| "fp_events (FocusInEvent toggleStates) = [fp_event 1 0 [0x0f], fp_event (toggleStates AND 0x1F) 3 [], fp_event 1 0 [0x0f]]"

lemma low_five: "(x AND 31) = x mod (32::int)"
  using take_bit_eq_mask [of 5 x] by (simp add: take_bit_eq_mod mask_eq_exp_minus_1)

lemma event_header:
  assumes "0 \<le> ef" "ef < 32" "0 \<le> code" "code < 8"
  shows "yields fastpath_read_input_event_header [word_of_int (ef OR push_bit 5 code)] (Some (ef, code))"
proof -
  have h: "(ef OR push_bit 5 code) = ef + code * 32" using or_push [of ef 5 code] assms by simp
  have "((ef + code * 32) AND 31) = ef" "drop_bit 5 (ef + code * 32) = code"
    using assms by (simp_all add: low_five drop_bit_eq_div)
  then show ?thesis unfolding h fastpath_read_input_event_header_def using assms
    by (intro yields) simp_all
qed

lemma event_read:
  assumes "0 \<le> ef" "ef < 32" "0 \<le> code" "code < 8" and "yields (\<lambda>s. (if code = 0 then fastpath_recv_input_event_scancode I ef w s
         else if code = 1 then fastpath_recv_input_event_mouse I ef w s else if code = 2 then fastpath_recv_input_event_mousex I ef w s
         else if code = 3 then fastpath_recv_input_event_sync I ef w s else if code = 4 then fastpath_recv_input_event_unicode I ef w s
         else Some ((True, w), s))) payload r"
  shows "yields (fastpath_recv_input_event I w) (fp_event ef code payload) r"
  using yields_bind [OF event_header [OF assms(1-4)], of "\<lambda>h s. case h of None \<Rightarrow> Some ((False, w), s)
     | Some h \<Rightarrow> (case h of (eventFlags, eventCode) \<Rightarrow>
         if eventCode = FASTPATH_INPUT_EVENT_SCANCODE then fastpath_recv_input_event_scancode I eventFlags w s
         else if eventCode = FASTPATH_INPUT_EVENT_MOUSE then fastpath_recv_input_event_mouse I eventFlags w s
         else if eventCode = FASTPATH_INPUT_EVENT_MOUSEX then fastpath_recv_input_event_mousex I eventFlags w s
         else if eventCode = FASTPATH_INPUT_EVENT_SYNC then fastpath_recv_input_event_sync I eventFlags w s
         else if eventCode = FASTPATH_INPUT_EVENT_UNICODE then fastpath_recv_input_event_unicode I eventFlags w s
         else Some ((True, w), s))" payload r] assms(5)
  by (simp add: fastpath_recv_input_event_def [abs_def] fp_event_def)

lemma key_read:
  assumes "0 \<le> ef" "ef < 32" "0 \<le> code" "code < 256"
  shows "yields (fastpath_recv_input_event I w) (fp_event ef 0 [word_of_int code])
    (True, cb_KeyboardEvent I (if ef AND 2 \<noteq> 0 then kbd_flags ef OR KBD_FLAGS_EXTENDED else kbd_flags ef) code w)"
  using assms by (intro event_read) (auto simp: fastpath_recv_input_event_scancode_def [abs_def] Let_def intro!: yields)

lemma kbd_event_flags_view: "0 \<le> kbd_event_flags flags" "kbd_event_flags flags < 32"
  "(if kbd_event_flags flags AND 2 \<noteq> 0 then kbd_flags (kbd_event_flags flags) OR KBD_FLAGS_EXTENDED else kbd_flags (kbd_event_flags flags)) = kbd_view flags"
  by (auto simp: kbd_event_flags_def kbd_flags_def kbd_view_def)

lemma event_delivered:
  assumes "input_ok ev"
  shows "list_all2 (\<lambda>bs e. \<forall>w. yields (fastpath_recv_input_event I w) bs (True, deliver_input I e w)) (fp_events ev) (server_events ev)"
proof -
  have key: "yields (fastpath_recv_input_event I w) (fp_event ef 0 [word_of_int code]) (True, cb_KeyboardEvent I (kbd_flags ef) code w)"
    if "ef = 0 \<or> ef = 1 \<or> ef = 4 \<or> ef = 5" "0 \<le> code" "code < 256" for ef code w
    using key_read [of ef code I w] that by auto
  have sync: "yields (fastpath_recv_input_event I w) (fp_event ef 3 []) (True, cb_SynchronizeEvent I ef w)" if "0 \<le> ef" "ef < 32" for ef w
    using that by (intro event_read) (auto simp: fastpath_recv_input_event_sync_def intro!: yields)
  have toggle: "0 \<le> (t AND 31)" "(t AND 31) < 32" for t :: int by (simp_all add: low_five)
  show ?thesis
  proof (cases ev)
    case (KeyboardEvent flags code)
    then show ?thesis using assms key_read [OF kbd_event_flags_view(1,2) [of flags], of code I] by (simp add: kbd_event_flags_view(3))
  next
    case (MouseEvent flags x y)
    then show ?thesis using assms
      by (auto simp: fastpath_recv_input_event_mouse_def [abs_def] intro!: event_read yields yields_lasts)
  next
    case (ExtendedMouseEvent flags x y)
    then show ?thesis using assms
      by (auto simp: fastpath_recv_input_event_mousex_def [abs_def] intro!: event_read yields yields_lasts)
  next
    case (UnicodeKeyboardEvent flags code)
    then show ?thesis using assms
      by (auto simp: fastpath_recv_input_event_unicode_def [abs_def] kbd_flags_def intro!: event_read yields yields_lasts)
  next
    case KeyboardPauseEvent
    then show ?thesis using key [of 4 29] key [of 0 69] key [of 5 29] key [of 1 69] by (simp add: kbd_flags_def)
  next
    case (FocusInEvent t)
    then show ?thesis using key [of 1 15] sync [OF toggle] by (simp add: kbd_flags_def)
  qed (use assms sync in simp)
qed

section \<open>The server receives a unit\<close>

definition input_unit :: "nat \<Rightarrow> byte list \<Rightarrow> byte list" where
  "input_unit n body = word_of_int (4 * int n) # be16 (32768 + (int (length body) + 3)) @ body"

lemma events_read:
  "list_all2 (\<lambda>bs e. \<forall>w. yields (fastpath_recv_input_event I w) bs (True, deliver_input I e w)) bss es \<Longrightarrow>
    yields (recv_inputs_loop I (length bss) w) (concat bss) (True, fold (deliver_input I) es w)"
proof (induction arbitrary: w rule: list_all2_induct)
  case Nil
  then show ?case by (simp add: yields_ret)
next
  case (Cons bs bss e es)
  let ?f = "\<lambda>r s. case r of (ok, w) \<Rightarrow> if \<not> ok then Some ((False, w), s) else recv_inputs_loop I (length bss) w s"
  have 1: "yields (fastpath_recv_input_event I w) bs (True, deliver_input I e w)" using Cons.hyps(1) by simp
  have 2: "yields (?f (True, deliver_input I e w)) (concat bss) (True, fold (deliver_input I) es (deliver_input I e w))"
    using Cons.IH [of "deliver_input I e w"] by simp
  have "recv_inputs_loop I (length (bs # bss)) w = (\<lambda>s. do { (x, s) \<leftarrow> fastpath_recv_input_event I w s; ?f x s })"
    by (rule ext) (simp add: split_def)
  then show ?case using yields_bind [where f = ?f, OF 1 2] by simp
qed

lemma input_unit_received:
  assumes "carries s (input_unit (length bss) (concat bss))" and "0 < length bss" and "length bss < 16" and "bss \<noteq> []" and "concat bss \<noteq> []" and "length (concat bss) < 32000"
    and "list_all2 (\<lambda>bs e. \<forall>w. yields (fastpath_recv_input_event (se_inputs F) w) bs (True, deliver_input (se_inputs F) e w)) bss es"
  shows "\<exists>B' s'. peer_recv_fastpath_pdu F B s = Some ((0, B'), s') \<and> rdp_world B' = fold (deliver_input (se_inputs F)) es (rdp_world B)"
proof -
  let ?b = "concat bss" and ?n = "int (length bss)" and ?t = "s_adv 3 s"
  have s: "s_ok s" "s_pos s = 0" "s_rest s = input_unit (length bss) ?b" using assms(1) by (simp_all add: carries_def)
  have hd: "Stream_Read_UINT8 s = Some (4 * ?n, s_adv 1 s)" using read_byte [OF s(1), of "4 * ?n"] s(3) assms(3) by (simp add: input_unit_def)
  have "per_read_length (s_adv 1 s) = Some (Some (int (length ?b) + 3), s_adv 2 (s_adv 1 s))"
    using s assms(6) by (intro read_long_length [where rest = ?b]) (simp_all add: input_unit_def)
  then have ln: "per_read_length (s_adv 1 s) = Some (Some (int (length ?b) + 3), ?t)" by (simp add: s_adv_def)
  have t: "s_ok ?t" "s_rest ?t = ?b" using s by (simp_all add: input_unit_def)
  have u: "u16 (int (length ?b) + 3 - s_pos ?t) = int (length ?b)" using s(2) assms(6) by (simp add: s_adv_def u16_def)
  have "((4 * ?n) AND 0x3C) = push_bit 2 (?n AND 15)" using push_bit_and [of 2 ?n 15] by (simp add: push_bit_eq_mult mult.commute)
  moreover have "(?n AND 15) = ?n" using assms(3) by (simp add: and_low)
  moreover have "drop_bit 6 (4 * ?n) = 0" using assms(3) by (simp add: drop_bit_eq_div)
  ultimately have bits: "drop_bit 6 ((4 * ?n) AND 0xC0) = 0" "drop_bit 2 ((4 * ?n) AND 0x3C) = ?n"
    by (simp_all add: drop_bit_and drop_bit_eq_div push_bit_eq_mult)
  define B0 where "B0 = B\<lparr>fp_encryptionFlags := 0, fp_numberEvents := ?n\<rparr>"
  have hb: "fastpath_header_byte (4 * ?n) (Some B) = Some B0" by (simp only: fastpath_header_byte_def bits B0_def option.map)
  have r: "fastpath_read_header_rdp (Some B) s = Some ((Some (int (length ?b)), Some B0), ?t)"
    using u by (simp add: fastpath_read_header_rdp_def hd [unfolded One_nat_def] ln [unfolded One_nat_def] hb)
  have "recv_inputs_loop (se_inputs F) (length bss) (rdp_world B) ?t
      = Some ((True, fold (deliver_input (se_inputs F)) es (rdp_world B)), s_adv (length ?b) ?t)"
    using yieldsD [OF events_read [OF assms(7)] t(1), of "[]"] t(2) by simp
  then have "fastpath_recv_inputs F B0 ?t = Some ((0, rdp_set_world (fold (deliver_input (se_inputs F)) es (rdp_world B)) B0), s_adv (length ?b) ?t)"
    using assms(2) by (simp add: fastpath_recv_inputs_def B0_def as_status_def)
  then have "peer_recv_fastpath_pdu F B s = Some ((0, rdp_set_world (fold (deliver_input (se_inputs F)) es (rdp_world B)) B0), s_adv (length ?b) ?t)"
    using r t assms(5) by (simp add: peer_recv_fastpath_pdu_def B0_def)
  then show ?thesis by (intro exI [of _ "rdp_set_world (fold (deliver_input (se_inputs F)) es (rdp_world B)) B0"] exI [of _ "s_adv (length ?b) ?t"]) simp
qed

section \<open>The client sends it\<close>

text \<open>A stream of the pool is released when it is written.\<close>

lemma transport_write_pooled:
  assumes "bio_progress net sent" "pool_ready net sent" "holds s p" "p \<noteq> []" "tp_frontBio t"
  shows "\<exists>st w. transport_write net t s = Some (st, t\<lparr>tp_net := w\<rparr>, s) \<and> 0 \<le> st \<and> sent w = sent (tp_net t) @ p"
proof -
  let ?t = "t\<lparr>tp_WriteLock := tp_WriteLock t + 1\<rparr>"
  have p: "s_pos s = int (length p)" "take (length p) (s_buffer s) = p" "length p \<le> length (s_buffer s)" "int (length p) \<le> INT_MAX"
    using assms(3) by (simp_all add: holds_def)
  obtain st w where l: "transport_write_loop net ?t (s\<lparr>s_pos := 0\<rparr>) (int (length p)) (- 1)
      = Some (Inr st, ?t\<lparr>tp_net := w\<rparr>, s\<lparr>s_pos := int (length p)\<rparr>)" "0 < st" "sent w = sent (tp_net t) @ p"
    using write_loop_all [OF assms(1), of "s\<lparr>s_pos := 0\<rparr>" "length p" "- 1" ?t] p assms(4) by auto
  have e: "s\<lparr>s_pos := int (length p)\<rparr> = s" using p(1) by (cases s) simp
  let ?w = "if s_pool s \<noteq> NULL then Stream_Release net s w else w"
  have "as_int (int (length p)) = int (length p)" using p(4) by (simp add: as_int_def)
  then have "transport_write net t s = Some (st, t\<lparr>tp_net := ?w\<rparr>, s)"
    using l p e assms(4,5) by (simp add: transport_write_def Let_def Stream_SetPosition_def)
  moreover have "sent ?w = sent w" using pool_readyE(3) [OF assms(2)] by simp
  ultimately show ?thesis using l(2,3) by (intro exI [of _ st] exI [of _ ?w]) simp
qed

definition input_ready :: "('w, 'n, 'x) session \<Rightarrow> ('w \<Rightarrow> byte list) \<Rightarrow> ('w, 'n, 'x) rdpRdp \<Rightarrow> bool" where
  "input_ready E sent A \<longleftrightarrow> bio_progress (se_net E) sent \<and> pool_ready (se_net E) sent \<and> \<not> rdp_do_crypt A \<and> rdp_sec_flags A = 0
     \<and> tp_frontBio (rdp_transport A)"

lemma send_stream_taken:
  assumes "pool_ready (se_net E) sent" "0 < sz" "sz \<le> 1073741823"
  shows "\<exists>s w. transport_send_stream_init E sz A = Some (Some s, rdp_set_world w A) \<and> holds s [] \<and> sz \<le> s_capacity s \<and> sent w = sent (rdp_world A)"
proof -
  obtain s w p where s: "StreamPool_Take (se_net E) sz (rdp_world A) = (Some s, w)" "sent w = sent (rdp_world A)" "holds s p" "sz \<le> s_capacity s"
    using pool_readyE(1) [OF assms(1-3)] by blast
  obtain j w' where m: "net_malloc (se_net E) sz w = (Some j, w')" "sent w' = sent w" using pool_readyE(2) [OF assms(1)] by blast
  have e: "Stream_EnsureCapacity (Some j) s sz = Some (True, s)" using s(4) by (simp add: Stream_EnsureCapacity_def)
  have ww: "rdp_set_world w' (rdp_set_world w A) = rdp_set_world w' A" by (simp add: rdp_set_world_def)
  have "transport_send_stream_init E sz A = Some (Some (s\<lparr>s_pos := 0\<rparr>), rdp_set_world w' A)"
    using s(1) m(1) e holds_rewound [OF s(3)] ww by (simp add: transport_send_stream_init_def take_stream_def)
  then show ?thesis using holds_rewound [OF s(3)] s m by (intro exI [of _ "s\<lparr>s_pos := 0\<rparr>"] exI [of _ w']) simp
qed

lemma header_stream:
  assumes "input_ready E sent A"
  shows "\<exists>s w p. fastpath_input_pdu_init_header E A = Some (s, rdp_set_world w A) \<and> holds s p \<and> length p = 3 \<and> 256 \<le> s_capacity s
    \<and> sent w = sent (rdp_world A)"
proof -
  have r: "pool_ready (se_net E) sent" "\<not> rdp_do_crypt A" using assms by (simp_all add: input_ready_def)
  obtain s w where s: "transport_send_stream_init E 256 A = Some (Some s, rdp_set_world w A)" "holds s []" "256 \<le> s_capacity s"
      "sent w = sent (rdp_world A)" using send_stream_taken [OF r(1), of 256 A] by auto
  have c: "\<not> rdp_do_crypt (rdp_set_world w A)" using r(2) by (simp add: rdp_set_world_def)
  have p: "s_pos s = 0" "256 \<le> int (length (s_buffer s))" using s(2,3) by (simp_all add: holds_def)
  have h: "holds (s\<lparr>s_pos := 3\<rparr>) (take 3 (s_buffer s))" using s(2) p by (auto simp: holds_def)
  have "fastpath_input_pdu_init_header E A = Some (s\<lparr>s_pos := 3\<rparr>, rdp_set_world w A)"
    using s(1) p c by (simp add: fastpath_input_pdu_init_header_def Stream_Seek_def rdp_raise_sec_flags_def fastpath_get_sec_bytes_def)
  then show ?thesis using h s(3,4) p by (intro exI [of _ "s\<lparr>s_pos := 3\<rparr>"] exI [of _ w] exI [of _ "take 3 (s_buffer s)"]) simp
qed

lemma multiple_sent:
  assumes "input_ready E sent A" "holds s (p @ body)" "length p = 3" "n < 16" "length body \<le> 200"
  shows "\<exists>w s'. fastpath_send_multiple_input_pdu E A s (int n) = Some (True, rdp_set_world w A, s') \<and> sent w = sent (rdp_world A) @ input_unit n body"
proof -
  have r: "bio_progress (se_net E) sent" "pool_ready (se_net E) sent" "rdp_sec_flags A = 0" "tp_frontBio (rdp_transport A)"
    using assms(1) by (simp_all add: input_ready_def)
  obtain a b c where p: "p = [a, b, c]" using assms(3) by (auto simp: numeral_3_eq_3 length_Suc_conv)
  have h: "s_pos s = int (length body) + 3" "take (length body + 3) (s_buffer s) = a # b # c # body" "length body + 3 \<le> length (s_buffer s)"
      "s_capacity s = int (length (s_buffer s))" "0 < s_capacity s" "s_capacity s \<le> INT_MAX"
  proof -
    have l: "length (a # b # c # body) = length body + 3" by simp
    have "holds s (a # b # c # body)" using assms(2) p by simp
    then show "s_pos s = int (length body) + 3" "take (length body + 3) (s_buffer s) = a # b # c # body" "length body + 3 \<le> length (s_buffer s)"
      "s_capacity s = int (length (s_buffer s))" "0 < s_capacity s" "s_capacity s \<le> INT_MAX"
      unfolding holds_def l by auto
  qed
  then obtain bs where buf: "s_buffer s = a # b # c # body @ bs"
    by (metis append_Cons append_take_drop_id)
  let ?h = "word_of_int (4 * int n) :: byte" and ?l = "32768 + (int (length body) + 3)"
  have l: "(0x8000 OR (int (length body) + 3)) = ?l"
    using or_push [of "int (length body) + 3" 15 1] assms(5) by (simp add: or.commute)
  have u: "u16 (s_pos s) = int (length body) + 3" "push_bit 2 (int n) = 4 * int n"
    using h(1) assms(5) by (simp_all add: u16_def push_bit_eq_mult mult.commute)
  define s2 where "s2 = s\<lparr>s_buffer := ?h # be16 ?l @ body @ bs, s_pos := int (length body) + 3, s_length := int (length body) + 3\<rparr>"
  have s2: "holds s2 (input_unit n body)" using h buf by (simp add: s2_def holds_def input_unit_def)
  obtain st w where w: "transport_write (se_net E) (rdp_transport A) s2 = Some (st, (rdp_transport A)\<lparr>tp_net := w\<rparr>, s2)" "0 \<le> st"
      "sent w = sent (rdp_world A) @ input_unit n body"
    using transport_write_pooled [OF r(1,2) s2 _ r(4)] by (auto simp: input_unit_def)
  have b16: "be16 ?l = [word_of_int (drop_bit 8 ?l), word_of_int ?l]" by (simp add: be16_def)
  have z: "(0 AND SEC_ENCRYPT \<noteq> 0) = False" "(0 AND SEC_SECURE_CHECKSUM \<noteq> 0) = False" by simp_all
  have w16: "Stream_Write_UINT16_BE (s\<lparr>s_buffer := ?h # b # c # body @ bs, s_pos := 1\<rparr>) ?l = Some (s\<lparr>s_buffer := ?h # be16 ?l @ body @ bs, s_pos := 3\<rparr>)"
    by (simp add: Stream_Write_UINT16_BE Stream_Write_def ablit_def b16)
  have A: "A\<lparr>rdp_sec_flags := 0\<rparr> = A" using r(3) by (cases A) simp
  have "fastpath_send_multiple_input_pdu E A s (int n) = Some (True, rdp_set_world w A, s2)"
    unfolding fastpath_send_multiple_input_pdu_def r(3) z Let_def u l
    using assms(4,5) buf w(1,2) w16 r(3) h(1)
    by (simp add: A Stream_SetPosition_def Stream_Write_UINT8_def aset_def Stream_Seek_def l Stream_SealLength_def csize_def s2_def rdp_set_world_def)
  with w(3) show ?thesis by blast
qed

text \<open>Every event of the application becomes one unit.\<close>

definition event_unit :: "input_event \<Rightarrow> byte list" where
  "event_unit ev = input_unit (length (fp_events ev)) (concat (fp_events ev))"

lemma ready_world: "input_ready E sent A \<Longrightarrow> input_ready E sent (rdp_set_world w A)"
  by (simp add: input_ready_def rdp_set_world_def)

lemma stream_appended:
  assumes "holds s p" and "length p + length bs \<le> 256" and "256 \<le> s_capacity s"
  shows "\<exists>s'. Stream_Write s bs = Some s' \<and> holds s' (p @ bs) \<and> s_capacity s' = s_capacity s"
  using holds_write [OF assms(1), of bs] assms(2,3) by auto

lemma input_unit_sent:
  assumes "input_ready E sent A" and "0 < length bss" and "length bss < 16" and "length (concat bss) \<le> 200"
    and "\<And>s. snd_ev s = do { s \<leftarrow> Stream_Write s (concat bss); Some s }"
  shows "\<exists>w. (do { (s, rdp) \<leftarrow> fastpath_input_pdu_init_header E A; s \<leftarrow> snd_ev s;
      (_, rdp, _) \<leftarrow> fastpath_send_multiple_input_pdu E rdp s (int (length bss)); Some rdp }) = Some (rdp_set_world w A)
    \<and> sent w = sent (rdp_world A) @ input_unit (length bss) (concat bss)"
proof -
  obtain s w p where s: "fastpath_input_pdu_init_header E A = Some (s, rdp_set_world w A)" "holds s p" "length p = 3" "256 \<le> s_capacity s"
      "sent w = sent (rdp_world A)" using header_stream [OF assms(1)] by blast
  obtain s' where s': "Stream_Write s (concat bss) = Some s'" "holds s' (p @ concat bss)"
    using stream_appended [OF s(2), of "concat bss"] s(3,4) assms(4) by auto
  obtain w' t where w': "fastpath_send_multiple_input_pdu E (rdp_set_world w A) s' (int (length bss)) = Some (True, rdp_set_world w' (rdp_set_world w A), t)"
      "sent w' = sent (rdp_world (rdp_set_world w A)) @ input_unit (length bss) (concat bss)"
    using multiple_sent [OF ready_world [OF assms(1)] s'(2) s(3) assms(3,4)] by blast
  have "rdp_set_world w' (rdp_set_world w A) = rdp_set_world w' A" by (simp add: rdp_set_world_def)
  then show ?thesis using s(1,5) s'(1) w' assms(5) by (intro exI [of _ w']) simp
qed

lemma event_sent:
  assumes "input_ready E sent A" and "input_ok ev"
  shows "\<exists>w. input_client_callback E True ev A = Some (rdp_set_world w A) \<and> sent w = sent (rdp_world A) @ event_unit ev"
proof -
  have u8: "0 \<le> v \<Longrightarrow> v < 256 \<Longrightarrow> u8 v = v" for v by (simp add: u8_def)
  have sync: "u8 (t AND 31 OR 96) = (t AND 31 OR 96)" "u8 (t AND 31) = t AND 31" for t :: int
    using or_push [of "t AND 31" 5 3] by (simp_all add: u8_def low_five)
  note defs = fastpath_input_pdu_init_def fastpath_send_input_pdu_def event_unit_def split_def
  have app: "do { s \<leftarrow> Stream_Write s as; Stream_Write s bs } = do { s \<leftarrow> Stream_Write s (as @ bs); Some s }" for s as bs
    by (simp add: Stream_Write_append)
  show ?thesis
  proof (cases ev)
    case (SynchronizeEvent flags)
    have "\<exists>w. (do { (s, rdp) \<leftarrow> fastpath_input_pdu_init_header E A; s \<leftarrow> Stream_Write_UINT8 s (u8 flags OR push_bit 5 3);
      (_, rdp, _) \<leftarrow> fastpath_send_multiple_input_pdu E rdp s (int (length (fp_events ev))); Some rdp }) = Some (rdp_set_world w A)
      \<and> sent w = sent (rdp_world A) @ input_unit (length (fp_events ev)) (concat (fp_events ev))"
      using assms(2) SynchronizeEvent u8 by (intro input_unit_sent assms(1)) (simp_all add: fp_event_def emits)
    then show ?thesis using SynchronizeEvent by (simp add: input_send_fastpath_synchronize_event_def defs)
  next
    case (KeyboardEvent flags code)
    have "\<exists>w. (do { (s, rdp) \<leftarrow> fastpath_input_pdu_init_header E A;
        s \<leftarrow> do { s \<leftarrow> Stream_Write_UINT8 s (kbd_event_flags flags OR push_bit 5 0); Stream_Write_UINT8 s code };
      (_, rdp, _) \<leftarrow> fastpath_send_multiple_input_pdu E rdp s (int (length (fp_events ev))); Some rdp }) = Some (rdp_set_world w A)
      \<and> sent w = sent (rdp_world A) @ input_unit (length (fp_events ev)) (concat (fp_events ev))"
      using assms(2) KeyboardEvent by (intro input_unit_sent assms(1)) (simp_all add: fp_event_def emits write_merge)
    then show ?thesis using KeyboardEvent
      by (simp add: input_send_fastpath_keyboard_event_def defs kbd_event_flags_def Let_def)
  next
    case (UnicodeKeyboardEvent flags code)
    let ?f = "if flags AND KBD_FLAGS_RELEASE \<noteq> 0 then FASTPATH_INPUT_KBDFLAGS_RELEASE else 0"
    have "\<exists>w. (do { (s, rdp) \<leftarrow> fastpath_input_pdu_init_header E A;
        s \<leftarrow> do { s \<leftarrow> Stream_Write_UINT8 s (?f OR push_bit 5 4); Stream_Write_UINT16 s code };
      (_, rdp, _) \<leftarrow> fastpath_send_multiple_input_pdu E rdp s (int (length (fp_events ev))); Some rdp }) = Some (rdp_set_world w A)
      \<and> sent w = sent (rdp_world A) @ input_unit (length (fp_events ev)) (concat (fp_events ev))"
      using assms(2) UnicodeKeyboardEvent by (intro input_unit_sent assms(1)) (simp_all add: fp_event_def emits write_merge)
    then show ?thesis using UnicodeKeyboardEvent
      by (simp add: input_send_fastpath_unicode_keyboard_event_def defs Let_def)
  next
    case (MouseEvent flags x y)
    have "\<exists>w. (do { (s, rdp) \<leftarrow> fastpath_input_pdu_init_header E A;
        s \<leftarrow> do { s \<leftarrow> Stream_Write_UINT8 s (0 OR push_bit 5 1); input_write_mouse_event s flags x y };
      (_, rdp, _) \<leftarrow> fastpath_send_multiple_input_pdu E rdp s (int (length (fp_events ev))); Some rdp }) = Some (rdp_set_world w A)
      \<and> sent w = sent (rdp_world A) @ input_unit (length (fp_events ev)) (concat (fp_events ev))"
      using assms(2) MouseEvent by (intro input_unit_sent assms(1)) (simp_all add: fp_event_def emits write_merge input_write_mouse_event_def)
    then show ?thesis using MouseEvent by (simp add: input_send_fastpath_mouse_event_def defs)
  next
    case (ExtendedMouseEvent flags x y)
    have "\<exists>w. (do { (s, rdp) \<leftarrow> fastpath_input_pdu_init_header E A;
        s \<leftarrow> do { s \<leftarrow> Stream_Write_UINT8 s (0 OR push_bit 5 2); input_write_extended_mouse_event s flags x y };
      (_, rdp, _) \<leftarrow> fastpath_send_multiple_input_pdu E rdp s (int (length (fp_events ev))); Some rdp }) = Some (rdp_set_world w A)
      \<and> sent w = sent (rdp_world A) @ input_unit (length (fp_events ev)) (concat (fp_events ev))"
      using assms(2) ExtendedMouseEvent by (intro input_unit_sent assms(1)) (simp_all add: fp_event_def emits write_merge input_write_extended_mouse_event_def)
    then show ?thesis using ExtendedMouseEvent by (simp add: input_send_fastpath_extended_mouse_event_def defs)
  next
    case KeyboardPauseEvent
    have "\<exists>w. (do { (s, rdp) \<leftarrow> fastpath_input_pdu_init_header E A;
        s \<leftarrow> Stream_Write s [4, 0x1D, 0, 0x45, 5, 0x1D, 1, 0x45];
      (_, rdp, _) \<leftarrow> fastpath_send_multiple_input_pdu E rdp s (int (length (fp_events ev))); Some rdp }) = Some (rdp_set_world w A)
      \<and> sent w = sent (rdp_world A) @ input_unit (length (fp_events ev)) (concat (fp_events ev))"
      using KeyboardPauseEvent by (intro input_unit_sent assms(1)) (simp_all add: fp_event_def)
    then show ?thesis using KeyboardPauseEvent
      by (simp add: input_send_fastpath_keyboard_pause_event_def event_unit_def emits write_merge Let_def)
  next
    case (FocusInEvent t)
    have "\<exists>w. (do { (s, rdp) \<leftarrow> fastpath_input_pdu_init_header E A;
        s \<leftarrow> Stream_Write s [1, 0x0f, word_of_int ((t AND 31) OR 96), 1, 0x0f];
      (_, rdp, _) \<leftarrow> fastpath_send_multiple_input_pdu E rdp s (int (length (fp_events ev))); Some rdp }) = Some (rdp_set_world w A)
      \<and> sent w = sent (rdp_world A) @ input_unit (length (fp_events ev)) (concat (fp_events ev))"
      using FocusInEvent by (intro input_unit_sent assms(1)) (simp_all add: fp_event_def)
    then show ?thesis using FocusInEvent sync
      by (simp add: input_send_fastpath_focus_in_event_def event_unit_def emits write_merge Let_def)
  qed
qed

section \<open>A session\<close>

fun send_input :: "('w, 'n, 'x) session \<Rightarrow> ('w, 'n, 'x) rdpRdp \<Rightarrow> input_event list \<Rightarrow> ('w, 'n, 'x) rdpRdp option" where
  "send_input E A [] = Some A"
| "send_input E A (ev # evs) = do { A \<leftarrow> input_client_callback E True ev A; send_input E A evs }"

fun receive_input :: "('w, 'n, 'x) session \<Rightarrow> ('w, 'n, 'x) rdpRdp \<Rightarrow> wStream list \<Rightarrow> ('w, 'n, 'x) rdpRdp option" where
  "receive_input F B [] = Some B"
| "receive_input F B (s # ss) = do { ((st, B), s) \<leftarrow> peer_recv_fastpath_pdu F B s; if st < 0 then None else receive_input F B ss }"

lemma events_bound: "input_ok ev \<Longrightarrow> 0 < length (fp_events ev) \<and> length (fp_events ev) < 16 \<and> length (concat (fp_events ev)) \<le> 200 \<and> concat (fp_events ev) \<noteq> []"
  by (cases ev) (simp_all add: fp_event_def)

lemma input_sent:
  assumes "\<forall>ev \<in> set evs. input_ok ev"
  shows "input_ready E sent A \<Longrightarrow> \<exists>w. send_input E A evs = Some (rdp_set_world w A) \<and> sent w = sent (rdp_world A) @ concat (map event_unit evs)"
  using assms
proof (induction evs arbitrary: A)
  case Nil
  have "rdp_set_world (rdp_world A) A = A" by (simp add: rdp_set_world_def)
  then show ?case by (intro exI [of _ "rdp_world A"]) simp
next
  case (Cons ev evs)
  obtain w where w: "input_client_callback E True ev A = Some (rdp_set_world w A)" "sent w = sent (rdp_world A) @ event_unit ev"
    using event_sent [OF Cons.prems(1), of ev] Cons.prems(2) by auto
  obtain w' where w': "send_input E (rdp_set_world w A) evs = Some (rdp_set_world w' (rdp_set_world w A))"
      "sent w' = sent (rdp_world (rdp_set_world w A)) @ concat (map event_unit evs)"
    using Cons.IH [OF ready_world [OF Cons.prems(1)]] Cons.prems(2) by auto
  have "rdp_set_world w' (rdp_set_world w A) = rdp_set_world w' A" by (simp add: rdp_set_world_def)
  with w w' show ?case by (intro exI [of _ w']) simp
qed

lemma input_received:
  "\<forall>ev \<in> set evs. input_ok ev \<Longrightarrow> list_all2 carries ss (map event_unit evs) \<Longrightarrow>
    \<exists>B'. receive_input F B ss = Some B' \<and> rdp_world B' = fold (deliver_input (se_inputs F)) (concat (map server_events evs)) (rdp_world B)"
proof (induction evs arbitrary: ss B)
  case (Cons ev evs)
  obtain s ss' where ss: "ss = s # ss'" "carries s (event_unit ev)" "list_all2 carries ss' (map event_unit evs)"
    using Cons.prems(2) by (auto simp: list_all2_Cons2)
  have ok: "input_ok ev" using Cons.prems(1) by simp
  note b = events_bound [OF ok]
  obtain B1 s1 where 1: "peer_recv_fastpath_pdu F B s = Some ((0, B1), s1)"
      "rdp_world B1 = fold (deliver_input (se_inputs F)) (server_events ev) (rdp_world B)"
    using input_unit_received [where F = F and B = B and es = "server_events ev", OF ss(2) [unfolded event_unit_def]] event_delivered [OF ok, of "se_inputs F"] b by auto
  obtain B' where "receive_input F B1 ss' = Some B'" "rdp_world B' = fold (deliver_input (se_inputs F)) (concat (map server_events evs)) (rdp_world B1)"
    using Cons.IH [OF _ ss(3)] Cons.prems(1) by auto
  with 1 show ?case by (simp add: ss(1))
qed simp

text \<open>
  C4. Whatever events an application of the client sends over the fast path (keys, the pause key, characters, the mouse, synchronize
  and focus events), each becomes one unit that is written completely, and a server that gets the units, one in each stream,
  runs its callbacks once for each event, in order: a key with the flags of a key that is pressed or released, the pause
  key as its four keys, a focus event as a key up, the toggles and a key up. Without encryption; no hypothesis on the
  server.
\<close>

theorem input_session_roundtrip:
  assumes "input_ready E sent A" "\<forall>ev \<in> set evs. input_ok ev"
  shows "\<exists>w. send_input E A evs = Some (rdp_set_world w A) \<and> sent w = sent (rdp_world A) @ concat (map event_unit evs)
    \<and> (\<forall>ss. list_all2 carries ss (map event_unit evs) \<longrightarrow> (\<exists>B'. receive_input F B ss = Some B'
        \<and> rdp_world B' = fold (deliver_input (se_inputs F)) (concat (map server_events evs)) (rdp_world B)))"
  using input_sent [OF assms(2,1)] input_received [OF assms(2)] by blast

definition note_inputs :: "pipe inputs" where
  "note_inputs = quiet_inputs\<lparr>cb_KeyboardEvent := \<lambda>flags code (ps, i). (ps @ [[word_of_int (drop_bit 8 flags), word_of_int code]], i)\<rparr>"

lemma fp_input_ready: "input_ready fp_session (snd \<circ> snd) fp_end"
proof -
  have "pool_ready fp_net (snd \<circ> snd)"
    unfolding pool_ready_def
  proof (intro conjI allI impI)
    fix n :: int and w :: pipe assume "0 < n" "n \<le> 1073741823"
    then have "holds (blank (nat n)) []" by (intro blank_holds) simp_all
    with \<open>0 < n\<close> show "\<exists>s w' p. StreamPool_Take fp_net n w = (Some s, w') \<and> (snd \<circ> snd) w' = (snd \<circ> snd) w \<and> holds s p \<and> n \<le> s_capacity s"
      by (intro exI [of _ "blank (nat n)"] exI [of _ w] exI [of _ "[]"]) (simp add: fp_net_def)
  qed (simp_all add: fp_net_def pipe_net_def)
  then show ?thesis using fp_ready(1) by (simp add: input_ready_def sender_ready_def fp_session_def fp_end_def)
qed

theorem input_session_roundtrip_witness:
  "\<exists>w ss. send_input fp_session fp_end [KeyboardEvent 0x8100 30, KeyboardPauseEvent] = Some (rdp_set_world w fp_end)
    \<and> concat (map s_rest ss) = snd (snd w)
    \<and> map_option (fst \<circ> rdp_world) (receive_input (fp_session\<lparr>se_inputs := note_inputs\<rparr>) fp_end ss)
      = Some [[0x81, 30], [0x40, 0x1D], [0x40, 0x45], [0x80, 0x1D], [0x80, 0x45]]"
proof -
  let ?evs = "[KeyboardEvent 0x8100 30, KeyboardPauseEvent]"
  let ?F = "fp_session\<lparr>se_inputs := note_inputs\<rparr>"
  let ?ss = "map (\<lambda>u. (written u)\<lparr>s_pos := 0\<rparr>) (map event_unit ?evs)"
  have c: "carries ((written u)\<lparr>s_pos := 0\<rparr>) u" "s_rest ((written u)\<lparr>s_pos := 0\<rparr>) = u" if "length u \<le> 1000" for u
    using that by (simp_all add: carries_def written_def s_ok_def s_rest_def)
  have len: "length (event_unit ev) \<le> 1000" if "ev \<in> set ?evs" for ev using that by (auto simp: event_unit_def input_unit_def fp_event_def)
  obtain w where w: "send_input fp_session fp_end ?evs = Some (rdp_set_world w fp_end)"
      "(snd \<circ> snd) w = (snd \<circ> snd) (rdp_world fp_end) @ concat (map event_unit ?evs)"
    and r: "\<And>ss. list_all2 carries ss (map event_unit ?evs) \<Longrightarrow> \<exists>B'. receive_input ?F fp_end ss = Some B'
        \<and> rdp_world B' = fold (deliver_input (se_inputs ?F)) (concat (map server_events ?evs)) (rdp_world fp_end)"
    using input_session_roundtrip [OF fp_input_ready, of ?evs ?F fp_end] by auto
  have "list_all2 carries ?ss (map event_unit ?evs)" using c(1) len by simp
  from r [OF this] obtain B' where "receive_input ?F fp_end ?ss = Some B'"
    "rdp_world B' = fold (deliver_input (se_inputs ?F)) (concat (map server_events ?evs)) (rdp_world fp_end)" by blast
  then show ?thesis using w c(2) len
    by (intro exI [of _ w] exI [of _ ?ss] conjI) (simp_all add: note_inputs_def quiet_inputs_def kbd_view_def comp_def)
qed

end
