(* ===== verification/WServerChannels.thy ===== *)
theory WServerChannels
  imports WMcs
begin

text \<open>
  The virtual channels of a server, from \<open>libfreerdp/core/server.c\<close>: the chunks that arrive on a static channel are put
  together, and the units of the channel \<open>drdynvc\<close> carry the data of any number of dynamic channels.

  The message queues hold the messages themselves, the oldest first (that \<open>MessageQueue.c\<close> is such a queue is shown in
  \<open>MsgQueue\<close>); a dynamic channel is found by its identifier. \<open>M n\<close> is the outcome of an allocation of \<open>n\<close> bytes; the code
  does not look at it, and a failure is a null pointer that is used.
\<close>

abbreviation (input) CREATE_REQUEST_PDU :: int where "CREATE_REQUEST_PDU \<equiv> 1"
abbreviation (input) DATA_FIRST_PDU :: int where "DATA_FIRST_PDU \<equiv> 2"
abbreviation (input) DATA_PDU :: int where "DATA_PDU \<equiv> 3"
abbreviation (input) CLOSE_REQUEST_PDU :: int where "CLOSE_REQUEST_PDU \<equiv> 4"
abbreviation (input) CAPABILITY_REQUEST_PDU :: int where "CAPABILITY_REQUEST_PDU \<equiv> 5"
abbreviation (input) VCM_STATE_NONE :: int where "VCM_STATE_NONE \<equiv> 0"
abbreviation (input) VCM_STATE_INITIALIZED :: int where "VCM_STATE_INITIALIZED \<equiv> 1"
abbreviation (input) VCM_STATE_READY :: int where "VCM_STATE_READY \<equiv> 2"
abbreviation (input) DVC_OPEN_STATE_NONE :: int where "DVC_OPEN_STATE_NONE \<equiv> 0"
abbreviation (input) DVC_OPEN_STATE_SUCCEEDED :: int where "DVC_OPEN_STATE_SUCCEEDED \<equiv> 1"
abbreviation (input) DVC_OPEN_STATE_FAILED :: int where "DVC_OPEN_STATE_FAILED \<equiv> 2"
abbreviation (input) DVC_OPEN_STATE_CLOSED :: int where "DVC_OPEN_STATE_CLOSED \<equiv> 3"
abbreviation (input) CHANNEL_FLAG_FIRST :: int where "CHANNEL_FLAG_FIRST \<equiv> 1"
abbreviation (input) CHANNEL_FLAG_LAST :: int where "CHANNEL_FLAG_LAST \<equiv> 2"
abbreviation (input) CHANNEL_FLAG_SHOW_PROTOCOL :: int where "CHANNEL_FLAG_SHOW_PROTOCOL \<equiv> 0x10"

section \<open>State\<close>

record wtsChannelMessage =
  cm_channelId :: int
  cm_length :: int
  cm_offset :: int
  cm_data :: "byte list"

record rdpPeerChannel =
  pc_channelId :: int
  pc_dynamic :: bool
  pc_receiveData :: wStream
  pc_queue :: "wtsChannelMessage list"
  pc_dvc_open_state :: int
  pc_dvc_total_length :: int

text \<open>The items of the sending queue are a channel and the bytes to send.\<close>

record WTSVirtualChannelManager =
  vcm_queue :: "(int \<times> byte list) list"
  vcm_drdynvc_channel :: "rdpPeerChannel option"
  vcm_drdynvc_state :: int
  vcm_dvc_channel_id_seq :: int
  vcm_dynamicVirtualChannels :: "rdpPeerChannel list"
  vcm_VirtualChannelChunkSize :: int

type_synonym memory = "int \<Rightarrow> byte fresh"

definition new_stream :: "memory \<Rightarrow> int \<Rightarrow> wStream option" where
  "new_stream M n = Stream_New True (M n) None n"

section \<open>Queues\<close>

definition wts_get_dvc_channel_by_id :: "WTSVirtualChannelManager \<Rightarrow> int \<Rightarrow> rdpPeerChannel option" where
  "wts_get_dvc_channel_by_id vcm ChannelId = List.find (\<lambda>ch. pc_channelId ch = ChannelId) (vcm_dynamicVirtualChannels vcm)"

text \<open>A change of the channel that was found.\<close>

fun set_channel :: "int \<Rightarrow> rdpPeerChannel \<Rightarrow> rdpPeerChannel list \<Rightarrow> rdpPeerChannel list" where
  "set_channel ChannelId ch [] = []"
| "set_channel ChannelId ch (c # cs) = (if pc_channelId c = ChannelId then ch # cs else c # set_channel ChannelId ch cs)"

text \<open>A message of the \<open>len\<close> bytes from the index \<open>i\<close> of a buffer on.\<close>

definition wts_queue_receive_data :: "memory \<Rightarrow> rdpPeerChannel \<Rightarrow> byte list \<Rightarrow> int \<Rightarrow> int \<Rightarrow> rdpPeerChannel option" where
  "wts_queue_receive_data M channel buf i len = do {
     j \<leftarrow> M (12 + len);
     data \<leftarrow> ablock buf i len;
     Some (channel\<lparr>pc_queue := pc_queue channel @
       [\<lparr>cm_channelId = u16 (pc_channelId channel), cm_length = len, cm_offset = 0, cm_data = data\<rparr>]\<rparr>) }"

definition wts_queue_send_item :: "WTSVirtualChannelManager \<Rightarrow> rdpPeerChannel \<Rightarrow> byte list \<Rightarrow> WTSVirtualChannelManager" where
  "wts_queue_send_item vcm channel buffer = vcm\<lparr>vcm_queue := vcm_queue vcm @ [(u16 (pc_channelId channel), buffer)]\<rparr>"

section \<open>Numbers of variable length\<close>

text \<open>The number of bytes, 0 where they are not there, and the value.\<close>

definition wts_read_variable_uint :: "wStream \<Rightarrow> int \<Rightarrow> ((int \<times> int option) \<times> wStream) option" where
  "wts_read_variable_uint s cbLen =
     (if cbLen = 0 then
        if Stream_GetRemainingLength s < 1 then Some ((0, None), s)
        else do { (val, s) \<leftarrow> Stream_Read_UINT8 s; Some ((1, Some val), s) }
      else if cbLen = 1 then
        if Stream_GetRemainingLength s < 2 then Some ((0, None), s)
        else do { (val, s) \<leftarrow> Stream_Read_UINT16 s; Some ((2, Some val), s) }
      else
        if Stream_GetRemainingLength s < 4 then Some ((0, None), s)
        else do { (val, s) \<leftarrow> Stream_Read_UINT32 s; Some ((4, Some val), s) })"

definition wts_write_variable_uint :: "wStream \<Rightarrow> int \<Rightarrow> (int \<times> wStream) option" where
  "wts_write_variable_uint s val =
     (if val \<le> 0xFF then do { s \<leftarrow> Stream_Write_UINT8 s val; Some (0, s) }
      else if val \<le> 0xFFFF then do { s \<leftarrow> Stream_Write_UINT16 s val; Some (1, s) }
      else do { s \<leftarrow> Stream_Write_UINT32 s val; Some (2, s) })"

section \<open>Receiving\<close>

text \<open>The units are read from the data that was received on the channel \<open>drdynvc\<close>, of which \<open>len\<close> bytes are left.\<close>

definition wts_read_drdynvc_capabilities_response :: "WTSVirtualChannelManager \<Rightarrow> wStream \<Rightarrow> int \<Rightarrow>
    (WTSVirtualChannelManager \<times> wStream) option" where
  "wts_read_drdynvc_capabilities_response vcm s len =
     (if len < 3 then Some (vcm, s)
      else do {
        s \<leftarrow> Stream_Seek s 1;
        (Version, s) \<leftarrow> Stream_Read_UINT16 s;
        Some (vcm\<lparr>vcm_drdynvc_state := VCM_STATE_READY\<rparr>, s) })"

definition wts_read_drdynvc_create_response :: "rdpPeerChannel \<Rightarrow> wStream \<Rightarrow> int \<Rightarrow> (rdpPeerChannel \<times> wStream) option" where
  "wts_read_drdynvc_create_response channel s len =
     (if len < 4 then Some (channel, s)
      else do {
        (CreationStatus, s) \<leftarrow> Stream_Read_UINT32 s;
        Some (channel\<lparr>pc_dvc_open_state := (if as_int CreationStatus < 0 then DVC_OPEN_STATE_FAILED else DVC_OPEN_STATE_SUCCEEDED)\<rparr>, s) })"

definition wts_read_drdynvc_data_first :: "memory \<Rightarrow> rdpPeerChannel \<Rightarrow> wStream \<Rightarrow> int \<Rightarrow> int \<Rightarrow> (rdpPeerChannel \<times> wStream) option" where
  "wts_read_drdynvc_data_first M channel s cbLen len = do {
     ((value, totalLength), s) \<leftarrow> wts_read_variable_uint s cbLen;
     case totalLength of None \<Rightarrow> Some (channel, s)
     | Some totalLength \<Rightarrow> do {
         let channel = channel\<lparr>pc_dvc_total_length := totalLength\<rparr>;
         let len = (len - value) mod 4294967296;
         if totalLength < len then Some (channel, s)
         else do {
           receiveData \<leftarrow> Stream_SetPosition (pc_receiveData channel) 0;
           (_, receiveData) \<leftarrow> Stream_EnsureRemainingCapacity (M totalLength) receiveData (csize (as_int totalLength));
           data \<leftarrow> ablock (s_buffer s) (s_pos s) len;
           receiveData \<leftarrow> Stream_Write receiveData data;
           Some (channel\<lparr>pc_receiveData := receiveData\<rparr>, s) } } }"

definition wts_read_drdynvc_data :: "memory \<Rightarrow> rdpPeerChannel \<Rightarrow> wStream \<Rightarrow> int \<Rightarrow> (rdpPeerChannel \<times> wStream) option" where
  "wts_read_drdynvc_data M channel s len =
     (if 0 < pc_dvc_total_length channel then
        if pc_dvc_total_length channel < s_pos (pc_receiveData channel) + len then Some (channel\<lparr>pc_dvc_total_length := 0\<rparr>, s)
        else do {
          data \<leftarrow> ablock (s_buffer s) (s_pos s) len;
          receiveData \<leftarrow> Stream_Write (pc_receiveData channel) data;
          let channel = channel\<lparr>pc_receiveData := receiveData\<rparr>;
          if as_int (pc_dvc_total_length channel) \<le> s_pos receiveData then do {
            channel \<leftarrow> wts_queue_receive_data M channel (s_buffer receiveData) 0 (pc_dvc_total_length channel);
            Some (channel\<lparr>pc_dvc_total_length := 0\<rparr>, s) }
          else Some (channel, s) }
      else do {
        channel \<leftarrow> wts_queue_receive_data M channel (s_buffer s) (s_pos s) len;
        Some (channel, s) })"

definition wts_read_drdynvc_close_response :: "rdpPeerChannel \<Rightarrow> rdpPeerChannel" where
  "wts_read_drdynvc_close_response channel = channel\<lparr>pc_dvc_open_state := DVC_OPEN_STATE_CLOSED\<rparr>"

text \<open>The handler of a command on the dynamic channel \<open>dvc\<close>.\<close>

definition wts_read_dvc :: "memory \<Rightarrow> int \<Rightarrow> int \<Rightarrow> rdpPeerChannel \<Rightarrow> wStream \<Rightarrow> int \<Rightarrow> (rdpPeerChannel \<times> wStream) option" where
  "wts_read_dvc M Cmd Sp dvc s len =
     (if Cmd = CREATE_REQUEST_PDU then wts_read_drdynvc_create_response dvc s len
      else if Cmd = DATA_FIRST_PDU then wts_read_drdynvc_data_first M dvc s Sp len
      else if Cmd = DATA_PDU then wts_read_drdynvc_data M dvc s len
      else if Cmd = CLOSE_REQUEST_PDU then Some (wts_read_drdynvc_close_response dvc, s)
      else Some (dvc, s))"

definition wts_read_drdynvc_pdu :: "memory \<Rightarrow> WTSVirtualChannelManager \<Rightarrow> wStream \<Rightarrow> (WTSVirtualChannelManager \<times> wStream) option" where
  "wts_read_drdynvc_pdu M vcm receiveData =
     (let len = s_pos receiveData mod 4294967296
      in if len < 1 then Some (vcm, receiveData)
         else do {
           s \<leftarrow> Stream_SetPosition receiveData 0;
           (value, s) \<leftarrow> Stream_Read_UINT8 s;
           let len = len - 1;
           let Cmd = drop_bit 4 (value AND 0xf0);
           let Sp = drop_bit 2 (value AND 0x0c);
           let cbChId = value AND 0x03;
           if Cmd = CAPABILITY_REQUEST_PDU then wts_read_drdynvc_capabilities_response vcm s len
           else if vcm_drdynvc_state vcm = VCM_STATE_READY then do {
             ((value, ChannelId), s) \<leftarrow> wts_read_variable_uint s cbChId;
             (case ChannelId of None \<Rightarrow> Some (vcm, s)
              | Some ChannelId \<Rightarrow>
                  (case wts_get_dvc_channel_by_id vcm ChannelId of None \<Rightarrow> Some (vcm, s)
                   | Some dvc \<Rightarrow> do {
                       (dvc, s) \<leftarrow> wts_read_dvc M Cmd Sp dvc s ((len - value) mod 4294967296);
                       Some (vcm\<lparr>vcm_dynamicVirtualChannels := set_channel ChannelId dvc (vcm_dynamicVirtualChannels vcm)\<rparr>, s) })) }
           else Some (vcm, s) })"

text \<open>
  A chunk of \<open>sz\<close> bytes on a static channel. The channel \<open>drdynvc\<close> of the manager is the one with the flag \<open>is_drdynvc\<close>.
\<close>

definition WTSProcessChannelData :: "memory \<Rightarrow> WTSVirtualChannelManager \<Rightarrow> bool \<Rightarrow> rdpPeerChannel \<Rightarrow> byte list \<Rightarrow> int \<Rightarrow> int \<Rightarrow>
    (WTSVirtualChannelManager \<times> rdpPeerChannel) option" where
  "WTSProcessChannelData M vcm is_drdynvc channel data flags totalSize = do {
     s \<leftarrow> (if flags AND CHANNEL_FLAG_FIRST \<noteq> 0 then Stream_SetPosition (pc_receiveData channel) 0 else Some (pc_receiveData channel));
     (_, s) \<leftarrow> Stream_EnsureRemainingCapacity (M (int (length data))) s (int (length data));
     s \<leftarrow> Stream_Write s data;
     if flags AND CHANNEL_FLAG_LAST \<noteq> 0 then do {
       (vcm, channel, s) \<leftarrow>
         (if is_drdynvc then do { (vcm, s) \<leftarrow> wts_read_drdynvc_pdu M vcm s; Some (vcm, channel, s) }
          else do { channel \<leftarrow> wts_queue_receive_data M channel (s_buffer s) 0 (s_pos s); Some (vcm, channel, s) });
       s \<leftarrow> Stream_SetPosition s 0;
       Some (vcm, channel\<lparr>pc_receiveData := s\<rparr>) }
     else Some (vcm, channel\<lparr>pc_receiveData := s\<rparr>) }"

text \<open>The channel with the handle of an MCS channel: the channels that the server has opened, by their identifier.\<close>

definition WTSReceiveChannelData :: "memory \<Rightarrow> rdpMcsChannel list \<Rightarrow> WTSVirtualChannelManager \<Rightarrow> (int \<Rightarrow> rdpPeerChannel option) \<Rightarrow> int \<Rightarrow>
    byte list \<Rightarrow> int \<Rightarrow> int \<Rightarrow> (bool \<times> WTSVirtualChannelManager \<times> (int \<Rightarrow> rdpPeerChannel option)) option" where
  "WTSReceiveChannelData M channels vcm peer channelId data flags totalSize =
     (case List.find (\<lambda>c. ch_ChannelId c = channelId) channels of None \<Rightarrow> Some (False, vcm, peer)
      | Some c \<Rightarrow>
          let is_drdynvc = (case vcm_drdynvc_channel vcm of None \<Rightarrow> False | Some d \<Rightarrow> pc_channelId d = channelId) in
          (case (if is_drdynvc then vcm_drdynvc_channel vcm else peer channelId) of None \<Rightarrow> Some (False, vcm, peer)
           | Some channel \<Rightarrow> do {
               (vcm, channel) \<leftarrow> WTSProcessChannelData M vcm is_drdynvc channel data flags totalSize;
               Some (if is_drdynvc then (True, vcm\<lparr>vcm_drdynvc_channel := Some channel\<rparr>, peer)
                 else (True, vcm, peer(channelId \<mapsto> channel))) }))"

section \<open>Sending and reading\<close>

definition wts_write_drdynvc_header :: "wStream \<Rightarrow> int \<Rightarrow> int \<Rightarrow> wStream option" where
  "wts_write_drdynvc_header s Cmd ChannelId = do {
     let bm = s_pos s;
     s \<leftarrow> Stream_Seek s 1;
     (cbChId, s) \<leftarrow> wts_write_variable_uint s ChannelId;
     buf \<leftarrow> aset (s_buffer s) bm (word_of_int (push_bit 4 (Cmd AND 0x0F) OR cbChId));
     Some (s\<lparr>s_buffer := buf\<rparr>) }"

text \<open>The terminator of the name is written too.\<close>

definition wts_write_drdynvc_create_request :: "memory \<Rightarrow> wStream \<Rightarrow> int \<Rightarrow> byte list \<Rightarrow> wStream option" where
  "wts_write_drdynvc_create_request M s ChannelId ChannelName = do {
     s \<leftarrow> wts_write_drdynvc_header s CREATE_REQUEST_PDU ChannelId;
     (_, s) \<leftarrow> Stream_EnsureRemainingCapacity (M (int (length ChannelName) + 1)) s (int (length ChannelName) + 1);
     Stream_Write s (ChannelName @ [0]) }"

text \<open>The units of data for a dynamic channel, with as much in each as fits a chunk.\<close>

partial_function (option) wts_write_dvc_loop :: "memory \<Rightarrow> bool \<Rightarrow> rdpPeerChannel \<Rightarrow> byte list \<Rightarrow> WTSVirtualChannelManager \<Rightarrow>
    WTSVirtualChannelManager option" where
  "wts_write_dvc_loop M first channel Buffer vcm =
     (if Buffer = [] then Some vcm
      else do {
        s \<leftarrow> new_stream M (vcm_VirtualChannelChunkSize vcm);
        s \<leftarrow> Stream_Seek s 1;
        (cbChId, s) \<leftarrow> wts_write_variable_uint s (pc_channelId channel);
        (value, s) \<leftarrow>
          (if first \<and> Stream_GetRemainingLength s < int (length Buffer) then do {
             (cbLen, s) \<leftarrow> wts_write_variable_uint s (int (length Buffer));
             Some (push_bit 4 DATA_FIRST_PDU OR push_bit 2 cbLen OR cbChId, s) }
           else Some (push_bit 4 DATA_PDU OR cbChId, s));
        buf \<leftarrow> aset (s_buffer s) 0 (word_of_int value);
        let s = s\<lparr>s_buffer := buf\<rparr>;
        let written = Stream_GetRemainingLength s mod 4294967296;
        let written = (if int (length Buffer) < written then int (length Buffer) else written);
        s \<leftarrow> Stream_Write s (take (nat written) Buffer);
        sent \<leftarrow> ablock (s_buffer s) 0 (s_pos s);
        drdynvc \<leftarrow> vcm_drdynvc_channel vcm;
        wts_write_dvc_loop M False channel (drop (nat written) Buffer) (wts_queue_send_item vcm drdynvc sent) })"

definition FreeRDP_WTSVirtualChannelWrite :: "memory \<Rightarrow> WTSVirtualChannelManager \<Rightarrow> rdpPeerChannel \<Rightarrow> byte list \<Rightarrow>
    (bool \<times> WTSVirtualChannelManager) option" where
  "FreeRDP_WTSVirtualChannelWrite M vcm channel Buffer =
     (if \<not> pc_dynamic channel then do {
        j \<leftarrow> M (int (length Buffer));
        Some (True, wts_queue_send_item vcm channel Buffer) }
      else if vcm_drdynvc_channel vcm = None \<or> vcm_drdynvc_state vcm \<noteq> VCM_STATE_READY then Some (False, vcm)
      else do {
        vcm \<leftarrow> wts_write_dvc_loop M True channel Buffer vcm;
        Some (True, vcm) })"

text \<open>
  Reading at most \<open>BufferSize\<close> bytes of the oldest message: the bytes, and the number that is reported. Without a buffer
  only the number is.
\<close>

definition FreeRDP_WTSVirtualChannelRead :: "rdpPeerChannel \<Rightarrow> bool \<Rightarrow> int \<Rightarrow> (bool \<times> int \<times> byte list \<times> rdpPeerChannel) option" where
  "FreeRDP_WTSVirtualChannelRead channel Buffer BufferSize =
     (case pc_queue channel of [] \<Rightarrow> Some (False, 0, [], channel)
      | m # ms \<Rightarrow>
          let n = (cm_length m - cm_offset m) mod 4294967296 in
          if \<not> Buffer \<or> BufferSize = 0 then Some (True, n, [], channel)
          else do {
            let n = (if BufferSize < n then BufferSize else n);
            data \<leftarrow> ablock (cm_data m) (cm_offset m) n;
            let m = m\<lparr>cm_offset := (cm_offset m + n) mod 4294967296\<rparr>;
            Some (True, n, data, channel\<lparr>pc_queue := (if cm_length m \<le> cm_offset m then ms else m # ms)\<rparr>) })"

end
