(* ===== verification/WDrdynvc.thy ===== *)
theory WDrdynvc
  imports WServerChannels
begin

text \<open>
  The client of the dynamic virtual channels, from \<open>channels/drdynvc/client/drdynvc_main.c\<close>: the units that the plug-in sends and
  receives on the static channel \<open>drdynvc\<close>, the fragments of the data, and the channels that the server opens and closes.

  The listeners are known by their names. The record \<open>dvc\<close> holds what the plug-in calls: the static channel below, the
  callbacks of the listeners and of the application, the stream pool and the allocations.
\<close>

abbreviation (input) CHANNEL_CHUNK_LENGTH :: int where "CHANNEL_CHUNK_LENGTH \<equiv> 1600"
abbreviation (input) CHANNEL_FLAG_SUSPEND :: int where "CHANNEL_FLAG_SUSPEND \<equiv> 0x20"
abbreviation (input) CHANNEL_FLAG_RESUME :: int where "CHANNEL_FLAG_RESUME \<equiv> 0x40"
abbreviation (input) CHANNEL_RC_OK :: int where "CHANNEL_RC_OK \<equiv> 0"
abbreviation (input) DRDYNVC_STATE_CAPABILITIES :: int where "DRDYNVC_STATE_CAPABILITIES \<equiv> 1"
abbreviation (input) DRDYNVC_STATE_READY :: int where "DRDYNVC_STATE_READY \<equiv> 2"

section \<open>State\<close>

record DVCMAN_CHANNEL =
  dc_status :: int
  dc_channel_id :: int
  dc_channel_name :: "byte list"
  dc_dvc_data :: "wStream option"
  dc_dvc_data_length :: int

record 'w dvc =
  dvc_memory :: memory
  pVirtualChannelWrite :: "byte list \<Rightarrow> 'w \<Rightarrow> int \<times> 'w"
  dvc_StreamPool_Take :: "int \<Rightarrow> 'w \<Rightarrow> wStream option \<times> 'w"
  OnNewChannelConnection :: "byte list \<Rightarrow> int \<Rightarrow> 'w \<Rightarrow> bool \<times> 'w"
  OnChannelConnected :: "byte list \<Rightarrow> 'w \<Rightarrow> 'w"
  OnChannelDisconnected :: "byte list \<Rightarrow> 'w \<Rightarrow> 'w"
  OnOpen :: "int \<Rightarrow> 'w \<Rightarrow> 'w"
  OnClose :: "int \<Rightarrow> 'w \<Rightarrow> 'w"
  OnDataReceived :: "int \<Rightarrow> byte list \<Rightarrow> 'w \<Rightarrow> int \<times> 'w"

record 'w drdynvcPlugin =
  dp_world :: 'w
  dp_data_in :: "wStream option"
  dp_queue :: "wStream list"
  dp_state :: int
  dp_version :: int
  dp_PriorityCharge :: "int list"
  dp_channel_error :: int
  dp_listeners :: "byte list list"
  dp_channels :: "DVCMAN_CHANNEL list"

section \<open>Channels\<close>

definition dvcman_find_channel_by_id :: "'w drdynvcPlugin \<Rightarrow> int \<Rightarrow> DVCMAN_CHANNEL option" where
  "dvcman_find_channel_by_id p ChannelId = List.find (\<lambda>c. dc_channel_id c = ChannelId) (dp_channels p)"

fun set_dvc :: "int \<Rightarrow> DVCMAN_CHANNEL \<Rightarrow> DVCMAN_CHANNEL list \<Rightarrow> DVCMAN_CHANNEL list" where
  "set_dvc ChannelId ch [] = []"
| "set_dvc ChannelId ch (c # cs) = (if dc_channel_id c = ChannelId then ch # cs else c # set_dvc ChannelId ch cs)"

definition dvcman_channel_new :: "'w dvc \<Rightarrow> 'w drdynvcPlugin \<Rightarrow> int \<Rightarrow> byte list \<Rightarrow> DVCMAN_CHANNEL option" where
  "dvcman_channel_new V p ChannelId ChannelName =
     (if dvcman_find_channel_by_id p ChannelId \<noteq> None then None
      else map_option (\<lambda>_. \<lparr>dc_status = 0, dc_channel_id = ChannelId, dc_channel_name = ChannelName, dc_dvc_data = None,
        dc_dvc_data_length = 0\<rparr>) (dvc_memory V 64))"

text \<open>Every listener of that name is asked until one accepts the channel.\<close>

fun dvcman_ask :: "'w dvc \<Rightarrow> byte list list \<Rightarrow> byte list \<Rightarrow> int \<Rightarrow> 'w \<Rightarrow> bool \<times> 'w" where
  "dvcman_ask V [] ChannelName ChannelId w = (False, w)"
| "dvcman_ask V (l # ls) ChannelName ChannelId w =
     (if l = ChannelName then
        (let (ok, w) = OnNewChannelConnection V ChannelName ChannelId w
         in if ok then (True, OnChannelConnected V ChannelName w) else dvcman_ask V ls ChannelName ChannelId w)
      else dvcman_ask V ls ChannelName ChannelId w)"

definition dvcman_create_channel :: "'w dvc \<Rightarrow> 'w drdynvcPlugin \<Rightarrow> int \<Rightarrow> byte list \<Rightarrow> int \<times> 'w drdynvcPlugin" where
  "dvcman_create_channel V p ChannelId ChannelName =
     (case dvcman_channel_new V p ChannelId ChannelName of None \<Rightarrow> (1, p)
      | Some ch \<Rightarrow>
          let (ok, w) = dvcman_ask V (dp_listeners p) ChannelName ChannelId (dp_world p)
          in (if ok then 0 else 1,
              p\<lparr>dp_channels := dp_channels p @ [ch\<lparr>dc_status := (if ok then 0 else 1)\<rparr>], dp_world := w\<rparr>))"

definition dvcman_open_channel :: "'w dvc \<Rightarrow> 'w drdynvcPlugin \<Rightarrow> int \<Rightarrow> int \<times> 'w drdynvcPlugin" where
  "dvcman_open_channel V p ChannelId =
     (case dvcman_find_channel_by_id p ChannelId of None \<Rightarrow> (1, p)
      | Some ch \<Rightarrow> (0, if dc_status ch = 0 then p\<lparr>dp_world := OnOpen V ChannelId (dp_world p)\<rparr> else p))"

text \<open>The list frees the channel it removes, which then is closed if a listener had taken it.\<close>

definition dvcman_close_channel :: "'w dvc \<Rightarrow> 'w drdynvcPlugin \<Rightarrow> int \<Rightarrow> int \<times> 'w drdynvcPlugin" where
  "dvcman_close_channel V p ChannelId =
     (case dvcman_find_channel_by_id p ChannelId of None \<Rightarrow> (1, p)
      | Some ch \<Rightarrow>
          let w = (if dc_status ch = 0 then OnChannelDisconnected V (dc_channel_name ch) (dp_world p) else dp_world p);
              w = (if dc_status ch = 0 then OnClose V ChannelId w else w)
          in (0, p\<lparr>dp_channels := remove1 ch (dp_channels p), dp_world := w\<rparr>))"

section \<open>Receiving data\<close>

definition dvcman_receive_channel_data_first :: "'w dvc \<Rightarrow> 'w drdynvcPlugin \<Rightarrow> int \<Rightarrow> int \<Rightarrow> int \<times> 'w drdynvcPlugin" where
  "dvcman_receive_channel_data_first V p ChannelId len =
     (case dvcman_find_channel_by_id p ChannelId of None \<Rightarrow> (1, p)
      | Some ch \<Rightarrow>
          let (s, w) = dvc_StreamPool_Take V len (dp_world p);
              ch = ch\<lparr>dc_dvc_data := s\<rparr>;
              ch = (if s = None then ch else ch\<lparr>dc_dvc_data_length := len\<rparr>)
          in (if s = None then 1 else 0, p\<lparr>dp_channels := set_dvc ChannelId ch (dp_channels p), dp_world := w\<rparr>))"

text \<open>The listener gets what is left of the stream. A channel that no listener has taken has no callback.\<close>

definition dvc_callback :: "'w dvc \<Rightarrow> DVCMAN_CHANNEL \<Rightarrow> wStream \<Rightarrow> 'w drdynvcPlugin \<Rightarrow> (int \<times> 'w drdynvcPlugin) option" where
  "dvc_callback V ch s p = do {
     if dc_status ch \<noteq> 0 then None
     else do {
       data \<leftarrow> ablock (s_buffer s) (s_pos s) (Stream_GetRemainingLength s);
       let (status, w) = OnDataReceived V (dc_channel_id ch) data (dp_world p);
       Some (status, p\<lparr>dp_world := w\<rparr>) } }"

definition dvcman_receive_channel_data :: "'w dvc \<Rightarrow> 'w drdynvcPlugin \<Rightarrow> int \<Rightarrow> wStream \<Rightarrow> (int \<times> 'w drdynvcPlugin) option" where
  "dvcman_receive_channel_data V p ChannelId data =
     (let dataSize = Stream_GetRemainingLength data mod 4294967296
      in case dvcman_find_channel_by_id p ChannelId of None \<Rightarrow> Some (1, p)
         | Some ch \<Rightarrow>
             (case dc_dvc_data ch of None \<Rightarrow> dvc_callback V ch data p
              | Some d \<Rightarrow>
                  if s_capacity d mod 4294967296 < s_pos d + dataSize then
                    Some (1, p\<lparr>dp_channels := set_dvc ChannelId (ch\<lparr>dc_dvc_data := None\<rparr>) (dp_channels p)\<rparr>)
                  else do {
                    bs \<leftarrow> ablock (s_buffer data) (s_pos data) dataSize;
                    d \<leftarrow> Stream_Write d bs;
                    if dc_dvc_data_length ch \<le> s_pos d then do {
                      let d = Stream_SealLength d;
                      d \<leftarrow> Stream_SetPosition d 0;
                      (status, p) \<leftarrow> dvc_callback V ch d p;
                      Some (status, p\<lparr>dp_channels := set_dvc ChannelId (ch\<lparr>dc_dvc_data := None\<rparr>) (dp_channels p)\<rparr>) }
                    else Some (0, p\<lparr>dp_channels := set_dvc ChannelId (ch\<lparr>dc_dvc_data := Some d\<rparr>) (dp_channels p)\<rparr>) }))"

section \<open>Sending\<close>

definition drdynvc_write_variable_uint :: "wStream \<Rightarrow> int \<Rightarrow> (int \<times> wStream) option" where
  "drdynvc_write_variable_uint s val =
     (if val \<le> 0xFF then do { s \<leftarrow> Stream_Write_UINT8 s val; Some (0, s) }
      else if val \<le> 0xFFFF then do { s \<leftarrow> Stream_Write_UINT16 s val; Some (1, s) }
      else do { s \<leftarrow> Stream_Write_UINT32 s val; Some (2, s) })"

text \<open>What stands in front of the pointer is sent; the stream belongs to the channel below from then on.\<close>

definition drdynvc_send :: "'w dvc \<Rightarrow> 'w drdynvcPlugin \<Rightarrow> wStream \<Rightarrow> (int \<times> 'w drdynvcPlugin) option" where
  "drdynvc_send V p s = do {
     bs \<leftarrow> ablock (s_buffer s) 0 (s_pos s);
     let (status, w) = pVirtualChannelWrite V bs (dp_world p);
     Some (status, p\<lparr>dp_world := w\<rparr>) }"

text \<open>A unit starts with the identifier of its channel behind room for one byte, which is written last.\<close>

definition dvc_unit :: "'w dvc \<Rightarrow> int \<Rightarrow> (int \<times> wStream) option" where
  "dvc_unit V ChannelId = do {
     data_out \<leftarrow> new_stream (dvc_memory V) CHANNEL_CHUNK_LENGTH;
     data_out \<leftarrow> Stream_SetPosition data_out 1;
     drdynvc_write_variable_uint data_out ChannelId }"

definition dvc_first_byte :: "wStream \<Rightarrow> int \<Rightarrow> wStream option" where
  "dvc_first_byte data_out value = do {
     let pos = s_pos data_out;
     data_out \<leftarrow> Stream_SetPosition data_out 0;
     data_out \<leftarrow> Stream_Write_UINT8 data_out value;
     Stream_SetPosition data_out pos }"

partial_function (option) dvc_fragments :: "'w dvc \<Rightarrow> int \<Rightarrow> byte list \<Rightarrow> int \<Rightarrow> 'w drdynvcPlugin \<Rightarrow> (int \<times> 'w drdynvcPlugin) option" where
  "dvc_fragments V ChannelId data status p =
     (if status = CHANNEL_RC_OK \<and> data \<noteq> [] then do {
        (cbChId, data_out) \<leftarrow> dvc_unit V ChannelId;
        data_out \<leftarrow> dvc_first_byte data_out (0x30 OR cbChId);
        let pos = s_pos data_out;
        let chunkLength = int (length data);
        let chunkLength = (if CHANNEL_CHUNK_LENGTH - pos < chunkLength then CHANNEL_CHUNK_LENGTH - pos else chunkLength);
        bs \<leftarrow> ablock data 0 chunkLength;
        data_out \<leftarrow> Stream_Write data_out bs;
        (status, p) \<leftarrow> drdynvc_send V p data_out;
        dvc_fragments V ChannelId (drop (nat chunkLength) data) status p }
      else Some (status, p))"

text \<open>The variable \<open>pos\<close> of the code is still 0 where it decides whether the data need fragments.\<close>

definition drdynvc_write_data :: "'w dvc \<Rightarrow> 'w drdynvcPlugin \<Rightarrow> int \<Rightarrow> byte list \<Rightarrow> (int \<times> 'w drdynvcPlugin) option" where
  "drdynvc_write_data V p ChannelId data =
     (if dp_channel_error p \<noteq> CHANNEL_RC_OK then Some (1, p)
      else do {
        let dataSize = int (length data);
        (cbChId, data_out) \<leftarrow> dvc_unit V ChannelId;
        (status, p) \<leftarrow>
          (if dataSize = 0 then do {
             data_out \<leftarrow> dvc_first_byte data_out (0x40 OR cbChId);
             drdynvc_send V p data_out }
           else if dataSize \<le> CHANNEL_CHUNK_LENGTH - 0 then do {
             data_out \<leftarrow> dvc_first_byte data_out (0x30 OR cbChId);
             data_out \<leftarrow> Stream_Write data_out data;
             drdynvc_send V p data_out }
           else do {
             (cbLen, data_out) \<leftarrow> drdynvc_write_variable_uint data_out dataSize;
             data_out \<leftarrow> dvc_first_byte data_out (0x20 OR cbChId OR push_bit 2 cbLen);
             let chunkLength = CHANNEL_CHUNK_LENGTH - s_pos data_out;
             bs \<leftarrow> ablock data 0 chunkLength;
             data_out \<leftarrow> Stream_Write data_out bs;
             (status, p) \<leftarrow> drdynvc_send V p data_out;
             dvc_fragments V ChannelId (drop (nat chunkLength) data) status p });
        if status \<noteq> CHANNEL_RC_OK then Some (1, p\<lparr>dp_channel_error := status\<rparr>) else Some (0, p) })"

section \<open>The units of the server\<close>

definition drdynvc_send_capability_response :: "'w dvc \<Rightarrow> 'w drdynvcPlugin \<Rightarrow> (int \<times> 'w drdynvcPlugin) option" where
  "drdynvc_send_capability_response V p = do {
     s \<leftarrow> new_stream (dvc_memory V) 4;
     s \<leftarrow> Stream_Write_UINT16 s 0x0050;
     s \<leftarrow> Stream_Write_UINT16 s (dp_version p);
     (status, p) \<leftarrow> drdynvc_send V p s;
     Some (if status \<noteq> CHANNEL_RC_OK then 1 else status, p) }"

text \<open>Nothing is known of the length of a unit when it is read.\<close>

definition drdynvc_process_capability_request :: "'w dvc \<Rightarrow> 'w drdynvcPlugin \<Rightarrow> wStream \<Rightarrow> (int \<times> 'w drdynvcPlugin \<times> wStream) option" where
  "drdynvc_process_capability_request V p s = do {
     s \<leftarrow> Stream_Seek s 1;
     (version, s) \<leftarrow> Stream_Read_UINT16 s;
     let p = p\<lparr>dp_version := version\<rparr>;
     (p, s) \<leftarrow>
       (if version = 2 \<or> version = 3 then do {
          (c0, s) \<leftarrow> Stream_Read_UINT16 s;
          (c1, s) \<leftarrow> Stream_Read_UINT16 s;
          (c2, s) \<leftarrow> Stream_Read_UINT16 s;
          (c3, s) \<leftarrow> Stream_Read_UINT16 s;
          Some (p\<lparr>dp_PriorityCharge := [c0, c1, c2, c3]\<rparr>, s) }
        else Some (p, s));
     (status, p) \<leftarrow> drdynvc_send_capability_response V p;
     Some (0, p\<lparr>dp_channel_error := status, dp_state := DRDYNVC_STATE_READY\<rparr>, s) }"

definition drdynvc_read_variable_uint :: "wStream \<Rightarrow> int \<Rightarrow> (int \<times> wStream) option" where
  "drdynvc_read_variable_uint s cbLen =
     (if cbLen = 0 then Stream_Read_UINT8 s else if cbLen = 1 then Stream_Read_UINT16 s else Stream_Read_UINT32 s)"

text \<open>A C string at the pointer: it must end inside the buffer.\<close>

definition c_string_at :: "wStream \<Rightarrow> byte list option" where
  "c_string_at s = (if 0 \<in> set (drop (nat (s_pos s)) (s_buffer s))
     then Some (takeWhile (\<lambda>b. b \<noteq> 0) (drop (nat (s_pos s)) (s_buffer s))) else None)"

definition drdynvc_process_create_request :: "'w dvc \<Rightarrow> 'w drdynvcPlugin \<Rightarrow> int \<Rightarrow> wStream \<Rightarrow> (int \<times> 'w drdynvcPlugin \<times> wStream) option" where
  "drdynvc_process_create_request V p cbChId s = do {
     p \<leftarrow>
       (if dp_state p = DRDYNVC_STATE_CAPABILITIES then do {
          (_, p) \<leftarrow> drdynvc_send_capability_response V (p\<lparr>dp_version := 3\<rparr>);
          Some (p\<lparr>dp_state := DRDYNVC_STATE_READY\<rparr>) }
        else Some p);
     (ChannelId, s) \<leftarrow> drdynvc_read_variable_uint s cbChId;
     let pos = as_int (s_pos s);
     ChannelName \<leftarrow> c_string_at s;
     let (channel_status, p) = dvcman_create_channel V p ChannelId ChannelName;
     data_out \<leftarrow> new_stream (dvc_memory V) (pos + 4);
     data_out \<leftarrow> Stream_Write_UINT8 data_out (0x10 OR cbChId);
     s \<leftarrow> Stream_SetPosition s 1;
     (bs, s) \<leftarrow> Stream_Read s (pos - 1);
     data_out \<leftarrow> Stream_Write data_out bs;
     data_out \<leftarrow> Stream_Write_UINT32 data_out (if channel_status = 0 then 0 else 0xFFFFFFFF);
     let p = (if channel_status = 0 then p else snd (dvcman_close_channel V p ChannelId));
     (status, p) \<leftarrow> drdynvc_send V p data_out;
     if status \<noteq> CHANNEL_RC_OK then Some (1, p, s)
     else Some (0, if channel_status = 0 then snd (dvcman_open_channel V p ChannelId) else p, s) }"

definition drdynvc_process_data_first :: "'w dvc \<Rightarrow> 'w drdynvcPlugin \<Rightarrow> int \<Rightarrow> int \<Rightarrow> wStream \<Rightarrow> (int \<times> 'w drdynvcPlugin \<times> wStream) option" where
  "drdynvc_process_data_first V p Sp cbChId s = do {
     (ChannelId, s) \<leftarrow> drdynvc_read_variable_uint s cbChId;
     (Length, s) \<leftarrow> drdynvc_read_variable_uint s Sp;
     let (status, p) = dvcman_receive_channel_data_first V p ChannelId Length;
     if status \<noteq> 0 then Some (status, p, s)
     else do {
       (status, p) \<leftarrow> dvcman_receive_channel_data V p ChannelId s;
       Some (status, p, s) } }"

definition drdynvc_process_data :: "'w dvc \<Rightarrow> 'w drdynvcPlugin \<Rightarrow> int \<Rightarrow> wStream \<Rightarrow> (int \<times> 'w drdynvcPlugin \<times> wStream) option" where
  "drdynvc_process_data V p cbChId s = do {
     (ChannelId, s) \<leftarrow> drdynvc_read_variable_uint s cbChId;
     (status, p) \<leftarrow> dvcman_receive_channel_data V p ChannelId s;
     Some (status, p, s) }"

definition drdynvc_process_close_request :: "'w dvc \<Rightarrow> 'w drdynvcPlugin \<Rightarrow> int \<Rightarrow> wStream \<Rightarrow> (int \<times> 'w drdynvcPlugin \<times> wStream) option" where
  "drdynvc_process_close_request V p cbChId s = do {
     (ChannelId, s) \<leftarrow> drdynvc_read_variable_uint s cbChId;
     let (_, p) = dvcman_close_channel V p ChannelId;
     data_out \<leftarrow> new_stream (dvc_memory V) 4;
     data_out \<leftarrow> Stream_Write_UINT8 data_out (push_bit 4 CLOSE_REQUEST_PDU OR (cbChId AND 0x03));
     (_, data_out) \<leftarrow> drdynvc_write_variable_uint data_out ChannelId;
     (error, p) \<leftarrow> drdynvc_send V p data_out;
     if error \<noteq> CHANNEL_RC_OK then Some (1, p, s) else Some (0, p\<lparr>dp_channel_error := error\<rparr>, s) }"

definition drdynvc_order_recv :: "'w dvc \<Rightarrow> 'w drdynvcPlugin \<Rightarrow> wStream \<Rightarrow> 'w drdynvcPlugin option" where
  "drdynvc_order_recv V p s = do {
     (value, s) \<leftarrow> Stream_Read_UINT8 s;
     let Cmd = drop_bit 4 (value AND 0xf0);
     let Sp = drop_bit 2 (value AND 0x0c);
     let cbChId = value AND 0x03;
     (_, p, s) \<leftarrow>
       (if Cmd = CAPABILITY_REQUEST_PDU then drdynvc_process_capability_request V p s
        else if Cmd = CREATE_REQUEST_PDU then drdynvc_process_create_request V p cbChId s
        else if Cmd = DATA_FIRST_PDU then drdynvc_process_data_first V p Sp cbChId s
        else if Cmd = DATA_PDU then drdynvc_process_data V p cbChId s
        else if Cmd = CLOSE_REQUEST_PDU then drdynvc_process_close_request V p cbChId s
        else Some (0, p, s));
     Some p }"

section \<open>The static channel\<close>

text \<open>The chunks of a unit are put together and queued for the thread of the plug-in.\<close>

definition drdynvc_virtual_channel_event_data_received :: "'w dvc \<Rightarrow> 'w drdynvcPlugin \<Rightarrow> byte list \<Rightarrow> int \<Rightarrow> int \<Rightarrow> 'w drdynvcPlugin option" where
  "drdynvc_virtual_channel_event_data_received V p data totalSize dataFlags =
     (if dataFlags AND CHANNEL_FLAG_SUSPEND \<noteq> 0 \<or> dataFlags AND CHANNEL_FLAG_RESUME \<noteq> 0 then Some p
      else
        let p = (if dataFlags AND CHANNEL_FLAG_FIRST \<noteq> 0 then p\<lparr>dp_data_in := new_stream (dvc_memory V) totalSize\<rparr> else p)
        in case dp_data_in p of None \<Rightarrow> Some p
           | Some data_in \<Rightarrow> do {
               (ok, data_in) \<leftarrow> Stream_EnsureRemainingCapacity (dvc_memory V (int (length data))) data_in (int (length data));
               if \<not> ok then Some (p\<lparr>dp_data_in := None\<rparr>)
               else do {
                 data_in \<leftarrow> Stream_Write data_in data;
                 if dataFlags AND CHANNEL_FLAG_LAST \<noteq> 0 then do {
                   data_in \<leftarrow> Stream_SetPosition (Stream_SealLength data_in) 0;
                   Some (p\<lparr>dp_data_in := None, dp_queue := dp_queue p @ [data_in]\<rparr>) }
                 else Some (p\<lparr>dp_data_in := Some data_in\<rparr>) } })"

text \<open>The thread takes the units from the queue; one step of its loop.\<close>

definition drdynvc_client_step :: "'w dvc \<Rightarrow> 'w drdynvcPlugin \<Rightarrow> 'w drdynvcPlugin option" where
  "drdynvc_client_step V p =
     (case dp_queue p of [] \<Rightarrow> Some p
      | data # rest \<Rightarrow> drdynvc_order_recv V (p\<lparr>dp_queue := rest\<rparr>) data)"

end
