(* ===== verification/DvcLink.thy ===== *)
theory DvcLink
  imports WDrdynvc
begin

text \<open>
  The two ends of the dynamic virtual channels against each other: what the plug-in of the client writes to a channel is what
  the server finds in the queue of that channel, through the fragments of the plug-in and the chunks of the static channel.
\<close>

section \<open>The bytes of the units\<close>

definition vcode :: "int \<Rightarrow> int" where
  "vcode v = (if v \<le> 0xFF then 0 else if v \<le> 0xFFFF then 1 else 2)"

definition vbytes :: "int \<Rightarrow> byte list" where
  "vbytes v = (if v \<le> 0xFF then [word_of_int v] else if v \<le> 0xFFFF then le16 v else le32 v)"

lemma vbytes_length: "1 \<le> length (vbytes v)" "length (vbytes v) \<le> 4"
  by (simp_all add: vbytes_def)

lemma vcode_cases: "vcode v = 0 \<or> vcode v = 1 \<or> vcode v = 2"
  by (simp add: vcode_def)

lemma write_variable_uint:
  "drdynvc_write_variable_uint s v = map_option (\<lambda>s. (vcode v, s)) (Stream_Write s (vbytes v))"
  "wts_write_variable_uint s v = map_option (\<lambda>s. (vcode v, s)) (Stream_Write s (vbytes v))"
  by (simp_all add: drdynvc_write_variable_uint_def wts_write_variable_uint_def emits vcode_def vbytes_def map_conv_bind_option comp_def)

lemma read_variable_uint:
  assumes "s_ok s" and "s_rest s = vbytes v @ rest" and "0 \<le> v" and "v < 4294967296"
  shows "wts_read_variable_uint s (vcode v) = Some ((int (length (vbytes v)), Some v), s_adv (length (vbytes v)) s)"
    and "drdynvc_read_variable_uint s (vcode v) = Some (v, s_adv (length (vbytes v)) s)"
proof -
  have len: "int (length (vbytes v)) \<le> int (length (s_rest s))" using assms(2) by simp
  have "wts_read_variable_uint s (vcode v) = Some ((int (length (vbytes v)), Some v), s_adv (length (vbytes v)) s)
      \<and> drdynvc_read_variable_uint s (vcode v) = Some (v, s_adv (length (vbytes v)) s)"
  proof (cases "v \<le> 0xFF")
    case True
    then show ?thesis using assms len read_byte [of s v rest]
      by (simp add: wts_read_variable_uint_def drdynvc_read_variable_uint_def vcode_def vbytes_def)
  next
    case False
    then show ?thesis using assms len read_le16 [of s v rest] read_le32 [of s v rest]
      by (simp add: wts_read_variable_uint_def drdynvc_read_variable_uint_def vcode_def vbytes_def)
  qed
  then show "wts_read_variable_uint s (vcode v) = Some ((int (length (vbytes v)), Some v), s_adv (length (vbytes v)) s)"
    "drdynvc_read_variable_uint s (vcode v) = Some (v, s_adv (length (vbytes v)) s)" by simp_all
qed

text \<open>The pieces of \<open>c\<close> bytes of some data, and the units in which a message is sent.\<close>

function dvc_pieces :: "nat \<Rightarrow> byte list \<Rightarrow> byte list list" where
  "dvc_pieces c data = (if data = [] \<or> c = 0 then [] else take c data # dvc_pieces c (drop c data))"
  by pat_completeness auto
termination by (relation "measure (length \<circ> snd)") auto

declare dvc_pieces.simps [simp del]

definition data_unit :: "int \<Rightarrow> byte list \<Rightarrow> byte list" where
  "data_unit ch body = word_of_int (0x30 OR vcode ch) # vbytes ch @ body"

definition first_unit :: "int \<Rightarrow> int \<Rightarrow> byte list \<Rightarrow> byte list" where
  "first_unit ch n body = word_of_int (0x20 OR vcode ch OR push_bit 2 (vcode n)) # vbytes ch @ vbytes n @ body"

definition dvc_units :: "int \<Rightarrow> byte list \<Rightarrow> byte list list" where
  "dvc_units ch data =
     (if length data \<le> 1600 then [data_unit ch data]
      else let k = 1599 - length (vbytes ch) - length (vbytes (int (length data)))
           in first_unit ch (int (length data)) (take k data) #
              map (data_unit ch) (dvc_pieces (1599 - length (vbytes ch)) (drop k data)))"

section \<open>The client writes them\<close>

lemma new_stream_holds:
  assumes "M n = Some j" and "0 < n" and "n \<le> INT_MAX"
  shows "\<exists>s. new_stream M n = Some s \<and> holds s [] \<and> s_capacity s = n \<and> s_length s = n \<and> s_pos s = 0"
  using assms by (simp add: new_stream_def Stream_New_def holds_def)

lemma unit_starts:
  assumes "dvc_memory V 1600 = Some j"
  shows "\<exists>s b. dvc_unit V ch = Some (vcode ch, s) \<and> holds s (b # vbytes ch) \<and> s_capacity s = 1600"
proof -
  obtain s where s: "new_stream (dvc_memory V) 1600 = Some s" "holds s []" "s_capacity s = 1600" "s_pos s = 0"
    using new_stream_holds [of "dvc_memory V" 1600 j] assms by auto
  obtain b bs where b: "s_buffer s = b # bs" using s(2) by (cases "s_buffer s") (auto simp: holds_def)
  have h: "holds (s\<lparr>s_pos := 1\<rparr>) [b]" using s(2) b by (simp add: holds_def)
  have "Stream_SetPosition s 1 = Some (s\<lparr>s_pos := 1\<rparr>)" using b by (simp add: Stream_SetPosition_def)
  moreover obtain s' where "Stream_Write (s\<lparr>s_pos := 1\<rparr>) (vbytes ch) = Some s'" "holds s' (b # vbytes ch)" "s_capacity s' = 1600"
    using holds_write [OF h, of "vbytes ch"] vbytes_length(2) [of ch] s(3) by auto
  ultimately show ?thesis using s(1) by (auto simp: dvc_unit_def write_variable_uint)
qed

lemma first_byte_set:
  assumes "holds s (b # p)"
  shows "\<exists>s'. dvc_first_byte s v = Some s' \<and> holds s' (word_of_int v # p) \<and> s_capacity s' = s_capacity s"
proof -
  obtain c bs where c: "s_buffer s = c # bs" using assms by (cases "s_buffer s") (auto simp: holds_def)
  then show ?thesis using assms
    by (auto simp: dvc_first_byte_def Stream_SetPosition_def Stream_Write_UINT8_def aset_def holds_def)
qed

lemma sends_what_it_holds:
  assumes "holds s u"
  shows "drdynvc_send V p s = (case pVirtualChannelWrite V u (dp_world p) of (status, w) \<Rightarrow> Some (status, p\<lparr>dp_world := w\<rparr>))"
  using assms by (simp add: drdynvc_send_def ablock_def holds_def)

text \<open>The channel below takes every unit, in order.\<close>

definition dvc_accepts :: "'w dvc \<Rightarrow> ('w \<Rightarrow> byte list list) \<Rightarrow> bool" where
  "dvc_accepts V sent \<longleftrightarrow> (\<forall>u w. \<exists>w'. pVirtualChannelWrite V u w = (0, w') \<and> sent w' = sent w @ [u])"

lemma send_accepted:
  assumes "dvc_accepts V sent" and "holds s u"
  shows "\<exists>w'. drdynvc_send V p s = Some (0, p\<lparr>dp_world := w'\<rparr>) \<and> sent w' = sent (dp_world p) @ [u]"
proof -
  obtain w' where "pVirtualChannelWrite V u (dp_world p) = (0, w')" "sent w' = sent (dp_world p) @ [u]"
    using assms(1) unfolding dvc_accepts_def by blast
  then show ?thesis by (intro exI [of _ w']) (simp add: sends_what_it_holds [OF assms(2)])
qed

lemma fragments_sent:
  assumes "dvc_accepts V sent" and "dvc_memory V 1600 = Some j"
  shows "\<exists>w'. dvc_fragments V ch data 0 p = Some (0, p\<lparr>dp_world := w'\<rparr>)
    \<and> sent w' = sent (dp_world p) @ map (data_unit ch) (dvc_pieces (1599 - length (vbytes ch)) data)"
proof (induction "length data" arbitrary: data p rule: less_induct)
  case less
  show ?case
  proof (cases "data = []")
    case True
    then show ?thesis by (intro exI [of _ "dp_world p"]) (simp add: dvc_fragments.simps dvc_pieces.simps)
  next
    case False
    let ?c = "1599 - length (vbytes ch)"
    obtain s0 b where s0: "dvc_unit V ch = Some (vcode ch, s0)" "holds s0 (b # vbytes ch)" "s_capacity s0 = 1600"
      using unit_starts [OF assms(2)] by blast
    obtain s1 where s1: "dvc_first_byte s0 (0x30 OR vcode ch) = Some s1" "holds s1 (word_of_int (0x30 OR vcode ch) # vbytes ch)"
        "s_capacity s1 = 1600" using first_byte_set [OF s0(2)] s0(3) by auto
    have c: "0 < ?c" "int ?c = 1599 - int (length (vbytes ch))" using vbytes_length [of ch] by simp_all
    have pos: "s_pos s1 = 1 + int (length (vbytes ch))" using s1(2) by (simp add: holds_def)
    let ?k = "if 1600 - s_pos s1 < int (length data) then 1600 - s_pos s1 else int (length data)"
    have k: "?k = int (min ?c (length data))" unfolding pos using c by (auto simp: min_def)
    have bl: "ablock data 0 ?k = Some (take ?c data)" unfolding k by (cases "?c \<le> length data") (simp_all add: ablock_def min_def)
    have "length (take ?c data) \<le> ?c" by simp
    then have fit: "int (length (word_of_int (0x30 OR vcode ch) # vbytes ch) + length (take ?c data)) \<le> s_capacity s1"
      unfolding s1(3) list.size using vbytes_length [of ch] by linarith
    obtain s2 where s2: "Stream_Write s1 (take ?c data) = Some s2" "holds s2 (data_unit ch (take ?c data))"
      using holds_write [OF s1(2) fit] by (auto simp: data_unit_def)
    obtain w1 where w1: "drdynvc_send V p s2 = Some (0, p\<lparr>dp_world := w1\<rparr>)"
        "sent w1 = sent (dp_world p) @ [data_unit ch (take ?c data)]"
      using send_accepted [OF assms(1) s2(2)] by blast
    have dr: "drop (nat ?k) data = drop ?c data" unfolding k by (simp add: min_def)
    have "length (drop ?c data) < length data" unfolding length_drop using False c(1) by (metis diff_less length_greater_0_conv)
    from less [OF this, of "p\<lparr>dp_world := w1\<rparr>"] obtain w2 where w2:
      "dvc_fragments V ch (drop ?c data) 0 (p\<lparr>dp_world := w1\<rparr>) = Some (0, p\<lparr>dp_world := w2\<rparr>)"
      "sent w2 = sent w1 @ map (data_unit ch) (dvc_pieces ?c (drop ?c data))" by auto
    have "dvc_fragments V ch data 0 p = Some (0, p\<lparr>dp_world := w2\<rparr>)"
      using False s0(1) s1(1) s2(1) w1(1) w2(1) bl dr by (subst dvc_fragments.simps) (simp add: Let_def)
    moreover have "dvc_pieces ?c data = take ?c data # dvc_pieces ?c (drop ?c data)"
      using False c(1) by (subst dvc_pieces.simps) simp
    ultimately show ?thesis using w2(2) w1(2) by (intro exI [of _ w2]) simp
  qed
qed

text \<open>The lengths that do not run into the overflow shown below.\<close>

definition dvc_sendable :: "int \<Rightarrow> byte list \<Rightarrow> bool" where
  "dvc_sendable ch data \<longleftrightarrow> data \<noteq> [] \<and> 0 \<le> ch \<and> ch < 4294967296 \<and> length data \<le> 67108864
     \<and> (length data \<le> 1599 - length (vbytes ch) \<or> 1600 < length data)"

lemma write_data_sent:
  assumes "dvc_accepts V sent" and "dvc_memory V 1600 = Some j" and "dp_channel_error p = 0" and "dvc_sendable ch data"
  shows "\<exists>w'. drdynvc_write_data V p ch data = Some (0, p\<lparr>dp_world := w'\<rparr>)
    \<and> sent w' = sent (dp_world p) @ dvc_units ch data"
proof -
  obtain s0 b where s0: "dvc_unit V ch = Some (vcode ch, s0)" "holds s0 (b # vbytes ch)" "s_capacity s0 = 1600"
    using unit_starts [OF assms(2)] by blast
  have ne: "data \<noteq> []" using assms(4) by (simp add: dvc_sendable_def)
  show ?thesis
  proof (cases "length data \<le> 1600")
    case True
    obtain s1 where s1: "dvc_first_byte s0 (0x30 OR vcode ch) = Some s1" "holds s1 (word_of_int (0x30 OR vcode ch) # vbytes ch)"
        "s_capacity s1 = 1600" using first_byte_set [OF s0(2)] s0(3) by auto
    have fit: "int (length (word_of_int (0x30 OR vcode ch) # vbytes ch) + length data) \<le> s_capacity s1"
      using True assms(4) s1(3) vbytes_length [of ch] by (auto simp: dvc_sendable_def)
    obtain s2 where s2: "Stream_Write s1 data = Some s2" "holds s2 (data_unit ch data)"
      using holds_write [OF s1(2) fit] by (auto simp: data_unit_def)
    obtain w1 where "drdynvc_send V p s2 = Some (0, p\<lparr>dp_world := w1\<rparr>)" "sent w1 = sent (dp_world p) @ [data_unit ch data]"
      using send_accepted [OF assms(1) s2(2)] by blast
    then show ?thesis using True ne assms(3) s0(1) s1(1) s2(1)
      by (intro exI [of _ w1]) (simp add: drdynvc_write_data_def dvc_units_def Let_def)
  next
    case False
    let ?n = "int (length data)"
    let ?k = "1599 - length (vbytes ch) - length (vbytes ?n)"
    let ?h = "0x20 OR vcode ch OR push_bit 2 (vcode ?n)"
    have small: "length (vbytes ch) \<le> 4" "length (vbytes ?n) \<le> 4" using vbytes_length by simp_all
    obtain s1 where s1: "Stream_Write s0 (vbytes ?n) = Some s1" "holds s1 (b # vbytes ch @ vbytes ?n)" "s_capacity s1 = 1600"
      using holds_write [OF s0(2), of "vbytes ?n"] s0(3) small by auto
    obtain s2 where s2: "dvc_first_byte s1 ?h = Some s2" "holds s2 (word_of_int ?h # vbytes ch @ vbytes ?n)" "s_capacity s2 = 1600"
      using first_byte_set [OF s1(2)] s1(3) by auto
    have pos: "1600 - s_pos s2 = int ?k" using s2(2) small by (simp add: holds_def)
    have bl: "ablock data 0 (int ?k) = Some (take ?k data)" using False by (simp add: ablock_def)
    have "length (take ?k data) \<le> ?k" by simp
    then have fit: "int (length (word_of_int ?h # vbytes ch @ vbytes ?n) + length (take ?k data)) \<le> s_capacity s2"
      unfolding s2(3) list.size length_append using small by linarith
    obtain s3 where s3: "Stream_Write s2 (take ?k data) = Some s3" "holds s3 (first_unit ch ?n (take ?k data))"
      using holds_write [OF s2(2) fit] by (auto simp: first_unit_def)
    obtain w1 where w1: "drdynvc_send V p s3 = Some (0, p\<lparr>dp_world := w1\<rparr>)"
        "sent w1 = sent (dp_world p) @ [first_unit ch ?n (take ?k data)]"
      using send_accepted [OF assms(1) s3(2)] by blast
    obtain w2 where w2: "dvc_fragments V ch (drop ?k data) 0 (p\<lparr>dp_world := w1\<rparr>) = Some (0, p\<lparr>dp_world := w2\<rparr>)"
        "sent w2 = sent w1 @ map (data_unit ch) (dvc_pieces (1599 - length (vbytes ch)) (drop ?k data))"
      using fragments_sent [OF assms(1,2), of ch "drop ?k data" "p\<lparr>dp_world := w1\<rparr>"] by auto
    have "drdynvc_write_data V p ch data = Some (0, p\<lparr>dp_world := w2\<rparr>)"
      using False ne assms(3) s0(1) s1(1) s2(1) s3(1) w1(1) w2(1) bl
      by (simp add: drdynvc_write_data_def write_variable_uint pos nat_int Let_def)
    then show ?thesis using False w1(2) w2(2) by (intro exI [of _ w2]) (simp add: dvc_units_def Let_def)
  qed
qed

section \<open>The server reads them\<close>

text \<open>The stream of a channel, with the bytes \<open>p\<close> in front of its pointer.\<close>

definition loaded :: "wStream \<Rightarrow> byte list \<Rightarrow> bool" where
  "loaded s p \<longleftrightarrow> holds s p \<and> s_length s = s_capacity s \<and> s_capacity s \<le> 268435456"

lemma ensured_length: "Stream_EnsureRemainingCapacity m s n = Some (ok, s') \<Longrightarrow> s_length s = s_capacity s \<Longrightarrow> s_length s' = s_capacity s'"
  by (auto simp: Stream_EnsureRemainingCapacity_def Stream_EnsureCapacity_def Stream_SetPosition_def Let_def
      split: if_splits option.splits bind_splits)

lemma loaded_write:
  assumes "loaded s p" and "int (length p + length bs) \<le> s_capacity s"
  shows "\<exists>s'. Stream_Write s bs = Some s' \<and> loaded s' (p @ bs) \<and> s_capacity s' = s_capacity s"
proof -
  obtain s' where s': "Stream_Write s bs = Some s'" "holds s' (p @ bs)" "s_capacity s' = s_capacity s"
    using holds_write [of s p bs] assms by (auto simp: loaded_def)
  then have "s_length s' = s_length s" by (auto simp: Stream_Write_def split: bind_splits)
  with s' assms(1) show ?thesis by (auto simp: loaded_def)
qed

lemma loaded_put:
  assumes "loaded s p" and "int (length bs) \<le> n" and "int (length p) + 2 * n \<le> 134217728"
  shows "\<exists>s1 s2. Stream_EnsureRemainingCapacity (Some j) s n = Some (True, s1) \<and> Stream_Write s1 bs = Some s2
    \<and> loaded s2 (p @ bs) \<and> int (length p) + n \<le> s_capacity s2"
proof -
  have s: "holds s p" "s_length s = s_capacity s" "s_capacity s \<le> 268435456" using assms(1) by (simp_all add: loaded_def)
  obtain s1 where s1: "Stream_EnsureRemainingCapacity (Some j) s n = Some (True, s1)" "holds s1 p"
      "int (length p) + n \<le> s_capacity s1" "s_capacity s1 \<le> max (s_capacity s) (2 * (int (length p) + 2 * n))"
    using holds_remaining [OF s(1), of n j] s(3) assms(2,3) by auto
  have "loaded s1 p" using s1 ensured_length [OF s1(1) s(2)] s(3) assms(3) by (simp add: loaded_def)
  then show ?thesis using loaded_write [of s1 p bs] s1 assms(2) by auto
qed

lemma loaded_rewind:
  assumes "loaded s p"
  shows "Stream_SetPosition s 0 = Some (s\<lparr>s_pos := 0\<rparr>)" "loaded (s\<lparr>s_pos := 0\<rparr>) []" "s_ok (s\<lparr>s_pos := 0\<rparr>)"
    "s_rest (s\<lparr>s_pos := 0\<rparr>) = p @ drop (length p) (s_buffer s)"
proof -
  show "Stream_SetPosition s 0 = Some (s\<lparr>s_pos := 0\<rparr>)" "loaded (s\<lparr>s_pos := 0\<rparr>) []" "s_ok (s\<lparr>s_pos := 0\<rparr>)"
    using assms by (auto simp: loaded_def holds_def Stream_SetPosition_def s_ok_def)
  have "take (length p) (s_buffer s) = p" using assms by (simp add: loaded_def holds_def)
  then show "s_rest (s\<lparr>s_pos := 0\<rparr>) = p @ drop (length p) (s_buffer s)"
    using assms append_take_drop_id [of "length p" "s_buffer s"] by (simp add: s_rest_def loaded_def holds_def)
qed

text \<open>One channel.\<close>

definition dvc_message :: "int \<Rightarrow> byte list \<Rightarrow> wtsChannelMessage" where
  "dvc_message ch data = \<lparr>cm_channelId = u16 ch, cm_length = int (length data), cm_offset = 0, cm_data = data\<rparr>"

text \<open>Between two messages, and with the bytes \<open>got\<close> of a message of \<open>n\<close> bytes.\<close>

definition dvc_idle :: "rdpPeerChannel \<Rightarrow> bool" where
  "dvc_idle ch \<longleftrightarrow> pc_dvc_total_length ch = 0 \<and> (\<exists>p. loaded (pc_receiveData ch) p)"

definition dvc_busy :: "rdpPeerChannel \<Rightarrow> byte list \<Rightarrow> int \<Rightarrow> bool" where
  "dvc_busy ch got n \<longleftrightarrow> pc_dvc_total_length ch = n \<and> loaded (pc_receiveData ch) got \<and> int (length got) < n
     \<and> n \<le> s_capacity (pc_receiveData ch)"

lemma queue_data:
  assumes "M (12 + n) = Some j" and "ablock buf i n = Some data"
  shows "wts_queue_receive_data M ch buf i n = Some (ch\<lparr>pc_queue := pc_queue ch @ [dvc_message (pc_channelId ch) data]\<rparr>)"
proof -
  have "n = int (length data)" using assms(2) by (auto simp: ablock_def split: if_splits)
  then show ?thesis using assms by (simp add: wts_queue_receive_data_def dvc_message_def)
qed

lemma recv_whole:
  assumes "\<forall>n. M n \<noteq> None" and "pc_dvc_total_length ch = 0" and "s_ok s" and "s_rest s = body @ slack"
  shows "wts_read_drdynvc_data M ch s (int (length body)) = Some (ch\<lparr>pc_queue := pc_queue ch @ [dvc_message (pc_channelId ch) body]\<rparr>, s)"
proof -
  obtain j where "M (12 + int (length body)) = Some j" using assms(1) by blast
  moreover have "ablock (s_buffer s) (s_pos s) (int (length body)) = Some body"
    using ablock_rest [OF assms(3), of "int (length body)"] assms(4) by simp
  ultimately show ?thesis using assms(2) queue_data by (simp add: wts_read_drdynvc_data_def)
qed

lemma recv_first:
  assumes "\<forall>n. M n \<noteq> None" and "loaded (pc_receiveData ch) p" and "s_ok s" and "s_rest s = vbytes n @ body @ slack"
    and "int (length body) < n" and "n \<le> 67108864"
  shows "\<exists>ch'. wts_read_drdynvc_data_first M ch s (vcode n) (int (length (vbytes n) + length body))
      = Some (ch', s_adv (length (vbytes n)) s)
    \<and> dvc_busy ch' body n \<and> pc_channelId ch' = pc_channelId ch \<and> pc_queue ch' = pc_queue ch"
proof -
  obtain j where j: "M n = Some j" using assms(1) by blast
  let ?s = "s_adv (length (vbytes n)) s"
  have s': "s_ok ?s" "s_rest ?s = body @ slack" using assms(3,4) by simp_all
  have bl: "ablock (s_buffer ?s) (s_pos ?s) (int (length body)) = Some body"
    using ablock_rest [OF s'(1), of "int (length body)"] s'(2) by simp
  let ?r = "(pc_receiveData ch)\<lparr>s_pos := 0\<rparr>"
  obtain r1 r2 where r: "Stream_EnsureRemainingCapacity (Some j) ?r n = Some (True, r1)" "Stream_Write r1 body = Some r2"
      "loaded r2 body" "n \<le> s_capacity r2"
    using loaded_put [OF loaded_rewind(2) [OF assms(2)], of body n j] assms(5,6) by auto
  have nn: "csize (as_int n) = n" "int (length body) mod 4294967296 = int (length body)"
    using assms(5,6) by (simp_all add: as_int_def csize_def)
  have "wts_read_drdynvc_data_first M ch s (vcode n) (int (length (vbytes n) + length body))
      = Some (ch\<lparr>pc_dvc_total_length := n, pc_receiveData := r2\<rparr>, ?s)"
    using read_variable_uint(1) [OF assms(3,4)] assms(5,6) loaded_rewind(1) [OF assms(2)] r(1,2) j bl nn
    by (simp add: wts_read_drdynvc_data_first_def)
  then show ?thesis using r(3,4) assms(5) by (simp add: dvc_busy_def)
qed

lemma recv_next:
  assumes "\<forall>n. M n \<noteq> None" and "dvc_busy ch got n" and "n \<le> 67108864" and "s_ok s" and "s_rest s = body @ slack"
    and "int (length got + length body) \<le> n"
  shows "\<exists>ch'. wts_read_drdynvc_data M ch s (int (length body)) = Some (ch', s) \<and> pc_channelId ch' = pc_channelId ch
    \<and> (if int (length got + length body) < n then dvc_busy ch' (got @ body) n \<and> pc_queue ch' = pc_queue ch
       else dvc_idle ch' \<and> pc_queue ch' = pc_queue ch @ [dvc_message (pc_channelId ch) (got @ body)])"
proof -
  have b: "pc_dvc_total_length ch = n" "loaded (pc_receiveData ch) got" "n \<le> s_capacity (pc_receiveData ch)" "0 < n"
    using assms(2) by (auto simp: dvc_busy_def)
  have bl: "ablock (s_buffer s) (s_pos s) (int (length body)) = Some body"
    using ablock_rest [OF assms(4), of "int (length body)"] assms(5) by simp
  obtain r where r: "Stream_Write (pc_receiveData ch) body = Some r" "loaded r (got @ body)"
      "s_capacity r = s_capacity (pc_receiveData ch)"
    using loaded_write [OF b(2), of body] b(3) assms(6) by auto
  have pos: "s_pos (pc_receiveData ch) = int (length got)" "s_pos r = int (length got + length body)" "as_int n = n"
    using b(2) r(2) b(4) assms(3) by (simp_all add: loaded_def holds_def as_int_def)
  show ?thesis
  proof (cases "int (length got + length body) < n")
    case True
    then have "wts_read_drdynvc_data M ch s (int (length body)) = Some (ch\<lparr>pc_receiveData := r\<rparr>, s)"
      using b bl r(1) pos assms(6) by (simp add: wts_read_drdynvc_data_def Let_def)
    then show ?thesis using True b r by (simp add: dvc_busy_def)
  next
    case False
    then have n: "n = int (length (got @ body))" using assms(6) by simp
    obtain j where "M (12 + n) = Some j" using assms(1) by blast
    moreover have "ablock (s_buffer r) 0 n = Some (got @ body)" using r(2) n by (simp add: loaded_def holds_def ablock_def nat_add_distrib)
    ultimately have q: "wts_queue_receive_data M (ch\<lparr>pc_receiveData := r\<rparr>) (s_buffer r) 0 n
        = Some (ch\<lparr>pc_receiveData := r, pc_queue := pc_queue ch @ [dvc_message (pc_channelId ch) (got @ body)]\<rparr>)"
      using queue_data [of M n j "s_buffer r" 0 "got @ body" "ch\<lparr>pc_receiveData := r\<rparr>"] by simp
    let ?ch = "ch\<lparr>pc_receiveData := r, pc_queue := pc_queue ch @ [dvc_message (pc_channelId ch) (got @ body)], pc_dvc_total_length := 0\<rparr>"
    have "wts_read_drdynvc_data M ch s (int (length body)) = Some (?ch, s)"
      using b bl r(1) pos n q by (simp add: wts_read_drdynvc_data_def Let_def)
    then show ?thesis using False r(2) by (intro exI [of _ ?ch]) (auto simp: dvc_idle_def)
  qed
qed

text \<open>A unit: its first byte names the command, and its channel is found.\<close>

lemma unit_header:
  "drop_bit 4 ((0x30 OR vcode ch) AND 0xf0) = 3" "(0x30 OR vcode ch) AND 0x03 = vcode ch" "(0x30 OR vcode ch) mod 256 = 0x30 OR vcode ch"
  "drop_bit 4 ((0x20 OR vcode ch OR push_bit 2 (vcode n)) AND 0xf0) = 2"
  "drop_bit 2 ((0x20 OR vcode ch OR push_bit 2 (vcode n)) AND 0x0c) = vcode n"
  "(0x20 OR vcode ch OR push_bit 2 (vcode n)) AND 0x03 = vcode ch"
  "(0x20 OR vcode ch OR push_bit 2 (vcode n)) mod 256 = 0x20 OR vcode ch OR push_bit 2 (vcode n)"
  using vcode_cases [of ch] vcode_cases [of n] by (elim disjE; simp)+

lemma unit_read:
  assumes "loaded s (word_of_int h # vbytes ch @ body)" and h: "h mod 256 = h" "h AND 0x03 = vcode ch" "drop_bit 4 (h AND 0xf0) = Cmd" "Cmd \<noteq> 5"
    and ch: "0 \<le> ch" "ch < 4294967296" and "vcm_drdynvc_state vcm = VCM_STATE_READY" and "wts_get_dvc_channel_by_id vcm ch = Some c"
    and "length body \<le> 1000000"
  shows "wts_read_drdynvc_pdu M vcm s = do {
      (c', s') \<leftarrow> wts_read_dvc M Cmd (drop_bit 2 (h AND 0x0c)) c (s_adv (Suc (length (vbytes ch))) (s\<lparr>s_pos := 0\<rparr>)) (int (length body));
      Some (vcm\<lparr>vcm_dynamicVirtualChannels := set_channel ch c' (vcm_dynamicVirtualChannels vcm)\<rparr>, s') }"
proof -
  let ?s = "s\<lparr>s_pos := 0\<rparr>"
  note r = loaded_rewind [OF assms(1)]
  have pos: "s_pos s mod 4294967296 = 1 + int (length (vbytes ch) + length body)"
    using assms(1,10) vbytes_length [of ch] by (simp add: loaded_def holds_def)
  have "Stream_Read_UINT8 ?s = Some (h, s_adv 1 ?s)" using read_byte [OF r(3), of h] r(4) h(1) by simp
  moreover have "wts_read_variable_uint (s_adv 1 ?s) (vcode ch)
      = Some ((int (length (vbytes ch)), Some ch), s_adv (length (vbytes ch)) (s_adv 1 ?s))"
    using r(3,4) ch by (intro read_variable_uint(1)) simp_all
  moreover have "(int (length (vbytes ch) + length body) - int (length (vbytes ch))) mod 4294967296 = int (length body)"
    using assms(10) by simp
  ultimately show ?thesis using r(1) pos h(2-4) assms(8,9)
    by (simp add: wts_read_drdynvc_pdu_def Let_def)
qed

lemma get_set_channel:
  assumes "wts_get_dvc_channel_by_id vcm ch = Some c" and "pc_channelId c' = ch"
  shows "wts_get_dvc_channel_by_id (vcm\<lparr>vcm_dynamicVirtualChannels := set_channel ch c' (vcm_dynamicVirtualChannels vcm)\<rparr>) i
    = (if i = ch then Some c' else wts_get_dvc_channel_by_id vcm i)"
proof -
  have "List.find (\<lambda>x. pc_channelId x = ch) cs = Some c \<Longrightarrow>
      List.find (\<lambda>x. pc_channelId x = i) (set_channel ch c' cs) = (if i = ch then Some c' else List.find (\<lambda>x. pc_channelId x = i) cs)" for cs
    using assms(2) by (induction cs) (auto split: if_splits)
  then show ?thesis using assms(1) by (simp add: wts_get_dvc_channel_by_id_def)
qed

text \<open>The manager after a change of one channel to one with the property \<open>Q\<close>.\<close>

definition channel_becomes :: "WTSVirtualChannelManager \<Rightarrow> int \<Rightarrow> (rdpPeerChannel \<Rightarrow> bool) \<Rightarrow> WTSVirtualChannelManager \<Rightarrow> bool" where
  "channel_becomes vcm ch Q vcm' \<longleftrightarrow> vcm_drdynvc_state vcm' = VCM_STATE_READY
     \<and> (\<exists>c. Q c \<and> pc_channelId c = ch \<and> (\<forall>i. wts_get_dvc_channel_by_id vcm' i = (if i = ch then Some c else wts_get_dvc_channel_by_id vcm i)))"

definition processes :: "memory \<Rightarrow> byte list \<Rightarrow> WTSVirtualChannelManager \<Rightarrow> (WTSVirtualChannelManager \<Rightarrow> bool) \<Rightarrow> bool" where
  "processes M u vcm P \<longleftrightarrow> (\<forall>s. loaded s u \<longrightarrow>
     (\<exists>vcm' k. wts_read_drdynvc_pdu M vcm s = Some (vcm', s_adv k (s\<lparr>s_pos := 0\<rparr>)) \<and> P vcm'))"

lemma unit_processed:
  assumes h: "h mod 256 = h" "h AND 0x03 = vcode ch" "drop_bit 4 (h AND 0xf0) = Cmd" "Cmd \<noteq> 5"
    and ch: "0 \<le> ch" "ch < 4294967296" and ready: "vcm_drdynvc_state vcm = VCM_STATE_READY"
    and get: "wts_get_dvc_channel_by_id vcm ch = Some c" and "length body \<le> 1000000"
    and rd: "\<And>s slack. s_ok s \<Longrightarrow> s_rest s = body @ slack \<Longrightarrow>
      \<exists>c' k. wts_read_dvc M Cmd (drop_bit 2 (h AND 0x0c)) c s (int (length body)) = Some (c', s_adv k s) \<and> Q c' \<and> pc_channelId c' = ch"
  shows "processes M (word_of_int h # vbytes ch @ body) vcm (channel_becomes vcm ch Q)"
  unfolding processes_def
proof (intro allI impI)
  fix s :: wStream assume s: "loaded s (word_of_int h # vbytes ch @ body)"
  note r = loaded_rewind [OF s]
  let ?s = "s_adv (Suc (length (vbytes ch))) (s\<lparr>s_pos := 0\<rparr>)"
  have "s_ok ?s" "s_rest ?s = body @ drop (length (word_of_int h # vbytes ch @ body)) (s_buffer s)" using r(3,4) by simp_all
  from rd [OF this] obtain c' k where
    k: "wts_read_dvc M Cmd (drop_bit 2 (h AND 0x0c)) c ?s (int (length body)) = Some (c', s_adv k ?s)" "Q c'" "pc_channelId c' = ch"
    by blast
  have "wts_read_drdynvc_pdu M vcm s = Some (vcm\<lparr>vcm_dynamicVirtualChannels := set_channel ch c' (vcm_dynamicVirtualChannels vcm)\<rparr>, s_adv k ?s)"
    using unit_read [OF s h ch ready get assms(9)] k(1) by simp
  moreover have "channel_becomes vcm ch Q (vcm\<lparr>vcm_dynamicVirtualChannels := set_channel ch c' (vcm_dynamicVirtualChannels vcm)\<rparr>)"
    unfolding channel_becomes_def using get_set_channel [OF get k(3)] k(2,3) ready by auto
  moreover have "s_adv k ?s = s_adv (Suc (length (vbytes ch)) + k) (s\<lparr>s_pos := 0\<rparr>)" by simp
  ultimately show "\<exists>vcm' k. wts_read_drdynvc_pdu M vcm s = Some (vcm', s_adv k (s\<lparr>s_pos := 0\<rparr>)) \<and> channel_becomes vcm ch Q vcm'"
    by metis
qed

section \<open>The chunks of the static channel\<close>

text \<open>A unit cut into pieces: the first and the last piece carry a flag.\<close>

fun flagged :: "bool \<Rightarrow> byte list list \<Rightarrow> (byte list \<times> int) list" where
  "flagged first [] = []"
| "flagged first (b # bs) = (b, (if first then CHANNEL_FLAG_FIRST else 0) OR (if bs = [] then CHANNEL_FLAG_LAST else 0)) # flagged False bs"

definition receive_chunk :: "memory \<Rightarrow> int \<Rightarrow> byte list \<times> int \<Rightarrow> WTSVirtualChannelManager \<times> rdpPeerChannel \<Rightarrow>
    (WTSVirtualChannelManager \<times> rdpPeerChannel) option" where
  "receive_chunk M n c st = WTSProcessChannelData M (fst st) True (snd st) (fst c) (snd c) n"

definition receive_unit :: "memory \<Rightarrow> byte list list \<Rightarrow> WTSVirtualChannelManager \<times> rdpPeerChannel \<Rightarrow>
    (WTSVirtualChannelManager \<times> rdpPeerChannel) option" where
  "receive_unit M pieces = foldM (receive_chunk M (int (length (concat pieces)))) (flagged True pieces)"

lemma chunk_stored:
  assumes "\<forall>n. M n \<noteq> None" and "loaded (pc_receiveData d) p" and "length (got @ bs) \<le> 1000000" and "got = (if first then [] else p)"
    and "flags = (if first then CHANNEL_FLAG_FIRST else 0) OR (if end_of then CHANNEL_FLAG_LAST else 0)"
  shows "\<exists>s. loaded s (got @ bs) \<and> receive_chunk M n (bs, flags) (vcm, d) =
    (if end_of then do { (vcm, s) \<leftarrow> wts_read_drdynvc_pdu M vcm s; s \<leftarrow> Stream_SetPosition s 0; Some (vcm, d\<lparr>pc_receiveData := s\<rparr>) }
     else Some (vcm, d\<lparr>pc_receiveData := s\<rparr>))"
proof -
  let ?r = "if first then (pc_receiveData d)\<lparr>s_pos := 0\<rparr> else pc_receiveData d"
  have r: "loaded ?r got" using assms(2,4) loaded_rewind(2) [OF assms(2)] by simp
  obtain j where j: "M (int (length bs)) = Some j" using assms(1) by blast
  obtain s1 s2 where s: "Stream_EnsureRemainingCapacity (Some j) ?r (int (length bs)) = Some (True, s1)"
      "Stream_Write s1 bs = Some s2" "loaded s2 (got @ bs)"
    using loaded_put [OF r, of bs "int (length bs)" j] assms(3) by auto
  show ?thesis using s j assms(5) loaded_rewind(1) [OF assms(2)]
    by (intro exI [of _ s2]) (cases first; cases end_of;
        simp add: receive_chunk_def WTSProcessChannelData_def case_prod_beta Option.bind_assoc comp_def split: bind_split)
qed

lemma chunks_joined:
  assumes "\<forall>n. M n \<noteq> None"
  shows "ps \<noteq> [] \<Longrightarrow> loaded (pc_receiveData d) p \<Longrightarrow> got = (if first then [] else p) \<Longrightarrow> length (got @ concat ps) \<le> 1000000 \<Longrightarrow>
    \<exists>s. loaded s (got @ concat ps) \<and> foldM (receive_chunk M n) (flagged first ps) (vcm, d) =
      do { (vcm, s) \<leftarrow> wts_read_drdynvc_pdu M vcm s; s \<leftarrow> Stream_SetPosition s 0; Some (vcm, d\<lparr>pc_receiveData := s\<rparr>) }"
proof (induction ps arbitrary: d p got first)
  case (Cons b bs)
  obtain s where s: "loaded s (got @ b)" "receive_chunk M n (b, (if first then CHANNEL_FLAG_FIRST else 0) OR (if bs = [] then CHANNEL_FLAG_LAST else 0)) (vcm, d) =
      (if bs = [] then do { (vcm, s) \<leftarrow> wts_read_drdynvc_pdu M vcm s; s \<leftarrow> Stream_SetPosition s 0; Some (vcm, d\<lparr>pc_receiveData := s\<rparr>) }
       else Some (vcm, d\<lparr>pc_receiveData := s\<rparr>))"
    using chunk_stored [OF assms Cons.prems(2) _ Cons.prems(3) refl, where bs = b and end_of = "bs = []" and n = n and vcm = vcm] Cons.prems(4) by auto
  show ?case
  proof (cases "bs = []")
    case True
    with s show ?thesis by (intro exI [of _ s]) (simp add: foldM_Nil_fun)
  next
    case False
    obtain t where "loaded t ((got @ b) @ concat bs)" "foldM (receive_chunk M n) (flagged False bs) (vcm, d\<lparr>pc_receiveData := s\<rparr>) =
        do { (vcm, s) \<leftarrow> wts_read_drdynvc_pdu M vcm t; s \<leftarrow> Stream_SetPosition s 0; Some (vcm, (d\<lparr>pc_receiveData := s\<rparr>)\<lparr>pc_receiveData := s\<rparr>) }"
      using Cons.IH [OF False, of "d\<lparr>pc_receiveData := s\<rparr>" "got @ b" "got @ b" False] s(1) Cons.prems(4) by auto
    with s(2) False show ?thesis by (intro exI [of _ t]) (simp del: bind_split)
  qed
qed simp

lemma unit_received:
  assumes "\<forall>n. M n \<noteq> None" and "processes M u vcm P" and "concat ps = u" and "u \<noteq> []" and "length u \<le> 1000000" and "loaded (pc_receiveData d) p"
  shows "\<exists>vcm' d' p'. receive_unit M ps (vcm, d) = Some (vcm', d') \<and> loaded (pc_receiveData d') p' \<and> P vcm'"
proof -
  have "ps \<noteq> []" using assms(3,4) by auto
  then obtain s where s: "loaded s u" "receive_unit M ps (vcm, d) =
      do { (vcm, s) \<leftarrow> wts_read_drdynvc_pdu M vcm s; s \<leftarrow> Stream_SetPosition s 0; Some (vcm, d\<lparr>pc_receiveData := s\<rparr>) }"
    using chunks_joined [OF assms(1) _ assms(6), of ps "[]" True] assms(3,5) unfolding receive_unit_def by force
  obtain vcm' k where k: "wts_read_drdynvc_pdu M vcm s = Some (vcm', s_adv k (s\<lparr>s_pos := 0\<rparr>))" "P vcm'"
    using assms(2) s(1) unfolding processes_def by blast
  have "Stream_SetPosition (s_adv k (s\<lparr>s_pos := 0\<rparr>)) 0 = Some (s\<lparr>s_pos := 0\<rparr>)"
    by (simp add: Stream_SetPosition_def s_adv_def)
  then have "receive_unit M ps (vcm, d) = Some (vcm', d\<lparr>pc_receiveData := s\<lparr>s_pos := 0\<rparr>\<rparr>)" using s(2) k(1) by simp
  then show ?thesis using k(2) loaded_rewind(2) [OF s(1)]
    by (intro exI [of _ vcm'] exI [of _ "d\<lparr>pc_receiveData := s\<lparr>s_pos := 0\<rparr>\<rparr>"] exI [of _ "[]"]) simp
qed

text \<open>Any number of units, each cut in any way.\<close>

definition arrives :: "memory \<Rightarrow> byte list list \<Rightarrow> WTSVirtualChannelManager \<Rightarrow> (WTSVirtualChannelManager \<Rightarrow> bool) \<Rightarrow> bool" where
  "arrives M units vcm Q \<longleftrightarrow> (\<forall>cut d p. map concat cut = units \<longrightarrow> loaded (pc_receiveData d) p \<longrightarrow>
     (\<exists>vcm' d' p'. foldM (receive_unit M) cut (vcm, d) = Some (vcm', d') \<and> loaded (pc_receiveData d') p' \<and> Q vcm'))"

lemma arrives_nil: "Q vcm \<Longrightarrow> arrives M [] vcm Q"
  by (auto simp: arrives_def)

lemma arrives_cons:
  assumes "\<forall>n. M n \<noteq> None" and "processes M u vcm P" and "u \<noteq> []" and "length u \<le> 1000000" and "\<And>vcm'. P vcm' \<Longrightarrow> arrives M us vcm' Q"
  shows "arrives M (u # us) vcm Q"
  unfolding arrives_def
proof (intro allI impI)
  fix cut :: "byte list list list" and d :: rdpPeerChannel and p assume c: "map concat cut = u # us" and d: "loaded (pc_receiveData d) p"
  obtain ps cut' where cut: "cut = ps # cut'" "concat ps = u" "map concat cut' = us" using c by auto
  obtain vcm1 d1 p1 where 1: "receive_unit M ps (vcm, d) = Some (vcm1, d1)" "loaded (pc_receiveData d1) p1" "P vcm1"
    using unit_received [OF assms(1,2) cut(2) assms(3,4) d] by blast
  obtain vcm' d' p' where "foldM (receive_unit M) cut' (vcm1, d1) = Some (vcm', d')" "loaded (pc_receiveData d') p'" "Q vcm'"
    using assms(5) [OF 1(3)] cut(3) 1(2) unfolding arrives_def by blast
  with 1(1) show "\<exists>vcm' d' p'. foldM (receive_unit M) cut (vcm, d) = Some (vcm', d') \<and> loaded (pc_receiveData d') p' \<and> Q vcm'"
    unfolding cut(1) by (intro exI [of _ vcm'] exI [of _ d'] exI [of _ p']) simp
qed

lemma arrives_append:
  assumes "arrives M us vcm P" and "\<And>vcm'. P vcm' \<Longrightarrow> arrives M vs vcm' Q"
  shows "arrives M (us @ vs) vcm Q"
  unfolding arrives_def
proof (intro allI impI)
  fix cut :: "byte list list list" and d :: rdpPeerChannel and p assume c: "map concat cut = us @ vs" and d: "loaded (pc_receiveData d) p"
  obtain c1 c2 where cut: "cut = c1 @ c2" "map concat c1 = us" "map concat c2 = vs" using c unfolding map_eq_append_conv by blast
  obtain vcm1 d1 p1 where 1: "foldM (receive_unit M) c1 (vcm, d) = Some (vcm1, d1)" "loaded (pc_receiveData d1) p1" "P vcm1"
    using assms(1) cut(2) d unfolding arrives_def by blast
  obtain vcm' d' p' where "foldM (receive_unit M) c2 (vcm1, d1) = Some (vcm', d')" "loaded (pc_receiveData d') p'" "Q vcm'"
    using assms(2) [OF 1(3)] cut(3) 1(2) unfolding arrives_def by blast
  with 1(1) show "\<exists>vcm' d' p'. foldM (receive_unit M) cut (vcm, d) = Some (vcm', d') \<and> loaded (pc_receiveData d') p' \<and> Q vcm'"
    unfolding cut(1) foldM_append by (intro exI [of _ vcm'] exI [of _ d'] exI [of _ p']) simp
qed

lemma arrives_weaken: "arrives M us vcm P \<Longrightarrow> (\<And>v. P v \<Longrightarrow> Q v) \<Longrightarrow> arrives M us vcm Q"
  unfolding arrives_def by blast

section \<open>Messages\<close>

lemma pieces_concat: "0 < c \<Longrightarrow> concat (dvc_pieces c data) = data"
  by (induction c data rule: dvc_pieces.induct) (subst dvc_pieces.simps, auto)

lemma pieces_bound: "b \<in> set (dvc_pieces c data) \<Longrightarrow> b \<noteq> [] \<and> length b \<le> c"
proof (induction c data rule: dvc_pieces.induct)
  case (1 c data)
  then show ?case by (cases "data = [] \<or> c = 0") (auto simp: dvc_pieces.simps [of c data])
qed

text \<open>A channel after a message, and the manager after one and after several.\<close>

definition has_got :: "rdpPeerChannel \<Rightarrow> byte list list \<Rightarrow> rdpPeerChannel \<Rightarrow> bool" where
  "has_got c ms c' \<longleftrightarrow> dvc_idle c' \<and> pc_queue c' = pc_queue c @ map (dvc_message (pc_channelId c)) ms"

lemma fragments_arrive:
  assumes "\<forall>n. M n \<noteq> None" and "0 \<le> ch" "ch < 4294967296" and "n \<le> 67108864"
  shows "\<forall>b \<in> set bs. b \<noteq> [] \<and> length b \<le> 1600 \<Longrightarrow> int (length (got @ concat bs)) = n \<Longrightarrow>
    channel_becomes vcm ch (\<lambda>c. dvc_busy c got n \<and> pc_queue c = q) vcm1 \<Longrightarrow>
    arrives M (map (data_unit ch) bs) vcm1 (channel_becomes vcm ch (\<lambda>c. dvc_idle c \<and> pc_queue c = q @ [dvc_message ch (got @ concat bs)]))"
proof (induction bs arbitrary: got vcm1)
  case Nil
  then show ?case by (auto simp: channel_becomes_def dvc_busy_def)
next
  case (Cons b bs)
  obtain c where c: "dvc_busy c got n" "pc_queue c = q" "pc_channelId c = ch" "vcm_drdynvc_state vcm1 = VCM_STATE_READY"
      "\<And>i. wts_get_dvc_channel_by_id vcm1 i = (if i = ch then Some c else wts_get_dvc_channel_by_id vcm i)"
    using Cons.prems(3) unfolding channel_becomes_def by blast
  let ?Q = "\<lambda>c'. if bs = [] then dvc_idle c' \<and> pc_queue c' = q @ [dvc_message ch (got @ b)] else dvc_busy c' (got @ b) n \<and> pc_queue c' = q"
  have less: "int (length got + length b) < n \<longleftrightarrow> bs \<noteq> []"
    using Cons.prems(1,2) by (cases bs) (auto simp: add_pos_nonneg)
  have "\<exists>c' k. wts_read_dvc M 3 (drop_bit 2 ((0x30 OR vcode ch) AND 0x0c)) c s (int (length b)) = Some (c', s_adv k s)
      \<and> ?Q c' \<and> pc_channelId c' = ch" if s: "s_ok s" "s_rest s = b @ slack" for s slack
  proof -
    have le: "int (length got + length b) \<le> n" using Cons.prems(2) by simp
    obtain c' where "wts_read_drdynvc_data M c s (int (length b)) = Some (c', s)" "pc_channelId c' = pc_channelId c"
        "if int (length got + length b) < n then dvc_busy c' (got @ b) n \<and> pc_queue c' = pc_queue c
         else dvc_idle c' \<and> pc_queue c' = pc_queue c @ [dvc_message (pc_channelId c) (got @ b)]"
      using recv_next [OF assms(1) c(1) assms(4) s le] by blast
    then show ?thesis using less c(2,3) by (intro exI [of _ c'] exI [of _ 0]) (auto simp: wts_read_dvc_def)
  qed
  then have p: "processes M (data_unit ch b) vcm1 (channel_becomes vcm1 ch ?Q)"
    unfolding data_unit_def using c(4,5) Cons.prems(1) unit_header
    by (intro unit_processed [where Cmd = 3 and c = c] assms(2,3)) auto
  have len: "data_unit ch b \<noteq> []" "length (data_unit ch b) \<le> 1000000"
    using Cons.prems(1) vbytes_length [of ch] by (auto simp: data_unit_def)
  have same: "channel_becomes vcm1 ch R v \<Longrightarrow> channel_becomes vcm ch R v" for R v
    unfolding channel_becomes_def c(5) by (elim conjE exE) (intro conjI exI, auto)
  show ?case unfolding list.map
  proof (rule arrives_cons [OF assms(1) p len])
    fix v assume v: "channel_becomes vcm1 ch ?Q v"
    show "arrives M (map (data_unit ch) bs) v (channel_becomes vcm ch (\<lambda>c. dvc_idle c \<and> pc_queue c = q @ [dvc_message ch (got @ concat (b # bs))]))"
    proof (cases "bs = []")
      case True
      then show ?thesis using same [OF v] by (simp add: arrives_nil)
    next
      case False
      then show ?thesis using Cons.IH [of "got @ b" v] Cons.prems(1,2) same [OF v] by simp
    qed
  qed
qed

lemma message_arrives:
  assumes "\<forall>n. M n \<noteq> None" and "dvc_sendable ch data" and "vcm_drdynvc_state vcm = VCM_STATE_READY"
    and "wts_get_dvc_channel_by_id vcm ch = Some c" and "dvc_idle c"
  shows "arrives M (dvc_units ch data) vcm (channel_becomes vcm ch (has_got c [data]))"
proof -
  have ch: "0 \<le> ch" "ch < 4294967296" "data \<noteq> []" using assms(2) by (simp_all add: dvc_sendable_def)
  have id: "pc_channelId c = ch" using assms(4) by (auto simp: wts_get_dvc_channel_by_id_def find_Some_iff)
  obtain p where p: "pc_dvc_total_length c = 0" "loaded (pc_receiveData c) p" using assms(5) unfolding dvc_idle_def by blast
  show ?thesis
  proof (cases "length data \<le> 1600")
    case True
    have "\<exists>c' k. wts_read_dvc M 3 (drop_bit 2 ((0x30 OR vcode ch) AND 0x0c)) c s (int (length data)) = Some (c', s_adv k s)
        \<and> has_got c [data] c' \<and> pc_channelId c' = ch" if s: "s_ok s" "s_rest s = data @ slack" for s slack
      using recv_whole [OF assms(1) p(1) s] id assms(5)
      by (intro exI [of _ "c\<lparr>pc_queue := pc_queue c @ [dvc_message (pc_channelId c) data]\<rparr>"] exI [of _ 0])
        (simp add: wts_read_dvc_def has_got_def dvc_idle_def)
    then have "processes M (data_unit ch data) vcm (channel_becomes vcm ch (has_got c [data]))"
      unfolding data_unit_def using assms(3,4) True unit_header
      by (intro unit_processed [where Cmd = 3 and c = c] ch) auto
    moreover have "data_unit ch data \<noteq> []" "length (data_unit ch data) \<le> 1000000"
      using True vbytes_length [of ch] by (auto simp: data_unit_def)
    ultimately show ?thesis unfolding dvc_units_def using True
      by (simp add: arrives_cons [OF assms(1)] arrives_nil)
  next
    case False
    let ?n = "int (length data)"
    let ?k = "1599 - length (vbytes ch) - length (vbytes ?n)"
    let ?b = "take ?k data"
    let ?bs = "dvc_pieces (1599 - length (vbytes ch)) (drop ?k data)"
    let ?h = "0x20 OR vcode ch OR push_bit 2 (vcode ?n)"
    let ?Q = "\<lambda>c'. dvc_busy c' ?b ?n \<and> pc_queue c' = pc_queue c"
    have n: "?n \<le> 67108864" "?n < 4294967296" "0 \<le> ?n" using assms(2) by (simp_all add: dvc_sendable_def)
    have small: "length (vbytes ch) \<le> 4" "length (vbytes ?n) \<le> 4" using vbytes_length by simp_all
    have b: "int (length ?b) < ?n" "length ?b \<le> 1600" using False by (auto simp: min_def)
    have "\<exists>c' k. wts_read_dvc M 2 (drop_bit 2 (?h AND 0x0c)) c s (int (length (vbytes ?n @ ?b))) = Some (c', s_adv k s)
        \<and> ?Q c' \<and> pc_channelId c' = ch" if s: "s_ok s" "s_rest s = (vbytes ?n @ ?b) @ slack" for s slack
    proof -
      have "s_rest s = vbytes ?n @ ?b @ slack" using s(2) by simp
      from recv_first [OF assms(1) p(2) s(1) this b(1) n(1)] obtain c' where
        "wts_read_drdynvc_data_first M c s (vcode ?n) (int (length (vbytes ?n) + length ?b)) = Some (c', s_adv (length (vbytes ?n)) s)"
        "dvc_busy c' ?b ?n" "pc_channelId c' = pc_channelId c" "pc_queue c' = pc_queue c" by blast
      then show ?thesis using id unit_header(5) [of ch ?n]
        by (intro exI [of _ c'] exI [of _ "length (vbytes ?n)"]) (simp add: wts_read_dvc_def)
    qed
    then have pr: "processes M (first_unit ch ?n ?b) vcm (channel_becomes vcm ch ?Q)"
      unfolding first_unit_def using assms(3,4) b small unit_header
      by (intro unit_processed [where Cmd = 2 and c = c] ch) auto
    have len: "first_unit ch ?n ?b \<noteq> []" "length (first_unit ch ?n ?b) \<le> 1000000"
      using b small by (auto simp: first_unit_def)
    have cat: "?b @ concat ?bs = data" using small by (simp add: pieces_concat)
    have bs: "\<forall>b \<in> set ?bs. b \<noteq> [] \<and> length b \<le> 1600" using pieces_bound by fastforce
    have tot: "int (length (?b @ concat ?bs)) = ?n" unfolding cat ..
    have "arrives M (map (data_unit ch) ?bs) v (channel_becomes vcm ch (has_got c [data]))" if "channel_becomes vcm ch ?Q v" for v
      using fragments_arrive [OF assms(1) ch(1,2) n(1) bs tot that] unfolding cat
      by (rule arrives_weaken) (simp add: has_got_def [abs_def] id)
    then show ?thesis unfolding dvc_units_def using False arrives_cons [OF assms(1) pr len] by (simp add: Let_def)
  qed
qed

section \<open>A session\<close>

text \<open>A run of writes, and the messages that each channel is due.\<close>

fun write_all :: "'w dvc \<Rightarrow> (int \<times> byte list) list \<Rightarrow> 'w drdynvcPlugin \<Rightarrow> 'w drdynvcPlugin option" where
  "write_all V [] p = Some p"
| "write_all V ((ch, data) # ms) p = do { (status, p) \<leftarrow> drdynvc_write_data V p ch data; if status = 0 then write_all V ms p else None }"

definition due :: "int \<Rightarrow> (int \<times> byte list) list \<Rightarrow> byte list list" where
  "due ch ms = map snd (filter (\<lambda>m. fst m = ch) ms)"

lemma write_all_sent:
  assumes "dvc_accepts V sent" and "dvc_memory V 1600 = Some j"
  shows "dp_channel_error p = 0 \<Longrightarrow> \<forall>(ch, data) \<in> set ms. dvc_sendable ch data \<Longrightarrow>
    \<exists>w'. write_all V ms p = Some (p\<lparr>dp_world := w'\<rparr>) \<and> sent w' = sent (dp_world p) @ concat (map (\<lambda>(ch, data). dvc_units ch data) ms)"
proof (induction ms arbitrary: p)
  case Nil
  then show ?case by (intro exI [of _ "dp_world p"]) simp
next
  case (Cons m ms)
  obtain ch data where m: "m = (ch, data)" by (cases m)
  obtain w1 where 1: "drdynvc_write_data V p ch data = Some (0, p\<lparr>dp_world := w1\<rparr>)" "sent w1 = sent (dp_world p) @ dvc_units ch data"
    using write_data_sent [OF assms Cons.prems(1), of ch data] Cons.prems(2) m by auto
  obtain w2 where "write_all V ms (p\<lparr>dp_world := w1\<rparr>) = Some (p\<lparr>dp_world := w2\<rparr>)"
      "sent w2 = sent w1 @ concat (map (\<lambda>(ch, data). dvc_units ch data) ms)"
    using Cons.IH [of "p\<lparr>dp_world := w1\<rparr>"] Cons.prems by auto
  with 1 m show ?case by (intro exI [of _ w2]) simp
qed

definition dvc_opened :: "WTSVirtualChannelManager \<Rightarrow> int \<Rightarrow> bool" where
  "dvc_opened vcm ch \<longleftrightarrow> (case wts_get_dvc_channel_by_id vcm ch of None \<Rightarrow> False | Some c \<Rightarrow> dvc_idle c)"

lemma messages_arrive:
  assumes "\<forall>n. M n \<noteq> None"
  shows "\<forall>(ch, data) \<in> set ms. dvc_sendable ch data \<and> dvc_opened vcm ch \<Longrightarrow> vcm_drdynvc_state vcm = VCM_STATE_READY \<Longrightarrow>
    arrives M (concat (map (\<lambda>(ch, data). dvc_units ch data) ms)) vcm
      (\<lambda>vcm'. \<forall>i. dvc_opened vcm i \<longrightarrow> (\<exists>c c'. wts_get_dvc_channel_by_id vcm i = Some c \<and> wts_get_dvc_channel_by_id vcm' i = Some c'
        \<and> has_got c (due i ms) c'))"
proof (induction ms arbitrary: vcm)
  case Nil
  then show ?case by (auto simp: dvc_opened_def has_got_def due_def split: option.splits intro!: arrives_nil)
next
  case (Cons m ms)
  obtain ch data where m: "m = (ch, data)" by (cases m)
  obtain c where c: "wts_get_dvc_channel_by_id vcm ch = Some c" "dvc_idle c"
    using Cons.prems(1) m by (auto simp: dvc_opened_def split: option.splits)
  have id: "pc_channelId c = ch" using c(1) by (auto simp: wts_get_dvc_channel_by_id_def find_Some_iff)
  have a: "arrives M (dvc_units ch data) vcm (channel_becomes vcm ch (has_got c [data]))"
    using Cons.prems m c by (intro message_arrives assms) auto
  have "arrives M (concat (map (\<lambda>(ch, data). dvc_units ch data) ms)) v
      (\<lambda>vcm'. \<forall>i. dvc_opened vcm i \<longrightarrow> (\<exists>c c'. wts_get_dvc_channel_by_id vcm i = Some c \<and> wts_get_dvc_channel_by_id vcm' i = Some c'
        \<and> has_got c (due i (m # ms)) c'))" if v: "channel_becomes vcm ch (has_got c [data]) v" for v
  proof -
    obtain c1 where c1: "has_got c [data] c1" "pc_channelId c1 = ch" "vcm_drdynvc_state v = VCM_STATE_READY"
        "\<And>i. wts_get_dvc_channel_by_id v i = (if i = ch then Some c1 else wts_get_dvc_channel_by_id vcm i)"
      using v unfolding channel_becomes_def by blast
    have o: "dvc_opened v i = dvc_opened vcm i" for i using c1 c by (simp add: dvc_opened_def has_got_def)
    have ih: "arrives M (concat (map (\<lambda>(ch, data). dvc_units ch data) ms)) v
      (\<lambda>vcm'. \<forall>i. dvc_opened v i \<longrightarrow> (\<exists>c c'. wts_get_dvc_channel_by_id v i = Some c \<and> wts_get_dvc_channel_by_id vcm' i = Some c'
        \<and> has_got c (due i ms) c'))"
      using Cons.IH [of v] Cons.prems(1) c1(3) o by auto
    have step: "has_got c1 (due ch ms) c' \<Longrightarrow> has_got c (due ch (m # ms)) c'" for c'
      using c1(1,2) id m by (simp add: has_got_def due_def)
    have skip: "i \<noteq> ch \<Longrightarrow> due i (m # ms) = due i ms" for i using m by (simp add: due_def)
    show ?thesis
    proof (rule arrives_weaken [OF ih], intro allI impI)
      fix vcm' i
      assume all: "\<forall>i. dvc_opened v i \<longrightarrow> (\<exists>c c'. wts_get_dvc_channel_by_id v i = Some c \<and> wts_get_dvc_channel_by_id vcm' i = Some c'
        \<and> has_got c (due i ms) c')" and i: "dvc_opened vcm i"
      then obtain d c' where d: "wts_get_dvc_channel_by_id v i = Some d" "wts_get_dvc_channel_by_id vcm' i = Some c'" "has_got d (due i ms) c'"
        using o by blast
      show "\<exists>c c'. wts_get_dvc_channel_by_id vcm i = Some c \<and> wts_get_dvc_channel_by_id vcm' i = Some c' \<and> has_got c (due i (m # ms)) c'"
      proof (cases "i = ch")
        case True
        then show ?thesis using d c1(4) c(1) step by auto
      next
        case False
        then show ?thesis using d c1(4) skip by auto
      qed
    qed
  qed
  then show ?case using arrives_append [OF a] m by simp
qed

text \<open>
  C1. The dynamic virtual channels: a client writes any messages to any channels that are open, in any order (each not empty and
  at most 64 MB long, and outside the few lengths of \<open>drdynvc_write_data_overflow\<close>). Every write succeeds, and
  however the units that were sent are cut into chunks on the way, the server takes all of them without an access outside a
  buffer, and then the queue of each channel has exactly the messages written to that channel behind what it held, in order.
\<close>

theorem dvc_session_roundtrip:
  assumes "dvc_accepts V sent" and "\<forall>n. dvc_memory V n \<noteq> None" and "\<forall>n. M n \<noteq> None" and "dp_channel_error p = 0"
    and "vcm_drdynvc_state vcm = VCM_STATE_READY" and "\<forall>(ch, data) \<in> set ms. dvc_sendable ch data \<and> dvc_opened vcm ch"
    and "loaded (pc_receiveData drdynvc) old"
  shows "\<exists>w' units. write_all V ms p = Some (p\<lparr>dp_world := w'\<rparr>) \<and> sent w' = sent (dp_world p) @ units
    \<and> (\<forall>cut. map concat cut = units \<longrightarrow> (\<exists>vcm' drdynvc' rest.
        foldM (receive_unit M) cut (vcm, drdynvc) = Some (vcm', drdynvc') \<and> loaded (pc_receiveData drdynvc') rest
        \<and> (\<forall>i c. wts_get_dvc_channel_by_id vcm i = Some c \<longrightarrow> dvc_idle c \<longrightarrow>
            (\<exists>c'. wts_get_dvc_channel_by_id vcm' i = Some c' \<and> dvc_idle c'
              \<and> pc_queue c' = pc_queue c @ map (dvc_message i) (due i ms)))))"
proof -
  obtain j where j: "dvc_memory V 1600 = Some j" using assms(2) by blast
  obtain w' where w': "write_all V ms p = Some (p\<lparr>dp_world := w'\<rparr>)"
      "sent w' = sent (dp_world p) @ concat (map (\<lambda>(ch, data). dvc_units ch data) ms)"
    using write_all_sent [OF assms(1) j assms(4), of ms] assms(6) by auto
  have "\<exists>vcm' drdynvc' rest. foldM (receive_unit M) cut (vcm, drdynvc) = Some (vcm', drdynvc') \<and> loaded (pc_receiveData drdynvc') rest
        \<and> (\<forall>i c. wts_get_dvc_channel_by_id vcm i = Some c \<longrightarrow> dvc_idle c \<longrightarrow>
            (\<exists>c'. wts_get_dvc_channel_by_id vcm' i = Some c' \<and> dvc_idle c'
              \<and> pc_queue c' = pc_queue c @ map (dvc_message i) (due i ms)))"
    if cut: "map concat cut = concat (map (\<lambda>(ch, data). dvc_units ch data) ms)" for cut
  proof -
    obtain vcm' d' r' where r: "foldM (receive_unit M) cut (vcm, drdynvc) = Some (vcm', d')" "loaded (pc_receiveData d') r'"
      "\<forall>i. dvc_opened vcm i \<longrightarrow> (\<exists>c c'. wts_get_dvc_channel_by_id vcm i = Some c \<and> wts_get_dvc_channel_by_id vcm' i = Some c'
        \<and> has_got c (due i ms) c')"
      using messages_arrive [OF assms(3,6,5)] cut assms(7) unfolding arrives_def by blast
    have "\<exists>c'. wts_get_dvc_channel_by_id vcm' i = Some c' \<and> dvc_idle c' \<and> pc_queue c' = pc_queue c @ map (dvc_message i) (due i ms)"
      if c: "wts_get_dvc_channel_by_id vcm i = Some c" "dvc_idle c" for i c
    proof -
      have "pc_channelId c = i" using c(1) by (auto simp: wts_get_dvc_channel_by_id_def find_Some_iff)
      then show ?thesis using r(3) c by (force simp: dvc_opened_def has_got_def)
    qed
    with r show ?thesis by (intro exI [of _ vcm'] exI [of _ d'] exI [of _ r']) blast
  qed
  with w' show ?thesis by blast
qed

section \<open>A concrete session\<close>

text \<open>The units are the world of the client; the server has opened the channels 7 and 300.\<close>

definition dvc_client :: "byte list list dvc" where
  "dvc_client = \<lparr>dvc_memory = (\<lambda>n. Some (\<lambda>i. 0)), pVirtualChannelWrite = (\<lambda>u w. (0, w @ [u])),
     dvc_StreamPool_Take = (\<lambda>n w. (None, w)), OnNewChannelConnection = (\<lambda>l c w. (True, w)), OnChannelConnected = (\<lambda>l w. w),
     OnChannelDisconnected = (\<lambda>l w. w), OnOpen = (\<lambda>c w. w), OnClose = (\<lambda>c w. w), OnDataReceived = (\<lambda>c d w. (0, w))\<rparr>"

definition dvc_plugin :: "byte list list drdynvcPlugin" where
  "dvc_plugin = \<lparr>dp_world = [], dp_data_in = None, dp_queue = [], dp_state = 2, dp_version = 1, dp_PriorityCharge = [0, 0, 0, 0],
     dp_channel_error = 0, dp_listeners = [], dp_channels = []\<rparr>"

definition dvc_channel :: "int \<Rightarrow> rdpPeerChannel" where
  "dvc_channel ch = \<lparr>pc_channelId = ch, pc_dynamic = True, pc_receiveData = blank 1600, pc_queue = [], pc_dvc_open_state = 1,
     pc_dvc_total_length = 0\<rparr>"

definition dvc_server :: WTSVirtualChannelManager where
  "dvc_server = \<lparr>vcm_queue = [], vcm_drdynvc_channel = None, vcm_drdynvc_state = 2, vcm_dvc_channel_id_seq = 301,
     vcm_dynamicVirtualChannels = [dvc_channel 7, dvc_channel 300], vcm_VirtualChannelChunkSize = 1600\<rparr>"

lemma blank_loaded: "loaded (blank 1600) []"
  by (simp add: loaded_def holds_def)

lemma dvc_server_opened: "wts_get_dvc_channel_by_id dvc_server 7 = Some (dvc_channel 7)"
    "wts_get_dvc_channel_by_id dvc_server 300 = Some (dvc_channel 300)" "dvc_idle (dvc_channel ch)" "dvc_opened dvc_server 7" "dvc_opened dvc_server 300"
  using blank_loaded by (auto simp: wts_get_dvc_channel_by_id_def dvc_server_def dvc_channel_def dvc_idle_def dvc_opened_def)

theorem dvc_session_roundtrip_witness:
  "\<exists>w' vcm' drdynvc'. write_all dvc_client [(7, [1, 2, 3]), (300, replicate 5000 9), (7, [4])] dvc_plugin = Some (dvc_plugin\<lparr>dp_world := w'\<rparr>)
    \<and> foldM (receive_unit (\<lambda>n. Some (\<lambda>i. 0))) (map (\<lambda>u. [u]) w') (dvc_server, dvc_channel 0) = Some (vcm', drdynvc')
    \<and> map_option pc_queue (wts_get_dvc_channel_by_id vcm' 7) = Some [dvc_message 7 [1, 2, 3], dvc_message 7 [4]]
    \<and> map_option pc_queue (wts_get_dvc_channel_by_id vcm' 300) = Some [dvc_message 300 (replicate 5000 9)]"
proof -
  let ?ms = "[(7, [1, 2, 3]), (300, replicate 5000 9), (7, [4])] :: (int \<times> byte list) list"
  have a: "dvc_accepts dvc_client id" by (simp add: dvc_accepts_def dvc_client_def)
  have s: "\<forall>(ch, data) \<in> set ?ms. dvc_sendable ch data \<and> dvc_opened dvc_server ch"
    using dvc_server_opened by (simp add: dvc_sendable_def vbytes_def)
  obtain w' where w: "write_all dvc_client ?ms dvc_plugin = Some (dvc_plugin\<lparr>dp_world := w'\<rparr>)"
    and r: "\<And>cut. map concat cut = w' \<Longrightarrow> \<exists>vcm' drdynvc' rest.
        foldM (receive_unit (\<lambda>n. Some (\<lambda>i. 0))) cut (dvc_server, dvc_channel 0) = Some (vcm', drdynvc')
        \<and> loaded (pc_receiveData drdynvc') rest
        \<and> (\<forall>i c. wts_get_dvc_channel_by_id dvc_server i = Some c \<longrightarrow> dvc_idle c \<longrightarrow>
            (\<exists>c'. wts_get_dvc_channel_by_id vcm' i = Some c' \<and> dvc_idle c'
              \<and> pc_queue c' = pc_queue c @ map (dvc_message i) (due i ?ms)))"
    using dvc_session_roundtrip [OF a _ _ _ _ s, of "\<lambda>n. Some (\<lambda>i. 0)" dvc_plugin "dvc_channel 0" "[]"] blank_loaded
    by (auto simp: dvc_client_def dvc_plugin_def dvc_server_def dvc_channel_def)
  have "map concat (map (\<lambda>u. [u]) w') = w'" by (simp add: comp_def)
  from r [OF this] obtain vcm' d' where v:
    "foldM (receive_unit (\<lambda>n. Some (\<lambda>i. 0))) (map (\<lambda>u. [u]) w') (dvc_server, dvc_channel 0) = Some (vcm', d')"
    "\<And>i c. wts_get_dvc_channel_by_id dvc_server i = Some c \<Longrightarrow> dvc_idle c \<Longrightarrow>
        \<exists>c'. wts_get_dvc_channel_by_id vcm' i = Some c' \<and> pc_queue c' = pc_queue c @ map (dvc_message i) (due i ?ms)"
    by blast
  show ?thesis using w v(1) v(2) [OF dvc_server_opened(1,3)] v(2) [OF dvc_server_opened(2,3)]
    by (intro exI [of _ w'] exI [of _ vcm'] exI [of _ d'] conjI) (auto simp: due_def dvc_channel_def)
qed

end
