(* ===== verification/DvcSafety.thy ===== *)
theory DvcSafety
  imports DvcLink
begin

text \<open>
  Where the dynamic virtual channels leave their buffers: lengths that the client takes for one unit although its header does
  not fit any more, and units of a client that make the server read or write outside a buffer.
\<close>

section \<open>The client\<close>

text \<open>
  C12. The test that decides whether the data fit into one unit forgets the header in front of them: data of at most 1600
  bytes that leave too little room for the header are written past the end of the chunk.
\<close>

theorem drdynvc_write_data_overflow:
  assumes "dp_channel_error p = 0" and "dvc_memory V 1600 = Some j"
    and "1599 - length (vbytes ch) < length data" and "length data \<le> 1600"
  shows "drdynvc_write_data V p ch data = None"
proof -
  obtain s0 b where s0: "dvc_unit V ch = Some (vcode ch, s0)" "holds s0 (b # vbytes ch)" "s_capacity s0 = 1600"
    using unit_starts [OF assms(2)] by blast
  obtain s1 where s1: "dvc_first_byte s0 (0x30 OR vcode ch) = Some s1" "holds s1 (word_of_int (0x30 OR vcode ch) # vbytes ch)"
      "s_capacity s1 = 1600" using first_byte_set [OF s0(2)] s0(3) by auto
  have "Stream_Write s1 data = None"
    using s1(2,3) assms(3) vbytes_length [of ch] by (simp add: Stream_Write_def ablit_def holds_def)
  moreover have "data \<noteq> []" using assms(3) vbytes_length [of ch] by auto
  ultimately show ?thesis using assms(1,4) s0(1) s1(1) by (simp add: drdynvc_write_data_def Let_def)
qed

theorem drdynvc_write_data_overflow_witness:
  "drdynvc_write_data dvc_client dvc_plugin 7 (replicate 1599 0) = None"
  by (rule drdynvc_write_data_overflow) (simp_all add: dvc_client_def dvc_plugin_def vbytes_def)

section \<open>The server\<close>

lemma unit_crashes:
  assumes "\<forall>n. M n \<noteq> None" and "loaded (pc_receiveData d) p" and "u \<noteq> []" and "length u \<le> 1000000"
    and "\<And>s. loaded s u \<Longrightarrow> wts_read_drdynvc_pdu M vcm s = None"
  shows "receive_unit M [u] (vcm, d) = None"
proof -
  obtain s where "loaded s u" "receive_unit M [u] (vcm, d) =
      do { (vcm, s) \<leftarrow> wts_read_drdynvc_pdu M vcm s; s \<leftarrow> Stream_SetPosition s 0; Some (vcm, d\<lparr>pc_receiveData := s\<rparr>) }"
    using chunks_joined [OF assms(1) _ assms(2), of "[u]" "[]" True "int (length u)" vcm] assms(3,4)
    by (auto simp: receive_unit_def)
  with assms(5) show ?thesis by simp
qed

text \<open>A unit of the single byte 0x30 after a unit for the channel \<open>ch\<close>: the identifier is read from what that one left.\<close>

lemma short_unit_overrun:
  assumes "loaded s [0x30]" and "s_buffer s ! 1 = word_of_int ch" and "2 \<le> s_capacity s" and "0 \<le> ch" "ch < 256"
    and "vcm_drdynvc_state vcm = VCM_STATE_READY" and "wts_get_dvc_channel_by_id vcm ch = Some c" and "pc_dvc_total_length c = 0"
  shows "wts_read_drdynvc_pdu M vcm s = None"
proof -
  let ?s = "s\<lparr>s_pos := 0\<rparr>"
  note r = loaded_rewind [OF assms(1)]
  obtain x xs where b: "s_buffer s = 0x30 # x # xs" "s_length s = int (length (s_buffer s))" "int (length (s_buffer s)) \<le> 268435456" "s_pos s = 1"
    using assms(1,3) by (cases "s_buffer s"; cases "tl (s_buffer s)") (auto simp: loaded_def holds_def)
  have x: "x = word_of_int ch" using b(1) assms(2) by simp
  have rest: "s_rest ?s = word_of_int 48 # word_of_int ch # xs" using r(4) b(1) x by simp
  have 1: "Stream_Read_UINT8 ?s = Some (48, s_adv 1 ?s)" using read_byte [OF r(3) rest] by simp
  have ok: "s_ok (s_adv 1 ?s)" "s_rest (s_adv 1 ?s) = vbytes ch @ xs" using r(3) rest assms(5) by (simp_all add: vbytes_def)
  have 2: "wts_read_variable_uint (s_adv 1 ?s) 0 = Some ((1, Some ch), s_adv 2 ?s)"
    using read_variable_uint(1) [OF ok assms(4)] assms(5) by (simp add: vcode_def vbytes_def numeral_2_eq_2)
  have "ablock (s_buffer (s_adv 2 ?s)) (s_pos (s_adv 2 ?s)) 4294967295 = None"
    using b(3) by (simp add: ablock_def s_adv_def)
  then have "wts_queue_receive_data M c (s_buffer (s_adv 2 ?s)) (s_pos (s_adv 2 ?s)) 4294967295 = None"
    by (cases "M (12 + 4294967295)") (simp_all add: wts_queue_receive_data_def)
  then show ?thesis using r(1) b(4) 1 2 assms(6-8)
    by (simp add: wts_read_drdynvc_pdu_def wts_read_dvc_def wts_read_drdynvc_data_def Let_def)
qed

text \<open>
  C10. The number of bytes behind the identifier is computed without a test whether the identifier was there. After any message to
  an open channel whose identifier has one byte, a unit of the single byte 0x30 takes the identifier from the bytes that the message
  left in the buffer, the length wraps to 0xFFFFFFFF, and the server copies as many bytes from behind its buffer.
\<close>

theorem wts_short_unit_overrun:
  assumes "\<forall>n. M n \<noteq> None" and "vcm_drdynvc_state vcm = VCM_STATE_READY" and "0 \<le> ch" and "ch < 256" and "dvc_opened vcm ch"
    and "loaded (pc_receiveData d) p" and "length body \<le> 1600"
  shows "foldM (receive_unit M) [[data_unit ch body], [[0x30]]] (vcm, d) = None"
proof -
  obtain c where c: "wts_get_dvc_channel_by_id vcm ch = Some c" "dvc_idle c" using assms(5) by (auto simp: dvc_opened_def split: option.splits)
  have id: "pc_channelId c = ch" using c(1) by (auto simp: wts_get_dvc_channel_by_id_def find_Some_iff)
  let ?u = "data_unit ch body"
  let ?c = "c\<lparr>pc_queue := pc_queue c @ [dvc_message (pc_channelId c) body]\<rparr>"
  let ?v = "vcm\<lparr>vcm_dynamicVirtualChannels := set_channel ch ?c (vcm_dynamicVirtualChannels vcm)\<rparr>"
  obtain s where s: "loaded s ?u" "receive_unit M [?u] (vcm, d) =
      do { (vcm, s) \<leftarrow> wts_read_drdynvc_pdu M vcm s; s \<leftarrow> Stream_SetPosition s 0; Some (vcm, d\<lparr>pc_receiveData := s\<rparr>) }"
    using chunks_joined [OF assms(1) _ assms(6), of "[?u]" "[]" True "int (length ?u)" vcm] assms(7) vbytes_length [of ch]
    by (auto simp: receive_unit_def data_unit_def)
  let ?s = "s_adv (Suc (length (vbytes ch))) (s\<lparr>s_pos := 0\<rparr>)"
  note s' = s(1) [unfolded data_unit_def]
  note r = loaded_rewind [OF s']
  have ok: "s_ok ?s" "s_rest ?s = body @ drop (length (word_of_int (0x30 OR vcode ch) # vbytes ch @ body)) (s_buffer s)" using r(3,4) by simp_all
  have "wts_read_dvc M 3 (drop_bit 2 ((0x30 OR vcode ch) AND 0x0c)) c ?s (int (length body)) = Some (?c, ?s)"
    using recv_whole [OF assms(1) _ ok] c(2) by (simp add: wts_read_dvc_def dvc_idle_def)
  then have "wts_read_drdynvc_pdu M vcm s = Some (?v, ?s)"
    using unit_read [OF s', of 3 vcm c M] unit_header assms(2-4,7) c(1) by simp
  then have one: "receive_unit M [?u] (vcm, d) = Some (?v, d\<lparr>pc_receiveData := s\<lparr>s_pos := 0\<rparr>\<rparr>)"
    using s(2) by (simp add: Stream_SetPosition_def s_adv_def)
  have get: "wts_get_dvc_channel_by_id ?v ch = Some ?c" using get_set_channel [OF c(1), of ?c ch] id by simp
  have vb: "vbytes ch = [word_of_int ch]" using assms(4) by (simp add: vbytes_def)
  have buf: "take (2 + length body) (s_buffer s) = word_of_int (0x30 OR vcode ch) # word_of_int ch # body" "2 + length body \<le> length (s_buffer s)"
    using s' vb by (simp_all add: loaded_def holds_def)
  then obtain y ys where ys: "s_buffer s = y # word_of_int ch # ys" by (cases "s_buffer s"; cases "tl (s_buffer s)") auto
  obtain j where j: "M 1 = Some j" using assms(1) by blast
  have cap: "s_capacity s = int (length (s_buffer s))" using s' by (simp add: loaded_def holds_def)
  let ?t = "s\<lparr>s_buffer := 0x30 # word_of_int ch # ys, s_pos := 1\<rparr>"
  have t: "loaded ?t [0x30]" using s' ys by (simp add: loaded_def holds_def)
  have none: "wts_read_drdynvc_pdu M ?v ?t = None"
    using ys cap c(2) assms(2,3,4) get by (intro short_unit_overrun [OF t, of ch _ ?c]) (simp_all add: dvc_idle_def)
  have "receive_unit M [[0x30]] (?v, d\<lparr>pc_receiveData := s\<lparr>s_pos := 0\<rparr>\<rparr>) = None"
    using ys cap j none by (simp add: receive_unit_def receive_chunk_def WTSProcessChannelData_def Stream_SetPosition_def
        Stream_EnsureRemainingCapacity_def csize_def Stream_Write_def ablit_def)
  then show ?thesis using one by simp
qed

theorem wts_short_unit_overrun_witness:
  "foldM (receive_unit (\<lambda>n. Some (\<lambda>i. 0))) [[data_unit 7 [1, 2, 3]], [[0x30]]] (dvc_server, dvc_channel 0) = None"
  using wts_short_unit_overrun [of "\<lambda>n. Some (\<lambda>i. 0)" dvc_server 7 "dvc_channel 0" "[]" "[1, 2, 3]"] dvc_server_opened(4) blank_loaded
  by (simp add: dvc_server_def dvc_channel_def)

text \<open>
  C11. The first unit of a message announces its length. When the unit itself holds more, it is dropped, but the announced length
  stays without the room for it, and the next unit of the channel is written past the end of the buffer.
\<close>

theorem wts_data_first_overflow:
  assumes "\<forall>n. M n \<noteq> None" and "vcm_drdynvc_state vcm = VCM_STATE_READY" and "0 \<le> ch" and "ch < 4294967296"
    and "wts_get_dvc_channel_by_id vcm ch = Some c" and "loaded (pc_receiveData c) got" and "loaded (pc_receiveData d) p"
    and "n < int (length body)" and "length body \<le> 900000" and "int (length got + length next_body) \<le> n"
    and "s_capacity (pc_receiveData c) < int (length got + length next_body)"
  shows "foldM (receive_unit M) [[first_unit ch n body], [data_unit ch next_body]] (vcm, d) = None"
proof -
  have id: "pc_channelId c = ch" using assms(5) by (auto simp: wts_get_dvc_channel_by_id_def find_Some_iff)
  have n: "0 < n" "n < 4294967296" "n < int (length body)"
    using assms(6,8-11) by (simp_all add: loaded_def holds_def)
  have vl: "length (vbytes ch) \<le> 4" "length (vbytes n) \<le> 4" using vbytes_length by simp_all
  let ?c = "c\<lparr>pc_dvc_total_length := n\<rparr>"
  have "\<exists>c' k. wts_read_dvc M 2 (drop_bit 2 ((0x20 OR vcode ch OR push_bit 2 (vcode n)) AND 0x0c)) c s (int (length (vbytes n @ body)))
      = Some (c', s_adv k s) \<and> c' = ?c \<and> pc_channelId c' = ch" if s: "s_ok s" "s_rest s = (vbytes n @ body) @ slack" for s slack
  proof -
    have "wts_read_variable_uint s (vcode n) = Some ((int (length (vbytes n)), Some n), s_adv (length (vbytes n)) s)"
      using read_variable_uint(1) [of s n "body @ slack"] s n by simp
    then show ?thesis using n id unit_header(5) [of ch n] assms(9)
      by (intro exI [of _ ?c] exI [of _ "length (vbytes n)"]) (simp add: wts_read_dvc_def wts_read_drdynvc_data_first_def)
  qed
  then have p: "processes M (first_unit ch n body) vcm (channel_becomes vcm ch (\<lambda>c'. c' = ?c))"
    unfolding first_unit_def using assms(2,5,9) vl unit_header
    by (intro unit_processed [where Cmd = 2 and c = c] assms(3,4)) auto
  have len: "first_unit ch n body \<noteq> []" "length (first_unit ch n body) \<le> 1000000" using assms(9) vl by (simp_all add: first_unit_def)
  obtain v d1 p1 where 1: "receive_unit M [first_unit ch n body] (vcm, d) = Some (v, d1)" "loaded (pc_receiveData d1) p1"
      "channel_becomes vcm ch (\<lambda>c'. c' = ?c) v"
    using unit_received [OF assms(1) p _ len assms(7), of "[first_unit ch n body]"] by auto
  have get: "wts_get_dvc_channel_by_id v ch = Some ?c" "vcm_drdynvc_state v = VCM_STATE_READY" using 1(3) by (auto simp: channel_becomes_def)
  have "wts_read_drdynvc_pdu M v s = None" if s: "loaded s (data_unit ch next_body)" for s
  proof -
    let ?s = "s_adv (Suc (length (vbytes ch))) (s\<lparr>s_pos := 0\<rparr>)"
    note s' = s [unfolded data_unit_def]
    note r = loaded_rewind [OF s']
    have "s_ok ?s" "s_rest ?s = next_body @ drop (length (word_of_int (0x30 OR vcode ch) # vbytes ch @ next_body)) (s_buffer s)"
      using r(3,4) by simp_all
    then have bl: "ablock (s_buffer ?s) (s_pos ?s) (int (length next_body)) = Some next_body"
      using ablock_rest [of ?s "int (length next_body)"] by simp
    have "Stream_Write (pc_receiveData c) next_body = None"
      using assms(6,11) by (simp add: Stream_Write_def ablit_def loaded_def holds_def)
    then have "wts_read_dvc M 3 (drop_bit 2 ((0x30 OR vcode ch) AND 0x0c)) ?c ?s (int (length next_body)) = None"
      using n(1) bl assms(6,10) by (simp add: wts_read_dvc_def wts_read_drdynvc_data_def loaded_def holds_def)
    then show ?thesis using unit_read [OF s', of 3 v ?c M] unit_header assms(3,4,8-10) get by simp
  qed
  moreover have "data_unit ch next_body \<noteq> []" "length (data_unit ch next_body) \<le> 1000000"
    using assms(8-10) vl by (simp_all add: data_unit_def)
  ultimately have "receive_unit M [data_unit ch next_body] (v, d1) = None"
    by (intro unit_crashes [OF assms(1) 1(2)])
  with 1(1) show ?thesis by simp
qed

theorem wts_data_first_overflow_witness:
  "foldM (receive_unit (\<lambda>n. Some (\<lambda>i. 0))) [[first_unit 7 5000 (replicate 5001 1)], [data_unit 7 (replicate 4000 2)]] (dvc_server, dvc_channel 0) = None"
  using wts_data_first_overflow [of "\<lambda>n. Some (\<lambda>i. 0)" dvc_server 7 "dvc_channel 7" "[]" "dvc_channel 0" "[]" 5000 "replicate 5001 1" "replicate 4000 2"]
    dvc_server_opened(1) blank_loaded
  by (simp add: dvc_server_def dvc_channel_def)

end
